(* ===== verification/Bochs_Prelude.thy ===== *)
theory Bochs_Prelude
  imports Main "HOL-Library.Word"
begin

text \<open>
  Shared vocabulary of the development: the fixed-width integer types of the emulator
  (\<open>Bit8u\<close> .. \<open>Bit64u\<close> of config.h), the C idiom \<open>w & m\<close> used as a condition, the
  bit-clearing and bit-setting idioms, and the lemmas on bits, bytes and small enumerations
  that the components share.
\<close>

unbundle bit_operations_syntax

section \<open>Integer types\<close>

type_synonym u8 = "8 word"
type_synonym u16 = "16 word"
type_synonym u32 = "32 word"
type_synonym u64 = "64 word"

section \<open>Collections\<close>

named_theorems bx_bit \<open>bits of the emulator's mask expressions\<close>
named_theorems bx_sim \<open>an operation of the code seen through its abstraction\<close>
named_theorems bx_inv \<open>operations preserve their component's invariant\<close>

section \<open>Conditions and masks\<close>

text \<open>A C integer used as a condition.\<close>

definition tst :: "'a::len word \<Rightarrow> 'a word \<Rightarrow> bool" where
  "tst w m \<longleftrightarrow> w AND m \<noteq> 0"

text \<open>The C expression \<open>1 << n\<close>.\<close>

definition shl1 :: "nat \<Rightarrow> 'a::len word" where
  "shl1 n = push_bit n 1"

lemma bit_shl1 [simp, bx_bit]:
  "bit (shl1 n :: 'a::len word) m \<longleftrightarrow> m = n \<and> n < LENGTH('a)"
  by (auto simp: shl1_def bit_push_bit_iff bit_1_iff simp del: push_bit_of_1)

lemma word_eq_0_iff_bits:
  "(w :: 'a::len word) = 0 \<longleftrightarrow> (\<forall>n < LENGTH('a). \<not> bit w n)"
  by (auto simp: bit_eq_iff dest: bit_imp_le_length)

lemma word_neq_0_bit:
  assumes "(w :: 'a::len word) \<noteq> 0"
  obtains n where "n < LENGTH('a)" "bit w n"
  using assms by (auto simp: word_eq_0_iff_bits)

lemma and_eq_0_iff_bits:
  "(w :: 'a::len word) AND v = 0 \<longleftrightarrow> (\<forall>n. \<not> (bit w n \<and> bit v n))"
  unfolding word_eq_0_iff_bits bit_and_iff using bit_imp_le_length [of w] by blast

lemma tst_shl1 [simp, bx_bit]:
  "tst (w :: 'a::len word) (shl1 n) \<longleftrightarrow> bit w n"
  by (auto simp: tst_def and_eq_0_iff_bits dest: bit_imp_le_length)

lemma bit_or_shl1 [simp, bx_bit]:
  "bit ((w :: 'a::len word) OR shl1 n) m \<longleftrightarrow> bit w m \<or> m = n \<and> n < LENGTH('a)"
  by (simp add: bit_or_iff)

lemma bit_and_not_shl1 [simp, bx_bit]:
  "bit ((w :: 'a::len word) AND NOT (shl1 n)) m \<longleftrightarrow> bit w m \<and> m \<noteq> n"
  by (auto simp: bit_and_iff bit_not_iff dest: bit_imp_le_length)

lemma bit_and_not [bx_bit]:
  "bit ((w :: 'a::len word) AND NOT v) m \<longleftrightarrow> bit w m \<and> \<not> bit v m"
  by (auto simp: bit_and_iff bit_not_iff dest: bit_imp_le_length)

section \<open>Bits of sums\<close>

text \<open>Splitting off the top bit of a truncation.\<close>

lemma take_bit_Suc_split:
  "take_bit (Suc n) (k :: int) = take_bit n k + (if bit k n then 2 ^ n else 0)"
  by (simp add: take_bit_Suc_from_most)

lemma bit_via_take_bit:
  "bit (k :: int) n \<longleftrightarrow> 2 ^ n \<le> take_bit (Suc n) k"
proof (cases "bit k n")
  case True
  then show ?thesis by (simp add: take_bit_Suc_split)
next
  case False
  then have "take_bit (Suc n) k < 2 ^ n" by (simp add: take_bit_Suc_split)
  with False show ?thesis by simp
qed

lemma bit_uint_sum_iff:
  fixes s :: "'a::len word"
  assumes "uint s = take_bit LENGTH('a) k" and "n < LENGTH('a)"
  shows "bit s n \<longleftrightarrow> 2 ^ n \<le> take_bit (Suc n) k"
proof -
  have "bit s n = bit (uint s) n" by (simp add: bit_uint_iff assms(2))
  also have "\<dots> = bit k n" using assms by (simp add: bit_take_bit_iff)
  finally show ?thesis by (simp add: bit_via_take_bit)
qed

section \<open>Promotion and truncation\<close>

lemma uint_ucast_up:
  "LENGTH('a) \<le> LENGTH('b) \<Longrightarrow> uint (ucast (x :: 'a::len word) :: 'b::len word) = uint x"
  by (simp add: unsigned_ucast_eq bintr_uint)

text \<open>Sums and differences that do not wrap.\<close>

lemma uint_plus_exact: "uint a + uint b < 2 ^ LENGTH('a) \<Longrightarrow> uint (a + b :: 'a::len word) = uint a + uint b"
  by (simp add: uint_word_ariths)

lemma uint_minus_exact: "uint b \<le> uint a \<Longrightarrow> uint (a - b :: 'a::len word) = uint a - uint b"
  using unsigned_less [of a] by (simp add: uint_word_ariths)

lemma bit_low:
  assumes "(ucast (v :: 'b::len word) :: 'a::len word) = x" "LENGTH('a) \<le> LENGTH('b)" "n < LENGTH('a)"
  shows "bit v n = bit x n"
  using assms by (auto simp: bit_unsigned_iff)

lemma ucast_down:
  assumes "LENGTH('a) \<le> LENGTH('b)"
  shows "(ucast (u + v :: 'b::len word) :: 'a::len word) = ucast u + ucast v"
    and "(ucast (u - v :: 'b word) :: 'a word) = ucast u - ucast v"
    and "(ucast (- v :: 'b word) :: 'a word) = - ucast v"
    and "(ucast (of_bool c :: 'b word) :: 'a word) = of_bool c"
    and "(ucast (u * v :: 'b word) :: 'a word) = ucast u * ucast v"
proof -
  have u: "uint (ucast w :: 'a word) = uint w mod 2 ^ LENGTH('a)" for w :: "'b word"
    by (simp add: unsigned_ucast_eq take_bit_eq_mod)
  have m: "k mod 2 ^ LENGTH('b) mod 2 ^ LENGTH('a) = k mod 2 ^ LENGTH('a)" for k :: int
    by (rule mod_mod_cancel) (simp add: assms le_imp_power_dvd)
  show "(ucast (u + v) :: 'a word) = ucast u + ucast v" "(ucast (u - v) :: 'a word) = ucast u - ucast v"
    "(ucast (- v) :: 'a word) = - ucast v" "(ucast (u * v) :: 'a word) = ucast u * ucast v"
    by (rule word_uint_eqI; simp only: u uint_word_ariths m mod_simps)+
  show "(ucast (of_bool c :: 'b word) :: 'a word) = of_bool c" by (cases c) simp_all
qed

lemma ucast_up_down:
  "LENGTH('a) \<le> LENGTH('b) \<Longrightarrow> ucast (ucast (x :: 'a::len word) :: 'b::len word) = x"
  by (rule bit_word_eqI) (auto simp: bit_unsigned_iff)

section \<open>Small enumerations\<close>

text \<open>A statement about all bytes is a statement about 256 numerals.\<close>

lemma all_u8_iff: "(\<forall>x :: u8. P x) \<longleftrightarrow> list_all (\<lambda>n. P (word_of_nat n)) [0..<256]"
proof
  assume *: "list_all (\<lambda>n. P (word_of_nat n)) [0..<256]"
  show "\<forall>x :: u8. P x"
  proof
    fix x :: u8
    have "unat x < 2 ^ 8" using unsigned_less [of x] by simp
    then have "unat x < 256" by simp
    moreover have "\<forall>n < 256. P (word_of_nat n)" using * by (auto simp: list_all_iff)
    ultimately have "P (word_of_nat (unat x))" by blast
    then show "P x" by simp
  qed
qed (simp add: list_all_iff)

lemma less_8_cases:
  assumes "(n :: nat) < 8"
  obtains "n = 0" | "n = 1" | "n = 2" | "n = 3" | "n = 4" | "n = 5" | "n = 6" | "n = 7"
proof -
  have "n = 0 \<or> n = 1 \<or> n = 2 \<or> n = 3 \<or> n = 4 \<or> n = 5 \<or> n = 6 \<or> n = 7"
    using assms by arith
  then show ?thesis using that by blast
qed

section \<open>Invariants of a device\<close>

text \<open>
  The interface every device model provides: a set of initial states, a step relation and an
  invariant that the former establish and the latter keeps.
\<close>

locale device =
  fixes start :: "'s \<Rightarrow> bool" and step :: "'s \<Rightarrow> 's \<Rightarrow> bool" and inv :: "'s \<Rightarrow> bool"
  assumes start_inv: "start s \<Longrightarrow> inv s"
    and step_inv: "inv s \<Longrightarrow> step s t \<Longrightarrow> inv t"
begin

lemma steps_inv: "step\<^sup>*\<^sup>* s t \<Longrightarrow> inv s \<Longrightarrow> inv t"
  by (induction rule: rtranclp_induct) (auto intro: step_inv)

lemma reachable_inv: "start s \<Longrightarrow> step\<^sup>*\<^sup>* s t \<Longrightarrow> inv t"
  using steps_inv start_inv by blast

text \<open>What holds in every invariant state holds along every run.\<close>

lemma reachable_consequence:
  assumes "\<And>s. inv s \<Longrightarrow> P s" "start s" "step\<^sup>*\<^sup>* s t"
  shows "P t"
  using assms reachable_inv by blast

end

end
