(* ===== verification/Lazy_Flags.thy ===== *)
theory Lazy_Flags
  imports Bochs_Prelude
begin

text \<open>
  The lazy condition codes of cpu/lazy\_flags.h. The emulator does not keep the six
  arithmetic flags OF, SF, ZF, AF, PF and CF of the guest. It keeps the sign-extended
  result of the last flag-setting instruction and a word \<open>auxbits\<close> of corrections, and
  computes a flag when an instruction reads it. This theory models the record
  \<open>bx_lazyflags_entry\<close>, its getters and setters, and the macros that the instruction
  handlers use to record a result, and proves that the lazy representation implements
  the architectural flags: every getter after a macro is the flag the instruction set
  manual prescribes, and every setter changes exactly its own flag.
\<close>

section \<open>Constants\<close>

definition BX_LF_SIGN_BIT :: nat where "BX_LF_SIGN_BIT = 63"

definition LF_BIT_SD :: nat where "LF_BIT_SD = 0"
definition LF_BIT_AF :: nat where "LF_BIT_AF = 3"
definition LF_BIT_PDB :: nat where "LF_BIT_PDB = 8"
definition LF_BIT_CF :: nat where "LF_BIT_CF = 31"
definition LF_BIT_PO :: nat where "LF_BIT_PO = 30"

definition LF_MASK_SD :: u32 where "LF_MASK_SD = push_bit LF_BIT_SD 1"
definition LF_MASK_AF :: u32 where "LF_MASK_AF = push_bit LF_BIT_AF 1"
definition LF_MASK_PDB :: u32 where "LF_MASK_PDB = push_bit LF_BIT_PDB 255"
definition LF_MASK_CF :: u32 where "LF_MASK_CF = push_bit LF_BIT_CF 1"
definition LF_MASK_PO :: u32 where "LF_MASK_PO = push_bit LF_BIT_PO 1"

lemmas lf_const_defs = BX_LF_SIGN_BIT_def LF_BIT_SD_def LF_BIT_AF_def LF_BIT_PDB_def
  LF_BIT_CF_def LF_BIT_PO_def LF_MASK_SD_def LF_MASK_AF_def LF_MASK_PDB_def
  LF_MASK_CF_def LF_MASK_PO_def

definition ADD_COUT_VEC :: "'a::len word \<Rightarrow> 'a word \<Rightarrow> 'a word \<Rightarrow> 'a word" where
  "ADD_COUT_VEC op1 op2 result = (op1 AND op2) OR ((op1 OR op2) AND NOT result)"

definition SUB_COUT_VEC :: "'a::len word \<Rightarrow> 'a word \<Rightarrow> 'a word \<Rightarrow> 'a word" where
  "SUB_COUT_VEC op1 op2 result = (NOT op1 AND op2) OR ((NOT op1 XOR op2) AND result)"

section \<open>The lazy entry, its getters and setters\<close>

record bx_lazyflags_entry =
  lf_result :: u64
  lf_auxbits :: u64

definition getB_OF :: "bx_lazyflags_entry \<Rightarrow> u32" where
  "getB_OF lf = ucast (drop_bit LF_BIT_CF (lf_auxbits lf + push_bit LF_BIT_PO 1) AND 1)"

definition get_OF :: "bx_lazyflags_entry \<Rightarrow> u32" where
  "get_OF lf = ucast ((lf_auxbits lf + push_bit LF_BIT_PO 1) AND push_bit LF_BIT_CF 1)"

definition getB_SF :: "bx_lazyflags_entry \<Rightarrow> u32" where
  "getB_SF lf = ucast ((drop_bit BX_LF_SIGN_BIT (lf_result lf)
     XOR drop_bit LF_BIT_SD (lf_auxbits lf)) AND 1)"

definition getB_ZF :: "bx_lazyflags_entry \<Rightarrow> u32" where
  "getB_ZF lf = of_bool (0 = lf_result lf)"

definition getB_AF :: "bx_lazyflags_entry \<Rightarrow> u32" where
  "getB_AF lf = ucast (drop_bit LF_BIT_AF (lf_auxbits lf) AND 1)"

definition get_AF :: "bx_lazyflags_entry \<Rightarrow> u32" where
  "get_AF lf = ucast (lf_auxbits lf AND ucast LF_MASK_AF)"

definition getB_PF :: "bx_lazyflags_entry \<Rightarrow> u32" where
  "getB_PF lf =
     (let temp = ucast (255 AND lf_result lf) :: u32;
          temp = temp XOR ucast (255 AND drop_bit LF_BIT_PDB (lf_auxbits lf));
          temp = (temp XOR drop_bit 4 temp) AND 0x0F
      in drop_bit (unat temp) 0x9669 AND 1)"

definition getB_CF :: "bx_lazyflags_entry \<Rightarrow> u32" where
  "getB_CF lf = ucast (drop_bit LF_BIT_CF (lf_auxbits lf) AND 1)"

definition get_CF :: "bx_lazyflags_entry \<Rightarrow> u32" where
  "get_CF lf = ucast (lf_auxbits lf AND ucast LF_MASK_CF)"

definition get_SF :: "bx_lazyflags_entry \<Rightarrow> u32" where "get_SF lf = getB_SF lf"
definition get_ZF :: "bx_lazyflags_entry \<Rightarrow> u32" where "get_ZF lf = getB_ZF lf"
definition get_PF :: "bx_lazyflags_entry \<Rightarrow> u32" where "get_PF lf = getB_PF lf"

definition set_flags_OxxxxC :: "u32 \<Rightarrow> u32 \<Rightarrow> bx_lazyflags_entry \<Rightarrow> bx_lazyflags_entry" where
  "set_flags_OxxxxC new_of new_cf lf =
     (let temp_po = new_of XOR new_cf;
          aux = lf_auxbits lf AND ucast (NOT (LF_MASK_PO OR LF_MASK_CF));
          aux = aux OR ucast (push_bit LF_BIT_PO temp_po OR push_bit LF_BIT_CF new_cf)
      in lf\<lparr>lf_auxbits := aux\<rparr>)"

definition assert_flags_OxxxxC :: "bx_lazyflags_entry \<Rightarrow> bx_lazyflags_entry" where
  "assert_flags_OxxxxC lf = set_flags_OxxxxC 1 1 lf"

text \<open>\<open>bool temp_cf = getB_CF()\<close> converts the getter's 0 or 1 to a bool and back.\<close>

definition set_OF :: "bool \<Rightarrow> bx_lazyflags_entry \<Rightarrow> bx_lazyflags_entry" where
  "set_OF val lf = (let temp_cf = (getB_CF lf \<noteq> 0)
     in set_flags_OxxxxC (of_bool val) (of_bool temp_cf) lf)"

definition clear_OF :: "bx_lazyflags_entry \<Rightarrow> bx_lazyflags_entry" where
  "clear_OF lf = (let temp_cf = (getB_CF lf \<noteq> 0) in set_flags_OxxxxC 0 (of_bool temp_cf) lf)"

definition assert_OF :: "bx_lazyflags_entry \<Rightarrow> bx_lazyflags_entry" where
  "assert_OF lf = (let temp_cf = getB_CF lf in set_flags_OxxxxC 1 temp_cf lf)"

definition set_SF :: "bool \<Rightarrow> bx_lazyflags_entry \<Rightarrow> bx_lazyflags_entry" where
  "set_SF val lf = (let temp_sf = (getB_SF lf \<noteq> 0)
     in lf\<lparr>lf_auxbits := lf_auxbits lf XOR push_bit LF_BIT_SD (of_bool (temp_sf \<noteq> val))\<rparr>)"

definition clear_SF :: "bx_lazyflags_entry \<Rightarrow> bx_lazyflags_entry" where
  "clear_SF lf = set_SF False lf"

definition assert_SF :: "bx_lazyflags_entry \<Rightarrow> bx_lazyflags_entry" where
  "assert_SF lf = set_SF True lf"

definition clear_ZF :: "bx_lazyflags_entry \<Rightarrow> bx_lazyflags_entry" where
  "clear_ZF lf = lf\<lparr>lf_result := lf_result lf OR push_bit 8 1\<rparr>"

definition assert_ZF :: "bx_lazyflags_entry \<Rightarrow> bx_lazyflags_entry" where
  "assert_ZF lf =
     (let aux = lf_auxbits lf XOR
            push_bit LF_BIT_SD (drop_bit BX_LF_SIGN_BIT (lf_result lf) AND 1);
          temp_pdb = ucast (255 AND lf_result lf) :: u32;
          aux = aux XOR ucast (push_bit LF_BIT_PDB temp_pdb)
      in lf\<lparr>lf_result := 0, lf_auxbits := aux\<rparr>)"

definition set_ZF :: "bool \<Rightarrow> bx_lazyflags_entry \<Rightarrow> bx_lazyflags_entry" where
  "set_ZF val lf = (if val then assert_ZF lf else clear_ZF lf)"

definition set_AF :: "bool \<Rightarrow> bx_lazyflags_entry \<Rightarrow> bx_lazyflags_entry" where
  "set_AF val lf = lf\<lparr>lf_auxbits := (lf_auxbits lf AND ucast (NOT LF_MASK_AF))
     OR push_bit LF_BIT_AF (of_bool val)\<rparr>"

definition clear_AF :: "bx_lazyflags_entry \<Rightarrow> bx_lazyflags_entry" where
  "clear_AF lf = lf\<lparr>lf_auxbits := lf_auxbits lf AND ucast (NOT LF_MASK_AF)\<rparr>"

definition assert_AF :: "bx_lazyflags_entry \<Rightarrow> bx_lazyflags_entry" where
  "assert_AF lf = lf\<lparr>lf_auxbits := lf_auxbits lf OR ucast LF_MASK_AF\<rparr>"

definition set_PF :: "bool \<Rightarrow> bx_lazyflags_entry \<Rightarrow> bx_lazyflags_entry" where
  "set_PF val lf =
     (let temp_pdb = ucast ((255 AND lf_result lf) XOR of_bool (\<not> val)) :: u32;
          aux = lf_auxbits lf AND ucast (NOT LF_MASK_PDB);
          aux = aux OR ucast (push_bit LF_BIT_PDB temp_pdb)
      in lf\<lparr>lf_auxbits := aux\<rparr>)"

definition clear_PF :: "bx_lazyflags_entry \<Rightarrow> bx_lazyflags_entry" where
  "clear_PF lf = set_PF False lf"

definition assert_PF :: "bx_lazyflags_entry \<Rightarrow> bx_lazyflags_entry" where
  "assert_PF lf = set_PF True lf"

definition set_CF :: "bool \<Rightarrow> bx_lazyflags_entry \<Rightarrow> bx_lazyflags_entry" where
  "set_CF val lf = (let temp_of = (getB_OF lf \<noteq> 0)
     in set_flags_OxxxxC (of_bool temp_of) (of_bool val) lf)"

definition clear_CF :: "bx_lazyflags_entry \<Rightarrow> bx_lazyflags_entry" where
  "clear_CF lf = (let temp_of = (getB_OF lf \<noteq> 0) in set_flags_OxxxxC (of_bool temp_of) 0 lf)"

definition assert_CF :: "bx_lazyflags_entry \<Rightarrow> bx_lazyflags_entry" where
  "assert_CF lf = (let temp_of = (getB_OF lf \<noteq> 0) in set_flags_OxxxxC (of_bool temp_of) 1 lf)"

section \<open>Recording a result\<close>

text \<open>
  The macros \<open>SET_FLAGS_OSZAPC_SIZE\<close> and \<open>SET_FLAGS_OSZAP_SIZE\<close>. Operands of sizes 8,
  16 and 32 are \<open>Bit32u\<close> in the handlers and those of size 64 are \<open>Bit64u\<close>: the type
  variable is that promoted type. \<open>lf_temp\<close> is the value of the macros' local
  \<open>temp\<close> after its four assignments.
\<close>

definition lf_temp :: "nat \<Rightarrow> 'a::len word \<Rightarrow> u64" where
  "lf_temp sz lf_carries =
     (if sz = 8 then ucast ((lf_carries AND ucast LF_MASK_AF) OR push_bit 24 lf_carries)
      else if sz = 16 then ucast ((lf_carries AND ucast LF_MASK_AF) OR push_bit 16 lf_carries)
      else if sz = 32 then ucast (lf_carries AND ucast (NOT (LF_MASK_PDB OR LF_MASK_SD)))
      else ucast ((lf_carries AND ucast LF_MASK_AF)
                  OR push_bit LF_BIT_PO (drop_bit (sz - 2) lf_carries)))"

definition SET_FLAGS_OSZAPC_SIZE ::
    "nat \<Rightarrow> 'a::len word \<Rightarrow> 'a word \<Rightarrow> bx_lazyflags_entry \<Rightarrow> bx_lazyflags_entry" where
  "SET_FLAGS_OSZAPC_SIZE sz lf_carries lf_res lf =
     lf\<lparr>lf_result := scast (signed_take_bit (sz - 1) lf_res),
        lf_auxbits := ucast (ucast (lf_temp sz lf_carries) :: u32)\<rparr>"

definition SET_FLAGS_OSZAP_SIZE ::
    "nat \<Rightarrow> 'a::len word \<Rightarrow> 'a word \<Rightarrow> bx_lazyflags_entry \<Rightarrow> bx_lazyflags_entry" where
  "SET_FLAGS_OSZAP_SIZE sz lf_carries lf_res lf =
     (let temp = lf_temp sz lf_carries;
          delta_c = (lf_auxbits lf XOR temp) AND ucast LF_MASK_CF;
          delta_c = delta_c XOR drop_bit 1 delta_c
      in lf\<lparr>lf_result := scast (signed_take_bit (sz - 1) lf_res),
            lf_auxbits := ucast (ucast (temp XOR delta_c) :: u32)\<rparr>)"

definition SET_FLAGS_OSZAPC_LOGIC ::
    "nat \<Rightarrow> 'a::len word \<Rightarrow> bx_lazyflags_entry \<Rightarrow> bx_lazyflags_entry" where
  "SET_FLAGS_OSZAPC_LOGIC sz res = SET_FLAGS_OSZAPC_SIZE sz 0 res"

definition SET_FLAGS_OSZAPC_ADD ::
    "nat \<Rightarrow> 'a::len word \<Rightarrow> 'a word \<Rightarrow> 'a word \<Rightarrow> bx_lazyflags_entry \<Rightarrow> bx_lazyflags_entry" where
  "SET_FLAGS_OSZAPC_ADD sz op1 op2 s =
     SET_FLAGS_OSZAPC_SIZE sz (ADD_COUT_VEC op1 op2 s) s"

definition SET_FLAGS_OSZAPC_SUB ::
    "nat \<Rightarrow> 'a::len word \<Rightarrow> 'a word \<Rightarrow> 'a word \<Rightarrow> bx_lazyflags_entry \<Rightarrow> bx_lazyflags_entry" where
  "SET_FLAGS_OSZAPC_SUB sz op1 op2 diff =
     SET_FLAGS_OSZAPC_SIZE sz (SUB_COUT_VEC op1 op2 diff) diff"

definition SET_FLAGS_OSZAP_ADD ::
    "nat \<Rightarrow> 'a::len word \<Rightarrow> 'a word \<Rightarrow> 'a word \<Rightarrow> bx_lazyflags_entry \<Rightarrow> bx_lazyflags_entry" where
  "SET_FLAGS_OSZAP_ADD sz op1 op2 s =
     SET_FLAGS_OSZAP_SIZE sz (ADD_COUT_VEC op1 op2 s) s"

definition SET_FLAGS_OSZAP_SUB ::
    "nat \<Rightarrow> 'a::len word \<Rightarrow> 'a word \<Rightarrow> 'a word \<Rightarrow> bx_lazyflags_entry \<Rightarrow> bx_lazyflags_entry" where
  "SET_FLAGS_OSZAP_SUB sz op1 op2 diff =
     SET_FLAGS_OSZAP_SIZE sz (SUB_COUT_VEC op1 op2 diff) diff"

definition SET_FLAGS_OSZAxC_LOGIC ::
    "nat \<Rightarrow> 'a::len word \<Rightarrow> bx_lazyflags_entry \<Rightarrow> bx_lazyflags_entry" where
  "SET_FLAGS_OSZAxC_LOGIC sz res lf =
     (let saved_PF = (getB_PF lf \<noteq> 0)
      in set_PF saved_PF (SET_FLAGS_OSZAPC_SIZE sz 0 res lf))"

section \<open>The architectural flags\<close>

record arch_flags =
  fl_OF :: bool
  fl_SF :: bool
  fl_ZF :: bool
  fl_AF :: bool
  fl_PF :: bool
  fl_CF :: bool

definition lf_abs :: "bx_lazyflags_entry \<Rightarrow> arch_flags" where
  "lf_abs lf = \<lparr>fl_OF = getB_OF lf \<noteq> 0, fl_SF = getB_SF lf \<noteq> 0, fl_ZF = getB_ZF lf \<noteq> 0,
     fl_AF = getB_AF lf \<noteq> 0, fl_PF = getB_PF lf \<noteq> 0, fl_CF = getB_CF lf \<noteq> 0\<rparr>"

definition even_parity :: "u8 \<Rightarrow> bool" where
  "even_parity w \<longleftrightarrow> even (length (filter (bit w) [0..<8]))"

subsection \<open>What the getters read\<close>

lemma bit_add_exp_Suc:
  "bit (k + 2 ^ n :: int) (Suc n) \<longleftrightarrow> bit k (Suc n) \<noteq> bit k n"
proof -
  have "(k + 2 ^ n) div 2 ^ Suc n = (k div 2 ^ n + 1) div 2"
    using zdiv_zmult2_eq [of 2 "k + 2 ^ n" "2 ^ n"] div_add_self2 [of "2 ^ n :: int" k]
    by (simp add: ac_simps)
  moreover have "k div 2 ^ Suc n = (k div 2 ^ n) div 2"
    using zdiv_zmult2_eq [of 2 k "2 ^ n"] by (simp add: ac_simps)
  moreover have "odd ((q + 1) div 2) \<longleftrightarrow> odd (q div 2) \<noteq> odd q" for q :: int
    by presburger
  ultimately show ?thesis by (simp add: bit_iff_odd)
qed

lemma bit_add_PO:
  "bit ((a :: u64) + push_bit LF_BIT_PO 1) 31 \<longleftrightarrow> bit a 31 \<noteq> bit a 30"
proof -
  have "bit (a + 2 ^ 30) 31 = bit (uint (a + 2 ^ 30)) 31"
    by (simp only: bit_uint_iff) simp
  also have "uint (a + 2 ^ 30) = take_bit 64 (uint a + 2 ^ 30)"
    by (simp add: uint_word_ariths take_bit_eq_mod)
  also have "bit (take_bit 64 (uint a + 2 ^ 30)) 31 = bit (uint a + 2 ^ 30) 31"
    by (simp only: bit_take_bit_iff) simp
  also have "\<dots> = (bit (uint a) 31 \<noteq> bit (uint a) 30)"
    using bit_add_exp_Suc [of "uint a" 30] by simp
  finally show ?thesis by (simp add: lf_const_defs bit_uint_iff)
qed

lemma and_1_eq: "(w :: 'a::len word) AND 1 = of_bool (bit w 0)"
  by (simp add: and_one_eq mod_2_eq_odd bit_0)

lemma getB_OF_bits: "getB_OF lf = of_bool (bit (lf_auxbits lf) 31 \<noteq> bit (lf_auxbits lf) 30)"
  using bit_add_PO [of "lf_auxbits lf"]
  by (simp add: getB_OF_def and_1_eq LF_BIT_CF_def bit_drop_bit_eq)

lemma getB_SF_bits: "getB_SF lf = of_bool (bit (lf_result lf) 63 \<noteq> bit (lf_auxbits lf) 0)"
  by (simp add: getB_SF_def and_1_eq lf_const_defs bit_drop_bit_eq bit_xor_iff)
lemma getB_ZF_bits: "getB_ZF lf = of_bool (lf_result lf = 0)"
  by (auto simp add: getB_ZF_def)
lemma getB_AF_CF_bits:
  "getB_AF lf = of_bool (bit (lf_auxbits lf) 3)"
  "getB_CF lf = of_bool (bit (lf_auxbits lf) 31)"
  by (simp_all add: getB_AF_def getB_CF_def and_1_eq lf_const_defs bit_drop_bit_eq)

lemma mask_255: "(255 :: u64) = mask 8" by (simp add: mask_eq_exp_minus_1)

lemma parity_table:
  "list_all (\<lambda>k :: nat. bit (0x9669 :: u32) k \<longleftrightarrow>
     (bit k 0 \<longleftrightarrow> bit k 1 \<longleftrightarrow> bit k 2 \<longleftrightarrow> bit k 3)) [0..<16]"
  by code_simp

lemma parity_lookup:
  "drop_bit (unat (w AND 0x0F)) (0x9669 :: u32) AND 1
     = of_bool (bit (w :: u32) 0 \<longleftrightarrow> bit w 1 \<longleftrightarrow> bit w 2 \<longleftrightarrow> bit w 3)"
proof -
  have F: "(0x0F :: u32) = mask 4" by (simp add: mask_eq_exp_minus_1)
  let ?k = "unat (w AND 0x0F)"
  have "?k < 16"
    using take_bit_nat_less_exp [of 4 "unat w"]
    by (simp add: F flip: take_bit_eq_mask) (simp add: unsigned_take_bit_eq)
  moreover have "bit ?k i = bit w i" if "i < 4" for i
    using that by (simp add: F bit_unsigned_iff bit_and_iff bit_mask_iff)
  ultimately show ?thesis
    using parity_table by (simp add: and_1_eq bit_drop_bit_eq list_all_iff)
qed

lemma even_parity_xor:
  "even_parity t \<longleftrightarrow> (bit t 0 \<longleftrightarrow> bit t 1 \<longleftrightarrow> bit t 2 \<longleftrightarrow> bit t 3 \<longleftrightarrow>
     bit t 4 \<longleftrightarrow> bit t 5 \<longleftrightarrow> bit t 6 \<longleftrightarrow> bit t 7)"
proof -
  have l: "length (filter P xs) = sum_list (map (\<lambda>x. of_bool (P x)) xs)" for P and xs :: "nat list"
    by (induction xs) simp_all
  have u: "[0..<8] = [0, 1, 2, 3, 4, 5, 6, 7 :: nat]" by (simp add: upt_rec)
  show ?thesis unfolding even_parity_def l u by simp
qed

lemma parity_of_byte: "drop_bit (unat ((ucast t XOR drop_bit 4 (ucast t)) AND 0x0F :: u32)) 0x9669 AND 1
   = (of_bool (even_parity (t :: u8)) :: u32)"
  unfolding parity_lookup even_parity_xor by (simp add: bit_simps) argo

lemma getB_PF_bits:
  "getB_PF lf =
     of_bool (even_parity (ucast (lf_result lf) XOR ucast (drop_bit 8 (lf_auxbits lf))))"
proof -
  let ?t = "ucast (lf_result lf) XOR ucast (drop_bit 8 (lf_auxbits lf)) :: u8"
  have "(ucast (255 AND lf_result lf) XOR ucast (255 AND drop_bit LF_BIT_PDB (lf_auxbits lf)) :: u32) = ucast ?t"
    by (rule bit_word_eqI) (auto simp: bit_simps mask_255 lf_const_defs)
  then show ?thesis unfolding getB_PF_def Let_def by (simp only: parity_of_byte)
qed

subsection \<open>What the setters write\<close>

lemmas getB_bits = getB_OF_bits getB_SF_bits getB_ZF_bits getB_AF_CF_bits getB_PF_bits

abbreviation pdb_byte :: "bx_lazyflags_entry \<Rightarrow> u8" where
  "pdb_byte lf \<equiv> ucast (lf_result lf) XOR ucast (drop_bit 8 (lf_auxbits lf))"

lemma lf_abs_bits:
  "lf_abs lf = \<lparr>fl_OF = (bit (lf_auxbits lf) 31 \<noteq> bit (lf_auxbits lf) 30),
     fl_SF = (bit (lf_result lf) 63 \<noteq> bit (lf_auxbits lf) 0), fl_ZF = (lf_result lf = 0),
     fl_AF = bit (lf_auxbits lf) 3, fl_PF = even_parity (pdb_byte lf),
     fl_CF = bit (lf_auxbits lf) 31\<rparr>"
  by (simp add: lf_abs_def getB_bits)

lemma pdb_byte_eqI:
  assumes "\<And>n. n < 8 \<Longrightarrow> (bit (lf_result lf) n \<noteq> bit (lf_auxbits lf) (8 + n))
     = (bit (lf_result lf') n \<noteq> bit (lf_auxbits lf') (8 + n))"
  shows "pdb_byte lf = pdb_byte lf'"
  by (rule bit_word_eqI) (use assms in \<open>auto simp: bit_simps\<close>)

lemma lf_mask_values:
  "LF_MASK_SD = 1" "LF_MASK_AF = 8" "LF_MASK_PDB = 0xFF00" "LF_MASK_CF = 0x80000000"
  "LF_MASK_PO = 0x40000000"
  by (simp_all add: lf_const_defs)

lemma bit_lf_masks [simp]:
  "bit LF_MASK_SD n \<longleftrightarrow> n = 0" "bit LF_MASK_AF n \<longleftrightarrow> n = 3"
  "bit LF_MASK_PDB n \<longleftrightarrow> 8 \<le> n \<and> n < 16" "bit LF_MASK_CF n \<longleftrightarrow> n = 31"
  "bit LF_MASK_PO n \<longleftrightarrow> n = 30"
proof -
  have "(255 :: u32) = mask 8" by (simp add: mask_eq_exp_minus_1)
  then show "bit LF_MASK_PDB n \<longleftrightarrow> 8 \<le> n \<and> n < 16"
    unfolding LF_MASK_PDB_def LF_BIT_PDB_def by (auto simp only: bit_push_bit_iff bit_mask_iff) auto
qed (auto simp: LF_MASK_SD_def LF_MASK_AF_def LF_MASK_CF_def LF_MASK_PO_def LF_BIT_SD_def
  LF_BIT_AF_def LF_BIT_CF_def LF_BIT_PO_def bit_push_bit_iff bit_1_iff simp del: push_bit_of_1)

lemma lf_eq_iff: "(f :: arch_flags) = g \<longleftrightarrow> fl_OF f = fl_OF g \<and> fl_SF f = fl_SF g \<and> fl_ZF f = fl_ZF g
   \<and> fl_AF f = fl_AF g \<and> fl_PF f = fl_PF g \<and> fl_CF f = fl_CF g"
  by (cases f; cases g) auto

lemma bit_set_flags_OxxxxC:
  "bit (lf_auxbits (set_flags_OxxxxC (of_bool ov) (of_bool cy) lf)) n \<longleftrightarrow>
     (if n = 30 then ov \<noteq> cy else if n = 31 then cy else n < 30 \<and> bit (lf_auxbits lf) n)"
  by (auto simp: set_flags_OxxxxC_def Let_def bit_simps LF_BIT_PO_def LF_BIT_CF_def
      simp del: push_bit_of_1)

lemma set_flags_OxxxxC_abs [bx_sim]:
  "lf_abs (set_flags_OxxxxC (of_bool ov) (of_bool cy) lf) =
     (lf_abs lf)\<lparr>fl_OF := ov, fl_CF := cy\<rparr>"
proof -
  have r: "lf_result (set_flags_OxxxxC a b lf) = lf_result lf" for a b
    by (simp add: set_flags_OxxxxC_def Let_def)
  have "pdb_byte (set_flags_OxxxxC (of_bool ov) (of_bool cy) lf) = pdb_byte lf"
    by (rule pdb_byte_eqI) (simp add: bit_set_flags_OxxxxC r)
  then show ?thesis by (auto simp: lf_abs_bits bit_set_flags_OxxxxC r)
qed

lemma set_OF_abs [bx_sim]: "lf_abs (set_OF v lf) = (lf_abs lf)\<lparr>fl_OF := v\<rparr>"
  unfolding set_OF_def Let_def set_flags_OxxxxC_abs by (simp add: lf_abs_def)

lemma set_CF_abs [bx_sim]: "lf_abs (set_CF v lf) = (lf_abs lf)\<lparr>fl_CF := v\<rparr>"
  unfolding set_CF_def Let_def set_flags_OxxxxC_abs by (simp add: lf_abs_def)

lemma set_SF_abs [bx_sim]: "lf_abs (set_SF v lf) = (lf_abs lf)\<lparr>fl_SF := v\<rparr>"
proof -
  have b: "bit (lf_auxbits (set_SF v lf)) n \<longleftrightarrow>
      (if n = 0 then (bit (lf_auxbits lf) 0 \<noteq> ((getB_SF lf \<noteq> 0) \<noteq> v)) else bit (lf_auxbits lf) n)" for n
    by (auto simp: set_SF_def Let_def LF_BIT_SD_def bit_simps)
  have r: "lf_result (set_SF v lf) = lf_result lf" by (simp add: set_SF_def Let_def)
  have "pdb_byte (set_SF v lf) = pdb_byte lf" by (rule pdb_byte_eqI) (simp add: b r)
  then show ?thesis by (auto simp: lf_abs_bits b r getB_SF_bits)
qed

lemma set_AF_abs [bx_sim]: "lf_abs (set_AF v lf) = (lf_abs lf)\<lparr>fl_AF := v\<rparr>"
proof -
  have b: "n < 32 \<Longrightarrow> bit (lf_auxbits (set_AF v lf)) n \<longleftrightarrow> (if n = 3 then v else bit (lf_auxbits lf) n)" for n
    by (auto simp: set_AF_def LF_BIT_AF_def bit_simps)
  have r: "lf_result (set_AF v lf) = lf_result lf" by (simp add: set_AF_def)
  have "pdb_byte (set_AF v lf) = pdb_byte lf" by (rule pdb_byte_eqI) (simp add: b r)
  then show ?thesis by (auto simp: lf_abs_bits b r)
qed

lemma clear_ZF_abs: "lf_abs (clear_ZF lf) = (lf_abs lf)\<lparr>fl_ZF := False\<rparr>"
proof -
  have b: "bit (lf_result (clear_ZF lf)) n \<longleftrightarrow> n = 8 \<or> bit (lf_result lf) n" for n
    by (auto simp: clear_ZF_def bit_simps simp del: push_bit_of_1)
  have r: "lf_auxbits (clear_ZF lf) = lf_auxbits lf" by (simp add: clear_ZF_def)
  have "pdb_byte (clear_ZF lf) = pdb_byte lf" by (rule pdb_byte_eqI) (simp add: b r)
  moreover have "lf_result (clear_ZF lf) \<noteq> 0" using b [of 8] by auto
  ultimately show ?thesis by (simp add: lf_abs_bits b r)
qed

lemma assert_ZF_abs: "lf_abs (assert_ZF lf) = (lf_abs lf)\<lparr>fl_ZF := True\<rparr>"
proof -
  have b: "bit (lf_auxbits (assert_ZF lf)) n \<longleftrightarrow>
     (bit (lf_auxbits lf) n \<noteq> (n = 0 \<and> bit (lf_result lf) 63
        \<or> 8 \<le> n \<and> n < 16 \<and> bit (lf_result lf) (n - 8)))" for n
    by (auto simp: assert_ZF_def Let_def LF_BIT_SD_def BX_LF_SIGN_BIT_def LF_BIT_PDB_def mask_255
        and_1_eq bit_simps)
  have r: "lf_result (assert_ZF lf) = 0" by (simp add: assert_ZF_def Let_def)
  have "pdb_byte (assert_ZF lf) = pdb_byte lf" by (rule pdb_byte_eqI) (auto simp: b r)
  then show ?thesis by (auto simp: lf_abs_bits b r)
qed

lemma set_ZF_abs [bx_sim]: "lf_abs (set_ZF v lf) = (lf_abs lf)\<lparr>fl_ZF := v\<rparr>"
  by (simp add: set_ZF_def assert_ZF_abs clear_ZF_abs)

lemma set_PF_abs [bx_sim]: "lf_abs (set_PF v lf) = (lf_abs lf)\<lparr>fl_PF := v\<rparr>"
proof -
  have b: "n < 32 \<Longrightarrow> bit (lf_auxbits (set_PF v lf)) n \<longleftrightarrow>
     (if 8 \<le> n \<and> n < 16 then bit (lf_result lf) (n - 8) \<noteq> (n = 8 \<and> \<not> v)
      else bit (lf_auxbits lf) n)" for n
    by (auto simp: set_PF_def Let_def LF_BIT_PDB_def mask_255 bit_simps)
  have r: "lf_result (set_PF v lf) = lf_result lf" by (simp add: set_PF_def Let_def)
  have "pdb_byte (set_PF v lf) = of_bool (\<not> v)"
    by (rule bit_word_eqI) (auto simp: bit_simps b r)
  then have "even_parity (pdb_byte (set_PF v lf)) = v" by (simp add: even_parity_xor bit_simps)
  then show ?thesis by (simp add: lf_abs_bits b r)
qed

subsection \<open>Carries and borrows\<close>

lemma mod_top_add:
  fixes K P j :: int
  assumes "0 \<le> K" "K < 2 * P" "j \<in> {0, 1, 2}"
  shows "P \<le> (K + j * P) mod (2 * P) \<longleftrightarrow> odd j \<noteq> (P \<le> K)"
proof -
  have wrap: "(K + P) mod (2 * P) = (if P \<le> K then K - P else K + P)"
    using assms(1,2) mod_pos_pos_trivial [of "K - P" "2 * P"] mod_pos_pos_trivial [of "K + P" "2 * P"]
      mod_add_self2 [of "K - P" "2 * P"] by (auto simp: algebra_simps)
  have "K mod (2 * P) = K" using assms(1,2) by simp
  moreover have "(K + 2 * P) mod (2 * P) = K" using assms(1,2) by simp
  ultimately show ?thesis using assms wrap by auto
qed

lemma mod_top_sub:
  fixes K P j :: int
  assumes "- P \<le> K" "K < P" "j \<in> {-1, 0, 1}"
  shows "P \<le> (K + j * P) mod (2 * P) \<longleftrightarrow> odd j \<noteq> (K < 0)"
proof -
  have P: "0 < P" using assms(1,2) by linarith
  have plus: "(K + P) mod (2 * P) = K + P" using assms P by simp
  have "(K - P) mod (2 * P) = (K - P + 2 * P) mod (2 * P)" by (rule mod_add_self2 [symmetric])
  also have "K - P + 2 * P = K + P" by simp
  also note plus
  finally have minus: "(K - P) mod (2 * P) = K + P" .
  have zero: "K mod (2 * P) = (if K < 0 then K + 2 * P else K)"
    using assms P mod_pos_pos_trivial [of K "2 * P"] mod_pos_pos_trivial [of "K + 2 * P" "2 * P"]
      mod_add_self2 [of K "2 * P"] by (auto simp: algebra_simps)
  show ?thesis using assms plus minus zero by (auto split: if_splits)
qed

lemma trunc_parts:
  assumes "n < LENGTH('a)"
  shows "take_bit (Suc n) (uint (a :: 'a::len word))
    = take_bit n (uint a) + of_bool (bit a n) * 2 ^ n"
  using assms by (simp add: take_bit_Suc_split bit_uint_iff)

lemma bit_ADD_COUT_VEC:
  fixes a b s :: "'a::len word"
  assumes n: "n < LENGTH('a)" and s: "uint s = take_bit LENGTH('a) (uint a + uint b + of_bool c)"
  shows "bit (ADD_COUT_VEC a b s) n \<longleftrightarrow>
    2 ^ Suc n \<le> take_bit (Suc n) (uint a) + take_bit (Suc n) (uint b) + of_bool c"
proof -
  define K where "K = take_bit n (uint a) + take_bit n (uint b) + (of_bool c :: int)"
  define j where "j = (of_bool (bit a n) + of_bool (bit b n) :: int)"
  have K: "0 \<le> K" "K < 2 * 2 ^ n"
    using take_bit_int_less_exp [of n "uint a"] take_bit_int_less_exp [of n "uint b"]
      take_bit_nonnegative [of n "uint a"] take_bit_nonnegative [of n "uint b"]
    unfolding K_def by (cases c; simp only: of_bool_eq; linarith)+
  have j: "j \<in> {0, 1, 2}" by (auto simp: j_def)
  have sum: "take_bit (Suc n) (uint a) + take_bit (Suc n) (uint b) + of_bool c = K + j * 2 ^ n"
    using n by (simp add: trunc_parts K_def j_def algebra_simps)
  have "take_bit (Suc n) (uint a + uint b + of_bool c)
      = take_bit (Suc n) (take_bit (Suc n) (uint a) + take_bit (Suc n) (uint b) + of_bool c)"
    unfolding take_bit_eq_mod by (metis mod_add_eq mod_add_left_eq)
  then have "bit s n \<longleftrightarrow> 2 ^ n \<le> (K + j * 2 ^ n) mod (2 * 2 ^ n)"
    using bit_uint_sum_iff [OF s n] unfolding sum by (simp only: take_bit_eq_mod power_Suc)
  then have "bit s n \<longleftrightarrow> odd j \<noteq> (2 ^ n \<le> K)" using mod_top_add [OF K j] by simp
  then show ?thesis
    using n K unfolding sum by (auto simp: ADD_COUT_VEC_def bit_simps j_def)
qed

lemma bit_SUB_COUT_VEC:
  fixes a b d :: "'a::len word"
  assumes n: "n < LENGTH('a)" and d: "uint d = take_bit LENGTH('a) (uint a - uint b - of_bool c)"
  shows "bit (SUB_COUT_VEC a b d) n \<longleftrightarrow>
    take_bit (Suc n) (uint a) < take_bit (Suc n) (uint b) + of_bool c"
proof -
  define K where "K = take_bit n (uint a) - take_bit n (uint b) - (of_bool c :: int)"
  define j where "j = (of_bool (bit a n) - of_bool (bit b n) :: int)"
  have K: "- (2 ^ n) \<le> K" "K < 2 ^ n"
    using take_bit_int_less_exp [of n "uint a"] take_bit_int_less_exp [of n "uint b"]
      take_bit_nonnegative [of n "uint a"] take_bit_nonnegative [of n "uint b"]
    unfolding K_def by (cases c; simp only: of_bool_eq; linarith)+
  have j: "j \<in> {-1, 0, 1}" by (auto simp: j_def)
  have sum: "take_bit (Suc n) (uint a) - take_bit (Suc n) (uint b) - of_bool c = K + j * 2 ^ n"
    using n by (simp add: trunc_parts K_def j_def algebra_simps)
  have "take_bit (Suc n) (uint a - uint b - of_bool c)
      = take_bit (Suc n) (take_bit (Suc n) (uint a) - take_bit (Suc n) (uint b) - of_bool c)"
    unfolding take_bit_eq_mod by (metis mod_diff_eq mod_diff_left_eq)
  then have "bit d n \<longleftrightarrow> 2 ^ n \<le> (K + j * 2 ^ n) mod (2 * 2 ^ n)"
    using bit_uint_sum_iff [OF d n] unfolding sum by (simp only: take_bit_eq_mod power_Suc)
  then have "bit d n \<longleftrightarrow> odd j \<noteq> (K < 0)" using mod_top_sub [OF K j] by simp
  moreover have "take_bit (Suc n) (uint a) < take_bit (Suc n) (uint b) + of_bool c
      \<longleftrightarrow> K + j * 2 ^ n < 0" using sum by linarith
  ultimately show ?thesis
    using n K by (auto simp: SUB_COUT_VEC_def bit_simps j_def)
qed

subsection \<open>What the macros record\<close>

lemma bit_lf_temp:
  fixes cv :: "'b::len word"
  assumes "sz \<in> {8, 16, 32, 64}" "sz \<le> LENGTH('b)" "32 \<le> LENGTH('b)"
  shows "bit (lf_temp sz cv) 31 = bit cv (sz - 1)" "bit (lf_temp sz cv) 30 = bit cv (sz - 2)"
    "bit (lf_temp sz cv) 3 = bit cv 3" "\<not> bit (lf_temp sz cv) 0"
    "n < 8 \<Longrightarrow> \<not> bit (lf_temp sz cv) (8 + n)"
  using assms by (auto simp: lf_temp_def bit_simps LF_BIT_PO_def)


lemma recorded_result:
  fixes r :: "'b::len word"
  assumes "sz \<in> {8, 16, 32, 64}" "sz \<le> LENGTH('b)"
  defines "v \<equiv> scast (signed_take_bit (sz - 1) r) :: u64"
  shows "bit v 63 = bit r (sz - 1)" "n < 8 \<Longrightarrow> bit v n = bit r n"
    "v = 0 \<longleftrightarrow> take_bit sz r = 0"
proof -
  have b: "bit v m \<longleftrightarrow> m < 64 \<and> bit r (min m (sz - 1))" for m
  proof -
    have "min (sz - 1) (min (LENGTH('b) - 1) m) = min m (sz - 1)"
      using assms(1,2) by (auto simp: min_def)
    then show ?thesis
      unfolding v_def by (simp add: bit_signed_iff bit_signed_take_bit_iff min_less_iff_disj)
  qed
  show "bit v 63 = bit r (sz - 1)" using assms(1) by (auto simp: b)
  show "n < 8 \<Longrightarrow> bit v n = bit r n" using assms(1) by (auto simp: b min_def)
  have "take_bit sz r = 0 \<longleftrightarrow> (\<forall>m < sz. \<not> bit r m)"
    using assms(2) by (auto simp: word_eq_0_iff_bits bit_take_bit_iff)
  moreover have "v = 0 \<longleftrightarrow> (\<forall>m < 64. \<not> bit r (min m (sz - 1)))"
    by (auto simp: word_eq_0_iff_bits b)
  moreover have "(\<forall>m < 64. \<not> bit r (min m (sz - 1))) \<longleftrightarrow> (\<forall>m < sz. \<not> bit r m)"
  proof (intro iffI allI impI)
    fix m assume h: "\<forall>m < 64. \<not> bit r (min m (sz - 1))" and m: "m < sz"
    then have "m < 64" "min m (sz - 1) = m" using assms(1) by auto
    with h show "\<not> bit r m" by metis
  next
    fix m assume "\<forall>m < sz. \<not> bit r m"
    moreover have "min m (sz - 1) < sz" using assms(1) by auto
    ultimately show "\<not> bit r (min m (sz - 1))" by blast
  qed
  ultimately show "v = 0 \<longleftrightarrow> take_bit sz r = 0" by simp
qed

definition recorded :: "nat \<Rightarrow> 'b::len word \<Rightarrow> 'b word \<Rightarrow> arch_flags" where
  "recorded sz cv r = \<lparr>fl_OF = (bit cv (sz - 1) \<noteq> bit cv (sz - 2)), fl_SF = bit r (sz - 1),
     fl_ZF = (take_bit sz r = 0), fl_AF = bit cv 3, fl_PF = even_parity (ucast r),
     fl_CF = bit cv (sz - 1)\<rparr>"

lemma SET_FLAGS_OSZAPC_SIZE_abs:
  fixes r :: "'b::len word"
  assumes sz: "sz \<in> {8, 16, 32, 64}" "sz \<le> LENGTH('b)" "32 \<le> LENGTH('b)"
  shows "lf_abs (SET_FLAGS_OSZAPC_SIZE sz cv r lf) = recorded sz cv r"
proof -
  let ?lf = "SET_FLAGS_OSZAPC_SIZE sz cv r lf"
  have aux: "bit (lf_auxbits ?lf) n \<longleftrightarrow> n < 32 \<and> bit (lf_temp sz cv) n" for n
    by (auto simp: SET_FLAGS_OSZAPC_SIZE_def bit_simps)
  have res: "lf_result ?lf = scast (signed_take_bit (sz - 1) r)"
    by (simp add: SET_FLAGS_OSZAPC_SIZE_def)
  have "pdb_byte ?lf = ucast r"
    by (rule bit_word_eqI)
      (simp add: bit_xor_iff bit_unsigned_iff bit_drop_bit_eq aux res bit_lf_temp(5) [OF sz]
        recorded_result(2) [OF sz(1,2), unfolded One_nat_def])
  then show ?thesis
    unfolding lf_abs_bits
    by (simp add: aux res recorded_def recorded_result(1,3) [OF sz(1,2), unfolded One_nat_def]
        bit_lf_temp(1-4) [OF sz])
qed

lemma SET_FLAGS_OSZAP_SIZE_abs:
  fixes r :: "'b::len word"
  assumes sz: "sz \<in> {8, 16, 32, 64}" "sz \<le> LENGTH('b)" "32 \<le> LENGTH('b)"
  shows "lf_abs (SET_FLAGS_OSZAP_SIZE sz cv r lf)
    = (recorded sz cv r)\<lparr>fl_CF := fl_CF (lf_abs lf)\<rparr>"
proof -
  let ?lf = "SET_FLAGS_OSZAP_SIZE sz cv r lf"
  define d where "d = (bit (lf_auxbits lf) 31 \<noteq> bit (lf_temp sz cv) 31)"
  have aux: "bit (lf_auxbits ?lf) n \<longleftrightarrow> n < 32 \<and> (bit (lf_temp sz cv) n \<noteq> ((n = 31 \<or> n = 30) \<and> d))" for n
    by (auto simp: SET_FLAGS_OSZAP_SIZE_def Let_def bit_simps d_def)
  have res: "lf_result ?lf = scast (signed_take_bit (sz - 1) r)"
    by (simp add: SET_FLAGS_OSZAP_SIZE_def Let_def)
  have "pdb_byte ?lf = ucast r"
    by (rule bit_word_eqI)
      (simp add: bit_xor_iff bit_unsigned_iff bit_drop_bit_eq aux res bit_lf_temp(5) [OF sz]
        recorded_result(2) [OF sz(1,2), unfolded One_nat_def])
  then show ?thesis
    unfolding lf_abs_bits
    by (auto simp add: aux res recorded_def recorded_result(1,3) [OF sz(1,2), unfolded One_nat_def]
        bit_lf_temp(1-4) [OF sz] d_def)
qed


section \<open>The macros against the instruction set manual\<close>

text \<open>
  The flags of an addition or subtraction of two \<open>'a\<close>-bit operands with an incoming carry
  or borrow, as the manual defines them on numbers: CF and AF are the carry out of the
  operand and of its low nibble, OF is signed overflow.
\<close>

definition arch_add :: "'a::len word \<Rightarrow> 'a word \<Rightarrow> bool \<Rightarrow> arch_flags" where
  "arch_add x y c =
     \<lparr>fl_OF = (sint x + sint y + of_bool c < - (2 ^ (LENGTH('a) - 1))
              \<or> 2 ^ (LENGTH('a) - 1) \<le> sint x + sint y + of_bool c),
      fl_SF = (sint (x + y + of_bool c) < 0), fl_ZF = (x + y + of_bool c = 0),
      fl_AF = (16 \<le> uint x mod 16 + uint y mod 16 + of_bool c),
      fl_PF = even_parity (ucast (x + y + of_bool c)),
      fl_CF = (2 ^ LENGTH('a) \<le> uint x + uint y + of_bool c)\<rparr>"

definition arch_sub :: "'a::len word \<Rightarrow> 'a word \<Rightarrow> bool \<Rightarrow> arch_flags" where
  "arch_sub x y c =
     \<lparr>fl_OF = (sint x - sint y - of_bool c < - (2 ^ (LENGTH('a) - 1))
              \<or> 2 ^ (LENGTH('a) - 1) \<le> sint x - sint y - of_bool c),
      fl_SF = (sint (x - y - of_bool c) < 0), fl_ZF = (x - y - of_bool c = 0),
      fl_AF = (uint x mod 16 < uint y mod 16 + of_bool c),
      fl_PF = even_parity (ucast (x - y - of_bool c)),
      fl_CF = (uint x < uint y + of_bool c)\<rparr>"

definition arch_logic :: "'a::len word \<Rightarrow> arch_flags" where
  "arch_logic r = \<lparr>fl_OF = False, fl_SF = (sint r < 0), fl_ZF = (r = 0), fl_AF = False,
     fl_PF = even_parity (ucast r), fl_CF = False\<rparr>"

lemma sint_top_bit:
  fixes x :: "'a::len word"
  defines "m \<equiv> LENGTH('a) - 1"
  shows "sint x = take_bit m (uint x) - of_bool (bit x m) * 2 ^ m"
    and "uint x = take_bit m (uint x) + of_bool (bit x m) * 2 ^ m"
proof -
  have L: "Suc m = LENGTH('a)" by (simp add: m_def)
  have t: "take_bit LENGTH('a) (uint x) = uint x" by (rule bintr_uint) simp
  have m: "bit (uint x) m = bit x m" by (simp add: bit_uint_iff m_def)
  show u: "uint x = take_bit m (uint x) + of_bool (bit x m) * 2 ^ m"
    using take_bit_Suc_split [of m "uint x"] unfolding L t m
    by (cases "bit x m") (simp_all only: if_True if_False of_bool_eq mult_1 mult_zero_left)
  have "sint x = uint x - 2 ^ Suc m * of_bool (bit x m)"
    using signed_take_bit_eq_take_bit_minus [of m "uint x"]
    unfolding L t m by (simp add: sint_uint m_def)
  then show "sint x = take_bit m (uint x) - of_bool (bit x m) * 2 ^ m"
    using u by simp
qed

lemma sint_neg_iff: "sint (x :: 'a::len word) < 0 \<longleftrightarrow> bit x (LENGTH('a) - 1)"
  using sint_top_bit(1) [of x] take_bit_int_less_exp [of "LENGTH('a) - 1" "uint x"]
    take_bit_nonnegative [of "LENGTH('a) - 1" "uint x"]
  by (cases "bit x (LENGTH('a) - 1)") auto

lemma low_mod_16: "4 \<le> LENGTH('a) \<Longrightarrow> take_bit (Suc 3) (uint (x :: 'a::len word)) = uint x mod 16"
  by (simp add: take_bit_eq_mod)


lemma signed_overflow_add:
  fixes x y :: "'a::len word" and c :: bool
  defines "m \<equiv> LENGTH('a) - 1"
  shows "(2 ^ Suc m \<le> uint x + uint y + of_bool c)
      \<noteq> (2 ^ m \<le> take_bit m (uint x) + take_bit m (uint y) + of_bool c)
    \<longleftrightarrow> sint x + sint y + of_bool c < - (2 ^ m) \<or> 2 ^ m \<le> sint x + sint y + of_bool c"
proof -
  define X Y P where "X = take_bit m (uint x)" and "Y = take_bit m (uint y)" and "P = (2 :: int) ^ m"
  have b: "0 \<le> X" "X < P" "0 \<le> Y" "Y < P" by (simp_all add: X_def Y_def P_def)
  have f: "sint x = X - of_bool (bit x m) * P" "uint x = X + of_bool (bit x m) * P"
    "sint y = Y - of_bool (bit y m) * P" "uint y = Y + of_bool (bit y m) * P"
    unfolding X_def Y_def P_def m_def by (rule sint_top_bit)+
  have p: "(2 :: int) ^ Suc m = 2 * P" by (simp add: P_def)
  show ?thesis
    unfolding p X_def [symmetric] Y_def [symmetric] P_def [symmetric] unfolding f
    using b by (cases "bit x m"; cases "bit y m"; cases c) auto
qed

lemma signed_overflow_sub:
  fixes x y :: "'a::len word" and c :: bool
  defines "m \<equiv> LENGTH('a) - 1"
  shows "(uint x < uint y + of_bool c)
      \<noteq> (take_bit m (uint x) < take_bit m (uint y) + of_bool c)
    \<longleftrightarrow> sint x - sint y - of_bool c < - (2 ^ m) \<or> 2 ^ m \<le> sint x - sint y - of_bool c"
proof -
  define X Y P where "X = take_bit m (uint x)" and "Y = take_bit m (uint y)" and "P = (2 :: int) ^ m"
  have b: "0 \<le> X" "X < P" "0 \<le> Y" "Y < P" by (simp_all add: X_def Y_def P_def)
  have f: "sint x = X - of_bool (bit x m) * P" "uint x = X + of_bool (bit x m) * P"
    "sint y = Y - of_bool (bit y m) * P" "uint y = Y + of_bool (bit y m) * P"
    unfolding X_def Y_def P_def m_def by (rule sint_top_bit)+
  show ?thesis
    unfolding X_def [symmetric] Y_def [symmetric] P_def [symmetric] unfolding f
    using b by (cases "bit x m"; cases "bit y m"; cases c) auto
qed

lemma recorded_eqI:
  fixes r :: "'a::len word" and s :: "'b::len word"
  assumes L: "LENGTH('a) \<in> {8, 16, 32, 64}" "LENGTH('a) \<le> LENGTH('b)" and r: "ucast s = r"
    and CF: "bit cv (LENGTH('a) - 1) = fl_CF f"
    and OF: "(bit cv (LENGTH('a) - 1) \<noteq> bit cv (LENGTH('a) - 2)) = fl_OF f"
    and AF: "bit cv 3 = fl_AF f"
    and f: "fl_SF f = (sint r < 0)" "fl_ZF f = (r = 0)" "fl_PF f = even_parity (ucast r)"
  shows "recorded LENGTH('a) cv s = f"
proof -
  have s: "bit s n = bit r n" if "n < LENGTH('a)" for n
    using that by (simp add: r [symmetric] bit_unsigned_iff)
  have "take_bit LENGTH('a) s = 0 \<longleftrightarrow> (\<forall>n < LENGTH('a). \<not> bit r n)"
    using L(2) s by (auto simp: word_eq_0_iff_bits bit_take_bit_iff)
  moreover have "(ucast s :: u8) = ucast r"
    using L(1) s by (intro bit_word_eqI) (auto simp: bit_unsigned_iff)
  ultimately show ?thesis
    using CF OF AF f s [of "LENGTH('a) - 1"]
    by (simp add: lf_eq_iff recorded_def sint_neg_iff word_eq_0_iff_bits)
qed

lemma SET_FLAGS_ADD_recorded:
  fixes x y :: "'a::len word"
  assumes L: "LENGTH('a) \<in> {8, 16, 32, 64}" "LENGTH('a) \<le> LENGTH('b)" "32 \<le> LENGTH('b)"
    and s: "s = (ucast x + ucast y + of_bool c :: 'b::len word)"
  shows "recorded LENGTH('a) (ADD_COUT_VEC (ucast x) (ucast y) s) s = arch_add x y c"
proof (rule recorded_eqI [OF L(1,2), where r = "x + y + of_bool c"])
  let ?cv = "ADD_COUT_VEC (ucast x) (ucast y) s"
  have us: "uint s = take_bit LENGTH('b) (uint (ucast x :: 'b word) + uint (ucast y :: 'b word) + of_bool c)"
    unfolding s by (cases c) (simp_all add: uint_word_ariths take_bit_eq_mod mod_simps)
  note cv = bit_ADD_COUT_VEC [OF _ us, unfolded uint_ucast_up [OF L(2)]]
  show "ucast s = x + y + of_bool c"
  proof (rule word_uint_eqI)
    have "uint (ucast s :: 'a word) = take_bit LENGTH('a) (uint x + uint y + of_bool c)"
      using L(2) us [unfolded uint_ucast_up [OF L(2)]] by (simp add: unsigned_ucast_eq)
    also have "\<dots> = uint (x + y + of_bool c)"
      by (cases c) (simp_all add: uint_word_ariths take_bit_eq_mod mod_simps)
    finally show "uint (ucast s :: 'a word) = uint (x + y + of_bool c)" .
  qed
  have top: "LENGTH('a) - 1 < LENGTH('b)" using L(2) len_gt_0 [where 'a = 'a] by linarith
  have c7: "bit ?cv (LENGTH('a) - 1) \<longleftrightarrow> 2 ^ LENGTH('a) \<le> uint x + uint y + of_bool c"
    using cv [OF top] by (simp only: Suc_diff_1 [OF len_gt_0] bintr_uint [OF le_refl])
  have c6: "bit ?cv (LENGTH('a) - 2) \<longleftrightarrow> 2 ^ (LENGTH('a) - 1)
       \<le> take_bit (LENGTH('a) - 1) (uint x) + take_bit (LENGTH('a) - 1) (uint y) + of_bool c"
    using cv [of "LENGTH('a) - 2"] L(1,2) by auto
  show "bit ?cv (LENGTH('a) - 1) = fl_CF (arch_add x y c)" unfolding c7 by (simp add: arch_add_def)
  show "(bit ?cv (LENGTH('a) - 1) \<noteq> bit ?cv (LENGTH('a) - 2)) = fl_OF (arch_add x y c)"
    unfolding c7 c6 using signed_overflow_add [of x y c] by (simp add: arch_add_def)
  show "bit ?cv 3 = fl_AF (arch_add x y c)"
    using cv [of 3] L low_mod_16 [of x] low_mod_16 [of y] by (auto simp: arch_add_def)
qed (simp_all add: arch_add_def)


lemma SET_FLAGS_SUB_recorded:
  fixes x y :: "'a::len word"
  assumes L: "LENGTH('a) \<in> {8, 16, 32, 64}" "LENGTH('a) \<le> LENGTH('b)" "32 \<le> LENGTH('b)"
    and s: "s = (ucast x - (ucast y + of_bool c) :: 'b::len word)"
  shows "recorded LENGTH('a) (SUB_COUT_VEC (ucast x) (ucast y) s) s = arch_sub x y c"
proof (rule recorded_eqI [OF L(1,2), where r = "x - y - of_bool c"])
  let ?cv = "SUB_COUT_VEC (ucast x) (ucast y) s"
  have us: "uint s = take_bit LENGTH('b) (uint (ucast x :: 'b word) - uint (ucast y :: 'b word) - of_bool c)"
    unfolding s by (cases c) (simp_all add: uint_word_ariths take_bit_eq_mod mod_simps algebra_simps)
  note cv = bit_SUB_COUT_VEC [OF _ us, unfolded uint_ucast_up [OF L(2)]]
  show "ucast s = x - y - of_bool c"
  proof (rule word_uint_eqI)
    have "uint (ucast s :: 'a word) = take_bit LENGTH('a) (uint x - uint y - of_bool c)"
      using L(2) us [unfolded uint_ucast_up [OF L(2)]] by (simp add: unsigned_ucast_eq)
    also have "\<dots> = uint (x - y - of_bool c)"
      by (cases c) (simp_all add: uint_word_ariths take_bit_eq_mod mod_simps)
    finally show "uint (ucast s :: 'a word) = uint (x - y - of_bool c)" .
  qed
  have top: "LENGTH('a) - 1 < LENGTH('b)" using L(2) len_gt_0 [where 'a = 'a] by linarith
  have c7: "bit ?cv (LENGTH('a) - 1) \<longleftrightarrow> uint x < uint y + of_bool c"
    using cv [OF top] by (simp only: Suc_diff_1 [OF len_gt_0] bintr_uint [OF le_refl])
  have c6: "bit ?cv (LENGTH('a) - 2) \<longleftrightarrow>
       take_bit (LENGTH('a) - 1) (uint x) < take_bit (LENGTH('a) - 1) (uint y) + of_bool c"
    using cv [of "LENGTH('a) - 2"] L(1,2) by auto
  show "bit ?cv (LENGTH('a) - 1) = fl_CF (arch_sub x y c)" unfolding c7 by (simp add: arch_sub_def)
  show "(bit ?cv (LENGTH('a) - 1) \<noteq> bit ?cv (LENGTH('a) - 2)) = fl_OF (arch_sub x y c)"
    unfolding c7 c6 using signed_overflow_sub [of x y c] by (simp add: arch_sub_def)
  show "bit ?cv 3 = fl_AF (arch_sub x y c)"
    using cv [of 3] L low_mod_16 [of x] low_mod_16 [of y] by (auto simp: arch_sub_def)
qed (simp_all add: arch_sub_def)

lemma SET_FLAGS_LOGIC_recorded:
  fixes r :: "'a::len word"
  assumes L: "LENGTH('a) \<in> {8, 16, 32, 64}" "LENGTH('a) \<le> LENGTH('b)"
  shows "recorded LENGTH('a) 0 (ucast r :: 'b::len word) = arch_logic r"
proof (rule recorded_eqI [OF L])
  show "ucast (ucast r :: 'b word) = r"
    using L(2) by (intro bit_word_eqI) (simp add: bit_unsigned_iff)
qed (simp_all add: arch_logic_def)

text \<open>
  The five families of macros, for any operand width and any promoted width the handlers
  use. The component theories rewrite with these equations.
\<close>

lemma SET_FLAGS_sim [bx_sim]:
  fixes x y :: "'a::len word" and lf :: bx_lazyflags_entry
  assumes L: "LENGTH('a) \<in> {8, 16, 32, 64}" "LENGTH('a) \<le> LENGTH('b)" "32 \<le> LENGTH('b)"
  shows "lf_abs (SET_FLAGS_OSZAPC_ADD LENGTH('a) (ucast x) (ucast y)
            (ucast x + ucast y + of_bool c :: 'b::len word) lf) = arch_add x y c"
    and "lf_abs (SET_FLAGS_OSZAPC_SUB LENGTH('a) (ucast x) (ucast y)
            (ucast x - (ucast y + of_bool c) :: 'b word) lf) = arch_sub x y c"
    and "lf_abs (SET_FLAGS_OSZAP_ADD LENGTH('a) (ucast x) (ucast y)
            (ucast x + ucast y + of_bool c :: 'b word) lf)
          = (arch_add x y c)\<lparr>fl_CF := fl_CF (lf_abs lf)\<rparr>"
    and "lf_abs (SET_FLAGS_OSZAP_SUB LENGTH('a) (ucast x) (ucast y)
            (ucast x - (ucast y + of_bool c) :: 'b word) lf)
          = (arch_sub x y c)\<lparr>fl_CF := fl_CF (lf_abs lf)\<rparr>"
    and "lf_abs (SET_FLAGS_OSZAPC_LOGIC LENGTH('a) (ucast x :: 'b word) lf) = arch_logic x"
  unfolding SET_FLAGS_OSZAPC_ADD_def SET_FLAGS_OSZAPC_SUB_def SET_FLAGS_OSZAP_ADD_def
    SET_FLAGS_OSZAP_SUB_def SET_FLAGS_OSZAPC_LOGIC_def
  by (simp_all only: SET_FLAGS_OSZAPC_SIZE_abs [OF L] SET_FLAGS_OSZAP_SIZE_abs [OF L]
      SET_FLAGS_ADD_recorded [OF L refl] SET_FLAGS_SUB_recorded [OF L refl]
      SET_FLAGS_LOGIC_recorded [OF L(1,2)])


lemma recorded_low:
  fixes r r' :: "'b::len word"
  assumes L: "L \<in> {8, 16, 32, 64}" "L \<le> LENGTH('b)"
    and cv: "\<And>n. n < L \<Longrightarrow> bit cv n = bit cv' n" and r: "\<And>n. n < L \<Longrightarrow> bit r n = bit r' n"
  shows "recorded L cv r = recorded L cv' r'"
proof -
  have "take_bit L r = take_bit L r'"
    by (rule bit_word_eqI) (use r in \<open>auto simp: bit_take_bit_iff\<close>)
  moreover have "(ucast r :: u8) = ucast r'"
    by (rule bit_word_eqI) (use L r in \<open>auto simp: bit_unsigned_iff\<close>)
  ultimately show ?thesis using L cv r by (auto simp: recorded_def)
qed

text \<open>
  The macros again, stated on any promoted operands whose low bits are the operands of the
  instruction: what a handler leaves in the upper bits of its 32-bit locals does not matter.
\<close>

lemma SET_FLAGS_low:
  fixes x y :: "'a::len word" and a b s :: "'b::len word"
  assumes L: "LENGTH('a) \<in> {8, 16, 32, 64}" "LENGTH('a) \<le> LENGTH('b)" "32 \<le> LENGTH('b)"
    and ops: "ucast a = x" "ucast b = y"
  shows "ucast s = x + y + of_bool c \<Longrightarrow>
      lf_abs (SET_FLAGS_OSZAPC_ADD LENGTH('a) a b s lf) = arch_add x y c"
    and "ucast s = x + y + of_bool c \<Longrightarrow>
      lf_abs (SET_FLAGS_OSZAP_ADD LENGTH('a) a b s lf) = (arch_add x y c)\<lparr>fl_CF := fl_CF (lf_abs lf)\<rparr>"
    and "ucast s = x - (y + of_bool c) \<Longrightarrow>
      lf_abs (SET_FLAGS_OSZAPC_SUB LENGTH('a) a b s lf) = arch_sub x y c"
    and "ucast s = x - (y + of_bool c) \<Longrightarrow>
      lf_abs (SET_FLAGS_OSZAP_SUB LENGTH('a) a b s lf) = (arch_sub x y c)\<lparr>fl_CF := fl_CF (lf_abs lf)\<rparr>"
proof -
  note up = ucast_up_down [OF L(2)]
  note bits = bit_low [OF ops(1) L(2)] bit_low [OF ops(2) L(2)] bit_low [OF up [of x] L(2)] bit_low [OF up [of y] L(2)]
  note sz = SET_FLAGS_OSZAPC_SIZE_abs [OF L] SET_FLAGS_OSZAP_SIZE_abs [OF L]
  {
    assume s: "ucast s = x + y + of_bool c"
    let ?s = "ucast x + ucast y + of_bool c :: 'b word"
    have s': "ucast ?s = x + y + of_bool c" by (simp only: ucast_down [OF L(2)] up)
    have "recorded LENGTH('a) (ADD_COUT_VEC a b s) s
        = recorded LENGTH('a) (ADD_COUT_VEC (ucast x) (ucast y) ?s) ?s"
      using L(2) by (intro recorded_low [OF L(1,2)])
        (simp_all add: ADD_COUT_VEC_def bit_and_iff bit_or_iff bit_not_iff bits bit_low [OF s L(2)] bit_low [OF s' L(2)])
    then have "recorded LENGTH('a) (ADD_COUT_VEC a b s) s = arch_add x y c"
      by (simp only: SET_FLAGS_ADD_recorded [OF L refl])
    then show "lf_abs (SET_FLAGS_OSZAPC_ADD LENGTH('a) a b s lf) = arch_add x y c"
      "lf_abs (SET_FLAGS_OSZAP_ADD LENGTH('a) a b s lf) = (arch_add x y c)\<lparr>fl_CF := fl_CF (lf_abs lf)\<rparr>"
      by (simp_all only: SET_FLAGS_OSZAPC_ADD_def SET_FLAGS_OSZAP_ADD_def sz)
  }
  {
    assume s: "ucast s = x - (y + of_bool c)"
    let ?s = "ucast x - (ucast y + of_bool c) :: 'b word"
    have s': "ucast ?s = x - (y + of_bool c)" by (simp only: ucast_down [OF L(2)] up)
    have "recorded LENGTH('a) (SUB_COUT_VEC a b s) s
        = recorded LENGTH('a) (SUB_COUT_VEC (ucast x) (ucast y) ?s) ?s"
      using L(2) by (intro recorded_low [OF L(1,2)])
        (simp_all add: SUB_COUT_VEC_def bit_and_iff bit_or_iff bit_xor_iff bit_not_iff bits bit_low [OF s L(2)] bit_low [OF s' L(2)])
    then have "recorded LENGTH('a) (SUB_COUT_VEC a b s) s = arch_sub x y c"
      by (simp only: SET_FLAGS_SUB_recorded [OF L refl])
    then show "lf_abs (SET_FLAGS_OSZAPC_SUB LENGTH('a) a b s lf) = arch_sub x y c"
      "lf_abs (SET_FLAGS_OSZAP_SUB LENGTH('a) a b s lf) = (arch_sub x y c)\<lparr>fl_CF := fl_CF (lf_abs lf)\<rparr>"
      by (simp_all only: SET_FLAGS_OSZAPC_SUB_def SET_FLAGS_OSZAP_SUB_def sz)
  }
qed

section \<open>A flag as a cell\<close>

text \<open>
  What the instruction handlers rely on when they set a flag: the value written is the
  value read, nothing else the guest can see changes, and later writes win. The contract
  is stated over an observation \<open>ab\<close> of the state.
\<close>

locale flag_cell =
  fixes rd :: "'s \<Rightarrow> bool" and wr :: "bool \<Rightarrow> 's \<Rightarrow> 's" and ab :: "'s \<Rightarrow> 'a"
  assumes rd_wr: "rd (wr v s) = v"
    and wr_rd: "ab (wr (rd s) s) = ab s"
    and wr_wr: "ab (wr v (wr u s)) = ab (wr v s)"
    and wr_cong: "ab s = ab t \<Longrightarrow> ab (wr v s) = ab (wr v t)"
begin

lemma complement_twice:
  defines "flip \<equiv> \<lambda>s. wr (\<not> rd s) s"
  shows "ab (flip (flip s)) = ab s"
  by (simp add: flip_def rd_wr wr_wr wr_rd)

lemma last_write_wins: "rd (fold wr vs s) = (if vs = [] then rd s else last vs)"
  by (induction vs arbitrary: s) (simp_all add: rd_wr)

lemma writes_collapse: "vs \<noteq> [] \<Longrightarrow> ab (fold wr vs s) = ab (wr (last vs) s)"
proof (induction vs arbitrary: s)
  case (Cons v vs)
  then show ?case by (cases "vs = []") (simp_all add: wr_wr)
qed simp

end

lemma flag_readers:
  "getB_OF lf \<noteq> 0 \<longleftrightarrow> fl_OF (lf_abs lf)" "getB_SF lf \<noteq> 0 \<longleftrightarrow> fl_SF (lf_abs lf)"
  "getB_ZF lf \<noteq> 0 \<longleftrightarrow> fl_ZF (lf_abs lf)" "getB_AF lf \<noteq> 0 \<longleftrightarrow> fl_AF (lf_abs lf)"
  "getB_PF lf \<noteq> 0 \<longleftrightarrow> fl_PF (lf_abs lf)" "getB_CF lf \<noteq> 0 \<longleftrightarrow> fl_CF (lf_abs lf)"
  by (simp_all add: lf_abs_def)

interpretation OF_cell: flag_cell "\<lambda>lf. getB_OF lf \<noteq> 0" set_OF lf_abs
  by unfold_locales (simp_all add: flag_readers set_OF_abs)

interpretation SF_cell: flag_cell "\<lambda>lf. getB_SF lf \<noteq> 0" set_SF lf_abs
  by unfold_locales (simp_all add: flag_readers set_SF_abs)

interpretation ZF_cell: flag_cell "\<lambda>lf. getB_ZF lf \<noteq> 0" set_ZF lf_abs
  by unfold_locales (simp_all add: flag_readers set_ZF_abs)

interpretation AF_cell: flag_cell "\<lambda>lf. getB_AF lf \<noteq> 0" set_AF lf_abs
  by unfold_locales (simp_all add: flag_readers set_AF_abs)

interpretation PF_cell: flag_cell "\<lambda>lf. getB_PF lf \<noteq> 0" set_PF lf_abs
  by unfold_locales (simp_all add: flag_readers set_PF_abs)

interpretation CF_cell: flag_cell "\<lambda>lf. getB_CF lf \<noteq> 0" set_CF lf_abs
  by unfold_locales (simp_all add: flag_readers set_CF_abs)

lemma getB_of_bool:
  "getB_OF lf = of_bool (fl_OF (lf_abs lf))" "getB_SF lf = of_bool (fl_SF (lf_abs lf))"
  "getB_ZF lf = of_bool (fl_ZF (lf_abs lf))" "getB_AF lf = of_bool (fl_AF (lf_abs lf))"
  "getB_PF lf = of_bool (fl_PF (lf_abs lf))" "getB_CF lf = of_bool (fl_CF (lf_abs lf))"
  by (simp_all add: lf_abs_bits getB_bits)

text \<open>The getters without \<open>B\<close> return the flag in place: zero exactly when the flag is clear.\<close>

lemma get_flag_zero:
  "get_OF lf \<noteq> 0 \<longleftrightarrow> fl_OF (lf_abs lf)" "get_AF lf \<noteq> 0 \<longleftrightarrow> fl_AF (lf_abs lf)"
  "get_CF lf \<noteq> 0 \<longleftrightarrow> fl_CF (lf_abs lf)"
proof -
  have "get_OF lf = ucast ((lf_auxbits lf + push_bit LF_BIT_PO 1) AND shl1 31)"
    by (simp only: get_OF_def LF_BIT_CF_def shl1_def)
  then have "get_OF lf = 0 \<longleftrightarrow> \<not> bit (lf_auxbits lf + push_bit LF_BIT_PO 1) 31"
    by (auto simp: word_eq_0_iff_bits bit_unsigned_iff bit_and_iff dest: spec [where x = 31])
  then show "get_OF lf \<noteq> 0 \<longleftrightarrow> fl_OF (lf_abs lf)" 
    by (simp add: bit_add_PO lf_abs_bits del: push_bit_of_1)
  show "get_AF lf \<noteq> 0 \<longleftrightarrow> fl_AF (lf_abs lf)" "get_CF lf \<noteq> 0 \<longleftrightarrow> fl_CF (lf_abs lf)"
    by (auto simp: get_AF_def get_CF_def word_eq_0_iff_bits bit_simps lf_abs_bits)
qed

lemma direct_setters_abs [bx_sim]:
  "lf_abs (clear_CF lf) = (lf_abs lf)\<lparr>fl_CF := False\<rparr>"
  "lf_abs (assert_CF lf) = (lf_abs lf)\<lparr>fl_CF := True\<rparr>"
  "lf_abs (clear_OF lf) = (lf_abs lf)\<lparr>fl_OF := False\<rparr>"
  "lf_abs (assert_OF lf) = (lf_abs lf)\<lparr>fl_OF := True\<rparr>"
  "lf_abs (clear_SF lf) = (lf_abs lf)\<lparr>fl_SF := False\<rparr>"
  "lf_abs (assert_SF lf) = (lf_abs lf)\<lparr>fl_SF := True\<rparr>"
  "lf_abs (clear_PF lf) = (lf_abs lf)\<lparr>fl_PF := False\<rparr>"
  "lf_abs (assert_PF lf) = (lf_abs lf)\<lparr>fl_PF := True\<rparr>"
  "lf_abs (assert_flags_OxxxxC lf) = (lf_abs lf)\<lparr>fl_OF := True, fl_CF := True\<rparr>"
  using set_CF_abs [of False lf] set_CF_abs [of True lf] set_OF_abs [of False lf]
    set_OF_abs [of True lf] set_flags_OxxxxC_abs [of True True lf]
  by (simp_all add: clear_CF_def assert_CF_def set_CF_def clear_OF_def assert_OF_def set_OF_def
      clear_SF_def assert_SF_def set_SF_abs clear_PF_def assert_PF_def set_PF_abs
      assert_flags_OxxxxC_def getB_of_bool)

lemma AF_setters_abs [bx_sim]:
  "lf_abs (clear_AF lf) = (lf_abs lf)\<lparr>fl_AF := False\<rparr>"
  "lf_abs (assert_AF lf) = (lf_abs lf)\<lparr>fl_AF := True\<rparr>"
proof -
  have "clear_AF lf = set_AF False lf" by (simp add: clear_AF_def set_AF_def)
  then show "lf_abs (clear_AF lf) = (lf_abs lf)\<lparr>fl_AF := False\<rparr>" by (simp add: set_AF_abs)
  have b: "bit (lf_auxbits (assert_AF lf)) n \<longleftrightarrow> n = 3 \<or> bit (lf_auxbits lf) n" for n
    by (auto simp: assert_AF_def bit_simps)
  have r: "lf_result (assert_AF lf) = lf_result lf" by (simp add: assert_AF_def)
  have "pdb_byte (assert_AF lf) = pdb_byte lf" by (rule pdb_byte_eqI) (simp add: b r)
  then show "lf_abs (assert_AF lf) = (lf_abs lf)\<lparr>fl_AF := True\<rparr>"
    by (simp add: lf_abs_bits b r)
qed

section \<open>Properties\<close>

text \<open>The setters of the lazy flags.  Each of \<open>set_OF\<close> .. \<open>set_CF\<close> makes its own flag the value given and leaves the other five as they were, although the flags share the bits of the two recorded words.\<close>

theorem lazy_flag_setters:
  "lf_abs (set_OF v lf) = (lf_abs lf)\<lparr>fl_OF := v\<rparr> \<and> lf_abs (set_SF v lf) = (lf_abs lf)\<lparr>fl_SF := v\<rparr> \<and>
   lf_abs (set_ZF v lf) = (lf_abs lf)\<lparr>fl_ZF := v\<rparr> \<and> lf_abs (set_AF v lf) = (lf_abs lf)\<lparr>fl_AF := v\<rparr> \<and>
   lf_abs (set_PF v lf) = (lf_abs lf)\<lparr>fl_PF := v\<rparr> \<and> lf_abs (set_CF v lf) = (lf_abs lf)\<lparr>fl_CF := v\<rparr> \<and>
   lf_abs (set_flags_OxxxxC (of_bool o1) (of_bool c1) lf) = (lf_abs lf)\<lparr>fl_OF := o1, fl_CF := c1\<rparr>"
  by (intro conjI set_OF_abs set_SF_abs set_ZF_abs set_AF_abs set_PF_abs set_CF_abs set_flags_OxxxxC_abs)

text \<open>C31: The macros that record an addition or a subtraction, at the operand sizes 8, 16, 32 (in 32-bit locals) and 64, for arbitrary operands and carry: the six flags read back from the two recorded words are those of the sum or difference with carry on integers; the OSZAP variants keep the carry flag that was recorded before.\<close>

theorem lazy_arithmetic_macros:
  fixes x1 y1 :: u8 and x2 y2 :: u16 and x3 y3 :: u32 and x4 y4 :: u64
  shows
  "lf_abs (SET_FLAGS_OSZAPC_ADD 8 (ucast x1) (ucast y1) (ucast x1 + ucast y1 + of_bool b :: u32) lf) = arch_add x1 y1 b \<and>
   lf_abs (SET_FLAGS_OSZAPC_ADD 16 (ucast x2) (ucast y2) (ucast x2 + ucast y2 + of_bool b :: u32) lf) = arch_add x2 y2 b \<and>
   lf_abs (SET_FLAGS_OSZAPC_ADD 32 x3 y3 (x3 + y3 + of_bool b) lf) = arch_add x3 y3 b \<and>
   lf_abs (SET_FLAGS_OSZAPC_ADD 64 x4 y4 (x4 + y4 + of_bool b) lf) = arch_add x4 y4 b \<and>
   lf_abs (SET_FLAGS_OSZAPC_SUB 8 (ucast x1) (ucast y1) (ucast x1 - (ucast y1 + of_bool b) :: u32) lf) = arch_sub x1 y1 b \<and>
   lf_abs (SET_FLAGS_OSZAPC_SUB 16 (ucast x2) (ucast y2) (ucast x2 - (ucast y2 + of_bool b) :: u32) lf) = arch_sub x2 y2 b \<and>
   lf_abs (SET_FLAGS_OSZAPC_SUB 32 x3 y3 (x3 - (y3 + of_bool b)) lf) = arch_sub x3 y3 b \<and>
   lf_abs (SET_FLAGS_OSZAPC_SUB 64 x4 y4 (x4 - (y4 + of_bool b)) lf) = arch_sub x4 y4 b \<and>
   lf_abs (SET_FLAGS_OSZAP_ADD 8 (ucast x1) (ucast y1) (ucast x1 + ucast y1 + of_bool b :: u32) lf) = (arch_add x1 y1 b)\<lparr>fl_CF := fl_CF (lf_abs lf)\<rparr> \<and>
   lf_abs (SET_FLAGS_OSZAP_ADD 16 (ucast x2) (ucast y2) (ucast x2 + ucast y2 + of_bool b :: u32) lf) = (arch_add x2 y2 b)\<lparr>fl_CF := fl_CF (lf_abs lf)\<rparr> \<and>
   lf_abs (SET_FLAGS_OSZAP_ADD 32 x3 y3 (x3 + y3 + of_bool b) lf) = (arch_add x3 y3 b)\<lparr>fl_CF := fl_CF (lf_abs lf)\<rparr> \<and>
   lf_abs (SET_FLAGS_OSZAP_ADD 64 x4 y4 (x4 + y4 + of_bool b) lf) = (arch_add x4 y4 b)\<lparr>fl_CF := fl_CF (lf_abs lf)\<rparr> \<and>
   lf_abs (SET_FLAGS_OSZAP_SUB 8 (ucast x1) (ucast y1) (ucast x1 - (ucast y1 + of_bool b) :: u32) lf) = (arch_sub x1 y1 b)\<lparr>fl_CF := fl_CF (lf_abs lf)\<rparr> \<and>
   lf_abs (SET_FLAGS_OSZAP_SUB 16 (ucast x2) (ucast y2) (ucast x2 - (ucast y2 + of_bool b) :: u32) lf) = (arch_sub x2 y2 b)\<lparr>fl_CF := fl_CF (lf_abs lf)\<rparr> \<and>
   lf_abs (SET_FLAGS_OSZAP_SUB 32 x3 y3 (x3 - (y3 + of_bool b)) lf) = (arch_sub x3 y3 b)\<lparr>fl_CF := fl_CF (lf_abs lf)\<rparr> \<and>
   lf_abs (SET_FLAGS_OSZAP_SUB 64 x4 y4 (x4 - (y4 + of_bool b)) lf) = (arch_sub x4 y4 b)\<lparr>fl_CF := fl_CF (lf_abs lf)\<rparr>"
  using SET_FLAGS_sim(1-4) [where 'a = 8 and 'b = 32 and x = x1 and y = y1] SET_FLAGS_sim(1-4) [where 'a = 16 and 'b = 32 and x = x2 and y = y2]
    SET_FLAGS_sim(1-4) [where 'a = 32 and 'b = 32 and x = x3 and y = y3] SET_FLAGS_sim(1-4) [where 'a = 64 and 'b = 64 and x = x4 and y = y4]
  by simp

end
