(* ===== verification/Cpu_State.thy ===== *)
theory Cpu_State
  imports Lazy_Flags
begin

text \<open>
  The part of \<open>BX_CPU_C\<close> that the integer instructions read and write: the general
  registers with their byte, word, doubleword and quadword views (the union
  \<open>bx_gen_reg_t\<close> and the access macros of cpu/cpu.h), the \<open>eflags\<close> image and the lazy
  condition codes, the operands an instruction carries, and the instructions of
  cpu/flag\_ctrl.cc that move the condition codes. A register access macro is an instance
  of the locale \<open>reg_view\<close>, and every handler of the arithmetic theories is stated against
  the architectural state \<open>cpu_abs\<close>, in which the lazy entry is replaced by its six flags.
\<close>

section \<open>State\<close>

record bx_cpu =
  gen_reg :: "nat \<Rightarrow> u64"
  eflags :: u32
  oszapc :: bx_lazyflags_entry

record bxInstruction =
  i_dst :: nat
  i_src :: nat
  i_extend8bitL :: bool
  i_Ib :: u8
  i_Iw :: u16
  i_Id :: u32

datatype bx_exception = BX_DE_EXCEPTION

text \<open>The members of the union \<open>bx_gen_reg_t\<close> (little-endian hosts).\<close>

definition rl :: "u64 \<Rightarrow> u8" where "rl v = ucast v"
definition rh :: "u64 \<Rightarrow> u8" where "rh v = ucast (drop_bit 8 v)"
definition rx :: "u64 \<Rightarrow> u16" where "rx v = ucast v"
definition erx :: "u64 \<Rightarrow> u32" where "erx v = ucast v"

definition set_rl :: "u8 \<Rightarrow> u64 \<Rightarrow> u64" where
  "set_rl b v = (v AND NOT 0xFF) OR ucast b"
definition set_rh :: "u8 \<Rightarrow> u64 \<Rightarrow> u64" where
  "set_rh b v = (v AND NOT 0xFF00) OR push_bit 8 (ucast b)"
definition set_rx :: "u16 \<Rightarrow> u64 \<Rightarrow> u64" where
  "set_rx w v = (v AND NOT 0xFFFF) OR ucast w"

definition set_erx :: "u32 \<Rightarrow> u64 \<Rightarrow> u64" where
  "set_erx w v = (v AND NOT 0xFFFFFFFF) OR ucast w"

definition set_gen_reg :: "nat \<Rightarrow> u64 \<Rightarrow> bx_cpu \<Rightarrow> bx_cpu" where
  "set_gen_reg n v c = c\<lparr>gen_reg := (gen_reg c)(n := v)\<rparr>"

section \<open>The register access macros\<close>

definition BX_READ_8BIT_REGx :: "nat \<Rightarrow> bool \<Rightarrow> bx_cpu \<Rightarrow> u8" where
  "BX_READ_8BIT_REGx index extended c =
     (if index AND 4 = 0 \<or> extended then rl (gen_reg c index) else rh (gen_reg c (index - 4)))"

definition BX_WRITE_8BIT_REGx :: "nat \<Rightarrow> bool \<Rightarrow> u8 \<Rightarrow> bx_cpu \<Rightarrow> bx_cpu" where
  "BX_WRITE_8BIT_REGx index extended val c =
     (if index AND 4 = 0 \<or> extended then set_gen_reg index (set_rl val (gen_reg c index)) c
      else set_gen_reg (index - 4) (set_rh val (gen_reg c (index - 4))) c)"

definition BX_READ_16BIT_REG :: "nat \<Rightarrow> bx_cpu \<Rightarrow> u16" where
  "BX_READ_16BIT_REG index c = rx (gen_reg c index)"

definition BX_WRITE_16BIT_REG :: "nat \<Rightarrow> u16 \<Rightarrow> bx_cpu \<Rightarrow> bx_cpu" where
  "BX_WRITE_16BIT_REG index val c = set_gen_reg index (set_rx val (gen_reg c index)) c"

definition BX_READ_32BIT_REG :: "nat \<Rightarrow> bx_cpu \<Rightarrow> u32" where
  "BX_READ_32BIT_REG index c = erx (gen_reg c index)"

definition BX_WRITE_32BIT_REGZ :: "nat \<Rightarrow> u32 \<Rightarrow> bx_cpu \<Rightarrow> bx_cpu" where
  "BX_WRITE_32BIT_REGZ index val c = set_gen_reg index (ucast val) c"

definition BX_READ_64BIT_REG :: "nat \<Rightarrow> bx_cpu \<Rightarrow> u64" where
  "BX_READ_64BIT_REG index c = gen_reg c index"

definition BX_WRITE_64BIT_REG :: "nat \<Rightarrow> u64 \<Rightarrow> bx_cpu \<Rightarrow> bx_cpu" where
  "BX_WRITE_64BIT_REG index val c = set_gen_reg index val c"

definition BX_CLEAR_64BIT_HIGH :: "nat \<Rightarrow> bx_cpu \<Rightarrow> bx_cpu" where
  "BX_CLEAR_64BIT_HIGH index c = set_gen_reg index (gen_reg c index AND 0xFFFFFFFF) c"

text \<open>The register shortcuts of cpu.h: registers 0 and 2 are RAX and RDX.\<close>

definition AL :: "bx_cpu \<Rightarrow> u8" where "AL c = rl (gen_reg c 0)"
definition AH :: "bx_cpu \<Rightarrow> u8" where "AH c = rh (gen_reg c 0)"
definition AX :: "bx_cpu \<Rightarrow> u16" where "AX c = rx (gen_reg c 0)"
definition set_AL :: "u8 \<Rightarrow> bx_cpu \<Rightarrow> bx_cpu" where
  "set_AL v c = set_gen_reg 0 (set_rl v (gen_reg c 0)) c"
definition set_AH :: "u8 \<Rightarrow> bx_cpu \<Rightarrow> bx_cpu" where
  "set_AH v c = set_gen_reg 0 (set_rh v (gen_reg c 0)) c"
definition set_AX :: "u16 \<Rightarrow> bx_cpu \<Rightarrow> bx_cpu" where
  "set_AX v c = set_gen_reg 0 (set_rx v (gen_reg c 0)) c"

definition EAX :: "bx_cpu \<Rightarrow> u32" where "EAX c = erx (gen_reg c 0)"
definition RAX :: "bx_cpu \<Rightarrow> u64" where "RAX c = gen_reg c 0"
definition DX :: "bx_cpu \<Rightarrow> u16" where "DX c = rx (gen_reg c 2)"
definition EDX :: "bx_cpu \<Rightarrow> u32" where "EDX c = erx (gen_reg c 2)"
definition RDX :: "bx_cpu \<Rightarrow> u64" where "RDX c = gen_reg c 2"
definition set_DX :: "u16 \<Rightarrow> bx_cpu \<Rightarrow> bx_cpu" where
  "set_DX v c = set_gen_reg 2 (set_rx v (gen_reg c 2)) c"
definition set_RAX :: "u64 \<Rightarrow> bx_cpu \<Rightarrow> bx_cpu" where "set_RAX v c = set_gen_reg 0 v c"
definition set_RDX :: "u64 \<Rightarrow> bx_cpu \<Rightarrow> bx_cpu" where "set_RDX v c = set_gen_reg 2 v c"

definition upd_lf :: "(bx_lazyflags_entry \<Rightarrow> bx_lazyflags_entry) \<Rightarrow> bx_cpu \<Rightarrow> bx_cpu" where
  "upd_lf f c = c\<lparr>oszapc := f (oszapc c)\<rparr>"

section \<open>EFLAGS and the flag control instructions\<close>

definition EFlagsCFMask :: u32 where "EFlagsCFMask = shl1 0"
definition EFlagsPFMask :: u32 where "EFlagsPFMask = shl1 2"
definition EFlagsAFMask :: u32 where "EFlagsAFMask = shl1 4"
definition EFlagsZFMask :: u32 where "EFlagsZFMask = shl1 6"
definition EFlagsSFMask :: u32 where "EFlagsSFMask = shl1 7"
definition EFlagsOFMask :: u32 where "EFlagsOFMask = shl1 11"

definition EFlagsOSZAPCMask :: u32 where
  "EFlagsOSZAPCMask = EFlagsCFMask OR EFlagsPFMask OR EFlagsAFMask OR EFlagsZFMask
     OR EFlagsSFMask OR EFlagsOFMask"

lemmas EFlags_mask_defs = EFlagsCFMask_def EFlagsPFMask_def EFlagsAFMask_def EFlagsZFMask_def
  EFlagsSFMask_def EFlagsOFMask_def

definition setEFlagsOSZAPC :: "u32 \<Rightarrow> bx_cpu \<Rightarrow> bx_cpu" where
  "setEFlagsOSZAPC flags32 =
     upd_lf (set_CF (1 AND drop_bit 0 flags32 \<noteq> 0) \<circ> set_PF (1 AND drop_bit 2 flags32 \<noteq> 0)
       \<circ> set_AF (1 AND drop_bit 4 flags32 \<noteq> 0) \<circ> set_ZF (1 AND drop_bit 6 flags32 \<noteq> 0)
       \<circ> set_SF (1 AND drop_bit 7 flags32 \<noteq> 0) \<circ> set_OF (1 AND drop_bit 11 flags32 \<noteq> 0))"

definition force_flags :: "bx_cpu \<Rightarrow> u32 \<times> bx_cpu" where
  "force_flags c =
     (let newflags = getB_CF (oszapc c);
          newflags = newflags OR push_bit 2 (getB_PF (oszapc c));
          newflags = newflags OR push_bit 4 (getB_AF (oszapc c));
          newflags = newflags OR push_bit 6 (getB_ZF (oszapc c));
          newflags = newflags OR push_bit 7 (getB_SF (oszapc c));
          newflags = newflags OR push_bit 11 (getB_OF (oszapc c));
          fl = (eflags c AND NOT EFlagsOSZAPCMask) OR (newflags AND EFlagsOSZAPCMask)
      in (fl, c\<lparr>eflags := fl\<rparr>))"

definition read_eflags :: "bx_cpu \<Rightarrow> u32 \<times> bx_cpu" where
  "read_eflags c = force_flags c"

definition SAHF :: "bx_cpu \<Rightarrow> bx_cpu" where
  "SAHF c =
     (let c = upd_lf (set_SF (drop_bit 7 (AH c AND 0x80) \<noteq> 0)) c;
          c = upd_lf (set_ZF (drop_bit 6 (AH c AND 0x40) \<noteq> 0)) c;
          c = upd_lf (set_AF (drop_bit 4 (AH c AND 0x10) \<noteq> 0)) c;
          c = upd_lf (set_CF (AH c AND 0x01 \<noteq> 0)) c
      in upd_lf (set_PF (drop_bit 2 (AH c AND 0x04) \<noteq> 0)) c)"

definition LAHF :: "bx_cpu \<Rightarrow> bx_cpu" where
  "LAHF c = (let (fl, c) = read_eflags c in set_AH (ucast (fl AND 0xFF)) c)"

definition CLC :: "bx_cpu \<Rightarrow> bx_cpu" where "CLC c = upd_lf clear_CF c"
definition STC :: "bx_cpu \<Rightarrow> bx_cpu" where "STC c = upd_lf assert_CF c"
definition CMC :: "bx_cpu \<Rightarrow> bx_cpu" where
  "CMC c = upd_lf (set_CF (\<not> (get_CF (oszapc c) \<noteq> 0))) c"

section \<open>Register views\<close>

lemma bit_low_masks:
  "bit (0xFF :: u64) n \<longleftrightarrow> n < 8" "bit (0xFF00 :: u64) n \<longleftrightarrow> 8 \<le> n \<and> n < 16"
  "bit (0xFFFF :: u64) n \<longleftrightarrow> n < 16"
proof -
  have m: "(0xFF :: u64) = mask 8" "(0xFFFF :: u64) = mask 16" "(0xFF00 :: u64) = push_bit 8 (mask 8)"
    by (simp_all add: mask_eq_exp_minus_1)
  show "bit (0xFF :: u64) n \<longleftrightarrow> n < 8" "bit (0xFF00 :: u64) n \<longleftrightarrow> 8 \<le> n \<and> n < 16"
    "bit (0xFFFF :: u64) n \<longleftrightarrow> n < 16"
    unfolding m by (auto simp only: bit_mask_iff bit_push_bit_iff) auto
qed

lemma bit_reg_parts [bx_bit]:
  "bit (rl v) n \<longleftrightarrow> n < 8 \<and> bit v n" "bit (rh v) n \<longleftrightarrow> n < 8 \<and> bit v (8 + n)"
  "bit (rx v) n \<longleftrightarrow> n < 16 \<and> bit v n" "bit (erx v) n \<longleftrightarrow> n < 32 \<and> bit v n"
  "bit (set_rl b v) n \<longleftrightarrow> (if n < 8 then bit b n else bit v n)"
  "bit (set_rh b v) n \<longleftrightarrow> (if 8 \<le> n \<and> n < 16 then bit b (n - 8) else bit v n)"
  "bit (set_rx w v) n \<longleftrightarrow> (if n < 16 then bit w n else bit v n)"
  unfolding rl_def rh_def rx_def erx_def set_rl_def set_rh_def set_rx_def bit_or_iff bit_and_not
    bit_push_bit_iff bit_unsigned_iff bit_drop_bit_eq bit_low_masks
  by (auto dest: bit_imp_le_length)

lemma reg_parts [simp]:
  "rl (set_rl b v) = b" "rh (set_rl b v) = rh v" "rl (set_rh b v) = rl v" "rh (set_rh b v) = b"
  "rx (set_rx w v) = w"
  by (rule bit_word_eqI; auto simp: bit_reg_parts)+

lemma reg_parts_id [simp]:
  "set_rl (rl v) v = v" "set_rh (rh v) v = v" "set_rx (rx v) v = v"
  "set_rl b (set_rl a v) = set_rl b v" "set_rh b (set_rh a v) = set_rh b v"
  by (rule bit_word_eqI; auto simp: bit_reg_parts)+

lemma erx_ucast [simp]: "erx (ucast (w :: u32)) = w"
  by (rule bit_word_eqI) (auto simp: bit_reg_parts bit_unsigned_iff)

lemma set_gen_reg_upd_lf: "set_gen_reg n v (upd_lf f c) = upd_lf f (set_gen_reg n v c)"
  by (simp add: set_gen_reg_def upd_lf_def)

lemma set_gen_reg_simps [simp]:
  "gen_reg (set_gen_reg n v c) = (gen_reg c)(n := v)" "eflags (set_gen_reg n v c) = eflags c"
  "oszapc (set_gen_reg n v c) = oszapc c"
  "gen_reg (upd_lf f c) = gen_reg c" "eflags (upd_lf f c) = eflags c"
  "oszapc (upd_lf f c) = f (oszapc c)"
  by (simp_all add: set_gen_reg_def upd_lf_def)

lemma bit_mask_32: "bit (0xFFFFFFFF :: u64) n \<longleftrightarrow> n < 32"
proof -
  have "(0xFFFFFFFF :: u64) = mask 32" by (simp add: mask_eq_exp_minus_1)
  then show ?thesis by (simp only: bit_mask_iff) auto
qed

text \<open>A 32-bit increment in place followed by clearing the upper half is a zero-extending write.\<close>

lemma bit_set_erx: "bit (set_erx w v) n \<longleftrightarrow> (if n < 32 then bit w n else bit v n)"
  unfolding set_erx_def bit_or_iff bit_and_not bit_mask_32 bit_unsigned_iff
  by (auto dest: bit_imp_le_length)

lemma erx_set_erx [simp]: "erx (set_erx w v) = w" "set_erx w v AND 0xFFFFFFFF = ucast w"
proof -
  show "erx (set_erx w v) = w"
    by (rule bit_word_eqI) (simp add: bit_reg_parts bit_set_erx)
  show "set_erx w v AND 0xFFFFFFFF = ucast w"
    by (rule bit_word_eqI, unfold bit_and_iff bit_mask_32 bit_set_erx bit_unsigned_iff)
      (auto dest: bit_imp_le_length)
qed

text \<open>
  What a handler assumes of a register operand: it reads back what it wrote, other
  operands of the same kind keep their value, and the condition codes are not touched.
\<close>

locale reg_view =
  fixes rd :: "nat \<Rightarrow> bx_cpu \<Rightarrow> 'a::len word" and wr :: "nat \<Rightarrow> 'a word \<Rightarrow> bx_cpu \<Rightarrow> bx_cpu"
  assumes rd_wr: "rd i (wr j v c) = (if i = j then v else rd i c)"
    and rd_lf: "rd i (upd_lf f c) = rd i c"
    and wr_lf: "oszapc (wr i v c) = oszapc c"
    and wr_eflags: "eflags (wr i v c) = eflags c"
    and wr_upd_lf: "wr i v (upd_lf f c) = upd_lf f (wr i v c)"
begin

text \<open>Two writes, as XADD does them: the second one wins when the operands coincide.\<close>

lemma exchange_then_write:
  "rd k (wr d s (wr r old c)) = (if k = d then s else if k = r then old else rd k c)"
  by (simp add: rd_wr)

text \<open>A write guarded by a comparison, as CMPXCHG does it.\<close>

lemma guarded_write:
  "rd k (if b then wr d x c else wr a y c)
     = (if b \<and> k = d then x else if \<not> b \<and> k = a then y else rd k c)"
  by (simp add: rd_wr)

end

lemma and_4_cases:
  assumes "(i :: nat) AND 4 \<noteq> 0"
  shows "4 \<le> i" and "(i - 4) AND 4 = 0"
proof -
  have four: "(4 :: nat) = 2 ^ 2" by simp
  have iff: "k AND 4 = 0 \<longleftrightarrow> \<not> bit k 2" for k :: nat
    unfolding four and_exp_eq_0_iff_not_bit by simp
  have "bit i 2" using assms unfolding iff by simp
  then have o: "odd (i div 4)" by (simp add: bit_iff_odd)
  then show "4 \<le> i" by (cases "i < 4") auto
  then have "even ((i - 4) div 4)" using o by presburger
  then have "\<not> bit (i - 4) 2" by (simp add: bit_iff_odd)
  then show "(i - 4) AND 4 = 0" by (simp only: iff not_False_eq_True)
qed

interpretation reg8: reg_view "\<lambda>i. BX_READ_8BIT_REGx i ext" "\<lambda>i. BX_WRITE_8BIT_REGx i ext" for ext
proof unfold_locales
  fix i j :: nat and v :: u8 and c :: bx_cpu and f
  show "BX_READ_8BIT_REGx i ext (BX_WRITE_8BIT_REGx j ext v c) = (if i = j then v else BX_READ_8BIT_REGx i ext c)"
  proof (cases "i AND 4 = 0 \<or> ext"; cases "j AND 4 = 0 \<or> ext")
    assume "\<not> (i AND 4 = 0 \<or> ext)" "\<not> (j AND 4 = 0 \<or> ext)"
    then show ?thesis
      using and_4_cases(1) [of i] and_4_cases(1) [of j]
      by (auto simp: BX_READ_8BIT_REGx_def BX_WRITE_8BIT_REGx_def)
  qed (auto simp: BX_READ_8BIT_REGx_def BX_WRITE_8BIT_REGx_def)
  show "BX_READ_8BIT_REGx i ext (upd_lf f c) = BX_READ_8BIT_REGx i ext c"
    by (simp add: BX_READ_8BIT_REGx_def)
  show "oszapc (BX_WRITE_8BIT_REGx i ext v c) = oszapc c" "eflags (BX_WRITE_8BIT_REGx i ext v c) = eflags c"
    by (simp_all add: BX_WRITE_8BIT_REGx_def)
  show "BX_WRITE_8BIT_REGx i ext v (upd_lf f c) = upd_lf f (BX_WRITE_8BIT_REGx i ext v c)"
    by (simp add: BX_WRITE_8BIT_REGx_def set_gen_reg_upd_lf)
qed

interpretation reg16: reg_view BX_READ_16BIT_REG BX_WRITE_16BIT_REG
  by unfold_locales (simp_all add: BX_READ_16BIT_REG_def BX_WRITE_16BIT_REG_def
      set_gen_reg_upd_lf)

interpretation reg32: reg_view BX_READ_32BIT_REG BX_WRITE_32BIT_REGZ
  by unfold_locales (simp_all add: BX_READ_32BIT_REG_def BX_WRITE_32BIT_REGZ_def
      set_gen_reg_upd_lf)

interpretation reg64: reg_view BX_READ_64BIT_REG BX_WRITE_64BIT_REG
  by unfold_locales (simp_all add: BX_READ_64BIT_REG_def BX_WRITE_64BIT_REG_def
      set_gen_reg_upd_lf)

lemma accumulator_views:
  "AL c = BX_READ_8BIT_REGx 0 ext c" "set_AL v c = BX_WRITE_8BIT_REGx 0 ext v c"
  "AH c = BX_READ_8BIT_REGx 4 False c" "set_AH v c = BX_WRITE_8BIT_REGx 4 False v c"
  "AX c = BX_READ_16BIT_REG 0 c" "set_AX w c = BX_WRITE_16BIT_REG 0 w c"
  "EAX c = BX_READ_32BIT_REG 0 c" "set_RAX (ucast u) c = BX_WRITE_32BIT_REGZ 0 u c"
  "RAX c = BX_READ_64BIT_REG 0 c" "set_RAX q c = BX_WRITE_64BIT_REG 0 q c"
  by (simp_all add: EAX_def RAX_def set_RAX_def BX_READ_32BIT_REG_def BX_WRITE_32BIT_REGZ_def
      BX_READ_64BIT_REG_def BX_WRITE_64BIT_REG_def AL_def AH_def AX_def set_AL_def set_AH_def set_AX_def BX_READ_8BIT_REGx_def
      BX_WRITE_8BIT_REGx_def BX_READ_16BIT_REG_def BX_WRITE_16BIT_REG_def)

section \<open>EFLAGS\<close>

text \<open>The six condition codes at their EFLAGS positions.\<close>

definition flags_image :: "arch_flags \<Rightarrow> u32" where
  "flags_image f = ((((of_bool (fl_CF f) OR push_bit 2 (of_bool (fl_PF f)))
     OR push_bit 4 (of_bool (fl_AF f))) OR push_bit 6 (of_bool (fl_ZF f)))
     OR push_bit 7 (of_bool (fl_SF f))) OR push_bit 11 (of_bool (fl_OF f))"

definition flags_of_image :: "u32 \<Rightarrow> arch_flags" where
  "flags_of_image w = \<lparr>fl_OF = bit w 11, fl_SF = bit w 7, fl_ZF = bit w 6, fl_AF = bit w 4,
     fl_PF = bit w 2, fl_CF = bit w 0\<rparr>"

lemma bit_push_of_bool: "bit (push_bit k (of_bool b) :: 'a::len word) n \<longleftrightarrow> n = k \<and> k < LENGTH('a) \<and> b"
  by (cases b) (auto simp: bit_push_bit_iff bit_1_iff simp del: push_bit_of_1)
lemma bit_flags_image:
  "bit (flags_image f) n \<longleftrightarrow> n = 0 \<and> fl_CF f \<or> n = 2 \<and> fl_PF f \<or> n = 4 \<and> fl_AF f
     \<or> n = 6 \<and> fl_ZF f \<or> n = 7 \<and> fl_SF f \<or> n = 11 \<and> fl_OF f"
proof -
  have "bit (of_bool b :: u32) n \<longleftrightarrow> n = 0 \<and> b" for b
    by (cases b) (simp_all add: bit_1_iff)
  then show ?thesis unfolding flags_image_def bit_or_iff bit_push_of_bool by simp
qed

lemma bit_OSZAPCMask: "bit EFlagsOSZAPCMask n \<longleftrightarrow> n \<in> {0, 2, 4, 6, 7, 11}"
    unfolding EFlagsOSZAPCMask_def EFlags_mask_defs bit_or_iff bit_shl1 by simp

lemma force_flags_image:
  "force_flags c = (let fl = (eflags c AND NOT EFlagsOSZAPCMask) OR flags_image (lf_abs (oszapc c))
                    in (fl, c\<lparr>eflags := fl\<rparr>))"
proof -
  have "flags_image f AND EFlagsOSZAPCMask = flags_image f" for f
    by (rule bit_word_eqI) (auto simp: bit_and_iff bit_OSZAPCMask bit_flags_image)
  then show ?thesis
    unfolding force_flags_def Let_def getB_of_bool flags_image_def [symmetric] by (simp only:)
qed

lemma and_1_nonzero: "(1 AND w :: 'a::len word) \<noteq> 0 \<longleftrightarrow> bit w 0"
  by (simp add: and.commute [of 1] and_1_eq)

lemma setEFlagsOSZAPC_abs [bx_sim]:
  "lf_abs (oszapc (setEFlagsOSZAPC w c)) = flags_of_image w"
  by (simp add: setEFlagsOSZAPC_def and_1_nonzero bit_drop_bit_eq bx_sim flags_of_image_def)

lemma flags_of_image_inverse: "flags_of_image (flags_image f OR (w AND NOT EFlagsOSZAPCMask)) = f"
  by (cases f) (simp add: flags_of_image_def bit_or_iff bit_flags_image bit_and_not bit_OSZAPCMask)

section \<open>The architectural state\<close>

text \<open>What the guest can see: the registers and the six flags, not their encoding.\<close>

record arch_cpu =
  ar_reg :: "nat \<Rightarrow> u64"
  ar_flags :: arch_flags

definition cpu_abs :: "bx_cpu \<Rightarrow> arch_cpu" where
  "cpu_abs c = \<lparr>ar_reg = gen_reg c, ar_flags = lf_abs (oszapc c)\<rparr>"

section \<open>Properties\<close>

text \<open>EFLAGS and the lazy flags.  \<open>force_flags\<close> writes the six condition codes into EFLAGS at their architectural positions and keeps every other bit; loading that image with \<open>setEFlagsOSZAPC\<close> into any processor restores exactly the six flags.\<close>

theorem eflags_roundtrip:
  "case force_flags c of (w, c') \<Rightarrow>
     eflags c' = w \<and> w AND NOT EFlagsOSZAPCMask = eflags c AND NOT EFlagsOSZAPCMask \<and>
     flags_of_image w = lf_abs (oszapc c) \<and>
     lf_abs (oszapc (setEFlagsOSZAPC w d)) = lf_abs (oszapc c)"
proof -
  let ?w = "(eflags c AND NOT EFlagsOSZAPCMask) OR flags_image (lf_abs (oszapc c))"
  have "?w AND NOT EFlagsOSZAPCMask = eflags c AND NOT EFlagsOSZAPCMask"
    by (rule bit_word_eqI) (auto simp: bit_or_iff bit_and_not bit_flags_image bit_OSZAPCMask)
  moreover have "flags_of_image ?w = lf_abs (oszapc c)"
    unfolding or.commute [of "eflags c AND _"] by (rule flags_of_image_inverse)
  ultimately show ?thesis unfolding force_flags_image Let_def setEFlagsOSZAPC_abs by simp
qed

lemma AH_bits: "drop_bit k ((w :: u8) AND shl1 k) \<noteq> 0 \<longleftrightarrow> bit w k"
  by (cases "k < 8") (auto simp: word_eq_0_iff_bits bit_drop_bit_eq bit_and_iff dest: bit_imp_le_length intro: exI [of _ 0])

lemma AH_masks: "(0x80 :: u8) = shl1 7" "(0x40 :: u8) = shl1 6" "(0x10 :: u8) = shl1 4" "(4 :: u8) = shl1 2" "(1 :: u8) = shl1 0"
  by (simp_all add: shl1_def)

lemma AH_upd_lf [simp]: "AH (upd_lf f c) = AH c" "oszapc (upd_lf f c) = f (oszapc c)"
  by (simp_all add: AH_def upd_lf_def)

lemma SAHF_flags:
  "lf_abs (oszapc (SAHF d)) = \<lparr>fl_OF = fl_OF (lf_abs (oszapc d)), fl_SF = bit (AH d) 7, fl_ZF = bit (AH d) 6,
     fl_AF = bit (AH d) 4, fl_PF = bit (AH d) 2, fl_CF = bit (AH d) 0\<rparr>"
  using AH_bits [of 0 "AH d"] by (simp only: SAHF_def Let_def AH_upd_lf bx_sim AH_masks AH_bits lf_eq_iff drop_bit_0) simp

lemma LAHF_views:
  "AH (LAHF c) = ucast (fst (force_flags c))" "oszapc (LAHF c) = oszapc c"
proof -
  have m: "(ucast (w AND 0xFF :: u32) :: u8) = ucast w" for w
  proof (rule bit_word_eqI)
    have "(0xFF :: u32) = mask 8" by (simp add: mask_eq_exp_minus_1)
    then show "bit (ucast (w AND 0xFF) :: u8) n = bit (ucast w :: u8) n" if "n < LENGTH(8)" for n
      using that by (simp only: bit_unsigned_iff bit_and_iff bit_mask_iff) simp
  qed
  show "AH (LAHF c) = ucast (fst (force_flags c))" "oszapc (LAHF c) = oszapc c"
    by (simp_all add: LAHF_def read_eflags_def force_flags_image Let_def m AH_def set_AH_def)
qed

text \<open>LAHF stores SF, ZF, AF, PF and CF at bits 7, 6, 4, 2 and 0 of AH and changes no flag; SAHF of that byte in any processor restores the five flags and leaves OF alone.\<close>

theorem lahf_sahf_roundtrip:
  "bit (AH (LAHF c)) 7 = fl_SF (lf_abs (oszapc c)) \<and> bit (AH (LAHF c)) 6 = fl_ZF (lf_abs (oszapc c)) \<and>
   bit (AH (LAHF c)) 4 = fl_AF (lf_abs (oszapc c)) \<and> bit (AH (LAHF c)) 2 = fl_PF (lf_abs (oszapc c)) \<and>
   bit (AH (LAHF c)) 0 = fl_CF (lf_abs (oszapc c)) \<and> lf_abs (oszapc (LAHF c)) = lf_abs (oszapc c) \<and>
   lf_abs (oszapc (SAHF (set_AH (AH (LAHF c)) d))) = (lf_abs (oszapc c))\<lparr>fl_OF := fl_OF (lf_abs (oszapc d))\<rparr>"
proof -
  have f: "flags_of_image (fst (force_flags c)) = lf_abs (oszapc c)"
    unfolding force_flags_image Let_def fst_conv or.commute [of "eflags c AND _"] by (rule flags_of_image_inverse)
  have b: "bit (AH (LAHF c)) n \<longleftrightarrow> n < 8 \<and> bit (fst (force_flags c)) n" for n
    by (auto simp: LAHF_views bit_unsigned_iff)
  have "AH (set_AH v d) = v" "oszapc (set_AH v d) = oszapc d" for v by (simp_all add: AH_def set_AH_def)
  then show ?thesis by (simp add: SAHF_flags b LAHF_views(2) f [symmetric] flags_of_image_def)
qed

text \<open>Partial register writes.  An 8-bit or 16-bit write replaces its bits of the 64-bit register and keeps the rest, a 32-bit write clears the upper half, and no other register changes.\<close>

theorem partial_register_writes:
  "bit (gen_reg (BX_WRITE_16BIT_REG r w2 c) k) n = (if k = r \<and> n < 16 then bit w2 n else bit (gen_reg c k) n) \<and>
   bit (gen_reg (BX_WRITE_32BIT_REGZ r w3 c) k) n = (if k = r then bit w3 n else bit (gen_reg c k) n) \<and>
   bit (gen_reg (BX_WRITE_64BIT_REG r w4 c) k) n = (if k = r then bit w4 n else bit (gen_reg c k) n) \<and>
   bit (gen_reg (BX_WRITE_8BIT_REGx r True w1 c) k) n = (if k = r \<and> n < 8 then bit w1 n else bit (gen_reg c k) n) \<and>
   bit (gen_reg (BX_WRITE_8BIT_REGx r False w1 c) k) n =
     (if r AND 4 = 0 then (if k = r \<and> n < 8 then bit w1 n else bit (gen_reg c k) n)
      else (if k = r - 4 \<and> 8 \<le> n \<and> n < 16 then bit w1 (n - 8) else bit (gen_reg c k) n))"
  by (auto simp: BX_WRITE_16BIT_REG_def BX_WRITE_32BIT_REGZ_def BX_WRITE_64BIT_REG_def BX_WRITE_8BIT_REGx_def
      set_gen_reg_def bit_reg_parts bit_unsigned_iff dest: bit_imp_le_length)

end
