(* ===== verification/Arith.thy ===== *)
theory Arith
  imports Cpu_State
begin

text \<open>
  The integer arithmetic of cpu/arith8.cc, arith16.cc, arith32.cc and arith64.cc: the register
  and immediate forms of ADD, ADC, SUB, SBB, CMP, XADD, NEG, INC, DEC and CMPXCHG at the
  four operand sizes, and the sign extensions CBW, CWD, CWDE, CDQ, CDQE and CQO. A handler is a
  function of the instruction's operands and the CPU state; 8 and 16-bit operands are promoted
  to the 32-bit locals of the code and truncated on write-back. \<open>BX\_NEXT\_INSTR\<close> is the
  return. Each handler is proved to implement a width-independent reference operation
  \<open>arch_*\<close> on the state the guest sees. The memory forms (suffix M) are not part of
  this theory.
\<close>

section \<open>8-bit handlers (cpu/arith8.cc)\<close>

definition ADD_GbEbR :: "bxInstruction \<Rightarrow> bx_cpu \<Rightarrow> bx_cpu" where
  "ADD_GbEbR i c =
     (let op1 = ucast (BX_READ_8BIT_REGx (i_dst i) (i_extend8bitL i) c) :: u32;
          op2 = ucast (BX_READ_8BIT_REGx (i_src i) (i_extend8bitL i) c) :: u32;
          sum = op1 + op2;
          c = BX_WRITE_8BIT_REGx (i_dst i) (i_extend8bitL i) (ucast sum) c
      in upd_lf (SET_FLAGS_OSZAPC_ADD 8 op1 op2 sum) c)"

definition ADD_EbIbR :: "bxInstruction \<Rightarrow> bx_cpu \<Rightarrow> bx_cpu" where
  "ADD_EbIbR i c =
     (let op1 = ucast (BX_READ_8BIT_REGx (i_dst i) (i_extend8bitL i) c) :: u32;
          op2 = ucast (i_Ib i) :: u32;
          sum = op1 + op2;
          c = BX_WRITE_8BIT_REGx (i_dst i) (i_extend8bitL i) (ucast sum) c
      in upd_lf (SET_FLAGS_OSZAPC_ADD 8 op1 op2 sum) c)"

definition ADC_GbEbR :: "bxInstruction \<Rightarrow> bx_cpu \<Rightarrow> bx_cpu" where
  "ADC_GbEbR i c =
     (let op1 = ucast (BX_READ_8BIT_REGx (i_dst i) (i_extend8bitL i) c) :: u32;
          op2 = ucast (BX_READ_8BIT_REGx (i_src i) (i_extend8bitL i) c) :: u32;
          sum = op1 + op2 + getB_CF (oszapc c);
          c = BX_WRITE_8BIT_REGx (i_dst i) (i_extend8bitL i) (ucast sum) c
      in upd_lf (SET_FLAGS_OSZAPC_ADD 8 op1 op2 sum) c)"

definition ADC_EbIbR :: "bxInstruction \<Rightarrow> bx_cpu \<Rightarrow> bx_cpu" where
  "ADC_EbIbR i c =
     (let op1 = ucast (BX_READ_8BIT_REGx (i_dst i) (i_extend8bitL i) c) :: u32;
          op2 = ucast (i_Ib i) :: u32;
          sum = op1 + op2 + getB_CF (oszapc c);
          c = BX_WRITE_8BIT_REGx (i_dst i) (i_extend8bitL i) (ucast sum) c
      in upd_lf (SET_FLAGS_OSZAPC_ADD 8 op1 op2 sum) c)"

definition SBB_GbEbR :: "bxInstruction \<Rightarrow> bx_cpu \<Rightarrow> bx_cpu" where
  "SBB_GbEbR i c =
     (let op1_8 = ucast (BX_READ_8BIT_REGx (i_dst i) (i_extend8bitL i) c) :: u32;
          op2_8 = ucast (BX_READ_8BIT_REGx (i_src i) (i_extend8bitL i) c) :: u32;
          diff_8 = op1_8 - (op2_8 + getB_CF (oszapc c));
          c = BX_WRITE_8BIT_REGx (i_dst i) (i_extend8bitL i) (ucast diff_8) c
      in upd_lf (SET_FLAGS_OSZAPC_SUB 8 op1_8 op2_8 diff_8) c)"

definition SBB_EbIbR :: "bxInstruction \<Rightarrow> bx_cpu \<Rightarrow> bx_cpu" where
  "SBB_EbIbR i c =
     (let op1_8 = ucast (BX_READ_8BIT_REGx (i_dst i) (i_extend8bitL i) c) :: u32;
          op2_8 = ucast (i_Ib i) :: u32;
          diff_8 = op1_8 - (op2_8 + getB_CF (oszapc c));
          c = BX_WRITE_8BIT_REGx (i_dst i) (i_extend8bitL i) (ucast diff_8) c
      in upd_lf (SET_FLAGS_OSZAPC_SUB 8 op1_8 op2_8 diff_8) c)"

definition SUB_GbEbR :: "bxInstruction \<Rightarrow> bx_cpu \<Rightarrow> bx_cpu" where
  "SUB_GbEbR i c =
     (let op1_8 = ucast (BX_READ_8BIT_REGx (i_dst i) (i_extend8bitL i) c) :: u32;
          op2_8 = ucast (BX_READ_8BIT_REGx (i_src i) (i_extend8bitL i) c) :: u32;
          diff_8 = op1_8 - op2_8;
          c = BX_WRITE_8BIT_REGx (i_dst i) (i_extend8bitL i) (ucast diff_8) c
      in upd_lf (SET_FLAGS_OSZAPC_SUB 8 op1_8 op2_8 diff_8) c)"

definition SUB_EbIbR :: "bxInstruction \<Rightarrow> bx_cpu \<Rightarrow> bx_cpu" where
  "SUB_EbIbR i c =
     (let op1_8 = ucast (BX_READ_8BIT_REGx (i_dst i) (i_extend8bitL i) c) :: u32;
          op2_8 = ucast (i_Ib i) :: u32;
          diff_8 = op1_8 - op2_8;
          c = BX_WRITE_8BIT_REGx (i_dst i) (i_extend8bitL i) (ucast diff_8) c
      in upd_lf (SET_FLAGS_OSZAPC_SUB 8 op1_8 op2_8 diff_8) c)"

definition CMP_GbEbR :: "bxInstruction \<Rightarrow> bx_cpu \<Rightarrow> bx_cpu" where
  "CMP_GbEbR i c =
     (let op1_8 = ucast (BX_READ_8BIT_REGx (i_dst i) (i_extend8bitL i) c) :: u32;
          op2_8 = ucast (BX_READ_8BIT_REGx (i_src i) (i_extend8bitL i) c) :: u32;
          diff_8 = op1_8 - op2_8
      in upd_lf (SET_FLAGS_OSZAPC_SUB 8 op1_8 op2_8 diff_8) c)"

definition CMP_EbIbR :: "bxInstruction \<Rightarrow> bx_cpu \<Rightarrow> bx_cpu" where
  "CMP_EbIbR i c =
     (let op1_8 = ucast (BX_READ_8BIT_REGx (i_dst i) (i_extend8bitL i) c) :: u32;
          op2_8 = ucast (i_Ib i) :: u32;
          diff_8 = op1_8 - op2_8
      in upd_lf (SET_FLAGS_OSZAPC_SUB 8 op1_8 op2_8 diff_8) c)"

definition XADD_EbGbR :: "bxInstruction \<Rightarrow> bx_cpu \<Rightarrow> bx_cpu" where
  "XADD_EbGbR i c =
     (let op1 = ucast (BX_READ_8BIT_REGx (i_dst i) (i_extend8bitL i) c) :: u32;
          op2 = ucast (BX_READ_8BIT_REGx (i_src i) (i_extend8bitL i) c) :: u32;
          sum = op1 + op2;
          c = BX_WRITE_8BIT_REGx (i_src i) (i_extend8bitL i) (ucast op1) c;
          c = BX_WRITE_8BIT_REGx (i_dst i) (i_extend8bitL i) (ucast sum) c
      in upd_lf (SET_FLAGS_OSZAPC_ADD 8 op1 op2 sum) c)"

definition NEG_EbR :: "bxInstruction \<Rightarrow> bx_cpu \<Rightarrow> bx_cpu" where
  "NEG_EbR i c =
     (let op1_8 = ucast (BX_READ_8BIT_REGx (i_dst i) (i_extend8bitL i) c) :: u32;
          op1_8 = - op1_8;
          c = BX_WRITE_8BIT_REGx (i_dst i) (i_extend8bitL i) (ucast op1_8) c
      in upd_lf (SET_FLAGS_OSZAPC_SUB 8 0 (0 - op1_8) op1_8) c)"

definition INC_EbR :: "bxInstruction \<Rightarrow> bx_cpu \<Rightarrow> bx_cpu" where
  "INC_EbR i c =
     (let op1_8 = ucast (BX_READ_8BIT_REGx (i_dst i) (i_extend8bitL i) c) :: u32;
          op1_8 = op1_8 + 1;
          c = BX_WRITE_8BIT_REGx (i_dst i) (i_extend8bitL i) (ucast op1_8) c
      in upd_lf (SET_FLAGS_OSZAP_ADD 8 (op1_8 - 1) 0 op1_8) c)"

definition DEC_EbR :: "bxInstruction \<Rightarrow> bx_cpu \<Rightarrow> bx_cpu" where
  "DEC_EbR i c =
     (let op1_8 = ucast (BX_READ_8BIT_REGx (i_dst i) (i_extend8bitL i) c) :: u32;
          op1_8 = op1_8 - 1;
          c = BX_WRITE_8BIT_REGx (i_dst i) (i_extend8bitL i) (ucast op1_8) c
      in upd_lf (SET_FLAGS_OSZAP_SUB 8 (op1_8 + 1) 0 op1_8) c)"

definition CMPXCHG_EbGbR :: "bxInstruction \<Rightarrow> bx_cpu \<Rightarrow> bx_cpu" where
  "CMPXCHG_EbGbR i c =
     (let op1_8 = ucast (BX_READ_8BIT_REGx (i_dst i) (i_extend8bitL i) c) :: u32;
          diff_8 = ucast (AL c) - op1_8;
          c = upd_lf (SET_FLAGS_OSZAPC_SUB 8 (ucast (AL c)) op1_8 diff_8) c
      in if diff_8 = 0
         then let op2_8 = ucast (BX_READ_8BIT_REGx (i_src i) (i_extend8bitL i) c) :: u32
              in BX_WRITE_8BIT_REGx (i_dst i) (i_extend8bitL i) (ucast op2_8) c
         else set_AL (ucast op1_8) c)"

section \<open>16-bit handlers (cpu/arith16.cc)\<close>

definition ADD_GwEwR :: "bxInstruction \<Rightarrow> bx_cpu \<Rightarrow> bx_cpu" where
  "ADD_GwEwR i c =
     (let op1_16 = ucast (BX_READ_16BIT_REG (i_dst i) c) :: u32;
          op2_16 = ucast (BX_READ_16BIT_REG (i_src i) c) :: u32;
          sum_16 = op1_16 + op2_16;
          c = BX_WRITE_16BIT_REG (i_dst i) (ucast sum_16) c
      in upd_lf (SET_FLAGS_OSZAPC_ADD 16 op1_16 op2_16 sum_16) c)"

definition ADD_EwIwR :: "bxInstruction \<Rightarrow> bx_cpu \<Rightarrow> bx_cpu" where
  "ADD_EwIwR i c =
     (let op1_16 = ucast (BX_READ_16BIT_REG (i_dst i) c) :: u32;
          op2_16 = ucast (i_Iw i) :: u32;
          sum_16 = op1_16 + op2_16;
          c = BX_WRITE_16BIT_REG (i_dst i) (ucast sum_16) c
      in upd_lf (SET_FLAGS_OSZAPC_ADD 16 op1_16 op2_16 sum_16) c)"

definition ADC_GwEwR :: "bxInstruction \<Rightarrow> bx_cpu \<Rightarrow> bx_cpu" where
  "ADC_GwEwR i c =
     (let op1_16 = ucast (BX_READ_16BIT_REG (i_dst i) c) :: u32;
          op2_16 = ucast (BX_READ_16BIT_REG (i_src i) c) :: u32;
          sum_16 = op1_16 + op2_16 + getB_CF (oszapc c);
          c = BX_WRITE_16BIT_REG (i_dst i) (ucast sum_16) c
      in upd_lf (SET_FLAGS_OSZAPC_ADD 16 op1_16 op2_16 sum_16) c)"

definition ADC_EwIwR :: "bxInstruction \<Rightarrow> bx_cpu \<Rightarrow> bx_cpu" where
  "ADC_EwIwR i c =
     (let op1_16 = ucast (BX_READ_16BIT_REG (i_dst i) c) :: u32;
          op2_16 = ucast (i_Iw i) :: u32;
          sum_16 = op1_16 + op2_16 + getB_CF (oszapc c);
          c = BX_WRITE_16BIT_REG (i_dst i) (ucast sum_16) c
      in upd_lf (SET_FLAGS_OSZAPC_ADD 16 op1_16 op2_16 sum_16) c)"

definition SBB_GwEwR :: "bxInstruction \<Rightarrow> bx_cpu \<Rightarrow> bx_cpu" where
  "SBB_GwEwR i c =
     (let op1_16 = ucast (BX_READ_16BIT_REG (i_dst i) c) :: u32;
          op2_16 = ucast (BX_READ_16BIT_REG (i_src i) c) :: u32;
          diff_16 = op1_16 - (op2_16 + getB_CF (oszapc c));
          c = BX_WRITE_16BIT_REG (i_dst i) (ucast diff_16) c
      in upd_lf (SET_FLAGS_OSZAPC_SUB 16 op1_16 op2_16 diff_16) c)"

definition SBB_EwIwR :: "bxInstruction \<Rightarrow> bx_cpu \<Rightarrow> bx_cpu" where
  "SBB_EwIwR i c =
     (let op1_16 = ucast (BX_READ_16BIT_REG (i_dst i) c) :: u32;
          op2_16 = ucast (i_Iw i) :: u32;
          diff_16 = op1_16 - (op2_16 + getB_CF (oszapc c));
          c = BX_WRITE_16BIT_REG (i_dst i) (ucast diff_16) c
      in upd_lf (SET_FLAGS_OSZAPC_SUB 16 op1_16 op2_16 diff_16) c)"

definition SUB_GwEwR :: "bxInstruction \<Rightarrow> bx_cpu \<Rightarrow> bx_cpu" where
  "SUB_GwEwR i c =
     (let op1_16 = ucast (BX_READ_16BIT_REG (i_dst i) c) :: u32;
          op2_16 = ucast (BX_READ_16BIT_REG (i_src i) c) :: u32;
          diff_16 = op1_16 - op2_16;
          c = BX_WRITE_16BIT_REG (i_dst i) (ucast diff_16) c
      in upd_lf (SET_FLAGS_OSZAPC_SUB 16 op1_16 op2_16 diff_16) c)"

definition SUB_EwIwR :: "bxInstruction \<Rightarrow> bx_cpu \<Rightarrow> bx_cpu" where
  "SUB_EwIwR i c =
     (let op1_16 = ucast (BX_READ_16BIT_REG (i_dst i) c) :: u32;
          op2_16 = ucast (i_Iw i) :: u32;
          diff_16 = op1_16 - op2_16;
          c = BX_WRITE_16BIT_REG (i_dst i) (ucast diff_16) c
      in upd_lf (SET_FLAGS_OSZAPC_SUB 16 op1_16 op2_16 diff_16) c)"

definition CMP_GwEwR :: "bxInstruction \<Rightarrow> bx_cpu \<Rightarrow> bx_cpu" where
  "CMP_GwEwR i c =
     (let op1_16 = ucast (BX_READ_16BIT_REG (i_dst i) c) :: u32;
          op2_16 = ucast (BX_READ_16BIT_REG (i_src i) c) :: u32;
          diff_16 = op1_16 - op2_16
      in upd_lf (SET_FLAGS_OSZAPC_SUB 16 op1_16 op2_16 diff_16) c)"

definition CMP_EwIwR :: "bxInstruction \<Rightarrow> bx_cpu \<Rightarrow> bx_cpu" where
  "CMP_EwIwR i c =
     (let op1_16 = ucast (BX_READ_16BIT_REG (i_dst i) c) :: u32;
          op2_16 = ucast (i_Iw i) :: u32;
          diff_16 = op1_16 - op2_16
      in upd_lf (SET_FLAGS_OSZAPC_SUB 16 op1_16 op2_16 diff_16) c)"

definition XADD_EwGwR :: "bxInstruction \<Rightarrow> bx_cpu \<Rightarrow> bx_cpu" where
  "XADD_EwGwR i c =
     (let op1_16 = ucast (BX_READ_16BIT_REG (i_dst i) c) :: u32;
          op2_16 = ucast (BX_READ_16BIT_REG (i_src i) c) :: u32;
          sum_16 = op1_16 + op2_16;
          c = BX_WRITE_16BIT_REG (i_src i) (ucast op1_16) c;
          c = BX_WRITE_16BIT_REG (i_dst i) (ucast sum_16) c
      in upd_lf (SET_FLAGS_OSZAPC_ADD 16 op1_16 op2_16 sum_16) c)"

definition NEG_EwR :: "bxInstruction \<Rightarrow> bx_cpu \<Rightarrow> bx_cpu" where
  "NEG_EwR i c =
     (let op1_16 = ucast (BX_READ_16BIT_REG (i_dst i) c) :: u32;
          op1_16 = - op1_16;
          c = BX_WRITE_16BIT_REG (i_dst i) (ucast op1_16) c
      in upd_lf (SET_FLAGS_OSZAPC_SUB 16 0 (0 - op1_16) op1_16) c)"

definition INC_EwR :: "bxInstruction \<Rightarrow> bx_cpu \<Rightarrow> bx_cpu" where
  "INC_EwR i c =
     (let c = BX_WRITE_16BIT_REG (i_dst i) (BX_READ_16BIT_REG (i_dst i) c + 1) c;
          rxv = ucast (BX_READ_16BIT_REG (i_dst i) c) :: u32
      in upd_lf (SET_FLAGS_OSZAP_ADD 16 (rxv - 1) 0 rxv) c)"

definition DEC_EwR :: "bxInstruction \<Rightarrow> bx_cpu \<Rightarrow> bx_cpu" where
  "DEC_EwR i c =
     (let c = BX_WRITE_16BIT_REG (i_dst i) (BX_READ_16BIT_REG (i_dst i) c - 1) c;
          rxv = ucast (BX_READ_16BIT_REG (i_dst i) c) :: u32
      in upd_lf (SET_FLAGS_OSZAP_SUB 16 (rxv + 1) 0 rxv) c)"

definition CMPXCHG_EwGwR :: "bxInstruction \<Rightarrow> bx_cpu \<Rightarrow> bx_cpu" where
  "CMPXCHG_EwGwR i c =
     (let op1_16 = BX_READ_16BIT_REG (i_dst i) c;
          diff_16 = AX c - op1_16;
          c = upd_lf (SET_FLAGS_OSZAPC_SUB 16 (ucast (AX c) :: u32) (ucast op1_16) (ucast diff_16)) c
      in if diff_16 = 0
         then BX_WRITE_16BIT_REG (i_dst i) (BX_READ_16BIT_REG (i_src i) c) c
         else set_AX op1_16 c)"

section \<open>32-bit handlers (cpu/arith32.cc)\<close>

definition ADD_GdEdR :: "bxInstruction \<Rightarrow> bx_cpu \<Rightarrow> bx_cpu" where
  "ADD_GdEdR i c =
     (let op1_32 = BX_READ_32BIT_REG (i_dst i) c;
          op2_32 = BX_READ_32BIT_REG (i_src i) c;
          sum_32 = op1_32 + op2_32;
          c = BX_WRITE_32BIT_REGZ (i_dst i) sum_32 c
      in upd_lf (SET_FLAGS_OSZAPC_ADD 32 op1_32 op2_32 sum_32) c)"

definition ADD_EdIdR :: "bxInstruction \<Rightarrow> bx_cpu \<Rightarrow> bx_cpu" where
  "ADD_EdIdR i c =
     (let op1_32 = BX_READ_32BIT_REG (i_dst i) c;
          op2_32 = i_Id i;
          sum_32 = op1_32 + op2_32;
          c = BX_WRITE_32BIT_REGZ (i_dst i) sum_32 c
      in upd_lf (SET_FLAGS_OSZAPC_ADD 32 op1_32 op2_32 sum_32) c)"

definition ADC_GdEdR :: "bxInstruction \<Rightarrow> bx_cpu \<Rightarrow> bx_cpu" where
  "ADC_GdEdR i c =
     (let temp_CF = getB_CF (oszapc c);
          op1_32 = BX_READ_32BIT_REG (i_dst i) c;
          op2_32 = BX_READ_32BIT_REG (i_src i) c;
          sum_32 = op1_32 + op2_32 + temp_CF;
          c = BX_WRITE_32BIT_REGZ (i_dst i) sum_32 c
      in upd_lf (SET_FLAGS_OSZAPC_ADD 32 op1_32 op2_32 sum_32) c)"

definition ADC_EdIdR :: "bxInstruction \<Rightarrow> bx_cpu \<Rightarrow> bx_cpu" where
  "ADC_EdIdR i c =
     (let temp_CF = getB_CF (oszapc c);
          op1_32 = BX_READ_32BIT_REG (i_dst i) c;
          op2_32 = i_Id i;
          sum_32 = op1_32 + op2_32 + temp_CF;
          c = BX_WRITE_32BIT_REGZ (i_dst i) sum_32 c
      in upd_lf (SET_FLAGS_OSZAPC_ADD 32 op1_32 op2_32 sum_32) c)"

definition SBB_GdEdR :: "bxInstruction \<Rightarrow> bx_cpu \<Rightarrow> bx_cpu" where
  "SBB_GdEdR i c =
     (let temp_CF = getB_CF (oszapc c);
          op1_32 = BX_READ_32BIT_REG (i_dst i) c;
          op2_32 = BX_READ_32BIT_REG (i_src i) c;
          diff_32 = op1_32 - (op2_32 + temp_CF);
          c = BX_WRITE_32BIT_REGZ (i_dst i) diff_32 c
      in upd_lf (SET_FLAGS_OSZAPC_SUB 32 op1_32 op2_32 diff_32) c)"

definition SBB_EdIdR :: "bxInstruction \<Rightarrow> bx_cpu \<Rightarrow> bx_cpu" where
  "SBB_EdIdR i c =
     (let temp_CF = getB_CF (oszapc c);
          op1_32 = BX_READ_32BIT_REG (i_dst i) c;
          op2_32 = i_Id i;
          diff_32 = op1_32 - (op2_32 + temp_CF);
          c = BX_WRITE_32BIT_REGZ (i_dst i) diff_32 c
      in upd_lf (SET_FLAGS_OSZAPC_SUB 32 op1_32 op2_32 diff_32) c)"

definition SUB_GdEdR :: "bxInstruction \<Rightarrow> bx_cpu \<Rightarrow> bx_cpu" where
  "SUB_GdEdR i c =
     (let op1_32 = BX_READ_32BIT_REG (i_dst i) c;
          op2_32 = BX_READ_32BIT_REG (i_src i) c;
          diff_32 = op1_32 - op2_32;
          c = BX_WRITE_32BIT_REGZ (i_dst i) diff_32 c
      in upd_lf (SET_FLAGS_OSZAPC_SUB 32 op1_32 op2_32 diff_32) c)"

definition SUB_EdIdR :: "bxInstruction \<Rightarrow> bx_cpu \<Rightarrow> bx_cpu" where
  "SUB_EdIdR i c =
     (let op1_32 = BX_READ_32BIT_REG (i_dst i) c;
          op2_32 = i_Id i;
          diff_32 = op1_32 - op2_32;
          c = BX_WRITE_32BIT_REGZ (i_dst i) diff_32 c
      in upd_lf (SET_FLAGS_OSZAPC_SUB 32 op1_32 op2_32 diff_32) c)"

definition CMP_GdEdR :: "bxInstruction \<Rightarrow> bx_cpu \<Rightarrow> bx_cpu" where
  "CMP_GdEdR i c =
     (let op1_32 = BX_READ_32BIT_REG (i_dst i) c;
          op2_32 = BX_READ_32BIT_REG (i_src i) c;
          diff_32 = op1_32 - op2_32
      in upd_lf (SET_FLAGS_OSZAPC_SUB 32 op1_32 op2_32 diff_32) c)"

definition CMP_EdIdR :: "bxInstruction \<Rightarrow> bx_cpu \<Rightarrow> bx_cpu" where
  "CMP_EdIdR i c =
     (let op1_32 = BX_READ_32BIT_REG (i_dst i) c;
          op2_32 = i_Id i;
          diff_32 = op1_32 - op2_32
      in upd_lf (SET_FLAGS_OSZAPC_SUB 32 op1_32 op2_32 diff_32) c)"

definition XADD_EdGdR :: "bxInstruction \<Rightarrow> bx_cpu \<Rightarrow> bx_cpu" where
  "XADD_EdGdR i c =
     (let op1_32 = BX_READ_32BIT_REG (i_dst i) c;
          op2_32 = BX_READ_32BIT_REG (i_src i) c;
          sum_32 = op1_32 + op2_32;
          c = BX_WRITE_32BIT_REGZ (i_src i) op1_32 c;
          c = BX_WRITE_32BIT_REGZ (i_dst i) sum_32 c
      in upd_lf (SET_FLAGS_OSZAPC_ADD 32 op1_32 op2_32 sum_32) c)"

definition NEG_EdR :: "bxInstruction \<Rightarrow> bx_cpu \<Rightarrow> bx_cpu" where
  "NEG_EdR i c =
     (let op1_32 = BX_READ_32BIT_REG (i_dst i) c;
          op1_32 = - op1_32;
          c = BX_WRITE_32BIT_REGZ (i_dst i) op1_32 c
      in upd_lf (SET_FLAGS_OSZAPC_SUB 32 0 (0 - op1_32) op1_32) c)"

definition INC_EdR :: "bxInstruction \<Rightarrow> bx_cpu \<Rightarrow> bx_cpu" where
  "INC_EdR i c =
     (let c = set_gen_reg (i_dst i) (set_erx (BX_READ_32BIT_REG (i_dst i) c + 1) (gen_reg c (i_dst i))) c;
          erxv = BX_READ_32BIT_REG (i_dst i) c;
          c = upd_lf (SET_FLAGS_OSZAP_ADD 32 (erxv - 1) 0 erxv) c
      in BX_CLEAR_64BIT_HIGH (i_dst i) c)"

definition DEC_EdR :: "bxInstruction \<Rightarrow> bx_cpu \<Rightarrow> bx_cpu" where
  "DEC_EdR i c =
     (let c = set_gen_reg (i_dst i) (set_erx (BX_READ_32BIT_REG (i_dst i) c - 1) (gen_reg c (i_dst i))) c;
          erxv = BX_READ_32BIT_REG (i_dst i) c;
          c = upd_lf (SET_FLAGS_OSZAP_SUB 32 (erxv + 1) 0 erxv) c
      in BX_CLEAR_64BIT_HIGH (i_dst i) c)"

definition CMPXCHG_EdGdR :: "bxInstruction \<Rightarrow> bx_cpu \<Rightarrow> bx_cpu" where
  "CMPXCHG_EdGdR i c =
     (let op1_32 = BX_READ_32BIT_REG (i_dst i) c;
          diff_32 = EAX c - op1_32;
          c = upd_lf (SET_FLAGS_OSZAPC_SUB 32 (EAX c) op1_32 diff_32) c
      in if diff_32 = 0
         then BX_WRITE_32BIT_REGZ (i_dst i) (BX_READ_32BIT_REG (i_src i) c) c
         else set_RAX (ucast op1_32) c)"

section \<open>64-bit handlers (cpu/arith64.cc)\<close>

definition ADD_GqEqR :: "bxInstruction \<Rightarrow> bx_cpu \<Rightarrow> bx_cpu" where
  "ADD_GqEqR i c =
     (let op1_64 = BX_READ_64BIT_REG (i_dst i) c;
          op2_64 = BX_READ_64BIT_REG (i_src i) c;
          sum_64 = op1_64 + op2_64;
          c = BX_WRITE_64BIT_REG (i_dst i) sum_64 c
      in upd_lf (SET_FLAGS_OSZAPC_ADD 64 op1_64 op2_64 sum_64) c)"

definition ADD_EqIdR :: "bxInstruction \<Rightarrow> bx_cpu \<Rightarrow> bx_cpu" where
  "ADD_EqIdR i c =
     (let op1_64 = BX_READ_64BIT_REG (i_dst i) c;
          op2_64 = scast (i_Id i) :: u64;
          sum_64 = op1_64 + op2_64;
          c = BX_WRITE_64BIT_REG (i_dst i) sum_64 c
      in upd_lf (SET_FLAGS_OSZAPC_ADD 64 op1_64 op2_64 sum_64) c)"

definition ADC_GqEqR :: "bxInstruction \<Rightarrow> bx_cpu \<Rightarrow> bx_cpu" where
  "ADC_GqEqR i c =
     (let op1_64 = BX_READ_64BIT_REG (i_dst i) c;
          op2_64 = BX_READ_64BIT_REG (i_src i) c;
          sum_64 = op1_64 + op2_64 + ucast (getB_CF (oszapc c));
          c = BX_WRITE_64BIT_REG (i_dst i) sum_64 c
      in upd_lf (SET_FLAGS_OSZAPC_ADD 64 op1_64 op2_64 sum_64) c)"

definition ADC_EqIdR :: "bxInstruction \<Rightarrow> bx_cpu \<Rightarrow> bx_cpu" where
  "ADC_EqIdR i c =
     (let op1_64 = BX_READ_64BIT_REG (i_dst i) c;
          op2_64 = scast (i_Id i) :: u64;
          sum_64 = op1_64 + op2_64 + ucast (getB_CF (oszapc c));
          c = BX_WRITE_64BIT_REG (i_dst i) sum_64 c
      in upd_lf (SET_FLAGS_OSZAPC_ADD 64 op1_64 op2_64 sum_64) c)"

definition SBB_GqEqR :: "bxInstruction \<Rightarrow> bx_cpu \<Rightarrow> bx_cpu" where
  "SBB_GqEqR i c =
     (let op1_64 = BX_READ_64BIT_REG (i_dst i) c;
          op2_64 = BX_READ_64BIT_REG (i_src i) c;
          diff_64 = op1_64 - (op2_64 + ucast (getB_CF (oszapc c)));
          c = BX_WRITE_64BIT_REG (i_dst i) diff_64 c
      in upd_lf (SET_FLAGS_OSZAPC_SUB 64 op1_64 op2_64 diff_64) c)"

definition SBB_EqIdR :: "bxInstruction \<Rightarrow> bx_cpu \<Rightarrow> bx_cpu" where
  "SBB_EqIdR i c =
     (let op1_64 = BX_READ_64BIT_REG (i_dst i) c;
          op2_64 = scast (i_Id i) :: u64;
          diff_64 = op1_64 - (op2_64 + ucast (getB_CF (oszapc c)));
          c = BX_WRITE_64BIT_REG (i_dst i) diff_64 c
      in upd_lf (SET_FLAGS_OSZAPC_SUB 64 op1_64 op2_64 diff_64) c)"

definition SUB_GqEqR :: "bxInstruction \<Rightarrow> bx_cpu \<Rightarrow> bx_cpu" where
  "SUB_GqEqR i c =
     (let op1_64 = BX_READ_64BIT_REG (i_dst i) c;
          op2_64 = BX_READ_64BIT_REG (i_src i) c;
          diff_64 = op1_64 - op2_64;
          c = BX_WRITE_64BIT_REG (i_dst i) diff_64 c
      in upd_lf (SET_FLAGS_OSZAPC_SUB 64 op1_64 op2_64 diff_64) c)"

definition SUB_EqIdR :: "bxInstruction \<Rightarrow> bx_cpu \<Rightarrow> bx_cpu" where
  "SUB_EqIdR i c =
     (let op1_64 = BX_READ_64BIT_REG (i_dst i) c;
          op2_64 = scast (i_Id i) :: u64;
          diff_64 = op1_64 - op2_64;
          c = BX_WRITE_64BIT_REG (i_dst i) diff_64 c
      in upd_lf (SET_FLAGS_OSZAPC_SUB 64 op1_64 op2_64 diff_64) c)"

definition CMP_GqEqR :: "bxInstruction \<Rightarrow> bx_cpu \<Rightarrow> bx_cpu" where
  "CMP_GqEqR i c =
     (let op1_64 = BX_READ_64BIT_REG (i_dst i) c;
          op2_64 = BX_READ_64BIT_REG (i_src i) c;
          diff_64 = op1_64 - op2_64
      in upd_lf (SET_FLAGS_OSZAPC_SUB 64 op1_64 op2_64 diff_64) c)"

definition CMP_EqIdR :: "bxInstruction \<Rightarrow> bx_cpu \<Rightarrow> bx_cpu" where
  "CMP_EqIdR i c =
     (let op1_64 = BX_READ_64BIT_REG (i_dst i) c;
          op2_64 = scast (i_Id i) :: u64;
          diff_64 = op1_64 - op2_64
      in upd_lf (SET_FLAGS_OSZAPC_SUB 64 op1_64 op2_64 diff_64) c)"

definition XADD_EqGqR :: "bxInstruction \<Rightarrow> bx_cpu \<Rightarrow> bx_cpu" where
  "XADD_EqGqR i c =
     (let op1_64 = BX_READ_64BIT_REG (i_dst i) c;
          op2_64 = BX_READ_64BIT_REG (i_src i) c;
          sum_64 = op1_64 + op2_64;
          c = BX_WRITE_64BIT_REG (i_src i) op1_64 c;
          c = BX_WRITE_64BIT_REG (i_dst i) sum_64 c
      in upd_lf (SET_FLAGS_OSZAPC_ADD 64 op1_64 op2_64 sum_64) c)"

definition NEG_EqR :: "bxInstruction \<Rightarrow> bx_cpu \<Rightarrow> bx_cpu" where
  "NEG_EqR i c =
     (let op1_64 = BX_READ_64BIT_REG (i_dst i) c;
          op1_64 = - op1_64;
          c = BX_WRITE_64BIT_REG (i_dst i) op1_64 c
      in upd_lf (SET_FLAGS_OSZAPC_SUB 64 0 (- op1_64) op1_64) c)"

definition INC_EqR :: "bxInstruction \<Rightarrow> bx_cpu \<Rightarrow> bx_cpu" where
  "INC_EqR i c =
     (let c = BX_WRITE_64BIT_REG (i_dst i) (BX_READ_64BIT_REG (i_dst i) c + 1) c;
          rrxv = BX_READ_64BIT_REG (i_dst i) c
      in upd_lf (SET_FLAGS_OSZAP_ADD 64 (rrxv - 1) 0 rrxv) c)"

definition DEC_EqR :: "bxInstruction \<Rightarrow> bx_cpu \<Rightarrow> bx_cpu" where
  "DEC_EqR i c =
     (let c = BX_WRITE_64BIT_REG (i_dst i) (BX_READ_64BIT_REG (i_dst i) c - 1) c;
          rrxv = BX_READ_64BIT_REG (i_dst i) c
      in upd_lf (SET_FLAGS_OSZAP_SUB 64 (rrxv + 1) 0 rrxv) c)"

definition CMPXCHG_EqGqR :: "bxInstruction \<Rightarrow> bx_cpu \<Rightarrow> bx_cpu" where
  "CMPXCHG_EqGqR i c =
     (let op1_64 = BX_READ_64BIT_REG (i_dst i) c;
          diff_64 = RAX c - op1_64;
          c = upd_lf (SET_FLAGS_OSZAPC_SUB 64 (RAX c) op1_64 diff_64) c
      in if diff_64 = 0
         then BX_WRITE_64BIT_REG (i_dst i) (BX_READ_64BIT_REG (i_src i) c) c
         else set_RAX op1_64 c)"

section \<open>Sign extension of the accumulator\<close>

definition CBW :: "bx_cpu \<Rightarrow> bx_cpu" where
  "CBW c = set_AX (scast (AL c)) c"

definition CWD :: "bx_cpu \<Rightarrow> bx_cpu" where
  "CWD c = (if AX c AND 0x8000 \<noteq> 0 then set_DX 0xFFFF c else set_DX 0x0000 c)"

definition CWDE :: "bx_cpu \<Rightarrow> bx_cpu" where
  "CWDE c = (let tmp = scast (AX c) :: u32 in set_RAX (ucast tmp) c)"

definition CDQ :: "bx_cpu \<Rightarrow> bx_cpu" where
  "CDQ c = (if EAX c AND 0x80000000 \<noteq> 0 then set_RDX 0xFFFFFFFF c else set_RDX 0x00000000 c)"

definition CDQE :: "bx_cpu \<Rightarrow> bx_cpu" where
  "CDQE c = set_RAX (scast (EAX c)) c"

definition CQO :: "bx_cpu \<Rightarrow> bx_cpu" where
  "CQO c = (if RAX c AND 0x8000000000000000 \<noteq> 0 then set_RDX 0xffffffffffffffff c else set_RDX 0 c)"

section \<open>What the instructions promise\<close>

text \<open>
  The reference semantics on what the guest sees, for any operand width: \<open>rd\<close> and \<open>wr\<close> read
  and write a register operand, \<open>d\<close> is the destination, \<open>y\<close> the second operand and \<open>b\<close> the
  incoming carry or borrow.
\<close>

definition arch_ADD where
  "arch_ADD rd wr d y b c = \<lparr>ar_reg = gen_reg (wr d (rd d c + y + of_bool b) c),
     ar_flags = arch_add (rd d c) y b\<rparr>"

definition arch_SUB where
  "arch_SUB rd wr d y b c = \<lparr>ar_reg = gen_reg (wr d (rd d c - (y + of_bool b)) c),
     ar_flags = arch_sub (rd d c) y b\<rparr>"

definition arch_CMP where
  "arch_CMP rd d y c = \<lparr>ar_reg = gen_reg c, ar_flags = arch_sub (rd d c) y False\<rparr>"

definition arch_INC where
  "arch_INC rd wr d c = \<lparr>ar_reg = gen_reg (wr d (rd d c + 1) c),
     ar_flags = (arch_add (rd d c) 1 False)\<lparr>fl_CF := fl_CF (lf_abs (oszapc c))\<rparr>\<rparr>"

definition arch_DEC where
  "arch_DEC rd wr d c = \<lparr>ar_reg = gen_reg (wr d (rd d c - 1) c),
     ar_flags = (arch_sub (rd d c) 1 False)\<lparr>fl_CF := fl_CF (lf_abs (oszapc c))\<rparr>\<rparr>"

definition arch_NEG where
  "arch_NEG rd wr d c = \<lparr>ar_reg = gen_reg (wr d (- rd d c) c), ar_flags = arch_sub 0 (rd d c) False\<rparr>"

definition arch_XADD where
  "arch_XADD rd wr d s c = \<lparr>ar_reg = gen_reg (wr d (rd d c + rd s c) (wr s (rd d c) c)),
     ar_flags = arch_add (rd d c) (rd s c) False\<rparr>"

definition arch_CMPXCHG where
  "arch_CMPXCHG rd wr acc d s c =
     \<lparr>ar_reg = gen_reg (if rd acc c = rd d c then wr d (rd s c) c else wr acc (rd d c) c),
      ar_flags = arch_sub (rd acc c) (rd d c) False\<rparr>"

lemmas arch_op_defs = arch_ADD_def arch_SUB_def arch_CMP_def arch_INC_def arch_DEC_def arch_NEG_def
  arch_XADD_def arch_CMPXCHG_def

section \<open>The handlers implement them\<close>

lemma arch_add_one:
  assumes "4 < LENGTH('a)"
  shows "arch_add (x :: 'a::len word) 0 True = arch_add x 1 False"
    and "arch_sub (x :: 'a::len word) 0 True = arch_sub x 1 False"
  using assms by (simp_all add: arch_add_def arch_sub_def)

abbreviation "rd8 i \<equiv> \<lambda>k. BX_READ_8BIT_REGx k (i_extend8bitL i)"
abbreviation "wr8 i \<equiv> \<lambda>k. BX_WRITE_8BIT_REGx k (i_extend8bitL i)"
abbreviation "carry c \<equiv> fl_CF (lf_abs (oszapc c))"

lemmas reg_laws = reg8.rd_lf reg8.wr_lf reg8.wr_upd_lf reg16.rd_lf reg16.wr_lf reg16.wr_upd_lf
  reg32.rd_lf reg32.wr_lf reg32.wr_upd_lf
  reg64.rd_lf reg64.wr_lf reg64.wr_upd_lf

text \<open>The macros at the widths the handlers use them, for the three carries that occur.\<close>

lemmas flags_8 = SET_FLAGS_low [where 'a = 8 and 'b = 32, OF _ _ _ refl refl, simplified]
lemmas flags_16 = SET_FLAGS_low [where 'a = 16 and 'b = 32, OF _ _ _ refl refl, simplified]
lemmas flags_32 = SET_FLAGS_low [where 'a = 32 and 'b = 32, OF _ _ _ refl refl, simplified]
lemmas flags_64 = SET_FLAGS_low [where 'a = 64 and 'b = 64, OF _ _ _ refl refl, simplified]

lemmas flags_no_carry = flags_8 [where c = False, simplified] flags_16 [where c = False, simplified]
  flags_32 [where c = False, simplified] flags_64 [where c = False, simplified]
lemmas flags_one = flags_8 [where c = True, simplified] flags_16 [where c = True, simplified]
  flags_32 [where c = True, simplified] flags_64 [where c = True, simplified]
lemmas flags_carry = flags_8 [where c = "carry c" and lf = "oszapc c" for c]
  flags_16 [where c = "carry c" and lf = "oszapc c" for c]
  flags_32 [where c = "carry c" and lf = "oszapc c" for c]
  flags_64 [where c = "carry c" and lf = "oszapc c" for c]

lemmas down_8 = ucast_down [where 'a = 8 and 'b = 32, simplified] ucast_up_down [where 'a = 8 and 'b = 32, simplified]
lemmas down_16 = ucast_down [where 'a = 16 and 'b = 32, simplified] ucast_up_down [where 'a = 16 and 'b = 32, simplified]
lemmas arch_handler_simps = arch_op_defs cpu_abs_def Let_def reg_laws getB_of_bool down_8 down_16
  flags_no_carry flags_carry flags_one arch_add_one

lemma ucast_diff_zero: "(ucast (x :: u8) :: u32) = ucast y \<longleftrightarrow> x = y"
proof
  assume "(ucast x :: u32) = ucast y"
  then have "(ucast (ucast x :: u32) :: u8) = ucast (ucast y :: u32)" by simp
  then show "x = y" by (simp add: down_8)
qed simp

text \<open>The 32-bit increment in place, then clearing the upper half.\<close>

lemma inc_dec_32:
  "BX_READ_32BIT_REG n (set_gen_reg n (set_erx w v) c) = w"
  "BX_CLEAR_64BIT_HIGH n (set_gen_reg n (set_erx w v) c) = BX_WRITE_32BIT_REGZ n w c"
  "BX_CLEAR_64BIT_HIGH n (upd_lf f c) = upd_lf f (BX_CLEAR_64BIT_HIGH n c)"
  by (simp_all add: BX_READ_32BIT_REG_def BX_CLEAR_64BIT_HIGH_def BX_WRITE_32BIT_REGZ_def
      set_gen_reg_upd_lf)

lemma ADD_8_sim:
  "cpu_abs (ADD_GbEbR i c) = arch_ADD (rd8 i) (wr8 i) (i_dst i) (rd8 i (i_src i) c) False c"
  "cpu_abs (ADD_EbIbR i c) = arch_ADD (rd8 i) (wr8 i) (i_dst i) (i_Ib i) False c"
  "cpu_abs (ADC_GbEbR i c) = arch_ADD (rd8 i) (wr8 i) (i_dst i) (rd8 i (i_src i) c) (carry c) c"
  "cpu_abs (ADC_EbIbR i c) = arch_ADD (rd8 i) (wr8 i) (i_dst i) (i_Ib i) (carry c) c"
  "cpu_abs (XADD_EbGbR i c) = arch_XADD (rd8 i) (wr8 i) (i_dst i) (i_src i) c"
  by (simp_all add: ADD_GbEbR_def ADD_EbIbR_def ADC_GbEbR_def ADC_EbIbR_def XADD_EbGbR_def
      arch_handler_simps)

lemma SUB_8_sim:
  "cpu_abs (SUB_GbEbR i c) = arch_SUB (rd8 i) (wr8 i) (i_dst i) (rd8 i (i_src i) c) False c"
  "cpu_abs (SUB_EbIbR i c) = arch_SUB (rd8 i) (wr8 i) (i_dst i) (i_Ib i) False c"
  "cpu_abs (SBB_GbEbR i c) = arch_SUB (rd8 i) (wr8 i) (i_dst i) (rd8 i (i_src i) c) (carry c) c"
  "cpu_abs (SBB_EbIbR i c) = arch_SUB (rd8 i) (wr8 i) (i_dst i) (i_Ib i) (carry c) c"
  "cpu_abs (CMP_GbEbR i c) = arch_CMP (rd8 i) (i_dst i) (rd8 i (i_src i) c) c"
  "cpu_abs (CMP_EbIbR i c) = arch_CMP (rd8 i) (i_dst i) (i_Ib i) c"
  by (simp_all add: SUB_GbEbR_def SUB_EbIbR_def SBB_GbEbR_def SBB_EbIbR_def CMP_GbEbR_def CMP_EbIbR_def
      arch_handler_simps)

lemma INC_DEC_NEG_8_sim:
  "cpu_abs (INC_EbR i c) = arch_INC (rd8 i) (wr8 i) (i_dst i) c"
  "cpu_abs (DEC_EbR i c) = arch_DEC (rd8 i) (wr8 i) (i_dst i) c"
  "cpu_abs (NEG_EbR i c) = arch_NEG (rd8 i) (wr8 i) (i_dst i) c"
  by (simp_all add: INC_EbR_def DEC_EbR_def NEG_EbR_def
      arch_handler_simps)

lemma CMPXCHG_8_sim:
  "cpu_abs (CMPXCHG_EbGbR i c) = arch_CMPXCHG (rd8 i) (wr8 i) 0 (i_dst i) (i_src i) c"
  by (simp_all add: CMPXCHG_EbGbR_def
      arch_handler_simps ucast_diff_zero accumulator_views(1,2) [where ext = "i_extend8bitL i"])

lemma ADD_16_sim:
  "cpu_abs (ADD_GwEwR i c) = arch_ADD BX_READ_16BIT_REG BX_WRITE_16BIT_REG (i_dst i) (BX_READ_16BIT_REG (i_src i) c) False c"
  "cpu_abs (ADD_EwIwR i c) = arch_ADD BX_READ_16BIT_REG BX_WRITE_16BIT_REG (i_dst i) (i_Iw i) False c"
  "cpu_abs (ADC_GwEwR i c) = arch_ADD BX_READ_16BIT_REG BX_WRITE_16BIT_REG (i_dst i) (BX_READ_16BIT_REG (i_src i) c) (carry c) c"
  "cpu_abs (ADC_EwIwR i c) = arch_ADD BX_READ_16BIT_REG BX_WRITE_16BIT_REG (i_dst i) (i_Iw i) (carry c) c"
  "cpu_abs (XADD_EwGwR i c) = arch_XADD BX_READ_16BIT_REG BX_WRITE_16BIT_REG (i_dst i) (i_src i) c"
  by (simp_all add: ADD_GwEwR_def ADD_EwIwR_def ADC_GwEwR_def ADC_EwIwR_def XADD_EwGwR_def
      arch_handler_simps)

lemma SUB_16_sim:
  "cpu_abs (SUB_GwEwR i c) = arch_SUB BX_READ_16BIT_REG BX_WRITE_16BIT_REG (i_dst i) (BX_READ_16BIT_REG (i_src i) c) False c"
  "cpu_abs (SUB_EwIwR i c) = arch_SUB BX_READ_16BIT_REG BX_WRITE_16BIT_REG (i_dst i) (i_Iw i) False c"
  "cpu_abs (SBB_GwEwR i c) = arch_SUB BX_READ_16BIT_REG BX_WRITE_16BIT_REG (i_dst i) (BX_READ_16BIT_REG (i_src i) c) (carry c) c"
  "cpu_abs (SBB_EwIwR i c) = arch_SUB BX_READ_16BIT_REG BX_WRITE_16BIT_REG (i_dst i) (i_Iw i) (carry c) c"
  "cpu_abs (CMP_GwEwR i c) = arch_CMP (BX_READ_16BIT_REG) (i_dst i) (BX_READ_16BIT_REG (i_src i) c) c"
  "cpu_abs (CMP_EwIwR i c) = arch_CMP (BX_READ_16BIT_REG) (i_dst i) (i_Iw i) c"
  by (simp_all add: SUB_GwEwR_def SUB_EwIwR_def SBB_GwEwR_def SBB_EwIwR_def CMP_GwEwR_def CMP_EwIwR_def
      arch_handler_simps)

lemma INC_DEC_NEG_16_sim:
  "cpu_abs (INC_EwR i c) = arch_INC BX_READ_16BIT_REG BX_WRITE_16BIT_REG (i_dst i) c"
  "cpu_abs (DEC_EwR i c) = arch_DEC BX_READ_16BIT_REG BX_WRITE_16BIT_REG (i_dst i) c"
  "cpu_abs (NEG_EwR i c) = arch_NEG BX_READ_16BIT_REG BX_WRITE_16BIT_REG (i_dst i) c"
  by (simp_all add: INC_EwR_def DEC_EwR_def NEG_EwR_def
      arch_handler_simps reg16.rd_wr)

lemma CMPXCHG_16_sim:
  "cpu_abs (CMPXCHG_EwGwR i c) = arch_CMPXCHG BX_READ_16BIT_REG BX_WRITE_16BIT_REG 0 (i_dst i) (i_src i) c"
  by (simp_all add: CMPXCHG_EwGwR_def
      arch_handler_simps accumulator_views(5,6))

lemma ADD_32_sim:
  "cpu_abs (ADD_GdEdR i c) = arch_ADD BX_READ_32BIT_REG BX_WRITE_32BIT_REGZ (i_dst i) (BX_READ_32BIT_REG (i_src i) c) False c"
  "cpu_abs (ADD_EdIdR i c) = arch_ADD BX_READ_32BIT_REG BX_WRITE_32BIT_REGZ (i_dst i) (i_Id i) False c"
  "cpu_abs (ADC_GdEdR i c) = arch_ADD BX_READ_32BIT_REG BX_WRITE_32BIT_REGZ (i_dst i) (BX_READ_32BIT_REG (i_src i) c) (carry c) c"
  "cpu_abs (ADC_EdIdR i c) = arch_ADD BX_READ_32BIT_REG BX_WRITE_32BIT_REGZ (i_dst i) (i_Id i) (carry c) c"
  "cpu_abs (XADD_EdGdR i c) = arch_XADD BX_READ_32BIT_REG BX_WRITE_32BIT_REGZ (i_dst i) (i_src i) c"
  by (simp_all add: ADD_GdEdR_def ADD_EdIdR_def ADC_GdEdR_def ADC_EdIdR_def XADD_EdGdR_def
      arch_handler_simps)

lemma SUB_32_sim:
  "cpu_abs (SUB_GdEdR i c) = arch_SUB BX_READ_32BIT_REG BX_WRITE_32BIT_REGZ (i_dst i) (BX_READ_32BIT_REG (i_src i) c) False c"
  "cpu_abs (SUB_EdIdR i c) = arch_SUB BX_READ_32BIT_REG BX_WRITE_32BIT_REGZ (i_dst i) (i_Id i) False c"
  "cpu_abs (SBB_GdEdR i c) = arch_SUB BX_READ_32BIT_REG BX_WRITE_32BIT_REGZ (i_dst i) (BX_READ_32BIT_REG (i_src i) c) (carry c) c"
  "cpu_abs (SBB_EdIdR i c) = arch_SUB BX_READ_32BIT_REG BX_WRITE_32BIT_REGZ (i_dst i) (i_Id i) (carry c) c"
  "cpu_abs (CMP_GdEdR i c) = arch_CMP (BX_READ_32BIT_REG) (i_dst i) (BX_READ_32BIT_REG (i_src i) c) c"
  "cpu_abs (CMP_EdIdR i c) = arch_CMP (BX_READ_32BIT_REG) (i_dst i) (i_Id i) c"
  by (simp_all add: SUB_GdEdR_def SUB_EdIdR_def SBB_GdEdR_def SBB_EdIdR_def CMP_GdEdR_def CMP_EdIdR_def
      arch_handler_simps)

lemma INC_DEC_NEG_32_sim:
  "cpu_abs (INC_EdR i c) = arch_INC BX_READ_32BIT_REG BX_WRITE_32BIT_REGZ (i_dst i) c"
  "cpu_abs (DEC_EdR i c) = arch_DEC BX_READ_32BIT_REG BX_WRITE_32BIT_REGZ (i_dst i) c"
  "cpu_abs (NEG_EdR i c) = arch_NEG BX_READ_32BIT_REG BX_WRITE_32BIT_REGZ (i_dst i) c"
  by (simp_all add: INC_EdR_def DEC_EdR_def NEG_EdR_def
      arch_handler_simps inc_dec_32)

lemma CMPXCHG_32_sim:
  "cpu_abs (CMPXCHG_EdGdR i c) = arch_CMPXCHG BX_READ_32BIT_REG BX_WRITE_32BIT_REGZ 0 (i_dst i) (i_src i) c"
  by (simp_all add: CMPXCHG_EdGdR_def
      arch_handler_simps accumulator_views(7,8))

lemma ADD_64_sim:
  "cpu_abs (ADD_GqEqR i c) = arch_ADD BX_READ_64BIT_REG BX_WRITE_64BIT_REG (i_dst i) (BX_READ_64BIT_REG (i_src i) c) False c"
  "cpu_abs (ADD_EqIdR i c) = arch_ADD BX_READ_64BIT_REG BX_WRITE_64BIT_REG (i_dst i) (scast (i_Id i)) False c"
  "cpu_abs (ADC_GqEqR i c) = arch_ADD BX_READ_64BIT_REG BX_WRITE_64BIT_REG (i_dst i) (BX_READ_64BIT_REG (i_src i) c) (carry c) c"
  "cpu_abs (ADC_EqIdR i c) = arch_ADD BX_READ_64BIT_REG BX_WRITE_64BIT_REG (i_dst i) (scast (i_Id i)) (carry c) c"
  "cpu_abs (XADD_EqGqR i c) = arch_XADD BX_READ_64BIT_REG BX_WRITE_64BIT_REG (i_dst i) (i_src i) c"
  by (simp_all add: ADD_GqEqR_def ADD_EqIdR_def ADC_GqEqR_def ADC_EqIdR_def XADD_EqGqR_def
      arch_handler_simps)

lemma SUB_64_sim:
  "cpu_abs (SUB_GqEqR i c) = arch_SUB BX_READ_64BIT_REG BX_WRITE_64BIT_REG (i_dst i) (BX_READ_64BIT_REG (i_src i) c) False c"
  "cpu_abs (SUB_EqIdR i c) = arch_SUB BX_READ_64BIT_REG BX_WRITE_64BIT_REG (i_dst i) (scast (i_Id i)) False c"
  "cpu_abs (SBB_GqEqR i c) = arch_SUB BX_READ_64BIT_REG BX_WRITE_64BIT_REG (i_dst i) (BX_READ_64BIT_REG (i_src i) c) (carry c) c"
  "cpu_abs (SBB_EqIdR i c) = arch_SUB BX_READ_64BIT_REG BX_WRITE_64BIT_REG (i_dst i) (scast (i_Id i)) (carry c) c"
  "cpu_abs (CMP_GqEqR i c) = arch_CMP (BX_READ_64BIT_REG) (i_dst i) (BX_READ_64BIT_REG (i_src i) c) c"
  "cpu_abs (CMP_EqIdR i c) = arch_CMP (BX_READ_64BIT_REG) (i_dst i) (scast (i_Id i)) c"
  by (simp_all add: SUB_GqEqR_def SUB_EqIdR_def SBB_GqEqR_def SBB_EqIdR_def CMP_GqEqR_def CMP_EqIdR_def
      arch_handler_simps)

lemma INC_DEC_NEG_64_sim:
  "cpu_abs (INC_EqR i c) = arch_INC BX_READ_64BIT_REG BX_WRITE_64BIT_REG (i_dst i) c"
  "cpu_abs (DEC_EqR i c) = arch_DEC BX_READ_64BIT_REG BX_WRITE_64BIT_REG (i_dst i) c"
  "cpu_abs (NEG_EqR i c) = arch_NEG BX_READ_64BIT_REG BX_WRITE_64BIT_REG (i_dst i) c"
  by (simp_all add: INC_EqR_def DEC_EqR_def NEG_EqR_def
      arch_handler_simps reg64.rd_wr)

lemma CMPXCHG_64_sim:
  "cpu_abs (CMPXCHG_EqGqR i c) = arch_CMPXCHG BX_READ_64BIT_REG BX_WRITE_64BIT_REG 0 (i_dst i) (i_src i) c"
  by (simp_all add: CMPXCHG_EqGqR_def
      arch_handler_simps accumulator_views(9,10))

section \<open>Sign extension\<close>

text \<open>
  The accumulator and its extension register hold the sign-extended accumulator: the pair read
  as a two-limb number is the old accumulator read as a signed number.
\<close>

lemma and_top_bit:
  "(w :: u16) AND 0x8000 \<noteq> 0 \<longleftrightarrow> sint w < 0" "(x :: u32) AND 0x80000000 \<noteq> 0 \<longleftrightarrow> sint x < 0"
  "(y :: u64) AND 0x8000000000000000 \<noteq> 0 \<longleftrightarrow> sint y < 0"
proof -
  have m: "(0x8000 :: u16) = shl1 15" "(0x80000000 :: u32) = shl1 31"
    "(0x8000000000000000 :: u64) = shl1 63"
    by (simp_all add: shl1_def)
  show "w AND 0x8000 \<noteq> 0 \<longleftrightarrow> sint w < 0" "x AND 0x80000000 \<noteq> 0 \<longleftrightarrow> sint x < 0"
    "y AND 0x8000000000000000 \<noteq> 0 \<longleftrightarrow> sint y < 0"
    unfolding m tst_def [symmetric] tst_shl1 sint_neg_iff by simp_all
qed

lemma sint_uint_sign: "sint (w :: 'a::len word) = uint w - (if sint w < 0 then 2 ^ LENGTH('a) else 0)"
proof -
  have "(2 :: int) ^ LENGTH('a) = 2 * 2 ^ (LENGTH('a) - 1)"
    by (metis Suc_diff_1 len_gt_0 power_Suc)
  then show ?thesis
    using sint_top_bit [of w] unfolding sint_neg_iff
    by (cases "bit w (LENGTH('a) - 1)") (simp_all only: of_bool_eq if_True if_False)
qed

lemma extension_registers [simp]:
  "AX (set_DX v c) = AX c" "DX (set_DX v c) = v" "EAX (set_RDX q c) = EAX c" "EDX (set_RDX (ucast u) c) = u"
  "RAX (set_RDX q c) = RAX c" "RDX (set_RDX q c) = q" "AX (set_AX v c) = v" "RAX (set_RAX q c) = q"
  by (simp_all add: AX_def DX_def set_DX_def EAX_def EDX_def set_RDX_def RAX_def RDX_def set_AX_def set_RAX_def)

lemma sign_extension_pairs:
  "sint (DX (CWD c)) * 2 ^ 16 + uint (AX (CWD c)) = sint (AX c)"
  "sint (EDX (CDQ c)) * 2 ^ 32 + uint (EAX (CDQ c)) = sint (EAX c)"
  "sint (RDX (CQO c)) * 2 ^ 64 + uint (RAX (CQO c)) = sint (RAX c)"
proof -
  have u: "RDX (set_RDX q c) = q" "EDX (set_RDX 0xFFFFFFFF c) = -1" "EDX (set_RDX 0 c) = 0" for q
    using extension_registers(4) [of "-1 :: u32" c] extension_registers(4) [of "0 :: u32" c]
    by (simp_all add: unsigned_minus_1_eq_mask mask_eq_exp_minus_1)
  show "sint (DX (CWD c)) * 2 ^ 16 + uint (AX (CWD c)) = sint (AX c)"
    unfolding CWD_def and_top_bit using sint_uint_sign [of "AX c"] by auto
  show "sint (EDX (CDQ c)) * 2 ^ 32 + uint (EAX (CDQ c)) = sint (EAX c)"
    unfolding CDQ_def and_top_bit using sint_uint_sign [of "EAX c"] by (auto simp: u)
  show "sint (RDX (CQO c)) * 2 ^ 64 + uint (RAX (CQO c)) = sint (RAX c)"
    unfolding CQO_def and_top_bit using sint_uint_sign [of "RAX c"] by auto
qed

lemma sign_extension_in_place:
  "sint (AX (CBW c)) = sint (AL c)" "sint (RAX (CDQE c)) = sint (EAX c)"
  "sint (EAX (CWDE c)) = sint (AX c)" "RAX (CWDE c) = ucast (EAX (CWDE c))"
  by (simp_all add: CBW_def CDQE_def CWDE_def EAX_def RAX_def set_RAX_def sint_up_scast is_up)

section \<open>Properties\<close>

text \<open>C4: The register and immediate forms of ADD and ADC and the register form of XADD implement, at the four operand sizes, the addition of the instruction set: the destination receives the sum, XADD also exchanges, no other register changes, and the six flags are those of the sum on numbers.\<close>

theorem add_handlers_correct:
  "(cpu_abs (ADD_GbEbR i c) = arch_ADD (rd8 i) (wr8 i) (i_dst i) (rd8 i (i_src i) c) False c) \<and>
   (cpu_abs (ADD_EbIbR i c) = arch_ADD (rd8 i) (wr8 i) (i_dst i) (i_Ib i) False c) \<and>
   (cpu_abs (ADC_GbEbR i c) = arch_ADD (rd8 i) (wr8 i) (i_dst i) (rd8 i (i_src i) c) (carry c) c) \<and>
   (cpu_abs (ADC_EbIbR i c) = arch_ADD (rd8 i) (wr8 i) (i_dst i) (i_Ib i) (carry c) c) \<and>
   (cpu_abs (XADD_EbGbR i c) = arch_XADD (rd8 i) (wr8 i) (i_dst i) (i_src i) c) \<and>
   (cpu_abs (ADD_GwEwR i c) = arch_ADD BX_READ_16BIT_REG BX_WRITE_16BIT_REG (i_dst i) (BX_READ_16BIT_REG (i_src i) c) False c) \<and>
   (cpu_abs (ADD_EwIwR i c) = arch_ADD BX_READ_16BIT_REG BX_WRITE_16BIT_REG (i_dst i) (i_Iw i) False c) \<and>
   (cpu_abs (ADC_GwEwR i c) = arch_ADD BX_READ_16BIT_REG BX_WRITE_16BIT_REG (i_dst i) (BX_READ_16BIT_REG (i_src i) c) (carry c) c) \<and>
   (cpu_abs (ADC_EwIwR i c) = arch_ADD BX_READ_16BIT_REG BX_WRITE_16BIT_REG (i_dst i) (i_Iw i) (carry c) c) \<and>
   (cpu_abs (XADD_EwGwR i c) = arch_XADD BX_READ_16BIT_REG BX_WRITE_16BIT_REG (i_dst i) (i_src i) c) \<and>
   (cpu_abs (ADD_GdEdR i c) = arch_ADD BX_READ_32BIT_REG BX_WRITE_32BIT_REGZ (i_dst i) (BX_READ_32BIT_REG (i_src i) c) False c) \<and>
   (cpu_abs (ADD_EdIdR i c) = arch_ADD BX_READ_32BIT_REG BX_WRITE_32BIT_REGZ (i_dst i) (i_Id i) False c) \<and>
   (cpu_abs (ADC_GdEdR i c) = arch_ADD BX_READ_32BIT_REG BX_WRITE_32BIT_REGZ (i_dst i) (BX_READ_32BIT_REG (i_src i) c) (carry c) c) \<and>
   (cpu_abs (ADC_EdIdR i c) = arch_ADD BX_READ_32BIT_REG BX_WRITE_32BIT_REGZ (i_dst i) (i_Id i) (carry c) c) \<and>
   (cpu_abs (XADD_EdGdR i c) = arch_XADD BX_READ_32BIT_REG BX_WRITE_32BIT_REGZ (i_dst i) (i_src i) c) \<and>
   (cpu_abs (ADD_GqEqR i c) = arch_ADD BX_READ_64BIT_REG BX_WRITE_64BIT_REG (i_dst i) (BX_READ_64BIT_REG (i_src i) c) False c) \<and>
   (cpu_abs (ADD_EqIdR i c) = arch_ADD BX_READ_64BIT_REG BX_WRITE_64BIT_REG (i_dst i) (scast (i_Id i)) False c) \<and>
   (cpu_abs (ADC_GqEqR i c) = arch_ADD BX_READ_64BIT_REG BX_WRITE_64BIT_REG (i_dst i) (BX_READ_64BIT_REG (i_src i) c) (carry c) c) \<and>
   (cpu_abs (ADC_EqIdR i c) = arch_ADD BX_READ_64BIT_REG BX_WRITE_64BIT_REG (i_dst i) (scast (i_Id i)) (carry c) c) \<and>
   (cpu_abs (XADD_EqGqR i c) = arch_XADD BX_READ_64BIT_REG BX_WRITE_64BIT_REG (i_dst i) (i_src i) c)"
  by (intro conjI; rule ADD_8_sim ADD_16_sim ADD_32_sim ADD_64_sim)

text \<open>C5: The register and immediate forms of SUB, SBB and CMP implement, at the four operand sizes, the subtraction of the instruction set: the destination of SUB and SBB receives the difference, CMP writes no register, and the six flags are those of the difference on numbers.\<close>

theorem sub_handlers_correct:
  "(cpu_abs (SUB_GbEbR i c) = arch_SUB (rd8 i) (wr8 i) (i_dst i) (rd8 i (i_src i) c) False c) \<and>
   (cpu_abs (SUB_EbIbR i c) = arch_SUB (rd8 i) (wr8 i) (i_dst i) (i_Ib i) False c) \<and>
   (cpu_abs (SBB_GbEbR i c) = arch_SUB (rd8 i) (wr8 i) (i_dst i) (rd8 i (i_src i) c) (carry c) c) \<and>
   (cpu_abs (SBB_EbIbR i c) = arch_SUB (rd8 i) (wr8 i) (i_dst i) (i_Ib i) (carry c) c) \<and>
   (cpu_abs (CMP_GbEbR i c) = arch_CMP (rd8 i) (i_dst i) (rd8 i (i_src i) c) c) \<and>
   (cpu_abs (CMP_EbIbR i c) = arch_CMP (rd8 i) (i_dst i) (i_Ib i) c) \<and>
   (cpu_abs (SUB_GwEwR i c) = arch_SUB BX_READ_16BIT_REG BX_WRITE_16BIT_REG (i_dst i) (BX_READ_16BIT_REG (i_src i) c) False c) \<and>
   (cpu_abs (SUB_EwIwR i c) = arch_SUB BX_READ_16BIT_REG BX_WRITE_16BIT_REG (i_dst i) (i_Iw i) False c) \<and>
   (cpu_abs (SBB_GwEwR i c) = arch_SUB BX_READ_16BIT_REG BX_WRITE_16BIT_REG (i_dst i) (BX_READ_16BIT_REG (i_src i) c) (carry c) c) \<and>
   (cpu_abs (SBB_EwIwR i c) = arch_SUB BX_READ_16BIT_REG BX_WRITE_16BIT_REG (i_dst i) (i_Iw i) (carry c) c) \<and>
   (cpu_abs (CMP_GwEwR i c) = arch_CMP (BX_READ_16BIT_REG) (i_dst i) (BX_READ_16BIT_REG (i_src i) c) c) \<and>
   (cpu_abs (CMP_EwIwR i c) = arch_CMP (BX_READ_16BIT_REG) (i_dst i) (i_Iw i) c) \<and>
   (cpu_abs (SUB_GdEdR i c) = arch_SUB BX_READ_32BIT_REG BX_WRITE_32BIT_REGZ (i_dst i) (BX_READ_32BIT_REG (i_src i) c) False c) \<and>
   (cpu_abs (SUB_EdIdR i c) = arch_SUB BX_READ_32BIT_REG BX_WRITE_32BIT_REGZ (i_dst i) (i_Id i) False c) \<and>
   (cpu_abs (SBB_GdEdR i c) = arch_SUB BX_READ_32BIT_REG BX_WRITE_32BIT_REGZ (i_dst i) (BX_READ_32BIT_REG (i_src i) c) (carry c) c) \<and>
   (cpu_abs (SBB_EdIdR i c) = arch_SUB BX_READ_32BIT_REG BX_WRITE_32BIT_REGZ (i_dst i) (i_Id i) (carry c) c) \<and>
   (cpu_abs (CMP_GdEdR i c) = arch_CMP (BX_READ_32BIT_REG) (i_dst i) (BX_READ_32BIT_REG (i_src i) c) c) \<and>
   (cpu_abs (CMP_EdIdR i c) = arch_CMP (BX_READ_32BIT_REG) (i_dst i) (i_Id i) c) \<and>
   (cpu_abs (SUB_GqEqR i c) = arch_SUB BX_READ_64BIT_REG BX_WRITE_64BIT_REG (i_dst i) (BX_READ_64BIT_REG (i_src i) c) False c) \<and>
   (cpu_abs (SUB_EqIdR i c) = arch_SUB BX_READ_64BIT_REG BX_WRITE_64BIT_REG (i_dst i) (scast (i_Id i)) False c) \<and>
   (cpu_abs (SBB_GqEqR i c) = arch_SUB BX_READ_64BIT_REG BX_WRITE_64BIT_REG (i_dst i) (BX_READ_64BIT_REG (i_src i) c) (carry c) c) \<and>
   (cpu_abs (SBB_EqIdR i c) = arch_SUB BX_READ_64BIT_REG BX_WRITE_64BIT_REG (i_dst i) (scast (i_Id i)) (carry c) c) \<and>
   (cpu_abs (CMP_GqEqR i c) = arch_CMP (BX_READ_64BIT_REG) (i_dst i) (BX_READ_64BIT_REG (i_src i) c) c) \<and>
   (cpu_abs (CMP_EqIdR i c) = arch_CMP (BX_READ_64BIT_REG) (i_dst i) (scast (i_Id i)) c)"
  by (intro conjI; rule SUB_8_sim SUB_16_sim SUB_32_sim SUB_64_sim)

text \<open>INC and DEC change the destination by one, keep CF and set the other flags; NEG writes the negated operand with the flags of a subtraction from zero, at the four operand sizes.\<close>

theorem inc_dec_neg_correct:
  "(cpu_abs (INC_EbR i c) = arch_INC (rd8 i) (wr8 i) (i_dst i) c) \<and>
   (cpu_abs (DEC_EbR i c) = arch_DEC (rd8 i) (wr8 i) (i_dst i) c) \<and>
   (cpu_abs (NEG_EbR i c) = arch_NEG (rd8 i) (wr8 i) (i_dst i) c) \<and>
   (cpu_abs (INC_EwR i c) = arch_INC BX_READ_16BIT_REG BX_WRITE_16BIT_REG (i_dst i) c) \<and>
   (cpu_abs (DEC_EwR i c) = arch_DEC BX_READ_16BIT_REG BX_WRITE_16BIT_REG (i_dst i) c) \<and>
   (cpu_abs (NEG_EwR i c) = arch_NEG BX_READ_16BIT_REG BX_WRITE_16BIT_REG (i_dst i) c) \<and>
   (cpu_abs (INC_EdR i c) = arch_INC BX_READ_32BIT_REG BX_WRITE_32BIT_REGZ (i_dst i) c) \<and>
   (cpu_abs (DEC_EdR i c) = arch_DEC BX_READ_32BIT_REG BX_WRITE_32BIT_REGZ (i_dst i) c) \<and>
   (cpu_abs (NEG_EdR i c) = arch_NEG BX_READ_32BIT_REG BX_WRITE_32BIT_REGZ (i_dst i) c) \<and>
   (cpu_abs (INC_EqR i c) = arch_INC BX_READ_64BIT_REG BX_WRITE_64BIT_REG (i_dst i) c) \<and>
   (cpu_abs (DEC_EqR i c) = arch_DEC BX_READ_64BIT_REG BX_WRITE_64BIT_REG (i_dst i) c) \<and>
   (cpu_abs (NEG_EqR i c) = arch_NEG BX_READ_64BIT_REG BX_WRITE_64BIT_REG (i_dst i) c)"
  by (intro conjI; rule INC_DEC_NEG_8_sim INC_DEC_NEG_16_sim INC_DEC_NEG_32_sim INC_DEC_NEG_64_sim)

text \<open>CMPXCHG compares the accumulator with the destination, stores the source in the destination exactly when they are equal and otherwise loads the accumulator, and sets the flags of the comparison, at the four operand sizes.\<close>

theorem cmpxchg_correct:
  "(cpu_abs (CMPXCHG_EbGbR i c) = arch_CMPXCHG (rd8 i) (wr8 i) 0 (i_dst i) (i_src i) c) \<and>
   (cpu_abs (CMPXCHG_EwGwR i c) = arch_CMPXCHG BX_READ_16BIT_REG BX_WRITE_16BIT_REG 0 (i_dst i) (i_src i) c) \<and>
   (cpu_abs (CMPXCHG_EdGdR i c) = arch_CMPXCHG BX_READ_32BIT_REG BX_WRITE_32BIT_REGZ 0 (i_dst i) (i_src i) c) \<and>
   (cpu_abs (CMPXCHG_EqGqR i c) = arch_CMPXCHG BX_READ_64BIT_REG BX_WRITE_64BIT_REG 0 (i_dst i) (i_src i) c)"
  by (intro conjI; rule CMPXCHG_8_sim CMPXCHG_16_sim CMPXCHG_32_sim CMPXCHG_64_sim)

text \<open>CWD, CDQ and CQO make the pair of extension register and accumulator the sign-extended accumulator; CBW, CWDE and CDQE widen the accumulator with its sign.\<close>

theorem sign_extension_correct:
  "(sint (DX (CWD c)) * 2 ^ 16 + uint (AX (CWD c)) = sint (AX c)) \<and>
   (sint (EDX (CDQ c)) * 2 ^ 32 + uint (EAX (CDQ c)) = sint (EAX c)) \<and>
   (sint (RDX (CQO c)) * 2 ^ 64 + uint (RAX (CQO c)) = sint (RAX c)) \<and>
   (sint (AX (CBW c)) = sint (AL c)) \<and>
   (sint (RAX (CDQE c)) = sint (EAX c)) \<and>
   (sint (EAX (CWDE c)) = sint (AX c)) \<and>
   (RAX (CWDE c) = ucast (EAX (CWDE c)))"
  by (intro conjI; rule sign_extension_pairs sign_extension_in_place)

end
