(* ===== verification/Wide_Int.thy ===== *)
theory Wide_Int
  imports Bochs_Prelude "HOL-Library.Signed_Division"
begin

text \<open>
  The 128-bit helpers of cpu/wide\_int.cc, on which the 64-bit MUL, IMUL, DIV and IDIV rest. A
  pair \<open>Bit128u\<close> or \<open>Bit128s\<close> is the record \<open>Bit128\<close>; the two differ in how \<open>hi\<close> is compared,
  which the definitions write out with \<open>sint\<close>. The pair is abstracted to the \<open>128 word\<close> it
  stands for, and the limb-wise routines are proved to be the word operations.
\<close>

section \<open>The routines\<close>

record Bit128 =
  lo :: u64
  hi :: u64

definition long_mul :: "u64 \<Rightarrow> u64 \<Rightarrow> Bit128" where
  "long_mul op1 op2 =
     (let a32 = ucast (drop_bit 32 op1) :: u32;
          a0 = ucast op1 :: u32;
          b32 = ucast (drop_bit 32 op2) :: u32;
          b0 = ucast op2 :: u32;
          lo1 = ucast a0 * ucast b0 :: u64;
          mid1 = ucast a32 * ucast b0 :: u64;
          mid = mid1 + ucast a0 * ucast b32;
          hi1 = ucast a32 * ucast b32 :: u64;
          hi2 = hi1 + (push_bit 32 (of_bool (mid < mid1)) OR drop_bit 32 mid);
          mid2 = push_bit 32 mid;
          lo2 = lo1 + mid2;
          hi3 = hi2 + of_bool (lo2 < mid2)
      in \<lparr>lo = lo2, hi = hi3\<rparr>)"

definition long_neg :: "Bit128 \<Rightarrow> Bit128" where
  "long_neg n =
     (let t = lo n;
          h = (if t - 1 > t then hi n - 1 else hi n)
      in \<lparr>lo = - t, hi = NOT h\<rparr>)"

definition long_imul :: "u64 \<Rightarrow> u64 \<Rightarrow> Bit128" where
  "long_imul op1 op2 =
     (let s1 = sint op1 < 0;
          op1 = (if s1 then - op1 else op1);
          s2 = sint op2 < 0;
          op2 = (if s2 then - op2 else op2);
          product = long_mul op1 op2
      in if s1 \<noteq> s2 then long_neg product else product)"

definition long_shl :: "Bit128 \<Rightarrow> Bit128" where
  "long_shl a =
     (let c = drop_bit 63 (lo a)
      in \<lparr>lo = push_bit 1 (lo a), hi = push_bit 1 (hi a) OR c\<rparr>)"

definition long_shr :: "Bit128 \<Rightarrow> Bit128" where
  "long_shr a =
     (let c = push_bit 63 (hi a)
      in \<lparr>lo = drop_bit 1 (lo a) OR c, hi = drop_bit 1 (hi a)\<rparr>)"

definition long_sub :: "Bit128 \<Rightarrow> Bit128 \<Rightarrow> bool \<times> Bit128" where
  "long_sub a b =
     (let t = lo a;
          l = lo a - lo b;
          c = of_bool (l > t) :: u64;
          t = hi a;
          h = hi a - (hi b + c)
      in (h > t, \<lparr>lo = l, hi = h\<rparr>))"

definition long_le :: "Bit128 \<Rightarrow> Bit128 \<Rightarrow> bool" where
  "long_le a b = (if hi a = hi b then lo a \<le> lo b else hi a \<le> hi b)"

text \<open>The two loops of \<open>long_div\<close>: normalise the divisor, then restore bit by bit.\<close>

function long_div_shift :: "Bit128 \<Rightarrow> Bit128 \<Rightarrow> nat \<Rightarrow> Bit128 \<times> nat" where
  "long_div_shift acc d n =
     (if long_le d acc \<and> n < 128 then long_div_shift acc (long_shl d) (n + 1) else (d, n))"
  by pat_completeness auto
termination by (relation "measure (\<lambda>(acc, d, n). 128 - n)") auto

declare long_div_shift.simps [simp del]

fun long_div_restore :: "nat \<Rightarrow> Bit128 \<Rightarrow> Bit128 \<Rightarrow> Bit128 \<Rightarrow> Bit128 \<times> Bit128" where
  "long_div_restore 0 acc d q = (acc, q)"
| "long_div_restore (Suc n) acc d q =
     (let d = long_shr d;
          q = long_shl q;
          temp = acc;
          (c, acc) = long_sub acc d
      in if c then long_div_restore n temp d q
         else long_div_restore n acc d (q\<lparr>lo := lo q + 1\<rparr>))"

definition long_div :: "Bit128 \<Rightarrow> u64 \<Rightarrow> Bit128 \<times> u64" where
  "long_div dividend divisor =
     (let d = \<lparr>lo = divisor, hi = 0\<rparr>;
          acc = dividend;
          q = \<lparr>lo = 0, hi = 0\<rparr>;
          (d, n) = long_div_shift acc d 0;
          (acc, q) = long_div_restore n acc d q
      in (q, lo acc))"

definition long_idiv :: "Bit128 \<Rightarrow> u64 \<Rightarrow> Bit128 \<times> u64" where
  "long_idiv dividend divisor =
     (let s1 = sint (hi dividend) < 0;
          temp = (if s1 then long_neg dividend else dividend);
          s2 = sint divisor < 0;
          divisor = (if s2 then - divisor else divisor);
          (quotient, remainder) = long_div temp divisor;
          quotient = (if s1 \<noteq> s2 then long_neg quotient else quotient);
          remainder = (if s1 then - remainder else remainder)
      in (quotient, remainder))"

section \<open>The numbers they stand for\<close>

definition u128 :: "Bit128 \<Rightarrow> int" where
  "u128 a = uint (hi a) * 2 ^ 64 + uint (lo a)"

definition s128 :: "Bit128 \<Rightarrow> int" where
  "s128 a = sint (hi a) * 2 ^ 64 + uint (lo a)"

definition w128 :: "Bit128 \<Rightarrow> 128 word" where
  "w128 a = push_bit 64 (ucast (hi a)) OR ucast (lo a)"

lemma uint_u64: "0 \<le> uint (w :: u64)" "uint (w :: u64) < 2 ^ 64"
  using unsigned_less [of w] by simp_all

lemma len64: "LENGTH(64) = 64" by simp

text \<open>The C idiom \<open>r = t - x; r > t\<close> is the borrow.\<close>

lemma borrow_limb: "(t - x :: u64) > t \<longleftrightarrow> uint t < uint x"
proof -
  have *: "t < (if x \<le> t then t - x else t - x + B) \<longleftrightarrow> t < x"
    if "0 \<le> t" "t < B" "0 \<le> x" "x < B" for t x B :: int
    using that by auto
  show ?thesis unfolding word_less_def uint_sub_if' by (rule *) (simp_all only: len64 uint_u64)
qed

lemma carry_limb: "(x + y :: u64) < x \<longleftrightarrow> 2 ^ 64 \<le> uint x + uint y"
proof -
  have *: "(if x + y < B then x + y else x + y - B) < x \<longleftrightarrow> B \<le> x + y"
    if "0 \<le> x" "x < B" "0 \<le> y" "y < B" for x y B :: int
    using that by auto
  show ?thesis unfolding word_less_def uint_plus_if' len64 by (rule *) (rule uint_u64)+
qed

lemma bit_w128: "bit (w128 a) n \<longleftrightarrow> (if n < 64 then bit (lo a) n else bit (hi a) (n - 64))"
  unfolding w128_def bit_or_iff bit_push_bit_iff bit_unsigned_iff
  by (auto dest: bit_imp_le_length)

lemma uint_w128: "uint (w128 a) = u128 a"
proof -
  have "uint (w128 a) = push_bit 64 (uint (hi a)) OR uint (lo a)"
    by (rule bit_eqI) (auto simp: bit_uint_iff bit_w128 bit_or_iff bit_push_bit_iff dest: bit_imp_le_length)
  also have "\<dots> = push_bit 64 (uint (hi a)) + uint (lo a)"
  proof (rule disjunctive_add_eq_or [symmetric])
    show "push_bit 64 (uint (hi a)) AND uint (lo a) = 0"
      by (rule bit_eqI) (auto simp: bit_uint_iff bit_and_iff bit_push_bit_iff)
  qed
  finally show ?thesis by (simp add: u128_def push_bit_eq_mult)
qed

lemma u128_range: "0 \<le> u128 a" "u128 a < 2 ^ 128"
  using uint_u64 [of "hi a"] uint_u64 [of "lo a"] by (simp_all add: u128_def)

lemma w128_eqI: "u128 a = uint v \<Longrightarrow> w128 a = v"
  by (simp add: word_uint_eq_iff uint_w128)

lemma bit_long_shl:
  "bit (w128 (long_shl a)) n \<longleftrightarrow> n < 128 \<and> 0 < n \<and> bit (w128 a) (n - 1)"
proof -
  have l: "lo (long_shl a) = push_bit 1 (lo a)" and h: "hi (long_shl a) = push_bit 1 (hi a) OR drop_bit 63 (lo a)"
    by (simp_all only: long_shl_def Let_def Bit128.simps)
  consider "n < 64" | "n = 64" | "64 < n" by linarith
  then show ?thesis
  proof cases
    case 2
    then show ?thesis unfolding bit_w128 l h bit_or_iff bit_push_bit_iff bit_drop_bit_eq comp_def by simp
  next
    case 3
    then obtain k where "n = 65 + k" using nat_le_iff_add [of 65 n] by auto
    then show ?thesis unfolding bit_w128 l h bit_or_iff bit_push_bit_iff bit_drop_bit_eq comp_def
      using bit_imp_le_length [of "lo a" "64 + k"] by (auto dest: bit_imp_le_length)
  qed (unfold bit_w128 l bit_push_bit_iff, auto)
qed

lemma w128_long_shl: "w128 (long_shl a) = push_bit 1 (w128 a)"
  by (rule bit_word_eqI) (simp only: bit_long_shl bit_push_bit_iff, auto)

lemma bit_long_shr: "bit (w128 (long_shr a)) n \<longleftrightarrow> bit (w128 a) (n + 1)"
proof -
  have l: "lo (long_shr a) = drop_bit 1 (lo a) OR push_bit 63 (hi a)" and h: "hi (long_shr a) = drop_bit 1 (hi a)"
    by (simp_all only: long_shr_def Let_def Bit128.simps)
  consider "n < 63" | "n = 63" | "63 < n" by linarith
  then show ?thesis
  proof cases
    case 2
    then show ?thesis unfolding bit_w128 l h bit_or_iff bit_push_bit_iff bit_drop_bit_eq comp_def
      using bit_imp_le_length [of "lo a" 64] by auto
  next
    case 3
    then obtain k where "n = 64 + k" using nat_le_iff_add [of 64 n] by auto
    then show ?thesis unfolding bit_w128 l h bit_or_iff bit_push_bit_iff bit_drop_bit_eq comp_def by simp
  qed (unfold bit_w128 l bit_push_bit_iff bit_or_iff bit_drop_bit_eq comp_def, auto)
qed

lemma w128_long_shr: "w128 (long_shr a) = drop_bit 1 (w128 a)"
  by (rule bit_word_eqI) (simp only: bit_long_shr bit_drop_bit_eq comp_def add.commute [of 1])

lemma u128_long_shl: "u128 (long_shl a) = (2 * u128 a) mod 2 ^ 128"
proof -
  have "uint (w128 (long_shl a)) = take_bit 128 (push_bit 1 (uint (w128 a)))"
    unfolding w128_long_shl by (simp only: unsigned_push_bit_eq) simp
  then show ?thesis unfolding uint_w128 by (simp only: take_bit_eq_mod push_bit_eq_mult) (simp add: ac_simps)
qed

lemma u128_long_shr: "u128 (long_shr a) = u128 a div 2"
proof -
  have "uint (w128 (long_shr a)) = drop_bit 1 (uint (w128 a))"
    unfolding w128_long_shr unsigned_drop_bit_eq
    using bintr_uint [of 128 "w128 a"] by simp
  then show ?thesis unfolding uint_w128 by (simp only: drop_bit_eq_div) simp
qed

lemma long_le_u128: "long_le a b \<longleftrightarrow> u128 a \<le> u128 b"
proof -
  have *: "(if x = y then l \<le> m else x \<le> y) \<longleftrightarrow> x * 2 ^ 64 + l \<le> y * 2 ^ 64 + m"
    if "0 \<le> l" "l < 2 ^ 64" "0 \<le> m" "m < 2 ^ 64" for x y l m :: int
  proof -
    consider "x = y" | "x < y" | "y < x" by linarith
    then show ?thesis using that by cases auto
  qed
  show ?thesis
    unfolding long_le_def u128_def word_le_def word_uint_eq_iff by (rule *) (rule uint_u64)+
qed

lemma u128_long_neg: "u128 (long_neg a) = (if u128 a = 0 then 0 else 2 ^ 128 - u128 a)"
proof -
  have t: "lo a - 1 > lo a \<longleftrightarrow> lo a = 0"
    unfolding borrow_limb using uint_u64 [of "lo a"] unfolding word_uint_eq_iff unsigned_0 unsigned_1 by linarith
  have n: "uint (NOT w) = 2 ^ 64 - 1 - uint w" for w :: u64
    by (simp add: unsigned_not_eq take_bit_not_eq_mask_diff mask_eq_exp_minus_1 bintr_uint)
  have m: "uint (- lo a) = (if lo a = 0 then 0 else 2 ^ 64 - uint (lo a))"
    using uint_sub_if' [of 0 "lo a"] uint_u64 [of "lo a"] by (auto simp: word_uint_eq_iff)
  have h: "uint (hi a - 1) = (if hi a = 0 then 2 ^ 64 - 1 else uint (hi a) - 1)"
  proof -
    have *: "(if 1 \<le> x then x - 1 else x - 1 + B) = (if x = 0 then B - 1 else x - 1)" if "0 \<le> x" for x B :: int
      using that by auto
    show ?thesis unfolding uint_sub_if' word_uint_eq_iff unsigned_0 unsigned_1 len64 by (rule *) (rule uint_u64)
  qed
  have z: "u128 a = 0 \<longleftrightarrow> hi a = 0 \<and> lo a = 0"
  proof -
    have *: "x * 2 ^ 64 + l = 0 \<longleftrightarrow> x = 0 \<and> l = 0" if "0 \<le> x" "0 \<le> l" for x l :: int
      using that by (simp add: add_nonneg_eq_0_iff)
    show ?thesis unfolding u128_def word_uint_eq_iff unsigned_0 by (rule *) (rule uint_u64)+
  qed
  show ?thesis
    unfolding z unfolding long_neg_def Let_def u128_def t
    by (cases "lo a = 0"; cases "hi a = 0";
        simp add: n m h unsigned_minus_1_eq_mask mask_eq_exp_minus_1)
qed

lemma limbs_less:
  fixes x y l m :: int
  assumes "0 \<le> l" "l < 2 ^ 64" "0 \<le> m" "m < 2 ^ 64"
  shows "x < y + of_bool (l < m) \<longleftrightarrow> x * 2 ^ 64 + l < y * 2 ^ 64 + m"
proof -
  consider "x < y" | "x = y" | "y < x" by linarith
  then show ?thesis using assms by cases (cases "l < m"; simp)+
qed

lemma u128_long_sub:
  assumes "\<not> (lo a < lo b \<and> uint (hi b) = 2 ^ 64 - 1)"
  shows "fst (long_sub a b) \<longleftrightarrow> u128 a < u128 b"
    and "u128 (snd (long_sub a b)) = u128 a - u128 b + (if u128 a < u128 b then 2 ^ 128 else 0)"
proof -
  have t: "lo a - lo b > lo a \<longleftrightarrow> lo a < lo b"
    using borrow_limb [of "lo a" "lo b"] by (simp only: word_less_def)
  define c where "c = (of_bool (lo a < lo b) :: u64)"
  have hb: "uint (hi b + c) = uint (hi b) + of_bool (lo a < lo b)"
    using assms uint_u64 [of "hi b"] by (auto simp: c_def uint_plus_if')
  have t2: "hi a - (hi b + c) > hi a \<longleftrightarrow> uint (hi a) < uint (hi b) + of_bool (lo a < lo b)"
    by (simp only: borrow_limb hb)
  have F: "fst (long_sub a b) \<longleftrightarrow> uint (hi a) < uint (hi b) + of_bool (lo a < lo b)"
    by (simp add: long_sub_def Let_def t c_def [symmetric] t2)
  have less: "uint (hi a) < uint (hi b) + of_bool (lo a < lo b) \<longleftrightarrow> u128 a < u128 b"
    unfolding u128_def word_less_def by (rule limbs_less) (rule uint_u64)+
  show "fst (long_sub a b) \<longleftrightarrow> u128 a < u128 b" using F less by simp
  have "uint (hi (snd (long_sub a b))) = uint (hi a) - (uint (hi b) + of_bool (lo a < lo b)) + (if u128 a < u128 b then 2 ^ 64 else 0)"
    unfolding less [symmetric] by (simp add: long_sub_def Let_def t c_def [symmetric] uint_sub_if' hb)
  moreover have "uint (lo (snd (long_sub a b))) = uint (lo a) - uint (lo b) + of_bool (lo a < lo b) * 2 ^ 64"
    by (simp add: long_sub_def Let_def uint_sub_if' word_less_def)
  ultimately have "u128 (snd (long_sub a b)) = (uint (hi a) - (uint (hi b) + of_bool (lo a < lo b))
        + (if u128 a < u128 b then 2 ^ 64 else 0)) * 2 ^ 64 + (uint (lo a) - uint (lo b) + of_bool (lo a < lo b) * 2 ^ 64)"
    by (simp only: u128_def)
  also have "\<dots> = u128 a - u128 b + (if u128 a < u128 b then 2 ^ 128 else 0)"
    by (cases "u128 a < u128 b"; cases "lo a < lo b"; simp only: if_True if_False of_bool_eq u128_def) simp_all
  finally show "u128 (snd (long_sub a b)) = u128 a - u128 b + (if u128 a < u128 b then 2 ^ 128 else 0)" .
qed


section \<open>Multiplication\<close>

lemma half_limbs:
  "uint (ucast (ucast (w :: u64) :: u32) :: u64) = uint w mod 2 ^ 32"
  "uint (ucast (ucast (drop_bit 32 w) :: u32) :: u64) = uint w div 2 ^ 32"
proof -
  have u: "uint (ucast (ucast v :: u32) :: u64) = uint v mod 2 ^ 32" for v :: u64
  proof -
    have "uint (ucast (ucast v :: u32) :: u64) = take_bit 32 (uint v)"
      by (rule bit_eqI) (auto simp: bit_uint_iff bit_unsigned_iff bit_take_bit_iff)
    then show ?thesis by (simp only: take_bit_eq_mod)
  qed
  then show "uint (ucast (ucast w :: u32) :: u64) = uint w mod 2 ^ 32" .
  have "uint (drop_bit 32 w) = uint w div 2 ^ 32"
    unfolding unsigned_drop_bit_eq len64 using bintr_uint [of 64 w] by (simp add: drop_bit_eq_div)
  moreover have "uint w div 2 ^ 32 < 2 ^ 32" using uint_u64 [of w] by (simp add: div_less_iff_less_mult)
  moreover have "0 \<le> uint w div 2 ^ 32" by (simp add: pos_imp_zdiv_nonneg_iff)
  ultimately show "uint (ucast (ucast (drop_bit 32 w) :: u32) :: u64) = uint w div 2 ^ 32"
    unfolding u by (simp only: mod_pos_pos_trivial)
qed

lemma uint_drop_32: "uint (drop_bit 32 (m :: u64)) = uint m div 2 ^ 32"
  unfolding unsigned_drop_bit_eq len64 using bintr_uint [of 64 m] by (simp add: drop_bit_eq_div)

lemma uint_push_32: "uint (push_bit 32 (m :: u64)) = (uint m mod 2 ^ 32) * 2 ^ 32"
proof -
  have "uint (push_bit 32 m) = (uint m * 2 ^ 32) mod (2 ^ 32 * 2 ^ 32)"
    unfolding unsigned_push_bit_eq len64 by (simp add: take_bit_eq_mod push_bit_eq_mult)
  then show ?thesis by (simp only: mult_mod_left)
qed

lemma uint_div_32: "0 \<le> uint (m :: u64) div 2 ^ 32" "uint m div 2 ^ 32 < 2 ^ 32"
  using uint_u64 [of m] by (simp_all add: div_less_iff_less_mult pos_imp_zdiv_nonneg_iff)

text \<open>The high half of the middle sum, with its carry.\<close>

lemma uint_carry_word:
  "uint (push_bit 32 (of_bool k :: u64) OR drop_bit 32 m) = of_bool k * 2 ^ 32 + uint m div 2 ^ 32"
proof -
  have "push_bit 32 (of_bool k :: u64) AND drop_bit 32 m = 0"
    by (rule bit_word_eqI) (auto simp: bit_and_iff bit_push_bit_iff bit_drop_bit_eq bit_of_bool_iff dest: bit_imp_le_length)
  then have s: "push_bit 32 (of_bool k :: u64) OR drop_bit 32 m = push_bit 32 (of_bool k) + drop_bit 32 m"
    by (simp add: disjunctive_add_eq_or)
  have k: "uint (push_bit 32 (of_bool k :: u64)) = of_bool k * 2 ^ 32" by (cases k) simp_all
  show ?thesis
    using uint_div_32 [of m] unfolding s uint_plus_if' len64 k uint_drop_32 by (cases k) simp_all
qed

text \<open>The schoolbook product on half limbs, on numbers.\<close>

lemma half_product:
  fixes x y :: int
  assumes "0 \<le> x" "x < 2 ^ 32" "0 \<le> y" "y < 2 ^ 32"
  shows "0 \<le> x * y" "x * y \<le> (2 ^ 32 - 1) * (2 ^ 32 - 1)"
  using assms mult_mono [of x "2 ^ 32 - 1" y "2 ^ 32 - 1"] by simp_all

lemma u128_long_mul: "u128 (long_mul x y) = uint x * uint y"
proof -
  define a b c d where "a = uint x div 2 ^ 32" and "b = uint x mod 2 ^ 32"
    and "c = uint y div 2 ^ 32" and "d = uint y mod 2 ^ 32"
  have r: "0 \<le> a" "a < 2 ^ 32" "0 \<le> b" "b < 2 ^ 32" "0 \<le> c" "c < 2 ^ 32" "0 \<le> d" "d < 2 ^ 32"
    by (simp_all only: a_def b_def c_def d_def uint_div_32) simp_all
  have xy: "uint x = a * 2 ^ 32 + b" "uint y = c * 2 ^ 32 + d"
    by (simp_all add: a_def b_def c_def d_def)
  define X0 X1 Y0 Y1 where "X0 = (ucast (ucast x :: u32) :: u64)" and "X1 = (ucast (ucast (drop_bit 32 x) :: u32) :: u64)"
    and "Y0 = (ucast (ucast y :: u32) :: u64)" and "Y1 = (ucast (ucast (drop_bit 32 y) :: u32) :: u64)"
  have u: "uint X1 = a" "uint X0 = b" "uint Y1 = c" "uint Y0 = d"
    unfolding X0_def X1_def Y0_def Y1_def a_def b_def c_def d_def by (rule half_limbs)+
  have P: "uint (v * w) = uint v * uint w" if "0 \<le> uint v * uint w" "uint v * uint w \<le> (2 ^ 32 - 1) * (2 ^ 32 - 1)" for v w :: u64
    using that by (simp add: uint_word_ariths)
  note bd = half_product [OF r(3,4,7,8)] half_product [OF r(1,2,7,8)] half_product [OF r(3,4,5,6)] half_product [OF r(1,2,5,6)]
  have p: "uint (X0 * Y0) = b * d" "uint (X1 * Y0) = a * d" "uint (X0 * Y1) = b * c" "uint (X1 * Y1) = a * c"
    using bd by (simp_all only: P u)
  define m where "m = X1 * Y0 + X0 * Y1"
  define k where "k = (2 ^ 64 \<le> a * d + b * c)"
  have um: "uint m = a * d + b * c - of_bool k * 2 ^ 64"
    unfolding m_def k_def uint_plus_if' p len64 by simp
  have k: "m < X1 * Y0 \<longleftrightarrow> k" unfolding m_def carry_limb p k_def ..
  define q r' where "q = uint m div 2 ^ 32" and "r' = uint m mod 2 ^ 32"
  have qr: "uint m = q * 2 ^ 32 + r'" "0 \<le> q" "q < 2 ^ 32" "0 \<le> r'" "r' < 2 ^ 32"
    using uint_u64 [of m] by (simp_all add: q_def r'_def div_less_iff_less_mult pos_imp_zdiv_nonneg_iff)
  have q2: "q \<le> 2 ^ 32 - 2" if k using um qr(1,4) bd(4,6) that by simp
  define h2 where "h2 = X1 * Y1 + (push_bit 32 (of_bool (m < X1 * Y0)) OR drop_bit 32 m)"
  have h2: "uint h2 = a * c + of_bool k * 2 ^ 32 + q"
    using bd(7,8) qr(2,3) q2 unfolding h2_def k uint_plus_if' len64 p uint_carry_word q_def [symmetric]
    by (cases k) simp_all
  define m2 where "m2 = push_bit 32 m"
  have m2: "uint m2 = r' * 2 ^ 32" unfolding m2_def r'_def by (rule uint_push_32)
  define e where "e = (2 ^ 64 \<le> b * d + r' * 2 ^ 32)"
  define l2 where "l2 = X0 * Y0 + m2"
  have l2: "uint l2 = b * d + r' * 2 ^ 32 - of_bool e * 2 ^ 64" "l2 < m2 \<longleftrightarrow> e"
    unfolding l2_def add.commute [of "X0 * Y0"] carry_limb unfolding e_def uint_plus_if' len64 p m2 by auto
  have total: "(a * c + of_bool k * 2 ^ 32 + q) * 2 ^ 64 + (b * d + r' * 2 ^ 32) = uint x * uint y"
  proof -
    have "a * d + b * c = (of_bool k * 2 ^ 32 + q) * 2 ^ 32 + r'" using um qr(1) by simp
    then show ?thesis unfolding xy by (simp add: algebra_simps)
  qed
  have "uint x * uint y < 2 ^ 64 * 2 ^ 64"
    using uint_u64 [of x] uint_u64 [of y] by (intro mult_strict_mono) auto
  then have "(a * c + of_bool k * 2 ^ 32 + q) * 2 ^ 64 + (b * d + r' * 2 ^ 32) < 2 ^ 64 * 2 ^ 64" unfolding total .
  then have "uint (h2 + of_bool e) = uint h2 + of_bool e"
    using uint_u64 [of h2] uint_u64 [of l2] bd(1) qr(4) unfolding l2(1) uint_plus_if' len64 h2
    by (cases e) (simp_all add: e_def)
  moreover have "long_mul x y = \<lparr>lo = l2, hi = h2 + of_bool e\<rparr>"
    unfolding long_mul_def Let_def l2(2) [symmetric]
    by (simp only: l2_def m2_def h2_def m_def X0_def X1_def Y0_def Y1_def)
  ultimately show ?thesis
    using total unfolding u128_def by (simp add: l2(1) h2 algebra_simps)
qed

section \<open>Signed values\<close>

lemma sint_u64: "sint (x :: u64) = (if uint x < 2 ^ 63 then uint x else uint x - 2 ^ 64)"
  using signed_take_bit_eq_take_bit_minus [of 63 "uint x"] bintr_uint [of 64 "x"]
    bit_via_take_bit [of "uint x" 63] by (auto simp: sint_uint)

lemma s128_u128: "s128 a = (if u128 a < 2 ^ 127 then u128 a else u128 a - 2 ^ 128)"
proof -
  have *: "x * 2 ^ 64 + l < 2 ^ 127 \<longleftrightarrow> x < 2 ^ 63" if "0 \<le> l" "l < 2 ^ 64" for x l :: int
    using that by auto
  have "u128 a < 2 ^ 127 \<longleftrightarrow> uint (hi a) < 2 ^ 63" unfolding u128_def by (rule *) (rule uint_u64)+
  then show ?thesis unfolding s128_def sint_u64 by (simp add: u128_def)
qed

lemma sint_hi_neg: "sint (hi a) < 0 \<longleftrightarrow> s128 a < 0"
proof -
  have *: "x * 2 ^ 64 + l < 0 \<longleftrightarrow> x < 0" if "0 \<le> l" "l < 2 ^ 64" for x l :: int
    using that by auto
  show ?thesis unfolding s128_def by (rule * [symmetric]) (rule uint_u64)+
qed

lemma uint_minus_u64: "uint (- x :: u64) = (if uint x = 0 then 0 else 2 ^ 64 - uint x)"
proof -
  have *: "(if x \<le> 0 then 0 - x else 0 - x + B) = (if x = 0 then 0 else B - x)" if "0 \<le> x" for x B :: int
    using that by auto
  have "uint (0 - x) = (if uint x = 0 then 0 else 2 ^ 64 - uint x)"
    unfolding uint_sub_if' unsigned_0 len64 by (rule *) (rule uint_u64)
  then show ?thesis by simp
qed

lemma sint_small: "uint (x :: u64) < 2 ^ 63 \<Longrightarrow> sint x = uint x \<and> sint (- x) = - uint x"
  unfolding sint_u64 uint_minus_u64 using uint_u64 [of x] by auto

lemma uint_magnitude: "uint (if sint x < 0 then - x else (x :: u64)) = \<bar>sint x\<bar>"
proof -
  show ?thesis
  proof (cases "uint x < 2 ^ 63")
    case False
    then have "uint (- x) = 2 ^ 64 - uint x" "sint x = uint x - 2 ^ 64" "sint x < 0"
      unfolding uint_minus_u64 sint_u64 using uint_u64 [of x] by simp_all
    then show ?thesis by simp
  qed (use uint_u64 [of x] in \<open>simp add: sint_u64\<close>)
qed

lemma s128_long_neg: "s128 a \<noteq> - (2 ^ 127) \<Longrightarrow> s128 (long_neg a) = - s128 a"
  using u128_range [of a] unfolding s128_u128 u128_long_neg by (auto split: if_splits)

lemma sint_bounds: "\<bar>sint (x :: u64)\<bar> \<le> 2 ^ 63"
  using sint_range_size [of x] unfolding word_size len64 abs_le_iff by simp

lemma s128_long_imul: "s128 (long_imul x y) = sint x * sint y"
proof -
  let ?p = "long_mul (if sint x < 0 then - x else x) (if sint y < 0 then - y else y)"
  have p: "u128 ?p = \<bar>sint x\<bar> * \<bar>sint y\<bar>" unfolding u128_long_mul uint_magnitude ..
  have "\<bar>sint x\<bar> * \<bar>sint y\<bar> \<le> 2 ^ 63 * 2 ^ 63"
    by (intro mult_mono sint_bounds) simp_all
  then have s: "s128 ?p = \<bar>sint x\<bar> * \<bar>sint y\<bar>" using p by (simp add: s128_u128)
  have "0 \<le> \<bar>sint x\<bar> * \<bar>sint y\<bar>" by simp
  moreover have "- (2 ^ 127) < (0 :: int)" by simp
  ultimately have "s128 ?p \<noteq> - (2 ^ 127)" unfolding s by (metis leD)
  then have n: "s128 (long_neg ?p) = - (\<bar>sint x\<bar> * \<bar>sint y\<bar>)"
    using s128_long_neg [of ?p] s by simp
  have "long_imul x y = (if (sint x < 0) \<noteq> (sint y < 0) then long_neg ?p else ?p)"
    by (simp only: long_imul_def Let_def)
  then have "s128 (long_imul x y) = (if (sint x < 0) \<noteq> (sint y < 0) then - (\<bar>sint x\<bar> * \<bar>sint y\<bar>) else \<bar>sint x\<bar> * \<bar>sint y\<bar>)"
    using s n by (simp only: if_distrib [of s128])
  then show ?thesis by (simp add: abs_if)
qed

section \<open>Division\<close>

lemma long_div_shift_general:
  "long_div_shift acc d n = (d', n') \<Longrightarrow> n \<le> 128 \<Longrightarrow>
     n \<le> n' \<and> n' \<le> 128 \<and> u128 d' = (u128 d * 2 ^ (n' - n)) mod 2 ^ 128 \<and> (u128 acc < u128 d' \<or> n' = 128)"
proof (induction acc d n rule: long_div_shift.induct)
  case (1 acc d n)
  show ?case
  proof (cases "long_le d acc \<and> n < 128")
    case True
    then have e: "long_div_shift acc (long_shl d) (n + 1) = (d', n')"
      using "1.prems"(1) by (simp add: long_div_shift.simps [of acc d n])
    have "n + 1 \<le> 128" using True by simp
    note IH = "1.IH" [OF True e this]
    have "n' - n = Suc (n' - (n + 1))" using IH [THEN conjunct1] by linarith
    then have "u128 d * 2 ^ (n' - n) = (2 * u128 d) * 2 ^ (n' - (n + 1))" by simp
    moreover have "((2 * u128 d) mod 2 ^ 128 * 2 ^ (n' - (n + 1))) mod 2 ^ 128 = (2 * u128 d * 2 ^ (n' - (n + 1))) mod 2 ^ 128"
      by (rule mod_mult_left_eq)
    ultimately have "(u128 d * 2 ^ (n' - n)) mod 2 ^ 128 = (u128 (long_shl d) * 2 ^ (n' - (n + 1))) mod 2 ^ 128"
      unfolding u128_long_shl by metis
    then show ?thesis using IH by (metis add_leD1)
  next
    case False
    then show ?thesis
      using "1.prems" u128_range [of d] by (auto simp: long_div_shift.simps [of acc d n] long_le_u128)
  qed
qed

lemma long_div_shift_exact:
  assumes v: "0 < v"
  shows "long_div_shift acc d n = (d', n') \<Longrightarrow> n \<le> 128 \<Longrightarrow> u128 d = v * 2 ^ n \<Longrightarrow>
     (\<forall>k. v * 2 ^ k \<le> u128 acc \<longrightarrow> v * 2 ^ (k + 1) < 2 ^ 128) \<Longrightarrow> u128 d' = v * 2 ^ n' \<and> u128 acc < u128 d'"
proof (induction acc d n rule: long_div_shift.induct)
  case (1 acc d n)
  have d: "0 < u128 d" "v * 2 ^ n < 2 ^ 128" using "1.prems"(3) v u128_range [of d] by simp_all
  have n: "n < 128"
  proof (rule ccontr)
    assume "\<not> n < 128"
    then have "v * 2 ^ 128 < 2 ^ 128" using "1.prems"(2) d(2) by simp
    then show False using v by simp
  qed
  show ?case
  proof (cases "long_le d acc")
    case True
    then have e: "long_div_shift acc (long_shl d) (n + 1) = (d', n')"
      using "1.prems"(1) n by (simp add: long_div_shift.simps [of acc d n])
    have "v * 2 ^ (n + 1) < 2 ^ 128" using "1.prems"(4) True unfolding long_le_u128 "1.prems"(3) by blast
    then have "u128 (long_shl d) = v * 2 ^ (n + 1)"
      unfolding u128_long_shl "1.prems"(3) using v by (simp add: mult.left_commute)
    then show ?thesis using "1.IH" [OF _ e] "1.prems"(4) True n by simp
  next
    case False
    then show ?thesis
      using "1.prems" by (auto simp: long_div_shift.simps [of acc d n] long_le_u128)
  qed
qed

lemma u128_small: "u128 \<lparr>lo = v, hi = 0\<rparr> = uint v" by (simp add: u128_def)

lemma even_lo:
  assumes "even (u128 q)"
  shows "u128 (q\<lparr>lo := lo q + 1\<rparr>) = u128 q + 1"
proof -
  have e: "even (uint (lo q))" using assms by (simp add: u128_def)
  have "uint (lo q) \<noteq> 2 ^ 64 - 1" using e by auto
  then have "uint (lo q + 1) = uint (lo q) + 1"
    using uint_u64 [of "lo q"] by (simp add: uint_plus_if')
  then show ?thesis by (simp add: u128_def)
qed

text \<open>One round of the restoring loop, on numbers.\<close>

lemma restore_step:
  assumes "u128 d = M * 2"
  shows "u128 (long_shr d) = M" "fst (long_sub acc (long_shr d)) \<longleftrightarrow> u128 acc < M"
    "\<not> u128 acc < M \<Longrightarrow> u128 (snd (long_sub acc (long_shr d))) = u128 acc - M"
proof -
  show s: "u128 (long_shr d) = M" using assms by (simp add: u128_long_shr)
  have "M < 2 ^ 127" using assms u128_range [of d] by simp
  moreover have "x < 2 ^ 63" if "x * 2 ^ 64 + l < 2 ^ 127" "0 \<le> l" for x l :: int using that by simp
  then have "u128 (long_shr d) < 2 ^ 127 \<Longrightarrow> uint (hi (long_shr d)) < 2 ^ 63"
    unfolding u128_def using uint_u64 [of "lo (long_shr d)"] by blast
  ultimately have h: "\<not> (lo acc < lo (long_shr d) \<and> uint (hi (long_shr d)) = 2 ^ 64 - 1)"
    using s by auto
  show "fst (long_sub acc (long_shr d)) \<longleftrightarrow> u128 acc < M"
    "\<not> u128 acc < M \<Longrightarrow> u128 (snd (long_sub acc (long_shr d))) = u128 acc - M"
    using u128_long_sub [OF h] by (simp_all add: s)
qed

lemma shl_exact: "2 * u128 q < 2 ^ 128 \<Longrightarrow> u128 (long_shl q) = 2 * u128 q"
  using u128_range [of q] by (simp add: u128_long_shl)

lemma long_div_restore_exact:
  assumes m: "0 < m"
  shows "u128 d = m * 2 ^ n \<Longrightarrow> u128 acc < m * 2 ^ n \<Longrightarrow> (u128 q + 1) * 2 ^ n \<le> 2 ^ 128
    \<Longrightarrow> long_div_restore n acc d q = (acc', q')
    \<Longrightarrow> u128 acc' = u128 acc mod m \<and> u128 q' = u128 q * 2 ^ n + u128 acc div m"
proof (induction n arbitrary: acc d q)
  case 0
  then show ?case using u128_range [of acc] m by simp
next
  case (Suc n)
  note st = restore_step(1) [of d "m * 2 ^ n"] restore_step(2,3) [of d "m * 2 ^ n" acc]
  have d: "u128 d = m * 2 ^ n * 2" using Suc.prems(1) by simp
  have p1: "(1 :: int) \<le> 2 ^ n" by simp
  have room: "(2 * u128 q + 2) * 2 ^ n \<le> 2 ^ 128" using Suc.prems(3) by (simp add: algebra_simps)
  have "2 * u128 q + 2 \<le> (2 * u128 q + 2) * 2 ^ n"
    using mult_left_mono [OF p1, of "2 * u128 q + 2"] u128_range [of q] by simp
  then have q: "u128 (long_shl q) = 2 * u128 q" using room by (intro shl_exact) linarith
  show ?case
  proof (cases "u128 acc < m * 2 ^ n")
    case True
    then have "long_div_restore n acc (long_shr d) (long_shl q) = (acc', q')"
      using Suc.prems(4) st(2) [OF d] by (simp add: Let_def split: prod.splits)
    moreover have "(u128 (long_shl q) + 1) * 2 ^ n \<le> 2 ^ 128"
      unfolding q by (rule order_trans [OF mult_right_mono room]) simp_all
    ultimately have "u128 acc' = u128 acc mod m" "u128 q' = u128 (long_shl q) * 2 ^ n + u128 acc div m"
      using Suc.IH [OF st(1) [OF d] True] by blast+
    then show ?thesis by (simp add: q algebra_simps)
  next
    case False
    define a where "a = snd (long_sub acc (long_shr d))"
    define q2 where "q2 = (long_shl q)\<lparr>lo := lo (long_shl q) + 1\<rparr>"
    have a: "u128 a = u128 acc - m * 2 ^ n" unfolding a_def by (rule st(3) [OF d False])
    have q2: "u128 q2 = 2 * u128 q + 1" using even_lo [of "long_shl q"] q by (simp add: q2_def)
    have "long_div_restore n a (long_shr d) q2 = (acc', q')"
      using Suc.prems(4) st(2) [OF d] False by (simp add: Let_def a_def q2_def split: prod.splits)
    moreover have "u128 q2 + 1 = 2 * u128 q + 2" using q2 by simp
    then have "(u128 q2 + 1) * 2 ^ n \<le> 2 ^ 128" using room by metis
    moreover have "u128 a < m * 2 ^ n" using Suc.prems(2) a by simp
    ultimately have IH: "u128 acc' = u128 a mod m" "u128 q' = u128 q2 * 2 ^ n + u128 a div m"
      using Suc.IH [OF st(1) [OF d]] by blast+
    have "u128 acc = u128 a + 2 ^ n * m" using a by simp
    then have "u128 acc mod m = u128 a mod m" "u128 acc div m = u128 a div m + 2 ^ n" using m by simp_all
    then show ?thesis using IH q2 by (simp add: algebra_simps)
  qed
qed

text \<open>A divisor that was shifted out altogether subtracts nothing: the quotient is all ones.\<close>

lemma long_div_restore_zero:
  "u128 d = 0 \<Longrightarrow> (u128 q + 1) * 2 ^ n \<le> 2 ^ 128 \<Longrightarrow> long_div_restore n acc d q = (acc', q')
    \<Longrightarrow> u128 acc' = u128 acc \<and> u128 q' = (u128 q + 1) * 2 ^ n - 1"
proof (induction n arbitrary: acc d q)
  case (Suc n)
  have d: "u128 d = 0 * 2" using Suc.prems(1) by simp
  note st = restore_step(1) [OF d] restore_step(2,3) [OF d, of acc]
  have p1: "(1 :: int) \<le> 2 ^ n" by simp
  have room: "(2 * u128 q + 2) * 2 ^ n \<le> 2 ^ 128" using Suc.prems(2) by (simp add: algebra_simps)
  have "2 * u128 q + 2 \<le> (2 * u128 q + 2) * 2 ^ n"
    using mult_left_mono [OF p1, of "2 * u128 q + 2"] u128_range [of q] by simp
  then have q: "u128 (long_shl q) = 2 * u128 q" using room by (intro shl_exact) linarith
  define a where "a = snd (long_sub acc (long_shr d))"
  define q2 where "q2 = (long_shl q)\<lparr>lo := lo (long_shl q) + 1\<rparr>"
  have nb: "\<not> u128 acc < 0" using u128_range [of acc] by simp
  have a: "u128 a = u128 acc" using st(3) nb by (simp add: a_def)
  have q2: "u128 q2 = 2 * u128 q + 1" using even_lo [of "long_shl q"] q by (simp add: q2_def)
  have "long_div_restore n a (long_shr d) q2 = (acc', q')"
    using Suc.prems(3) st(2) nb by (simp add: Let_def a_def q2_def split: prod.splits)
  moreover have "u128 q2 + 1 = 2 * u128 q + 2" using q2 by simp
  then have "(u128 q2 + 1) * 2 ^ n \<le> 2 ^ 128" using room by metis
  ultimately have "u128 acc' = u128 a" "u128 q' = (u128 q2 + 1) * 2 ^ n - 1"
    using Suc.IH [OF st(1)] by blast+
  then show ?case using a q2 by (simp add: algebra_simps)
qed simp


section \<open>The division routines\<close>

lemma long_div_unfold:
  obtains d n acc q where "long_div_shift a \<lparr>lo = v, hi = 0\<rparr> 0 = (d, n)"
    "long_div_restore n a d \<lparr>lo = 0, hi = 0\<rparr> = (acc, q)" "long_div a v = (q, lo acc)"
  by (cases "long_div_shift a \<lparr>lo = v, hi = 0\<rparr> 0";
      cases "long_div_restore (snd (long_div_shift a \<lparr>lo = v, hi = 0\<rparr> 0)) a
        (fst (long_div_shift a \<lparr>lo = v, hi = 0\<rparr> 0)) \<lparr>lo = 0, hi = 0\<rparr>";
      simp add: long_div_def Let_def)

lemma lo_small: "u128 a < 2 ^ 64 \<Longrightarrow> uint (lo a) = u128 a"
proof -
  have *: "x = 0" if "x * 2 ^ 64 + l < 2 ^ 64" "0 \<le> l" "0 \<le> x" for x l :: int using that by simp
  assume "u128 a < 2 ^ 64"
  then have "uint (hi a) = 0" unfolding u128_def by (rule *) (rule uint_u64)+
  then show ?thesis by (simp add: u128_def)
qed

lemma long_div_exact:
  assumes v: "v \<noteq> 0" and fits: "u128 a < 2 ^ 127 \<or> u128 a < uint v * 2 ^ 64"
  shows "u128 (fst (long_div a v)) = u128 a div uint v" "uint (snd (long_div a v)) = u128 a mod uint v"
proof -
  have v0: "0 < uint v" "uint v < 2 ^ 64" using v uint_u64 [of v] by (auto simp: word_uint_eq_iff less_le)
  have H: "uint v * 2 ^ (k + 1) < 2 ^ 128" if k: "uint v * 2 ^ k \<le> u128 a" for k
    using fits
  proof
    assume "u128 a < 2 ^ 127"
    then show ?thesis using k by simp
  next
    assume "u128 a < uint v * 2 ^ 64"
    then have "uint v * 2 ^ k < uint v * 2 ^ 64" using k by simp
    then have "k < 64" using v0 by (simp only: mult_less_cancel_left_pos power_strict_increasing_iff)
    then have "(2 :: int) ^ (k + 1) \<le> 2 ^ 64" by (intro power_increasing) simp_all
    then have "uint v * 2 ^ (k + 1) \<le> uint v * 2 ^ 64" using v0(1) by (intro mult_left_mono) simp_all
    then show ?thesis using v0(2) by simp
  qed
  obtain d n acc q where e: "long_div_shift a \<lparr>lo = v, hi = 0\<rparr> 0 = (d, n)"
    "long_div_restore n a d \<lparr>lo = 0, hi = 0\<rparr> = (acc, q)" "long_div a v = (q, lo acc)"
    by (rule long_div_unfold)
  have d: "u128 d = uint v * 2 ^ n" "u128 a < u128 d"
    using long_div_shift_exact [OF v0(1) e(1)] H by (simp_all add: u128_small)
  have n: "n \<le> 128" using long_div_shift_general [OF e(1)] by simp
  have z: "u128 \<lparr>lo = 0, hi = 0\<rparr> = 0" by (simp add: u128_def)
  have n': "(2 :: int) ^ n \<le> 2 ^ 128" using n by (intro power_increasing) simp_all
  have r: "u128 acc = u128 a mod uint v" "u128 q = u128 a div uint v"
    using long_div_restore_exact [OF v0(1) d(1) _ _ e(2)] d n' unfolding z by simp_all
  moreover have "u128 a mod uint v < 2 ^ 64" using v0 pos_mod_bound [of "uint v" "u128 a"] by linarith
  ultimately show "u128 (fst (long_div a v)) = u128 a div uint v" "uint (snd (long_div a v)) = u128 a mod uint v"
    using lo_small [of acc] unfolding e(3) by simp_all
qed

text \<open>
  When the quotient does not fit, the normalisation may push bits of the divisor out at the
  top; the high half of the quotient is then still not zero.
\<close>

lemma long_div_too_big:
  assumes v: "v \<noteq> 0" and big: "uint v * 2 ^ 64 \<le> u128 a"
  shows "hi (fst (long_div a v)) \<noteq> 0"
proof -
  have v0: "0 < uint v" using v uint_u64 [of v] by (auto simp: word_uint_eq_iff less_le)
  obtain d n acc q where e: "long_div_shift a \<lparr>lo = v, hi = 0\<rparr> 0 = (d, n)"
    "long_div_restore n a d \<lparr>lo = 0, hi = 0\<rparr> = (acc, q)" "long_div a v = (q, lo acc)"
    by (rule long_div_unfold)
  define m where "m = uint v mod 2 ^ (128 - n)"
  have g: "n \<le> 128" "u128 d = (uint v * 2 ^ n) mod 2 ^ 128" "u128 a < u128 d \<or> n = 128"
    using long_div_shift_general [OF e(1)] unfolding u128_small by auto
  have z: "u128 \<lparr>lo = 0, hi = 0\<rparr> = 0" by (simp add: u128_def)
  have n': "(2 :: int) ^ n \<le> 2 ^ 128" using g(1) by (intro power_increasing) simp_all
  have "(2 :: int) ^ 128 = 2 ^ (128 - n) * 2 ^ n" using g(1) by (simp flip: power_add)
  then have d: "u128 d = m * 2 ^ n" unfolding g(2) m_def by (simp only: mult_mod_left)
  have "2 ^ 64 \<le> u128 q"
  proof (cases "n = 128")
    case True
    then have "u128 d = 0" using g(2) by simp
    then have "u128 q = 2 ^ 128 - 1"
      using long_div_restore_zero [OF _ _ e(2)] n' True unfolding z by simp
    then show ?thesis by simp
  next
    case False
    then have a: "u128 a < m * 2 ^ n" using g(3) d by simp
    then have m: "0 < m" using u128_range [of a] zero_less_mult_pos2 [of m "2 ^ n"] by simp
    have "u128 q = u128 a div m"
      using long_div_restore_exact [OF m d a _ e(2)] n' unfolding z by simp
    moreover have "m \<le> uint v" unfolding m_def using v0 by (intro zmod_le_nonneg_dividend) simp
    then have "m * 2 ^ 64 \<le> u128 a" using big by (meson mult_right_mono order_trans zero_le_numeral zero_le_power)
    then have "2 ^ 64 \<le> u128 a div m" using zdiv_mono1 [of "m * 2 ^ 64" "u128 a" m] m by simp
    ultimately show ?thesis by simp
  qed
  then have "uint (hi q) \<noteq> 0" using uint_u64 [of "lo q"] unfolding u128_def by auto
  then show ?thesis unfolding e(3) by auto
qed

lemma long_idiv_exact:
  assumes v: "v \<noteq> 0" and a: "s128 a \<noteq> - (2 ^ 127)"
  shows "s128 (fst (long_idiv a v)) = s128 a sdiv sint v" "sint (snd (long_idiv a v)) = s128 a smod sint v"
proof -
  let ?t = "if s128 a < 0 then long_neg a else a" and ?w = "if sint v < 0 then - v else v"
  have t: "u128 ?t = \<bar>s128 a\<bar>" "u128 ?t < 2 ^ 127"
    using a u128_range [of a] unfolding s128_u128 u128_long_neg if_distrib [of u128]
    by (auto split: if_splits)
  have w: "uint ?w = \<bar>sint v\<bar>" by (rule uint_magnitude)
  have w0: "?w \<noteq> 0" using v by simp
  have v0: "sint v \<noteq> 0" using w w0 by (metis abs_0 uint_0_iff)
  have q: "u128 (fst (long_div ?t ?w)) = \<bar>s128 a\<bar> div \<bar>sint v\<bar>"
    and r: "uint (snd (long_div ?t ?w)) = \<bar>s128 a\<bar> mod \<bar>sint v\<bar>"
    using long_div_exact [OF w0, of ?t] t unfolding w by simp_all
  have u: "fst (long_idiv a v) = (if (s128 a < 0) \<noteq> (sint v < 0) then long_neg (fst (long_div ?t ?w)) else fst (long_div ?t ?w))"
    "snd (long_idiv a v) = (if s128 a < 0 then - snd (long_div ?t ?w) else snd (long_div ?t ?w))"
    by (simp_all only: long_idiv_def Let_def sint_hi_neg split_beta fst_conv snd_conv)
  let ?q = "fst (long_div ?t ?w)" and ?r = "snd (long_div ?t ?w)"
  have "\<bar>s128 a\<bar> div \<bar>sint v\<bar> \<le> \<bar>s128 a\<bar>" using zdiv_mono2 [of "\<bar>s128 a\<bar>" 1 "\<bar>sint v\<bar>"] v0 by simp
  then have "u128 ?q < 2 ^ 127" using q t by linarith
  then have sq: "s128 ?q = \<bar>s128 a\<bar> div \<bar>sint v\<bar>" using q by (simp add: s128_u128)
  have "0 \<le> \<bar>s128 a\<bar> div \<bar>sint v\<bar>" using q u128_range(1) [of ?q] by simp
  then have "s128 ?q \<noteq> - (2 ^ 127)" unfolding sq by auto
  then have n: "s128 (long_neg ?q) = - (\<bar>s128 a\<bar> div \<bar>sint v\<bar>)"
    using s128_long_neg [of ?q] unfolding sq by blast
  have "s128 (fst (long_idiv a v)) = (if (s128 a < 0) \<noteq> (sint v < 0) then - (\<bar>s128 a\<bar> div \<bar>sint v\<bar>) else \<bar>s128 a\<bar> div \<bar>sint v\<bar>)"
    unfolding u if_distrib [of s128] n sq ..
  then show "s128 (fst (long_idiv a v)) = s128 a sdiv sint v"
    using v0 by (auto simp: signed_divide_int_def sgn_if)
  have "uint ?r < 2 ^ 63" unfolding r
    using v0 sint_bounds [of v] pos_mod_bound [of "\<bar>sint v\<bar>" "\<bar>s128 a\<bar>"] by linarith
  then have "sint ?r = \<bar>s128 a\<bar> mod \<bar>sint v\<bar>" "sint (- ?r) = - (\<bar>s128 a\<bar> mod \<bar>sint v\<bar>)"
    using sint_small [of ?r] r by simp_all
  then show "sint (snd (long_idiv a v)) = s128 a smod sint v"
    unfolding u by (auto simp: signed_modulo_int_def sgn_if)
qed

section \<open>Properties\<close>

text \<open>The 64x64 multiplications of cpu/wide\_int.cc are exact: the two limbs they return hold the full unsigned, respectively signed, 128-bit product.\<close>

theorem wide_multiplication_exact:
  "u128 (long_mul x y) = uint x * uint y \<and> s128 (long_imul x y) = sint x * sint y"
  by (intro conjI u128_long_mul s128_long_imul)

text \<open>The 128 by 64 division is exact whenever the quotient fits in 64 bits or the dividend is below \<open>2 ^ 127\<close>: quotient and remainder are those of the integers.  When the quotient does not fit, the high limb of what it returns is non-zero, which is what the divide instructions test before they raise the divide error.\<close>

theorem wide_division_exact:
  assumes "v \<noteq> 0"
  shows "(if u128 a < uint v * 2 ^ 64
          then u128 (fst (long_div a v)) = u128 a div uint v \<and> hi (fst (long_div a v)) = 0
          else hi (fst (long_div a v)) \<noteq> 0) \<and>
         (uint (snd (long_div a v)) = u128 a mod uint v \<or> 2 ^ 127 \<le> u128 a \<and> uint v * 2 ^ 64 \<le> u128 a)"
proof (cases "u128 a < uint v * 2 ^ 64")
  case True
  note E = long_div_exact [OF assms disjI2 [OF True]]
  have v: "0 < uint v" using assms by (simp add: word_neq_0_conv [symmetric] unsigned_word_eqI uint_0_iff less_le)
  have "u128 a div uint v < 2 ^ 64"
  proof (rule ccontr)
    assume "\<not> u128 a div uint v < 2 ^ 64"
    then have "uint v * 2 ^ 64 \<le> uint v * (u128 a div uint v)" using v by (intro mult_left_mono) simp_all
    then show False using True v pos_mod_sign [OF v, of "u128 a"] mult_div_mod_eq [of "uint v" "u128 a"] by linarith
  qed
  then have "uint (hi (fst (long_div a v))) * 2 ^ 64 < 2 ^ 64" 
    using E(1) uint_u64(1) [of "lo (fst (long_div a v))"] unfolding u128_def [of "fst (long_div a v)"] by linarith
  then have "uint (hi (fst (long_div a v))) < 1" by simp
  then have "uint (hi (fst (long_div a v))) = 0" using uint_u64(1) [of "hi (fst (long_div a v))"] by linarith
  then have "hi (fst (long_div a v)) = 0" by (simp add: uint_0_iff)
  then show ?thesis using E True by simp
next
  case False
  then have "hi (fst (long_div a v)) \<noteq> 0" using long_div_too_big [OF assms] by simp
  then show ?thesis using False long_div_exact(2) [OF assms] by auto
qed

theorem wide_division_exact_witness:
  "u128 (fst (long_div \<lparr>lo = 5, hi = 3\<rparr> 7)) = (3 * 2 ^ 64 + 5) div 7"
  using wide_division_exact [of 7 "\<lparr>lo = 5, hi = 3\<rparr>"] by (auto simp: u128_def)

text \<open>The signed 128 by 64 division truncates toward zero, for every dividend but the most negative one, which the callers reject first: quotient and remainder are those of the signed division of the integers.\<close>

theorem wide_signed_division_exact:
  assumes "v \<noteq> 0" and "s128 a \<noteq> - (2 ^ 127)"
  shows "s128 (fst (long_idiv a v)) = s128 a sdiv sint v \<and> sint (snd (long_idiv a v)) = s128 a smod sint v"
  using long_idiv_exact [OF assms] by blast

theorem wide_signed_division_exact_witness: "s128 (fst (long_idiv \<lparr>lo = - 7, hi = - 1\<rparr> 2)) = - 3"
  using wide_signed_division_exact [of 2 "\<lparr>lo = - 7, hi = - 1\<rparr>"] by (simp add: s128_def)

end
