(* ===== verification/Mult.thy ===== *)
theory Mult
  imports Arith Wide_Int
begin

text \<open>
  The multiplications and divisions of cpu/mult8.cc, mult16.cc, mult32.cc and mult64.cc. A
  division returns \<open>Inl BX_DE_EXCEPTION\<close> where the code calls
  \<open>exception(BX\_DE\_EXCEPTION, 0)\<close>, which does not return to the handler; nothing is
  written before that call. The theorems state every handler on numbers: the product with the
  overflow flags, or the truncated quotient and remainder guarded by the divide error. The
  64-bit handlers rest on the 128-bit routines of \<open>Wide_Int\<close>.
\<close>

section \<open>The handlers\<close>

subsection \<open>cpu/mult8.cc\<close>

definition MUL_ALEbR :: "bxInstruction \<Rightarrow> bx_cpu \<Rightarrow> bx_cpu" where
  "MUL_ALEbR i c =
     (let op1 = AL c;
          op2 = BX_READ_8BIT_REGx (i_src i) (i_extend8bitL i) c;
          product_16 = ucast (ucast op1 :: u16) * ucast (ucast op2 :: u16) :: u32;
          product_8l = ucast (product_16 AND 0xFF) :: u8;
          product_8h = ucast (drop_bit 8 product_16) :: u8;
          c = set_AX (ucast product_16) c;
          c = upd_lf (SET_FLAGS_OSZAPC_LOGIC 8 (ucast product_8l :: u32)) c
      in if product_8h \<noteq> 0 then upd_lf assert_flags_OxxxxC c else c)"

definition IMUL_ALEbR :: "bxInstruction \<Rightarrow> bx_cpu \<Rightarrow> bx_cpu" where
  "IMUL_ALEbR i c =
     (let op1 = AL c;
          op2 = BX_READ_8BIT_REGx (i_src i) (i_extend8bitL i) c;
          product_16 = scast op1 * scast op2 :: u16;
          product_8 = ucast (product_16 AND 0xFF) :: u8;
          c = set_AX product_16 c;
          c = upd_lf (SET_FLAGS_OSZAPC_LOGIC 8 (ucast product_8 :: u32)) c
      in if product_16 \<noteq> scast (ucast product_16 :: u8) then upd_lf assert_flags_OxxxxC c else c)"

definition DIV_ALEbR :: "bxInstruction \<Rightarrow> bx_cpu \<Rightarrow> bx_exception + bx_cpu" where
  "DIV_ALEbR i c =
     (let op2 = BX_READ_8BIT_REGx (i_src i) (i_extend8bitL i) c
      in if op2 = 0 then Inl BX_DE_EXCEPTION
         else let op1 = AX c;
                  quotient_16 = op1 div ucast op2;
                  remainder_8 = ucast (op1 mod ucast op2) :: u8;
                  quotient_8l = ucast (quotient_16 AND 0xFF) :: u8
              in if quotient_16 \<noteq> ucast quotient_8l then Inl BX_DE_EXCEPTION
                 else Inr (set_AH remainder_8 (set_AL quotient_8l c)))"

definition IDIV_ALEbR :: "bxInstruction \<Rightarrow> bx_cpu \<Rightarrow> bx_exception + bx_cpu" where
  "IDIV_ALEbR i c =
     (let op1 = AX c
      in if op1 = 0x8000 then Inl BX_DE_EXCEPTION
         else let op2 = BX_READ_8BIT_REGx (i_src i) (i_extend8bitL i) c
         in if op2 = 0 then Inl BX_DE_EXCEPTION
         else let quotient_16 = word_of_int (sint op1 sdiv sint op2) :: u16;
                  remainder_8 = word_of_int (sint op1 smod sint op2) :: u8;
                  quotient_8l = ucast (quotient_16 AND 0xFF) :: u8
              in if quotient_16 \<noteq> scast quotient_8l then Inl BX_DE_EXCEPTION
                 else Inr (set_AH remainder_8 (set_AL quotient_8l c)))"

subsection \<open>cpu/mult16.cc\<close>

definition MUL_AXEwR :: "bxInstruction \<Rightarrow> bx_cpu \<Rightarrow> bx_cpu" where
  "MUL_AXEwR i c =
     (let op1_16 = AX c;
          op2_16 = BX_READ_16BIT_REG (i_src i) c;
          product_32 = ucast op1_16 * ucast op2_16 :: u32;
          product_16l = ucast (product_32 AND 0xFFFF) :: u16;
          product_16h = ucast (drop_bit 16 product_32) :: u16;
          c = set_AX product_16l c;
          c = set_DX product_16h c;
          c = upd_lf (SET_FLAGS_OSZAPC_LOGIC 16 (ucast product_16l :: u32)) c
      in if product_16h \<noteq> 0 then upd_lf assert_flags_OxxxxC c else c)"

definition IMUL_AXEwR :: "bxInstruction \<Rightarrow> bx_cpu \<Rightarrow> bx_cpu" where
  "IMUL_AXEwR i c =
     (let op1_16 = AX c;
          op2_16 = BX_READ_16BIT_REG (i_src i) c;
          product_32 = scast op1_16 * scast op2_16 :: u32;
          product_16l = ucast (product_32 AND 0xFFFF) :: u16;
          product_16h = ucast (drop_bit 16 product_32) :: u16;
          c = set_AX product_16l c;
          c = set_DX product_16h c;
          c = upd_lf (SET_FLAGS_OSZAPC_LOGIC 16 (ucast product_16l :: u32)) c
      in if product_32 \<noteq> scast (ucast product_32 :: u16) then upd_lf assert_flags_OxxxxC c else c)"

definition DIV_AXEwR :: "bxInstruction \<Rightarrow> bx_cpu \<Rightarrow> bx_exception + bx_cpu" where
  "DIV_AXEwR i c =
     (let op2_16 = BX_READ_16BIT_REG (i_src i) c
      in if op2_16 = 0 then Inl BX_DE_EXCEPTION
         else let op1_32 = push_bit 16 (ucast (DX c)) OR ucast (AX c) :: u32;
                  quotient_32 = op1_32 div ucast op2_16;
                  remainder_16 = ucast (op1_32 mod ucast op2_16) :: u16;
                  quotient_16l = ucast (quotient_32 AND 0xFFFF) :: u16
              in if quotient_32 \<noteq> ucast quotient_16l then Inl BX_DE_EXCEPTION
                 else let c = set_AX quotient_16l c in Inr (set_DX remainder_16 c))"

definition IDIV_AXEwR :: "bxInstruction \<Rightarrow> bx_cpu \<Rightarrow> bx_exception + bx_cpu" where
  "IDIV_AXEwR i c =
     (let op1_32 = push_bit 16 (ucast (DX c)) OR ucast (AX c) :: u32
      in if op1_32 = 0x80000000 then Inl BX_DE_EXCEPTION
         else let op2_16 = BX_READ_16BIT_REG (i_src i) c
         in if op2_16 = 0 then Inl BX_DE_EXCEPTION
         else let quotient_32 = word_of_int (sint op1_32 sdiv sint op2_16) :: u32;
                  remainder_16 = word_of_int (sint op1_32 smod sint op2_16) :: u16;
                  quotient_16l = ucast (quotient_32 AND 0xFFFF) :: u16
              in if quotient_32 \<noteq> scast quotient_16l then Inl BX_DE_EXCEPTION
                 else let c = set_AX quotient_16l c in Inr (set_DX remainder_16 c))"

definition IMUL_GwEwIwR :: "bxInstruction \<Rightarrow> bx_cpu \<Rightarrow> bx_cpu" where
  "IMUL_GwEwIwR i c =
     (let op2_16 = BX_READ_16BIT_REG (i_src i) c;
          op3_16 = i_Iw i;
          product_32 = scast op2_16 * scast op3_16 :: u32;
          product_16 = ucast (product_32 AND 0xFFFF) :: u16;
          c = BX_WRITE_16BIT_REG (i_dst i) product_16 c;
          c = upd_lf (SET_FLAGS_OSZAPC_LOGIC 16 (ucast product_16 :: u32)) c
      in if product_32 \<noteq> scast (ucast product_32 :: u16) then upd_lf assert_flags_OxxxxC c else c)"

definition IMUL_GwEwR :: "bxInstruction \<Rightarrow> bx_cpu \<Rightarrow> bx_cpu" where
  "IMUL_GwEwR i c =
     (let op1_16 = BX_READ_16BIT_REG (i_dst i) c;
          op2_16 = BX_READ_16BIT_REG (i_src i) c;
          product_32 = scast op1_16 * scast op2_16 :: u32;
          product_16 = ucast (product_32 AND 0xFFFF) :: u16;
          c = BX_WRITE_16BIT_REG (i_dst i) product_16 c;
          c = upd_lf (SET_FLAGS_OSZAPC_LOGIC 16 (ucast product_16 :: u32)) c
      in if product_32 \<noteq> scast (ucast product_32 :: u16) then upd_lf assert_flags_OxxxxC c else c)"

subsection \<open>cpu/mult32.cc\<close>

definition GET32L :: "u64 \<Rightarrow> u32" where "GET32L v = ucast v"
definition GET32H :: "u64 \<Rightarrow> u32" where "GET32H v = ucast (drop_bit 32 v)"
definition GET64_FROM_HI32_LO32 :: "u32 \<Rightarrow> u32 \<Rightarrow> u64" where
  "GET64_FROM_HI32_LO32 h l = ucast l OR push_bit 32 (ucast h)"

definition MUL_EAXEdR :: "bxInstruction \<Rightarrow> bx_cpu \<Rightarrow> bx_cpu" where
  "MUL_EAXEdR i c =
     (let op1_32 = EAX c;
          op2_32 = BX_READ_32BIT_REG (i_src i) c;
          product_64 = ucast op1_32 * ucast op2_32 :: u64;
          product_32l = GET32L product_64;
          product_32h = GET32H product_64;
          c = set_RAX (ucast product_32l) c;
          c = set_RDX (ucast product_32h) c;
          c = upd_lf (SET_FLAGS_OSZAPC_LOGIC 32 product_32l) c
      in if product_32h \<noteq> 0 then upd_lf assert_flags_OxxxxC c else c)"

definition IMUL_EAXEdR :: "bxInstruction \<Rightarrow> bx_cpu \<Rightarrow> bx_cpu" where
  "IMUL_EAXEdR i c =
     (let op1_32 = EAX c;
          op2_32 = BX_READ_32BIT_REG (i_src i) c;
          product_64 = scast op1_32 * scast op2_32 :: u64;
          product_32l = GET32L product_64;
          product_32h = GET32H product_64;
          c = set_RAX (ucast product_32l) c;
          c = set_RDX (ucast product_32h) c;
          c = upd_lf (SET_FLAGS_OSZAPC_LOGIC 32 product_32l) c
      in if product_64 \<noteq> scast (ucast product_64 :: u32) then upd_lf assert_flags_OxxxxC c else c)"

definition DIV_EAXEdR :: "bxInstruction \<Rightarrow> bx_cpu \<Rightarrow> bx_exception + bx_cpu" where
  "DIV_EAXEdR i c =
     (let op2_32 = BX_READ_32BIT_REG (i_src i) c
      in if op2_32 = 0 then Inl BX_DE_EXCEPTION
         else let op1_64 = GET64_FROM_HI32_LO32 (EDX c) (EAX c);
                  quotient_64 = op1_64 div ucast op2_32;
                  remainder_32 = ucast (op1_64 mod ucast op2_32) :: u32;
                  quotient_32l = ucast (quotient_64 AND 0xFFFFFFFF) :: u32
              in if quotient_64 \<noteq> ucast quotient_32l then Inl BX_DE_EXCEPTION
                 else let c = set_RAX (ucast quotient_32l) c in Inr (set_RDX (ucast remainder_32) c))"

definition IDIV_EAXEdR :: "bxInstruction \<Rightarrow> bx_cpu \<Rightarrow> bx_exception + bx_cpu" where
  "IDIV_EAXEdR i c =
     (let op1_64 = GET64_FROM_HI32_LO32 (EDX c) (EAX c)
      in if op1_64 = 0x8000000000000000 then Inl BX_DE_EXCEPTION
         else let op2_32 = BX_READ_32BIT_REG (i_src i) c
         in if op2_32 = 0 then Inl BX_DE_EXCEPTION
         else let quotient_64 = word_of_int (sint op1_64 sdiv sint op2_32) :: u64;
                  remainder_32 = word_of_int (sint op1_64 smod sint op2_32) :: u32;
                  quotient_32l = ucast (quotient_64 AND 0xFFFFFFFF) :: u32
              in if quotient_64 \<noteq> scast quotient_32l then Inl BX_DE_EXCEPTION
                 else let c = set_RAX (ucast quotient_32l) c in Inr (set_RDX (ucast remainder_32) c))"

definition IMUL_GdEdIdR :: "bxInstruction \<Rightarrow> bx_cpu \<Rightarrow> bx_cpu" where
  "IMUL_GdEdIdR i c =
     (let op2_32 = BX_READ_32BIT_REG (i_src i) c;
          op3_32 = i_Id i;
          product_64 = scast op2_32 * scast op3_32 :: u64;
          product_32 = ucast (product_64 AND 0xFFFFFFFF) :: u32;
          c = BX_WRITE_32BIT_REGZ (i_dst i) product_32 c;
          c = upd_lf (SET_FLAGS_OSZAPC_LOGIC 32 product_32) c
      in if product_64 \<noteq> scast (ucast product_64 :: u32) then upd_lf assert_flags_OxxxxC c else c)"

definition IMUL_GdEdR :: "bxInstruction \<Rightarrow> bx_cpu \<Rightarrow> bx_cpu" where
  "IMUL_GdEdR i c =
     (let op1_32 = BX_READ_32BIT_REG (i_dst i) c;
          op2_32 = BX_READ_32BIT_REG (i_src i) c;
          product_64 = scast op1_32 * scast op2_32 :: u64;
          product_32 = ucast (product_64 AND 0xFFFFFFFF) :: u32;
          c = BX_WRITE_32BIT_REGZ (i_dst i) product_32 c;
          c = upd_lf (SET_FLAGS_OSZAPC_LOGIC 32 product_32) c
      in if product_64 \<noteq> scast (ucast product_64 :: u32) then upd_lf assert_flags_OxxxxC c else c)"

subsection \<open>cpu/mult64.cc\<close>

definition MUL_RAXEqR :: "bxInstruction \<Rightarrow> bx_cpu \<Rightarrow> bx_cpu" where
  "MUL_RAXEqR i c =
     (let op1_64 = RAX c;
          op2_64 = BX_READ_64BIT_REG (i_src i) c;
          product_128 = long_mul op1_64 op2_64;
          c = set_RAX (lo product_128) c;
          c = set_RDX (hi product_128) c;
          c = upd_lf (SET_FLAGS_OSZAPC_LOGIC 64 (lo product_128)) c
      in if hi product_128 \<noteq> 0 then upd_lf assert_flags_OxxxxC c else c)"

definition IMUL_RAXEqR :: "bxInstruction \<Rightarrow> bx_cpu \<Rightarrow> bx_cpu" where
  "IMUL_RAXEqR i c =
     (let op1_64 = RAX c;
          op2_64 = BX_READ_64BIT_REG (i_src i) c;
          product_128 = long_imul op1_64 op2_64;
          c = set_RAX (lo product_128) c;
          c = set_RDX (hi product_128) c;
          c = upd_lf (SET_FLAGS_OSZAPC_LOGIC 64 (lo product_128)) c
      in if hi product_128 + drop_bit 63 (lo product_128) \<noteq> 0 then upd_lf assert_flags_OxxxxC c else c)"

definition DIV_RAXEqR :: "bxInstruction \<Rightarrow> bx_cpu \<Rightarrow> bx_exception + bx_cpu" where
  "DIV_RAXEqR i c =
     (let op2_64 = BX_READ_64BIT_REG (i_src i) c
      in if op2_64 = 0 then Inl BX_DE_EXCEPTION
         else let op1_128 = \<lparr>lo = RAX c, hi = RDX c\<rparr>;
                  (quotient_128, remainder_64) = long_div op1_128 op2_64;
                  quotient_64l = lo quotient_128
              in if hi quotient_128 \<noteq> 0 then Inl BX_DE_EXCEPTION
                 else let c = set_RAX quotient_64l c in Inr (set_RDX remainder_64 c))"

definition IDIV_RAXEqR :: "bxInstruction \<Rightarrow> bx_cpu \<Rightarrow> bx_exception + bx_cpu" where
  "IDIV_RAXEqR i c =
     (let op1_128 = \<lparr>lo = RAX c, hi = RDX c\<rparr>
      in if hi op1_128 = 0x8000000000000000 \<and> lo op1_128 = 0 then Inl BX_DE_EXCEPTION
         else let op2_64 = BX_READ_64BIT_REG (i_src i) c
         in if op2_64 = 0 then Inl BX_DE_EXCEPTION
         else let (quotient_128, remainder_64) = long_idiv op1_128 op2_64;
                  quotient_64l = lo quotient_128
              in if (lo quotient_128 AND 0x8000000000000000 = 0 \<and> hi quotient_128 \<noteq> 0)
                    \<or> (lo quotient_128 AND 0x8000000000000000 \<noteq> 0 \<and> hi quotient_128 \<noteq> 0xffffffffffffffff)
                 then Inl BX_DE_EXCEPTION
                 else let c = set_RAX quotient_64l c in Inr (set_RDX remainder_64 c))"

definition IMUL_GqEqIdR :: "bxInstruction \<Rightarrow> bx_cpu \<Rightarrow> bx_cpu" where
  "IMUL_GqEqIdR i c =
     (let op1_64 = BX_READ_64BIT_REG (i_src i) c;
          op2_64 = scast (i_Id i) :: u64;
          product_128 = long_imul op1_64 op2_64;
          c = BX_WRITE_64BIT_REG (i_dst i) (lo product_128) c;
          c = upd_lf (SET_FLAGS_OSZAPC_LOGIC 64 (lo product_128)) c
      in if hi product_128 + drop_bit 63 (lo product_128) \<noteq> 0 then upd_lf assert_flags_OxxxxC c else c)"

definition IMUL_GqEqR :: "bxInstruction \<Rightarrow> bx_cpu \<Rightarrow> bx_cpu" where
  "IMUL_GqEqR i c =
     (let op1_64 = BX_READ_64BIT_REG (i_dst i) c;
          op2_64 = BX_READ_64BIT_REG (i_src i) c;
          product_128 = long_imul op1_64 op2_64;
          c = BX_WRITE_64BIT_REG (i_dst i) (lo product_128) c;
          c = upd_lf (SET_FLAGS_OSZAPC_LOGIC 64 (lo product_128)) c
      in if hi product_128 + drop_bit 63 (lo product_128) \<noteq> 0 then upd_lf assert_flags_OxxxxC c else c)"

section \<open>Products and limbs on numbers\<close>

lemma uint_mul_wide:
  assumes "2 * LENGTH('a) \<le> LENGTH('b)"
  shows "uint (ucast (x :: 'a::len word) * ucast (y :: 'a word) :: 'b::len word) = uint x * uint y"
proof -
  have u: "uint (ucast w :: 'b word) = uint w" for w :: "'a word"
    using assms by (intro uint_ucast_up) simp
  have "uint x * uint y < 2 ^ LENGTH('a) * 2 ^ LENGTH('a)"
    by (intro mult_strict_mono) (simp_all add: unsigned_less)
  also have "\<dots> = 2 ^ (2 * LENGTH('a))" by (simp add: mult_2 power_add)
  also have "\<dots> \<le> (2 :: int) ^ LENGTH('b)" using assms by (intro power_increasing) simp_all
  finally show ?thesis by (simp only: uint_word_ariths u mod_pos_pos_trivial mult_nonneg_nonneg uint_ge_0)
qed

lemma sint_range: "- (2 ^ (LENGTH('a) - 1)) \<le> sint (x :: 'a::len word)" "sint x < 2 ^ (LENGTH('a) - 1)"
  using sint_range_size [of x] by (simp_all add: word_size)

lemma word_sint_round: "word_of_int (sint (w :: 'a::len word)) = w"
  by simp

lemma sint_of_int_small:
  assumes "- (2 ^ (LENGTH('b) - 1)) \<le> k" "k < 2 ^ (LENGTH('b) - 1)"
  shows "sint (word_of_int k :: 'b::len word) = k"
  unfolding sint_sbintrunc' using assms by (rule signed_take_bit_int_eq_self)

lemma sint_mul_wide:
  assumes "2 * LENGTH('a) \<le> LENGTH('b)"
  shows "sint (scast (x :: 'a::len word) * scast (y :: 'a word) :: 'b::len word) = sint x * sint y"
proof -
  have up: "sint (scast w :: 'b word) = sint w" for w :: "'a word"
    using assms by (intro sint_up_scast) (simp add: is_up)
  have ab: "\<bar>sint w\<bar> \<le> 2 ^ (LENGTH('a) - 1)" for w :: "'a word"
    using sint_range [of w] by linarith
  have "\<bar>sint x * sint y\<bar> \<le> 2 ^ (LENGTH('a) - 1) * 2 ^ (LENGTH('a) - 1)"
    unfolding abs_mult by (intro mult_mono ab) simp_all
  also have "\<dots> = 2 ^ (2 * (LENGTH('a) - 1))" by (simp add: mult_2 power_add)
  also have "\<dots> < (2 :: int) ^ (LENGTH('b) - 1)"
    using assms len_gt_0 [where 'a = 'a] by (intro power_strict_increasing) linarith+
  finally have r: "- (2 ^ (LENGTH('b) - 1)) \<le> sint x * sint y" "sint x * sint y < 2 ^ (LENGTH('b) - 1)"
    by linarith+
  have "scast x * scast y = (word_of_int (sint x * sint y) :: 'b word)"
    by (metis up wi_hom_mult word_sint_round)
  then show ?thesis using sint_of_int_small [OF r] by simp
qed

lemma limbs_of_word:
  fixes w :: "'b::len word"
  assumes "LENGTH('a) \<le> LENGTH('b)"
  shows "(ucast w :: 'a::len word) = word_of_int (uint w)" "(ucast w :: 'a::len word) = word_of_int (sint w)"
proof -
  show "(ucast w :: 'a word) = word_of_int (uint w)"
    by (rule bit_word_eqI) (simp only: bit_unsigned_iff bit_word_of_int_iff bit_uint_iff, use assms in auto)
  show "(ucast w :: 'a word) = word_of_int (sint w)"
    by (rule bit_word_eqI) (simp only: bit_unsigned_iff bit_word_of_int_iff bit_sint_iff,
      use assms in \<open>auto simp: bit_last_iff dest: bit_imp_le_length\<close>)
qed

lemma high_limb:
  fixes w :: "'b::len word"
  assumes "n + LENGTH('a) \<le> LENGTH('b)"
  shows "(ucast (drop_bit n w) :: 'a::len word) = word_of_int (uint w div 2 ^ n)"
    "(ucast (drop_bit n w) :: 'a::len word) = word_of_int (sint w div 2 ^ n)"
  by (rule bit_word_eqI; use assms in \<open>simp add: bit_unsigned_iff bit_drop_bit_eq bit_word_of_int_iff bit_uint_iff bit_sint_iff flip: drop_bit_eq_div\<close>)+

lemma fits_unsigned:
  fixes w :: "'b::len word"
  assumes "LENGTH('a) \<le> LENGTH('b)"
  shows "w = ucast (ucast w :: 'a::len word) \<longleftrightarrow> uint w < 2 ^ LENGTH('a)"
proof -
  have "uint (ucast (ucast w :: 'a word) :: 'b word) = uint w mod 2 ^ LENGTH('a)"
    using assms by (simp only: uint_ucast_up) (simp add: unsigned_ucast_eq take_bit_eq_mod)
  then have "w = ucast (ucast w :: 'a word) \<longleftrightarrow> uint w = uint w mod 2 ^ LENGTH('a)"
    by (simp only: word_uint_eq_iff)
  also have "\<dots> \<longleftrightarrow> uint w < 2 ^ LENGTH('a)"
    by (metis mod_pos_pos_trivial pos_mod_bound uint_ge_0 zero_less_numeral zero_less_power)
  finally show ?thesis .
qed

lemma fits_signed:
  fixes w :: "'b::len word"
  assumes "LENGTH('a) \<le> LENGTH('b)"
  shows "w = scast (ucast w :: 'a::len word) \<longleftrightarrow> - (2 ^ (LENGTH('a) - 1)) \<le> sint w \<and> sint w < 2 ^ (LENGTH('a) - 1)"
proof -
  have e: "sint (scast (ucast w :: 'a word) :: 'b word) = sint (ucast w :: 'a word)"
    using assms by (intro sint_up_scast) (simp add: is_up)
  have s: "sint (ucast w :: 'a word) = signed_take_bit (LENGTH('a) - 1) (sint w)"
    unfolding limbs_of_word(2) [OF assms] by (rule sint_sbintrunc')
  show ?thesis
  proof
    assume "w = scast (ucast w :: 'a word)"
    then have "sint w = sint (ucast w :: 'a word)" using e by metis
    then show "- (2 ^ (LENGTH('a) - 1)) \<le> sint w \<and> sint w < 2 ^ (LENGTH('a) - 1)"
      using sint_range [of "ucast w :: 'a word"] by simp
  next
    assume "- (2 ^ (LENGTH('a) - 1)) \<le> sint w \<and> sint w < 2 ^ (LENGTH('a) - 1)"
    then have "sint (ucast w :: 'a word) = sint w" unfolding s by (simp add: signed_take_bit_int_eq_self)
    then have "sint (scast (ucast w :: 'a word) :: 'b word) = sint w" using e by simp
    then show "w = scast (ucast w :: 'a word)" by (metis word_sint_round)
  qed
qed

section \<open>What the instructions promise\<close>

text \<open>
  The flags of a multiplication: SF, ZF and PF of the low half as for a logical result, and OF and
  CF when the product does not fit in the low half.
\<close>

definition mul_flags :: "bool \<Rightarrow> 'a::len word \<Rightarrow> arch_flags" where
  "mul_flags ov r = (arch_logic r)\<lparr>fl_OF := ov, fl_CF := ov\<rparr>"

definition fits_signed :: "nat \<Rightarrow> int \<Rightarrow> bool" where
  "fits_signed L p \<longleftrightarrow> - (2 ^ (L - 1)) \<le> p \<and> p < 2 ^ (L - 1)"

lemma mul_shape:
  assumes "LENGTH('a) \<in> {8, 16, 32, 64}" "LENGTH('a) \<le> LENGTH('b)" "32 \<le> LENGTH('b)"
  shows "cpu_abs (if ov
       then upd_lf assert_flags_OxxxxC (upd_lf (SET_FLAGS_OSZAPC_LOGIC LENGTH('a) (ucast (r :: 'a::len word) :: 'b::len word)) c)
       else upd_lf (SET_FLAGS_OSZAPC_LOGIC LENGTH('a) (ucast r :: 'b word)) c)
    = \<lparr>ar_reg = gen_reg c, ar_flags = mul_flags ov r\<rparr>"
  using SET_FLAGS_sim(5) [OF assms]
  by (simp add: cpu_abs_def direct_setters_abs mul_flags_def) (simp add: arch_logic_def)

lemma len_mul:
  "LENGTH(8) = 8" "LENGTH(16) = 16" "LENGTH(32) = 32" "LENGTH(64) = 64"
  "2 * LENGTH(8) \<le> LENGTH(32)" "2 * LENGTH(8) \<le> LENGTH(16)" "2 * LENGTH(16) \<le> LENGTH(32)"
  "2 * LENGTH(32) \<le> LENGTH(64)"
  by simp_all

lemma mul_shapes:
  "cpu_abs (if ov then upd_lf assert_flags_OxxxxC (upd_lf (SET_FLAGS_OSZAPC_LOGIC 8 (ucast r8 :: u32)) c)
       else upd_lf (SET_FLAGS_OSZAPC_LOGIC 8 (ucast r8 :: u32)) c)
     = \<lparr>ar_reg = gen_reg c, ar_flags = mul_flags ov (r8 :: u8)\<rparr>"
  "cpu_abs (if ov then upd_lf assert_flags_OxxxxC (upd_lf (SET_FLAGS_OSZAPC_LOGIC 16 (ucast r16 :: u32)) c)
       else upd_lf (SET_FLAGS_OSZAPC_LOGIC 16 (ucast r16 :: u32)) c)
     = \<lparr>ar_reg = gen_reg c, ar_flags = mul_flags ov (r16 :: u16)\<rparr>"
  "cpu_abs (if ov then upd_lf assert_flags_OxxxxC (upd_lf (SET_FLAGS_OSZAPC_LOGIC 32 r32) c)
       else upd_lf (SET_FLAGS_OSZAPC_LOGIC 32 r32) c)
     = \<lparr>ar_reg = gen_reg c, ar_flags = mul_flags ov (r32 :: u32)\<rparr>"
  "cpu_abs (if ov then upd_lf assert_flags_OxxxxC (upd_lf (SET_FLAGS_OSZAPC_LOGIC 64 r64) c)
       else upd_lf (SET_FLAGS_OSZAPC_LOGIC 64 r64) c)
     = \<lparr>ar_reg = gen_reg c, ar_flags = mul_flags ov (r64 :: u64)\<rparr>"
  by (rule mul_shape [where 'a = 8 and 'b = 32, unfolded len_mul(1-4)]
        mul_shape [where 'a = 16 and 'b = 32, unfolded len_mul(1-4)]
        mul_shape [where 'a = 32 and 'b = 32, unfolded len_mul(1-4) ucast_id]
        mul_shape [where 'a = 64 and 'b = 64, unfolded len_mul(1-4) ucast_id]; simp)+

lemma int_div_less: "0 < (q :: int) \<Longrightarrow> p div q < n \<longleftrightarrow> p < n * q"
proof -
  assume q: "0 < q"
  have e: "p = p div q * q + p mod q" and m: "0 \<le> p mod q" "p mod q < q" using q by simp_all
  show ?thesis
  proof
    assume "p div q < n"
    then have "(p div q + 1) * q \<le> n * q" using q by (intro mult_right_mono) simp_all
    then have "p div q * q + q \<le> n * q" by (simp only: distrib_right mult_1)
    then show "p < n * q" using e m by linarith
  next
    assume p: "p < n * q"
    show "p div q < n"
    proof (rule ccontr)
      assume "\<not> p div q < n"
      then have "n * q \<le> p div q * q" using q by (intro mult_right_mono) simp_all
      then show False using p e m by linarith
    qed
  qed
qed

lemma mul_limbs:
  fixes x y :: "'a::len word"
  assumes L: "2 * LENGTH('a) \<le> LENGTH('b)"
  defines "P \<equiv> ucast x * ucast y :: 'b::len word"
  shows "(ucast P :: 'a word) = word_of_int (uint x * uint y)"
    and "(ucast (drop_bit LENGTH('a) P) :: 'a word) = word_of_int (uint x * uint y div 2 ^ LENGTH('a))"
    and "(word_of_int (uint x * uint y div 2 ^ LENGTH('a)) :: 'a word) = 0 \<longleftrightarrow> \<not> 2 ^ LENGTH('a) \<le> uint x * uint y"
proof -
  have P: "uint P = uint x * uint y" unfolding P_def by (rule uint_mul_wide [OF L])
  show "(ucast P :: 'a word) = word_of_int (uint x * uint y)"
    using L by (simp only: limbs_of_word(1) P)
  show "(ucast (drop_bit LENGTH('a) P) :: 'a word) = word_of_int (uint x * uint y div 2 ^ LENGTH('a))"
    using high_limb(1) [OF L [unfolded mult_2], of P] unfolding P .
  have "uint x * uint y < 2 ^ LENGTH('a) * 2 ^ LENGTH('a)"
    by (intro mult_strict_mono) (simp_all add: unsigned_less)
  then have r: "uint x * uint y div 2 ^ LENGTH('a) < 2 ^ LENGTH('a)"
    using int_div_less [of "2 ^ LENGTH('a)" "uint x * uint y" "2 ^ LENGTH('a)"] by simp
  have q: "0 \<le> uint x * uint y div 2 ^ LENGTH('a)" by (simp add: pos_imp_zdiv_nonneg_iff)
  have "uint (word_of_int (uint x * uint y div 2 ^ LENGTH('a)) :: 'a word) = uint x * uint y div 2 ^ LENGTH('a)"
    using q r by (simp add: uint_word_of_int)
  moreover have "uint x * uint y div 2 ^ LENGTH('a) = 0 \<longleftrightarrow> \<not> 2 ^ LENGTH('a) \<le> uint x * uint y"
  proof -
    have "0 \<le> uint x * uint y" by simp
    moreover have "p div q = 0 \<longleftrightarrow> \<not> q \<le> p" if "0 \<le> p" "0 < q" for p q :: int
      using that pos_imp_zdiv_pos_iff [of q p] pos_imp_zdiv_nonneg_iff [of q p] by linarith
    ultimately show ?thesis by simp
  qed
  ultimately show "(word_of_int (uint x * uint y div 2 ^ LENGTH('a)) :: 'a word) = 0 \<longleftrightarrow> \<not> 2 ^ LENGTH('a) \<le> uint x * uint y"
    by (metis uint_0_iff)
qed

lemma imul_limbs:
  fixes x y :: "'a::len word"
  assumes L: "2 * LENGTH('a) \<le> LENGTH('b)"
  defines "P \<equiv> scast x * scast y :: 'b::len word"
  shows "(ucast P :: 'a word) = word_of_int (sint x * sint y)"
    and "(ucast (drop_bit LENGTH('a) P) :: 'a word) = word_of_int (sint x * sint y div 2 ^ LENGTH('a))"
    and "P = scast (word_of_int (sint x * sint y) :: 'a word) \<longleftrightarrow> fits_signed LENGTH('a) (sint x * sint y)"
proof -
  have P: "sint P = sint x * sint y" unfolding P_def by (rule sint_mul_wide [OF L])
  show low: "(ucast P :: 'a word) = word_of_int (sint x * sint y)"
    using L by (simp only: limbs_of_word(2) P)
  show "(ucast (drop_bit LENGTH('a) P) :: 'a word) = word_of_int (sint x * sint y div 2 ^ LENGTH('a))"
    using high_limb(2) [OF L [unfolded mult_2], of P] unfolding P .
  have "LENGTH('a) \<le> LENGTH('b)" using L by simp
  then show "P = scast (word_of_int (sint x * sint y) :: 'a word) \<longleftrightarrow> fits_signed LENGTH('a) (sint x * sint y)"
    using fits_signed [of P, where 'a = 'a] unfolding low P fits_signed_def by blast
qed

lemma masked_low:
  "(ucast (w AND 0xFF :: u32) :: u8) = ucast w" "(ucast (v AND 0xFF :: u16) :: u8) = ucast v"
  "(ucast (w AND 0xFFFF :: u32) :: u16) = ucast w" "(ucast (q AND 0xFFFFFFFF :: u64) :: u32) = ucast q"
proof -
  have m: "(0xFF :: u32) = mask 8" "(0xFF :: u16) = mask 8" "(0xFFFF :: u32) = mask 16" "(0xFFFFFFFF :: u64) = mask 32"
    by (simp_all add: mask_eq_exp_minus_1)
  show "(ucast (w AND 0xFF :: u32) :: u8) = ucast w" "(ucast (v AND 0xFF :: u16) :: u8) = ucast v"
    "(ucast (w AND 0xFFFF :: u32) :: u16) = ucast w" "(ucast (q AND 0xFFFFFFFF :: u64) :: u32) = ucast q"
    unfolding m by (rule bit_word_eqI; auto simp: bit_unsigned_iff bit_and_iff bit_mask_iff)+
qed

lemma ucast_8_16_32: "(ucast (ucast (x :: u8) :: u16) :: u32) = ucast x"
  by (rule bit_word_eqI) (auto simp: bit_unsigned_iff dest: bit_imp_le_length)

lemma mul_16_of_8: "(ucast (ucast (x :: u8) * ucast (y :: u8) :: u32) :: u16) = word_of_int (uint x * uint y)"
proof -
  have "uint (ucast x * ucast y :: u32) = uint x * uint y" by (rule uint_mul_wide) simp
  then show ?thesis using limbs_of_word(1) [where 'a = 16 and 'b = 32, of "ucast x * ucast y"] by simp
qed

lemmas mul_values = mul_16_of_8 masked_low ucast_8_16_32 GET32L_def GET32H_def not_not
  mul_limbs [OF len_mul(5), unfolded len_mul(1)] imul_limbs [OF len_mul(6), unfolded len_mul(1)]
  mul_limbs [OF len_mul(7), unfolded len_mul(2)] imul_limbs [OF len_mul(7), unfolded len_mul(2)]
  mul_limbs [OF len_mul(8), unfolded len_mul(3)] imul_limbs [OF len_mul(8), unfolded len_mul(3)]

text \<open>The products.\<close>

text \<open>The 128-bit products on numbers.\<close>

lemma limbs_of_128:
  "lo a = word_of_int (u128 a)" "lo a = word_of_int (s128 a)"
  "hi a = word_of_int (u128 a div 2 ^ 64)" "hi a = word_of_int (s128 a div 2 ^ 64)"
proof -
  have d: "(h * 2 ^ 64 + l) div 2 ^ 64 = h" if "0 \<le> l" "l < 2 ^ 64" for h l :: int
    using that by simp
  have m: "(word_of_int (h * 2 ^ 64 + l) :: u64) = word_of_int l" for h l
    by (simp only: word_of_int_eq_iff take_bit_eq_mod len64) simp
  show "lo a = word_of_int (u128 a)" "lo a = word_of_int (s128 a)"
    unfolding u128_def s128_def m by simp_all
  show "hi a = word_of_int (u128 a div 2 ^ 64)" "hi a = word_of_int (s128 a div 2 ^ 64)"
    unfolding u128_def s128_def d [OF uint_u64] by simp_all
qed

lemma wide_values:
  "lo (long_mul x y) = word_of_int (uint x * uint y)" "hi (long_mul x y) = word_of_int (uint x * uint y div 2 ^ 64)"
  "(word_of_int (uint x * uint y div 2 ^ 64) :: u64) = 0 \<longleftrightarrow> \<not> 2 ^ 64 \<le> uint x * uint y"
proof -
  show "lo (long_mul x y) = word_of_int (uint x * uint y)" "hi (long_mul x y) = word_of_int (uint x * uint y div 2 ^ 64)"
    using limbs_of_128(1,3) [of "long_mul x y"] by (simp_all only: u128_long_mul)
  show "(word_of_int (uint x * uint y div 2 ^ 64) :: u64) = 0 \<longleftrightarrow> \<not> 2 ^ 64 \<le> uint x * uint y"
    using mul_limbs(3) [where 'a = 64 and 'b = 128, of x y] unfolding len_mul(4) by simp
qed

text \<open>The sign check of the 64-bit handlers: the high half repeats the sign of the low half.\<close>

lemma sign_repeated:
  "hi a + drop_bit 63 (lo a) = 0 \<longleftrightarrow> fits_signed 64 (s128 a)"
proof -
  define b where "b = bit (lo a) 63"
  have t: "drop_bit 63 (lo a) = of_bool b"
  proof (rule bit_word_eqI)
    fix n show "bit (drop_bit 63 (lo a)) n = bit (of_bool b :: u64) n"
      using bit_imp_le_length [of "lo a" "63 + n"]
      by (cases "n = 0") (auto simp: bit_drop_bit_eq bit_of_bool_iff b_def)
  qed
  have l: "b \<longleftrightarrow> 2 ^ 63 \<le> uint (lo a)"
    using sint_neg_iff [of "lo a"] uint_u64 [of "lo a"] unfolding b_def sint_u64 by (auto split: if_splits)
  have h: "hi a + of_bool b = 0 \<longleftrightarrow> sint (hi a) = - of_bool b"
  proof -
    have "hi a + of_bool b = 0 \<longleftrightarrow> hi a = - of_bool b" by (simp only: add_eq_0_iff2)
    also have "\<dots> \<longleftrightarrow> sint (hi a) = sint (- of_bool b :: u64)" by (metis signed_word_eqI)
    finally show ?thesis by (cases b) simp_all
  qed
  have *: "x = - of_bool b \<longleftrightarrow> - (2 ^ 63) \<le> x * 2 ^ 64 + l \<and> x * 2 ^ 64 + l < 2 ^ 63"
    if "b \<longleftrightarrow> 2 ^ 63 \<le> l" "0 \<le> l" "l < 2 ^ 64" for x l :: int
    using that by (cases b) auto
  show ?thesis unfolding t h fits_signed_def s128_def using * [OF l uint_u64] by simp
qed

lemma wide_imul:
  "lo (long_imul x y) = word_of_int (sint x * sint y)" "hi (long_imul x y) = word_of_int (sint x * sint y div 2 ^ 64)"
  "word_of_int (sint x * sint y div 2 ^ 64) + drop_bit 63 (word_of_int (sint x * sint y) :: u64) = 0 \<longleftrightarrow> fits_signed 64 (sint x * sint y)"
proof -
  show e: "lo (long_imul x y) = word_of_int (sint x * sint y)" "hi (long_imul x y) = word_of_int (sint x * sint y div 2 ^ 64)"
    using limbs_of_128(2,4) [of "long_imul x y"] by (simp_all only: s128_long_imul)
  show "word_of_int (sint x * sint y div 2 ^ 64) + drop_bit 63 (word_of_int (sint x * sint y) :: u64) = 0 \<longleftrightarrow> fits_signed 64 (sint x * sint y)"
    using sign_repeated [of "long_imul x y"] unfolding e s128_long_imul .
qed

lemma word_of_int_16: "(scast x * scast y :: u16) = word_of_int (sint (x :: u8) * sint (y :: u8))"
  by (simp add: wi_hom_mult)

lemma MUL_ALEbR_sim:
  "cpu_abs (MUL_ALEbR i c) = (let p = uint (AL c) * uint (rd8 i (i_src i) c) in
     \<lparr>ar_reg = gen_reg (set_AX (word_of_int p) c), ar_flags = mul_flags (2 ^ 8 \<le> p) (word_of_int p :: u8)\<rparr>)"
  by (simp only: MUL_ALEbR_def Let_def mul_shapes mul_values)

lemma IMUL_ALEbR_sim:
  "cpu_abs (IMUL_ALEbR i c) = (let p = sint (AL c) * sint (rd8 i (i_src i) c) in
     \<lparr>ar_reg = gen_reg (set_AX (word_of_int p) c), ar_flags = mul_flags (\<not> fits_signed 8 p) (word_of_int p :: u8)\<rparr>)"
  by (simp only: IMUL_ALEbR_def Let_def mul_shapes mul_values) (simp only: word_of_int_16)

lemma MUL_AXEwR_sim:
  "cpu_abs (MUL_AXEwR i c) = (let p = uint (AX c) * uint (BX_READ_16BIT_REG (i_src i) c) in
     \<lparr>ar_reg = gen_reg (set_DX (word_of_int (p div 2 ^ 16)) (set_AX (word_of_int p) c)), ar_flags = mul_flags (2 ^ 16 \<le> p) (word_of_int p :: u16)\<rparr>)"
  by (simp only: MUL_AXEwR_def Let_def mul_shapes mul_values)

lemma IMUL_AXEwR_sim:
  "cpu_abs (IMUL_AXEwR i c) = (let p = sint (AX c) * sint (BX_READ_16BIT_REG (i_src i) c) in
     \<lparr>ar_reg = gen_reg (set_DX (word_of_int (p div 2 ^ 16)) (set_AX (word_of_int p) c)), ar_flags = mul_flags (\<not> fits_signed 16 p) (word_of_int p :: u16)\<rparr>)"
  by (simp only: IMUL_AXEwR_def Let_def mul_shapes mul_values)

lemma IMUL_GwEwIwR_sim:
  "cpu_abs (IMUL_GwEwIwR i c) = (let p = sint (BX_READ_16BIT_REG (i_src i) c) * sint (i_Iw i) in
     \<lparr>ar_reg = gen_reg (BX_WRITE_16BIT_REG (i_dst i) (word_of_int p) c),
      ar_flags = mul_flags (\<not> fits_signed 16 p) (word_of_int p :: u16)\<rparr>)"
  by (simp only: IMUL_GwEwIwR_def Let_def mul_shapes mul_values)

lemma IMUL_GwEwR_sim:
  "cpu_abs (IMUL_GwEwR i c) = (let p = sint (BX_READ_16BIT_REG (i_dst i) c) * sint (BX_READ_16BIT_REG (i_src i) c) in
     \<lparr>ar_reg = gen_reg (BX_WRITE_16BIT_REG (i_dst i) (word_of_int p) c),
      ar_flags = mul_flags (\<not> fits_signed 16 p) (word_of_int p :: u16)\<rparr>)"
  by (simp only: IMUL_GwEwR_def Let_def mul_shapes mul_values)

lemma MUL_EAXEdR_sim:
  "cpu_abs (MUL_EAXEdR i c) = (let p = uint (EAX c) * uint (BX_READ_32BIT_REG (i_src i) c) in
     \<lparr>ar_reg = gen_reg (set_RDX (ucast (word_of_int (p div 2 ^ 32) :: u32)) (set_RAX (ucast (word_of_int p :: u32)) c)), ar_flags = mul_flags (2 ^ 32 \<le> p) (word_of_int p :: u32)\<rparr>)"
  by (simp only: MUL_EAXEdR_def Let_def mul_shapes mul_values)

lemma IMUL_EAXEdR_sim:
  "cpu_abs (IMUL_EAXEdR i c) = (let p = sint (EAX c) * sint (BX_READ_32BIT_REG (i_src i) c) in
     \<lparr>ar_reg = gen_reg (set_RDX (ucast (word_of_int (p div 2 ^ 32) :: u32)) (set_RAX (ucast (word_of_int p :: u32)) c)), ar_flags = mul_flags (\<not> fits_signed 32 p) (word_of_int p :: u32)\<rparr>)"
  by (simp only: IMUL_EAXEdR_def Let_def mul_shapes mul_values)

lemma IMUL_GdEdIdR_sim:
  "cpu_abs (IMUL_GdEdIdR i c) = (let p = sint (BX_READ_32BIT_REG (i_src i) c) * sint (i_Id i) in
     \<lparr>ar_reg = gen_reg (BX_WRITE_32BIT_REGZ (i_dst i) (word_of_int p) c),
      ar_flags = mul_flags (\<not> fits_signed 32 p) (word_of_int p :: u32)\<rparr>)"
  by (simp only: IMUL_GdEdIdR_def Let_def mul_shapes mul_values)

lemma IMUL_GdEdR_sim:
  "cpu_abs (IMUL_GdEdR i c) = (let p = sint (BX_READ_32BIT_REG (i_dst i) c) * sint (BX_READ_32BIT_REG (i_src i) c) in
     \<lparr>ar_reg = gen_reg (BX_WRITE_32BIT_REGZ (i_dst i) (word_of_int p) c),
      ar_flags = mul_flags (\<not> fits_signed 32 p) (word_of_int p :: u32)\<rparr>)"
  by (simp only: IMUL_GdEdR_def Let_def mul_shapes mul_values)

lemma MUL_RAXEqR_sim:
  "cpu_abs (MUL_RAXEqR i c) = (let p = uint (RAX c) * uint (BX_READ_64BIT_REG (i_src i) c) in
     \<lparr>ar_reg = gen_reg (set_RDX (word_of_int (p div 2 ^ 64)) (set_RAX (word_of_int p) c)), ar_flags = mul_flags (2 ^ 64 \<le> p) (word_of_int p :: u64)\<rparr>)"
  by (simp only: MUL_RAXEqR_def Let_def mul_shapes wide_values wide_imul not_not)

lemma IMUL_RAXEqR_sim:
  "cpu_abs (IMUL_RAXEqR i c) = (let p = sint (RAX c) * sint (BX_READ_64BIT_REG (i_src i) c) in
     \<lparr>ar_reg = gen_reg (set_RDX (word_of_int (p div 2 ^ 64)) (set_RAX (word_of_int p) c)), ar_flags = mul_flags (\<not> fits_signed 64 p) (word_of_int p :: u64)\<rparr>)"
  by (simp only: IMUL_RAXEqR_def Let_def mul_shapes wide_values wide_imul not_not)

lemma IMUL_GqEqIdR_sim:
  "cpu_abs (IMUL_GqEqIdR i c) = (let p = sint (BX_READ_64BIT_REG (i_src i) c) * sint (scast (i_Id i) :: u64) in
     \<lparr>ar_reg = gen_reg (BX_WRITE_64BIT_REG (i_dst i) (word_of_int p) c),
      ar_flags = mul_flags (\<not> fits_signed 64 p) (word_of_int p :: u64)\<rparr>)"
  by (simp only: IMUL_GqEqIdR_def Let_def mul_shapes wide_values wide_imul not_not)

lemma IMUL_GqEqR_sim:
  "cpu_abs (IMUL_GqEqR i c) = (let p = sint (BX_READ_64BIT_REG (i_dst i) c) * sint (BX_READ_64BIT_REG (i_src i) c) in
     \<lparr>ar_reg = gen_reg (BX_WRITE_64BIT_REG (i_dst i) (word_of_int p) c),
      ar_flags = mul_flags (\<not> fits_signed 64 p) (word_of_int p :: u64)\<rparr>)"
  by (simp only: IMUL_GqEqR_def Let_def mul_shapes wide_values wide_imul not_not)

section \<open>Quotients and remainders\<close>

lemma div_limbs:
  fixes x :: "'b::len word" and y :: "'a::len word"
  assumes L: "LENGTH('a) \<le> LENGTH('b)"
  shows "(ucast (x div ucast y) :: 'a word) = word_of_int (uint x div uint y)"
    and "(ucast (x mod ucast y) :: 'a word) = word_of_int (uint x mod uint y)"
    and "x div ucast y = ucast (word_of_int (uint x div uint y) :: 'a word) \<longleftrightarrow> \<not> 2 ^ LENGTH('a) \<le> uint x div uint y"
proof -
  have u: "uint (ucast y :: 'b word) = uint y" by (rule uint_ucast_up [OF L])
  have d: "uint (x div ucast y) = uint x div uint y" "uint (x mod ucast y) = uint x mod uint y"
    by (simp_all only: uint_div_distrib uint_mod_distrib u)
  show l: "(ucast (x div ucast y) :: 'a word) = word_of_int (uint x div uint y)"
    and "(ucast (x mod ucast y) :: 'a word) = word_of_int (uint x mod uint y)"
    by (simp_all only: limbs_of_word(1) [OF L] d)
  show "x div ucast y = ucast (word_of_int (uint x div uint y) :: 'a word) \<longleftrightarrow> \<not> 2 ^ LENGTH('a) \<le> uint x div uint y"
    using fits_unsigned [OF L, of "x div ucast y"] unfolding l d by linarith
qed

lemma abs_sdiv_le: "\<bar>a sdiv b\<bar> \<le> \<bar>a\<bar>" for a b :: int
proof (cases "b = 0")
  case False
  have "\<bar>a sdiv b\<bar> = \<bar>a\<bar> div \<bar>b\<bar> \<or> a sdiv b = 0"
    using False pos_imp_zdiv_nonneg_iff [of "\<bar>b\<bar>" "\<bar>a\<bar>"] by (auto simp: signed_divide_int_def abs_mult sgn_if)
  moreover have "\<bar>a\<bar> div \<bar>b\<bar> \<le> \<bar>a\<bar>" using zdiv_mono2 [of "\<bar>a\<bar>" 1 "\<bar>b\<bar>"] False by simp
  ultimately show ?thesis by auto
qed simp

lemma idiv_limbs:
  fixes x :: "'b::len word" and y :: "'a::len word"
  assumes L: "LENGTH('a) \<le> LENGTH('b)"
  defines "q \<equiv> sint x sdiv sint y"
  shows "(ucast (word_of_int q :: 'b word) :: 'a word) = word_of_int q"
    and "sint x \<noteq> - (2 ^ (LENGTH('b) - 1)) \<Longrightarrow>
       (word_of_int q :: 'b word) = scast (word_of_int q :: 'a word) \<longleftrightarrow> fits_signed LENGTH('a) q"
proof -
  have "bit (ucast (word_of_int q :: 'b word) :: 'a word) n = bit (word_of_int q :: 'a word) n" for n
    using L by (auto simp: bit_unsigned_iff bit_word_of_int_iff)
  then show l: "(ucast (word_of_int q :: 'b word) :: 'a word) = word_of_int q" by (simp add: bit_eq_iff)
  assume "sint x \<noteq> - (2 ^ (LENGTH('b) - 1))"
  then have "- (2 ^ (LENGTH('b) - 1)) \<le> q" "q < 2 ^ (LENGTH('b) - 1)"
    using sint_range [of x] abs_sdiv_le [of "sint x" "sint y"] unfolding q_def by linarith+
  then have s: "sint (word_of_int q :: 'b word) = q" by (rule sint_of_int_small)
  show "(word_of_int q :: 'b word) = scast (word_of_int q :: 'a word) \<longleftrightarrow> fits_signed LENGTH('a) q"
    using fits_signed [OF L, of "word_of_int q"] unfolding l s fits_signed_def .
qed

text \<open>The most negative dividend never has a quotient that fits, which justifies the early check.\<close>

lemma min_int_quotient:
  assumes d: "d \<noteq> 0" "\<bar>d\<bar> \<le> 2 ^ (L - 1)" and L: "0 < L"
  shows "\<not> fits_signed L (- (2 ^ (2 * L - 1)) sdiv d)"
proof -
  have e: "(2 :: int) ^ (2 * L - 1) = 2 ^ L * 2 ^ (L - 1)"
    using L by (simp add: mult_2 flip: power_add)
  have "2 ^ L * \<bar>d\<bar> \<le> (2 :: int) ^ (2 * L - 1)" unfolding e using d(2) by (intro mult_left_mono) simp_all
  then have "2 ^ L \<le> 2 ^ (2 * L - 1) div \<bar>d\<bar>"
    using zdiv_mono1 [of "2 ^ L * \<bar>d\<bar>" "2 ^ (2 * L - 1)" "\<bar>d\<bar>"] d(1) by simp
  moreover have "(2 :: int) ^ (L - 1) < 2 ^ L" using L by (intro power_strict_increasing) simp_all
  moreover have "- (2 ^ (2 * L - 1)) sdiv d = (if 0 < d then - (2 ^ (2 * L - 1) div \<bar>d\<bar>) else 2 ^ (2 * L - 1) div \<bar>d\<bar>)"
    using d(1) by (simp add: signed_divide_int_def sgn_if)
  ultimately show ?thesis unfolding fits_signed_def by (simp only: split: if_split) linarith
qed

lemma pair_value:
  fixes h l :: "'a::len word"
  assumes L: "LENGTH('b) = 2 * LENGTH('a)"
  defines "w \<equiv> push_bit LENGTH('a) (ucast h) OR ucast l :: 'b::len word"
  shows "uint w = uint h * 2 ^ LENGTH('a) + uint l" "sint w = sint h * 2 ^ LENGTH('a) + uint l"
proof -
  have b: "bit w n \<longleftrightarrow> (if n < LENGTH('a) then bit l n else bit h (n - LENGTH('a)))" for n
    unfolding w_def bit_or_iff bit_push_bit_iff bit_unsigned_iff using L
    by (auto dest: bit_imp_le_length)
  have "uint w = push_bit LENGTH('a) (uint h) OR uint l"
    using L by (intro bit_eqI) (auto simp: bit_uint_iff b bit_or_iff bit_push_bit_iff dest: bit_imp_le_length)
  also have "\<dots> = push_bit LENGTH('a) (uint h) + uint l"
  proof (rule disjunctive_add_eq_or [symmetric])
    show "push_bit LENGTH('a) (uint h) AND uint l = 0"
      by (rule bit_eqI) (auto simp: bit_uint_iff bit_and_iff bit_push_bit_iff)
  qed
  finally show u: "uint w = uint h * 2 ^ LENGTH('a) + uint l" by (simp add: push_bit_eq_mult)
  have neg: "sint w < 0 \<longleftrightarrow> sint h < 0"
  proof -
    have "\<not> LENGTH('b) - 1 < LENGTH('a)" "LENGTH('b) - 1 - LENGTH('a) = LENGTH('a) - 1"
      using L len_gt_0 [where 'a = 'a] by linarith+
    then show ?thesis unfolding sint_neg_iff b by simp
  qed
  have B: "(2 :: int) ^ LENGTH('b) = 2 ^ LENGTH('a) * 2 ^ LENGTH('a)" unfolding L by (simp add: mult_2 power_add)
  have "sint w = uint h * 2 ^ LENGTH('a) + uint l - (if sint h < 0 then 2 ^ LENGTH('a) else 0) * 2 ^ LENGTH('a)"
    using sint_uint_sign [of w] unfolding neg u B by simp
  also have "\<dots> = (uint h - (if sint h < 0 then 2 ^ LENGTH('a) else 0)) * 2 ^ LENGTH('a) + uint l"
    by (simp only: left_diff_distrib)
  also have "uint h - (if sint h < 0 then 2 ^ LENGTH('a) else 0) = sint h" using sint_uint_sign [of h] by simp
  finally show "sint w = sint h * 2 ^ LENGTH('a) + uint l" .
qed


lemma len_le:
  "LENGTH(8) \<le> LENGTH(16)" "LENGTH(16) \<le> LENGTH(32)" "LENGTH(32) \<le> LENGTH(64)"
  "LENGTH(32) = 2 * LENGTH(16)" "LENGTH(64) = 2 * LENGTH(32)"
  by simp_all

lemma GET64_pair: "GET64_FROM_HI32_LO32 h l = push_bit 32 (ucast h) OR ucast l"
  by (simp only: GET64_FROM_HI32_LO32_def or.commute)

lemma ucast_of_int: "LENGTH('a) \<le> LENGTH('b) \<Longrightarrow> (ucast (word_of_int k :: 'b::len word) :: 'a::len word) = word_of_int k"
  by (rule bit_word_eqI) (auto simp: bit_unsigned_iff bit_word_of_int_iff)

lemmas pair_values = pair_value [OF len_le(4), unfolded len_mul(2)] pair_value [OF len_le(5), unfolded len_mul(3)]

lemmas div_values = masked_low not_not GET64_pair pair_values
  div_limbs [OF len_le(1), unfolded len_mul(1)] div_limbs [OF len_le(2), unfolded len_mul(2)]
  div_limbs [OF len_le(3), unfolded len_mul(3)]

text \<open>The early check for the most negative dividend.\<close>

lemma min_checks:
  "(x :: u16) = 0x8000 \<longleftrightarrow> sint x = - (2 ^ 15)" "(y :: u32) = 0x80000000 \<longleftrightarrow> sint y = - (2 ^ 31)"
  "(z :: u64) = 0x8000000000000000 \<longleftrightarrow> sint z = - (2 ^ 63)"
proof -
  have m: "sint (0x8000 :: u16) = - (2 ^ 15)" "sint (0x80000000 :: u32) = - (2 ^ 31)"
    "sint (0x8000000000000000 :: u64) = - (2 ^ 63)"
    by simp_all
  show "(x :: u16) = 0x8000 \<longleftrightarrow> sint x = - (2 ^ 15)" "(y :: u32) = 0x80000000 \<longleftrightarrow> sint y = - (2 ^ 31)"
    "(z :: u64) = 0x8000000000000000 \<longleftrightarrow> sint z = - (2 ^ 63)"
    unfolding m [symmetric] by (auto intro: signed_word_eqI)
qed

lemma sint_0_iff: "sint (y :: 'a::len word) = 0 \<longleftrightarrow> y = 0"
  by (metis signed_0 signed_word_eqI)

text \<open>The divisions.\<close>

lemma DIV_ALEbR_sim:
  "DIV_ALEbR i c = (let D = uint (AX c); d = uint (rd8 i (i_src i) c) in
     if d = 0 \<or> 2 ^ 8 \<le> D div d then Inl BX_DE_EXCEPTION
     else Inr (set_AH (word_of_int (D mod d)) (set_AL (word_of_int (D div d)) c)))"
  by (simp only: DIV_ALEbR_def Let_def div_values uint_0_iff if_distrib) (auto simp: uint_0_iff)

lemma DIV_AXEwR_sim:
  "DIV_AXEwR i c = (let D = uint (DX c) * 2 ^ 16 + uint (AX c); d = uint (BX_READ_16BIT_REG (i_src i) c) in
     if d = 0 \<or> 2 ^ 16 \<le> D div d then Inl BX_DE_EXCEPTION
     else Inr (set_DX (word_of_int (D mod d)) (set_AX (word_of_int (D div d)) c)))"
  by (simp only: DIV_AXEwR_def Let_def div_values uint_0_iff if_distrib) (auto simp: uint_0_iff)

lemma DIV_EAXEdR_sim:
  "DIV_EAXEdR i c = (let D = uint (EDX c) * 2 ^ 32 + uint (EAX c); d = uint (BX_READ_32BIT_REG (i_src i) c) in
     if d = 0 \<or> 2 ^ 32 \<le> D div d then Inl BX_DE_EXCEPTION
     else Inr (set_RDX (ucast (word_of_int (D mod d) :: u32)) (set_RAX (ucast (word_of_int (D div d) :: u32)) c)))"
  by (simp only: DIV_EAXEdR_def Let_def div_values uint_0_iff if_distrib) (auto simp: uint_0_iff)

lemma DIV_128:
  assumes v: "v \<noteq> 0"
  shows "hi (fst (long_div x v)) = 0 \<longleftrightarrow> \<not> 2 ^ 64 \<le> u128 x div uint v"
    and "\<not> 2 ^ 64 \<le> u128 x div uint v \<Longrightarrow> lo (fst (long_div x v)) = word_of_int (u128 x div uint v)
      \<and> snd (long_div x v) = word_of_int (u128 x mod uint v)"
proof -
  have v0: "0 < uint v" using v by (simp add: uint_0_iff less_le)
  have small: "2 ^ 64 \<le> u128 x div uint v \<longleftrightarrow> \<not> u128 x < uint v * 2 ^ 64"
    using int_div_less [OF v0, of "u128 x" "2 ^ 64"] by (simp only: mult.commute not_less) linarith
  have ex: "u128 (fst (long_div x v)) = u128 x div uint v" "uint (snd (long_div x v)) = u128 x mod uint v"
    if "u128 x < uint v * 2 ^ 64" using long_div_exact [OF v, of x] that by simp_all
  show "hi (fst (long_div x v)) = 0 \<longleftrightarrow> \<not> 2 ^ 64 \<le> u128 x div uint v"
  proof (cases "u128 x < uint v * 2 ^ 64")
    case True
    then have "u128 (fst (long_div x v)) div 2 ^ 64 = 0"
      using ex(1) small u128_range(1) [of "fst (long_div x v)"] by simp
    then show ?thesis using limbs_of_128(3) [of "fst (long_div x v)"] small True by simp
  next
    case False
    then show ?thesis using long_div_too_big [OF v, of x] small by simp
  qed
  assume "\<not> 2 ^ 64 \<le> u128 x div uint v"
  then have "u128 x < uint v * 2 ^ 64" using small by blast
  then show "lo (fst (long_div x v)) = word_of_int (u128 x div uint v)
      \<and> snd (long_div x v) = word_of_int (u128 x mod uint v)"
    using limbs_of_128(1) [of "fst (long_div x v)"] ex by (metis word_of_int_uint)
qed

lemma DIV_RAXEqR_sim:
  "DIV_RAXEqR i c = (let D = uint (RDX c) * 2 ^ 64 + uint (RAX c); d = uint (BX_READ_64BIT_REG (i_src i) c) in
     if d = 0 \<or> 2 ^ 64 \<le> D div d then Inl BX_DE_EXCEPTION
     else Inr (set_RDX (word_of_int (D mod d)) (set_RAX (word_of_int (D div d)) c)))"
proof -
  define x v where "x = \<lparr>lo = RAX c, hi = RDX c\<rparr>" and "v = BX_READ_64BIT_REG (i_src i) c"
  have D: "u128 x = uint (RDX c) * 2 ^ 64 + uint (RAX c)" by (simp add: x_def u128_def)
  have e: "DIV_RAXEqR i c = (if v = 0 \<or> hi (fst (long_div x v)) \<noteq> 0 then Inl BX_DE_EXCEPTION
      else Inr (set_RDX (snd (long_div x v)) (set_RAX (lo (fst (long_div x v))) c)))"
    unfolding DIV_RAXEqR_def Let_def x_def [symmetric] v_def [symmetric] by (simp add: split_beta)
  show ?thesis unfolding e Let_def D [symmetric] v_def [symmetric] using DIV_128 [of v x] by (cases "v = 0") (simp_all add: uint_0_iff)
qed

lemma IDIV_ALEbR_sim:
  "IDIV_ALEbR i c = (let D = sint (AX c); d = sint (rd8 i (i_src i) c) in
     if d = 0 \<or> \<not> fits_signed 8 (D sdiv d) then Inl BX_DE_EXCEPTION
     else Inr (set_AH (word_of_int (D smod d)) (set_AL (word_of_int (D sdiv d)) c)))"
proof -
  define x y where "x = (AX c)" and "y = rd8 i (i_src i) c"
  have D: "sint x = sint (AX c)" unfolding x_def by (simp only: pair_values)
  have bound: "\<bar>sint y\<bar> \<le> 2 ^ (8 - 1)" using sint_range [of y] unfolding len_mul(1-4) by linarith
  have early: "y = 0 \<or> \<not> fits_signed 8 (sint x sdiv sint y)" if "sint x = - (2 ^ 15)"
    using min_int_quotient [OF _ bound] that by (cases "y = 0") (simp_all add: sint_0_iff)
  note lim = idiv_limbs [OF len_le(1), of x y, unfolded len_mul(1-4)]
  show ?thesis
    unfolding IDIV_ALEbR_def Let_def GET64_pair masked_low x_def [symmetric] y_def [symmetric] D [symmetric] min_checks lim(1) sint_0_iff
    using early lim(2) by auto
qed

lemma IDIV_AXEwR_sim:
  "IDIV_AXEwR i c = (let D = sint (DX c) * 2 ^ 16 + uint (AX c); d = sint (BX_READ_16BIT_REG (i_src i) c) in
     if d = 0 \<or> \<not> fits_signed 16 (D sdiv d) then Inl BX_DE_EXCEPTION
     else Inr (set_DX (word_of_int (D smod d)) (set_AX (word_of_int (D sdiv d)) c)))"
proof -
  define x y where "x = (push_bit 16 (ucast (DX c)) OR ucast (AX c) :: u32)" and "y = BX_READ_16BIT_REG (i_src i) c"
  have D: "sint x = sint (DX c) * 2 ^ 16 + uint (AX c)" unfolding x_def by (simp only: pair_values)
  have bound: "\<bar>sint y\<bar> \<le> 2 ^ (16 - 1)" using sint_range [of y] unfolding len_mul(1-4) by linarith
  have early: "y = 0 \<or> \<not> fits_signed 16 (sint x sdiv sint y)" if "sint x = - (2 ^ 31)"
    using min_int_quotient [OF _ bound] that by (cases "y = 0") (simp_all add: sint_0_iff)
  note lim = idiv_limbs [OF len_le(2), of x y, unfolded len_mul(1-4)]
  show ?thesis
    unfolding IDIV_AXEwR_def Let_def GET64_pair masked_low x_def [symmetric] y_def [symmetric] D [symmetric] min_checks lim(1) sint_0_iff
    using early lim(2) by auto
qed

lemma IDIV_EAXEdR_sim:
  "IDIV_EAXEdR i c = (let D = sint (EDX c) * 2 ^ 32 + uint (EAX c); d = sint (BX_READ_32BIT_REG (i_src i) c) in
     if d = 0 \<or> \<not> fits_signed 32 (D sdiv d) then Inl BX_DE_EXCEPTION
     else Inr (set_RDX (ucast (word_of_int (D smod d) :: u32)) (set_RAX (ucast (word_of_int (D sdiv d) :: u32)) c)))"
proof -
  define x y where "x = (push_bit 32 (ucast (EDX c)) OR ucast (EAX c) :: u64)" and "y = BX_READ_32BIT_REG (i_src i) c"
  have D: "sint x = sint (EDX c) * 2 ^ 32 + uint (EAX c)" unfolding x_def by (simp only: pair_values)
  have bound: "\<bar>sint y\<bar> \<le> 2 ^ (32 - 1)" using sint_range [of y] unfolding len_mul(1-4) by linarith
  have early: "y = 0 \<or> \<not> fits_signed 32 (sint x sdiv sint y)" if "sint x = - (2 ^ 63)"
    using min_int_quotient [OF _ bound] that by (cases "y = 0") (simp_all add: sint_0_iff)
  note lim = idiv_limbs [OF len_le(3), of x y, unfolded len_mul(1-4)]
  show ?thesis
    unfolding IDIV_EAXEdR_def Let_def GET64_pair masked_low x_def [symmetric] y_def [symmetric] D [symmetric] min_checks lim(1) sint_0_iff
    using early lim(2) by auto
qed

lemma min_check_128: "hi x = 0x8000000000000000 \<and> lo x = 0 \<longleftrightarrow> s128 x = - (2 ^ 127)"
proof -
  have *: "h * 2 ^ 64 + l = - (2 ^ 127) \<longleftrightarrow> h = - (2 ^ 63) \<and> l = 0" if "0 \<le> l" "l < 2 ^ 64" for h l :: int
  proof
    assume e: "h * 2 ^ 64 + l = - (2 ^ 127)"
    then have "h = - (2 ^ 63)" using that by simp
    then show "h = - (2 ^ 63) \<and> l = 0" using e by simp
  qed simp
  show ?thesis unfolding min_checks s128_def * [OF uint_u64] uint_0_iff ..
qed

text \<open>The two-sided test on the quotient of IDIV is the sign check.\<close>

lemma sign_test:
  "(lo q AND 0x8000000000000000 = 0 \<and> hi q \<noteq> 0) \<or> (lo q AND 0x8000000000000000 \<noteq> 0 \<and> hi q \<noteq> 0xffffffffffffffff)
     \<longleftrightarrow> \<not> fits_signed 64 (s128 q)"
proof -
  have m1: "(0xffffffffffffffff :: u64) = - 1" by simp
  have t: "drop_bit 63 (lo q) = (if lo q AND 0x8000000000000000 = 0 then 0 else 1)"
  proof -
    have b: "lo q AND 0x8000000000000000 \<noteq> 0 \<longleftrightarrow> bit (lo q) 63" using and_top_bit(3) [of "lo q"] by (simp add: sint_neg_iff)
    show ?thesis
    proof (rule bit_word_eqI)
      fix n show "bit (drop_bit 63 (lo q)) n = bit (if lo q AND 0x8000000000000000 = 0 then 0 else 1 :: u64) n"
        using bit_imp_le_length [of "lo q" "63 + n"] b by (cases "n = 0") (auto simp: bit_drop_bit_eq bit_1_iff)
    qed
  qed
  show ?thesis unfolding sign_repeated [symmetric] t m1 by (auto simp: add_eq_0_iff2)
qed

lemma IDIV_128:
  assumes v: "v \<noteq> 0"
  shows "s128 x = - (2 ^ 127) \<Longrightarrow> \<not> fits_signed 64 (s128 x sdiv sint v)"
    and "s128 x \<noteq> - (2 ^ 127) \<Longrightarrow> s128 (fst (long_idiv x v)) = s128 x sdiv sint v
      \<and> lo (fst (long_idiv x v)) = word_of_int (s128 x sdiv sint v)
      \<and> snd (long_idiv x v) = word_of_int (s128 x smod sint v)"
proof -
  have v0: "sint v \<noteq> 0" using v by (simp add: sint_0_iff)
  show "s128 x = - (2 ^ 127) \<Longrightarrow> \<not> fits_signed 64 (s128 x sdiv sint v)"
    using min_int_quotient [OF v0, of 64] sint_bounds [of v] by simp
  assume "s128 x \<noteq> - (2 ^ 127)"
  note ex = long_idiv_exact [OF v this]
  show "s128 (fst (long_idiv x v)) = s128 x sdiv sint v
      \<and> lo (fst (long_idiv x v)) = word_of_int (s128 x sdiv sint v)
      \<and> snd (long_idiv x v) = word_of_int (s128 x smod sint v)"
    using limbs_of_128(2) [of "fst (long_idiv x v)"] ex by (metis word_sint_round)
qed

lemma IDIV_RAXEqR_sim:
  "IDIV_RAXEqR i c = (let D = sint (RDX c) * 2 ^ 64 + uint (RAX c); d = sint (BX_READ_64BIT_REG (i_src i) c) in
     if d = 0 \<or> \<not> fits_signed 64 (D sdiv d) then Inl BX_DE_EXCEPTION
     else Inr (set_RDX (word_of_int (D smod d)) (set_RAX (word_of_int (D sdiv d)) c)))"
proof -
  define x v where "x = \<lparr>lo = RAX c, hi = RDX c\<rparr>" and "v = BX_READ_64BIT_REG (i_src i) c"
  have D: "s128 x = sint (RDX c) * 2 ^ 64 + uint (RAX c)" by (simp add: x_def s128_def)
  have m: "hi x = 0x8000000000000000 \<and> lo x = 0 \<longleftrightarrow> s128 x = - (2 ^ 127)" by (rule min_check_128)
  have e: "IDIV_RAXEqR i c = (if s128 x = - (2 ^ 127) \<or> v = 0 \<or> \<not> fits_signed 64 (s128 (fst (long_idiv x v))) then Inl BX_DE_EXCEPTION
      else Inr (set_RDX (snd (long_idiv x v)) (set_RAX (lo (fst (long_idiv x v))) c)))"
    unfolding IDIV_RAXEqR_def Let_def x_def [symmetric] v_def [symmetric] m sign_test by (simp add: split_beta)
  show ?thesis unfolding e Let_def D [symmetric] v_def [symmetric] using IDIV_128 [of v x]
    by (cases "v = 0"; cases "s128 x = - (2 ^ 127)") (simp_all only: sint_0_iff if_True if_False simp_thms)
qed

section \<open>Properties\<close>

text \<open>Every MUL writes the exact product of the unsigned accumulator and source across its destination registers and sets CF and OF exactly when the product does not fit in the low half.\<close>

theorem mul_correct:
  "(cpu_abs (MUL_ALEbR i c) = (let p = uint (AL c) * uint (rd8 i (i_src i) c) in
     \<lparr>ar_reg = gen_reg (set_AX (word_of_int p) c), ar_flags = mul_flags (2 ^ 8 \<le> p) (word_of_int p :: u8)\<rparr>)) \<and>
   (cpu_abs (MUL_AXEwR i c) = (let p = uint (AX c) * uint (BX_READ_16BIT_REG (i_src i) c) in
     \<lparr>ar_reg = gen_reg (set_DX (word_of_int (p div 2 ^ 16)) (set_AX (word_of_int p) c)), ar_flags = mul_flags (2 ^ 16 \<le> p) (word_of_int p :: u16)\<rparr>)) \<and>
   (cpu_abs (MUL_EAXEdR i c) = (let p = uint (EAX c) * uint (BX_READ_32BIT_REG (i_src i) c) in
     \<lparr>ar_reg = gen_reg (set_RDX (ucast (word_of_int (p div 2 ^ 32) :: u32)) (set_RAX (ucast (word_of_int p :: u32)) c)), ar_flags = mul_flags (2 ^ 32 \<le> p) (word_of_int p :: u32)\<rparr>)) \<and>
   (cpu_abs (MUL_RAXEqR i c) = (let p = uint (RAX c) * uint (BX_READ_64BIT_REG (i_src i) c) in
     \<lparr>ar_reg = gen_reg (set_RDX (word_of_int (p div 2 ^ 64)) (set_RAX (word_of_int p) c)), ar_flags = mul_flags (2 ^ 64 \<le> p) (word_of_int p :: u64)\<rparr>))"
  by (intro conjI; rule MUL_ALEbR_sim MUL_AXEwR_sim MUL_EAXEdR_sim MUL_RAXEqR_sim)

text \<open>Every IMUL, in its one, two and three-operand forms, writes the signed product (its low half in the forms with one destination) and sets CF and OF exactly when the product is not the sign extension of its low half.\<close>

theorem imul_correct:
  "(cpu_abs (IMUL_ALEbR i c) = (let p = sint (AL c) * sint (rd8 i (i_src i) c) in
     \<lparr>ar_reg = gen_reg (set_AX (word_of_int p) c), ar_flags = mul_flags (\<not> fits_signed 8 p) (word_of_int p :: u8)\<rparr>)) \<and>
   (cpu_abs (IMUL_AXEwR i c) = (let p = sint (AX c) * sint (BX_READ_16BIT_REG (i_src i) c) in
     \<lparr>ar_reg = gen_reg (set_DX (word_of_int (p div 2 ^ 16)) (set_AX (word_of_int p) c)), ar_flags = mul_flags (\<not> fits_signed 16 p) (word_of_int p :: u16)\<rparr>)) \<and>
   (cpu_abs (IMUL_EAXEdR i c) = (let p = sint (EAX c) * sint (BX_READ_32BIT_REG (i_src i) c) in
     \<lparr>ar_reg = gen_reg (set_RDX (ucast (word_of_int (p div 2 ^ 32) :: u32)) (set_RAX (ucast (word_of_int p :: u32)) c)), ar_flags = mul_flags (\<not> fits_signed 32 p) (word_of_int p :: u32)\<rparr>)) \<and>
   (cpu_abs (IMUL_RAXEqR i c) = (let p = sint (RAX c) * sint (BX_READ_64BIT_REG (i_src i) c) in
     \<lparr>ar_reg = gen_reg (set_RDX (word_of_int (p div 2 ^ 64)) (set_RAX (word_of_int p) c)), ar_flags = mul_flags (\<not> fits_signed 64 p) (word_of_int p :: u64)\<rparr>)) \<and>
   (cpu_abs (IMUL_GwEwIwR i c) = (let p = sint (BX_READ_16BIT_REG (i_src i) c) * sint (i_Iw i) in
     \<lparr>ar_reg = gen_reg (BX_WRITE_16BIT_REG (i_dst i) (word_of_int p) c),
      ar_flags = mul_flags (\<not> fits_signed 16 p) (word_of_int p :: u16)\<rparr>)) \<and>
   (cpu_abs (IMUL_GwEwR i c) = (let p = sint (BX_READ_16BIT_REG (i_dst i) c) * sint (BX_READ_16BIT_REG (i_src i) c) in
     \<lparr>ar_reg = gen_reg (BX_WRITE_16BIT_REG (i_dst i) (word_of_int p) c),
      ar_flags = mul_flags (\<not> fits_signed 16 p) (word_of_int p :: u16)\<rparr>)) \<and>
   (cpu_abs (IMUL_GdEdIdR i c) = (let p = sint (BX_READ_32BIT_REG (i_src i) c) * sint (i_Id i) in
     \<lparr>ar_reg = gen_reg (BX_WRITE_32BIT_REGZ (i_dst i) (word_of_int p) c),
      ar_flags = mul_flags (\<not> fits_signed 32 p) (word_of_int p :: u32)\<rparr>)) \<and>
   (cpu_abs (IMUL_GdEdR i c) = (let p = sint (BX_READ_32BIT_REG (i_dst i) c) * sint (BX_READ_32BIT_REG (i_src i) c) in
     \<lparr>ar_reg = gen_reg (BX_WRITE_32BIT_REGZ (i_dst i) (word_of_int p) c),
      ar_flags = mul_flags (\<not> fits_signed 32 p) (word_of_int p :: u32)\<rparr>)) \<and>
   (cpu_abs (IMUL_GqEqIdR i c) = (let p = sint (BX_READ_64BIT_REG (i_src i) c) * sint (scast (i_Id i) :: u64) in
     \<lparr>ar_reg = gen_reg (BX_WRITE_64BIT_REG (i_dst i) (word_of_int p) c),
      ar_flags = mul_flags (\<not> fits_signed 64 p) (word_of_int p :: u64)\<rparr>)) \<and>
   (cpu_abs (IMUL_GqEqR i c) = (let p = sint (BX_READ_64BIT_REG (i_dst i) c) * sint (BX_READ_64BIT_REG (i_src i) c) in
     \<lparr>ar_reg = gen_reg (BX_WRITE_64BIT_REG (i_dst i) (word_of_int p) c),
      ar_flags = mul_flags (\<not> fits_signed 64 p) (word_of_int p :: u64)\<rparr>))"
  by (intro conjI; rule IMUL_ALEbR_sim IMUL_AXEwR_sim IMUL_EAXEdR_sim IMUL_RAXEqR_sim IMUL_GwEwIwR_sim IMUL_GwEwR_sim IMUL_GdEdIdR_sim IMUL_GdEdR_sim IMUL_GqEqIdR_sim IMUL_GqEqR_sim)

text \<open>C6: Every DIV raises the divide error exactly when the divisor is zero or the quotient does not fit, and otherwise writes the quotient and the remainder of the unsigned division.\<close>

theorem div_correct:
  "(DIV_ALEbR i c = (let D = uint (AX c); d = uint (rd8 i (i_src i) c) in
     if d = 0 \<or> 2 ^ 8 \<le> D div d then Inl BX_DE_EXCEPTION
     else Inr (set_AH (word_of_int (D mod d)) (set_AL (word_of_int (D div d)) c)))) \<and>
   (DIV_AXEwR i c = (let D = uint (DX c) * 2 ^ 16 + uint (AX c); d = uint (BX_READ_16BIT_REG (i_src i) c) in
     if d = 0 \<or> 2 ^ 16 \<le> D div d then Inl BX_DE_EXCEPTION
     else Inr (set_DX (word_of_int (D mod d)) (set_AX (word_of_int (D div d)) c)))) \<and>
   (DIV_EAXEdR i c = (let D = uint (EDX c) * 2 ^ 32 + uint (EAX c); d = uint (BX_READ_32BIT_REG (i_src i) c) in
     if d = 0 \<or> 2 ^ 32 \<le> D div d then Inl BX_DE_EXCEPTION
     else Inr (set_RDX (ucast (word_of_int (D mod d) :: u32)) (set_RAX (ucast (word_of_int (D div d) :: u32)) c)))) \<and>
   (DIV_RAXEqR i c = (let D = uint (RDX c) * 2 ^ 64 + uint (RAX c); d = uint (BX_READ_64BIT_REG (i_src i) c) in
     if d = 0 \<or> 2 ^ 64 \<le> D div d then Inl BX_DE_EXCEPTION
     else Inr (set_RDX (word_of_int (D mod d)) (set_RAX (word_of_int (D div d)) c))))"
  by (intro conjI; rule DIV_ALEbR_sim DIV_AXEwR_sim DIV_EAXEdR_sim DIV_RAXEqR_sim)

text \<open>C7: Every IDIV raises the divide error exactly when the divisor is zero or the quotient is out of range, and otherwise writes the quotient truncated towards zero and the remainder with the sign of the dividend.\<close>

theorem idiv_correct:
  "(IDIV_ALEbR i c = (let D = sint (AX c); d = sint (rd8 i (i_src i) c) in
     if d \<noteq> 0 \<and> fits_signed 8 (D sdiv d) then Inr (set_AH (word_of_int (D smod d)) (set_AL (word_of_int (D sdiv d)) c))
     else Inl BX_DE_EXCEPTION)) \<and>
   (IDIV_AXEwR i c = (let D = sint (DX c) * 2 ^ 16 + uint (AX c); d = sint (BX_READ_16BIT_REG (i_src i) c) in
     if d \<noteq> 0 \<and> fits_signed 16 (D sdiv d) then Inr (set_DX (word_of_int (D smod d)) (set_AX (word_of_int (D sdiv d)) c))
     else Inl BX_DE_EXCEPTION)) \<and>
   (IDIV_EAXEdR i c = (let D = sint (EDX c) * 2 ^ 32 + uint (EAX c); d = sint (BX_READ_32BIT_REG (i_src i) c) in
     if d \<noteq> 0 \<and> fits_signed 32 (D sdiv d) then Inr (set_RDX (ucast (word_of_int (D smod d) :: u32)) (set_RAX (ucast (word_of_int (D sdiv d) :: u32)) c))
     else Inl BX_DE_EXCEPTION)) \<and>
   (IDIV_RAXEqR i c = (let D = sint (RDX c) * 2 ^ 64 + uint (RAX c); d = sint (BX_READ_64BIT_REG (i_src i) c) in
     if d \<noteq> 0 \<and> fits_signed 64 (D sdiv d) then Inr (set_RDX (word_of_int (D smod d)) (set_RAX (word_of_int (D sdiv d)) c))
     else Inl BX_DE_EXCEPTION))"
  by (intro conjI; simp only: IDIV_ALEbR_sim IDIV_AXEwR_sim IDIV_EAXEdR_sim IDIV_RAXEqR_sim Let_def de_Morgan_conj [symmetric] if_not_P) (simp_all)

end
