(* ===== verification/Bcd.thy ===== *)
theory Bcd
  imports Mult
begin

text \<open>
  The decimal adjustments of cpu/bcd.cc: AAA, AAS, AAM, AAD, DAA and DAS. The theorems state what
  they are for: DAA after the addition of two packed decimal bytes, DAS after their subtraction, AAA
  and AAS on unpacked digits, and the division and multiplication by the base that AAM and AAD do.
\<close>

section \<open>The handlers\<close>

definition AAA :: "bx_cpu \<Rightarrow> bx_cpu" where
  "AAA c =
     (let (c, tmpCF, tmpAF) =
            (if AL c AND 0x0f > 9 \<or> get_AF (oszapc c) \<noteq> 0
             then (set_AX (AX c + 0x106) c, True, True) else (c, False, False));
          c = set_AL (AL c AND 0x0f) c;
          c = upd_lf (SET_FLAGS_OSZAPC_LOGIC 8 (ucast (AL c) :: u32)) c;
          c = upd_lf (set_CF tmpCF) c
      in upd_lf (set_AF tmpAF) c)"

definition AAS :: "bx_cpu \<Rightarrow> bx_cpu" where
  "AAS c =
     (let (c, tmpCF, tmpAF) =
            (if AL c AND 0x0F > 0x09 \<or> get_AF (oszapc c) \<noteq> 0
             then (set_AX (AX c - 0x106) c, True, True) else (c, False, False));
          c = set_AL (AL c AND 0x0f) c;
          c = upd_lf (SET_FLAGS_OSZAPC_LOGIC 8 (ucast (AL c) :: u32)) c;
          c = upd_lf (set_CF tmpCF) c
      in upd_lf (set_AF tmpAF) c)"

definition AAM :: "bxInstruction \<Rightarrow> bx_cpu \<Rightarrow> bx_exception + bx_cpu" where
  "AAM i c =
     (let imm8 = i_Ib i
      in if imm8 = 0 then Inl BX_DE_EXCEPTION
         else let al = AL c;
                  c = set_AH (al div imm8) c;
                  c = set_AL (al mod imm8) c
              in Inr (upd_lf (SET_FLAGS_OSZAPC_LOGIC 8 (ucast (AL c) :: u32)) c))"

definition AAD :: "bxInstruction \<Rightarrow> bx_cpu \<Rightarrow> bx_cpu" where
  "AAD i c =
     (let tmp = ucast (AH c) :: u16;
          tmp = tmp * ucast (i_Ib i);
          tmp = tmp + ucast (AL c);
          c = set_AX (tmp AND 0xff) c
      in upd_lf (SET_FLAGS_OSZAPC_LOGIC 8 (ucast (AL c) :: u32)) c)"

definition DAA :: "bx_cpu \<Rightarrow> bx_cpu" where
  "DAA c =
     (let tmpAL = AL c;
          (c, tmpCF, tmpAF) =
            (if tmpAL AND 0x0F > 0x09 \<or> get_AF (oszapc c) \<noteq> 0
             then (set_AL (AL c + 0x06) c, AL c > 0xF9 \<or> get_CF (oszapc c) \<noteq> 0, True)
             else (c, False, False));
          (c, tmpCF) =
            (if tmpAL > 0x99 \<or> get_CF (oszapc c) \<noteq> 0 then (set_AL (AL c + 0x60) c, True)
             else (c, tmpCF));
          c = upd_lf (SET_FLAGS_OSZAPC_LOGIC 8 (ucast (AL c) :: u32)) c;
          c = upd_lf (set_CF tmpCF) c
      in upd_lf (set_AF tmpAF) c)"

definition DAS :: "bx_cpu \<Rightarrow> bx_cpu" where
  "DAS c =
     (let tmpAL = AL c;
          (c, tmpCF, tmpAF) =
            (if tmpAL AND 0x0F > 0x09 \<or> get_AF (oszapc c) \<noteq> 0
             then (set_AL (AL c - 0x06) c, AL c < 0x06 \<or> get_CF (oszapc c) \<noteq> 0, True)
             else (c, False, False));
          (c, tmpCF) =
            (if tmpAL > 0x99 \<or> get_CF (oszapc c) \<noteq> 0 then (set_AL (AL c - 0x60) c, True)
             else (c, tmpCF));
          c = upd_lf (SET_FLAGS_OSZAPC_LOGIC 8 (ucast (AL c) :: u32)) c;
          c = upd_lf (set_CF tmpCF) c
      in upd_lf (set_AF tmpAF) c)"

section \<open>The accumulator and the flags the handlers leave\<close>

lemma acc_simps [simp]:
  "AL (set_AL v c) = v" "AH (set_AL v c) = AH c" "AL (set_AH v c) = AL c" "AH (set_AH v c) = v"
  "AL (upd_lf f c) = AL c" "AH (upd_lf f c) = AH c" "AX (upd_lf f c) = AX c"
  "oszapc (set_AL v c) = oszapc c" "oszapc (set_AX w c) = oszapc c"
  "oszapc (set_AH v c) = oszapc c" "AX (set_AX w c) = w" "oszapc (upd_lf f c) = f (oszapc c)"
  by (simp_all add: AL_def AH_def AX_def set_AL_def set_AH_def set_AX_def upd_lf_def)

lemma AL_AH_set_AX [simp]: "AL (set_AX w c) = ucast w" "AH (set_AX w c) = ucast (drop_bit 8 w)"
  by (rule bit_word_eqI; auto simp: AL_def AH_def set_AX_def bit_reg_parts bit_unsigned_iff bit_drop_bit_eq)+

lemma low_nibble: "uint ((v :: u8) AND 15) = uint v mod 16"
proof -
  have "v AND 15 = take_bit 4 v" by (simp add: take_bit_eq_mask mask_eq_exp_minus_1)
  then have "uint (v AND 15) = take_bit 4 (uint v)" by (simp only: unsigned_take_bit_eq)
  then show ?thesis by (simp add: take_bit_eq_mod)
qed

lemma u8_less: "(w :: u8) < v \<longleftrightarrow> uint w < uint v" by (rule word_less_def)

lemma uint_u8_add: "uint ((x :: u8) + y) = (uint x + uint y) mod 256"
  and uint_u8_sub: "uint ((x :: u8) - y) = (uint x - uint y) mod 256"
  by (simp_all add: uint_word_ariths)

lemma u8_range: "0 \<le> uint (x :: u8)" "uint (x :: u8) < 256"
  using uint_lt2p [of x] by simp_all

section \<open>DAA and DAS on numbers\<close>

definition da_lo :: "bx_cpu \<Rightarrow> bool" where
  "da_lo c \<longleftrightarrow> 9 < uint (AL c) mod 16 \<or> fl_AF (lf_abs (oszapc c))"

definition da_hi :: "bx_cpu \<Rightarrow> bool" where
  "da_hi c \<longleftrightarrow> 0x99 < uint (AL c) \<or> fl_CF (lf_abs (oszapc c))"

lemma DAA_view:
  "uint (AL (DAA c)) = (uint (AL c) + (if da_lo c then 6 else 0) + (if da_hi c then 0x60 else 0)) mod 256"
  "fl_CF (lf_abs (oszapc (DAA c))) = da_hi c" "fl_AF (lf_abs (oszapc (DAA c))) = da_lo c"
  using u8_range [of "AL c"]
  by (auto simp: DAA_def Let_def set_CF_abs set_AF_abs u8_less low_nibble get_flag_zero da_lo_def da_hi_def
      uint_u8_add mod_simps split: if_splits)

lemma DAS_view:
  "uint (AL (DAS c)) = (uint (AL c) - (if da_lo c then 6 else 0) - (if da_hi c then 0x60 else 0)) mod 256"
  "fl_CF (lf_abs (oszapc (DAS c))) \<longleftrightarrow> da_hi c \<or> da_lo c \<and> uint (AL c) < 6" "fl_AF (lf_abs (oszapc (DAS c))) = da_lo c"
  using u8_range [of "AL c"]
  by (auto simp: DAS_def Let_def set_CF_abs set_AF_abs u8_less low_nibble get_flag_zero da_lo_def da_hi_def
      uint_u8_sub mod_simps split: if_splits)

subsection \<open>Packed decimal bytes\<close>

definition bcd_ok :: "int \<Rightarrow> bool" where
  "bcd_ok v \<longleftrightarrow> v div 16 \<le> 9 \<and> v mod 16 \<le> 9"

definition bcd_value :: "int \<Rightarrow> int" where
  "bcd_value v = 10 * (v div 16) + v mod 16"

definition daa_result :: "int \<Rightarrow> int \<Rightarrow> int" where
  "daa_result h l = (let v = (16 * h + l) mod 256
     in (v + (if 9 < v mod 16 \<or> 16 \<le> l then 6 else 0) + (if 0x99 < v \<or> 256 \<le> 16 * h + l then 0x60 else 0)) mod 256)"

definition daa_ok :: "int \<Rightarrow> int \<Rightarrow> bool" where
  "daa_ok h l \<longleftrightarrow> (let v = (16 * h + l) mod 256; r = daa_result h l
     in bcd_ok r \<and> bcd_value r + 100 * of_bool (0x99 < v \<or> 256 \<le> 16 * h + l) = 10 * h + l)"

lemma daa_all: "\<forall>h\<in>set [0..18]. \<forall>l\<in>set [0..19]. daa_ok h l"
  by code_simp


definition das_ok :: "int \<Rightarrow> int \<Rightarrow> bool" where
  "das_ok h l \<longleftrightarrow> (let v = (16 * h + l) mod 256; lo = (9 < v mod 16 \<or> l < 0);
       hi = (0x99 < v \<or> 16 * h + l < 0); r = (v - (if lo then 6 else 0) - (if hi then 0x60 else 0)) mod 256
     in bcd_ok r \<and> bcd_value r - 100 * of_bool (hi \<or> lo \<and> v < 6) = 10 * h + l)"

lemma das_all: "\<forall>h\<in>set [-9..9]. \<forall>l\<in>set [-10..9]. das_ok h l"
  by code_simp

lemma bcd_digits:
  assumes "bcd_ok (uint (x :: u8))"
  obtains h l where "uint x = 16 * h + l" "0 \<le> h" "h \<le> 9" "0 \<le> l" "l \<le> 9" "uint x mod 16 = l"
    "bcd_value (uint x) = 10 * h + l"
proof (rule that [of "uint x div 16" "uint x mod 16"])
qed (use assms in \<open>auto simp: bcd_ok_def bcd_value_def pos_imp_zdiv_nonneg_iff\<close>)

lemma DAA_after_add:
  assumes x: "bcd_ok (uint x)" and y: "bcd_ok (uint y)"
    and al: "AL c = x + y + of_bool b" and fl: "lf_abs (oszapc c) = arch_add x y b"
  shows "bcd_ok (uint (AL (DAA c)))"
    "bcd_value (uint (AL (DAA c))) + 100 * of_bool (fl_CF (lf_abs (oszapc (DAA c)))) =
       bcd_value (uint x) + bcd_value (uint y) + of_bool b"
proof -
  obtain xh xl where X: "uint x = 16 * xh + xl" "0 \<le> xh" "xh \<le> 9" "0 \<le> xl" "xl \<le> 9" "uint x mod 16 = xl"
    "bcd_value (uint x) = 10 * xh + xl" by (rule bcd_digits [OF x])
  obtain yh yl where Y: "uint y = 16 * yh + yl" "0 \<le> yh" "yh \<le> 9" "0 \<le> yl" "yl \<le> 9" "uint y mod 16 = yl"
    "bcd_value (uint y) = 10 * yh + yl" by (rule bcd_digits [OF y])
  define h l where hl: "h = xh + yh" "l = xl + yl + of_bool b"
  have s: "uint x + uint y + of_bool b = 16 * h + l" using X Y by (simp add: hl)
  have v: "uint (AL c) = (16 * h + l) mod 256"
    unfolding al s [symmetric] by (cases b) (simp_all add: uint_u8_add mod_simps)
  have lo: "da_lo c \<longleftrightarrow> 9 < (16 * h + l) mod 256 mod 16 \<or> 16 \<le> l"
    using X(6) Y(6) by (simp add: da_lo_def v fl arch_add_def hl)
  have hi: "da_hi c \<longleftrightarrow> 0x99 < (16 * h + l) mod 256 \<or> 256 \<le> 16 * h + l"
    using s by (simp add: da_hi_def v fl arch_add_def)
  have r: "uint (AL (DAA c)) = daa_result h l" unfolding DAA_view(1) lo hi v daa_result_def Let_def by (rule refl)
  have "h \<in> set [0..18]" "l \<in> set [0..19]" using X Y by (simp_all add: hl)
  then have "daa_ok h l" using daa_all by blast
  then show "bcd_ok (uint (AL (DAA c)))"
    "bcd_value (uint (AL (DAA c))) + 100 * of_bool (fl_CF (lf_abs (oszapc (DAA c)))) =
       bcd_value (uint x) + bcd_value (uint y) + of_bool b"
    unfolding r DAA_view(2) hi daa_ok_def Let_def X(7) Y(7) by (simp_all add: hl)
qed

lemma DAS_after_sub:
  assumes x: "bcd_ok (uint x)" and y: "bcd_ok (uint y)"
    and al: "AL c = x - y - of_bool b" and fl: "lf_abs (oszapc c) = arch_sub x y b"
  shows "bcd_ok (uint (AL (DAS c)))"
    "bcd_value (uint (AL (DAS c))) - 100 * of_bool (fl_CF (lf_abs (oszapc (DAS c)))) =
       bcd_value (uint x) - bcd_value (uint y) - of_bool b"
proof -
  obtain xh xl where X: "uint x = 16 * xh + xl" "0 \<le> xh" "xh \<le> 9" "0 \<le> xl" "xl \<le> 9" "uint x mod 16 = xl"
    "bcd_value (uint x) = 10 * xh + xl" by (rule bcd_digits [OF x])
  obtain yh yl where Y: "uint y = 16 * yh + yl" "0 \<le> yh" "yh \<le> 9" "0 \<le> yl" "yl \<le> 9" "uint y mod 16 = yl"
    "bcd_value (uint y) = 10 * yh + yl" by (rule bcd_digits [OF y])
  define h l where hl: "h = xh - yh" "l = xl - yl - of_bool b"
  have s: "uint x - uint y - of_bool b = 16 * h + l" using X Y by (simp add: hl)
  have v: "uint (AL c) = (16 * h + l) mod 256"
    unfolding al s [symmetric] by (cases b) (simp_all add: uint_u8_sub mod_simps)
  have bb: "0 \<le> (of_bool b :: int)" "(of_bool b :: int) \<le> 1" by simp_all
  have "fl_AF (arch_sub x y b) \<longleftrightarrow> l < 0" unfolding arch_sub_def arch_flags.simps X(6) Y(6) hl by linarith
  then have lo: "da_lo c \<longleftrightarrow> 9 < (16 * h + l) mod 256 mod 16 \<or> l < 0" by (simp only: da_lo_def v fl)
  have "fl_CF (arch_sub x y b) \<longleftrightarrow> 16 * h + l < 0"
    unfolding arch_sub_def arch_flags.simps s [symmetric] by linarith
  then have hi: "da_hi c \<longleftrightarrow> 0x99 < (16 * h + l) mod 256 \<or> 16 * h + l < 0" by (simp only: da_hi_def v fl)
  have "h \<in> set [-9..9]" "l \<in> set [-10..9]" unfolding set_upto atLeastAtMost_iff hl using X Y bb by linarith+
  then have "das_ok h l" using das_all by blast
  note D = this [unfolded das_ok_def Let_def]
  have e: "10 * h + l = 10 * xh + xl - (10 * yh + yl) - of_bool b" by (simp add: hl)
  show "bcd_ok (uint (AL (DAS c)))" unfolding DAS_view v lo hi by (rule conjunct1 [OF D])
  show "bcd_value (uint (AL (DAS c))) - 100 * of_bool (fl_CF (lf_abs (oszapc (DAS c)))) =
       bcd_value (uint x) - bcd_value (uint y) - of_bool b"
    unfolding DAS_view v lo hi X(7) Y(7) e [symmetric] by (rule conjunct2 [OF D])
qed


section \<open>AAA, AAS, AAM and AAD\<close>

lemma AX_limbs: "uint (AX c) = uint (AH c) * 2 ^ 8 + uint (AL c)"
proof -
  have "AX c = push_bit LENGTH(8) (ucast (AH c)) OR ucast (AL c)"
    by (rule bit_word_eqI) (auto simp: AX_def AH_def AL_def bit_reg_parts bit_or_iff bit_push_bit_iff bit_unsigned_iff)
  then show ?thesis using pair_value(1) [where 'a = 8 and 'b = 16, of "AH c" "AL c"] by simp
qed

lemma AX_halves:
  "uint (ucast (w :: u16) :: u8) = uint w mod 256" "uint (ucast (drop_bit 8 w) :: u8) = uint w div 256 mod 256"
  by (simp_all add: unsigned_ucast_eq take_bit_eq_mod uint_div_distrib drop_bit_eq_div)

lemma AX_shift:
  "uint (AL (set_AX (AX c + k) c')) = (uint (AL c) + uint k) mod 256"
  "uint (AH (set_AX (AX c + k) c')) = (uint (AH c) + (uint (AL c) + uint k) div 256) mod 256"
  "uint (AL (set_AX (AX c - k) c')) = (uint (AL c) - uint k) mod 256"
  "uint (AH (set_AX (AX c - k) c')) = (uint (AH c) + (uint (AL c) - uint k) div 256) mod 256"
proof -
  have m: "m mod 65536 mod 256 = m mod 256" "m mod 65536 div 256 mod 256 = m div 256 mod 256" for m :: int
    using zmod_zmult2_eq [of 256 m 256] by (simp_all add: mod_mod_cancel)
  have "uint (AX c + k) = (uint (AH c) * 256 + (uint (AL c) + uint k)) mod 65536"
    "uint (AX c - k) = (uint (AH c) * 256 + (uint (AL c) - uint k)) mod 65536"
    by (simp_all add: uint_word_ariths AX_limbs algebra_simps)
  then show "uint (AL (set_AX (AX c + k) c')) = (uint (AL c) + uint k) mod 256"
    "uint (AH (set_AX (AX c + k) c')) = (uint (AH c) + (uint (AL c) + uint k) div 256) mod 256"
    "uint (AL (set_AX (AX c - k) c')) = (uint (AL c) - uint k) mod 256"
    "uint (AH (set_AX (AX c - k) c')) = (uint (AH c) + (uint (AL c) - uint k) div 256) mod 256"
    unfolding AL_AH_set_AX AX_halves(2) unfolding AX_halves(1) by (simp_all only: m) simp_all
qed

lemma ascii_adjust_cond: "AL c AND 15 > 9 \<or> get_AF (oszapc c) \<noteq> 0 \<longleftrightarrow> da_lo c"
  by (simp add: da_lo_def u8_less low_nibble get_flag_zero)

lemma AAA_view:
  "uint (AL (AAA c)) = (uint (AL c) + (if da_lo c then 6 else 0)) mod 16"
  "uint (AH (AAA c)) = (uint (AH c) + (if da_lo c then (uint (AL c) + 0x106) div 256 else 0)) mod 256"
  "fl_CF (lf_abs (oszapc (AAA c))) = da_lo c" "fl_AF (lf_abs (oszapc (AAA c))) = da_lo c"
proof -
  have m: "(a + 262) mod 256 mod 16 = (a + 6) mod 16" for a :: int
    using mod_mult_self1 [of "a + 6" 16 16] by (simp add: mod_mod_cancel add.commute)
  show "uint (AL (AAA c)) = (uint (AL c) + (if da_lo c then 6 else 0)) mod 16"
    "uint (AH (AAA c)) = (uint (AH c) + (if da_lo c then (uint (AL c) + 0x106) div 256 else 0)) mod 256"
    "fl_CF (lf_abs (oszapc (AAA c))) = da_lo c" "fl_AF (lf_abs (oszapc (AAA c))) = da_lo c"
    using u8_range [of "AH c"]
    by (simp_all add: AAA_def Let_def ascii_adjust_cond set_CF_abs set_AF_abs low_nibble AX_shift m
        del: AL_AH_set_AX)
qed

lemma AAS_view:
  "uint (AL (AAS c)) = (uint (AL c) - (if da_lo c then 6 else 0)) mod 16"
  "uint (AH (AAS c)) = (uint (AH c) + (if da_lo c then (uint (AL c) - 0x106) div 256 else 0)) mod 256"
  "fl_CF (lf_abs (oszapc (AAS c))) = da_lo c" "fl_AF (lf_abs (oszapc (AAS c))) = da_lo c"
proof -
  have m: "(a - 262) mod 256 mod 16 = (a - 6) mod 16" for a :: int
    using mod_mult_self1 [of "a - 262" 16 16] by (simp add: mod_mod_cancel)
  show "uint (AL (AAS c)) = (uint (AL c) - (if da_lo c then 6 else 0)) mod 16"
    "uint (AH (AAS c)) = (uint (AH c) + (if da_lo c then (uint (AL c) - 0x106) div 256 else 0)) mod 256"
    "fl_CF (lf_abs (oszapc (AAS c))) = da_lo c" "fl_AF (lf_abs (oszapc (AAS c))) = da_lo c"
    using u8_range [of "AH c"]
    by (simp_all add: AAS_def Let_def ascii_adjust_cond set_CF_abs set_AF_abs low_nibble AX_shift m
        del: AL_AH_set_AX)
qed

lemma aaa_all: "\<forall>s\<in>set [0..19]. (s + (if 10 \<le> s then 6 else 0)) mod 16 = s mod (10 :: int) \<and>
    (9 < s mod 16 \<or> 16 \<le> s \<longleftrightarrow> 10 \<le> s) \<and> (if 10 \<le> s then (s + 0x106) div 256 else 0) = s div 10"
  by code_simp

lemma aas_all: "\<forall>s\<in>set [-10..9]. (s mod 256 - (if s < 0 then 6 else 0)) mod 16 = s mod (10 :: int) \<and>
    (9 < s mod 256 mod 16 \<or> s < 0 \<longleftrightarrow> s < 0) \<and> (if s < 0 then (s mod 256 - 0x106) div 256 else 0) = s div 10"
  by code_simp

lemma AAA_after_add:
  assumes x: "uint x \<le> 9" and y: "uint y \<le> 9"
    and al: "AL c = x + y + of_bool b" and fl: "lf_abs (oszapc c) = arch_add x y b"
  defines "s \<equiv> uint x + uint y + of_bool b"
  shows "uint (AL (AAA c)) = s mod 10" "uint (AH (AAA c)) = (uint (AH c) + s div 10) mod 256"
    "fl_CF (lf_abs (oszapc (AAA c))) \<longleftrightarrow> 10 \<le> s"
proof -
  have s: "0 \<le> s" "s \<le> 19" using x y u8_range(1) [of x] u8_range(1) [of y] by (simp_all add: s_def)
  have v: "uint (AL c) = s"
    using s unfolding al s_def by (cases b) (simp_all add: uint_u8_add mod_simps)
  have "uint x mod 16 = uint x" "uint y mod 16 = uint y"
    using x y u8_range(1) [of x] u8_range(1) [of y] by simp_all
  then have af: "fl_AF (arch_add x y b) \<longleftrightarrow> 16 \<le> s" by (simp add: arch_add_def s_def)
  have "s \<in> set [0..19]" unfolding set_upto using s by simp
  note A = bspec [OF aaa_all this]
  from A have lo: "da_lo c \<longleftrightarrow> 10 \<le> s" by (simp only: da_lo_def v fl af)
  show "fl_CF (lf_abs (oszapc (AAA c))) \<longleftrightarrow> 10 \<le> s" by (simp only: AAA_view lo)
  show "uint (AL (AAA c)) = s mod 10" unfolding AAA_view lo v using A by blast
  show "uint (AH (AAA c)) = (uint (AH c) + s div 10) mod 256" unfolding AAA_view lo v using A by simp
qed

lemma AAS_after_sub:
  assumes x: "uint x \<le> 9" and y: "uint y \<le> 9"
    and al: "AL c = x - y - of_bool b" and fl: "lf_abs (oszapc c) = arch_sub x y b"
  defines "s \<equiv> uint x - uint y - of_bool b"
  shows "uint (AL (AAS c)) = s mod 10" "uint (AH (AAS c)) = (uint (AH c) + s div 10) mod 256"
    "fl_CF (lf_abs (oszapc (AAS c))) \<longleftrightarrow> s < 0"
proof -
  have "0 \<le> (of_bool b :: int)" "(of_bool b :: int) \<le> 1" by simp_all
  then have s: "- 10 \<le> s" "s \<le> 9"
    using x y u8_range(1) [of x] u8_range(1) [of y] unfolding s_def by linarith+
  have v: "uint (AL c) = s mod 256"
    unfolding al s_def by (cases b) (simp_all add: uint_u8_sub mod_simps)
  have "uint x mod 16 = uint x" "uint y mod 16 = uint y"
    using x y u8_range(1) [of x] u8_range(1) [of y] by simp_all
  then have af: "fl_AF (arch_sub x y b) \<longleftrightarrow> s < 0"
    unfolding arch_sub_def arch_flags.simps s_def by (simp only:) linarith
  have "s \<in> set [-10..9]" unfolding set_upto using s by simp
  note A = bspec [OF aas_all this]
  from A have lo: "da_lo c \<longleftrightarrow> s < 0" by (simp only: da_lo_def v fl af)
  show "fl_CF (lf_abs (oszapc (AAS c))) \<longleftrightarrow> s < 0" by (simp only: AAS_view lo)
  show "uint (AL (AAS c)) = s mod 10" unfolding AAS_view lo v using A by blast
  show "uint (AH (AAS c)) = (uint (AH c) + s div 10) mod 256" unfolding AAS_view lo v using A by simp
qed

lemma AAM_result:
  assumes "i_Ib i \<noteq> 0"
  shows "\<exists>c'. AAM i c = Inr c' \<and> AH c' = AL c div i_Ib i \<and> AL c' = AL c mod i_Ib i"
  using assms by (simp add: AAM_def Let_def)

lemma AAD_view: "uint (AL (AAD i c)) = (uint (AH c) * uint (i_Ib i) + uint (AL c)) mod 256" "AH (AAD i c) = 0"
proof -
  have f: "(w AND 255 :: u16) = take_bit 8 w" for w by (simp add: take_bit_eq_mask mask_eq_exp_minus_1)
  have "uint (ucast (AH c) :: u16) = uint (AH c)" for c by (simp add: uint_ucast_up)
  show "AH (AAD i c) = 0"
    by (simp add: AAD_def Let_def f) (rule bit_word_eqI, simp add: bit_unsigned_iff bit_drop_bit_eq bit_take_bit_iff)
  have a: "(ucast (take_bit 8 w :: u16) :: u8) = ucast w" for w
    by (rule bit_word_eqI) (simp add: bit_unsigned_iff bit_take_bit_iff)
  have "uint (ucast (w :: u16) :: u8) = uint w mod 256" for w by (simp add: AX_halves)
  show "uint (AL (AAD i c)) = (uint (AH c) * uint (i_Ib i) + uint (AL c)) mod 256"
    by (simp add: AAD_def Let_def f a AX_halves uint_word_ariths uint_ucast_up mod_simps mod_mod_cancel)
qed


section \<open>Properties\<close>

lemma al_as_byte_register: "rd8 i 0 c = AL c" "wr8 i 0 v c = set_AL v c"
  by (simp_all add: BX_READ_8BIT_REGx_def BX_WRITE_8BIT_REGx_def AL_def set_AL_def)

lemma AL_cpu_abs: "AL c = rl (ar_reg (cpu_abs c) 0)" "AH c = rh (ar_reg (cpu_abs c) 0)"
  and flags_cpu_abs: "lf_abs (oszapc c) = ar_flags (cpu_abs c)"
  by (simp_all add: AL_def AH_def cpu_abs_def)

lemma ar_reg_views:
  "rl (gen_reg (set_AL v c) 0) = v" "rh (gen_reg (set_AL v c) 0) = AH c"
  by (simp_all add: set_AL_def AH_def)

text \<open>What ADC and SBB of an immediate byte leave in the accumulator.\<close>

lemma ADC_AL_result:
  assumes "i_dst i = 0"
  shows "AL (ADC_EbIbR i c) = AL c + i_Ib i + of_bool (carry c)" "AH (ADC_EbIbR i c) = AH c"
    "lf_abs (oszapc (ADC_EbIbR i c)) = arch_add (AL c) (i_Ib i) (carry c)"
  unfolding AL_cpu_abs(1) [of "ADC_EbIbR i c"] AL_cpu_abs(2) [of "ADC_EbIbR i c"]
    flags_cpu_abs [of "ADC_EbIbR i c"] ADD_8_sim arch_ADD_def assms al_as_byte_register
  by (simp_all add: ar_reg_views)

lemma SBB_AL_result:
  assumes "i_dst i = 0"
  shows "AL (SBB_EbIbR i c) = AL c - i_Ib i - of_bool (carry c)" "AH (SBB_EbIbR i c) = AH c"
    "lf_abs (oszapc (SBB_EbIbR i c)) = arch_sub (AL c) (i_Ib i) (carry c)"
  unfolding AL_cpu_abs(1) [of "SBB_EbIbR i c"] AL_cpu_abs(2) [of "SBB_EbIbR i c"]
    flags_cpu_abs [of "SBB_EbIbR i c"] SUB_8_sim arch_SUB_def assms al_as_byte_register
  by (simp_all add: ar_reg_views diff_diff_eq)

definition decimal_cpu :: "u16 \<Rightarrow> bx_cpu" where
  "decimal_cpu w = set_AX w \<lparr>gen_reg = \<lambda>_. 0, eflags = 2, oszapc = \<lparr>lf_result = 1, lf_auxbits = 0\<rparr>\<rparr>"

definition ib_instruction :: "u8 \<Rightarrow> bxInstruction" where
  "ib_instruction v = \<lparr>i_dst = 0, i_src = 0, i_extend8bitL = False, i_Ib = v, i_Iw = 0, i_Id = 0\<rparr>"

lemma decimal_cpu_simps:
  "AL (decimal_cpu w) = ucast w" "carry (decimal_cpu w) = False" "i_Ib (ib_instruction v) = v"
  "i_dst (ib_instruction v) = 0" "AH (decimal_cpu w) = ucast (drop_bit 8 w)"
  by (simp_all add: decimal_cpu_def ib_instruction_def lf_abs_bits)

text \<open>C35: Adding packed decimal bytes.  ADC of an immediate byte to AL followed by DAA leaves, when both operands are valid packed decimal numbers, a valid packed decimal number in AL that together with CF as the hundreds digit is the decimal sum of the operands and the incoming carry.\<close>

theorem daa_after_adc:
  assumes "i_dst i = 0" and "bcd_ok (uint (AL c))" and "bcd_ok (uint (i_Ib i))"
  defines "r \<equiv> DAA (ADC_EbIbR i c)"
  shows "bcd_ok (uint (AL r)) \<and> bcd_value (uint (AL r)) + 100 * of_bool (carry r) =
           bcd_value (uint (AL c)) + bcd_value (uint (i_Ib i)) + of_bool (carry c)"
  unfolding r_def using DAA_after_add [OF assms(2,3) ADC_AL_result(1,3) [OF assms(1)]] by simp

theorem daa_after_adc_witness:
  "let r = DAA (ADC_EbIbR (ib_instruction 0x58) (decimal_cpu 0x67))
   in bcd_value (uint (AL r)) + 100 * of_bool (carry r) = 125"
  using daa_after_adc [of "ib_instruction 0x58" "decimal_cpu 0x67"]
  by (simp add: decimal_cpu_simps bcd_ok_def bcd_value_def Let_def)

text \<open>Subtracting packed decimal bytes.  SBB of an immediate byte from AL followed by DAS leaves, when both operands are valid packed decimal numbers, a valid packed decimal number in AL that is the decimal difference of the operands and the incoming borrow, CF being the borrow of one hundred.\<close>

theorem das_after_sbb:
  assumes "i_dst i = 0" and "bcd_ok (uint (AL c))" and "bcd_ok (uint (i_Ib i))"
  defines "r \<equiv> DAS (SBB_EbIbR i c)"
  shows "bcd_ok (uint (AL r)) \<and> bcd_value (uint (AL r)) - 100 * of_bool (carry r) =
           bcd_value (uint (AL c)) - bcd_value (uint (i_Ib i)) - of_bool (carry c)"
  unfolding r_def using DAS_after_sub [OF assms(2,3) SBB_AL_result(1,3) [OF assms(1)]] by simp

theorem das_after_sbb_witness:
  "let r = DAS (SBB_EbIbR (ib_instruction 0x58) (decimal_cpu 0x47))
   in bcd_value (uint (AL r)) - 100 * of_bool (carry r) = - 11"
  using das_after_sbb [of "ib_instruction 0x58" "decimal_cpu 0x47"]
  by (simp add: decimal_cpu_simps bcd_ok_def bcd_value_def Let_def)

text \<open>Unpacked decimal digits.  After ADC of a digit to a digit in AL, AAA leaves the units of the sum in AL, adds its tens to AH and sets CF when there are tens; after SBB, AAS leaves the units of the difference, subtracts the borrowed ten from AH and sets CF when it borrowed.\<close>

theorem aaa_aas_digits:
  assumes "i_dst i = 0" and "uint (AL c) \<le> 9" and "uint (i_Ib i) \<le> 9"
  defines "s \<equiv> uint (AL c) + uint (i_Ib i) + of_bool (carry c)"
    and "d \<equiv> uint (AL c) - uint (i_Ib i) - of_bool (carry c)"
  shows "(let r = AAA (ADC_EbIbR i c) in uint (AL r) = s mod 10 \<and> uint (AH r) = (uint (AH c) + s div 10) mod 256
            \<and> (carry r \<longleftrightarrow> 10 \<le> s)) \<and>
         (let r = AAS (SBB_EbIbR i c) in uint (AL r) = d mod 10 \<and> uint (AH r) = (uint (AH c) + d div 10) mod 256
            \<and> (carry r \<longleftrightarrow> d < 0))"
  using AAA_after_add [OF assms(2,3) ADC_AL_result(1,3) [OF assms(1)]]
    AAS_after_sub [OF assms(2,3) SBB_AL_result(1,3) [OF assms(1)]]
  unfolding Let_def s_def d_def ADC_AL_result(2) [OF assms(1)] SBB_AL_result(2) [OF assms(1)] by blast

theorem aaa_aas_digits_witness:
  "uint (AL (AAA (ADC_EbIbR (ib_instruction 8) (decimal_cpu 0x0207)))) = 5
   \<and> uint (AH (AAA (ADC_EbIbR (ib_instruction 8) (decimal_cpu 0x0207)))) = 3
   \<and> uint (AH (AAS (SBB_EbIbR (ib_instruction 8) (decimal_cpu 0x0207)))) = 1"
  using aaa_aas_digits [of "ib_instruction 8" "decimal_cpu 0x0207"]
  by (simp add: decimal_cpu_simps Let_def)

text \<open>AAM raises the divide error exactly for base zero and otherwise splits AL into quotient (AH) and remainder (AL) by the base; AAD with the same base puts AL back together and clears AH.\<close>

theorem aam_aad_roundtrip:
  "case AAM i c of Inl e \<Rightarrow> e = BX_DE_EXCEPTION \<and> i_Ib i = 0
   | Inr c' \<Rightarrow> i_Ib i \<noteq> 0 \<and> AH c' = AL c div i_Ib i \<and> AL c' = AL c mod i_Ib i
       \<and> AL (AAD i c') = AL c \<and> AH (AAD i c') = 0"
proof (cases "i_Ib i = 0")
  case False
  then obtain c' where c': "AAM i c = Inr c'" "AH c' = AL c div i_Ib i" "AL c' = AL c mod i_Ib i"
    using AAM_result [of i c] by blast
  have "uint (AL (AAD i c')) = uint (AL c)"
    using u8_range [of "AL c"] by (simp add: AAD_view c' uint_div_distrib uint_mod_distrib)
  then have "AL (AAD i c') = AL c" by (simp add: word_uint_eq_iff)
  then show ?thesis using False by (simp add: c' AAD_view(2))
qed (simp add: AAM_def)

end
