(* ===== verification/Logic.thy ===== *)
theory Logic
  imports Arith
begin

text \<open>
  The bitwise instructions of cpu/logical8.cc, logical16.cc, logical32.cc and logical64.cc:
  the register and immediate forms of AND, OR, XOR, TEST and NOT at the four operand sizes and
  the zero idioms. Each handler is proved to implement \<open>arch_LOGIC\<close>, \<open>arch_TEST\<close> or
  \<open>arch_NOT\<close>: the destination receives the bitwise result, CF and OF are cleared, SF, ZF
  and PF describe the result, and NOT touches no flag. The memory forms (suffix M) are not part
  of this theory.
\<close>

section \<open>8-bit handlers (cpu/logical8.cc)\<close>

definition XOR_GbEbR :: "bxInstruction \<Rightarrow> bx_cpu \<Rightarrow> bx_cpu" where
  "XOR_GbEbR i c =
     (let op1 = BX_READ_8BIT_REGx (i_dst i) (i_extend8bitL i) c;
          op2 = BX_READ_8BIT_REGx (i_src i) (i_extend8bitL i) c;
          op1 = op1 XOR op2;
          c = BX_WRITE_8BIT_REGx (i_dst i) (i_extend8bitL i) op1 c
      in upd_lf (SET_FLAGS_OSZAPC_LOGIC 8 (ucast op1 :: u32)) c)"

definition OR_GbEbR :: "bxInstruction \<Rightarrow> bx_cpu \<Rightarrow> bx_cpu" where
  "OR_GbEbR i c =
     (let op1 = BX_READ_8BIT_REGx (i_dst i) (i_extend8bitL i) c;
          op2 = BX_READ_8BIT_REGx (i_src i) (i_extend8bitL i) c;
          op1 = op1 OR op2;
          c = BX_WRITE_8BIT_REGx (i_dst i) (i_extend8bitL i) op1 c
      in upd_lf (SET_FLAGS_OSZAPC_LOGIC 8 (ucast op1 :: u32)) c)"

definition AND_GbEbR :: "bxInstruction \<Rightarrow> bx_cpu \<Rightarrow> bx_cpu" where
  "AND_GbEbR i c =
     (let op1 = BX_READ_8BIT_REGx (i_dst i) (i_extend8bitL i) c;
          op2 = BX_READ_8BIT_REGx (i_src i) (i_extend8bitL i) c;
          op1 = op1 AND op2;
          c = BX_WRITE_8BIT_REGx (i_dst i) (i_extend8bitL i) op1 c
      in upd_lf (SET_FLAGS_OSZAPC_LOGIC 8 (ucast op1 :: u32)) c)"

definition TEST_EbGbR :: "bxInstruction \<Rightarrow> bx_cpu \<Rightarrow> bx_cpu" where
  "TEST_EbGbR i c =
     (let op1 = BX_READ_8BIT_REGx (i_dst i) (i_extend8bitL i) c;
          op2 = BX_READ_8BIT_REGx (i_src i) (i_extend8bitL i) c;
          op1 = op1 AND op2
      in upd_lf (SET_FLAGS_OSZAPC_LOGIC 8 (ucast op1 :: u32)) c)"

definition XOR_EbIbR :: "bxInstruction \<Rightarrow> bx_cpu \<Rightarrow> bx_cpu" where
  "XOR_EbIbR i c =
     (let op2 = i_Ib i;
          op1 = BX_READ_8BIT_REGx (i_dst i) (i_extend8bitL i) c;
          op1 = op1 XOR op2;
          c = BX_WRITE_8BIT_REGx (i_dst i) (i_extend8bitL i) op1 c
      in upd_lf (SET_FLAGS_OSZAPC_LOGIC 8 (ucast op1 :: u32)) c)"

definition OR_EbIbR :: "bxInstruction \<Rightarrow> bx_cpu \<Rightarrow> bx_cpu" where
  "OR_EbIbR i c =
     (let op2 = i_Ib i;
          op1 = BX_READ_8BIT_REGx (i_dst i) (i_extend8bitL i) c;
          op1 = op1 OR op2;
          c = BX_WRITE_8BIT_REGx (i_dst i) (i_extend8bitL i) op1 c
      in upd_lf (SET_FLAGS_OSZAPC_LOGIC 8 (ucast op1 :: u32)) c)"

definition AND_EbIbR :: "bxInstruction \<Rightarrow> bx_cpu \<Rightarrow> bx_cpu" where
  "AND_EbIbR i c =
     (let op2 = i_Ib i;
          op1 = BX_READ_8BIT_REGx (i_dst i) (i_extend8bitL i) c;
          op1 = op1 AND op2;
          c = BX_WRITE_8BIT_REGx (i_dst i) (i_extend8bitL i) op1 c
      in upd_lf (SET_FLAGS_OSZAPC_LOGIC 8 (ucast op1 :: u32)) c)"

definition TEST_EbIbR :: "bxInstruction \<Rightarrow> bx_cpu \<Rightarrow> bx_cpu" where
  "TEST_EbIbR i c =
     (let op1 = BX_READ_8BIT_REGx (i_dst i) (i_extend8bitL i) c;
          op1 = op1 AND i_Ib i
      in upd_lf (SET_FLAGS_OSZAPC_LOGIC 8 (ucast op1 :: u32)) c)"

definition NOT_EbR :: "bxInstruction \<Rightarrow> bx_cpu \<Rightarrow> bx_cpu" where
  "NOT_EbR i c =
     (let op1_8 = BX_READ_8BIT_REGx (i_dst i) (i_extend8bitL i) c;
          op1_8 = NOT op1_8
      in BX_WRITE_8BIT_REGx (i_dst i) (i_extend8bitL i) op1_8 c)"

section \<open>16-bit handlers (cpu/logical16.cc)\<close>

definition ZERO_IDIOM_GwR :: "bxInstruction \<Rightarrow> bx_cpu \<Rightarrow> bx_cpu" where
  "ZERO_IDIOM_GwR i c =
     (let c = BX_WRITE_16BIT_REG (i_dst i) 0 c
      in upd_lf (SET_FLAGS_OSZAPC_LOGIC 16 (0 :: u32)) c)"

definition XOR_GwEwR :: "bxInstruction \<Rightarrow> bx_cpu \<Rightarrow> bx_cpu" where
  "XOR_GwEwR i c =
     (let op1_16 = BX_READ_16BIT_REG (i_dst i) c;
          op2_16 = BX_READ_16BIT_REG (i_src i) c;
          op1_16 = op1_16 XOR op2_16;
          c = BX_WRITE_16BIT_REG (i_dst i) op1_16 c
      in upd_lf (SET_FLAGS_OSZAPC_LOGIC 16 (ucast op1_16 :: u32)) c)"

definition OR_GwEwR :: "bxInstruction \<Rightarrow> bx_cpu \<Rightarrow> bx_cpu" where
  "OR_GwEwR i c =
     (let op1_16 = BX_READ_16BIT_REG (i_dst i) c;
          op2_16 = BX_READ_16BIT_REG (i_src i) c;
          op1_16 = op1_16 OR op2_16;
          c = BX_WRITE_16BIT_REG (i_dst i) op1_16 c
      in upd_lf (SET_FLAGS_OSZAPC_LOGIC 16 (ucast op1_16 :: u32)) c)"

definition AND_GwEwR :: "bxInstruction \<Rightarrow> bx_cpu \<Rightarrow> bx_cpu" where
  "AND_GwEwR i c =
     (let op1_16 = BX_READ_16BIT_REG (i_dst i) c;
          op2_16 = BX_READ_16BIT_REG (i_src i) c;
          op1_16 = op1_16 AND op2_16;
          c = BX_WRITE_16BIT_REG (i_dst i) op1_16 c
      in upd_lf (SET_FLAGS_OSZAPC_LOGIC 16 (ucast op1_16 :: u32)) c)"

definition TEST_EwGwR :: "bxInstruction \<Rightarrow> bx_cpu \<Rightarrow> bx_cpu" where
  "TEST_EwGwR i c =
     (let op1_16 = BX_READ_16BIT_REG (i_dst i) c;
          op2_16 = BX_READ_16BIT_REG (i_src i) c;
          op1_16 = op1_16 AND op2_16
      in upd_lf (SET_FLAGS_OSZAPC_LOGIC 16 (ucast op1_16 :: u32)) c)"

definition XOR_EwIwR :: "bxInstruction \<Rightarrow> bx_cpu \<Rightarrow> bx_cpu" where
  "XOR_EwIwR i c =
     (let op1_16 = BX_READ_16BIT_REG (i_dst i) c;
          op1_16 = op1_16 XOR i_Iw i;
          c = BX_WRITE_16BIT_REG (i_dst i) op1_16 c
      in upd_lf (SET_FLAGS_OSZAPC_LOGIC 16 (ucast op1_16 :: u32)) c)"

definition OR_EwIwR :: "bxInstruction \<Rightarrow> bx_cpu \<Rightarrow> bx_cpu" where
  "OR_EwIwR i c =
     (let op1_16 = BX_READ_16BIT_REG (i_dst i) c;
          op1_16 = op1_16 OR i_Iw i;
          c = BX_WRITE_16BIT_REG (i_dst i) op1_16 c
      in upd_lf (SET_FLAGS_OSZAPC_LOGIC 16 (ucast op1_16 :: u32)) c)"

definition AND_EwIwR :: "bxInstruction \<Rightarrow> bx_cpu \<Rightarrow> bx_cpu" where
  "AND_EwIwR i c =
     (let op1_16 = BX_READ_16BIT_REG (i_dst i) c;
          op1_16 = op1_16 AND i_Iw i;
          c = BX_WRITE_16BIT_REG (i_dst i) op1_16 c
      in upd_lf (SET_FLAGS_OSZAPC_LOGIC 16 (ucast op1_16 :: u32)) c)"

definition TEST_EwIwR :: "bxInstruction \<Rightarrow> bx_cpu \<Rightarrow> bx_cpu" where
  "TEST_EwIwR i c =
     (let op1_16 = BX_READ_16BIT_REG (i_dst i) c;
          op1_16 = op1_16 AND i_Iw i
      in upd_lf (SET_FLAGS_OSZAPC_LOGIC 16 (ucast op1_16 :: u32)) c)"

definition NOT_EwR :: "bxInstruction \<Rightarrow> bx_cpu \<Rightarrow> bx_cpu" where
  "NOT_EwR i c =
     (let op1_16 = BX_READ_16BIT_REG (i_dst i) c;
          op1_16 = NOT op1_16
      in BX_WRITE_16BIT_REG (i_dst i) op1_16 c)"

section \<open>32-bit handlers (cpu/logical32.cc)\<close>

definition ZERO_IDIOM_GdR :: "bxInstruction \<Rightarrow> bx_cpu \<Rightarrow> bx_cpu" where
  "ZERO_IDIOM_GdR i c =
     (let c = BX_WRITE_32BIT_REGZ (i_dst i) 0 c
      in upd_lf (SET_FLAGS_OSZAPC_LOGIC 32 (0 :: u32)) c)"

definition XOR_GdEdR :: "bxInstruction \<Rightarrow> bx_cpu \<Rightarrow> bx_cpu" where
  "XOR_GdEdR i c =
     (let op1_32 = BX_READ_32BIT_REG (i_dst i) c;
          op2_32 = BX_READ_32BIT_REG (i_src i) c;
          op1_32 = op1_32 XOR op2_32;
          c = BX_WRITE_32BIT_REGZ (i_dst i) op1_32 c
      in upd_lf (SET_FLAGS_OSZAPC_LOGIC 32 op1_32) c)"

definition OR_GdEdR :: "bxInstruction \<Rightarrow> bx_cpu \<Rightarrow> bx_cpu" where
  "OR_GdEdR i c =
     (let op1_32 = BX_READ_32BIT_REG (i_dst i) c;
          op2_32 = BX_READ_32BIT_REG (i_src i) c;
          op1_32 = op1_32 OR op2_32;
          c = BX_WRITE_32BIT_REGZ (i_dst i) op1_32 c
      in upd_lf (SET_FLAGS_OSZAPC_LOGIC 32 op1_32) c)"

definition AND_GdEdR :: "bxInstruction \<Rightarrow> bx_cpu \<Rightarrow> bx_cpu" where
  "AND_GdEdR i c =
     (let op1_32 = BX_READ_32BIT_REG (i_dst i) c;
          op2_32 = BX_READ_32BIT_REG (i_src i) c;
          op1_32 = op1_32 AND op2_32;
          c = BX_WRITE_32BIT_REGZ (i_dst i) op1_32 c
      in upd_lf (SET_FLAGS_OSZAPC_LOGIC 32 op1_32) c)"

definition TEST_EdGdR :: "bxInstruction \<Rightarrow> bx_cpu \<Rightarrow> bx_cpu" where
  "TEST_EdGdR i c =
     (let op1_32 = BX_READ_32BIT_REG (i_dst i) c;
          op2_32 = BX_READ_32BIT_REG (i_src i) c;
          op1_32 = op1_32 AND op2_32
      in upd_lf (SET_FLAGS_OSZAPC_LOGIC 32 op1_32) c)"

definition XOR_EdIdR :: "bxInstruction \<Rightarrow> bx_cpu \<Rightarrow> bx_cpu" where
  "XOR_EdIdR i c =
     (let op1_32 = BX_READ_32BIT_REG (i_dst i) c;
          op1_32 = op1_32 XOR i_Id i;
          c = BX_WRITE_32BIT_REGZ (i_dst i) op1_32 c
      in upd_lf (SET_FLAGS_OSZAPC_LOGIC 32 op1_32) c)"

definition OR_EdIdR :: "bxInstruction \<Rightarrow> bx_cpu \<Rightarrow> bx_cpu" where
  "OR_EdIdR i c =
     (let op1_32 = BX_READ_32BIT_REG (i_dst i) c;
          op1_32 = op1_32 OR i_Id i;
          c = BX_WRITE_32BIT_REGZ (i_dst i) op1_32 c
      in upd_lf (SET_FLAGS_OSZAPC_LOGIC 32 op1_32) c)"

definition AND_EdIdR :: "bxInstruction \<Rightarrow> bx_cpu \<Rightarrow> bx_cpu" where
  "AND_EdIdR i c =
     (let op1_32 = BX_READ_32BIT_REG (i_dst i) c;
          op1_32 = op1_32 AND i_Id i;
          c = BX_WRITE_32BIT_REGZ (i_dst i) op1_32 c
      in upd_lf (SET_FLAGS_OSZAPC_LOGIC 32 op1_32) c)"

definition TEST_EdIdR :: "bxInstruction \<Rightarrow> bx_cpu \<Rightarrow> bx_cpu" where
  "TEST_EdIdR i c =
     (let op1_32 = BX_READ_32BIT_REG (i_dst i) c;
          op1_32 = op1_32 AND i_Id i
      in upd_lf (SET_FLAGS_OSZAPC_LOGIC 32 op1_32) c)"

definition NOT_EdR :: "bxInstruction \<Rightarrow> bx_cpu \<Rightarrow> bx_cpu" where
  "NOT_EdR i c =
     (let op1_32 = BX_READ_32BIT_REG (i_dst i) c;
          op1_32 = NOT op1_32
      in BX_WRITE_32BIT_REGZ (i_dst i) op1_32 c)"

section \<open>64-bit handlers (cpu/logical64.cc)\<close>

definition XOR_GqEqR :: "bxInstruction \<Rightarrow> bx_cpu \<Rightarrow> bx_cpu" where
  "XOR_GqEqR i c =
     (let op1_64 = BX_READ_64BIT_REG (i_dst i) c;
          op2_64 = BX_READ_64BIT_REG (i_src i) c;
          op1_64 = op1_64 XOR op2_64;
          c = BX_WRITE_64BIT_REG (i_dst i) op1_64 c
      in upd_lf (SET_FLAGS_OSZAPC_LOGIC 64 op1_64) c)"

definition OR_GqEqR :: "bxInstruction \<Rightarrow> bx_cpu \<Rightarrow> bx_cpu" where
  "OR_GqEqR i c =
     (let op1_64 = BX_READ_64BIT_REG (i_dst i) c;
          op2_64 = BX_READ_64BIT_REG (i_src i) c;
          op1_64 = op1_64 OR op2_64;
          c = BX_WRITE_64BIT_REG (i_dst i) op1_64 c
      in upd_lf (SET_FLAGS_OSZAPC_LOGIC 64 op1_64) c)"

definition AND_GqEqR :: "bxInstruction \<Rightarrow> bx_cpu \<Rightarrow> bx_cpu" where
  "AND_GqEqR i c =
     (let op1_64 = BX_READ_64BIT_REG (i_dst i) c;
          op2_64 = BX_READ_64BIT_REG (i_src i) c;
          op1_64 = op1_64 AND op2_64;
          c = BX_WRITE_64BIT_REG (i_dst i) op1_64 c
      in upd_lf (SET_FLAGS_OSZAPC_LOGIC 64 op1_64) c)"

definition TEST_EqGqR :: "bxInstruction \<Rightarrow> bx_cpu \<Rightarrow> bx_cpu" where
  "TEST_EqGqR i c =
     (let op1_64 = BX_READ_64BIT_REG (i_dst i) c;
          op2_64 = BX_READ_64BIT_REG (i_src i) c;
          op1_64 = op1_64 AND op2_64
      in upd_lf (SET_FLAGS_OSZAPC_LOGIC 64 op1_64) c)"

definition XOR_EqIdR :: "bxInstruction \<Rightarrow> bx_cpu \<Rightarrow> bx_cpu" where
  "XOR_EqIdR i c =
     (let op2_64 = scast (i_Id i) :: u64;
          op1_64 = BX_READ_64BIT_REG (i_dst i) c;
          op1_64 = op1_64 XOR op2_64;
          c = BX_WRITE_64BIT_REG (i_dst i) op1_64 c
      in upd_lf (SET_FLAGS_OSZAPC_LOGIC 64 op1_64) c)"

definition OR_EqIdR :: "bxInstruction \<Rightarrow> bx_cpu \<Rightarrow> bx_cpu" where
  "OR_EqIdR i c =
     (let op2_64 = scast (i_Id i) :: u64;
          op1_64 = BX_READ_64BIT_REG (i_dst i) c;
          op1_64 = op1_64 OR op2_64;
          c = BX_WRITE_64BIT_REG (i_dst i) op1_64 c
      in upd_lf (SET_FLAGS_OSZAPC_LOGIC 64 op1_64) c)"

definition AND_EqIdR :: "bxInstruction \<Rightarrow> bx_cpu \<Rightarrow> bx_cpu" where
  "AND_EqIdR i c =
     (let op2_64 = scast (i_Id i) :: u64;
          op1_64 = BX_READ_64BIT_REG (i_dst i) c;
          op1_64 = op1_64 AND op2_64;
          c = BX_WRITE_64BIT_REG (i_dst i) op1_64 c
      in upd_lf (SET_FLAGS_OSZAPC_LOGIC 64 op1_64) c)"

definition TEST_EqIdR :: "bxInstruction \<Rightarrow> bx_cpu \<Rightarrow> bx_cpu" where
  "TEST_EqIdR i c =
     (let op1_64 = BX_READ_64BIT_REG (i_dst i) c;
          op2_64 = scast (i_Id i) :: u64;
          op1_64 = op1_64 AND op2_64
      in upd_lf (SET_FLAGS_OSZAPC_LOGIC 64 op1_64) c)"

definition NOT_EqR :: "bxInstruction \<Rightarrow> bx_cpu \<Rightarrow> bx_cpu" where
  "NOT_EqR i c =
     (let op1_64 = BX_READ_64BIT_REG (i_dst i) c;
          op1_64 = NOT op1_64
      in BX_WRITE_64BIT_REG (i_dst i) op1_64 c)"

section \<open>What the instructions promise\<close>

definition arch_LOGIC where
  "arch_LOGIC wr d v c = \<lparr>ar_reg = gen_reg (wr d v c), ar_flags = arch_logic v\<rparr>"

definition arch_TEST where
  "arch_TEST v c = \<lparr>ar_reg = gen_reg c, ar_flags = arch_logic v\<rparr>"

definition arch_NOT where
  "arch_NOT rd wr d c = \<lparr>ar_reg = gen_reg (wr d (NOT (rd d c)) c), ar_flags = lf_abs (oszapc c)\<rparr>"

section \<open>The handlers implement them\<close>

lemmas logic_flags = SET_FLAGS_sim(5) [where 'a = 8 and 'b = 32, simplified]
  SET_FLAGS_sim(5) [where 'a = 16 and 'b = 32, simplified]
  SET_FLAGS_sim(5) [where 'a = 32 and 'b = 32, simplified]
  SET_FLAGS_sim(5) [where 'a = 64 and 'b = 64, simplified]
  SET_FLAGS_sim(5) [where 'a = 8 and 'b = 32 and x = 0, simplified]
  SET_FLAGS_sim(5) [where 'a = 16 and 'b = 32 and x = 0, simplified]

lemmas logic_handler_simps = arch_LOGIC_def arch_TEST_def arch_NOT_def cpu_abs_def Let_def reg_laws
  logic_flags

lemma LOGIC_8_sim:
  "cpu_abs (XOR_GbEbR i c) = arch_LOGIC (wr8 i) (i_dst i) (rd8 i (i_dst i) c XOR rd8 i (i_src i) c) c"
  "cpu_abs (OR_GbEbR i c) = arch_LOGIC (wr8 i) (i_dst i) (rd8 i (i_dst i) c OR rd8 i (i_src i) c) c"
  "cpu_abs (AND_GbEbR i c) = arch_LOGIC (wr8 i) (i_dst i) (rd8 i (i_dst i) c AND rd8 i (i_src i) c) c"
  "cpu_abs (TEST_EbGbR i c) = arch_TEST (rd8 i (i_dst i) c AND rd8 i (i_src i) c) c"
  "cpu_abs (XOR_EbIbR i c) = arch_LOGIC (wr8 i) (i_dst i) (rd8 i (i_dst i) c XOR i_Ib i) c"
  "cpu_abs (OR_EbIbR i c) = arch_LOGIC (wr8 i) (i_dst i) (rd8 i (i_dst i) c OR i_Ib i) c"
  "cpu_abs (AND_EbIbR i c) = arch_LOGIC (wr8 i) (i_dst i) (rd8 i (i_dst i) c AND i_Ib i) c"
  "cpu_abs (TEST_EbIbR i c) = arch_TEST (rd8 i (i_dst i) c AND i_Ib i) c"
  "cpu_abs (NOT_EbR i c) = arch_NOT (rd8 i) (wr8 i) (i_dst i) c"
by (simp_all add: XOR_GbEbR_def OR_GbEbR_def AND_GbEbR_def TEST_EbGbR_def XOR_EbIbR_def OR_EbIbR_def
      AND_EbIbR_def TEST_EbIbR_def NOT_EbR_def
      logic_handler_simps)

lemma LOGIC_16_sim:
  "cpu_abs (ZERO_IDIOM_GwR i c) = arch_LOGIC BX_WRITE_16BIT_REG (i_dst i) 0 c"
  "cpu_abs (XOR_GwEwR i c) = arch_LOGIC BX_WRITE_16BIT_REG (i_dst i) (BX_READ_16BIT_REG (i_dst i) c XOR BX_READ_16BIT_REG (i_src i) c) c"
  "cpu_abs (OR_GwEwR i c) = arch_LOGIC BX_WRITE_16BIT_REG (i_dst i) (BX_READ_16BIT_REG (i_dst i) c OR BX_READ_16BIT_REG (i_src i) c) c"
  "cpu_abs (AND_GwEwR i c) = arch_LOGIC BX_WRITE_16BIT_REG (i_dst i) (BX_READ_16BIT_REG (i_dst i) c AND BX_READ_16BIT_REG (i_src i) c) c"
  "cpu_abs (TEST_EwGwR i c) = arch_TEST (BX_READ_16BIT_REG (i_dst i) c AND BX_READ_16BIT_REG (i_src i) c) c"
  "cpu_abs (XOR_EwIwR i c) = arch_LOGIC BX_WRITE_16BIT_REG (i_dst i) (BX_READ_16BIT_REG (i_dst i) c XOR i_Iw i) c"
  "cpu_abs (OR_EwIwR i c) = arch_LOGIC BX_WRITE_16BIT_REG (i_dst i) (BX_READ_16BIT_REG (i_dst i) c OR i_Iw i) c"
  "cpu_abs (AND_EwIwR i c) = arch_LOGIC BX_WRITE_16BIT_REG (i_dst i) (BX_READ_16BIT_REG (i_dst i) c AND i_Iw i) c"
  "cpu_abs (TEST_EwIwR i c) = arch_TEST (BX_READ_16BIT_REG (i_dst i) c AND i_Iw i) c"
  "cpu_abs (NOT_EwR i c) = arch_NOT BX_READ_16BIT_REG BX_WRITE_16BIT_REG (i_dst i) c"
by (simp_all add: ZERO_IDIOM_GwR_def XOR_GwEwR_def OR_GwEwR_def AND_GwEwR_def TEST_EwGwR_def
      XOR_EwIwR_def OR_EwIwR_def AND_EwIwR_def TEST_EwIwR_def NOT_EwR_def
      logic_handler_simps)

lemma LOGIC_32_sim:
  "cpu_abs (ZERO_IDIOM_GdR i c) = arch_LOGIC BX_WRITE_32BIT_REGZ (i_dst i) 0 c"
  "cpu_abs (XOR_GdEdR i c) = arch_LOGIC BX_WRITE_32BIT_REGZ (i_dst i) (BX_READ_32BIT_REG (i_dst i) c XOR BX_READ_32BIT_REG (i_src i) c) c"
  "cpu_abs (OR_GdEdR i c) = arch_LOGIC BX_WRITE_32BIT_REGZ (i_dst i) (BX_READ_32BIT_REG (i_dst i) c OR BX_READ_32BIT_REG (i_src i) c) c"
  "cpu_abs (AND_GdEdR i c) = arch_LOGIC BX_WRITE_32BIT_REGZ (i_dst i) (BX_READ_32BIT_REG (i_dst i) c AND BX_READ_32BIT_REG (i_src i) c) c"
  "cpu_abs (TEST_EdGdR i c) = arch_TEST (BX_READ_32BIT_REG (i_dst i) c AND BX_READ_32BIT_REG (i_src i) c) c"
  "cpu_abs (XOR_EdIdR i c) = arch_LOGIC BX_WRITE_32BIT_REGZ (i_dst i) (BX_READ_32BIT_REG (i_dst i) c XOR i_Id i) c"
  "cpu_abs (OR_EdIdR i c) = arch_LOGIC BX_WRITE_32BIT_REGZ (i_dst i) (BX_READ_32BIT_REG (i_dst i) c OR i_Id i) c"
  "cpu_abs (AND_EdIdR i c) = arch_LOGIC BX_WRITE_32BIT_REGZ (i_dst i) (BX_READ_32BIT_REG (i_dst i) c AND i_Id i) c"
  "cpu_abs (TEST_EdIdR i c) = arch_TEST (BX_READ_32BIT_REG (i_dst i) c AND i_Id i) c"
  "cpu_abs (NOT_EdR i c) = arch_NOT BX_READ_32BIT_REG BX_WRITE_32BIT_REGZ (i_dst i) c"
by (simp_all add: ZERO_IDIOM_GdR_def XOR_GdEdR_def OR_GdEdR_def AND_GdEdR_def TEST_EdGdR_def
      XOR_EdIdR_def OR_EdIdR_def AND_EdIdR_def TEST_EdIdR_def NOT_EdR_def
      logic_handler_simps)

lemma LOGIC_64_sim:
  "cpu_abs (XOR_GqEqR i c) = arch_LOGIC BX_WRITE_64BIT_REG (i_dst i) (BX_READ_64BIT_REG (i_dst i) c XOR BX_READ_64BIT_REG (i_src i) c) c"
  "cpu_abs (OR_GqEqR i c) = arch_LOGIC BX_WRITE_64BIT_REG (i_dst i) (BX_READ_64BIT_REG (i_dst i) c OR BX_READ_64BIT_REG (i_src i) c) c"
  "cpu_abs (AND_GqEqR i c) = arch_LOGIC BX_WRITE_64BIT_REG (i_dst i) (BX_READ_64BIT_REG (i_dst i) c AND BX_READ_64BIT_REG (i_src i) c) c"
  "cpu_abs (TEST_EqGqR i c) = arch_TEST (BX_READ_64BIT_REG (i_dst i) c AND BX_READ_64BIT_REG (i_src i) c) c"
  "cpu_abs (XOR_EqIdR i c) = arch_LOGIC BX_WRITE_64BIT_REG (i_dst i) (BX_READ_64BIT_REG (i_dst i) c XOR scast (i_Id i)) c"
  "cpu_abs (OR_EqIdR i c) = arch_LOGIC BX_WRITE_64BIT_REG (i_dst i) (BX_READ_64BIT_REG (i_dst i) c OR scast (i_Id i)) c"
  "cpu_abs (AND_EqIdR i c) = arch_LOGIC BX_WRITE_64BIT_REG (i_dst i) (BX_READ_64BIT_REG (i_dst i) c AND scast (i_Id i)) c"
  "cpu_abs (TEST_EqIdR i c) = arch_TEST (BX_READ_64BIT_REG (i_dst i) c AND scast (i_Id i)) c"
  "cpu_abs (NOT_EqR i c) = arch_NOT BX_READ_64BIT_REG BX_WRITE_64BIT_REG (i_dst i) c"
by (simp_all add: XOR_GqEqR_def OR_GqEqR_def AND_GqEqR_def TEST_EqGqR_def XOR_EqIdR_def OR_EqIdR_def
      AND_EqIdR_def TEST_EqIdR_def NOT_EqR_def
      logic_handler_simps)

section \<open>Properties\<close>

text \<open>The register and immediate forms of AND, OR, XOR, TEST and NOT and the zero idioms implement, at the four operand sizes, the bitwise operations of the instruction set: the destination receives the result (TEST writes none), no other register changes, CF, OF and AF are cleared and SF, ZF and PF describe the result; NOT leaves the flags alone.\<close>

theorem logic_handlers_correct:
  "(cpu_abs (XOR_GbEbR i c) = arch_LOGIC (wr8 i) (i_dst i) (rd8 i (i_dst i) c XOR rd8 i (i_src i) c) c) \<and>
   (cpu_abs (OR_GbEbR i c) = arch_LOGIC (wr8 i) (i_dst i) (rd8 i (i_dst i) c OR rd8 i (i_src i) c) c) \<and>
   (cpu_abs (AND_GbEbR i c) = arch_LOGIC (wr8 i) (i_dst i) (rd8 i (i_dst i) c AND rd8 i (i_src i) c) c) \<and>
   (cpu_abs (TEST_EbGbR i c) = arch_TEST (rd8 i (i_dst i) c AND rd8 i (i_src i) c) c) \<and>
   (cpu_abs (XOR_EbIbR i c) = arch_LOGIC (wr8 i) (i_dst i) (rd8 i (i_dst i) c XOR i_Ib i) c) \<and>
   (cpu_abs (OR_EbIbR i c) = arch_LOGIC (wr8 i) (i_dst i) (rd8 i (i_dst i) c OR i_Ib i) c) \<and>
   (cpu_abs (AND_EbIbR i c) = arch_LOGIC (wr8 i) (i_dst i) (rd8 i (i_dst i) c AND i_Ib i) c) \<and>
   (cpu_abs (TEST_EbIbR i c) = arch_TEST (rd8 i (i_dst i) c AND i_Ib i) c) \<and>
   (cpu_abs (NOT_EbR i c) = arch_NOT (rd8 i) (wr8 i) (i_dst i) c) \<and>
   (cpu_abs (ZERO_IDIOM_GwR i c) = arch_LOGIC BX_WRITE_16BIT_REG (i_dst i) 0 c) \<and>
   (cpu_abs (XOR_GwEwR i c) = arch_LOGIC BX_WRITE_16BIT_REG (i_dst i) (BX_READ_16BIT_REG (i_dst i) c XOR BX_READ_16BIT_REG (i_src i) c) c) \<and>
   (cpu_abs (OR_GwEwR i c) = arch_LOGIC BX_WRITE_16BIT_REG (i_dst i) (BX_READ_16BIT_REG (i_dst i) c OR BX_READ_16BIT_REG (i_src i) c) c) \<and>
   (cpu_abs (AND_GwEwR i c) = arch_LOGIC BX_WRITE_16BIT_REG (i_dst i) (BX_READ_16BIT_REG (i_dst i) c AND BX_READ_16BIT_REG (i_src i) c) c) \<and>
   (cpu_abs (TEST_EwGwR i c) = arch_TEST (BX_READ_16BIT_REG (i_dst i) c AND BX_READ_16BIT_REG (i_src i) c) c) \<and>
   (cpu_abs (XOR_EwIwR i c) = arch_LOGIC BX_WRITE_16BIT_REG (i_dst i) (BX_READ_16BIT_REG (i_dst i) c XOR i_Iw i) c) \<and>
   (cpu_abs (OR_EwIwR i c) = arch_LOGIC BX_WRITE_16BIT_REG (i_dst i) (BX_READ_16BIT_REG (i_dst i) c OR i_Iw i) c) \<and>
   (cpu_abs (AND_EwIwR i c) = arch_LOGIC BX_WRITE_16BIT_REG (i_dst i) (BX_READ_16BIT_REG (i_dst i) c AND i_Iw i) c) \<and>
   (cpu_abs (TEST_EwIwR i c) = arch_TEST (BX_READ_16BIT_REG (i_dst i) c AND i_Iw i) c) \<and>
   (cpu_abs (NOT_EwR i c) = arch_NOT BX_READ_16BIT_REG BX_WRITE_16BIT_REG (i_dst i) c) \<and>
   (cpu_abs (ZERO_IDIOM_GdR i c) = arch_LOGIC BX_WRITE_32BIT_REGZ (i_dst i) 0 c) \<and>
   (cpu_abs (XOR_GdEdR i c) = arch_LOGIC BX_WRITE_32BIT_REGZ (i_dst i) (BX_READ_32BIT_REG (i_dst i) c XOR BX_READ_32BIT_REG (i_src i) c) c) \<and>
   (cpu_abs (OR_GdEdR i c) = arch_LOGIC BX_WRITE_32BIT_REGZ (i_dst i) (BX_READ_32BIT_REG (i_dst i) c OR BX_READ_32BIT_REG (i_src i) c) c) \<and>
   (cpu_abs (AND_GdEdR i c) = arch_LOGIC BX_WRITE_32BIT_REGZ (i_dst i) (BX_READ_32BIT_REG (i_dst i) c AND BX_READ_32BIT_REG (i_src i) c) c) \<and>
   (cpu_abs (TEST_EdGdR i c) = arch_TEST (BX_READ_32BIT_REG (i_dst i) c AND BX_READ_32BIT_REG (i_src i) c) c) \<and>
   (cpu_abs (XOR_EdIdR i c) = arch_LOGIC BX_WRITE_32BIT_REGZ (i_dst i) (BX_READ_32BIT_REG (i_dst i) c XOR i_Id i) c) \<and>
   (cpu_abs (OR_EdIdR i c) = arch_LOGIC BX_WRITE_32BIT_REGZ (i_dst i) (BX_READ_32BIT_REG (i_dst i) c OR i_Id i) c) \<and>
   (cpu_abs (AND_EdIdR i c) = arch_LOGIC BX_WRITE_32BIT_REGZ (i_dst i) (BX_READ_32BIT_REG (i_dst i) c AND i_Id i) c) \<and>
   (cpu_abs (TEST_EdIdR i c) = arch_TEST (BX_READ_32BIT_REG (i_dst i) c AND i_Id i) c) \<and>
   (cpu_abs (NOT_EdR i c) = arch_NOT BX_READ_32BIT_REG BX_WRITE_32BIT_REGZ (i_dst i) c) \<and>
   (cpu_abs (XOR_GqEqR i c) = arch_LOGIC BX_WRITE_64BIT_REG (i_dst i) (BX_READ_64BIT_REG (i_dst i) c XOR BX_READ_64BIT_REG (i_src i) c) c) \<and>
   (cpu_abs (OR_GqEqR i c) = arch_LOGIC BX_WRITE_64BIT_REG (i_dst i) (BX_READ_64BIT_REG (i_dst i) c OR BX_READ_64BIT_REG (i_src i) c) c) \<and>
   (cpu_abs (AND_GqEqR i c) = arch_LOGIC BX_WRITE_64BIT_REG (i_dst i) (BX_READ_64BIT_REG (i_dst i) c AND BX_READ_64BIT_REG (i_src i) c) c) \<and>
   (cpu_abs (TEST_EqGqR i c) = arch_TEST (BX_READ_64BIT_REG (i_dst i) c AND BX_READ_64BIT_REG (i_src i) c) c) \<and>
   (cpu_abs (XOR_EqIdR i c) = arch_LOGIC BX_WRITE_64BIT_REG (i_dst i) (BX_READ_64BIT_REG (i_dst i) c XOR scast (i_Id i)) c) \<and>
   (cpu_abs (OR_EqIdR i c) = arch_LOGIC BX_WRITE_64BIT_REG (i_dst i) (BX_READ_64BIT_REG (i_dst i) c OR scast (i_Id i)) c) \<and>
   (cpu_abs (AND_EqIdR i c) = arch_LOGIC BX_WRITE_64BIT_REG (i_dst i) (BX_READ_64BIT_REG (i_dst i) c AND scast (i_Id i)) c) \<and>
   (cpu_abs (TEST_EqIdR i c) = arch_TEST (BX_READ_64BIT_REG (i_dst i) c AND scast (i_Id i)) c) \<and>
   (cpu_abs (NOT_EqR i c) = arch_NOT BX_READ_64BIT_REG BX_WRITE_64BIT_REG (i_dst i) c)"
  by (intro conjI; rule LOGIC_8_sim LOGIC_16_sim LOGIC_32_sim LOGIC_64_sim)

end
