(* ===== verification/Conditions.thy ===== *)
theory Conditions
  imports Arith
begin

text \<open>
  The instructions that read the condition codes or only move data: SETcc (cpu/bit.cc) and CMOVcc
  (cpu/data\_xfer16.cc, data\_xfer32.cc, data\_xfer64.cc) for the sixteen conditions, and the
  register and immediate forms of MOV, MOVZX, MOVSX and XCHG. The conditions of the handlers
  are proved equal to the table \<open>cond_holds\<close>, and after a CMP of any width they are
  the comparisons of the operands as signed and unsigned numbers. XCHG of 16-bit registers is
  left out: its debugger build has a magic breakpoint. The memory forms are not part of this theory.
\<close>

section \<open>SETcc (cpu/bit.cc)\<close>

definition SETO_EbR :: "bxInstruction \<Rightarrow> bx_cpu \<Rightarrow> bx_cpu" where
  "SETO_EbR i c = 
     BX_WRITE_8BIT_REGx (i_dst i) (i_extend8bitL i) (ucast (getB_OF (oszapc c))) c"

definition SETNO_EbR :: "bxInstruction \<Rightarrow> bx_cpu \<Rightarrow> bx_cpu" where
  "SETNO_EbR i c = 
     BX_WRITE_8BIT_REGx (i_dst i) (i_extend8bitL i) (of_bool (getB_OF (oszapc c) = 0)) c"

definition SETB_EbR :: "bxInstruction \<Rightarrow> bx_cpu \<Rightarrow> bx_cpu" where
  "SETB_EbR i c = 
     BX_WRITE_8BIT_REGx (i_dst i) (i_extend8bitL i) (ucast (getB_CF (oszapc c))) c"

definition SETNB_EbR :: "bxInstruction \<Rightarrow> bx_cpu \<Rightarrow> bx_cpu" where
  "SETNB_EbR i c = 
     BX_WRITE_8BIT_REGx (i_dst i) (i_extend8bitL i) (of_bool (getB_CF (oszapc c) = 0)) c"

definition SETZ_EbR :: "bxInstruction \<Rightarrow> bx_cpu \<Rightarrow> bx_cpu" where
  "SETZ_EbR i c = 
     BX_WRITE_8BIT_REGx (i_dst i) (i_extend8bitL i) (ucast (getB_ZF (oszapc c))) c"

definition SETNZ_EbR :: "bxInstruction \<Rightarrow> bx_cpu \<Rightarrow> bx_cpu" where
  "SETNZ_EbR i c = 
     BX_WRITE_8BIT_REGx (i_dst i) (i_extend8bitL i) (of_bool (getB_ZF (oszapc c) = 0)) c"

definition SETBE_EbR :: "bxInstruction \<Rightarrow> bx_cpu \<Rightarrow> bx_cpu" where
  "SETBE_EbR i c = 
     BX_WRITE_8BIT_REGx (i_dst i) (i_extend8bitL i) (ucast (getB_CF (oszapc c) OR getB_ZF (oszapc c))) c"

definition SETNBE_EbR :: "bxInstruction \<Rightarrow> bx_cpu \<Rightarrow> bx_cpu" where
  "SETNBE_EbR i c = 
     BX_WRITE_8BIT_REGx (i_dst i) (i_extend8bitL i) (of_bool ((getB_CF (oszapc c) OR getB_ZF (oszapc c)) = 0)) c"

definition SETS_EbR :: "bxInstruction \<Rightarrow> bx_cpu \<Rightarrow> bx_cpu" where
  "SETS_EbR i c = 
     BX_WRITE_8BIT_REGx (i_dst i) (i_extend8bitL i) (ucast (getB_SF (oszapc c))) c"

definition SETNS_EbR :: "bxInstruction \<Rightarrow> bx_cpu \<Rightarrow> bx_cpu" where
  "SETNS_EbR i c = 
     BX_WRITE_8BIT_REGx (i_dst i) (i_extend8bitL i) (of_bool (getB_SF (oszapc c) = 0)) c"

definition SETP_EbR :: "bxInstruction \<Rightarrow> bx_cpu \<Rightarrow> bx_cpu" where
  "SETP_EbR i c = 
     BX_WRITE_8BIT_REGx (i_dst i) (i_extend8bitL i) (ucast (getB_PF (oszapc c))) c"

definition SETNP_EbR :: "bxInstruction \<Rightarrow> bx_cpu \<Rightarrow> bx_cpu" where
  "SETNP_EbR i c = 
     BX_WRITE_8BIT_REGx (i_dst i) (i_extend8bitL i) (of_bool (getB_PF (oszapc c) = 0)) c"

definition SETL_EbR :: "bxInstruction \<Rightarrow> bx_cpu \<Rightarrow> bx_cpu" where
  "SETL_EbR i c = 
     BX_WRITE_8BIT_REGx (i_dst i) (i_extend8bitL i) (ucast (getB_SF (oszapc c) XOR getB_OF (oszapc c))) c"

definition SETNL_EbR :: "bxInstruction \<Rightarrow> bx_cpu \<Rightarrow> bx_cpu" where
  "SETNL_EbR i c = 
     BX_WRITE_8BIT_REGx (i_dst i) (i_extend8bitL i) (of_bool ((getB_SF (oszapc c) XOR getB_OF (oszapc c)) = 0)) c"

definition SETLE_EbR :: "bxInstruction \<Rightarrow> bx_cpu \<Rightarrow> bx_cpu" where
  "SETLE_EbR i c = 
     (let result_8 = ucast (getB_ZF (oszapc c) OR (getB_SF (oszapc c) XOR getB_OF (oszapc c)))
      in BX_WRITE_8BIT_REGx (i_dst i) (i_extend8bitL i) result_8 c)"

definition SETNLE_EbR :: "bxInstruction \<Rightarrow> bx_cpu \<Rightarrow> bx_cpu" where
  "SETNLE_EbR i c = 
     (let result_8 = of_bool ((getB_ZF (oszapc c) OR (getB_SF (oszapc c) XOR getB_OF (oszapc c))) = 0)
      in BX_WRITE_8BIT_REGx (i_dst i) (i_extend8bitL i) result_8 c)"

section \<open>CMOVcc (cpu/data\_xfer16.cc)\<close>

definition CMOVO_GwEwR :: "bxInstruction \<Rightarrow> bx_cpu \<Rightarrow> bx_cpu" where
  "CMOVO_GwEwR i c = 
     (if get_OF (oszapc c) \<noteq> 0
      then BX_WRITE_16BIT_REG (i_dst i) (BX_READ_16BIT_REG (i_src i) c) c else c)"

definition CMOVNO_GwEwR :: "bxInstruction \<Rightarrow> bx_cpu \<Rightarrow> bx_cpu" where
  "CMOVNO_GwEwR i c = 
     (if get_OF (oszapc c) = 0
      then BX_WRITE_16BIT_REG (i_dst i) (BX_READ_16BIT_REG (i_src i) c) c else c)"

definition CMOVB_GwEwR :: "bxInstruction \<Rightarrow> bx_cpu \<Rightarrow> bx_cpu" where
  "CMOVB_GwEwR i c = 
     (if get_CF (oszapc c) \<noteq> 0
      then BX_WRITE_16BIT_REG (i_dst i) (BX_READ_16BIT_REG (i_src i) c) c else c)"

definition CMOVNB_GwEwR :: "bxInstruction \<Rightarrow> bx_cpu \<Rightarrow> bx_cpu" where
  "CMOVNB_GwEwR i c = 
     (if get_CF (oszapc c) = 0
      then BX_WRITE_16BIT_REG (i_dst i) (BX_READ_16BIT_REG (i_src i) c) c else c)"

definition CMOVZ_GwEwR :: "bxInstruction \<Rightarrow> bx_cpu \<Rightarrow> bx_cpu" where
  "CMOVZ_GwEwR i c = 
     (if get_ZF (oszapc c) \<noteq> 0
      then BX_WRITE_16BIT_REG (i_dst i) (BX_READ_16BIT_REG (i_src i) c) c else c)"

definition CMOVNZ_GwEwR :: "bxInstruction \<Rightarrow> bx_cpu \<Rightarrow> bx_cpu" where
  "CMOVNZ_GwEwR i c = 
     (if get_ZF (oszapc c) = 0
      then BX_WRITE_16BIT_REG (i_dst i) (BX_READ_16BIT_REG (i_src i) c) c else c)"

definition CMOVBE_GwEwR :: "bxInstruction \<Rightarrow> bx_cpu \<Rightarrow> bx_cpu" where
  "CMOVBE_GwEwR i c = 
     (if get_CF (oszapc c) \<noteq> 0 \<or> get_ZF (oszapc c) \<noteq> 0
      then BX_WRITE_16BIT_REG (i_dst i) (BX_READ_16BIT_REG (i_src i) c) c else c)"

definition CMOVNBE_GwEwR :: "bxInstruction \<Rightarrow> bx_cpu \<Rightarrow> bx_cpu" where
  "CMOVNBE_GwEwR i c = 
     (if \<not> (get_CF (oszapc c) \<noteq> 0 \<or> get_ZF (oszapc c) \<noteq> 0)
      then BX_WRITE_16BIT_REG (i_dst i) (BX_READ_16BIT_REG (i_src i) c) c else c)"

definition CMOVS_GwEwR :: "bxInstruction \<Rightarrow> bx_cpu \<Rightarrow> bx_cpu" where
  "CMOVS_GwEwR i c = 
     (if get_SF (oszapc c) \<noteq> 0
      then BX_WRITE_16BIT_REG (i_dst i) (BX_READ_16BIT_REG (i_src i) c) c else c)"

definition CMOVNS_GwEwR :: "bxInstruction \<Rightarrow> bx_cpu \<Rightarrow> bx_cpu" where
  "CMOVNS_GwEwR i c = 
     (if get_SF (oszapc c) = 0
      then BX_WRITE_16BIT_REG (i_dst i) (BX_READ_16BIT_REG (i_src i) c) c else c)"

definition CMOVP_GwEwR :: "bxInstruction \<Rightarrow> bx_cpu \<Rightarrow> bx_cpu" where
  "CMOVP_GwEwR i c = 
     (if get_PF (oszapc c) \<noteq> 0
      then BX_WRITE_16BIT_REG (i_dst i) (BX_READ_16BIT_REG (i_src i) c) c else c)"

definition CMOVNP_GwEwR :: "bxInstruction \<Rightarrow> bx_cpu \<Rightarrow> bx_cpu" where
  "CMOVNP_GwEwR i c = 
     (if get_PF (oszapc c) = 0
      then BX_WRITE_16BIT_REG (i_dst i) (BX_READ_16BIT_REG (i_src i) c) c else c)"

definition CMOVL_GwEwR :: "bxInstruction \<Rightarrow> bx_cpu \<Rightarrow> bx_cpu" where
  "CMOVL_GwEwR i c = 
     (if getB_SF (oszapc c) \<noteq> getB_OF (oszapc c)
      then BX_WRITE_16BIT_REG (i_dst i) (BX_READ_16BIT_REG (i_src i) c) c else c)"

definition CMOVNL_GwEwR :: "bxInstruction \<Rightarrow> bx_cpu \<Rightarrow> bx_cpu" where
  "CMOVNL_GwEwR i c = 
     (if getB_SF (oszapc c) = getB_OF (oszapc c)
      then BX_WRITE_16BIT_REG (i_dst i) (BX_READ_16BIT_REG (i_src i) c) c else c)"

definition CMOVLE_GwEwR :: "bxInstruction \<Rightarrow> bx_cpu \<Rightarrow> bx_cpu" where
  "CMOVLE_GwEwR i c = 
     (if get_ZF (oszapc c) \<noteq> 0 \<or> getB_SF (oszapc c) \<noteq> getB_OF (oszapc c)
      then BX_WRITE_16BIT_REG (i_dst i) (BX_READ_16BIT_REG (i_src i) c) c else c)"

definition CMOVNLE_GwEwR :: "bxInstruction \<Rightarrow> bx_cpu \<Rightarrow> bx_cpu" where
  "CMOVNLE_GwEwR i c = 
     (if get_ZF (oszapc c) = 0 \<and> getB_SF (oszapc c) = getB_OF (oszapc c)
      then BX_WRITE_16BIT_REG (i_dst i) (BX_READ_16BIT_REG (i_src i) c) c else c)"

section \<open>CMOVcc (cpu/data\_xfer32.cc)\<close>

definition CMOVO_GdEdR :: "bxInstruction \<Rightarrow> bx_cpu \<Rightarrow> bx_cpu" where
  "CMOVO_GdEdR i c = 
     (let c = (if get_OF (oszapc c) \<noteq> 0
      then BX_WRITE_32BIT_REGZ (i_dst i) (BX_READ_32BIT_REG (i_src i) c) c else c)
      in BX_CLEAR_64BIT_HIGH (i_dst i) c)"

definition CMOVNO_GdEdR :: "bxInstruction \<Rightarrow> bx_cpu \<Rightarrow> bx_cpu" where
  "CMOVNO_GdEdR i c = 
     (let c = (if get_OF (oszapc c) = 0
      then BX_WRITE_32BIT_REGZ (i_dst i) (BX_READ_32BIT_REG (i_src i) c) c else c)
      in BX_CLEAR_64BIT_HIGH (i_dst i) c)"

definition CMOVB_GdEdR :: "bxInstruction \<Rightarrow> bx_cpu \<Rightarrow> bx_cpu" where
  "CMOVB_GdEdR i c = 
     (let c = (if get_CF (oszapc c) \<noteq> 0
      then BX_WRITE_32BIT_REGZ (i_dst i) (BX_READ_32BIT_REG (i_src i) c) c else c)
      in BX_CLEAR_64BIT_HIGH (i_dst i) c)"

definition CMOVNB_GdEdR :: "bxInstruction \<Rightarrow> bx_cpu \<Rightarrow> bx_cpu" where
  "CMOVNB_GdEdR i c = 
     (let c = (if get_CF (oszapc c) = 0
      then BX_WRITE_32BIT_REGZ (i_dst i) (BX_READ_32BIT_REG (i_src i) c) c else c)
      in BX_CLEAR_64BIT_HIGH (i_dst i) c)"

definition CMOVZ_GdEdR :: "bxInstruction \<Rightarrow> bx_cpu \<Rightarrow> bx_cpu" where
  "CMOVZ_GdEdR i c = 
     (let c = (if get_ZF (oszapc c) \<noteq> 0
      then BX_WRITE_32BIT_REGZ (i_dst i) (BX_READ_32BIT_REG (i_src i) c) c else c)
      in BX_CLEAR_64BIT_HIGH (i_dst i) c)"

definition CMOVNZ_GdEdR :: "bxInstruction \<Rightarrow> bx_cpu \<Rightarrow> bx_cpu" where
  "CMOVNZ_GdEdR i c = 
     (let c = (if get_ZF (oszapc c) = 0
      then BX_WRITE_32BIT_REGZ (i_dst i) (BX_READ_32BIT_REG (i_src i) c) c else c)
      in BX_CLEAR_64BIT_HIGH (i_dst i) c)"

definition CMOVBE_GdEdR :: "bxInstruction \<Rightarrow> bx_cpu \<Rightarrow> bx_cpu" where
  "CMOVBE_GdEdR i c = 
     (let c = (if get_CF (oszapc c) \<noteq> 0 \<or> get_ZF (oszapc c) \<noteq> 0
      then BX_WRITE_32BIT_REGZ (i_dst i) (BX_READ_32BIT_REG (i_src i) c) c else c)
      in BX_CLEAR_64BIT_HIGH (i_dst i) c)"

definition CMOVNBE_GdEdR :: "bxInstruction \<Rightarrow> bx_cpu \<Rightarrow> bx_cpu" where
  "CMOVNBE_GdEdR i c = 
     (let c = (if \<not> (get_CF (oszapc c) \<noteq> 0 \<or> get_ZF (oszapc c) \<noteq> 0)
      then BX_WRITE_32BIT_REGZ (i_dst i) (BX_READ_32BIT_REG (i_src i) c) c else c)
      in BX_CLEAR_64BIT_HIGH (i_dst i) c)"

definition CMOVS_GdEdR :: "bxInstruction \<Rightarrow> bx_cpu \<Rightarrow> bx_cpu" where
  "CMOVS_GdEdR i c = 
     (let c = (if get_SF (oszapc c) \<noteq> 0
      then BX_WRITE_32BIT_REGZ (i_dst i) (BX_READ_32BIT_REG (i_src i) c) c else c)
      in BX_CLEAR_64BIT_HIGH (i_dst i) c)"

definition CMOVNS_GdEdR :: "bxInstruction \<Rightarrow> bx_cpu \<Rightarrow> bx_cpu" where
  "CMOVNS_GdEdR i c = 
     (let c = (if get_SF (oszapc c) = 0
      then BX_WRITE_32BIT_REGZ (i_dst i) (BX_READ_32BIT_REG (i_src i) c) c else c)
      in BX_CLEAR_64BIT_HIGH (i_dst i) c)"

definition CMOVP_GdEdR :: "bxInstruction \<Rightarrow> bx_cpu \<Rightarrow> bx_cpu" where
  "CMOVP_GdEdR i c = 
     (let c = (if get_PF (oszapc c) \<noteq> 0
      then BX_WRITE_32BIT_REGZ (i_dst i) (BX_READ_32BIT_REG (i_src i) c) c else c)
      in BX_CLEAR_64BIT_HIGH (i_dst i) c)"

definition CMOVNP_GdEdR :: "bxInstruction \<Rightarrow> bx_cpu \<Rightarrow> bx_cpu" where
  "CMOVNP_GdEdR i c = 
     (let c = (if get_PF (oszapc c) = 0
      then BX_WRITE_32BIT_REGZ (i_dst i) (BX_READ_32BIT_REG (i_src i) c) c else c)
      in BX_CLEAR_64BIT_HIGH (i_dst i) c)"

definition CMOVL_GdEdR :: "bxInstruction \<Rightarrow> bx_cpu \<Rightarrow> bx_cpu" where
  "CMOVL_GdEdR i c = 
     (let c = (if getB_SF (oszapc c) \<noteq> getB_OF (oszapc c)
      then BX_WRITE_32BIT_REGZ (i_dst i) (BX_READ_32BIT_REG (i_src i) c) c else c)
      in BX_CLEAR_64BIT_HIGH (i_dst i) c)"

definition CMOVNL_GdEdR :: "bxInstruction \<Rightarrow> bx_cpu \<Rightarrow> bx_cpu" where
  "CMOVNL_GdEdR i c = 
     (let c = (if getB_SF (oszapc c) = getB_OF (oszapc c)
      then BX_WRITE_32BIT_REGZ (i_dst i) (BX_READ_32BIT_REG (i_src i) c) c else c)
      in BX_CLEAR_64BIT_HIGH (i_dst i) c)"

definition CMOVLE_GdEdR :: "bxInstruction \<Rightarrow> bx_cpu \<Rightarrow> bx_cpu" where
  "CMOVLE_GdEdR i c = 
     (let c = (if get_ZF (oszapc c) \<noteq> 0 \<or> getB_SF (oszapc c) \<noteq> getB_OF (oszapc c)
      then BX_WRITE_32BIT_REGZ (i_dst i) (BX_READ_32BIT_REG (i_src i) c) c else c)
      in BX_CLEAR_64BIT_HIGH (i_dst i) c)"

definition CMOVNLE_GdEdR :: "bxInstruction \<Rightarrow> bx_cpu \<Rightarrow> bx_cpu" where
  "CMOVNLE_GdEdR i c = 
     (let c = (if get_ZF (oszapc c) = 0 \<and> getB_SF (oszapc c) = getB_OF (oszapc c)
      then BX_WRITE_32BIT_REGZ (i_dst i) (BX_READ_32BIT_REG (i_src i) c) c else c)
      in BX_CLEAR_64BIT_HIGH (i_dst i) c)"

section \<open>CMOVcc (cpu/data\_xfer64.cc)\<close>

definition CMOVO_GqEqR :: "bxInstruction \<Rightarrow> bx_cpu \<Rightarrow> bx_cpu" where
  "CMOVO_GqEqR i c = 
     (if get_OF (oszapc c) \<noteq> 0
      then BX_WRITE_64BIT_REG (i_dst i) (BX_READ_64BIT_REG (i_src i) c) c else c)"

definition CMOVNO_GqEqR :: "bxInstruction \<Rightarrow> bx_cpu \<Rightarrow> bx_cpu" where
  "CMOVNO_GqEqR i c = 
     (if get_OF (oszapc c) = 0
      then BX_WRITE_64BIT_REG (i_dst i) (BX_READ_64BIT_REG (i_src i) c) c else c)"

definition CMOVB_GqEqR :: "bxInstruction \<Rightarrow> bx_cpu \<Rightarrow> bx_cpu" where
  "CMOVB_GqEqR i c = 
     (if get_CF (oszapc c) \<noteq> 0
      then BX_WRITE_64BIT_REG (i_dst i) (BX_READ_64BIT_REG (i_src i) c) c else c)"

definition CMOVNB_GqEqR :: "bxInstruction \<Rightarrow> bx_cpu \<Rightarrow> bx_cpu" where
  "CMOVNB_GqEqR i c = 
     (if get_CF (oszapc c) = 0
      then BX_WRITE_64BIT_REG (i_dst i) (BX_READ_64BIT_REG (i_src i) c) c else c)"

definition CMOVZ_GqEqR :: "bxInstruction \<Rightarrow> bx_cpu \<Rightarrow> bx_cpu" where
  "CMOVZ_GqEqR i c = 
     (if get_ZF (oszapc c) \<noteq> 0
      then BX_WRITE_64BIT_REG (i_dst i) (BX_READ_64BIT_REG (i_src i) c) c else c)"

definition CMOVNZ_GqEqR :: "bxInstruction \<Rightarrow> bx_cpu \<Rightarrow> bx_cpu" where
  "CMOVNZ_GqEqR i c = 
     (if get_ZF (oszapc c) = 0
      then BX_WRITE_64BIT_REG (i_dst i) (BX_READ_64BIT_REG (i_src i) c) c else c)"

definition CMOVBE_GqEqR :: "bxInstruction \<Rightarrow> bx_cpu \<Rightarrow> bx_cpu" where
  "CMOVBE_GqEqR i c = 
     (if get_CF (oszapc c) \<noteq> 0 \<or> get_ZF (oszapc c) \<noteq> 0
      then BX_WRITE_64BIT_REG (i_dst i) (BX_READ_64BIT_REG (i_src i) c) c else c)"

definition CMOVNBE_GqEqR :: "bxInstruction \<Rightarrow> bx_cpu \<Rightarrow> bx_cpu" where
  "CMOVNBE_GqEqR i c = 
     (if \<not> (get_CF (oszapc c) \<noteq> 0 \<or> get_ZF (oszapc c) \<noteq> 0)
      then BX_WRITE_64BIT_REG (i_dst i) (BX_READ_64BIT_REG (i_src i) c) c else c)"

definition CMOVS_GqEqR :: "bxInstruction \<Rightarrow> bx_cpu \<Rightarrow> bx_cpu" where
  "CMOVS_GqEqR i c = 
     (if get_SF (oszapc c) \<noteq> 0
      then BX_WRITE_64BIT_REG (i_dst i) (BX_READ_64BIT_REG (i_src i) c) c else c)"

definition CMOVNS_GqEqR :: "bxInstruction \<Rightarrow> bx_cpu \<Rightarrow> bx_cpu" where
  "CMOVNS_GqEqR i c = 
     (if get_SF (oszapc c) = 0
      then BX_WRITE_64BIT_REG (i_dst i) (BX_READ_64BIT_REG (i_src i) c) c else c)"

definition CMOVP_GqEqR :: "bxInstruction \<Rightarrow> bx_cpu \<Rightarrow> bx_cpu" where
  "CMOVP_GqEqR i c = 
     (if get_PF (oszapc c) \<noteq> 0
      then BX_WRITE_64BIT_REG (i_dst i) (BX_READ_64BIT_REG (i_src i) c) c else c)"

definition CMOVNP_GqEqR :: "bxInstruction \<Rightarrow> bx_cpu \<Rightarrow> bx_cpu" where
  "CMOVNP_GqEqR i c = 
     (if get_PF (oszapc c) = 0
      then BX_WRITE_64BIT_REG (i_dst i) (BX_READ_64BIT_REG (i_src i) c) c else c)"

definition CMOVL_GqEqR :: "bxInstruction \<Rightarrow> bx_cpu \<Rightarrow> bx_cpu" where
  "CMOVL_GqEqR i c = 
     (if getB_SF (oszapc c) \<noteq> getB_OF (oszapc c)
      then BX_WRITE_64BIT_REG (i_dst i) (BX_READ_64BIT_REG (i_src i) c) c else c)"

definition CMOVNL_GqEqR :: "bxInstruction \<Rightarrow> bx_cpu \<Rightarrow> bx_cpu" where
  "CMOVNL_GqEqR i c = 
     (if getB_SF (oszapc c) = getB_OF (oszapc c)
      then BX_WRITE_64BIT_REG (i_dst i) (BX_READ_64BIT_REG (i_src i) c) c else c)"

definition CMOVLE_GqEqR :: "bxInstruction \<Rightarrow> bx_cpu \<Rightarrow> bx_cpu" where
  "CMOVLE_GqEqR i c = 
     (if get_ZF (oszapc c) \<noteq> 0 \<or> getB_SF (oszapc c) \<noteq> getB_OF (oszapc c)
      then BX_WRITE_64BIT_REG (i_dst i) (BX_READ_64BIT_REG (i_src i) c) c else c)"

definition CMOVNLE_GqEqR :: "bxInstruction \<Rightarrow> bx_cpu \<Rightarrow> bx_cpu" where
  "CMOVNLE_GqEqR i c = 
     (if get_ZF (oszapc c) = 0 \<and> getB_SF (oszapc c) = getB_OF (oszapc c)
      then BX_WRITE_64BIT_REG (i_dst i) (BX_READ_64BIT_REG (i_src i) c) c else c)"

section \<open>MOV, MOVZX, MOVSX and XCHG\<close>

definition MOV_EbIbR :: "bxInstruction \<Rightarrow> bx_cpu \<Rightarrow> bx_cpu" where
  "MOV_EbIbR i c = 
     BX_WRITE_8BIT_REGx (i_dst i) (i_extend8bitL i) (i_Ib i) c"

definition MOV_GbEbR :: "bxInstruction \<Rightarrow> bx_cpu \<Rightarrow> bx_cpu" where
  "MOV_GbEbR i c = 
     (let op2 = BX_READ_8BIT_REGx (i_src i) (i_extend8bitL i) c
      in BX_WRITE_8BIT_REGx (i_dst i) (i_extend8bitL i) op2 c)"

definition MOV_EwIwR :: "bxInstruction \<Rightarrow> bx_cpu \<Rightarrow> bx_cpu" where
  "MOV_EwIwR i c = 
     BX_WRITE_16BIT_REG (i_dst i) (i_Iw i) c"

definition MOV_GwEwR :: "bxInstruction \<Rightarrow> bx_cpu \<Rightarrow> bx_cpu" where
  "MOV_GwEwR i c = 
     BX_WRITE_16BIT_REG (i_dst i) (BX_READ_16BIT_REG (i_src i) c) c"

definition MOV_EdIdR :: "bxInstruction \<Rightarrow> bx_cpu \<Rightarrow> bx_cpu" where
  "MOV_EdIdR i c = 
     BX_WRITE_32BIT_REGZ (i_dst i) (i_Id i) c"

definition MOV_GdEdR :: "bxInstruction \<Rightarrow> bx_cpu \<Rightarrow> bx_cpu" where
  "MOV_GdEdR i c = 
     BX_WRITE_32BIT_REGZ (i_dst i) (BX_READ_32BIT_REG (i_src i) c) c"

definition MOV_GqEqR :: "bxInstruction \<Rightarrow> bx_cpu \<Rightarrow> bx_cpu" where
  "MOV_GqEqR i c = 
     BX_WRITE_64BIT_REG (i_dst i) (BX_READ_64BIT_REG (i_src i) c) c"

definition MOV_EqIdR :: "bxInstruction \<Rightarrow> bx_cpu \<Rightarrow> bx_cpu" where
  "MOV_EqIdR i c = 
     (let op_64 = scast (i_Id i)
      in BX_WRITE_64BIT_REG (i_dst i) op_64 c)"

definition MOVZX_GwEbR :: "bxInstruction \<Rightarrow> bx_cpu \<Rightarrow> bx_cpu" where
  "MOVZX_GwEbR i c = 
     (let op2_8 = BX_READ_8BIT_REGx (i_src i) (i_extend8bitL i) c
      in BX_WRITE_16BIT_REG (i_dst i) (ucast op2_8) c)"

definition MOVSX_GwEbR :: "bxInstruction \<Rightarrow> bx_cpu \<Rightarrow> bx_cpu" where
  "MOVSX_GwEbR i c = 
     (let op2_8 = BX_READ_8BIT_REGx (i_src i) (i_extend8bitL i) c
      in BX_WRITE_16BIT_REG (i_dst i) (scast op2_8) c)"

definition MOVZX_GdEbR :: "bxInstruction \<Rightarrow> bx_cpu \<Rightarrow> bx_cpu" where
  "MOVZX_GdEbR i c = 
     (let op2_8 = BX_READ_8BIT_REGx (i_src i) (i_extend8bitL i) c
      in BX_WRITE_32BIT_REGZ (i_dst i) (ucast op2_8) c)"

definition MOVSX_GdEbR :: "bxInstruction \<Rightarrow> bx_cpu \<Rightarrow> bx_cpu" where
  "MOVSX_GdEbR i c = 
     (let op2_8 = BX_READ_8BIT_REGx (i_src i) (i_extend8bitL i) c
      in BX_WRITE_32BIT_REGZ (i_dst i) (scast op2_8) c)"

definition MOVZX_GdEwR :: "bxInstruction \<Rightarrow> bx_cpu \<Rightarrow> bx_cpu" where
  "MOVZX_GdEwR i c = 
     (let op2_16 = BX_READ_16BIT_REG (i_src i) c
      in BX_WRITE_32BIT_REGZ (i_dst i) (ucast op2_16) c)"

definition MOVSX_GdEwR :: "bxInstruction \<Rightarrow> bx_cpu \<Rightarrow> bx_cpu" where
  "MOVSX_GdEwR i c = 
     (let op2_16 = BX_READ_16BIT_REG (i_src i) c
      in BX_WRITE_32BIT_REGZ (i_dst i) (scast op2_16) c)"

definition MOVZX_GqEbR :: "bxInstruction \<Rightarrow> bx_cpu \<Rightarrow> bx_cpu" where
  "MOVZX_GqEbR i c = 
     (let op2_8 = BX_READ_8BIT_REGx (i_src i) (i_extend8bitL i) c
      in BX_WRITE_64BIT_REG (i_dst i) (ucast op2_8) c)"

definition MOVSX_GqEbR :: "bxInstruction \<Rightarrow> bx_cpu \<Rightarrow> bx_cpu" where
  "MOVSX_GqEbR i c = 
     (let op2_8 = BX_READ_8BIT_REGx (i_src i) (i_extend8bitL i) c
      in BX_WRITE_64BIT_REG (i_dst i) (scast op2_8) c)"

definition MOVZX_GqEwR :: "bxInstruction \<Rightarrow> bx_cpu \<Rightarrow> bx_cpu" where
  "MOVZX_GqEwR i c = 
     (let op2_16 = BX_READ_16BIT_REG (i_src i) c
      in BX_WRITE_64BIT_REG (i_dst i) (ucast op2_16) c)"

definition MOVSX_GqEwR :: "bxInstruction \<Rightarrow> bx_cpu \<Rightarrow> bx_cpu" where
  "MOVSX_GqEwR i c = 
     (let op2_16 = BX_READ_16BIT_REG (i_src i) c
      in BX_WRITE_64BIT_REG (i_dst i) (scast op2_16) c)"

definition MOVSX_GqEdR :: "bxInstruction \<Rightarrow> bx_cpu \<Rightarrow> bx_cpu" where
  "MOVSX_GqEdR i c = 
     (let op2_32 = BX_READ_32BIT_REG (i_src i) c
      in BX_WRITE_64BIT_REG (i_dst i) (scast op2_32) c)"

definition XCHG_EbGbR :: "bxInstruction \<Rightarrow> bx_cpu \<Rightarrow> bx_cpu" where
  "XCHG_EbGbR i c = 
     (let op1 = BX_READ_8BIT_REGx (i_dst i) (i_extend8bitL i) c;
          op2 = BX_READ_8BIT_REGx (i_src i) (i_extend8bitL i) c;
          c = BX_WRITE_8BIT_REGx (i_src i) (i_extend8bitL i) op1 c
      in BX_WRITE_8BIT_REGx (i_dst i) (i_extend8bitL i) op2 c)"

definition XCHG_EdGdR :: "bxInstruction \<Rightarrow> bx_cpu \<Rightarrow> bx_cpu" where
  "XCHG_EdGdR i c = 
     (let op1_32 = BX_READ_32BIT_REG (i_dst i) c;
          op2_32 = BX_READ_32BIT_REG (i_src i) c;
          c = BX_WRITE_32BIT_REGZ (i_src i) op1_32 c
      in BX_WRITE_32BIT_REGZ (i_dst i) op2_32 c)"

definition XCHG_EqGqR :: "bxInstruction \<Rightarrow> bx_cpu \<Rightarrow> bx_cpu" where
  "XCHG_EqGqR i c = 
     (let op1_64 = BX_READ_64BIT_REG (i_dst i) c;
          op2_64 = BX_READ_64BIT_REG (i_src i) c;
          c = BX_WRITE_64BIT_REG (i_src i) op1_64 c
      in BX_WRITE_64BIT_REG (i_dst i) op2_64 c)"

section \<open>What the instructions promise\<close>

text \<open>The sixteen conditions, in the order of their encoding in the opcode.\<close>

datatype condition = cO | cNO | cB | cNB | cZ | cNZ | cBE | cNBE | cS | cNS | cP | cNP | cL | cNL | cLE | cNLE

primrec cond_holds :: "condition \<Rightarrow> arch_flags \<Rightarrow> bool" where
  "cond_holds cO f = fl_OF f" | "cond_holds cNO f = (\<not> fl_OF f)"
| "cond_holds cB f = fl_CF f" | "cond_holds cNB f = (\<not> fl_CF f)"
| "cond_holds cZ f = fl_ZF f" | "cond_holds cNZ f = (\<not> fl_ZF f)"
| "cond_holds cBE f = (fl_CF f \<or> fl_ZF f)" | "cond_holds cNBE f = (\<not> fl_CF f \<and> \<not> fl_ZF f)"
| "cond_holds cS f = fl_SF f" | "cond_holds cNS f = (\<not> fl_SF f)"
| "cond_holds cP f = fl_PF f" | "cond_holds cNP f = (\<not> fl_PF f)"
| "cond_holds cL f = (fl_SF f \<noteq> fl_OF f)" | "cond_holds cNL f = (fl_SF f = fl_OF f)"
| "cond_holds cLE f = (fl_ZF f \<or> fl_SF f \<noteq> fl_OF f)"
| "cond_holds cNLE f = (\<not> fl_ZF f \<and> fl_SF f = fl_OF f)"

text \<open>The handler the decoder selects for a condition.\<close>

primrec SETcc :: "condition \<Rightarrow> bxInstruction \<Rightarrow> bx_cpu \<Rightarrow> bx_cpu" where
  "SETcc cO = SETO_EbR"
| "SETcc cNO = SETNO_EbR"
| "SETcc cB = SETB_EbR"
| "SETcc cNB = SETNB_EbR"
| "SETcc cZ = SETZ_EbR"
| "SETcc cNZ = SETNZ_EbR"
| "SETcc cBE = SETBE_EbR"
| "SETcc cNBE = SETNBE_EbR"
| "SETcc cS = SETS_EbR"
| "SETcc cNS = SETNS_EbR"
| "SETcc cP = SETP_EbR"
| "SETcc cNP = SETNP_EbR"
| "SETcc cL = SETL_EbR"
| "SETcc cNL = SETNL_EbR"
| "SETcc cLE = SETLE_EbR"
| "SETcc cNLE = SETNLE_EbR"

primrec CMOVcc16 :: "condition \<Rightarrow> bxInstruction \<Rightarrow> bx_cpu \<Rightarrow> bx_cpu" where
  "CMOVcc16 cO = CMOVO_GwEwR"
| "CMOVcc16 cNO = CMOVNO_GwEwR"
| "CMOVcc16 cB = CMOVB_GwEwR"
| "CMOVcc16 cNB = CMOVNB_GwEwR"
| "CMOVcc16 cZ = CMOVZ_GwEwR"
| "CMOVcc16 cNZ = CMOVNZ_GwEwR"
| "CMOVcc16 cBE = CMOVBE_GwEwR"
| "CMOVcc16 cNBE = CMOVNBE_GwEwR"
| "CMOVcc16 cS = CMOVS_GwEwR"
| "CMOVcc16 cNS = CMOVNS_GwEwR"
| "CMOVcc16 cP = CMOVP_GwEwR"
| "CMOVcc16 cNP = CMOVNP_GwEwR"
| "CMOVcc16 cL = CMOVL_GwEwR"
| "CMOVcc16 cNL = CMOVNL_GwEwR"
| "CMOVcc16 cLE = CMOVLE_GwEwR"
| "CMOVcc16 cNLE = CMOVNLE_GwEwR"

primrec CMOVcc32 :: "condition \<Rightarrow> bxInstruction \<Rightarrow> bx_cpu \<Rightarrow> bx_cpu" where
  "CMOVcc32 cO = CMOVO_GdEdR"
| "CMOVcc32 cNO = CMOVNO_GdEdR"
| "CMOVcc32 cB = CMOVB_GdEdR"
| "CMOVcc32 cNB = CMOVNB_GdEdR"
| "CMOVcc32 cZ = CMOVZ_GdEdR"
| "CMOVcc32 cNZ = CMOVNZ_GdEdR"
| "CMOVcc32 cBE = CMOVBE_GdEdR"
| "CMOVcc32 cNBE = CMOVNBE_GdEdR"
| "CMOVcc32 cS = CMOVS_GdEdR"
| "CMOVcc32 cNS = CMOVNS_GdEdR"
| "CMOVcc32 cP = CMOVP_GdEdR"
| "CMOVcc32 cNP = CMOVNP_GdEdR"
| "CMOVcc32 cL = CMOVL_GdEdR"
| "CMOVcc32 cNL = CMOVNL_GdEdR"
| "CMOVcc32 cLE = CMOVLE_GdEdR"
| "CMOVcc32 cNLE = CMOVNLE_GdEdR"

primrec CMOVcc64 :: "condition \<Rightarrow> bxInstruction \<Rightarrow> bx_cpu \<Rightarrow> bx_cpu" where
  "CMOVcc64 cO = CMOVO_GqEqR"
| "CMOVcc64 cNO = CMOVNO_GqEqR"
| "CMOVcc64 cB = CMOVB_GqEqR"
| "CMOVcc64 cNB = CMOVNB_GqEqR"
| "CMOVcc64 cZ = CMOVZ_GqEqR"
| "CMOVcc64 cNZ = CMOVNZ_GqEqR"
| "CMOVcc64 cBE = CMOVBE_GqEqR"
| "CMOVcc64 cNBE = CMOVNBE_GqEqR"
| "CMOVcc64 cS = CMOVS_GqEqR"
| "CMOVcc64 cNS = CMOVNS_GqEqR"
| "CMOVcc64 cP = CMOVP_GqEqR"
| "CMOVcc64 cNP = CMOVNP_GqEqR"
| "CMOVcc64 cL = CMOVL_GqEqR"
| "CMOVcc64 cNL = CMOVNL_GqEqR"
| "CMOVcc64 cLE = CMOVLE_GqEqR"
| "CMOVcc64 cNLE = CMOVNLE_GqEqR"

abbreviation "holds k c \<equiv> cond_holds k (lf_abs (oszapc c))"

section \<open>The handlers implement them\<close>

lemma get_flags:
  "get_OF lf \<noteq> 0 \<longleftrightarrow> fl_OF (lf_abs lf)" "get_CF lf \<noteq> 0 \<longleftrightarrow> fl_CF (lf_abs lf)"
  "get_SF lf \<noteq> 0 \<longleftrightarrow> fl_SF (lf_abs lf)" "get_ZF lf \<noteq> 0 \<longleftrightarrow> fl_ZF (lf_abs lf)"
  "get_PF lf \<noteq> 0 \<longleftrightarrow> fl_PF (lf_abs lf)"
  by (simp_all add: get_flag_zero get_SF_def get_ZF_def get_PF_def flag_readers)

lemma get_flags_zero:
  "get_OF lf = 0 \<longleftrightarrow> \<not> fl_OF (lf_abs lf)" "get_CF lf = 0 \<longleftrightarrow> \<not> fl_CF (lf_abs lf)"
  "get_SF lf = 0 \<longleftrightarrow> \<not> fl_SF (lf_abs lf)" "get_ZF lf = 0 \<longleftrightarrow> \<not> fl_ZF (lf_abs lf)"
  "get_PF lf = 0 \<longleftrightarrow> \<not> fl_PF (lf_abs lf)"
  using get_flags [of lf] by blast+

lemma of_bool_ops:
  "(of_bool a OR of_bool b :: 'a::len word) = of_bool (a \<or> b)"
  "(of_bool a XOR of_bool b :: 'a word) = of_bool (a \<noteq> b)"
  "(of_bool a AND of_bool b :: 'a word) = of_bool (a \<and> b)"
  "(ucast (of_bool a :: 'b::len word) :: 'a word) = of_bool a"
  by (cases a; cases b; simp)+

lemma of_bool_zero: "(of_bool a = (0 :: 'a::len word)) = (\<not> a)" "(of_bool a = (of_bool b :: 'a word)) = (a = b)"
  by (cases a; cases b; simp)+

lemma SETcc_sim: "SETcc k i c = wr8 i (i_dst i) (of_bool (holds k c)) c"
  by (cases k; simp add: SETO_EbR_def SETNO_EbR_def SETB_EbR_def SETNB_EbR_def SETZ_EbR_def
      SETNZ_EbR_def SETBE_EbR_def SETNBE_EbR_def SETS_EbR_def SETNS_EbR_def SETP_EbR_def SETNP_EbR_def SETL_EbR_def SETNL_EbR_def SETLE_EbR_def SETNLE_EbR_def
      getB_of_bool of_bool_ops of_bool_zero)

lemma clear_high_write:
  "BX_CLEAR_64BIT_HIGH n (BX_WRITE_32BIT_REGZ n v c) = BX_WRITE_32BIT_REGZ n v c"
  "BX_CLEAR_64BIT_HIGH n c = BX_WRITE_32BIT_REGZ n (BX_READ_32BIT_REG n c) c"
proof -
  have *: "w AND 0xFFFFFFFF = ucast (erx w)" for w :: u64
    by (rule bit_word_eqI, unfold bit_and_iff bit_mask_32 bit_unsigned_iff bit_reg_parts)
      (auto dest: bit_imp_le_length)
  then show "BX_CLEAR_64BIT_HIGH n (BX_WRITE_32BIT_REGZ n v c) = BX_WRITE_32BIT_REGZ n v c"
    "BX_CLEAR_64BIT_HIGH n c = BX_WRITE_32BIT_REGZ n (BX_READ_32BIT_REG n c) c"
    by (simp_all add: BX_CLEAR_64BIT_HIGH_def BX_WRITE_32BIT_REGZ_def BX_READ_32BIT_REG_def set_gen_reg_def)
qed

lemma clear_high_write_if:
  "BX_CLEAR_64BIT_HIGH n (if b then BX_WRITE_32BIT_REGZ n (BX_READ_32BIT_REG s c) c else c)
     = BX_WRITE_32BIT_REGZ n (BX_READ_32BIT_REG (if b then s else n) c) c"
  by (simp only: clear_high_write(1) split: if_split) (simp add: clear_high_write(2))

lemma CMOVcc_sim:
  "CMOVcc16 k i c = (if holds k c then BX_WRITE_16BIT_REG (i_dst i) (BX_READ_16BIT_REG (i_src i) c) c else c)"
  "CMOVcc32 k i c = BX_WRITE_32BIT_REGZ (i_dst i) (BX_READ_32BIT_REG (if holds k c then i_src i else i_dst i) c) c"
  "CMOVcc64 k i c = (if holds k c then BX_WRITE_64BIT_REG (i_dst i) (BX_READ_64BIT_REG (i_src i) c) c else c)"
  subgoal by (cases k; simp add: CMOVO_GwEwR_def CMOVNO_GwEwR_def CMOVB_GwEwR_def CMOVNB_GwEwR_def
      CMOVZ_GwEwR_def CMOVNZ_GwEwR_def CMOVBE_GwEwR_def CMOVNBE_GwEwR_def CMOVS_GwEwR_def CMOVNS_GwEwR_def CMOVP_GwEwR_def CMOVNP_GwEwR_def CMOVL_GwEwR_def CMOVNL_GwEwR_def CMOVLE_GwEwR_def CMOVNLE_GwEwR_def
      get_flags get_flags_zero getB_of_bool of_bool_zero clear_high_write_if Let_def)
  subgoal by (cases k; simp add: CMOVO_GdEdR_def CMOVNO_GdEdR_def CMOVB_GdEdR_def CMOVNB_GdEdR_def
      CMOVZ_GdEdR_def CMOVNZ_GdEdR_def CMOVBE_GdEdR_def CMOVNBE_GdEdR_def CMOVS_GdEdR_def CMOVNS_GdEdR_def CMOVP_GdEdR_def CMOVNP_GdEdR_def CMOVL_GdEdR_def CMOVNL_GdEdR_def CMOVLE_GdEdR_def CMOVNLE_GdEdR_def
      get_flags get_flags_zero getB_of_bool of_bool_zero clear_high_write_if Let_def)
  subgoal by (cases k; simp add: CMOVO_GqEqR_def CMOVNO_GqEqR_def CMOVB_GqEqR_def CMOVNB_GqEqR_def
      CMOVZ_GqEqR_def CMOVNZ_GqEqR_def CMOVBE_GqEqR_def CMOVNBE_GqEqR_def CMOVS_GqEqR_def CMOVNS_GqEqR_def CMOVP_GqEqR_def CMOVNP_GqEqR_def CMOVL_GqEqR_def CMOVNL_GqEqR_def CMOVLE_GqEqR_def CMOVNLE_GqEqR_def
      get_flags get_flags_zero getB_of_bool of_bool_zero clear_high_write_if Let_def)
  done

section \<open>Conditions after a comparison\<close>

text \<open>What the sixteen conditions mean after comparing \<open>x\<close> with \<open>y\<close>, on numbers.\<close>

primrec compared :: "condition \<Rightarrow> 'a::len word \<Rightarrow> 'a word \<Rightarrow> bool" where
  "compared cO x y = (sint x - sint y \<notin> {- (2 ^ (LENGTH('a) - 1)) ..< 2 ^ (LENGTH('a) - 1)})"
| "compared cNO x y = (sint x - sint y \<in> {- (2 ^ (LENGTH('a) - 1)) ..< 2 ^ (LENGTH('a) - 1)})"
| "compared cB x y = (uint x < uint y)" | "compared cNB x y = (uint y \<le> uint x)"
| "compared cZ x y = (x = y)" | "compared cNZ x y = (x \<noteq> y)"
| "compared cBE x y = (uint x \<le> uint y)" | "compared cNBE x y = (uint y < uint x)"
| "compared cS x y = (sint (x - y) < 0)" | "compared cNS x y = (0 \<le> sint (x - y))"
| "compared cP x y = even_parity (ucast (x - y))" | "compared cNP x y = (\<not> even_parity (ucast (x - y)))"
| "compared cL x y = (sint x < sint y)" | "compared cNL x y = (sint y \<le> sint x)"
| "compared cLE x y = (sint x \<le> sint y)" | "compared cNLE x y = (sint y < sint x)"

lemma sint_limits:
  fixes x :: "'a::len word"
  shows "- (2 ^ (LENGTH('a) - 1)) \<le> sint x" "sint x < 2 ^ (LENGTH('a) - 1)"
  using sint_greater_eq [of x] sint_less [of x] by simp_all

lemma sint_minus_less:
  fixes x y :: "'a::len word"
  defines "n \<equiv> LENGTH('a) - 1" and "d \<equiv> sint x - sint y"
  shows "(sint (x - y) < 0) \<noteq> (d < - (2 ^ n) \<or> 2 ^ n \<le> d) \<longleftrightarrow> sint x < sint y"
proof -
  have s: "sint (x - y) = signed_take_bit n d"
    by (simp add: sint_word_ariths n_def d_def)
  have b: "- (2 ^ Suc n) < d" "d < 2 ^ Suc n"
    using sint_limits [of x] sint_limits [of y] unfolding n_def [symmetric] d_def power_Suc by linarith+
  consider "d < - (2 ^ n)" | "2 ^ n \<le> d" | "- (2 ^ n) \<le> d" "d < 2 ^ n" by linarith
  then show ?thesis
  proof cases
    case 1
    have "d < 0" using 1 zero_less_power [of "2 :: int" n] by linarith
    moreover have "d + 2 ^ Suc n \<le> signed_take_bit n d" using 1 by (rule signed_take_bit_int_greater_eq)
    ultimately show ?thesis using 1 b s unfolding d_def by linarith
  next
    case 2
    have "0 < d" using 2 zero_less_power [of "2 :: int" n] by linarith
    moreover have "signed_take_bit n d \<le> d - 2 ^ Suc n" using 2 by (rule signed_take_bit_int_less_eq)
    ultimately show ?thesis using 2 b s unfolding d_def by linarith
  next
    case 3
    then have "signed_take_bit n d = d" by (simp add: signed_take_bit_int_eq_self)
    then show ?thesis using 3 s unfolding d_def by linarith
  qed
qed

lemma cond_after_sub: "cond_holds k (arch_sub x y False) = compared k x y"
proof -
  have z: "x - y = 0 \<longleftrightarrow> x = y" by simp
  have l: "fl_SF (arch_sub x y False) \<noteq> fl_OF (arch_sub x y False) \<longleftrightarrow> sint x < sint y"
    using sint_minus_less [of x y] by (simp add: arch_sub_def)
  show ?thesis
  proof (cases k)
    case cLE
    show ?thesis unfolding cLE cond_holds.simps compared.simps l
      by (auto simp: arch_sub_def le_less intro: signed_word_eqI [where 'a = int])
  next
    case cNLE
    have "fl_SF (arch_sub x y False) = fl_OF (arch_sub x y False) \<longleftrightarrow> \<not> sint x < sint y" using l by blast
    moreover have "sint y < sint x \<longleftrightarrow> x \<noteq> y \<and> \<not> sint x < sint y"
      by (metis linorder_neqE word_eq_iff_signed order_less_asym)
    ultimately show ?thesis unfolding cNLE cond_holds.simps compared.simps by (simp add: arch_sub_def)
  next
    case cNL
    then show ?thesis using l by auto
  next
    case cL
    show ?thesis unfolding cL cond_holds.simps compared.simps l ..
  qed (auto simp: arch_sub_def le_less intro: word_uint_eqI)
qed

abbreviation "set_cond b j \<equiv> wr8 j (i_dst j) (of_bool b)"

lemma CMP_flags:
  assumes "cpu_abs d = arch_CMP rd n y c"
  shows "holds k d = compared k (rd n c) y"
proof -
  have "lf_abs (oszapc d) = arch_sub (rd n c) y False"
    using arg_cong [OF assms, of ar_flags] by (simp add: arch_CMP_def cpu_abs_def)
  then show ?thesis by (simp add: cond_after_sub)
qed

lemmas CMP_conditions = SUB_8_sim(5,6) [THEN CMP_flags] SUB_16_sim(5,6) [THEN CMP_flags]
  SUB_32_sim(5,6) [THEN CMP_flags] SUB_64_sim(5,6) [THEN CMP_flags]

section \<open>Data movement\<close>

lemma write_keeps_flags:
  "lf_abs (oszapc (BX_WRITE_8BIT_REGx n x v8 c)) = lf_abs (oszapc c)"
  "lf_abs (oszapc (BX_WRITE_16BIT_REG n v16 c)) = lf_abs (oszapc c)"
  "lf_abs (oszapc (BX_WRITE_32BIT_REGZ n v32 c)) = lf_abs (oszapc c)"
  "lf_abs (oszapc (BX_WRITE_64BIT_REG n v64 c)) = lf_abs (oszapc c)"
  by (simp_all add: reg_laws)

lemma MOVZX_value:
  "uint (BX_READ_16BIT_REG (i_dst i) (MOVZX_GwEbR i c)) = uint (rd8 i (i_src i) c)"
  "uint (BX_READ_32BIT_REG (i_dst i) (MOVZX_GdEbR i c)) = uint (rd8 i (i_src i) c)"
  "uint (BX_READ_64BIT_REG (i_dst i) (MOVZX_GqEbR i c)) = uint (rd8 i (i_src i) c)"
  "uint (BX_READ_32BIT_REG (i_dst i) (MOVZX_GdEwR i c)) = uint (BX_READ_16BIT_REG (i_src i) c)"
  "uint (BX_READ_64BIT_REG (i_dst i) (MOVZX_GqEwR i c)) = uint (BX_READ_16BIT_REG (i_src i) c)"
  by (simp_all add: MOVZX_GwEbR_def MOVZX_GdEbR_def MOVZX_GqEbR_def MOVZX_GdEwR_def MOVZX_GqEwR_def
      Let_def reg16.rd_wr reg32.rd_wr reg64.rd_wr uint_ucast_up)

lemma MOVSX_value:
  "sint (BX_READ_16BIT_REG (i_dst i) (MOVSX_GwEbR i c)) = sint (rd8 i (i_src i) c)"
  "sint (BX_READ_32BIT_REG (i_dst i) (MOVSX_GdEbR i c)) = sint (rd8 i (i_src i) c)"
  "sint (BX_READ_64BIT_REG (i_dst i) (MOVSX_GqEbR i c)) = sint (rd8 i (i_src i) c)"
  "sint (BX_READ_32BIT_REG (i_dst i) (MOVSX_GdEwR i c)) = sint (BX_READ_16BIT_REG (i_src i) c)"
  "sint (BX_READ_64BIT_REG (i_dst i) (MOVSX_GqEwR i c)) = sint (BX_READ_16BIT_REG (i_src i) c)"
  "sint (BX_READ_64BIT_REG (i_dst i) (MOVSX_GqEdR i c)) = sint (BX_READ_32BIT_REG (i_src i) c)"
  by (simp_all add: MOVSX_GwEbR_def MOVSX_GdEbR_def MOVSX_GqEbR_def MOVSX_GdEwR_def MOVSX_GqEwR_def
      MOVSX_GqEdR_def Let_def reg16.rd_wr reg32.rd_wr reg64.rd_wr sint_up_scast is_up)

text \<open>XCHG swaps its operands, also when they are the two halves of one register.\<close>

lemma XCHG_swaps:
  "rd8 i (i_dst i) (XCHG_EbGbR i c) = rd8 i (i_src i) c" "rd8 i (i_src i) (XCHG_EbGbR i c) = rd8 i (i_dst i) c"
  "BX_READ_32BIT_REG (i_dst i) (XCHG_EdGdR i c) = BX_READ_32BIT_REG (i_src i) c"
  "BX_READ_32BIT_REG (i_src i) (XCHG_EdGdR i c) = BX_READ_32BIT_REG (i_dst i) c"
  "BX_READ_64BIT_REG (i_dst i) (XCHG_EqGqR i c) = BX_READ_64BIT_REG (i_src i) c"
  "BX_READ_64BIT_REG (i_src i) (XCHG_EqGqR i c) = BX_READ_64BIT_REG (i_dst i) c"
  by (simp_all add: XCHG_EbGbR_def XCHG_EdGdR_def XCHG_EqGqR_def Let_def reg8.rd_wr reg32.rd_wr reg64.rd_wr)

section \<open>Properties\<close>

text \<open>A conditional move writes its destination exactly when its condition holds; the 32-bit form clears the upper half of the destination in both cases, and no form changes a flag or another register.\<close>

theorem cmov_correct:
  "(cpu_abs (CMOVcc16 k i c) = (if holds k c
      then \<lparr>ar_reg = gen_reg (BX_WRITE_16BIT_REG (i_dst i) (BX_READ_16BIT_REG (i_src i) c) c), ar_flags = lf_abs (oszapc c)\<rparr>
      else cpu_abs c)) \<and>
   (cpu_abs (CMOVcc32 k i c) = \<lparr>ar_reg = gen_reg (BX_WRITE_32BIT_REGZ (i_dst i)
      (BX_READ_32BIT_REG (if holds k c then i_src i else i_dst i) c) c), ar_flags = lf_abs (oszapc c)\<rparr>) \<and>
   (cpu_abs (CMOVcc64 k i c) = (if holds k c
      then \<lparr>ar_reg = gen_reg (BX_WRITE_64BIT_REG (i_dst i) (BX_READ_64BIT_REG (i_src i) c) c), ar_flags = lf_abs (oszapc c)\<rparr>
      else cpu_abs c))"
  unfolding CMOVcc_sim by (simp add: cpu_abs_def write_keeps_flags)

text \<open>SETcc after CMP, for the sixteen conditions, the register and immediate forms and the four operand sizes: the byte register receives 1 when the condition holds of the compared operands as numbers (below and above on the unsigned values, less and greater on the signed values, also when the subtraction overflows) and 0 otherwise.\<close>

theorem setcc_after_cmp:
  "(SETcc k j (CMP_GbEbR i c) = set_cond (compared k (rd8 i (i_dst i) c) (rd8 i (i_src i) c)) j (CMP_GbEbR i c)) \<and>
   (SETcc k j (CMP_EbIbR i c) = set_cond (compared k (rd8 i (i_dst i) c) (i_Ib i)) j (CMP_EbIbR i c)) \<and>
   (SETcc k j (CMP_GwEwR i c) = set_cond (compared k (BX_READ_16BIT_REG (i_dst i) c) (BX_READ_16BIT_REG (i_src i) c)) j (CMP_GwEwR i c)) \<and>
   (SETcc k j (CMP_EwIwR i c) = set_cond (compared k (BX_READ_16BIT_REG (i_dst i) c) (i_Iw i)) j (CMP_EwIwR i c)) \<and>
   (SETcc k j (CMP_GdEdR i c) = set_cond (compared k (BX_READ_32BIT_REG (i_dst i) c) (BX_READ_32BIT_REG (i_src i) c)) j (CMP_GdEdR i c)) \<and>
   (SETcc k j (CMP_EdIdR i c) = set_cond (compared k (BX_READ_32BIT_REG (i_dst i) c) (i_Id i)) j (CMP_EdIdR i c)) \<and>
   (SETcc k j (CMP_GqEqR i c) = set_cond (compared k (BX_READ_64BIT_REG (i_dst i) c) (BX_READ_64BIT_REG (i_src i) c)) j (CMP_GqEqR i c)) \<and>
   (SETcc k j (CMP_EqIdR i c) = set_cond (compared k (BX_READ_64BIT_REG (i_dst i) c) (scast (i_Id i))) j (CMP_EqIdR i c))"
  unfolding SETcc_sim CMP_conditions by simp

end
