(* ===== verification/Shift.thy ===== *)
theory Shift
  imports Logic Conditions
begin

text \<open>
  The shift and rotate instructions of cpu/shift8.cc, shift16.cc, shift32.cc and shift64.cc: the
  register forms of ROL, ROR, RCL, RCR, SHL, SHR and SAR at the four operand sizes and of SHLD
  and SHRD at 16, 32 and 64 bits, with the rotation helpers of cpu/scalar\_arith.h. The code
  computes every result at once with shifts of the masked count; it is proved to do what
  repeating the single-bit step of the instruction that many times does, for every count,
  with the carry flag the last bit that left the operand. A count is held as a natural number,
  the handlers' 32-bit intermediates as words. The memory forms (suffix M) are not part of this
  theory.
\<close>

section \<open>State\<close>

text \<open>
  The opcodes the handlers compare with: those that take the count from CL. \<open>BX_IA_count_Ib\<close>
  stands for the other opcodes that select one of these handlers, with the count in the immediate.
\<close>

datatype ia_opcode = BX_IA_ROL_Eb | BX_IA_ROR_Eb | BX_IA_RCL_Eb | BX_IA_RCR_Eb
  | BX_IA_SHL_Eb | BX_IA_SHR_Eb | BX_IA_SAR_Eb | BX_IA_ROL_Ew
  | BX_IA_ROR_Ew | BX_IA_RCL_Ew | BX_IA_RCR_Ew | BX_IA_SHL_Ew
  | BX_IA_SHR_Ew | BX_IA_SAR_Ew | BX_IA_SHLD_EwGw | BX_IA_SHRD_EwGw
  | BX_IA_ROL_Ed | BX_IA_ROR_Ed | BX_IA_RCL_Ed | BX_IA_RCR_Ed
  | BX_IA_SHL_Ed | BX_IA_SHR_Ed | BX_IA_SAR_Ed | BX_IA_SHLD_EdGd
  | BX_IA_SHRD_EdGd | BX_IA_ROL_Eq | BX_IA_ROR_Eq | BX_IA_RCL_Eq
  | BX_IA_RCR_Eq | BX_IA_SHL_Eq | BX_IA_SHR_Eq | BX_IA_SAR_Eq
  | BX_IA_SHLD_EqGq | BX_IA_SHRD_EqGq
  | BX_IA_count_Ib

record bxInstruction_op = bxInstruction +
  getIaOpcode :: ia_opcode

definition CL :: "bx_cpu \<Rightarrow> u8" where "CL c = rl (gen_reg c 1)"

section \<open>Rotation helpers (cpu/scalar\_arith.h)\<close>

definition rol8 :: "u8 \<Rightarrow> nat \<Rightarrow> u8" where
  "rol8 v8 count = ucast (push_bit count (ucast v8 :: u32) OR drop_bit (8 - count) (ucast v8))"

definition ror8 :: "u8 \<Rightarrow> nat \<Rightarrow> u8" where
  "ror8 v8 count = ucast (drop_bit count (ucast v8 :: u32) OR push_bit (8 - count) (ucast v8))"

definition rol16 :: "u16 \<Rightarrow> nat \<Rightarrow> u16" where
  "rol16 v16 count = ucast (push_bit count (ucast v16 :: u32) OR drop_bit (16 - count) (ucast v16))"

definition ror16 :: "u16 \<Rightarrow> nat \<Rightarrow> u16" where
  "ror16 v16 count = ucast (drop_bit count (ucast v16 :: u32) OR push_bit (16 - count) (ucast v16))"

definition rol32 :: "u32 \<Rightarrow> nat \<Rightarrow> u32" where
  "rol32 v32 count = push_bit count v32 OR drop_bit (32 - count) v32"

definition ror32 :: "u32 \<Rightarrow> nat \<Rightarrow> u32" where
  "ror32 v32 count = drop_bit count v32 OR push_bit (32 - count) v32"

definition rol64 :: "u64 \<Rightarrow> nat \<Rightarrow> u64" where
  "rol64 v64 count = push_bit count v64 OR drop_bit (64 - count) v64"

definition ror64 :: "u64 \<Rightarrow> nat \<Rightarrow> u64" where
  "ror64 v64 count = drop_bit count v64 OR push_bit (64 - count) v64"

section \<open>8-bit handlers (cpu/shift8.cc)\<close>

definition ROL_EbR :: "bxInstruction_op \<Rightarrow> bx_cpu \<Rightarrow> bx_cpu" where
  "ROL_EbR i c =
     (let count = unat (if getIaOpcode i = BX_IA_ROL_Eb then CL c else i_Ib i);
          op1_8 = BX_READ_8BIT_REGx (i_dst i) (i_extend8bitL i) c
      in if count AND 0x07 = 0
         then if count AND 0x18 \<noteq> 0
              then let bit0 = ucast (op1_8 AND 1) :: u32;
                       bit7 = ucast (drop_bit 7 op1_8)
                   in upd_lf (set_flags_OxxxxC (bit0 XOR bit7) bit0) c
              else c
         else let count = count AND 0x7;
                  result_8 = rol8 op1_8 count;
                  c = BX_WRITE_8BIT_REGx (i_dst i) (i_extend8bitL i) result_8 c;
                  bit0 = ucast (result_8 AND 1) :: u32;
                  bit7 = ucast (drop_bit 7 result_8)
              in upd_lf (set_flags_OxxxxC (bit0 XOR bit7) bit0) c)"

definition ROR_EbR :: "bxInstruction_op \<Rightarrow> bx_cpu \<Rightarrow> bx_cpu" where
  "ROR_EbR i c =
     (let count = unat (if getIaOpcode i = BX_IA_ROR_Eb then CL c else i_Ib i);
          op1_8 = BX_READ_8BIT_REGx (i_dst i) (i_extend8bitL i) c
      in if count AND 0x07 = 0
         then if count AND 0x18 \<noteq> 0
              then let bit6 = drop_bit 6 (ucast op1_8) AND 1 :: u32;
                       bit7 = drop_bit 7 (ucast op1_8) AND 1
                   in upd_lf (set_flags_OxxxxC (bit6 XOR bit7) bit7) c
              else c
         else let count = count AND 0x7;
                  result_8 = ror8 op1_8 count;
                  c = BX_WRITE_8BIT_REGx (i_dst i) (i_extend8bitL i) result_8 c;
                  bit6 = drop_bit 6 (ucast result_8) AND 1 :: u32;
                  bit7 = drop_bit 7 (ucast result_8) AND 1
              in upd_lf (set_flags_OxxxxC (bit6 XOR bit7) bit7) c)"

definition RCL_EbR :: "bxInstruction_op \<Rightarrow> bx_cpu \<Rightarrow> bx_cpu" where
  "RCL_EbR i c =
     (let count = unat (if getIaOpcode i = BX_IA_RCL_Eb then CL c else i_Ib i);
          count = (count AND 0x1f) mod 9
      in if count = 0 then c
         else let op1_8 = BX_READ_8BIT_REGx (i_dst i) (i_extend8bitL i) c;
                  temp_CF = getB_CF (oszapc c);
                  result_8 = (if count = 1 then ucast (push_bit 1 (ucast op1_8 :: u32) OR temp_CF)
                       else ucast (push_bit count (ucast op1_8 :: u32) OR push_bit (count - 1) temp_CF
                         OR drop_bit (9 - count) (ucast op1_8)));
                  c = BX_WRITE_8BIT_REGx (i_dst i) (i_extend8bitL i) result_8 c;
                  cf = drop_bit (8 - count) (ucast op1_8) AND 1;
                  ofl = cf XOR ucast (drop_bit 7 result_8)
              in upd_lf (set_flags_OxxxxC ofl cf) c)"

definition RCR_EbR :: "bxInstruction_op \<Rightarrow> bx_cpu \<Rightarrow> bx_cpu" where
  "RCR_EbR i c =
     (let count = unat (if getIaOpcode i = BX_IA_RCR_Eb then CL c else i_Ib i);
          count = (count AND 0x1f) mod 9
      in if count = 0 then c
         else let op1_8 = BX_READ_8BIT_REGx (i_dst i) (i_extend8bitL i) c;
                  temp_CF = getB_CF (oszapc c);
                  result_8 = ucast (drop_bit count (ucast op1_8 :: u32) OR push_bit (8 - count) temp_CF
                    OR push_bit (9 - count) (ucast op1_8));
                  c = BX_WRITE_8BIT_REGx (i_dst i) (i_extend8bitL i) result_8 c;
                  cf = drop_bit (count - 1) (ucast op1_8) AND 1;
                  ofl = drop_bit 7 (push_bit 1 (ucast result_8 :: u32) XOR ucast result_8) AND 1
              in upd_lf (set_flags_OxxxxC ofl cf) c)"

definition SHL_EbR :: "bxInstruction_op \<Rightarrow> bx_cpu \<Rightarrow> bx_cpu" where
  "SHL_EbR i c =
     (let count = unat (if getIaOpcode i = BX_IA_SHL_Eb then CL c else i_Ib i);
          count = count AND 0x1f
      in if count = 0 then c
         else let op1_8 = BX_READ_8BIT_REGx (i_dst i) (i_extend8bitL i) c;
                  (result_8, ofl, cf) =
                    (if count \<le> 8
                     then let result_8 = ucast (push_bit count (ucast op1_8 :: u32));
                              cf = drop_bit (8 - count) (ucast op1_8) AND 1
                          in (result_8, cf XOR ucast (drop_bit 7 result_8), cf)
                     else (0, 0, 0));
                  c = BX_WRITE_8BIT_REGx (i_dst i) (i_extend8bitL i) result_8 c;
                  c = upd_lf (SET_FLAGS_OSZAPC_LOGIC 8 (ucast result_8 :: u32)) c
              in upd_lf (set_flags_OxxxxC ofl cf) c)"

definition SHR_EbR :: "bxInstruction_op \<Rightarrow> bx_cpu \<Rightarrow> bx_cpu" where
  "SHR_EbR i c =
     (let count = unat (if getIaOpcode i = BX_IA_SHR_Eb then CL c else i_Ib i);
          count = count AND 0x1f
      in if count = 0 then c
         else let op1_8 = BX_READ_8BIT_REGx (i_dst i) (i_extend8bitL i) c;
                  result_8 = drop_bit count op1_8;
                  c = BX_WRITE_8BIT_REGx (i_dst i) (i_extend8bitL i) result_8 c;
                  cf = drop_bit (count - 1) (ucast op1_8) AND 1;
                  ofl = drop_bit 7 (push_bit 1 (ucast result_8 :: u32) XOR ucast result_8) AND 1;
                  c = upd_lf (SET_FLAGS_OSZAPC_LOGIC 8 (ucast result_8 :: u32)) c
              in upd_lf (set_flags_OxxxxC ofl cf) c)"

definition SAR_EbR :: "bxInstruction_op \<Rightarrow> bx_cpu \<Rightarrow> bx_cpu" where
  "SAR_EbR i c =
     (let count = unat (if getIaOpcode i = BX_IA_SAR_Eb then CL c else i_Ib i);
          count = count AND 0x1f
      in if count = 0 then c
         else let op1_8 = BX_READ_8BIT_REGx (i_dst i) (i_extend8bitL i) c;
                  result_8 = ucast (signed_drop_bit count (scast op1_8 :: u32));
                  c = BX_WRITE_8BIT_REGx (i_dst i) (i_extend8bitL i) result_8 c;
                  cf = signed_drop_bit (count - 1) (scast op1_8 :: u32) AND 1;
                  c = upd_lf (SET_FLAGS_OSZAPC_LOGIC 8 (ucast result_8 :: u32)) c
              in upd_lf (set_flags_OxxxxC 0 cf) c)"

section \<open>16-bit handlers (cpu/shift16.cc)\<close>

definition ROL_EwR :: "bxInstruction_op \<Rightarrow> bx_cpu \<Rightarrow> bx_cpu" where
  "ROL_EwR i c =
     (let count = unat (if getIaOpcode i = BX_IA_ROL_Ew then CL c else i_Ib i);
          op1_16 = BX_READ_16BIT_REG (i_dst i) c
      in if count AND 0x0f = 0
         then if count AND 0x10 \<noteq> 0
              then let bit0 = ucast (op1_16 AND 1) :: u32;
                       bit15 = ucast (drop_bit 15 op1_16)
                   in upd_lf (set_flags_OxxxxC (bit0 XOR bit15) bit0) c
              else c
         else let count = count AND 0x0f;
                  result_16 = rol16 op1_16 count;
                  c = BX_WRITE_16BIT_REG (i_dst i) result_16 c;
                  bit0 = ucast (result_16 AND 1) :: u32;
                  bit15 = ucast (drop_bit 15 result_16)
              in upd_lf (set_flags_OxxxxC (bit0 XOR bit15) bit0) c)"

definition ROR_EwR :: "bxInstruction_op \<Rightarrow> bx_cpu \<Rightarrow> bx_cpu" where
  "ROR_EwR i c =
     (let count = unat (if getIaOpcode i = BX_IA_ROR_Ew then CL c else i_Ib i);
          op1_16 = BX_READ_16BIT_REG (i_dst i) c
      in if count AND 0x0f = 0
         then if count AND 0x10 \<noteq> 0
              then let bit14 = drop_bit 14 (ucast op1_16) AND 1 :: u32;
                       bit15 = drop_bit 15 (ucast op1_16) AND 1
                   in upd_lf (set_flags_OxxxxC (bit14 XOR bit15) bit15) c
              else c
         else let count = count AND 0x0f;
                  result_16 = ror16 op1_16 count;
                  c = BX_WRITE_16BIT_REG (i_dst i) result_16 c;
                  bit14 = drop_bit 14 (ucast result_16) AND 1 :: u32;
                  bit15 = drop_bit 15 (ucast result_16) AND 1
              in upd_lf (set_flags_OxxxxC (bit14 XOR bit15) bit15) c)"

definition RCL_EwR :: "bxInstruction_op \<Rightarrow> bx_cpu \<Rightarrow> bx_cpu" where
  "RCL_EwR i c =
     (let count = unat (if getIaOpcode i = BX_IA_RCL_Ew then CL c else i_Ib i);
          count = (count AND 0x1f) mod 17
      in if count = 0 then c
         else let op1_16 = BX_READ_16BIT_REG (i_dst i) c;
                  temp_CF = getB_CF (oszapc c);
                  result_16 = (if count = 1 then ucast (push_bit 1 (ucast op1_16 :: u32) OR temp_CF)
                       else if count = 16 then ucast (push_bit 15 temp_CF OR drop_bit 1 (ucast op1_16 :: u32))
                       else ucast (push_bit count (ucast op1_16 :: u32) OR push_bit (count - 1) temp_CF
                         OR drop_bit (17 - count) (ucast op1_16)));
                  c = BX_WRITE_16BIT_REG (i_dst i) result_16 c;
                  cf = drop_bit (16 - count) (ucast op1_16) AND 1;
                  ofl = cf XOR ucast (drop_bit 15 result_16)
              in upd_lf (set_flags_OxxxxC ofl cf) c)"

definition RCR_EwR :: "bxInstruction_op \<Rightarrow> bx_cpu \<Rightarrow> bx_cpu" where
  "RCR_EwR i c =
     (let count = unat (if getIaOpcode i = BX_IA_RCR_Ew then CL c else i_Ib i);
          count = (count AND 0x1f) mod 17
      in if count = 0 then c
         else let op1_16 = BX_READ_16BIT_REG (i_dst i) c;
                  temp_CF = getB_CF (oszapc c);
                  result_16 = ucast (drop_bit count (ucast op1_16 :: u32)
                    OR push_bit (16 - count) temp_CF OR push_bit (17 - count) (ucast op1_16));
                  c = BX_WRITE_16BIT_REG (i_dst i) result_16 c;
                  cf = drop_bit (count - 1) (ucast op1_16) AND 1;
                  ofl = ucast (drop_bit 15 (ucast (push_bit 1 (ucast result_16 :: u32) XOR ucast result_16) :: u16)) AND 1
              in upd_lf (set_flags_OxxxxC ofl cf) c)"

definition SHL_EwR :: "bxInstruction_op \<Rightarrow> bx_cpu \<Rightarrow> bx_cpu" where
  "SHL_EwR i c =
     (let count = unat (if getIaOpcode i = BX_IA_SHL_Ew then CL c else i_Ib i);
          count = count AND 0x1f
      in if count = 0 then c
         else let op1_16 = BX_READ_16BIT_REG (i_dst i) c;
                  (result_16, ofl, cf) =
                    (if count \<le> 16
                     then let result_16 = ucast (push_bit count (ucast op1_16 :: u32));
                              cf = drop_bit (16 - count) (ucast op1_16) AND 1
                          in (result_16, cf XOR ucast (drop_bit 15 result_16), cf)
                     else (0, 0, 0));
                  c = BX_WRITE_16BIT_REG (i_dst i) result_16 c;
                  c = upd_lf (SET_FLAGS_OSZAPC_LOGIC 16 (ucast result_16 :: u32)) c
              in upd_lf (set_flags_OxxxxC ofl cf) c)"

definition SHR_EwR :: "bxInstruction_op \<Rightarrow> bx_cpu \<Rightarrow> bx_cpu" where
  "SHR_EwR i c =
     (let count = unat (if getIaOpcode i = BX_IA_SHR_Ew then CL c else i_Ib i);
          count = count AND 0x1f
      in if count = 0 then c
         else let op1_16 = BX_READ_16BIT_REG (i_dst i) c;
                  result_16 = drop_bit count op1_16;
                  c = BX_WRITE_16BIT_REG (i_dst i) result_16 c;
                  cf = drop_bit (count - 1) (ucast op1_16) AND 1;
                  ofl = ucast (drop_bit 15 (ucast (push_bit 1 (ucast result_16 :: u32) XOR ucast result_16) :: u16)) AND 1;
                  c = upd_lf (SET_FLAGS_OSZAPC_LOGIC 16 (ucast result_16 :: u32)) c
              in upd_lf (set_flags_OxxxxC ofl cf) c)"

definition SAR_EwR :: "bxInstruction_op \<Rightarrow> bx_cpu \<Rightarrow> bx_cpu" where
  "SAR_EwR i c =
     (let count = unat (if getIaOpcode i = BX_IA_SAR_Ew then CL c else i_Ib i);
          count = count AND 0x1f
      in if count = 0 then c
         else let op1_16 = BX_READ_16BIT_REG (i_dst i) c;
                  result_16 = ucast (signed_drop_bit count (scast op1_16 :: u32));
                  c = BX_WRITE_16BIT_REG (i_dst i) result_16 c;
                  cf = signed_drop_bit (count - 1) (scast op1_16 :: u32) AND 1;
                  c = upd_lf (SET_FLAGS_OSZAPC_LOGIC 16 (ucast result_16 :: u32)) c
              in upd_lf (set_flags_OxxxxC 0 cf) c)"

definition SHLD_EwGwR :: "bxInstruction_op \<Rightarrow> bx_cpu \<Rightarrow> bx_cpu" where
  "SHLD_EwGwR i c =
     (let count = unat (if getIaOpcode i = BX_IA_SHLD_EwGw then CL c else i_Ib i);
          count = count AND 0x1f
      in if count = 0 then c
         else let op1_16 = ucast (BX_READ_16BIT_REG (i_dst i) c) :: u32;
                  op2_16 = ucast (BX_READ_16BIT_REG (i_src i) c) :: u32;
                  temp_32 = push_bit 16 op1_16 OR op2_16;
                  result_32 = push_bit count temp_32;
                  result_32 = (if 16 < count then result_32 OR push_bit (count - 16) op1_16 else result_32);
                  result_16 = ucast (drop_bit 16 result_32) :: u16;
                  c = BX_WRITE_16BIT_REG (i_dst i) result_16 c;
                  c = upd_lf (SET_FLAGS_OSZAPC_LOGIC 16 (ucast result_16 :: u32)) c;
                  cf = drop_bit (32 - count) temp_32 AND 1;
                  ofl = cf XOR ucast (drop_bit 15 result_16)
              in upd_lf (set_flags_OxxxxC ofl cf) c)"

definition SHRD_EwGwR :: "bxInstruction_op \<Rightarrow> bx_cpu \<Rightarrow> bx_cpu" where
  "SHRD_EwGwR i c =
     (let count = unat (if getIaOpcode i = BX_IA_SHRD_EwGw then CL c else i_Ib i);
          count = count AND 0x1f
      in if count = 0 then c
         else let op1_16 = ucast (BX_READ_16BIT_REG (i_dst i) c) :: u32;
                  op2_16 = ucast (BX_READ_16BIT_REG (i_src i) c) :: u32;
                  temp_32 = push_bit 16 op2_16 OR op1_16;
                  result_32 = drop_bit count temp_32;
                  result_32 = (if 16 < count then result_32 OR push_bit (32 - count) op1_16 else result_32);
                  result_16 = ucast result_32 :: u16;
                  c = BX_WRITE_16BIT_REG (i_dst i) result_16 c;
                  c = upd_lf (SET_FLAGS_OSZAPC_LOGIC 16 (ucast result_16 :: u32)) c;
                  cf = drop_bit (count - 1) op1_16 AND 1;
                  ofl = ucast (drop_bit 15 (ucast (push_bit 1 (ucast result_16 :: u32) XOR ucast result_16) :: u16)) AND 1;
                  cf = (if 16 < count then drop_bit (count - 17) op2_16 AND 1 else cf)
              in upd_lf (set_flags_OxxxxC ofl cf) c)"

section \<open>32-bit handlers (cpu/shift32.cc)\<close>

definition ROL_EdR :: "bxInstruction_op \<Rightarrow> bx_cpu \<Rightarrow> bx_cpu" where
  "ROL_EdR i c =
     (let count = unat (if getIaOpcode i = BX_IA_ROL_Ed then CL c else i_Ib i);
          count = count AND 0x1f
      in if count = 0 then BX_CLEAR_64BIT_HIGH (i_dst i) c
         else let op1_32 = BX_READ_32BIT_REG (i_dst i) c;
                  result_32 = rol32 op1_32 count;
                  c = BX_WRITE_32BIT_REGZ (i_dst i) result_32 c;
                  bit0 = result_32 AND 1 :: u32;
                  bit31 = drop_bit 31 result_32
              in upd_lf (set_flags_OxxxxC (bit0 XOR bit31) bit0) c)"

definition ROR_EdR :: "bxInstruction_op \<Rightarrow> bx_cpu \<Rightarrow> bx_cpu" where
  "ROR_EdR i c =
     (let count = unat (if getIaOpcode i = BX_IA_ROR_Ed then CL c else i_Ib i);
          count = count AND 0x1f
      in if count = 0 then BX_CLEAR_64BIT_HIGH (i_dst i) c
         else let op1_32 = BX_READ_32BIT_REG (i_dst i) c;
                  result_32 = ror32 op1_32 count;
                  c = BX_WRITE_32BIT_REGZ (i_dst i) result_32 c;
                  bit30 = drop_bit 30 result_32 AND 1 :: u32;
                  bit31 = drop_bit 31 result_32 AND 1
              in upd_lf (set_flags_OxxxxC (bit30 XOR bit31) bit31) c)"

definition RCL_EdR :: "bxInstruction_op \<Rightarrow> bx_cpu \<Rightarrow> bx_cpu" where
  "RCL_EdR i c =
     (let count = unat (if getIaOpcode i = BX_IA_RCL_Ed then CL c else i_Ib i);
          count = count AND 0x1f
      in if count = 0 then BX_CLEAR_64BIT_HIGH (i_dst i) c
         else let op1_32 = BX_READ_32BIT_REG (i_dst i) c;
                  temp_CF = getB_CF (oszapc c);
                  result_32 = (if count = 1 then push_bit 1 op1_32 OR temp_CF
                       else push_bit count op1_32 OR push_bit (count - 1) temp_CF
                         OR drop_bit (33 - count) op1_32);
                  c = BX_WRITE_32BIT_REGZ (i_dst i) result_32 c;
                  cf = drop_bit (32 - count) op1_32 AND 1;
                  ofl = cf XOR drop_bit 31 result_32
              in upd_lf (set_flags_OxxxxC ofl cf) c)"

definition RCR_EdR :: "bxInstruction_op \<Rightarrow> bx_cpu \<Rightarrow> bx_cpu" where
  "RCR_EdR i c =
     (let count = unat (if getIaOpcode i = BX_IA_RCR_Ed then CL c else i_Ib i);
          count = count AND 0x1f
      in if count = 0 then BX_CLEAR_64BIT_HIGH (i_dst i) c
         else let op1_32 = BX_READ_32BIT_REG (i_dst i) c;
                  temp_CF = getB_CF (oszapc c);
                  result_32 = (if count = 1 then drop_bit 1 op1_32 OR push_bit 31 temp_CF
                       else drop_bit count op1_32 OR push_bit (32 - count) temp_CF
                         OR push_bit (33 - count) op1_32);
                  c = BX_WRITE_32BIT_REGZ (i_dst i) result_32 c;
                  cf = drop_bit (count - 1) op1_32 AND 1;
                  ofl = drop_bit 31 (push_bit 1 result_32 XOR result_32)
              in upd_lf (set_flags_OxxxxC ofl cf) c)"

definition SHL_EdR :: "bxInstruction_op \<Rightarrow> bx_cpu \<Rightarrow> bx_cpu" where
  "SHL_EdR i c =
     (let count = unat (if getIaOpcode i = BX_IA_SHL_Ed then CL c else i_Ib i);
          count = count AND 0x1f
      in if count = 0 then BX_CLEAR_64BIT_HIGH (i_dst i) c
         else let op1_32 = BX_READ_32BIT_REG (i_dst i) c;
                  result_32 = push_bit count op1_32;
                  c = BX_WRITE_32BIT_REGZ (i_dst i) result_32 c;
                  cf = drop_bit (32 - count) op1_32 AND 1;
                  ofl = cf XOR drop_bit 31 result_32;
                  c = upd_lf (SET_FLAGS_OSZAPC_LOGIC 32 result_32) c
              in upd_lf (set_flags_OxxxxC ofl cf) c)"

definition SHR_EdR :: "bxInstruction_op \<Rightarrow> bx_cpu \<Rightarrow> bx_cpu" where
  "SHR_EdR i c =
     (let count = unat (if getIaOpcode i = BX_IA_SHR_Ed then CL c else i_Ib i);
          count = count AND 0x1f
      in if count = 0 then BX_CLEAR_64BIT_HIGH (i_dst i) c
         else let op1_32 = BX_READ_32BIT_REG (i_dst i) c;
                  result_32 = drop_bit count op1_32;
                  c = BX_WRITE_32BIT_REGZ (i_dst i) result_32 c;
                  cf = drop_bit (count - 1) op1_32 AND 1;
                  ofl = drop_bit 31 (push_bit 1 result_32 XOR result_32);
                  c = upd_lf (SET_FLAGS_OSZAPC_LOGIC 32 result_32) c
              in upd_lf (set_flags_OxxxxC ofl cf) c)"

definition SAR_EdR :: "bxInstruction_op \<Rightarrow> bx_cpu \<Rightarrow> bx_cpu" where
  "SAR_EdR i c =
     (let count = unat (if getIaOpcode i = BX_IA_SAR_Ed then CL c else i_Ib i);
          count = count AND 0x1f
      in if count = 0 then BX_CLEAR_64BIT_HIGH (i_dst i) c
         else let op1_32 = BX_READ_32BIT_REG (i_dst i) c;
                  result_32 = signed_drop_bit count op1_32;
                  c = BX_WRITE_32BIT_REGZ (i_dst i) result_32 c;
                  cf = drop_bit (count - 1) op1_32 AND 1;
                  c = upd_lf (SET_FLAGS_OSZAPC_LOGIC 32 result_32) c
              in upd_lf (set_flags_OxxxxC 0 cf) c)"

definition SHLD_EdGdR :: "bxInstruction_op \<Rightarrow> bx_cpu \<Rightarrow> bx_cpu" where
  "SHLD_EdGdR i c =
     (let count = unat (if getIaOpcode i = BX_IA_SHLD_EdGd then CL c else i_Ib i);
          count = count AND 0x1f
      in if count = 0 then BX_CLEAR_64BIT_HIGH (i_dst i) c
         else let op1_32 = BX_READ_32BIT_REG (i_dst i) c;
                  op2_32 = BX_READ_32BIT_REG (i_src i) c;
                  result_32 = push_bit count op1_32 OR drop_bit (32 - count) op2_32;
                  c = BX_WRITE_32BIT_REGZ (i_dst i) result_32 c;
                  c = upd_lf (SET_FLAGS_OSZAPC_LOGIC 32 result_32) c;
                  cf = drop_bit (32 - count) op1_32 AND 1;
                  ofl = cf XOR drop_bit 31 result_32
              in upd_lf (set_flags_OxxxxC ofl cf) c)"

definition SHRD_EdGdR :: "bxInstruction_op \<Rightarrow> bx_cpu \<Rightarrow> bx_cpu" where
  "SHRD_EdGdR i c =
     (let count = unat (if getIaOpcode i = BX_IA_SHRD_EdGd then CL c else i_Ib i);
          count = count AND 0x1f
      in if count = 0 then BX_CLEAR_64BIT_HIGH (i_dst i) c
         else let op1_32 = BX_READ_32BIT_REG (i_dst i) c;
                  op2_32 = BX_READ_32BIT_REG (i_src i) c;
                  result_32 = push_bit (32 - count) op2_32 OR drop_bit count op1_32;
                  c = BX_WRITE_32BIT_REGZ (i_dst i) result_32 c;
                  c = upd_lf (SET_FLAGS_OSZAPC_LOGIC 32 result_32) c;
                  cf = drop_bit (count - 1) op1_32 AND 1;
                  ofl = drop_bit 31 (push_bit 1 result_32 XOR result_32)
              in upd_lf (set_flags_OxxxxC ofl cf) c)"

section \<open>64-bit handlers (cpu/shift64.cc)\<close>

definition ROL_EqR :: "bxInstruction_op \<Rightarrow> bx_cpu \<Rightarrow> bx_cpu" where
  "ROL_EqR i c =
     (let count = unat (if getIaOpcode i = BX_IA_ROL_Eq then CL c else i_Ib i);
          count = count AND 0x3f
      in if count = 0 then c
         else let op1_64 = BX_READ_64BIT_REG (i_dst i) c;
                  result_64 = rol64 op1_64 count;
                  c = BX_WRITE_64BIT_REG (i_dst i) result_64 c;
                  bit0 = ucast (result_64 AND 1) :: u32;
                  bit63 = ucast (drop_bit 63 result_64)
              in upd_lf (set_flags_OxxxxC (bit0 XOR bit63) bit0) c)"

definition ROR_EqR :: "bxInstruction_op \<Rightarrow> bx_cpu \<Rightarrow> bx_cpu" where
  "ROR_EqR i c =
     (let count = unat (if getIaOpcode i = BX_IA_ROR_Eq then CL c else i_Ib i);
          count = count AND 0x3f
      in if count = 0 then c
         else let op1_64 = BX_READ_64BIT_REG (i_dst i) c;
                  result_64 = ror64 op1_64 count;
                  c = BX_WRITE_64BIT_REG (i_dst i) result_64 c;
                  bit62 = ucast (drop_bit 62 result_64 AND 1) :: u32;
                  bit63 = ucast (drop_bit 63 result_64 AND 1)
              in upd_lf (set_flags_OxxxxC (bit62 XOR bit63) bit63) c)"

definition RCL_EqR :: "bxInstruction_op \<Rightarrow> bx_cpu \<Rightarrow> bx_cpu" where
  "RCL_EqR i c =
     (let count = unat (if getIaOpcode i = BX_IA_RCL_Eq then CL c else i_Ib i);
          count = count AND 0x3f
      in if count = 0 then c
         else let op1_64 = BX_READ_64BIT_REG (i_dst i) c;
                  temp_CF = ucast (getB_CF (oszapc c)) :: u64;
                  result_64 = (if count = 1 then push_bit 1 op1_64 OR temp_CF
                       else push_bit count op1_64 OR push_bit (count - 1) temp_CF
                         OR drop_bit (65 - count) op1_64);
                  c = BX_WRITE_64BIT_REG (i_dst i) result_64 c;
                  cf = ucast (drop_bit (64 - count) op1_64 AND 1);
                  ofl = ucast (ucast cf XOR drop_bit 63 result_64)
              in upd_lf (set_flags_OxxxxC ofl cf) c)"

definition RCR_EqR :: "bxInstruction_op \<Rightarrow> bx_cpu \<Rightarrow> bx_cpu" where
  "RCR_EqR i c =
     (let count = unat (if getIaOpcode i = BX_IA_RCR_Eq then CL c else i_Ib i);
          count = count AND 0x3f
      in if count = 0 then c
         else let op1_64 = BX_READ_64BIT_REG (i_dst i) c;
                  temp_CF = ucast (getB_CF (oszapc c)) :: u64;
                  result_64 = (if count = 1 then drop_bit 1 op1_64 OR push_bit 63 temp_CF
                       else drop_bit count op1_64 OR push_bit (64 - count) temp_CF
                         OR push_bit (65 - count) op1_64);
                  c = BX_WRITE_64BIT_REG (i_dst i) result_64 c;
                  cf = ucast (drop_bit (count - 1) op1_64 AND 1);
                  ofl = ucast (drop_bit 63 (push_bit 1 result_64 XOR result_64))
              in upd_lf (set_flags_OxxxxC ofl cf) c)"

definition SHL_EqR :: "bxInstruction_op \<Rightarrow> bx_cpu \<Rightarrow> bx_cpu" where
  "SHL_EqR i c =
     (let count = unat (if getIaOpcode i = BX_IA_SHL_Eq then CL c else i_Ib i);
          count = count AND 0x3f
      in if count = 0 then c
         else let op1_64 = BX_READ_64BIT_REG (i_dst i) c;
                  result_64 = push_bit count op1_64;
                  c = BX_WRITE_64BIT_REG (i_dst i) result_64 c;
                  cf = ucast (drop_bit (64 - count) op1_64 AND 1);
                  ofl = ucast (ucast cf XOR drop_bit 63 result_64);
                  c = upd_lf (SET_FLAGS_OSZAPC_LOGIC 64 result_64) c
              in upd_lf (set_flags_OxxxxC ofl cf) c)"

definition SHR_EqR :: "bxInstruction_op \<Rightarrow> bx_cpu \<Rightarrow> bx_cpu" where
  "SHR_EqR i c =
     (let count = unat (if getIaOpcode i = BX_IA_SHR_Eq then CL c else i_Ib i);
          count = count AND 0x3f
      in if count = 0 then c
         else let op1_64 = BX_READ_64BIT_REG (i_dst i) c;
                  result_64 = drop_bit count op1_64;
                  c = BX_WRITE_64BIT_REG (i_dst i) result_64 c;
                  cf = ucast (drop_bit (count - 1) op1_64 AND 1);
                  ofl = ucast (drop_bit 63 (push_bit 1 result_64 XOR result_64));
                  c = upd_lf (SET_FLAGS_OSZAPC_LOGIC 64 result_64) c
              in upd_lf (set_flags_OxxxxC ofl cf) c)"

definition SAR_EqR :: "bxInstruction_op \<Rightarrow> bx_cpu \<Rightarrow> bx_cpu" where
  "SAR_EqR i c =
     (let count = unat (if getIaOpcode i = BX_IA_SAR_Eq then CL c else i_Ib i);
          count = count AND 0x3f
      in if count = 0 then c
         else let op1_64 = BX_READ_64BIT_REG (i_dst i) c;
                  result_64 = signed_drop_bit count op1_64;
                  c = BX_WRITE_64BIT_REG (i_dst i) result_64 c;
                  cf = ucast (drop_bit (count - 1) op1_64 AND 1);
                  c = upd_lf (SET_FLAGS_OSZAPC_LOGIC 64 result_64) c
              in upd_lf (set_flags_OxxxxC 0 cf) c)"

definition SHLD_EqGqR :: "bxInstruction_op \<Rightarrow> bx_cpu \<Rightarrow> bx_cpu" where
  "SHLD_EqGqR i c =
     (let count = unat (if getIaOpcode i = BX_IA_SHLD_EqGq then CL c else i_Ib i);
          count = count AND 0x3f
      in if count = 0 then c
         else let op1_64 = BX_READ_64BIT_REG (i_dst i) c;
                  op2_64 = BX_READ_64BIT_REG (i_src i) c;
                  result_64 = push_bit count op1_64 OR drop_bit (64 - count) op2_64;
                  c = BX_WRITE_64BIT_REG (i_dst i) result_64 c;
                  c = upd_lf (SET_FLAGS_OSZAPC_LOGIC 64 result_64) c;
                  cf = ucast (drop_bit (64 - count) op1_64 AND 1);
                  ofl = ucast (ucast cf XOR drop_bit 63 result_64)
              in upd_lf (set_flags_OxxxxC ofl cf) c)"

definition SHRD_EqGqR :: "bxInstruction_op \<Rightarrow> bx_cpu \<Rightarrow> bx_cpu" where
  "SHRD_EqGqR i c =
     (let count = unat (if getIaOpcode i = BX_IA_SHRD_EqGq then CL c else i_Ib i);
          count = count AND 0x3f
      in if count = 0 then c
         else let op1_64 = BX_READ_64BIT_REG (i_dst i) c;
                  op2_64 = BX_READ_64BIT_REG (i_src i) c;
                  result_64 = push_bit (64 - count) op2_64 OR drop_bit count op1_64;
                  c = BX_WRITE_64BIT_REG (i_dst i) result_64 c;
                  c = upd_lf (SET_FLAGS_OSZAPC_LOGIC 64 result_64) c;
                  cf = ucast (drop_bit (count - 1) op1_64 AND 1);
                  ofl = ucast (drop_bit 63 (push_bit 1 result_64 XOR result_64))
              in upd_lf (set_flags_OxxxxC ofl cf) c)"

section \<open>What the instructions promise\<close>

text \<open>
  One step of each instruction on the operand and the carry flag, and of the double shifts
  on the pair of operands: the bit that leaves one operand enters the other.
\<close>

fun step_ROL :: "'a::len word \<times> bool \<Rightarrow> 'a word \<times> bool" where
  "step_ROL (x, cf) = (push_bit 1 x OR of_bool (bit x (LENGTH('a) - 1)), bit x (LENGTH('a) - 1))"

fun step_ROR :: "'a::len word \<times> bool \<Rightarrow> 'a word \<times> bool" where
  "step_ROR (x, cf) = (drop_bit 1 x OR push_bit (LENGTH('a) - 1) (of_bool (bit x 0)), bit x 0)"

fun step_RCL :: "'a::len word \<times> bool \<Rightarrow> 'a word \<times> bool" where
  "step_RCL (x, cf) = (push_bit 1 x OR of_bool cf, bit x (LENGTH('a) - 1))"

fun step_RCR :: "'a::len word \<times> bool \<Rightarrow> 'a word \<times> bool" where
  "step_RCR (x, cf) = (drop_bit 1 x OR push_bit (LENGTH('a) - 1) (of_bool cf), bit x 0)"

fun step_SHL :: "'a::len word \<times> bool \<Rightarrow> 'a word \<times> bool" where
  "step_SHL (x, cf) = (push_bit 1 x, bit x (LENGTH('a) - 1))"

fun step_SHR :: "'a::len word \<times> bool \<Rightarrow> 'a word \<times> bool" where
  "step_SHR (x, cf) = (drop_bit 1 x, bit x 0)"

fun step_SAR :: "'a::len word \<times> bool \<Rightarrow> 'a word \<times> bool" where
  "step_SAR (x, cf) = (signed_drop_bit 1 x, bit x 0)"

fun step_SHLD :: "('a::len word \<times> 'a word) \<times> bool \<Rightarrow> ('a word \<times> 'a word) \<times> bool" where
  "step_SHLD ((x, y), cf) =
     ((push_bit 1 x OR of_bool (bit y (LENGTH('a) - 1)), push_bit 1 y OR of_bool (bit x (LENGTH('a) - 1))),
      bit x (LENGTH('a) - 1))"

fun step_SHRD :: "('a::len word \<times> 'a word) \<times> bool \<Rightarrow> ('a word \<times> 'a word) \<times> bool" where
  "step_SHRD ((x, y), cf) =
     ((drop_bit 1 x OR push_bit (LENGTH('a) - 1) (of_bool (bit y 0)),
       drop_bit 1 y OR push_bit (LENGTH('a) - 1) (of_bool (bit x 0))), bit x 0)"

text \<open>
  The effect of \<open>n\<close> steps: the operand is written, and unless \<open>n\<close> is zero CF is the last bit
  that left it, OF follows the rule of the direction, and the shifts set SF, ZF and PF from
  the result.
\<close>

definition left_OF :: "'a::len word \<Rightarrow> bool \<Rightarrow> bool" where
  "left_OF r cf \<longleftrightarrow> bit r (LENGTH('a) - 1) \<noteq> cf"

definition right_OF :: "'a::len word \<Rightarrow> bool \<Rightarrow> bool" where
  "right_OF r cf \<longleftrightarrow> bit r (LENGTH('a) - 1) \<noteq> bit r (LENGTH('a) - 2)"

definition no_OF :: "'a::len word \<Rightarrow> bool \<Rightarrow> bool" where "no_OF r cf \<longleftrightarrow> False"

definition arch_ROTATE where
  "arch_ROTATE wr ovf d (n :: nat) s c = (case s of (r, cf) \<Rightarrow>
     \<lparr>ar_reg = gen_reg (wr d r c),
      ar_flags = (if n = 0 then lf_abs (oszapc c)
                  else (lf_abs (oszapc c))\<lparr>fl_OF := ovf r cf, fl_CF := cf\<rparr>)\<rparr>)"

definition arch_SHIFT where
  "arch_SHIFT wr ovf d (n :: nat) s c = (case s of (r, cf) \<Rightarrow>
     \<lparr>ar_reg = gen_reg (wr d r c),
      ar_flags = (if n = 0 then lf_abs (oszapc c)
                  else (arch_logic r)\<lparr>fl_OF := ovf r cf, fl_CF := cf\<rparr>)\<rparr>)"

definition arch_DSHIFT where
  "arch_DSHIFT wr ovf d n s c = (case s of ((r, _), cf) \<Rightarrow> arch_SHIFT wr ovf d n (r, cf) c)"

text \<open>The count of an instruction before masking.\<close>

definition shift_count :: "ia_opcode \<Rightarrow> bxInstruction_op \<Rightarrow> bx_cpu \<Rightarrow> nat" where
  "shift_count cl i c = unat (if getIaOpcode i = cl then CL c else i_Ib i)"

section \<open>Closed forms of the iterated steps\<close>

lemma bit_shift_ops:
  "bit (push_bit m x :: 'a::len word) n \<longleftrightarrow> m \<le> n \<and> n < LENGTH('a)
    \<and> bit x (n - m)"
  "bit (drop_bit m x :: 'a word) n \<longleftrightarrow> bit x (m + n)"
  "bit (of_bool b :: 'a word) n \<longleftrightarrow> n = 0 \<and> b"
  "bit (x OR y :: 'a word) n \<longleftrightarrow> bit x n \<or> bit y n"
  by (auto simp: bit_simps bit_push_bit_iff simp del: push_bit_of_1)

text \<open>A step, bit by bit.\<close>

lemma step_bits:
  fixes s :: "'a::len word \<times> bool"
  assumes "k < LENGTH('a)"
  shows "bit (fst (step_ROL s)) k = bit (fst s) (if k = 0 then LENGTH('a) - 1 else k - 1)"
    and "bit (fst (step_ROR s)) k = bit (fst s) (if Suc k = LENGTH('a) then 0 else Suc k)"
    and "bit (fst (step_RCL s)) k = (if k = 0 then snd s else bit (fst s) (k - 1))"
    and "bit (fst (step_RCR s)) k = (if Suc k = LENGTH('a) then snd s else bit (fst s) (Suc k))"
  using assms by (cases s; simp only: step_ROL.simps step_ROR.simps step_RCL.simps step_RCR.simps fst_conv
      snd_conv bit_shift_ops; auto dest: bit_imp_le_length)+

lemma step_carry:
  fixes s :: "'a::len word \<times> bool"
  shows "snd (step_ROL s) = bit (fst s) (LENGTH('a) - 1)" "snd (step_ROR s) = bit (fst s) 0"
    and "snd (step_RCL s) = bit (fst s) (LENGTH('a) - 1)" "snd (step_RCR s) = bit (fst s) 0"
    and "snd (step_SHL s) = bit (fst s) (LENGTH('a) - 1)" "snd (step_SHR s) = bit (fst s) 0"
    and "snd (step_SAR s) = bit (fst s) 0"
  by (cases s; simp)+

text \<open>What holds after one step and is kept by each further one holds after \<open>n\<close> steps.\<close>

lemma iterate_inv:
  assumes "P 1 (f s)" and "\<And>n t. 0 < n \<Longrightarrow> n < m \<Longrightarrow> P n t \<Longrightarrow> P (Suc n) (f t)" and "0 < n" "n \<le> m"
  shows "P n ((f ^^ n) s)"
  using assms(3,4) by (induction n rule: nat_induct_non_zero) (use assms in auto)

lemma last_index: "Suc k = w \<Longrightarrow> k + n - w = n - Suc 0" "Suc k = w \<Longrightarrow> Suc (k + n) - w = n"
  by auto

lemma iter_RCL:
  fixes x :: "'a::len word"
  assumes "0 < n" "n \<le> LENGTH('a)"
  shows "snd ((step_RCL ^^ n) (x, cf)) = bit x (LENGTH('a) - n)"
    and "k < LENGTH('a) \<Longrightarrow> bit (fst ((step_RCL ^^ n) (x, cf))) k
      = (if n \<le> k then bit x (k - n) else if n = Suc k then cf else bit x (LENGTH('a) + 1 + k - n))"
proof -
  have "snd ((step_RCL ^^ n) (x, cf)) = bit x (LENGTH('a) - n)
    \<and> (\<forall>k < LENGTH('a). bit (fst ((step_RCL ^^ n) (x, cf))) k
      = (if n \<le> k then bit x (k - n) else if n = Suc k then cf else bit x (LENGTH('a) + 1 + k - n)))"
    using assms
  proof (rule iterate_inv [rotated -2])
    show "snd (step_RCL (x, cf)) = bit x (LENGTH('a) - 1)
      \<and> (\<forall>k < LENGTH('a). bit (fst (step_RCL (x, cf))) k
        = (if 1 \<le> k then bit x (k - 1) else if 1 = Suc k then cf else bit x (LENGTH('a) + 1 + k - 1)))"
      by (auto simp: step_carry step_bits Suc_le_eq last_index simp del: step_RCL.simps)
    fix n and t :: "'a word \<times> bool"
    assume "0 < n" "n < LENGTH('a)"
      "snd t = bit x (LENGTH('a) - n) \<and> (\<forall>k < LENGTH('a). bit (fst t) k
        = (if n \<le> k then bit x (k - n) else if n = Suc k then cf else bit x (LENGTH('a) + 1 + k - n)))"
    then show "snd (step_RCL t) = bit x (LENGTH('a) - Suc n)
      \<and> (\<forall>k < LENGTH('a). bit (fst (step_RCL t)) k
        = (if Suc n \<le> k then bit x (k - Suc n) else if Suc n = Suc k then cf else bit x (LENGTH('a) + 1 + k - Suc n)))"
      by (auto simp: step_carry step_bits Suc_le_eq last_index)
  qed
  then show "snd ((step_RCL ^^ n) (x, cf)) = bit x (LENGTH('a) - n)"
    "k < LENGTH('a) \<Longrightarrow> bit (fst ((step_RCL ^^ n) (x, cf))) k
      = (if n \<le> k then bit x (k - n) else if n = Suc k then cf else bit x (LENGTH('a) + 1 + k - n))" by auto
qed

lemma iter_RCR:
  fixes x :: "'a::len word"
  assumes "0 < n" "n \<le> LENGTH('a)"
  shows "snd ((step_RCR ^^ n) (x, cf)) = bit x (n - 1)"
    and "k < LENGTH('a) \<Longrightarrow> bit (fst ((step_RCR ^^ n) (x, cf))) k
      = (if n + k < LENGTH('a) then bit x (n + k) else if n + k = LENGTH('a) then cf else bit x (k + n - LENGTH('a) - 1))"
proof -
  have "snd ((step_RCR ^^ n) (x, cf)) = bit x (n - 1) \<and> (\<forall>k < LENGTH('a). bit (fst
    ((step_RCR ^^ n) (x, cf))) k
      = (if n + k < LENGTH('a) then bit x (n + k) else if n + k = LENGTH('a) then cf else bit x (k + n - LENGTH('a) - 1)))"
    using assms
  proof (rule iterate_inv [rotated -2])
    show "snd (step_RCR (x, cf)) = bit x (1 - 1)
      \<and> (\<forall>k < LENGTH('a). bit (fst (step_RCR (x, cf))) k
        = (if 1 + k < LENGTH('a) then bit x (1 + k) else if 1 + k = LENGTH('a) then cf else bit x (k + 1 - LENGTH('a) - 1)))"
      by (auto simp: step_carry step_bits Suc_le_eq last_index simp del: step_RCR.simps)
    fix n and t :: "'a word \<times> bool"
    assume "0 < n" "n < LENGTH('a)"
      "snd t = bit x (n - 1) \<and> (\<forall>k < LENGTH('a). bit (fst t) k
        = (if n + k < LENGTH('a) then bit x (n + k) else if n + k = LENGTH('a) then cf else bit x (k + n - LENGTH('a) - 1)))"
    then show "snd (step_RCR t) = bit x (Suc n - 1)
      \<and> (\<forall>k < LENGTH('a). bit (fst (step_RCR t)) k
        = (if Suc n + k < LENGTH('a) then bit x (Suc n + k) else if Suc n + k = LENGTH('a) then cf else bit x (k + Suc n - LENGTH('a) - 1)))"
      by (auto simp: step_carry step_bits Suc_le_eq last_index)
  qed
  then show "snd ((step_RCR ^^ n) (x, cf)) = bit x (n - 1)"
    "k < LENGTH('a) \<Longrightarrow> bit (fst ((step_RCR ^^ n) (x, cf))) k
      = (if n + k < LENGTH('a) then bit x (n + k) else if n + k = LENGTH('a) then cf else bit x (k + n - LENGTH('a) - 1))" by auto
qed

lemma iter_ROL:
  fixes x :: "'a::len word"
  assumes "0 < n" "n \<le> LENGTH('a)"
  shows "snd ((step_ROL ^^ n) (x, cf)) = bit x (LENGTH('a) - n)"
    and "k < LENGTH('a) \<Longrightarrow> bit (fst ((step_ROL ^^ n) (x, cf))) k
      = (if n \<le> k then bit x (k - n) else bit x (LENGTH('a) + k - n))"
proof -
  have "snd ((step_ROL ^^ n) (x, cf)) = bit x (LENGTH('a) - n)
    \<and> (\<forall>k < LENGTH('a). bit (fst ((step_ROL ^^ n) (x, cf))) k
      = (if n \<le> k then bit x (k - n) else bit x (LENGTH('a) + k - n)))"
    using assms
  proof (rule iterate_inv [rotated -2])
    show "snd (step_ROL (x, cf)) = bit x (LENGTH('a) - 1)
      \<and> (\<forall>k < LENGTH('a). bit (fst (step_ROL (x, cf))) k
        = (if 1 \<le> k then bit x (k - 1) else bit x (LENGTH('a) + k - 1)))"
      by (auto simp: step_carry step_bits Suc_le_eq last_index simp del: step_ROL.simps)
    fix n and t :: "'a word \<times> bool"
    assume "0 < n" "n < LENGTH('a)"
      "snd t = bit x (LENGTH('a) - n) \<and> (\<forall>k < LENGTH('a). bit (fst t) k
        = (if n \<le> k then bit x (k - n) else bit x (LENGTH('a) + k - n)))"
    then show "snd (step_ROL t) = bit x (LENGTH('a) - Suc n)
      \<and> (\<forall>k < LENGTH('a). bit (fst (step_ROL t)) k
        = (if Suc n \<le> k then bit x (k - Suc n) else bit x (LENGTH('a) + k - Suc n)))"
      by (auto simp: step_carry step_bits Suc_le_eq last_index)
  qed
  then show "snd ((step_ROL ^^ n) (x, cf)) = bit x (LENGTH('a) - n)"
    "k < LENGTH('a) \<Longrightarrow> bit (fst ((step_ROL ^^ n) (x, cf))) k
      = (if n \<le> k then bit x (k - n) else bit x (LENGTH('a) + k - n))" by auto
qed

lemma iter_ROR:
  fixes x :: "'a::len word"
  assumes "0 < n" "n \<le> LENGTH('a)"
  shows "snd ((step_ROR ^^ n) (x, cf)) = bit x (n - 1)"
    and "k < LENGTH('a) \<Longrightarrow> bit (fst ((step_ROR ^^ n) (x, cf))) k
      = (if n + k < LENGTH('a) then bit x (n + k) else bit x (k + n - LENGTH('a)))"
proof -
  have "snd ((step_ROR ^^ n) (x, cf)) = bit x (n - 1) \<and> (\<forall>k < LENGTH('a). bit (fst
    ((step_ROR ^^ n) (x, cf))) k = (if n + k < LENGTH('a) then bit x (n + k) else bit x (k + n - LENGTH('a))))"
    using assms
  proof (rule iterate_inv [rotated -2])
    show "snd (step_ROR (x, cf)) = bit x (1 - 1)
      \<and> (\<forall>k < LENGTH('a). bit (fst (step_ROR (x, cf))) k
        = (if 1 + k < LENGTH('a) then bit x (1 + k) else bit x (k + 1 - LENGTH('a))))"
      by (auto simp: step_carry step_bits Suc_le_eq last_index simp del: step_ROR.simps)
    fix n and t :: "'a word \<times> bool"
    assume "0 < n" "n < LENGTH('a)"
      "snd t = bit x (n - 1) \<and> (\<forall>k < LENGTH('a). bit (fst t) k
        = (if n + k < LENGTH('a) then bit x (n + k) else bit x (k + n - LENGTH('a))))"
    then show "snd (step_ROR t) = bit x (Suc n - 1)
      \<and> (\<forall>k < LENGTH('a). bit (fst (step_ROR t)) k
        = (if Suc n + k < LENGTH('a) then bit x (Suc n + k) else bit x (k + Suc n - LENGTH('a))))"
      by (auto simp: step_carry step_bits Suc_le_eq last_index)
  qed
  then show "snd ((step_ROR ^^ n) (x, cf)) = bit x (n - 1)"
    "k < LENGTH('a) \<Longrightarrow> bit (fst ((step_ROR ^^ n) (x, cf))) k
      = (if n + k < LENGTH('a) then bit x (n + k) else bit x (k + n - LENGTH('a)))" by auto
qed

lemma iter_SHL:
  fixes x :: "'a::len word"
  assumes "0 < n"
  shows "(step_SHL ^^ n) (x, cf) = (push_bit n x, n \<le> LENGTH('a) \<and> bit x (LENGTH('a) - n))"
proof (rule iterate_inv [where P = "\<lambda>n s. s = (push_bit n x, n \<le> LENGTH('a)
  \<and> bit x (LENGTH('a) - n))" and m = n])
  fix n and t :: "'a word \<times> bool"
  assume "0 < n" and t: "t = (push_bit n x, n \<le> LENGTH('a) \<and> bit x (LENGTH('a) - n))"
  have "push_bit 1 (push_bit n x) = push_bit (Suc n) x" by (simp only: push_bit_push_bit) simp
  moreover have "bit (push_bit n x) (LENGTH('a) - 1) \<longleftrightarrow> Suc n \<le> LENGTH('a)
    \<and> bit x (LENGTH('a) - Suc n)"
    unfolding bit_shift_ops using \<open>0 < n\<close> by auto
  ultimately show "step_SHL t = (push_bit (Suc n) x, Suc n \<le> LENGTH('a) \<and> bit x (LENGTH('a) - Suc n))"
    unfolding t by simp
qed (use assms in \<open>simp_all add: Suc_le_eq\<close>)

lemma iter_SHR:
  fixes x :: "'a::len word"
  assumes "0 < n"
  shows "(step_SHR ^^ n) (x, cf) = (drop_bit n x, bit x (n - 1))"
proof (rule iterate_inv [where P = "\<lambda>n s. s = (drop_bit n x, bit x (n - 1))" and m = n])
  fix n and t :: "'a word \<times> bool"
  assume "0 < n" and t: "t = (drop_bit n x, bit x (n - 1))"
  have "drop_bit 1 (drop_bit n x) = drop_bit (Suc n) x" by (simp only: drop_bit_drop_bit) simp
  then show "step_SHR t = (drop_bit (Suc n) x, bit x (Suc n - 1))"
    unfolding t by (simp add: bit_shift_ops)
qed (use assms in simp_all)

lemma iter_SAR:
  fixes x :: "'a::len word"
  assumes "0 < n"
  shows "(step_SAR ^^ n) (x, cf) = (signed_drop_bit n x, bit x (min (n - 1) (LENGTH('a) - 1)))"
proof (rule iterate_inv [where P = "\<lambda>n s. s
  = (signed_drop_bit n x, bit x (min (n - 1) (LENGTH('a) - 1)))" and m = n])
  fix n and t :: "'a word \<times> bool"
  assume "0 < n" and t: "t = (signed_drop_bit n x, bit x (min (n - 1) (LENGTH('a) - 1)))"
  have "bit (signed_drop_bit n x) 0 = bit x (min n (LENGTH('a) - 1))"
    unfolding bit_signed_drop_bit_iff by (auto simp: min_def)
  then show "step_SAR t = (signed_drop_bit (Suc n) x, bit x (min (Suc n - 1) (LENGTH('a) - 1)))"
    unfolding t by simp
qed (use assms in simp_all)

text \<open>Rotating by the operand width only copies the last bit to CF.\<close>

lemma iter_ROL_full:
  fixes x :: "'a::len word"
  shows "(step_ROL ^^ LENGTH('a)) (x, cf) = (x, bit x 0)" "(step_ROR ^^ LENGTH('a)) (x, cf)
    = (x, bit x (LENGTH('a) - 1))"
proof -
  have "fst ((step_ROL ^^ LENGTH('a)) (x, cf)) = x" "fst ((step_ROR ^^ LENGTH('a)) (x, cf)) = x"
    by (rule bit_word_eqI; simp add: iter_ROL(2) iter_ROR(2))+
  moreover have "snd ((step_ROL ^^ LENGTH('a)) (x, cf)) = bit x 0"
    "snd ((step_ROR ^^ LENGTH('a)) (x, cf)) = bit x (LENGTH('a) - 1)"
    by (simp_all add: iter_ROL(1) iter_ROR(1))
  ultimately show "(step_ROL ^^ LENGTH('a)) (x, cf) = (x, bit x 0)"
    "(step_ROR ^^ LENGTH('a)) (x, cf) = (x, bit x (LENGTH('a) - 1))"
    by (simp_all add: prod_eq_iff)
qed

lemma step_ROL_carry: "step_ROL (x, a) = step_ROL (x, b)" "step_ROR (x, a) = step_ROR (x, b)"
  by simp_all

lemma iter_carry:
  "0 < n \<Longrightarrow> (step_ROL ^^ n) (x, a) = (step_ROL ^^ n) (x, b)"
  "0 < n \<Longrightarrow> (step_ROR ^^ n) (x, a) = (step_ROR ^^ n) (x, b)"
  by (cases n; simp only: funpow_Suc_right comp_def step_ROL_carry [of x a b]; simp)+

lemma iterate_split: "m \<le> n \<Longrightarrow> (f ^^ n) s = (f ^^ (n - m)) ((f ^^ m) s)"
  by (metis comp_apply funpow_add le_add_diff_inverse2)

text \<open>A count is taken modulo the width, and a positive multiple of the width acts as the width.\<close>

lemma iter_ROL_mod:
  fixes x :: "'a::len word"
  assumes "0 < n"
  shows "(step_ROL ^^ n) (x, cf)
    = (if n mod LENGTH('a) = 0 then (x, bit x 0) else (step_ROL ^^ (n mod LENGTH('a))) (x, cf))"
    and "(step_ROR ^^ n) (x, cf) = (if n mod LENGTH('a) = 0 then (x, bit x (LENGTH('a) - 1))
                                    else (step_ROR ^^ (n mod LENGTH('a))) (x, cf))"
  using assms
proof (induction n arbitrary: cf rule: less_induct)
  case (less n)
  {
    case 1
    show ?case
    proof (cases "n < LENGTH('a)")
      case False
      have "(step_ROL ^^ n) (x, cf) = (step_ROL ^^ (n - LENGTH('a))) (x, bit x 0)"
        by (subst iterate_split [of "LENGTH('a)"]) (use False in \<open>simp_all only: iter_ROL_full not_less\<close>)
      then show ?thesis
        using False less(1) [of "n - LENGTH('a)"] iter_carry(1) [of "n mod LENGTH('a)" x "bit x 0" cf]
        by (cases "n = LENGTH('a)") (auto simp: le_mod_geq not_less)
    qed (use 1 in simp)
  next
    case 2
    show ?case
    proof (cases "n < LENGTH('a)")
      case False
      have "(step_ROR ^^ n) (x, cf) = (step_ROR ^^ (n - LENGTH('a))) (x, bit x (LENGTH('a) - 1))"
        by (subst iterate_split [of "LENGTH('a)"]) (use False in \<open>simp_all only: iter_ROL_full not_less\<close>)
      then show ?thesis
        using False less(2) [of "n - LENGTH('a)"] iter_carry(2) [of "n mod LENGTH('a)" x "bit x (LENGTH('a) - 1)" cf]
        by (cases "n = LENGTH('a)") (auto simp: le_mod_geq not_less)
    qed (use 2 in simp)
  }
qed

lemma step_SHLD_bits:
  fixes s :: "('a::len word \<times> 'a word) \<times> bool"
  shows "snd (step_SHLD s) = bit (fst (fst s)) (LENGTH('a) - 1)"
    and "k < LENGTH('a) \<Longrightarrow> bit (fst (fst (step_SHLD s))) k
      = (if k = 0 then bit (snd (fst s)) (LENGTH('a) - 1) else bit (fst (fst s)) (k - 1))"
    and "k < LENGTH('a) \<Longrightarrow> bit (snd (fst (step_SHLD s))) k
      = (if k = 0 then bit (fst (fst s)) (LENGTH('a) - 1) else bit (snd (fst s)) (k - 1))"
  by (cases s rule: step_SHLD.cases; simp only: step_SHLD.simps fst_conv snd_conv bit_shift_ops; auto dest: bit_imp_le_length)+

lemma step_SHRD_bits:
  fixes s :: "('a::len word \<times> 'a word) \<times> bool"
  shows "snd (step_SHRD s) = bit (fst (fst s)) 0"
    and "k < LENGTH('a) \<Longrightarrow> bit (fst (fst (step_SHRD s))) k
      = (if Suc k = LENGTH('a) then bit (snd (fst s)) 0 else bit (fst (fst s)) (Suc k))"
    and "k < LENGTH('a) \<Longrightarrow> bit (snd (fst (step_SHRD s))) k
      = (if Suc k = LENGTH('a) then bit (fst (fst s)) 0 else bit (snd (fst s)) (Suc k))"
  by (cases s rule: step_SHRD.cases; simp only: step_SHRD.simps fst_conv snd_conv bit_shift_ops; auto dest: bit_imp_le_length)+

lemma iter_SHLD:
  fixes x y :: "'a::len word"
  assumes "0 < n" "n \<le> LENGTH('a)"
  shows "snd ((step_SHLD ^^ n) ((x, y), cf)) = bit x (LENGTH('a) - n)"
    and "k < LENGTH('a) \<Longrightarrow> bit (fst (fst ((step_SHLD ^^ n) ((x, y), cf)))) k
      = (if n \<le> k then bit x (k - n) else bit y (LENGTH('a) + k - n))"
    and "k < LENGTH('a) \<Longrightarrow> bit (snd (fst ((step_SHLD ^^ n) ((x, y), cf)))) k
      = (if n \<le> k then bit y (k - n) else bit x (LENGTH('a) + k - n))"
proof -
  have "snd ((step_SHLD ^^ n) ((x, y), cf)) = bit x (LENGTH('a) - n)
    \<and> (\<forall>k < LENGTH('a). bit (fst (fst ((step_SHLD ^^ n) ((x, y), cf)))) k
      = (if n \<le> k then bit x (k - n) else bit y (LENGTH('a) + k - n)) \<and> bit (snd (fst
        ((step_SHLD ^^ n) ((x, y), cf)))) k
          = (if n \<le> k then bit y (k - n) else bit x (LENGTH('a) + k - n)))"
    using assms
  proof (rule iterate_inv [rotated -2])
    show "snd (step_SHLD ((x, y), cf)) = bit x (LENGTH('a) - 1)
      \<and> (\<forall>k < LENGTH('a). bit (fst (fst (step_SHLD ((x, y), cf)))) k
        = (if 1 \<le> k then bit x (k - 1) else bit y (LENGTH('a) + k - 1))
          \<and> bit (snd (fst (step_SHLD ((x, y), cf)))) k
            = (if 1 \<le> k then bit y (k - 1) else bit x (LENGTH('a) + k - 1)))"
      by (auto simp: step_SHLD_bits Suc_le_eq last_index simp del: step_SHLD.simps)
    fix n and t :: "('a word \<times> 'a word) \<times> bool"
    assume "0 < n" "n < LENGTH('a)" "snd (t) = bit x (LENGTH('a) - n)
      \<and> (\<forall>k < LENGTH('a). bit (fst (fst (t))) k
        = (if n \<le> k then bit x (k - n) else bit y (LENGTH('a) + k - n)) \<and> bit (snd (fst (t))) k
          = (if n \<le> k then bit y (k - n) else bit x (LENGTH('a) + k - n)))"
    then show "snd (step_SHLD t) = bit x (LENGTH('a) - Suc n)
      \<and> (\<forall>k < LENGTH('a). bit (fst (fst (step_SHLD t))) k
        = (if Suc n \<le> k then bit x (k - Suc n) else bit y (LENGTH('a) + k - Suc n))
          \<and> bit (snd (fst (step_SHLD t))) k
            = (if Suc n \<le> k then bit y (k - Suc n) else bit x (LENGTH('a) + k - Suc n)))"
      by (auto simp: step_SHLD_bits Suc_le_eq last_index)
  qed
  then show "snd ((step_SHLD ^^ n) ((x, y), cf)) = bit x (LENGTH('a) - n)"
    "k < LENGTH('a) \<Longrightarrow> bit (fst (fst ((step_SHLD ^^ n) ((x, y), cf)))) k
      = (if n \<le> k then bit x (k - n) else bit y (LENGTH('a) + k - n))"
    "k < LENGTH('a) \<Longrightarrow> bit (snd (fst ((step_SHLD ^^ n) ((x, y), cf)))) k
      = (if n \<le> k then bit y (k - n) else bit x (LENGTH('a) + k - n))" by auto
qed

lemma iter_SHRD:
  fixes x y :: "'a::len word"
  assumes "0 < n" "n \<le> LENGTH('a)"
  shows "snd ((step_SHRD ^^ n) ((x, y), cf)) = bit x (n - 1)"
    and "k < LENGTH('a) \<Longrightarrow> bit (fst (fst ((step_SHRD ^^ n) ((x, y), cf)))) k
      = (if n + k < LENGTH('a) then bit x (n + k) else bit y (k + n - LENGTH('a)))"
    and "k < LENGTH('a) \<Longrightarrow> bit (snd (fst ((step_SHRD ^^ n) ((x, y), cf)))) k
      = (if n + k < LENGTH('a) then bit y (n + k) else bit x (k + n - LENGTH('a)))"
proof -
  have "snd ((step_SHRD ^^ n) ((x, y), cf)) = bit x (n - 1)
    \<and> (\<forall>k < LENGTH('a). bit (fst (fst ((step_SHRD ^^ n) ((x, y), cf)))) k
      = (if n + k < LENGTH('a) then bit x (n + k) else bit y (k + n - LENGTH('a)))
        \<and> bit (snd (fst ((step_SHRD ^^ n) ((x, y), cf)))) k
          = (if n + k < LENGTH('a) then bit y (n + k) else bit x (k + n - LENGTH('a))))"
    using assms
  proof (rule iterate_inv [rotated -2])
    show "snd (step_SHRD ((x, y), cf)) = bit x (1 - 1)
      \<and> (\<forall>k < LENGTH('a). bit (fst (fst (step_SHRD ((x, y), cf)))) k
        = (if 1 + k < LENGTH('a) then bit x (1 + k) else bit y (k + 1 - LENGTH('a)))
          \<and> bit (snd (fst (step_SHRD ((x, y), cf)))) k
            = (if 1 + k < LENGTH('a) then bit y (1 + k) else bit x (k + 1 - LENGTH('a))))"
      by (auto simp: step_SHRD_bits Suc_le_eq last_index simp del: step_SHRD.simps)
    fix n and t :: "('a word \<times> 'a word) \<times> bool"
    assume "0 < n" "n < LENGTH('a)" "snd (t) = bit x (n - 1)
      \<and> (\<forall>k < LENGTH('a). bit (fst (fst (t))) k
        = (if n + k < LENGTH('a) then bit x (n + k) else bit y (k + n - LENGTH('a)))
          \<and> bit (snd (fst (t))) k
            = (if n + k < LENGTH('a) then bit y (n + k) else bit x (k + n - LENGTH('a))))"
    then show "snd (step_SHRD t) = bit x (Suc n - 1)
      \<and> (\<forall>k < LENGTH('a). bit (fst (fst (step_SHRD t))) k
        = (if Suc n + k < LENGTH('a) then bit x (Suc n + k) else bit y (k + Suc n - LENGTH('a)))
          \<and> bit (snd (fst (step_SHRD t))) k
            = (if Suc n + k < LENGTH('a) then bit y (Suc n + k) else bit x (k + Suc n - LENGTH('a))))"
      by (auto simp: step_SHRD_bits Suc_le_eq last_index)
  qed
  then show "snd ((step_SHRD ^^ n) ((x, y), cf)) = bit x (n - 1)"
    "k < LENGTH('a) \<Longrightarrow> bit (fst (fst ((step_SHRD ^^ n) ((x, y), cf)))) k
      = (if n + k < LENGTH('a) then bit x (n + k) else bit y (k + n - LENGTH('a)))"
    "k < LENGTH('a) \<Longrightarrow> bit (snd (fst ((step_SHRD ^^ n) ((x, y), cf)))) k
      = (if n + k < LENGTH('a) then bit y (n + k) else bit x (k + n - LENGTH('a)))" by auto
qed

text \<open>Shifting by the operand width exchanges the operands.\<close>

lemma iter_SHLD_full:
  fixes x y :: "'a::len word"
  shows "fst ((step_SHLD ^^ LENGTH('a)) ((x, y), cf)) = (y, x)" "fst
    ((step_SHRD ^^ LENGTH('a)) ((x, y), cf)) = (y, x)"
  by (rule prod_eqI; rule bit_word_eqI; simp add: iter_SHLD(2,3) iter_SHRD(2,3))+

lemma iter_SHLD_wide:
  fixes x y :: "'a::len word"
  assumes "LENGTH('a) < n"
  shows "\<exists>b. (step_SHLD ^^ n) ((x, y), cf) = (step_SHLD ^^ (n - LENGTH('a))) ((y, x), b)"
    and "\<exists>b. (step_SHRD ^^ n) ((x, y), cf) = (step_SHRD ^^ (n - LENGTH('a))) ((y, x), b)"
  using assms iter_SHLD_full [of x y cf]
  by (subst iterate_split [of "LENGTH('a)"]; metis less_imp_le prod.collapse)+

section \<open>The code's expressions, bit by bit\<close>

lemma drop_bit_and_1: "(drop_bit n x AND 1 :: 'a::len word) = of_bool (bit x n)"
  by (simp add: and_1_eq bit_drop_bit_eq)

lemma signed_drop_bit_and_1: "(signed_drop_bit n x AND 1 :: 'a::len word) = of_bool (bit x (min n (LENGTH('a) - 1)))"
  by (simp add: and_1_eq bit_signed_drop_bit_iff min_def) 

lemma ucast_and_1: "(ucast (x AND 1 :: 'b::len word) :: 'a::len word) = of_bool (bit x 0)"
  by (simp add: and_1_eq)

lemma top_bit_value: "drop_bit (LENGTH('a) - 1) (x :: 'a::len word) = of_bool (bit x (LENGTH('a) - 1))"
proof (rule bit_word_eqI)
  show "bit (drop_bit (LENGTH('a) - 1) x) n = bit (of_bool (bit x (LENGTH('a) - 1)) :: 'a word) n" for n
    by (cases n) (auto simp: bit_shift_ops dest: bit_imp_le_length)
qed

lemmas top_bits = top_bit_value [where 'a = 8, simplified] top_bit_value [where 'a = 16, simplified]
  top_bit_value [where 'a = 32, simplified] top_bit_value [where 'a = 64, simplified]

lemma top_two_bits:
  fixes r8 :: u8 and r16 :: u16 and r32 :: u32 and r64 :: u64
  shows "drop_bit 7 (push_bit 1 (ucast r8 :: u32) XOR ucast r8) AND 1 = of_bool (bit r8 7 \<noteq> bit r8 6)"
    and "(ucast (drop_bit 15 (ucast (push_bit 1 (ucast r16 :: u32) XOR ucast r16) :: u16)) AND 1 :: u32)
           = of_bool (bit r16 15 \<noteq> bit r16 14)"
    and "drop_bit 31 (push_bit 1 r32 XOR r32) = of_bool (bit r32 31 \<noteq> bit r32 30)"
    and "drop_bit 63 (push_bit 1 r64 XOR r64) = of_bool (bit r64 63 \<noteq> bit r64 62)"
  unfolding drop_bit_and_1 top_bits ucast_and_1
  by (auto simp only: bit_xor_iff bit_shift_ops bit_unsigned_iff ucast_and_1 and_1_eq) auto

lemmas code_bits = drop_bit_and_1 signed_drop_bit_and_1 ucast_and_1 top_bits
  of_bool_ops getB_of_bool

text \<open>Masked counts.\<close>

lemma count_masks:
  "(n :: nat) AND 0x1f = n mod 32" "n AND 0x3f = n mod 64" "n AND 7 = n mod 8" "n AND 0x0f = n mod 16"
proof -
  have m: "n AND mask k = n mod 2 ^ k" for k
    by (simp only: take_bit_eq_mask [symmetric] take_bit_eq_mod)
  show "n AND 0x1f = n mod 32" "n AND 0x3f = n mod 64" "n AND 7 = n mod 8" "n AND 0x0f = n mod 16"
    using m [of 5] m [of 6] m [of 3] m [of 4] by (simp_all add: mask_eq_exp_minus_1)
qed

lemma nat_and_or: "(n :: nat) AND (a OR b) = (n AND a) OR (n AND b)"
  by (rule bit_eqI) (auto simp: bit_and_iff bit_or_iff)

lemma count_bits:
  "(n :: nat) mod 8 = 0 \<Longrightarrow> n AND 0x18 = n mod 32" "n mod 16 = 0 \<Longrightarrow> n AND 0x10 = n mod 32"
  using nat_and_or [of n "0x18" 7] nat_and_or [of n "0x10" "0x0f"] by (simp_all flip: count_masks)

lemma count_cases:
  fixes n :: nat
  obtains "n mod 32 = 0" "n mod 8 = 0" | "n mod 8 = 0" "n mod 32 \<noteq> 0" | "n mod 8 \<noteq> 0" "n mod 32 \<noteq> 0"
proof -
  have "n mod 32 = 0 \<Longrightarrow> n mod 8 = 0" by presburger
  then show ?thesis using that by (cases "n mod 32 = 0") auto
qed

lemma count_cases_16:
  fixes n :: nat
  obtains "n mod 32 = 0" "n mod 16 = 0" | "n mod 16 = 0" "n mod 32 \<noteq> 0" | "n mod 16 \<noteq> 0" "n mod 32 \<noteq> 0"
proof -
  have "n mod 32 = 0 \<Longrightarrow> n mod 16 = 0" by presburger
  then show ?thesis using that by (cases "n mod 32 = 0") auto
qed

section \<open>The handlers implement them\<close>

lemma rotate_result:
  assumes "oszapc (wr d r c) = oszapc c" "0 < n" "r = fst s" "cy = snd s" "ov = ovf r cy"
  shows "cpu_abs (upd_lf (set_flags_OxxxxC (of_bool ov) (of_bool cy)) (wr d r c)) = arch_ROTATE wr ovf d n s c"
  using assms by (auto simp: arch_ROTATE_def cpu_abs_def set_flags_OxxxxC_abs split_beta)

lemma shift_result:
  assumes "oszapc (wr d r c) = oszapc c" "0 < n" "r = fst s" "cy = snd s" "ov = ovf r cy"
    and "\<And>lf. lf_abs (f lf) = arch_logic r"
  shows "cpu_abs (upd_lf (set_flags_OxxxxC (of_bool ov) (of_bool cy)) (upd_lf f (wr d r c))) = arch_SHIFT wr ovf d n s c"
  using assms by (auto simp: arch_SHIFT_def cpu_abs_def set_flags_OxxxxC_abs split_beta)

lemma no_shift:
  assumes "wr d (fst s) c = c"
  shows "arch_ROTATE wr ovf d 0 s c = cpu_abs c" "arch_SHIFT wr ovf d 0 s c = cpu_abs c"
  using assms by (simp_all add: arch_ROTATE_def arch_SHIFT_def cpu_abs_def split_beta)

lemma write_back:
  "BX_WRITE_8BIT_REGx n x (BX_READ_8BIT_REGx n x c) c = c"
  "BX_WRITE_16BIT_REG n (BX_READ_16BIT_REG n c) c = c" "BX_WRITE_64BIT_REG n (BX_READ_64BIT_REG n c) c = c"
  by (simp_all add: BX_WRITE_8BIT_REGx_def BX_READ_8BIT_REGx_def BX_WRITE_16BIT_REG_def BX_READ_16BIT_REG_def
      BX_WRITE_64BIT_REG_def BX_READ_64BIT_REG_def set_gen_reg_def)

lemma rotate_in_place:
  assumes "wr d (fst s) c = c" "0 < n" "cy = snd s" "ov = ovf (fst s) (snd s)"
  shows "cpu_abs (upd_lf (set_flags_OxxxxC (of_bool ov) (of_bool cy)) c) = arch_ROTATE wr ovf d n s c"
  using assms by (auto simp: arch_ROTATE_def cpu_abs_def set_flags_OxxxxC_abs split_beta)

lemma ROL_carry:
  fixes x :: "'a::len word"
  assumes "0 < n" "n \<le> LENGTH('a)"
  shows "snd ((step_ROL ^^ n) (x, cf)) = bit (fst ((step_ROL ^^ n) (x, cf))) 0"
    and "snd ((step_ROR ^^ n) (x, cf)) = bit (fst ((step_ROR ^^ n) (x, cf))) (LENGTH('a) - 1)"
  using assms by (auto simp: iter_ROL iter_ROR)

lemma clear_high_abs:
  "cpu_abs (BX_CLEAR_64BIT_HIGH d c) = arch_ROTATE BX_WRITE_32BIT_REGZ ovf d 0 (BX_READ_32BIT_REG d c, cf) c"
  "cpu_abs (BX_CLEAR_64BIT_HIGH d c) = arch_SHIFT BX_WRITE_32BIT_REGZ ovf d 0 (BX_READ_32BIT_REG d c, cf) c"
  by (simp_all add: clear_high_write(2) arch_ROTATE_def arch_SHIFT_def cpu_abs_def write_keeps_flags)

lemma bit_if: "bit (if b then x else y) n = (if b then bit x n else bit y n)"
  by simp

lemma value_RCL_8:
  fixes x :: u8
  assumes "0 < n" "n \<le> 8"
  shows "(if n = 1 then ucast (push_bit 1 (ucast x :: u32)
    OR of_bool cf) else ucast (push_bit n (ucast x :: u32) OR push_bit (n - 1) (of_bool cf)
      OR drop_bit (9 - n) (ucast x))) = fst ((step_RCL ^^ n) (x, cf))"
  by (rule bit_word_eqI; unfold bit_if bit_unsigned_iff bit_shift_ops;
      use assms in \<open>auto simp: iter_RCL(2) bit_unsigned_iff dest: bit_imp_le_length\<close>)

lemma value_RCR_8:
  fixes x :: u8
  assumes "0 < n" "n \<le> 8"
  shows "(ucast (drop_bit n (ucast x :: u32) OR push_bit (8 - n) (of_bool cf)
    OR push_bit (9 - n) (ucast x))) = fst ((step_RCR ^^ n) (x, cf))"
  by (rule bit_word_eqI; unfold bit_if bit_unsigned_iff bit_shift_ops;
      use assms in \<open>auto simp: iter_RCR(2) bit_unsigned_iff dest: bit_imp_le_length\<close>)

lemma value_RCL_16:
  fixes x :: u16
  assumes "0 < n" "n \<le> 16"
  shows "(if n = 1 then ucast (push_bit 1 (ucast x :: u32)
    OR of_bool cf) else if n = 16 then ucast (push_bit 15 (of_bool cf)
      OR drop_bit 1 (ucast x :: u32)) else ucast (push_bit n (ucast x :: u32)
        OR push_bit (n - 1) (of_bool cf) OR drop_bit (17 - n) (ucast x))) = fst ((step_RCL ^^ n) (x, cf))"
  by (rule bit_word_eqI; unfold bit_if bit_unsigned_iff bit_shift_ops;
      use assms in \<open>auto simp: iter_RCL(2) bit_unsigned_iff dest: bit_imp_le_length\<close>)

lemma value_RCR_16:
  fixes x :: u16
  assumes "0 < n" "n \<le> 16"
  shows "(ucast (drop_bit n (ucast x :: u32) OR push_bit (16 - n) (of_bool cf)
    OR push_bit (17 - n) (ucast x))) = fst ((step_RCR ^^ n) (x, cf))"
  by (rule bit_word_eqI; unfold bit_if bit_unsigned_iff bit_shift_ops;
      use assms in \<open>auto simp: iter_RCR(2) bit_unsigned_iff dest: bit_imp_le_length\<close>)

lemma value_RCL_32:
  fixes x :: u32
  assumes "0 < n" "n \<le> 32"
  shows "(if n = 1 then push_bit 1 x OR of_bool cf else push_bit n x OR push_bit (n - 1) (of_bool cf)
    OR drop_bit (33 - n) x) = fst ((step_RCL ^^ n) (x, cf))"
  by (rule bit_word_eqI; unfold bit_if bit_unsigned_iff bit_shift_ops;
      use assms in \<open>auto simp: iter_RCL(2) bit_unsigned_iff dest: bit_imp_le_length\<close>)

lemma value_RCR_32:
  fixes x :: u32
  assumes "0 < n" "n \<le> 32"
  shows "(if n = 1 then drop_bit 1 x OR push_bit 31 (of_bool cf) else drop_bit n x
    OR push_bit (32 - n) (of_bool cf) OR push_bit (33 - n) x) = fst ((step_RCR ^^ n) (x, cf))"
  by (rule bit_word_eqI; unfold bit_if bit_unsigned_iff bit_shift_ops;
      use assms in \<open>auto simp: iter_RCR(2) bit_unsigned_iff dest: bit_imp_le_length\<close>)

lemma value_RCL_64:
  fixes x :: u64
  assumes "0 < n" "n \<le> 64"
  shows "(if n = 1 then push_bit 1 x OR of_bool cf else push_bit n x OR push_bit (n - 1) (of_bool cf)
    OR drop_bit (65 - n) x) = fst ((step_RCL ^^ n) (x, cf))"
  by (rule bit_word_eqI; unfold bit_if bit_unsigned_iff bit_shift_ops;
      use assms in \<open>auto simp: iter_RCL(2) bit_unsigned_iff dest: bit_imp_le_length\<close>)

lemma value_RCR_64:
  fixes x :: u64
  assumes "0 < n" "n \<le> 64"
  shows "(if n = 1 then drop_bit 1 x OR push_bit 63 (of_bool cf) else drop_bit n x
    OR push_bit (64 - n) (of_bool cf) OR push_bit (65 - n) x) = fst ((step_RCR ^^ n) (x, cf))"
  by (rule bit_word_eqI; unfold bit_if bit_unsigned_iff bit_shift_ops;
      use assms in \<open>auto simp: iter_RCR(2) bit_unsigned_iff dest: bit_imp_le_length\<close>)

lemma RCL_8_sim: "cpu_abs (RCL_EbR i c) = arch_ROTATE (wr8 i) left_OF (i_dst i) ((shift_count
  BX_IA_RCL_Eb i c AND 0x1f) mod 9) ((step_RCL ^^ ((shift_count BX_IA_RCL_Eb i c AND 0x1f) mod 9))
    (rd8 i (i_dst i) c, carry c)) c"
proof (cases "shift_count BX_IA_RCL_Eb i c mod 32 mod 9 = 0")
  case 0: True
  show ?thesis
      unfolding RCL_EbR_def shift_count_def [symmetric] Let_def
        count_masks using 0 by (simp add: no_shift write_back)
next
  case False
  then have m: "0 < shift_count BX_IA_RCL_Eb i c mod 32 mod 9" "shift_count
    BX_IA_RCL_Eb i c mod 32 mod 9 \<le> 8" by simp_all
  show ?thesis
    unfolding RCL_EbR_def shift_count_def [symmetric] Let_def count_masks top_two_bits
    using False by (simp only: refl if_False code_bits value_RCL_8 [OF m])
      (rule rotate_result;
        use m in \<open>auto simp: iter_RCL(1) reg_laws left_OF_def right_OF_def no_OF_def bit_unsigned_iff\<close>)
qed

lemma RCR_8_sim: "cpu_abs (RCR_EbR i c) = arch_ROTATE (wr8 i) right_OF (i_dst i) ((shift_count
  BX_IA_RCR_Eb i c AND 0x1f) mod 9) ((step_RCR ^^ ((shift_count BX_IA_RCR_Eb i c AND 0x1f) mod 9))
    (rd8 i (i_dst i) c, carry c)) c"
proof (cases "shift_count BX_IA_RCR_Eb i c mod 32 mod 9 = 0")
  case 0: True
  show ?thesis
      unfolding RCR_EbR_def shift_count_def [symmetric] Let_def
        count_masks using 0 by (simp add: no_shift write_back)
next
  case False
  then have m: "0 < shift_count BX_IA_RCR_Eb i c mod 32 mod 9" "shift_count
    BX_IA_RCR_Eb i c mod 32 mod 9 \<le> 8" by simp_all
  show ?thesis
    unfolding RCR_EbR_def shift_count_def [symmetric] Let_def count_masks top_two_bits
    using False by (simp only: refl if_False code_bits value_RCR_8 [OF m])
      (rule rotate_result;
        use m in \<open>auto simp: iter_RCR(1) reg_laws left_OF_def right_OF_def no_OF_def bit_unsigned_iff\<close>)
qed

lemma RCL_16_sim: "cpu_abs (RCL_EwR i c) = arch_ROTATE BX_WRITE_16BIT_REG left_OF (i_dst i) ((shift_count BX_IA_RCL_Ew i c AND 0x1f) mod 17) ((step_RCL ^^ ((shift_count BX_IA_RCL_Ew i c AND 0x1f) mod 17)) (BX_READ_16BIT_REG (i_dst i) c, carry c)) c"
proof (cases "shift_count BX_IA_RCL_Ew i c mod 32 mod 17 = 0")
  case 0: True
  show ?thesis
      unfolding RCL_EwR_def shift_count_def [symmetric] Let_def
        count_masks using 0 by (simp add: no_shift write_back)
next
  case False
  then have m: "0 < shift_count BX_IA_RCL_Ew i c mod 32 mod 17" "shift_count
    BX_IA_RCL_Ew i c mod 32 mod 17 \<le> 16" by simp_all
  show ?thesis
    unfolding RCL_EwR_def shift_count_def [symmetric] Let_def count_masks top_two_bits
    using False by (simp only: refl if_False code_bits value_RCL_16 [OF m])
      (rule rotate_result;
        use m in \<open>auto simp: iter_RCL(1) reg_laws left_OF_def right_OF_def no_OF_def bit_unsigned_iff\<close>)
qed

lemma RCR_16_sim: "cpu_abs (RCR_EwR i c) = arch_ROTATE BX_WRITE_16BIT_REG right_OF (i_dst i) ((shift_count BX_IA_RCR_Ew i c AND 0x1f) mod 17) ((step_RCR ^^ ((shift_count BX_IA_RCR_Ew i c AND 0x1f) mod 17)) (BX_READ_16BIT_REG (i_dst i) c, carry c)) c"
proof (cases "shift_count BX_IA_RCR_Ew i c mod 32 mod 17 = 0")
  case 0: True
  show ?thesis
      unfolding RCR_EwR_def shift_count_def [symmetric] Let_def
        count_masks using 0 by (simp add: no_shift write_back)
next
  case False
  then have m: "0 < shift_count BX_IA_RCR_Ew i c mod 32 mod 17" "shift_count
    BX_IA_RCR_Ew i c mod 32 mod 17 \<le> 16" by simp_all
  show ?thesis
    unfolding RCR_EwR_def shift_count_def [symmetric] Let_def count_masks top_two_bits
    using False by (simp only: refl if_False code_bits value_RCR_16 [OF m])
      (rule rotate_result;
        use m in \<open>auto simp: iter_RCR(1) reg_laws left_OF_def right_OF_def no_OF_def bit_unsigned_iff\<close>)
qed

lemma RCL_32_sim: "cpu_abs (RCL_EdR i c) = arch_ROTATE BX_WRITE_32BIT_REGZ left_OF (i_dst i)
  (shift_count BX_IA_RCL_Ed i c AND 0x1f) ((step_RCL ^^ (shift_count BX_IA_RCL_Ed i c AND 0x1f))
    (BX_READ_32BIT_REG (i_dst i) c, carry c)) c"
proof (cases "shift_count BX_IA_RCL_Ed i c mod 32 = 0")
  case 0: True
  show ?thesis
      unfolding RCL_EdR_def shift_count_def [symmetric] Let_def
        count_masks using 0 by (simp add: clear_high_abs)
next
  case False
  then have m: "0 < shift_count BX_IA_RCL_Ed i c mod 32" "shift_count
    BX_IA_RCL_Ed i c mod 32 \<le> 32" by simp_all
  show ?thesis
    unfolding RCL_EdR_def shift_count_def [symmetric] Let_def count_masks top_two_bits
    using False by (simp only: refl if_False code_bits value_RCL_32 [OF m])
      (rule rotate_result;
        use m in \<open>auto simp: iter_RCL(1) reg_laws left_OF_def right_OF_def no_OF_def bit_unsigned_iff\<close>)
qed

lemma RCR_32_sim: "cpu_abs (RCR_EdR i c) = arch_ROTATE BX_WRITE_32BIT_REGZ right_OF (i_dst i)
  (shift_count BX_IA_RCR_Ed i c AND 0x1f) ((step_RCR ^^ (shift_count BX_IA_RCR_Ed i c AND 0x1f))
    (BX_READ_32BIT_REG (i_dst i) c, carry c)) c"
proof (cases "shift_count BX_IA_RCR_Ed i c mod 32 = 0")
  case 0: True
  show ?thesis
      unfolding RCR_EdR_def shift_count_def [symmetric] Let_def
        count_masks using 0 by (simp add: clear_high_abs)
next
  case False
  then have m: "0 < shift_count BX_IA_RCR_Ed i c mod 32" "shift_count
    BX_IA_RCR_Ed i c mod 32 \<le> 32" by simp_all
  show ?thesis
    unfolding RCR_EdR_def shift_count_def [symmetric] Let_def count_masks top_two_bits
    using False by (simp only: refl if_False code_bits value_RCR_32 [OF m])
      (rule rotate_result;
        use m in \<open>auto simp: iter_RCR(1) reg_laws left_OF_def right_OF_def no_OF_def bit_unsigned_iff\<close>)
qed

lemma RCL_64_sim: "cpu_abs (RCL_EqR i c) = arch_ROTATE BX_WRITE_64BIT_REG left_OF (i_dst i)
  (shift_count BX_IA_RCL_Eq i c AND 0x3f) ((step_RCL ^^ (shift_count BX_IA_RCL_Eq i c AND 0x3f))
    (BX_READ_64BIT_REG (i_dst i) c, carry c)) c"
proof (cases "shift_count BX_IA_RCL_Eq i c mod 64 = 0")
  case 0: True
  show ?thesis
      unfolding RCL_EqR_def shift_count_def [symmetric] Let_def
        count_masks using 0 by (simp add: no_shift write_back)
next
  case False
  then have m: "0 < shift_count BX_IA_RCL_Eq i c mod 64" "shift_count
    BX_IA_RCL_Eq i c mod 64 \<le> 64" by simp_all
  show ?thesis
    unfolding RCL_EqR_def shift_count_def [symmetric] Let_def count_masks top_two_bits
    using False by (simp only: refl if_False code_bits value_RCL_64 [OF m])
      (rule rotate_result;
        use m in \<open>auto simp: iter_RCL(1) reg_laws left_OF_def right_OF_def no_OF_def bit_unsigned_iff\<close>)
qed

lemma RCR_64_sim: "cpu_abs (RCR_EqR i c) = arch_ROTATE BX_WRITE_64BIT_REG right_OF (i_dst i)
  (shift_count BX_IA_RCR_Eq i c AND 0x3f) ((step_RCR ^^ (shift_count BX_IA_RCR_Eq i c AND 0x3f))
    (BX_READ_64BIT_REG (i_dst i) c, carry c)) c"
proof (cases "shift_count BX_IA_RCR_Eq i c mod 64 = 0")
  case 0: True
  show ?thesis
      unfolding RCR_EqR_def shift_count_def [symmetric] Let_def
        count_masks using 0 by (simp add: no_shift write_back)
next
  case False
  then have m: "0 < shift_count BX_IA_RCR_Eq i c mod 64" "shift_count
    BX_IA_RCR_Eq i c mod 64 \<le> 64" by simp_all
  show ?thesis
    unfolding RCR_EqR_def shift_count_def [symmetric] Let_def count_masks top_two_bits
    using False by (simp only: refl if_False code_bits value_RCR_64 [OF m])
      (rule rotate_result;
        use m in \<open>auto simp: iter_RCR(1) reg_laws left_OF_def right_OF_def no_OF_def bit_unsigned_iff\<close>)
qed

lemma truncated_shifts:
  fixes x8 :: u8 and x16 :: u16
  shows "ucast (push_bit n (ucast x8 :: u32)) = push_bit n x8" "ucast (push_bit n (ucast x16 :: u32)) = push_bit n x16"
    and "ucast (signed_drop_bit n (scast x8 :: u32)) = signed_drop_bit n x8"
    and "ucast (signed_drop_bit n (scast x16 :: u32)) = signed_drop_bit n x16"
proof -
  show "ucast (push_bit n (ucast x8 :: u32)) = push_bit n x8" "ucast (push_bit n (ucast x16 :: u32)) = push_bit n x16"
    by (rule bit_word_eqI; unfold bit_unsigned_iff bit_shift_ops; auto dest: bit_imp_le_length)+
  have "bit (ucast (signed_drop_bit n (scast x8 :: u32)) :: u8) k = bit (signed_drop_bit n x8) k" if "k < 8" for k
    using that by (cases "n + k = 7") (auto simp: bit_unsigned_iff bit_signed_drop_bit_iff bit_signed_iff min_def)
  then show "ucast (signed_drop_bit n (scast x8 :: u32)) = signed_drop_bit n x8"
    by (intro bit_word_eqI) simp
  have "bit (ucast (signed_drop_bit n (scast x16 :: u32)) :: u16) k = bit (signed_drop_bit n x16) k" if "k < 16" for k
    using that by (cases "n + k = 15") (auto simp: bit_unsigned_iff bit_signed_drop_bit_iff bit_signed_iff min_def)
  then show "ucast (signed_drop_bit n (scast x16 :: u32)) = signed_drop_bit n x16"
    by (intro bit_word_eqI) simp
qed

lemmas shift_result_no_OF = shift_result [where ov = False, simplified]

lemma pushed_out: "LENGTH('a) < n \<Longrightarrow> push_bit n (x :: 'a::len word) = 0"
  by (rule bit_word_eqI) (simp add: bit_shift_ops)

lemma SHL_8_sim: "cpu_abs (SHL_EbR i c) = arch_SHIFT (wr8 i) left_OF (i_dst i) (shift_count
  BX_IA_SHL_Eb i c AND 0x1f) ((step_SHL ^^ (shift_count BX_IA_SHL_Eb i c AND 0x1f))
    (rd8 i (i_dst i) c, carry c)) c"
proof (cases "shift_count BX_IA_SHL_Eb i c mod 32 = 0")
  case 0: True
  show ?thesis
      unfolding SHL_EbR_def shift_count_def [symmetric] Let_def
        count_masks using 0 by (simp add: no_shift write_back)
next
  case False
  then have m: "0 < shift_count BX_IA_SHL_Eb i c mod 32" "shift_count BX_IA_SHL_Eb i c mod 32 < 32" by simp_all
  show ?thesis
  proof (cases "shift_count BX_IA_SHL_Eb i c mod 32 \<le> 8")
    case le: True
    show ?thesis
      unfolding SHL_EbR_def shift_count_def [symmetric] Let_def count_masks top_two_bits truncated_shifts
      using False le by (simp only: refl if_True if_False prod.case code_bits)
        (rule shift_result; use le m in \<open>auto simp: iter_SHL reg_laws logic_flags left_OF_def right_OF_def no_OF_def bit_unsigned_iff dest: bit_imp_le_length\<close>)
  next
    case gt: False
    have s: "(step_SHL ^^ (shift_count BX_IA_SHL_Eb i c mod 32)) (rd8 i (i_dst i) c, carry c) = (0, False)"
      using gt m by (simp add: iter_SHL pushed_out)
    show ?thesis
      unfolding SHL_EbR_def shift_count_def [symmetric] Let_def count_masks top_two_bits truncated_shifts s
      using False gt by (simp only: refl if_False prod.case)
        (rule shift_result [where ov = False and cy = False, simplified];
          use m in \<open>simp add: reg_laws logic_flags left_OF_def\<close>)
  qed
qed

lemma SHR_8_sim: "cpu_abs (SHR_EbR i c) = arch_SHIFT (wr8 i) right_OF (i_dst i) (shift_count
  BX_IA_SHR_Eb i c AND 0x1f) ((step_SHR ^^ (shift_count BX_IA_SHR_Eb i c AND 0x1f))
    (rd8 i (i_dst i) c, carry c)) c"
proof (cases "shift_count BX_IA_SHR_Eb i c mod 32 = 0")
  case 0: True
  show ?thesis
      unfolding SHR_EbR_def shift_count_def [symmetric] Let_def
        count_masks using 0 by (simp add: no_shift write_back)
next
  case False
  then have m: "0 < shift_count BX_IA_SHR_Eb i c mod 32" "shift_count BX_IA_SHR_Eb i c mod 32 < 32" by simp_all
  show ?thesis
    unfolding SHR_EbR_def shift_count_def [symmetric] Let_def count_masks top_two_bits truncated_shifts
    using False by (simp only: refl if_False code_bits)
      (rule shift_result; use m in \<open>auto simp: iter_SHR reg_laws logic_flags bit_signed_iff min_def left_OF_def right_OF_def no_OF_def bit_unsigned_iff dest: bit_imp_le_length\<close>)
qed

lemma SAR_8_sim: "cpu_abs (SAR_EbR i c) = arch_SHIFT (wr8 i) no_OF (i_dst i) (shift_count
  BX_IA_SAR_Eb i c AND 0x1f) ((step_SAR ^^ (shift_count BX_IA_SAR_Eb i c AND 0x1f))
    (rd8 i (i_dst i) c, carry c)) c"
proof (cases "shift_count BX_IA_SAR_Eb i c mod 32 = 0")
  case 0: True
  show ?thesis
      unfolding SAR_EbR_def shift_count_def [symmetric] Let_def
        count_masks using 0 by (simp add: no_shift write_back)
next
  case False
  then have m: "0 < shift_count BX_IA_SAR_Eb i c mod 32" "shift_count BX_IA_SAR_Eb i c mod 32 < 32" by simp_all
  show ?thesis
    unfolding SAR_EbR_def shift_count_def [symmetric] Let_def count_masks top_two_bits truncated_shifts
    using False by (simp only: refl if_False code_bits)
      (rule shift_result_no_OF;
        use m in \<open>auto simp: iter_SAR reg_laws logic_flags bit_signed_iff min_def left_OF_def right_OF_def no_OF_def bit_unsigned_iff dest: bit_imp_le_length\<close>)
qed

lemma SHL_16_sim: "cpu_abs (SHL_EwR i c) = arch_SHIFT BX_WRITE_16BIT_REG left_OF (i_dst i)
  (shift_count BX_IA_SHL_Ew i c AND 0x1f) ((step_SHL ^^ (shift_count BX_IA_SHL_Ew i c AND 0x1f))
    (BX_READ_16BIT_REG (i_dst i) c, carry c)) c"
proof (cases "shift_count BX_IA_SHL_Ew i c mod 32 = 0")
  case 0: True
  show ?thesis
      unfolding SHL_EwR_def shift_count_def [symmetric] Let_def
        count_masks using 0 by (simp add: no_shift write_back)
next
  case False
  then have m: "0 < shift_count BX_IA_SHL_Ew i c mod 32" "shift_count BX_IA_SHL_Ew i c mod 32 < 32" by simp_all
  show ?thesis
  proof (cases "shift_count BX_IA_SHL_Ew i c mod 32 \<le> 16")
    case le: True
    show ?thesis
      unfolding SHL_EwR_def shift_count_def [symmetric] Let_def count_masks top_two_bits truncated_shifts
      using False le by (simp only: refl if_True if_False prod.case code_bits)
        (rule shift_result; use le m in \<open>auto simp: iter_SHL reg_laws logic_flags left_OF_def right_OF_def no_OF_def bit_unsigned_iff dest: bit_imp_le_length\<close>)
  next
    case gt: False
    have s: "(step_SHL ^^ (shift_count BX_IA_SHL_Ew i c mod 32))
      (BX_READ_16BIT_REG (i_dst i) c, carry c) = (0, False)"
      using gt m by (simp add: iter_SHL pushed_out)
    show ?thesis
      unfolding SHL_EwR_def shift_count_def [symmetric] Let_def count_masks top_two_bits truncated_shifts s
      using False gt by (simp only: refl if_False prod.case)
        (rule shift_result [where ov = False and cy = False, simplified];
          use m in \<open>simp add: reg_laws logic_flags left_OF_def\<close>)
  qed
qed

lemma SHR_16_sim: "cpu_abs (SHR_EwR i c) = arch_SHIFT BX_WRITE_16BIT_REG right_OF (i_dst i)
  (shift_count BX_IA_SHR_Ew i c AND 0x1f) ((step_SHR ^^ (shift_count BX_IA_SHR_Ew i c AND 0x1f))
    (BX_READ_16BIT_REG (i_dst i) c, carry c)) c"
proof (cases "shift_count BX_IA_SHR_Ew i c mod 32 = 0")
  case 0: True
  show ?thesis
      unfolding SHR_EwR_def shift_count_def [symmetric] Let_def
        count_masks using 0 by (simp add: no_shift write_back)
next
  case False
  then have m: "0 < shift_count BX_IA_SHR_Ew i c mod 32" "shift_count BX_IA_SHR_Ew i c mod 32 < 32" by simp_all
  show ?thesis
    unfolding SHR_EwR_def shift_count_def [symmetric] Let_def count_masks top_two_bits truncated_shifts
    using False by (simp only: refl if_False code_bits)
      (rule shift_result; use m in \<open>auto simp: iter_SHR reg_laws logic_flags bit_signed_iff min_def left_OF_def right_OF_def no_OF_def bit_unsigned_iff dest: bit_imp_le_length\<close>)
qed

lemma SAR_16_sim: "cpu_abs (SAR_EwR i c) = arch_SHIFT BX_WRITE_16BIT_REG no_OF (i_dst i) (shift_count
  BX_IA_SAR_Ew i c AND 0x1f) ((step_SAR ^^ (shift_count BX_IA_SAR_Ew i c AND 0x1f))
    (BX_READ_16BIT_REG (i_dst i) c, carry c)) c"
proof (cases "shift_count BX_IA_SAR_Ew i c mod 32 = 0")
  case 0: True
  show ?thesis
      unfolding SAR_EwR_def shift_count_def [symmetric] Let_def
        count_masks using 0 by (simp add: no_shift write_back)
next
  case False
  then have m: "0 < shift_count BX_IA_SAR_Ew i c mod 32" "shift_count BX_IA_SAR_Ew i c mod 32 < 32" by simp_all
  show ?thesis
    unfolding SAR_EwR_def shift_count_def [symmetric] Let_def count_masks top_two_bits truncated_shifts
    using False by (simp only: refl if_False code_bits)
      (rule shift_result_no_OF;
        use m in \<open>auto simp: iter_SAR reg_laws logic_flags bit_signed_iff min_def left_OF_def right_OF_def no_OF_def bit_unsigned_iff dest: bit_imp_le_length\<close>)
qed

lemma SHL_32_sim: "cpu_abs (SHL_EdR i c) = arch_SHIFT BX_WRITE_32BIT_REGZ left_OF (i_dst i)
  (shift_count BX_IA_SHL_Ed i c AND 0x1f) ((step_SHL ^^ (shift_count BX_IA_SHL_Ed i c AND 0x1f))
    (BX_READ_32BIT_REG (i_dst i) c, carry c)) c"
proof (cases "shift_count BX_IA_SHL_Ed i c mod 32 = 0")
  case 0: True
  show ?thesis
      unfolding SHL_EdR_def shift_count_def [symmetric] Let_def
        count_masks using 0 by (simp add: clear_high_abs)
next
  case False
  then have m: "0 < shift_count BX_IA_SHL_Ed i c mod 32" "shift_count BX_IA_SHL_Ed i c mod 32 < 32" by simp_all
  show ?thesis
    unfolding SHL_EdR_def shift_count_def [symmetric] Let_def count_masks top_two_bits truncated_shifts
    using False by (simp only: refl if_False code_bits)
      (rule shift_result; use m in \<open>auto simp: iter_SHL reg_laws logic_flags bit_signed_iff min_def left_OF_def right_OF_def no_OF_def bit_unsigned_iff dest: bit_imp_le_length\<close>)
qed

lemma SHR_32_sim: "cpu_abs (SHR_EdR i c) = arch_SHIFT BX_WRITE_32BIT_REGZ right_OF (i_dst i)
  (shift_count BX_IA_SHR_Ed i c AND 0x1f) ((step_SHR ^^ (shift_count BX_IA_SHR_Ed i c AND 0x1f))
    (BX_READ_32BIT_REG (i_dst i) c, carry c)) c"
proof (cases "shift_count BX_IA_SHR_Ed i c mod 32 = 0")
  case 0: True
  show ?thesis
      unfolding SHR_EdR_def shift_count_def [symmetric] Let_def
        count_masks using 0 by (simp add: clear_high_abs)
next
  case False
  then have m: "0 < shift_count BX_IA_SHR_Ed i c mod 32" "shift_count BX_IA_SHR_Ed i c mod 32 < 32" by simp_all
  show ?thesis
    unfolding SHR_EdR_def shift_count_def [symmetric] Let_def count_masks top_two_bits truncated_shifts
    using False by (simp only: refl if_False code_bits)
      (rule shift_result; use m in \<open>auto simp: iter_SHR reg_laws logic_flags bit_signed_iff min_def left_OF_def right_OF_def no_OF_def bit_unsigned_iff dest: bit_imp_le_length\<close>)
qed

lemma SAR_32_sim: "cpu_abs (SAR_EdR i c) = arch_SHIFT BX_WRITE_32BIT_REGZ no_OF (i_dst i) (shift_count
  BX_IA_SAR_Ed i c AND 0x1f) ((step_SAR ^^ (shift_count BX_IA_SAR_Ed i c AND 0x1f))
    (BX_READ_32BIT_REG (i_dst i) c, carry c)) c"
proof (cases "shift_count BX_IA_SAR_Ed i c mod 32 = 0")
  case 0: True
  show ?thesis
      unfolding SAR_EdR_def shift_count_def [symmetric] Let_def
        count_masks using 0 by (simp add: clear_high_abs)
next
  case False
  then have m: "0 < shift_count BX_IA_SAR_Ed i c mod 32" "shift_count BX_IA_SAR_Ed i c mod 32 < 32" by simp_all
  show ?thesis
    unfolding SAR_EdR_def shift_count_def [symmetric] Let_def count_masks top_two_bits truncated_shifts
    using False by (simp only: refl if_False code_bits)
      (rule shift_result_no_OF;
        use m in \<open>auto simp: iter_SAR reg_laws logic_flags bit_signed_iff min_def left_OF_def right_OF_def no_OF_def bit_unsigned_iff dest: bit_imp_le_length\<close>)
qed

lemma SHL_64_sim: "cpu_abs (SHL_EqR i c) = arch_SHIFT BX_WRITE_64BIT_REG left_OF (i_dst i)
  (shift_count BX_IA_SHL_Eq i c AND 0x3f) ((step_SHL ^^ (shift_count BX_IA_SHL_Eq i c AND 0x3f))
    (BX_READ_64BIT_REG (i_dst i) c, carry c)) c"
proof (cases "shift_count BX_IA_SHL_Eq i c mod 64 = 0")
  case 0: True
  show ?thesis
      unfolding SHL_EqR_def shift_count_def [symmetric] Let_def
        count_masks using 0 by (simp add: no_shift write_back)
next
  case False
  then have m: "0 < shift_count BX_IA_SHL_Eq i c mod 64" "shift_count BX_IA_SHL_Eq i c mod 64 < 64" by simp_all
  show ?thesis
    unfolding SHL_EqR_def shift_count_def [symmetric] Let_def count_masks top_two_bits truncated_shifts
    using False by (simp only: refl if_False code_bits)
      (rule shift_result; use m in \<open>auto simp: iter_SHL reg_laws logic_flags bit_signed_iff min_def left_OF_def right_OF_def no_OF_def bit_unsigned_iff dest: bit_imp_le_length\<close>)
qed

lemma SHR_64_sim: "cpu_abs (SHR_EqR i c) = arch_SHIFT BX_WRITE_64BIT_REG right_OF (i_dst i)
  (shift_count BX_IA_SHR_Eq i c AND 0x3f) ((step_SHR ^^ (shift_count BX_IA_SHR_Eq i c AND 0x3f))
    (BX_READ_64BIT_REG (i_dst i) c, carry c)) c"
proof (cases "shift_count BX_IA_SHR_Eq i c mod 64 = 0")
  case 0: True
  show ?thesis
      unfolding SHR_EqR_def shift_count_def [symmetric] Let_def
        count_masks using 0 by (simp add: no_shift write_back)
next
  case False
  then have m: "0 < shift_count BX_IA_SHR_Eq i c mod 64" "shift_count BX_IA_SHR_Eq i c mod 64 < 64" by simp_all
  show ?thesis
    unfolding SHR_EqR_def shift_count_def [symmetric] Let_def count_masks top_two_bits truncated_shifts
    using False by (simp only: refl if_False code_bits)
      (rule shift_result; use m in \<open>auto simp: iter_SHR reg_laws logic_flags bit_signed_iff min_def left_OF_def right_OF_def no_OF_def bit_unsigned_iff dest: bit_imp_le_length\<close>)
qed

lemma SAR_64_sim: "cpu_abs (SAR_EqR i c) = arch_SHIFT BX_WRITE_64BIT_REG no_OF (i_dst i) (shift_count
  BX_IA_SAR_Eq i c AND 0x3f) ((step_SAR ^^ (shift_count BX_IA_SAR_Eq i c AND 0x3f))
    (BX_READ_64BIT_REG (i_dst i) c, carry c)) c"
proof (cases "shift_count BX_IA_SAR_Eq i c mod 64 = 0")
  case 0: True
  show ?thesis
      unfolding SAR_EqR_def shift_count_def [symmetric] Let_def
        count_masks using 0 by (simp add: no_shift write_back)
next
  case False
  then have m: "0 < shift_count BX_IA_SAR_Eq i c mod 64" "shift_count BX_IA_SAR_Eq i c mod 64 < 64" by simp_all
  show ?thesis
    unfolding SAR_EqR_def shift_count_def [symmetric] Let_def count_masks top_two_bits truncated_shifts
    using False by (simp only: refl if_False code_bits)
      (rule shift_result_no_OF;
        use m in \<open>auto simp: iter_SAR reg_laws logic_flags bit_signed_iff min_def left_OF_def right_OF_def no_OF_def bit_unsigned_iff dest: bit_imp_le_length\<close>)
qed

lemma value_ROL_8:
  assumes "0 < n" "n \<le> 8"
  shows "rol8 x n = fst ((step_ROL ^^ n) (x, cf))" "ror8 x n = fst ((step_ROR ^^ n) (x, cf))"
  by (rule bit_word_eqI; unfold rol8_def ror8_def bit_unsigned_iff bit_shift_ops;
      use assms in \<open>auto simp: iter_ROL(2) iter_ROR(2) bit_unsigned_iff dest: bit_imp_le_length\<close>)+

lemma value_ROL_16:
  assumes "0 < n" "n \<le> 16"
  shows "rol16 x n = fst ((step_ROL ^^ n) (x, cf))" "ror16 x n = fst ((step_ROR ^^ n) (x, cf))"
  by (rule bit_word_eqI; unfold rol16_def ror16_def bit_unsigned_iff bit_shift_ops;
      use assms in \<open>auto simp: iter_ROL(2) iter_ROR(2) bit_unsigned_iff dest: bit_imp_le_length\<close>)+

lemma value_ROL_32:
  assumes "0 < n" "n \<le> 32"
  shows "rol32 x n = fst ((step_ROL ^^ n) (x, cf))" "ror32 x n = fst ((step_ROR ^^ n) (x, cf))"
  by (rule bit_word_eqI; unfold rol32_def ror32_def bit_unsigned_iff bit_shift_ops;
      use assms in \<open>auto simp: iter_ROL(2) iter_ROR(2) bit_unsigned_iff dest: bit_imp_le_length\<close>)+

lemma value_ROL_64:
  assumes "0 < n" "n \<le> 64"
  shows "rol64 x n = fst ((step_ROL ^^ n) (x, cf))" "ror64 x n = fst ((step_ROR ^^ n) (x, cf))"
  by (rule bit_word_eqI; unfold rol64_def ror64_def bit_unsigned_iff bit_shift_ops;
      use assms in \<open>auto simp: iter_ROL(2) iter_ROR(2) bit_unsigned_iff dest: bit_imp_le_length\<close>)+

lemma and_1_of_bool: "(x AND 1 :: 'a::len word) = of_bool (bit x 0)"
  by (simp add: and_1_eq)

lemma ROL_8_sim: "cpu_abs (ROL_EbR i c) = arch_ROTATE (wr8 i) left_OF (i_dst i) (shift_count
  BX_IA_ROL_Eb i c AND 0x1f) ((step_ROL ^^ (shift_count BX_IA_ROL_Eb i c AND 0x1f))
    (rd8 i (i_dst i) c, carry c)) c"
proof (cases rule: count_cases [of "shift_count BX_IA_ROL_Eb i c"])
  case 1
  then show ?thesis
    unfolding ROL_EbR_def shift_count_def [symmetric] Let_def count_masks
    by (simp add: count_bits no_shift write_back)
next
  case 2
  then have m: "shift_count BX_IA_ROL_Eb i c mod 32 mod LENGTH(8) = 0" "0 < shift_count
    BX_IA_ROL_Eb i c mod 32" by (simp_all add: mod_mod_cancel)
  note s = iter_ROL_mod(1) [OF m(2), where 'a = 8, unfolded m(1), simplified]
  show ?thesis
    unfolding ROL_EbR_def shift_count_def [symmetric] Let_def count_masks
    using 2 by (simp only: count_bits refl if_True if_False simp_thms code_bits)
      (rule rotate_in_place;
        use m in \<open>auto simp: s left_OF_def right_OF_def bit_unsigned_iff write_back\<close>)
next
  case 3
  then have m: "0 < shift_count BX_IA_ROL_Eb i c mod 32" "0 < shift_count
    BX_IA_ROL_Eb i c mod 8" "shift_count BX_IA_ROL_Eb i c mod 8 \<le> 8" by simp_all
  have s: "(step_ROL ^^ (shift_count BX_IA_ROL_Eb i c mod 32)) (rd8 i (i_dst i) c, carry c)
    = (step_ROL ^^ (shift_count BX_IA_ROL_Eb i c mod 8)) (rd8 i (i_dst i) c, carry c)"
    using iter_ROL_mod(1) [OF m(1), where 'a = 8] 3 by (simp add: mod_mod_cancel)
  show ?thesis
    unfolding ROL_EbR_def shift_count_def [symmetric] Let_def count_masks
    using 3 m by (simp only: refl if_True if_False simp_thms code_bits value_ROL_8(1) [where cf = "carry c"])
      (rule rotate_result; auto simp: s reg_laws left_OF_def right_OF_def bit_unsigned_iff ROL_carry)
qed

lemma ROR_8_sim: "cpu_abs (ROR_EbR i c) = arch_ROTATE (wr8 i) right_OF (i_dst i) (shift_count
  BX_IA_ROR_Eb i c AND 0x1f) ((step_ROR ^^ (shift_count BX_IA_ROR_Eb i c AND 0x1f))
    (rd8 i (i_dst i) c, carry c)) c"
proof (cases rule: count_cases [of "shift_count BX_IA_ROR_Eb i c"])
  case 1
  then show ?thesis
    unfolding ROR_EbR_def shift_count_def [symmetric] Let_def count_masks
    by (simp add: count_bits no_shift write_back)
next
  case 2
  then have m: "shift_count BX_IA_ROR_Eb i c mod 32 mod LENGTH(8) = 0" "0 < shift_count
    BX_IA_ROR_Eb i c mod 32" by (simp_all add: mod_mod_cancel)
  note s = iter_ROL_mod(2) [OF m(2), where 'a = 8, unfolded m(1), simplified]
  show ?thesis
    unfolding ROR_EbR_def shift_count_def [symmetric] Let_def count_masks
    using 2 by (simp only: count_bits refl if_True if_False simp_thms code_bits)
      (rule rotate_in_place;
        use m in \<open>auto simp: s left_OF_def right_OF_def bit_unsigned_iff write_back\<close>)
next
  case 3
  then have m: "0 < shift_count BX_IA_ROR_Eb i c mod 32" "0 < shift_count
    BX_IA_ROR_Eb i c mod 8" "shift_count BX_IA_ROR_Eb i c mod 8 \<le> 8" by simp_all
  have s: "(step_ROR ^^ (shift_count BX_IA_ROR_Eb i c mod 32)) (rd8 i (i_dst i) c, carry c)
    = (step_ROR ^^ (shift_count BX_IA_ROR_Eb i c mod 8)) (rd8 i (i_dst i) c, carry c)"
    using iter_ROL_mod(2) [OF m(1), where 'a = 8] 3 by (simp add: mod_mod_cancel)
  show ?thesis
    unfolding ROR_EbR_def shift_count_def [symmetric] Let_def count_masks
    using 3 m by (simp only: refl if_True if_False simp_thms code_bits value_ROL_8(2) [where cf = "carry c"])
      (rule rotate_result; auto simp: s reg_laws left_OF_def right_OF_def bit_unsigned_iff ROL_carry)
qed

lemma ROL_16_sim: "cpu_abs (ROL_EwR i c) = arch_ROTATE BX_WRITE_16BIT_REG left_OF (i_dst i)
  (shift_count BX_IA_ROL_Ew i c AND 0x1f) ((step_ROL ^^ (shift_count BX_IA_ROL_Ew i c AND 0x1f))
    (BX_READ_16BIT_REG (i_dst i) c, carry c)) c"
proof (cases rule: count_cases_16 [of "shift_count BX_IA_ROL_Ew i c"])
  case 1
  then show ?thesis
    unfolding ROL_EwR_def shift_count_def [symmetric] Let_def count_masks
    by (simp add: count_bits no_shift write_back)
next
  case 2
  then have m: "shift_count BX_IA_ROL_Ew i c mod 32 mod LENGTH(16) = 0" "0 < shift_count
    BX_IA_ROL_Ew i c mod 32" by (simp_all add: mod_mod_cancel)
  note s = iter_ROL_mod(1) [OF m(2), where 'a = 16, unfolded m(1), simplified]
  show ?thesis
    unfolding ROL_EwR_def shift_count_def [symmetric] Let_def count_masks
    using 2 by (simp only: count_bits refl if_True if_False simp_thms code_bits)
      (rule rotate_in_place;
        use m in \<open>auto simp: s left_OF_def right_OF_def bit_unsigned_iff write_back\<close>)
next
  case 3
  then have m: "0 < shift_count BX_IA_ROL_Ew i c mod 32" "0 < shift_count
    BX_IA_ROL_Ew i c mod 16" "shift_count BX_IA_ROL_Ew i c mod 16 \<le> 16" by simp_all
  have s: "(step_ROL ^^ (shift_count BX_IA_ROL_Ew i c mod 32)) (BX_READ_16BIT_REG (i_dst i) c, carry c)
    = (step_ROL ^^ (shift_count BX_IA_ROL_Ew i c mod 16)) (BX_READ_16BIT_REG (i_dst i) c, carry c)"
    using iter_ROL_mod(1) [OF m(1), where 'a = 16] 3 by (simp add: mod_mod_cancel)
  show ?thesis
    unfolding ROL_EwR_def shift_count_def [symmetric] Let_def count_masks
    using 3 m by (simp only: refl if_True if_False simp_thms code_bits value_ROL_16(1) [where cf = "carry c"])
      (rule rotate_result; auto simp: s reg_laws left_OF_def right_OF_def bit_unsigned_iff ROL_carry)
qed

lemma ROR_16_sim: "cpu_abs (ROR_EwR i c) = arch_ROTATE BX_WRITE_16BIT_REG right_OF (i_dst i)
  (shift_count BX_IA_ROR_Ew i c AND 0x1f) ((step_ROR ^^ (shift_count BX_IA_ROR_Ew i c AND 0x1f))
    (BX_READ_16BIT_REG (i_dst i) c, carry c)) c"
proof (cases rule: count_cases_16 [of "shift_count BX_IA_ROR_Ew i c"])
  case 1
  then show ?thesis
    unfolding ROR_EwR_def shift_count_def [symmetric] Let_def count_masks
    by (simp add: count_bits no_shift write_back)
next
  case 2
  then have m: "shift_count BX_IA_ROR_Ew i c mod 32 mod LENGTH(16) = 0" "0 < shift_count
    BX_IA_ROR_Ew i c mod 32" by (simp_all add: mod_mod_cancel)
  note s = iter_ROL_mod(2) [OF m(2), where 'a = 16, unfolded m(1), simplified]
  show ?thesis
    unfolding ROR_EwR_def shift_count_def [symmetric] Let_def count_masks
    using 2 by (simp only: count_bits refl if_True if_False simp_thms code_bits)
      (rule rotate_in_place;
        use m in \<open>auto simp: s left_OF_def right_OF_def bit_unsigned_iff write_back\<close>)
next
  case 3
  then have m: "0 < shift_count BX_IA_ROR_Ew i c mod 32" "0 < shift_count
    BX_IA_ROR_Ew i c mod 16" "shift_count BX_IA_ROR_Ew i c mod 16 \<le> 16" by simp_all
  have s: "(step_ROR ^^ (shift_count BX_IA_ROR_Ew i c mod 32)) (BX_READ_16BIT_REG (i_dst i) c, carry c)
    = (step_ROR ^^ (shift_count BX_IA_ROR_Ew i c mod 16)) (BX_READ_16BIT_REG (i_dst i) c, carry c)"
    using iter_ROL_mod(2) [OF m(1), where 'a = 16] 3 by (simp add: mod_mod_cancel)
  show ?thesis
    unfolding ROR_EwR_def shift_count_def [symmetric] Let_def count_masks
    using 3 m by (simp only: refl if_True if_False simp_thms code_bits value_ROL_16(2) [where cf = "carry c"])
      (rule rotate_result; auto simp: s reg_laws left_OF_def right_OF_def bit_unsigned_iff ROL_carry)
qed

lemma ROL_32_sim: "cpu_abs (ROL_EdR i c) = arch_ROTATE BX_WRITE_32BIT_REGZ left_OF (i_dst i)
  (shift_count BX_IA_ROL_Ed i c AND 0x1f) ((step_ROL ^^ (shift_count BX_IA_ROL_Ed i c AND 0x1f))
    (BX_READ_32BIT_REG (i_dst i) c, carry c)) c"
proof (cases "shift_count BX_IA_ROL_Ed i c mod 32 = 0")
  case 0: True
  show ?thesis
      unfolding ROL_EdR_def shift_count_def [symmetric] Let_def
        count_masks using 0 by (simp add: clear_high_abs)
next
  case False
  then have m: "0 < shift_count BX_IA_ROL_Ed i c mod 32" "shift_count
    BX_IA_ROL_Ed i c mod 32 \<le> 32" by simp_all
  show ?thesis
    unfolding ROL_EdR_def shift_count_def [symmetric] Let_def count_masks
    using False by (simp only: refl if_False value_ROL_32(1) [OF m, where cf = "carry c"])
      (simp only: code_bits and_1_of_bool, rule rotate_result;
        use m in \<open>auto simp: reg_laws left_OF_def right_OF_def ROL_carry\<close>)
qed

lemma ROR_32_sim: "cpu_abs (ROR_EdR i c) = arch_ROTATE BX_WRITE_32BIT_REGZ right_OF (i_dst i)
  (shift_count BX_IA_ROR_Ed i c AND 0x1f) ((step_ROR ^^ (shift_count BX_IA_ROR_Ed i c AND 0x1f))
    (BX_READ_32BIT_REG (i_dst i) c, carry c)) c"
proof (cases "shift_count BX_IA_ROR_Ed i c mod 32 = 0")
  case 0: True
  show ?thesis
      unfolding ROR_EdR_def shift_count_def [symmetric] Let_def
        count_masks using 0 by (simp add: clear_high_abs)
next
  case False
  then have m: "0 < shift_count BX_IA_ROR_Ed i c mod 32" "shift_count
    BX_IA_ROR_Ed i c mod 32 \<le> 32" by simp_all
  show ?thesis
    unfolding ROR_EdR_def shift_count_def [symmetric] Let_def count_masks
    using False by (simp only: refl if_False value_ROL_32(2) [OF m, where cf = "carry c"])
      (simp only: code_bits and_1_of_bool bit_shift_ops(2,3) simp_thms, rule rotate_result;
        use m in \<open>auto simp: reg_laws left_OF_def right_OF_def ROL_carry\<close>)
qed

lemma ROL_64_sim: "cpu_abs (ROL_EqR i c) = arch_ROTATE BX_WRITE_64BIT_REG left_OF (i_dst i)
  (shift_count BX_IA_ROL_Eq i c AND 0x3f) ((step_ROL ^^ (shift_count BX_IA_ROL_Eq i c AND 0x3f))
    (BX_READ_64BIT_REG (i_dst i) c, carry c)) c"
proof (cases "shift_count BX_IA_ROL_Eq i c mod 64 = 0")
  case 0: True
  show ?thesis
      unfolding ROL_EqR_def shift_count_def [symmetric] Let_def
        count_masks using 0 by (simp add: no_shift write_back)
next
  case False
  then have m: "0 < shift_count BX_IA_ROL_Eq i c mod 64" "shift_count
    BX_IA_ROL_Eq i c mod 64 \<le> 64" by simp_all
  show ?thesis
    unfolding ROL_EqR_def shift_count_def [symmetric] Let_def count_masks
    using False by (simp only: refl if_False value_ROL_64(1) [OF m, where cf = "carry c"])
      (simp only: code_bits, rule rotate_result;
        use m in \<open>auto simp: reg_laws left_OF_def right_OF_def ROL_carry\<close>)
qed

lemma ROR_64_sim: "cpu_abs (ROR_EqR i c) = arch_ROTATE BX_WRITE_64BIT_REG right_OF (i_dst i)
  (shift_count BX_IA_ROR_Eq i c AND 0x3f) ((step_ROR ^^ (shift_count BX_IA_ROR_Eq i c AND 0x3f))
    (BX_READ_64BIT_REG (i_dst i) c, carry c)) c"
proof (cases "shift_count BX_IA_ROR_Eq i c mod 64 = 0")
  case 0: True
  show ?thesis
      unfolding ROR_EqR_def shift_count_def [symmetric] Let_def
        count_masks using 0 by (simp add: no_shift write_back)
next
  case False
  then have m: "0 < shift_count BX_IA_ROR_Eq i c mod 64" "shift_count
    BX_IA_ROR_Eq i c mod 64 \<le> 64" by simp_all
  show ?thesis
    unfolding ROR_EqR_def shift_count_def [symmetric] Let_def count_masks
    using False by (simp only: refl if_False value_ROL_64(2) [OF m, where cf = "carry c"])
      (simp only: code_bits, rule rotate_result;
        use m in \<open>auto simp: reg_laws left_OF_def right_OF_def ROL_carry\<close>)
qed

lemma dshift_result:
  assumes "oszapc (wr d r c) = oszapc c" "0 < n" "r = fst (fst s)" "cy = snd s" "ov = ovf r cy"
    and "\<And>lf. lf_abs (f lf) = arch_logic r"
  shows "cpu_abs (upd_lf (set_flags_OxxxxC (of_bool ov) (of_bool cy)) (upd_lf f (wr d r c))) = arch_DSHIFT wr ovf d n s c"
  using shift_result [of wr d r c n "(r, cy)" cy ov ovf f] assms
  by (simp add: arch_DSHIFT_def split_beta)

lemma no_dshift:
  assumes "wr d x c = c"
  shows "arch_DSHIFT wr ovf d 0 ((x, y), cf) c = cpu_abs c"
  using assms by (simp add: arch_DSHIFT_def no_shift)

lemma clear_high_dshift:
  "cpu_abs (BX_CLEAR_64BIT_HIGH d c) = arch_DSHIFT BX_WRITE_32BIT_REGZ ovf d 0 ((BX_READ_32BIT_REG d c, y), cf) c"
  by (simp add: arch_DSHIFT_def clear_high_abs(2))

lemma value_SHLD_32:
  fixes x y :: u32
  assumes "0 < n" "n \<le> 32"
  shows "push_bit n x OR drop_bit (32 - n) y = fst (fst ((step_SHLD ^^ n) ((x, y), cf)))"
    and "push_bit (32 - n) y OR drop_bit n x = fst (fst ((step_SHRD ^^ n) ((x, y), cf)))"
  by (rule bit_word_eqI; unfold bit_shift_ops;
      use assms in \<open>auto simp: iter_SHLD(2) iter_SHRD(2) dest: bit_imp_le_length\<close>)+

lemma value_SHLD_64:
  fixes x y :: u64
  assumes "0 < n" "n \<le> 64"
  shows "push_bit n x OR drop_bit (64 - n) y = fst (fst ((step_SHLD ^^ n) ((x, y), cf)))"
    and "push_bit (64 - n) y OR drop_bit n x = fst (fst ((step_SHRD ^^ n) ((x, y), cf)))"
  by (rule bit_word_eqI; unfold bit_shift_ops;
      use assms in \<open>auto simp: iter_SHLD(2) iter_SHRD(2) dest: bit_imp_le_length\<close>)+

lemma of_bool_if: "(if b then of_bool p else of_bool q) = (of_bool (if b then p else q) :: 'a::zero_neq_one)"
  by simp

lemma value_SHLD_16:
  fixes x y :: u16
  assumes "0 < n" "n < 32"
  defines "t \<equiv> push_bit 16 (ucast x) OR ucast y :: u32"
  shows "ucast (drop_bit 16 (if 16 < n then push_bit n t OR push_bit (n - 16) (ucast x) else push_bit n t))
           = fst (fst ((step_SHLD ^^ n) ((x, y), cf)))" (is ?r)
    and "bit t (32 - n) = snd ((step_SHLD ^^ n) ((x, y), cf))" (is ?c)
proof -
  have "?r \<and> ?c"
  proof (cases "n \<le> 16")
    case True
    then show ?thesis
      by (intro conjI bit_word_eqI; unfold t_def bit_if bit_unsigned_iff bit_shift_ops;
          use assms(1) in \<open>auto simp: iter_SHLD bit_unsigned_iff add.commute [of 16] dest: bit_imp_le_length\<close>)
  next
    case False
    then obtain b where s: "(step_SHLD ^^ n) ((x, y), cf) = (step_SHLD ^^ (n - 16)) ((y, x), b)"
      using iter_SHLD_wide(1) [of n x y cf] by auto
    have "0 < n - 16" "n - 16 \<le> 16" using False assms(2) by auto
    then show ?thesis
      unfolding s by (intro conjI bit_word_eqI; unfold t_def bit_if bit_unsigned_iff bit_shift_ops;
          use False assms(2) in \<open>auto simp: iter_SHLD bit_unsigned_iff add.commute [of 16] dest: bit_imp_le_length\<close>)
  qed
  then show ?r ?c by blast+
qed

lemma value_SHRD_16:
  fixes x y :: u16
  assumes "0 < n" "n < 32"
  defines "t \<equiv> push_bit 16 (ucast y) OR ucast x :: u32"
  shows "ucast (if 16 < n then drop_bit n t OR push_bit (32 - n) (ucast x) else drop_bit n t)
           = fst (fst ((step_SHRD ^^ n) ((x, y), cf)))" (is ?r)
    and "(if 16 < n then bit (ucast y :: u32) (n - 17) else bit (ucast x :: u32) (n - 1))
           = snd ((step_SHRD ^^ n) ((x, y), cf))" (is ?c)
proof -
  have "?r \<and> ?c"
  proof (cases "n \<le> 16")
    case True
    then show ?thesis
      by (intro conjI bit_word_eqI; unfold t_def bit_if bit_unsigned_iff bit_shift_ops;
          use assms(1) in \<open>auto simp: iter_SHRD bit_unsigned_iff add.commute [of n] dest: bit_imp_le_length\<close>)
  next
    case False
    then obtain b where s: "(step_SHRD ^^ n) ((x, y), cf) = (step_SHRD ^^ (n - 16)) ((y, x), b)"
      using iter_SHLD_wide(2) [of n x y cf] by auto
    have "0 < n - 16" "n - 16 \<le> 16" using False assms(2) by auto
    then show ?thesis
      unfolding s by (intro conjI bit_word_eqI; unfold t_def bit_if bit_unsigned_iff bit_shift_ops;
          use False assms(2) in \<open>auto simp: iter_SHRD bit_unsigned_iff add.commute [of n] dest: bit_imp_le_length\<close>)
  qed
  then show ?r ?c by blast+
qed

lemma SHLD_16_sim: "cpu_abs (SHLD_EwGwR i c) = arch_DSHIFT BX_WRITE_16BIT_REG left_OF (i_dst i)
  (shift_count BX_IA_SHLD_EwGw i c AND 0x1f) ((step_SHLD ^^ (shift_count
    BX_IA_SHLD_EwGw i c AND 0x1f)) ((BX_READ_16BIT_REG (i_dst i) c, BX_READ_16BIT_REG (i_src i) c), carry c)) c"
proof (cases "shift_count BX_IA_SHLD_EwGw i c mod 32 = 0")
  case 0: True
  show ?thesis
      unfolding SHLD_EwGwR_def shift_count_def [symmetric] Let_def
        count_masks using 0 by (simp add: no_dshift write_back)
next
  case False
  then have m: "0 < shift_count BX_IA_SHLD_EwGw i c mod 32" "shift_count
    BX_IA_SHLD_EwGw i c mod 32 < 32" by simp_all
  note v = value_SHLD_16 [OF m, where x = "BX_READ_16BIT_REG (i_dst i) c" and y = "BX_READ_16BIT_REG (i_src i) c" and cf = "carry c"]
  show ?thesis
    unfolding SHLD_EwGwR_def shift_count_def [symmetric] Let_def count_masks top_two_bits
    using False by (simp only: refl if_False code_bits v of_bool_if)
      (rule dshift_result; use m in \<open>auto simp: reg_laws logic_flags left_OF_def right_OF_def\<close>)
qed

lemma SHRD_16_sim: "cpu_abs (SHRD_EwGwR i c) = arch_DSHIFT BX_WRITE_16BIT_REG right_OF (i_dst i) (shift_count BX_IA_SHRD_EwGw i c AND 0x1f) ((step_SHRD ^^ (shift_count BX_IA_SHRD_EwGw i c AND 0x1f)) ((BX_READ_16BIT_REG (i_dst i) c, BX_READ_16BIT_REG (i_src i) c), carry c)) c"
proof (cases "shift_count BX_IA_SHRD_EwGw i c mod 32 = 0")
  case 0: True
  show ?thesis
      unfolding SHRD_EwGwR_def shift_count_def [symmetric] Let_def
        count_masks using 0 by (simp add: no_dshift write_back)
next
  case False
  then have m: "0 < shift_count BX_IA_SHRD_EwGw i c mod 32" "shift_count
    BX_IA_SHRD_EwGw i c mod 32 < 32" by simp_all
  note v = value_SHRD_16 [OF m, where x = "BX_READ_16BIT_REG (i_dst i) c" and y = "BX_READ_16BIT_REG (i_src i) c" and cf = "carry c"]
  show ?thesis
    unfolding SHRD_EwGwR_def shift_count_def [symmetric] Let_def count_masks top_two_bits
    using False by (simp only: refl if_False code_bits v of_bool_if)
      (rule dshift_result; use m in \<open>auto simp: reg_laws logic_flags left_OF_def right_OF_def\<close>)
qed

lemma SHLD_32_sim: "cpu_abs (SHLD_EdGdR i c) = arch_DSHIFT BX_WRITE_32BIT_REGZ left_OF (i_dst i) (shift_count BX_IA_SHLD_EdGd i c AND 0x1f) ((step_SHLD ^^ (shift_count BX_IA_SHLD_EdGd i c AND 0x1f)) ((BX_READ_32BIT_REG (i_dst i) c, BX_READ_32BIT_REG (i_src i) c), carry c)) c"
proof (cases "shift_count BX_IA_SHLD_EdGd i c mod 32 = 0")
  case 0: True
  show ?thesis
      unfolding SHLD_EdGdR_def shift_count_def [symmetric] Let_def
        count_masks using 0 by (simp add: clear_high_dshift)
next
  case False
  then have m: "0 < shift_count BX_IA_SHLD_EdGd i c mod 32" "shift_count
    BX_IA_SHLD_EdGd i c mod 32 \<le> 32" by simp_all
  show ?thesis
    unfolding SHLD_EdGdR_def shift_count_def [symmetric] Let_def count_masks top_two_bits
    using False by (simp only: refl if_False code_bits value_SHLD_32(1) [OF m, where cf = "carry c"])
      (rule dshift_result;
        use m in \<open>auto simp: iter_SHLD(1) reg_laws logic_flags left_OF_def right_OF_def no_OF_def bit_unsigned_iff\<close>)
qed

lemma SHRD_32_sim: "cpu_abs (SHRD_EdGdR i c) = arch_DSHIFT BX_WRITE_32BIT_REGZ right_OF (i_dst i) (shift_count BX_IA_SHRD_EdGd i c AND 0x1f) ((step_SHRD ^^ (shift_count BX_IA_SHRD_EdGd i c AND 0x1f)) ((BX_READ_32BIT_REG (i_dst i) c, BX_READ_32BIT_REG (i_src i) c), carry c)) c"
proof (cases "shift_count BX_IA_SHRD_EdGd i c mod 32 = 0")
  case 0: True
  show ?thesis
      unfolding SHRD_EdGdR_def shift_count_def [symmetric] Let_def
        count_masks using 0 by (simp add: clear_high_dshift)
next
  case False
  then have m: "0 < shift_count BX_IA_SHRD_EdGd i c mod 32" "shift_count
    BX_IA_SHRD_EdGd i c mod 32 \<le> 32" by simp_all
  show ?thesis
    unfolding SHRD_EdGdR_def shift_count_def [symmetric] Let_def count_masks top_two_bits
    using False by (simp only: refl if_False code_bits value_SHLD_32(2) [OF m, where cf = "carry c"])
      (rule dshift_result;
        use m in \<open>auto simp: iter_SHRD(1) reg_laws logic_flags left_OF_def right_OF_def no_OF_def bit_unsigned_iff\<close>)
qed

lemma SHLD_64_sim: "cpu_abs (SHLD_EqGqR i c) = arch_DSHIFT BX_WRITE_64BIT_REG left_OF (i_dst i)
  (shift_count BX_IA_SHLD_EqGq i c AND 0x3f) ((step_SHLD ^^ (shift_count
    BX_IA_SHLD_EqGq i c AND 0x3f)) ((BX_READ_64BIT_REG (i_dst i) c, BX_READ_64BIT_REG (i_src i) c), carry c)) c"
proof (cases "shift_count BX_IA_SHLD_EqGq i c mod 64 = 0")
  case 0: True
  show ?thesis
      unfolding SHLD_EqGqR_def shift_count_def [symmetric] Let_def
        count_masks using 0 by (simp add: no_dshift write_back)
next
  case False
  then have m: "0 < shift_count BX_IA_SHLD_EqGq i c mod 64" "shift_count
    BX_IA_SHLD_EqGq i c mod 64 \<le> 64" by simp_all
  show ?thesis
    unfolding SHLD_EqGqR_def shift_count_def [symmetric] Let_def count_masks top_two_bits
    using False by (simp only: refl if_False code_bits value_SHLD_64(1) [OF m, where cf = "carry c"])
      (rule dshift_result;
        use m in \<open>auto simp: iter_SHLD(1) reg_laws logic_flags left_OF_def right_OF_def no_OF_def bit_unsigned_iff\<close>)
qed

lemma SHRD_64_sim: "cpu_abs (SHRD_EqGqR i c) = arch_DSHIFT BX_WRITE_64BIT_REG right_OF (i_dst i) (shift_count BX_IA_SHRD_EqGq i c AND 0x3f) ((step_SHRD ^^ (shift_count BX_IA_SHRD_EqGq i c AND 0x3f)) ((BX_READ_64BIT_REG (i_dst i) c, BX_READ_64BIT_REG (i_src i) c), carry c)) c"
proof (cases "shift_count BX_IA_SHRD_EqGq i c mod 64 = 0")
  case 0: True
  show ?thesis
      unfolding SHRD_EqGqR_def shift_count_def [symmetric] Let_def
        count_masks using 0 by (simp add: no_dshift write_back)
next
  case False
  then have m: "0 < shift_count BX_IA_SHRD_EqGq i c mod 64" "shift_count
    BX_IA_SHRD_EqGq i c mod 64 \<le> 64" by simp_all
  show ?thesis
    unfolding SHRD_EqGqR_def shift_count_def [symmetric] Let_def count_masks top_two_bits
    using False by (simp only: refl if_False code_bits value_SHLD_64(2) [OF m, where cf = "carry c"])
      (rule dshift_result;
        use m in \<open>auto simp: iter_SHRD(1) reg_laws logic_flags left_OF_def right_OF_def no_OF_def bit_unsigned_iff\<close>)
qed

section \<open>Properties\<close>

text \<open>C32: The register forms of ROL, ROR, RCL and RCR, at the four operand sizes and for every count in CL or in the immediate, do what repeating the single-bit rotation as often as the masked count says does (RCL and RCR of bytes and words reduce the count modulo 9 and 17): the destination receives the rotated operand, through the carry flag for RCL and RCR; CF is the last bit that moved, OF the exclusive or of the top bit with CF (left) or of the two top bits (right); the other flags stay; a zero count changes no flag, and the 32-bit forms clear the upper half of the register even then.\<close>

theorem rotate_handlers_correct:
  "(cpu_abs (RCL_EbR i c) = arch_ROTATE (wr8 i) left_OF (i_dst i) ((shift_count
    BX_IA_RCL_Eb i c AND 0x1f) mod 9) ((step_RCL ^^ ((shift_count BX_IA_RCL_Eb i c AND 0x1f) mod 9))
      (rd8 i (i_dst i) c, carry c)) c) \<and>
   (cpu_abs (RCR_EbR i c) = arch_ROTATE (wr8 i) right_OF (i_dst i) ((shift_count
     BX_IA_RCR_Eb i c AND 0x1f) mod 9) ((step_RCR ^^ ((shift_count BX_IA_RCR_Eb i c AND 0x1f) mod 9))
       (rd8 i (i_dst i) c, carry c)) c) \<and>
   (cpu_abs (RCL_EwR i c) = arch_ROTATE BX_WRITE_16BIT_REG left_OF (i_dst i) ((shift_count
     BX_IA_RCL_Ew i c AND 0x1f) mod 17) ((step_RCL ^^ ((shift_count BX_IA_RCL_Ew i c AND 0x1f) mod 17))
       (BX_READ_16BIT_REG (i_dst i) c, carry c)) c) \<and>
   (cpu_abs (RCR_EwR i c) = arch_ROTATE BX_WRITE_16BIT_REG right_OF (i_dst i) ((shift_count
     BX_IA_RCR_Ew i c AND 0x1f) mod 17) ((step_RCR ^^ ((shift_count BX_IA_RCR_Ew i c AND 0x1f) mod 17))
       (BX_READ_16BIT_REG (i_dst i) c, carry c)) c) \<and>
   (cpu_abs (RCL_EdR i c) = arch_ROTATE BX_WRITE_32BIT_REGZ left_OF (i_dst i) (shift_count
     BX_IA_RCL_Ed i c AND 0x1f) ((step_RCL ^^ (shift_count BX_IA_RCL_Ed i c AND 0x1f))
       (BX_READ_32BIT_REG (i_dst i) c, carry c)) c) \<and>
   (cpu_abs (RCR_EdR i c) = arch_ROTATE BX_WRITE_32BIT_REGZ right_OF (i_dst i) (shift_count
     BX_IA_RCR_Ed i c AND 0x1f) ((step_RCR ^^ (shift_count BX_IA_RCR_Ed i c AND 0x1f))
       (BX_READ_32BIT_REG (i_dst i) c, carry c)) c) \<and>
   (cpu_abs (RCL_EqR i c) = arch_ROTATE BX_WRITE_64BIT_REG left_OF (i_dst i) (shift_count
     BX_IA_RCL_Eq i c AND 0x3f) ((step_RCL ^^ (shift_count BX_IA_RCL_Eq i c AND 0x3f))
       (BX_READ_64BIT_REG (i_dst i) c, carry c)) c) \<and>
   (cpu_abs (RCR_EqR i c) = arch_ROTATE BX_WRITE_64BIT_REG right_OF (i_dst i) (shift_count
     BX_IA_RCR_Eq i c AND 0x3f) ((step_RCR ^^ (shift_count BX_IA_RCR_Eq i c AND 0x3f))
       (BX_READ_64BIT_REG (i_dst i) c, carry c)) c) \<and>
   (cpu_abs (ROL_EbR i c) = arch_ROTATE (wr8 i) left_OF (i_dst i) (shift_count
     BX_IA_ROL_Eb i c AND 0x1f) ((step_ROL ^^ (shift_count BX_IA_ROL_Eb i c AND 0x1f))
       (rd8 i (i_dst i) c, carry c)) c) \<and>
   (cpu_abs (ROR_EbR i c) = arch_ROTATE (wr8 i) right_OF (i_dst i) (shift_count
     BX_IA_ROR_Eb i c AND 0x1f) ((step_ROR ^^ (shift_count BX_IA_ROR_Eb i c AND 0x1f))
       (rd8 i (i_dst i) c, carry c)) c) \<and>
   (cpu_abs (ROL_EwR i c) = arch_ROTATE BX_WRITE_16BIT_REG left_OF (i_dst i) (shift_count
     BX_IA_ROL_Ew i c AND 0x1f) ((step_ROL ^^ (shift_count BX_IA_ROL_Ew i c AND 0x1f))
       (BX_READ_16BIT_REG (i_dst i) c, carry c)) c) \<and>
   (cpu_abs (ROR_EwR i c) = arch_ROTATE BX_WRITE_16BIT_REG right_OF (i_dst i) (shift_count
     BX_IA_ROR_Ew i c AND 0x1f) ((step_ROR ^^ (shift_count BX_IA_ROR_Ew i c AND 0x1f))
       (BX_READ_16BIT_REG (i_dst i) c, carry c)) c) \<and>
   (cpu_abs (ROL_EdR i c) = arch_ROTATE BX_WRITE_32BIT_REGZ left_OF (i_dst i) (shift_count
     BX_IA_ROL_Ed i c AND 0x1f) ((step_ROL ^^ (shift_count BX_IA_ROL_Ed i c AND 0x1f))
       (BX_READ_32BIT_REG (i_dst i) c, carry c)) c) \<and>
   (cpu_abs (ROR_EdR i c) = arch_ROTATE BX_WRITE_32BIT_REGZ right_OF (i_dst i) (shift_count
     BX_IA_ROR_Ed i c AND 0x1f) ((step_ROR ^^ (shift_count BX_IA_ROR_Ed i c AND 0x1f))
       (BX_READ_32BIT_REG (i_dst i) c, carry c)) c) \<and>
   (cpu_abs (ROL_EqR i c) = arch_ROTATE BX_WRITE_64BIT_REG left_OF (i_dst i) (shift_count
     BX_IA_ROL_Eq i c AND 0x3f) ((step_ROL ^^ (shift_count BX_IA_ROL_Eq i c AND 0x3f))
       (BX_READ_64BIT_REG (i_dst i) c, carry c)) c) \<and>
   (cpu_abs (ROR_EqR i c) = arch_ROTATE BX_WRITE_64BIT_REG right_OF (i_dst i) (shift_count
     BX_IA_ROR_Eq i c AND 0x3f) ((step_ROR ^^ (shift_count BX_IA_ROR_Eq i c AND 0x3f))
       (BX_READ_64BIT_REG (i_dst i) c, carry c)) c)"
  by (intro conjI; rule RCL_8_sim RCR_8_sim RCL_16_sim RCR_16_sim RCL_32_sim RCR_32_sim RCL_64_sim RCR_64_sim ROL_8_sim ROR_8_sim ROL_16_sim ROR_16_sim ROL_32_sim ROR_32_sim ROL_64_sim ROR_64_sim)

text \<open>C33: The register forms of SHL, SHR and SAR, at the four operand sizes and for every count, do what repeating the single-bit shift does, also when the count exceeds the operand size: CF is the last bit shifted out, OF follows the top bits (and is cleared by SAR), SF, ZF and PF describe the result, and a zero count changes no flag.\<close>

theorem shift_handlers_correct:
  "(cpu_abs (SHL_EbR i c) = arch_SHIFT (wr8 i) left_OF (i_dst i) (shift_count
    BX_IA_SHL_Eb i c AND 0x1f) ((step_SHL ^^ (shift_count BX_IA_SHL_Eb i c AND 0x1f))
      (rd8 i (i_dst i) c, carry c)) c) \<and>
   (cpu_abs (SHR_EbR i c) = arch_SHIFT (wr8 i) right_OF (i_dst i) (shift_count
     BX_IA_SHR_Eb i c AND 0x1f) ((step_SHR ^^ (shift_count BX_IA_SHR_Eb i c AND 0x1f))
       (rd8 i (i_dst i) c, carry c)) c) \<and>
   (cpu_abs (SAR_EbR i c) = arch_SHIFT (wr8 i) no_OF (i_dst i) (shift_count
     BX_IA_SAR_Eb i c AND 0x1f) ((step_SAR ^^ (shift_count BX_IA_SAR_Eb i c AND 0x1f))
       (rd8 i (i_dst i) c, carry c)) c) \<and>
   (cpu_abs (SHL_EwR i c) = arch_SHIFT BX_WRITE_16BIT_REG left_OF (i_dst i) (shift_count
     BX_IA_SHL_Ew i c AND 0x1f) ((step_SHL ^^ (shift_count BX_IA_SHL_Ew i c AND 0x1f))
       (BX_READ_16BIT_REG (i_dst i) c, carry c)) c) \<and>
   (cpu_abs (SHR_EwR i c) = arch_SHIFT BX_WRITE_16BIT_REG right_OF (i_dst i) (shift_count
     BX_IA_SHR_Ew i c AND 0x1f) ((step_SHR ^^ (shift_count BX_IA_SHR_Ew i c AND 0x1f))
       (BX_READ_16BIT_REG (i_dst i) c, carry c)) c) \<and>
   (cpu_abs (SAR_EwR i c) = arch_SHIFT BX_WRITE_16BIT_REG no_OF (i_dst i) (shift_count
     BX_IA_SAR_Ew i c AND 0x1f) ((step_SAR ^^ (shift_count BX_IA_SAR_Ew i c AND 0x1f))
       (BX_READ_16BIT_REG (i_dst i) c, carry c)) c) \<and>
   (cpu_abs (SHL_EdR i c) = arch_SHIFT BX_WRITE_32BIT_REGZ left_OF (i_dst i) (shift_count
     BX_IA_SHL_Ed i c AND 0x1f) ((step_SHL ^^ (shift_count BX_IA_SHL_Ed i c AND 0x1f))
       (BX_READ_32BIT_REG (i_dst i) c, carry c)) c) \<and>
   (cpu_abs (SHR_EdR i c) = arch_SHIFT BX_WRITE_32BIT_REGZ right_OF (i_dst i) (shift_count
     BX_IA_SHR_Ed i c AND 0x1f) ((step_SHR ^^ (shift_count BX_IA_SHR_Ed i c AND 0x1f))
       (BX_READ_32BIT_REG (i_dst i) c, carry c)) c) \<and>
   (cpu_abs (SAR_EdR i c) = arch_SHIFT BX_WRITE_32BIT_REGZ no_OF (i_dst i) (shift_count
     BX_IA_SAR_Ed i c AND 0x1f) ((step_SAR ^^ (shift_count BX_IA_SAR_Ed i c AND 0x1f))
       (BX_READ_32BIT_REG (i_dst i) c, carry c)) c) \<and>
   (cpu_abs (SHL_EqR i c) = arch_SHIFT BX_WRITE_64BIT_REG left_OF (i_dst i) (shift_count
     BX_IA_SHL_Eq i c AND 0x3f) ((step_SHL ^^ (shift_count BX_IA_SHL_Eq i c AND 0x3f))
       (BX_READ_64BIT_REG (i_dst i) c, carry c)) c) \<and>
   (cpu_abs (SHR_EqR i c) = arch_SHIFT BX_WRITE_64BIT_REG right_OF (i_dst i) (shift_count
     BX_IA_SHR_Eq i c AND 0x3f) ((step_SHR ^^ (shift_count BX_IA_SHR_Eq i c AND 0x3f))
       (BX_READ_64BIT_REG (i_dst i) c, carry c)) c) \<and>
   (cpu_abs (SAR_EqR i c) = arch_SHIFT BX_WRITE_64BIT_REG no_OF (i_dst i) (shift_count
     BX_IA_SAR_Eq i c AND 0x3f) ((step_SAR ^^ (shift_count BX_IA_SAR_Eq i c AND 0x3f))
       (BX_READ_64BIT_REG (i_dst i) c, carry c)) c)"
  by (intro conjI; rule SHL_8_sim SHR_8_sim SAR_8_sim SHL_16_sim SHR_16_sim SAR_16_sim SHL_32_sim SHR_32_sim SAR_32_sim SHL_64_sim SHR_64_sim SAR_64_sim)

text \<open>The register forms of SHLD and SHRD at 16, 32 and 64 bits do what repeating the single-bit step on the pair of operands does, in which the bit that leaves one operand enters the other; at 16 bits this holds for every masked count up to 31, beyond the operand size too, where the result is that of shifting destination:source:destination.\<close>

theorem double_shift_correct:
  "(cpu_abs (SHLD_EwGwR i c) = arch_DSHIFT BX_WRITE_16BIT_REG left_OF (i_dst i) (shift_count
    BX_IA_SHLD_EwGw i c AND 0x1f) ((step_SHLD ^^ (shift_count
      BX_IA_SHLD_EwGw i c AND 0x1f)) ((BX_READ_16BIT_REG (i_dst i) c, BX_READ_16BIT_REG (i_src i) c), carry c)) c) \<and>
   (cpu_abs (SHRD_EwGwR i c) = arch_DSHIFT BX_WRITE_16BIT_REG right_OF (i_dst i) (shift_count
     BX_IA_SHRD_EwGw i c AND 0x1f) ((step_SHRD ^^ (shift_count
       BX_IA_SHRD_EwGw i c AND 0x1f)) ((BX_READ_16BIT_REG (i_dst i) c, BX_READ_16BIT_REG (i_src i) c), carry c)) c) \<and>
   (cpu_abs (SHLD_EdGdR i c) = arch_DSHIFT BX_WRITE_32BIT_REGZ left_OF (i_dst i) (shift_count
     BX_IA_SHLD_EdGd i c AND 0x1f) ((step_SHLD ^^ (shift_count
       BX_IA_SHLD_EdGd i c AND 0x1f)) ((BX_READ_32BIT_REG (i_dst i) c, BX_READ_32BIT_REG (i_src i) c), carry c)) c) \<and>
   (cpu_abs (SHRD_EdGdR i c) = arch_DSHIFT BX_WRITE_32BIT_REGZ right_OF (i_dst i) (shift_count
     BX_IA_SHRD_EdGd i c AND 0x1f) ((step_SHRD ^^ (shift_count
       BX_IA_SHRD_EdGd i c AND 0x1f)) ((BX_READ_32BIT_REG (i_dst i) c, BX_READ_32BIT_REG (i_src i) c), carry c)) c) \<and>
   (cpu_abs (SHLD_EqGqR i c) = arch_DSHIFT BX_WRITE_64BIT_REG left_OF (i_dst i) (shift_count
     BX_IA_SHLD_EqGq i c AND 0x3f) ((step_SHLD ^^ (shift_count
       BX_IA_SHLD_EqGq i c AND 0x3f)) ((BX_READ_64BIT_REG (i_dst i) c, BX_READ_64BIT_REG (i_src i) c), carry c)) c) \<and>
   (cpu_abs (SHRD_EqGqR i c) = arch_DSHIFT BX_WRITE_64BIT_REG right_OF (i_dst i) (shift_count
     BX_IA_SHRD_EqGq i c AND 0x3f) ((step_SHRD ^^ (shift_count
       BX_IA_SHRD_EqGq i c AND 0x3f)) ((BX_READ_64BIT_REG (i_dst i) c, BX_READ_64BIT_REG (i_src i) c), carry c)) c)"
  by (intro conjI; rule SHLD_16_sim SHRD_16_sim SHLD_32_sim SHRD_32_sim SHLD_64_sim SHRD_64_sim)

end
