(* ===== verification/Bits.thy ===== *)
theory Bits
  imports Logic Conditions
begin

text \<open>
  The bit instructions of cpu/bit16.cc, bit32.cc, bit64.cc and cpu/bit.cc: the register and
  immediate forms of BT, BTS, BTR and BTC, the scans BSF and BSR, the counts POPCNT, TZCNT and
  LZCNT and the byte swap, with the counting routines of cpu/scalar\_arith.h and the byte swap of
  misc/bswap.h (the portable one: config.h sets BX\_HAVE\_\_\_BUILTIN\_BSWAP32 to 0). The loop of BSR
  ends only because its handler tests for zero first, so it is a partial function, and that it
  returns is proved. Counts are held as natural numbers. The memory forms are not part of this
  theory.
\<close>

section \<open>Counting bits (cpu/scalar\_arith.h)\<close>

text \<open>The loops of \<open>tzcntw\<close>, \<open>tzcntd\<close> and \<open>tzcntq\<close> and of \<open>lzcntw\<close>, \<open>lzcntd\<close> and \<open>lzcntq\<close>.\<close>

definition trailing_clear :: "'a::len word \<Rightarrow> nat" where
  "trailing_clear msk = card {n. n < LENGTH('a) \<and> (\<forall>k \<le> n. \<not> bit msk k)}"

lemma shift_mask_decreases:
  fixes msk :: "'a::len word"
  assumes "msk \<noteq> 0"
  shows "LENGTH('a) - trailing_clear (push_bit 1 msk) < LENGTH('a) - trailing_clear msk"
proof -
  let ?S = "\<lambda>m :: 'a word. {n. n < LENGTH('a) \<and> (\<forall>k \<le> n. \<not> bit m k)}"
  obtain b where b: "b < LENGTH('a)" "bit msk b" using assms by (rule word_neq_0_bit)
  define l where "l = (LEAST n. bit msk n)"
  have l: "bit msk l" "\<And>k. k < l \<Longrightarrow> \<not> bit msk k"
    unfolding l_def using b(2) by (auto intro: LeastI dest: not_less_Least)
  have lw: "l < LENGTH('a)" using l(1) bit_imp_le_length by blast
  have s: "\<not> bit (push_bit 1 msk) k" if "k \<le> l" for k
    using that l(2) [of "k - 1"] unfolding bit_push_bit_iff by auto
  have "?S msk = {..<l}" using l lw by (auto simp: not_less) (metis leI le_less_trans not_less)
  moreover have "{..l} \<subseteq> ?S (push_bit 1 msk)" using s lw by auto
  moreover have "?S (push_bit 1 msk) \<subseteq> {..<LENGTH('a)}" by auto
  ultimately have "trailing_clear msk = l" "l < trailing_clear (push_bit 1 msk)"
    unfolding trailing_clear_def using card_mono [of "?S (push_bit 1 msk)" "{..l}"] by auto
  with lw show ?thesis by simp
qed

function tzcnt_loop :: "'a::len word \<Rightarrow> 'a word \<Rightarrow> nat \<Rightarrow> nat" where
  "tzcnt_loop val msk count =
     (if val AND msk = 0 \<and> msk \<noteq> 0 then tzcnt_loop val (push_bit 1 msk) (count + 1) else count)"
  by pat_completeness auto
termination
  by (relation "measure (\<lambda>(val, msk, count). LENGTH('a) - trailing_clear msk)")
    (use shift_mask_decreases in auto)

lemma drop_mask_decreases: "(msk :: 'a::len word) \<noteq> 0 \<Longrightarrow> unat (drop_bit 1 msk) < unat msk"
proof -
  assume "msk \<noteq> 0"
  then have "0 < unat msk" by (simp add: unat_gt_0)
  moreover have "unat (drop_bit 1 msk) = unat msk div 2"
    by (simp only: unat_drop_bit_eq) (simp add: drop_bit_Suc)
  ultimately show ?thesis by simp
qed

function lzcnt_loop :: "'a::len word \<Rightarrow> 'a word \<Rightarrow> nat \<Rightarrow> nat" where
  "lzcnt_loop val msk count =
     (if val AND msk = 0 \<and> msk \<noteq> 0 then lzcnt_loop val (drop_bit 1 msk) (count + 1) else count)"
  by pat_completeness auto
termination
  by (relation "measure (\<lambda>(val, msk, count). unat msk)") (use drop_mask_decreases in auto)

declare tzcnt_loop.simps [simp del] lzcnt_loop.simps [simp del]

definition tzcntw :: "u16 \<Rightarrow> nat" where "tzcntw val_16 = tzcnt_loop val_16 0x1 0"
definition tzcntd :: "u32 \<Rightarrow> nat" where "tzcntd val_32 = tzcnt_loop val_32 0x1 0"
definition tzcntq :: "u64 \<Rightarrow> nat" where "tzcntq val_64 = tzcnt_loop val_64 0x1 0"

definition lzcntw :: "u16 \<Rightarrow> nat" where "lzcntw val_16 = lzcnt_loop val_16 0x8000 0"
definition lzcntd :: "u32 \<Rightarrow> nat" where "lzcntd val_32 = lzcnt_loop val_32 0x80000000 0"
definition lzcntq :: "u64 \<Rightarrow> nat" where "lzcntq val_64 = lzcnt_loop val_64 0x8000000000000000 0"

text \<open>The population count by sums of adjacent fields.\<close>

definition popcntb :: "u8 \<Rightarrow> nat" where
  "popcntb val_8 =
     (let val_8 = (drop_bit 1 val_8 AND 0x55) + (val_8 AND 0x55);
          val_8 = (drop_bit 2 val_8 AND 0x33) + (val_8 AND 0x33);
          val_8 = (drop_bit 4 val_8 AND 0x0F) + (val_8 AND 0x0F)
      in unat val_8)"

definition popcntw :: "u16 \<Rightarrow> nat" where
  "popcntw val_16 =
     (let val_16 = (drop_bit 1 val_16 AND 0x5555) + (val_16 AND 0x5555);
          val_16 = (drop_bit 2 val_16 AND 0x3333) + (val_16 AND 0x3333);
          val_16 = (drop_bit 4 val_16 AND 0x0F0F) + (val_16 AND 0x0F0F);
          val_16 = (drop_bit 8 val_16 AND 0x00FF) + (val_16 AND 0x00FF)
      in unat val_16)"

definition popcntd :: "u32 \<Rightarrow> nat" where
  "popcntd val_32 =
     (let val_32 = (drop_bit 1 val_32 AND 0x55555555) + (val_32 AND 0x55555555);
          val_32 = (drop_bit 2 val_32 AND 0x33333333) + (val_32 AND 0x33333333);
          val_32 = (drop_bit 4 val_32 AND 0x0F0F0F0F) + (val_32 AND 0x0F0F0F0F);
          val_32 = (drop_bit 8 val_32 AND 0x00FF00FF) + (val_32 AND 0x00FF00FF);
          val_32 = (drop_bit 16 val_32 AND 0x0000FFFF) + (val_32 AND 0x0000FFFF)
      in unat val_32)"

definition popcntq :: "u64 \<Rightarrow> nat" where
  "popcntq val_64 =
     (let val_64 = (drop_bit 1 val_64 AND 0x5555555555555555) + (val_64 AND 0x5555555555555555);
          val_64 = (drop_bit 2 val_64 AND 0x3333333333333333) + (val_64 AND 0x3333333333333333);
          val_64 = (drop_bit 4 val_64 AND 0x0F0F0F0F0F0F0F0F) + (val_64 AND 0x0F0F0F0F0F0F0F0F);
          val_64 = (drop_bit 8 val_64 AND 0x00FF00FF00FF00FF) + (val_64 AND 0x00FF00FF00FF00FF);
          val_64 = (drop_bit 16 val_64 AND 0x0000FFFF0000FFFF) + (val_64 AND 0x0000FFFF0000FFFF);
          val_64 = (drop_bit 32 val_64 AND 0x00000000FFFFFFFF) + (val_64 AND 0x00000000FFFFFFFF)
      in unat val_64)"

text \<open>The scan of BSR: it ends only when the operand has a bit set.\<close>

partial_function (option) bsr_loop :: "'a::len word \<Rightarrow> 'a word \<Rightarrow> 'a word \<Rightarrow> 'a word option" where
  "bsr_loop hi op1 op2 = (if op2 AND hi = 0 then bsr_loop hi (op1 - 1) (push_bit 1 op2) else Some op1)"

definition clearEFlagsOSZAPC :: "bx_cpu \<Rightarrow> bx_cpu" where
  "clearEFlagsOSZAPC = upd_lf (SET_FLAGS_OSZAPC_LOGIC 32 (1 :: u32))"

section \<open>16-bit handlers (cpu/bit16.cc)\<close>

definition BSF_GwEwR :: "bxInstruction \<Rightarrow> bx_cpu \<Rightarrow> bx_cpu" where
  "BSF_GwEwR i c =
     (let op2_16 = BX_READ_16BIT_REG (i_src i) c
      in if op2_16 = 0 then upd_lf assert_ZF c
         else let op1_16 = word_of_nat (tzcntw op2_16) :: u16;
                  c = upd_lf (SET_FLAGS_OSZAPC_LOGIC 16 (ucast op1_16 :: u32)) c;
                  c = upd_lf clear_ZF c
              in BX_WRITE_16BIT_REG (i_dst i) op1_16 c)"

definition BSR_GwEwR :: "bxInstruction \<Rightarrow> bx_cpu \<Rightarrow> bx_cpu option" where
  "BSR_GwEwR i c =
     (let op2_16 = BX_READ_16BIT_REG (i_src i) c
      in if op2_16 = 0 then Some (upd_lf assert_ZF c)
         else (case bsr_loop 0x8000 15 op2_16 of None \<Rightarrow> None
               | Some op1_16 \<Rightarrow>
                   (let c = upd_lf (SET_FLAGS_OSZAPC_LOGIC 16 (ucast op1_16 :: u32)) c;
                        c = upd_lf clear_ZF c
                    in Some (BX_WRITE_16BIT_REG (i_dst i) op1_16 c))))"

definition BT_EwGwR :: "bxInstruction \<Rightarrow> bx_cpu \<Rightarrow> bx_cpu" where
  "BT_EwGwR i c =
     (let op1_16 = BX_READ_16BIT_REG (i_dst i) c;
          op2_16 = BX_READ_16BIT_REG (i_src i) c;
          op2_16 = op2_16 AND 0xf
      in upd_lf (set_CF (tst (drop_bit (unat op2_16) op1_16) 0x01)) c)"

definition BTS_EwGwR :: "bxInstruction \<Rightarrow> bx_cpu \<Rightarrow> bx_cpu" where
  "BTS_EwGwR i c =
     (let op1_16 = BX_READ_16BIT_REG (i_dst i) c;
          op2_16 = BX_READ_16BIT_REG (i_src i) c;
          op2_16 = op2_16 AND 0xf;
          c = upd_lf (set_CF (tst (drop_bit (unat op2_16) op1_16) 0x01)) c;
          op1_16 = op1_16 OR push_bit (unat op2_16) 1
      in BX_WRITE_16BIT_REG (i_dst i) op1_16 c)"

definition BTR_EwGwR :: "bxInstruction \<Rightarrow> bx_cpu \<Rightarrow> bx_cpu" where
  "BTR_EwGwR i c =
     (let op1_16 = BX_READ_16BIT_REG (i_dst i) c;
          op2_16 = BX_READ_16BIT_REG (i_src i) c;
          op2_16 = op2_16 AND 0xf;
          c = upd_lf (set_CF (tst (drop_bit (unat op2_16) op1_16) 0x01)) c;
          op1_16 = op1_16 AND NOT (push_bit (unat op2_16) 1)
      in BX_WRITE_16BIT_REG (i_dst i) op1_16 c)"

definition BTC_EwGwR :: "bxInstruction \<Rightarrow> bx_cpu \<Rightarrow> bx_cpu" where
  "BTC_EwGwR i c =
     (let op1_16 = BX_READ_16BIT_REG (i_dst i) c;
          op2_16 = BX_READ_16BIT_REG (i_src i) c;
          op2_16 = op2_16 AND 0xf;
          temp_CF = tst (drop_bit (unat op2_16) op1_16) 0x01;
          op1_16 = op1_16 XOR push_bit (unat op2_16) 1;
          c = BX_WRITE_16BIT_REG (i_dst i) op1_16 c
      in upd_lf (set_CF temp_CF) c)"

definition BT_EwIbR :: "bxInstruction \<Rightarrow> bx_cpu \<Rightarrow> bx_cpu" where
  "BT_EwIbR i c =
     (let op1_16 = BX_READ_16BIT_REG (i_dst i) c;
          op2_8 = i_Ib i AND 0xf
      in upd_lf (set_CF (tst (drop_bit (unat op2_8) op1_16) 0x01)) c)"

definition BTS_EwIbR :: "bxInstruction \<Rightarrow> bx_cpu \<Rightarrow> bx_cpu" where
  "BTS_EwIbR i c =
     (let op2_8 = i_Ib i AND 0xf;
          op1_16 = BX_READ_16BIT_REG (i_dst i) c;
          temp_CF = tst (drop_bit (unat op2_8) op1_16) 0x01;
          op1_16 = op1_16 OR push_bit (unat op2_8) 1;
          c = BX_WRITE_16BIT_REG (i_dst i) op1_16 c
      in upd_lf (set_CF temp_CF) c)"

definition BTC_EwIbR :: "bxInstruction \<Rightarrow> bx_cpu \<Rightarrow> bx_cpu" where
  "BTC_EwIbR i c =
     (let op2_8 = i_Ib i AND 0xf;
          op1_16 = BX_READ_16BIT_REG (i_dst i) c;
          temp_CF = tst (drop_bit (unat op2_8) op1_16) 0x01;
          op1_16 = op1_16 XOR push_bit (unat op2_8) 1;
          c = BX_WRITE_16BIT_REG (i_dst i) op1_16 c
      in upd_lf (set_CF temp_CF) c)"

definition BTR_EwIbR :: "bxInstruction \<Rightarrow> bx_cpu \<Rightarrow> bx_cpu" where
  "BTR_EwIbR i c =
     (let op2_8 = i_Ib i AND 0xf;
          op1_16 = BX_READ_16BIT_REG (i_dst i) c;
          temp_CF = tst (drop_bit (unat op2_8) op1_16) 0x01;
          op1_16 = op1_16 AND NOT (push_bit (unat op2_8) 1);
          c = BX_WRITE_16BIT_REG (i_dst i) op1_16 c
      in upd_lf (set_CF temp_CF) c)"

definition POPCNT_GwEwR :: "bxInstruction \<Rightarrow> bx_cpu \<Rightarrow> bx_cpu" where
  "POPCNT_GwEwR i c =
     (let op_16 = word_of_nat (popcntw (BX_READ_16BIT_REG (i_src i) c)) :: u16;
          c = clearEFlagsOSZAPC c;
          c = (if op_16 = 0 then upd_lf assert_ZF c else c)
      in BX_WRITE_16BIT_REG (i_dst i) op_16 c)"

definition TZCNT_GwEwR :: "bxInstruction \<Rightarrow> bx_cpu \<Rightarrow> bx_cpu" where
  "TZCNT_GwEwR i c =
     (let op1_16 = BX_READ_16BIT_REG (i_src i) c;
          result_16 = word_of_nat (tzcntw op1_16) :: u16;
          c = upd_lf (set_CF (op1_16 = 0)) c;
          c = upd_lf (set_ZF (result_16 = 0)) c
      in BX_WRITE_16BIT_REG (i_dst i) result_16 c)"

definition LZCNT_GwEwR :: "bxInstruction \<Rightarrow> bx_cpu \<Rightarrow> bx_cpu" where
  "LZCNT_GwEwR i c =
     (let op1_16 = BX_READ_16BIT_REG (i_src i) c;
          result_16 = word_of_nat (lzcntw op1_16) :: u16;
          c = upd_lf (set_CF (op1_16 = 0)) c;
          c = upd_lf (set_ZF (result_16 = 0)) c
      in BX_WRITE_16BIT_REG (i_dst i) result_16 c)"

section \<open>32-bit handlers (cpu/bit32.cc)\<close>

definition BSF_GdEdR :: "bxInstruction \<Rightarrow> bx_cpu \<Rightarrow> bx_cpu" where
  "BSF_GdEdR i c =
     (let op2_32 = BX_READ_32BIT_REG (i_src i) c
      in if op2_32 = 0 then upd_lf assert_ZF c
         else let op1_32 = word_of_nat (tzcntd op2_32) :: u32;
                  c = upd_lf (SET_FLAGS_OSZAPC_LOGIC 32 op1_32) c;
                  c = upd_lf clear_ZF c
              in BX_WRITE_32BIT_REGZ (i_dst i) op1_32 c)"

definition BSR_GdEdR :: "bxInstruction \<Rightarrow> bx_cpu \<Rightarrow> bx_cpu option" where
  "BSR_GdEdR i c =
     (let op2_32 = BX_READ_32BIT_REG (i_src i) c
      in if op2_32 = 0 then Some (upd_lf assert_ZF c)
         else (case bsr_loop 0x80000000 31 op2_32 of None \<Rightarrow> None
               | Some op1_32 \<Rightarrow>
                   (let c = upd_lf (SET_FLAGS_OSZAPC_LOGIC 32 op1_32) c;
                        c = upd_lf clear_ZF c
                    in Some (BX_WRITE_32BIT_REGZ (i_dst i) op1_32 c))))"

definition BT_EdGdR :: "bxInstruction \<Rightarrow> bx_cpu \<Rightarrow> bx_cpu" where
  "BT_EdGdR i c =
     (let op1_32 = BX_READ_32BIT_REG (i_dst i) c;
          op2_32 = BX_READ_32BIT_REG (i_src i) c;
          op2_32 = op2_32 AND 0x1f
      in upd_lf (set_CF (tst (drop_bit (unat op2_32) op1_32) 0x01)) c)"

definition BTS_EdGdR :: "bxInstruction \<Rightarrow> bx_cpu \<Rightarrow> bx_cpu" where
  "BTS_EdGdR i c =
     (let op1_32 = BX_READ_32BIT_REG (i_dst i) c;
          op2_32 = BX_READ_32BIT_REG (i_src i) c;
          op2_32 = op2_32 AND 0x1f;
          c = upd_lf (set_CF (tst (drop_bit (unat op2_32) op1_32) 0x01)) c;
          op1_32 = op1_32 OR push_bit (unat op2_32) 1
      in BX_WRITE_32BIT_REGZ (i_dst i) op1_32 c)"

definition BTR_EdGdR :: "bxInstruction \<Rightarrow> bx_cpu \<Rightarrow> bx_cpu" where
  "BTR_EdGdR i c =
     (let op1_32 = BX_READ_32BIT_REG (i_dst i) c;
          op2_32 = BX_READ_32BIT_REG (i_src i) c;
          op2_32 = op2_32 AND 0x1f;
          c = upd_lf (set_CF (tst (drop_bit (unat op2_32) op1_32) 0x01)) c;
          op1_32 = op1_32 AND NOT (push_bit (unat op2_32) 1)
      in BX_WRITE_32BIT_REGZ (i_dst i) op1_32 c)"

definition BTC_EdGdR :: "bxInstruction \<Rightarrow> bx_cpu \<Rightarrow> bx_cpu" where
  "BTC_EdGdR i c =
     (let op1_32 = BX_READ_32BIT_REG (i_dst i) c;
          op2_32 = BX_READ_32BIT_REG (i_src i) c;
          op2_32 = op2_32 AND 0x1f;
          temp_CF = tst (drop_bit (unat op2_32) op1_32) 0x01;
          op1_32 = op1_32 XOR push_bit (unat op2_32) 1;
          c = upd_lf (set_CF temp_CF) c
      in BX_WRITE_32BIT_REGZ (i_dst i) op1_32 c)"

definition BT_EdIbR :: "bxInstruction \<Rightarrow> bx_cpu \<Rightarrow> bx_cpu" where
  "BT_EdIbR i c =
     (let op1_32 = BX_READ_32BIT_REG (i_dst i) c;
          op2_8 = i_Ib i AND 0x1f
      in upd_lf (set_CF (tst (drop_bit (unat op2_8) op1_32) 0x01)) c)"

definition BTS_EdIbR :: "bxInstruction \<Rightarrow> bx_cpu \<Rightarrow> bx_cpu" where
  "BTS_EdIbR i c =
     (let op2_8 = i_Ib i AND 0x1f;
          op1_32 = BX_READ_32BIT_REG (i_dst i) c;
          temp_CF = tst (drop_bit (unat op2_8) op1_32) 0x01;
          op1_32 = op1_32 OR push_bit (unat op2_8) 1;
          c = BX_WRITE_32BIT_REGZ (i_dst i) op1_32 c
      in upd_lf (set_CF temp_CF) c)"

definition BTC_EdIbR :: "bxInstruction \<Rightarrow> bx_cpu \<Rightarrow> bx_cpu" where
  "BTC_EdIbR i c =
     (let op2_8 = i_Ib i AND 0x1f;
          op1_32 = BX_READ_32BIT_REG (i_dst i) c;
          temp_CF = tst (drop_bit (unat op2_8) op1_32) 0x01;
          op1_32 = op1_32 XOR push_bit (unat op2_8) 1;
          c = BX_WRITE_32BIT_REGZ (i_dst i) op1_32 c
      in upd_lf (set_CF temp_CF) c)"

definition BTR_EdIbR :: "bxInstruction \<Rightarrow> bx_cpu \<Rightarrow> bx_cpu" where
  "BTR_EdIbR i c =
     (let op2_8 = i_Ib i AND 0x1f;
          op1_32 = BX_READ_32BIT_REG (i_dst i) c;
          temp_CF = tst (drop_bit (unat op2_8) op1_32) 0x01;
          op1_32 = op1_32 AND NOT (push_bit (unat op2_8) 1);
          c = BX_WRITE_32BIT_REGZ (i_dst i) op1_32 c
      in upd_lf (set_CF temp_CF) c)"

definition POPCNT_GdEdR :: "bxInstruction \<Rightarrow> bx_cpu \<Rightarrow> bx_cpu" where
  "POPCNT_GdEdR i c =
     (let op_32 = word_of_nat (popcntd (BX_READ_32BIT_REG (i_src i) c)) :: u32;
          c = clearEFlagsOSZAPC c;
          c = (if op_32 = 0 then upd_lf assert_ZF c else c)
      in BX_WRITE_32BIT_REGZ (i_dst i) op_32 c)"

definition TZCNT_GdEdR :: "bxInstruction \<Rightarrow> bx_cpu \<Rightarrow> bx_cpu" where
  "TZCNT_GdEdR i c =
     (let op1_32 = BX_READ_32BIT_REG (i_src i) c;
          result_32 = word_of_nat (tzcntd op1_32) :: u32;
          c = upd_lf (set_CF (op1_32 = 0)) c;
          c = upd_lf (set_ZF (result_32 = 0)) c
      in BX_WRITE_32BIT_REGZ (i_dst i) result_32 c)"

definition LZCNT_GdEdR :: "bxInstruction \<Rightarrow> bx_cpu \<Rightarrow> bx_cpu" where
  "LZCNT_GdEdR i c =
     (let op1_32 = BX_READ_32BIT_REG (i_src i) c;
          result_32 = word_of_nat (lzcntd op1_32) :: u32;
          c = upd_lf (set_CF (op1_32 = 0)) c;
          c = upd_lf (set_ZF (result_32 = 0)) c
      in BX_WRITE_32BIT_REGZ (i_dst i) result_32 c)"

section \<open>64-bit handlers (cpu/bit64.cc)\<close>

definition BSF_GqEqR :: "bxInstruction \<Rightarrow> bx_cpu \<Rightarrow> bx_cpu" where
  "BSF_GqEqR i c =
     (let op2_64 = BX_READ_64BIT_REG (i_src i) c
      in if op2_64 = 0 then upd_lf assert_ZF c
         else let op1_64 = word_of_nat (tzcntq op2_64) :: u64;
                  c = upd_lf (SET_FLAGS_OSZAPC_LOGIC 64 op1_64) c;
                  c = upd_lf clear_ZF c
              in BX_WRITE_64BIT_REG (i_dst i) op1_64 c)"

definition BSR_GqEqR :: "bxInstruction \<Rightarrow> bx_cpu \<Rightarrow> bx_cpu option" where
  "BSR_GqEqR i c =
     (let op2_64 = BX_READ_64BIT_REG (i_src i) c
      in if op2_64 = 0 then Some (upd_lf assert_ZF c)
         else (case bsr_loop 0x8000000000000000 63 op2_64 of None \<Rightarrow> None
               | Some op1_64 \<Rightarrow>
                   (let c = upd_lf (SET_FLAGS_OSZAPC_LOGIC 64 op1_64) c;
                        c = upd_lf clear_ZF c
                    in Some (BX_WRITE_64BIT_REG (i_dst i) op1_64 c))))"

definition BT_EqGqR :: "bxInstruction \<Rightarrow> bx_cpu \<Rightarrow> bx_cpu" where
  "BT_EqGqR i c =
     (let op1_64 = BX_READ_64BIT_REG (i_dst i) c;
          op2_64 = BX_READ_64BIT_REG (i_src i) c;
          op2_64 = op2_64 AND 0x3f
      in upd_lf (set_CF (tst (drop_bit (unat op2_64) op1_64) 0x01)) c)"

definition BTS_EqGqR :: "bxInstruction \<Rightarrow> bx_cpu \<Rightarrow> bx_cpu" where
  "BTS_EqGqR i c =
     (let op1_64 = BX_READ_64BIT_REG (i_dst i) c;
          op2_64 = BX_READ_64BIT_REG (i_src i) c;
          op2_64 = op2_64 AND 0x3f;
          c = upd_lf (set_CF (tst (drop_bit (unat op2_64) op1_64) 0x01)) c;
          op1_64 = op1_64 OR push_bit (unat op2_64) 1
      in BX_WRITE_64BIT_REG (i_dst i) op1_64 c)"

definition BTR_EqGqR :: "bxInstruction \<Rightarrow> bx_cpu \<Rightarrow> bx_cpu" where
  "BTR_EqGqR i c =
     (let op1_64 = BX_READ_64BIT_REG (i_dst i) c;
          op2_64 = BX_READ_64BIT_REG (i_src i) c;
          op2_64 = op2_64 AND 0x3f;
          c = upd_lf (set_CF (tst (drop_bit (unat op2_64) op1_64) 0x01)) c;
          op1_64 = op1_64 AND NOT (push_bit (unat op2_64) 1)
      in BX_WRITE_64BIT_REG (i_dst i) op1_64 c)"

definition BTC_EqGqR :: "bxInstruction \<Rightarrow> bx_cpu \<Rightarrow> bx_cpu" where
  "BTC_EqGqR i c =
     (let op1_64 = BX_READ_64BIT_REG (i_dst i) c;
          op2_64 = BX_READ_64BIT_REG (i_src i) c;
          op2_64 = op2_64 AND 0x3f;
          temp_CF = tst (drop_bit (unat op2_64) op1_64) 0x01;
          op1_64 = op1_64 XOR push_bit (unat op2_64) 1;
          c = upd_lf (set_CF temp_CF) c
      in BX_WRITE_64BIT_REG (i_dst i) op1_64 c)"

definition BT_EqIbR :: "bxInstruction \<Rightarrow> bx_cpu \<Rightarrow> bx_cpu" where
  "BT_EqIbR i c =
     (let op1_64 = BX_READ_64BIT_REG (i_dst i) c;
          op2_8 = i_Ib i AND 0x3f
      in upd_lf (set_CF (tst (drop_bit (unat op2_8) op1_64) 0x01)) c)"

definition BTS_EqIbR :: "bxInstruction \<Rightarrow> bx_cpu \<Rightarrow> bx_cpu" where
  "BTS_EqIbR i c =
     (let op2_8 = i_Ib i AND 0x3f;
          op1_64 = BX_READ_64BIT_REG (i_dst i) c;
          temp_CF = tst (drop_bit (unat op2_8) op1_64) 0x01;
          op1_64 = op1_64 OR push_bit (unat op2_8) 1;
          c = BX_WRITE_64BIT_REG (i_dst i) op1_64 c
      in upd_lf (set_CF temp_CF) c)"

definition BTC_EqIbR :: "bxInstruction \<Rightarrow> bx_cpu \<Rightarrow> bx_cpu" where
  "BTC_EqIbR i c =
     (let op2_8 = i_Ib i AND 0x3f;
          op1_64 = BX_READ_64BIT_REG (i_dst i) c;
          temp_CF = tst (drop_bit (unat op2_8) op1_64) 0x01;
          op1_64 = op1_64 XOR push_bit (unat op2_8) 1;
          c = BX_WRITE_64BIT_REG (i_dst i) op1_64 c
      in upd_lf (set_CF temp_CF) c)"

definition BTR_EqIbR :: "bxInstruction \<Rightarrow> bx_cpu \<Rightarrow> bx_cpu" where
  "BTR_EqIbR i c =
     (let op2_8 = i_Ib i AND 0x3f;
          op1_64 = BX_READ_64BIT_REG (i_dst i) c;
          temp_CF = tst (drop_bit (unat op2_8) op1_64) 0x01;
          op1_64 = op1_64 AND NOT (push_bit (unat op2_8) 1);
          c = BX_WRITE_64BIT_REG (i_dst i) op1_64 c
      in upd_lf (set_CF temp_CF) c)"

definition POPCNT_GqEqR :: "bxInstruction \<Rightarrow> bx_cpu \<Rightarrow> bx_cpu" where
  "POPCNT_GqEqR i c =
     (let op_32 = word_of_nat (popcntq (BX_READ_64BIT_REG (i_src i) c)) :: u32;
          c = clearEFlagsOSZAPC c;
          c = (if op_32 = 0 then upd_lf assert_ZF c else c)
      in BX_WRITE_32BIT_REGZ (i_dst i) op_32 c)"

definition TZCNT_GqEqR :: "bxInstruction \<Rightarrow> bx_cpu \<Rightarrow> bx_cpu" where
  "TZCNT_GqEqR i c =
     (let op1_64 = BX_READ_64BIT_REG (i_src i) c;
          result_64 = word_of_nat (tzcntq op1_64) :: u64;
          c = upd_lf (set_CF (op1_64 = 0)) c;
          c = upd_lf (set_ZF (result_64 = 0)) c
      in BX_WRITE_64BIT_REG (i_dst i) result_64 c)"

definition LZCNT_GqEqR :: "bxInstruction \<Rightarrow> bx_cpu \<Rightarrow> bx_cpu" where
  "LZCNT_GqEqR i c =
     (let op1_64 = BX_READ_64BIT_REG (i_src i) c;
          result_64 = word_of_nat (lzcntq op1_64) :: u64;
          c = upd_lf (set_CF (op1_64 = 0)) c;
          c = upd_lf (set_ZF (result_64 = 0)) c
      in BX_WRITE_64BIT_REG (i_dst i) result_64 c)"

section \<open>Byte swap (misc/bswap.h, cpu/bit.cc)\<close>

definition bx_bswap32 :: "u32 \<Rightarrow> u32" where
  "bx_bswap32 val32 =
     (let val32 = (push_bit 8 val32 AND 0xFF00FF00) OR (drop_bit 8 val32 AND 0x00FF00FF)
      in push_bit 16 val32 OR drop_bit 16 val32)"

definition bx_bswap64 :: "u64 \<Rightarrow> u64" where
  "bx_bswap64 val64 =
     (let lo = bx_bswap32 (ucast (drop_bit 32 val64));
          hi = bx_bswap32 (ucast (val64 AND 0xFFFFFFFF))
      in push_bit 32 (ucast hi) OR ucast lo)"

definition BSWAP_RX :: "bxInstruction \<Rightarrow> bx_cpu \<Rightarrow> bx_cpu" where
  "BSWAP_RX i c = BX_WRITE_16BIT_REG (i_dst i) 0 c"

definition BSWAP_ERX :: "bxInstruction \<Rightarrow> bx_cpu \<Rightarrow> bx_cpu" where
  "BSWAP_ERX i c =
     (let val32 = BX_READ_32BIT_REG (i_dst i) c in BX_WRITE_32BIT_REGZ (i_dst i) (bx_bswap32 val32) c)"

definition BSWAP_RRX :: "bxInstruction \<Rightarrow> bx_cpu \<Rightarrow> bx_cpu" where
  "BSWAP_RRX i c =
     (let val64 = BX_READ_64BIT_REG (i_dst i) c in BX_WRITE_64BIT_REG (i_dst i) (bx_bswap64 val64) c)"

section \<open>What the instructions promise\<close>

text \<open>Number of clear bits below the lowest and above the highest set bit, and number of set bits.\<close>

definition ctz :: "'a::len word \<Rightarrow> nat" where
  "ctz x = length (takeWhile (\<lambda>n. \<not> bit x n) [0..<LENGTH('a)])"

definition clz :: "'a::len word \<Rightarrow> nat" where
  "clz x = length (takeWhile (\<lambda>n. \<not> bit x (LENGTH('a) - 1 - n)) [0..<LENGTH('a)])"

definition pop :: "'a::len word \<Rightarrow> nat" where
  "pop x = (\<Sum>n < LENGTH('a). of_bool (bit x n))"

lemma takeWhile_upt:
  assumes "k \<le> w" "\<And>n. n < k \<Longrightarrow> P n" "k < w \<Longrightarrow> \<not> P k"
  shows "length (takeWhile P [0..<w]) = k"
proof -
  have "[0..<w] = [0..<k] @ [k..<w]" using assms(1) upt_add_eq_append [of 0 k "w - k"] by simp
  moreover have "takeWhile P [k..<w] = []" using assms(3) by (cases "k < w") (simp_all add: upt_conv_Cons)
  moreover have "takeWhile P ([0..<k] @ [k..<w]) = [0..<k] @ takeWhile P [k..<w]"
    by (rule takeWhile_append2) (use assms(2) in auto)
  ultimately show ?thesis by simp
qed

lemma single_bit_mask:
  fixes x :: "'a::len word"
  assumes "k < LENGTH('a)"
  shows "push_bit k 1 \<noteq> (0 :: 'a word)" "x AND push_bit k 1 = 0 \<longleftrightarrow> \<not> bit x k"
proof -
  have "bit (shl1 k :: 'a word) k" using assms by simp
  then show "push_bit k 1 \<noteq> (0 :: 'a word)" unfolding shl1_def by (metis bit_0_eq bot_apply bot_bool_def)
  show "x AND push_bit k 1 = 0 \<longleftrightarrow> \<not> bit x k"
    using tst_shl1 [of x k] unfolding tst_def shl1_def by blast
qed

lemma tzcnt_loop_ctz:
  fixes x :: "'a::len word"
  assumes "k \<le> LENGTH('a)" "\<And>n. n < k \<Longrightarrow> \<not> bit x n"
  shows "tzcnt_loop x (push_bit k 1) k = ctz x"
  using assms
proof (induction "LENGTH('a) - k" arbitrary: k)
  case 0
  then have "k = LENGTH('a)" by simp
  moreover have "push_bit LENGTH('a) 1 = (0 :: 'a word)" by simp
  moreover have "ctz x = LENGTH('a)" unfolding ctz_def by (rule takeWhile_upt) (use 0 \<open>k = _\<close> in auto)
  ultimately show ?case by (simp add: tzcnt_loop.simps)
next
  case (Suc m)
  then have k: "k < LENGTH('a)" by simp
  note m0 = single_bit_mask(1) [OF k] and b = single_bit_mask(2) [OF k, of x]
  show ?case
  proof (cases "bit x k")
    case True
    then have "ctz x = k" unfolding ctz_def by (intro takeWhile_upt) (use Suc.prems in auto)
    then show ?thesis using True b by (simp add: tzcnt_loop.simps del: push_bit_of_1)
  next
    case False
    have "tzcnt_loop x (push_bit (Suc k) 1) (Suc k) = ctz x"
      by (rule Suc.hyps(1)) (use Suc False k in \<open>auto simp: less_Suc_eq\<close>)
    moreover have "push_bit 1 (push_bit k 1) = (push_bit (Suc k) 1 :: 'a word)" by (simp only: push_bit_push_bit) simp
    ultimately show ?thesis using False b m0 by (subst tzcnt_loop.simps) (simp only: simp_thms if_True Suc_eq_plus1)
  qed
qed

lemma lzcnt_loop_clz:
  fixes x :: "'a::len word"
  assumes "k < LENGTH('a)" "\<And>n. n < k \<Longrightarrow> \<not> bit x (LENGTH('a) - 1 - n)"
  shows "lzcnt_loop x (push_bit (LENGTH('a) - 1 - k) 1) k = clz x"
  using assms
proof (induction "LENGTH('a) - k" arbitrary: k)
  case (Suc m)
  let ?p = "LENGTH('a) - 1 - k"
  have p: "?p < LENGTH('a)" using Suc.prems(1) by simp
  note m0 = single_bit_mask(1) [OF p] and b = single_bit_mask(2) [OF p, of x]
  show ?case
  proof (cases "bit x ?p")
    case True
    then have "clz x = k" unfolding clz_def by (intro takeWhile_upt) (use Suc.prems in auto)
    then show ?thesis using True b by (simp add: lzcnt_loop.simps del: push_bit_of_1)
  next
    case False
    have nx: "lzcnt_loop x (push_bit ?p 1) k = lzcnt_loop x (drop_bit 1 (push_bit ?p 1)) (k + 1)"
      using False b m0 by (subst lzcnt_loop.simps) simp
    show ?thesis
    proof (cases "Suc k = LENGTH('a)")
      case True
      then have "clz x = LENGTH('a)" unfolding clz_def
        by (intro takeWhile_upt) (use Suc.prems False in \<open>auto simp: less_Suc_eq simp flip: True\<close>)
      then show ?thesis unfolding nx using True by (simp add: lzcnt_loop.simps)
    next
      case False
      have "drop_bit 1 (push_bit ?p 1) = (push_bit (LENGTH('a) - 1 - Suc k) 1 :: 'a word)"
        using False Suc.prems(1) by (intro bit_word_eqI; unfold bit_drop_bit_eq comp_def bit_push_bit_iff bit_1_iff; auto)
      moreover have "lzcnt_loop x (push_bit (LENGTH('a) - 1 - Suc k) 1) (Suc k) = clz x"
        by (rule Suc.hyps(1)) (use Suc \<open>\<not> bit x ?p\<close> False in \<open>auto simp: less_Suc_eq\<close>)
      ultimately show ?thesis unfolding nx by simp
    qed
  qed
qed simp

lemma takeWhile_upt_spec:
  fixes P :: "nat \<Rightarrow> bool" and w :: nat
  defines "k \<equiv> length (takeWhile P [0..<w])"
  shows "k \<le> w" "n < k \<Longrightarrow> P n" "k < w \<Longrightarrow> \<not> P k"
proof -
  show kw: "k \<le> w" unfolding k_def using length_takeWhile_le [of P "[0..<w]"] by simp
  show "P n" if "n < k"
  proof -
    have "takeWhile P [0..<w] ! n \<in> set (takeWhile P [0..<w])" using that unfolding k_def by simp
    then have "P (takeWhile P [0..<w] ! n)" by (auto dest: set_takeWhileD)
    then show "P n" using that kw takeWhile_nth [of n P "[0..<w]"] unfolding k_def by simp
  qed
  show "\<not> P k" if "k < w" using nth_length_takeWhile [of P "[0..<w]"] that unfolding k_def by simp
qed

lemma clz_spec:
  fixes x :: "'a::len word"
  shows "clz x \<le> LENGTH('a)" "n < clz x \<Longrightarrow> \<not> bit x (LENGTH('a) - 1 - n)"
    and "x \<noteq> 0 \<Longrightarrow> clz x < LENGTH('a)" "x \<noteq> 0 \<Longrightarrow> bit x (LENGTH('a) - 1 - clz x)"
proof -
  note s = takeWhile_upt_spec [where P = "\<lambda>n. \<not> bit x (LENGTH('a) - 1 - n)" and w = "LENGTH('a)", folded clz_def]
  show "clz x \<le> LENGTH('a)" "n < clz x \<Longrightarrow> \<not> bit x (LENGTH('a) - 1 - n)" by (rule s(1), rule s(2))
  show lt: "clz x < LENGTH('a)" if nz: "x \<noteq> 0"
  proof (rule ccontr)
    assume "\<not> clz x < LENGTH('a)"
    then have "\<not> bit x n" if "n < LENGTH('a)" for n
      using s(2) [of "LENGTH('a) - 1 - n"] that by simp
    with nz show False by (simp add: word_eq_0_iff_bits)
  qed
  show "bit x (LENGTH('a) - 1 - clz x)" if "x \<noteq> 0" using s(3) lt [OF that] by blast
qed

lemma ctz_spec:
  fixes x :: "'a::len word"
  shows "ctz x \<le> LENGTH('a)" "n < ctz x \<Longrightarrow> \<not> bit x n"
    and "x \<noteq> 0 \<Longrightarrow> ctz x < LENGTH('a)" "x \<noteq> 0 \<Longrightarrow> bit x (ctz x)"
proof -
  note s = takeWhile_upt_spec [where P = "\<lambda>n. \<not> bit x n" and w = "LENGTH('a)", folded ctz_def]
  show "ctz x \<le> LENGTH('a)" "n < ctz x \<Longrightarrow> \<not> bit x n" by (rule s(1), rule s(2))
  show lt: "ctz x < LENGTH('a)" if "x \<noteq> 0"
    using s(2) that word_neq_0_bit [OF that] by (metis not_less s(1) order_less_le_trans)
  show "bit x (ctz x)" if "x \<noteq> 0" using s(3) lt [OF that] by blast
qed

lemma bsr_loop_returns:
  fixes x :: "'a::len word"
  assumes "x \<noteq> 0" "k \<le> clz x"
  shows "bsr_loop (push_bit (LENGTH('a) - 1) 1) a (push_bit k x) = Some (a - of_nat (clz x - k))"
  using assms(2)
proof (induction "clz x - k" arbitrary: k a)
  case (0 k a)
  then have "k = clz x" by simp
  moreover have "bit (push_bit (clz x) x) (LENGTH('a) - 1)"
    using clz_spec(3,4) [OF assms(1)] unfolding bit_push_bit_iff by simp
  ultimately show ?case
    using single_bit_mask(2) [of "LENGTH('a) - 1" "push_bit k x"] by (simp add: bsr_loop.simps del: push_bit_of_1)
next
  case (Suc m k a)
  then have k: "k < clz x" by simp
  then have "\<not> bit (push_bit k x) (LENGTH('a) - 1)"
    using clz_spec(2) [OF k] unfolding bit_push_bit_iff by (simp add: diff_diff_add)
  then have "bsr_loop (push_bit (LENGTH('a) - 1) 1) a (push_bit k x)
      = bsr_loop (push_bit (LENGTH('a) - 1) 1) (a - 1) (push_bit 1 (push_bit k x))"
    using single_bit_mask(2) [of "LENGTH('a) - 1" "push_bit k x"]
    by (subst bsr_loop.simps) (simp del: push_bit_of_1)
  also have "push_bit 1 (push_bit k x) = push_bit (Suc k) x" by (simp only: push_bit_push_bit) simp
  also have "bsr_loop (push_bit (LENGTH('a) - 1) 1) (a - 1) (push_bit (Suc k) x) = Some (a - 1 - of_nat (clz x - Suc k))"
    by (rule Suc.hyps(1)) (use Suc k in auto)
  also have "a - 1 - of_nat (clz x - Suc k) = a - of_nat (clz x - k)"
  proof -
    have "clz x - k = Suc (clz x - Suc k)" using k by simp
    then show ?thesis by simp
  qed
  finally show ?case .
qed

section \<open>The population count\<close>

text \<open>
  One line of the routines, and the halves of a word: while the fields being added are at most
  as wide as a half, the halves do not interact.
\<close>

definition field_sum :: "nat \<Rightarrow> 'a::len word \<Rightarrow> 'a word \<Rightarrow> 'a word" where
  "field_sum s m v = (drop_bit s v AND m) + (v AND m)"

lemma unat_halves:
  fixes v :: "'b::len word"
  assumes "LENGTH('b) = 2 * LENGTH('a::len)"
  shows "unat (ucast v :: 'a word) = unat v mod 2 ^ LENGTH('a)"
    and "unat (ucast (drop_bit LENGTH('a) v) :: 'a word) = unat v div 2 ^ LENGTH('a)"
proof -
  show "unat (ucast v :: 'a word) = unat v mod 2 ^ LENGTH('a)" by (simp add: unsigned_ucast_eq take_bit_eq_mod)
  have "unat v < 2 ^ LENGTH('a) * 2 ^ LENGTH('a)" using unsigned_less [of v, where 'a = nat] assms by (simp add: mult_2 power_add)
  then have "unat v div 2 ^ LENGTH('a) < 2 ^ LENGTH('a)" by (rule less_mult_imp_div_less)
  then show "unat (ucast (drop_bit LENGTH('a) v) :: 'a word) = unat v div 2 ^ LENGTH('a)"
    by (simp only: unsigned_ucast_eq unat_drop_bit_eq) (simp add: drop_bit_eq_div take_bit_eq_mod)
qed

lemma unat_plus_exact: "unat a + unat b < 2 ^ LENGTH('a) \<Longrightarrow> unat (a + b :: 'a::len word) = unat a + unat b"
  by (simp add: unat_word_ariths)

lemma halves_plus:
  fixes a b :: "'b::len word"
  assumes L: "LENGTH('b) = 2 * LENGTH('a::len)"
    and no_carry: "unat (ucast a :: 'a word) + unat (ucast b :: 'a word) < 2 ^ LENGTH('a)"
      "unat a + unat b < 2 ^ LENGTH('b)"
  shows "(ucast (a + b) :: 'a word) = ucast a + ucast b"
    and "(ucast (drop_bit LENGTH('a) (a + b)) :: 'a word) = ucast (drop_bit LENGTH('a) a) + ucast (drop_bit LENGTH('a) b)"
proof -
  let ?B = "2 ^ LENGTH('a) :: nat"
  show "(ucast (a + b) :: 'a word) = ucast a + ucast b" by (rule ucast_down(1)) (simp add: L)
  have s: "unat (a + b) = unat a + unat b" by (rule unat_plus_exact) (rule no_carry)
  have d: "(unat a + unat b) div ?B = unat a div ?B + unat b div ?B"
    using no_carry(1) unfolding unat_halves [OF L] by (simp add: div_add1_eq [of "unat a"])
  have "unat a + unat b < ?B * ?B" using no_carry(2) L by (simp add: mult_2 power_add)
  then have "(unat a + unat b) div ?B < ?B" by (rule less_mult_imp_div_less)
  then have "unat (ucast (drop_bit LENGTH('a) a) + ucast (drop_bit LENGTH('a) b) :: 'a word)
      = unat a div ?B + unat b div ?B"
    using unat_plus_exact [of "ucast (drop_bit LENGTH('a) a) :: 'a word" "ucast (drop_bit LENGTH('a) b)"]
    unfolding unat_halves(2) [OF L] d by simp
  then show "(ucast (drop_bit LENGTH('a) (a + b)) :: 'a word) = ucast (drop_bit LENGTH('a) a) + ucast (drop_bit LENGTH('a) b)"
    by (intro word_unat_eq_iff [THEN iffD2]) (simp only: unat_halves(2) [OF L] s d)
qed

lemma field_sum_halves:
  fixes v m :: "'b::len word"
  assumes L: "LENGTH('b) = 2 * LENGTH('a::len)" and s: "s \<le> LENGTH('a)"
    and m: "ucast m = m'" "ucast (drop_bit LENGTH('a) m) = (m' :: 'a word)"
    and m': "unat m' < 2 ^ (LENGTH('a) - s)" "2 * unat m' < 2 ^ LENGTH('a)" "2 * unat m < 2 ^ LENGTH('b)"
  shows "(ucast (field_sum s m v) :: 'a word) = field_sum s m' (ucast v)"
    and "(ucast (drop_bit LENGTH('a) (field_sum s m v)) :: 'a word) = field_sum s m' (ucast (drop_bit LENGTH('a) v))"
proof -
  have bm: "bit m n = bit m' n" "bit m (LENGTH('a) + n) = bit m' n" if "n < LENGTH('a)" for n
  proof -
    have "bit (ucast m :: 'a word) n = bit m n" "bit (ucast (drop_bit LENGTH('a) m) :: 'a word) n = bit m (LENGTH('a) + n)"
      using that by (simp_all add: bit_unsigned_iff bit_drop_bit_eq)
    then show "bit m n = bit m' n" "bit m (LENGTH('a) + n) = bit m' n" unfolding m by simp_all
  qed
  have lt: "s + n < LENGTH('a)" if "bit m' n" for n
  proof -
    have "unat m' = take_bit (LENGTH('a) - s) (unat m')" using m'(1) by (simp add: take_bit_nat_eq_self)
    moreover have "bit (unat m') n" using that bit_imp_le_length [OF that] by (simp add: bit_unsigned_iff)
    ultimately have "n < LENGTH('a) - s" by (metis bit_take_bit_iff)
    then show ?thesis by simp
  qed
  have lo: "(ucast (v AND m) :: 'a word) = ucast v AND m'" "(ucast (drop_bit s v AND m) :: 'a word) = drop_bit s (ucast v) AND m'"
    by (rule bit_word_eqI; use L s bm lt in \<open>auto simp: bit_unsigned_iff bit_and_iff bit_drop_bit_eq not_less\<close>)+
  have hi: "(ucast (drop_bit LENGTH('a) (v AND m)) :: 'a word) = ucast (drop_bit LENGTH('a) v) AND m'"
    "(ucast (drop_bit LENGTH('a) (drop_bit s v AND m)) :: 'a word) = drop_bit s (ucast (drop_bit LENGTH('a) v)) AND m'"
    by (rule bit_word_eqI; use L s bm lt in \<open>auto simp: bit_unsigned_iff bit_and_iff bit_drop_bit_eq not_less ac_simps\<close>)+
  have le: "unat (x AND y) \<le> unat y" for x y :: "'c::len word" by (simp add: word_and_le1 word_le_nat_alt [symmetric])
  have "unat (ucast (drop_bit s v AND m) :: 'a word) + unat (ucast (v AND m) :: 'a word) < 2 ^ LENGTH('a)"
    unfolding lo using le [of "drop_bit s (ucast v)" m'] le [of "ucast v" m'] m'(2) by linarith
  moreover have "unat (drop_bit s v AND m) + unat (v AND m) < 2 ^ LENGTH('b)"
    using le [of "drop_bit s v" m] le [of v m] m'(3) by linarith
  ultimately show "(ucast (field_sum s m v) :: 'a word) = field_sum s m' (ucast v)"
    "(ucast (drop_bit LENGTH('a) (field_sum s m v)) :: 'a word) = field_sum s m' (ucast (drop_bit LENGTH('a) v))"
    unfolding field_sum_def using halves_plus [OF L, of "drop_bit s v AND m" "v AND m"] by (simp_all only: lo hi)
qed

lemma sum_lessThan_split: "(\<Sum>n < k + m. f n) = (\<Sum>n < k. f n) + (\<Sum>n < m. f (k + n))" for f :: "nat \<Rightarrow> nat"
  by (induction m) auto

lemma pop_halves:
  fixes v :: "'b::len word"
  assumes "LENGTH('b) = 2 * LENGTH('a::len)"
  shows "pop v = pop (ucast v :: 'a word) + pop (ucast (drop_bit LENGTH('a) v) :: 'a word)"
proof -
  have "LENGTH('b) = LENGTH('a) + LENGTH('a)" using assms by simp
  then show ?thesis
    unfolding pop_def by (simp only: sum_lessThan_split) (simp add: bit_unsigned_iff bit_drop_bit_eq)
qed

text \<open>The last line adds the two halves.\<close>

lemma field_sum_last:
  fixes v :: "'b::len word"
  assumes L: "LENGTH('b) = 2 * LENGTH('a::len)" and m: "m = mask LENGTH('a)"
  shows "unat (field_sum LENGTH('a) m v) = unat (ucast v :: 'a word) + unat (ucast (drop_bit LENGTH('a) v) :: 'a word)"
proof -
  let ?a = "drop_bit LENGTH('a) v AND m" and ?b = "v AND m"
  have b: "unat ?b = unat (ucast v :: 'a word)"
    unfolding m take_bit_eq_mask [symmetric] by (simp only: unsigned_take_bit_eq unat_halves(1) [OF L]) (simp only: take_bit_eq_mod)
  have a: "unat ?a = unat (ucast (drop_bit LENGTH('a) v) :: 'a word)"
    unfolding m take_bit_eq_mask [symmetric] by (simp only: unsigned_take_bit_eq unat_halves(1) [OF L]) (simp only: take_bit_eq_mod)
  have lt: "unat (x :: 'a word) < 2 ^ LENGTH('a)" for x by (rule unsigned_less)
  have "(2 :: nat) ^ LENGTH('a) + 2 ^ LENGTH('a) \<le> 2 ^ LENGTH('b)"
    unfolding L mult_2 [symmetric] using power_increasing [of "Suc LENGTH('a)" "2 * LENGTH('a)" "2 :: nat"]
    by (simp add: Suc_le_eq)
  then have "unat ?a + unat ?b < 2 ^ LENGTH('b)"
    unfolding a b using lt [of "ucast v"] lt [of "ucast (drop_bit LENGTH('a) v)"] by linarith
  then show ?thesis unfolding field_sum_def by (simp only: unat_plus_exact a b add.commute)
qed

lemma popcnt_nibble: "unat (field_sum 2 3 (field_sum 1 5 (x :: 4 word))) = pop x"
proof -
  have "list_all (\<lambda>n. unat (field_sum 2 3 (field_sum 1 5 (word_of_nat n :: 4 word))) = pop (word_of_nat n :: 4 word)) [0..<16]"
    unfolding field_sum_def pop_def by code_simp
  then have "\<forall>n < 16. unat (field_sum 2 3 (field_sum 1 5 (word_of_nat n :: 4 word))) = pop (word_of_nat n :: 4 word)"
    by (auto simp: list_all_iff)
  moreover have "unat x < 16" using unsigned_less [of x] by simp
  ultimately have "unat (field_sum 2 3 (field_sum 1 5 (word_of_nat (unat x) :: 4 word))) = pop (word_of_nat (unat x) :: 4 word)"
    by blast
  then show ?thesis by simp
qed

lemma popcntb_pop: "popcntb x = pop x"
proof -
  have h: "ucast (field_sum 1 0x55 v :: u8) = field_sum 1 (0x5 :: 4 word) (ucast v)"
    "ucast (drop_bit LENGTH(4) (field_sum 1 0x55 v :: u8)) = field_sum 1 (0x5 :: 4 word) (ucast (drop_bit LENGTH(4) v))"
    "ucast (field_sum 2 0x33 v :: u8) = field_sum 2 (0x3 :: 4 word) (ucast v)"
    "ucast (drop_bit LENGTH(4) (field_sum 2 0x33 v :: u8)) = field_sum 2 (0x3 :: 4 word) (ucast (drop_bit LENGTH(4) v))" for v
    by (rule field_sum_halves; simp)+
  let ?y = "field_sum 2 0x33 (field_sum 1 0x55 x)"
  have "popcntb x = unat (field_sum LENGTH(4) 0xF ?y)"
    by (simp add: popcntb_def field_sum_def Let_def)
  also have "\<dots> = unat (ucast ?y :: 4 word) + unat (ucast (drop_bit LENGTH(4) ?y) :: 4 word)"
    by (rule field_sum_last) (simp_all add: mask_eq_exp_minus_1)
  also have "\<dots> = pop (ucast x :: 4 word) + pop (ucast (drop_bit LENGTH(4) x) :: 4 word)"
    by (simp only: h popcnt_nibble)
  also have "\<dots> = pop x" by (rule pop_halves [symmetric]) simp
  finally show ?thesis .
qed

lemma field_sums_b: "unat (field_sum 4 0xF (field_sum 2 0x33 (field_sum 1 0x55 (x)))) = pop (x :: u8)"
  using popcntb_pop [of x] by (simp only: popcntb_def field_sum_def Let_def)

lemma popcntw_pop: "popcntw x = pop x"
proof -
  have h: "ucast (field_sum 1 0x5555 v :: u16) = field_sum 1 (0x55 :: 8 word) (ucast v)"
    "ucast (drop_bit LENGTH(8) (field_sum 1 0x5555 v :: u16)) = field_sum 1 (0x55 :: 8 word) (ucast (drop_bit LENGTH(8) v))"
    "ucast (field_sum 2 0x3333 v :: u16) = field_sum 2 (0x33 :: 8 word) (ucast v)"
    "ucast (drop_bit LENGTH(8) (field_sum 2 0x3333 v :: u16)) = field_sum 2 (0x33 :: 8 word) (ucast (drop_bit LENGTH(8) v))"
    "ucast (field_sum 4 0xF0F v :: u16) = field_sum 4 (0xF :: 8 word) (ucast v)"
    "ucast (drop_bit LENGTH(8) (field_sum 4 0xF0F v :: u16)) = field_sum 4 (0xF :: 8 word) (ucast (drop_bit LENGTH(8) v))" for v
    by (rule field_sum_halves; simp)+
  let ?y = "field_sum 4 0xF0F (field_sum 2 0x3333 (field_sum 1 0x5555 x))"
  have "popcntw x = unat (field_sum LENGTH(8) 0xFF ?y)"
    by (simp add: popcntw_def field_sum_def Let_def)
  also have "\<dots> = unat (ucast ?y :: 8 word) + unat (ucast (drop_bit LENGTH(8) ?y) :: 8 word)"
    by (rule field_sum_last) (simp_all add: mask_eq_exp_minus_1)
  also have "\<dots> = pop (ucast x :: 8 word) + pop (ucast (drop_bit LENGTH(8) x) :: 8 word)"
    by (simp only: h field_sums_b)
  also have "\<dots> = pop x" by (rule pop_halves [symmetric]) simp
  finally show ?thesis .
qed

lemma field_sums_w: "unat (field_sum 8 0xFF (field_sum 4 0xF0F (field_sum 2 0x3333 (field_sum 1 0x5555 (x))))) = pop (x :: u16)"
  using popcntw_pop [of x] by (simp only: popcntw_def field_sum_def Let_def)

lemma popcntd_pop: "popcntd x = pop x"
proof -
  have h: "ucast (field_sum 1 0x55555555 v :: u32) = field_sum 1 (0x5555 :: 16 word) (ucast v)"
    "ucast (drop_bit LENGTH(16) (field_sum 1 0x55555555 v :: u32)) = field_sum 1 (0x5555 :: 16 word) (ucast (drop_bit LENGTH(16) v))"
    "ucast (field_sum 2 0x33333333 v :: u32) = field_sum 2 (0x3333 :: 16 word) (ucast v)"
    "ucast (drop_bit LENGTH(16) (field_sum 2 0x33333333 v :: u32)) = field_sum 2 (0x3333 :: 16 word) (ucast (drop_bit LENGTH(16) v))"
    "ucast (field_sum 4 0xF0F0F0F v :: u32) = field_sum 4 (0xF0F :: 16 word) (ucast v)"
    "ucast (drop_bit LENGTH(16) (field_sum 4 0xF0F0F0F v :: u32)) = field_sum 4 (0xF0F :: 16 word) (ucast (drop_bit LENGTH(16) v))"
    "ucast (field_sum 8 0xFF00FF v :: u32) = field_sum 8 (0xFF :: 16 word) (ucast v)"
    "ucast (drop_bit LENGTH(16) (field_sum 8 0xFF00FF v :: u32)) = field_sum 8 (0xFF :: 16 word) (ucast (drop_bit LENGTH(16) v))" for v
    by (rule field_sum_halves; simp)+
  let ?y = "field_sum 8 0xFF00FF (field_sum 4 0xF0F0F0F (field_sum 2 0x33333333 (field_sum 1 0x55555555 x)))"
  have "popcntd x = unat (field_sum LENGTH(16) 0xFFFF ?y)"
    by (simp add: popcntd_def field_sum_def Let_def)
  also have "\<dots> = unat (ucast ?y :: 16 word) + unat (ucast (drop_bit LENGTH(16) ?y) :: 16 word)"
    by (rule field_sum_last) (simp_all add: mask_eq_exp_minus_1)
  also have "\<dots> = pop (ucast x :: 16 word) + pop (ucast (drop_bit LENGTH(16) x) :: 16 word)"
    by (simp only: h field_sums_w)
  also have "\<dots> = pop x" by (rule pop_halves [symmetric]) simp
  finally show ?thesis .
qed

lemma field_sums_d: "unat (field_sum 16 0xFFFF (field_sum 8 0xFF00FF (field_sum 4 0xF0F0F0F (field_sum 2 0x33333333 (field_sum 1 0x55555555 (x)))))) = pop (x :: u32)"
  using popcntd_pop [of x] by (simp only: popcntd_def field_sum_def Let_def)

lemma popcntq_pop: "popcntq x = pop x"
proof -
  have h: "ucast (field_sum 1 0x5555555555555555 v :: u64) = field_sum 1 (0x55555555 :: 32 word) (ucast v)"
    "ucast (drop_bit LENGTH(32) (field_sum 1 0x5555555555555555 v :: u64)) = field_sum 1 (0x55555555 :: 32 word) (ucast (drop_bit LENGTH(32) v))"
    "ucast (field_sum 2 0x3333333333333333 v :: u64) = field_sum 2 (0x33333333 :: 32 word) (ucast v)"
    "ucast (drop_bit LENGTH(32) (field_sum 2 0x3333333333333333 v :: u64)) = field_sum 2 (0x33333333 :: 32 word) (ucast (drop_bit LENGTH(32) v))"
    "ucast (field_sum 4 0xF0F0F0F0F0F0F0F v :: u64) = field_sum 4 (0xF0F0F0F :: 32 word) (ucast v)"
    "ucast (drop_bit LENGTH(32) (field_sum 4 0xF0F0F0F0F0F0F0F v :: u64)) = field_sum 4 (0xF0F0F0F :: 32 word) (ucast (drop_bit LENGTH(32) v))"
    "ucast (field_sum 8 0xFF00FF00FF00FF v :: u64) = field_sum 8 (0xFF00FF :: 32 word) (ucast v)"
    "ucast (drop_bit LENGTH(32) (field_sum 8 0xFF00FF00FF00FF v :: u64)) = field_sum 8 (0xFF00FF :: 32 word) (ucast (drop_bit LENGTH(32) v))"
    "ucast (field_sum 16 0xFFFF0000FFFF v :: u64) = field_sum 16 (0xFFFF :: 32 word) (ucast v)"
    "ucast (drop_bit LENGTH(32) (field_sum 16 0xFFFF0000FFFF v :: u64)) = field_sum 16 (0xFFFF :: 32 word) (ucast (drop_bit LENGTH(32) v))" for v
    by (rule field_sum_halves; simp)+
  let ?y = "field_sum 16 0xFFFF0000FFFF (field_sum 8 0xFF00FF00FF00FF (field_sum 4 0xF0F0F0F0F0F0F0F (field_sum 2 0x3333333333333333 (field_sum 1 0x5555555555555555 x))))"
  have "popcntq x = unat (field_sum LENGTH(32) 0xFFFFFFFF ?y)"
    by (simp add: popcntq_def field_sum_def Let_def)
  also have "\<dots> = unat (ucast ?y :: 32 word) + unat (ucast (drop_bit LENGTH(32) ?y) :: 32 word)"
    by (rule field_sum_last) (simp_all add: mask_eq_exp_minus_1)
  also have "\<dots> = pop (ucast x :: 32 word) + pop (ucast (drop_bit LENGTH(32) x) :: 32 word)"
    by (simp only: h field_sums_d)
  also have "\<dots> = pop x" by (rule pop_halves [symmetric]) simp
  finally show ?thesis .
qed

section \<open>What the bit instructions promise\<close>

definition arch_BT where
  "arch_BT rd d n c = \<lparr>ar_reg = gen_reg c, ar_flags = (lf_abs (oszapc c))\<lparr>fl_CF := bit (rd d c) n\<rparr>\<rparr>"

definition arch_BIT where
  "arch_BIT rd wr change d n c = \<lparr>ar_reg = gen_reg (wr d (change n (rd d c)) c),
     ar_flags = (lf_abs (oszapc c))\<lparr>fl_CF := bit (rd d c) n\<rparr>\<rparr>"

definition arch_BSCAN where
  "arch_BSCAN wr d x r c = (if x = 0 then \<lparr>ar_reg = gen_reg c, ar_flags = (lf_abs (oszapc c))\<lparr>fl_ZF := True\<rparr>\<rparr>
     else \<lparr>ar_reg = gen_reg (wr d r c), ar_flags = (arch_logic r)\<lparr>fl_ZF := False\<rparr>\<rparr>)"

definition arch_COUNT where
  "arch_COUNT wr d x r c = \<lparr>ar_reg = gen_reg (wr d r c),
     ar_flags = (lf_abs (oszapc c))\<lparr>fl_CF := (x = 0), fl_ZF := (r = 0)\<rparr>\<rparr>"

definition arch_POPCNT where
  "arch_POPCNT wr d r c = \<lparr>ar_reg = gen_reg (wr d r c), ar_flags = \<lparr>fl_OF = False, fl_SF = False,
     fl_ZF = (r = 0), fl_AF = False, fl_PF = False, fl_CF = False\<rparr>\<rparr>"

lemmas arch_bit_defs = arch_BT_def arch_BIT_def arch_BSCAN_def arch_COUNT_def arch_POPCNT_def

section \<open>The handlers implement them\<close>

lemma tst_drop_bit: "tst (drop_bit n x) 1 = bit x n"
  by (simp add: tst_def and_1_eq bit_drop_bit_eq)

lemma unat_and_masks:
  "unat (w16 AND 0xf) = unat (w16 :: u16) mod 16" "unat (w32 AND 0x1f) = unat (w32 :: u32) mod 32"
  "unat (w64 AND 0x3f) = unat (w64 :: u64) mod 64" "unat (b AND 0xf) = unat (b :: u8) mod 16"
  "unat (b AND 0x1f) = unat (b :: u8) mod 32" "unat (b AND 0x3f) = unat (b :: u8) mod 64"
proof -
  have m: "unat (w AND mask k) = unat w mod 2 ^ k" for w :: "'a::len word" and k
    by (simp only: take_bit_eq_mask [symmetric] unsigned_take_bit_eq) (simp only: take_bit_eq_mod)
  show "unat (w16 AND 0xf) = unat (w16 :: u16) mod 16" "unat (w32 AND 0x1f) = unat (w32 :: u32) mod 32"
    "unat (w64 AND 0x3f) = unat (w64 :: u64) mod 64" "unat (b AND 0xf) = unat (b :: u8) mod 16"
    "unat (b AND 0x1f) = unat (b :: u8) mod 32" "unat (b AND 0x3f) = unat (b :: u8) mod 64"
    using m [of w16 4] m [of w32 5] m [of w64 6] m [of b 4] m [of b 5] m [of b 6]
    by (simp_all add: mask_eq_exp_minus_1)
qed

lemma clear_popcnt_flags:
  "lf_abs (oszapc (clearEFlagsOSZAPC c)) = \<lparr>fl_OF = False, fl_SF = False, fl_ZF = False, fl_AF = False,
     fl_PF = False, fl_CF = False\<rparr>"
  "gen_reg (clearEFlagsOSZAPC c) = gen_reg c"
proof -
  have "\<not> even_parity (1 :: u8)" unfolding even_parity_def by code_simp
  then show "lf_abs (oszapc (clearEFlagsOSZAPC c)) = \<lparr>fl_OF = False, fl_SF = False, fl_ZF = False, fl_AF = False,
     fl_PF = False, fl_CF = False\<rparr>" "gen_reg (clearEFlagsOSZAPC c) = gen_reg c"
    by (simp_all add: clearEFlagsOSZAPC_def logic_flags arch_logic_def)
qed

lemma write_after_clear:
  "gen_reg (BX_WRITE_16BIT_REG n v (clearEFlagsOSZAPC c)) = gen_reg (BX_WRITE_16BIT_REG n v c)"
  "gen_reg (BX_WRITE_32BIT_REGZ n u (clearEFlagsOSZAPC c)) = gen_reg (BX_WRITE_32BIT_REGZ n u c)"
  by (simp_all add: clearEFlagsOSZAPC_def reg_laws)

lemmas bit_handler_simps = arch_bit_defs cpu_abs_def Let_def reg_laws tst_drop_bit unat_and_masks set_CF_abs
  set_ZF_abs logic_flags clear_ZF_abs assert_ZF_abs set_bit_eq_or unset_bit_eq_and_not flip_bit_eq_xor

lemma BT_16_sim:
  "cpu_abs (BT_EwGwR i c) = arch_BT BX_READ_16BIT_REG (i_dst i) (unat (BX_READ_16BIT_REG (i_src i) c) mod 16) c"
  "cpu_abs (BTS_EwGwR i c) = arch_BIT BX_READ_16BIT_REG BX_WRITE_16BIT_REG set_bit (i_dst i) (unat (BX_READ_16BIT_REG (i_src i) c) mod 16) c"
  "cpu_abs (BTR_EwGwR i c) = arch_BIT BX_READ_16BIT_REG BX_WRITE_16BIT_REG unset_bit (i_dst i) (unat (BX_READ_16BIT_REG (i_src i) c) mod 16) c"
  "cpu_abs (BTC_EwGwR i c) = arch_BIT BX_READ_16BIT_REG BX_WRITE_16BIT_REG flip_bit (i_dst i) (unat (BX_READ_16BIT_REG (i_src i) c) mod 16) c"
  "cpu_abs (BT_EwIbR i c) = arch_BT BX_READ_16BIT_REG (i_dst i) (unat (i_Ib i) mod 16) c"
  "cpu_abs (BTS_EwIbR i c) = arch_BIT BX_READ_16BIT_REG BX_WRITE_16BIT_REG set_bit (i_dst i) (unat (i_Ib i) mod 16) c"
  "cpu_abs (BTR_EwIbR i c) = arch_BIT BX_READ_16BIT_REG BX_WRITE_16BIT_REG unset_bit (i_dst i) (unat (i_Ib i) mod 16) c"
  "cpu_abs (BTC_EwIbR i c) = arch_BIT BX_READ_16BIT_REG BX_WRITE_16BIT_REG flip_bit (i_dst i) (unat (i_Ib i) mod 16) c"
  by (simp_all add: BT_EwGwR_def
      BTS_EwGwR_def
      BTR_EwGwR_def
      BTC_EwGwR_def
      BT_EwIbR_def
      BTS_EwIbR_def
      BTR_EwIbR_def
      BTC_EwIbR_def
      bit_handler_simps)

lemma BT_32_sim:
  "cpu_abs (BT_EdGdR i c) = arch_BT BX_READ_32BIT_REG (i_dst i) (unat (BX_READ_32BIT_REG (i_src i) c) mod 32) c"
  "cpu_abs (BTS_EdGdR i c) = arch_BIT BX_READ_32BIT_REG BX_WRITE_32BIT_REGZ set_bit (i_dst i) (unat (BX_READ_32BIT_REG (i_src i) c) mod 32) c"
  "cpu_abs (BTR_EdGdR i c) = arch_BIT BX_READ_32BIT_REG BX_WRITE_32BIT_REGZ unset_bit (i_dst i) (unat (BX_READ_32BIT_REG (i_src i) c) mod 32) c"
  "cpu_abs (BTC_EdGdR i c) = arch_BIT BX_READ_32BIT_REG BX_WRITE_32BIT_REGZ flip_bit (i_dst i) (unat (BX_READ_32BIT_REG (i_src i) c) mod 32) c"
  "cpu_abs (BT_EdIbR i c) = arch_BT BX_READ_32BIT_REG (i_dst i) (unat (i_Ib i) mod 32) c"
  "cpu_abs (BTS_EdIbR i c) = arch_BIT BX_READ_32BIT_REG BX_WRITE_32BIT_REGZ set_bit (i_dst i) (unat (i_Ib i) mod 32) c"
  "cpu_abs (BTR_EdIbR i c) = arch_BIT BX_READ_32BIT_REG BX_WRITE_32BIT_REGZ unset_bit (i_dst i) (unat (i_Ib i) mod 32) c"
  "cpu_abs (BTC_EdIbR i c) = arch_BIT BX_READ_32BIT_REG BX_WRITE_32BIT_REGZ flip_bit (i_dst i) (unat (i_Ib i) mod 32) c"
  by (simp_all add: BT_EdGdR_def
      BTS_EdGdR_def
      BTR_EdGdR_def
      BTC_EdGdR_def
      BT_EdIbR_def
      BTS_EdIbR_def
      BTR_EdIbR_def
      BTC_EdIbR_def
      bit_handler_simps)

lemma BT_64_sim:
  "cpu_abs (BT_EqGqR i c) = arch_BT BX_READ_64BIT_REG (i_dst i) (unat (BX_READ_64BIT_REG (i_src i) c) mod 64) c"
  "cpu_abs (BTS_EqGqR i c) = arch_BIT BX_READ_64BIT_REG BX_WRITE_64BIT_REG set_bit (i_dst i) (unat (BX_READ_64BIT_REG (i_src i) c) mod 64) c"
  "cpu_abs (BTR_EqGqR i c) = arch_BIT BX_READ_64BIT_REG BX_WRITE_64BIT_REG unset_bit (i_dst i) (unat (BX_READ_64BIT_REG (i_src i) c) mod 64) c"
  "cpu_abs (BTC_EqGqR i c) = arch_BIT BX_READ_64BIT_REG BX_WRITE_64BIT_REG flip_bit (i_dst i) (unat (BX_READ_64BIT_REG (i_src i) c) mod 64) c"
  "cpu_abs (BT_EqIbR i c) = arch_BT BX_READ_64BIT_REG (i_dst i) (unat (i_Ib i) mod 64) c"
  "cpu_abs (BTS_EqIbR i c) = arch_BIT BX_READ_64BIT_REG BX_WRITE_64BIT_REG set_bit (i_dst i) (unat (i_Ib i) mod 64) c"
  "cpu_abs (BTR_EqIbR i c) = arch_BIT BX_READ_64BIT_REG BX_WRITE_64BIT_REG unset_bit (i_dst i) (unat (i_Ib i) mod 64) c"
  "cpu_abs (BTC_EqIbR i c) = arch_BIT BX_READ_64BIT_REG BX_WRITE_64BIT_REG flip_bit (i_dst i) (unat (i_Ib i) mod 64) c"
  by (simp_all add: BT_EqGqR_def
      BTS_EqGqR_def
      BTR_EqGqR_def
      BTC_EqGqR_def
      BT_EqIbR_def
      BTS_EqIbR_def
      BTR_EqIbR_def
      BTC_EqIbR_def
      bit_handler_simps)

lemma scan_counts:
  "tzcntw x16 = ctz x16" "tzcntd x32 = ctz x32" "tzcntq x64 = ctz x64"
  "lzcntw x16 = clz x16" "lzcntd x32 = clz x32" "lzcntq x64 = clz x64"
  using tzcnt_loop_ctz [of 0 x16] tzcnt_loop_ctz [of 0 x32] tzcnt_loop_ctz [of 0 x64]
    lzcnt_loop_clz [of 0 x16] lzcnt_loop_clz [of 0 x32] lzcnt_loop_clz [of 0 x64]
  by (simp_all add: tzcntw_def tzcntd_def tzcntq_def lzcntw_def lzcntd_def lzcntq_def)

lemma bsr_scan:
  "x16 \<noteq> 0 \<Longrightarrow> bsr_loop 0x8000 15 x16 = Some (15 - of_nat (clz (x16 :: u16)))"
  "x32 \<noteq> 0 \<Longrightarrow> bsr_loop 0x80000000 31 x32 = Some (31 - of_nat (clz (x32 :: u32)))"
  "x64 \<noteq> 0 \<Longrightarrow> bsr_loop 0x8000000000000000 63 x64 = Some (63 - of_nat (clz (x64 :: u64)))"
  using bsr_loop_returns [of x16 0 15] bsr_loop_returns [of x32 0 31] bsr_loop_returns [of x64 0 63] by simp_all

lemma pop_bound: "pop (x :: 'a::len word) \<le> LENGTH('a)" "pop x = 0 \<longleftrightarrow> x = 0"
proof -
  have "pop x \<le> (\<Sum>n < LENGTH('a). 1)" unfolding pop_def by (rule sum_mono) simp
  then show "pop x \<le> LENGTH('a)" by simp
  show "pop x = 0 \<longleftrightarrow> x = 0" by (auto simp: pop_def word_eq_0_iff_bits)
qed

lemma bsr_position: "x \<noteq> 0 \<Longrightarrow> of_nat (LENGTH('a) - 1 - clz (x :: 'a::len word)) = (of_nat (LENGTH('a) - 1) - of_nat (clz x) :: 'a word)"
  using clz_spec(3) [of x] by (simp add: of_nat_diff)

lemma BSCAN_16_sim:
  "cpu_abs (BSF_GwEwR i c) = arch_BSCAN BX_WRITE_16BIT_REG (i_dst i) (BX_READ_16BIT_REG (i_src i) c) (of_nat (ctz (BX_READ_16BIT_REG (i_src i) c))) c"
  "map_option cpu_abs (BSR_GwEwR i c) = Some (arch_BSCAN BX_WRITE_16BIT_REG (i_dst i) (BX_READ_16BIT_REG (i_src i) c) (of_nat (15 - clz (BX_READ_16BIT_REG (i_src i) c))) c)"
  using bsr_position [of "BX_READ_16BIT_REG (i_src i) c"] by (auto simp: BSF_GwEwR_def BSR_GwEwR_def
      bit_handler_simps scan_counts bsr_scan)

lemma COUNT_16_sim:
  "cpu_abs (TZCNT_GwEwR i c) = arch_COUNT BX_WRITE_16BIT_REG (i_dst i) (BX_READ_16BIT_REG (i_src i) c) (of_nat (ctz (BX_READ_16BIT_REG (i_src i) c))) c"
  "cpu_abs (LZCNT_GwEwR i c) = arch_COUNT BX_WRITE_16BIT_REG (i_dst i) (BX_READ_16BIT_REG (i_src i) c) (of_nat (clz (BX_READ_16BIT_REG (i_src i) c))) c"
  "cpu_abs (POPCNT_GwEwR i c) = arch_POPCNT BX_WRITE_16BIT_REG (i_dst i) (of_nat (pop (BX_READ_16BIT_REG (i_src i) c))) c"
  by (simp_all add: TZCNT_GwEwR_def LZCNT_GwEwR_def POPCNT_GwEwR_def
      bit_handler_simps scan_counts popcntw_pop clear_popcnt_flags write_after_clear)

lemma BSCAN_32_sim:
  "cpu_abs (BSF_GdEdR i c) = arch_BSCAN BX_WRITE_32BIT_REGZ (i_dst i) (BX_READ_32BIT_REG (i_src i) c) (of_nat (ctz (BX_READ_32BIT_REG (i_src i) c))) c"
  "map_option cpu_abs (BSR_GdEdR i c) = Some (arch_BSCAN BX_WRITE_32BIT_REGZ (i_dst i) (BX_READ_32BIT_REG (i_src i) c) (of_nat (31 - clz (BX_READ_32BIT_REG (i_src i) c))) c)"
  using bsr_position [of "BX_READ_32BIT_REG (i_src i) c"] by (auto simp: BSF_GdEdR_def BSR_GdEdR_def
      bit_handler_simps scan_counts bsr_scan)

lemma COUNT_32_sim:
  "cpu_abs (TZCNT_GdEdR i c) = arch_COUNT BX_WRITE_32BIT_REGZ (i_dst i) (BX_READ_32BIT_REG (i_src i) c) (of_nat (ctz (BX_READ_32BIT_REG (i_src i) c))) c"
  "cpu_abs (LZCNT_GdEdR i c) = arch_COUNT BX_WRITE_32BIT_REGZ (i_dst i) (BX_READ_32BIT_REG (i_src i) c) (of_nat (clz (BX_READ_32BIT_REG (i_src i) c))) c"
  "cpu_abs (POPCNT_GdEdR i c) = arch_POPCNT BX_WRITE_32BIT_REGZ (i_dst i) (of_nat (pop (BX_READ_32BIT_REG (i_src i) c))) c"
  by (simp_all add: TZCNT_GdEdR_def LZCNT_GdEdR_def POPCNT_GdEdR_def
      bit_handler_simps scan_counts popcntd_pop clear_popcnt_flags write_after_clear)

lemma BSCAN_64_sim:
  "cpu_abs (BSF_GqEqR i c) = arch_BSCAN BX_WRITE_64BIT_REG (i_dst i) (BX_READ_64BIT_REG (i_src i) c) (of_nat (ctz (BX_READ_64BIT_REG (i_src i) c))) c"
  "map_option cpu_abs (BSR_GqEqR i c) = Some (arch_BSCAN BX_WRITE_64BIT_REG (i_dst i) (BX_READ_64BIT_REG (i_src i) c) (of_nat (63 - clz (BX_READ_64BIT_REG (i_src i) c))) c)"
  using bsr_position [of "BX_READ_64BIT_REG (i_src i) c"] by (auto simp: BSF_GqEqR_def BSR_GqEqR_def
      bit_handler_simps scan_counts bsr_scan)

lemma COUNT_64_sim:
  "cpu_abs (TZCNT_GqEqR i c) = arch_COUNT BX_WRITE_64BIT_REG (i_dst i) (BX_READ_64BIT_REG (i_src i) c) (of_nat (ctz (BX_READ_64BIT_REG (i_src i) c))) c"
  "cpu_abs (LZCNT_GqEqR i c) = arch_COUNT BX_WRITE_64BIT_REG (i_dst i) (BX_READ_64BIT_REG (i_src i) c) (of_nat (clz (BX_READ_64BIT_REG (i_src i) c))) c"
  "cpu_abs (POPCNT_GqEqR i c) = arch_POPCNT BX_WRITE_32BIT_REGZ (i_dst i) (of_nat (pop (BX_READ_64BIT_REG (i_src i) c))) c"
  by (simp_all add: TZCNT_GqEqR_def LZCNT_GqEqR_def POPCNT_GqEqR_def
      bit_handler_simps scan_counts popcntq_pop clear_popcnt_flags write_after_clear)

section \<open>Byte swap\<close>

definition byte :: "nat \<Rightarrow> 'a::len word \<Rightarrow> u8" where "byte k x = ucast (drop_bit (8 * k) x)"

lemma bswap_masks:
  "bit (0xFF00FF00 :: u32) n \<longleftrightarrow> n \<in> {8..<16} \<union> {24..<32}" "bit (0x00FF00FF :: u32) n \<longleftrightarrow> n < 8 \<or> n \<in> {16..<24}"
proof -
  have m: "(0xFF00FF00 :: u32) = push_bit 8 (mask 8) OR push_bit 24 (mask 8)"
    "(0x00FF00FF :: u32) = mask 8 OR push_bit 16 (mask 8)"
    by (simp_all add: mask_eq_exp_minus_1)
  show "bit (0xFF00FF00 :: u32) n \<longleftrightarrow> n \<in> {8..<16} \<union> {24..<32}" "bit (0x00FF00FF :: u32) n \<longleftrightarrow> n < 8 \<or> n \<in> {16..<24}"
    unfolding m by (auto simp only: bit_or_iff bit_push_bit_iff bit_mask_iff) auto
qed

lemma bswap32_bytes:
  "byte 0 (bx_bswap32 x) = byte 3 x" "byte 1 (bx_bswap32 x) = byte 2 x"
  "byte 2 (bx_bswap32 x) = byte 1 x" "byte 3 (bx_bswap32 x) = byte 0 x"
  by (rule bit_word_eqI; unfold byte_def bx_bswap32_def Let_def bit_unsigned_iff bit_drop_bit_eq comp_def bit_or_iff
      bit_push_bit_iff bit_and_iff bswap_masks; auto dest: bit_imp_le_length)+

lemma bswap32_byte: "k < 4 \<Longrightarrow> byte k (bx_bswap32 x) = byte (3 - k) x"
  using bswap32_bytes [of x] by (auto simp: numeral_eq_Suc less_Suc_eq)

lemma byte_halves:
  "k < 4 \<Longrightarrow> byte k (ucast (v :: u64) :: u32) = byte k v" "k < 4 \<Longrightarrow> byte k (ucast (drop_bit 32 (v :: u64)) :: u32) = byte (k + 4) v"
  "k < 4 \<Longrightarrow> byte k (push_bit 32 (ucast (h :: u32)) OR ucast (l :: u32) :: u64) = byte k l"
  "k < 4 \<Longrightarrow> byte (k + 4) (push_bit 32 (ucast (h :: u32)) OR ucast (l :: u32) :: u64) = byte k h"
  by (rule bit_word_eqI; unfold byte_def bit_unsigned_iff bit_drop_bit_eq comp_def bit_or_iff bit_push_bit_iff;
      auto simp: ac_simps dest: bit_imp_le_length)+

lemma bswap64_byte:
  assumes "k < 8"
  shows "byte k (bx_bswap64 x) = byte (7 - k) x"
proof -
  have m: "(ucast (x AND 0xFFFFFFFF) :: u32) = ucast x"
    by (rule bit_word_eqI, unfold bit_unsigned_iff bit_and_iff bit_mask_32) auto
  show ?thesis
  proof (cases "k < 4")
    case True
    then have "byte k (bx_bswap64 x) = byte (3 - k + 4) x"
      by (simp only: bx_bswap64_def Let_def byte_halves(3) bswap32_byte) (rule byte_halves(2), simp)
    then show ?thesis using True by simp
  next
    case False
    define j where "j = k - 4"
    have j: "j < 4" "k = j + 4" using False assms by (auto simp: j_def)
    have "byte k (bx_bswap64 x) = byte (3 - j) x"
      unfolding j(2) using j(1) by (simp only: bx_bswap64_def Let_def m byte_halves(4) bswap32_byte) (rule byte_halves(1), simp)
    then show ?thesis using j by simp
  qed
qed

lemma bytes_eqI:
  "(\<And>k. k < 4 \<Longrightarrow> byte k (x :: u32) = byte k y) \<Longrightarrow> x = y" "(\<And>k. k < 8 \<Longrightarrow> byte k (u :: u64) = byte k v) \<Longrightarrow> u = v"
proof -
  have b: "bit w n = bit (byte (n div 8) w) (n mod 8)" for w :: "'a::len word" and n
    by (simp add: byte_def bit_unsigned_iff bit_drop_bit_eq)
  show "x = y" if "\<And>k. k < 4 \<Longrightarrow> byte k x = byte k y"
    by (rule bit_word_eqI) (simp add: b [of x] b [of y] that)
  show "u = v" if "\<And>k. k < 8 \<Longrightarrow> byte k u = byte k v"
    by (rule bit_word_eqI) (simp add: b [of u] b [of v] that)
qed

lemma bswap_involution [simp]: "bx_bswap32 (bx_bswap32 x) = x" "bx_bswap64 (bx_bswap64 v) = v"
  by (rule bytes_eqI; simp add: bswap32_byte bswap64_byte)+

section \<open>Properties\<close>

text \<open>BT, BTS, BTR and BTC with a register or an immediate bit number, at 16, 32 and 64 bits: the number is taken modulo the operand size, CF receives the selected bit of the old destination, and exactly that bit is set, cleared or complemented; no other flag changes and BT writes no register.\<close>

theorem bit_test_correct:
  "(cpu_abs (BT_EwGwR i c) = arch_BT BX_READ_16BIT_REG (i_dst i) (unat (BX_READ_16BIT_REG (i_src i) c) mod 16) c) \<and>
   (cpu_abs (BTS_EwGwR i c) = arch_BIT BX_READ_16BIT_REG BX_WRITE_16BIT_REG set_bit (i_dst i) (unat (BX_READ_16BIT_REG (i_src i) c) mod 16) c) \<and>
   (cpu_abs (BTR_EwGwR i c) = arch_BIT BX_READ_16BIT_REG BX_WRITE_16BIT_REG unset_bit (i_dst i) (unat (BX_READ_16BIT_REG (i_src i) c) mod 16) c) \<and>
   (cpu_abs (BTC_EwGwR i c) = arch_BIT BX_READ_16BIT_REG BX_WRITE_16BIT_REG flip_bit (i_dst i) (unat (BX_READ_16BIT_REG (i_src i) c) mod 16) c) \<and>
   (cpu_abs (BT_EwIbR i c) = arch_BT BX_READ_16BIT_REG (i_dst i) (unat (i_Ib i) mod 16) c) \<and>
   (cpu_abs (BTS_EwIbR i c) = arch_BIT BX_READ_16BIT_REG BX_WRITE_16BIT_REG set_bit (i_dst i) (unat (i_Ib i) mod 16) c) \<and>
   (cpu_abs (BTR_EwIbR i c) = arch_BIT BX_READ_16BIT_REG BX_WRITE_16BIT_REG unset_bit (i_dst i) (unat (i_Ib i) mod 16) c) \<and>
   (cpu_abs (BTC_EwIbR i c) = arch_BIT BX_READ_16BIT_REG BX_WRITE_16BIT_REG flip_bit (i_dst i) (unat (i_Ib i) mod 16) c) \<and>
   (cpu_abs (BT_EdGdR i c) = arch_BT BX_READ_32BIT_REG (i_dst i) (unat (BX_READ_32BIT_REG (i_src i) c) mod 32) c) \<and>
   (cpu_abs (BTS_EdGdR i c) = arch_BIT BX_READ_32BIT_REG BX_WRITE_32BIT_REGZ set_bit (i_dst i) (unat (BX_READ_32BIT_REG (i_src i) c) mod 32) c) \<and>
   (cpu_abs (BTR_EdGdR i c) = arch_BIT BX_READ_32BIT_REG BX_WRITE_32BIT_REGZ unset_bit (i_dst i) (unat (BX_READ_32BIT_REG (i_src i) c) mod 32) c) \<and>
   (cpu_abs (BTC_EdGdR i c) = arch_BIT BX_READ_32BIT_REG BX_WRITE_32BIT_REGZ flip_bit (i_dst i) (unat (BX_READ_32BIT_REG (i_src i) c) mod 32) c) \<and>
   (cpu_abs (BT_EdIbR i c) = arch_BT BX_READ_32BIT_REG (i_dst i) (unat (i_Ib i) mod 32) c) \<and>
   (cpu_abs (BTS_EdIbR i c) = arch_BIT BX_READ_32BIT_REG BX_WRITE_32BIT_REGZ set_bit (i_dst i) (unat (i_Ib i) mod 32) c) \<and>
   (cpu_abs (BTR_EdIbR i c) = arch_BIT BX_READ_32BIT_REG BX_WRITE_32BIT_REGZ unset_bit (i_dst i) (unat (i_Ib i) mod 32) c) \<and>
   (cpu_abs (BTC_EdIbR i c) = arch_BIT BX_READ_32BIT_REG BX_WRITE_32BIT_REGZ flip_bit (i_dst i) (unat (i_Ib i) mod 32) c) \<and>
   (cpu_abs (BT_EqGqR i c) = arch_BT BX_READ_64BIT_REG (i_dst i) (unat (BX_READ_64BIT_REG (i_src i) c) mod 64) c) \<and>
   (cpu_abs (BTS_EqGqR i c) = arch_BIT BX_READ_64BIT_REG BX_WRITE_64BIT_REG set_bit (i_dst i) (unat (BX_READ_64BIT_REG (i_src i) c) mod 64) c) \<and>
   (cpu_abs (BTR_EqGqR i c) = arch_BIT BX_READ_64BIT_REG BX_WRITE_64BIT_REG unset_bit (i_dst i) (unat (BX_READ_64BIT_REG (i_src i) c) mod 64) c) \<and>
   (cpu_abs (BTC_EqGqR i c) = arch_BIT BX_READ_64BIT_REG BX_WRITE_64BIT_REG flip_bit (i_dst i) (unat (BX_READ_64BIT_REG (i_src i) c) mod 64) c) \<and>
   (cpu_abs (BT_EqIbR i c) = arch_BT BX_READ_64BIT_REG (i_dst i) (unat (i_Ib i) mod 64) c) \<and>
   (cpu_abs (BTS_EqIbR i c) = arch_BIT BX_READ_64BIT_REG BX_WRITE_64BIT_REG set_bit (i_dst i) (unat (i_Ib i) mod 64) c) \<and>
   (cpu_abs (BTR_EqIbR i c) = arch_BIT BX_READ_64BIT_REG BX_WRITE_64BIT_REG unset_bit (i_dst i) (unat (i_Ib i) mod 64) c) \<and>
   (cpu_abs (BTC_EqIbR i c) = arch_BIT BX_READ_64BIT_REG BX_WRITE_64BIT_REG flip_bit (i_dst i) (unat (i_Ib i) mod 64) c)"
  by (intro conjI; rule BT_16_sim BT_32_sim BT_64_sim)

text \<open>C34: The bit scans and counts at 16, 32 and 64 bits. BSF and BSR, whose loop always returns, write the position of the lowest and of the highest set bit and clear ZF, and with a zero source only set ZF; TZCNT and LZCNT write the number of clear bits below and above, with CF telling a zero source and ZF a zero result; POPCNT, which the code computes by adding fields of doubling width, writes the number of set bits and clears every flag but ZF.\<close>

theorem bit_scan_correct:
  "(cpu_abs (BSF_GwEwR i c) = arch_BSCAN BX_WRITE_16BIT_REG (i_dst i) (BX_READ_16BIT_REG (i_src i) c) (of_nat (ctz (BX_READ_16BIT_REG (i_src i) c))) c) \<and>
   (map_option cpu_abs (BSR_GwEwR i c) = Some (arch_BSCAN BX_WRITE_16BIT_REG (i_dst i) (BX_READ_16BIT_REG (i_src i) c) (of_nat (15 - clz (BX_READ_16BIT_REG (i_src i) c))) c)) \<and>
   (cpu_abs (TZCNT_GwEwR i c) = arch_COUNT BX_WRITE_16BIT_REG (i_dst i) (BX_READ_16BIT_REG (i_src i) c) (of_nat (ctz (BX_READ_16BIT_REG (i_src i) c))) c) \<and>
   (cpu_abs (LZCNT_GwEwR i c) = arch_COUNT BX_WRITE_16BIT_REG (i_dst i) (BX_READ_16BIT_REG (i_src i) c) (of_nat (clz (BX_READ_16BIT_REG (i_src i) c))) c) \<and>
   (cpu_abs (POPCNT_GwEwR i c) = arch_POPCNT BX_WRITE_16BIT_REG (i_dst i) (of_nat (pop (BX_READ_16BIT_REG (i_src i) c))) c) \<and>
   (cpu_abs (BSF_GdEdR i c) = arch_BSCAN BX_WRITE_32BIT_REGZ (i_dst i) (BX_READ_32BIT_REG (i_src i) c) (of_nat (ctz (BX_READ_32BIT_REG (i_src i) c))) c) \<and>
   (map_option cpu_abs (BSR_GdEdR i c) = Some (arch_BSCAN BX_WRITE_32BIT_REGZ (i_dst i) (BX_READ_32BIT_REG (i_src i) c) (of_nat (31 - clz (BX_READ_32BIT_REG (i_src i) c))) c)) \<and>
   (cpu_abs (TZCNT_GdEdR i c) = arch_COUNT BX_WRITE_32BIT_REGZ (i_dst i) (BX_READ_32BIT_REG (i_src i) c) (of_nat (ctz (BX_READ_32BIT_REG (i_src i) c))) c) \<and>
   (cpu_abs (LZCNT_GdEdR i c) = arch_COUNT BX_WRITE_32BIT_REGZ (i_dst i) (BX_READ_32BIT_REG (i_src i) c) (of_nat (clz (BX_READ_32BIT_REG (i_src i) c))) c) \<and>
   (cpu_abs (POPCNT_GdEdR i c) = arch_POPCNT BX_WRITE_32BIT_REGZ (i_dst i) (of_nat (pop (BX_READ_32BIT_REG (i_src i) c))) c) \<and>
   (cpu_abs (BSF_GqEqR i c) = arch_BSCAN BX_WRITE_64BIT_REG (i_dst i) (BX_READ_64BIT_REG (i_src i) c) (of_nat (ctz (BX_READ_64BIT_REG (i_src i) c))) c) \<and>
   (map_option cpu_abs (BSR_GqEqR i c) = Some (arch_BSCAN BX_WRITE_64BIT_REG (i_dst i) (BX_READ_64BIT_REG (i_src i) c) (of_nat (63 - clz (BX_READ_64BIT_REG (i_src i) c))) c)) \<and>
   (cpu_abs (TZCNT_GqEqR i c) = arch_COUNT BX_WRITE_64BIT_REG (i_dst i) (BX_READ_64BIT_REG (i_src i) c) (of_nat (ctz (BX_READ_64BIT_REG (i_src i) c))) c) \<and>
   (cpu_abs (LZCNT_GqEqR i c) = arch_COUNT BX_WRITE_64BIT_REG (i_dst i) (BX_READ_64BIT_REG (i_src i) c) (of_nat (clz (BX_READ_64BIT_REG (i_src i) c))) c) \<and>
   (cpu_abs (POPCNT_GqEqR i c) = arch_POPCNT BX_WRITE_32BIT_REGZ (i_dst i) (of_nat (pop (BX_READ_64BIT_REG (i_src i) c))) c)"
  by (intro conjI; rule BSCAN_16_sim BSCAN_32_sim BSCAN_64_sim COUNT_16_sim COUNT_32_sim COUNT_64_sim)

text \<open>BSWAP reverses the bytes of a 32-bit or 64-bit register, and applied twice restores them; the 32-bit form clears the upper half.\<close>

theorem bswap_correct:
  "map (\<lambda>k. byte k (BX_READ_32BIT_REG (i_dst i) (BSWAP_ERX i c))) [0..<4] = rev (map (\<lambda>k. byte k (BX_READ_32BIT_REG (i_dst i) c)) [0..<4]) \<and>
   map (\<lambda>k. byte k (BX_READ_64BIT_REG (i_dst i) (BSWAP_RRX i c))) [0..<8] = rev (map (\<lambda>k. byte k (BX_READ_64BIT_REG (i_dst i) c)) [0..<8]) \<and>
   BSWAP_ERX i (BSWAP_ERX i c) = BX_CLEAR_64BIT_HIGH (i_dst i) c \<and> BSWAP_RRX i (BSWAP_RRX i c) = c"
proof -
  have l: "map f [0..<4] = [f 0, f 1, f 2, f 3]" "map f [0..<8] = [f 0, f 1, f 2, f 3, f 4, f 5, f 6, f 7]" for f :: "nat \<Rightarrow> u8"
    by (simp_all add: upt_rec numeral_eq_Suc)
  have w: "BX_WRITE_32BIT_REGZ n u (BX_WRITE_32BIT_REGZ n v c) = BX_WRITE_32BIT_REGZ n u c"
    "BX_WRITE_64BIT_REG n p (BX_WRITE_64BIT_REG n q c) = BX_WRITE_64BIT_REG n p c"
    "BX_WRITE_64BIT_REG n (BX_READ_64BIT_REG n c) c = c" for n u v p q
    by (simp_all add: BX_WRITE_32BIT_REGZ_def BX_WRITE_64BIT_REG_def BX_READ_64BIT_REG_def set_gen_reg_def)
  show ?thesis
    by (simp add: l BSWAP_ERX_def BSWAP_RRX_def Let_def reg32.rd_wr reg64.rd_wr bswap32_byte bswap64_byte w clear_high_write(2))
qed

end
