(* ===== verification/Pc_Timers.thy ===== *)
theory Pc_Timers
  imports Bochs_Prelude
begin

text \<open>
  The timer framework of pc\_system.cc and pc\_system.h: the timer slots, the countdown to the next
  event, \<open>tick1\<close> and \<open>tickn\<close>, and the A20 gate and hold request the class also keeps. The
  callback of a timer (\<open>funct\<close> with its \<open>this_ptr\<close>) is a number; what it does to this component is
  the list of calls it makes through the public interface, a function \<open>cb\<close> of the state, and a
  parameter of the definitions. \<open>fired\<close> records which timer's callback was invoked at which tick.
  The identifying strings of the timers are left out. The conversions between microseconds and
  ticks go through the type \<open>double\<close>: they are parameters \<open>conv\<close>.
\<close>

section \<open>State\<close>

definition BX_MAX_TIMERS :: nat where "BX_MAX_TIMERS = 64"
definition NullTimerInterval :: u64 where "NullTimerInterval = 0xffffffff"
definition MinAllowableTimerPeriod :: u64 where "MinAllowableTimerPeriod = 1"
definition BX_MAX_BIT64S :: u64 where "BX_MAX_BIT64S = drop_bit 1 (- 1)"

record pc_timer =
  inUse :: bool
  period :: u64
  timeToFire :: u64
  active :: bool
  continuous :: bool
  funct :: "nat option"
  param :: u32

record bx_pc_system =
  timer :: "nat \<Rightarrow> pc_timer"
  numTimers :: nat
  triggeredTimer :: nat
  currCountdown :: u32
  currCountdownPeriod :: u32
  ticksTotal :: u64
  lastTimeUsec :: u64
  usecSinceLast :: u64
  HRQ :: bool
  enable_a20 :: bool
  a20_mask :: u64
  kill_bochs_request :: bool
  async_event :: bool
  tlb_flushes :: nat
  fired :: "(nat \<times> u64) list"
  pc_panics :: "string list"

definition upd_timer :: "nat \<Rightarrow> (pc_timer \<Rightarrow> pc_timer) \<Rightarrow> bx_pc_system \<Rightarrow> bx_pc_system" where
  "upd_timer i f s = s\<lparr>timer := (timer s)(i := f (timer s i))\<rparr>"

text \<open>The constructor and \<open>initialize\<close>; \<open>nullTimer\<close> is the callback 0.\<close>

definition construct :: "bx_pc_system \<Rightarrow> bx_pc_system" where
  "construct s = (upd_timer 0 (\<lambda>t. t\<lparr>inUse := True, period := NullTimerInterval, active := True,
      continuous := True, funct := Some 0\<rparr>) (s\<lparr>ticksTotal := 0\<rparr>))\<lparr>numTimers := 1\<rparr>"

definition pc_initialize :: "bx_pc_system \<Rightarrow> bx_pc_system" where
  "pc_initialize s = (upd_timer 0 (\<lambda>t. t\<lparr>timeToFire := NullTimerInterval\<rparr>) (s\<lparr>ticksTotal := 0\<rparr>))
     \<lparr>currCountdown := ucast NullTimerInterval, currCountdownPeriod := ucast NullTimerInterval,
      lastTimeUsec := 0, usecSinceLast := 0, triggeredTimer := 0, HRQ := False,
      kill_bochs_request := False\<rparr>"

section \<open>Time\<close>

definition time_ticks :: "bx_pc_system \<Rightarrow> u64" where
  "time_ticks s = ticksTotal s + ucast (currCountdownPeriod s - currCountdown s)"

text \<open>\<open>conv\<close> is the conversion of ticks to microseconds of \<open>time_usec\<close>.\<close>

definition time_usec :: "(u64 \<Rightarrow> u64) \<Rightarrow> bx_pc_system \<Rightarrow> u64" where
  "time_usec conv s = conv (time_ticks s)"

definition time_usec_sequential :: "(u64 \<Rightarrow> u64) \<Rightarrow> bx_pc_system \<Rightarrow> u64 \<times> bx_pc_system" where
  "time_usec_sequential conv s =
     (let this_time_usec = time_usec conv s;
          s = (if this_time_usec \<noteq> lastTimeUsec s
               then let diff_usec = this_time_usec - lastTimeUsec s;
                        s = s\<lparr>lastTimeUsec := this_time_usec\<rparr>
                    in if diff_usec \<ge> usecSinceLast s then s\<lparr>usecSinceLast := 0\<rparr>
                       else s\<lparr>usecSinceLast := usecSinceLast s - diff_usec\<rparr>
               else s);
          s = s\<lparr>usecSinceLast := usecSinceLast s + 1\<rparr>
      in (this_time_usec + usecSinceLast s, s))"

section \<open>Registering and activating timers\<close>

text \<open>A timer that fires before the current countdown shortens the countdown and its period.\<close>

definition skew :: "u64 \<Rightarrow> bx_pc_system \<Rightarrow> bx_pc_system" where
  "skew ticks s =
     (if ticks < ucast (currCountdown s)
      then s\<lparr>currCountdownPeriod := currCountdownPeriod s - (currCountdown s - ucast ticks),
             currCountdown := ucast ticks\<rparr>
      else s)"

text \<open>The search for a free slot, from \<open>i\<close> upwards; it ends at \<open>numTimers\<close>.\<close>

fun free_slot :: "nat \<Rightarrow> nat \<Rightarrow> (nat \<Rightarrow> pc_timer) \<Rightarrow> nat" where
  "free_slot 0 i tm = i"
| "free_slot (Suc n) i tm = (if \<not> inUse (tm i) then i else free_slot n (i + 1) tm)"

definition register_timer_ticks ::
    "nat option \<Rightarrow> u64 \<Rightarrow> bool \<Rightarrow> bool \<Rightarrow> bx_pc_system \<Rightarrow> int \<times> bx_pc_system" where
  "register_timer_ticks f ticks cont act s =
     (let ticks = (if ticks < MinAllowableTimerPeriod then MinAllowableTimerPeriod else ticks);
          i = free_slot (numTimers s - 1) 1 (timer s)
      in if numTimers s \<ge> BX_MAX_TIMERS
         then (- 1, s\<lparr>pc_panics := pc_panics s @ [''register_timer: too many registered timers'']\<rparr>)
         else let s' = upd_timer i (\<lambda>t. \<lparr>inUse = True, period = ticks,
                       timeToFire = (ticksTotal s + ucast (currCountdownPeriod s - currCountdown s)) + ticks,
                       active = act, continuous = cont, funct = f, param = 0\<rparr>) s;
                  s' = (if act then skew ticks s' else s');
                  s' = (if i = numTimers s' then s'\<lparr>numTimers := numTimers s' + 1\<rparr> else s')
              in (int i, s'))"

definition register_timer ::
    "(u32 \<Rightarrow> u64) \<Rightarrow> nat option \<Rightarrow> u32 \<Rightarrow> bool \<Rightarrow> bool \<Rightarrow> bx_pc_system \<Rightarrow> int \<times> bx_pc_system" where
  "register_timer conv f useconds cont act s = register_timer_ticks f (conv useconds) cont act s"

definition activate_timer_ticks :: "nat \<Rightarrow> u64 \<Rightarrow> bool \<Rightarrow> bx_pc_system \<Rightarrow> bx_pc_system" where
  "activate_timer_ticks i ticks cont s =
     (let ticks = (if ticks < MinAllowableTimerPeriod then MinAllowableTimerPeriod else ticks)
      in skew ticks (upd_timer i (\<lambda>t. t\<lparr>period := ticks,
            timeToFire := (ticksTotal s + ucast (currCountdownPeriod s - currCountdown s)) + ticks,
            active := True, continuous := cont\<rparr>) s))"

text \<open>
  \<open>activate_timer\<close> and \<open>activate_timer_nsec\<close> differ in the type of their time and the conversion:
  \<open>conv\<close> takes it to ticks.
\<close>

definition activate_timer_conv ::
    "('a::len word \<Rightarrow> u64) \<Rightarrow> nat \<Rightarrow> 'a word \<Rightarrow> bool \<Rightarrow> bx_pc_system \<Rightarrow> bx_pc_system" where
  "activate_timer_conv conv i time cont s =
     (if time = 0 then activate_timer_ticks i (period (timer s i)) cont s
      else let ticks = conv time;
               ticks = (if ticks < MinAllowableTimerPeriod then MinAllowableTimerPeriod else ticks);
               s = upd_timer i (\<lambda>t. t\<lparr>period := ticks\<rparr>) s
           in activate_timer_ticks i ticks cont s)"

definition activate_timer :: "(u32 \<Rightarrow> u64) \<Rightarrow> nat \<Rightarrow> u32 \<Rightarrow> bool \<Rightarrow> bx_pc_system \<Rightarrow> bx_pc_system" where
  "activate_timer = activate_timer_conv"

definition activate_timer_nsec :: "(u64 \<Rightarrow> u64) \<Rightarrow> nat \<Rightarrow> u64 \<Rightarrow> bool \<Rightarrow> bx_pc_system \<Rightarrow> bx_pc_system" where
  "activate_timer_nsec = activate_timer_conv"

definition deactivate_timer :: "nat \<Rightarrow> bx_pc_system \<Rightarrow> bx_pc_system" where
  "deactivate_timer i = upd_timer i (\<lambda>t. t\<lparr>active := False\<rparr>)"

definition unregisterTimer :: "nat \<Rightarrow> bx_pc_system \<Rightarrow> bool \<times> bx_pc_system" where
  "unregisterTimer i s =
     (if active (timer s i)
      then (False, s\<lparr>pc_panics := pc_panics s @ [''unregisterTimer: timer is still active'']\<rparr>)
      else let s = upd_timer i (\<lambda>t. t\<lparr>inUse := False, period := BX_MAX_BIT64S,
                     timeToFire := BX_MAX_BIT64S, continuous := False, funct := None\<rparr>) s;
               s = (if i = numTimers s - 1 then s\<lparr>numTimers := numTimers s - 1\<rparr> else s)
           in (True, s))"

definition setTimerParam :: "nat \<Rightarrow> u32 \<Rightarrow> bx_pc_system \<Rightarrow> bx_pc_system" where
  "setTimerParam i p = upd_timer i (\<lambda>t. t\<lparr>param := p\<rparr>)"

section \<open>The countdown event\<close>

text \<open>The calls a callback makes.\<close>

datatype timer_call =
    Activate nat u64 bool
  | Deactivate nat
  | Register "nat option" u64 bool bool
  | Unregister nat
  | SetParam nat u32

fun run_call :: "timer_call \<Rightarrow> bx_pc_system \<Rightarrow> bx_pc_system" where
  "run_call (Activate i ticks cont) s = activate_timer_ticks i ticks cont s"
| "run_call (Deactivate i) s = deactivate_timer i s"
| "run_call (Register f ticks cont act) s = snd (register_timer_ticks f ticks cont act s)"
| "run_call (Unregister i) s = snd (unregisterTimer i s)"
| "run_call (SetParam i p) s = setTimerParam i p s"

type_synonym callbacks = "nat \<Rightarrow> bx_pc_system \<Rightarrow> timer_call list"

text \<open>The locals of \<open>countdownEvent\<close> during the sweep over the slots.\<close>

record sweep =
  sw_timer :: "nat \<Rightarrow> pc_timer"
  sw_first :: nat
  sw_last :: nat
  sw_min :: u64
  sw_triggered :: "nat \<Rightarrow> bool"

definition service_timer :: "u64 \<Rightarrow> nat \<Rightarrow> sweep \<Rightarrow> sweep" where
  "service_timer now i w =
     (let w = w\<lparr>sw_triggered := (sw_triggered w)(i := False)\<rparr>;
          t = sw_timer w i
      in if active t then
           if now = timeToFire t then
             let w = w\<lparr>sw_triggered := (sw_triggered w)(i := True)\<rparr>;
                 w = (if \<not> continuous t then w\<lparr>sw_timer := (sw_timer w)(i := t\<lparr>active := False\<rparr>)\<rparr>
                      else let ttf = timeToFire t + period t;
                               w = w\<lparr>sw_timer := (sw_timer w)(i := t\<lparr>timeToFire := ttf\<rparr>)\<rparr>
                           in if ttf < sw_min w then w\<lparr>sw_min := ttf\<rparr> else w)
             in (if i < sw_first w then w\<lparr>sw_first := i\<rparr> else w)\<lparr>sw_last := i\<rparr>
           else if timeToFire t < sw_min w then w\<lparr>sw_min := timeToFire t\<rparr> else w
         else w)"

definition fire :: "callbacks \<Rightarrow> (nat \<Rightarrow> bool) \<Rightarrow> nat \<Rightarrow> bx_pc_system \<Rightarrow> bx_pc_system" where
  "fire cb triggered i s =
     (if triggered i
      then case funct (timer s i) of
             Some f \<Rightarrow> let s = s\<lparr>triggeredTimer := i, fired := fired s @ [(i, ticksTotal s)]\<rparr>;
                           s = fold run_call (cb f s) s
                       in s\<lparr>triggeredTimer := 0\<rparr>
           | None \<Rightarrow> s
      else s)"

definition sweep_timers :: "bx_pc_system \<Rightarrow> sweep" where
  "sweep_timers s =
     (let now = ticksTotal s + ucast (currCountdownPeriod s)
      in fold (service_timer now) [0..<numTimers s]
           \<lparr>sw_timer = timer s, sw_first = numTimers s, sw_last = 0, sw_min = - 1,
            sw_triggered = (\<lambda>_. False)\<rparr>)"

definition countdownEvent :: "callbacks \<Rightarrow> bx_pc_system \<Rightarrow> bx_pc_system" where
  "countdownEvent cb s =
     (let now = ticksTotal s + ucast (currCountdownPeriod s);
          w = sweep_timers s;
          c = ucast (sw_min w - now) :: u32;
          s = s\<lparr>ticksTotal := now, timer := sw_timer w, currCountdown := c, currCountdownPeriod := c\<rparr>
      in fold (fire cb (sw_triggered w)) [sw_first w..<sw_last w + 1] s)"

section \<open>The clock\<close>

definition tick1 :: "callbacks \<Rightarrow> bx_pc_system \<Rightarrow> bx_pc_system" where
  "tick1 cb s =
     (let s = s\<lparr>currCountdown := currCountdown s - 1\<rparr>
      in if currCountdown s = 0 then countdownEvent cb s else s)"

text \<open>The loop of \<open>tickn\<close> ends only if every event sets a positive countdown: not returning is \<open>None\<close>.\<close>

partial_function (option) tickn :: "callbacks \<Rightarrow> u32 \<Rightarrow> bx_pc_system \<Rightarrow> bx_pc_system option" where
  "tickn cb n s =
     (if n \<ge> currCountdown s
      then tickn cb (n - currCountdown s) (countdownEvent cb (s\<lparr>currCountdown := 0\<rparr>))
      else Some (s\<lparr>currCountdown := currCountdown s - n\<rparr>))"

section \<open>The hold request and the A20 gate\<close>

definition set_HRQ :: "bool \<Rightarrow> bx_pc_system \<Rightarrow> bx_pc_system" where
  "set_HRQ val s = (let s = s\<lparr>HRQ := val\<rparr> in if val then s\<lparr>async_event := True\<rparr> else s)"

definition MemoryMappingChanged :: "bx_pc_system \<Rightarrow> bx_pc_system" where
  "MemoryMappingChanged s = s\<lparr>tlb_flushes := tlb_flushes s + 1\<rparr>"

definition set_enable_a20 :: "bool \<Rightarrow> bx_pc_system \<Rightarrow> bx_pc_system" where
  "set_enable_a20 val s =
     (let old_enable_a20 = enable_a20 s;
          s = (if val then s\<lparr>enable_a20 := True, a20_mask := 0xffffffffffffffff\<rparr>
               else s\<lparr>enable_a20 := False, a20_mask := 0xffffffffffefffff\<rparr>)
      in if old_enable_a20 \<noteq> enable_a20 s then MemoryMappingChanged s else s)"

definition get_enable_a20 :: "bx_pc_system \<Rightarrow> bool" where
  "get_enable_a20 s = enable_a20 s"

section \<open>The invariant\<close>

text \<open>The present, in ticks, as a number.\<close>

definition now :: "bx_pc_system \<Rightarrow> int" where
  "now s = uint (ticksTotal s) + uint (currCountdownPeriod s) - uint (currCountdown s)"

text \<open>
  An active timer fires no earlier than the end of the current countdown and at most \<open>2 ^ 62\<close>
  ticks from now, and its period is between one tick and that bound.
\<close>

definition timer_ok :: "bx_pc_system \<Rightarrow> pc_timer \<Rightarrow> bool" where
  "timer_ok s t \<longleftrightarrow> 1 \<le> uint (period t) \<and> uint (period t) \<le> 2 ^ 62 \<and>
     uint (ticksTotal s) + uint (currCountdownPeriod s) \<le> uint (timeToFire t) \<and>
     uint (timeToFire t) \<le> now s + 2 ^ 62"

definition slots_ok :: "nat \<Rightarrow> bx_pc_system \<Rightarrow> bool" where
  "slots_ok n s \<longleftrightarrow> (\<forall>i<n. active (timer s i) \<longrightarrow> timer_ok s (timer s i))"

definition null_ok :: "bx_pc_system \<Rightarrow> bool" where
  "null_ok s \<longleftrightarrow> active (timer s 0) \<and> continuous (timer s 0) \<and> period (timer s 0) = NullTimerInterval
     \<and> uint (timeToFire (timer s 0)) \<le> now s + 0xffffffff"

definition countdown_ok :: "bx_pc_system \<Rightarrow> bool" where
  "countdown_ok s \<longleftrightarrow> 1 \<le> uint (currCountdown s) \<and> uint (currCountdown s) \<le> uint (currCountdownPeriod s)"

definition pc_inv :: "bx_pc_system \<Rightarrow> bool" where
  "pc_inv s \<longleftrightarrow> 1 \<le> numTimers s \<and> numTimers s \<le> BX_MAX_TIMERS \<and> countdown_ok s \<and> null_ok s
     \<and> slots_ok (numTimers s) s"

subsection \<open>Arithmetic without overflow\<close>

lemma uint_u32_up [simp]: "uint (ucast (w :: u32) :: u64) = uint w" by (rule uint_ucast_up) simp

lemma uint_u64_down: "uint (w :: u64) < 2 ^ 32 \<Longrightarrow> uint (ucast w :: u32) = uint w"
  by (simp add: unsigned_ucast_eq take_bit_int_eq_self)

lemma u64_bounds: "0 \<le> uint (w :: u64)" "uint (w :: u64) < 2 ^ 64" "0 \<le> uint (v :: u32)" "uint (v :: u32) < 2 ^ 32"
  using unsigned_less [of w] unsigned_less [of v] by simp_all

lemma time_ticks_now:
  assumes "uint (currCountdown s) \<le> uint (currCountdownPeriod s)" "now s < 2 ^ 64"
  shows "uint (time_ticks s) = now s"
  using assms by (simp add: time_ticks_def now_def uint_plus_exact uint_minus_exact)

subsection \<open>Shortening the countdown\<close>

lemma skew_simps [simp]:
  "timer (skew t s) = timer s" "numTimers (skew t s) = numTimers s" "ticksTotal (skew t s) = ticksTotal s"
  "fired (skew t s) = fired s"
  by (simp_all add: skew_def)

lemma skew_parts:
  assumes "1 \<le> uint t" "countdown_ok s"
  shows "countdown_ok (skew t s)" "now (skew t s) = now s"
    "uint (currCountdownPeriod (skew t s)) \<le> uint (currCountdownPeriod s)"
    "uint (ticksTotal s) + uint (currCountdownPeriod (skew t s)) \<le> now s + uint t"
proof -
  have "countdown_ok (skew t s) \<and> now (skew t s) = now s \<and>
      uint (currCountdownPeriod (skew t s)) \<le> uint (currCountdownPeriod s) \<and>
      uint (ticksTotal s) + uint (currCountdownPeriod (skew t s)) \<le> now s + uint t"
  proof (cases "t < ucast (currCountdown s)")
    case True
    then have lt: "uint t < uint (currCountdown s)" by (simp add: word_less_def)
    then have c: "uint (ucast t :: u32) = uint t"
      using u64_bounds(4) [of "currCountdown s"] by (intro uint_u64_down) linarith
    show ?thesis
      using assms lt True by (simp add: skew_def countdown_ok_def now_def uint_minus_exact c)
  next
    case False
    then have "uint (currCountdown s) \<le> uint t" by (simp add: word_less_def)
    then show ?thesis using assms False by (simp add: skew_def now_def)
  qed
  then show "countdown_ok (skew t s)" "now (skew t s) = now s"
    "uint (currCountdownPeriod (skew t s)) \<le> uint (currCountdownPeriod s)"
    "uint (ticksTotal s) + uint (currCountdownPeriod (skew t s)) \<le> now s + uint t" by blast+
qed

lemma timer_ok_later:
  assumes "timer_ok s t" "ticksTotal s' = ticksTotal s" "now s' = now s"
    "uint (currCountdownPeriod s') \<le> uint (currCountdownPeriod s)"
  shows "timer_ok s' t"
  using assms unfolding timer_ok_def by simp

text \<open>A slot other than the null timer is written with a deadline \<open>t\<close> ticks from now.\<close>

lemma schedule_inv:
  assumes ok: "countdown_ok s" "null_ok s" "slots_ok n s" and i: "0 < i" "i < m" "m \<le> Suc n"  "m = Suc n \<longrightarrow> i = n"
    and t: "1 \<le> uint t" "uint t \<le> 2 ^ 62" and early: "now s < 2 ^ 63"
    and r: "period r = t" "timeToFire r = time_ticks s + t"
  defines "s' \<equiv> skew t (s\<lparr>timer := (timer s)(i := r)\<rparr>)"
  shows "countdown_ok s'" "null_ok s'" "slots_ok m s'" "now s' = now s"
proof -
  let ?u = "s\<lparr>timer := (timer s)(i := r)\<rparr>"
  have u: "countdown_ok ?u" "now ?u = now s" "ticksTotal ?u = ticksTotal s" using ok(1) by (simp_all add: countdown_ok_def now_def)
  note sk = skew_parts [OF t(1) u(1), folded s'_def, unfolded u]
  show "countdown_ok s'" "now s' = now s" by (rule sk)+
  show "null_ok s'" using ok(2) i(1) sk(2) by (simp add: null_ok_def s'_def)
  have time: "uint (time_ticks s) = now s"
    using ok(1) early by (intro time_ticks_now) (simp_all add: countdown_ok_def)
  have ttf: "uint (timeToFire r) = now s + uint t"
    unfolding r using t early time by (simp add: uint_plus_exact)
  show "slots_ok m s'"
    unfolding slots_ok_def
  proof (intro allI impI)
    fix j assume j: "j < m" "active (timer s' j)"
    show "timer_ok s' (timer s' j)"
    proof (cases "j = i")
      case True
      then show ?thesis
        using t sk(4) by (simp add: s'_def timer_ok_def ttf r(1) sk(2) [unfolded s'_def])
    next
      case False
      then have "j < n" using j(1) i by linarith
      then have "timer_ok s (timer s j)" using ok(3) j(2) False by (simp add: slots_ok_def s'_def)
      then have "timer_ok s' (timer s j)"
        by (rule timer_ok_later) (use sk in \<open>simp_all add: s'_def\<close>)
      then show ?thesis using False by (simp add: s'_def)
    qed
  qed
qed

lemma min_period: "1 \<le> uint (if (t :: u64) < 1 then 1 else t)"
  using u64_bounds(1) [of t] by (auto simp: word_less_def)

lemma activate_timer_ticks_inv:
  assumes inv: "pc_inv s" and i: "0 < i" "i < numTimers s" and t: "uint t \<le> 2 ^ 62" and early: "now s < 2 ^ 63"
  shows "pc_inv (activate_timer_ticks i t cont s)" "now (activate_timer_ticks i t cont s) = now s"
proof -
  let ?t = "if t < 1 then 1 else t"
  have "1 \<le> uint ?t" "uint ?t \<le> 2 ^ 62" using min_period t by simp_all
  note S = schedule_inv [OF _ _ _ i(1) i(2) _ _ this early, of "numTimers s" "(timer s i)\<lparr>period := ?t,
      timeToFire := time_ticks s + ?t, active := True, continuous := cont\<rparr>", simplified]
  have e: "activate_timer_ticks i t cont s = skew ?t (s\<lparr>timer := (timer s)(i := (timer s i)\<lparr>period := ?t,
      timeToFire := time_ticks s + ?t, active := True, continuous := cont\<rparr>)\<rparr>)"
    by (simp add: activate_timer_ticks_def Let_def upd_timer_def MinAllowableTimerPeriod_def time_ticks_def)
  show "pc_inv (activate_timer_ticks i t cont s)" "now (activate_timer_ticks i t cont s) = now s"
    using S inv unfolding e pc_inv_def by auto
qed


text \<open>Operations that leave the clock alone and schedule nothing.\<close>

lemma pc_inv_frame:
  assumes inv: "pc_inv s" and clock: "ticksTotal s' = ticksTotal s" "currCountdown s' = currCountdown s"
      "currCountdownPeriod s' = currCountdownPeriod s"
    and n: "1 \<le> numTimers s'" "numTimers s' \<le> BX_MAX_TIMERS"
    and zero: "active (timer s' 0)" "continuous (timer s' 0) = continuous (timer s 0)"
      "period (timer s' 0) = period (timer s 0)" "timeToFire (timer s' 0) = timeToFire (timer s 0)"
    and slots: "\<And>i. i < numTimers s' \<Longrightarrow> active (timer s' i) \<Longrightarrow> i < numTimers s \<and> active (timer s i)
      \<and> period (timer s' i) = period (timer s i) \<and> timeToFire (timer s' i) = timeToFire (timer s i)"
  shows "pc_inv s' \<and> now s' = now s"
proof -
  have now: "now s' = now s" by (simp add: now_def clock)
  have "timer_ok s' (timer s' i)" if "i < numTimers s'" "active (timer s' i)" for i
  proof -
    have "timer_ok s (timer s i)" using inv slots [OF that] by (simp add: pc_inv_def slots_ok_def)
    then show ?thesis using slots [OF that] by (simp add: timer_ok_def now clock)
  qed
  then show ?thesis using inv n zero
    by (simp add: pc_inv_def slots_ok_def null_ok_def countdown_ok_def now clock)
qed

lemma free_slot_range: "i \<le> free_slot k i tm \<and> free_slot k i tm \<le> i + k"
proof (induction k arbitrary: i)
  case (Suc k)
  show ?case using Suc.IH [of "i + 1"] by auto
qed simp

lemma register_timer_ticks_inv:
  assumes inv: "pc_inv s" and t: "uint t \<le> 2 ^ 62" and early: "now s < 2 ^ 63"
  shows "pc_inv (snd (register_timer_ticks f t cont act s))" "now (snd (register_timer_ticks f t cont act s)) = now s"
proof -
  have "pc_inv (snd (register_timer_ticks f t cont act s)) \<and> now (snd (register_timer_ticks f t cont act s)) = now s"
  proof (cases "BX_MAX_TIMERS \<le> numTimers s")
    case True
    then show ?thesis using inv
      by (intro pc_inv_frame [OF inv]) (simp_all add: register_timer_ticks_def pc_inv_def null_ok_def)
  next
    case False
    let ?t = "if t < 1 then 1 else t"
    define i where "i = free_slot (numTimers s - 1) 1 (timer s)"
    define r where "r = \<lparr>inUse = True, period = ?t, timeToFire = time_ticks s + ?t, active = act,
        continuous = cont, funct = f, param = 0\<rparr>"
    define m where "m = (if i = numTimers s then Suc (numTimers s) else numTimers s)"
    have n: "1 \<le> numTimers s" "numTimers s < BX_MAX_TIMERS" using inv False by (simp_all add: pc_inv_def)
    then have i: "0 < i" "i < m" "m \<le> Suc (numTimers s)" "m = Suc (numTimers s) \<longrightarrow> i = numTimers s"
      "m \<le> BX_MAX_TIMERS" "1 \<le> m"
      using free_slot_range [of 1 "numTimers s - 1" "timer s"] by (auto simp: i_def m_def)
    have t': "1 \<le> uint ?t" "uint ?t \<le> 2 ^ 62" using min_period t by simp_all
    define u where "u = s\<lparr>timer := (timer s)(i := r)\<rparr>"
    have e: "snd (register_timer_ticks f t cont act s) = (if act then skew ?t u else u)\<lparr>numTimers := m\<rparr>"
      unfolding register_timer_ticks_def Let_def upd_timer_def MinAllowableTimerPeriod_def
        i_def [symmetric] time_ticks_def [symmetric] r_def [symmetric] u_def [symmetric]
      using False by (simp add: m_def u_def)
    have ok: "countdown_ok s" "null_ok s" "slots_ok (numTimers s) s" using inv by (simp_all add: pc_inv_def)
    show ?thesis
    proof (cases act)
      case True
      note S = schedule_inv [OF ok i(1-4) t' early, of r, folded u_def]
      have n: "now (x\<lparr>numTimers := m\<rparr>) = now x" "timer_ok (x\<lparr>numTimers := m\<rparr>) = timer_ok x" for x
        by (simp_all add: now_def timer_ok_def fun_eq_iff)
      have p: "period r = ?t" "timeToFire r = time_ticks s + ?t" by (simp_all add: r_def)
      have "pc_inv ((skew ?t u)\<lparr>numTimers := m\<rparr>)" "now ((skew ?t u)\<lparr>numTimers := m\<rparr>) = now s"
        using S(1-3) [OF p] i(5,6) S(4) [OF p]
        by (simp_all only: pc_inv_def countdown_ok_def null_ok_def slots_ok_def n) simp_all
      then show ?thesis unfolding e using True by simp
    next
      case False
      have off: "\<not> active (timer u i)" using False by (simp add: u_def r_def)
      have other: "timer u j = timer s j" if "j \<noteq> i" for j using that by (simp add: u_def)
      have in_range: "j < numTimers s" if "j < m" "j \<noteq> i" for j using that i(3,4) by linarith
      have "pc_inv (u\<lparr>numTimers := m\<rparr>) \<and> now (u\<lparr>numTimers := m\<rparr>) = now s"
      proof (rule pc_inv_frame [OF inv])
        show "active (timer (u\<lparr>numTimers := m\<rparr>) 0)" using i(1) inv by (simp add: other pc_inv_def null_ok_def)
      next
        fix j assume j: "j < numTimers (u\<lparr>numTimers := m\<rparr>)" "active (timer (u\<lparr>numTimers := m\<rparr>) j)"
        then have ne: "j \<noteq> i" using off by auto
        then show "j < numTimers s \<and> active (timer s j) \<and> period (timer (u\<lparr>numTimers := m\<rparr>) j) = period (timer s j)
            \<and> timeToFire (timer (u\<lparr>numTimers := m\<rparr>) j) = timeToFire (timer s j)"
          using j in_range by (simp add: other)
      qed (use i in \<open>simp_all add: other\<close>, simp_all add: u_def)
      then show ?thesis unfolding e using False by simp
    qed
  qed
  then show "pc_inv (snd (register_timer_ticks f t cont act s))" "now (snd (register_timer_ticks f t cont act s)) = now s"
    by blast+
qed

lemma deactivate_timer_inv:
  assumes "pc_inv s" "0 < i"
  shows "pc_inv (deactivate_timer i s) \<and> now (deactivate_timer i s) = now s"
  using assms by (intro pc_inv_frame) (auto simp: deactivate_timer_def upd_timer_def pc_inv_def null_ok_def split: if_splits)

lemma setTimerParam_inv:
  assumes "pc_inv s"
  shows "pc_inv (setTimerParam i p s) \<and> now (setTimerParam i p s) = now s"
  using assms by (intro pc_inv_frame) (auto simp: setTimerParam_def upd_timer_def pc_inv_def null_ok_def split: if_splits)

lemma unregisterTimer_inv:
  assumes "pc_inv s" "0 < i" "i < numTimers s"
  shows "pc_inv (snd (unregisterTimer i s)) \<and> now (snd (unregisterTimer i s)) = now s"
proof (cases "active (timer s i)")
  case True
  then show ?thesis using assms
    by (intro pc_inv_frame) (auto simp: unregisterTimer_def pc_inv_def null_ok_def)
next
  case False
  then show ?thesis using assms
    by (intro pc_inv_frame [OF assms(1)])
      (auto simp: unregisterTimer_def Let_def upd_timer_def pc_inv_def null_ok_def split: if_splits)
qed

text \<open>What the interface asks of a caller, and a callback that keeps to it.\<close>

fun call_ok :: "timer_call \<Rightarrow> bx_pc_system \<Rightarrow> bool" where
  "call_ok (Activate i t _) s \<longleftrightarrow> 0 < i \<and> i < numTimers s \<and> uint t \<le> 2 ^ 62"
| "call_ok (Deactivate i) s \<longleftrightarrow> 0 < i"
| "call_ok (Register _ t _ _) s \<longleftrightarrow> uint t \<le> 2 ^ 62"
| "call_ok (Unregister i) s \<longleftrightarrow> 0 < i \<and> i < numTimers s"
| "call_ok (SetParam _ _) s \<longleftrightarrow> True"

fun calls_ok :: "timer_call list \<Rightarrow> bx_pc_system \<Rightarrow> bool" where
  "calls_ok [] s \<longleftrightarrow> True"
| "calls_ok (c # cs) s \<longleftrightarrow> call_ok c s \<and> calls_ok cs (run_call c s)"

definition cb_ok :: "callbacks \<Rightarrow> bool" where
  "cb_ok cb \<longleftrightarrow> (\<forall>f s. pc_inv s \<longrightarrow> calls_ok (cb f s) s)"

lemma run_call_inv:
  assumes "pc_inv s" "now s < 2 ^ 63" "call_ok c s"
  shows "pc_inv (run_call c s) \<and> now (run_call c s) = now s"
  using assms by (cases c) (auto simp: activate_timer_ticks_inv deactivate_timer_inv register_timer_ticks_inv
      unregisterTimer_inv setTimerParam_inv)

lemma run_calls_inv:
  assumes "pc_inv s" "now s < 2 ^ 63" "calls_ok cs s"
  shows "pc_inv (fold run_call cs s) \<and> now (fold run_call cs s) = now s"
  using assms
proof (induction cs arbitrary: s)
  case (Cons c cs)
  then show ?case using run_call_inv [of s c] by simp
qed simp

section \<open>What the sweep over the slots does\<close>

definition served :: "u64 \<Rightarrow> pc_timer \<Rightarrow> pc_timer" where
  "served v t = (if active t \<and> timeToFire t = v
     then if continuous t then t\<lparr>timeToFire := v + period t\<rparr> else t\<lparr>active := False\<rparr> else t)"

definition due_at :: "u64 \<Rightarrow> pc_timer \<Rightarrow> bool" where
  "due_at v t \<longleftrightarrow> active t \<and> timeToFire t = v"

definition swept :: "bx_pc_system \<Rightarrow> u64 \<Rightarrow> nat \<Rightarrow> sweep \<Rightarrow> bool" where
  "swept s v k w \<longleftrightarrow>
     sw_timer w = (\<lambda>i. if i < k then served v (timer s i) else timer s i) \<and>
     sw_triggered w = (\<lambda>i. i < k \<and> due_at v (timer s i)) \<and>
     (\<forall>i<k. active (served v (timer s i)) \<longrightarrow> sw_min w \<le> timeToFire (served v (timer s i))) \<and>
     (sw_min w = - 1 \<or> (\<exists>i<k. active (served v (timer s i)) \<and> sw_min w = timeToFire (served v (timer s i)))) \<and>
     (\<forall>i<k. due_at v (timer s i) \<longrightarrow> sw_first w \<le> i \<and> i \<le> sw_last w) \<and>
     (sw_last w = 0 \<or> sw_last w < k)"


lemma swept_split:
  "(\<forall>i<Suc k. P i) \<longleftrightarrow> P k \<and> (\<forall>i<k. P i)" "(\<exists>i<Suc k. P i) \<longleftrightarrow> P k \<or> (\<exists>i<k. P i)"
  by (auto simp: less_Suc_eq)

lemma swept_fun:
  "(\<lambda>i. if i < Suc k then f i else g i) = (\<lambda>i. if i < k then f i else g i)(k := f k)"
  "(\<lambda>i. i < Suc k \<and> Q i) = (\<lambda>i. i < k \<and> Q i)(k := Q k)"
  by (auto simp: fun_eq_iff less_Suc_eq)

lemma service_timer_swept:
  assumes w: "swept s v k w"
  shows "swept s v (Suc k) (service_timer v k w)"
proof -
  let ?t = "timer s k"
  have W: "sw_timer w = (\<lambda>i. if i < k then served v (timer s i) else timer s i)"
    "sw_triggered w = (\<lambda>i. i < k \<and> due_at v (timer s i))"
    "\<forall>i<k. active (served v (timer s i)) \<longrightarrow> sw_min w \<le> timeToFire (served v (timer s i))"
    "sw_min w = - 1 \<or> (\<exists>i<k. active (served v (timer s i)) \<and> sw_min w = timeToFire (served v (timer s i)))"
    "\<forall>i<k. due_at v (timer s i) \<longrightarrow> sw_first w \<le> i \<and> i \<le> sw_last w"
    "sw_last w = 0 \<or> sw_last w < k" using w by (simp_all add: swept_def)
  have t: "sw_timer w k = ?t" by (simp add: W(1))
  have le: "a < m \<Longrightarrow> m \<le> b \<Longrightarrow> a \<le> b" for a m b :: u64 by simp
  consider (idle) "\<not> active ?t" | (later) "active ?t" "timeToFire ?t \<noteq> v"
    | (once) "active ?t" "timeToFire ?t = v" "\<not> continuous ?t" | (again) "active ?t" "timeToFire ?t = v" "continuous ?t"
    by blast
  then show ?thesis
  proof cases
    case idle
    then have "service_timer v k w = w" using W(2) by (simp add: service_timer_def Let_def t fun_upd_idem)
    moreover have "served v ?t = ?t" "\<not> due_at v ?t" using idle by (simp_all add: served_def due_at_def)
    ultimately show ?thesis using W idle
      by (simp add: swept_def swept_split swept_fun fun_upd_idem) (auto simp: less_Suc_eq)
  next
    case later
    then have "served v ?t = ?t" "\<not> due_at v ?t" by (simp_all add: served_def due_at_def)
    then show ?thesis using W later
      by (simp add: service_timer_def Let_def t swept_def swept_split swept_fun fun_upd_idem)
        (auto simp: less_Suc_eq not_less intro: order.trans [OF less_imp_le])
  next
    case once
    then have "served v ?t = ?t\<lparr>active := False\<rparr>" "due_at v ?t" by (simp_all add: served_def due_at_def)
    then show ?thesis using W once
      by (simp add: service_timer_def Let_def t swept_def swept_split swept_fun fun_upd_idem)
        (auto simp: less_Suc_eq not_less)
  next
    case again
    then have "served v ?t = ?t\<lparr>timeToFire := v + period ?t\<rparr>" "due_at v ?t" by (simp_all add: served_def due_at_def)
    then show ?thesis using W again
      by (simp add: service_timer_def Let_def t swept_def swept_split swept_fun fun_upd_idem)
        (auto simp: less_Suc_eq not_less intro: order.trans [OF less_imp_le])
  qed
qed


definition event_time :: "bx_pc_system \<Rightarrow> u64" where
  "event_time s = ticksTotal s + ucast (currCountdownPeriod s)"

lemma sweep_timers_swept: "swept s (event_time s) (numTimers s) (sweep_timers s)"
proof -
  have "swept s v k (fold (service_timer v) [0..<k] \<lparr>sw_timer = timer s, sw_first = n, sw_last = 0, sw_min = - 1,
      sw_triggered = (\<lambda>_. False)\<rparr>)" for v k n
  proof (induction k)
    case 0
    show ?case by (simp add: swept_def)
  next
    case (Suc k)
    then show ?case by (simp add: service_timer_swept)
  qed
  then show ?thesis by (simp add: sweep_timers_def event_time_def Let_def)
qed

text \<open>The timers whose callbacks the event invokes, in their order.\<close>

definition due :: "bx_pc_system \<Rightarrow> nat list" where
  "due s = filter (\<lambda>i. due_at (event_time s) (timer s i)) [0..<numTimers s]"

lemma filter_upt_window:
  assumes "\<And>i. P i \<Longrightarrow> i < n" "\<And>i. P i \<Longrightarrow> a \<le> i \<and> i < b" "b \<le> n \<or> (\<forall>i. \<not> P i)"
  shows "filter P [a..<b] = filter P [0..<n]"
proof (cases "\<forall>i. \<not> P i")
  case True
  then show ?thesis by simp
next
  case False
  then obtain i where "P i" by blast
  then have ab: "a \<le> b" "b \<le> n" using assms(2) [of i] assms(3) by auto
  then have "[0..<n] = [0..<a] @ [a..<b] @ [b..<n]"
    by (metis le_add_diff_inverse less_eq_nat.simps(1) order.trans upt_add_eq_append)
  moreover have "\<not> P j" if "j < a \<or> b \<le> j" for j using assms(2) [of j] that by auto
  then have "filter P [0..<a] = []" "filter P [b..<n] = []" by (simp_all add: filter_empty_conv)
  ultimately show ?thesis by simp
qed

lemma fold_fire_filter: "fold (fire cb P) xs s = fold (fire cb (\<lambda>_. True)) (filter P xs) s"
  by (induction xs arbitrary: s) (auto simp: fire_def)

definition event_state :: "bx_pc_system \<Rightarrow> bx_pc_system" where
  "event_state s = (let v = event_time s; c = ucast (sw_min (sweep_timers s) - v) :: u32
     in s\<lparr>ticksTotal := v, timer := sw_timer (sweep_timers s), currCountdown := c, currCountdownPeriod := c\<rparr>)"

lemma countdownEvent_due:
  assumes "1 \<le> numTimers s"
  shows "countdownEvent cb s = fold (fire cb (\<lambda>_. True)) (due s) (event_state s)"
proof -
  let ?w = "sweep_timers s"
  have W: "sw_triggered ?w = (\<lambda>i. i < numTimers s \<and> due_at (event_time s) (timer s i))"
    "\<forall>i<numTimers s. due_at (event_time s) (timer s i) \<longrightarrow> sw_first ?w \<le> i \<and> i \<le> sw_last ?w"
    "sw_last ?w = 0 \<or> sw_last ?w < numTimers s"
    using sweep_timers_swept [of s] by (simp_all add: swept_def)
  have "filter (sw_triggered ?w) [sw_first ?w..<sw_last ?w + 1] = filter (sw_triggered ?w) [0..<numTimers s]"
    by (rule filter_upt_window) (use W assms in auto)
  also have "\<dots> = due s" unfolding W(1) due_def by (rule filter_cong) auto
  finally show ?thesis
    unfolding countdownEvent_def Let_def event_time_def [symmetric] fold_fire_filter [of cb "sw_triggered ?w"]
    by (simp add: event_state_def Let_def)
qed

text \<open>The state in which \<open>tick1\<close> and \<open>tickn\<close> call \<open>countdownEvent\<close>.\<close>

definition at_event :: "bx_pc_system \<Rightarrow> bool" where
  "at_event s \<longleftrightarrow> 1 \<le> numTimers s \<and> numTimers s \<le> BX_MAX_TIMERS \<and> currCountdown s = 0 \<and> null_ok s
     \<and> slots_ok (numTimers s) s"

lemma served_later:
  assumes "timer_ok s t" "active (served (event_time s) t)" "uint (event_time s) = now s" "now s < 2 ^ 63"
    "uint (ticksTotal s) + uint (currCountdownPeriod s) = now s"
  shows "now s < uint (timeToFire (served (event_time s) t))"
    "uint (timeToFire (served (event_time s) t)) \<le> now s + 2 ^ 62" "period (served (event_time s) t) = period t"
proof -
  have p: "1 \<le> uint (period t)" "uint (period t) \<le> 2 ^ 62" "now s \<le> uint (timeToFire t)"
    "uint (timeToFire t) \<le> now s + 2 ^ 62" using assms(1,5) by (simp_all add: timer_ok_def)
  have e: "uint (event_time s + period t) = now s + uint (period t)"
    using p assms(3,4) by (simp add: uint_plus_exact)
  have ne: "now s < uint (timeToFire t)" if "timeToFire t \<noteq> event_time s"
    using that p(3) assms(3) by (metis order.not_eq_order_implies_strict word_uint_eq_iff)
  show "now s < uint (timeToFire (served (event_time s) t))"
    "uint (timeToFire (served (event_time s) t)) \<le> now s + 2 ^ 62" "period (served (event_time s) t) = period t"
    using assms(2) p e ne by (auto simp: served_def split: if_splits)
qed

lemma event_state_inv:
  assumes ev: "at_event s" and early: "now s < 2 ^ 63"
  shows "pc_inv (event_state s)" "now (event_state s) = now s" "uint (ticksTotal (event_state s)) = now s"
proof -
  let ?v = "event_time s" and ?w = "sweep_timers s" and ?e = "event_state s"
  have s: "1 \<le> numTimers s" "numTimers s \<le> BX_MAX_TIMERS" "null_ok s"
    "slots_ok (numTimers s) s" and C: "uint (currCountdown s) = 0"
    using ev by (simp_all add: at_event_def countdown_ok_def)
  have P: "uint (ticksTotal s) + uint (currCountdownPeriod s) = now s" by (simp add: now_def C)
  have v: "uint ?v = now s" using P early by (simp add: event_time_def uint_plus_exact)
  have W: "\<And>i. i < numTimers s \<Longrightarrow> sw_timer ?w i = served ?v (timer s i)"
    "\<And>i. i < numTimers s \<Longrightarrow> active (served ?v (timer s i)) \<Longrightarrow> sw_min ?w \<le> timeToFire (served ?v (timer s i))"
    "sw_min ?w = - 1 \<or> (\<exists>i<numTimers s. active (served ?v (timer s i)) \<and> sw_min ?w = timeToFire (served ?v (timer s i)))"
    using sweep_timers_swept [of s] by (auto simp: swept_def)
  have ok: "timer_ok s (timer s i)" if "i < numTimers s" "active (served ?v (timer s i))" for i
    using that s(4) by (auto simp: slots_ok_def served_def split: if_splits)
  note later = served_later [OF ok _ v early P]
  have z: "active (served ?v (timer s 0))" "uint (timeToFire (served ?v (timer s 0))) \<le> now s + 0xffffffff"
    using s(3) v early by (auto simp: null_ok_def served_def NullTimerInterval_def uint_plus_exact)
  have "uint (sw_min ?w) \<le> uint (timeToFire (served ?v (timer s 0)))"
    using W(2) [of 0] z(1) s(1) by (simp add: word_le_def)
  then have m2: "uint (sw_min ?w) \<le> now s + 0xffffffff" using z(2) by linarith
  moreover have "uint (- 1 :: u64) = 2 ^ 64 - 1" by (simp add: unsigned_minus_1_eq_mask mask_eq_exp_minus_1)
  ultimately have "sw_min ?w \<noteq> - 1" using early by auto
  then have m1: "now s < uint (sw_min ?w)" using W(3) later(1) by metis
  define c where "c = (ucast (sw_min ?w - ?v) :: u32)"
  have "uint (sw_min ?w - ?v) = uint (sw_min ?w) - now s" using m1 v by (simp add: uint_minus_exact)
  then have c: "uint c = uint (sw_min ?w) - now s" unfolding c_def using m2 by (simp add: uint_u64_down)
  have e: "ticksTotal ?e = ?v" "timer ?e = sw_timer ?w" "currCountdown ?e = c" "currCountdownPeriod ?e = c"
    "numTimers ?e = numTimers s" by (simp_all add: event_state_def Let_def c_def)
  show now: "now ?e = now s" and "uint (ticksTotal ?e) = now s" by (simp_all add: now_def [of ?e] e v)
  have "timer_ok ?e (timer ?e i)" if "i < numTimers s" "active (timer ?e i)" for i
  proof -
    have a: "active (served ?v (timer s i))" using that by (simp add: e W(1))
    have "uint (sw_min ?w) \<le> uint (timeToFire (served ?v (timer s i)))"
      using W(2) [OF that(1) a] by (simp add: word_le_def)
    then show ?thesis using later [OF that(1) a a] ok [OF that(1) a]
      by (simp add: timer_ok_def now e W(1) [OF that(1)] v c)
  qed
  moreover have "null_ok ?e"
    using z s(1,3) W(1) [of 0] by (auto simp: null_ok_def now e served_def)
  ultimately show "pc_inv ?e"
    using s(1,2) m1 by (simp add: pc_inv_def slots_ok_def countdown_ok_def e c)
qed

text \<open>A callback keeps the invariant and does not move the clock.\<close>

lemma fire_inv:
  assumes "cb_ok cb" "pc_inv s" "now s < 2 ^ 63"
  shows "pc_inv (fire cb P i s) \<and> now (fire cb P i s) = now s"
proof (cases "P i \<and> funct (timer s i) \<noteq> None")
  case True
  then obtain f where f: "P i" "funct (timer s i) = Some f" by auto
  let ?u = "s\<lparr>triggeredTimer := i, fired := fired s @ [(i, ticksTotal s)]\<rparr>"
  have u: "pc_inv ?u \<and> now ?u = now s"
    using assms(2) by (intro pc_inv_frame) (simp_all add: pc_inv_def null_ok_def)
  then have r: "pc_inv (fold run_call (cb f ?u) ?u) \<and> now (fold run_call (cb f ?u) ?u) = now s"
    using run_calls_inv [of ?u "cb f ?u"] assms(1,3) by (simp add: cb_ok_def)
  have "pc_inv (x\<lparr>triggeredTimer := 0\<rparr>) \<and> now (x\<lparr>triggeredTimer := 0\<rparr>) = now x" if "pc_inv x" for x
    using that by (intro pc_inv_frame) (simp_all add: pc_inv_def null_ok_def)
  then show ?thesis using r f by (simp add: fire_def Let_def)
next
  case False
  then show ?thesis using assms(2) by (auto simp: fire_def split: option.splits)
qed

lemma fires_inv:
  assumes "cb_ok cb" "pc_inv s" "now s < 2 ^ 63"
  shows "pc_inv (fold (fire cb P) xs s) \<and> now (fold (fire cb P) xs s) = now s"
  using assms(2,3)
proof (induction xs arbitrary: s)
  case (Cons i xs)
  then show ?case using fire_inv [OF assms(1) Cons.prems, of P i] by simp
qed simp

lemma countdownEvent_inv:
  assumes "cb_ok cb" "at_event s" "now s < 2 ^ 63"
  shows "pc_inv (countdownEvent cb s) \<and> now (countdownEvent cb s) = now s"
proof -
  have "1 \<le> numTimers s" using assms(2) by (simp add: at_event_def)
  then show ?thesis
    using event_state_inv [OF assms(2,3)] fires_inv [OF assms(1), of "event_state s"] assms(3)
    by (simp add: countdownEvent_due)
qed


section \<open>Running the clock\<close>

lemma countdown_expires:
  assumes "pc_inv s"
  shows "at_event (s\<lparr>currCountdown := 0\<rparr>)" "now (s\<lparr>currCountdown := 0\<rparr>) = now s + uint (currCountdown s)"
  using assms by (auto simp: at_event_def pc_inv_def null_ok_def slots_ok_def timer_ok_def countdown_ok_def now_def)

lemma countdown_runs:
  assumes "pc_inv s" "n < currCountdown s"
  shows "pc_inv (s\<lparr>currCountdown := currCountdown s - n\<rparr>)"
    "now (s\<lparr>currCountdown := currCountdown s - n\<rparr>) = now s + uint n"
proof -
  have lt: "uint n < uint (currCountdown s)" using assms(2) by (simp add: word_less_def)
  then have c: "uint (currCountdown s - n) = uint (currCountdown s) - uint n" by (simp add: uint_minus_exact)
  show n: "now (s\<lparr>currCountdown := currCountdown s - n\<rparr>) = now s + uint n" by (simp add: now_def c)
  let ?s = "s\<lparr>currCountdown := currCountdown s - n\<rparr>"
  have ge: "0 \<le> uint n" by simp
  have ticks_upd: "ticksTotal ?s = ticksTotal s" "currCountdownPeriod ?s = currCountdownPeriod s" by simp_all
  have "timer_ok ?s u" if "timer_ok s u" for u
    using that ge unfolding timer_ok_def n by (elim conjE, intro conjI) (simp_all only: ticks_upd, linarith)
  then have "slots_ok (numTimers s) ?s" using assms(1) by (simp add: pc_inv_def slots_ok_def)
  moreover have "uint (currCountdown s) \<le> uint (currCountdownPeriod s)"
    "uint (timeToFire (timer s 0)) \<le> now s + 0xffffffff"
    using assms(1) by (simp_all add: pc_inv_def countdown_ok_def null_ok_def)
  with ge have "uint (currCountdown s) - uint n \<le> uint (currCountdownPeriod s)"
    "uint (timeToFire (timer s 0)) \<le> now s + uint n + 0xffffffff" by linarith+
  ultimately show "pc_inv ?s"
    using assms(1) lt by (simp add: pc_inv_def null_ok_def countdown_ok_def n c)
qed

lemma tick1_inv:
  assumes "cb_ok cb" "pc_inv s" "now s + 1 < 2 ^ 63"
  shows "pc_inv (tick1 cb s) \<and> now (tick1 cb s) = now s + 1"
proof (cases "currCountdown s = 1")
  case True
  note E = countdown_expires [OF assms(2)]
  show ?thesis using countdownEvent_inv [OF assms(1) E(1)] E(2) True assms(3) by (simp add: tick1_def Let_def)
next
  case False
  have "1 < currCountdown s"
  proof -
    have "1 \<le> uint (currCountdown s)" using assms(2) by (simp add: pc_inv_def countdown_ok_def)
    moreover have "uint (currCountdown s) \<noteq> 1" using False by (metis uint_1 word_uint_eq_iff)
    ultimately show ?thesis by (simp add: word_less_def)
  qed
  then show ?thesis using countdown_runs [OF assms(2), of 1] False by (simp add: tick1_def Let_def)
qed

text \<open>Induction over the events of a run of \<open>tickn\<close>: every event has a positive countdown behind it.\<close>

lemma tickn_induct [consumes 3, case_names rest event]:
  assumes cb: "cb_ok cb" and inv: "pc_inv s" and early: "now s + uint n < 2 ^ 63"
    and rest: "\<And>s n. pc_inv s \<Longrightarrow> n < currCountdown s \<Longrightarrow> Q s n (s\<lparr>currCountdown := currCountdown s - n\<rparr>)"
    and event: "\<And>s n s'. pc_inv s \<Longrightarrow> currCountdown s \<le> n \<Longrightarrow> now s + uint n < 2 ^ 63 \<Longrightarrow>
      Q (countdownEvent cb (s\<lparr>currCountdown := 0\<rparr>)) (n - currCountdown s) s' \<Longrightarrow> Q s n s'"
  shows "\<exists>s'. tickn cb n s = Some s' \<and> Q s n s'"
  using inv early
proof (induction "nat (uint n)" arbitrary: n s rule: less_induct)
  case less
  show ?case
  proof (cases "n < currCountdown s")
    case True
    then have "\<not> currCountdown s \<le> n" by simp
    then show ?thesis using rest [OF less.prems(1) True] by (subst tickn.simps) simp
  next
    case False
    then have le: "currCountdown s \<le> n" by simp
    let ?e = "countdownEvent cb (s\<lparr>currCountdown := 0\<rparr>)" and ?m = "n - currCountdown s"
    have u: "uint (currCountdown s) \<le> uint n" "1 \<le> uint (currCountdown s)"
      using le less.prems(1) by (simp_all add: word_le_def pc_inv_def countdown_ok_def)
    then have m: "uint ?m = uint n - uint (currCountdown s)" by (simp add: uint_minus_exact)
    note E = countdown_expires [OF less.prems(1)]
    have "pc_inv ?e \<and> now ?e = now s + uint (currCountdown s)"
      using countdownEvent_inv [OF cb E(1)] E(2) u less.prems(2) by simp
    then have "pc_inv ?e" "now ?e + uint ?m < 2 ^ 63" using m u less.prems(2) by simp_all
    moreover have "nat (uint ?m) < nat (uint n)" unfolding m using u by linarith
    ultimately obtain s' where "tickn cb ?m ?e = Some s'" "Q ?e ?m s'"
      using less.hyps [of ?m ?e] by blast
    moreover have "tickn cb n s = tickn cb ?m ?e" using le by (subst tickn.simps) simp
    ultimately show ?thesis using event [OF less.prems(1) le less.prems(2)] by auto
  qed
qed

lemma event_then:
  assumes "cb_ok cb" "pc_inv s" "currCountdown s \<le> n" "now s + uint n < 2 ^ 63"
  defines "e \<equiv> countdownEvent cb (s\<lparr>currCountdown := 0\<rparr>)"
  shows "pc_inv e" "now e + uint (n - currCountdown s) = now s + uint n" "now e = now s + uint (currCountdown s)"
proof -
  note E = countdown_expires [OF assms(2)]
  have u: "uint (currCountdown s) \<le> uint n" using assms(3) by (simp add: word_le_def)
  show "pc_inv e" "now e = now s + uint (currCountdown s)"
    using countdownEvent_inv [OF assms(1) E(1)] E(2) u assms(4) unfolding e_def by simp_all
  then show "now e + uint (n - currCountdown s) = now s + uint n" using u by (simp add: uint_minus_exact)
qed

lemma tickn_inv:
  assumes "cb_ok cb" "pc_inv s" "now s + uint n < 2 ^ 63"
  shows "\<exists>s'. tickn cb n s = Some s' \<and> pc_inv s' \<and> now s' = now s + uint n"
  using assms
proof (induction rule: tickn_induct)
  case (rest s n)
  then show ?case using countdown_runs by simp
next
  case (event s n s')
  then show ?case using event_then(2) [OF assms(1) event(1-3)] by simp
qed


section \<open>Deadlines\<close>

text \<open>The ticks at which the callback of slot \<open>i\<close> was invoked.\<close>

definition fire_times :: "nat \<Rightarrow> bx_pc_system \<Rightarrow> int list" where
  "fire_times i s = map (\<lambda>p. uint (snd p)) (filter (\<lambda>p. fst p = i) (fired s))"

text \<open>The ticks up to \<open>T\<close> at which a timer is due.\<close>

definition schedule :: "pc_timer \<Rightarrow> int \<Rightarrow> int list" where
  "schedule t T =
     (if active t \<and> uint (timeToFire t) \<le> T
      then if continuous t
           then map (\<lambda>k. uint (timeToFire t) + int k * uint (period t))
                  [0..<nat ((T - uint (timeToFire t)) div uint (period t)) + 1]
           else [uint (timeToFire t)]
      else [])"

lemma schedule_due:
  assumes "active t" "uint (timeToFire t) \<le> T" "1 \<le> uint (period t)"
    "uint (timeToFire t) + uint (period t) < 2 ^ 64"
  shows "schedule t T = uint (timeToFire t) # schedule (served (timeToFire t) t) T"
proof (cases "continuous t")
  case True
  let ?D = "uint (timeToFire t)" and ?p = "uint (period t)"
  have s: "uint (timeToFire t + period t) = ?D + ?p" using assms(4) by (simp add: uint_plus_exact)
  define q where "q = (T - ?D) div ?p"
  have q: "0 \<le> q" using assms(2,3) by (simp add: q_def pos_imp_zdiv_nonneg_iff)
  have q1: "(T - (?D + ?p)) div ?p = q - 1"
    using assms(3) div_add_self2 [of ?p "T - (?D + ?p)"] by (simp add: q_def algebra_simps)
  have le: "?D + ?p \<le> T \<longleftrightarrow> 1 \<le> q"
    using assms(3) pos_imp_zdiv_nonneg_iff [of ?p "T - (?D + ?p)"] unfolding q1 by linarith
  have "map (\<lambda>k. ?D + int k * ?p) [0..<nat q + 1] = ?D # map (\<lambda>k. ?D + ?p + int k * ?p) [0..<nat q]"
    unfolding Suc_eq_plus1 [symmetric] by (subst map_upt_Suc) (simp add: algebra_simps)
  moreover have "nat (q - 1) + 1 = nat q" if "1 \<le> q" using that by simp
  moreover have "nat q = 0" if "\<not> 1 \<le> q" using that by simp
  ultimately show ?thesis
    using True assms(1,2) unfolding schedule_def served_def q_def [symmetric]
    by (simp add: s le q1 flip: q_def)
qed (use assms in \<open>simp add: schedule_def served_def\<close>)


text \<open>Calls that leave slot \<open>i\<close> alone; a registered slot is never the one \<open>Register\<close> picks.\<close>

fun leaves :: "nat \<Rightarrow> timer_call \<Rightarrow> bool" where
  "leaves i (Activate j _ _) \<longleftrightarrow> j \<noteq> i"
| "leaves i (Deactivate j) \<longleftrightarrow> j \<noteq> i"
| "leaves i (Register _ _ _ _) \<longleftrightarrow> True"
| "leaves i (Unregister j) \<longleftrightarrow> j \<noteq> i"
| "leaves i (SetParam j _) \<longleftrightarrow> j \<noteq> i"

definition cb_leaves :: "nat \<Rightarrow> callbacks \<Rightarrow> bool" where
  "cb_leaves i cb \<longleftrightarrow> (\<forall>f s. list_all (leaves i) (cb f s))"

definition tracked :: "nat \<Rightarrow> pc_timer \<Rightarrow> bx_pc_system \<Rightarrow> bool" where
  "tracked i t s \<longleftrightarrow> timer s i = t \<and> 0 < i \<and> i < numTimers s \<and> inUse t \<and> funct t \<noteq> None"

lemma free_slot_free: "free_slot k i tm = i + k \<or> \<not> inUse (tm (free_slot k i tm))"
proof (induction k arbitrary: i)
  case (Suc k)
  show ?case using Suc.IH [of "i + 1"] by auto
qed simp

lemma run_call_tracked:
  assumes "tracked i t s" "leaves i c"
  shows "tracked i t (run_call c s) \<and> fired (run_call c s) = fired s \<and> ticksTotal (run_call c s) = ticksTotal s"
proof (cases c)
  case (Register f u cont act)
  have "free_slot (numTimers s - 1) 1 (timer s) \<noteq> i"
    using assms(1) free_slot_free [of "numTimers s - 1" 1 "timer s"] by (auto simp: tracked_def)
  then show ?thesis using assms Register
    by (simp add: tracked_def register_timer_ticks_def Let_def upd_timer_def)
qed (use assms in \<open>auto simp: tracked_def activate_timer_ticks_def deactivate_timer_def unregisterTimer_def
      setTimerParam_def Let_def upd_timer_def\<close>)

lemma run_calls_tracked:
  assumes "tracked i t s" "list_all (leaves i) cs"
  shows "tracked i t (fold run_call cs s) \<and> fired (fold run_call cs s) = fired s
    \<and> ticksTotal (fold run_call cs s) = ticksTotal s"
  using assms
proof (induction cs arbitrary: s)
  case (Cons c cs)
  then show ?case using run_call_tracked [of i t s c] by simp
qed simp

lemma fire_tracked:
  fixes j :: nat
  assumes "tracked i t s" "cb_leaves i cb"
  defines "s' \<equiv> fire cb (\<lambda>_. True) j s"
  shows "tracked i t s' \<and> ticksTotal s' = ticksTotal s \<and>
    fire_times i s' = fire_times i s @ (if j = i then [uint (ticksTotal s)] else [])"
proof (cases "funct (timer s j)")
  case None
  then show ?thesis using assms(1) by (auto simp: s'_def fire_def tracked_def)
next
  case (Some f)
  let ?u = "s\<lparr>triggeredTimer := j, fired := fired s @ [(j, ticksTotal s)]\<rparr>"
  have "tracked i t ?u" "list_all (leaves i) (cb f ?u)" using assms(1,2) by (simp_all add: tracked_def cb_leaves_def)
  then have "tracked i t (fold run_call (cb f ?u) ?u) \<and> fired (fold run_call (cb f ?u) ?u) = fired ?u
      \<and> ticksTotal (fold run_call (cb f ?u) ?u) = ticksTotal ?u" by (rule run_calls_tracked)
  then show ?thesis by (auto simp: s'_def fire_def Some Let_def tracked_def fire_times_def)
qed

lemma fires_tracked:
  assumes "tracked i t s" "cb_leaves i cb" "distinct xs"
  defines "s' \<equiv> fold (fire cb (\<lambda>_. True)) xs s"
  shows "tracked i t s' \<and> fire_times i s' = fire_times i s @ (if i \<in> set xs then [uint (ticksTotal s)] else [])"
  using assms(1,3) unfolding s'_def
proof (induction xs arbitrary: s)
  case (Cons j xs)
  then show ?case using fire_tracked [OF Cons.prems(1) assms(2), of j] by auto
qed simp

text \<open>One event, seen from one slot.\<close>

lemma countdownEvent_tracked:
  assumes t: "tracked i t s" and cb: "cb_leaves i cb" and ev: "at_event s" "now s < 2 ^ 63"
  defines "s' \<equiv> countdownEvent cb s"
  shows "tracked i (served (event_time s) t) s'"
    "fire_times i s' = fire_times i s @ (if due_at (event_time s) t then [now s] else [])"
proof -
  have n: "1 \<le> numTimers s" using ev by (simp add: at_event_def)
  have W: "sw_timer (sweep_timers s) i = served (event_time s) t"
    using sweep_timers_swept [of s] t by (simp add: swept_def tracked_def)
  have f: "fired (event_state s) = fired s" "numTimers (event_state s) = numTimers s"
    "timer (event_state s) = sw_timer (sweep_timers s)" by (simp_all add: event_state_def Let_def)
  have "tracked i (served (event_time s) t) (event_state s)"
    using t W by (simp add: tracked_def f served_def)
  moreover have "distinct (due s)" "i \<in> set (due s) \<longleftrightarrow> due_at (event_time s) t"
    using t by (auto simp: due_def tracked_def)
  ultimately show "tracked i (served (event_time s) t) s'"
    "fire_times i s' = fire_times i s @ (if due_at (event_time s) t then [now s] else [])"
    using fires_tracked [OF _ cb, of "served (event_time s) t" "event_state s" "due s"]
      event_state_inv(3) [OF ev]
    by (simp_all add: s'_def countdownEvent_due [OF n] fire_times_def f)
qed

lemma tickn_schedule:
  assumes cb: "cb_ok cb" and inv: "pc_inv s" and early: "now s + uint n < 2 ^ 63" and l: "cb_leaves i cb"
  shows "\<exists>s'. tickn cb n s = Some s' \<and> (\<forall>t. tracked i t s \<longrightarrow>
     fire_times i s' = fire_times i s @ schedule t (now s + uint n))"
  using cb inv early
proof (induction rule: tickn_induct)
  case (rest s n)
  have "schedule t (now s + uint n) = []" if t: "tracked i t s" for t
  proof -
    have "active t \<Longrightarrow> timer_ok s t" using t rest(1) by (auto simp: tracked_def pc_inv_def slots_ok_def)
    then have "active t \<Longrightarrow> now s + uint (currCountdown s) \<le> uint (timeToFire t)"
      by (simp add: timer_ok_def now_def)
    moreover have "uint n < uint (currCountdown s)" using rest(2) by (simp add: word_less_def)
    ultimately show ?thesis by (auto simp: schedule_def)
  qed
  then show ?case by (simp add: fire_times_def)
next
  case (event s n s')
  let ?z = "s\<lparr>currCountdown := 0\<rparr>" and ?T = "now s + uint n"
  note E = countdown_expires [OF event(1)] and N = event_then [OF cb event(1-3)]
  have C: "uint (currCountdown s) \<le> uint n" using event(2) by (simp add: word_le_def)
  have z: "now ?z < 2 ^ 63" using E(2) C event(3) by simp
  have v: "uint (event_time ?z) = now ?z"
  proof -
    have "uint (ticksTotal s) + uint (currCountdownPeriod s) = now ?z" by (simp add: now_def)
    then show ?thesis using z by (simp add: event_time_def uint_plus_exact)
  qed
  show ?case
  proof (intro allI impI)
    fix t assume t: "tracked i t s"
    then have t': "tracked i t ?z" by (simp add: tracked_def)
    note K = countdownEvent_tracked [OF t' l E(1) z]
    have IH: "fire_times i s' = fire_times i ?z @ (if due_at (event_time ?z) t then [now ?z] else [])
        @ schedule (served (event_time ?z) t) ?T"
      using event(4) K N(2) by simp
    have "schedule t ?T = (if due_at (event_time ?z) t then [now ?z] else []) @ schedule (served (event_time ?z) t) ?T"
    proof (cases "due_at (event_time ?z) t")
      case True
      then have a: "active t" "timeToFire t = event_time ?z" by (simp_all add: due_at_def)
      then have "timer_ok s t" using t event(1) by (auto simp: tracked_def pc_inv_def slots_ok_def)
      then have p: "1 \<le> uint (period t)" "uint (period t) \<le> 2 ^ 62" by (simp_all add: timer_ok_def)
      have "schedule t ?T = uint (timeToFire t) # schedule (served (timeToFire t) t) ?T"
        by (rule schedule_due [OF a(1) _ p(1)]) (use v z p C E(2) in \<open>simp_all add: a(2)\<close>)
      then show ?thesis using True by (simp add: a(2) v)
    next
      case False
      then have "served (event_time ?z) t = t" by (auto simp: due_at_def served_def)
      then show ?thesis using False by simp
    qed
    then show "fire_times i s' = fire_times i s @ schedule t ?T" using IH by (simp add: fire_times_def)
  qed
qed


section \<open>The component as a transition system\<close>

definition blank :: bx_pc_system where
  "blank = \<lparr>timer = (\<lambda>_. \<lparr>inUse = False, period = 0, timeToFire = 0, active = False, continuous = False,
       funct = None, param = 0\<rparr>), numTimers = 0, triggeredTimer = 0, currCountdown = 0, currCountdownPeriod = 0,
     ticksTotal = 0, lastTimeUsec = 0, usecSinceLast = 0, HRQ = False, enable_a20 = False, a20_mask = 0,
     kill_bochs_request = False, async_event = False, tlb_flushes = 0, fired = [], pc_panics = []\<rparr>"

definition booted :: bx_pc_system where
  "booted = pc_initialize (construct blank)"

lemma booted_inv: "pc_inv booted" "now booted = 0" "fired booted = []" "numTimers booted = 1"
  by (simp_all add: booted_def pc_initialize_def construct_def blank_def upd_timer_def pc_inv_def null_ok_def
      countdown_ok_def slots_ok_def timer_ok_def now_def NullTimerInterval_def BX_MAX_TIMERS_def)

text \<open>
  The calls of the devices, the clock, the hold request and the A20 gate. Time is kept below
  \<open>2 ^ 63\<close> ticks, which at a billion instructions per second is reached after 292 years.
\<close>

inductive pc_step :: "callbacks \<Rightarrow> bx_pc_system \<Rightarrow> bx_pc_system \<Rightarrow> bool" for cb where
  Call: "call_ok c s \<Longrightarrow> now s < 2 ^ 63 \<Longrightarrow> pc_step cb s (run_call c s)"
| Tick: "now s + 1 < 2 ^ 63 \<Longrightarrow> pc_step cb s (tick1 cb s)"
| Ticks: "now s + uint n < 2 ^ 63 \<Longrightarrow> tickn cb n s = Some s' \<Longrightarrow> pc_step cb s s'"
| Hold: "pc_step cb s (set_HRQ b s)"
| A20: "pc_step cb s (set_enable_a20 b s)"
| Usec: "pc_step cb s (snd (time_usec_sequential conv s))"

inductive_cases pc_stepE: "pc_step cb s t"

lemma gates_inv:
  assumes "pc_inv s"
  shows "pc_inv (set_HRQ b s)" "pc_inv (set_enable_a20 b s)" "pc_inv (snd (time_usec_sequential conv s))"
  using assms by (simp_all add: set_HRQ_def set_enable_a20_def MemoryMappingChanged_def time_usec_sequential_def
      Let_def pc_inv_def null_ok_def countdown_ok_def slots_ok_def timer_ok_def now_def)

lemma pc_step_inv:
  assumes "cb_ok cb" "pc_inv s" "pc_step cb s t"
  shows "pc_inv t"
  using assms(3)
proof (cases rule: pc_step.cases)
  case (Ticks n)
  then show ?thesis using tickn_inv [OF assms(1,2) Ticks(1)] by auto
qed (use assms run_call_inv tick1_inv gates_inv in auto)

interpretation timers: device "\<lambda>s. s = booted" "\<lambda>s t. cb_ok cb \<and> pc_step cb s t" pc_inv for cb
  by unfold_locales (auto simp: booted_inv pc_step_inv)

text \<open>For the examples: callbacks that stop a timer and register a new one-shot timer, and a periodic timer of ten ticks.\<close>

definition busy_cb :: callbacks where
  "busy_cb f s = [Deactivate 3, Register (Some f) 5 False True]"

lemma busy_cb_ok: "cb_ok busy_cb" "cb_leaves 1 busy_cb"
  by (simp_all add: cb_ok_def cb_leaves_def busy_cb_def)

definition example_timer :: bx_pc_system where
  "example_timer = snd (register_timer_ticks (Some 7) 10 True True booted)"

lemma example_timer:
  "pc_inv example_timer" "now example_timer = 0"
  "timer example_timer (Suc 0) = \<lparr>inUse = True, period = 10, timeToFire = 10, active = True, continuous = True,
     funct = Some 7, param = 0\<rparr>" "numTimers example_timer = 2" "fire_times (Suc 0) example_timer = []"
proof -
  show "pc_inv example_timer" "now example_timer = 0"
    using register_timer_ticks_inv [OF booted_inv(1), of 10] by (simp_all add: example_timer_def booted_inv(2))
  have "numTimers booted = 1" "timer booted (Suc 0) = timer blank (Suc 0)" "currCountdown booted = currCountdownPeriod booted"
    "ticksTotal booted = 0" "currCountdown booted = 0xffffffff"
    by (simp_all add: booted_def pc_initialize_def construct_def blank_def upd_timer_def NullTimerInterval_def)
  then show "timer example_timer (Suc 0) = \<lparr>inUse = True, period = 10, timeToFire = 10, active = True, continuous = True,
     funct = Some 7, param = 0\<rparr>" "numTimers example_timer = 2" "fire_times (Suc 0) example_timer = []"
    by (simp_all add: example_timer_def register_timer_ticks_def Let_def upd_timer_def BX_MAX_TIMERS_def
        MinAllowableTimerPeriod_def fire_times_def skew_def booted_inv(3))
qed

section \<open>Properties\<close>

text \<open>C1: Timers fire exactly on schedule.  When the clock advances by \<open>n\<close> ticks, the callback of a
  registered timer that no callback re-programs is invoked at exactly the ticks of its schedule up to
  the new time - its deadline, and for a continuous timer every period after it - each once and in
  order: no event is lost, early, late or repeated, and the run returns.\<close>

theorem timers_fire_on_schedule:
  assumes "cb_ok cb" and "pc_inv s" and "now s + uint n < 2 ^ 63" and "cb_leaves i cb" and "tracked i t s"
  shows "\<exists>s'. tickn cb n s = Some s' \<and> fire_times i s' = fire_times i s @ schedule t (now s + uint n)"
  using tickn_schedule [OF assms(1-4)] assms(5) by blast

theorem timers_fire_on_schedule_witness:
  "\<exists>s'. tickn busy_cb 35 example_timer = Some s' \<and> fire_times 1 s' = [10, 20, 30]"
  using timers_fire_on_schedule [OF busy_cb_ok(1) example_timer(1) _ busy_cb_ok(2), of 35 "timer example_timer 1"]
  by (simp add: example_timer tracked_def schedule_def upt_rec)

text \<open>C2: The clock loop terminates.  \<open>tickn\<close>, whose loop runs until the requested ticks are used up,
  returns from every invariant state, advances the time by exactly the ticks requested, whatever the
  callbacks do within the rules of the interface, and keeps the invariant.\<close>

theorem tickn_terminates:
  assumes "cb_ok cb" and "pc_inv s" and "now s + uint n < 2 ^ 63"
  shows "\<exists>s'. tickn cb n s = Some s' \<and> pc_inv s' \<and> uint (time_ticks s') = uint (time_ticks s) + uint n"
proof -
  obtain s' where s': "tickn cb n s = Some s'" "pc_inv s'" "now s' = now s + uint n"
    using tickn_inv [OF assms] by blast
  have "0 \<le> uint n" "(2 :: int) ^ 63 < 2 ^ 64" by simp_all
  then have "now s < 2 ^ 64" "now s' < 2 ^ 64" using assms(3) s'(3) by linarith+
  then show ?thesis
    using s' assms(2) time_ticks_now [of s] time_ticks_now [of s'] by (simp add: pc_inv_def countdown_ok_def)
qed

theorem tickn_terminates_witness:
  "\<exists>s'. tickn busy_cb 1000 example_timer = Some s' \<and> pc_inv s'"
  using tickn_terminates [OF busy_cb_ok(1) example_timer(1), of 1000] by (auto simp: example_timer)

text \<open>In every state the machine can reach the countdown is positive and no longer than its
  period, the null timer is armed within a 32-bit distance, and no active timer has a deadline that
  the countdown would pass.\<close>

theorem timers_invariant_reachable:
  assumes "cb_ok cb" and "(pc_step cb)\<^sup>*\<^sup>* booted s"
  shows "pc_inv s"
proof -
  have "(\<lambda>s t. cb_ok cb \<and> pc_step cb s t)\<^sup>*\<^sup>* booted s" using assms by simp
  then show ?thesis using timers.reachable_inv by blast
qed

theorem timers_invariant_reachable_witness: "pc_inv (tick1 busy_cb (deactivate_timer 1 example_timer))"
proof (rule timers_invariant_reachable [OF busy_cb_ok(1)])
  have "pc_step busy_cb booted example_timer"
    using pc_step.Call [of "Register (Some 7) 10 True True" booted busy_cb] by (simp add: example_timer_def booted_inv)
  moreover have "pc_step busy_cb example_timer (deactivate_timer 1 example_timer)"
    using pc_step.Call [of "Deactivate 1" example_timer busy_cb] by (simp add: example_timer)
  moreover have "pc_step busy_cb (deactivate_timer 1 example_timer) (tick1 busy_cb (deactivate_timer 1 example_timer))"
    using deactivate_timer_inv [OF example_timer(1), of 1] by (intro pc_step.Tick) (simp add: example_timer)
  ultimately show "(pc_step busy_cb)\<^sup>*\<^sup>* booted (tick1 busy_cb (deactivate_timer 1 example_timer))"
    by (meson converse_rtranclp_into_rtranclp r_into_rtranclp)
qed

text \<open>Sequential time is strictly increasing.  As long as the clock does not run backwards,
  \<open>time_usec_sequential\<close> returns one more than the larger of the present time and its previous
  answer (the sum of the two fields it keeps): no two readings are equal.\<close>

theorem sequential_time_increases:
  assumes "lastTimeUsec s \<le> time_usec conv s" and "uint (time_usec conv s) < 2 ^ 64 - 1"
    and "uint (lastTimeUsec s) + uint (usecSinceLast s) < 2 ^ 64 - 1"
  shows "case time_usec_sequential conv s of (r, s') \<Rightarrow>
    uint r = max (uint (time_usec conv s)) (uint (lastTimeUsec s) + uint (usecSinceLast s)) + 1 \<and>
    uint (lastTimeUsec s') + uint (usecSinceLast s') = uint r \<and> lastTimeUsec s' = time_usec conv s"
proof -
  let ?t = "time_usec conv s" and ?L = "lastTimeUsec s" and ?U = "usecSinceLast s"
  have le: "uint ?L \<le> uint ?t" using assms(1) by (simp add: word_le_def)
  have d: "uint (?t - ?L) = uint ?t - uint ?L" using le by (simp add: uint_minus_exact)
  define U' where "U' = (if ?t = ?L then ?U else if ?U \<le> ?t - ?L then 0 else ?U - (?t - ?L))"
  have U': "uint ?t + uint U' = max (uint ?t) (uint ?L + uint ?U)"
    using le d by (auto simp: U'_def word_le_def uint_minus_exact)
  then have b: "uint ?t + uint U' + 1 < 2 ^ 64" using assms(2,3) by simp
  then have "uint U' + 1 < 2 ^ 64" using u64_bounds(1) [of ?t] by linarith
  then have one: "uint (U' + 1) = uint U' + 1" by (simp add: uint_plus_exact)
  have "time_usec_sequential conv s = (?t + (U' + 1), s\<lparr>lastTimeUsec := ?t, usecSinceLast := U' + 1\<rparr>)"
    by (simp add: time_usec_sequential_def Let_def U'_def)
  then show ?thesis using b one U' by (simp add: uint_plus_exact)
qed

theorem sequential_time_increases_witness:
  "uint (fst (time_usec_sequential id (booted\<lparr>usecSinceLast := 1\<rparr>))) = 2"
  using sequential_time_increases [of "booted\<lparr>usecSinceLast := 1\<rparr>" id]
  by (simp add: booted_def pc_initialize_def construct_def upd_timer_def time_usec_def time_ticks_def split_beta)

text \<open>Registering a timer.  It fails only when the table bound is reached, and then changes no
  timer; otherwise the slot it returns was not in use and is not the null timer's, every other slot is
  as before, and an active timer is due exactly its period from now.\<close>

theorem register_timer_slot:
  assumes "pc_inv s" and "now s < 2 ^ 63" and "uint ticks \<le> 2 ^ 62" and "1 \<le> ticks"
  shows "case register_timer_ticks f ticks cont act s of (r, s') \<Rightarrow>
    if numTimers s = BX_MAX_TIMERS then r = - 1 \<and> timer s' = timer s \<and> numTimers s' = numTimers s
    else 0 < r \<and> r < int (numTimers s') \<and> (\<not> inUse (timer s (nat r)) \<or> nat r = numTimers s) \<and>
      timer s' = (timer s)(nat r := timer s' (nat r)) \<and> inUse (timer s' (nat r)) \<and>
      active (timer s' (nat r)) = act \<and> uint (timeToFire (timer s' (nat r))) = now s + uint ticks"
proof (cases "numTimers s = BX_MAX_TIMERS")
  case True
  then show ?thesis by (simp add: register_timer_ticks_def Let_def)
next
  case False
  then have n: "1 \<le> numTimers s" "\<not> BX_MAX_TIMERS \<le> numTimers s" using assms(1) by (simp_all add: pc_inv_def)
  let ?i = "free_slot (numTimers s - 1) 1 (timer s)"
  have i: "0 < ?i" "?i \<le> numTimers s" "?i = numTimers s \<or> \<not> inUse (timer s ?i)"
    using free_slot_range [of 1 "numTimers s - 1" "timer s"] free_slot_free [of "numTimers s - 1" 1 "timer s"] n(1) by auto
  have "\<not> ticks < 1" by (rule leD [OF assms(4)])
  moreover have time: "uint (time_ticks s) = now s"
    using assms(1,2) by (intro time_ticks_now) (simp_all add: pc_inv_def countdown_ok_def)
  moreover have "uint (time_ticks s + ticks) = now s + uint ticks"
    using assms(2,3) time by (simp add: uint_plus_exact)
  ultimately show ?thesis
    using False n i unfolding register_timer_ticks_def Let_def MinAllowableTimerPeriod_def time_ticks_def [symmetric]
    by (simp add: upd_timer_def) (auto simp: fun_eq_iff)
qed

theorem register_timer_slot_witness:
  "fst (register_timer_ticks (Some 7) 10 True True booted) \<noteq> - 1"
  using register_timer_slot [OF booted_inv(1), where ticks = 10 and f = "Some 7" and cont = True and act = True] by (auto simp: booted_inv(2,4) BX_MAX_TIMERS_def)


end
