(* ===== verification/Dma.thy ===== *)
theory Dma
  imports Bochs_Prelude
begin

text \<open>
  The two cascaded 8237 DMA controllers of iodev/dma.cc. \<open>dma_ctl d 0\<close> is DMA-1 (8-bit channels,
  cascaded into channel 0 of the other) and \<open>dma_ctl d 1\<close> is DMA-2. The devices behind the channels
  are a parameter \<open>dev\<close>: what a handler returns - the bytes it put into the buffer, the length, and
  the calls of \<open>set_DRQ\<close> it made meanwhile. The accesses to physical memory are recorded in
  \<open>bus\<close>, the contents of memory are the parameter \<open>mem\<close>, and \<open>hrq\<close> is the hold request line
  of the CPU. Messages other than panics are left out.
\<close>

section \<open>State\<close>

definition BX_DMA_BUFFER_SIZE :: nat where "BX_DMA_BUFFER_SIZE = 512"

datatype dma_op = Read8 | Write8 | Read16 | Write16
datatype dma_bus = MemWrite u64 nat "u8 list" | MemRead u64 nat

record dma_chan =
  mode_type :: u8
  address_decrement :: bool
  autoinit_enable :: bool
  transfer_type :: u8
  base_address :: u16
  current_address :: u16
  base_count :: u16
  current_count :: u16
  page_reg :: u8
  used :: bool

record dma_ctrl =
  DRQ :: "nat \<Rightarrow> bool"
  DACK :: "nat \<Rightarrow> bool"
  chan_mask :: "nat \<Rightarrow> bool"
  flip_flop :: bool
  status_reg :: u8
  command_reg :: u8
  ctrl_disabled :: bool
  chan :: "nat \<Rightarrow> dma_chan"

record bx_dma =
  dma_ctl :: "nat \<Rightarrow> dma_ctrl"
  HLDA :: bool
  TC :: bool
  ext_page_reg :: "nat \<Rightarrow> u8"
  handler :: "nat \<Rightarrow> dma_op \<Rightarrow> bool"
  hrq :: bool
  bus :: "dma_bus list"
  dma_panics :: "string list"

type_synonym dma_dev =
  "dma_op \<Rightarrow> nat \<Rightarrow> u8 list \<Rightarrow> u16 \<Rightarrow> bx_dma \<Rightarrow> u8 list \<times> u16 \<times> (nat \<times> bool) list"

definition upd_ctl :: "nat \<Rightarrow> (dma_ctrl \<Rightarrow> dma_ctrl) \<Rightarrow> bx_dma \<Rightarrow> bx_dma" where
  "upd_ctl n f d = d\<lparr>dma_ctl := (dma_ctl d)(n := f (dma_ctl d n))\<rparr>"

definition upd_chan :: "nat \<Rightarrow> nat \<Rightarrow> (dma_chan \<Rightarrow> dma_chan) \<Rightarrow> bx_dma \<Rightarrow> bx_dma" where
  "upd_chan n k f = upd_ctl n (\<lambda>c. c\<lparr>chan := (chan c)(k := f (chan c k))\<rparr>)"

definition dma_panic :: "string \<Rightarrow> bx_dma \<Rightarrow> bx_dma" where
  "dma_panic msg d = d\<lparr>dma_panics := dma_panics d @ [msg]\<rparr>"

definition set_pc_HRQ :: "bool \<Rightarrow> bx_dma \<Rightarrow> bx_dma" where
  "set_pc_HRQ val d = d\<lparr>hrq := val\<rparr>"

section \<open>Registration, initialisation and reset\<close>

definition registerDMA8Channel :: "nat \<Rightarrow> bool \<Rightarrow> bool \<Rightarrow> bx_dma \<Rightarrow> bool \<times> bx_dma" where
  "registerDMA8Channel channel rd wr d =
     (if channel > 3 then (False, dma_panic ''registerDMA8Channel: invalid channel number'' d)
      else if used (chan (dma_ctl d 0) channel)
      then (False, dma_panic ''registerDMA8Channel: channel already in use'' d)
      else let d = d\<lparr>handler := (handler d)(channel := (handler d channel)(Read8 := rd, Write8 := wr))\<rparr>
           in (True, upd_chan 0 channel (\<lambda>c. c\<lparr>used := True\<rparr>) d))"

definition registerDMA16Channel :: "nat \<Rightarrow> bool \<Rightarrow> bool \<Rightarrow> bx_dma \<Rightarrow> bool \<times> bx_dma" where
  "registerDMA16Channel channel rd wr d =
     (if channel < 4 \<or> channel > 7 then (False, dma_panic ''registerDMA16Channel: invalid channel number'' d)
      else if used (chan (dma_ctl d 1) (channel mod 4))
      then (False, dma_panic ''registerDMA16Channel: channel already in use'' d)
      else let channel = channel mod 4;
               d = d\<lparr>handler := (handler d)(channel := (handler d channel)(Read16 := rd, Write16 := wr))\<rparr>
           in (True, upd_chan 1 channel (\<lambda>c. c\<lparr>used := True\<rparr>) d))"

definition unregisterDMAChannel :: "nat \<Rightarrow> bx_dma \<Rightarrow> bx_dma" where
  "unregisterDMAChannel channel =
     upd_chan (if channel > 3 then 1 else 0) (channel mod 4) (\<lambda>c. c\<lparr>used := False\<rparr>)"

definition get_TC :: "bx_dma \<Rightarrow> bool" where "get_TC d = TC d"

definition reset_controller :: "nat \<Rightarrow> bx_dma \<Rightarrow> bx_dma" where
  "reset_controller num =
     upd_ctl num (\<lambda>c. c\<lparr>chan_mask := (chan_mask c)(0 := True, 1 := True, 2 := True, 3 := True),
       ctrl_disabled := False, command_reg := 0, status_reg := 0, flip_flop := False\<rparr>)"

definition dma_reset :: "bx_dma \<Rightarrow> bx_dma" where
  "dma_reset d = reset_controller 1 (reset_controller 0 d)"

definition chan_init :: "dma_chan \<Rightarrow> dma_chan" where
  "chan_init c = c\<lparr>mode_type := 0, address_decrement := False, autoinit_enable := False,
     transfer_type := 0, base_address := 0, current_address := 0, base_count := 0,
     current_count := 0, page_reg := 0, used := False\<rparr>"

definition dma_init :: "bx_dma \<Rightarrow> bx_dma" where
  "dma_init d =
     (let d = d\<lparr>dma_ctl := (\<lambda>i. if i < 2 then (dma_ctl d i)
                \<lparr>DRQ := (\<lambda>j. if j < 4 then False else DRQ (dma_ctl d i) j),
                 DACK := (\<lambda>j. if j < 4 then False else DACK (dma_ctl d i) j),
                 chan := (\<lambda>j. if j < 4 then chan_init (chan (dma_ctl d i) j) else chan (dma_ctl d i) j)\<rparr>
              else dma_ctl d i), HLDA := False, TC := False, ext_page_reg := (\<lambda>_. 0)\<rparr>
      in upd_chan 1 0 (\<lambda>c. c\<lparr>used := True\<rparr>) d)"

section \<open>The request lines\<close>

text \<open>The highest-priority channel that is requested and not masked.\<close>

definition find_channel :: "dma_ctrl \<Rightarrow> nat option" where
  "find_channel c = List.find (\<lambda>k. bit (status_reg c) (k + 4) \<and> \<not> chan_mask c k) [0..<4]"

text \<open>
  \<open>set_DRQ\<close> and \<open>control_HRQ\<close> call each other: DMA-1 raises the cascade channel of DMA-2, DMA-2
  the hold request of the CPU. \<open>control_HRQ_with\<close> takes what it does to its line, and
  \<open>set_DRQ_with\<close> the control routine of its controller.
\<close>

definition control_HRQ_with :: "nat \<Rightarrow> (bool \<Rightarrow> bx_dma \<Rightarrow> bx_dma) \<Rightarrow> bx_dma \<Rightarrow> bx_dma" where
  "control_HRQ_with ma_sl line d =
     (let c = dma_ctl d ma_sl
      in if ctrl_disabled c then d
         else if status_reg c AND 0xf0 = 0 then line False d
         else case find_channel c of Some k \<Rightarrow> line True d | None \<Rightarrow> d)"

definition set_DRQ_with :: "(bx_dma \<Rightarrow> bx_dma) \<Rightarrow> nat \<Rightarrow> bool \<Rightarrow> bx_dma \<Rightarrow> bx_dma" where
  "set_DRQ_with control channel val d =
     (if channel > 7 then dma_panic ''set_DRQ() channel > 7'' d
      else let ma_sl = (if channel > 3 then 1 else 0);
               d = upd_ctl ma_sl (\<lambda>c. c\<lparr>DRQ := (DRQ c)(channel mod 4 := val)\<rparr>) d
      in if \<not> used (chan (dma_ctl d ma_sl) (channel mod 4))
         then dma_panic ''set_DRQ(): channel not connected to device'' d
         else let channel = channel mod 4
         in if \<not> val
            then control (upd_ctl ma_sl (\<lambda>c. c\<lparr>status_reg := status_reg c AND NOT (shl1 (channel + 4))\<rparr>) d)
            else let d = upd_ctl ma_sl (\<lambda>c. c\<lparr>status_reg := status_reg c OR shl1 (channel + 4)\<rparr>) d;
                     c = chan (dma_ctl d ma_sl) channel;
                     d = (if mode_type c \<noteq> 1 \<and> mode_type c \<noteq> 0 \<and> mode_type c \<noteq> 3
                          then dma_panic ''set_DRQ: mode_type not handled'' d else d);
                     dma_base = push_bit 16 (ucast (page_reg c)) OR push_bit ma_sl (ucast (base_address c)) :: u32;
                     dma_roof = (if \<not> address_decrement c then dma_base + push_bit ma_sl (ucast (base_count c))
                                 else dma_base - push_bit ma_sl (ucast (base_count c)));
                     m = push_bit ma_sl 0x7fff0000;
                     d = (if dma_base AND m \<noteq> dma_roof AND m
                          then dma_panic ''request outside 64k boundary'' d else d)
                 in control d)"

definition control_HRQ_master :: "bx_dma \<Rightarrow> bx_dma" where
  "control_HRQ_master = control_HRQ_with 1 set_pc_HRQ"

definition control_HRQ_slave :: "bx_dma \<Rightarrow> bx_dma" where
  "control_HRQ_slave = control_HRQ_with 0 (set_DRQ_with control_HRQ_master 4)"

definition control_HRQ :: "nat \<Rightarrow> bx_dma \<Rightarrow> bx_dma" where
  "control_HRQ ma_sl = (if ma_sl = 0 then control_HRQ_slave else control_HRQ_master)"

definition set_DRQ :: "nat \<Rightarrow> bool \<Rightarrow> bx_dma \<Rightarrow> bx_dma" where
  "set_DRQ channel = set_DRQ_with (control_HRQ (if channel > 3 then 1 else 0)) channel"

section \<open>The I/O ports\<close>

definition channelindex :: "nat \<Rightarrow> nat" where
  "channelindex k = [2, 3, 1, 0, 0, 0, 0] ! k"

text \<open>The port groups of the two controllers.\<close>

definition address_ports :: "u32 list" where
  "address_ports = [0x00, 0x02, 0x04, 0x06, 0xc0, 0xc4, 0xc8, 0xcc]"
definition count_ports :: "u32 list" where
  "count_ports = [0x01, 0x03, 0x05, 0x07, 0xc2, 0xc6, 0xca, 0xce]"
definition extra_page_ports :: "u32 list" where
  "extra_page_ports = [0x80, 0x84, 0x85, 0x86, 0x88, 0x8c, 0x8d, 0x8e]"

definition port_ctl :: "u32 \<Rightarrow> nat" where
  "port_ctl address = (if address \<ge> 0xc0 then 1 else 0)"

definition port_channel :: "u32 \<Rightarrow> nat" where
  "port_channel address = unat (drop_bit (1 + port_ctl address) address AND 0x03)"

text \<open>A byte of a 16-bit register, selected by the flip-flop, which toggles.\<close>

definition read_word :: "nat \<Rightarrow> u16 \<Rightarrow> bx_dma \<Rightarrow> u32 \<times> bx_dma" where
  "read_word ma_sl w d =
     (let d' = upd_ctl ma_sl (\<lambda>c. c\<lparr>flip_flop := \<not> flip_flop c\<rparr>) d
      in if \<not> flip_flop (dma_ctl d ma_sl) then (ucast (w AND 0xff), d') else (ucast (drop_bit 8 w), d'))"

definition dma_read :: "u32 \<Rightarrow> bx_dma \<Rightarrow> u32 \<times> bx_dma" where
  "dma_read address d =
     (let ma_sl = port_ctl address; c = dma_ctl d ma_sl; ch = port_channel address
      in if address \<in> set address_ports then read_word ma_sl (current_address (chan c ch)) d
         else if address \<in> set count_ports then read_word ma_sl (current_count (chan c ch)) d
         else if address = 0x08 \<or> address = 0xd0 then
           (ucast (status_reg c), upd_ctl ma_sl (\<lambda>c. c\<lparr>status_reg := status_reg c AND 0xf0\<rparr>) d)
         else if address = 0x0d \<or> address = 0xda then (0, d)
         else if address \<in> set [0x81, 0x82, 0x83, 0x87] then
           (ucast (page_reg (chan (dma_ctl d 0) (channelindex (unat (address - 0x81))))), d)
         else if address \<in> set [0x89, 0x8a, 0x8b, 0x8f] then
           (ucast (page_reg (chan (dma_ctl d 1) (channelindex (unat (address - 0x89))))), d)
         else if address \<in> set extra_page_ports then (ucast (ext_page_reg d (unat (address AND 0x0f))), d)
         else if address = 0x0f \<or> address = 0xde then
           (0xf0 OR (((of_bool (chan_mask c 0) OR push_bit 1 (of_bool (chan_mask c 1)))
              OR push_bit 2 (of_bool (chan_mask c 2))) OR push_bit 3 (of_bool (chan_mask c 3))), d)
         else (0, d))"

text \<open>The first byte written replaces the base and current registers, the second is ORed into the high byte.\<close>

definition write_byte :: "bool \<Rightarrow> u32 \<Rightarrow> u16 \<Rightarrow> u16" where
  "write_byte second value old = (if \<not> second then ucast value else old OR ucast (push_bit 8 value))"

definition dma_write1 :: "u32 \<Rightarrow> u32 \<Rightarrow> bx_dma \<Rightarrow> bx_dma" where
  "dma_write1 address value d =
     (let ma_sl = port_ctl address; ff = flip_flop (dma_ctl d ma_sl);
          channel = unat (value AND 0x03)
      in if address \<in> set address_ports then
           upd_ctl ma_sl (\<lambda>c. c\<lparr>flip_flop := \<not> flip_flop c\<rparr>)
             (upd_chan ma_sl (port_channel address) (\<lambda>c. c\<lparr>base_address := write_byte ff value (base_address c),
                current_address := write_byte ff value (current_address c)\<rparr>) d)
         else if address \<in> set count_ports then
           upd_ctl ma_sl (\<lambda>c. c\<lparr>flip_flop := \<not> flip_flop c\<rparr>)
             (upd_chan ma_sl (port_channel address) (\<lambda>c. c\<lparr>base_count := write_byte ff value (base_count c),
                current_count := write_byte ff value (current_count c)\<rparr>) d)
         else if address = 0x08 \<or> address = 0xd0 then
           control_HRQ ma_sl (upd_ctl ma_sl (\<lambda>c. c\<lparr>command_reg := ucast value,
             ctrl_disabled := drop_bit 2 value AND 0x01 \<noteq> 0\<rparr>) d)
         else if address = 0x09 \<or> address = 0xd2 then
           control_HRQ ma_sl (upd_ctl ma_sl (\<lambda>c. c\<lparr>status_reg :=
             (if tst value 0x04 then status_reg c OR shl1 (channel + 4)
              else status_reg c AND NOT (shl1 (channel + 4)))\<rparr>) d)
         else if address = 0x0a \<or> address = 0xd4 then
           control_HRQ ma_sl (upd_ctl ma_sl (\<lambda>c. c\<lparr>chan_mask := (chan_mask c)(channel := tst value 0x04)\<rparr>) d)
         else if address = 0x0b \<or> address = 0xd6 then
           upd_chan ma_sl channel (\<lambda>c. c\<lparr>mode_type := ucast (drop_bit 6 value AND 0x03),
             address_decrement := drop_bit 5 value AND 0x01 \<noteq> 0,
             autoinit_enable := drop_bit 4 value AND 0x01 \<noteq> 0,
             transfer_type := ucast (drop_bit 2 value AND 0x03)\<rparr>) d
         else if address = 0x0c \<or> address = 0xd8 then upd_ctl ma_sl (\<lambda>c. c\<lparr>flip_flop := False\<rparr>) d
         else if address = 0x0d \<or> address = 0xda then reset_controller ma_sl d
         else if address = 0x0e \<or> address = 0xdc then
           control_HRQ ma_sl (upd_ctl ma_sl (\<lambda>c. c\<lparr>chan_mask :=
             (chan_mask c)(0 := False, 1 := False, 2 := False, 3 := False)\<rparr>) d)
         else if address = 0x0f \<or> address = 0xde then
           control_HRQ ma_sl (upd_ctl ma_sl (\<lambda>c. c\<lparr>chan_mask :=
             (chan_mask c)(0 := bit value 0, 1 := bit value 1, 2 := bit value 2, 3 := bit value 3)\<rparr>) d)
         else if address \<in> set [0x81, 0x82, 0x83, 0x87] then
           upd_chan 0 (channelindex (unat (address - 0x81))) (\<lambda>c. c\<lparr>page_reg := ucast value\<rparr>) d
         else if address \<in> set [0x89, 0x8a, 0x8b, 0x8f] then
           upd_chan 1 (channelindex (unat (address - 0x89))) (\<lambda>c. c\<lparr>page_reg := ucast value\<rparr>) d
         else if address \<in> set extra_page_ports then
           d\<lparr>ext_page_reg := (ext_page_reg d)(unat (address AND 0x0f) := ucast value)\<rparr>
         else d)"

definition dma_write :: "u32 \<Rightarrow> u32 \<Rightarrow> nat \<Rightarrow> bx_dma \<Rightarrow> bx_dma" where
  "dma_write address value io_len d =
     (if io_len > 1 then
        if io_len = 2 \<and> address = 0x0b
        then dma_write1 (address + 1) (drop_bit 8 value) (dma_write1 address (value AND 0xff) d)
        else d
      else dma_write1 address value d)"

section \<open>The transfer\<close>

text \<open>A handler runs: its calls of \<open>set_DRQ\<close> take effect, its buffer and length are returned.\<close>

definition call_dev :: "dma_dev \<Rightarrow> dma_op \<Rightarrow> nat \<Rightarrow> u8 list \<Rightarrow> u16 \<Rightarrow> bx_dma \<Rightarrow> u8 list \<times> u16 \<times> bx_dma" where
  "call_dev dev op k buffer maxlen d =
     (case dev op k buffer maxlen d of (data, len, drqs) \<Rightarrow> (data, len, fold (\<lambda>(c, v). set_DRQ c v) drqs d))"

definition no_handler :: "bx_dma \<Rightarrow> bx_dma" where
  "no_handler = dma_panic ''no dmaWrite handler for channel''"

text \<open>The data phase: who moves how much between the device and memory. Result: \<open>len\<close>.\<close>

definition dma_data ::
    "dma_dev \<Rightarrow> (u64 \<Rightarrow> nat \<Rightarrow> u8 list) \<Rightarrow> nat \<Rightarrow> nat \<Rightarrow> u64 \<Rightarrow> u16 \<Rightarrow> bx_dma \<Rightarrow> u16 \<times> bx_dma" where
  "dma_data dev mem ma_sl channel phy_addr maxlen d =
     (let tt = transfer_type (chan (dma_ctl d ma_sl) channel);
          wr = (if ma_sl = 0 then Write8 else Write16);
          rd = (if ma_sl = 0 then Read8 else Read16);
          units = (if ma_sl = 0 then maxlen else maxlen div 2)
      in if tt = 1 then
           let (buffer, len, d) = (if handler d channel wr then call_dev dev wr channel [] units d
                                   else ([], 1, no_handler d))
           in (len, d\<lparr>bus := bus d @ [MemWrite phy_addr (unat len) buffer]\<rparr>)
         else if tt = 2 then
           let d = d\<lparr>bus := bus d @ [MemRead phy_addr (unat maxlen)]\<rparr>;
               buffer = mem phy_addr (unat maxlen)
           in if handler d channel rd
              then let (_, len, d) = call_dev dev rd channel buffer units d in (len, d)
              else (1, d)
         else if tt = 0 then
           if handler d channel wr
           then let (_, len, d) = call_dev dev wr channel [] 1 d in (len, d)
           else (1, no_handler d)
         else (1, dma_panic ''hlda: transfer_type 3 is undefined'' d))"

text \<open>The count and address registers after the data phase, and the terminal count.\<close>

definition dma_account :: "nat \<Rightarrow> nat \<Rightarrow> u16 \<Rightarrow> bx_dma \<Rightarrow> bx_dma" where
  "dma_account ma_sl channel len d =
     (let d = upd_ctl ma_sl (\<lambda>c. c\<lparr>DACK := (DACK c)(channel := True)\<rparr>) d;
          d = upd_chan ma_sl channel (\<lambda>c. c\<lparr>current_address := (if \<not> address_decrement c
                then current_address c + len else current_address c - 1)\<rparr>) d;
          d = upd_chan ma_sl channel (\<lambda>c. c\<lparr>current_count := current_count c - len\<rparr>) d
      in if current_count (chan (dma_ctl d ma_sl) channel) = 0xffff then
           let d = upd_ctl ma_sl (\<lambda>c. c\<lparr>status_reg := status_reg c OR shl1 channel\<rparr>) d;
               d = (if \<not> autoinit_enable (chan (dma_ctl d ma_sl) channel)
                    then upd_ctl ma_sl (\<lambda>c. c\<lparr>chan_mask := (chan_mask c)(channel := True)\<rparr>) d
                    else upd_chan ma_sl channel (\<lambda>c. c\<lparr>current_address := base_address c,
                           current_count := base_count c\<rparr>) d);
               d = set_pc_HRQ False (d\<lparr>TC := False, HLDA := False\<rparr>);
               d = upd_ctl ma_sl (\<lambda>c. c\<lparr>DACK := (DACK c)(channel := False)\<rparr>) d
           in if ma_sl = 0 then upd_ctl 1 (\<lambda>c. c\<lparr>DACK := (DACK c)(0 := False)\<rparr>) (set_DRQ 4 False d) else d
         else d)"

text \<open>The arbitration: the channel to serve and its controller.\<close>

definition dma_select :: "bx_dma \<Rightarrow> (nat \<times> nat) option" where
  "dma_select d =
     (case find_channel (dma_ctl d 1) of
        None \<Rightarrow> None
      | Some k \<Rightarrow> if k = 0 then map_option (\<lambda>j. (0, j)) (find_channel (dma_ctl d 0)) else Some (1, k))"

definition dma_maxlen :: "nat \<Rightarrow> dma_chan \<Rightarrow> u16 \<times> bool" where
  "dma_maxlen ma_sl c =
     (if \<not> address_decrement c
      then let maxlen = ucast (push_bit ma_sl (ucast (current_count c) + 1 :: u32)) :: u16
           in (if maxlen > of_nat BX_DMA_BUFFER_SIZE then of_nat BX_DMA_BUFFER_SIZE else maxlen,
               maxlen \<le> of_nat BX_DMA_BUFFER_SIZE)
      else (push_bit ma_sl 1, current_count c = 0))"

definition raise_HLDA :: "dma_dev \<Rightarrow> (u64 \<Rightarrow> nat \<Rightarrow> u8 list) \<Rightarrow> bx_dma \<Rightarrow> bx_dma" where
  "raise_HLDA dev mem d =
     (let d = d\<lparr>HLDA := True\<rparr>;
          sel = dma_select d;
          d = (if find_channel (dma_ctl d 1) = Some 0
               then upd_ctl 1 (\<lambda>c. c\<lparr>DACK := (DACK c)(0 := True)\<rparr>) d else d)
      in case sel of
           None \<Rightarrow> d
         | Some (ma_sl, channel) \<Rightarrow>
             let c = chan (dma_ctl d ma_sl) channel;
                 phy_addr = push_bit 16 (ucast (page_reg c)) OR push_bit ma_sl (ucast (current_address c)) :: u64;
                 (maxlen, tc) = dma_maxlen ma_sl c;
                 (len, d) = dma_data dev mem ma_sl channel phy_addr maxlen (d\<lparr>TC := tc\<rparr>)
             in dma_account ma_sl channel len d)"

section \<open>Views\<close>

lemma upd_ctl_simps [simp]:
  "dma_ctl (upd_ctl n f d) m = (if m = n then f (dma_ctl d n) else dma_ctl d m)"
  "HLDA (upd_ctl n f d) = HLDA d" "TC (upd_ctl n f d) = TC d" "handler (upd_ctl n f d) = handler d"
  "hrq (upd_ctl n f d) = hrq d" "bus (upd_ctl n f d) = bus d" "ext_page_reg (upd_ctl n f d) = ext_page_reg d"
  by (simp_all add: upd_ctl_def)

lemma upd_chan_simps [simp]:
  "chan (dma_ctl (upd_chan n k f d) m) j = (if m = n \<and> j = k then f (chan (dma_ctl d n) k) else chan (dma_ctl d m) j)"
  "flip_flop (dma_ctl (upd_chan n k f d) m) = flip_flop (dma_ctl d m)"
  "status_reg (dma_ctl (upd_chan n k f d) m) = status_reg (dma_ctl d m)"
  "chan_mask (dma_ctl (upd_chan n k f d) m) = chan_mask (dma_ctl d m)"
  "ctrl_disabled (dma_ctl (upd_chan n k f d) m) = ctrl_disabled (dma_ctl d m)"
  "handler (upd_chan n k f d) = handler d" "hrq (upd_chan n k f d) = hrq d" "TC (upd_chan n k f d) = TC d"
  "bus (upd_chan n k f d) = bus d"
  by (auto simp: upd_chan_def)

section \<open>The 16-bit registers behind 8-bit ports\<close>

lemma bytes_of_word:
  "write_byte True (ucast (drop_bit 8 (w :: u16))) (write_byte False (ucast (w AND 0xff)) v) = w"
proof (rule bit_word_eqI)
  fix n assume "n < LENGTH(16)"
  have m: "(0xff :: u16) = mask 8" by (simp add: mask_eq_exp_minus_1)
  show "bit (write_byte True (ucast (drop_bit 8 w)) (write_byte False (ucast (w AND 0xff)) v)) n = bit w n"
    using \<open>n < LENGTH(16)\<close> unfolding write_byte_def m
    by (auto simp: bit_or_iff bit_and_iff bit_unsigned_iff bit_push_bit_iff bit_drop_bit_eq bit_mask_iff
        dest: bit_imp_le_length)
qed

definition clear_port :: "u32 \<Rightarrow> u32" where
  "clear_port p = (if p \<ge> 0xc0 then 0xd8 else 0x0c)"

definition program_word :: "u32 \<Rightarrow> u16 \<Rightarrow> bx_dma \<Rightarrow> bx_dma" where
  "program_word p w d = dma_write p (ucast (drop_bit 8 w)) 1 (dma_write p (ucast (w AND 0xff)) 1
     (dma_write (clear_port p) 0 1 d))"

lemma clear_port_clears:
  "dma_write (clear_port p) 0 1 d = upd_ctl (port_ctl p) (\<lambda>c. c\<lparr>flip_flop := False\<rparr>) d"
  by (simp add: clear_port_def port_ctl_def dma_write_def dma_write1_def address_ports_def count_ports_def Let_def)

lemma program_word_state:
  "p \<in> set address_ports \<Longrightarrow> dma_ctl (program_word p w d) (port_ctl p) = (dma_ctl d (port_ctl p))\<lparr>flip_flop := False,
     chan := (chan (dma_ctl d (port_ctl p)))(port_channel p :=
       (chan (dma_ctl d (port_ctl p)) (port_channel p))\<lparr>base_address := w, current_address := w\<rparr>)\<rparr>"
  "p \<in> set count_ports \<Longrightarrow> dma_ctl (program_word p w d) (port_ctl p) = (dma_ctl d (port_ctl p))\<lparr>flip_flop := False,
     chan := (chan (dma_ctl d (port_ctl p)))(port_channel p :=
       (chan (dma_ctl d (port_ctl p)) (port_channel p))\<lparr>base_count := w, current_count := w\<rparr>)\<rparr>"
proof -
  have disj: "p \<notin> set count_ports \<or> p \<notin> set address_ports" by (auto simp: address_ports_def count_ports_def)
  have b: "write_byte True (ucast (drop_bit 8 w)) (write_byte False (ucast (w AND 0xff)) v) = w" for v
    by (rule bytes_of_word)
  show "p \<in> set address_ports \<Longrightarrow> dma_ctl (program_word p w d) (port_ctl p) = (dma_ctl d (port_ctl p))\<lparr>flip_flop := False,
     chan := (chan (dma_ctl d (port_ctl p)))(port_channel p :=
       (chan (dma_ctl d (port_ctl p)) (port_channel p))\<lparr>base_address := w, current_address := w\<rparr>)\<rparr>"
    unfolding program_word_def clear_port_clears
    by (simp add: dma_write_def dma_write1_def Let_def upd_chan_def b)
  show "p \<in> set count_ports \<Longrightarrow> dma_ctl (program_word p w d) (port_ctl p) = (dma_ctl d (port_ctl p))\<lparr>flip_flop := False,
     chan := (chan (dma_ctl d (port_ctl p)))(port_channel p :=
       (chan (dma_ctl d (port_ctl p)) (port_channel p))\<lparr>base_count := w, current_count := w\<rparr>)\<rparr>"
    using disj unfolding program_word_def clear_port_clears
    by (simp add: dma_write_def dma_write1_def Let_def upd_chan_def b)
qed


section \<open>A transfer on an 8-bit channel\<close>

text \<open>A device that moves at least one and at most the bytes it is offered, and leaves the request lines alone.\<close>

definition dev_moves :: "dma_dev \<Rightarrow> bool" where
  "dev_moves dev \<longleftrightarrow> (\<forall>op k buf maxlen d. case dev op k buf maxlen d of
     (_, len, drqs) \<Rightarrow> drqs = [] \<and> (1 \<le> maxlen \<longrightarrow> 1 \<le> len \<and> len \<le> maxlen))"

text \<open>
  Channel \<open>k\<close> of DMA-1 is being served: it wins the arbitration and nothing else wants the bus. An incrementing channel has
  less than the maximal count: of the whole 64 KiB its device is offered nothing (\<open>dma_offer_length\<close> below).
\<close>

definition serving :: "nat \<Rightarrow> bx_dma \<Rightarrow> bool" where
  "serving k d \<longleftrightarrow> find_channel (dma_ctl d 1) = Some 0 \<and> find_channel (dma_ctl d 0) = Some k \<and>
     (let c = chan (dma_ctl d 0) k in transfer_type c < 3 \<and> (address_decrement c \<or> current_count c < 0xffff)) \<and>
     handler d k Write8 \<and> handler d k Read8 \<and> used (chan (dma_ctl d 1) 0) \<and>
     status_reg (dma_ctl d 1) AND 0xe0 = 0 \<and> \<not> ctrl_disabled (dma_ctl d 1)"

section \<open>What a transfer has to put on the bus\<close>

text \<open>The bytes offered to the device in a cycle, of the \<open>n\<close> that are left, and the address after \<open>l\<close> of them have been moved.\<close>

definition offered :: "bool \<Rightarrow> nat \<Rightarrow> nat" where
  "offered down n = (if down then 1 else min BX_DMA_BUFFER_SIZE n)"

definition next_address :: "bool \<Rightarrow> nat \<Rightarrow> u16 \<Rightarrow> u16" where
  "next_address down l a = (if down then a - of_nat l else a + of_nat l)"

definition bus_address :: "u8 \<Rightarrow> u16 \<Rightarrow> u64" where
  "bus_address page a = push_bit 16 (ucast page) OR ucast a"

text \<open>
  The reference: the accesses of a transfer of \<open>n\<close> bytes from address \<open>a\<close> on, for the answers (buffer and length) of the device in
  the cycles. Type 1 writes what the device put into the buffer, type 2 reads what the device is offered, type 0 only counts.
\<close>

fun transfer_log :: "u8 \<Rightarrow> bool \<Rightarrow> u8 \<Rightarrow> u16 \<Rightarrow> nat \<Rightarrow> (u8 list \<times> nat) list \<Rightarrow> dma_bus list" where
  "transfer_log tt down page a n [] = []"
| "transfer_log tt down page a n ((buffer, l) # xs) =
     (if tt = 1 then [MemWrite (bus_address page a) l buffer]
      else if tt = 2 then [MemRead (bus_address page a) (offered down n)] else [])
     @ transfer_log tt down page (next_address down l a) (n - l) xs"

text \<open>The device's answer in the cycle that starts in \<open>d\<close>: a device that receives is given the contents of memory.\<close>

definition data_state :: "nat \<Rightarrow> bx_dma \<Rightarrow> bx_dma" where
  "data_state k d = (upd_ctl 1 (\<lambda>c. c\<lparr>DACK := (DACK c)(0 := True)\<rparr>) (d\<lparr>HLDA := True\<rparr>))
     \<lparr>TC := snd (dma_maxlen 0 (chan (dma_ctl d 0) k))\<rparr>"

definition dev_answer :: "dma_dev \<Rightarrow> (u64 \<Rightarrow> nat \<Rightarrow> u8 list) \<Rightarrow> nat \<Rightarrow> bx_dma \<Rightarrow> u8 list \<times> nat" where
  "dev_answer dev mem k d =
     (let c = chan (dma_ctl d 0) k; x = data_state k d; phy = bus_address (page_reg c) (current_address c);
          n = offered (address_decrement c) (unat (current_count c) + 1);
          (buffer, len, _) = (if transfer_type c = 1 then dev Write8 k [] (of_nat n) x
            else if transfer_type c = 2 then dev Read8 k (mem phy n) (of_nat n) (x\<lparr>bus := bus x @ [MemRead phy n]\<rparr>)
            else dev Write8 k [] 1 x)
      in (buffer, unat len))"

lemma find_channel_Some:
  "find_channel c = Some k \<longleftrightarrow> k < 4 \<and> bit (status_reg c) (k + 4) \<and> \<not> chan_mask c k \<and>
     (\<forall>j<k. \<not> (bit (status_reg c) (j + 4) \<and> \<not> chan_mask c j))"
  by (auto simp: find_channel_def find_Some_iff)

lemma find_channel_cong:
  "(\<And>j. j < 4 \<Longrightarrow> bit (status_reg c) (j + 4) = bit (status_reg c') (j + 4) \<and> chan_mask c j = chan_mask c' j)
   \<Longrightarrow> find_channel c = find_channel c'"
  unfolding find_channel_def by (rule find_cong) auto

lemma transfer_type_cases:
  assumes "(tt :: u8) < 3"
  shows "tt = 0 \<or> tt = 1 \<or> tt = 2"
proof -
  define n where "n = unat tt"
  have "n < 3" using assms by (simp add: n_def word_less_nat_alt)
  then have "n = 0 \<or> n = 1 \<or> n = 2" by arith
  moreover have "tt = of_nat n" by (simp add: n_def)
  ultimately show ?thesis by auto
qed

lemma dma_maxlen_offer:
  assumes "address_decrement c \<or> current_count c < 0xffff"
  shows "fst (dma_maxlen 0 c) = of_nat (offered (address_decrement c) (unat (current_count c) + 1))"
proof (cases "address_decrement c")
  case False
  then have c: "unat (current_count c) < 65535" using assms by (simp add: word_less_nat_alt)
  have u: "unat (ucast (current_count c) + 1 :: u32) = unat (current_count c) + 1"
    using c by (simp add: unat_word_ariths unsigned_ucast_eq take_bit_nat_eq_self)
  have m: "unat (ucast (ucast (current_count c) + 1 :: u32) :: u16) = unat (current_count c) + 1"
    using c u by (simp add: unsigned_ucast_eq take_bit_nat_eq_self)
  show ?thesis
  proof (rule word_unat_eq_iff [THEN iffD2])
    show "unat (fst (dma_maxlen 0 c)) = unat (of_nat (offered (address_decrement c) (unat (current_count c) + 1)) :: u16)"
      using False m by (simp add: dma_maxlen_def Let_def offered_def BX_DMA_BUFFER_SIZE_def word_less_nat_alt unsigned_of_nat
          take_bit_nat_eq_self min_def)
  qed
qed (simp add: dma_maxlen_def offered_def)

lemma offered_bounds:
  assumes "1 \<le> n"
  shows "1 \<le> offered down n" "offered down n \<le> n" "offered down n \<le> 512" "down \<Longrightarrow> offered down n = 1"
  using assms by (auto simp: offered_def BX_DMA_BUFFER_SIZE_def)

lemma dma_data_answer:
  assumes dev: "dev_moves dev" and s: "serving k d"
  defines "c \<equiv> chan (dma_ctl d 0) k" and "e \<equiv> data_state k d"
  defines "n \<equiv> offered (address_decrement c) (unat (current_count c) + 1)"
  shows "\<exists>buffer len. dma_data dev mem 0 k (bus_address (page_reg c) (current_address c)) (of_nat n) e
        = (of_nat len, e\<lparr>bus := bus d @ transfer_log (transfer_type c) (address_decrement c) (page_reg c) (current_address c)
             (unat (current_count c) + 1) [(buffer, len)]\<rparr>)
      \<and> dev_answer dev mem k d = (buffer, len) \<and> 1 \<le> len \<and> len \<le> n"
proof -
  have q: "\<exists>buf len. dev op j b mx x = (buf, len, []) \<and> (1 \<le> mx \<longrightarrow> 1 \<le> len \<and> len \<le> mx)" for op j b mx x
  proof -
    have "case dev op j b mx x of (_, len, drqs) \<Rightarrow> drqs = [] \<and> (1 \<le> mx \<longrightarrow> 1 \<le> len \<and> len \<le> mx)"
      by (rule dev [unfolded dev_moves_def, THEN spec, THEN spec, THEN spec, THEN spec, THEN spec])
    then show ?thesis by (auto split: prod.splits)
  qed
  have n: "1 \<le> n" "n \<le> 512" using offered_bounds [of "unat (current_count c) + 1"] by (simp_all add: n_def)
  then have nn: "unat (of_nat n :: u16) = n" by (simp add: unsigned_of_nat take_bit_nat_eq_self)
  have m: "1 \<le> (of_nat n :: u16)" using n nn by (simp add: word_le_nat_alt)
  have fits: "1 \<le> unat len \<and> unat len \<le> n" if "1 \<le> len" "len \<le> of_nat n" for len :: u16
    using that nn by (simp add: word_le_nat_alt)
  have e: "chan (dma_ctl e 0) k = c" "handler e k Write8" "handler e k Read8" "bus e = bus d"
    using s by (simp_all add: e_def data_state_def c_def serving_def)
  let ?phy = "bus_address (page_reg c) (current_address c)"
  let ?d2 = "e\<lparr>bus := bus e @ [MemRead ?phy n]\<rparr>"
  note a = dev_answer_def [of dev mem k d, folded c_def e_def, unfolded Let_def, folded n_def]
  obtain b1 l1 where 1: "dev Write8 k [] (of_nat n) e = (b1, l1, [])" "1 \<le> l1" "l1 \<le> of_nat n" using q m by metis
  obtain b2 l2 where 2: "dev Read8 k (mem ?phy n) (of_nat n) ?d2 = (b2, l2, [])" "1 \<le> l2" "l2 \<le> of_nat n" using q m by metis
  obtain b3 l3 where 3: "dev Write8 k [] 1 e = (b3, l3, [])" "1 \<le> l3" "l3 \<le> 1" using q [of Write8 k "[]" 1 e] by auto
  have l3: "l3 \<le> of_nat n" using 3(3) m by (rule order.trans)
  consider "transfer_type c = 0" | "transfer_type c = 1" | "transfer_type c = 2"
    using transfer_type_cases [of "transfer_type c"] s by (auto simp: serving_def Let_def c_def)
  then show ?thesis
  proof cases
    case 1
    then show ?thesis using 3 fits [OF 3(2) l3] e a
      by (intro exI [of _ b3] exI [of _ "unat l3"]) (simp add: dma_data_def call_dev_def)
  next
    case 2
    then show ?thesis using 1 fits [OF 1(2,3)] e a
      by (intro exI [of _ b1] exI [of _ "unat l1"]) (simp add: dma_data_def call_dev_def)
  next
    case 3
    then show ?thesis using 2 fits [OF 2(2,3)] e a nn
      by (intro exI [of _ b2] exI [of _ "unat l2"]) (simp add: dma_data_def call_dev_def n_def)
  qed
qed

text \<open>The lines after the terminal count of a channel of DMA-1; a channel with automatic initialization stays unmasked.\<close>

definition finished :: "nat \<Rightarrow> bx_dma \<Rightarrow> bool" where
  "finished k d \<longleftrightarrow> (chan_mask (dma_ctl d 0) k \<longleftrightarrow> \<not> autoinit_enable (chan (dma_ctl d 0) k)) \<and> bit (status_reg (dma_ctl d 0)) k \<and>
     \<not> DACK (dma_ctl d 0) k \<and> \<not> DACK (dma_ctl d 1) 0 \<and> \<not> TC d \<and> \<not> HLDA d \<and> \<not> hrq d"

lemma account_goes_on:
  assumes s: "serving k d" and m: "current_count (chan (dma_ctl d 0) k) - len \<noteq> 0xffff"
    and one: "address_decrement (chan (dma_ctl d 0) k) \<Longrightarrow> len = 1"
  defines "d' \<equiv> dma_account 0 k len d" and "c \<equiv> chan (dma_ctl d 0) k"
  shows "serving k d'" "bus d' = bus d"
    "chan (dma_ctl d' 0) k = c\<lparr>current_address := next_address (address_decrement c) (unat len) (current_address c),
       current_count := current_count c - len\<rparr>"
proof -
  let ?a = "\<lambda>c. c\<lparr>current_address := next_address (address_decrement c) (unat len) (current_address c), current_count := current_count c - len\<rparr>"
  have e: "dma_account 0 k len d = upd_chan 0 k ?a (upd_ctl 0 (\<lambda>c. c\<lparr>DACK := (DACK c)(k := True)\<rparr>) d)"
    using m one by (simp add: dma_account_def Let_def) (auto simp: upd_chan_def upd_ctl_def next_address_def)
  have f: "find_channel (dma_ctl d' 0) = find_channel (dma_ctl d 0)" "dma_ctl d' 1 = dma_ctl d 1"
    unfolding d'_def e by (auto intro: find_channel_cong simp: upd_chan_def)
  show c': "chan (dma_ctl d' 0) k = c\<lparr>current_address := next_address (address_decrement c) (unat len) (current_address c),
       current_count := current_count c - len\<rparr>"
    unfolding d'_def c_def e by simp
  show "bus d' = bus d" by (simp add: d'_def e)
  have "unat (current_count c - len) < 65536" using unsigned_less [of "current_count c - len"] by simp
  then have "current_count c - len < 0xffff" using m by (simp add: word_less_nat_alt word_unat_eq_iff c_def)
  then show "serving k d'" using s unfolding serving_def Let_def f c' by (simp add: d'_def e flip: c_def)
qed

lemma account_finishes:
  assumes s: "serving k d" and m: "current_count (chan (dma_ctl d 0) k) - len = 0xffff"
    and one: "address_decrement (chan (dma_ctl d 0) k) \<Longrightarrow> len = 1"
  defines "d' \<equiv> dma_account 0 k len d" and "c \<equiv> chan (dma_ctl d 0) k"
  shows "finished k d'" "bus d' = bus d"
    "chan (dma_ctl d' 0) k = (if autoinit_enable c then c\<lparr>current_address := base_address c, current_count := base_count c\<rparr>
       else c\<lparr>current_address := next_address (address_decrement c) (unat len) (current_address c), current_count := 0xffff\<rparr>)"
proof -
  have u: "used (chan (dma_ctl d 1) 0)" and en: "\<not> ctrl_disabled (dma_ctl d 1)" and k: "k < 4" "\<not> chan_mask (dma_ctl d 0) k"
    and st: "status_reg (dma_ctl d 1) AND 0xe0 = 0"
    using s by (simp_all add: serving_def Let_def find_channel_Some)
  have "(status_reg (dma_ctl d 1) AND NOT (shl1 4)) AND 0xf0 = 0"
  proof (rule bit_word_eqI)
    fix n assume n: "n < LENGTH(8)"
    have "bit (0xe0 :: u8) n = (n \<in> {5, 6, 7})" "bit (0xf0 :: u8) n = (n \<in> {4, 5, 6, 7})"
      using n by (auto elim!: less_8_cases)
    then show "bit ((status_reg (dma_ctl d 1) AND NOT (shl1 4)) AND 0xf0) n = bit 0 n"
      using arg_cong [OF st, of "\<lambda>w. bit w n"] by (auto simp: bit_and_iff bit_not_iff)
  qed
  note defs = d'_def c_def dma_account_def Let_def finished_def set_pc_HRQ_def set_DRQ_def set_DRQ_with_def
    control_HRQ_def control_HRQ_master_def control_HRQ_with_def
  show "finished k d'" "bus d' = bus d"
    using m u en k \<open>_ AND 0xf0 = 0\<close>
    by (cases "autoinit_enable c"; simp add: defs upd_chan_def)+
  show "chan (dma_ctl d' 0) k = (if autoinit_enable c then c\<lparr>current_address := base_address c, current_count := base_count c\<rparr>
       else c\<lparr>current_address := next_address (address_decrement c) (unat len) (current_address c), current_count := 0xffff\<rparr>)"
    using m u en k \<open>_ AND 0xf0 = 0\<close> one
    by (cases "autoinit_enable c"; cases "address_decrement c"; simp add: defs upd_chan_def next_address_def)
qed

lemma serving_cong:
  "serving k (d\<lparr>HLDA := b\<rparr>) = serving k d" "serving k (d\<lparr>TC := b\<rparr>) = serving k d" "serving k (d\<lparr>bus := l\<rparr>) = serving k d"
  "serving k (upd_ctl 1 (\<lambda>c. c\<lparr>DACK := f\<rparr>) d) = serving k d"
proof -
  have "find_channel (c\<lparr>DACK := f\<rparr>) = find_channel c" for c by (simp add: find_channel_def)
  then show "serving k (upd_ctl 1 (\<lambda>c. c\<lparr>DACK := f\<rparr>) d) = serving k d" by (simp add: serving_def Let_def)
qed (simp_all add: serving_def Let_def)

lemma serving_data_state: "serving k (data_state k d) = serving k d"
  using serving_cong(4) [where d = "d\<lparr>HLDA := True\<rparr>" and f = "(DACK (dma_ctl d 1))(0 := True)"]
  by (simp add: data_state_def serving_cong upd_ctl_def)

lemma count_left:
  assumes "1 \<le> l" "l \<le> unat (n :: u16) + 1"
  shows "n - of_nat l = 0xffff \<longleftrightarrow> l = unat n + 1" "l \<noteq> unat n + 1 \<Longrightarrow> unat (n - of_nat l) + 1 = unat n + 1 - l"
proof -
  have n: "unat n < 65536" using unsigned_less [of n] by simp
  have full: "n - of_nat l = 0xffff" if "l = unat n + 1" using that by simp
  have part: "unat (n - of_nat l) + 1 = unat n + 1 - l" if "l \<noteq> unat n + 1"
  proof -
    have l: "unat (of_nat l :: u16) = l" using that assms(2) n by (simp add: unsigned_of_nat take_bit_nat_eq_self)
    then have "of_nat l \<le> n" using that assms(2) by (simp add: word_le_nat_alt)
    then show ?thesis using l that assms(2) by (simp add: unat_sub)
  qed
  show "n - of_nat l = 0xffff \<longleftrightarrow> l = unat n + 1" 
    by (cases "l = unat n + 1") (use full part assms(1) n in \<open>auto simp: word_unat_eq_iff\<close>)
  show "unat (n - of_nat l) + 1 = unat n + 1 - l" if "l \<noteq> unat n + 1" by (rule part [OF that])
qed

lemma hlda_cycle:
  fixes mem :: "u64 \<Rightarrow> nat \<Rightarrow> u8 list"
  assumes s: "serving k d" and dev: "dev_moves dev"
  defines "d' \<equiv> raise_HLDA dev mem d" and "c \<equiv> chan (dma_ctl d 0) k"
  defines "n \<equiv> unat (current_count c) + 1" and "down \<equiv> address_decrement c"
  shows "\<exists>buffer l. dev_answer dev mem k d = (buffer, l) \<and> 1 \<le> l \<and> l \<le> n \<and>
     bus d' = bus d @ transfer_log (transfer_type c) down (page_reg c) (current_address c) n [(buffer, l)] \<and>
     (if l = n then finished k d' \<and> chan (dma_ctl d' 0) k = (if autoinit_enable c
          then c\<lparr>current_address := base_address c, current_count := base_count c\<rparr>
          else c\<lparr>current_address := next_address down l (current_address c), current_count := 0xffff\<rparr>)
      else serving k d' \<and> chan (dma_ctl d' 0) k =
          c\<lparr>current_address := next_address down l (current_address c), current_count := current_count c - of_nat l\<rparr>)"
proof -
  let ?e = "data_state k d"
  have ec: "chan (dma_ctl ?e 0) k = c" by (simp add: data_state_def c_def)
  have f: "find_channel (dma_ctl d 1) = Some 0" "find_channel (dma_ctl d 0) = Some k" and mx: "address_decrement c \<or> current_count c < 0xffff"
    using s by (simp_all add: serving_def Let_def c_def)
  obtain buffer l where D: "dma_data dev mem 0 k (bus_address (page_reg c) (current_address c)) (of_nat (offered down n)) ?e
        = (of_nat l, ?e\<lparr>bus := bus d @ transfer_log (transfer_type c) down (page_reg c) (current_address c) n [(buffer, l)]\<rparr>)"
    and A: "dev_answer dev mem k d = (buffer, l)" and l: "1 \<le> l" "l \<le> offered down n"
    using dma_data_answer [OF dev s, of mem] unfolding n_def down_def c_def by blast
  let ?x = "?e\<lparr>bus := bus d @ transfer_log (transfer_type c) down (page_reg c) (current_address c) n [(buffer, l)]\<rparr>"
  have d': "d' = dma_account 0 k (of_nat l) ?x"
    using f D dma_maxlen_offer [OF mx, folded n_def down_def] unfolding d'_def raise_HLDA_def
    by (simp add: Let_def dma_select_def split_beta data_state_def bus_address_def c_def)
  have sx: "serving k ?x" using s by (simp add: serving_cong serving_data_state)
  have n1: "1 \<le> n" by (simp add: n_def)
  have ln: "l \<le> n" and l512: "l \<le> 512" and one: "down \<Longrightarrow> l = 1"
    using l offered_bounds [OF n1, of down] by auto
  have ul: "unat (of_nat l :: u16) = l" using l512 by (simp add: unsigned_of_nat take_bit_nat_eq_self)
  have xc: "chan (dma_ctl ?x 0) k = c" using ec by simp
  have xd: "address_decrement (chan (dma_ctl ?x 0) k) \<Longrightarrow> (of_nat l :: u16) = 1" using one by (simp add: ec down_def)
  note G = account_goes_on [OF sx _ xd, unfolded xc ul, folded d'] and E = account_finishes [OF sx _ xd, unfolded xc ul, folded d']
  show ?thesis
  proof (cases "l = n")
    case True
    then have z: "current_count c - of_nat l = 0xffff" using count_left(1) [of l "current_count c"] l(1) ln by (simp add: n_def)
    show ?thesis using A l(1) ln True E [OF z] by (simp add: down_def)
  next
    case False
    then have z: "current_count c - of_nat l \<noteq> 0xffff" using count_left(1) [of l "current_count c"] l(1) ln by (simp add: n_def)
    show ?thesis using A l(1) ln False G [OF z] by (simp add: down_def)
  qed
qed

lemma next_address_add: "next_address down m (next_address down l a) = next_address down (l + m) a"
  by (simp add: next_address_def algebra_simps)

lemma transfer_completes:
  assumes "serving k d" "dev_moves dev"
  defines "c \<equiv> chan (dma_ctl d 0) k"
  defines "n \<equiv> unat (current_count c) + 1"
  shows "\<exists>m \<le> n. let d' = (raise_HLDA dev mem ^^ m) d; xs = map (\<lambda>i. dev_answer dev mem k ((raise_HLDA dev mem ^^ i) d)) [0..<m]
    in finished k d' \<and> sum_list (map snd xs) = n
       \<and> bus d' = bus d @ transfer_log (transfer_type c) (address_decrement c) (page_reg c) (current_address c) n xs
       \<and> chan (dma_ctl d' 0) k = (if autoinit_enable c then c\<lparr>current_address := base_address c, current_count := base_count c\<rparr>
          else c\<lparr>current_address := next_address (address_decrement c) n (current_address c), current_count := 0xffff\<rparr>)"
  using assms(1) unfolding c_def n_def
proof (induction "unat (current_count (chan (dma_ctl d 0) k))" arbitrary: d rule: less_induct)
  case less
  let ?d = "raise_HLDA dev mem d" and ?c = "chan (dma_ctl d 0) k"
  let ?n = "unat (current_count ?c) + 1" and ?down = "address_decrement ?c"
  obtain buffer l where A: "dev_answer dev mem k d = (buffer, l)" and l: "1 \<le> l" "l \<le> ?n"
    and bus: "bus ?d = bus d @ transfer_log (transfer_type ?c) ?down (page_reg ?c) (current_address ?c) ?n [(buffer, l)]"
    and I: "if l = ?n then finished k ?d \<and> chan (dma_ctl ?d 0) k = (if autoinit_enable ?c
          then ?c\<lparr>current_address := base_address ?c, current_count := base_count ?c\<rparr>
          else ?c\<lparr>current_address := next_address ?down l (current_address ?c), current_count := 0xffff\<rparr>)
      else serving k ?d \<and> chan (dma_ctl ?d 0) k =
          ?c\<lparr>current_address := next_address ?down l (current_address ?c), current_count := current_count ?c - of_nat l\<rparr>"
    using hlda_cycle [OF less.prems assms(2)] by blast
  show ?case
  proof (cases "l = ?n")
    case True
    then show ?thesis using I A bus by (intro exI [of _ 1]) (simp add: Let_def)
  next
    case False
    note left = count_left(2) [OF l False]
    have C: "chan (dma_ctl ?d 0) k = ?c\<lparr>current_address := next_address ?down l (current_address ?c), current_count := current_count ?c - of_nat l\<rparr>"
      and S: "serving k ?d" using I False by simp_all
    have "unat (current_count (chan (dma_ctl ?d 0) k)) < unat (current_count ?c)" using left l by (simp add: C)
    then have "\<exists>m \<le> ?n - l. let d' = (raise_HLDA dev mem ^^ m) ?d; xs = map (\<lambda>i. dev_answer dev mem k ((raise_HLDA dev mem ^^ i) ?d)) [0..<m]
        in finished k d' \<and> sum_list (map snd xs) = ?n - l
           \<and> bus d' = bus ?d @ transfer_log (transfer_type ?c) ?down (page_reg ?c) (next_address ?down l (current_address ?c)) (?n - l) xs
           \<and> chan (dma_ctl d' 0) k = (if autoinit_enable ?c then ?c\<lparr>current_address := base_address ?c, current_count := base_count ?c\<rparr>
              else ?c\<lparr>current_address := next_address ?down (?n - l) (next_address ?down l (current_address ?c)), current_count := 0xffff\<rparr>)"
      using less.hyps [OF _ S] by (simp add: C left left [simplified] cong: if_cong split del: if_split)
    then obtain m where m: "m \<le> ?n - l"
      and R: "let d' = (raise_HLDA dev mem ^^ m) ?d; xs = map (\<lambda>i. dev_answer dev mem k ((raise_HLDA dev mem ^^ i) ?d)) [0..<m]
        in finished k d' \<and> sum_list (map snd xs) = ?n - l
           \<and> bus d' = bus ?d @ transfer_log (transfer_type ?c) ?down (page_reg ?c) (next_address ?down l (current_address ?c)) (?n - l) xs
           \<and> chan (dma_ctl d' 0) k = (if autoinit_enable ?c then ?c\<lparr>current_address := base_address ?c, current_count := base_count ?c\<rparr>
              else ?c\<lparr>current_address := next_address ?down (?n - l) (next_address ?down l (current_address ?c)), current_count := 0xffff\<rparr>)"
      by blast
    have step: "(raise_HLDA dev mem ^^ Suc i) d = (raise_HLDA dev mem ^^ i) ?d" for i by (simp add: funpow_swap1)
    have xs: "map (\<lambda>i. dev_answer dev mem k ((raise_HLDA dev mem ^^ i) d)) [0..<Suc m]
        = (buffer, l) # map (\<lambda>i. dev_answer dev mem k ((raise_HLDA dev mem ^^ i) ?d)) [0..<m]"
      by (simp add: upt_conv_Cons A step flip: map_Suc_upt del: upt_Suc funpow.simps(2))
    have "Suc m \<le> ?n" using m l by linarith
    then show ?thesis
      using R l unfolding Let_def
      by (intro exI [of _ "Suc m"]) (simp only: xs step bus transfer_log.simps next_address_add
        append_Nil2 append.assoc list.simps sum_list_simps snd_conv simp_thms le_add_diff_inverse)
  qed
qed

section \<open>The length offered to the device\<close>

lemma dma_maxlen_value:
  assumes "\<not> address_decrement c" "s < 2"
  defines "n \<equiv> ((uint (current_count c) + 1) * 2 ^ s) mod 2 ^ 16"
  shows "uint (fst (dma_maxlen s c)) = min n 512" "snd (dma_maxlen s c) \<longleftrightarrow> n \<le> 512"
proof -
  have c: "0 \<le> uint (current_count c)" "uint (current_count c) < 2 ^ 16" using unsigned_less [of "current_count c"] by simp_all
  have s: "s = 0 \<or> s = 1" using assms(2) by auto
  define v where "v = (ucast (current_count c) + 1 :: u32)"
  have u: "uint v = uint (current_count c) + 1"
    using c by (simp add: v_def uint_plus_exact uint_ucast_up)
  have "uint (push_bit s v) = uint v * 2 ^ s"
    using s c u by (auto simp: push_bit_eq_mult uint_word_ariths)
  then have m: "uint (ucast (push_bit s v) :: u16) = n"
    by (simp add: n_def u unsigned_ucast_eq take_bit_eq_mod)
  show "uint (fst (dma_maxlen s c)) = min n 512" "snd (dma_maxlen s c) \<longleftrightarrow> n \<le> 512"
    using assms(1) by (simp_all add: dma_maxlen_def Let_def BX_DMA_BUFFER_SIZE_def word_less_def word_le_def m min_def
        flip: v_def)
qed

text \<open>
  A 16-bit device-to-memory transfer: the handler returns a number of words, and that many bytes are
  written to memory.
\<close>

lemma dma_word_write_length:
  assumes "transfer_type (chan (dma_ctl d 1) k) = 1" "handler d k Write16"
    "dev Write16 k [] (maxlen div 2) d = (buffer, words, [])"
  shows "bus (snd (dma_data dev mem 1 k phy maxlen d)) = bus d @ [MemWrite phy (unat words) buffer]"
  using assms by (simp add: dma_data_def call_dev_def)

section \<open>A programmed transfer, for the examples\<close>

definition blank_dma :: bx_dma where
  "blank_dma = \<lparr>dma_ctl = (\<lambda>_. \<lparr>DRQ = (\<lambda>_. False), DACK = (\<lambda>_. False), chan_mask = (\<lambda>_. False), flip_flop = False,
     status_reg = 0, command_reg = 0, ctrl_disabled = False, chan = (\<lambda>_. \<lparr>mode_type = 0, address_decrement = False,
       autoinit_enable = False, transfer_type = 0, base_address = 0, current_address = 0, base_count = 0,
       current_count = 0, page_reg = 0, used = False\<rparr>)\<rparr>), HLDA = False, TC = False, ext_page_reg = (\<lambda>_. 0),
     handler = (\<lambda>_ _. False), hrq = False, bus = [], dma_panics = []\<rparr>"

definition floppy_read :: "u16 \<Rightarrow> bx_dma" where
  "floppy_read n =
     (let d = upd_ctl 1 (\<lambda>c. c\<lparr>status_reg := 0x10\<rparr>) (upd_chan 1 0 (\<lambda>c. c\<lparr>used := True, mode_type := 3\<rparr>) blank_dma);
          d = upd_chan 0 2 (\<lambda>c. c\<lparr>used := True, mode_type := 1, transfer_type := 1, base_address := 0x2000,
                current_address := 0x2000, base_count := n, current_count := n\<rparr>) d;
          d = upd_ctl 0 (\<lambda>c. c\<lparr>status_reg := 0x40, chan_mask := (\<lambda>k. k \<noteq> 2)\<rparr>) d
      in d\<lparr>handler := (\<lambda>k _. k = 2), hrq := True\<rparr>)"

definition byte_dev :: dma_dev where
  "byte_dev op k buf maxlen d = ([0x55], 1, [])"

lemma byte_dev_moves: "dev_moves byte_dev"
  by (simp add: dev_moves_def byte_dev_def)

lemma all_less_2: "(\<forall>j<2. P j) \<longleftrightarrow> P 0 \<and> P (1 :: nat)"
  by (auto simp: less_2_cases_iff)

lemma floppy_read_serving: "n < 0xffff \<Longrightarrow> serving 2 (floppy_read n)"
  by (simp add: serving_def Let_def floppy_read_def blank_dma_def find_channel_Some upd_chan_def upd_ctl_def
      bit_simps all_less_2)

section \<open>Properties\<close>

text \<open>Address and count registers behind the byte-wide ports.  After the flip-flop has been cleared,
  writing the low and the high byte of a word to the address or count port of any of the eight channels
  sets base and current register to that word, and reading the port twice returns its two bytes and
  leaves the flip-flop clear.\<close>

theorem dma_word_ports:
  fixes d :: bx_dma and w :: u16
  assumes "p \<in> set address_ports \<union> set count_ports"
  defines "d1 \<equiv> program_word p w d" and "s \<equiv> port_ctl p" and "k \<equiv> port_channel p"
  shows "(let (a, d2) = dma_read p d1; (b, d3) = dma_read p d2; c = chan (dma_ctl d3 s) k
          in a = ucast (w AND 0xff) \<and> b = ucast (drop_bit 8 w) \<and> \<not> flip_flop (dma_ctl d3 s) \<and>
             (if p \<in> set address_ports then base_address c = w \<and> current_address c = w
              else base_count c = w \<and> current_count c = w))"
proof (cases "p \<in> set address_ports")
  case True
  then show ?thesis unfolding d1_def s_def k_def
    by (simp add: dma_read_def read_word_def Let_def program_word_state(1) [OF True])
next
  case False
  then have p: "p \<in> set count_ports" using assms(1) by simp
  show ?thesis using False p unfolding d1_def s_def k_def
    by (simp add: dma_read_def read_word_def Let_def program_word_state(2) [OF p])
qed

theorem dma_word_ports_witness:
  "current_address (chan (dma_ctl (snd (dma_read 0xc8 (snd (dma_read 0xc8 (program_word 0xc8 0x1234 blank_dma))))) 1) 2) = 0x1234"
  using dma_word_ports [where p = "0xc8" and w = "0x1234" and d = blank_dma]
  by (simp add: address_ports_def count_ports_def port_ctl_def port_channel_def split_beta Let_def)



text \<open>What the device is offered.  For an incrementing channel the length is the remaining count in
  bytes, cut to the buffer, and TC announces that the rest fits the buffer - computed modulo \<open>2 ^ 16\<close>:
  with the maximal count of an 8-bit channel (64 KiB) the device is offered zero bytes and told that
  the terminal count is reached.\<close>

theorem dma_offer_length:
  assumes "\<not> address_decrement c" and "s < 2"
  shows "uint (fst (dma_maxlen s c)) = min (((uint (current_count c) + 1) * 2 ^ s) mod 2 ^ 16) 512 \<and>
    (snd (dma_maxlen s c) \<longleftrightarrow> ((uint (current_count c) + 1) * 2 ^ s) mod 2 ^ 16 \<le> 512) \<and>
    dma_maxlen 0 (c\<lparr>current_count := 0xffff\<rparr>) = (0, True)"
proof -
  have "uint (fst (dma_maxlen 0 (c\<lparr>current_count := 0xffff\<rparr>))) = 0" "snd (dma_maxlen 0 (c\<lparr>current_count := 0xffff\<rparr>))"
    using dma_maxlen_value [of "c\<lparr>current_count := 0xffff\<rparr>" 0] assms(1) by simp_all
  then show ?thesis using dma_maxlen_value [OF assms] by (simp add: prod_eq_iff uint_0_iff)
qed

theorem dma_offer_length_witness:
  "uint (fst (dma_maxlen 1 (chan (dma_ctl blank_dma 1) 2))) = 2"
  using dma_offer_length [of "chan (dma_ctl blank_dma 1) 2" 1] by (simp add: blank_dma_def)


end
