(* ===== verification/Lapic.thy ===== *)
theory Lapic
  imports Bits
begin

text \<open>
  The local APICs of src/cpu/apic.cc and apic.h, and the bus between them.

  The APICs of the machine are a list (\<open>BX_CPU_APIC(i)\<close> is its element i); a function of one APIC
  takes and returns a \<open>lapic\<close>, one that sends to others takes the list and the number of the sender.
  The bit BX\_EVENT\_PENDING\_LAPIC\_INTR of the CPU's pending events is the field \<open>lapic_intr\<close>. Calls of
  the CPU, of the timers and of the I/O APIC are recorded in \<open>lapic_calls\<close>; the reading of the clock
  is an argument \<open>now\<close>. The set of vectors of a 256-bit register is \<open>vectors\<close>, and the priority
  search of the code is shown to find its maximum. The central invariant says that an interrupt the
  processor priority lets through is never left unsignalled.
\<close>

section \<open>State\<close>

text \<open>What the APICs share: the width of an APIC id and the extensions the CPU model supports.\<close>

record apic_cfg =
  apic_id_mask :: u32
  isa_xapic_ext :: bool
  isa_tsc_deadline :: bool

datatype lapic_call = Deliver_SMI | Deliver_NMI | Deliver_INIT | Deliver_SIPI u8
  | Broadcast_eoi u8 | Wakeup_monitor | Signal_vmx_timer
  | Timer_activate int u64 | Timer_deactivate int

record lapic =
  lapic_base_addr :: u64
  apic_mode :: u64
  xapic :: bool
  xapic_ext :: u32
  lapic_id :: u32
  apic_version_id :: u32
  software_enabled :: bool
  spurious_vector :: u8
  focus_disable :: bool
  task_priority :: u32
  ldr :: u32
  dest_format :: u32
  lapic_isr :: "u32 list"
  lapic_tmr :: "u32 list"
  lapic_irr :: "u32 list"
  lapic_ier :: "u32 list"
  error_status :: u32
  shadow_error_status :: u32
  icr_hi :: u32
  icr_lo :: u32
  lvt :: "u32 list"
  timer_initial :: u32
  timer_current :: u32
  ticksInitial :: u64
  timer_divconf :: u32
  timer_divide_factor :: u32
  lapic_timer_active :: bool
  lapic_timer_handle :: int
  vmx_timer_handle :: int
  vmx_preemption_timer_value :: u32
  vmx_preemption_timer_initial :: u64
  vmx_preemption_timer_fire :: u64
  vmx_preemption_timer_rate :: u32
  vmx_timer_active :: bool
  mwaitx_timer_handle :: int
  mwaitx_timer_active :: bool
  lapic_intr :: bool
  lapic_calls :: "lapic_call list"
  lapic_panics :: "string list"

definition call :: "lapic_call \<Rightarrow> lapic \<Rightarrow> lapic" where
  "call e a = a\<lparr>lapic_calls := lapic_calls a @ [e]\<rparr>"

definition lapic_panic :: "string \<Rightarrow> lapic \<Rightarrow> lapic" where
  "lapic_panic msg a = a\<lparr>lapic_panics := lapic_panics a @ [msg]\<rparr>"

definition bx_assert :: "bool \<Rightarrow> lapic \<Rightarrow> lapic" where
  "bx_assert p a = (if p then a else lapic_panic ''failed assertion'' a)"

text \<open>The registers, as in the enumeration of apic.h.\<close>

abbreviation (input) "BX_LAPIC_ID \<equiv> 0x020 :: u32"
abbreviation (input) "BX_LAPIC_VERSION \<equiv> 0x030 :: u32"
abbreviation (input) "BX_LAPIC_TPR \<equiv> 0x080 :: u32"
abbreviation (input) "BX_LAPIC_ARBITRATION_PRIORITY \<equiv> 0x090 :: u32"
abbreviation (input) "BX_LAPIC_PPR \<equiv> 0x0A0 :: u32"
abbreviation (input) "BX_LAPIC_EOI \<equiv> 0x0B0 :: u32"
abbreviation (input) "BX_LAPIC_RRD \<equiv> 0x0C0 :: u32"
abbreviation (input) "BX_LAPIC_LDR \<equiv> 0x0D0 :: u32"
abbreviation (input) "BX_LAPIC_DESTINATION_FORMAT \<equiv> 0x0E0 :: u32"
abbreviation (input) "BX_LAPIC_SPURIOUS_VECTOR \<equiv> 0x0F0 :: u32"
abbreviation (input) "BX_LAPIC_ISR1 \<equiv> 0x100 :: u32"
abbreviation (input) "BX_LAPIC_ISR8 \<equiv> 0x170 :: u32"
abbreviation (input) "BX_LAPIC_TMR1 \<equiv> 0x180 :: u32"
abbreviation (input) "BX_LAPIC_TMR8 \<equiv> 0x1F0 :: u32"
abbreviation (input) "BX_LAPIC_IRR1 \<equiv> 0x200 :: u32"
abbreviation (input) "BX_LAPIC_IRR8 \<equiv> 0x270 :: u32"
abbreviation (input) "BX_LAPIC_ESR \<equiv> 0x280 :: u32"
abbreviation (input) "BX_LAPIC_LVT_CMCI \<equiv> 0x2F0 :: u32"
abbreviation (input) "BX_LAPIC_ICR_LO \<equiv> 0x300 :: u32"
abbreviation (input) "BX_LAPIC_ICR_HI \<equiv> 0x310 :: u32"
abbreviation (input) "BX_LAPIC_LVT_TIMER \<equiv> 0x320 :: u32"
abbreviation (input) "BX_LAPIC_LVT_ERROR \<equiv> 0x370 :: u32"
abbreviation (input) "BX_LAPIC_TIMER_INITIAL_COUNT \<equiv> 0x380 :: u32"
abbreviation (input) "BX_LAPIC_TIMER_CURRENT_COUNT \<equiv> 0x390 :: u32"
abbreviation (input) "BX_LAPIC_TIMER_DIVIDE_CFG \<equiv> 0x3E0 :: u32"
abbreviation (input) "BX_LAPIC_SELF_IPI \<equiv> 0x3F0 :: u32"
abbreviation (input) "BX_LAPIC_EXT_APIC_FEATURE \<equiv> 0x400 :: u32"
abbreviation (input) "BX_LAPIC_EXT_APIC_CONTROL \<equiv> 0x410 :: u32"
abbreviation (input) "BX_LAPIC_SPECIFIC_EOI \<equiv> 0x420 :: u32"
abbreviation (input) "BX_LAPIC_IER1 \<equiv> 0x480 :: u32"
abbreviation (input) "BX_LAPIC_IER8 \<equiv> 0x4F0 :: u32"

abbreviation (input) "APIC_DM_FIXED \<equiv> 0 :: u8"
abbreviation (input) "APIC_DM_LOWPRI \<equiv> 1 :: u8"
abbreviation (input) "APIC_DM_SMI \<equiv> 2 :: u8"
abbreviation (input) "APIC_DM_NMI \<equiv> 4 :: u8"
abbreviation (input) "APIC_DM_INIT \<equiv> 5 :: u8"
abbreviation (input) "APIC_DM_SIPI \<equiv> 6 :: u8"
abbreviation (input) "APIC_DM_EXTINT \<equiv> 7 :: u8"

abbreviation (input) "APIC_ERR_ILLEGAL_ADDR \<equiv> 0x80 :: u32"
abbreviation (input) "APIC_ERR_RX_ILLEGAL_VEC \<equiv> 0x40 :: u32"
abbreviation (input) "APIC_ERR_TX_ACCEPT_ERR \<equiv> 0x04 :: u32"

abbreviation (input) "BX_APIC_GLOBALLY_DISABLED \<equiv> 0 :: u64"
abbreviation (input) "BX_APIC_XAPIC_MODE \<equiv> 2 :: u64"
abbreviation (input) "BX_APIC_X2APIC_MODE \<equiv> 3 :: u64"

abbreviation (input) "BX_XAPIC_EXT_SUPPORT_IER \<equiv> 1 :: u32"
abbreviation (input) "BX_XAPIC_EXT_SUPPORT_SEOI \<equiv> 2 :: u32"

definition BX_LAPIC_BASE_ADDR :: u64 where "BX_LAPIC_BASE_ADDR = 0xfee00000"
definition BX_LAPIC_FIRST_VECTOR :: u8 where "BX_LAPIC_FIRST_VECTOR = 0x10"
definition APIC_LVT_TIMER :: nat where "APIC_LVT_TIMER = 0"
definition APIC_LVT_CMCI :: nat where "APIC_LVT_CMCI = 6"
definition APIC_LVT_ENTRIES :: nat where "APIC_LVT_ENTRIES = 7"
definition VMX_MISC_PREEMPTION_TIMER_RATE :: u32 where "VMX_MISC_PREEMPTION_TIMER_RATE = 0"

section \<open>Vector registers and priorities\<close>

definition get_vector :: "u32 list \<Rightarrow> nat \<Rightarrow> bool" where
  "get_vector reg vector \<longleftrightarrow> drop_bit (vector mod 32) (reg ! (vector div 32)) AND 0x1 \<noteq> 0"

definition set_vector :: "nat \<Rightarrow> u32 list \<Rightarrow> u32 list" where
  "set_vector vector reg = reg[vector div 32 := reg ! (vector div 32) OR shl1 (vector mod 32)]"

definition clear_vector :: "nat \<Rightarrow> u32 list \<Rightarrow> u32 list" where
  "clear_vector vector reg = reg[vector div 32 := reg ! (vector div 32) AND NOT (shl1 (vector mod 32))]"

definition most_significant_bitd :: "u32 \<Rightarrow> nat" where
  "most_significant_bitd val_32 = 31 - lzcntd val_32"

text \<open>The loop over the registers from the last one down; minus one when no vector is found.\<close>

fun highest_in :: "u32 list \<Rightarrow> u32 list \<Rightarrow> nat \<Rightarrow> int" where
  "highest_in ier array 0 = -1"
| "highest_in ier array (Suc reg) =
     (let tmp = array ! reg AND ier ! reg
      in if tmp \<noteq> 0 then int (reg * 32 + most_significant_bitd tmp) else highest_in ier array reg)"

definition highest_priority_int :: "lapic \<Rightarrow> u32 list \<Rightarrow> int" where
  "highest_priority_int a array = highest_in (lapic_ier a) array 8"

definition service_local_apic :: "lapic \<Rightarrow> lapic" where
  "service_local_apic a =
     (if lapic_intr a then a
      else let first_irr = highest_priority_int a (lapic_irr a)
           in if first_irr < 0 then a
              else let first_isr = highest_priority_int a (lapic_isr a)
                   in if first_isr \<ge> 0 \<and> first_irr \<le> first_isr then a
                      else if (of_int first_irr :: u32) AND 0xf0 \<le> task_priority a AND 0xf0 then a
                      else a\<lparr>lapic_intr := True\<rparr>)"

definition trigger_irq_with :: "bool \<Rightarrow> u8 \<Rightarrow> bool \<Rightarrow> lapic \<Rightarrow> lapic" where
  "trigger_irq_with bypass_irr_isr vector trigger_mode a =
     (if vector < BX_LAPIC_FIRST_VECTOR
      then a\<lparr>shadow_error_status := shadow_error_status a OR APIC_ERR_RX_ILLEGAL_VEC\<rparr>
      else if \<not> bypass_irr_isr \<and> get_vector (lapic_irr a) (unat vector) then a
      else let a = a\<lparr>lapic_irr := set_vector (unat vector) (lapic_irr a)\<rparr>;
               a = (if trigger_mode then a\<lparr>lapic_tmr := set_vector (unat vector) (lapic_tmr a)\<rparr>
                    else a\<lparr>lapic_tmr := clear_vector (unat vector) (lapic_tmr a)\<rparr>)
           in service_local_apic a)"

definition trigger_irq :: "u8 \<Rightarrow> bool \<Rightarrow> lapic \<Rightarrow> lapic" where
  "trigger_irq = trigger_irq_with False"

definition untrigger_irq :: "u8 \<Rightarrow> lapic \<Rightarrow> lapic" where
  "untrigger_irq vector a =
     (let a = bx_assert (get_vector (lapic_irr a) (unat vector)) a
      in a\<lparr>lapic_irr := clear_vector (unat vector) (lapic_irr a)\<rparr>)"

definition get_ppr :: "lapic \<Rightarrow> u8" where
  "get_ppr a =
     (let ppr = highest_priority_int a (lapic_isr a)
      in if ppr < 0 \<or> task_priority a AND 0xF0 \<ge> (of_int ppr :: u32) AND 0xF0
         then ucast (task_priority a)
         else of_int (ppr AND 0xF0))"

definition get_tpr :: "lapic \<Rightarrow> u8" where "get_tpr a = ucast (task_priority a)"

definition set_tpr :: "u8 \<Rightarrow> lapic \<Rightarrow> lapic" where
  "set_tpr priority a =
     (if ucast priority < task_priority a
      then service_local_apic (a\<lparr>task_priority := ucast priority\<rparr>)
      else a\<lparr>task_priority := ucast priority\<rparr>)"

definition get_apr :: "lapic \<Rightarrow> u8" where
  "get_apr a =
     (let tpr = drop_bit 4 (task_priority a) AND 0xf;
          first_isr = highest_priority_int a (lapic_isr a);
          first_isr = (if first_isr < 0 then 0 else first_isr);
          first_irr = highest_priority_int a (lapic_irr a);
          first_irr = (if first_irr < 0 then 0 else first_irr);
          isrv = of_int (drop_bit 4 first_isr AND 0xf) :: u32;
          irrv = of_int (drop_bit 4 first_irr AND 0xf) :: u32
      in if tpr \<ge> irrv \<and> tpr > isrv then ucast (task_priority a AND 0xff)
         else let apr = ucast (if tpr AND isrv > irrv then tpr AND isrv else irrv) :: u8
              in push_bit 4 apr)"

definition is_focus :: "u8 \<Rightarrow> lapic \<Rightarrow> bool" where
  "is_focus vector a =
     (if focus_disable a then False
      else get_vector (lapic_irr a) (unat vector) \<or> get_vector (lapic_isr a) (unat vector))"

definition acknowledge_int :: "lapic \<Rightarrow> u8 \<times> lapic" where
  "acknowledge_int a =
     (let a = (if \<not> lapic_intr a then lapic_panic ''acknowledged an interrupt, but INTR=0'' a else a);
          vector = highest_priority_int a (lapic_irr a)
      in if vector < 0 \<or> vector AND 0xf0 \<le> uint (get_ppr a)
         then (spurious_vector a, a\<lparr>lapic_intr := False\<rparr>)
         else let a = bx_assert (get_vector (lapic_irr a) (nat vector)) a;
                  a = a\<lparr>lapic_irr := clear_vector (nat vector) (lapic_irr a)\<rparr>;
                  a = a\<lparr>lapic_isr := set_vector (nat vector) (lapic_isr a)\<rparr>;
                  a = a\<lparr>lapic_intr := False\<rparr>
              in (of_int vector, service_local_apic a))"

text \<open>The common part of \<open>receive_EOI\<close> and \<open>receive_SEOI\<close>.\<close>

definition end_of_interrupt :: "nat \<Rightarrow> lapic \<Rightarrow> lapic" where
  "end_of_interrupt vec a =
     (let a = a\<lparr>lapic_isr := clear_vector vec (lapic_isr a)\<rparr>;
          a = (if get_vector (lapic_tmr a) vec
               then let a = call (Broadcast_eoi (of_nat vec)) a
                    in a\<lparr>lapic_tmr := clear_vector vec (lapic_tmr a)\<rparr>
               else a)
      in service_local_apic a)"

definition receive_EOI :: "lapic \<Rightarrow> lapic" where
  "receive_EOI a =
     (let vec = highest_priority_int a (lapic_isr a)
      in if vec < 0 then a
         else if (of_int vec :: u32) \<noteq> ucast (spurious_vector a) then end_of_interrupt (nat vec) a
         else a)"

definition receive_SEOI :: "u8 \<Rightarrow> lapic \<Rightarrow> lapic" where
  "receive_SEOI vec a =
     (if xapic_ext a AND BX_XAPIC_EXT_SUPPORT_SEOI = 0 then a
      else if get_vector (lapic_isr a) (unat vec) then end_of_interrupt (unat vec) a
      else a)"

section \<open>Configuration\<close>

definition write_spurious_interrupt_register :: "u32 \<Rightarrow> lapic \<Rightarrow> lapic" where
  "write_spurious_interrupt_register value a =
     (let a = (if xapic a then a\<lparr>spurious_vector := ucast (value AND 0xff)\<rparr>
               else a\<lparr>spurious_vector := ucast ((value AND 0xf0) OR 0xf)\<rparr>);
          a = a\<lparr>software_enabled := drop_bit 8 value AND 1 \<noteq> 0, focus_disable := drop_bit 9 value AND 1 \<noteq> 0\<rparr>
      in if \<not> software_enabled a then a\<lparr>lvt := map (\<lambda>e. e OR 0x10000) (lvt a)\<rparr> else a)"

definition set_base :: "u64 \<Rightarrow> lapic \<Rightarrow> lapic" where
  "set_base newbase a =
     (let a = a\<lparr>apic_mode := drop_bit 10 newbase AND 3\<rparr>;
          newbase = newbase AND NOT 0xfff;
          a = a\<lparr>lapic_base_addr := newbase\<rparr>;
          a = (if apic_mode a = BX_APIC_X2APIC_MODE
               then a\<lparr>ldr := push_bit 16 (lapic_id a AND 0xfffffff0) OR push_bit (unat (lapic_id a AND 0xf)) 1\<rparr>
               else a)
      in if apic_mode a = BX_APIC_GLOBALLY_DISABLED then write_spurious_interrupt_register 0xff a else a)"

definition is_selected :: "u64 \<Rightarrow> lapic \<Rightarrow> bool" where
  "is_selected addr a =
     (if apic_mode a \<noteq> BX_APIC_XAPIC_MODE then False else addr AND NOT 0xfff = lapic_base_addr a)"

definition enable_xapic_extensions :: "lapic \<Rightarrow> lapic" where
  "enable_xapic_extensions a =
     a\<lparr>apic_version_id := apic_version_id a OR 0x80000000,
       xapic_ext := BX_XAPIC_EXT_SUPPORT_IER OR BX_XAPIC_EXT_SUPPORT_SEOI\<rparr>"

definition lapic_reset :: "lapic \<Rightarrow> lapic" where
  "lapic_reset a =
     (let a = a\<lparr>lapic_base_addr := BX_LAPIC_BASE_ADDR, error_status := 0, shadow_error_status := 0,
                ldr := 0, dest_format := 0xf, icr_hi := 0, icr_lo := 0, task_priority := 0,
                lapic_irr := replicate 8 0, lapic_isr := replicate 8 0, lapic_tmr := replicate 8 0,
                lapic_ier := replicate 8 0xFFFFFFFF,
                timer_divconf := 0, timer_divide_factor := 1, timer_initial := 0, timer_current := 0,
                ticksInitial := 0\<rparr>;
          a = (if lapic_timer_active a
               then (call (Timer_deactivate (lapic_timer_handle a)) a)\<lparr>lapic_timer_active := False\<rparr> else a);
          a = (if vmx_timer_active a
               then (call (Timer_deactivate (vmx_timer_handle a)) a)\<lparr>vmx_timer_active := False\<rparr> else a);
          a = (if mwaitx_timer_active a
               then (call (Timer_deactivate (mwaitx_timer_handle a)) a)\<lparr>mwaitx_timer_active := False\<rparr> else a);
          a = a\<lparr>lvt := replicate APIC_LVT_ENTRIES 0x10000,
                spurious_vector := 0xff, software_enabled := False, focus_disable := False,
                apic_mode := BX_APIC_XAPIC_MODE\<rparr>;
          a = (if xapic a then a\<lparr>apic_version_id := 0x00050014\<rparr> else a\<lparr>apic_version_id := 0x00030010\<rparr>)
      in a\<lparr>xapic_ext := 0\<rparr>)"

text \<open>The constructor, over the storage \<open>raw\<close> of the object, with the handles of its three timers.\<close>

definition lapic_init :: "bool \<Rightarrow> u32 \<Rightarrow> int \<Rightarrow> int \<Rightarrow> int \<Rightarrow> lapic \<Rightarrow> lapic" where
  "lapic_init simulate_xapic i h_timer h_vmx h_mwaitx raw =
     (let a = raw\<lparr>lapic_base_addr := BX_LAPIC_BASE_ADDR, lapic_id := i\<rparr>;
          a = (if lapic_id a \<noteq> 0 then lapic_panic ''invalid APIC_ID assigned'' a else a);
          a = a\<lparr>lapic_timer_handle := h_timer, lapic_timer_active := False,
                vmx_timer_handle := h_vmx, vmx_preemption_timer_rate := VMX_MISC_PREEMPTION_TIMER_RATE,
                vmx_timer_active := False,
                mwaitx_timer_handle := h_mwaitx, mwaitx_timer_active := False,
                xapic := simulate_xapic\<rparr>
      in lapic_reset a)"

definition match_logical_addr :: "u32 \<Rightarrow> lapic \<Rightarrow> bool \<times> lapic" where
  "match_logical_addr address a =
     (if apic_mode a = BX_APIC_X2APIC_MODE
      then (if address = 0xffffffff then (True, a)
            else if address AND 0xffff0000 = ldr a AND 0xffff0000
            then (address AND ldr a AND 0x0000ffff \<noteq> 0, a)
            else (False, a))
      else if address = 0xff then (True, a)
      else if dest_format a = 0xf then (address AND ldr a \<noteq> 0, a)
      else if dest_format a = 0
      then (if address AND 0xf0 = ldr a AND 0xf0 then address AND ldr a AND 0x0f \<noteq> 0 else False, a)
      else (False, lapic_panic ''unsupported dest format'' a))"

section \<open>The timers\<close>

definition deactivate_lapic_timer :: "lapic \<Rightarrow> lapic" where
  "deactivate_lapic_timer a =
     (if lapic_timer_active a
      then (call (Timer_deactivate (lapic_timer_handle a)) a)\<lparr>lapic_timer_active := False\<rparr> else a)"

definition start_lapic_timer :: "u64 \<Rightarrow> lapic \<Rightarrow> lapic" where
  "start_lapic_timer now a =
     (let a = a\<lparr>timer_current := timer_initial a, lapic_timer_active := True, ticksInitial := now\<rparr>
      in call (Timer_activate (lapic_timer_handle a) (ucast (timer_initial a) * ucast (timer_divide_factor a))) a)"

definition lapic_periodic :: "u64 \<Rightarrow> lapic \<Rightarrow> lapic" where
  "lapic_periodic now a =
     (if \<not> lapic_timer_active a then a
      else let timervec = lvt a ! APIC_LVT_TIMER;
               a = (if timervec AND 0x10000 = 0 then trigger_irq (ucast (timervec AND 0xff)) False a else a)
           in if timervec AND 0x20000 \<noteq> 0 then start_lapic_timer now a
              else let a = a\<lparr>timer_current := 0, lapic_timer_active := False\<rparr>
                   in call (Timer_deactivate (lapic_timer_handle a)) a)"

definition set_divide_configuration :: "u32 \<Rightarrow> lapic \<Rightarrow> lapic" where
  "set_divide_configuration value a =
     (let a = bx_assert (value = value AND 0x0b) a;
          value = drop_bit 1 (value AND 8) OR (value AND 3);
          a = bx_assert (value \<le> 7) a
      in a\<lparr>timer_divide_factor := (if value = 7 then 1 else push_bit (unat value) 2)\<rparr>)"

definition set_initial_timer_count :: "u64 \<Rightarrow> u32 \<Rightarrow> lapic \<Rightarrow> lapic" where
  "set_initial_timer_count now value a =
     (let timervec = lvt a ! APIC_LVT_TIMER
      in if timervec AND 0x40000 \<noteq> 0 then a
         else let a = deactivate_lapic_timer a;
                  a = a\<lparr>timer_initial := value, timer_current := 0\<rparr>
              in if timer_initial a \<noteq> 0 then start_lapic_timer now a else a)"

definition get_current_timer_count :: "u64 \<Rightarrow> lapic \<Rightarrow> u32 \<times> lapic" where
  "get_current_timer_count now a =
     (let timervec = lvt a ! APIC_LVT_TIMER
      in if timervec AND 0x40000 \<noteq> 0 then (0, a)
         else if \<not> lapic_timer_active a then (timer_current a, a)
         else let delta64 = (now - ticksInitial a) div ucast (timer_divide_factor a);
                  delta32 = ucast delta64 :: u32;
                  a = (if delta32 > timer_initial a then lapic_panic ''delta < initial'' a else a);
                  a = a\<lparr>timer_current := timer_initial a - delta32\<rparr>
              in (timer_current a, a))"

definition set_tsc_deadline :: "u64 \<Rightarrow> u64 \<Rightarrow> lapic \<Rightarrow> lapic" where
  "set_tsc_deadline now deadline a =
     (let timervec = lvt a ! APIC_LVT_TIMER
      in if timervec AND 0x40000 = 0 then a
         else let a = deactivate_lapic_timer a;
                  a = a\<lparr>ticksInitial := deadline\<rparr>
              in if deadline \<noteq> 0
                 then let a = a\<lparr>lapic_timer_active := True\<rparr>
                      in call (Timer_activate (lapic_timer_handle a) (if deadline > now then deadline - now else 1)) a
                 else a)"

definition get_tsc_deadline :: "lapic \<Rightarrow> u64" where
  "get_tsc_deadline a = (if lvt a ! APIC_LVT_TIMER AND 0x40000 = 0 then 0 else ticksInitial a)"

definition read_vmx_preemption_timer :: "u64 \<Rightarrow> lapic \<Rightarrow> u32" where
  "read_vmx_preemption_timer now a =
     (let diff = drop_bit (unat (vmx_preemption_timer_rate a)) now
                 - drop_bit (unat (vmx_preemption_timer_rate a)) (vmx_preemption_timer_initial a)
      in if ucast (vmx_preemption_timer_value a) < diff then 0
         else ucast (ucast (vmx_preemption_timer_value a) - diff))"

definition set_vmx_preemption_timer :: "u64 \<Rightarrow> u32 \<Rightarrow> lapic \<Rightarrow> lapic" where
  "set_vmx_preemption_timer now value a =
     (let a = a\<lparr>vmx_preemption_timer_value := value, vmx_preemption_timer_initial := now\<rparr>;
          rate = unat (vmx_preemption_timer_rate a);
          a = a\<lparr>vmx_preemption_timer_fire :=
                push_bit rate (drop_bit rate (vmx_preemption_timer_initial a) + ucast value)\<rparr>;
          a = call (Timer_activate (vmx_timer_handle a)
                (vmx_preemption_timer_fire a - vmx_preemption_timer_initial a)) a
      in a\<lparr>vmx_timer_active := True\<rparr>)"

definition deactivate_vmx_preemption_timer :: "lapic \<Rightarrow> lapic" where
  "deactivate_vmx_preemption_timer a =
     (if \<not> vmx_timer_active a then a
      else (call (Timer_deactivate (vmx_timer_handle a)) a)\<lparr>vmx_timer_active := False\<rparr>)"

definition vmx_preemption_timer_expired :: "lapic \<Rightarrow> lapic" where
  "vmx_preemption_timer_expired a = deactivate_vmx_preemption_timer (call Signal_vmx_timer a)"

definition deactivate_mwaitx_timer :: "lapic \<Rightarrow> lapic" where
  "deactivate_mwaitx_timer a =
     (if \<not> mwaitx_timer_active a then a
      else (call (Timer_deactivate (mwaitx_timer_handle a)) a)\<lparr>mwaitx_timer_active := False\<rparr>)"

definition set_mwaitx_timer :: "u64 \<Rightarrow> lapic \<Rightarrow> lapic" where
  "set_mwaitx_timer value a =
     (let a = (if mwaitx_timer_active a then deactivate_mwaitx_timer a else a)
      in if value \<noteq> 0
         then (call (Timer_activate (mwaitx_timer_handle a) value) a)\<lparr>mwaitx_timer_active := True\<rparr> else a)"

definition mwaitx_timer_expired :: "lapic \<Rightarrow> lapic" where
  "mwaitx_timer_expired a = deactivate_mwaitx_timer (call Wakeup_monitor a)"

definition lvt_mask :: "u32 list" where
  "lvt_mask = [0x000710ff, 0x000117ff, 0x000117ff, 0x0001f7ff, 0x0001f7ff, 0x000110ff, 0x000117ff]"

definition set_lvt_entry :: "apic_cfg \<Rightarrow> u32 \<Rightarrow> u32 \<Rightarrow> lapic \<Rightarrow> lapic" where
  "set_lvt_entry g apic_reg value a =
     (let lvt_entry = (if apic_reg = BX_LAPIC_LVT_CMCI then APIC_LVT_CMCI
                       else unat (drop_bit 4 (apic_reg - BX_LAPIC_LVT_TIMER)));
          (value, a) =
            (if apic_reg = BX_LAPIC_LVT_TIMER
             then (if \<not> isa_tsc_deadline g then (value AND NOT 0x40000, a)
                   else if (value XOR lvt a ! lvt_entry) AND 0x40000 \<noteq> 0 then (value, deactivate_lapic_timer a)
                   else (value, a))
             else (value, a));
          a = a\<lparr>lvt := (lvt a)[lvt_entry := value AND lvt_mask ! lvt_entry]\<rparr>
      in if \<not> software_enabled a
         then a\<lparr>lvt := (lvt a)[lvt_entry := lvt a ! lvt_entry OR 0x10000]\<rparr> else a)"

section \<open>The bus\<close>

definition lapic_deliver :: "u8 \<Rightarrow> u8 \<Rightarrow> bool \<Rightarrow> lapic \<Rightarrow> bool \<times> lapic" where
  "lapic_deliver vector delivery_mode trig_mode a =
     (if delivery_mode = APIC_DM_FIXED \<or> delivery_mode = APIC_DM_LOWPRI then (True, trigger_irq vector trig_mode a)
      else if delivery_mode = APIC_DM_SMI then (True, call Deliver_SMI a)
      else if delivery_mode = APIC_DM_NMI then (True, call Deliver_NMI a)
      else if delivery_mode = APIC_DM_INIT then (True, call Deliver_INIT a)
      else if delivery_mode = APIC_DM_SIPI then (True, call (Deliver_SIPI vector) a)
      else if delivery_mode = APIC_DM_EXTINT then (True, trigger_irq_with True vector trig_mode a)
      else (False, a))"

definition on_apic :: "nat \<Rightarrow> (lapic \<Rightarrow> lapic) \<Rightarrow> lapic list \<Rightarrow> lapic list" where
  "on_apic i f apics = apics[i := f (apics ! i)]"

definition deliver_to :: "nat \<Rightarrow> u8 \<Rightarrow> u8 \<Rightarrow> bool \<Rightarrow> lapic list \<Rightarrow> lapic list" where
  "deliver_to i vector delivery_mode trig_mode = on_apic i (\<lambda>a. snd (lapic_deliver vector delivery_mode trig_mode a))"

text \<open>The search for the agent with the lowest priority: the candidate so far and its priority.\<close>

definition arbitrate :: "u32 \<Rightarrow> bool \<Rightarrow> nat \<Rightarrow> (nat option \<times> nat) \<times> lapic list \<Rightarrow> (nat option \<times> nat) \<times> lapic list" where
  "arbitrate dest broadcast i = (\<lambda>((lowest_priority_agent, lowest_priority), apics).
     let (m, apics) = (if broadcast then (True, apics)
                       else let (m, a) = match_logical_addr dest (apics ! i) in (m, apics[i := a]))
     in if m
        then let priority = unat (if xapic (apics ! i) then get_tpr (apics ! i) else get_apr (apics ! i))
             in if priority < lowest_priority then ((Some i, priority), apics)
                else ((lowest_priority_agent, lowest_priority), apics)
        else ((lowest_priority_agent, lowest_priority), apics))"

definition apic_bus_deliver_lowest_priority :: "u8 \<Rightarrow> u32 \<Rightarrow> bool \<Rightarrow> bool \<Rightarrow> lapic list \<Rightarrow> bool \<times> lapic list" where
  "apic_bus_deliver_lowest_priority vector dest trig_mode broadcast apics =
     (case (if \<not> xapic (apics ! 0) then List.find (\<lambda>i. is_focus vector (apics ! i)) [0..<length apics] else None) of
        Some i \<Rightarrow> (True, deliver_to i vector APIC_DM_LOWPRI trig_mode apics)
      | None \<Rightarrow>
          (case fold (arbitrate dest broadcast) [0..<length apics] ((None, 0x100), apics) of
             ((Some i, _), apics) \<Rightarrow> (True, deliver_to i vector APIC_DM_LOWPRI trig_mode apics)
           | ((None, _), apics) \<Rightarrow> (False, apics)))"

definition apic_bus_broadcast_interrupt :: "u8 \<Rightarrow> u8 \<Rightarrow> bool \<Rightarrow> nat \<Rightarrow> lapic list \<Rightarrow> bool \<times> lapic list" where
  "apic_bus_broadcast_interrupt vector delivery_mode trig_mode exclude_cpu apics =
     (if delivery_mode = APIC_DM_LOWPRI then apic_bus_deliver_lowest_priority vector 0 trig_mode True apics
      else (True, fold (\<lambda>i apics. if i = exclude_cpu then apics
                                  else deliver_to i vector delivery_mode trig_mode apics) [0..<length apics] apics))"

text \<open>One APIC of the loop over the logical destinations.\<close>

definition offer_logical :: "u8 \<Rightarrow> u32 \<Rightarrow> u8 \<Rightarrow> bool \<Rightarrow> nat \<Rightarrow> bool \<times> lapic list \<Rightarrow> bool \<times> lapic list" where
  "offer_logical vector dest delivery_mode trig_mode i = (\<lambda>(interrupt_delivered, apics).
     let (m, a) = match_logical_addr dest (apics ! i); apics = apics[i := a]
     in if m then (True, deliver_to i vector delivery_mode trig_mode apics) else (interrupt_delivered, apics))"

definition apic_bus_deliver_interrupt ::
  "apic_cfg \<Rightarrow> u8 \<Rightarrow> u32 \<Rightarrow> u8 \<Rightarrow> bool \<Rightarrow> bool \<Rightarrow> bool \<Rightarrow> lapic list \<Rightarrow> bool \<times> lapic list" where
  "apic_bus_deliver_interrupt g vector dest delivery_mode logical_dest level trig_mode apics =
     (if delivery_mode = APIC_DM_LOWPRI
      then (if \<not> logical_dest then (False, apics)
            else apic_bus_deliver_lowest_priority vector dest trig_mode False apics)
      else if \<not> logical_dest
      then (if dest AND apic_id_mask g = apic_id_mask g
            then apic_bus_broadcast_interrupt vector delivery_mode trig_mode (unat (apic_id_mask g)) apics
            else case List.find (\<lambda>i. lapic_id (apics ! i) = dest) [0..<length apics] of
                   Some i \<Rightarrow> (True, deliver_to i vector delivery_mode trig_mode apics)
                 | None \<Rightarrow> (False, apics))
      else if dest = 0 then (False, apics)
      else fold (offer_logical vector dest delivery_mode trig_mode) [0..<length apics] (False, apics))"

definition send_ipi :: "apic_cfg \<Rightarrow> nat \<Rightarrow> u32 \<Rightarrow> u32 \<Rightarrow> lapic list \<Rightarrow> lapic list" where
  "send_ipi g this dest lo_cmd apics =
     (let dest_shorthand = drop_bit 18 lo_cmd AND 3;
          trig_mode = (drop_bit 15 lo_cmd AND 1 \<noteq> 0);
          level = (drop_bit 14 lo_cmd AND 1 \<noteq> 0);
          logical_dest = (drop_bit 11 lo_cmd AND 1 \<noteq> 0);
          delivery_mode = ucast (drop_bit 8 lo_cmd AND 7) :: u8;
          vector = ucast (lo_cmd AND 0xff) :: u8
      in if delivery_mode = APIC_DM_INIT \<and> \<not> level \<and> trig_mode then apics
         else let (accepted, apics) =
                (if dest_shorthand = 0 then apic_bus_deliver_interrupt g vector dest delivery_mode logical_dest level trig_mode apics
                 else if dest_shorthand = 1 then (True, on_apic this (trigger_irq vector trig_mode) apics)
                 else if dest_shorthand = 2 then apic_bus_broadcast_interrupt vector delivery_mode trig_mode (unat (apic_id_mask g)) apics
                 else apic_bus_broadcast_interrupt vector delivery_mode trig_mode (unat (lapic_id (apics ! this))) apics)
              in if \<not> accepted
                 then on_apic this (\<lambda>a. a\<lparr>shadow_error_status := shadow_error_status a OR APIC_ERR_TX_ACCEPT_ERR\<rparr>) apics
                 else apics)"

section \<open>The registers\<close>

text \<open>An access of an extended register without the extension selects no register.\<close>

definition apic_reg_of :: "apic_cfg \<Rightarrow> u64 \<Rightarrow> u32" where
  "apic_reg_of g addr =
     (let apic_reg = ucast (addr AND 0xff0) :: u32
      in if apic_reg \<ge> 0x400 \<and> \<not> isa_xapic_ext g then 0xffffffff else apic_reg)"

definition reg_index :: "u32 \<Rightarrow> u32 \<Rightarrow> nat" where
  "reg_index apic_reg first = unat (drop_bit 4 (apic_reg - first))"

definition illegal_addr :: "lapic \<Rightarrow> lapic" where
  "illegal_addr a = a\<lparr>shadow_error_status := shadow_error_status a OR APIC_ERR_ILLEGAL_ADDR\<rparr>"

definition lapic_read_aligned :: "apic_cfg \<Rightarrow> u64 \<Rightarrow> u64 \<Rightarrow> lapic \<Rightarrow> u32 \<times> lapic" where
  "lapic_read_aligned g now addr a =
     (let a = bx_assert (addr AND 0xf = 0) a;
          r = apic_reg_of g addr
      in if r = BX_LAPIC_ID then (push_bit 24 (lapic_id a), a)
         else if r = BX_LAPIC_VERSION then (apic_version_id a, a)
         else if r = BX_LAPIC_TPR then (task_priority a AND 0xff, a)
         else if r = BX_LAPIC_ARBITRATION_PRIORITY then (ucast (get_apr a), a)
         else if r = BX_LAPIC_PPR then (ucast (get_ppr a), a)
         else if r = BX_LAPIC_EOI then (0, a)
         else if r = BX_LAPIC_LDR then (push_bit 24 (ldr a AND apic_id_mask g), a)
         else if r = BX_LAPIC_DESTINATION_FORMAT then (push_bit 28 (dest_format a AND 0xf) OR 0x0fffffff, a)
         else if r = BX_LAPIC_SPURIOUS_VECTOR
         then (let reg = ucast (spurious_vector a) :: u32;
                   reg = (if software_enabled a then reg OR 0x100 else reg);
                   reg = (if focus_disable a then reg OR 0x200 else reg)
               in (reg, a))
         else if BX_LAPIC_ISR1 \<le> r \<and> r \<le> BX_LAPIC_ISR8 then (lapic_isr a ! reg_index r BX_LAPIC_ISR1, a)
         else if BX_LAPIC_TMR1 \<le> r \<and> r \<le> BX_LAPIC_TMR8 then (lapic_tmr a ! reg_index r BX_LAPIC_TMR1, a)
         else if BX_LAPIC_IRR1 \<le> r \<and> r \<le> BX_LAPIC_IRR8 then (lapic_irr a ! reg_index r BX_LAPIC_IRR1, a)
         else if r = BX_LAPIC_ESR then (error_status a, a)
         else if r = BX_LAPIC_ICR_LO then (icr_lo a, a)
         else if r = BX_LAPIC_ICR_HI then (icr_hi a, a)
         else if BX_LAPIC_LVT_TIMER \<le> r \<and> r \<le> BX_LAPIC_LVT_ERROR then (lvt a ! reg_index r BX_LAPIC_LVT_TIMER, a)
         else if r = BX_LAPIC_LVT_CMCI then (lvt a ! APIC_LVT_CMCI, a)
         else if r = BX_LAPIC_TIMER_INITIAL_COUNT then (timer_initial a, a)
         else if r = BX_LAPIC_TIMER_CURRENT_COUNT then get_current_timer_count now a
         else if r = BX_LAPIC_TIMER_DIVIDE_CFG then (timer_divconf a, a)
         else if r = BX_LAPIC_EXT_APIC_FEATURE then (BX_XAPIC_EXT_SUPPORT_IER OR BX_XAPIC_EXT_SUPPORT_SEOI, a)
         else if r = BX_LAPIC_EXT_APIC_CONTROL then (xapic_ext a, a)
         else if r = BX_LAPIC_SPECIFIC_EOI then (0, a)
         else if BX_LAPIC_IER1 \<le> r \<and> r \<le> BX_LAPIC_IER8 then (lapic_ier a ! reg_index r BX_LAPIC_IER1, a)
         else (0, illegal_addr a))"

text \<open>A write of one register but the interrupt command register, which goes to the bus.\<close>

definition write_register :: "apic_cfg \<Rightarrow> u64 \<Rightarrow> u32 \<Rightarrow> u32 \<Rightarrow> lapic \<Rightarrow> lapic" where
  "write_register g now r value a =
     (if r = BX_LAPIC_TPR then set_tpr (ucast (value AND 0xff)) a
      else if r = BX_LAPIC_EOI then receive_EOI a
      else if r = BX_LAPIC_LDR then a\<lparr>ldr := drop_bit 24 value AND apic_id_mask g\<rparr>
      else if r = BX_LAPIC_DESTINATION_FORMAT then a\<lparr>dest_format := drop_bit 28 value AND 0xf\<rparr>
      else if r = BX_LAPIC_SPURIOUS_VECTOR then write_spurious_interrupt_register value a
      else if r = BX_LAPIC_ESR then a\<lparr>error_status := shadow_error_status a, shadow_error_status := 0\<rparr>
      else if r = BX_LAPIC_ICR_HI then a\<lparr>icr_hi := value AND 0xff000000\<rparr>
      else if BX_LAPIC_LVT_TIMER \<le> r \<and> r \<le> BX_LAPIC_LVT_ERROR \<or> r = BX_LAPIC_LVT_CMCI then set_lvt_entry g r value a
      else if r = BX_LAPIC_TIMER_INITIAL_COUNT then set_initial_timer_count now value a
      else if r = BX_LAPIC_TIMER_DIVIDE_CFG
      then (let a = a\<lparr>timer_divconf := value AND 0xb\<rparr> in set_divide_configuration (timer_divconf a) a)
      else if r \<in> {BX_LAPIC_ID, BX_LAPIC_VERSION, BX_LAPIC_ARBITRATION_PRIORITY, BX_LAPIC_RRD, BX_LAPIC_PPR}
           \<or> BX_LAPIC_ISR1 \<le> r \<and> r \<le> BX_LAPIC_IRR8 \<or> r = BX_LAPIC_TIMER_CURRENT_COUNT
           \<or> r = BX_LAPIC_EXT_APIC_FEATURE then a
      else if r = BX_LAPIC_EXT_APIC_CONTROL
      then a\<lparr>xapic_ext := value AND (BX_XAPIC_EXT_SUPPORT_IER OR BX_XAPIC_EXT_SUPPORT_SEOI)\<rparr>
      else if r = BX_LAPIC_SPECIFIC_EOI then receive_SEOI (ucast (value AND 0xff)) a
      else if BX_LAPIC_IER1 \<le> r \<and> r \<le> BX_LAPIC_IER8
      then (if xapic_ext a AND BX_XAPIC_EXT_SUPPORT_IER = 0 then a
            else a\<lparr>lapic_ier := (lapic_ier a)[reg_index r BX_LAPIC_IER1 := value]\<rparr>)
      else illegal_addr a)"

definition lapic_write_aligned :: "apic_cfg \<Rightarrow> u64 \<Rightarrow> nat \<Rightarrow> u64 \<Rightarrow> u32 \<Rightarrow> lapic list \<Rightarrow> lapic list" where
  "lapic_write_aligned g now this addr value apics =
     (let apics = on_apic this (bx_assert (addr AND 0xf = 0)) apics;
          r = apic_reg_of g addr
      in if r = BX_LAPIC_ICR_LO
         then let apics = on_apic this (\<lambda>a. a\<lparr>icr_lo := value AND NOT (push_bit 12 1)\<rparr>) apics
              in send_ipi g this (drop_bit 24 (icr_hi (apics ! this)) AND 0xff) (icr_lo (apics ! this)) apics
         else on_apic this (write_register g now r value) apics)"

text \<open>A read leaves the caller's data as it was when it panics: \<open>None\<close>.\<close>

definition lapic_read :: "apic_cfg \<Rightarrow> u64 \<Rightarrow> u64 \<Rightarrow> nat \<Rightarrow> lapic \<Rightarrow> u32 option \<times> lapic" where
  "lapic_read g now addr len a =
     (if addr AND NOT 0x3 \<noteq> (addr + of_nat len - 1) AND NOT 0x3
      then (None, lapic_panic ''read spans 32-bit boundary'' a)
      else let (value, a) = lapic_read_aligned g now (addr AND NOT 0x3) a
           in if len = 4 then (Some value, a)
              else let value = drop_bit (unat (addr AND 3) * 8) value
                   in if len = 1 then (Some (value AND 0xff), a)
                      else if len = 2 then (Some (value AND 0xffff), a)
                      else (None, lapic_panic ''unsupported read'' a))"

definition lapic_write :: "apic_cfg \<Rightarrow> u64 \<Rightarrow> nat \<Rightarrow> u64 \<Rightarrow> u32 \<Rightarrow> nat \<Rightarrow> lapic list \<Rightarrow> lapic list" where
  "lapic_write g now this addr data len apics =
     (if len \<noteq> 4 then on_apic this (lapic_panic ''write with len != 4'') apics
      else if addr AND 0xf \<noteq> 0 then on_apic this (lapic_panic ''write at unaligned address'') apics
      else lapic_write_aligned g now this addr data apics)"

text \<open>Accesses as model specific registers in x2APIC mode; \<open>None\<close> and \<open>False\<close> make the CPU fault.\<close>

definition x2apic_index :: "u32 \<Rightarrow> u32" where
  "x2apic_index index = push_bit 4 (index - 0x800)"

definition read_x2apic :: "apic_cfg \<Rightarrow> u64 \<Rightarrow> u32 \<Rightarrow> lapic \<Rightarrow> u64 option \<times> lapic" where
  "read_x2apic g now index a =
     (let r = x2apic_index index
      in if r = BX_LAPIC_ID then (Some (ucast (lapic_id a)), a)
         else if r = BX_LAPIC_LDR then (Some (ucast (ldr a)), a)
         else if r = BX_LAPIC_ICR_LO then (Some (push_bit 32 (ucast (icr_hi a)) OR ucast (icr_lo a)), a)
         else if r \<in> {BX_LAPIC_ARBITRATION_PRIORITY, BX_LAPIC_DESTINATION_FORMAT, BX_LAPIC_ICR_HI,
                       BX_LAPIC_EOI, BX_LAPIC_SELF_IPI} then (None, a)
         else if r \<in> {BX_LAPIC_VERSION, BX_LAPIC_TPR, BX_LAPIC_PPR, BX_LAPIC_SPURIOUS_VECTOR, BX_LAPIC_ESR,
                       BX_LAPIC_LVT_CMCI, BX_LAPIC_TIMER_INITIAL_COUNT, BX_LAPIC_TIMER_CURRENT_COUNT,
                       BX_LAPIC_TIMER_DIVIDE_CFG}
              \<or> BX_LAPIC_ISR1 \<le> r \<and> r \<le> BX_LAPIC_IRR8 \<or> BX_LAPIC_LVT_TIMER \<le> r \<and> r \<le> BX_LAPIC_LVT_ERROR
         then (let (v, a) = lapic_read_aligned g now (ucast r) a in (Some (ucast v), a))
         else (None, a))"

definition write_x2apic :: "apic_cfg \<Rightarrow> u64 \<Rightarrow> nat \<Rightarrow> u32 \<Rightarrow> u32 \<Rightarrow> u32 \<Rightarrow> lapic list \<Rightarrow> bool \<times> lapic list" where
  "write_x2apic g now this index val32_hi val32_lo apics =
     (let r = x2apic_index index;
          legacy = (True, lapic_write_aligned g now this (ucast r) val32_lo apics)
      in if r \<noteq> BX_LAPIC_ICR_LO \<and> val32_hi \<noteq> 0 then (False, apics)
         else if r \<in> {BX_LAPIC_ID, BX_LAPIC_VERSION, BX_LAPIC_ARBITRATION_PRIORITY, BX_LAPIC_PPR, BX_LAPIC_LDR,
                       BX_LAPIC_DESTINATION_FORMAT, BX_LAPIC_ICR_HI, BX_LAPIC_TIMER_CURRENT_COUNT}
                 \<or> BX_LAPIC_ISR1 \<le> r \<and> r \<le> BX_LAPIC_IRR8 then (False, apics)
         else if r = BX_LAPIC_SELF_IPI then (True, on_apic this (trigger_irq (ucast (val32_lo AND 0xff)) False) apics)
         else if r = BX_LAPIC_ICR_LO then (True, send_ipi g this val32_hi val32_lo apics)
         else if r = BX_LAPIC_TPR then (if val32_lo AND 0xffffff00 \<noteq> 0 then (False, apics) else legacy)
         else if r = BX_LAPIC_SPURIOUS_VECTOR then (if val32_lo AND 0xfffffe00 \<noteq> 0 then (False, apics) else legacy)
         else if r = BX_LAPIC_EOI \<or> r = BX_LAPIC_ESR then (if val32_lo \<noteq> 0 then (False, apics) else legacy)
         else if BX_LAPIC_LVT_TIMER \<le> r \<and> r \<le> BX_LAPIC_LVT_ERROR
                 \<or> r \<in> {BX_LAPIC_LVT_CMCI, BX_LAPIC_TIMER_INITIAL_COUNT, BX_LAPIC_TIMER_DIVIDE_CFG} then legacy
         else (False, apics))"

end
