(* ===== verification/Apic_Priority.thy ===== *)
theory Apic_Priority
  imports Lapic
begin

text \<open>
  The priority logic of the local APIC: vector registers as sets of vectors, the search for the
  highest vector as a maximum, the invariant of all reachable states, acknowledge, end of interrupt,
  lowest-priority arbitration and the timer.
\<close>

section \<open>Vector registers are sets\<close>

definition vectors :: "u32 list \<Rightarrow> nat set" where
  "vectors reg = {v. v < 256 \<and> get_vector reg v}"

lemma get_vector_bit: "get_vector reg v \<longleftrightarrow> bit (reg ! (v div 32)) (v mod 32)"
proof -
  have "drop_bit n x AND 1 \<noteq> 0 \<longleftrightarrow> bit x n" for x :: u32 and n
    by (simp add: and_one_eq bit_iff_odd_drop_bit odd_iff_mod_2_eq_one)
  then show ?thesis by (simp add: get_vector_def)
qed

lemma length_vector [simp]: "length (set_vector v reg) = length reg" "length (clear_vector v reg) = length reg"
  by (simp_all add: set_vector_def clear_vector_def)

lemma split_vector: "(v div 32 = w div 32 \<and> v mod 32 = w mod 32) \<longleftrightarrow> v = (w :: nat)"
  by (metis div_mult_mod_eq)

lemma get_vector_set:
  assumes "length reg = 8" "v < 256"
  shows "get_vector (set_vector v reg) w \<longleftrightarrow> w = v \<or> get_vector reg w"
proof -
  have "v div 32 < 8" using assms(2) by simp
  then show ?thesis
    using assms(1) split_vector [of w v]
    by (auto simp: get_vector_bit set_vector_def nth_list_update bit_or_shl1)
qed

lemma get_vector_clear:
  assumes "length reg = 8" "v < 256"
  shows "get_vector (clear_vector v reg) w \<longleftrightarrow> w \<noteq> v \<and> get_vector reg w"
proof -
  have "v div 32 < 8" using assms(2) by simp
  moreover have "w mod 32 < 32" by simp
  ultimately show ?thesis
    using assms(1) split_vector [of w v]
    by (auto simp: get_vector_bit clear_vector_def nth_list_update bit_and_not_shl1)
qed

lemma vectors_set: "length reg = 8 \<Longrightarrow> v < 256 \<Longrightarrow> vectors (set_vector v reg) = insert v (vectors reg)"
  by (auto simp: vectors_def get_vector_set)

lemma vectors_clear: "length reg = 8 \<Longrightarrow> v < 256 \<Longrightarrow> vectors (clear_vector v reg) = vectors reg - {v}"
  by (auto simp: vectors_def get_vector_clear)

lemma vectors_replicate [simp]: "vectors (replicate 8 0) = {}"
  by (auto simp: vectors_def get_vector_bit)

lemma finite_vectors [simp]: "finite (vectors reg)"
  by (rule finite_subset [of _ "{..<256}"]) (auto simp: vectors_def)

section \<open>The highest vector\<close>

definition top_vector :: "nat set \<Rightarrow> int" where
  "top_vector S = (if S = {} then -1 else int (Max S))"

lemma top_bit:
  assumes "x \<noteq> 0"
  shows "most_significant_bitd x < 32" "bit x (most_significant_bitd x)" "bit x n \<Longrightarrow> n \<le> most_significant_bitd x"
proof -
  have m: "most_significant_bitd x = 31 - clz x" by (simp add: most_significant_bitd_def scan_counts)
  have c: "clz x < 32" using clz_spec(3) [OF assms] by simp
  then show "most_significant_bitd x < 32" by (simp add: m)
  show "bit x (most_significant_bitd x)" using clz_spec(4) [OF assms] by (simp add: m)
  show "n \<le> most_significant_bitd x" if "bit x n"
  proof (rule ccontr)
    assume "\<not> n \<le> most_significant_bitd x"
    moreover have "n < 32" using that bit_imp_le_length by fastforce
    ultimately have "31 - n < clz x" using c by (simp add: m)
    from clz_spec(2) [OF this] that \<open>n < 32\<close> show False by simp
  qed
qed

lemma highest_in_top:
  "highest_in ier array n = top_vector {v. v < 32 * n \<and> get_vector array v \<and> get_vector ier v}"
proof (induction n)
  case 0
  then show ?case by (simp add: top_vector_def)
next
  case (Suc n)
  let ?S = "\<lambda>n. {v. v < 32 * n \<and> get_vector array v \<and> get_vector ier v}"
  let ?x = "array ! n AND ier ! n"
  have fin: "finite (?S (Suc n))" by (rule finite_subset [of _ "{..<32 * Suc n}"]) auto
  have up: "v \<in> ?S (Suc n) \<longleftrightarrow> v \<in> ?S n \<or> (v div 32 = n \<and> bit ?x (v mod 32))" for v
  proof -
    have "v div 32 = n" if "v < 32 * Suc n" "\<not> v < 32 * n" using that by auto
    then show ?thesis by (auto simp: get_vector_bit bit_and_iff)
  qed
  show ?case
  proof (cases "?x = 0")
    case True
    then have "?S (Suc n) = ?S n" using up by auto
    then show ?thesis using True Suc by simp
  next
    case False
    note t = top_bit [OF False]
    have "Max (?S (Suc n)) = n * 32 + most_significant_bitd ?x"
    proof (rule Max_eqI [OF fin])
      show "n * 32 + most_significant_bitd ?x \<in> ?S (Suc n)" unfolding up using t(1,2) by simp
      fix v assume "v \<in> ?S (Suc n)"
      then show "v \<le> n * 32 + most_significant_bitd ?x" unfolding up
      proof
        assume "v \<in> ?S n" then show ?thesis by simp
      next
        assume "v div 32 = n \<and> bit ?x (v mod 32)"
        then have "v = n * 32 + v mod 32" "v mod 32 \<le> most_significant_bitd ?x"
          using t(3) by (auto simp: mult.commute)
        then show ?thesis by simp
      qed
    qed
    moreover have "n * 32 + most_significant_bitd ?x \<in> ?S (Suc n)" unfolding up using t(1,2) by simp
    then have "?S (Suc n) \<noteq> {}" by blast
    ultimately show ?thesis using False by (simp add: top_vector_def)
  qed
qed

section \<open>Pending, in service, deliverable\<close>

definition requests :: "lapic \<Rightarrow> nat set" where
  "requests a = vectors (lapic_irr a) \<inter> vectors (lapic_ier a)"

definition in_service :: "lapic \<Rightarrow> nat set" where
  "in_service a = vectors (lapic_isr a) \<inter> vectors (lapic_ier a)"

text \<open>
  The rule of the processor manual, on priority classes (the upper four bits of a vector): a pending
  vector may be dispatched when its class exceeds that of every vector in service and of the task priority.
\<close>

definition deliverable :: "lapic \<Rightarrow> nat \<Rightarrow> bool" where
  "deliverable a v \<longleftrightarrow> v \<in> requests a \<and> (\<forall>w \<in> in_service a. w div 16 < v div 16)
     \<and> unat (task_priority a) div 16 < v div 16"

text \<open>The condition under which the code raises its line: it compares whole vectors with those in service.\<close>

definition signalled :: "lapic \<Rightarrow> bool" where
  "signalled a \<longleftrightarrow> requests a \<noteq> {} \<and> (\<forall>w \<in> in_service a. w < Max (requests a))
     \<and> unat (task_priority a) div 16 < Max (requests a) div 16"

lemma finite_requests [simp]: "finite (requests a)" "finite (in_service a)"
  by (simp_all add: requests_def in_service_def)

lemma highest_priority_int_top:
  "highest_priority_int a (lapic_irr a) = top_vector (requests a)"
  "highest_priority_int a (lapic_isr a) = top_vector (in_service a)"
  unfolding highest_priority_int_def highest_in_top requests_def in_service_def vectors_def
  by (simp_all add: Collect_conj_eq [symmetric] conj_ac cong: conj_cong)

lemma requests_256: "v \<in> requests a \<Longrightarrow> v < 256" "v \<in> in_service a \<Longrightarrow> v < 256"
  by (auto simp: requests_def in_service_def vectors_def)

lemma f0_bits: "bit (0xf0 :: nat) k \<longleftrightarrow> 4 \<le> k \<and> k < 8"
proof -
  have e: "(0xf0 :: nat) = push_bit 4 (mask 4)" by (simp add: mask_eq_exp_minus_1 push_bit_eq_mult)
  show ?thesis unfolding e bit_push_bit_iff bit_mask_iff by auto
qed

lemma and_f0: "n AND 0xf0 = 16 * (n div 16 mod 16)" for n :: nat
proof -
  have "n AND 0xf0 = push_bit 4 (drop_bit 4 n AND mask 4)"
    by (rule bit_eqI) (auto simp: bit_and_iff bit_push_bit_iff bit_drop_bit_eq bit_mask_iff f0_bits)
  also have "\<dots> = 16 * (n div 16 mod 16)"
    by (simp add: push_bit_eq_mult drop_bit_eq_div flip: take_bit_eq_mask) (simp add: take_bit_eq_mod)
  finally show ?thesis .
qed

lemma int_and_f0: "int n AND 0xf0 = int (16 * (n div 16 mod 16))"
  unfolding and_f0 [symmetric] of_nat_and_eq by simp

lemma u8_below_256: "unat (v :: u8) < 256"
  by (rule order_less_le_trans [OF unsigned_less]) simp

lemma unat_ucast_u8 [simp]: "unat (ucast (p :: u8) :: u32) = unat p"
  using u8_below_256 [of p] by (simp add: unsigned_ucast_eq take_bit_nat_eq_self_iff)

lemma class_le:
  assumes "v < 256" "unat t < 256"
  shows "(of_int (int v) :: u32) AND 0xf0 \<le> t AND 0xf0 \<longleftrightarrow> v div 16 \<le> unat t div 16"
proof -
  have u: "unat (x AND 0xf0) = unat x AND 0xf0" for x :: u32 by (simp add: unsigned_and_eq)
  have "unat (of_int (int v) :: u32) = v" using assms(1) by (simp add: unat_of_nat)
  then show ?thesis using assms by (simp add: word_le_nat_alt u and_f0)
qed

text \<open>The well-formed states, and those in which no interrupt is left unsignalled.\<close>

definition lapic_wf :: "lapic \<Rightarrow> bool" where
  "lapic_wf a \<longleftrightarrow> length (lapic_irr a) = 8 \<and> length (lapic_isr a) = 8 \<and> length (lapic_tmr a) = 8
     \<and> length (lapic_ier a) = 8 \<and> unat (task_priority a) < 256
     \<and> (\<forall>v \<in> vectors (lapic_irr a) \<union> vectors (lapic_isr a). 16 \<le> v)"

definition lvt_ok :: "lapic \<Rightarrow> bool" where
  "lvt_ok a \<longleftrightarrow> length (lvt a) = 7 \<and> (\<forall>i < 7. lvt a ! i AND lvt_mask ! i = lvt a ! i)
     \<and> (\<not> software_enabled a \<longrightarrow> (\<forall>i < 7. bit (lvt a ! i) 16))
     \<and> timer_divide_factor a \<in> {1, 2, 4, 8, 16, 32, 64, 128}"

definition intr_ok :: "lapic \<Rightarrow> bool" where
  "intr_ok a \<longleftrightarrow> (\<forall>v. deliverable a v \<longrightarrow> lapic_intr a)"

lemma deliverable_signalled: "deliverable a v \<Longrightarrow> signalled a"
proof -
  assume d: "deliverable a v"
  then have v: "v \<in> requests a" by (simp add: deliverable_def)
  then have "v \<le> Max (requests a)" by simp
  moreover have "w < v" if "w \<in> in_service a" for w using d that by (fastforce simp: deliverable_def dest: div_le_mono)
  moreover have "v div 16 \<le> Max (requests a) div 16" using \<open>v \<le> _\<close> by (rule div_le_mono)
  ultimately show ?thesis using d v by (fastforce simp: signalled_def deliverable_def)
qed

lemma service_eq:
  assumes "lapic_wf a"
  shows "service_local_apic a = a\<lparr>lapic_intr := lapic_intr a \<or> signalled a\<rparr>"
proof (cases "lapic_intr a \<or> requests a = {}")
  case True
  then show ?thesis by (auto simp: service_local_apic_def highest_priority_int_top top_vector_def signalled_def)
next
  case False
  let ?m = "Max (requests a)"
  have m: "?m \<in> requests a" using False by simp
  have irr: "highest_priority_int a (lapic_irr a) = int ?m" using False by (simp add: highest_priority_int_top top_vector_def)
  have t: "unat (task_priority a) < 256" using assms by (simp add: lapic_wf_def)
  have i: "(highest_priority_int a (lapic_isr a) \<ge> 0 \<and> int ?m \<le> highest_priority_int a (lapic_isr a))
      \<longleftrightarrow> \<not> (\<forall>w \<in> in_service a. w < ?m)"
    by (auto simp: highest_priority_int_top top_vector_def Max_ge_iff not_less)
  have c: "(of_int (int ?m) :: u32) AND 0xf0 \<le> task_priority a AND 0xf0 \<longleftrightarrow> \<not> unat (task_priority a) div 16 < ?m div 16"
    using class_le [OF requests_256(1) [OF m] t] by auto
  show ?thesis
    unfolding service_local_apic_def irr Let_def i c using False by (simp add: signalled_def)
qed

lemma service_ok: "lapic_wf a \<Longrightarrow> intr_ok (service_local_apic a)"
  using deliverable_signalled by (auto simp: service_eq intr_ok_def deliverable_def requests_def in_service_def signalled_def)

definition lapic_inv :: "lapic \<Rightarrow> bool" where
  "lapic_inv a \<longleftrightarrow> lapic_wf a \<and> lvt_ok a \<and> intr_ok a"

lemma service_inv: "lapic_wf a \<Longrightarrow> lvt_ok a \<Longrightarrow> lapic_inv (service_local_apic a)"
  by (simp add: lapic_inv_def service_ok) (simp add: service_eq lapic_wf_def lvt_ok_def)

text \<open>What an operation must keep that touches neither the vectors nor the task priority.\<close>

definition same_vectors :: "lapic \<Rightarrow> lapic \<Rightarrow> bool" where
  "same_vectors a b \<longleftrightarrow> lapic_irr b = lapic_irr a \<and> lapic_isr b = lapic_isr a \<and> lapic_tmr b = lapic_tmr a
     \<and> lapic_ier b = lapic_ier a \<and> task_priority b = task_priority a \<and> lapic_intr b = lapic_intr a"

lemma same_vectors_inv: "same_vectors a b \<Longrightarrow> lapic_inv a \<Longrightarrow> lvt_ok b \<Longrightarrow> lapic_inv b"
  by (simp add: same_vectors_def lapic_inv_def lapic_wf_def intr_ok_def deliverable_def requests_def in_service_def)

lemma same_vectors_refl [simp]: "same_vectors a a" by (simp add: same_vectors_def)

section \<open>Operations on vectors\<close>

lemma wf_request:
  assumes "lapic_wf a" "16 \<le> v" "v < 256" "length tm = 8"
  shows "lapic_wf (a\<lparr>lapic_irr := set_vector v (lapic_irr a), lapic_tmr := tm\<rparr>)"
  using assms by (auto simp: lapic_wf_def vectors_set)

lemma trigger_irq_inv: "lapic_inv a \<Longrightarrow> lapic_inv (trigger_irq_with b v t a)"
proof -
  assume a: "lapic_inv a"
  then have w: "lapic_wf a" and l: "lvt_ok a" by (simp_all add: lapic_inv_def)
  have sv: "lapic_inv (a\<lparr>shadow_error_status := x\<rparr>)" for x
    by (rule same_vectors_inv [OF _ a]) (use l in \<open>simp_all add: same_vectors_def lvt_ok_def\<close>)
  have u: "unat v < 256" using u8_below_256 [of v] by simp
  have r: "lapic_inv (service_local_apic (a\<lparr>lapic_irr := set_vector (unat v) (lapic_irr a), lapic_tmr := tm\<rparr>))"
    if "\<not> v < BX_LAPIC_FIRST_VECTOR" "length tm = 8" for tm
    using that u by (intro service_inv wf_request w)
      (use l in \<open>simp_all add: lvt_ok_def BX_LAPIC_FIRST_VECTOR_def word_less_nat_alt\<close>)
  have "length (lapic_tmr a) = 8" using w by (simp add: lapic_wf_def)
  then show ?thesis using a sv r
    by (auto simp: trigger_irq_with_def Let_def)
qed

lemma set_tpr_inv: "lapic_inv a \<Longrightarrow> lapic_inv (set_tpr p a)"
proof -
  assume a: "lapic_inv a"
  then have w: "lapic_wf (a\<lparr>task_priority := ucast p\<rparr>)" and l: "lvt_ok (a\<lparr>task_priority := ucast p\<rparr>)"
    using u8_below_256 [of p] by (simp_all add: lapic_inv_def lapic_wf_def lvt_ok_def)
  have "intr_ok (a\<lparr>task_priority := ucast p\<rparr>)" if "\<not> ucast p < task_priority a"
  proof -
    have "unat (task_priority a) div 16 \<le> unat (ucast p :: u32) div 16"
      using that by (simp add: word_less_nat_alt not_less div_le_mono)
    then show ?thesis using a
      by (fastforce simp: lapic_inv_def intr_ok_def deliverable_def requests_def in_service_def)
  qed
  then show ?thesis using w l service_inv [OF w l] by (simp add: set_tpr_def lapic_inv_def)
qed

lemma untrigger_inv: "lapic_inv a \<Longrightarrow> lapic_inv (untrigger_irq v a)"
proof -
  assume a: "lapic_inv a"
  have u: "unat v < 256" using u8_below_256 [of v] by simp
  have "lapic_inv (a\<lparr>lapic_panics := q, lapic_irr := clear_vector (unat v) (lapic_irr a)\<rparr>)" for q
    using a u by (auto simp: lapic_inv_def lapic_wf_def lvt_ok_def intr_ok_def deliverable_def requests_def in_service_def vectors_clear)
  moreover have "lapic_panics a = lapic_panics a" ..
  moreover have "lapic_inv (a\<lparr>lapic_irr := clear_vector (unat v) (lapic_irr a)\<rparr>)"
    using a u by (auto simp: lapic_inv_def lapic_wf_def lvt_ok_def intr_ok_def deliverable_def requests_def in_service_def vectors_clear)
  ultimately show ?thesis by (simp add: untrigger_irq_def bx_assert_def lapic_panic_def)
qed

lemma end_of_interrupt_wf:
  assumes "lapic_wf a" "v < 256"
  shows "lapic_wf (a\<lparr>lapic_isr := clear_vector v (lapic_isr a)\<rparr>)"
    "lapic_wf (a\<lparr>lapic_isr := clear_vector v (lapic_isr a), lapic_calls := cs, lapic_tmr := clear_vector v (lapic_tmr a)\<rparr>)"
  using assms by (auto simp: lapic_wf_def vectors_clear)

lemma end_of_interrupt_inv: "lapic_inv a \<Longrightarrow> v < 256 \<Longrightarrow> lapic_inv (end_of_interrupt v a)"
  unfolding end_of_interrupt_def Let_def call_def
  by (intro service_inv) (simp_all add: lapic_inv_def end_of_interrupt_wf lvt_ok_def)

lemma receive_EOI_inv: "lapic_inv a \<Longrightarrow> lapic_inv (receive_EOI a)"
  using requests_256(2) [OF Max_in [OF finite_requests(2)], of a]
  by (simp add: receive_EOI_def Let_def highest_priority_int_top top_vector_def end_of_interrupt_inv)

lemma receive_SEOI_inv: "lapic_inv a \<Longrightarrow> lapic_inv (receive_SEOI v a)"
  using u8_below_256 [of v] by (simp add: receive_SEOI_def end_of_interrupt_inv)

section \<open>Acknowledge\<close>

lemma uint_get_ppr:
  assumes "lapic_wf a"
  shows "uint (get_ppr a) = (if in_service a = {} \<or> Max (in_service a) div 16 \<le> unat (task_priority a) div 16
           then uint (task_priority a) else int (16 * (Max (in_service a) div 16)))"
proof -
  have t: "unat (task_priority a) < 256" using assms by (simp add: lapic_wf_def)
  then have "int (unat (task_priority a)) < 256" by linarith
  then have tu: "uint (ucast (task_priority a) :: u8) = uint (task_priority a)"
    by (simp add: unsigned_ucast_eq take_bit_int_eq_self)
  show ?thesis
  proof (cases "in_service a = {}")
    case True
    then show ?thesis by (simp add: get_ppr_def highest_priority_int_top top_vector_def tu)
  next
    case False
    let ?m = "Max (in_service a)"
    have m: "?m < 256" using Max_in [OF finite_requests(2) False] by (rule requests_256(2))
    have h: "highest_priority_int a (lapic_isr a) = int ?m" using False by (simp add: highest_priority_int_top top_vector_def)
    have f: "int ?m AND 0xF0 = int (16 * (?m div 16))" unfolding int_and_f0 using m by simp
    have "uint (of_int (int (16 * (?m div 16))) :: u8) = int (16 * (?m div 16))"
      unfolding uint_word_of_int_eq using m by (intro take_bit_int_eq_self) simp_all
    then show ?thesis using False class_le [OF m t]
      unfolding get_ppr_def h Let_def f by (simp add: tu)
  qed
qed

lemma top_deliverable:
  assumes "lapic_wf a"
  shows "(top_vector (requests a) < 0 \<or> top_vector (requests a) AND 0xf0 \<le> uint (get_ppr a)) \<longleftrightarrow> (\<nexists>v. deliverable a v)"
    and "deliverable a v \<Longrightarrow> deliverable a (Max (requests a))"
proof -
  show top: "deliverable a (Max (requests a))" if "deliverable a v" for v
  proof -
    have "v \<in> requests a" using that by (simp add: deliverable_def)
    then have "v div 16 \<le> Max (requests a) div 16" by (intro div_le_mono Max_ge) simp_all
    moreover have "Max (requests a) \<in> requests a" using \<open>v \<in> requests a\<close> by (intro Max_in) auto
    ultimately show ?thesis using that by (fastforce simp: deliverable_def)
  qed
  show "(top_vector (requests a) < 0 \<or> top_vector (requests a) AND 0xf0 \<le> uint (get_ppr a)) \<longleftrightarrow> (\<nexists>v. deliverable a v)"
  proof (cases "requests a = {}")
    case True
    then show ?thesis by (simp add: top_vector_def deliverable_def)
  next
    case False
    let ?v = "Max (requests a)" and ?w = "Max (in_service a)"
    have v: "?v \<in> requests a" using False by simp
    have f: "int ?v AND 0xf0 = int (16 * (?v div 16))"
      unfolding int_and_f0 using requests_256(1) [OF v] by simp
    have c: "16 * x \<le> y \<longleftrightarrow> x \<le> y div 16" for x y :: nat by (simp add: less_eq_div_iff_mult_less_eq mult.commute)
    have s: "(\<forall>w \<in> in_service a. w div 16 < ?v div 16) \<longleftrightarrow> in_service a = {} \<or> ?w div 16 < ?v div 16"
    proof (cases "in_service a = {}")
      case False
      then have "?w \<in> in_service a" by simp
      moreover have "w div 16 \<le> ?w div 16" if "w \<in> in_service a" for w using that by (intro div_le_mono Max_ge) simp_all
      ultimately show ?thesis using False by (metis le_less_trans)
    qed simp
    have "int (16 * (?v div 16)) \<le> uint (get_ppr a) \<longleftrightarrow> \<not> deliverable a ?v"
    proof -
      have "int (16 * (?v div 16)) \<le> uint (task_priority a) \<longleftrightarrow> ?v div 16 \<le> unat (task_priority a) div 16"
        unfolding uint_nat of_nat_le_iff by (rule c)
      moreover have "int (16 * (?v div 16)) \<le> int (16 * (?w div 16)) \<longleftrightarrow> ?v div 16 \<le> ?w div 16"
        unfolding of_nat_le_iff by simp
      ultimately show ?thesis unfolding uint_get_ppr [OF assms] deliverable_def s using v by auto
    qed
    moreover have "(\<nexists>v. deliverable a v) \<longleftrightarrow> \<not> deliverable a ?v" using top by blast
    ultimately show ?thesis using False by (simp add: top_vector_def f)
  qed
qed

text \<open>The two outcomes of an acknowledge cycle.\<close>

lemma acknowledge_spurious:
  assumes "lapic_wf a" "lapic_intr a" "\<nexists>v. deliverable a v"
  shows "acknowledge_int a = (spurious_vector a, a\<lparr>lapic_intr := False\<rparr>)"
  using assms(2,3) top_deliverable(1) [OF assms(1)] by (simp add: acknowledge_int_def highest_priority_int_top)

lemma acknowledge_deliverable:
  assumes "lapic_wf a" "lapic_intr a" "deliverable a v"
  defines "m \<equiv> Max (requests a)"
  shows "acknowledge_int a = (of_nat m, a\<lparr>lapic_irr := clear_vector m (lapic_irr a),
           lapic_isr := set_vector m (lapic_isr a), lapic_intr := False\<rparr>)"
    and "lvt_ok a \<Longrightarrow> lapic_inv (snd (acknowledge_int a))"
proof -
  have ne: "requests a \<noteq> {}" using assms(3) by (auto simp: deliverable_def)
  then have m: "m \<in> requests a" by (simp add: m_def)
  have m256: "m < 256" using m by (rule requests_256)
  have irr: "m \<in> vectors (lapic_irr a)" "m \<in> vectors (lapic_ier a)" using m by (simp_all add: requests_def)
  have top: "top_vector (requests a) = int m" using ne by (simp add: top_vector_def m_def)
  have no: "\<not> (int m < 0 \<or> int m AND 0xf0 \<le> uint (get_ppr a))"
    using top_deliverable(1) [OF assms(1)] assms(3) unfolding top by blast
  let ?b = "a\<lparr>lapic_irr := clear_vector m (lapic_irr a), lapic_isr := set_vector m (lapic_isr a), lapic_intr := False\<rparr>"
  have wf: "lapic_wf ?b" using assms(1) m256 irr by (auto simp: lapic_wf_def vectors_clear vectors_set)
  have p: "requests ?b = requests a - {m}" and s: "in_service ?b = insert m (in_service a)"
    using assms(1) m256 irr by (auto simp: requests_def in_service_def lapic_wf_def vectors_clear vectors_set)
  have "\<not> signalled ?b"
  proof (cases "requests ?b = {}")
    case False
    then have "Max (requests ?b) \<in> requests a - {m}" unfolding p [symmetric] by simp
    then have "Max (requests ?b) \<le> m" by (simp add: m_def)
    then show ?thesis by (auto simp: signalled_def s)
  qed (simp add: signalled_def)
  then have "service_local_apic ?b = ?b" using service_eq [OF wf] by simp
  with no irr(1) assms(2) show eq: "acknowledge_int a = (of_nat m, ?b)"
    by (simp add: acknowledge_int_def highest_priority_int_top top Let_def bx_assert_def vectors_def)
  show "lapic_inv (snd (acknowledge_int a))" if "lvt_ok a"
    using service_inv [OF wf] \<open>service_local_apic ?b = ?b\<close> that unfolding eq by (simp add: lvt_ok_def)
qed

lemma acknowledge_inv:
  assumes "lapic_inv a" shows "lapic_inv (snd (acknowledge_int a))"
proof (cases "lapic_intr a")
  case True
  show ?thesis
  proof (cases "\<exists>v. deliverable a v")
    case d: True
    then show ?thesis using acknowledge_deliverable(2) [OF _ True] assms by (auto simp: lapic_inv_def)
  next
    case False
    then have "snd (acknowledge_int a) = a\<lparr>lapic_intr := False\<rparr>"
      using acknowledge_spurious [OF _ True False] assms by (simp add: lapic_inv_def)
    then show ?thesis using assms False
      by (simp add: lapic_inv_def lapic_wf_def lvt_ok_def intr_ok_def deliverable_def requests_def in_service_def)
  qed
next
  case False
  let ?b = "lapic_panic ''acknowledged an interrupt, but INTR=0'' a"
  have b: "same_vectors a ?b" "lvt_ok ?b" using assms by (simp_all add: same_vectors_def lapic_panic_def lapic_inv_def lvt_ok_def)
  from b(1) have "lapic_wf ?b" "\<nexists>v. deliverable ?b v" "top_vector (requests ?b) = top_vector (requests a)"
    using assms False by (auto simp: same_vectors_def lapic_inv_def lapic_wf_def intr_ok_def deliverable_def requests_def in_service_def)
  then have "snd (acknowledge_int a) = ?b"
    using top_deliverable(1) [of ?b] False by (simp add: acknowledge_int_def highest_priority_int_top Let_def) (simp add: lapic_panic_def)
  then show ?thesis using same_vectors_inv [OF b(1) assms b(2)] by simp
qed

section \<open>Operations on the configuration and the timers\<close>

named_theorems keeps \<open>operations that keep the invariant of one APIC\<close>

lemmas [keeps] = trigger_irq_inv set_tpr_inv untrigger_inv receive_EOI_inv receive_SEOI_inv acknowledge_inv

lemma trigger_inv [keeps]: "lapic_inv a \<Longrightarrow> lapic_inv (trigger_irq v t a)"
  unfolding trigger_irq_def by (rule trigger_irq_inv)

text \<open>The operations that change neither vectors nor the local vector table.\<close>

definition same_core :: "lapic \<Rightarrow> lapic \<Rightarrow> bool" where
  "same_core a b \<longleftrightarrow> same_vectors a b \<and> lvt b = lvt a \<and> software_enabled b = software_enabled a
     \<and> timer_divide_factor b = timer_divide_factor a"

lemma same_core_inv: "same_core a b \<Longrightarrow> lapic_inv a \<Longrightarrow> lapic_inv b"
  by (rule same_vectors_inv [of a]) (simp_all add: same_core_def lapic_inv_def lvt_ok_def)

lemmas timer_operation_defs = deactivate_lapic_timer_def start_lapic_timer_def set_initial_timer_count_def
  get_current_timer_count_def set_tsc_deadline_def set_vmx_preemption_timer_def
  deactivate_vmx_preemption_timer_def vmx_preemption_timer_expired_def deactivate_mwaitx_timer_def
  set_mwaitx_timer_def mwaitx_timer_expired_def call_def lapic_panic_def Let_def

lemma same_core_timers:
  "same_core a (deactivate_lapic_timer a)" "same_core a (start_lapic_timer now a)"
  "same_core a (set_initial_timer_count now v a)" "same_core a (snd (get_current_timer_count now a))"
  "same_core a (set_tsc_deadline now d a)" "same_core a (set_vmx_preemption_timer now v a)"
  "same_core a (deactivate_vmx_preemption_timer a)" "same_core a (vmx_preemption_timer_expired a)"
  "same_core a (deactivate_mwaitx_timer a)" "same_core a (set_mwaitx_timer d a)" "same_core a (mwaitx_timer_expired a)"
  by (simp_all add: timer_operation_defs same_core_def same_vectors_def)

lemma same_core_fields:
  "same_core a (a\<lparr>shadow_error_status := x\<rparr>)" "same_core a (a\<lparr>ldr := x\<rparr>)" "same_core a (a\<lparr>dest_format := x\<rparr>)"
  "same_core a (a\<lparr>error_status := x, shadow_error_status := y\<rparr>)" "same_core a (a\<lparr>icr_hi := x\<rparr>)"
  "same_core a (a\<lparr>icr_lo := x\<rparr>)" "same_core a (a\<lparr>xapic_ext := x\<rparr>)" "same_core a (a\<lparr>timer_divconf := x\<rparr>)"
  "same_core a (call e a)" "same_core a (lapic_panic m a)" "same_core a (bx_assert p a)"
  "same_core a (illegal_addr a)" "same_core a (snd (match_logical_addr d a))" "same_core a (enable_xapic_extensions a)"
  by (simp_all add: same_core_def same_vectors_def call_def lapic_panic_def bx_assert_def illegal_addr_def
      match_logical_addr_def enable_xapic_extensions_def)

lemmas [keeps] = same_core_timers [THEN same_core_inv] same_core_fields [THEN same_core_inv]

lemma lvt_masked: "i < 7 \<Longrightarrow> 0x10000 AND lvt_mask ! i = 0x10000"
  by (auto simp: lvt_mask_def less_Suc_eq numeral_eq_Suc)

lemma bit16: "bit (x OR 0x10000 :: u32) 16"
proof -
  have e: "(0x10000 :: u32) = shl1 16" by (simp add: shl1_def)
  show ?thesis unfolding e bit_or_shl1 by simp
qed

lemma masked_entry: "i < 7 \<Longrightarrow> x AND lvt_mask ! i = x \<Longrightarrow> (x OR 0x10000) AND lvt_mask ! i = x OR 0x10000"
  by (simp add: bit.conj_disj_distrib2 lvt_masked)

lemma write_spurious_inv [keeps]:
  assumes "lapic_inv a" shows "lapic_inv (write_spurious_interrupt_register v a)"
proof -
  have "lvt_ok (write_spurious_interrupt_register v a)"
    using assms by (auto simp: lapic_inv_def lvt_ok_def write_spurious_interrupt_register_def Let_def masked_entry bit16)
  moreover have "same_vectors a (write_spurious_interrupt_register v a)"
    by (simp add: same_vectors_def write_spurious_interrupt_register_def Let_def)
  ultimately show ?thesis using same_vectors_inv assms by blast
qed

lemma set_base_inv [keeps]:
  assumes "lapic_inv a" shows "lapic_inv (set_base b a)"
proof -
  have "lapic_inv (a\<lparr>apic_mode := m, lapic_base_addr := x\<rparr>)" "lapic_inv (a\<lparr>apic_mode := m, lapic_base_addr := x, ldr := l\<rparr>)" for m x l
    by (rule same_core_inv [OF _ assms]; simp add: same_core_def same_vectors_def)+
  then show ?thesis by (simp add: set_base_def Let_def write_spurious_inv)
qed

lemma unat_take_bit_3: "take_bit 3 x = x \<Longrightarrow> unat (x :: u32) < 8"
proof -
  assume "take_bit 3 x = x"
  then have "unat x = take_bit 3 (unat x)" using unsigned_take_bit_eq [of 3 x] by simp
  then show ?thesis using take_bit_nat_less_exp [of 3 "unat x"] by simp
qed

lemma divide_value: "drop_bit 1 (v AND 8) OR (v AND 3) \<in> {0, 1, 2, 3, 4, 5, 6, 7 :: u32}"
proof -
  let ?x = "drop_bit 1 (v AND 8) OR (v AND 3) :: u32"
  have e: "(8 :: u32) = shl1 3" "(3 :: u32) = mask 2" by (simp_all add: shl1_def mask_eq_exp_minus_1)
  have "bit ?x n \<Longrightarrow> n < 3" for n
    unfolding e bit_or_iff bit_and_iff bit_drop_bit_eq comp_def bit_shl1 bit_mask_iff by auto
  then have "take_bit 3 ?x = ?x"
    by (intro bit_word_eqI) (simp only: bit_take_bit_iff, blast)
  then have "unat ?x < 8" by (rule unat_take_bit_3)
  then have "unat ?x \<in> {0, 1, 2, 3, 4, 5, 6, 7}" by auto
  then show ?thesis unfolding insert_iff word_eq_iff_unsigned [where 'a = nat] by simp
qed

lemma set_divide_inv [keeps]:
  assumes "lapic_inv a" shows "lapic_inv (set_divide_configuration v a)"
proof -
  have "timer_divide_factor (set_divide_configuration v a) \<in> {1, 2, 4, 8, 16, 32, 64, 128}"
    using divide_value [of v] by (auto simp: set_divide_configuration_def Let_def)
  then have "lvt_ok (set_divide_configuration v a)"
    using assms by (simp add: lapic_inv_def lvt_ok_def set_divide_configuration_def Let_def bx_assert_def lapic_panic_def)
  moreover have "same_vectors a (set_divide_configuration v a)"
    by (simp add: same_vectors_def set_divide_configuration_def Let_def bx_assert_def lapic_panic_def)
  ultimately show ?thesis using same_vectors_inv assms by blast
qed

lemma set_lvt_inv [keeps]:
  assumes "lapic_inv a" and "BX_LAPIC_LVT_TIMER \<le> r \<and> r \<le> BX_LAPIC_LVT_ERROR \<or> r = BX_LAPIC_LVT_CMCI"
  shows "lapic_inv (set_lvt_entry g r v a)"
proof -
  let ?i = "if r = BX_LAPIC_LVT_CMCI then APIC_LVT_CMCI else unat (drop_bit 4 (r - BX_LAPIC_LVT_TIMER))"
  have i: "?i < 7"
  proof (cases "r = BX_LAPIC_LVT_CMCI")
    case False
    then have "unat (r - BX_LAPIC_LVT_TIMER) = unat r - 0x320" "unat r \<le> 0x370"
      using assms(2) by (simp_all add: unat_sub word_le_nat_alt)
    then have "unat (drop_bit 4 (r - BX_LAPIC_LVT_TIMER)) \<le> (0x370 - 0x320) div 16"
      by (simp add: drop_bit_eq_div unat_div)
    then show ?thesis using False by simp
  qed (simp add: APIC_LVT_CMCI_def)
  have d: "lapic_inv (deactivate_lapic_timer a)" by (rule same_core_inv [OF same_core_timers(1) assms(1)])
  have step: "lapic_inv (let b = b\<lparr>lvt := (lvt b)[i := w AND lvt_mask ! i]\<rparr>
      in if \<not> software_enabled b then b\<lparr>lvt := (lvt b)[i := lvt b ! i OR 0x10000]\<rparr> else b)"
    if "lapic_inv b" "i < 7" for b w i
  proof (rule same_vectors_inv [OF _ that(1)])
    have e: "(w AND lvt_mask ! i) AND lvt_mask ! i = w AND lvt_mask ! i" by (simp add: and.assoc)
    show "lvt_ok (let b = b\<lparr>lvt := (lvt b)[i := w AND lvt_mask ! i]\<rparr>
      in if \<not> software_enabled b then b\<lparr>lvt := (lvt b)[i := lvt b ! i OR 0x10000]\<rparr> else b)"
      using that by (simp add: lapic_inv_def lvt_ok_def Let_def nth_list_update masked_entry [OF _ e] e bit16)
  qed (simp add: same_vectors_def Let_def)
  show ?thesis
    unfolding set_lvt_entry_def Let_def using step [OF assms(1) i] step [OF d i] by (auto simp: Let_def)
qed

lemma periodic_inv [keeps]: "lapic_inv a \<Longrightarrow> lapic_inv (lapic_periodic now a)"
proof -
  assume a: "lapic_inv a"
  have c: "same_core b (call e (b\<lparr>timer_current := x, lapic_timer_active := y\<rparr>))" for b e x y
    by (simp add: same_core_def same_vectors_def call_def)
  show ?thesis
    by (simp add: lapic_periodic_def Let_def a trigger_inv same_core_inv [OF c] same_core_inv [OF same_core_timers(2)])
qed

lemma read_inv [keeps]: "lapic_inv a \<Longrightarrow> lapic_inv (snd (lapic_read_aligned g now addr a))"
proof -
  assume a: "lapic_inv a"
  have "lapic_inv (snd (get_current_timer_count now b))" "lapic_inv (illegal_addr b)" if "lapic_inv b" for b
    using that by (simp_all add: keeps)
  then show ?thesis
    using same_core_inv [OF same_core_fields(11) a] by (simp add: lapic_read_aligned_def Let_def)
qed

lemma lapic_read_inv [keeps]: "lapic_inv a \<Longrightarrow> lapic_inv (snd (lapic_read g now addr n a))"
  by (simp add: lapic_read_def Let_def split_beta read_inv same_core_inv [OF same_core_fields(10)])

lemma read_x2apic_inv [keeps]: "lapic_inv a \<Longrightarrow> lapic_inv (snd (read_x2apic g now k a))"
  using read_inv [of a g now] by (simp add: read_x2apic_def Let_def split_beta)

lemma if_keeps: "(c \<Longrightarrow> lapic_inv a) \<Longrightarrow> (\<not> c \<Longrightarrow> lapic_inv b) \<Longrightarrow> lapic_inv (if c then a else b)"
  by simp

lemma write_register_inv:
  assumes "lapic_inv a" "\<not> (BX_LAPIC_IER1 \<le> r \<and> r \<le> BX_LAPIC_IER8)"
  shows "lapic_inv (write_register g now r v a)"
proof -
  have divcfg: "lapic_inv (let a = a\<lparr>timer_divconf := v AND 0xb\<rparr> in set_divide_configuration (timer_divconf a) a)"
    unfolding Let_def by (intro set_divide_inv same_core_inv [OF same_core_fields(8) assms(1)])
  show ?thesis
    unfolding write_register_def
    by (intro if_keeps;
        (rule set_lvt_inv [OF assms(1)], assumption | use assms(2) in blast | simp only: keeps assms(1) divcfg))
qed

lemma reset_fields:
  "lapic_irr (lapic_reset a) = replicate 8 0" "lapic_isr (lapic_reset a) = replicate 8 0"
  "lapic_tmr (lapic_reset a) = replicate 8 0" "lapic_ier (lapic_reset a) = replicate 8 0xFFFFFFFF"
  "task_priority (lapic_reset a) = 0" "lvt (lapic_reset a) = replicate 7 0x10000"
  "\<not> software_enabled (lapic_reset a)" "timer_divide_factor (lapic_reset a) = 1"
  by (simp_all add: lapic_reset_def Let_def call_def APIC_LVT_ENTRIES_def)

lemma reset_inv [keeps]: "lapic_inv (lapic_reset a)"
  by (simp add: lapic_inv_def lapic_wf_def lvt_ok_def intr_ok_def deliverable_def requests_def reset_fields
      lvt_masked bit16 [of 0, simplified])

lemma init_inv: "lapic_inv (lapic_init x i h1 h2 h3 raw)"
  by (simp add: lapic_init_def Let_def reset_inv)

lemma deliver_inv [keeps]: "lapic_inv a \<Longrightarrow> lapic_inv (snd (lapic_deliver v m t a))"
  by (simp add: lapic_deliver_def keeps)

section \<open>Operations on the bus\<close>

definition bus_inv :: "lapic list \<Rightarrow> bool" where
  "bus_inv apics \<longleftrightarrow> list_all lapic_inv apics"

lemma bus_update: "bus_inv apics \<Longrightarrow> (i < length apics \<Longrightarrow> lapic_inv a) \<Longrightarrow> bus_inv (apics[i := a])"
  by (cases "i < length apics") (auto simp: bus_inv_def list_all_length nth_list_update)

lemma bus_nth: "bus_inv apics \<Longrightarrow> i < length apics \<Longrightarrow> lapic_inv (apics ! i)"
  by (simp add: bus_inv_def list_all_length)

lemma on_apic_inv: "bus_inv apics \<Longrightarrow> (\<And>a. lapic_inv a \<Longrightarrow> lapic_inv (f a)) \<Longrightarrow> bus_inv (on_apic i f apics)"
  unfolding on_apic_def by (intro bus_update) (auto dest: bus_nth)

lemma deliver_to_inv: "bus_inv apics \<Longrightarrow> bus_inv (deliver_to i v m t apics)"
  unfolding deliver_to_def by (rule on_apic_inv) (simp_all add: keeps)

lemma match_inv: "bus_inv apics \<Longrightarrow> bus_inv (apics[i := snd (match_logical_addr d (apics ! i))])"
  by (rule bus_update) (auto dest!: bus_nth intro: same_core_inv [OF same_core_fields(13)])

lemma fold_keeps: "(\<And>i s. P s \<Longrightarrow> P (f i s)) \<Longrightarrow> P s \<Longrightarrow> P (fold f is s)"
  by (induction "is" arbitrary: s) simp_all

lemma lowest_priority_inv:
  assumes "bus_inv apics" shows "bus_inv (snd (apic_bus_deliver_lowest_priority v d t b apics))"
proof -
  have "bus_inv (snd (fold (arbitrate d b) [0..<length apics] ((None, 0x100), apics)))"
  proof (rule fold_keeps [where P = "\<lambda>s. bus_inv (snd s)"])
    show "bus_inv (snd (arbitrate d b i s))" if "bus_inv (snd s)" for i and s :: "(nat option \<times> nat) \<times> lapic list"
      using that match_inv by (cases s) (auto simp: arbitrate_def Let_def split_beta)
  qed (simp add: assms)
  then show ?thesis
    by (auto simp: apic_bus_deliver_lowest_priority_def assms deliver_to_inv split: option.split prod.split)
qed

lemma broadcast_inv:
  assumes "bus_inv apics" shows "bus_inv (snd (apic_bus_broadcast_interrupt v m t x apics))"
  using assms by (auto simp: apic_bus_broadcast_interrupt_def lowest_priority_inv deliver_to_inv intro!: fold_keeps [where P = bus_inv])

lemma bus_deliver_inv:
  assumes "bus_inv apics" shows "bus_inv (snd (apic_bus_deliver_interrupt g v d m l lv t apics))"
proof -
  have "bus_inv (snd (fold (offer_logical v d m t) [0..<length apics] (False, apics)))"
  proof (rule fold_keeps [where P = "\<lambda>s. bus_inv (snd s)"])
    show "bus_inv (snd (offer_logical v d m t i s))" if "bus_inv (snd s)" for i and s :: "bool \<times> lapic list"
      using that match_inv deliver_to_inv by (cases s) (auto simp: offer_logical_def Let_def split_beta)
  qed (simp add: assms)
  then show ?thesis
    using assms by (auto simp: apic_bus_deliver_interrupt_def lowest_priority_inv broadcast_inv deliver_to_inv split: option.split)
qed

lemma send_ipi_inv:
  assumes "bus_inv apics" shows "bus_inv (send_ipi g this d cmd apics)"
proof -
  have e: "bus_inv (on_apic this (\<lambda>a. a\<lparr>shadow_error_status := shadow_error_status a OR x\<rparr>) b)" if "bus_inv b" for b x
    by (rule on_apic_inv [OF that]) (simp add: keeps)
  have s: "bus_inv (on_apic this (trigger_irq v t) apics)" for v t
    by (rule on_apic_inv [OF assms]) (simp add: keeps)
  show ?thesis
    unfolding send_ipi_def Let_def split_beta
    by (simp add: e s assms bus_deliver_inv broadcast_inv)
qed

lemma write_aligned_inv:
  assumes "bus_inv apics" "\<not> (BX_LAPIC_IER1 \<le> apic_reg_of g addr \<and> apic_reg_of g addr \<le> BX_LAPIC_IER8)"
  shows "bus_inv (lapic_write_aligned g now this addr v apics)"
proof -
  have a: "bus_inv (on_apic this (bx_assert p) apics)" for p by (rule on_apic_inv [OF assms(1)]) (simp add: keeps)
  have "bus_inv (on_apic this (\<lambda>a. a\<lparr>icr_lo := x\<rparr>) (on_apic this (bx_assert p) apics))" for x p
    by (rule on_apic_inv [OF a]) (simp add: keeps)
  moreover have "bus_inv (on_apic this (write_register g now (apic_reg_of g addr) v) (on_apic this (bx_assert p) apics))" for p
    by (rule on_apic_inv [OF a]) (rule write_register_inv [OF _ assms(2)])
  ultimately show ?thesis unfolding lapic_write_aligned_def Let_def by (simp add: send_ipi_inv)
qed

section \<open>Reachable states\<close>

text \<open>What can happen at one APIC: accesses that stay inside it, its timers and the calls of its CPU.\<close>

inductive local_step :: "apic_cfg \<Rightarrow> lapic \<Rightarrow> lapic \<Rightarrow> bool" for g where
  Read: "local_step g a (snd (lapic_read g now addr n a))"
| Read_msr: "local_step g a (snd (read_x2apic g now k a))"
| Acknowledge: "local_step g a (snd (acknowledge_int a))"
| Eoi: "local_step g a (receive_EOI a)"
| Cr8: "local_step g a (set_tpr p a)"
| Untrigger: "local_step g a (untrigger_irq v a)"
| Timer: "local_step g a (lapic_periodic now a)"
| Deadline: "local_step g a (set_tsc_deadline now d a)"
| Vmx_set: "local_step g a (set_vmx_preemption_timer now v32 a)"
| Vmx_off: "local_step g a (deactivate_vmx_preemption_timer a)"
| Vmx_expired: "local_step g a (vmx_preemption_timer_expired a)"
| Mwaitx_set: "local_step g a (set_mwaitx_timer d a)"
| Mwaitx_off: "local_step g a (deactivate_mwaitx_timer a)"
| Mwaitx_expired: "local_step g a (mwaitx_timer_expired a)"
| Base: "local_step g a (set_base b a)"
| Extensions: "local_step g a (enable_xapic_extensions a)"
| Reset: "local_step g a (lapic_reset a)"

inductive_cases local_stepE: "local_step g a b"

lemma local_step_inv: "lapic_inv a \<Longrightarrow> local_step g a b \<Longrightarrow> lapic_inv b"
  by (erule local_stepE) (simp_all add: keeps)

text \<open>
  What can happen on the bus. Writes of the interrupt enable registers, an extension, are left out:
  the code does not look for deliverable interrupts after them.
\<close>

inductive apic_step :: "apic_cfg \<Rightarrow> lapic list \<Rightarrow> lapic list \<Rightarrow> bool" for g where
  Local: "i < length b \<Longrightarrow> local_step g (b ! i) a \<Longrightarrow> apic_step g b (b[i := a])"
| Message: "apic_step g b (snd (apic_bus_deliver_interrupt g v d m l lv t b))"
| Ipi: "apic_step g b (send_ipi g i d cmd b)"
| Write: "\<not> (BX_LAPIC_IER1 \<le> apic_reg_of g addr \<and> apic_reg_of g addr \<le> BX_LAPIC_IER8)
    \<Longrightarrow> apic_step g b (lapic_write g now i addr data n b)"
| Write_msr: "apic_step g b (snd (write_x2apic g now i k hi lo b))"

inductive_cases apic_stepE: "apic_step g b c"

lemma lapic_write_inv:
  assumes "bus_inv b" "\<not> (BX_LAPIC_IER1 \<le> apic_reg_of g addr \<and> apic_reg_of g addr \<le> BX_LAPIC_IER8)"
  shows "bus_inv (lapic_write g now i addr data n b)"
proof -
  have "bus_inv (on_apic i (lapic_panic m) b)" for m by (rule on_apic_inv [OF assms(1)]) (simp add: keeps)
  then show ?thesis by (simp add: lapic_write_def write_aligned_inv assms)
qed

lemma x2apic_register:
  assumes "r < 0x400"
  shows "apic_reg_of g (ucast r) = r AND 0xff0" "\<not> BX_LAPIC_IER1 \<le> apic_reg_of g (ucast r)"
proof -
  have e: "ucast (ucast r AND 0xff0 :: u64) = r AND 0xff0"
    by (rule bit_word_eqI) (auto simp: bit_and_iff bit_ucast_iff bit_numeral_rec)
  have lt: "r AND 0xff0 < 0x400" by (rule order_le_less_trans [OF word_and_le2 assms])
  then show "apic_reg_of g (ucast r) = r AND 0xff0" by (simp add: apic_reg_of_def Let_def e not_le [symmetric])
  with lt show "\<not> BX_LAPIC_IER1 \<le> apic_reg_of g (ucast r)" by (simp add: not_le order_less_trans)
qed

lemma if_snd: "(c \<Longrightarrow> bus_inv (snd x)) \<Longrightarrow> (\<not> c \<Longrightarrow> bus_inv (snd y)) \<Longrightarrow> bus_inv (snd (if c then x else y))"
  by simp

lemma write_x2apic_inv:
  assumes "bus_inv b" shows "bus_inv (snd (write_x2apic g now i k hi lo b))"
proof -
  let ?r = "x2apic_index k"
  have legacy: "bus_inv (lapic_write_aligned g now i (ucast ?r) lo b)" if "?r < 0x400"
    using x2apic_register(2) [OF that] by (intro write_aligned_inv assms) blast
  have self: "bus_inv (on_apic i (trigger_irq v t) b)" for v t by (rule on_apic_inv [OF assms]) (simp add: keeps)
  have lvt: "r < 0x400" if "r \<le> BX_LAPIC_LVT_ERROR" for r :: u32 by (rule order_le_less_trans [OF that]) simp
  show ?thesis
    unfolding write_x2apic_def Let_def
    by (intro if_snd; unfold snd_conv;
        (rule assms | rule self | rule send_ipi_inv [OF assms] | rule legacy, auto dest: lvt))
qed

lemma apic_step_inv: "bus_inv b \<Longrightarrow> apic_step g b c \<Longrightarrow> bus_inv c"
proof (erule apic_stepE)
  fix i a assume "bus_inv b" "c = b[i := a]" "i < length b" "local_step g (b ! i) a"
  then show "bus_inv c" using local_step_inv [OF bus_nth] by (simp add: bus_update)
qed (simp_all add: bus_deliver_inv send_ipi_inv lapic_write_inv write_x2apic_inv)

text \<open>The machine after the constructors of its CPUs.\<close>

definition powered_on :: "lapic list \<Rightarrow> bool" where
  "powered_on b \<longleftrightarrow> (\<forall>a \<in> set b. \<exists>x i h1 h2 h3 raw. a = lapic_init x i h1 h2 h3 raw)"

interpretation apics: device powered_on "apic_step g" bus_inv for g
  by unfold_locales (auto simp: powered_on_def bus_inv_def list_all_iff init_inv dest: apic_step_inv [unfolded bus_inv_def list_all_iff])

section \<open>End of interrupt\<close>

lemma service_fields:
  assumes "lapic_wf a"
  shows "requests (service_local_apic a) = requests a" "in_service (service_local_apic a) = in_service a"
    "lapic_tmr (service_local_apic a) = lapic_tmr a" "lapic_calls (service_local_apic a) = lapic_calls a"
    "lapic_intr (service_local_apic a) \<longleftrightarrow> lapic_intr a \<or> signalled a"
  by (simp_all add: service_eq [OF assms] requests_def in_service_def)

lemma end_of_interrupt_spec:
  assumes "lapic_wf a" "v < 256"
  shows "requests (end_of_interrupt v a) = requests a" "in_service (end_of_interrupt v a) = in_service a - {v}"
    "vectors (lapic_tmr (end_of_interrupt v a)) = vectors (lapic_tmr a) - {v}"
    "lapic_calls (end_of_interrupt v a)
       = lapic_calls a @ (if v \<in> vectors (lapic_tmr a) then [Broadcast_eoi (of_nat v)] else [])"
    "lapic_intr (end_of_interrupt v a) \<longleftrightarrow> lapic_intr a \<or> signalled (a\<lparr>lapic_isr := clear_vector v (lapic_isr a)\<rparr>)"
proof -
  note wf = end_of_interrupt_wf [OF assms]
  have l: "length (lapic_isr a) = 8" "length (lapic_tmr a) = 8" using assms(1) by (simp_all add: lapic_wf_def)
  have t: "get_vector (lapic_tmr a) v \<longleftrightarrow> v \<in> vectors (lapic_tmr a)" using assms(2) by (simp add: vectors_def)
  let ?b = "a\<lparr>lapic_isr := clear_vector v (lapic_isr a)\<rparr>"
  have s: "signalled (b\<lparr>lapic_calls := c, lapic_tmr := x\<rparr>) = signalled b" for b c x
    by (simp add: signalled_def requests_def in_service_def)
  show "requests (end_of_interrupt v a) = requests a" "in_service (end_of_interrupt v a) = in_service a - {v}"
    using service_fields [OF wf(1)] service_fields [OF wf(2)]
    by (auto simp: end_of_interrupt_def Let_def call_def requests_def in_service_def vectors_clear [OF l(1) assms(2)])
  show "vectors (lapic_tmr (end_of_interrupt v a)) = vectors (lapic_tmr a) - {v}"
    "lapic_calls (end_of_interrupt v a)
       = lapic_calls a @ (if v \<in> vectors (lapic_tmr a) then [Broadcast_eoi (of_nat v)] else [])"
    "lapic_intr (end_of_interrupt v a) \<longleftrightarrow> lapic_intr a \<or> signalled ?b"
    using service_fields [OF wf(1)] service_fields [OF wf(2)]
    by (auto simp: end_of_interrupt_def Let_def call_def t vectors_clear [OF l(2) assms(2)] s)
qed

lemma receive_EOI_eq:
  assumes "in_service a \<noteq> {}" "Max (in_service a) \<noteq> unat (spurious_vector a)"
  shows "receive_EOI a = end_of_interrupt (Max (in_service a)) a"
proof -
  let ?m = "Max (in_service a)"
  have m: "?m < 256" using Max_in [OF finite_requests(2) assms(1)] by (rule requests_256)
  have "(of_int (int ?m) :: u32) \<noteq> ucast (spurious_vector a)"
  proof
    assume "(of_int (int ?m) :: u32) = ucast (spurious_vector a)"
    then have "unat (of_nat ?m :: u32) = unat (spurious_vector a)" by simp
    moreover have "unat (of_nat ?m :: u32) = ?m" using m by (simp add: unat_of_nat)
    ultimately show False using assms(2) by simp
  qed
  then show ?thesis using assms(1) by (simp add: receive_EOI_def highest_priority_int_top top_vector_def)
qed

section \<open>One interrupt at an idle APIC\<close>

definition quiet_lapic :: "lapic \<Rightarrow> bool" where
  "quiet_lapic a \<longleftrightarrow> lapic_inv a \<and> vectors (lapic_irr a) = {} \<and> vectors (lapic_isr a) = {}
     \<and> vectors (lapic_ier a) = {..<256} \<and> \<not> lapic_intr a"

lemma quiet_empty: "quiet_lapic a \<Longrightarrow> requests a = {}" "quiet_lapic a \<Longrightarrow> in_service a = {}"
  by (simp_all add: quiet_lapic_def requests_def in_service_def)

lemma trigger_quiet:
  fixes t :: bool
  assumes "quiet_lapic a" "16 \<le> v" "unat (task_priority a) div 16 < unat v div 16"
  defines "b \<equiv> trigger_irq v t a"
  shows "lapic_inv b" "lapic_intr b" "requests b = {unat v}" "in_service b = {}"
    "unat v \<in> vectors (lapic_tmr b) \<longleftrightarrow> t" "lapic_calls b = lapic_calls a" "deliverable b (unat v)"
    "spurious_vector b = spurious_vector a"
proof -
  have inv: "lapic_inv a" using assms(1) by (simp add: quiet_lapic_def)
  then have w: "lapic_wf a" by (simp add: lapic_inv_def)
  have u: "unat v < 256" by (rule u8_below_256)
  have v16: "16 \<le> unat v" using assms(2) by (simp add: word_le_nat_alt)
  have l: "length (lapic_irr a) = 8" "length (lapic_tmr a) = 8" using w by (simp_all add: lapic_wf_def)
  show "lapic_inv b" unfolding b_def by (rule trigger_inv [OF inv])
  let ?tm = "if t then set_vector (unat v) (lapic_tmr a) else clear_vector (unat v) (lapic_tmr a)"
  let ?c = "a\<lparr>lapic_irr := set_vector (unat v) (lapic_irr a), lapic_tmr := ?tm\<rparr>"
  have none: "\<not> get_vector (lapic_irr a) (unat v)" using assms(1) u by (auto simp: quiet_lapic_def vectors_def)
  have b: "b = service_local_apic ?c"
    using assms(2) none by (simp add: b_def trigger_irq_def trigger_irq_with_def BX_LAPIC_FIRST_VECTOR_def not_less [symmetric] Let_def)
  have wf: "lapic_wf ?c" by (rule wf_request [OF w v16 u]) (simp add: l)
  have r: "requests ?c = {unat v}" "in_service ?c = {}"
    using assms(1) u l by (auto simp: quiet_lapic_def requests_def in_service_def vectors_set)
  note f = service_fields [OF wf]
  show rb: "requests b = {unat v}" "in_service b = {}" using f(1,2) r by (simp_all add: b)
  show "unat v \<in> vectors (lapic_tmr b) \<longleftrightarrow> t" using f(3) l u by (simp add: b vectors_set vectors_clear)
  show "lapic_calls b = lapic_calls a" using f(4) by (simp add: b)
  have "signalled ?c" using r assms(3) by (simp add: signalled_def)
  then show "lapic_intr b" using f(5) by (simp add: b)
  have "task_priority b = task_priority a" "spurious_vector b = spurious_vector a"
    by (simp_all add: b service_eq [OF wf])
  then show "deliverable b (unat v)" "spurious_vector b = spurious_vector a"
    using rb assms(3) by (simp_all add: deliverable_def)
qed

text \<open>
  The code compares whole vectors when it raises the line but classes when it is acknowledged: a
  vector above one in service of the same class raises the line, and the CPU gets a spurious interrupt.
\<close>

lemma same_class_spurious:
  assumes "lapic_wf a" "signalled a" "w \<in> in_service a" "w div 16 = Max (requests a) div 16"
  shows "lapic_intr (service_local_apic a)" "fst (acknowledge_int (service_local_apic a)) = spurious_vector a"
proof -
  note f = service_fields [OF assms(1)]
  let ?b = "service_local_apic a"
  show i: "lapic_intr ?b" using f(5) assms(2) by simp
  have w: "lapic_wf ?b" using assms(1) by (simp add: service_eq [OF assms(1)] lapic_wf_def)
  have "\<not> deliverable ?b (Max (requests ?b))" using assms(3,4) f(1,2) by (fastforce simp: deliverable_def)
  then have "\<nexists>v. deliverable ?b v" using top_deliverable(2) [OF w] by blast
  from acknowledge_spurious [OF w i this] show "fst (acknowledge_int ?b) = spurious_vector a"
    by (simp add: service_eq [OF assms(1)])
qed

text \<open>Request, acknowledge and end of interrupt lead back to an idle APIC.\<close>

lemma interrupt_cycle:
  fixes t :: bool
  assumes "quiet_lapic a" "16 \<le> v" "unat (task_priority a) div 16 < unat v div 16" "v \<noteq> spurious_vector a"
  defines "b \<equiv> trigger_irq v t a"
  shows "fst (acknowledge_int b) = v" "in_service (snd (acknowledge_int b)) = {unat v}" "\<not> lapic_intr (snd (acknowledge_int b))"
    and "requests (receive_EOI (snd (acknowledge_int b))) = {}" "in_service (receive_EOI (snd (acknowledge_int b))) = {}"
    and "\<not> lapic_intr (receive_EOI (snd (acknowledge_int b)))"
    and "lapic_calls (receive_EOI (snd (acknowledge_int b))) = lapic_calls a @ (if t then [Broadcast_eoi v] else [])"
proof -
  note q = trigger_quiet [OF assms(1-3), of t, folded b_def]
  have w: "lapic_wf b" using q(1) by (simp add: lapic_inv_def)
  have u: "unat v < 256" by (rule u8_below_256)
  let ?c = "b\<lparr>lapic_irr := clear_vector (unat v) (lapic_irr b), lapic_isr := set_vector (unat v) (lapic_isr b), lapic_intr := False\<rparr>"
  have ack: "acknowledge_int b = (v, ?c)" using acknowledge_deliverable(1) [OF w q(2,7)] by (simp add: q(3))
  have l: "length (lapic_irr b) = 8" "length (lapic_isr b) = 8" using w by (simp_all add: lapic_wf_def)
  have ier: "unat v \<in> vectors (lapic_ier b)" using q(3) by (auto simp: requests_def)
  have c: "requests ?c = {}" "in_service ?c = {unat v}"
    using q(3,4) ier u l by (auto simp: requests_def in_service_def vectors_set vectors_clear)
  have inv: "lapic_inv ?c" using acknowledge_inv [OF q(1)] ack by simp
  then have wc: "lapic_wf ?c" by (simp add: lapic_inv_def)
  have sp: "unat v \<noteq> unat (spurious_vector ?c)" using assms(4) q(8) by (simp add: word_eq_iff_unsigned [where 'a = nat])
  have eoi: "receive_EOI ?c = end_of_interrupt (unat v) ?c" using receive_EOI_eq [of ?c] c(2) sp by simp
  note e = end_of_interrupt_spec [OF wc u]
  show "fst (acknowledge_int b) = v" "in_service (snd (acknowledge_int b)) = {unat v}" "\<not> lapic_intr (snd (acknowledge_int b))"
    by (simp_all add: ack c)
  show "requests (receive_EOI (snd (acknowledge_int b))) = {}" "in_service (receive_EOI (snd (acknowledge_int b))) = {}"
    using e(1,2) by (simp_all add: ack eoi c)
  have "requests (?c\<lparr>lapic_isr := x\<rparr>) = {}" for x using c(1) by (simp add: requests_def)
  then have "\<not> signalled (?c\<lparr>lapic_isr := x\<rparr>)" for x by (simp add: signalled_def)
  then show "\<not> lapic_intr (receive_EOI (snd (acknowledge_int b)))" using e(5) by (simp add: ack eoi)
  show "lapic_calls (receive_EOI (snd (acknowledge_int b))) = lapic_calls a @ (if t then [Broadcast_eoi v] else [])"
    using e(4) q(5,6) by (simp add: ack eoi)
qed

section \<open>Lowest-priority arbitration\<close>

definition arbitration_priority :: "lapic \<Rightarrow> nat" where
  "arbitration_priority a = unat (if xapic a then get_tpr a else get_apr a)"

text \<open>The candidates: all, or those a logical destination matches (its format being supported).\<close>

definition candidates :: "u32 \<Rightarrow> bool \<Rightarrow> lapic list \<Rightarrow> nat set" where
  "candidates dest broadcast b = {i. i < length b \<and> (broadcast \<or> fst (match_logical_addr dest (b ! i)))}"

definition format_ok :: "lapic \<Rightarrow> bool" where
  "format_ok a \<longleftrightarrow> apic_mode a = BX_APIC_X2APIC_MODE \<or> dest_format a = 0xf \<or> dest_format a = 0"

lemma match_pure: "format_ok a \<Longrightarrow> snd (match_logical_addr d a) = a"
  by (auto simp: match_logical_addr_def format_ok_def)

text \<open>The winner among the first agents: the least priority, and the first of those that have it.\<close>

definition winner :: "nat set \<Rightarrow> (nat \<Rightarrow> nat) \<Rightarrow> nat \<Rightarrow> bool" where
  "winner C p i \<longleftrightarrow> i \<in> C \<and> (\<forall>j \<in> C. p i \<le> p j) \<and> (\<forall>j \<in> C. j < i \<longrightarrow> p i < p j)"

lemma arbitration_loop:
  fixes d :: u32 and bc :: bool
  assumes "list_all format_ok b" "n \<le> length b"
  defines "p \<equiv> \<lambda>i. arbitration_priority (b ! i)" and "C \<equiv> \<lambda>n. candidates d bc b \<inter> {..<n}"
  shows "\<exists>r. fold (arbitrate d bc) [0..<n] ((None, 0x100), b) = (r, b)
    \<and> (case fst r of None \<Rightarrow> C n = {} \<and> snd r = 0x100 | Some i \<Rightarrow> winner (C n) p i \<and> snd r = p i)"
  using assms(2)
proof (induction n)
  case 0
  then show ?case by (simp add: C_def)
next
  case (Suc n)
  then obtain r where r: "fold (arbitrate d bc) [0..<n] ((None, 0x100), b) = (r, b)"
    and inv: "case fst r of None \<Rightarrow> C n = {} \<and> snd r = 0x100 | Some i \<Rightarrow> winner (C n) p i \<and> snd r = p i" by auto
  have n: "n < length b" using Suc.prems by simp
  have pure: "b[n := snd (match_logical_addr d (b ! n))] = b"
    using assms(1) n by (simp add: match_pure list_all_length)
  have p256: "p n < 256" by (simp add: p_def arbitration_priority_def u8_below_256)
  have C: "C (Suc n) = (if n \<in> candidates d bc b then insert n (C n) else C n)"
    by (auto simp: C_def less_Suc_eq)
  have m: "bc \<or> fst (match_logical_addr d (b ! n)) \<longleftrightarrow> n \<in> candidates d bc b" using n by (simp add: candidates_def)
  have lt: "j < n" if "j \<in> C n" for j using that by (simp add: C_def)
  have step: "arbitrate d bc n (r, b)
      = (if n \<in> candidates d bc b \<and> p n < snd r then ((Some n, p n), b) else (r, b))"
    using pure m by (cases r) (auto simp: arbitrate_def split_beta p_def arbitration_priority_def Let_def)
  define r' where "r' = (if n \<in> candidates d bc b \<and> p n < snd r then (Some n, p n) else r)"
  have "fold (arbitrate d bc) [0..<Suc n] ((None, 0x100), b) = (r', b)" by (simp add: r step r'_def)
  moreover have "case fst r' of None \<Rightarrow> C (Suc n) = {} \<and> snd r' = 0x100 | Some i \<Rightarrow> winner (C (Suc n)) p i \<and> snd r' = p i"
  proof (cases "n \<in> candidates d bc b")
    case True
    show ?thesis
    proof (cases "fst r")
      case None
      then show ?thesis using inv True p256 r'_def by (simp add: C winner_def)
    next
      case (Some i)
      then have w: "winner (C n) p i" "snd r = p i" using inv by simp_all
      then show ?thesis using r'_def True Some lt by (fastforce simp: C winner_def)
    qed
  next
    case False
    then show ?thesis using inv r'_def by (cases "fst r") (simp_all add: C)
  qed
  ultimately show ?case by blast
qed

lemma lowest_priority_delivery:
  assumes "list_all format_ok b" "xapic (b ! 0)"
  shows "candidates d bc b = {} \<Longrightarrow> apic_bus_deliver_lowest_priority v d t bc b = (False, b)"
    and "candidates d bc b \<noteq> {} \<Longrightarrow> \<exists>i. winner (candidates d bc b) (\<lambda>i. arbitration_priority (b ! i)) i
           \<and> apic_bus_deliver_lowest_priority v d t bc b = (True, on_apic i (trigger_irq v t) b)"
proof -
  have C: "candidates d bc b \<inter> {..<length b} = candidates d bc b" by (auto simp: candidates_def)
  from arbitration_loop [OF assms(1) order_refl, of d bc] obtain r where
    r: "fold (arbitrate d bc) [0..<length b] ((None, 0x100), b) = (r, b)"
    and inv: "case fst r of None \<Rightarrow> candidates d bc b = {} \<and> snd r = 0x100
      | Some i \<Rightarrow> winner (candidates d bc b) (\<lambda>i. arbitration_priority (b ! i)) i \<and> snd r = arbitration_priority (b ! i)"
    unfolding C by blast
  have e: "apic_bus_deliver_lowest_priority v d t bc b
      = (case fst r of Some i \<Rightarrow> (True, on_apic i (trigger_irq v t) b) | None \<Rightarrow> (False, b))"
    using assms(2) r by (cases r; cases "fst r") (auto simp: apic_bus_deliver_lowest_priority_def deliver_to_def lapic_deliver_def)
  show "candidates d bc b = {} \<Longrightarrow> apic_bus_deliver_lowest_priority v d t bc b = (False, b)"
    using inv e by (cases "fst r") (auto simp: winner_def)
  show "candidates d bc b \<noteq> {} \<Longrightarrow> \<exists>i. winner (candidates d bc b) (\<lambda>i. arbitration_priority (b ! i)) i
           \<and> apic_bus_deliver_lowest_priority v d t bc b = (True, on_apic i (trigger_irq v t) b)"
    using inv e by (cases "fst r") auto
qed

section \<open>The timer counts down\<close>

abbreviation "divisor a \<equiv> unat (timer_divide_factor a)"

lemma divide_range: "lvt_ok a \<Longrightarrow> 0 < divisor a \<and> divisor a \<le> 128"
  by (auto simp: lvt_ok_def)

definition counting :: "u64 \<Rightarrow> u32 \<Rightarrow> lapic \<Rightarrow> bool" where
  "counting t0 v a \<longleftrightarrow> lapic_timer_active a \<and> ticksInitial a = t0 \<and> timer_initial a = v
     \<and> lvt a ! 0 AND 0x40000 = 0 \<and> 0 < divisor a \<and> divisor a \<le> 128"

lemma count_read:
  assumes "counting t0 v a" "d \<le> unat v * divisor a"
  shows "get_current_timer_count (t0 + of_nat d) a
    = (v - of_nat (d div divisor a), a\<lparr>timer_current := v - of_nat (d div divisor a)\<rparr>)"
proof -
  let ?f = "timer_divide_factor a"
  have f: "0 < unat ?f" "unat ?f \<le> 128" using assms(1) by (simp_all add: counting_def)
  have v: "unat v < 2 ^ 32" using unsigned_less [of v] by simp
  have "unat v * unat ?f \<le> 2 ^ 32 * 128" using v f(2) by (intro mult_mono) simp_all
  then have d: "d < 2 ^ 64" using assms(2) by simp
  have q: "d div unat ?f \<le> unat v" using div_le_mono [OF assms(2), of "unat ?f"] f(1) by simp
  have "unat (ucast ?f :: u64) = unat ?f" using f(2) by (simp add: unsigned_ucast_eq take_bit_nat_eq_self)
  then have "unat ((of_nat d :: u64) div ucast ?f) = d div unat ?f" using d by (simp add: unat_div unat_of_nat)
  then have e: "ucast ((of_nat d :: u64) div ucast ?f) = (of_nat (d div unat ?f) :: u32)"
    unfolding word_eq_iff_unsigned [where 'a = nat] by (simp add: unsigned_ucast_eq unat_of_nat take_bit_eq_mod)
  have "\<not> (of_nat (d div unat ?f) :: u32) > v" using q v by (simp add: word_less_nat_alt unat_of_nat not_less)
  then show ?thesis using assms(1) by (simp add: get_current_timer_count_def counting_def APIC_LVT_TIMER_def e Let_def)
qed

lemma start_counting:
  assumes "lvt_ok a" "lvt a ! 0 AND 0x40000 = 0" "v \<noteq> 0"
  shows "counting now v (set_initial_timer_count now v a)"
    "last (lapic_calls (set_initial_timer_count now v a)) = Timer_activate (lapic_timer_handle a) (of_nat (unat v * divisor a))"
proof -
  have "(ucast v :: u64) * ucast (timer_divide_factor a) = of_nat (unat v * divisor a)"
    by simp
  then show "counting now v (set_initial_timer_count now v a)"
    "last (lapic_calls (set_initial_timer_count now v a)) = Timer_activate (lapic_timer_handle a) (of_nat (unat v * divisor a))"
    using assms divide_range [OF assms(1)]
    by (simp_all add: set_initial_timer_count_def counting_def start_lapic_timer_def deactivate_lapic_timer_def call_def Let_def APIC_LVT_TIMER_def)
qed

lemma trigger_keeps:
  "counting t v (trigger_irq x m a) = counting t v a" "timer_initial (trigger_irq x m a) = timer_initial a"
  "lvt (trigger_irq x m a) = lvt a" "timer_divide_factor (trigger_irq x m a) = timer_divide_factor a"
  by (simp_all add: counting_def trigger_irq_def trigger_irq_with_def service_local_apic_def Let_def)

lemma expiry:
  assumes "counting t0 v a" "lvt a ! 0 AND 0x20000 \<noteq> 0"
  shows "counting t v (lapic_periodic t a)"
  using assms by (simp add: lapic_periodic_def counting_def start_lapic_timer_def call_def Let_def APIC_LVT_TIMER_def trigger_keeps)

text \<open>A freshly constructed xAPIC in cleared storage, with the timer handles 1, 2 and 3.\<close>

definition cleared_lapic :: lapic where
  "cleared_lapic = \<lparr>lapic_base_addr = 0, apic_mode = 0, xapic = False, xapic_ext = 0, lapic_id = 0, apic_version_id = 0,
     software_enabled = False, spurious_vector = 0, focus_disable = False, task_priority = 0, ldr = 0, dest_format = 0,
     lapic_isr = replicate 8 0, lapic_tmr = replicate 8 0, lapic_irr = replicate 8 0, lapic_ier = replicate 8 0,
     error_status = 0, shadow_error_status = 0, icr_hi = 0, icr_lo = 0, lvt = replicate 7 0, timer_initial = 0,
     timer_current = 0, ticksInitial = 0, timer_divconf = 0, timer_divide_factor = 0, lapic_timer_active = False,
     lapic_timer_handle = 0, vmx_timer_handle = 0, vmx_preemption_timer_value = 0, vmx_preemption_timer_initial = 0,
     vmx_preemption_timer_fire = 0, vmx_preemption_timer_rate = 0, vmx_timer_active = False, mwaitx_timer_handle = 0,
     mwaitx_timer_active = False, lapic_intr = False, lapic_calls = [], lapic_panics = []\<rparr>"

definition new_lapic :: lapic where
  "new_lapic = lapic_init True 0 1 2 3 cleared_lapic"

lemma vectors_ones: "vectors (replicate 8 0xFFFFFFFF) = {..<256}"
proof -
  have "bit (0xFFFFFFFF :: u32) n" if "n < 32" for n
  proof -
    have e: "(0xFFFFFFFF :: u32) = mask 32" by (simp add: mask_eq_exp_minus_1)
    show ?thesis unfolding e bit_mask_iff using that by simp
  qed
  then show ?thesis by (auto simp: vectors_def get_vector_bit)
qed

lemma new_lapic_fields:
  "lapic_irr new_lapic = replicate 8 0" "lapic_isr new_lapic = replicate 8 0" "lapic_ier new_lapic = replicate 8 0xFFFFFFFF"
  "task_priority new_lapic = 0" "spurious_vector new_lapic = 0xff" "xapic new_lapic" "\<not> lapic_intr new_lapic"
  "dest_format new_lapic = 0xf" "lvt new_lapic = replicate 7 0x10000" "timer_divide_factor new_lapic = 1" "lapic_calls new_lapic = []"
  "lapic_id new_lapic = 0" "apic_mode new_lapic = BX_APIC_XAPIC_MODE"
  by (simp_all add: new_lapic_def lapic_init_def lapic_reset_def cleared_lapic_def Let_def APIC_LVT_ENTRIES_def)

lemma new_lapic_quiet: "quiet_lapic new_lapic"
  by (simp add: quiet_lapic_def new_lapic_fields vectors_ones) (simp add: new_lapic_def init_inv)

section \<open>Properties\<close>

text \<open>C11: Whatever the processors, the devices and the timers do (writes of the interrupt enable extension apart), no local APIC ever holds back an interrupt: if some pending vector has a higher priority class than all vectors in service and than the task priority, then its interrupt line is up. Vectors below 16 are never pending or in service, reserved bits of the local vector table stay clear, the table is masked while the APIC is disabled by software, and the timer divisor is a power of two up to 128.\<close>

theorem lapic_invariant_reachable:
  assumes "powered_on b" "(apic_step g)\<^sup>*\<^sup>* b c" "i < length c"
  shows "((\<exists>v. deliverable (c ! i) v) \<longrightarrow> lapic_intr (c ! i))
    \<and> (\<forall>v \<in> requests (c ! i) \<union> in_service (c ! i). 16 \<le> v \<and> v < 256) \<and> lvt_ok (c ! i)"
proof -
  have "bus_inv c" by (rule apics.reachable_inv [OF assms(1,2)])
  then have "lapic_inv (c ! i)" using assms(3) by (rule bus_nth)
  then show ?thesis
    by (auto simp: lapic_inv_def intr_ok_def lapic_wf_def requests_def in_service_def vectors_def)
qed

theorem lapic_invariant_reachable_witness:
  "let c = snd (apic_bus_deliver_interrupt \<lparr>apic_id_mask = 0xff, isa_xapic_ext = False, isa_tsc_deadline = True\<rparr>
             0x31 0 0 False False False [new_lapic])
   in ((\<exists>v. deliverable (c ! 0) v) \<longrightarrow> lapic_intr (c ! 0))
     \<and> (\<forall>v \<in> requests (c ! 0) \<union> in_service (c ! 0). 16 \<le> v \<and> v < 256) \<and> lvt_ok (c ! 0)"
  unfolding Let_def
proof (rule lapic_invariant_reachable)
  show "powered_on [new_lapic]" unfolding powered_on_def new_lapic_def by (simp, blast)
  let ?g = "\<lparr>apic_id_mask = 0xff, isa_xapic_ext = False, isa_tsc_deadline = True\<rparr>"
  show "(apic_step ?g)\<^sup>*\<^sup>* [new_lapic] (snd (apic_bus_deliver_interrupt ?g 0x31 0 0 False False False [new_lapic]))"
    by (rule r_into_rtranclp) (rule Message)
  show "0 < length (snd (apic_bus_deliver_interrupt ?g 0x31 0 0 False False False [new_lapic]))"
    by (simp add: apic_bus_deliver_interrupt_def new_lapic_fields deliver_to_def on_apic_def)
qed

text \<open>C12: The acknowledge cycle. When the line is up and some pending vector may be dispatched, the highest pending vector is returned, moves from the request to the in-service register, and the line goes down (no other vector can be of a higher class); when no pending vector may be dispatched, the spurious vector is returned and only the line changes.\<close>

theorem lapic_acknowledge:
  assumes "lapic_wf a" "lapic_intr a"
  shows "if \<exists>v. deliverable a v
    then (let (vec, b) = acknowledge_int a; m = Max (requests a)
          in deliverable a m \<and> unat vec = m \<and> requests b = requests a - {m} \<and> in_service b = insert m (in_service a)
             \<and> \<not> lapic_intr b \<and> (\<nexists>w. deliverable b w))
    else acknowledge_int a = (spurious_vector a, a\<lparr>lapic_intr := False\<rparr>)"
proof (cases "\<exists>v. deliverable a v")
  case True
  then obtain v where v: "deliverable a v" by blast
  let ?m = "Max (requests a)"
  have d: "deliverable a ?m" by (rule top_deliverable(2) [OF assms(1) v])
  then have m: "?m \<in> requests a" by (simp add: deliverable_def)
  note m256 = requests_256(1) [OF m]
  have u: "unat (of_nat ?m :: u8) = ?m" using m256 by (simp add: unat_of_nat)
  let ?b = "a\<lparr>lapic_irr := clear_vector ?m (lapic_irr a), lapic_isr := set_vector ?m (lapic_isr a), lapic_intr := False\<rparr>"
  have p: "requests ?b = requests a - {?m}" and s: "in_service ?b = insert ?m (in_service a)"
    using assms(1) m m256 by (auto simp: requests_def in_service_def lapic_wf_def vectors_clear vectors_set)
  have "\<not> deliverable ?b w" for w
  proof
    assume w: "deliverable ?b w"
    then have "w \<le> ?m" "?m div 16 < w div 16" using p s by (auto simp: deliverable_def)
    then show False using div_le_mono [of w ?m 16] by simp
  qed
  then show ?thesis using True d u p s by (simp add: acknowledge_deliverable(1) [OF assms v] Let_def)
next
  case False
  then show ?thesis using acknowledge_spurious [OF assms] by simp
qed

theorem lapic_acknowledge_witness:
  "fst (acknowledge_int (trigger_irq 0x31 False new_lapic)) = 0x31"
proof -
  have v: "16 \<le> (0x31 :: u8)" "unat (task_priority new_lapic) div 16 < unat (0x31 :: u8) div 16" by (simp_all add: new_lapic_fields)
  note q = trigger_quiet [OF new_lapic_quiet v, of False]
  have "lapic_wf (trigger_irq 0x31 False new_lapic)" using q(1) by (simp add: lapic_inv_def)
  from lapic_acknowledge [OF this q(2)] q(3,7) have "unat (fst (acknowledge_int (trigger_irq 0x31 False new_lapic))) = unat (0x31 :: u8)"
    by (auto simp: Let_def split_beta split: if_splits)
  then show ?thesis by (simp only: word_eq_iff_unsigned [where 'a = nat])
qed

text \<open>C14: The end of interrupt, for the vector in service with the highest priority: it alone leaves the in-service register, the I/O APICs hear of it exactly when it was level-triggered, its trigger mode bit is cleared, and the line is up afterwards whenever a pending vector may now be dispatched.\<close>

theorem lapic_end_of_interrupt:
  assumes "lapic_inv a" "in_service a \<noteq> {}" "Max (in_service a) \<noteq> unat (spurious_vector a)"
  shows "let m = Max (in_service a); b = receive_EOI a
    in in_service b = in_service a - {m} \<and> requests b = requests a
       \<and> lapic_calls b = lapic_calls a @ (if m \<in> vectors (lapic_tmr a) then [Broadcast_eoi (of_nat m)] else [])
       \<and> m \<notin> vectors (lapic_tmr b) \<and> ((\<exists>v. deliverable b v) \<longrightarrow> lapic_intr b)"
proof -
  let ?m = "Max (in_service a)"
  have m: "?m < 256" using Max_in [OF finite_requests(2) assms(2)] by (rule requests_256)
  have w: "lapic_wf a" using assms(1) by (simp add: lapic_inv_def)
  have "intr_ok (end_of_interrupt ?m a)" using end_of_interrupt_inv [OF assms(1) m] by (simp add: lapic_inv_def)
  then show ?thesis
    unfolding receive_EOI_eq [OF assms(2,3)] Let_def by (simp add: end_of_interrupt_spec [OF w m] intr_ok_def)
qed

theorem lapic_end_of_interrupt_witness:
  "lapic_calls (receive_EOI (snd (acknowledge_int (trigger_irq 0x31 True new_lapic)))) = [Broadcast_eoi 0x31]"
proof -
  have v: "16 \<le> (0x31 :: u8)" "unat (task_priority new_lapic) div 16 < unat (0x31 :: u8) div 16" "0x31 \<noteq> spurious_vector new_lapic"
    by (simp_all add: new_lapic_fields)
  let ?b = "trigger_irq 0x31 True new_lapic"
  note q = trigger_quiet [OF new_lapic_quiet v(1,2), of True] and c = interrupt_cycle [OF new_lapic_quiet v, of True]
  have w: "lapic_wf ?b" using q(1) by (simp add: lapic_inv_def)
  have a: "lapic_inv (snd (acknowledge_int ?b))" by (rule acknowledge_inv [OF q(1)])
  have s: "snd (acknowledge_int ?b) = ?b\<lparr>lapic_irr := clear_vector 49 (lapic_irr ?b), lapic_isr := set_vector 49 (lapic_isr ?b), lapic_intr := False\<rparr>"
    using acknowledge_deliverable(1) [OF w q(2,7)] by (simp add: q(3))
  have "in_service (snd (acknowledge_int ?b)) \<noteq> {}" "Max (in_service (snd (acknowledge_int ?b))) \<noteq> unat (spurious_vector (snd (acknowledge_int ?b)))"
    using c(2) q(8) by (simp_all add: s new_lapic_fields)
  from lapic_end_of_interrupt [OF a this] show ?thesis
    using c(2) q(5,6) by (simp add: Let_def s new_lapic_fields)
qed

text \<open>C15: Lowest-priority delivery on a bus of xAPICs: without a candidate nothing is delivered; otherwise the interrupt goes to exactly one of the candidates, the first among those whose priority no candidate undercuts.\<close>

theorem lapic_lowest_priority:
  assumes "list_all format_ok b" "xapic (b ! 0)"
  shows "if candidates d bc b = {} then apic_bus_deliver_lowest_priority v d t bc b = (False, b)
    else \<exists>i. winner (candidates d bc b) (\<lambda>i. arbitration_priority (b ! i)) i
           \<and> apic_bus_deliver_lowest_priority v d t bc b = (True, on_apic i (trigger_irq v t) b)"
  using lowest_priority_delivery [OF assms] by simp

theorem lapic_lowest_priority_witness:
  "let b = [new_lapic\<lparr>task_priority := 0x40\<rparr>, new_lapic\<lparr>task_priority := 0x20\<rparr>]
   in apic_bus_deliver_lowest_priority 0x31 0 False True b = (True, on_apic 1 (trigger_irq 0x31 False) b)"
proof -
  let ?b = "[new_lapic\<lparr>task_priority := 0x40\<rparr>, new_lapic\<lparr>task_priority := 0x20\<rparr>]"
  have c: "candidates 0 True ?b = {0, 1}" by (auto simp: candidates_def less_Suc_eq)
  have p: "arbitration_priority (?b ! 0) = 0x40" "arbitration_priority (?b ! 1) = 0x20"
    by (simp_all add: arbitration_priority_def get_tpr_def new_lapic_fields)
  have "list_all format_ok ?b" "xapic (?b ! 0)" by (simp_all add: format_ok_def new_lapic_fields)
  from lapic_lowest_priority [OF this, of 0 True "0x31" False] obtain i where
    "winner {0, 1} (\<lambda>i. arbitration_priority (?b ! i)) i"
    "apic_bus_deliver_lowest_priority 0x31 0 False True ?b = (True, on_apic i (trigger_irq 0x31 False) ?b)"
    unfolding c by auto
  then show ?thesis using p by (auto simp: winner_def Let_def)
qed

text \<open>The timer. A count v written at time t0 arms the timer for v times the divisor ticks; read before that time is over, the current count is v minus the divisor periods passed, and it is zero at the end without any panic; in periodic mode the expiry starts the same count again.\<close>

theorem lapic_timer_counts:
  fixes t0 t1 :: u64
  assumes "lvt_ok a" "lvt a ! 0 AND 0x40000 = 0" "v \<noteq> 0" "d \<le> unat v * divisor a" "e \<le> unat v * divisor a"
  defines "s \<equiv> set_initial_timer_count t0 v a"
  shows "last (lapic_calls s) = Timer_activate (lapic_timer_handle a) (of_nat (unat v * divisor a))
    \<and> get_current_timer_count (t0 + of_nat d) s
        = (v - of_nat (d div divisor a), s\<lparr>timer_current := v - of_nat (d div divisor a)\<rparr>)
    \<and> (lvt a ! 0 AND 0x20000 \<noteq> 0 \<longrightarrow>
        fst (get_current_timer_count (t1 + of_nat e) (lapic_periodic t1 s)) = v - of_nat (e div divisor a))"
proof -
  note c = start_counting [OF assms(1-3), of t0, folded s_def]
  have l: "lvt s = lvt a" "timer_divide_factor s = timer_divide_factor a"
    by (simp_all add: s_def set_initial_timer_count_def start_lapic_timer_def deactivate_lapic_timer_def call_def Let_def)
  have p: "timer_divide_factor (lapic_periodic t1 s) = timer_divide_factor s"
    by (simp add: lapic_periodic_def start_lapic_timer_def call_def Let_def trigger_keeps)
  show ?thesis
    using c count_read [OF c(1), of d] assms(4,5) expiry [OF c(1), of t1] count_read [of t1 v "lapic_periodic t1 s" e]
    by (auto simp: l p)
qed

theorem lapic_timer_counts_witness:
  "fst (get_current_timer_count 107 (set_initial_timer_count 100 10 new_lapic)) = 3"
proof -
  have "lvt_ok new_lapic" using new_lapic_quiet by (simp add: quiet_lapic_def lapic_inv_def)
  moreover have "lvt new_lapic ! 0 AND 0x40000 = 0" "(10 :: u32) \<noteq> 0" "7 \<le> unat (10 :: u32) * divisor new_lapic"
    "0 \<le> unat (10 :: u32) * divisor new_lapic" by (simp_all add: new_lapic_fields)
  ultimately show ?thesis using lapic_timer_counts [of new_lapic 10 7 0 100] by (simp add: new_lapic_fields)
qed

end
