(* ===== verification/Ioapic.thy ===== *)
theory Ioapic
  imports Bochs_Prelude
begin

text \<open>
  The 82093 I/O APIC of iodev/ioapic.cc and ioapic.h. What it is connected to is the record
  \<open>apic_bus\<close> over a state \<open>'e\<close> of the rest of the machine: the delivery of a message to the
  local APICs (\<open>apic_bus_deliver_interrupt\<close> of cpu/apic.cc, which answers whether it was accepted)
  and the interrupt acknowledge of the 8259A (\<open>DEV_pic_iac\<close>). \<open>apic_id_mask\<close> is the mask of APIC
  identifiers the CPU model sets. Registering the memory handlers is recorded in \<open>io_handlers\<close>.
\<close>

section \<open>State\<close>

definition BX_IOAPIC_NUM_PINS :: nat where "BX_IOAPIC_NUM_PINS = 0x18"
definition BX_IOAPIC_VERSION_ID :: u32 where "BX_IOAPIC_VERSION_ID = 0x00170011"
definition BX_IOAPIC_BASE_ADDR :: u64 where "BX_IOAPIC_BASE_ADDR = 0xfec00000"
definition BX_IOAPIC_DEFAULT_ID :: u32 where "BX_IOAPIC_DEFAULT_ID = 1"

record bx_io_redirect_entry_t =
  red_hi :: u32
  red_lo :: u32

definition destination :: "bx_io_redirect_entry_t \<Rightarrow> u8" where "destination r = ucast (drop_bit 24 (red_hi r))"
definition is_masked :: "bx_io_redirect_entry_t \<Rightarrow> bool" where "is_masked r \<longleftrightarrow> drop_bit 16 (red_lo r) AND 1 \<noteq> 0"
definition trigger_mode :: "bx_io_redirect_entry_t \<Rightarrow> u8" where "trigger_mode r = ucast (drop_bit 15 (red_lo r) AND 1)"
definition remote_irr :: "bx_io_redirect_entry_t \<Rightarrow> bool" where "remote_irr r \<longleftrightarrow> drop_bit 14 (red_lo r) AND 1 \<noteq> 0"
definition pin_polarity :: "bx_io_redirect_entry_t \<Rightarrow> u8" where "pin_polarity r = ucast (drop_bit 13 (red_lo r) AND 1)"
definition delivery_status :: "bx_io_redirect_entry_t \<Rightarrow> bool" where "delivery_status r \<longleftrightarrow> drop_bit 12 (red_lo r) AND 1 \<noteq> 0"
definition destination_mode :: "bx_io_redirect_entry_t \<Rightarrow> u8" where "destination_mode r = ucast (drop_bit 11 (red_lo r) AND 1)"
definition delivery_mode :: "bx_io_redirect_entry_t \<Rightarrow> u8" where "delivery_mode r = ucast (drop_bit 8 (red_lo r) AND 7)"
definition red_vector :: "bx_io_redirect_entry_t \<Rightarrow> u8" where "red_vector r = ucast (red_lo r AND 0xff)"

definition set_delivery_status :: "bx_io_redirect_entry_t \<Rightarrow> bx_io_redirect_entry_t" where
  "set_delivery_status r = r\<lparr>red_lo := red_lo r OR shl1 12\<rparr>"
definition clear_delivery_status :: "bx_io_redirect_entry_t \<Rightarrow> bx_io_redirect_entry_t" where
  "clear_delivery_status r = r\<lparr>red_lo := red_lo r AND NOT (shl1 12)\<rparr>"
definition set_remote_irr :: "bx_io_redirect_entry_t \<Rightarrow> bx_io_redirect_entry_t" where
  "set_remote_irr r = r\<lparr>red_lo := red_lo r OR shl1 14\<rparr>"
definition clear_remote_irr :: "bx_io_redirect_entry_t \<Rightarrow> bx_io_redirect_entry_t" where
  "clear_remote_irr r = r\<lparr>red_lo := red_lo r AND NOT (shl1 14)\<rparr>"
definition set_lo_part :: "u32 \<Rightarrow> bx_io_redirect_entry_t \<Rightarrow> bx_io_redirect_entry_t" where
  "set_lo_part v r = r\<lparr>red_lo := v AND 0xffffafff\<rparr>"
definition set_hi_part :: "u32 \<Rightarrow> bx_io_redirect_entry_t \<Rightarrow> bx_io_redirect_entry_t" where
  "set_hi_part v r = r\<lparr>red_hi := v\<rparr>"

datatype io_handler = Map u64 | Unmap u64

record bx_ioapic =
  io_enabled :: bool
  base_addr :: u64
  apic_id :: u32
  ioregsel :: u32
  intin :: u32
  io_irr :: u32
  ioredtbl :: "nat \<Rightarrow> bx_io_redirect_entry_t"
  stuck :: nat
  io_handlers :: "io_handler list"
  io_panics :: "string list"

record 'e apic_bus =
  deliver :: "u8 \<Rightarrow> u8 \<Rightarrow> u8 \<Rightarrow> bool \<Rightarrow> bool \<Rightarrow> bool \<Rightarrow> 'e \<Rightarrow> bool \<times> 'e"
  pic_iac :: "'e \<Rightarrow> u8 \<times> 'e"

definition io_panic :: "string \<Rightarrow> bx_ioapic \<Rightarrow> bx_ioapic" where
  "io_panic msg s = s\<lparr>io_panics := io_panics s @ [msg]\<rparr>"

definition upd_entry :: "nat \<Rightarrow> (bx_io_redirect_entry_t \<Rightarrow> bx_io_redirect_entry_t) \<Rightarrow> bx_ioapic \<Rightarrow> bx_ioapic" where
  "upd_entry k f s = s\<lparr>ioredtbl := (ioredtbl s)(k := f (ioredtbl s k))\<rparr>"

section \<open>Delivery\<close>

text \<open>One pin of the loop of \<open>service_ioapic\<close>.\<close>

definition service_pin :: "'e apic_bus \<Rightarrow> nat \<Rightarrow> bx_ioapic \<times> 'e \<Rightarrow> bx_ioapic \<times> 'e" where
  "service_pin B k = (\<lambda>(s, e).
     let entry = ioredtbl s k
     in if bit (io_irr s) k \<and> \<not> is_masked entry
        then let (vec, e) = (if delivery_mode entry = 7 then pic_iac B e else (red_vector entry, e));
                 (done', e) = deliver B vec (destination entry) (delivery_mode entry)
                   (destination_mode entry \<noteq> 0) (pin_polarity entry \<noteq> 0) (trigger_mode entry \<noteq> 0) e
             in if done'
                then let s = (if trigger_mode entry = 0 then s\<lparr>io_irr := io_irr s AND NOT (shl1 k)\<rparr> else s)
                     in ((upd_entry k clear_delivery_status s)\<lparr>stuck := 0\<rparr>, e)
                else ((upd_entry k set_delivery_status s)\<lparr>stuck := stuck s + 1\<rparr>, e)
        else (s, e))"

definition service_ioapic :: "'e apic_bus \<Rightarrow> bx_ioapic \<times> 'e \<Rightarrow> bx_ioapic \<times> 'e" where
  "service_ioapic B se = fold (service_pin B) [0..<BX_IOAPIC_NUM_PINS] se"

definition set_irq_level :: "'e apic_bus \<Rightarrow> nat \<Rightarrow> bool \<Rightarrow> bx_ioapic \<times> 'e \<Rightarrow> bx_ioapic \<times> 'e" where
  "set_irq_level B int_in level = (\<lambda>(s, e).
     let int_in = (if int_in = 0 then 2 else int_in)
     in if int_in < BX_IOAPIC_NUM_PINS
        then let b = shl1 int_in :: u32
             in if push_bit int_in (of_bool level) \<noteq> intin s AND b
                then let entry = ioredtbl s int_in
                     in if trigger_mode entry \<noteq> 0
                        then if level
                             then service_ioapic B (s\<lparr>intin := intin s OR b, io_irr := io_irr s OR b\<rparr>, e)
                             else (s\<lparr>intin := intin s AND NOT b, io_irr := io_irr s AND NOT b\<rparr>, e)
                        else if level
                             then let s = s\<lparr>intin := intin s OR b\<rparr>
                                  in if \<not> is_masked entry
                                     then service_ioapic B (s\<lparr>io_irr := io_irr s OR b\<rparr>, e)
                                     else (s, e)
                             else (s\<lparr>intin := intin s AND NOT b\<rparr>, e)
                else (s, e)
        else (s, e))"

definition receive_eoi :: "u8 \<Rightarrow> bx_ioapic \<Rightarrow> bx_ioapic" where
  "receive_eoi v s = s"

section \<open>Registers\<close>

definition ioapic_reset :: "bx_ioapic \<Rightarrow> bx_ioapic" where
  "ioapic_reset s = s\<lparr>ioredtbl := (\<lambda>i. if i < BX_IOAPIC_NUM_PINS
       then set_hi_part 0x00000000 (set_lo_part 0x00010000 (ioredtbl s i)) else ioredtbl s i),
     intin := 0, io_irr := 0, ioregsel := 0\<rparr>"

text \<open>The redirection entry an index register selects; the subtraction wraps.\<close>

definition entry_index :: "u32 \<Rightarrow> nat option" where
  "entry_index sel =
     (let index = unat (drop_bit 1 (sel - 0x10))
      in if index < BX_IOAPIC_NUM_PINS then Some index else None)"

definition read_aligned :: "u32 \<Rightarrow> u64 \<Rightarrow> bx_ioapic \<Rightarrow> u32 \<times> bx_ioapic" where
  "read_aligned apic_id_mask address s =
     (let address = address AND 0xff
      in if address = 0x00 then (ioregsel s, s)
         else let s = (if address \<noteq> 0x10 then io_panic ''read from unsupported address'' s else s)
         in if ioregsel s = 0x00 then (push_bit 24 (apic_id s AND apic_id_mask), s)
            else if ioregsel s = 0x01 then (BX_IOAPIC_VERSION_ID, s)
            else if ioregsel s = 0x02 then (0, s)
            else case entry_index (ioregsel s) of
                   Some index \<Rightarrow> (if ioregsel s AND 1 \<noteq> 0 then red_hi (ioredtbl s index)
                                   else red_lo (ioredtbl s index), s)
                 | None \<Rightarrow> (0, io_panic ''IOREGSEL points to undefined register'' s))"

definition write_aligned :: "'e apic_bus \<Rightarrow> u32 \<Rightarrow> u64 \<Rightarrow> u32 \<Rightarrow> bx_ioapic \<times> 'e \<Rightarrow> bx_ioapic \<times> 'e" where
  "write_aligned B apic_id_mask address val = (\<lambda>(s, e).
     let address = address AND 0xff
     in if address = 0x00 then (s\<lparr>ioregsel := val\<rparr>, e)
        else let s = (if address \<noteq> 0x10 then io_panic ''write to unsupported address'' s else s)
        in if ioregsel s = 0x00
           then (s\<lparr>apic_id := ucast (ucast (drop_bit 24 val AND apic_id_mask) :: u8)\<rparr>, e)
           else if ioregsel s = 0x01 \<or> ioregsel s = 0x02 then (s, e)
           else case entry_index (ioregsel s) of
                  Some index \<Rightarrow> service_ioapic B
                    (upd_entry index (if ioregsel s AND 1 \<noteq> 0 then set_hi_part val else set_lo_part val) s, e)
                | None \<Rightarrow> (io_panic ''IOREGSEL points to undefined register'' s, e))"

definition set_enabled :: "bool \<Rightarrow> u16 \<Rightarrow> bx_ioapic \<Rightarrow> bx_ioapic" where
  "set_enabled en base_offset s =
     (if en \<noteq> io_enabled s
      then let s = (if en
                    then let a = BX_IOAPIC_BASE_ADDR OR ucast base_offset
                         in s\<lparr>base_addr := a, io_handlers := io_handlers s @ [Map a]\<rparr>
                    else s\<lparr>io_handlers := io_handlers s @ [Unmap (base_addr s)]\<rparr>)
           in s\<lparr>io_enabled := en\<rparr>
      else if io_enabled s \<and> ucast base_offset \<noteq> base_addr s AND 0xffff
      then let a = BX_IOAPIC_BASE_ADDR OR ucast base_offset
           in s\<lparr>base_addr := a, io_handlers := io_handlers s @ [Unmap (base_addr s), Map a]\<rparr>
      else s)"

definition ioapic_init :: "bx_ioapic \<Rightarrow> bx_ioapic" where
  "ioapic_init s = set_enabled True 0x0000 s"

section \<open>The memory-mapped window\<close>

definition ioapic_read :: "u32 \<Rightarrow> u64 \<Rightarrow> nat \<Rightarrow> bx_ioapic \<Rightarrow> u32 option \<times> bx_ioapic" where
  "ioapic_read apic_id_mask a20addr len s =
     (if a20addr AND NOT 0x3 \<noteq> (a20addr + of_nat len - 1) AND NOT 0x3
      then (None, io_panic ''read spans 32-bit boundary'' s)
      else let (val, s) = read_aligned apic_id_mask (a20addr AND NOT 0x3) s
      in if len = 4 then (Some val, s)
         else let val = drop_bit (unat (a20addr AND 3) * 8) val
         in if len = 1 then (Some (val AND 0xff), s)
            else if len = 2 then (Some (val AND 0xffff), s)
            else (None, io_panic ''Unsupported I/O APIC read'' s))"

definition ioapic_write :: "'e apic_bus \<Rightarrow> u32 \<Rightarrow> u64 \<Rightarrow> nat \<Rightarrow> u32 \<Rightarrow> bx_ioapic \<times> 'e \<Rightarrow> bx_ioapic \<times> 'e" where
  "ioapic_write B apic_id_mask a20addr len data = (\<lambda>(s, e).
     if tst a20addr 0xf then (io_panic ''write at unaligned address'' s, e)
     else if len = 4 then write_aligned B apic_id_mask a20addr data (s, e)
     else let s = (if a20addr AND 0xff \<noteq> 0 then io_panic ''write with len (should be 4)'' s else s)
     in if len = 2 then write_aligned B apic_id_mask a20addr (data AND 0xffff) (s, e)
        else if len = 1 then write_aligned B apic_id_mask a20addr (data AND 0xff) (s, e)
        else (io_panic ''Unsupported I/O APIC write'' s, e))"

section \<open>Entries\<close>

lemma bit0_test: "drop_bit n (w :: 'a::len word) AND 1 = 0 \<longleftrightarrow> \<not> bit w n"
  by (metis and_one_eq bit_iff_odd_drop_bit even_iff_mod_2_eq_zero)

lemma red_bits:
  "is_masked r \<longleftrightarrow> bit (red_lo r) 16" "trigger_mode r = 0 \<longleftrightarrow> \<not> bit (red_lo r) 15"
  "delivery_status r \<longleftrightarrow> bit (red_lo r) 12" "remote_irr r \<longleftrightarrow> bit (red_lo r) 14"
proof -
  have "(ucast (drop_bit 15 (red_lo r) AND 1) :: u8) = 0 \<longleftrightarrow> \<not> bit (red_lo r) 15"
  proof (cases "bit (red_lo r) 15")
    case True
    then have "drop_bit 15 (red_lo r) AND 1 = 1"
      using bit0_test [of 15 "red_lo r"] by (simp only: and_one_eq) (simp add: mod_2_eq_odd split: if_splits)
    then show ?thesis using True by simp
  next
    case False
    then show ?thesis using bit0_test [of 15 "red_lo r"] by simp
  qed
  then show "trigger_mode r = 0 \<longleftrightarrow> \<not> bit (red_lo r) 15" by (simp only: trigger_mode_def)
qed (simp_all only: is_masked_def delivery_status_def remote_irr_def bit0_test simp_thms)

lemma delivery_status_keeps [simp]:
  "is_masked (clear_delivery_status r) = is_masked r" "is_masked (set_delivery_status r) = is_masked r"
  "(trigger_mode (clear_delivery_status r) = 0) = (trigger_mode r = 0)"
  "(trigger_mode (set_delivery_status r) = 0) = (trigger_mode r = 0)"
  by (simp_all add: red_bits clear_delivery_status_def set_delivery_status_def)

section \<open>Delivery\<close>

text \<open>The message of an entry; \<open>log_bus acc\<close> is a bus that accepts the messages of \<open>acc\<close> and keeps the
  list of all messages it was offered.\<close>

record message =
  m_vector :: u8
  m_dest :: u8
  m_mode :: u8
  m_logical :: bool
  m_polarity :: bool
  m_level :: bool

definition log_bus :: "(message \<Rightarrow> bool) \<Rightarrow> (message list) apic_bus" where
  "log_bus acc = \<lparr>deliver = (\<lambda>v d m l p t e.
       let x = \<lparr>m_vector = v, m_dest = d, m_mode = m, m_logical = l, m_polarity = p, m_level = t\<rparr>
       in (acc x, e @ [x])),
     pic_iac = (\<lambda>e. (0, e))\<rparr>"

definition message_of :: "bx_io_redirect_entry_t \<Rightarrow> message" where
  "message_of r = \<lparr>m_vector = (if delivery_mode r = 7 then 0 else red_vector r), m_dest = destination r,
     m_mode = delivery_mode r, m_logical = destination_mode r \<noteq> 0, m_polarity = pin_polarity r \<noteq> 0,
     m_level = trigger_mode r \<noteq> 0\<rparr>"

definition pending :: "bx_ioapic \<Rightarrow> nat \<Rightarrow> bool" where
  "pending s k \<longleftrightarrow> bit (io_irr s) k \<and> \<not> is_masked (ioredtbl s k)"

lemma service_pin_log:
  "service_pin (log_bus acc) k (s, e) =
     (if pending s k
      then (if acc (message_of (ioredtbl s k))
            then (upd_entry k clear_delivery_status (if trigger_mode (ioredtbl s k) = 0
                     then s\<lparr>io_irr := io_irr s AND NOT (shl1 k)\<rparr> else s))\<lparr>stuck := 0\<rparr>
            else (upd_entry k set_delivery_status s)\<lparr>stuck := stuck s + 1\<rparr>, e @ [message_of (ioredtbl s k)])
      else (s, e))"
  by (simp add: service_pin_def log_bus_def pending_def message_of_def Let_def)

lemma service_pins_log:
  assumes "n \<le> BX_IOAPIC_NUM_PINS"
  shows "\<exists>s'. fold (service_pin (log_bus acc)) [0..<n] (s, e) =
      (s', e @ map (\<lambda>k. message_of (ioredtbl s k)) (filter (pending s) [0..<n])) \<and>
    (\<forall>k. bit (io_irr s') k \<longleftrightarrow> bit (io_irr s) k \<and>
       \<not> (k < n \<and> pending s k \<and> trigger_mode (ioredtbl s k) = 0 \<and> acc (message_of (ioredtbl s k)))) \<and>
    (\<forall>k. ioredtbl s' k = (if k < n \<and> pending s k
        then (if acc (message_of (ioredtbl s k)) then clear_delivery_status else set_delivery_status) (ioredtbl s k)
        else ioredtbl s k)) \<and>
    intin s' = intin s \<and> ioregsel s' = ioregsel s"
  using assms
proof (induction n)
  case 0
  show ?case by simp
next
  case (Suc n)
  then obtain s1 where s1: "fold (service_pin (log_bus acc)) [0..<n] (s, e) =
      (s1, e @ map (\<lambda>k. message_of (ioredtbl s k)) (filter (pending s) [0..<n]))"
    and irr: "\<And>k. bit (io_irr s1) k \<longleftrightarrow> bit (io_irr s) k \<and>
       \<not> (k < n \<and> pending s k \<and> trigger_mode (ioredtbl s k) = 0 \<and> acc (message_of (ioredtbl s k)))"
    and red: "\<And>k. ioredtbl s1 k = (if k < n \<and> pending s k
        then (if acc (message_of (ioredtbl s k)) then clear_delivery_status else set_delivery_status) (ioredtbl s k)
        else ioredtbl s k)"
    and pins: "intin s1 = intin s" "ioregsel s1 = ioregsel s" by auto
  have here: "ioredtbl s1 n = ioredtbl s n" "pending s1 n = pending s n" by (simp_all add: red irr pending_def)
  show ?case
    unfolding upt_Suc_append [OF le0] fold_append comp_def s1 fold.simps id_def service_pin_log here
    using Suc.prems by (auto simp: irr red here pins upd_entry_def less_Suc_eq BX_IOAPIC_NUM_PINS_def)
qed

lemma service_log:
  "\<exists>s'. service_ioapic (log_bus acc) (s, e) =
      (s', e @ map (\<lambda>k. message_of (ioredtbl s k)) (filter (pending s) [0..<24])) \<and>
    (\<forall>k<24. bit (io_irr s') k \<longleftrightarrow> bit (io_irr s) k \<and>
       \<not> (pending s k \<and> trigger_mode (ioredtbl s k) = 0 \<and> acc (message_of (ioredtbl s k)))) \<and>
    (\<forall>k<24. ioredtbl s' k = (if pending s k
        then (if acc (message_of (ioredtbl s k)) then clear_delivery_status else set_delivery_status) (ioredtbl s k)
        else ioredtbl s k)) \<and>
    intin s' = intin s \<and> ioregsel s' = ioregsel s"
  using service_pins_log [of 24 acc s e] by (auto simp: service_ioapic_def BX_IOAPIC_NUM_PINS_def)

lemma service_log_idle:
  assumes "\<And>k. k < 24 \<Longrightarrow> \<not> pending s k"
  shows "service_ioapic (log_bus acc) (s, e) = (s, e)"
proof -
  have "fold (service_pin (log_bus acc)) ks (s, e) = (s, e)" if "set ks \<subseteq> {..<24}" for ks
    using that by (induction ks) (auto simp: service_pin_log assms)
  then show ?thesis by (simp add: service_ioapic_def BX_IOAPIC_NUM_PINS_def subset_iff)
qed

text \<open>A masked entry is left alone by every service, on any bus.\<close>

lemma service_pin_frame:
  assumes "service_pin B j (s, e) = (s', e')"
  shows "ioregsel s' = ioregsel s" "is_masked (ioredtbl s k) \<Longrightarrow> ioredtbl s' k = ioredtbl s k"
  using assms by (auto simp: service_pin_def upd_entry_def Let_def split: prod.splits if_splits)

lemma service_frame:
  assumes "service_ioapic B (s, e) = (s', e')"
  shows "ioregsel s' = ioregsel s \<and> (is_masked (ioredtbl s k) \<longrightarrow> ioredtbl s' k = ioredtbl s k)"
proof -
  have "fold (service_pin B) ks (s, e) = (s', e') \<Longrightarrow>
      ioregsel s' = ioregsel s \<and> (is_masked (ioredtbl s k) \<longrightarrow> ioredtbl s' k = ioredtbl s k)" for ks
  proof (induction ks arbitrary: s e)
    case (Cons j ks)
    obtain s1 e1 where p: "service_pin B j (s, e) = (s1, e1)" by fastforce
    show ?case using Cons.IH [of s1 e1] Cons.prems service_pin_frame [OF p] p by auto
  qed simp
  then show ?thesis using assms by (simp add: service_ioapic_def)
qed

section \<open>Register access\<close>

lemma select_low:
  assumes "k < 24"
  shows "entry_index (of_nat (0x10 + 2 * k)) = Some k" "(of_nat (0x10 + 2 * k) :: u32) \<notin> {0, 1, 2}"
    "(of_nat (0x10 + 2 * k) :: u32) AND 1 = 0"
proof -
  have k: "k \<in> set [0..<24]" using assms by simp
  have "\<forall>k\<in>set [0..<24]. entry_index (of_nat (0x10 + 2 * k)) = Some k \<and> (of_nat (0x10 + 2 * k) :: u32) \<notin> {0, 1, 2} \<and>
    (of_nat (0x10 + 2 * k) :: u32) AND 1 = 0" by code_simp
  then show "entry_index (of_nat (0x10 + 2 * k)) = Some k" "(of_nat (0x10 + 2 * k) :: u32) \<notin> {0, 1, 2}"
    "(of_nat (0x10 + 2 * k) :: u32) AND 1 = 0" using k by blast+
qed

lemma select_high:
  assumes "k < 24"
  shows "entry_index (of_nat (0x11 + 2 * k)) = Some k" "(of_nat (0x11 + 2 * k) :: u32) \<notin> {0, 1, 2}"
    "(of_nat (0x11 + 2 * k) :: u32) AND 1 = 1"
proof -
  have k: "k \<in> set [0..<24]" using assms by simp
  have "\<forall>k\<in>set [0..<24]. entry_index (of_nat (0x11 + 2 * k)) = Some k \<and> (of_nat (0x11 + 2 * k) :: u32) \<notin> {0, 1, 2} \<and>
    (of_nat (0x11 + 2 * k) :: u32) AND 1 = 1" by code_simp
  then show "entry_index (of_nat (0x11 + 2 * k)) = Some k" "(of_nat (0x11 + 2 * k) :: u32) \<notin> {0, 1, 2}"
    "(of_nat (0x11 + 2 * k) :: u32) AND 1 = 1" using k by blast+
qed

lemma ioapic_write_index: "ioapic_write B id_mask 0xfec00000 4 sel (s, e) = (s\<lparr>ioregsel := sel\<rparr>, e)"
  by (simp add: ioapic_write_def write_aligned_def tst_def)

lemma ioapic_write_low:
  assumes "ioregsel s = of_nat (0x10 + 2 * k)" "k < 24"
  shows "ioapic_write B id_mask 0xfec00010 4 val (s, e) = service_ioapic B (upd_entry k (set_lo_part val) s, e)"
  using select_low [OF assms(2)] unfolding assms(1) [symmetric]
  by (simp add: ioapic_write_def write_aligned_def tst_def)

lemma ioapic_write_high:
  assumes "ioregsel s = of_nat (0x11 + 2 * k)" "k < 24"
  shows "ioapic_write B id_mask 0xfec00010 4 val (s, e) = service_ioapic B (upd_entry k (set_hi_part val) s, e)"
  using select_high [OF assms(2)] unfolding assms(1) [symmetric]
  by (simp add: ioapic_write_def write_aligned_def tst_def)

lemma ioapic_read_low:
  assumes "ioregsel s = of_nat (0x10 + 2 * k)" "k < 24"
  shows "ioapic_read id_mask 0xfec00010 4 s = (Some (red_lo (ioredtbl s k)), s)"
  using select_low [OF assms(2)] unfolding assms(1) [symmetric]
  by (simp add: ioapic_read_def read_aligned_def)

lemma ioapic_read_high:
  assumes "ioregsel s = of_nat (0x11 + 2 * k)" "k < 24"
  shows "ioapic_read id_mask 0xfec00010 4 s = (Some (red_hi (ioredtbl s k)), s)"
  using select_high [OF assms(2)] unfolding assms(1) [symmetric]
  by (simp add: ioapic_read_def read_aligned_def)

section \<open>Properties\<close>

text \<open>A chip with an edge request on pin 3, a level request on pin 5 and a masked request on pin 7.\<close>

definition demo_ioapic :: bx_ioapic where
  "demo_ioapic = \<lparr>io_enabled = True, base_addr = BX_IOAPIC_BASE_ADDR, apic_id = 1, ioregsel = 0, intin = 0xa8, io_irr = 0xa8,
     ioredtbl = (\<lambda>k. if k = 3 then \<lparr>red_hi = 0, red_lo = 0x30\<rparr> else if k = 5 then \<lparr>red_hi = 0, red_lo = 0x8031\<rparr>
       else \<lparr>red_hi = 0, red_lo = 0x10032\<rparr>), stuck = 0, io_handlers = [], io_panics = []\<rparr>"

text \<open>C37: One pass of the delivery loop offers exactly the messages of the pending pins (request latched
  and not masked), in ascending pin order; an edge-triggered request is dropped when its message was
  accepted, a level-triggered one stays latched, and a refused message leaves the request latched and
  the delivery status of the entry set.\<close>

lemma ioapic_delivery:
  "\<exists>s'. service_ioapic (log_bus acc) (s, e) =
      (s', e @ map (\<lambda>k. message_of (ioredtbl s k)) (filter (pending s) [0..<24])) \<and>
    (\<forall>k<24. bit (io_irr s') k \<longleftrightarrow> bit (io_irr s) k \<and>
       (is_masked (ioredtbl s k) \<or> trigger_mode (ioredtbl s k) \<noteq> 0 \<or> \<not> acc (message_of (ioredtbl s k)))) \<and>
    (\<forall>k<24. pending s k \<longrightarrow> delivery_status (ioredtbl s' k) = (\<not> acc (message_of (ioredtbl s k))))"
proof -
  have status: "\<not> delivery_status (clear_delivery_status r)" "delivery_status (set_delivery_status r)" for r
    by (simp_all add: red_bits clear_delivery_status_def set_delivery_status_def)
  obtain s' where *: "service_ioapic (log_bus acc) (s, e) =
      (s', e @ map (\<lambda>k. message_of (ioredtbl s k)) (filter (pending s) [0..<24]))"
    "\<forall>k<24. bit (io_irr s') k \<longleftrightarrow> bit (io_irr s) k \<and>
       \<not> (pending s k \<and> trigger_mode (ioredtbl s k) = 0 \<and> acc (message_of (ioredtbl s k)))"
    "\<forall>k<24. ioredtbl s' k = (if pending s k
        then (if acc (message_of (ioredtbl s k)) then clear_delivery_status else set_delivery_status) (ioredtbl s k)
        else ioredtbl s k)" using service_log [of acc s e] by blast
  show ?thesis by (rule exI [of _ s']) (use * in \<open>auto simp: status pending_def\<close>)
qed

lemma ioapic_delivery_witness:
  "\<exists>s'. service_ioapic (log_bus (\<lambda>m. m_level m = False)) (demo_ioapic, []) = (s',
      [\<lparr>m_vector = 0x30, m_dest = 0, m_mode = 0, m_logical = False, m_polarity = False, m_level = False\<rparr>,
       \<lparr>m_vector = 0x31, m_dest = 0, m_mode = 0, m_logical = False, m_polarity = False, m_level = True\<rparr>]) \<and>
    \<not> bit (io_irr s') 3 \<and> bit (io_irr s') 5 \<and> bit (io_irr s') 7 \<and> delivery_status (ioredtbl s' 5)"
proof -
  have msgs: "map (\<lambda>k. message_of (ioredtbl demo_ioapic k)) (filter (pending demo_ioapic) [0..<24]) =
      [\<lparr>m_vector = 0x30, m_dest = 0, m_mode = 0, m_logical = False, m_polarity = False, m_level = False\<rparr>,
       \<lparr>m_vector = 0x31, m_dest = 0, m_mode = 0, m_logical = False, m_polarity = False, m_level = True\<rparr>]" by code_simp
  have bits: "bit (io_irr demo_ioapic) 3" "bit (io_irr demo_ioapic) 5" "bit (io_irr demo_ioapic) 7"
    "\<not> is_masked (ioredtbl demo_ioapic 3)" "is_masked (ioredtbl demo_ioapic 7)" "trigger_mode (ioredtbl demo_ioapic 3) = 0"
    "trigger_mode (ioredtbl demo_ioapic 5) \<noteq> 0" "pending demo_ioapic 5" by code_simp+
  have acc: "m_level (message_of (ioredtbl demo_ioapic 3)) = False" "m_level (message_of (ioredtbl demo_ioapic 5))"
    using bits by (simp_all add: message_of_def)
  obtain s' where s': "service_ioapic (log_bus (\<lambda>m. m_level m = False)) (demo_ioapic, []) =
      (s', [] @ map (\<lambda>k. message_of (ioredtbl demo_ioapic k)) (filter (pending demo_ioapic) [0..<24]))"
    and irr: "\<And>k. k < 24 \<Longrightarrow> bit (io_irr s') k \<longleftrightarrow> bit (io_irr demo_ioapic) k \<and>
       (is_masked (ioredtbl demo_ioapic k) \<or> trigger_mode (ioredtbl demo_ioapic k) \<noteq> 0 \<or>
        m_level (message_of (ioredtbl demo_ioapic k)) \<noteq> False)"
    and st: "\<And>k. k < 24 \<Longrightarrow> pending demo_ioapic k \<Longrightarrow>
       delivery_status (ioredtbl s' k) = (m_level (message_of (ioredtbl demo_ioapic k)) \<noteq> False)"
    using ioapic_delivery [of "\<lambda>m. m_level m = False" demo_ioapic "[]"] by blast
  show ?thesis
    by (rule exI [of _ s']) (use s' irr [of 3] irr [of 5] irr [of 7] st [of 5] bits acc in \<open>simp add: msgs\<close>)
qed

lemma pending_one:
  assumes "\<And>j. bit (io_irr s) j \<longleftrightarrow> j = k" "k < 24" "\<not> is_masked (ioredtbl s k)"
  shows "filter (pending s) [0..<24] = [k]"
proof -
  have "filter (pending s) [0..<24] = filter (\<lambda>j. j = k) [0..<24]"
    by (rule filter_cong [OF refl]) (auto simp: pending_def assms)
  also have "\<dots> = [k]"
  proof -
    have "\<forall>k\<in>set [0..<24]. filter (\<lambda>j. j = k) [0..<24::nat] = [k]" by (simp add: upt_rec)
    then show ?thesis using assms(2) by (metis atLeastLessThan_iff le0 set_upt)
  qed
  finally show ?thesis .
qed

lemma set_irq_level_masked:
  assumes "0 < k" "k < 24" "\<not> bit (intin s) k" "io_irr s = 0" "is_masked (ioredtbl s k)"
  shows "set_irq_level (log_bus acc) k True (s, e) =
    (s\<lparr>intin := intin s OR shl1 k, io_irr := (if trigger_mode (ioredtbl s k) = 0 then 0 else shl1 k)\<rparr>, e)"
proof -
  have "intin s AND shl1 k = 0" by (rule bit_word_eqI) (use assms(3) in \<open>auto simp: bit_and_iff\<close>)
  moreover have "push_bit k (1 :: u32) \<noteq> 0"
    using assms(2) bit_shl1 [of k k, where 'a = 32] by (simp only: shl1_def) (auto simp del: push_bit_of_1)
  moreover have "\<not> pending (s\<lparr>intin := intin s OR shl1 k, io_irr := shl1 k\<rparr>) j" for j
    using assms(5) by (auto simp: pending_def)
  ultimately show ?thesis
    using assms by (simp add: set_irq_level_def BX_IOAPIC_NUM_PINS_def service_log_idle Let_def)
qed

text \<open>A request on a masked pin: an edge-triggered one is lost, unmasking the entry delivers nothing,
  whereas a level-triggered one is latched and is delivered by the write that unmasks the entry.\<close>

lemma ioapic_masked_request:
  assumes "0 < k" "k < 24" "\<not> bit (intin s) k" "io_irr s = 0" "is_masked (ioredtbl s k)"
    and "ioregsel s = of_nat (0x10 + 2 * k)" "\<not> bit val 16"
  shows "snd (ioapic_write (log_bus acc) id_mask 0xfec00010 4 val (set_irq_level (log_bus acc) k True (s, e))) =
    e @ (if trigger_mode (ioredtbl s k) = 0 then [] else [message_of (set_lo_part val (ioredtbl s k))])"
proof -
  define s1 where "s1 = s\<lparr>intin := intin s OR shl1 k, io_irr := (if trigger_mode (ioredtbl s k) = 0 then 0 else shl1 k)\<rparr>"
  define s2 where "s2 = upd_entry k (set_lo_part val) s1"
  have red: "ioredtbl s2 k = set_lo_part val (ioredtbl s k)" "\<not> is_masked (ioredtbl s2 k)"
    using assms(7) by (simp_all add: s2_def s1_def upd_entry_def red_bits set_lo_part_def bit_and_iff)
  have "snd (service_ioapic (log_bus acc) (s2, e)) = e @ map (\<lambda>k. message_of (ioredtbl s2 k)) (filter (pending s2) [0..<24])"
    using service_log [of acc s2 e] by auto
  moreover have "filter (pending s2) [0..<24] = (if trigger_mode (ioredtbl s k) = 0 then [] else [k])"
  proof (cases "trigger_mode (ioredtbl s k) = 0")
    case True
    then show ?thesis by (simp add: pending_def s2_def s1_def upd_entry_def)
  next
    case False
    then have "bit (io_irr s2) j \<longleftrightarrow> j = k" for j using assms(2) by (auto simp: s2_def s1_def upd_entry_def)
    then show ?thesis using False pending_one [OF _ assms(2) red(2)] by simp
  qed
  moreover have "ioapic_write (log_bus acc) id_mask 0xfec00010 4 val (s1, e) = service_ioapic (log_bus acc) (s2, e)"
    unfolding s2_def by (rule ioapic_write_low) (use assms in \<open>simp_all add: s1_def\<close>)
  ultimately show ?thesis by (simp add: set_irq_level_masked [OF assms(1-5)] s1_def [symmetric] red(1))
qed

lemma ioapic_masked_request_witness:
  "snd (ioapic_write (log_bus (\<lambda>_. True)) 0xff 0xfec00010 4 0x00008041
      (set_irq_level (log_bus (\<lambda>_. True)) 5 True
        (\<lparr>io_enabled = True, base_addr = BX_IOAPIC_BASE_ADDR, apic_id = 1, ioregsel = 0x1a, intin = 0, io_irr = 0,
          ioredtbl = (\<lambda>_. \<lparr>red_hi = 0x03000000, red_lo = 0x00018041\<rparr>), stuck = 0, io_handlers = [], io_panics = []\<rparr>, []))) =
    [\<lparr>m_vector = 0x41, m_dest = 3, m_mode = 0, m_logical = False, m_polarity = False, m_level = True\<rparr>]"
proof -
  have "snd (ioapic_write (log_bus (\<lambda>_. True)) 0xff 0xfec00010 4 0x00008041
      (set_irq_level (log_bus (\<lambda>_. True)) 5 True
        (\<lparr>io_enabled = True, base_addr = BX_IOAPIC_BASE_ADDR, apic_id = 1, ioregsel = 0x1a, intin = 0, io_irr = 0,
          ioredtbl = (\<lambda>_. \<lparr>red_hi = 0x03000000, red_lo = 0x00018041\<rparr>), stuck = 0, io_handlers = [], io_panics = []\<rparr>, []))) =
    [] @ (if trigger_mode \<lparr>red_hi = 0x03000000, red_lo = 0x00018041\<rparr> = 0 then []
      else [message_of (set_lo_part 0x00008041 \<lparr>red_hi = 0x03000000, red_lo = 0x00018041\<rparr>)])"
    by (subst ioapic_masked_request) (simp_all add: is_masked_def)
  moreover have "trigger_mode \<lparr>red_hi = 0x03000000, red_lo = 0x00018041\<rparr> \<noteq> 0" by code_simp
  moreover have "message_of (set_lo_part 0x00008041 \<lparr>red_hi = 0x03000000, red_lo = 0x00018041\<rparr>) =
    \<lparr>m_vector = 0x41, m_dest = 3, m_mode = 0, m_logical = False, m_polarity = False, m_level = True\<rparr>" by code_simp
  ultimately show ?thesis by simp
qed

text \<open>Programming a redirection entry through the index and data registers, low half (with the mask bit
  set) then high half: reading both halves back gives what was written, except that the read-only
  bits 12 and 14 of the low half read as 0, whatever bus the chip is connected to.\<close>

lemma ioapic_entry_roundtrip:
  assumes "k < 24" "bit lo 16"
    and "ioapic_write B id_mask 0xfec00010 4 lo
           (ioapic_write B id_mask 0xfec00000 4 (of_nat (0x10 + 2 * k)) (s, e)) = (s1, e1)"
    and "ioapic_write B id_mask 0xfec00010 4 hi
           (ioapic_write B id_mask 0xfec00000 4 (of_nat (0x11 + 2 * k)) (s1, e1)) = (s2, e2)"
  shows "fst (ioapic_read id_mask 0xfec00010 4 s2) = Some hi \<and>
    fst (ioapic_read id_mask 0xfec00010 4
           (fst (ioapic_write B id_mask 0xfec00000 4 (of_nat (0x10 + 2 * k)) (s2, e2)))) = Some (lo AND 0xffffafff)"
proof (rule conjI)
  define t1 where "t1 = upd_entry k (set_lo_part lo) (s\<lparr>ioregsel := of_nat (0x10 + 2 * k)\<rparr>)"
  define t2 where "t2 = upd_entry k (set_hi_part hi) (s1\<lparr>ioregsel := of_nat (0x11 + 2 * k)\<rparr>)"
  have serv1: "service_ioapic B (t1, e) = (s1, e1)"
    using assms(3) unfolding ioapic_write_index
    by (subst (asm) ioapic_write_low [OF _ assms(1)]) (simp_all add: t1_def)
  have serv2: "service_ioapic B (t2, e1) = (s2, e2)"
    using assms(4) unfolding ioapic_write_index
    by (subst (asm) ioapic_write_high [OF _ assms(1)]) (simp_all add: t2_def)
  have m1: "is_masked (ioredtbl t1 k)"
    using assms(2) by (simp add: t1_def upd_entry_def red_bits set_lo_part_def bit_and_iff)
  then have r1: "ioredtbl s1 k = ioredtbl t1 k" using service_frame [OF serv1] by blast
  have m2: "is_masked (ioredtbl t2 k)"
    using m1 r1 by (simp add: t2_def upd_entry_def red_bits set_hi_part_def)
  have r2: "ioredtbl s2 k = ioredtbl t2 k" "ioregsel s2 = ioregsel t2" using service_frame [OF serv2] m2 by blast+
  show "fst (ioapic_read id_mask 0xfec00010 4 s2) = Some hi"
    by (subst ioapic_read_high [OF _ assms(1)])
      (simp_all add: r2, simp_all add: t2_def upd_entry_def set_hi_part_def)
  show "fst (ioapic_read id_mask 0xfec00010 4
      (fst (ioapic_write B id_mask 0xfec00000 4 (of_nat (0x10 + 2 * k)) (s2, e2)))) = Some (lo AND 0xffffafff)"
    unfolding ioapic_write_index
    by (subst ioapic_read_low [OF _ assms(1)])
      (simp_all add: r2, simp add: t2_def upd_entry_def set_hi_part_def r1 t1_def set_lo_part_def)
qed

lemma ioapic_entry_roundtrip_witness:
  "\<exists>s1 s2 e1 e2 s. ioapic_write (log_bus (\<lambda>_. True)) 0xff 0xfec00010 4 0xffffffff
      (ioapic_write (log_bus (\<lambda>_. True)) 0xff 0xfec00000 4 0x1a (s, [])) = (s1, e1) \<and>
    ioapic_write (log_bus (\<lambda>_. True)) 0xff 0xfec00010 4 0x0f000000
      (ioapic_write (log_bus (\<lambda>_. True)) 0xff 0xfec00000 4 0x1b (s1, e1)) = (s2, e2) \<and>
    fst (ioapic_read 0xff 0xfec00010 4
      (fst (ioapic_write (log_bus (\<lambda>_. True)) 0xff 0xfec00000 4 0x1a (s2, e2)))) = Some 0xffffafff"
proof -
  fix s
  obtain s1 e1 where 1: "ioapic_write (log_bus (\<lambda>_. True)) 0xff 0xfec00010 4 0xffffffff
      (ioapic_write (log_bus (\<lambda>_. True)) 0xff 0xfec00000 4 0x1a (s, [])) = (s1, e1)" by fastforce
  obtain s2 e2 where 2: "ioapic_write (log_bus (\<lambda>_. True)) 0xff 0xfec00010 4 0x0f000000
      (ioapic_write (log_bus (\<lambda>_. True)) 0xff 0xfec00000 4 0x1b (s1, e1)) = (s2, e2)" by fastforce
  have n: "(26 :: u32) = of_nat (0x10 + 2 * 5)" "(27 :: u32) = of_nat (0x11 + 2 * 5)" by simp_all
  have m: "bit (0xffffffff :: u32) 16" "(5 :: nat) < 24" by simp_all
  have "fst (ioapic_read 0xff 0xfec00010 4
      (fst (ioapic_write (log_bus (\<lambda>_. True)) 0xff 0xfec00000 4 0x1a (s2, e2)))) = Some 0xffffafff"
    using ioapic_entry_roundtrip [OF m(2) m(1) 1 [unfolded n] 2 [unfolded n]] unfolding n by simp
  then show ?thesis using 1 2 by blast
qed

end
