(* ===== verification/Pic.thy ===== *)
theory Pic
  imports Bochs_Prelude
begin

text \<open>
  The two cascaded 8259A interrupt controllers of iodev/pic.cc. A controller is the record
  \<open>bx_pic_t\<close>; the device \<open>pic_dev\<close> holds the master, the slave, the INTR line to the CPU
  (\<open>BX\_RAISE\_INTR\<close>, \<open>BX\_CLEAR\_INTR\<close>), the calls forwarded to the I/O APIC and the messages
  of \<open>BX\_PANIC\<close>, after which the handlers go on. The request pin \<open>INT\<close> is the field
  \<open>INT_pin\<close>; \<open>sfnm\<close>, \<open>buffered_mode\<close> and \<open>master_slave\<close> are set once and never
  read, and left out. The fields \<open>irq\<close>, \<open>lowest_priority\<close> and
  \<open>byte_expected\<close> are numbers below 256 in the code and \<open>nat\<close> here; the invariant \<open>pic_ok\<close>
  keeps them below 8.
\<close>

section \<open>State\<close>

record bx_pic_t =
  master :: bool
  interrupt_offset :: u8
  auto_eoi :: bool
  imr :: u8
  isr :: u8
  irr :: u8
  read_reg_select :: bool
  irq :: nat
  lowest_priority :: nat
  INT_pin :: bool
  IRQ_in :: u8
  in_init :: bool
  requires_4 :: bool
  byte_expected :: nat
  special_mask :: bool
  polled :: bool
  rotate_on_autoeoi :: bool
  edge_level :: u8

record pic_dev =
  master_pic :: bx_pic_t
  slave_pic :: bx_pic_t
  intr :: bool
  ioapic_present :: bool
  ioapic_calls :: "(nat \<times> bool) list"
  panics :: "string list"

definition pic_init :: "bool \<Rightarrow> u8 \<Rightarrow> bx_pic_t" where
  "pic_init m offset = \<lparr>master = m, interrupt_offset = offset, auto_eoi = False, imr = 0xFF,
     isr = 0x00, irr = 0x00, read_reg_select = False, irq = 0, lowest_priority = 7, INT_pin = False,
     IRQ_in = 0, in_init = False, requires_4 = False, byte_expected = 0, special_mask = False,
     polled = False, rotate_on_autoeoi = False, edge_level = 0\<rparr>"

definition init_pics :: "bool \<Rightarrow> pic_dev" where
  "init_pics apic = \<lparr>master_pic = pic_init True 0x08, slave_pic = pic_init False 0x70,
     intr = False, ioapic_present = apic, ioapic_calls = [], panics = []\<rparr>"

definition panic :: "string \<Rightarrow> pic_dev \<Rightarrow> pic_dev" where
  "panic msg d = d\<lparr>panics := panics d @ [msg]\<rparr>"

text \<open>\<open>pic\<close> as a pointer to one of the two controllers.\<close>

definition get_pic :: "bool \<Rightarrow> pic_dev \<Rightarrow> bx_pic_t" where
  "get_pic m d = (if m then master_pic d else slave_pic d)"

definition upd_pic :: "bool \<Rightarrow> (bx_pic_t \<Rightarrow> bx_pic_t) \<Rightarrow> pic_dev \<Rightarrow> pic_dev" where
  "upd_pic m f d = (if m then d\<lparr>master_pic := f (master_pic d)\<rparr> else d\<lparr>slave_pic := f (slave_pic d)\<rparr>)"

section \<open>Priority resolution\<close>

definition next_irq :: "nat \<Rightarrow> nat" where
  "next_irq k = (if k + 1 > 7 then 0 else k + 1)"

text \<open>
  The loop \<open>while ((isr & (1 << max_irq)) == 0)\<close>; its first argument bounds the iterations, and
  eight are enough because it is entered with a bit set.
\<close>

fun seek :: "nat \<Rightarrow> (nat \<Rightarrow> bool) \<Rightarrow> nat \<Rightarrow> nat" where
  "seek 0 P k = k"
| "seek (Suc n) P k = (if P k then k else seek n P (next_irq k))"

text \<open>The loops \<open>do .. while (irq != stop)\<close> that look for the first line with a property.\<close>

fun scan :: "nat \<Rightarrow> (nat \<Rightarrow> bool) \<Rightarrow> nat \<Rightarrow> nat \<Rightarrow> nat option" where
  "scan 0 P k stop = None"
| "scan (Suc n) P k stop =
     (if P k then Some k
      else let k = next_irq k in if k = stop then None else scan n P k stop)"

datatype pic_action = Keep | Signal nat | Deassert

text \<open>What \<open>pic_service\<close> decides from the registers of one controller.\<close>

definition pic_decide :: "bx_pic_t \<Rightarrow> pic_action" where
  "pic_decide p =
     (let highest_priority = next_irq (lowest_priority p);
          max_irq = (if special_mask p then highest_priority
                     else if isr p \<noteq> 0 then seek 8 (bit (isr p)) highest_priority
                     else highest_priority)
      in if \<not> special_mask p \<and> isr p \<noteq> 0 \<and> max_irq = highest_priority then Keep
         else let unmasked_requests = irr p AND NOT (imr p)
         in if unmasked_requests \<noteq> 0
            then (case scan 8 (\<lambda>k. \<not> (special_mask p \<and> bit (isr p) k)
                               \<and> \<not> INT_pin p \<and> bit unmasked_requests k)
                         highest_priority max_irq of
                    Some k \<Rightarrow> Signal k
                  | None \<Rightarrow> Keep)
            else if INT_pin p then Deassert else Keep)"

definition forward_ioapic :: "nat \<Rightarrow> bool \<Rightarrow> pic_dev \<Rightarrow> pic_dev" where
  "forward_ioapic irq_no level d =
     (if ioapic_present d \<and> irq_no \<noteq> 2
      then d\<lparr>ioapic_calls := ioapic_calls d @ [(irq_no, level)]\<rparr> else d)"

definition pic_service_master :: "pic_dev \<Rightarrow> pic_dev" where
  "pic_service_master d =
     (case pic_decide (master_pic d) of
        Signal k \<Rightarrow> (upd_pic True (\<lambda>p. p\<lparr>INT_pin := True, irq := k\<rparr>) d)\<lparr>intr := True\<rparr>
      | Deassert \<Rightarrow> upd_pic True (\<lambda>p. p\<lparr>INT_pin := False\<rparr>) (d\<lparr>intr := False\<rparr>)
      | Keep \<Rightarrow> d)"

definition lower_irq :: "nat \<Rightarrow> pic_dev \<Rightarrow> pic_dev" where
  "lower_irq irq_no d =
     (let d = forward_ioapic irq_no False d;
          mask = shl1 (irq_no mod 8) :: u8;
          drop = (\<lambda>p. p\<lparr>IRQ_in := IRQ_in p AND NOT mask, irr := irr p AND NOT mask\<rparr>)
      in if irq_no \<le> 7 \<and> tst (IRQ_in (master_pic d)) mask then upd_pic True drop d
         else if irq_no > 7 \<and> irq_no \<le> 15 \<and> tst (IRQ_in (slave_pic d)) mask then upd_pic False drop d
         else d)"

text \<open>\<open>raise_irq\<close> with the service routine of the slave as a parameter: the two call each other.\<close>

definition raise_line :: "bool \<Rightarrow> u8 \<Rightarrow> pic_dev \<Rightarrow> pic_dev" where
  "raise_line m msk d = upd_pic m (\<lambda>p. p\<lparr>IRQ_in := IRQ_in p OR msk, irr := irr p OR msk\<rparr>) d"

definition raise_irq_master :: "nat \<Rightarrow> pic_dev \<Rightarrow> pic_dev" where
  "raise_irq_master irq_no d =
     (let d = forward_ioapic irq_no True d;
          mask = shl1 (irq_no mod 8) :: u8
      in if \<not> tst (IRQ_in (master_pic d)) mask then pic_service_master (raise_line True mask d) else d)"

definition pic_service_slave :: "pic_dev \<Rightarrow> pic_dev" where
  "pic_service_slave d =
     (case pic_decide (slave_pic d) of
        Signal k \<Rightarrow> raise_irq_master 2 (upd_pic False (\<lambda>p. p\<lparr>INT_pin := True, irq := k\<rparr>) d)
      | Deassert \<Rightarrow> upd_pic False (\<lambda>p. p\<lparr>INT_pin := False\<rparr>) (lower_irq 2 d)
      | Keep \<Rightarrow> d)"

definition pic_service :: "bool \<Rightarrow> pic_dev \<Rightarrow> pic_dev" where
  "pic_service m d = (if m then pic_service_master d else pic_service_slave d)"

definition raise_irq :: "nat \<Rightarrow> pic_dev \<Rightarrow> pic_dev" where
  "raise_irq irq_no d =
     (if irq_no \<le> 7 then raise_irq_master irq_no d
      else let d = forward_ioapic irq_no True d;
               mask = shl1 (irq_no mod 8) :: u8
           in if irq_no \<le> 15 \<and> \<not> tst (IRQ_in (slave_pic d)) mask
              then pic_service_slave (raise_line False mask d) else d)"

definition set_mode :: "bool \<Rightarrow> u8 \<Rightarrow> pic_dev \<Rightarrow> pic_dev" where
  "set_mode ma_sl mode = upd_pic ma_sl (\<lambda>p. p\<lparr>edge_level := mode\<rparr>)"

definition clear_highest_interrupt :: "bx_pic_t \<Rightarrow> bx_pic_t" where
  "clear_highest_interrupt p =
     (let highest_priority = next_irq (lowest_priority p)
      in case scan 8 (bit (isr p)) highest_priority highest_priority of
           Some k \<Rightarrow> p\<lparr>isr := isr p AND NOT (shl1 k)\<rparr>
         | None \<Rightarrow> p)"

section \<open>The interrupt acknowledge cycle\<close>

text \<open>The controller takes the request it has signalled into service.\<close>

definition take_irq :: "bx_pic_t \<Rightarrow> bx_pic_t" where
  "take_irq p =
     (let m = shl1 (irq p);
          p = (if \<not> tst (edge_level p) m then p\<lparr>irr := irr p AND NOT m\<rparr> else p)
      in if \<not> auto_eoi p then p\<lparr>isr := isr p OR m\<rparr>
         else if rotate_on_autoeoi p then p\<lparr>lowest_priority := irq p\<rparr> else p)"

definition IAC :: "pic_dev \<Rightarrow> u8 \<times> pic_dev" where
  "IAC d =
     (let d = d\<lparr>intr := False\<rparr>;
          d = upd_pic True (\<lambda>p. p\<lparr>INT_pin := False\<rparr>) d
      in if irr (master_pic d) AND NOT (imr (master_pic d)) = 0
         then (interrupt_offset (master_pic d) + 7, d)
         else let d = upd_pic True take_irq d
         in if irq (master_pic d) \<noteq> 2
            then (of_nat (irq (master_pic d)) + interrupt_offset (master_pic d), pic_service_master d)
            else let d = upd_pic False (\<lambda>p. p\<lparr>INT_pin := False\<rparr>) d;
                     d = upd_pic True (\<lambda>p. p\<lparr>IRQ_in := IRQ_in p AND NOT (shl1 2)\<rparr>) d
            in if irr (slave_pic d) AND NOT (imr (slave_pic d)) = 0
               then (interrupt_offset (slave_pic d) + 7, d)
               else let vector = of_nat (irq (slave_pic d)) + interrupt_offset (slave_pic d);
                        d = upd_pic False take_irq d
               in (vector, pic_service_master (pic_service_slave d)))"

section \<open>The I/O ports\<close>

definition pic_read :: "u32 \<Rightarrow> nat \<Rightarrow> pic_dev \<Rightarrow> u32 \<times> pic_dev" where
  "pic_read address io_len d =
     (let poll = (\<lambda>m. let d = upd_pic m clear_highest_interrupt d;
                          d = upd_pic m (\<lambda>p. p\<lparr>polled := False\<rparr>) d;
                          d = pic_service m d;
                          k = of_nat (irq (get_pic m d)) :: u32
                      in (if io_len = 1 then k else push_bit 8 k OR k, d))
      in if (address = 0x20 \<or> address = 0x21) \<and> polled (master_pic d) then poll True
         else if (address = 0xa0 \<or> address = 0xa1) \<and> polled (slave_pic d) then poll False
         else if address = 0x20 then
           (ucast (if read_reg_select (master_pic d) then isr (master_pic d) else irr (master_pic d)), d)
         else if address = 0x21 then (ucast (imr (master_pic d)), d)
         else if address = 0xA0 then
           (ucast (if read_reg_select (slave_pic d) then isr (slave_pic d) else irr (slave_pic d)), d)
         else if address = 0xA1 then (ucast (imr (slave_pic d)), d)
         else (0, panic ''io read'' d))"

definition write_ICW1 :: "bool \<Rightarrow> u32 \<Rightarrow> pic_dev \<Rightarrow> pic_dev" where
  "write_ICW1 m value d =
     (let d = (if tst value 0x02 then panic ''single mode not supported'' d else d);
          d = (if tst value 0x08 then panic ''level sensitive mode not supported'' d else d);
          d = upd_pic m (\<lambda>p. p\<lparr>in_init := True, requires_4 := tst value 0x01, byte_expected := 2,
                 imr := 0x00, isr := 0x00, irr := 0x00, lowest_priority := 7, auto_eoi := False,
                 rotate_on_autoeoi := False, INT_pin := False\<rparr>) d
      in if master (get_pic m d) then d\<lparr>intr := False\<rparr>
         else upd_pic True (\<lambda>p. p\<lparr>IRQ_in := IRQ_in p AND NOT (shl1 2)\<rparr>) d)"

definition write_OCW3 :: "bool \<Rightarrow> u32 \<Rightarrow> pic_dev \<Rightarrow> pic_dev" where
  "write_OCW3 m value d =
     (let special = drop_bit 5 (value AND 0x60);
          poll = drop_bit 2 (value AND 0x04);
          read_op = value AND 0x03
      in if poll \<noteq> 0 then upd_pic m (\<lambda>p. p\<lparr>polled := True\<rparr>) d
         else let d = (if read_op = 0x02 then upd_pic m (\<lambda>p. p\<lparr>read_reg_select := False\<rparr>) d
                       else if read_op = 0x03 then upd_pic m (\<lambda>p. p\<lparr>read_reg_select := True\<rparr>) d
                       else d)
         in if special = 0x02 then upd_pic m (\<lambda>p. p\<lparr>special_mask := False\<rparr>) d
            else if special = 0x03 then pic_service m (upd_pic m (\<lambda>p. p\<lparr>special_mask := True\<rparr>) d)
            else d)"

definition write_OCW2 :: "bool \<Rightarrow> u32 \<Rightarrow> pic_dev \<Rightarrow> pic_dev" where
  "write_OCW2 m value d =
     (if value = 0x00 \<or> value = 0x80 then upd_pic m (\<lambda>p. p\<lparr>rotate_on_autoeoi := value \<noteq> 0\<rparr>) d
      else if value = 0xA0 \<or> value = 0x20 then
        let d = upd_pic m clear_highest_interrupt d;
            d = (if value = 0xA0
                 then upd_pic m (\<lambda>p. p\<lparr>lowest_priority := (if lowest_priority p + 1 > 7 then 0
                        else lowest_priority p + 1)\<rparr>) d
                 else d)
        in pic_service m d
      else if value = 0x40 then d
      else if 0x60 \<le> value \<and> value \<le> 0x67 then
        pic_service m (upd_pic m (\<lambda>p. p\<lparr>isr := isr p AND NOT (shl1 (unat (value - 0x60)))\<rparr>) d)
      else if 0xC0 \<le> value \<and> value \<le> 0xC7 then
        upd_pic m (\<lambda>p. p\<lparr>lowest_priority := unat (value - 0xC0)\<rparr>) d
      else if 0xE0 \<le> value \<and> value \<le> 0xE7 then
        pic_service m (upd_pic m (\<lambda>p. p\<lparr>isr := isr p AND NOT (shl1 (unat (value - 0xE0))),
                                         lowest_priority := unat (value - 0xE0)\<rparr>) d)
      else if value = 0x02 then d
      else panic ''write to port'' d)"

definition write_init :: "bool \<Rightarrow> u32 \<Rightarrow> pic_dev \<Rightarrow> pic_dev" where
  "write_init m value d =
     (let p = get_pic m d
      in if byte_expected p = 2 then
           upd_pic m (\<lambda>p. p\<lparr>interrupt_offset := ucast (value AND 0xf8), byte_expected := 3\<rparr>) d
         else if byte_expected p = 3 then
           let d = (if master p
                    then if value = 0x04 then d else panic ''slave PIC IRQ line not supported'' d
                    else if value AND 0x07 = 0x02 then d else panic ''PIC ID not supported'' d)
           in if requires_4 p then upd_pic m (\<lambda>p. p\<lparr>byte_expected := 4\<rparr>) d
              else upd_pic m (\<lambda>p. p\<lparr>in_init := False\<rparr>) d
         else if byte_expected p = 4 then
           let d = upd_pic m (\<lambda>p. p\<lparr>auto_eoi := tst value 0x02\<rparr>) d;
               d = (if tst value 0x01 then d else panic ''not 80x86 mode'' d)
           in upd_pic m (\<lambda>p. p\<lparr>in_init := False\<rparr>) d
         else panic ''expecting bad init command'' d)"

definition pic_write :: "u32 \<Rightarrow> u32 \<Rightarrow> pic_dev \<Rightarrow> pic_dev" where
  "pic_write address value d =
     (let m = (address AND 0xA0 = 0x20)
      in if address AND 1 = 0 then
           if tst value 0x10 then write_ICW1 m value d
           else if value AND 0x18 = 0x08 then write_OCW3 m value d
           else write_OCW2 m value d
         else if in_init (get_pic m d) then write_init m value d
         else pic_service m (upd_pic m (\<lambda>p. p\<lparr>imr := ucast value\<rparr>) d))"

section \<open>Priority resolution against its specification\<close>

text \<open>The distance of a line from the highest priority: 0 is served first.\<close>

definition prio :: "nat \<Rightarrow> nat \<Rightarrow> nat" where
  "prio lowest k = (k + 7 - lowest) mod 8"

text \<open>The line at distance \<open>i\<close>.\<close>

definition line_at :: "nat \<Rightarrow> nat \<Rightarrow> nat" where
  "line_at lowest i = (lowest + 1 + i) mod 8"

lemma line_at_prio: "lowest < 8 \<Longrightarrow> k < 8 \<Longrightarrow> line_at lowest (prio lowest k) = k"
  by (erule less_8_cases; erule less_8_cases; simp add: line_at_def prio_def)

lemma prio_line_at: "lowest < 8 \<Longrightarrow> i < 8 \<Longrightarrow> prio lowest (line_at lowest i) = i"
  by (erule less_8_cases; erule less_8_cases; simp add: line_at_def prio_def)

lemma line_at_less [simp]: "line_at lowest i < 8" and prio_less [simp]: "prio lowest k < 8"
  by (simp_all add: line_at_def prio_def)

lemma next_irq_line: "next_irq (line_at lowest i) = line_at lowest (Suc i)"
  by (auto simp: next_irq_def line_at_def) presburger+

lemma next_irq_lowest: "lowest < 8 \<Longrightarrow> next_irq lowest = line_at lowest 0"
  by (erule less_8_cases; simp add: next_irq_def line_at_def)

lemma line_at_8: "line_at lowest 8 = line_at lowest 0"
  using mod_add_self2 [of "lowest + 1" 8] by (simp add: line_at_def)

lemma seek_line:
  assumes "P (line_at lo i)" "j \<le> i" "i < j + n"
  obtains i' where "seek n P (line_at lo j) = line_at lo i'" "j \<le> i'" "i' \<le> i" "P (line_at lo i')"
    "\<And>k. j \<le> k \<Longrightarrow> k < i' \<Longrightarrow> \<not> P (line_at lo k)"
  using assms
proof (induction n arbitrary: j thesis)
  case (Suc n)
  show ?case
  proof (cases "P (line_at lo j)")
    case True
    then show ?thesis using Suc.prems(1) [of j] Suc.prems(3) by simp
  next
    case False
    then have "Suc j \<le> i" using Suc.prems(2,3) by (cases "i = j") auto
    then obtain i' where i': "seek n P (line_at lo (Suc j)) = line_at lo i'" "Suc j \<le> i'" "i' \<le> i"
      "P (line_at lo i')" "\<And>k. Suc j \<le> k \<Longrightarrow> k < i' \<Longrightarrow> \<not> P (line_at lo k)"
      using Suc.IH [of "Suc j"] Suc.prems(2,4) by auto
    have "\<not> P (line_at lo k)" if "j \<le> k" "k < i'" for k
      using i'(5) that False by (cases "k = j") auto
    then show ?thesis using Suc.prems(1) [of i'] i' False by (simp add: next_irq_line)
  qed
qed simp

text \<open>Distinct distances below 8 are distinct lines.\<close>

lemma line_at_inj: "\<lbrakk>lo < 8; i < 8; j < 8; line_at lo i = line_at lo j\<rbrakk> \<Longrightarrow> i = j"
  using prio_line_at by metis

lemma scan_line:
  assumes "lo < 8" "j < m" "m \<le> 8" "m \<le> j + n"
  shows "scan n P (line_at lo j) (line_at lo m) =
     (if \<exists>i. j \<le> i \<and> i < m \<and> P (line_at lo i)
      then Some (line_at lo (LEAST i. j \<le> i \<and> i < m \<and> P (line_at lo i))) else None)"
  using assms
proof (induction n arbitrary: j)
  case (Suc n)
  have stop: "line_at lo (Suc j) = line_at lo m \<longleftrightarrow> Suc j = m"
  proof (cases "m = 8")
    case True
    have "line_at lo (Suc j) \<noteq> line_at lo 0" if "Suc j < 8"
      using line_at_inj [OF Suc.prems(1) that, of 0] by auto
    then show ?thesis using True Suc.prems(2) line_at_8 [of lo] by (cases "Suc j = 8") auto
  next
    case False
    then show ?thesis using line_at_inj [OF Suc.prems(1), of "Suc j" m] Suc.prems(2,3) by auto
  qed
  show ?case
  proof (cases "P (line_at lo j)")
    case True
    then have "(LEAST i. j \<le> i \<and> i < m \<and> P (line_at lo i)) = j"
      using Suc.prems(2) by (intro Least_equality) auto
    then show ?thesis using True Suc.prems(2) by auto
  next
    case False
    have eq: "(j \<le> i \<and> i < m \<and> P (line_at lo i)) = (Suc j \<le> i \<and> i < m \<and> P (line_at lo i))" for i
      using False by (cases "i = j") auto
    show ?thesis
    proof (cases "Suc j = m")
      case True
      then show ?thesis unfolding eq using False by (auto simp: next_irq_line)
    next
      case neq: False
      then show ?thesis unfolding eq using Suc.IH [of "Suc j"] Suc.prems False stop
        by (simp add: next_irq_line Let_def)
    qed
  qed
qed simp

text \<open>
  A request is eligible when it is not masked and, in normal mode, beats every line in service;
  in special mask mode only its own in-service bit blocks it.
\<close>

definition eligible :: "bx_pic_t \<Rightarrow> nat \<Rightarrow> bool" where
  "eligible p k \<longleftrightarrow> bit (irr p AND NOT (imr p)) k \<and>
     (if special_mask p then \<not> bit (isr p) k
      else \<forall>j < 8. bit (isr p) j \<longrightarrow> prio (lowest_priority p) k < prio (lowest_priority p) j)"

lemma bits_by_lines:
  assumes "lo < 8"
  shows "(w :: u8) \<noteq> 0 \<longleftrightarrow> (\<exists>i < 8. bit w (line_at lo i))"
proof
  assume "w \<noteq> 0"
  then obtain n where "n < LENGTH(8)" "bit w n" by (rule word_neq_0_bit)
  then show "\<exists>i < 8. bit w (line_at lo i)"
    using line_at_prio [OF assms, of n] by (intro exI [of _ "prio lo n"]) simp
qed auto

text \<open>The part of the priority order that \<open>pic_service\<close> looks at: the distances below \<open>m\<close>.\<close>

lemma pic_window:
  assumes lo: "lowest_priority p < 8"
  defines "lo \<equiv> lowest_priority p" and "req \<equiv> irr p AND NOT (imr p)"
  obtains m where "m \<le> 8" "m = 0 \<longleftrightarrow> \<not> special_mask p \<and> bit (isr p) (line_at lo 0)"
    "\<And>i. i < 8 \<Longrightarrow> eligible p (line_at lo i) \<longleftrightarrow>
       i < m \<and> bit req (line_at lo i) \<and> \<not> (special_mask p \<and> bit (isr p) (line_at lo i))"
    "pic_decide p = (if m = 0 then Keep else if req \<noteq> 0
       then (case scan 8 (\<lambda>k. \<not> (special_mask p \<and> bit (isr p) k) \<and> \<not> INT_pin p \<and> bit req k)
               (line_at lo 0) (line_at lo m) of Some k \<Rightarrow> Signal k | None \<Rightarrow> Keep)
       else if INT_pin p then Deassert else Keep)"
proof -
  note lo8 = lo [folded lo_def]
  note nx = next_irq_lowest [OF lo8]
  show thesis
  proof (cases "special_mask p \<or> isr p = 0")
    case True
    show ?thesis
    proof (rule that [of 8])
      show "eligible p (line_at lo i) \<longleftrightarrow> i < 8 \<and> bit req (line_at lo i)
          \<and> \<not> (special_mask p \<and> bit (isr p) (line_at lo i))" if "i < 8" for i
        using True that by (auto simp: eligible_def req_def)
    qed (use True in \<open>auto simp: pic_decide_def Let_def lo_def [symmetric] nx req_def line_at_8\<close>)
  next
    case False
    then obtain i0 where i0: "i0 < 8" "bit (isr p) (line_at lo i0)" using bits_by_lines [OF lo8] by auto
    obtain m where m: "seek 8 (bit (isr p)) (line_at lo 0) = line_at lo m" "m \<le> i0" "bit (isr p) (line_at lo m)"
      "\<And>k. k < m \<Longrightarrow> \<not> bit (isr p) (line_at lo k)"
      using seek_line [of "bit (isr p)" lo i0 0 8] i0 by auto
    have m8: "m < 8" using m(2) i0(1) by simp
    have z: "line_at lo m = line_at lo 0 \<longleftrightarrow> m = 0" using line_at_inj [OF lo8 m8, of 0] by auto
    have el: "(\<forall>j < 8. bit (isr p) j \<longrightarrow> prio lo (line_at lo i) < prio lo j) \<longleftrightarrow> i < m" if i: "i < 8" for i
    proof
      assume *: "\<forall>j < 8. bit (isr p) j \<longrightarrow> prio lo (line_at lo i) < prio lo j"
      then have "prio lo (line_at lo i) < prio lo (line_at lo m)" using m(3) by simp
      then show "i < m" by (simp add: prio_line_at [OF lo8] i m8)
    next
      assume "i < m"
      show "\<forall>j < 8. bit (isr p) j \<longrightarrow> prio lo (line_at lo i) < prio lo j"
      proof (intro allI impI)
        fix j :: nat assume j: "j < 8" "bit (isr p) j"
        have "\<not> prio lo j < m" using m(4) [of "prio lo j"] j(2) line_at_prio [OF lo8 j(1)] by auto
        then show "prio lo (line_at lo i) < prio lo j" using \<open>i < m\<close> by (simp add: prio_line_at [OF lo8 i])
      qed
    qed
    show ?thesis
    proof (rule that [of m])
      show "m = 0 \<longleftrightarrow> \<not> special_mask p \<and> bit (isr p) (line_at lo 0)"
        using False m(3) m(4) [of 0] by (cases "m = 0") auto
      show "eligible p (line_at lo i) \<longleftrightarrow> i < m \<and> bit req (line_at lo i)
          \<and> \<not> (special_mask p \<and> bit (isr p) (line_at lo i))" if "i < 8" for i
        using False el [OF that] by (auto simp: eligible_def req_def lo_def)
      show "pic_decide p = (if m = 0 then Keep else if req \<noteq> 0
       then (case scan 8 (\<lambda>k. \<not> (special_mask p \<and> bit (isr p) k) \<and> \<not> INT_pin p \<and> bit req k)
               (line_at lo 0) (line_at lo m) of Some k \<Rightarrow> Signal k | None \<Rightarrow> Keep)
       else if INT_pin p then Deassert else Keep)"
        using False by (simp add: pic_decide_def Let_def lo_def [symmetric] nx m(1) z req_def)
    qed (use m8 in simp)
  qed
qed

lemma Least_window:
  assumes "\<exists>i. i < (m :: nat) \<and> Q i"
  defines "l \<equiv> LEAST i. 0 \<le> i \<and> i < m \<and> Q i"
  shows "l < m" "Q l" "\<And>i. i < m \<Longrightarrow> Q i \<Longrightarrow> l \<le> i"
proof -
  have "0 \<le> l \<and> l < m \<and> Q l" unfolding l_def by (rule LeastI_ex) (use assms in blast)
  then show "l < m" "Q l" by simp_all
  show "\<And>i. i < m \<Longrightarrow> Q i \<Longrightarrow> l \<le> i" unfolding l_def by (rule Least_le) simp
qed

lemma pic_decide_Signal:
  assumes lo: "lowest_priority p < 8"
  shows "pic_decide p = Signal k \<longleftrightarrow> \<not> INT_pin p \<and> k < 8 \<and> eligible p k \<and>
     (\<forall>j < 8. eligible p j \<longrightarrow> prio (lowest_priority p) k \<le> prio (lowest_priority p) j)"
proof -
  define l where "l = lowest_priority p"
  define req where "req = irr p AND NOT (imr p)"
  note lo8 = lo [folded l_def]
  obtain m where m: "m \<le> 8" "m = 0 \<longleftrightarrow> \<not> special_mask p \<and> bit (isr p) (line_at l 0)"
    and el: "\<And>i. i < 8 \<Longrightarrow> eligible p (line_at l i) \<longleftrightarrow>
       i < m \<and> bit req (line_at l i) \<and> \<not> (special_mask p \<and> bit (isr p) (line_at l i))"
    and d: "pic_decide p = (if m = 0 then Keep else if req \<noteq> 0
       then (case scan 8 (\<lambda>k. \<not> (special_mask p \<and> bit (isr p) k) \<and> \<not> INT_pin p \<and> bit req k)
               (line_at l 0) (line_at l m) of Some k \<Rightarrow> Signal k | None \<Rightarrow> Keep)
       else if INT_pin p then Deassert else Keep)"
    using pic_window [OF lo] unfolding l_def req_def by blast
  define Q where "Q i \<longleftrightarrow> \<not> (special_mask p \<and> bit (isr p) (line_at l i)) \<and> \<not> INT_pin p \<and> bit req (line_at l i)" for i
  have Q: "Q i \<and> i < m \<longleftrightarrow> \<not> INT_pin p \<and> eligible p (line_at l i)" if "i < 8" for i
    using el [OF that] by (auto simp: Q_def)
  have sig: "pic_decide p = Signal k \<longleftrightarrow> (\<exists>i. i < m \<and> Q i) \<and> k = line_at l (LEAST i. 0 \<le> i \<and> i < m \<and> Q i)"
  proof (cases "m = 0")
    case False
    let ?f = "\<lambda>k. \<not> (special_mask p \<and> bit (isr p) k) \<and> \<not> INT_pin p \<and> bit req k"
    have sc: "scan 8 ?f (line_at l 0) (line_at l m) = (if \<exists>i. 0 \<le> i \<and> i < m \<and> Q i
        then Some (line_at l (LEAST i. 0 \<le> i \<and> i < m \<and> Q i)) else None)"
      unfolding Q_def by (rule scan_line) (use lo8 False m(1) in auto)
    show ?thesis
    proof (cases "req = 0")
      case True
      then have "\<not> Q i" for i by (simp add: Q_def)
      then show ?thesis using True by (simp add: d)
    next
      case neq: False
      show ?thesis unfolding d sc using False neq by auto
    qed
  qed (simp add: d)
  show ?thesis unfolding l_def [symmetric]
  proof
    assume "pic_decide p = Signal k"
    then have ex: "\<exists>i. i < m \<and> Q i" and k: "k = line_at l (LEAST i. 0 \<le> i \<and> i < m \<and> Q i)" using sig by auto
    define i where "i = (LEAST i. 0 \<le> i \<and> i < m \<and> Q i)"
    have i: "i < m" "Q i" "\<And>j. j < m \<Longrightarrow> Q j \<Longrightarrow> i \<le> j"
      unfolding i_def by (rule Least_window [OF ex]; assumption)+
    have i8: "i < 8" using i(1) m(1) by simp
    have ek: "\<not> INT_pin p \<and> eligible p k" using Q [OF i8] i k by (simp add: i_def)
    have "prio l k \<le> prio l j" if "j < 8" "eligible p j" for j
    proof -
      have "i \<le> prio l j"
        using i(3) [of "prio l j"] Q [of "prio l j"] that ek line_at_prio [OF lo8 that(1)] by auto
      then show ?thesis using k prio_line_at [OF lo8 i8] by (simp add: i_def)
    qed
    then show "\<not> INT_pin p \<and> k < 8 \<and> eligible p k \<and> (\<forall>j < 8. eligible p j \<longrightarrow> prio l k \<le> prio l j)"
      using ek k by simp
  next
    assume *: "\<not> INT_pin p \<and> k < 8 \<and> eligible p k \<and> (\<forall>j < 8. eligible p j \<longrightarrow> prio l k \<le> prio l j)"
    then have k: "line_at l (prio l k) = k" using line_at_prio [OF lo8] by blast
    then have qk: "Q (prio l k)" "prio l k < m" using Q [of "prio l k"] * by auto
    have "(LEAST i. 0 \<le> i \<and> i < m \<and> Q i) = prio l k"
    proof (rule Least_equality)
      fix i assume "0 \<le> i \<and> i < m \<and> Q i"
      then have "i < 8" "eligible p (line_at l i)" using Q [of i] m(1) by auto
      then have "prio l k \<le> prio l (line_at l i)" using * by simp
      then show "prio l k \<le> i" using prio_line_at [OF lo8 \<open>i < 8\<close>] by simp
    qed (use qk in simp)
    then show "pic_decide p = Signal k" using sig qk k by auto
  qed
qed

lemma pic_decide_Deassert:
  assumes "lowest_priority p < 8"
  shows "pic_decide p = Deassert \<longleftrightarrow> INT_pin p \<and> irr p AND NOT (imr p) = 0 \<and>
     (special_mask p \<or> \<not> bit (isr p) (line_at (lowest_priority p) 0))"
  by (rule pic_window [OF assms]) (auto split: option.splits)

section \<open>The device invariant\<close>

definition pic_ok :: "bool \<Rightarrow> bx_pic_t \<Rightarrow> bool" where
  "pic_ok m p \<longleftrightarrow> master p = m \<and> lowest_priority p < 8 \<and> irq p < 8 \<and> interrupt_offset p AND 7 = 0
     \<and> (in_init p \<longrightarrow> byte_expected p \<in> {2, 3, 4})"

definition pic_inv :: "pic_dev \<Rightarrow> bool" where
  "pic_inv d \<longleftrightarrow> pic_ok True (master_pic d) \<and> pic_ok False (slave_pic d)
     \<and> (intr d \<longleftrightarrow> INT_pin (master_pic d))
     \<and> (INT_pin (slave_pic d) \<longleftrightarrow> bit (IRQ_in (master_pic d)) 2)"

lemma upd_pic_simps [simp]:
  "master_pic (upd_pic m f d) = (if m then f (master_pic d) else master_pic d)"
  "slave_pic (upd_pic m f d) = (if m then slave_pic d else f (slave_pic d))"
  "intr (upd_pic m f d) = intr d" "ioapic_present (upd_pic m f d) = ioapic_present d"
  "ioapic_calls (upd_pic m f d) = ioapic_calls d" "panics (upd_pic m f d) = panics d"
  "master_pic (panic s d) = master_pic d" "slave_pic (panic s d) = slave_pic d" "intr (panic s d) = intr d"
  "master_pic (forward_ioapic k b d) = master_pic d" "slave_pic (forward_ioapic k b d) = slave_pic d"
  "intr (forward_ioapic k b d) = intr d" "panics (forward_ioapic k b d) = panics d"
  by (simp_all add: upd_pic_def panic_def forward_ioapic_def)

lemma pic_ok_update [simp]:
  "pic_ok m (p\<lparr>INT_pin := b\<rparr>) = pic_ok m p"
  "pic_ok m (p\<lparr>IRQ_in := w\<rparr>) = pic_ok m p"
  "pic_ok m (p\<lparr>irr := w\<rparr>) = pic_ok m p"
  "pic_ok m (p\<lparr>isr := w\<rparr>) = pic_ok m p"
  "pic_ok m (p\<lparr>imr := w\<rparr>) = pic_ok m p"
  "pic_ok m (p\<lparr>auto_eoi := b\<rparr>) = pic_ok m p"
  "pic_ok m (p\<lparr>rotate_on_autoeoi := b\<rparr>) = pic_ok m p"
  "pic_ok m (p\<lparr>polled := b\<rparr>) = pic_ok m p"
  "pic_ok m (p\<lparr>special_mask := b\<rparr>) = pic_ok m p"
  "pic_ok m (p\<lparr>edge_level := w\<rparr>) = pic_ok m p"
  "pic_ok m (p\<lparr>read_reg_select := b\<rparr>) = pic_ok m p"
  "pic_ok m (p\<lparr>requires_4 := b\<rparr>) = pic_ok m p"
  "k < 8 \<Longrightarrow> pic_ok m (p\<lparr>irq := k\<rparr>) \<longleftrightarrow> master p = m \<and> lowest_priority p < 8 \<and> interrupt_offset p AND 7 = 0 \<and> (in_init p \<longrightarrow> byte_expected p \<in> {2, 3, 4})"
  "k < 8 \<Longrightarrow> pic_ok m (p\<lparr>lowest_priority := k\<rparr>) \<longleftrightarrow> master p = m \<and> irq p < 8 \<and> interrupt_offset p AND 7 = 0 \<and> (in_init p \<longrightarrow> byte_expected p \<in> {2, 3, 4})"
  by (simp_all add: pic_ok_def)

lemma pic_okD:
  assumes "pic_ok m p"
  shows "master p = m" "lowest_priority p < 8" "irq p < 8" "interrupt_offset p AND 7 = 0"
    "in_init p \<Longrightarrow> byte_expected p \<in> {2, 3, 4}"
  using assms by (simp_all add: pic_ok_def)

lemma get_pic_simps [simp]: "get_pic True d = master_pic d" "get_pic False d = slave_pic d"
  by (simp_all add: get_pic_def)

lemma init_pics_inv: "pic_inv (init_pics apic)"
  by (simp add: pic_inv_def pic_ok_def init_pics_def pic_init_def)

lemma pic_invD:
  assumes "pic_inv d"
  shows "pic_ok True (master_pic d)" "pic_ok False (slave_pic d)" "intr d = INT_pin (master_pic d)"
    "INT_pin (slave_pic d) = bit (IRQ_in (master_pic d)) 2"
  using assms by (simp_all add: pic_inv_def)

lemma Signal_less: "lowest_priority p < 8 \<Longrightarrow> pic_decide p = Signal k \<Longrightarrow> k < 8 \<and> \<not> INT_pin p"
  by (simp add: pic_decide_Signal)

lemma pic_service_master_inv [bx_inv]:
  assumes "pic_inv d"
  shows "pic_inv (pic_service_master d)"
proof -
  note D = pic_invD [OF assms]
  note ok = pic_okD [OF D(1)]
  show ?thesis
  proof (cases "pic_decide (master_pic d)")
    case (Signal k)
    then show ?thesis
      using Signal_less [OF ok(2) Signal] D ok by (simp add: pic_service_master_def pic_inv_def)
  qed (use D ok in \<open>simp_all add: pic_service_master_def pic_inv_def\<close>)
qed

lemma raise_irq_master_inv: "pic_inv d \<Longrightarrow> k < 8 \<Longrightarrow> k \<noteq> 2 \<Longrightarrow> pic_inv (raise_irq_master k d)"
  unfolding raise_irq_master_def Let_def
  by (simp, intro impI conjI pic_service_master_inv) (simp_all add: raise_line_def pic_inv_def)

lemma lower_irq_inv [bx_inv]: "pic_inv d \<Longrightarrow> k \<noteq> 2 \<Longrightarrow> pic_inv (lower_irq k d)"
  by (simp add: lower_irq_def Let_def pic_inv_def)

lemma pic_service_slave_inv [bx_inv]:
  assumes "pic_inv d"
  shows "pic_inv (pic_service_slave d)"
proof (cases "pic_decide (slave_pic d)")
  case (Signal k)
  have lo: "lowest_priority (slave_pic d) < 8" using assms by (simp add: pic_inv_def pic_ok_def)
  have k: "k < 8" "\<not> INT_pin (slave_pic d)" using Signal lo by (simp_all add: pic_decide_Signal)
  let ?d = "raise_line True (shl1 2) (upd_pic False (\<lambda>p. p\<lparr>INT_pin := True, irq := k\<rparr>) d)"
  have "pic_inv ?d" using pic_invD [OF assms] pic_okD [OF pic_invD(2) [OF assms]] k
    by (simp add: pic_inv_def raise_line_def)
  moreover have "pic_service_slave d = pic_service_master ?d"
    using assms k Signal by (simp add: pic_service_slave_def raise_irq_master_def Let_def pic_inv_def forward_ioapic_def)
  ultimately show ?thesis by (simp add: pic_service_master_inv)
next
  case Deassert
  have lo: "lowest_priority (slave_pic d) < 8" using assms by (simp add: pic_inv_def pic_ok_def)
  then have "INT_pin (slave_pic d)" using Deassert pic_decide_Deassert by blast
  then show ?thesis using assms Deassert
    by (simp add: pic_service_slave_def lower_irq_def Let_def pic_inv_def)
qed (use assms in \<open>simp add: pic_service_slave_def\<close>)

lemma pic_service_inv [bx_inv]: "pic_inv d \<Longrightarrow> pic_inv (pic_service m d)"
  by (simp add: pic_service_def bx_inv)

lemma raise_irq_inv [bx_inv]: "pic_inv d \<Longrightarrow> k \<noteq> 2 \<Longrightarrow> pic_inv (raise_irq k d)"
  unfolding raise_irq_def Let_def
  by (simp add: raise_irq_master_inv, intro impI conjI pic_service_slave_inv)
    (simp_all add: raise_line_def pic_inv_def)

text \<open>An update that keeps a controller's well-formedness and its pins keeps the invariant.\<close>

lemma upd_pic_inv:
  assumes "pic_inv d" "pic_ok m (f (get_pic m d))" "INT_pin (f (get_pic m d)) = INT_pin (get_pic m d)"
    "IRQ_in (f (get_pic m d)) = IRQ_in (get_pic m d)"
  shows "pic_inv (upd_pic m f d)"
  using assms by (cases m) (auto simp: pic_inv_def)

lemma pic_inv_ok: "pic_inv d \<Longrightarrow> pic_ok m (get_pic m d)"
  by (cases m) (auto simp: pic_inv_def)

lemma panic_inv [bx_inv]: "pic_inv (panic s d) = pic_inv d"
  by (simp add: pic_inv_def)

lemma clear_highest_ok:
  "pic_ok m p \<Longrightarrow> pic_ok m (clear_highest_interrupt p)"
  "INT_pin (clear_highest_interrupt p) = INT_pin p" "IRQ_in (clear_highest_interrupt p) = IRQ_in p"
  by (auto simp: clear_highest_interrupt_def pic_ok_def Let_def split: option.splits)

lemma take_irq_ok:
  "pic_ok m p \<Longrightarrow> pic_ok m (take_irq p)" "INT_pin (take_irq p) = INT_pin p" "IRQ_in (take_irq p) = IRQ_in p"
  "irq (take_irq p) = irq p" "interrupt_offset (take_irq p) = interrupt_offset p"
  by (auto simp: take_irq_def pic_ok_def Let_def)

lemma IAC_inv [bx_inv]:
  assumes "pic_inv d"
  shows "pic_inv (snd (IAC d))"
proof -
  define d1 where "d1 = upd_pic True (\<lambda>p. p\<lparr>INT_pin := False\<rparr>) (d\<lparr>intr := False\<rparr>)"
  define d2 where "d2 = upd_pic True take_irq d1"
  define d3 where "d3 = upd_pic True (\<lambda>p. p\<lparr>IRQ_in := IRQ_in p AND NOT (shl1 2)\<rparr>) (upd_pic False (\<lambda>p. p\<lparr>INT_pin := False\<rparr>) d2)"
  have i: "pic_inv d1" "pic_inv d2" "pic_inv d3" "pic_inv (upd_pic False take_irq d3)"
    using pic_invD [OF assms] by (simp_all add: d1_def d2_def d3_def pic_inv_def take_irq_ok)
  have "snd (IAC d) = (if irr (master_pic d1) AND NOT (imr (master_pic d1)) = 0 then d1
      else if irq (master_pic d2) \<noteq> 2 then pic_service_master d2
      else if irr (slave_pic d3) AND NOT (imr (slave_pic d3)) = 0 then d3
      else pic_service_master (pic_service_slave (upd_pic False take_irq d3)))"
    by (simp only: IAC_def Let_def d1_def d2_def d3_def if_distrib [of snd] snd_conv)
  then show ?thesis using i by (simp add: bx_inv)
qed

lemma set_mode_inv [bx_inv]: "pic_inv d \<Longrightarrow> pic_inv (set_mode m b d)"
  unfolding set_mode_def by (rule upd_pic_inv) (auto dest: pic_inv_ok)

lemma pic_read_inv [bx_inv]: "pic_inv d \<Longrightarrow> pic_inv (snd (pic_read address n d))"
proof -
  assume i: "pic_inv d"
  have poll: "pic_inv (pic_service m (upd_pic m (\<lambda>p. p\<lparr>polled := False\<rparr>) (upd_pic m clear_highest_interrupt d)))" for m
  proof (intro pic_service_inv upd_pic_inv)
    show "pic_inv d" by (rule i)
  qed (use pic_inv_ok [OF i, of m] clear_highest_ok in \<open>cases m; simp\<close>)+
  show ?thesis using i poll by (simp add: pic_read_def Let_def panic_inv)
qed


lemma upd_pic_ok_inv:
  assumes "pic_inv d" "\<And>p. pic_ok m p \<Longrightarrow> pic_ok m (f p)" "\<And>p. INT_pin (f p) = INT_pin p" "\<And>p. IRQ_in (f p) = IRQ_in p"
  shows "pic_inv (upd_pic m f d)"
  using assms(1) by (rule upd_pic_inv) (simp_all add: assms pic_inv_ok)

lemma write_ICW1_inv: "pic_inv d \<Longrightarrow> pic_inv (write_ICW1 m value d)"
proof -
  assume "pic_inv d"
  have p: "pic_inv d1 \<Longrightarrow> pic_inv (let d = upd_pic m (\<lambda>p. p\<lparr>in_init := True, requires_4 := tst value 0x01, byte_expected := 2,
                 imr := 0x00, isr := 0x00, irr := 0x00, lowest_priority := 7, auto_eoi := False,
                 rotate_on_autoeoi := False, INT_pin := False\<rparr>) d1
      in if master (get_pic m d) then d\<lparr>intr := False\<rparr>
         else upd_pic True (\<lambda>p. p\<lparr>IRQ_in := IRQ_in p AND NOT (shl1 2)\<rparr>) d)" for d1
  proof -
    assume i: "pic_inv d1"
    note D1 = pic_invD [OF i]
    have ok: "pic_ok m (p\<lparr>in_init := True, requires_4 := tst value 0x01, byte_expected := 2,
                 imr := 0x00, isr := 0x00, irr := 0x00, lowest_priority := 7, auto_eoi := False,
                 rotate_on_autoeoi := False, INT_pin := False\<rparr>)" if "pic_ok m p" for p
      using pic_okD [OF that] by (simp add: pic_ok_def)
    show ?thesis
      using D1 ok pic_okD(1) [OF D1(1)] pic_okD(1) [OF D1(2)]
      by (cases m) (simp_all add: pic_inv_def Let_def)
  qed
  show ?thesis
  proof -
    define d0 where "d0 = (if tst value 0x02 then panic ''single mode not supported'' d else d)"
    define d1 where "d1 = (if tst value 0x08 then panic ''level sensitive mode not supported'' d0 else d0)"
    have "pic_inv d1" using \<open>pic_inv d\<close> by (simp add: d1_def d0_def panic_inv)
    then show ?thesis using p [of d1] by (simp only: write_ICW1_def d1_def d0_def Let_def)
  qed
qed

lemma field_inv:
  assumes "pic_inv d"
  shows "pic_inv (upd_pic m (\<lambda>p. p\<lparr>polled := b\<rparr>) d)" "pic_inv (upd_pic m (\<lambda>p. p\<lparr>read_reg_select := b\<rparr>) d)"
    "pic_inv (upd_pic m (\<lambda>p. p\<lparr>special_mask := b\<rparr>) d)" "pic_inv (upd_pic m (\<lambda>p. p\<lparr>rotate_on_autoeoi := g p\<rparr>) d)"
    "pic_inv (upd_pic m (\<lambda>p. p\<lparr>imr := w\<rparr>) d)" "pic_inv (upd_pic m (\<lambda>p. p\<lparr>isr := h p\<rparr>) d)"
    "pic_inv (upd_pic m (\<lambda>p. p\<lparr>auto_eoi := b\<rparr>) d)" "pic_inv (upd_pic m clear_highest_interrupt d)"
    "pic_inv (upd_pic m (\<lambda>p. p\<lparr>in_init := False\<rparr>) d)"
proof -
  show "pic_inv (upd_pic m (\<lambda>p. p\<lparr>in_init := False\<rparr>) d)"
    by (rule upd_pic_ok_inv [OF assms]; simp add: pic_ok_def)
qed (rule upd_pic_ok_inv [OF assms]; simp add: clear_highest_ok)+

lemma rotate_inv:
  assumes "pic_inv d" "\<And>p. pic_ok m p \<Longrightarrow> g p < 8"
  shows "pic_inv (upd_pic m (\<lambda>p. p\<lparr>lowest_priority := g p\<rparr>) d)"
    "pic_inv (upd_pic m (\<lambda>p. p\<lparr>isr := h p, lowest_priority := g p\<rparr>) d)"
  by (rule upd_pic_ok_inv [OF assms(1)]; use assms(2) in \<open>simp add: pic_ok_def\<close>)+

lemma write_OCW3_inv: "pic_inv d \<Longrightarrow> pic_inv (write_OCW3 m value d)"
  unfolding write_OCW3_def Let_def by (simp add: field_inv pic_service_inv)

lemma u32_window: "(a :: u32) \<le> v \<Longrightarrow> v \<le> a + 7 \<Longrightarrow> a \<le> a + 7 \<Longrightarrow> unat (v - a) < 8"
proof -
  assume "a \<le> v" "v \<le> a + 7" "a \<le> a + 7"
  then have "v - a \<le> 7" by (metis add_diff_cancel_left' word_le_minus_mono_left)
  then have "unat (v - a) \<le> unat (7 :: u32)" by (simp add: word_le_nat_alt)
  then show ?thesis by simp
qed

lemma write_OCW2_inv: "pic_inv d \<Longrightarrow> pic_inv (write_OCW2 m value d)"
proof -
  assume d: "pic_inv d"
  have w: "unat (value - 0xC0) < 8" if "0xC0 \<le> value" "value \<le> 0xC7" using u32_window [of "0xC0" "value"] that by simp
  have x: "unat (value - 0xE0) < 8" if "0xE0 \<le> value" "value \<le> 0xE7" using u32_window [of "0xE0" "value"] that by simp
  have r: "(if lowest_priority p + 1 > 7 then 0 else lowest_priority p + 1) < 8" if "pic_ok m p" for p
    using pic_okD(2) [OF that] by simp
  show ?thesis
    unfolding write_OCW2_def Let_def
    using d w x by (simp add: field_inv pic_service_inv rotate_inv r panic_inv del: One_nat_def add_Suc_right)
qed

lemma and_F8_mod: "ucast (value AND 0xf8 :: u32) AND 7 = (0 :: u8)"
proof -
  have m: "(0xf8 :: u32) = push_bit 3 (mask 5)" "(7 :: u8) = mask 3" by (simp_all add: mask_eq_exp_minus_1)
  show ?thesis unfolding m
    by (rule bit_word_eqI) (auto simp: bit_and_iff bit_unsigned_iff bit_push_bit_iff bit_mask_iff)
qed

lemma write_init_inv: "pic_inv d \<Longrightarrow> in_init (get_pic m d) \<Longrightarrow> pic_inv (write_init m value d)"
proof -
  assume d: "pic_inv d" and i: "in_init (get_pic m d)"
  have s: "pic_inv (upd_pic m (\<lambda>p. p\<lparr>interrupt_offset := ucast (value AND 0xf8), byte_expected := 3\<rparr>) e)"
    "pic_inv (upd_pic m (\<lambda>p. p\<lparr>byte_expected := 4\<rparr>) e)" if "pic_inv e" for e
    by (rule upd_pic_ok_inv [OF that]; simp add: pic_ok_def and_F8_mod)+
  show ?thesis
    unfolding write_init_def Let_def using d by (simp add: s field_inv panic_inv)
qed

lemma pic_write_inv [bx_inv]: "pic_inv d \<Longrightarrow> pic_inv (pic_write address value d)"
  unfolding pic_write_def Let_def
  by (simp add: write_ICW1_inv write_OCW3_inv write_OCW2_inv write_init_inv pic_service_inv field_inv)

section \<open>Runs\<close>

text \<open>
  What the machine does to the controllers: devices move their lines (line 2 is the cascade and
  belongs to the slave), the CPU acknowledges, the guest uses the ports.
\<close>

inductive pic_step :: "pic_dev \<Rightarrow> pic_dev \<Rightarrow> bool" where
  Raise: "k \<noteq> 2 \<Longrightarrow> pic_step d (raise_irq k d)"
| Lower: "k \<noteq> 2 \<Longrightarrow> pic_step d (lower_irq k d)"
| Ack: "pic_step d (snd (IAC d))"
| Mode: "pic_step d (set_mode m b d)"
| Read: "pic_step d (snd (pic_read address n d))"
| Write: "pic_step d (pic_write address value d)"

inductive_cases pic_stepE: "pic_step d e"

lemma pic_step_inv: "pic_inv d \<Longrightarrow> pic_step d e \<Longrightarrow> pic_inv e"
  by (erule pic_stepE) (simp_all add: bx_inv)

interpretation pic: device "\<lambda>d. \<exists>apic. d = init_pics apic" pic_step pic_inv
  by unfold_locales (auto simp: init_pics_inv pic_step_inv)

section \<open>End of interrupt\<close>

lemma clear_highest_spec:
  assumes lo: "lowest_priority p < 8"
  shows "isr p = 0 \<Longrightarrow> clear_highest_interrupt p = p"
    and "\<lbrakk>k < 8; bit (isr p) k; \<And>j. j < 8 \<Longrightarrow> bit (isr p) j \<Longrightarrow>
           prio (lowest_priority p) k \<le> prio (lowest_priority p) j\<rbrakk>
         \<Longrightarrow> clear_highest_interrupt p = p\<lparr>isr := isr p AND NOT (shl1 k)\<rparr>"
proof -
  let ?l = "lowest_priority p"
  have sc: "scan 8 (bit (isr p)) (next_irq ?l) (next_irq ?l) =
      (if \<exists>i. 0 \<le> i \<and> i < 8 \<and> bit (isr p) (line_at ?l i)
       then Some (line_at ?l (LEAST i. 0 \<le> i \<and> i < 8 \<and> bit (isr p) (line_at ?l i))) else None)"
    using scan_line [OF lo, of 0 8 8 "bit (isr p)"] by (simp add: next_irq_lowest [OF lo] line_at_8)
  show "isr p = 0 \<Longrightarrow> clear_highest_interrupt p = p"
    unfolding clear_highest_interrupt_def Let_def sc by simp
  assume k: "k < 8" "bit (isr p) k"
    and least: "\<And>j. j < 8 \<Longrightarrow> bit (isr p) j \<Longrightarrow> prio ?l k \<le> prio ?l j"
  have kl: "line_at ?l (prio ?l k) = k" by (rule line_at_prio [OF lo k(1)])
  have "(LEAST i. 0 \<le> i \<and> i < 8 \<and> bit (isr p) (line_at ?l i)) = prio ?l k"
  proof (rule Least_equality)
    fix i assume "0 \<le> i \<and> i < 8 \<and> bit (isr p) (line_at ?l i)"
    then show "prio ?l k \<le> i" using least [of "line_at ?l i"] prio_line_at [OF lo, of i] by simp
  qed (simp add: kl k)
  moreover have "\<exists>i. 0 \<le> i \<and> i < 8 \<and> bit (isr p) (line_at ?l i)"
    by (rule exI [of _ "prio ?l k"]) (simp add: kl k)
  ultimately show "clear_highest_interrupt p = p\<lparr>isr := isr p AND NOT (shl1 k)\<rparr>"
    unfolding clear_highest_interrupt_def Let_def sc by (simp add: kl)
qed

section \<open>Delivery of an interrupt\<close>

text \<open>A controller with nothing requested, nothing in service and its line to the CPU low.\<close>

definition quiet :: "bx_pic_t \<Rightarrow> bool" where
  "quiet p \<longleftrightarrow> irr p = 0 \<and> isr p = 0 \<and> \<not> INT_pin p \<and> \<not> auto_eoi p \<and> edge_level p = 0"

definition ready :: "nat \<Rightarrow> bx_pic_t \<Rightarrow> bool" where
  "ready k p \<longleftrightarrow> quiet p \<and> k < 8 \<and> \<not> bit (imr p) k \<and> \<not> bit (IRQ_in p) k"

lemma decide_single:
  assumes "pic_ok m p" "irr p = shl1 k" "isr p = 0" "\<not> INT_pin p" "k < 8" "\<not> bit (imr p) k"
  shows "pic_decide p = Signal k"
  using assms by (subst pic_decide_Signal) (auto simp: pic_okD eligible_def bit_and_not)

lemma decide_none:
  assumes "irr p = 0" "\<not> INT_pin p"
  shows "pic_decide p = Keep"
  using assms by (simp add: pic_decide_def Let_def)

lemma take_edge:
  assumes "edge_level p = 0" "\<not> auto_eoi p"
  shows "take_irq p = p\<lparr>irr := irr p AND NOT (shl1 (irq p)), isr := isr p OR shl1 (irq p)\<rparr>"
  using assms by (simp add: take_irq_def Let_def tst_def)

lemma shl1_and_not_self: "shl1 k AND NOT (shl1 k) = (0 :: u8)"
  by simp

lemma raise_ready_master:
  assumes "pic_ok True (master_pic d)" "ready k (master_pic d)"
  shows "raise_irq_master k d = (upd_pic True (\<lambda>p. p\<lparr>IRQ_in := IRQ_in p OR shl1 k, irr := shl1 k,
      INT_pin := True, irq := k\<rparr>) (forward_ioapic k True d))\<lparr>intr := True\<rparr>"
proof -
  let ?d = "raise_line True (shl1 k) (forward_ioapic k True d)"
  have "pic_decide (master_pic ?d) = Signal k"
    using assms by (intro decide_single [of True]) (simp_all add: ready_def quiet_def raise_line_def)
  then show ?thesis
    using assms(2) by (simp add: raise_irq_master_def Let_def pic_service_master_def ready_def quiet_def raise_line_def upd_pic_def)
qed

lemma deliver_master:
  assumes i: "pic_inv d" and r: "ready k (master_pic d)" and k: "k \<noteq> 2"
  shows "intr (raise_irq k d)" "fst (IAC (raise_irq k d)) = of_nat k + interrupt_offset (master_pic d)"
    "isr (master_pic (snd (IAC (raise_irq k d)))) = shl1 k" "irr (master_pic (snd (IAC (raise_irq k d)))) = 0"
    "\<not> intr (snd (IAC (raise_irq k d)))"
proof -
  have k8: "k < 8" using r by (simp add: ready_def)
  have e: "raise_irq k d = (upd_pic True (\<lambda>p. p\<lparr>IRQ_in := IRQ_in p OR shl1 k, irr := shl1 k,
      INT_pin := True, irq := k\<rparr>) (forward_ioapic k True d))\<lparr>intr := True\<rparr>"
    using raise_ready_master [OF pic_invD(1) [OF i] r] k8 by (simp add: raise_irq_def)
  have q: "edge_level (master_pic d) = 0" "\<not> auto_eoi (master_pic d)" "isr (master_pic d) = 0" "\<not> bit (imr (master_pic d)) k"
    using r by (simp_all add: ready_def quiet_def)
  have nz: "shl1 k AND NOT (imr (master_pic d)) \<noteq> (0 :: u8)"
  proof -
    have "bit (shl1 k AND NOT (imr (master_pic d))) k" using q(4) k8 by (simp add: bit_and_not)
    then show ?thesis by auto
  qed
  show "intr (raise_irq k d)" by (simp add: e)
  show "fst (IAC (raise_irq k d)) = of_nat k + interrupt_offset (master_pic d)"
    "isr (master_pic (snd (IAC (raise_irq k d)))) = shl1 k" "irr (master_pic (snd (IAC (raise_irq k d)))) = 0"
    "\<not> intr (snd (IAC (raise_irq k d)))"
    unfolding e using q nz k
    by (simp_all add: IAC_def Let_def take_edge pic_service_master_def decide_none)
qed


lemma deliver_slave:
  assumes i: "pic_inv d" and r: "ready k (slave_pic d)" and r2: "ready 2 (master_pic d)"
  shows "intr (raise_irq (8 + k) d)" "fst (IAC (raise_irq (8 + k) d)) = of_nat k + interrupt_offset (slave_pic d)"
    "isr (slave_pic (snd (IAC (raise_irq (8 + k) d)))) = shl1 k"
    "isr (master_pic (snd (IAC (raise_irq (8 + k) d)))) = shl1 2"
    "\<not> intr (snd (IAC (raise_irq (8 + k) d)))"
proof -
  have k8: "k < 8" using r by (simp add: ready_def)
  let ?d1 = "raise_line False (shl1 k) (forward_ioapic (8 + k) True d)"
  let ?d2 = "upd_pic False (\<lambda>p. p\<lparr>INT_pin := True, irq := k\<rparr>) ?d1"
  have sl: "pic_decide (slave_pic ?d1) = Signal k"
    using r pic_invD(2) [OF i] by (intro decide_single [of False]) (simp_all add: ready_def quiet_def raise_line_def)
  have m: "raise_irq_master 2 ?d2 = (upd_pic True (\<lambda>p. p\<lparr>IRQ_in := IRQ_in p OR shl1 2, irr := shl1 2,
      INT_pin := True, irq := 2\<rparr>) ?d2)\<lparr>intr := True\<rparr>"
    using raise_ready_master [of ?d2 2] pic_invD(1) [OF i] r2 by (simp add: raise_line_def forward_ioapic_def)
  have e: "raise_irq (8 + k) d = (upd_pic True (\<lambda>p. p\<lparr>IRQ_in := IRQ_in p OR shl1 2, irr := shl1 2,
      INT_pin := True, irq := 2\<rparr>) ?d2)\<lparr>intr := True\<rparr>"
    using sl m r k8 by (simp add: raise_irq_def Let_def pic_service_slave_def ready_def)
  have q: "edge_level (master_pic d) = 0" "\<not> auto_eoi (master_pic d)" "isr (master_pic d) = 0"
    "edge_level (slave_pic d) = 0" "\<not> auto_eoi (slave_pic d)" "isr (slave_pic d) = 0" "irr (slave_pic d) = 0"
    using r r2 by (simp_all add: ready_def quiet_def)
  have nz: "shl1 2 AND NOT (imr (master_pic d)) \<noteq> (0 :: u8)" "shl1 k AND NOT (imr (slave_pic d)) \<noteq> (0 :: u8)"
  proof -
    have "bit (shl1 2 AND NOT (imr (master_pic d))) 2" "bit (shl1 k AND NOT (imr (slave_pic d))) k"
      using r r2 k8 by (simp_all add: bit_and_not ready_def)
    then show "shl1 2 AND NOT (imr (master_pic d)) \<noteq> (0 :: u8)" "shl1 k AND NOT (imr (slave_pic d)) \<noteq> (0 :: u8)"
      by auto
  qed
  show "intr (raise_irq (8 + k) d)" by (simp add: e)
  show "fst (IAC (raise_irq (8 + k) d)) = of_nat k + interrupt_offset (slave_pic d)"
    "isr (slave_pic (snd (IAC (raise_irq (8 + k) d)))) = shl1 k"
    "isr (master_pic (snd (IAC (raise_irq (8 + k) d)))) = shl1 2"
    "\<not> intr (snd (IAC (raise_irq (8 + k) d)))"
    unfolding e using q nz
    by (simp_all add: IAC_def Let_def take_edge pic_service_master_def pic_service_slave_def decide_none raise_line_def)
qed

section \<open>The initialisation sequence\<close>

text \<open>ICW1 with ICW4 needed, ICW2, the ICW3 the machine is wired for, ICW4 for 80x86.\<close>

definition program_pic :: "bool \<Rightarrow> u32 \<Rightarrow> pic_dev \<Rightarrow> pic_dev" where
  "program_pic m offset d =
     (let port = (if m then 0x20 else 0xA0) in
      pic_write (port + 1) 0x01 (pic_write (port + 1) (if m then 0x04 else 0x02)
        (pic_write (port + 1) offset (pic_write port 0x11 d))))"

lemma write_ICW1_11:
  "write_ICW1 m 0x11 d = (let d = upd_pic m (\<lambda>p. p\<lparr>in_init := True, requires_4 := True, byte_expected := 2,
                 imr := 0x00, isr := 0x00, irr := 0x00, lowest_priority := 7, auto_eoi := False,
                 rotate_on_autoeoi := False, INT_pin := False\<rparr>) d
      in if master (get_pic m d) then d\<lparr>intr := False\<rparr>
         else upd_pic True (\<lambda>p. p\<lparr>IRQ_in := IRQ_in p AND NOT (shl1 2)\<rparr>) d)"
  by (simp add: write_ICW1_def tst_def)

lemma program_pic_result:
  fixes m :: bool and offset :: u32
  assumes "pic_inv d"
  defines "p \<equiv> get_pic m (program_pic m offset d)"
  shows "interrupt_offset p = ucast (offset AND 0xf8)" "\<not> in_init p" "imr p = 0" "isr p = 0" "irr p = 0"
    "\<not> auto_eoi p" "lowest_priority p = 7" "\<not> INT_pin p" "panics (program_pic m offset d) = panics d"
proof -
  define ini where "ini = (\<lambda>p :: bx_pic_t. p\<lparr>in_init := True, requires_4 := True, byte_expected := 2,
                 imr := 0x00, isr := 0x00, irr := 0x00, lowest_priority := 7, auto_eoi := False,
                 rotate_on_autoeoi := False, INT_pin := False\<rparr>)"
  define q where "q = ini (get_pic m d)"
  have ms: "master (master_pic d)" "\<not> master (slave_pic d)"
    using pic_invD(1,2) [OF assms(1)] by (simp_all add: pic_ok_def)
  have "get_pic m (program_pic m offset d) = q\<lparr>interrupt_offset := ucast (offset AND 0xf8),
      byte_expected := 4, auto_eoi := False, in_init := False\<rparr> \<and> panics (program_pic m offset d) = panics d"
    using ms by (cases m) (simp_all add: program_pic_def pic_write_def write_ICW1_11 write_init_def Let_def
        tst_def q_def ini_def)
  then show "interrupt_offset p = ucast (offset AND 0xf8)" "\<not> in_init p" "imr p = 0" "isr p = 0" "irr p = 0"
    "\<not> auto_eoi p" "lowest_priority p = 7" "\<not> INT_pin p" "panics (program_pic m offset d) = panics d"
    by (simp_all add: p_def q_def ini_def)
qed

section \<open>Properties\<close>

text \<open>C3: A controller signals the interrupt line that is requested, not masked and not blocked
  by the lines in service, and among those the one of highest rotating priority; it signals
  nothing when there is no such line or when its request pin is already high.\<close>

theorem pic_priority_resolution:
  assumes "pic_inv d"
  shows "pic_decide (get_pic m d) = Signal k \<longleftrightarrow> \<not> INT_pin (get_pic m d) \<and> k < 8 \<and> eligible (get_pic m d) k \<and>
     (\<forall>j < 8. eligible (get_pic m d) j \<longrightarrow>
        prio (lowest_priority (get_pic m d)) k \<le> prio (lowest_priority (get_pic m d)) j)"
  using pic_okD(2) [OF pic_inv_ok [OF assms]] by (rule pic_decide_Signal)

theorem pic_priority_resolution_witness:
  "pic_decide (get_pic True (init_pics True)) = Signal 3 \<longleftrightarrow> \<not> INT_pin (get_pic True (init_pics True)) \<and> (3::nat) < 8
     \<and> eligible (get_pic True (init_pics True)) 3 \<and>
     (\<forall>j < 8. eligible (get_pic True (init_pics True)) j \<longrightarrow>
        prio (lowest_priority (get_pic True (init_pics True))) 3 \<le> prio (lowest_priority (get_pic True (init_pics True))) j)"
  by (rule pic_priority_resolution [OF init_pics_inv])

text \<open>C8: Whatever the devices, the CPU and the guest do, the INTR line of the CPU is the request
  pin of the master, the cascade line of the master is the request pin of the slave, priorities
  and line numbers stay below 8, and vectors start at multiples of 8.\<close>

theorem pic_invariant_reachable:
  assumes "pic_step\<^sup>*\<^sup>* (init_pics apic) d"
  shows "pic_inv d"
  using pic.reachable_inv assms by blast

theorem pic_invariant_reachable_witness:
  "pic_inv (snd (IAC (raise_irq 1 (pic_write 0x21 0x00 (init_pics True)))))"
proof (rule pic_invariant_reachable)
  have "pic_step (init_pics True) (pic_write 0x21 0x00 (init_pics True))" by (rule Write)
  moreover have "pic_step (pic_write 0x21 0x00 (init_pics True)) (raise_irq 1 (pic_write 0x21 0x00 (init_pics True)))"
    by (rule Raise) simp
  moreover have "pic_step (raise_irq 1 (pic_write 0x21 0x00 (init_pics True)))
      (snd (IAC (raise_irq 1 (pic_write 0x21 0x00 (init_pics True)))))" by (rule Ack)
  ultimately show "pic_step\<^sup>*\<^sup>* (init_pics True) (snd (IAC (raise_irq 1 (pic_write 0x21 0x00 (init_pics True)))))"
    by (meson converse_rtranclp_into_rtranclp r_into_rtranclp)
qed


lemma ready_after_unmask: "ready k (master_pic (pic_write 0x21 0x00 (init_pics True))) \<longleftrightarrow> k < 8"
  by (simp add: pic_write_def init_pics_def pic_init_def Let_def pic_service_def pic_service_master_def
      decide_none ready_def quiet_def get_pic_def upd_pic_def)



lemma ready_both: "ready 4 (slave_pic (pic_write 0xA1 0x00 (pic_write 0x21 0x00 (init_pics True))))"
  "ready 2 (master_pic (pic_write 0xA1 0x00 (pic_write 0x21 0x00 (init_pics True))))"
  by (simp_all add: pic_write_def init_pics_def pic_init_def Let_def pic_service_def pic_service_master_def
      pic_service_slave_def decide_none ready_def quiet_def get_pic_def upd_pic_def)


text \<open>The non-specific end of interrupt clears exactly the in-service bit of highest rotating
  priority, and nothing when no line is in service.\<close>

theorem pic_end_of_interrupt:
  assumes "pic_inv d"
  shows "isr (get_pic m d) = 0 \<and> clear_highest_interrupt (get_pic m d) = get_pic m d \<or>
    (\<exists>k < 8. bit (isr (get_pic m d)) k \<and> (\<forall>j < 8. bit (isr (get_pic m d)) j \<longrightarrow>
        prio (lowest_priority (get_pic m d)) k \<le> prio (lowest_priority (get_pic m d)) j)
      \<and> clear_highest_interrupt (get_pic m d) = (get_pic m d)\<lparr>isr := isr (get_pic m d) AND NOT (shl1 k)\<rparr>)"
proof -
  define p where "p = get_pic m d"
  have lo: "lowest_priority p < 8" using pic_okD(2) [OF pic_inv_ok [OF assms]] by (simp add: p_def)
  show ?thesis unfolding p_def [symmetric]
  proof (cases "isr p = 0")
    case False
    then obtain i where i: "i < 8" "bit (isr p) (line_at (lowest_priority p) i)"
      "\<And>j. j < i \<Longrightarrow> \<not> bit (isr p) (line_at (lowest_priority p) j)"
      using bits_by_lines [OF lo] exists_least_iff [of "\<lambda>i. i < 8 \<and> bit (isr p) (line_at (lowest_priority p) i)"]
      by (metis less_trans)
    have least: "prio (lowest_priority p) (line_at (lowest_priority p) i) \<le> prio (lowest_priority p) j"
      if "j < 8" "bit (isr p) j" for j
      using i(3) [of "prio (lowest_priority p) j"] that
      by (simp add: prio_line_at [OF lo i(1)] line_at_prio [OF lo] not_less [symmetric]) blast
    show "isr p = 0 \<and> clear_highest_interrupt p = p \<or> (\<exists>k < 8. bit (isr p) k \<and> (\<forall>j < 8. bit (isr p) j \<longrightarrow>
        prio (lowest_priority p) k \<le> prio (lowest_priority p) j)
      \<and> clear_highest_interrupt p = p\<lparr>isr := isr p AND NOT (shl1 k)\<rparr>)"
      using clear_highest_spec(2) [OF lo _ i(2) least] i(2) least by (intro disjI2 exI [of _ "line_at (lowest_priority p) i"]) simp
  qed (use clear_highest_spec(1) [OF lo] in simp)
qed

theorem pic_end_of_interrupt_witness:
  "isr (get_pic False (init_pics True)) = 0 \<and> clear_highest_interrupt (get_pic False (init_pics True)) = get_pic False (init_pics True) \<or>
    (\<exists>k < 8. bit (isr (get_pic False (init_pics True))) k \<and> (\<forall>j < 8. bit (isr (get_pic False (init_pics True))) j \<longrightarrow>
        prio (lowest_priority (get_pic False (init_pics True))) k \<le> prio (lowest_priority (get_pic False (init_pics True))) j)
      \<and> clear_highest_interrupt (get_pic False (init_pics True)) = (get_pic False (init_pics True))\<lparr>isr := isr (get_pic False (init_pics True)) AND NOT (shl1 k)\<rparr>)"
  by (rule pic_end_of_interrupt [OF init_pics_inv])

text \<open>The four initialisation words program the controller they are written to: the vector
  base is ICW2 without its low three bits, every register is cleared, the controller leaves the
  initialisation mode and nothing is reported.\<close>

theorem pic_initialisation:
  assumes "pic_inv d"
  shows "interrupt_offset (get_pic m (program_pic m offset d)) = ucast (offset AND 0xf8)
    \<and> \<not> in_init (get_pic m (program_pic m offset d)) \<and> imr (get_pic m (program_pic m offset d)) = 0
    \<and> isr (get_pic m (program_pic m offset d)) = 0 \<and> irr (get_pic m (program_pic m offset d)) = 0
    \<and> \<not> INT_pin (get_pic m (program_pic m offset d)) \<and> panics (program_pic m offset d) = panics d"
  using program_pic_result [OF assms] by blast

theorem pic_initialisation_witness:
  "interrupt_offset (get_pic False (program_pic False 0x7B (init_pics True))) = 0x78"
  using pic_initialisation [OF init_pics_inv, of False "0x7B" True] by simp

end
