(* ===== verification/Apic_System.thy ===== *)
theory Apic_System
  imports Apic_Priority Ioapic Pic
begin

text \<open>
  The interrupt path of a machine with APICs: the I/O APIC of \<open>Ioapic\<close> on the bus of \<open>Lapic\<close> and the
  8259A pair of \<open>Pic\<close>, and the acknowledge of the CPU (src/cpu/event.cc). A request on a pin of the
  I/O APIC is followed to the processor and back through the end of interrupt.
\<close>

section \<open>Wiring\<close>

definition system_bus :: "apic_cfg \<Rightarrow> (lapic list \<times> pic_dev) apic_bus" where
  "system_bus g = \<lparr>deliver = (\<lambda>v d m l p t (apics, pics).
       let (accepted, apics) = apic_bus_deliver_interrupt g v (ucast d) m l p t apics in (accepted, (apics, pics))),
     pic_iac = (\<lambda>(apics, pics). let (v, pics) = IAC pics in (v, (apics, pics)))\<rparr>"

definition interrupt_acknowledge :: "lapic \<times> pic_dev \<Rightarrow> u8 \<times> (lapic \<times> pic_dev)" where
  "interrupt_acknowledge = (\<lambda>(a, d).
     if lapic_intr a then let (vector, a) = acknowledge_int a in (vector, (a, d))
     else let (vector, d) = IAC d in (vector, (a, d)))"

section \<open>One request\<close>

text \<open>With a single pending pin a pass of the I/O APIC serves that pin only, on any bus.\<close>

lemma idle_pins:
  "(\<And>j. j \<in> set ks \<Longrightarrow> \<not> pending s j) \<Longrightarrow> fold (service_pin B) ks (s, e) = (s, e)"
  by (induction ks) (auto simp: service_pin_def pending_def Let_def)

lemma other_pins: "service_pin B k (s, e) = (s', e') \<Longrightarrow> j \<noteq> k \<Longrightarrow> pending s' j = pending s j"
  by (auto simp: service_pin_def pending_def upd_entry_def Let_def bit_and_not_shl1 split: prod.splits if_splits)

lemma service_one:
  assumes "k < 24" "\<And>j. j < 24 \<Longrightarrow> j \<noteq> k \<Longrightarrow> \<not> pending s j"
  shows "service_ioapic B (s, e) = service_pin B k (s, e)"
proof -
  have split: "[0..<BX_IOAPIC_NUM_PINS] = [0..<k] @ k # [Suc k..<24]"
    using assms(1) upt_add_eq_append [of 0 k "24 - k"] by (simp add: BX_IOAPIC_NUM_PINS_def upt_conv_Cons)
  obtain s' e' where p: "service_pin B k (s, e) = (s', e')" by fastforce
  have "fold (service_pin B) [0..<k] (s, e) = (s, e)" by (rule idle_pins) (use assms in auto)
  moreover have "fold (service_pin B) [Suc k..<24] (s', e') = (s', e')"
    by (rule idle_pins) (use assms(2) other_pins [OF p] in auto)
  ultimately show ?thesis by (simp add: service_ioapic_def split p)
qed

text \<open>A redirection entry that sends a fixed interrupt to one APIC by its identifier.\<close>

definition sends_to :: "apic_cfg \<Rightarrow> lapic list \<Rightarrow> nat \<Rightarrow> bx_io_redirect_entry_t \<Rightarrow> bool" where
  "sends_to g apics i r \<longleftrightarrow> \<not> is_masked r \<and> delivery_mode r = 0 \<and> destination_mode r = 0
     \<and> ucast (destination r) AND apic_id_mask g \<noteq> apic_id_mask g
     \<and> List.find (\<lambda>j. lapic_id (apics ! j) = ucast (destination r)) [0..<length apics] = Some i"

lemma deliver_fixed:
  assumes "sends_to g apics i r"
  shows "deliver (system_bus g) v (destination r) (delivery_mode r) (destination_mode r \<noteq> 0) p t (apics, d)
    = (True, (on_apic i (trigger_irq v t) apics, d))"
  using assms by (simp add: sends_to_def system_bus_def apic_bus_deliver_interrupt_def deliver_to_def lapic_deliver_def)

lemma raise_pin:
  assumes "0 < k" "k < 24" "\<not> bit (intin s) k" "\<And>j. j < 24 \<Longrightarrow> j \<noteq> k \<Longrightarrow> \<not> pending s j"
    and "sends_to g apics i (ioredtbl s k)"
  shows "\<exists>s'. set_irq_level (system_bus g) k True (s, (apics, d))
      = (s', (on_apic i (trigger_irq (red_vector (ioredtbl s k)) (trigger_mode (ioredtbl s k) \<noteq> 0)) apics, d))
    \<and> (bit (io_irr s') k \<longleftrightarrow> trigger_mode (ioredtbl s k) \<noteq> 0)"
proof -
  let ?r = "ioredtbl s k"
  let ?s = "s\<lparr>intin := intin s OR shl1 k, io_irr := io_irr s OR shl1 k\<rparr>"
  have k: "k \<noteq> 0" "k < 32" using assms(1,2) by simp_all
  have "intin s AND shl1 k = 0" using assms(3) and_eq_0_iff_bits [of "intin s" "shl1 k"] by auto
  moreover have "(shl1 k :: u32) \<noteq> 0" using k(2) bit_shl1 [of k k, where 'a = 32] by force
  ultimately have new: "push_bit k (of_bool True) \<noteq> intin s AND shl1 k" by (simp add: shl1_def)
  have m: "\<not> is_masked ?r" using assms(5) by (simp add: sends_to_def)
  have e: "set_irq_level (system_bus g) k True (s, (apics, d)) = service_ioapic (system_bus g) (?s, (apics, d))"
    using k assms(2) new m by (simp add: set_irq_level_def Let_def BX_IOAPIC_NUM_PINS_def)
  have "service_ioapic (system_bus g) (?s, (apics, d)) = service_pin (system_bus g) k (?s, (apics, d))"
    using assms(2,4) by (intro service_one) (auto simp: pending_def)
  moreover have "delivery_mode ?r \<noteq> 7" using assms(5) by (simp add: sends_to_def)
  ultimately show ?thesis
    using m deliver_fixed [OF assms(5)] k unfolding e
    by (auto simp: service_pin_def upd_entry_def Let_def)
qed

section \<open>Properties\<close>

text \<open>C13: The way of an interrupt through the APICs. An unmasked redirection entry sends a fixed interrupt to one idle local APIC whose task priority lets the vector through; its pin goes high while no other request of the I/O APIC is waiting. Then the acknowledge cycle of that CPU returns the programmed vector and puts exactly it in service, without touching the 8259A pair; the end of interrupt leaves the APIC idle, with its line down, and tells the I/O APICs exactly when the pin is level-triggered, in which case the request stays latched there.\<close>

theorem interrupt_path:
  assumes "0 < k" "k < 24" "\<not> bit (intin s) k" "\<And>j. j < 24 \<Longrightarrow> j \<noteq> k \<Longrightarrow> \<not> pending s j"
    and "sends_to g apics i (ioredtbl s k)" "quiet_lapic (apics ! i)" "16 \<le> red_vector (ioredtbl s k)"
    and "unat (task_priority (apics ! i)) div 16 < unat (red_vector (ioredtbl s k)) div 16"
    and "red_vector (ioredtbl s k) \<noteq> spurious_vector (apics ! i)"
  shows "let v = red_vector (ioredtbl s k); level = (trigger_mode (ioredtbl s k) \<noteq> 0);
             (s', (apics', d')) = set_irq_level (system_bus g) k True (s, (apics, d));
             (w, (a, d'')) = interrupt_acknowledge (apics' ! i, d');
             b = receive_EOI a
         in w = v \<and> in_service a = {unat v} \<and> \<not> lapic_intr a \<and> d'' = d
            \<and> requests b = {} \<and> in_service b = {} \<and> \<not> lapic_intr b
            \<and> lapic_calls b = lapic_calls (apics ! i) @ (if level then [Broadcast_eoi v] else [])
            \<and> (bit (io_irr s') k \<longleftrightarrow> level)"
proof -
  let ?v = "red_vector (ioredtbl s k)" and ?t = "trigger_mode (ioredtbl s k) \<noteq> 0"
  have i: "i < length apics" using assms(5) by (auto simp: sends_to_def find_Some_iff)
  obtain s' where s': "set_irq_level (system_bus g) k True (s, (apics, d)) = (s', (on_apic i (trigger_irq ?v ?t) apics, d))"
    "bit (io_irr s') k \<longleftrightarrow> ?t" using raise_pin [OF assms(1-5)] by blast
  have a: "on_apic i (trigger_irq ?v ?t) apics ! i = trigger_irq ?v ?t (apics ! i)" using i by (simp add: on_apic_def)
  note q = trigger_quiet(2) [OF assms(6-8), of ?t] and c = interrupt_cycle [OF assms(6-9), of ?t]
  show ?thesis
    using c s'(2) by (simp add: Let_def s'(1) a interrupt_acknowledge_def q split_beta)
qed

theorem interrupt_path_witness:
  "let (s', (apics', d)) = set_irq_level (system_bus \<lparr>apic_id_mask = 0xff, isa_xapic_ext = False, isa_tsc_deadline = True\<rparr>) 5 True
       (demo_ioapic\<lparr>intin := 0, io_irr := 0\<rparr>, ([new_lapic], init_pics True))
   in fst (interrupt_acknowledge (apics' ! 0, d)) = 0x31"
proof -
  let ?s = "demo_ioapic\<lparr>intin := 0, io_irr := 0\<rparr>" and ?g = "\<lparr>apic_id_mask = 0xff, isa_xapic_ext = False, isa_tsc_deadline = True\<rparr>"
  have r: "ioredtbl ?s 5 = \<lparr>red_hi = 0, red_lo = 0x8031\<rparr>" by (simp add: demo_ioapic_def)
  have v: "red_vector (ioredtbl ?s 5) = 0x31" unfolding r red_vector_def by code_simp
  have "(0 :: nat) < 5" "(5 :: nat) < 24" "\<not> bit (intin ?s) 5" "\<And>j. j < 24 \<Longrightarrow> j \<noteq> 5 \<Longrightarrow> \<not> pending ?s j"
    by (simp_all add: pending_def)
  moreover have "sends_to ?g [new_lapic] 0 (ioredtbl ?s 5)"
    unfolding r by (simp add: sends_to_def is_masked_def delivery_mode_def destination_mode_def destination_def new_lapic_fields)
  moreover have "quiet_lapic ([new_lapic] ! 0)" by (simp add: new_lapic_quiet)
  moreover have "16 \<le> red_vector (ioredtbl ?s 5)" "unat (task_priority ([new_lapic] ! 0)) div 16 < unat (red_vector (ioredtbl ?s 5)) div 16"
    "red_vector (ioredtbl ?s 5) \<noteq> spurious_vector ([new_lapic] ! 0)" unfolding v by (simp_all add: new_lapic_fields)
  ultimately show ?thesis
    using interrupt_path [of 5 ?s ?g "[new_lapic]" 0 "init_pics True"] unfolding v by (auto simp: Let_def split_beta)
qed

end
