(* ===== verification/Pit82c54.thy ===== *)
theory Pit82c54
  imports Bochs_Prelude
begin

text \<open>
  The 82C54 interval timer of iodev/pit82c54.cc and pit82c54.h: three counters, each with its mode
  machine (\<open>clock\<close>), the accelerated \<open>clock_multiple\<close> that jumps over the clocks at which nothing but the
  count changes, the read and write ports with their latches, and the gate inputs. The callback of
  an OUT pin is the flag \<open>out_handler\<close> (registered or not); its calls are recorded in \<open>out_calls\<close>.
  Messages to the log are left out, and with them \<open>seen_problems\<close>, which nothing else reads.
\<close>

section \<open>State\<close>

datatype rw_status = LSByte | MSByte | LSByte_multiple | MSByte_multiple

definition MAX_COUNTER :: nat where "MAX_COUNTER = 2"
definition MAX_ADDRESS :: nat where "MAX_ADDRESS = 3"
definition CONTROL_ADDRESS :: nat where "CONTROL_ADDRESS = 3"

record counter_type =
  GATE :: bool
  OUTpin :: bool
  ct_count :: u32
  outlatch :: u16
  inlatch :: u16
  status_latch :: u8
  rw_mode :: u8
  ct_mode :: u8
  bcd_mode :: bool
  null_count :: bool
  count_LSB_latched :: bool
  count_MSB_latched :: bool
  status_latched :: bool
  count_binary :: u32
  triggerGATE :: bool
  write_state :: rw_status
  read_state :: rw_status
  count_written :: bool
  first_pass :: bool
  state_bit_1 :: bool
  state_bit_2 :: bool
  next_change_time :: u32
  out_handler :: bool
  out_calls :: "bool list"

record pit_82C54 =
  counter :: "nat \<Rightarrow> counter_type"
  controlword :: u8

definition upd_counter :: "nat \<Rightarrow> (counter_type \<Rightarrow> counter_type) \<Rightarrow> pit_82C54 \<Rightarrow> pit_82C54" where
  "upd_counter k f p = p\<lparr>counter := (counter p)(k := f (counter p k))\<rparr>"

section \<open>Helpers\<close>

definition set_OUT :: "bool \<Rightarrow> counter_type \<Rightarrow> counter_type" where
  "set_OUT data c =
     (if OUTpin c \<noteq> data
      then let c = c\<lparr>OUTpin := data\<rparr>
           in if out_handler c then c\<lparr>out_calls := out_calls c @ [data]\<rparr> else c
      else c)"

definition latch_counter :: "counter_type \<Rightarrow> counter_type" where
  "latch_counter c =
     (if count_LSB_latched c \<or> count_MSB_latched c then c
      else case read_state c of
             MSByte \<Rightarrow> c\<lparr>outlatch := ucast (ct_count c AND 0xFFFF), count_MSB_latched := True\<rparr>
           | LSByte \<Rightarrow> c\<lparr>outlatch := ucast (ct_count c AND 0xFFFF), count_LSB_latched := True\<rparr>
           | LSByte_multiple \<Rightarrow> c\<lparr>outlatch := ucast (ct_count c AND 0xFFFF), count_LSB_latched := True,
               count_MSB_latched := True\<rparr>
           | MSByte_multiple \<Rightarrow> c\<lparr>read_state := LSByte_multiple, outlatch := ucast (ct_count c AND 0xFFFF),
               count_LSB_latched := True, count_MSB_latched := True\<rparr>)"

definition set_count_to_binary :: "counter_type \<Rightarrow> counter_type" where
  "set_count_to_binary c =
     (if bcd_mode c
      then c\<lparr>ct_count := ((push_bit 0 ((count_binary c div 1) mod 10) OR
                          push_bit 4 ((count_binary c div 10) mod 10)) OR
                          push_bit 8 ((count_binary c div 100) mod 10)) OR
                          push_bit 12 ((count_binary c div 1000) mod 10)\<rparr>
      else c\<lparr>ct_count := count_binary c\<rparr>)"

definition set_binary_to_count :: "counter_type \<Rightarrow> counter_type" where
  "set_binary_to_count c =
     (if bcd_mode c
      then c\<lparr>count_binary := 1 * (drop_bit 0 (ct_count c) AND 0xF) + 10 * (drop_bit 4 (ct_count c) AND 0xF)
               + 100 * (drop_bit 8 (ct_count c) AND 0xF) + 1000 * (drop_bit 12 (ct_count c) AND 0xF)\<rparr>
      else c\<lparr>count_binary := ct_count c\<rparr>)"

definition set_count :: "u32 \<Rightarrow> counter_type \<Rightarrow> counter_type" where
  "set_count data c = set_binary_to_count (c\<lparr>ct_count := data AND 0xFFFF\<rparr>)"

definition decrement :: "counter_type \<Rightarrow> counter_type" where
  "decrement c =
     (if ct_count c = 0
      then if bcd_mode c then c\<lparr>ct_count := 0x9999, count_binary := 9999\<rparr>
           else c\<lparr>ct_count := 0xFFFF, count_binary := 0xFFFF\<rparr>
      else set_count_to_binary (c\<lparr>count_binary := count_binary c - 1\<rparr>))"

function decrement_multiple :: "u32 \<Rightarrow> counter_type \<Rightarrow> counter_type" where
  "decrement_multiple cycles c =
     (if cycles = 0 then c
      else if cycles \<le> count_binary c
      then set_count_to_binary (c\<lparr>count_binary := count_binary c - cycles\<rparr>)
      else decrement_multiple (cycles - (count_binary c + 1))
             (decrement (set_count_to_binary (c\<lparr>count_binary := count_binary c - count_binary c\<rparr>))))"
  by pat_completeness auto

lemma cycles_decrease:
  assumes "\<not> cycles \<le> (b :: u32)"
  shows "unat (cycles - (b + 1)) < unat cycles"
proof -
  have b: "uint b < uint cycles" using assms by (simp add: word_less_def not_le)
  then have "uint (b + 1) = uint b + 1" using uint_lt2p [of cycles] by (subst uint_plus_exact) simp_all
  moreover from this b have "uint (cycles - (b + 1)) = uint cycles - (uint b + 1)" by (subst uint_minus_exact) simp_all
  moreover have "0 \<le> uint b" by simp
  ultimately have "uint (cycles - (b + 1)) < uint cycles" by linarith
  then show ?thesis by (simp only: unat_eq_nat_uint nat_less_eq_zless [OF unsigned_greater_eq])
qed

termination decrement_multiple
  by (relation "measure (\<lambda>(cycles, c). unat cycles)") (simp_all add: cycles_decrease)

declare decrement_multiple.simps [simp del]

section \<open>One clock\<close>

text \<open>The time of the next event of a count that was just loaded, in the modes that count to zero.\<close>

definition load_time :: "counter_type \<Rightarrow> u32" where
  "load_time c = (if count_binary c = 0 then 1 else count_binary c AND 0xFFFF)"

definition clock0 :: "counter_type \<Rightarrow> counter_type" where
  "clock0 c =
     (let c = (if count_written c
               then if null_count c
                    then let c = set_count (ucast (inlatch c)) c;
                             c = c\<lparr>next_change_time := (if GATE c then load_time c else 0)\<rparr>
                         in c\<lparr>null_count := False\<rparr>
                    else if GATE c \<and> write_state c \<noteq> MSByte_multiple
                         then let c = decrement c
                              in if \<not> OUTpin c
                                 then let c = c\<lparr>next_change_time := count_binary c AND 0xFFFF\<rparr>
                                      in if ct_count c = 0 then set_OUT True c else c
                                 else c\<lparr>next_change_time := 0\<rparr>
                         else c\<lparr>next_change_time := 0\<rparr>
               else c\<lparr>next_change_time := 0\<rparr>)
      in c\<lparr>triggerGATE := False\<rparr>)"

definition clock1 :: "counter_type \<Rightarrow> counter_type" where
  "clock1 c =
     (let c = (if count_written c
               then if triggerGATE c
                    then let c = set_count (ucast (inlatch c)) c;
                             c = c\<lparr>next_change_time := load_time c\<rparr>
                         in set_OUT False (c\<lparr>null_count := False\<rparr>)
                    else let c = decrement c
                         in if \<not> OUTpin c
                            then let c = c\<lparr>next_change_time := load_time c\<rparr>
                                 in if ct_count c = 0 then set_OUT True c else c
                            else c\<lparr>next_change_time := 0\<rparr>
               else c\<lparr>next_change_time := 0\<rparr>)
      in c\<lparr>triggerGATE := False\<rparr>)"

definition clock2 :: "counter_type \<Rightarrow> counter_type" where
  "clock2 c =
     (let c = (if count_written c
               then if triggerGATE c \<or> first_pass c
                    then let c = set_count (ucast (inlatch c)) c;
                             c = c\<lparr>next_change_time := (count_binary c - 1) AND 0xFFFF, null_count := False\<rparr>;
                             c = (if \<not> OUTpin c then set_OUT True c else c)
                         in c\<lparr>first_pass := False\<rparr>
                    else if GATE c
                         then let c = decrement c;
                                  c = c\<lparr>next_change_time := (count_binary c - 1) AND 0xFFFF\<rparr>
                              in if ct_count c = 1
                                 then (set_OUT False (c\<lparr>next_change_time := 1\<rparr>))\<lparr>first_pass := True\<rparr>
                                 else c
                         else c\<lparr>next_change_time := 0\<rparr>
               else c\<lparr>next_change_time := 0\<rparr>)
      in c\<lparr>triggerGATE := False\<rparr>)"

text \<open>Mode 3 in its parts: the next event after a load and after two decrements, the output at a load, and
  the end of a half period.\<close>

definition half_load_time :: "counter_type \<Rightarrow> u32" where
  "half_load_time c =
     (if \<not> OUTpin c \<or> \<not> state_bit_1 c
      then if count_binary c div 2 - 1 = 0 then 1 else (count_binary c div 2 - 1) AND 0xFFFF
      else if count_binary c div 2 = 0 then 1 else (count_binary c div 2) AND 0xFFFF)"

definition half_step_time :: "counter_type \<Rightarrow> u32" where
  "half_step_time c =
     (if \<not> OUTpin c \<or> \<not> state_bit_1 c then (count_binary c div 2 - 1) AND 0xFFFF
      else (count_binary c div 2) AND 0xFFFF)"

definition toggle_OUT :: "counter_type \<Rightarrow> counter_type" where
  "toggle_OUT c =
     (if \<not> OUTpin c then set_OUT True c
      else if OUTpin c \<and> \<not> first_pass c then set_OUT False c else c)"

definition half_end :: "counter_type \<Rightarrow> counter_type" where
  "half_end c =
     (let c = (if ct_count c = 0 then c\<lparr>state_bit_2 := True, next_change_time := 1\<rparr> else c)
      in if ct_count c = 2 \<and> (\<not> OUTpin c \<or> \<not> state_bit_1 c)
         then c\<lparr>state_bit_2 := True, next_change_time := 1\<rparr> else c)"

definition clock3 :: "counter_type \<Rightarrow> counter_type" where
  "clock3 c =
     (let c = (if count_written c
               then if (triggerGATE c \<or> first_pass c \<or> state_bit_2 c) \<and> GATE c
                    then let c = set_count (ucast (inlatch c) AND 0xFFFE) c;
                             c = c\<lparr>state_bit_1 := (inlatch c AND 1 \<noteq> 0)\<rparr>;
                             c = c\<lparr>next_change_time := half_load_time c\<rparr>;
                             c = toggle_OUT (c\<lparr>null_count := False\<rparr>)
                         in c\<lparr>state_bit_2 := False, first_pass := False\<rparr>
                    else if GATE c
                         then let c = decrement (decrement c)
                              in half_end (c\<lparr>next_change_time := half_step_time c\<rparr>)
                         else c\<lparr>next_change_time := 0\<rparr>
               else c\<lparr>next_change_time := 0\<rparr>)
      in c\<lparr>triggerGATE := False\<rparr>)"

definition clock4 :: "counter_type \<Rightarrow> counter_type" where
  "clock4 c =
     (let c = (if count_written c
               then let c = (if \<not> OUTpin c then set_OUT True c else c)
                    in if null_count c
                       then let c = set_count (ucast (inlatch c)) c;
                                c = c\<lparr>next_change_time := (if GATE c then load_time c else 0)\<rparr>
                            in c\<lparr>null_count := False, first_pass := True\<rparr>
                       else if GATE c
                            then let c = decrement c
                                 in if first_pass c
                                    then let c = c\<lparr>next_change_time := count_binary c AND 0xFFFF\<rparr>
                                         in if ct_count c = 0
                                            then (set_OUT False c)\<lparr>next_change_time := 1, first_pass := False\<rparr>
                                            else c
                                    else c\<lparr>next_change_time := 0\<rparr>
                            else c\<lparr>next_change_time := 0\<rparr>
               else c\<lparr>next_change_time := 0\<rparr>)
      in c\<lparr>triggerGATE := False\<rparr>)"

definition clock5 :: "counter_type \<Rightarrow> counter_type" where
  "clock5 c =
     (let c = (if count_written c
               then let c = (if \<not> OUTpin c then set_OUT True c else c)
                    in if triggerGATE c
                       then let c = set_count (ucast (inlatch c)) c;
                                c = c\<lparr>next_change_time := load_time c\<rparr>
                            in c\<lparr>null_count := False, first_pass := True\<rparr>
                       else let c = decrement c
                            in if first_pass c
                               then let c = c\<lparr>next_change_time := count_binary c AND 0xFFFF\<rparr>
                                    in if ct_count c = 0
                                       then (set_OUT False c)\<lparr>next_change_time := 1, first_pass := False\<rparr>
                                       else c
                               else c\<lparr>next_change_time := 0\<rparr>
               else c\<lparr>next_change_time := 0\<rparr>)
      in c\<lparr>triggerGATE := False\<rparr>)"

definition clock_counter :: "counter_type \<Rightarrow> counter_type" where
  "clock_counter c =
     (if ct_mode c = 0 then clock0 c
      else if ct_mode c = 1 then clock1 c
      else if ct_mode c = 2 then clock2 c
      else if ct_mode c = 3 then clock3 c
      else if ct_mode c = 4 then clock4 c
      else if ct_mode c = 5 then clock5 c
      else c\<lparr>next_change_time := 0, triggerGATE := False\<rparr>)"

definition clock :: "nat \<Rightarrow> pit_82C54 \<Rightarrow> pit_82C54" where
  "clock cnum p = (if cnum > MAX_COUNTER then p else upd_counter cnum clock_counter p)"

section \<open>Many clocks\<close>

text \<open>What happens to the count while no event is due.\<close>

definition idle_multiple :: "u32 \<Rightarrow> counter_type \<Rightarrow> counter_type" where
  "idle_multiple cycles c =
     (if count_written c
      then if ct_mode c = 0
           then if GATE c \<and> write_state c \<noteq> MSByte_multiple then decrement_multiple cycles c else c
           else if ct_mode c = 1 then decrement_multiple cycles c
           else if ct_mode c = 2 then if \<not> first_pass c \<and> GATE c then decrement_multiple cycles c else c
           else if ct_mode c = 3 then if \<not> first_pass c \<and> GATE c then decrement_multiple (2 * cycles) c else c
           else if ct_mode c = 4 then if GATE c then decrement_multiple cycles c else c
           else if ct_mode c = 5 then decrement_multiple cycles c
           else c
      else c)"

definition mode_steps :: "u8 \<Rightarrow> u32 \<Rightarrow> u32" where
  "mode_steps m cycles = (if m = 3 then cycles * 2 else cycles)"

function clock_multiple_counter :: "u32 \<Rightarrow> counter_type \<Rightarrow> counter_type" where
  "clock_multiple_counter cycles c =
     (if cycles = 0 then c
      else if next_change_time c = 0 then idle_multiple cycles c
      else if ct_mode c > 5 then c
      else if next_change_time c > cycles
      then (decrement_multiple (mode_steps (ct_mode c) cycles) c)\<lparr>next_change_time := next_change_time c - cycles\<rparr>
      else clock_multiple_counter (cycles - next_change_time c)
             (clock_counter (decrement_multiple (mode_steps (ct_mode c) (next_change_time c - 1)) c)))"
  by pat_completeness auto

lemma event_decrease:
  assumes "n \<noteq> 0" "\<not> n > (cycles :: u32)"
  shows "unat (cycles - n) < unat cycles"
proof -
  have n: "uint n \<le> uint cycles" "uint n \<noteq> 0" using assms by (auto simp: word_less_def not_less uint_0_iff)
  then have "uint (cycles - n) = uint cycles - uint n" by (subst uint_minus_exact) simp_all
  moreover have "0 \<le> uint n" by simp
  ultimately have "uint (cycles - n) < uint cycles" using n(2) by linarith
  then show ?thesis by (simp only: unat_eq_nat_uint nat_less_eq_zless [OF unsigned_greater_eq])
qed

termination clock_multiple_counter
  by (relation "measure (\<lambda>(cycles, c). unat cycles)") (simp_all add: event_decrease)

declare clock_multiple_counter.simps [simp del]

definition clock_multiple :: "nat \<Rightarrow> u32 \<Rightarrow> pit_82C54 \<Rightarrow> pit_82C54" where
  "clock_multiple cnum cycles p =
     (if cnum > MAX_COUNTER then p else upd_counter cnum (clock_multiple_counter cycles) p)"

definition clock_all :: "u32 \<Rightarrow> pit_82C54 \<Rightarrow> pit_82C54" where
  "clock_all cycles p = clock_multiple 2 cycles (clock_multiple 1 cycles (clock_multiple 0 cycles p))"

section \<open>Initialisation\<close>

definition counter_init :: "counter_type \<Rightarrow> counter_type" where
  "counter_init c = c\<lparr>read_state := LSByte, write_state := LSByte, GATE := True, OUTpin := True, triggerGATE := False,
     ct_mode := 4, first_pass := False, bcd_mode := False, ct_count := 0, count_binary := 0, state_bit_1 := False,
     state_bit_2 := False, null_count := False, rw_mode := 1, count_written := True, count_LSB_latched := False,
     count_MSB_latched := False, status_latched := False, next_change_time := 0, out_handler := False\<rparr>"

definition pit_chip_init :: "pit_82C54 \<Rightarrow> pit_82C54" where
  "pit_chip_init p = fold (\<lambda>i. upd_counter i counter_init) [0..<3] p"

definition pit_chip_reset :: "pit_82C54 \<Rightarrow> pit_82C54" where
  "pit_chip_reset p = p"

section \<open>The ports\<close>

definition read_counter :: "counter_type \<Rightarrow> u8 \<times> counter_type" where
  "read_counter c =
     (if status_latched c
      then if count_MSB_latched c \<and> read_state c = MSByte_multiple then (0, c)
           else (status_latch c, c\<lparr>status_latched := False\<rparr>)
      else if count_LSB_latched c
      then let c = (if read_state c = LSByte_multiple then c\<lparr>read_state := MSByte_multiple\<rparr> else c);
               c = c\<lparr>count_LSB_latched := False\<rparr>
           in (ucast (outlatch c AND 0xFF), c)
      else if count_MSB_latched c
      then let c = (if read_state c = MSByte_multiple then c\<lparr>read_state := LSByte_multiple\<rparr> else c);
               c = c\<lparr>count_MSB_latched := False\<rparr>
           in (ucast (drop_bit 8 (outlatch c) AND 0xFF), c)
      else if read_state c = LSByte \<or> read_state c = LSByte_multiple
      then (ucast (ct_count c AND 0xFF), if read_state c = LSByte_multiple then c\<lparr>read_state := MSByte_multiple\<rparr> else c)
      else (ucast (drop_bit 8 (ct_count c) AND 0xFF),
            if read_state c = MSByte_multiple then c\<lparr>read_state := LSByte_multiple\<rparr> else c))"

definition pit_chip_read :: "nat \<Rightarrow> pit_82C54 \<Rightarrow> u8 \<times> pit_82C54" where
  "pit_chip_read address p =
     (if address > MAX_ADDRESS then (0, p)
      else if address = CONTROL_ADDRESS then (0, p)
      else let (v, c) = read_counter (counter p address) in (v, upd_counter address (\<lambda>_. c) p))"

definition latch_status :: "counter_type \<Rightarrow> counter_type" where
  "latch_status c =
     (if status_latched c then c
      else c\<lparr>status_latch := (((push_bit 7 (of_bool (OUTpin c)) OR push_bit 6 (of_bool (null_count c))) OR
                push_bit 4 (rw_mode c AND 3)) OR push_bit 1 (ct_mode c AND 7)) OR of_bool (bcd_mode c),
             status_latched := True\<rparr>)"

definition read_back :: "u8 \<Rightarrow> counter_type \<Rightarrow> counter_type" where
  "read_back w c =
     (let c = (if drop_bit 5 w AND 1 = 0 then latch_counter c else c)
      in if drop_bit 4 w AND 1 = 0 then latch_status c else c)"

definition program_counter :: "u8 \<Rightarrow> u8 \<Rightarrow> u8 \<Rightarrow> counter_type \<Rightarrow> counter_type" where
  "program_counter RW M BCD c =
     (let c = c\<lparr>null_count := True, count_LSB_latched := False, count_MSB_latched := False, status_latched := False,
                inlatch := 0, count_written := False, first_pass := True, rw_mode := RW, bcd_mode := (BCD > 0),
                ct_mode := M\<rparr>;
          c = (if ct_mode c > 5 then c\<lparr>ct_mode := ct_mode c AND 3\<rparr> else c);
          c = (if RW = 1 then c\<lparr>read_state := LSByte, write_state := LSByte\<rparr>
               else if RW = 2 then c\<lparr>read_state := MSByte, write_state := MSByte\<rparr>
               else if RW = 3 then c\<lparr>read_state := LSByte_multiple, write_state := LSByte_multiple\<rparr>
               else c);
          c = (if M \<noteq> 0 then set_OUT True c else set_OUT False c)
      in c\<lparr>next_change_time := 0\<rparr>)"

definition write_counter :: "u8 \<Rightarrow> counter_type \<Rightarrow> counter_type" where
  "write_counter data c =
     (let c = (case write_state c of
                 LSByte_multiple \<Rightarrow> c\<lparr>inlatch := ucast data, write_state := MSByte_multiple, count_written := False\<rparr>
               | LSByte \<Rightarrow> c\<lparr>inlatch := ucast data, count_written := True\<rparr>
               | MSByte_multiple \<Rightarrow> c\<lparr>write_state := LSByte_multiple, inlatch := inlatch c OR push_bit 8 (ucast data),
                   count_written := True\<rparr>
               | MSByte \<Rightarrow> c\<lparr>inlatch := push_bit 8 (ucast data), count_written := True\<rparr>);
          c = (if count_written c then set_count (ucast (inlatch c)) (c\<lparr>null_count := True\<rparr>) else c)
      in if ct_mode c = 0
         then (if count_written c then set_OUT False c else c)\<lparr>next_change_time := 1\<rparr>
         else if ct_mode c = 1 then if triggerGATE c then c\<lparr>next_change_time := 1\<rparr> else c
         else if ct_mode c = 6 \<or> ct_mode c = 2 then c\<lparr>next_change_time := 1\<rparr>
         else if ct_mode c = 7 \<or> ct_mode c = 3 then c\<lparr>next_change_time := 1\<rparr>
         else if ct_mode c = 4 then c\<lparr>next_change_time := 1\<rparr>
         else if ct_mode c = 5 then if triggerGATE c then c\<lparr>next_change_time := 1\<rparr> else c
         else c)"

definition pit_chip_write :: "nat \<Rightarrow> u8 \<Rightarrow> pit_82C54 \<Rightarrow> pit_82C54" where
  "pit_chip_write address data p =
     (if address > MAX_ADDRESS then p
      else if address = CONTROL_ADDRESS
      then let p = p\<lparr>controlword := data\<rparr>;
               SC = drop_bit 6 data AND 3; RW = drop_bit 4 data AND 3; M = drop_bit 1 data AND 7; BCD = data AND 1
           in if SC = 3
              then fold (\<lambda>i p. if drop_bit i M AND 1 \<noteq> 0 then upd_counter i (read_back data) p else p)
                     [0..<MAX_COUNTER + 1] p
              else if RW = 0 then upd_counter (unat SC) latch_counter p
              else upd_counter (unat SC) (program_counter RW M BCD) p
      else upd_counter address (write_counter data) p)"

section \<open>The gate inputs and the outputs\<close>

definition set_gate_counter :: "bool \<Rightarrow> counter_type \<Rightarrow> counter_type" where
  "set_gate_counter data c =
     (if \<not> ((GATE c \<and> data) \<or> \<not> (GATE c \<or> data))
      then let c = c\<lparr>GATE := data\<rparr>;
               c = (if GATE c then c\<lparr>triggerGATE := True\<rparr> else c)
           in if ct_mode c = 0
              then if data \<and> count_written c
                   then if null_count c then c\<lparr>next_change_time := 1\<rparr>
                        else if \<not> OUTpin c \<and> write_state c \<noteq> MSByte_multiple then c\<lparr>next_change_time := load_time c\<rparr>
                        else c\<lparr>next_change_time := 0\<rparr>
                   else if null_count c then c\<lparr>next_change_time := 1\<rparr> else c\<lparr>next_change_time := 0\<rparr>
              else if ct_mode c = 1 then if data \<and> count_written c then c\<lparr>next_change_time := 1\<rparr> else c
              else if ct_mode c = 2
              then if \<not> data then (set_OUT True c)\<lparr>next_change_time := 0\<rparr>
                   else c\<lparr>next_change_time := (if count_written c then 1 else 0)\<rparr>
              else if ct_mode c = 3
              then if \<not> data then (set_OUT True c)\<lparr>first_pass := True, next_change_time := 0\<rparr>
                   else c\<lparr>next_change_time := (if count_written c then 1 else 0)\<rparr>
              else if ct_mode c = 4
              then if \<not> OUTpin c \<or> null_count c then c\<lparr>next_change_time := 1\<rparr>
                   else if data \<and> count_written c
                   then c\<lparr>next_change_time := (if first_pass c then load_time c else 0)\<rparr>
                   else c\<lparr>next_change_time := 0\<rparr>
              else if ct_mode c = 5 then if data \<and> count_written c then c\<lparr>next_change_time := 1\<rparr> else c
              else c
      else c)"

definition set_GATE :: "nat \<Rightarrow> bool \<Rightarrow> pit_82C54 \<Rightarrow> pit_82C54" where
  "set_GATE cnum data p = (if cnum > MAX_COUNTER then p else upd_counter cnum (set_gate_counter data) p)"

definition read_OUT :: "nat \<Rightarrow> pit_82C54 \<Rightarrow> bool" where
  "read_OUT cnum p = (if cnum > MAX_COUNTER then False else OUTpin (counter p cnum))"

definition read_GATE :: "nat \<Rightarrow> pit_82C54 \<Rightarrow> bool" where
  "read_GATE cnum p = (if cnum > MAX_COUNTER then False else GATE (counter p cnum))"

definition get_clock_event_time :: "nat \<Rightarrow> pit_82C54 \<Rightarrow> u32" where
  "get_clock_event_time cnum p = (if cnum > MAX_COUNTER then 0 else next_change_time (counter p cnum))"

definition get_next_event_time :: "pit_82C54 \<Rightarrow> u32" where
  "get_next_event_time p =
     (let time0 = get_clock_event_time 0 p; time1 = get_clock_event_time 1 p; time2 = get_clock_event_time 2 p;
          out = time0;
          out = (if time1 \<noteq> 0 \<and> time1 < out then time1 else out)
      in if time2 \<noteq> 0 \<and> time2 < out then time2 else out)"

definition get_inlatch :: "nat \<Rightarrow> pit_82C54 \<Rightarrow> u16" where "get_inlatch k p = inlatch (counter p k)"
definition get_mode :: "nat \<Rightarrow> pit_82C54 \<Rightarrow> u8" where "get_mode k p = ct_mode (counter p k)"
definition new_count_ready :: "nat \<Rightarrow> pit_82C54 \<Rightarrow> bool" where
  "new_count_ready k p \<longleftrightarrow> write_state (counter p k) \<noteq> MSByte_multiple"

definition set_OUT_handler :: "nat \<Rightarrow> bool \<Rightarrow> pit_82C54 \<Rightarrow> pit_82C54" where
  "set_OUT_handler k outh p = upd_counter k (\<lambda>c. c\<lparr>out_handler := outh\<rparr>) p"

end
