(* ===== verification/Pit_Clock.thy ===== *)
theory Pit_Clock
  imports Pit82c54
begin

text \<open>
  What the clock of the 82C54 counters does over time.  A count is a binary number or four decimal
  digits, and \<open>decrement\<close> is the predecessor modulo its size in both.  \<open>pit_sync\<close> relates the state of a
  running counter to the time of its next event, mode by mode; it is kept by \<open>clock\<close>, and it makes
  \<open>clock_multiple\<close>, which jumps over the clocks without an event, equal to that many single clocks.  The
  argument is the locale \<open>event_clock\<close>, which is interpreted on the counters.  Two properties concern the ports: a latched count and the next event.
\<close>

section \<open>Counts in binary and in decimal\<close>

definition bcd_of :: "u32 \<Rightarrow> u32" where
  "bcd_of b = ((push_bit 0 ((b div 1) mod 10) OR push_bit 4 ((b div 10) mod 10)) OR push_bit 8 ((b div 100) mod 10)) OR
     push_bit 12 ((b div 1000) mod 10)"

definition max_count :: "counter_type \<Rightarrow> u32" where
  "max_count c = (if bcd_mode c then 9999 else 0xFFFF)"

definition at_count :: "u32 \<Rightarrow> counter_type \<Rightarrow> counter_type" where
  "at_count b c = c\<lparr>count_binary := b, ct_count := (if bcd_mode c then bcd_of b else b)\<rparr>"

definition counted :: "counter_type \<Rightarrow> bool" where
  "counted c \<longleftrightarrow> count_binary c \<le> max_count c \<and> ct_count c = (if bcd_mode c then bcd_of (count_binary c) else count_binary c)"

lemma or_disjoint_sum:
  fixes a b :: "'a::len word"
  assumes "uint a < 2 ^ n"
  shows "uint (a OR push_bit n b) = uint a + uint (push_bit n b)"
proof -
  have "\<not> bit a k" if "k \<ge> n" for k
  proof -
    have "bit (uint a) k \<longleftrightarrow> False"
      using assms that by (metis bit_take_bit_iff linorder_not_le take_bit_int_eq_self unsigned_greater_eq)
    then show ?thesis by (meson bit_imp_le_length bit_uint_iff)
  qed
  then have d: "\<And>k. \<not> bit (uint a) k \<or> \<not> bit (uint (push_bit n b)) k"
    by (auto simp: bit_uint_iff bit_push_bit_iff)
  have "uint (a OR push_bit n b) = uint a OR uint (push_bit n b)" by (simp add: unsigned_or_eq)
  then show ?thesis using disjunctive_add [OF d] by simp
qed

definition bcd_int :: "int \<Rightarrow> int" where
  "bcd_int b = b mod 10 + 16 * (b div 10 mod 10) + 256 * (b div 100 mod 10) + 4096 * (b div 1000 mod 10)"

lemma uint_bcd_of: "uint (bcd_of b) = bcd_int (uint b)"
proof -
  have d: "uint ((b div m) mod 10) = uint b div uint m mod 10" for m :: u32
    by (simp add: uint_mod_distrib uint_div_distrib)
  have digit: "uint (push_bit n ((b div m) mod 10)) = 2 ^ n * (uint b div uint m mod 10)" if "n \<le> 12" for n m
  proof -
    have "0 \<le> uint b div uint m mod 10" "uint b div uint m mod 10 < 10" by simp_all
    moreover have "(2::int) ^ n \<le> 2 ^ 12" using power_increasing [OF that, of "2::int"] by simp
    ultimately have "2 ^ n * (uint b div uint m mod 10) \<le> 2 ^ 12 * 10" by (intro mult_mono) simp_all
    then have "2 ^ n * (uint b div uint m mod 10) < 2 ^ 32" by simp
    moreover have "uint (push_bit n ((b div m) mod 10)) = (uint b div uint m mod 10) * 2 ^ n mod 2 ^ LENGTH(32)"
      by (simp only: unsigned_push_bit_eq d) (simp only: push_bit_eq_mult take_bit_eq_mod)
    ultimately show ?thesis by (simp add: mult.commute)
  qed
  have b: "0 \<le> uint b div x mod 10" "uint b div x mod 10 \<le> 9" for x using pos_mod_bound [of 10 "uint b div x"] by simp_all
  have v_num: "uint (1 :: u32) = 1" "uint (10 :: u32) = 10" "uint (100 :: u32) = 100" "uint (1000 :: u32) = 1000"
    "(4 :: nat) \<le> 12" "(8 :: nat) \<le> 12" "(12 :: nat) \<le> 12" "(2 :: int) ^ 0 = 1" "(2 :: int) ^ 4 = 16" "(2 :: int) ^ 8 = 256"
    "(2 :: int) ^ 12 = 4096" "x div 1 = x" "1 * x = x" "(True \<Longrightarrow> PROP P) \<equiv> PROP P" for x :: int by simp_all
  define w0 where "w0 = push_bit 0 ((b div 1) mod 10)"
  define w1 where "w1 = (b div 10) mod 10"
  define w2 where "w2 = (b div 100) mod 10"
  define w3 where "w3 = (b div 1000) mod 10"
  have v: "uint w0 = uint b mod 10" "uint (push_bit 4 w1) = 16 * (uint b div 10 mod 10)"
    "uint (push_bit 8 w2) = 256 * (uint b div 100 mod 10)" "uint (push_bit 12 w3) = 4096 * (uint b div 1000 mod 10)"
    using digit [of 0 1, OF le0] digit [of 4 10] digit [of 8 100] digit [of 12 1000]
    unfolding w0_def w1_def w2_def w3_def by (simp_all only: v_num)
  have 1: "uint (w0 OR push_bit 4 w1) = uint b mod 10 + 16 * (uint b div 10 mod 10)"
    by (subst or_disjoint_sum) (use b [of 1] in \<open>simp_all only: v, simp\<close>)
  have 2: "uint ((w0 OR push_bit 4 w1) OR push_bit 8 w2) =
      uint b mod 10 + 16 * (uint b div 10 mod 10) + 256 * (uint b div 100 mod 10)"
    by (subst or_disjoint_sum) (use b [of 1] b [of 10] in \<open>simp_all only: 1 v, simp\<close>)
  have "uint (((w0 OR push_bit 4 w1) OR push_bit 8 w2) OR push_bit 12 w3) = bcd_int (uint b)"
    by (subst or_disjoint_sum) (use b [of 1] b [of 10] b [of 100] in \<open>simp_all only: 2 v bcd_int_def, simp\<close>)
  then show ?thesis by (simp only: bcd_of_def w0_def w1_def w2_def w3_def)
qed

lemma digits:
  fixes b :: int
  assumes "0 \<le> b" "b \<le> 9999"
  obtains d0 d1 d2 d3 where "b = d0 + 10 * d1 + 100 * d2 + 1000 * d3" "bcd_int b = d0 + 16 * d1 + 256 * d2 + 4096 * d3"
    "0 \<le> d0" "d0 \<le> 9" "0 \<le> d1" "d1 \<le> 9" "0 \<le> d2" "d2 \<le> 9" "0 \<le> d3" "d3 \<le> 9"
proof -
  have q: "b div 100 = b div 10 div 10" "b div 1000 = b div 10 div 10 div 10"
    by (simp_all add: div_mult2_eq [symmetric] zdiv_zmult2_eq [symmetric])
  have s: "x = 10 * (x div 10) + x mod 10" "0 \<le> x mod 10" "x mod 10 \<le> 9" for x :: int
    using pos_mod_bound [of 10 x] by simp_all
  have "b div 10 div 10 div 10 mod 10 = b div 10 div 10 div 10" using assms by simp
  then have "b = b mod 10 + 10 * (b div 10 mod 10) + 100 * (b div 100 mod 10) + 1000 * (b div 1000 mod 10)"
    using s(1) [of b] s(1) [of "b div 10"] s(1) [of "b div 10 div 10"] unfolding q by linarith
  then show ?thesis by (rule that) (rule bcd_int_def s(2,3))+
qed

lemma bcd_int_small:
  assumes "0 \<le> b" "b \<le> 9999" "k \<le> 2"
  shows "bcd_int b = k \<longleftrightarrow> b = k"
proof -
  obtain d0 d1 d2 d3 where d: "b = d0 + 10 * d1 + 100 * d2 + 1000 * d3" "bcd_int b = d0 + 16 * d1 + 256 * d2 + 4096 * d3"
    "0 \<le> d0" "d0 \<le> 9" "0 \<le> d1" "d1 \<le> 9" "0 \<le> d2" "d2 \<le> 9" "0 \<le> d3" "d3 \<le> 9"
    by (rule digits [OF assms(1,2)])
  have "d1 = 0 \<and> d2 = 0 \<and> d3 = 0" if "bcd_int b = k \<or> b = k" using that d assms(3) by (elim disjE) linarith+
  then show ?thesis using d by auto
qed

lemma bcd_of_small:
  assumes "b \<le> 9999"
  shows "bcd_of b = 0 \<longleftrightarrow> b = 0" "bcd_of b = 1 \<longleftrightarrow> b = 1" "bcd_of b = 2 \<longleftrightarrow> b = 2"
proof -
  have "uint b \<le> 9999" using assms by (simp add: word_le_def)
  from bcd_int_small [OF _ this]
  show "bcd_of b = 0 \<longleftrightarrow> b = 0" "bcd_of b = 1 \<longleftrightarrow> b = 1" "bcd_of b = 2 \<longleftrightarrow> b = 2"
    by (simp_all add: word_uint_eq_iff uint_bcd_of)
qed

section \<open>Counting down\<close>

lemma set_count_to_binary_at: "set_count_to_binary c = at_count (count_binary c) c"
  by (simp add: set_count_to_binary_def at_count_def bcd_of_def)

lemma at_count_simps [simp]:
  "count_binary (at_count b c) = b" "at_count b (at_count a c) = at_count b c" "max_count (at_count b c) = max_count c"
  "at_count b (c\<lparr>count_binary := a\<rparr>) = at_count b c"
  by (simp_all add: at_count_def max_count_def)

lemma counted_at [simp]: "counted (at_count b c) \<longleftrightarrow> b \<le> max_count c"
  by (simp add: counted_def at_count_def max_count_def)

lemma counted_self: "counted c \<Longrightarrow> at_count (count_binary c) c = c"
  by (auto simp: counted_def at_count_def)

lemma counted_small:
  assumes "counted c"
  shows "ct_count c = 0 \<longleftrightarrow> count_binary c = 0" "ct_count c = 1 \<longleftrightarrow> count_binary c = 1" "ct_count c = 2 \<longleftrightarrow> count_binary c = 2"
  using assms by (auto simp: counted_def max_count_def bcd_of_small split: if_splits)

definition count_down :: "u32 \<Rightarrow> u32 \<Rightarrow> u32" where
  "count_down m b = (if b = 0 then m else b - 1)"

lemma bcd_of_9999: "bcd_of 9999 = 0x9999" by code_simp

lemma decrement_at:
  assumes "counted c"
  shows "decrement c = at_count (count_down (max_count c) (count_binary c)) c"
  using counted_small(1) [OF assms]
  by (auto simp: decrement_def count_down_def set_count_to_binary_at max_count_def, auto simp: at_count_def bcd_of_9999)

lemma count_down_le: "b \<le> m \<Longrightarrow> count_down m b \<le> m"
  unfolding count_down_def by (auto simp: word_le_nat_alt unat_minus_one)

lemma decrement_counted: "counted c \<Longrightarrow> counted (decrement c)"
  by (simp add: decrement_at count_down_le) (simp add: counted_def count_down_le)

text \<open>Modulo one more than the largest count.\<close>

lemma uint_count_down:
  assumes "b \<le> m" "m < 0xFFFFFFFF"
  shows "uint (count_down m b) = (uint b - 1) mod (uint m + 1)"
proof (cases "b = 0")
  case True
  have "(- 1) mod (uint m + 1) = uint m" using unsigned_greater_eq [of m] by (subst zmod_minus1) simp_all
  then show ?thesis using True by (simp add: count_down_def)
next
  case False
  then have "uint b \<noteq> 0" by (simp add: uint_0_iff)
  then have pos: "1 \<le> uint b" using unsigned_greater_eq [of b, where 'a = int] by linarith
  then have "uint (b - 1) = uint b - uint (1 :: u32)" by (intro uint_minus_exact) simp
  then have "uint (b - 1) = uint b - 1" by simp
  moreover have "0 \<le> uint b - 1" using pos by linarith
  ultimately show ?thesis using False assms(1) by (simp add: count_down_def word_le_def)
qed

lemma unat_minus_of_nat:
  assumes "k \<le> unat (b :: u32)"
  shows "unat (b - of_nat k) = unat b - k"
proof -
  have "unat (of_nat k :: u32) = k" using assms unsigned_less [of b, where 'a = nat] by (simp add: unat_of_nat)
  then show ?thesis using assms by (subst unat_sub) (simp_all add: word_le_nat_alt)
qed

lemma decrement_pow:
  assumes "counted c" "k \<le> unat (count_binary c)"
  shows "(decrement ^^ k) c = at_count (count_binary c - of_nat k) c"
  using assms(2)
proof (induction k)
  case 0
  show ?case by (simp add: counted_self [OF assms(1)])
next
  case (Suc k)
  let ?b = "count_binary c - of_nat k :: u32"
  have "unat ?b = unat (count_binary c) - k" using Suc.prems by (intro unat_minus_of_nat) simp
  moreover have "unat (count_binary c) \<le> unat (max_count c)" using assms(1) by (simp add: counted_def word_le_nat_alt)
  ultimately have b: "?b \<noteq> 0" "?b \<le> max_count c" using Suc.prems by (auto simp: word_le_nat_alt)
  show ?case using Suc b by (simp add: decrement_at count_down_def algebra_simps)
qed

lemma decrement_multiple_pow:
  "counted c \<Longrightarrow> decrement_multiple cycles c = (decrement ^^ unat cycles) c"
proof (induction cycles c rule: decrement_multiple.induct)
  case (1 cycles c)
  let ?b = "count_binary c"
  consider "cycles = 0" | "cycles \<noteq> 0" "cycles \<le> ?b" | "cycles \<noteq> 0" "\<not> cycles \<le> ?b" by blast
  then show ?case
  proof cases
    case 1
    then show ?thesis by (simp add: decrement_multiple.simps)
  next
    case 2
    then have "(decrement ^^ unat cycles) c = at_count (?b - cycles) c"
      using decrement_pow [OF "1.prems", of "unat cycles"] by (simp add: word_le_nat_alt)
    then show ?thesis using 2 by (simp add: decrement_multiple.simps [of cycles] set_count_to_binary_at)
  next
    case 3
    let ?z = "set_count_to_binary (c\<lparr>count_binary := ?b - ?b\<rparr>)"
    have z: "?z = at_count 0 c" by (simp add: set_count_to_binary_at)
    then have "(decrement ^^ unat ?b) c = ?z" using decrement_pow [OF "1.prems", of "unat ?b"] by simp
    then have "(decrement ^^ Suc (unat ?b)) c = decrement ?z" by (simp only: funpow.simps comp_def)
    moreover have "counted (decrement ?z)" unfolding z by (rule decrement_counted) simp
    ultimately have "decrement_multiple (cycles - (?b + 1)) (decrement ?z) =
        (decrement ^^ (unat (cycles - (?b + 1)) + Suc (unat ?b))) c"
      using "1.IH" [OF 3] by (simp only: funpow_add comp_def)
    moreover have "unat (cycles - (?b + 1)) + Suc (unat ?b) = unat cycles"
    proof -
      have "unat ?b < unat cycles" using 3 by (simp add: word_le_nat_alt)
      then have "Suc (unat ?b) \<le> unat cycles" by simp
      from unat_minus_of_nat [OF this] show ?thesis using \<open>unat ?b < unat cycles\<close> by (simp add: add.commute)
    qed
    moreover have "decrement_multiple cycles c = decrement_multiple (cycles - (?b + 1)) (decrement ?z)"
      using 3 by (simp add: decrement_multiple.simps [of cycles])
    ultimately show ?thesis by (simp only:)
  qed
qed

lemma counted_pow: "counted c \<Longrightarrow> counted ((decrement ^^ k) c)"
  by (induction k) (simp_all add: decrement_counted)

section \<open>Synchronised counters\<close>

lemma low16: "b \<le> 0xFFFF \<Longrightarrow> b AND 0xFFFF = (b :: u32)"
proof -
  assume "b \<le> 0xFFFF"
  then have "uint b < 2 ^ 16" by (simp add: word_le_def)
  then have "take_bit 16 b = b" by (simp add: word_uint_eq_iff unsigned_take_bit_eq take_bit_int_eq_self)
  then show ?thesis by (simp add: take_bit_eq_mask mask_eq_exp_minus_1)
qed

lemma counted_low: "counted c \<Longrightarrow> count_binary c AND 0xFFFF = count_binary c"
  by (rule low16) (auto simp: counted_def max_count_def word_le_def split: if_splits)

lemma at_count_fields [simp]:
  "GATE (at_count b c) = GATE c" "OUTpin (at_count b c) = OUTpin c" "inlatch (at_count b c) = inlatch c"
  "ct_mode (at_count b c) = ct_mode c" "bcd_mode (at_count b c) = bcd_mode c" "null_count (at_count b c) = null_count c"
  "triggerGATE (at_count b c) = triggerGATE c" "write_state (at_count b c) = write_state c"
  "count_written (at_count b c) = count_written c" "first_pass (at_count b c) = first_pass c"
  "state_bit_1 (at_count b c) = state_bit_1 c" "state_bit_2 (at_count b c) = state_bit_2 c"
  "next_change_time (at_count b c) = next_change_time c" "out_handler (at_count b c) = out_handler c"
  "out_calls (at_count b c) = out_calls c"
  by (simp_all add: at_count_def)

lemma decrement_fields [simp]:
  "GATE (decrement c) = GATE c" "OUTpin (decrement c) = OUTpin c" "inlatch (decrement c) = inlatch c"
  "ct_mode (decrement c) = ct_mode c" "bcd_mode (decrement c) = bcd_mode c" "null_count (decrement c) = null_count c"
  "triggerGATE (decrement c) = triggerGATE c" "write_state (decrement c) = write_state c"
  "count_written (decrement c) = count_written c" "first_pass (decrement c) = first_pass c"
  "state_bit_1 (decrement c) = state_bit_1 c" "state_bit_2 (decrement c) = state_bit_2 c"
  "next_change_time (decrement c) = next_change_time c" "out_handler (decrement c) = out_handler c"
  "out_calls (decrement c) = out_calls c"
  by (simp_all add: decrement_def set_count_to_binary_at)

lemma set_OUT_fields [simp]:
  "GATE (set_OUT d c) = GATE c" "OUTpin (set_OUT d c) = d" "inlatch (set_OUT d c) = inlatch c"
  "ct_mode (set_OUT d c) = ct_mode c" "bcd_mode (set_OUT d c) = bcd_mode c" "null_count (set_OUT d c) = null_count c"
  "triggerGATE (set_OUT d c) = triggerGATE c" "write_state (set_OUT d c) = write_state c"
  "count_written (set_OUT d c) = count_written c" "first_pass (set_OUT d c) = first_pass c"
  "state_bit_1 (set_OUT d c) = state_bit_1 c" "state_bit_2 (set_OUT d c) = state_bit_2 c"
  "next_change_time (set_OUT d c) = next_change_time c" "ct_count (set_OUT d c) = ct_count c"
  "count_binary (set_OUT d c) = count_binary c" "out_handler (set_OUT d c) = out_handler c"
  by (simp_all add: set_OUT_def Let_def)

lemma set_OUT_same [simp]: "OUTpin c = d \<Longrightarrow> set_OUT d c = c"
  by (simp add: set_OUT_def)

lemma counted_cong:
  assumes "count_binary c' = count_binary c" "ct_count c' = ct_count c" "bcd_mode c' = bcd_mode c"
  shows "counted c' = counted c"
  using assms by (simp add: counted_def max_count_def)

lemma counted_updates [simp]:
  "counted (c\<lparr>next_change_time := t\<rparr>) = counted c" "counted (c\<lparr>triggerGATE := g\<rparr>) = counted c"
  "counted (c\<lparr>first_pass := f\<rparr>) = counted c" "counted (set_OUT d c) = counted c" "counted (c\<lparr>null_count := n\<rparr>) = counted c"
  "counted (c\<lparr>state_bit_1 := f\<rparr>) = counted c" "counted (c\<lparr>state_bit_2 := f\<rparr>) = counted c"
  by (rule counted_cong; simp)+

lemma load_time_counted: "counted c \<Longrightarrow> load_time c = (if count_binary c = 0 then 1 else count_binary c)"
  by (simp add: load_time_def counted_low)

lemma load_time_updates [simp]:
  "load_time (c\<lparr>next_change_time := t\<rparr>) = load_time c" "load_time (c\<lparr>triggerGATE := g\<rparr>) = load_time c"
  "load_time (set_OUT d c) = load_time c" "load_time (c\<lparr>first_pass := f\<rparr>) = load_time c"
  by (simp_all add: load_time_def)

definition load_latch :: "counter_type \<Rightarrow> counter_type" where
  "load_latch c = set_count (ucast (inlatch c)) c"

text \<open>The relation between the state of a running counter and its next event, mode by mode.  The values
  the accelerated clock does not handle are left out: a latch of 1 in mode 2, the decimal latch 0
  in mode 2, and odd latches and the latch 0 in mode 3 (\<open>clock_multiple_excluded\<close> below shows what it does there).\<close>

definition sync0 :: "counter_type \<Rightarrow> bool" where
  "sync0 c \<longleftrightarrow> \<not> null_count c \<and> write_state c \<noteq> MSByte_multiple \<and>
     next_change_time c = (if GATE c \<and> \<not> OUTpin c then load_time c else 0)"

definition sync1 :: "counter_type \<Rightarrow> bool" where
  "sync1 c \<longleftrightarrow> (if OUTpin c then next_change_time c = 0 \<or> next_change_time c = 1 else next_change_time c = load_time c)"

definition sync2 :: "counter_type \<Rightarrow> bool" where
  "sync2 c \<longleftrightarrow> counted (load_latch c) \<and> count_binary (load_latch c) \<noteq> 1 \<and>
     (bcd_mode c \<longrightarrow> count_binary (load_latch c) \<noteq> 0) \<and>
     (if \<not> GATE c then \<not> first_pass c \<and> next_change_time c = 0
      else if first_pass c then next_change_time c = 1
      else count_binary c \<noteq> 1 \<and> (bcd_mode c \<longrightarrow> count_binary c \<noteq> 0) \<and>
           next_change_time c = (count_binary c - 1) AND 0xFFFF)"

definition sync4 :: "counter_type \<Rightarrow> bool" where
  "sync4 c \<longleftrightarrow> \<not> null_count c \<and> (first_pass c \<longrightarrow> OUTpin c) \<and>
     next_change_time c = (if OUTpin c then if GATE c \<and> first_pass c then load_time c else 0 else 1)"

definition sync5 :: "counter_type \<Rightarrow> bool" where
  "sync5 c \<longleftrightarrow> (first_pass c \<longrightarrow> OUTpin c) \<and>
     next_change_time c = (if OUTpin c then if first_pass c then load_time c else 0 else 1)"

lemma same_updates [simp]:
  "\<not> triggerGATE c \<Longrightarrow> c\<lparr>triggerGATE := False\<rparr> = c"
  by simp

lemma count_after:
  assumes "counted c" "count_binary c \<noteq> 0"
  shows "count_binary (decrement c) = count_binary c - 1"
  using assms by (simp add: decrement_at count_down_def)

lemma clock0_run:
  assumes "count_written c" "\<not> triggerGATE c" "counted c" "\<not> null_count c" "write_state c \<noteq> MSByte_multiple" "GATE c"
  shows "clock0 c = (if OUTpin c then (decrement c)\<lparr>next_change_time := 0\<rparr>
     else if count_binary (decrement c) = 0 then set_OUT True ((decrement c)\<lparr>next_change_time := 0\<rparr>)
     else (decrement c)\<lparr>next_change_time := count_binary (decrement c)\<rparr>)"
  using assms decrement_counted [OF assms(3)]
  by (simp add: clock0_def Let_def counted_low counted_small)

lemma clock0_sync:
  assumes "count_written c" "\<not> triggerGATE c" "counted c" "sync0 c"
  shows "sync0 (clock0 c)"
    and "next_change_time c > 1 \<Longrightarrow> clock0 c = (decrement c)\<lparr>next_change_time := next_change_time c - 1\<rparr>"
    and "next_change_time c = 0 \<Longrightarrow> clock0 c = (if GATE c then decrement c else c)"
proof -
  have s: "\<not> null_count c" "write_state c \<noteq> MSByte_multiple"
    "next_change_time c = (if GATE c \<and> \<not> OUTpin c then load_time c else 0)" using assms(4) by (simp_all add: sync0_def)
  note d = decrement_counted [OF assms(3)]
  note run = clock0_run [OF assms(1-3) s(1,2)]
  have stop: "clock0 c = c" if "\<not> GATE c" using that s assms(1,2) by (simp add: clock0_def Let_def)
  show "sync0 (clock0 c)"
    using s d by (cases "GATE c") (auto simp: run stop sync0_def load_time_counted)
  show "clock0 c = (decrement c)\<lparr>next_change_time := next_change_time c - 1\<rparr>" if n: "next_change_time c > 1"
  proof -
    have g: "GATE c" "\<not> OUTpin c" "next_change_time c = count_binary c" "count_binary c \<noteq> 0" "count_binary c \<noteq> 1"
      using n s(3) by (auto simp: load_time_counted [OF assms(3)] split: if_splits)
    then show ?thesis using run count_after [OF assms(3)] by simp
  qed
  show "clock0 c = (if GATE c then decrement c else c)" if n: "next_change_time c = 0"
  proof (cases "GATE c")
    case True
    have "load_time c \<noteq> 0" by (simp add: load_time_counted [OF assms(3)])
    then have "OUTpin c" using True n s(3) by (cases "OUTpin c") simp_all
    moreover have "(decrement c)\<lparr>next_change_time := 0\<rparr> = decrement c" using n by simp
    ultimately show ?thesis using run [OF True] True by (simp only: if_True)
  qed (simp add: stop)
qed

text \<open>\<open>advance c k\<close> is \<open>c\<close> with the count \<open>k\<close> steps further.\<close>

definition running :: "counter_type \<Rightarrow> bool" where
  "running c \<longleftrightarrow> count_written c \<and> \<not> triggerGATE c \<and> counted c"

lemma running_updates [simp]:
  "running (c\<lparr>next_change_time := t\<rparr>) = running c" "running (c\<lparr>first_pass := f\<rparr>) = running c"
  "running (set_OUT d c) = running c" "running (c\<lparr>null_count := n\<rparr>) = running c"
  "running (c\<lparr>state_bit_1 := f\<rparr>) = running c" "running (c\<lparr>state_bit_2 := f\<rparr>) = running c"
  by (simp_all add: running_def)

lemma running_decrement: "running c \<Longrightarrow> running (decrement c)"
  by (simp add: running_def decrement_counted)

lemma runningD: "running c \<Longrightarrow> counted c" "running c \<Longrightarrow> count_written c" "running c \<Longrightarrow> \<not> triggerGATE c"
  by (simp_all add: running_def)

text \<open>Mode 1.\<close>

lemma clock1_run:
  assumes "running c"
  shows "clock1 c = (if OUTpin c then (decrement c)\<lparr>next_change_time := 0\<rparr>
     else if count_binary (decrement c) = 0 then set_OUT True ((decrement c)\<lparr>next_change_time := 1\<rparr>)
     else (decrement c)\<lparr>next_change_time := count_binary (decrement c)\<rparr>)"
  using runningD [OF assms] runningD(1) [OF running_decrement [OF assms]]
  by (simp add: clock1_def Let_def load_time_counted counted_small)

lemma clock1_sync:
  assumes "running c" "sync1 c"
  shows "sync1 (clock1 c) \<and> running (clock1 c) \<and> ct_mode (clock1 c) = ct_mode c"
    and "next_change_time c > 1 \<Longrightarrow> clock1 c = (decrement c)\<lparr>next_change_time := next_change_time c - 1\<rparr>"
    and "next_change_time c = 0 \<Longrightarrow> clock1 c = decrement c"
proof -
  note d = running_decrement [OF assms(1)]
  note run = clock1_run [OF assms(1)]
  have low: "next_change_time c = (if count_binary c = 0 then 1 else count_binary c)" if "\<not> OUTpin c"
    using assms(2) that by (simp add: sync1_def load_time_counted [OF runningD(1) [OF assms(1)]])
  have high: "next_change_time c = 0 \<or> next_change_time c = 1" if "OUTpin c" using assms(2) that by (simp add: sync1_def)
  show "sync1 (clock1 c) \<and> running (clock1 c) \<and> ct_mode (clock1 c) = ct_mode c"
    using d by (auto simp: run sync1_def load_time_counted runningD)
  show "clock1 c = (decrement c)\<lparr>next_change_time := next_change_time c - 1\<rparr>" if n: "next_change_time c > 1"
  proof -
    have o: "\<not> OUTpin c" using high n by auto
    then have g: "next_change_time c = count_binary c" "count_binary c \<noteq> 0" "count_binary c \<noteq> 1"
      using n low by (auto split: if_splits)
    then show ?thesis using o count_after [OF runningD(1) [OF assms(1)] g(2)] by (simp add: run)
  qed
  show "clock1 c = decrement c" if n: "next_change_time c = 0"
  proof -
    have "OUTpin c" using low n by (cases "OUTpin c") (auto split: if_splits)
    moreover have "(decrement c)\<lparr>next_change_time := 0\<rparr> = decrement c" using n by simp
    ultimately show ?thesis by (simp only: run if_True)
  qed
qed

text \<open>Modes 4 and 5.\<close>

lemma strobe_step:
  assumes "running c" "first_pass c"
  shows "(let c = decrement c
          in if first_pass c
             then let c = c\<lparr>next_change_time := count_binary c AND 0xFFFF\<rparr>
                  in if ct_count c = 0 then (set_OUT False c)\<lparr>next_change_time := 1, first_pass := False\<rparr> else c
             else c\<lparr>next_change_time := 0\<rparr>) =
    (if count_binary (decrement c) = 0
     then (set_OUT False (decrement c))\<lparr>next_change_time := 1, first_pass := False\<rparr>
     else (decrement c)\<lparr>next_change_time := count_binary (decrement c)\<rparr>)"
proof -
  have "set_OUT False ((decrement c)\<lparr>next_change_time := t\<rparr>) = (set_OUT False (decrement c))\<lparr>next_change_time := t\<rparr>" for t
    by (simp add: set_OUT_def Let_def)
  then show ?thesis
    using assms runningD(1) [OF running_decrement [OF assms(1)]] by (simp add: Let_def counted_low counted_small)
qed

lemma clock5_run:
  assumes "running c" "first_pass c \<longrightarrow> OUTpin c"
  shows "clock5 c = (if first_pass c
     then if count_binary (decrement c) = 0 then (set_OUT False (decrement c))\<lparr>next_change_time := 1, first_pass := False\<rparr>
          else (decrement c)\<lparr>next_change_time := count_binary (decrement c)\<rparr>
     else (decrement (set_OUT True c))\<lparr>next_change_time := 0\<rparr>)"
proof -
  have "(if \<not> OUTpin c then set_OUT True c else c) = set_OUT True c" by simp
  then show ?thesis
    using assms runningD [OF assms(1)] strobe_step [OF assms(1)]
    by (cases "first_pass c") (simp_all add: clock5_def Let_def)
qed

lemma clock4_run:
  assumes "running c" "first_pass c \<longrightarrow> OUTpin c" "\<not> null_count c"
  shows "clock4 c = (if \<not> GATE c then (set_OUT True c)\<lparr>next_change_time := 0\<rparr> else if first_pass c
     then if count_binary (decrement c) = 0 then (set_OUT False (decrement c))\<lparr>next_change_time := 1, first_pass := False\<rparr>
          else (decrement c)\<lparr>next_change_time := count_binary (decrement c)\<rparr>
     else (decrement (set_OUT True c))\<lparr>next_change_time := 0\<rparr>)"
proof -
  have "(if \<not> OUTpin c then set_OUT True c else c) = set_OUT True c" by simp
  then show ?thesis
    using assms runningD [OF assms(1)] strobe_step [OF assms(1)]
    by (cases "first_pass c") (simp_all add: clock4_def Let_def)
qed

lemma clock5_sync:
  assumes "running c" "sync5 c"
  shows "sync5 (clock5 c) \<and> running (clock5 c) \<and> ct_mode (clock5 c) = ct_mode c"
    and "next_change_time c > 1 \<Longrightarrow> clock5 c = (decrement c)\<lparr>next_change_time := next_change_time c - 1\<rparr>"
    and "next_change_time c = 0 \<Longrightarrow> clock5 c = decrement c"
proof -
  have s: "first_pass c \<longrightarrow> OUTpin c"
    "next_change_time c = (if OUTpin c then if first_pass c then load_time c else 0 else 1)"
    using assms(2) by (simp_all add: sync5_def)
  note run = clock5_run [OF assms(1) s(1)]
  have d: "running (decrement c)" "running (decrement (set_OUT True c))"
    using running_decrement assms(1) by simp_all
  have cnt: "next_change_time c = (if count_binary c = 0 then 1 else count_binary c)" if "first_pass c"
    using s that by (simp add: load_time_counted [OF runningD(1) [OF assms(1)]])
  show "sync5 (clock5 c) \<and> running (clock5 c) \<and> ct_mode (clock5 c) = ct_mode c"
    using d s(1) by (auto simp: run sync5_def load_time_counted runningD)
  show "clock5 c = (decrement c)\<lparr>next_change_time := next_change_time c - 1\<rparr>" if n: "next_change_time c > 1"
  proof -
    have f: "first_pass c" using s(2) n by (auto split: if_splits)
    then have g: "next_change_time c = count_binary c" "count_binary c \<noteq> 0" "count_binary c \<noteq> 1"
      using n cnt by (auto split: if_splits)
    then show ?thesis using f count_after [OF runningD(1) [OF assms(1)] g(2)] by (simp add: run)
  qed
  show "clock5 c = decrement c" if n: "next_change_time c = 0"
  proof -
    have f: "\<not> first_pass c" "OUTpin c" using s(2) n cnt by (auto split: if_splits)
    moreover have "(decrement c)\<lparr>next_change_time := 0\<rparr> = decrement c" using n by simp
    moreover have "set_OUT True c = c" using f by simp
    ultimately show ?thesis by (simp only: run if_False)
  qed
qed

lemma clock4_sync:
  assumes "running c" "sync4 c"
  shows "sync4 (clock4 c) \<and> running (clock4 c) \<and> ct_mode (clock4 c) = ct_mode c"
    and "next_change_time c > 1 \<Longrightarrow> clock4 c = (decrement c)\<lparr>next_change_time := next_change_time c - 1\<rparr>"
    and "next_change_time c = 0 \<Longrightarrow> clock4 c = (if GATE c then decrement c else c)"
proof -
  have s: "\<not> null_count c" "first_pass c \<longrightarrow> OUTpin c"
    "next_change_time c = (if OUTpin c then if GATE c \<and> first_pass c then load_time c else 0 else 1)"
    using assms(2) by (simp_all add: sync4_def)
  note run = clock4_run [OF assms(1) s(2,1)]
  have d: "running (decrement c)" "running (decrement (set_OUT True c))"
    using running_decrement assms(1) by simp_all
  have cnt: "next_change_time c = (if count_binary c = 0 then 1 else count_binary c)" if "first_pass c" "GATE c"
    using s that by (simp add: load_time_counted [OF runningD(1) [OF assms(1)]])
  show "sync4 (clock4 c) \<and> running (clock4 c) \<and> ct_mode (clock4 c) = ct_mode c"
    using d s(1,2) assms(1) by (auto simp: run sync4_def load_time_counted runningD)
  show "clock4 c = (decrement c)\<lparr>next_change_time := next_change_time c - 1\<rparr>" if n: "next_change_time c > 1"
  proof -
    have f: "first_pass c" "GATE c" using s(3) n by (auto split: if_splits)
    then have g: "next_change_time c = count_binary c" "count_binary c \<noteq> 0" "count_binary c \<noteq> 1"
      using n cnt by (auto split: if_splits)
    then show ?thesis using f count_after [OF runningD(1) [OF assms(1)] g(2)] by (simp add: run)
  qed
  show "clock4 c = (if GATE c then decrement c else c)" if n: "next_change_time c = 0"
  proof -
    have f: "GATE c \<longrightarrow> \<not> first_pass c" "OUTpin c" using s(3) n cnt by (auto split: if_splits)
    moreover have "(decrement c)\<lparr>next_change_time := 0\<rparr> = decrement c" "c\<lparr>next_change_time := 0\<rparr> = c" using n by simp_all
    moreover have "set_OUT True c = c" using f by simp
    ultimately show ?thesis by (cases "GATE c") (simp_all only: run if_True if_False simp_thms)
  qed
qed

text \<open>Mode 2.\<close>

lemma load_latch_fields [simp]:
  "GATE (load_latch c) = GATE c" "OUTpin (load_latch c) = OUTpin c" "inlatch (load_latch c) = inlatch c"
  "ct_mode (load_latch c) = ct_mode c" "bcd_mode (load_latch c) = bcd_mode c" "first_pass (load_latch c) = first_pass c"
  "triggerGATE (load_latch c) = triggerGATE c" "count_written (load_latch c) = count_written c"
  by (simp_all add: load_latch_def set_count_def set_binary_to_count_def)

lemma load_latch_cong:
  assumes "inlatch c' = inlatch c" "bcd_mode c' = bcd_mode c"
  shows "count_binary (load_latch c') = count_binary (load_latch c)" "counted (load_latch c') = counted (load_latch c)"
proof -
  show "count_binary (load_latch c') = count_binary (load_latch c)"
    using assms by (simp add: load_latch_def set_count_def set_binary_to_count_def)
  moreover have "ct_count (load_latch c') = ct_count (load_latch c)"
    using assms by (simp add: load_latch_def set_count_def set_binary_to_count_def)
  ultimately show "counted (load_latch c') = counted (load_latch c)" using assms by (intro counted_cong) simp_all
qed

lemma clock2_run:
  assumes "running c" "GATE c" "\<not> first_pass c"
  shows "clock2 c = (if count_binary (decrement c) = 1
     then (set_OUT False ((decrement c)\<lparr>next_change_time := 1\<rparr>))\<lparr>first_pass := True\<rparr>
     else (decrement c)\<lparr>next_change_time := (count_binary (decrement c) - 1) AND 0xFFFF\<rparr>)"
  using assms(2,3) runningD [OF assms(1)] runningD(1) [OF running_decrement [OF assms(1)]]
  by (simp add: clock2_def Let_def counted_small)

lemma clock2_load:
  assumes "running c" "first_pass c"
  shows "clock2 c = (set_OUT True ((load_latch c)\<lparr>next_change_time := (count_binary (load_latch c) - 1) AND 0xFFFF,
     null_count := False\<rparr>))\<lparr>first_pass := False\<rparr>"
proof -
  have "(if \<not> OUTpin x then set_OUT True x else x) = set_OUT True x" for x by simp
  then show ?thesis using assms(2) runningD [OF assms(1)]
    by (simp add: clock2_def Let_def load_latch_def [symmetric])
qed

lemma sync2_cong:
  assumes "inlatch c' = inlatch c" "bcd_mode c' = bcd_mode c" "sync2 c"
  shows "counted (load_latch c') \<and> count_binary (load_latch c') \<noteq> 1 \<and> (bcd_mode c' \<longrightarrow> count_binary (load_latch c') \<noteq> 0)"
  using assms(3) load_latch_cong [OF assms(1,2)] assms(2) by (auto simp: sync2_def)

lemma counted_le: "counted c \<Longrightarrow> count_binary c \<le> 0xFFFF"
  by (auto simp: counted_def max_count_def word_le_def split: if_splits)

lemma low_minus:
  assumes "b \<le> (0xFFFF :: u32)"
  shows "(b - 1) AND 0xFFFF = (if b = 0 then 0xFFFF else b - 1)"
proof (cases "b = 0")
  case False
  then have "uint b \<noteq> 0" "0 \<le> uint b" by (simp_all add: uint_0_iff)
  then have "1 \<le> uint b" by linarith
  then have "uint (b - 1) = uint b - 1" using uint_minus_exact [of 1 b] by simp
  then have "b - 1 \<le> 0xFFFF" using assms by (simp add: word_le_def)
  then show ?thesis using False by (simp add: low16)
qed simp

lemma clock2_sync:
  assumes "running c" "sync2 c"
  shows "sync2 (clock2 c) \<and> running (clock2 c) \<and> ct_mode (clock2 c) = ct_mode c"
    and "next_change_time c > 1 \<Longrightarrow> clock2 c = (decrement c)\<lparr>next_change_time := next_change_time c - 1\<rparr>"
    and "next_change_time c = 0 \<Longrightarrow> clock2 c = (if \<not> first_pass c \<and> GATE c then decrement c else c)"
proof -
  note r = runningD [OF assms(1)] and d = running_decrement [OF assms(1)]
  have s: "\<not> GATE c \<Longrightarrow> \<not> first_pass c \<and> next_change_time c = 0" "GATE c \<Longrightarrow> first_pass c \<Longrightarrow> next_change_time c = 1"
    "GATE c \<Longrightarrow> \<not> first_pass c \<Longrightarrow> count_binary c \<noteq> 1 \<and> (bcd_mode c \<longrightarrow> count_binary c \<noteq> 0)"
    "GATE c \<Longrightarrow> \<not> first_pass c \<Longrightarrow> next_change_time c = (if count_binary c = 0 then 0xFFFF else count_binary c - 1)"
    using assms(2) low_minus [OF counted_le [OF r(1)]] by (auto simp: sync2_def)
  have latch: "counted (load_latch c)" "count_binary (load_latch c) \<noteq> 1" "bcd_mode c \<longrightarrow> count_binary (load_latch c) \<noteq> 0"
    using assms(2) by (simp_all add: sync2_def)
  have stop: "clock2 c = c" if "\<not> GATE c" using s(1) [OF that] that r by (simp add: clock2_def Let_def)
  have n0: "next_change_time c \<noteq> 0" if "GATE c"
    using s(2-4) [OF that] by (cases "first_pass c") (auto split: if_splits)
  have after: "count_binary (decrement c) = (if count_binary c = 0 then 0xFFFF else count_binary c - 1)"
    if "GATE c" "\<not> first_pass c"
    using s(3) [OF that] r(1) by (auto simp: decrement_at count_down_def max_count_def)
  show "clock2 c = (if \<not> first_pass c \<and> GATE c then decrement c else c)" if "next_change_time c = 0"
    using n0 that stop by auto
  show "clock2 c = (decrement c)\<lparr>next_change_time := next_change_time c - 1\<rparr>" if n: "next_change_time c > 1"
  proof -
    have g: "GATE c" using s(1) n by (cases "GATE c") simp_all
    moreover have "\<not> first_pass c" using s(2) [OF g] n by (cases "first_pass c") simp_all
    ultimately have g: "GATE c" "\<not> first_pass c" by simp_all
    then have b: "count_binary (decrement c) = next_change_time c" using s(4) after by simp
    have "next_change_time c \<noteq> 1" "next_change_time c \<noteq> 0" using n by auto
    then have "clock2 c = (decrement c)\<lparr>next_change_time := (next_change_time c - 1) AND 0xFFFF\<rparr>"
      by (simp only: clock2_run [OF assms(1) g] b if_False)
    also have "(next_change_time c - 1) AND 0xFFFF = next_change_time c - 1"
      using low_minus [of "next_change_time c"] counted_le [OF runningD(1) [OF d]] \<open>next_change_time c \<noteq> 0\<close>
      by (simp only: b if_False)
    finally show ?thesis .
  qed
  show "sync2 (clock2 c) \<and> running (clock2 c) \<and> ct_mode (clock2 c) = ct_mode c"
  proof (cases "GATE c")
    case False
    then show ?thesis using assms by (simp add: stop)
  next
    case G: True
    show ?thesis
    proof (cases "first_pass c")
      case True
      have "running (load_latch c)" using latch(1) r by (simp add: running_def)
      then have e: "running (clock2 c)" "GATE (clock2 c)" "\<not> first_pass (clock2 c)" "ct_mode (clock2 c) = ct_mode c"
        "count_binary (clock2 c) = count_binary (load_latch c)" "inlatch (clock2 c) = inlatch c" "bcd_mode (clock2 c) = bcd_mode c"
        "next_change_time (clock2 c) = (count_binary (load_latch c) - 1) AND 0xFFFF"
        using G by (simp_all add: clock2_load [OF assms(1) True])
      show ?thesis unfolding sync2_def using sync2_cong [OF e(6,7) assms(2)] e(1-5,7,8) latch by simp
    next
      case False
      have z: "count_binary (decrement c) \<noteq> 0" using s(3) [OF G False] after [OF G False] by auto
      have e: "running (clock2 c)" "GATE (clock2 c)" "ct_mode (clock2 c) = ct_mode c" "inlatch (clock2 c) = inlatch c"
        "bcd_mode (clock2 c) = bcd_mode c" "first_pass (clock2 c) = (count_binary (decrement c) = 1)"
        "count_binary (clock2 c) = count_binary (decrement c)"
        "next_change_time (clock2 c) = (if count_binary (decrement c) = 1 then 1 else (count_binary (decrement c) - 1) AND 0xFFFF)"
        using G False d by (simp_all add: clock2_run [OF assms(1) G False])
      show ?thesis unfolding sync2_def using sync2_cong [OF e(4,5) assms(2)] e(1-3,5-8) z by simp
    qed
  qed
qed

text \<open>Mode 3: two steps per clock.\<close>

definition load_even :: "counter_type \<Rightarrow> counter_type" where
  "load_even c = set_count (ucast (inlatch c) AND 0xFFFE) c"

definition sync3 :: "counter_type \<Rightarrow> bool" where
  "sync3 c \<longleftrightarrow> counted (load_even c) \<and> inlatch c AND 1 = 0 \<and> even (uint (count_binary (load_even c))) \<and>
     2 \<le> uint (count_binary (load_even c)) \<and>
     (if \<not> GATE c then next_change_time c = 0
      else if first_pass c \<or> state_bit_2 c then next_change_time c = 1
      else \<not> state_bit_1 c \<and> even (uint (count_binary c)) \<and> 2 \<le> uint (count_binary c) \<and>
           uint (next_change_time c) = max 1 (uint (count_binary c) div 2 - 1))"

lemma load_even_fields [simp]:
  "GATE (load_even c) = GATE c" "OUTpin (load_even c) = OUTpin c" "inlatch (load_even c) = inlatch c"
  "ct_mode (load_even c) = ct_mode c" "bcd_mode (load_even c) = bcd_mode c" "first_pass (load_even c) = first_pass c"
  "triggerGATE (load_even c) = triggerGATE c" "count_written (load_even c) = count_written c"
  by (simp_all add: load_even_def set_count_def set_binary_to_count_def)

lemma load_even_cong:
  assumes "inlatch c' = inlatch c" "bcd_mode c' = bcd_mode c"
  shows "count_binary (load_even c') = count_binary (load_even c)" "counted (load_even c') = counted (load_even c)"
proof -
  show "count_binary (load_even c') = count_binary (load_even c)"
    using assms by (simp add: load_even_def set_count_def set_binary_to_count_def)
  moreover have "ct_count (load_even c') = ct_count (load_even c)"
    using assms by (simp add: load_even_def set_count_def set_binary_to_count_def)
  ultimately show "counted (load_even c') = counted (load_even c)" using assms by (intro counted_cong) simp_all
qed

lemma sync3_cong:
  assumes "inlatch c' = inlatch c" "bcd_mode c' = bcd_mode c" "sync3 c"
  shows "counted (load_even c') \<and> inlatch c' AND 1 = 0 \<and> even (uint (count_binary (load_even c'))) \<and>
     2 \<le> uint (count_binary (load_even c'))"
  using assms(3) load_even_cong [OF assms(1,2)] assms(1) by (simp add: sync3_def)

lemma half_time:
  assumes "b \<le> (0xFFFF :: u32)" "4 \<le> uint b"
  shows "uint ((b div 2 - 1) AND 0xFFFF) = uint b div 2 - 1" "b div 2 - 1 = 0 \<longleftrightarrow> False"
proof -
  have h: "uint (b div 2) = uint b div 2" by (simp add: uint_div_distrib)
  have "uint (1 :: u32) \<le> uint (b div 2)" using assms(2) h by simp
  from uint_minus_exact [OF this] have m: "uint (b div 2 - 1) = uint b div 2 - 1" using h by simp
  moreover have "uint b \<le> 0xFFFF" using assms(1) by (simp add: word_le_def)
  ultimately have "b div 2 - 1 \<le> 0xFFFF" unfolding word_le_def by simp
  then show "uint ((b div 2 - 1) AND 0xFFFF) = uint b div 2 - 1" using m by (simp add: low16)
  have "uint b div 2 - 1 \<noteq> 0" using assms(2) by simp
  then show "b div 2 - 1 = 0 \<longleftrightarrow> False" using m by (metis unsigned_0)
qed

definition half_due :: "u32 \<Rightarrow> u32" where
  "half_due b = (if b div 2 - 1 = 0 then 1 else (b div 2 - 1) AND 0xFFFF)"

lemma uint_half_due:
  assumes "b \<le> (0xFFFF :: u32)" "2 \<le> uint b" "even (uint b)"
  shows "uint (half_due b) = max 1 (uint b div 2 - 1)"
proof (cases "uint b = 2")
  case True
  then have "b = 2" by (simp add: word_uint_eq_iff)
  then show ?thesis by (simp add: half_due_def)
next
  case False
  then have "4 \<le> uint b" using assms(2,3) by presburger
  note h = half_time [OF assms(1) this]
  have "half_due b = (b div 2 - 1) AND 0xFFFF" using h(2) unfolding half_due_def by (simp only: if_False)
  then show ?thesis using h(1) \<open>4 \<le> uint b\<close> by simp
qed

lemma clock3_run:
  assumes "running c" "GATE c" "\<not> first_pass c" "\<not> state_bit_2 c" "\<not> state_bit_1 c"
  shows "clock3 c = (let e = decrement (decrement c)
     in if count_binary e = 0 \<or> count_binary e = 2 then e\<lparr>state_bit_2 := True, next_change_time := 1\<rparr>
        else e\<lparr>next_change_time := (count_binary e div 2 - 1) AND 0xFFFF\<rparr>)"
  using assms(2-5) runningD [OF assms(1)] runningD(1) [OF running_decrement [OF running_decrement [OF assms(1)]]]
  by (simp add: clock3_def half_end_def half_step_time_def Let_def counted_small)

lemma clock3_load:
  assumes "running c" "GATE c" "first_pass c \<or> state_bit_2 c" "inlatch c AND 1 = 0"
  shows "clock3 c = (set_OUT (\<not> OUTpin c \<or> first_pass c) ((load_even c)\<lparr>state_bit_1 := False,
     next_change_time := half_due (count_binary (load_even c)), null_count := False\<rparr>))
       \<lparr>state_bit_2 := False, first_pass := False\<rparr>"
proof -
  have "(if \<not> OUTpin x then set_OUT True x else if OUTpin x \<and> \<not> first_pass x then set_OUT False x else x) =
    set_OUT (\<not> OUTpin x \<or> first_pass x) x" for x by simp
  then show ?thesis using assms(2-4) runningD [OF assms(1)]
    by (simp add: clock3_def half_load_time_def half_due_def toggle_OUT_def Let_def load_even_def [symmetric])
qed

lemma clock3_sync:
  assumes "running c" "sync3 c"
  shows "sync3 (clock3 c) \<and> running (clock3 c) \<and> ct_mode (clock3 c) = ct_mode c"
    and "next_change_time c > 1 \<Longrightarrow> clock3 c = (decrement (decrement c))\<lparr>next_change_time := next_change_time c - 1\<rparr>"
    and "next_change_time c = 0 \<Longrightarrow> clock3 c = c \<and> \<not> GATE c"
proof -
  note r = runningD [OF assms(1)]
  let ?e = "decrement (decrement c)"
  have d: "running ?e" using running_decrement running_decrement assms(1) by blast
  have s: "\<not> GATE c \<Longrightarrow> next_change_time c = 0" "GATE c \<Longrightarrow> first_pass c \<or> state_bit_2 c \<Longrightarrow> next_change_time c = 1"
    "GATE c \<Longrightarrow> \<not> (first_pass c \<or> state_bit_2 c) \<Longrightarrow> \<not> state_bit_1 c \<and> even (uint (count_binary c)) \<and>
       2 \<le> uint (count_binary c) \<and> uint (next_change_time c) = max 1 (uint (count_binary c) div 2 - 1)"
    using assms(2) by (auto simp: sync3_def)
  have latch: "counted (load_even c)" "inlatch c AND 1 = 0" "even (uint (count_binary (load_even c)))"
    "2 \<le> uint (count_binary (load_even c))" using assms(2) by (simp_all add: sync3_def)
  have stop: "clock3 c = c" if "\<not> GATE c" using s(1) [OF that] that r by (simp add: clock3_def Let_def)
  have b: "uint (count_binary ?e) = uint (count_binary c) - 2" if "2 \<le> uint (count_binary c)"
  proof -
    have n: "count_binary c \<noteq> 0" using that by auto
    have 1: "uint (count_binary c - 1) = uint (count_binary c) - 1" using that uint_minus_exact [of 1 "count_binary c"] by simp
    have n2: "count_binary (decrement c) \<noteq> 0"
    proof
      assume "count_binary (decrement c) = 0"
      then have "uint (count_binary c) - 1 = 0" using count_after [OF r(1) n] 1 by simp
      then show False using that by simp
    qed
    have "uint (count_binary c - 1 - 1) = uint (count_binary c - 1) - uint (1 :: u32)" using that 1 by (intro uint_minus_exact) simp
    then show ?thesis
      using count_after [OF decrement_counted [OF r(1)] n2] count_after [OF r(1) n] 1 by simp
  qed
  show "clock3 c = c \<and> \<not> GATE c" if n: "next_change_time c = 0"
  proof (cases "GATE c")
    case True
    have False
    proof (cases "first_pass c \<or> state_bit_2 c")
      case True
      then show ?thesis using s(2) [OF \<open>GATE c\<close>] n by simp
    next
      case False
      then show ?thesis using s(3) [OF \<open>GATE c\<close>] n by auto
    qed
    then show ?thesis ..
  qed (simp add: stop)
  show "clock3 c = ?e\<lparr>next_change_time := next_change_time c - 1\<rparr>" if n: "next_change_time c > 1"
  proof -
    have g: "GATE c" using s(1) n by (cases "GATE c") simp_all
    have f: "\<not> (first_pass c \<or> state_bit_2 c)" using s(2) [OF g] n by (cases "first_pass c \<or> state_bit_2 c") auto
    note v = s(3) [OF g f]
    have "uint (1 :: u32) < uint (next_change_time c)" using n unfolding word_less_def .
    then have six: "6 \<le> uint (count_binary c)" using v by simp
    then have e: "4 \<le> uint (count_binary ?e)" using b v by simp
    have t: "uint (next_change_time c - 1) = uint (next_change_time c) - 1" 
      using six v by (subst uint_minus_exact) simp_all
    have "(count_binary ?e div 2 - 1) AND 0xFFFF = next_change_time c - 1"
      by (simp only: word_uint_eq_iff t half_time(1) [OF counted_le [OF runningD(1) [OF d]] e]) (use b v six in simp)
    moreover have "count_binary ?e \<noteq> 0" "count_binary ?e \<noteq> 2" using e by auto
    ultimately show ?thesis using clock3_run [OF assms(1) g] f v by (simp add: Let_def)
  qed
  show "sync3 (clock3 c) \<and> running (clock3 c) \<and> ct_mode (clock3 c) = ct_mode c"
  proof (cases "GATE c")
    case False
    then show ?thesis using assms by (simp add: stop)
  next
    case G: True
    show ?thesis
    proof (cases "first_pass c \<or> state_bit_2 c")
      case True
      have "running (load_even c)" using latch(1) r by (simp add: running_def)
      note l = clock3_load [OF assms(1) G True latch(2)]
      have e: "running (clock3 c)" "GATE (clock3 c)" "\<not> first_pass (clock3 c)" "ct_mode (clock3 c) = ct_mode c"
        "count_binary (clock3 c) = count_binary (load_even c)" "inlatch (clock3 c) = inlatch c" "bcd_mode (clock3 c) = bcd_mode c"
        "next_change_time (clock3 c) = half_due (count_binary (load_even c))" "\<not> state_bit_1 (clock3 c)"
        "\<not> state_bit_2 (clock3 c)"
        using G \<open>running (load_even c)\<close> by (simp_all add: l)
      show ?thesis unfolding sync3_def
        using sync3_cong [OF e(6,7) assms(2)] e(1-5,7-10) latch uint_half_due [OF counted_le [OF latch(1)] latch(4,3)] by simp
    next
      case False
      note v = s(3) [OF G False]
      have run: "clock3 c = (if count_binary ?e = 0 \<or> count_binary ?e = 2 then ?e\<lparr>state_bit_2 := True, next_change_time := 1\<rparr>
        else ?e\<lparr>next_change_time := (count_binary ?e div 2 - 1) AND 0xFFFF\<rparr>)"
        using clock3_run [OF assms(1) G] False v by (simp add: Let_def)
      have be: "uint (count_binary ?e) = uint (count_binary c) - 2" using b v by simp
      have e: "running (clock3 c)" "GATE (clock3 c)" "ct_mode (clock3 c) = ct_mode c" "inlatch (clock3 c) = inlatch c"
        "bcd_mode (clock3 c) = bcd_mode c" "\<not> first_pass (clock3 c)"
        using G False d by (simp_all add: run)
      show ?thesis
      proof (cases "count_binary ?e = 0 \<or> count_binary ?e = 2")
        case True
        then show ?thesis unfolding sync3_def using sync3_cong [OF e(4,5) assms(2)] e by (simp add: run)
      next
        case F: False
        then have "uint (count_binary ?e) \<noteq> 2" "uint (count_binary ?e) \<noteq> 0" by (auto simp: word_uint_eq_iff)
        moreover have "even (uint (count_binary ?e))" "0 \<le> uint (count_binary ?e)" using be v by simp_all
        ultimately have e4: "4 \<le> uint (count_binary ?e)" by presburger
        have "\<not> state_bit_1 (clock3 c)" "\<not> state_bit_2 (clock3 c)" "count_binary (clock3 c) = count_binary ?e"
          "next_change_time (clock3 c) = (count_binary ?e div 2 - 1) AND 0xFFFF"
          using F False v by (simp_all add: run)
        then show ?thesis unfolding sync3_def
          using sync3_cong [OF e(4,5) assms(2)] e e4 \<open>even (uint (count_binary ?e))\<close>
            half_time(1) [OF counted_le [OF runningD(1) [OF d]] e4] by simp
      qed
    qed
  qed
qed

section \<open>A clock with announced events\<close>

text \<open>The contract between a device that is stepped by a clock and a caller that only wants to run the
  clocks at which something happens: \<open>due\<close> announces the next event (0: none), up to it \<open>skip\<close>
  replaces the steps, and without one \<open>rest\<close> does.\<close>

locale event_clock =
  fixes step :: "'s \<Rightarrow> 's" and due :: "'s \<Rightarrow> nat" and sync :: "'s \<Rightarrow> bool"
    and skip :: "nat \<Rightarrow> 's \<Rightarrow> 's" and rest :: "nat \<Rightarrow> 's \<Rightarrow> 's"
  assumes sync_step: "sync s \<Longrightarrow> sync (step s)"
    and skip_0: "skip 0 s = s" and rest_0: "rest 0 s = s"
    and due_step: "sync s \<Longrightarrow> 1 < due s \<Longrightarrow> due (step s) = due s - 1"
    and skip_step: "sync s \<Longrightarrow> 1 < due s \<Longrightarrow> skip k (step s) = skip (Suc k) s"
    and idle_step: "sync s \<Longrightarrow> due s = 0 \<Longrightarrow> due (step s) = 0"
    and rest_step: "sync s \<Longrightarrow> due s = 0 \<Longrightarrow> rest k (step s) = rest (Suc k) s"
begin

lemma sync_steps: "sync s \<Longrightarrow> sync ((step ^^ n) s)"
  by (induction n) (simp_all add: sync_step)

lemma steps_before_event: "sync s \<Longrightarrow> n < due s \<Longrightarrow> (step ^^ n) s = skip n s"
proof (induction n arbitrary: s)
  case (Suc n)
  have "(step ^^ Suc n) s = (step ^^ n) (step s)" by (simp only: funpow_Suc_right comp_def)
  also have "\<dots> = skip n (step s)" using Suc.prems by (intro Suc.IH) (simp_all add: sync_step due_step)
  also have "\<dots> = skip (Suc n) s" using Suc.prems by (simp add: skip_step)
  finally show ?case .
qed (simp add: skip_0)

lemma steps_without_event: "sync s \<Longrightarrow> due s = 0 \<Longrightarrow> (step ^^ n) s = rest n s"
proof (induction n arbitrary: s)
  case (Suc n)
  have "(step ^^ Suc n) s = (step ^^ n) (step s)" by (simp only: funpow_Suc_right comp_def)
  also have "\<dots> = rest n (step s)" using Suc.prems by (intro Suc.IH) (simp_all add: sync_step idle_step)
  also have "\<dots> = rest (Suc n) s" using Suc.prems by (simp add: rest_step)
  finally show ?case .
qed (simp add: rest_0)

end

section \<open>The counters keep the contract\<close>

definition pit_sync :: "counter_type \<Rightarrow> bool" where
  "pit_sync c \<longleftrightarrow> running c \<and>
     (ct_mode c = 0 \<and> sync0 c \<or> ct_mode c = 1 \<and> sync1 c \<or> ct_mode c = 2 \<and> sync2 c \<or>
      ct_mode c = 3 \<and> sync3 c \<or> ct_mode c = 4 \<and> sync4 c \<or> ct_mode c = 5 \<and> sync5 c)"

definition counts_idle :: "counter_type \<Rightarrow> bool" where
  "counts_idle c \<longleftrightarrow> ct_mode c = 0 \<and> GATE c \<or> ct_mode c = 1 \<or> ct_mode c = 2 \<and> \<not> first_pass c \<and> GATE c \<or>
     ct_mode c = 4 \<and> GATE c \<or> ct_mode c = 5"

definition pit_steps :: "counter_type \<Rightarrow> nat" where
  "pit_steps c = (if ct_mode c = 3 then 2 else 1)"

definition pit_skip :: "nat \<Rightarrow> counter_type \<Rightarrow> counter_type" where
  "pit_skip k c = ((decrement ^^ (pit_steps c * k)) c)\<lparr>next_change_time := next_change_time c - of_nat k\<rparr>"

definition pit_rest :: "nat \<Rightarrow> counter_type \<Rightarrow> counter_type" where
  "pit_rest k c = (if counts_idle c then (decrement ^^ k) c else c)"

lemma clock0_keeps:
  assumes "running c" "sync0 c"
  shows "running (clock0 c) \<and> ct_mode (clock0 c) = ct_mode c"
proof (cases "GATE c")
  case True
  then show ?thesis using running_decrement [OF assms(1)] runningD [OF assms(1)] assms(2)
    by (simp add: clock0_run sync0_def)
next
  case False
  then show ?thesis using assms runningD [OF assms(1)] by (simp add: clock0_def sync0_def Let_def)
qed

lemma pit_step:
  assumes "pit_sync c"
  shows "pit_sync (clock_counter c)" "ct_mode (clock_counter c) = ct_mode c"
    and "next_change_time c > 1 \<Longrightarrow> clock_counter c = pit_skip 1 c"
    and "next_change_time c = 0 \<Longrightarrow> clock_counter c = pit_rest 1 c"
proof -
  have r: "running c" using assms by (simp add: pit_sync_def)
  note rd = runningD [OF r]
  consider (0) "ct_mode c = 0" "sync0 c" | (1) "ct_mode c = 1" "sync1 c" | (2) "ct_mode c = 2" "sync2 c"
    | (3) "ct_mode c = 3" "sync3 c" | (4) "ct_mode c = 4" "sync4 c" | (5) "ct_mode c = 5" "sync5 c"
    using assms by (auto simp: pit_sync_def)
  then have "pit_sync (clock_counter c) \<and> ct_mode (clock_counter c) = ct_mode c \<and>
    (next_change_time c > 1 \<longrightarrow> clock_counter c = pit_skip 1 c) \<and>
    (next_change_time c = 0 \<longrightarrow> clock_counter c = pit_rest 1 c)"
  proof cases
    case 0
    then show ?thesis using clock0_sync [OF rd(2,3,1) 0(2)] clock0_keeps [OF r 0(2)]
      by (simp add: clock_counter_def pit_sync_def pit_skip_def pit_rest_def pit_steps_def counts_idle_def)
  next
    case 1
    then show ?thesis using clock1_sync [OF r 1(2)]
      by (simp add: clock_counter_def pit_sync_def pit_skip_def pit_rest_def pit_steps_def counts_idle_def)
  next
    case 2
    then show ?thesis using clock2_sync [OF r 2(2)]
      by (simp add: clock_counter_def pit_sync_def pit_skip_def pit_rest_def pit_steps_def counts_idle_def)
  next
    case 3
    have "(decrement ^^ 2) c = decrement (decrement c)" by (simp add: numeral_2_eq_2)
    then show ?thesis using 3 clock3_sync [OF r 3(2)]
      by (simp add: clock_counter_def pit_sync_def pit_skip_def pit_rest_def pit_steps_def counts_idle_def)
  next
    case 4
    then show ?thesis using clock4_sync [OF r 4(2)]
      by (simp add: clock_counter_def pit_sync_def pit_skip_def pit_rest_def pit_steps_def counts_idle_def)
  next
    case 5
    then show ?thesis using clock5_sync [OF r 5(2)]
      by (simp add: clock_counter_def pit_sync_def pit_skip_def pit_rest_def pit_steps_def counts_idle_def)
  qed
  then show "pit_sync (clock_counter c)" "ct_mode (clock_counter c) = ct_mode c"
    and "next_change_time c > 1 \<Longrightarrow> clock_counter c = pit_skip 1 c"
    and "next_change_time c = 0 \<Longrightarrow> clock_counter c = pit_rest 1 c" by blast+
qed

lemma decrement_time: "decrement (c\<lparr>next_change_time := t\<rparr>) = (decrement c)\<lparr>next_change_time := t\<rparr>"
  by (simp add: decrement_def set_count_to_binary_def)

lemma decrement_pow_time: "(decrement ^^ k) (c\<lparr>next_change_time := t\<rparr>) = ((decrement ^^ k) c)\<lparr>next_change_time := t\<rparr>"
  by (induction k) (simp_all add: decrement_time)

lemma decrement_pow_fields [simp]:
  "GATE ((decrement ^^ k) c) = GATE c" "ct_mode ((decrement ^^ k) c) = ct_mode c"
  "first_pass ((decrement ^^ k) c) = first_pass c" "next_change_time ((decrement ^^ k) c) = next_change_time c"
  by (induction k) simp_all

interpretation pit_clock: event_clock clock_counter "\<lambda>c. unat (next_change_time c)" pit_sync pit_skip pit_rest
proof
  fix s k
  assume s: "pit_sync s"
  show "pit_sync (clock_counter s)" by (rule pit_step(1) [OF s])
  {
    assume "1 < unat (next_change_time s)"
    then have d: "1 < next_change_time s" by (simp add: word_less_nat_alt)
    note t = pit_step(3) [OF s d]
    have "unat (next_change_time s - of_nat 1) = unat (next_change_time s) - 1"
      using d by (intro unat_minus_of_nat) (simp add: word_less_nat_alt)
    then show "unat (next_change_time (clock_counter s)) = unat (next_change_time s) - 1" by (simp add: t pit_skip_def)
    have "pit_steps (clock_counter s) = pit_steps s" by (simp add: pit_steps_def pit_step(2) [OF s])
    then show "pit_skip k (clock_counter s) = pit_skip (Suc k) s"
      by (simp add: t pit_skip_def decrement_pow_time funpow_add [symmetric, THEN fun_cong, unfolded comp_def] algebra_simps)
  }
  {
    assume "unat (next_change_time s) = 0"
    then have d: "next_change_time s = 0" by (simp add: unat_eq_0)
    note t = pit_step(4) [OF s d]
    show "unat (next_change_time (clock_counter s)) = 0" using d by (simp add: t pit_rest_def)
    have "counts_idle (clock_counter s) = counts_idle s" by (simp add: counts_idle_def t pit_rest_def)
    then show "pit_rest k (clock_counter s) = pit_rest (Suc k) s"
      by (simp add: t pit_rest_def funpow_swap1)
  }
qed (simp_all add: pit_skip_def pit_rest_def)

section \<open>The accelerated clock\<close>

lemma time_commutes:
  "set_count d (c\<lparr>next_change_time := t\<rparr>) = (set_count d c)\<lparr>next_change_time := t\<rparr>"
  "set_OUT o' (c\<lparr>next_change_time := t\<rparr>) = (set_OUT o' c)\<lparr>next_change_time := t\<rparr>"
  by (simp_all add: set_count_def set_binary_to_count_def set_OUT_def Let_def)

lemma clock_time:
  "clock0 (c\<lparr>next_change_time := t\<rparr>) = clock0 c" "clock1 (c\<lparr>next_change_time := t\<rparr>) = clock1 c"
  "clock2 (c\<lparr>next_change_time := t\<rparr>) = clock2 c" "clock4 (c\<lparr>next_change_time := t\<rparr>) = clock4 c"
  "clock5 (c\<lparr>next_change_time := t\<rparr>) = clock5 c"
  by (simp_all add: clock0_def clock1_def clock2_def clock4_def clock5_def Let_def time_commutes decrement_time load_time_def)

lemma half_times:
  "half_load_time (c\<lparr>next_change_time := t\<rparr>) = half_load_time c" "half_step_time (c\<lparr>next_change_time := t\<rparr>) = half_step_time c"
  by (simp_all add: half_load_time_def half_step_time_def)

lemma clock3_time: "clock3 (c\<lparr>next_change_time := t\<rparr>) = clock3 c"
proof -
  have "half_load_time (c\<lparr>next_change_time := t, state_bit_1 := b\<rparr>) = half_load_time (c\<lparr>state_bit_1 := b\<rparr>)" for c b
    by (simp add: half_load_time_def)
  then show ?thesis by (simp add: clock3_def Let_def time_commutes decrement_time half_times)
qed

lemma clock_counter_time: "ct_mode c \<le> 5 \<Longrightarrow> clock_counter (c\<lparr>next_change_time := t\<rparr>) = clock_counter c"
  by (simp add: clock_counter_def clock_time clock3_time)

lemma sync_due:
  assumes "pit_sync c"
  shows "next_change_time c \<le> 0xFFFF" "ct_mode c \<le> 5"
proof -
  have cn: "counted c" using assms by (simp add: pit_sync_def running_def)
  have b: "count_binary c \<le> 0xFFFF" by (rule counted_le [OF cn])
  then have l: "load_time c \<le> 0xFFFF" by (simp add: load_time_counted [OF cn])
  have m: "(count_binary c - 1) AND 0xFFFF \<le> 0xFFFF" by (rule word_and_le1)
  have h: "uint t = max 1 (uint (count_binary c) div 2 - 1) \<Longrightarrow> t \<le> 0xFFFF" for t :: u32 using b by (simp add: word_le_def)
  show "ct_mode c \<le> 5" using assms by (auto simp: pit_sync_def)
  show "next_change_time c \<le> 0xFFFF"
    using assms l m h [of "next_change_time c"]
    by (auto simp: pit_sync_def sync0_def sync1_def sync2_def sync3_def sync4_def sync5_def split: if_splits)
qed

lemma mode_steps_before:
  assumes "pit_sync c" "n < next_change_time c"
  shows "unat (mode_steps (ct_mode c) n) = pit_steps c * unat n"
proof -
  have "unat n < 0xFFFF" using assms(2) sync_due(1) [OF assms(1)] by (simp add: word_less_nat_alt word_le_nat_alt)
  then have "unat (n * 2) = unat n * 2" by (simp add: unat_word_ariths)
  then show ?thesis by (simp add: mode_steps_def pit_steps_def)
qed

lemma idle_multiple_rest:
  assumes "pit_sync c" "next_change_time c = 0"
  shows "idle_multiple cycles c = pit_rest (unat cycles) c"
proof -
  have cn: "counted c" "count_written c" using assms by (simp_all add: pit_sync_def running_def)
  have "ct_mode c = 0 \<and> GATE c \<Longrightarrow> write_state c \<noteq> MSByte_multiple" "ct_mode c = 3 \<Longrightarrow> \<not> GATE c"
    "ct_mode c \<in> {0, 1, 2, 3, 4, 5}"
    using assms clock3_sync(3) [of c] by (auto simp: pit_sync_def sync0_def)
  then show ?thesis using cn
    by (auto simp: idle_multiple_def pit_rest_def counts_idle_def decrement_multiple_pow)
qed

theorem pit_clock_multiple_counter:
  "pit_sync c \<Longrightarrow> clock_multiple_counter cycles c = (clock_counter ^^ unat cycles) c"
proof (induction cycles c rule: clock_multiple_counter.induct)
  case (1 cycles c)
  note s = "1.prems"
  have cn: "counted c" using s by (simp add: pit_sync_def running_def)
  let ?n = "next_change_time c"
  consider "cycles = 0" | "cycles \<noteq> 0" "?n = 0" | "cycles \<noteq> 0" "?n > cycles" | "cycles \<noteq> 0" "?n \<noteq> 0" "\<not> ?n > cycles"
    by blast
  then show ?case
  proof cases
    case 1
    then show ?thesis by (simp add: clock_multiple_counter.simps)
  next
    case 2
    then have "(clock_counter ^^ unat cycles) c = pit_rest (unat cycles) c"
      by (intro pit_clock.steps_without_event [OF s]) simp
    moreover have "idle_multiple cycles c = pit_rest (unat cycles) c"
      using 2 by (intro idle_multiple_rest [OF s]) simp
    ultimately show ?thesis using 2 by (simp add: clock_multiple_counter.simps [of cycles])
  next
    case 3
    then have "(clock_counter ^^ unat cycles) c = pit_skip (unat cycles) c"
      by (intro pit_clock.steps_before_event [OF s]) (simp add: word_less_nat_alt)
    moreover have "unat (mode_steps (ct_mode c) cycles) = pit_steps c * unat cycles" using mode_steps_before [OF s] 3 by simp
    ultimately show ?thesis using 3 sync_due(2) [OF s]
      by (auto simp: clock_multiple_counter.simps [of cycles] pit_skip_def decrement_multiple_pow [OF cn])
  next
    case 4
    have n1: "unat (?n - 1) = unat ?n - 1" using 4(2) by (simp add: unat_minus_one)
    have "unat ?n \<noteq> 0" using 4(2) by (simp add: unat_eq_0)
    then have lt: "?n > ?n - 1" "unat (?n - 1) < unat ?n" "unat ?n = Suc (unat (?n - 1))" using n1 by (simp_all add: word_less_nat_alt)
    have "(clock_counter ^^ unat ?n) c = clock_counter ((clock_counter ^^ unat (?n - 1)) c)"
      by (simp only: lt(3) funpow.simps comp_def)
    also have "\<dots> = clock_counter (pit_skip (unat (?n - 1)) c)"
      using pit_clock.steps_before_event [OF s lt(2)] by simp
    also have "\<dots> = clock_counter (decrement_multiple (mode_steps (ct_mode c) (?n - 1)) c)"
      using sync_due(2) [OF s] mode_steps_before [OF s lt(1)]
      by (simp add: pit_skip_def clock_counter_time decrement_multiple_pow [OF cn])
    finally have e: "(clock_counter ^^ unat ?n) c = clock_counter (decrement_multiple (mode_steps (ct_mode c) (?n - 1)) c)" .
    have m: "\<not> ct_mode c > 5" using sync_due(2) [OF s] by auto
    have "clock_multiple_counter (cycles - ?n) ((clock_counter ^^ unat ?n) c) =
        (clock_counter ^^ unat (cycles - ?n)) ((clock_counter ^^ unat ?n) c)"
      unfolding e by (rule "1.IH") (use 4 m pit_clock.sync_steps [OF s, of "unat ?n"] in \<open>simp_all add: e\<close>)
    also have "\<dots> = (clock_counter ^^ (unat (cycles - ?n) + unat ?n)) c" by (simp only: funpow_add comp_def)
    also have "unat (cycles - ?n) + unat ?n = unat cycles"
      using 4(3) by (simp add: unat_sub word_le_nat_alt not_less)
    finally show ?thesis using 4 m by (simp add: clock_multiple_counter.simps [of cycles] e)
  qed
qed

text \<open>
  A counter whose count is loaded at the next clock, after a write to its port or a rising edge of its gate: the event is announced
  for the next clock, and from then on the counter is synchronised.
\<close>

definition rate_latch :: "counter_type \<Rightarrow> bool" where
  "rate_latch c \<longleftrightarrow> count_binary (load_latch c) \<noteq> 1 \<and> (bcd_mode c \<longrightarrow> count_binary (load_latch c) \<noteq> 0)"

definition square_latch :: "counter_type \<Rightarrow> bool" where
  "square_latch c \<longleftrightarrow> counted (load_even c) \<and> inlatch c AND 1 = 0 \<and> even (uint (count_binary (load_even c))) \<and>
     2 \<le> uint (count_binary (load_even c))"

definition loading :: "counter_type \<Rightarrow> bool" where
  "loading c \<longleftrightarrow> count_written c \<and> counted (load_latch c) \<and> next_change_time c = 1 \<and>
     (ct_mode c = 0 \<and> null_count c \<and> \<not> OUTpin c \<and> write_state c \<noteq> MSByte_multiple \<or>
      ct_mode c = 1 \<and> triggerGATE c \<or>
      ct_mode c = 2 \<and> (triggerGATE c \<or> first_pass c) \<and> GATE c \<and> rate_latch c \<or>
      ct_mode c = 3 \<and> (triggerGATE c \<or> first_pass c \<or> state_bit_2 c) \<and> GATE c \<and> square_latch c \<or>
      ct_mode c = 4 \<and> null_count c \<or>
      ct_mode c = 5 \<and> triggerGATE c)"

lemma load_latch_more [simp]: "write_state (load_latch c) = write_state c" "OUTpin (load_latch c) = OUTpin c"
  by (simp_all add: load_latch_def set_count_def set_binary_to_count_def)

lemma load_latch_again [simp]: "load_latch (load_latch c) = load_latch c" "load_even (load_even c) = load_even c"
  by (simp_all add: load_latch_def load_even_def set_count_def set_binary_to_count_def)

lemma loading_sync:
  assumes "loading c"
  shows "pit_sync (clock_counter c)"
proof -
  have c: "count_written c" "counted (load_latch c)" using assms by (simp_all add: loading_def)
  have out: "(if \<not> OUTpin x then set_OUT True x else x) = set_OUT True x" for x by simp
  have step: "set_count (ucast (inlatch x)) x = load_latch x" "set_count (ucast (inlatch x) AND 0xFFFE) x = load_even x" for x
    by (simp_all add: load_latch_def load_even_def)
  have high: "set_count (ucast (inlatch c)) (set_OUT True c) = load_latch (set_OUT True c)" by (simp add: load_latch_def)
  have ch: "counted (load_latch (set_OUT True c))" using c(2) load_latch_cong(2) [of "set_OUT True c" c] by simp
  consider "ct_mode c = 0" "null_count c" "\<not> OUTpin c" "write_state c \<noteq> MSByte_multiple"
    | "ct_mode c = 1" "triggerGATE c"
    | "ct_mode c = 2" "triggerGATE c \<or> first_pass c" "GATE c" "rate_latch c"
    | "ct_mode c = 3" "triggerGATE c \<or> first_pass c \<or> state_bit_2 c" "GATE c" "square_latch c"
    | "ct_mode c = 4" "null_count c"
    | "ct_mode c = 5" "triggerGATE c"
    using assms by (auto simp: loading_def)
  then show ?thesis
  proof cases
    case 1
    then show ?thesis using c by (simp add: clock_counter_def clock0_def step pit_sync_def running_def sync0_def load_time_def Let_def)
  next
    case 2
    then show ?thesis using c by (simp add: clock_counter_def clock1_def step pit_sync_def running_def sync1_def load_time_def Let_def)
  next
    case 3
    let ?x = "clock_counter c"
    have x: "inlatch ?x = inlatch c" "bcd_mode ?x = bcd_mode c" "running ?x" "ct_mode ?x = 2" "GATE ?x" "\<not> first_pass ?x"
      "count_binary ?x = count_binary (load_latch c)" "next_change_time ?x = (count_binary (load_latch c) - 1) AND 0xFFFF"
      using c 3 by (simp_all add: clock_counter_def clock2_def step out running_def Let_def)
    show ?thesis using x c(2) 3(4) load_latch_cong [OF x(1,2)] by (simp add: pit_sync_def sync2_def rate_latch_def)
  next
    case 4
    let ?x = "clock_counter c"
    have l: "counted (load_even c)" "inlatch c AND 1 = 0" "even (uint (count_binary (load_even c)))" "2 \<le> uint (count_binary (load_even c))"
      using 4(4) by (simp_all add: square_latch_def)
    have toggle: "toggle_OUT x = set_OUT (\<not> OUTpin x \<or> first_pass x) x" for x by (simp add: toggle_OUT_def)
    have x: "inlatch ?x = inlatch c" "bcd_mode ?x = bcd_mode c" "running ?x" "ct_mode ?x = 3" "GATE ?x" "\<not> first_pass ?x"
      "\<not> state_bit_2 ?x" "\<not> state_bit_1 ?x"
      "count_binary ?x = count_binary (load_even c)" "next_change_time ?x = half_due (count_binary (load_even c))"
      using c 4(1-3) l by (simp_all add: clock_counter_def clock3_def step toggle half_load_time_def half_due_def running_def Let_def)
    show ?thesis
      using x l load_even_cong [OF x(1,2)] uint_half_due [OF counted_le [OF l(1)] l(4,3)] by (simp add: pit_sync_def sync3_def)
  next
    case 5
    then show ?thesis using c ch by (simp add: clock_counter_def clock4_def step out high pit_sync_def running_def sync4_def load_time_def Let_def)
  next
    case 6
    then show ?thesis using c ch by (simp add: clock_counter_def clock5_def step out high pit_sync_def running_def sync5_def load_time_def Let_def)
  qed
qed

lemma loading_clock_multiple:
  assumes "loading c"
  shows "clock_multiple_counter n c = (clock_counter ^^ unat n) c"
proof (cases "n = 0")
  case False
  have c: "next_change_time c = 1" "ct_mode c \<le> 5" using assms by (auto simp: loading_def)
  have "unat n = Suc (unat (n - 1))" using False by (simp add: unat_minus_one unat_gt_0)
  moreover have "clock_multiple_counter n c = clock_multiple_counter (n - 1) (clock_counter c)"
    using False c by (simp add: clock_multiple_counter.simps [of n c] mode_steps_def decrement_multiple.simps word_less_1)
  ultimately show ?thesis
    using pit_clock_multiple_counter [OF loading_sync [OF assms], of "n - 1"] by (simp only: funpow_Suc_right comp_def)
qed (simp add: clock_multiple_counter.simps)

text \<open>A counter programmed through its ports with two bytes of count, in a mode that loads without a trigger, is about to load.\<close>

lemma written_loading:
  fixes c0 :: counter_type and M BCD lsb msb :: u8
  assumes "GATE c0" "M = 0 \<or> M = 2 \<or> M = 3 \<or> M = 4"
  defines "c \<equiv> write_counter msb (write_counter lsb (program_counter 3 M BCD c0))"
  assumes "counted (load_latch c)" "M = 2 \<Longrightarrow> rate_latch c" "M = 3 \<Longrightarrow> square_latch c"
  shows "loading c"
proof -
  have set: "GATE (set_count x e) = GATE e" "ct_mode (set_count x e) = ct_mode e" "first_pass (set_count x e) = first_pass e"
    "OUTpin (set_count x e) = OUTpin e" "count_written (set_count x e) = count_written e" "write_state (set_count x e) = write_state e"
    "null_count (set_count x e) = null_count e" for x e
    by (simp_all add: set_count_def set_binary_to_count_def)
  define a where "a = program_counter 3 M BCD c0"
  have a: "GATE a" "ct_mode a = M" "first_pass a" "write_state a = LSByte_multiple"
    using assms(1,2) by (auto simp: a_def program_counter_def Let_def set_OUT_def)
  define b where "b = write_counter lsb a"
  have b: "GATE b" "ct_mode b = M" "first_pass b" "write_state b = MSByte_multiple"
    using a assms(2) by (auto simp: b_def write_counter_def Let_def)
  have c: "c = write_counter msb b" by (simp only: c_def b_def a_def)
  have "GATE c" "ct_mode c = M" "first_pass c" "write_state c = LSByte_multiple" "count_written c" "null_count c"
    "next_change_time c = 1" "M = 0 \<Longrightarrow> \<not> OUTpin c"
    using b assms(2) unfolding c by (elim disjE; simp add: write_counter_def Let_def set)+
  then show ?thesis using assms(2,4-6) unfolding loading_def by (elim disjE) simp_all
qed

section \<open>The chip\<close>

definition clock_each :: "pit_82C54 \<Rightarrow> pit_82C54" where
  "clock_each p = clock 2 (clock 1 (clock 0 p))"

lemma clock_all_counters:
  "clock_all n p = p\<lparr>counter := (\<lambda>k. if k \<le> 2 then clock_multiple_counter n (counter p k) else counter p k)\<rparr>"
proof -
  have "k \<le> 2 \<longleftrightarrow> k = 0 \<or> k = Suc 0 \<or> k = 2" for k :: nat by auto
  then show ?thesis
    by (simp add: clock_all_def clock_multiple_def MAX_COUNTER_def upd_counter_def fun_eq_iff)
qed

lemma clock_each_eq:
  "clock_each p = p\<lparr>counter := (\<lambda>k. if k \<le> 2 then clock_counter (counter p k) else counter p k)\<rparr>"
proof -
  have "k \<le> 2 \<longleftrightarrow> k = 0 \<or> k = Suc 0 \<or> k = 2" for k :: nat by auto
  then show ?thesis by (simp add: clock_each_def clock_def MAX_COUNTER_def upd_counter_def fun_eq_iff)
qed

lemma clock_each_counters:
  "(clock_each ^^ n) p = p\<lparr>counter := (\<lambda>k. if k \<le> 2 then (clock_counter ^^ n) (counter p k) else counter p k)\<rparr>"
  by (induction n) (simp_all add: clock_each_eq fun_eq_iff)

section \<open>The rate generator\<close>

definition program_rate :: "u8 \<Rightarrow> u8 \<Rightarrow> pit_82C54 \<Rightarrow> pit_82C54" where
  "program_rate lsb msb p = pit_chip_write 0 msb (pit_chip_write 0 lsb (pit_chip_write 3 0x34 p))"

definition rate :: "u8 \<Rightarrow> u8 \<Rightarrow> nat" where
  "rate lsb msb = (let n = unat msb * 256 + unat lsb in if n = 0 then 65536 else n)"

definition rated :: "u16 \<Rightarrow> bool list \<Rightarrow> counter_type \<Rightarrow> bool" where
  "rated l outs c \<longleftrightarrow> running c \<and> ct_mode c = 2 \<and> GATE c \<and> \<not> bcd_mode c \<and> inlatch c = l \<and> out_handler c \<and> out_calls c = outs"

lemma load_latch_binary: "\<not> bcd_mode c \<Longrightarrow> count_binary (load_latch c) = ucast (inlatch c) \<and> counted (load_latch c)"
proof -
  have "(ucast (inlatch c) :: u32) \<le> 0xFFFF"
    using unsigned_less [of "inlatch c", where 'a = int] by (simp add: word_le_def uint_ucast_up)
  then show "\<not> bcd_mode c \<Longrightarrow> ?thesis"
    by (simp add: load_latch_def set_count_def set_binary_to_count_def counted_def max_count_def low16)
qed

text \<open>The state \<open>t + 1\<close> clocks after the programming.\<close>

definition at_phase :: "u16 \<Rightarrow> nat \<Rightarrow> bool list \<Rightarrow> nat \<Rightarrow> counter_type \<Rightarrow> bool" where
  "at_phase l N outs t c \<longleftrightarrow> rated l (outs @ concat (replicate (t div N) [False, True]) @
       (if t mod N = N - 1 then [False] else [])) c \<and>
     uint (count_binary c) = (int N - int (t mod N)) mod 65536 \<and>
     first_pass c = (t mod N = N - 1) \<and> OUTpin c = (t mod N \<noteq> N - 1)"

lemma out_calls_set_OUT: "OUTpin c \<noteq> d \<Longrightarrow> out_handler c \<Longrightarrow> out_calls (set_OUT d c) = out_calls c @ [d]"
  by (simp add: set_OUT_def Let_def)

lemma concat_replicate_snoc: "concat (replicate (Suc m) xs) = concat (replicate m xs) @ xs"
  by (induction m) simp_all

lemma phase_step:
  assumes "at_phase l N outs t c" "2 \<le> N" "N \<le> 65536" "uint l = int N mod 65536"
  shows "at_phase l N outs (Suc t) (clock_counter c)"
proof (cases "t mod N = N - 1")
  case True
  then have next': "Suc t mod N = 0" "Suc t div N = Suc (t div N)" using assms(2) by (simp_all add: mod_Suc div_Suc)
  have c: "running c" "first_pass c" "\<not> OUTpin c" "ct_mode c = 2" "GATE c" "\<not> bcd_mode c" "inlatch c = l" "out_handler c"
    "out_calls c = outs @ concat (replicate (t div N) [False, True]) @ [False]"
    using assms(1) True by (simp_all add: at_phase_def rated_def)
  have L: "count_binary (load_latch c) = ucast l" "counted (load_latch c)" using load_latch_binary [OF c(6)] c(7) by simp_all
  have rl: "running (load_latch c)" using L(2) runningD [OF c(1)] by (simp add: running_def)
  have o: "out_handler (load_latch c)" "out_calls (load_latch c) = out_calls c"
    using c(8) by (simp_all add: load_latch_def set_count_def set_binary_to_count_def)
  define d where "d = (load_latch c)\<lparr>next_change_time := (count_binary (load_latch c) - 1) AND 0xFFFF, null_count := False\<rparr>"
  have e: "clock_counter c = (set_OUT True d)\<lparr>first_pass := False\<rparr>"
    using c(4) clock2_load [OF c(1,2)] by (simp add: clock_counter_def d_def)
  have d: "running d" "ct_mode d = 2" "GATE d" "\<not> bcd_mode d" "inlatch d = l" "out_handler d" "\<not> OUTpin d"
    "out_calls d = out_calls c" "count_binary d = ucast l"
    using rl o c L(1) by (simp_all add: d_def)
  have "uint (ucast l :: u32) = int N mod 65536" using assms(4) by (simp add: uint_ucast_up)
  then show ?thesis
    using d c(9) next' assms(2) out_calls_set_OUT [OF _ d(6), of True]
    unfolding at_phase_def rated_def e by (simp add: concat_replicate_snoc del: replicate_Suc)
next
  case False
  have "t mod N < N" using assms(2) by simp
  then have less: "t mod N < N - 1" using False by linarith
  then have next': "Suc t mod N = Suc (t mod N)" "Suc t div N = t div N" by (simp_all add: mod_Suc div_Suc)
  have c: "running c" "\<not> first_pass c" "OUTpin c" "ct_mode c = 2" "GATE c" "\<not> bcd_mode c" "inlatch c = l" "out_handler c"
    "out_calls c = outs @ concat (replicate (t div N) [False, True])"
    "uint (count_binary c) = (int N - int (t mod N)) mod 65536"
    using assms(1) False by (simp_all add: at_phase_def rated_def)
  have "count_binary c \<le> max_count c" using runningD(1) [OF c(1)] by (simp add: counted_def)
  then have "uint (count_binary (decrement c)) = (uint (count_binary c) - 1) mod 65536"
    using uint_count_down [of "count_binary c" "max_count c"] c(6) runningD(1) [OF c(1)]
    by (simp add: decrement_at max_count_def)
  then have d: "uint (count_binary (decrement c)) = int N - int (Suc (t mod N))"
    using less assms(3) by (simp add: c(10) mod_diff_left_eq)
  have one: "count_binary (decrement c) = 1 \<longleftrightarrow> Suc (t mod N) = N - 1"
    using d less assms(2) by (auto simp: word_uint_eq_iff)
  define x where "x = decrement c"
  have x: "running x" "ct_mode x = 2" "GATE x" "\<not> bcd_mode x" "inlatch x = l" "out_handler x" "OUTpin x"
    "out_calls x = out_calls c" "\<not> first_pass x"
    using c running_decrement [OF c(1)] by (simp_all add: x_def)
  note d = d [folded x_def] and one = one [folded x_def]
  have e: "clock_counter c = (if count_binary x = 1
     then (set_OUT False (x\<lparr>next_change_time := 1\<rparr>))\<lparr>first_pass := True\<rparr>
     else x\<lparr>next_change_time := (count_binary x - 1) AND 0xFFFF\<rparr>)"
    using c(4) clock2_run [OF c(1,5,2)] by (simp add: clock_counter_def x_def)
  have m: "(int N - int (Suc (t mod N))) mod 65536 = int N - int (Suc (t mod N))" using less assms(3) by simp
  show ?thesis
  proof (cases "Suc (t mod N) = N - 1")
    case True
    then show ?thesis using x d one m next' c(9) out_calls_set_OUT [of "x\<lparr>next_change_time := 1\<rparr>" False]
      unfolding at_phase_def rated_def e by simp
  next
    case False
    then show ?thesis using x d one m next' c(9) unfolding at_phase_def rated_def e by simp
  qed
qed

lemma bytes_of_latch: "unat ((ucast (lsb :: u8) :: u16) OR push_bit 8 (ucast (msb :: u8))) = unat msb * 256 + unat lsb"
proof -
  have l: "uint (ucast lsb :: u16) = uint lsb" "uint (ucast msb :: u16) = uint msb" by (simp_all add: uint_ucast_up)
  have b: "uint lsb < 2 ^ 8" "uint msb < 2 ^ 8"
    using unsigned_less [of lsb, where 'a = int] unsigned_less [of msb, where 'a = int] by simp_all
  have "uint (push_bit 8 (ucast msb) :: u16) = take_bit 16 (push_bit 8 (uint msb))"
    by (simp only: unsigned_push_bit_eq l) simp
  also have "\<dots> = uint msb * 256" using b by (simp only: push_bit_eq_mult take_bit_eq_mod) simp
  finally have "uint ((ucast lsb :: u16) OR push_bit 8 (ucast msb)) = uint lsb + uint msb * 256"
    by (subst or_disjoint_sum) (simp_all only: l b)
  then have "int (unat ((ucast lsb :: u16) OR push_bit 8 (ucast msb))) = int (unat msb * 256 + unat lsb)"
    by (simp only: of_nat_unat of_nat_add of_nat_mult of_nat_numeral)
  then show ?thesis by (simp only: of_nat_eq_iff)
qed

lemma counted_set_count: "\<not> bcd_mode e \<Longrightarrow> counted (set_count x e)"
  by (simp add: set_count_def set_binary_to_count_def counted_def max_count_def word_and_le1)

lemma programmed:
  fixes c :: counter_type and lsb msb :: u8 and p :: pit_82C54
  assumes "GATE (counter p 0)" "\<not> triggerGATE (counter p 0)" "out_handler (counter p 0)"
  defines "c \<equiv> counter (program_rate lsb msb p) 0"
  shows "running c" "ct_mode c = 2" "GATE c" "\<not> bcd_mode c" "first_pass c" "OUTpin c" "next_change_time c = 1"
    "out_handler c" "inlatch c = ucast lsb OR push_bit 8 (ucast msb)"
proof -
  define a where "a = program_counter 3 2 0 (counter p 0)"
  have a: "GATE a" "\<not> triggerGATE a" "out_handler a" "ct_mode a = 2" "\<not> bcd_mode a" "first_pass a" "OUTpin a"
    "write_state a = LSByte_multiple"
    using assms(1-3) by (simp_all add: a_def program_counter_def Let_def set_OUT_def)
  define b where "b = write_counter lsb a"
  have b: "GATE b" "\<not> triggerGATE b" "out_handler b" "ct_mode b = 2" "\<not> bcd_mode b" "first_pass b" "OUTpin b"
    "write_state b = MSByte_multiple" "inlatch b = ucast lsb"
    using a by (simp_all add: b_def write_counter_def Let_def)
  have set: "GATE (set_count x e) = GATE e" "triggerGATE (set_count x e) = triggerGATE e" "out_handler (set_count x e) = out_handler e"
    "ct_mode (set_count x e) = ct_mode e" "bcd_mode (set_count x e) = bcd_mode e" "first_pass (set_count x e) = first_pass e"
    "OUTpin (set_count x e) = OUTpin e" "inlatch (set_count x e) = inlatch e" "count_written (set_count x e) = count_written e" for x e
    by (simp_all add: set_count_def set_binary_to_count_def)
  define l :: u16 where "l = ucast lsb OR push_bit 8 (ucast msb)"
  define w where "w = set_count (ucast l) (b\<lparr>write_state := LSByte_multiple, inlatch := l, count_written := True, null_count := True\<rparr>)"
  have w: "GATE w" "\<not> triggerGATE w" "out_handler w" "ct_mode w = 2" "\<not> bcd_mode w" "first_pass w" "OUTpin w"
    "inlatch w = l" "count_written w"
    using b by (simp_all add: w_def set)
  have "c = write_counter msb b"
    by (simp add: c_def program_rate_def pit_chip_write_def MAX_ADDRESS_def CONTROL_ADDRESS_def a_def [symmetric]
        b_def [symmetric] upd_counter_def Let_def)
  also have "\<dots> = w\<lparr>next_change_time := 1\<rparr>"
    using b w by (simp add: write_counter_def Let_def w_def [symmetric] l_def [symmetric] set)
  finally have c: "c = w\<lparr>next_change_time := 1\<rparr>" .
  have "counted w" using b(5) unfolding w_def by (intro counted_set_count) simp
  then show "running c" "ct_mode c = 2" "GATE c" "\<not> bcd_mode c" "first_pass c" "OUTpin c" "next_change_time c = 1"
    "out_handler c" "inlatch c = ucast lsb OR push_bit 8 (ucast msb)"
    using w by (simp_all add: c running_def l_def)
qed

lemma rate_range: "rate lsb msb \<noteq> 1 \<Longrightarrow> 2 \<le> rate lsb msb" "rate lsb msb \<le> 65536"
proof -
  have "unat msb \<le> 255" "unat lsb \<le> 255"
    using unsigned_less [of msb, where 'a = nat] unsigned_less [of lsb, where 'a = nat] by simp_all
  then have "unat msb * 256 + unat lsb \<le> 65535" by linarith
  then show "rate lsb msb \<le> 65536" by (simp add: rate_def Let_def)
  show "rate lsb msb \<noteq> 1 \<Longrightarrow> 2 \<le> rate lsb msb" by (auto simp: rate_def Let_def split: if_splits)
qed

lemma latch_mod:
  assumes "N = (if unat (l :: u16) = 0 then 65536 else unat l)"
  shows "uint l = int N mod 65536"
proof -
  have u16: "unat l < 65536" using unsigned_less [of l, where 'a = nat] by simp
  have "int u = int N mod 65536" if "u < 65536" "N = (if u = 0 then 65536 else u)" for u using that by (simp split: if_splits)
  from this [OF u16 assms] show ?thesis by (simp only: uint_nat)
qed

lemma programmed_sync:
  assumes "GATE (counter p 0)" "\<not> triggerGATE (counter p 0)" "out_handler (counter p 0)" "rate lsb msb \<noteq> 1"
  shows "pit_sync (counter (program_rate lsb msb p) 0)"
proof -
  define c where "c = counter (program_rate lsb msb p) 0"
  note c = programmed [OF assms(1-3), of lsb msb, folded c_def]
  have "rate lsb msb = (if unat (inlatch c) = 0 then 65536 else unat (inlatch c))"
    by (simp only: rate_def Let_def c(9) bytes_of_latch)
  then have "unat (inlatch c) \<noteq> 1" using assms(4) by auto
  then have "inlatch c \<noteq> 1" by (metis unsigned_1)
  then have "(ucast (inlatch c) :: u32) \<noteq> 1" by (simp add: word_uint_eq_iff uint_ucast_up)
  then have "pit_sync c" using c load_latch_binary [OF c(4)] by (simp add: pit_sync_def sync2_def)
  then show ?thesis by (simp only: c_def)
qed

section \<open>Reading a count\<close>

definition latches :: "counter_type \<Rightarrow> u16 \<times> bool \<times> bool \<times> bool \<times> rw_status" where
  "latches c = (outlatch c, count_LSB_latched c, count_MSB_latched c, status_latched c, read_state c)"

lemma latches_helpers:
  "latches (c\<lparr>next_change_time := t\<rparr>) = latches c" "latches (c\<lparr>triggerGATE := b\<rparr>) = latches c" "latches (c\<lparr>null_count := b\<rparr>) = latches c"
  "latches (c\<lparr>first_pass := b\<rparr>) = latches c" "latches (c\<lparr>state_bit_1 := b\<rparr>) = latches c" "latches (c\<lparr>state_bit_2 := b\<rparr>) = latches c"
  "latches (set_OUT b c) = latches c" "latches (set_count v c) = latches c" "latches (decrement c) = latches c"
  "latches (set_count_to_binary c) = latches c" "latches (c\<lparr>count_binary := v\<rparr>) = latches c"
  by (simp_all add: latches_def set_OUT_def set_count_def set_binary_to_count_def decrement_def set_count_to_binary_def Let_def)

lemma latches_decrement_multiple: "latches (decrement_multiple n c) = latches c"
proof (induction n c rule: decrement_multiple.induct)
  case (1 n c)
  then show ?case by (subst decrement_multiple.simps) (simp add: latches_helpers)
qed

lemma latches_if: "latches (if P then a else b) = (if P then latches a else latches b)"
  by simp

lemmas latches_simps = latches_helpers latches_if Let_def if_cancel

lemma latches_clocks:
  "latches (clock0 c) = latches c" "latches (clock1 c) = latches c" "latches (clock2 c) = latches c"
  "latches (clock4 c) = latches c" "latches (clock5 c) = latches c"
  by (simp_all only: clock0_def clock1_def clock2_def clock4_def clock5_def latches_simps)

lemma latches_clock3: "latches (clock3 c) = latches c"
  by (simp only: clock3_def half_end_def toggle_OUT_def latches_simps)

lemma latches_clock: "latches (clock_counter c) = latches c"
  by (simp only: clock_counter_def latches_clocks latches_clock3 latches_simps)

lemma latches_idle: "latches (idle_multiple n c) = latches c"
  by (simp add: idle_multiple_def latches_decrement_multiple)

lemma latches_clock_multiple: "latches (clock_multiple_counter n c) = latches c"
proof (induction n c rule: clock_multiple_counter.induct)
  case (1 n c)
  then show ?case
    by (subst clock_multiple_counter.simps)
      (simp add: latches_idle latches_decrement_multiple latches_clock latches_helpers)
qed

lemma low_byte: "(ucast (w AND 0xFF :: u16) :: u8) = ucast w"
proof (rule bit_word_eqI)
  fix n
  assume "n < LENGTH(8)"
  then have "n = 0 \<or> n = 1 \<or> n = 2 \<or> n = 3 \<or> n = 4 \<or> n = 5 \<or> n = 6 \<or> n = 7" by auto
  then have "bit (0xFF :: u16) n" by auto
  then show "bit (ucast (w AND 0xFF) :: u8) n = bit (ucast w :: u8) n" by (simp add: bit_unsigned_iff bit_and_iff)
qed

lemma read_latched:
  assumes "latches c = (v, True, True, False, LSByte_multiple)"
  shows "fst (read_counter c) = ucast v" "latches (snd (read_counter c)) = (v, False, True, False, MSByte_multiple)"
  using assms by (simp_all add: latches_def read_counter_def Let_def low_byte)

lemma read_latched_high:
  assumes "latches c = (v, False, True, False, MSByte_multiple)"
  shows "fst (read_counter c) = ucast (drop_bit 8 v)" "latches (snd (read_counter c)) = (v, False, False, False, LSByte_multiple)"
  using assms by (simp_all add: latches_def read_counter_def Let_def low_byte)

lemma latches_clock_all: "k \<le> 2 \<Longrightarrow> latches (counter (clock_all n p) k) = latches (counter p k)"
proof -
  assume "k \<le> 2"
  then consider "k = 0" | "k = 1" | "k = 2" by linarith
  then show ?thesis
    by cases (simp_all add: clock_all_def clock_multiple_def MAX_COUNTER_def upd_counter_def latches_clock_multiple)
qed

definition latch_command :: "nat \<Rightarrow> u8" where "latch_command k = of_nat (64 * k)"

lemma latch_command_counter:
  assumes "k \<le> 2"
  shows "counter (pit_chip_write 3 (latch_command k) p) k = latch_counter (counter p k)"
proof -
  have "k = 0 \<or> k = 1 \<or> k = 2" using assms by auto
  then have "drop_bit 6 (latch_command k) AND 3 = of_nat k" "drop_bit 4 (latch_command k) AND 3 = 0" "(of_nat k :: u8) \<noteq> 3"
    "unat (of_nat k :: u8) = k" by (auto simp: latch_command_def)
  then show ?thesis by (simp add: pit_chip_write_def MAX_ADDRESS_def CONTROL_ADDRESS_def upd_counter_def Let_def)
qed

lemma pit_chip_read_counter:
  "k \<le> 2 \<Longrightarrow> fst (pit_chip_read k p) = fst (read_counter (counter p k))"
  "k \<le> 2 \<Longrightarrow> counter (snd (pit_chip_read k p)) k = snd (read_counter (counter p k))"
  by (simp_all add: pit_chip_read_def MAX_ADDRESS_def CONTROL_ADDRESS_def upd_counter_def split_beta Let_def)

lemma rate_generator:
  assumes "GATE (counter p 0)" "\<not> triggerGATE (counter p 0)" "out_handler (counter p 0)"
    and "rate lsb msb \<noteq> 1" "0 < n"
  shows "(let q = program_rate lsb msb p; r = clock_multiple 0 n q; t = unat n - 1; N = rate lsb msb
    in read_OUT 0 r = (t mod N \<noteq> N - 1) \<and>
       out_calls (counter r 0) = out_calls (counter q 0) @ concat (replicate (t div N) [False, True]) @
         (if t mod N = N - 1 then [False] else []))"
proof -
  define c where "c = counter (program_rate lsb msb p) 0"
  define N where "N = rate lsb msb"
  note c = programmed [OF assms(1-3), of lsb msb, folded c_def]
  note N = rate_range(1) [OF assms(4), folded N_def] rate_range(2) [of lsb msb, folded N_def] and sync = programmed_sync [OF assms(1-4), folded c_def]
  have il: "unat (inlatch c) = unat msb * 256 + unat lsb" by (simp only: c(9) bytes_of_latch)
  have "N = (if unat (inlatch c) = 0 then 65536 else unat (inlatch c))" by (simp only: N_def rate_def Let_def il)
  from latch_mod [OF this] have latch: "uint (inlatch c) = int N mod 65536" .
  have L: "count_binary (load_latch c) = ucast (inlatch c)" "counted (load_latch c)" using load_latch_binary [OF c(4)] by simp_all
  have "at_phase (inlatch c) N (out_calls c) 0 (clock_counter c)"
  proof -
    have e: "clock_counter c = ((load_latch c)\<lparr>next_change_time := (count_binary (load_latch c) - 1) AND 0xFFFF,
        null_count := False\<rparr>)\<lparr>first_pass := False\<rparr>"
      using c clock2_load [OF c(1,5)] by (simp add: clock_counter_def)
    have "running (load_latch c)" using L(2) runningD [OF c(1)] by (simp add: running_def)
    moreover have "out_handler (load_latch c)" "out_calls (load_latch c) = out_calls c"
      using c(8) by (simp_all add: load_latch_def set_count_def set_binary_to_count_def)
    ultimately show ?thesis using c L(1) N latch unfolding at_phase_def rated_def e by (simp add: uint_ucast_up)
  qed
  then have "at_phase (inlatch c) N (out_calls c) t ((clock_counter ^^ t) (clock_counter c))" for t
    by (induction t) (simp_all add: phase_step [OF _ N latch])
  then have "at_phase (inlatch c) N (out_calls c) (unat n - 1) ((clock_counter ^^ Suc (unat n - 1)) c)"
    by (simp only: funpow_Suc_right comp_def)
  moreover have "Suc (unat n - 1) = unat n" using assms(5) by (simp add: word_less_nat_alt)
  ultimately have "at_phase (inlatch c) N (out_calls c) (unat n - 1) (clock_multiple_counter n c)"
    by (simp only: pit_clock_multiple_counter [OF sync])
  then show ?thesis
    by (simp add: at_phase_def rated_def Let_def read_OUT_def MAX_COUNTER_def clock_multiple_def upd_counter_def
        c_def [symmetric] N_def [symmetric])
qed

section \<open>Properties\<close>


text \<open>The rate generator.  Programmed through the ports for mode 2 with a divisor \<open>N\<close> other than 1 (the
  count 0 stands for 65536), counter 0 pulses its output low for the last of every \<open>N\<close> clocks: after
  \<open>n\<close> clocks, run at once, the output is low exactly if \<open>n - 1\<close> is \<open>N - 1\<close> modulo \<open>N\<close>, and since the
  programming the handler of the output has been called with low and high once per completed period.\<close>

theorem pit_rate_generator:
  assumes "GATE (counter p 0)" "\<not> triggerGATE (counter p 0)" "out_handler (counter p 0)"
    and "rate lsb msb \<noteq> 1" "0 < n"
  shows "(let q = program_rate lsb msb p; r = clock_multiple 0 n q; t = unat n - 1; N = rate lsb msb
    in read_OUT 0 r = (t mod N \<noteq> N - 1) \<and>
       out_calls (counter r 0) = out_calls (counter q 0) @ concat (replicate (t div N) [False, True]) @
         (if t mod N = N - 1 then [False] else []))"
  by (rule rate_generator [OF assms])

definition blank_counter :: counter_type where
  "blank_counter = \<lparr>GATE = False, OUTpin = False, ct_count = 0, outlatch = 0, inlatch = 0, status_latch = 0, rw_mode = 0,
     ct_mode = 0, bcd_mode = False, null_count = False, count_LSB_latched = False, count_MSB_latched = False,
     status_latched = False, count_binary = 0, triggerGATE = False, write_state = LSByte, read_state = LSByte,
     count_written = False, first_pass = False, state_bit_1 = False, state_bit_2 = False, next_change_time = 0,
     out_handler = False, out_calls = []\<rparr>"

definition fresh_pit :: pit_82C54 where
  "fresh_pit = set_OUT_handler 0 True (pit_chip_init \<lparr>counter = (\<lambda>_. blank_counter), controlword = 0\<rparr>)"

lemma fresh_pit_counter:
  "k \<le> 2 \<Longrightarrow> counter fresh_pit k = (counter_init blank_counter)\<lparr>out_handler := (k = 0)\<rparr>"
proof -
  have "counter fresh_pit 0 = (counter_init blank_counter)\<lparr>out_handler := True\<rparr>"
    "k \<in> {1, 2} \<Longrightarrow> counter fresh_pit k = (counter_init blank_counter)\<lparr>out_handler := False\<rparr>" for k
    by (auto simp: fresh_pit_def pit_chip_init_def set_OUT_handler_def upd_counter_def counter_init_def upt_rec)
  moreover have "k \<le> 2 \<Longrightarrow> k = 0 \<or> k \<in> {1, 2}" by auto
  ultimately show "k \<le> 2 \<Longrightarrow> ?thesis" by (cases "k = 0") simp_all
qed

lemma fresh_pit_sync: "k \<le> 2 \<Longrightarrow> pit_sync (counter fresh_pit k)"
  by (simp add: fresh_pit_counter pit_sync_def sync4_def running_def counted_def max_count_def counter_init_def)

lemma program_rate_other: "k \<noteq> 0 \<Longrightarrow> counter (program_rate lsb msb p) k = counter p k"
  by (simp add: program_rate_def pit_chip_write_def MAX_ADDRESS_def CONTROL_ADDRESS_def upd_counter_def Let_def)


section \<open>The counts left out\<close>

definition excluded_counter :: "u8 \<Rightarrow> u16 \<Rightarrow> counter_type" where
  "excluded_counter m latch = \<lparr>GATE = True, OUTpin = True, ct_count = 0, outlatch = 0, inlatch = latch, status_latch = 0, rw_mode = 0,
     ct_mode = m, bcd_mode = False, null_count = False, count_LSB_latched = False, count_MSB_latched = False,
     status_latched = False, count_binary = 0, triggerGATE = False, write_state = LSByte, read_state = LSByte,
     count_written = True, first_pass = True, state_bit_1 = False, state_bit_2 = False, next_change_time = 1,
     out_handler = False, out_calls = []\<rparr>"

lemma funpow_small: "(f ^^ 2) x = f (f x)" "(f ^^ 3) x = f (f (f x))"
  by (simp_all add: numeral_2_eq_2 numeral_3_eq_3)

lemmas evaluate_clocks = excluded_counter_def clock_multiple_counter.simps decrement_multiple.simps clock_counter_def clock2_def clock3_def clock5_def
  half_load_time_def half_step_time_def half_end_def toggle_OUT_def set_OUT_def set_count_def set_binary_to_count_def set_count_to_binary_def
  decrement_def idle_multiple_def mode_steps_def Let_def funpow_small

text \<open>
  Where the accelerated clock is not the clock.  Mode 3 with an odd count holds the output low for a clock too long, with the count 0 it announces the
  next event after 65535 clocks instead of 32767; mode 2 with the count 1 announces none, and with the decimal count 0 one
  after 65535 clocks; mode 2 loaded with its gate low counts on; and mode 5 that was never triggered strobes under the single clock only.
\<close>

theorem clock_multiple_excluded:
  "OUTpin (clock_multiple_counter 3 ((excluded_counter 3 5)\<lparr>first_pass := False, state_bit_2 := True\<rparr>)) = False
   \<and> OUTpin ((clock_counter ^^ 3) ((excluded_counter 3 5)\<lparr>first_pass := False, state_bit_2 := True\<rparr>)) = True" (is ?odd)
  "next_change_time (clock_multiple_counter 2 (excluded_counter 3 0)) = 0xFFFE
   \<and> next_change_time ((clock_counter ^^ 2) (excluded_counter 3 0)) = 0x7FFE" (is ?zero)
  "next_change_time (clock_multiple_counter 2 (excluded_counter 2 1)) = 0
   \<and> next_change_time ((clock_counter ^^ 2) (excluded_counter 2 1)) = 0xFFFF" (is ?one)
  "next_change_time (clock_multiple_counter 2 ((excluded_counter 2 0)\<lparr>bcd_mode := True\<rparr>)) = 0xFFFE
   \<and> next_change_time ((clock_counter ^^ 2) ((excluded_counter 2 0)\<lparr>bcd_mode := True\<rparr>)) = 9998" (is ?decimal)
  "ct_count (clock_multiple_counter 2 ((excluded_counter 2 5)\<lparr>GATE := False\<rparr>)) = 4
   \<and> ct_count ((clock_counter ^^ 2) ((excluded_counter 2 5)\<lparr>GATE := False\<rparr>)) = 5" (is ?gate)
  "OUTpin (clock_multiple_counter 3 ((excluded_counter 5 3)\<lparr>ct_count := 3, count_binary := 3, next_change_time := 0\<rparr>))
   \<and> \<not> OUTpin ((clock_counter ^^ 3) ((excluded_counter 5 3)\<lparr>ct_count := 3, count_binary := 3, next_change_time := 0\<rparr>))" (is ?strobe)
proof -
  show ?odd by (simp add: evaluate_clocks)
  show ?zero by (simp add: evaluate_clocks)
  show ?one by (simp add: evaluate_clocks)
  show ?decimal by (simp add: evaluate_clocks)
  show ?gate by (simp add: evaluate_clocks)
  show ?strobe by (simp add: evaluate_clocks)
qed

theorem pit_rate_generator_witness:
  "\<not> read_OUT 0 (clock_multiple 0 0x30000 (program_rate 0 0 fresh_pit))"
  using pit_rate_generator [where p = fresh_pit and lsb = 0 and msb = 0 and n = "0x30000"]
  by (simp add: fresh_pit_counter counter_init_def blank_counter_def rate_def Let_def)

text \<open>Latching a count.  For a counter programmed for two-byte access with no latch outstanding, the
  counter latch command freezes the count: the two following reads of the counter's port return its
  low and its high byte, however long the counters run before and between them, and afterwards no
  latch is outstanding.\<close>

theorem pit_latched_count:
  assumes "k \<le> 2" "read_state (counter p k) = LSByte_multiple" "\<not> status_latched (counter p k)"
    and "\<not> count_LSB_latched (counter p k)" "\<not> count_MSB_latched (counter p k)"
  shows "(let (lsb, q) = pit_chip_read k (clock_all m (pit_chip_write 3 (latch_command k) p));
              (msb, r) = pit_chip_read k (clock_all n q); v = ct_count (counter p k) AND 0xFFFF
          in lsb = ucast v \<and> msb = ucast (drop_bit 8 v) \<and> \<not> count_LSB_latched (counter r k) \<and>
             \<not> count_MSB_latched (counter r k) \<and> read_state (counter r k) = LSByte_multiple)"
proof -
  define v where "v = ct_count (counter p k) AND 0xFFFF"
  define p1 where "p1 = clock_all m (pit_chip_write 3 (latch_command k) p)"
  define q where "q = snd (pit_chip_read k p1)"
  define q1 where "q1 = clock_all n q"
  have "latches (counter p1 k) = (ucast v, True, True, False, LSByte_multiple)"
    using assms by (simp add: p1_def latches_clock_all latch_command_counter) (simp add: latches_def latch_counter_def v_def)
  note 1 = read_latched [OF this]
  then have "latches (counter q1 k) = (ucast v, False, True, False, MSByte_multiple)"
    using assms(1) by (simp add: q1_def latches_clock_all q_def pit_chip_read_counter)
  note 2 = read_latched_high [OF this]
  have bytes: "(ucast (ucast v :: u16) :: u8) = ucast v" "(ucast (drop_bit 8 (ucast v :: u16)) :: u8) = ucast (drop_bit 8 v)"
    by (rule bit_word_eqI, simp add: bit_unsigned_iff bit_drop_bit_eq)+
  have "fst (pit_chip_read k p1) = ucast v" "fst (pit_chip_read k q1) = ucast (drop_bit 8 v)"
    "latches (counter (snd (pit_chip_read k q1)) k) = (ucast v, False, False, False, LSByte_multiple)"
    using 1(1) 2 assms(1) by (simp_all add: pit_chip_read_counter bytes)
  then show ?thesis
    by (simp add: v_def [symmetric] p1_def [symmetric] q_def [symmetric] q1_def [symmetric] Let_def split_beta latches_def)
qed

text \<open>The next event of the chip.  While counter 0 has an event coming, \<open>get_next_event_time\<close> is the
  smallest announced event time of the three counters; when counter 0 has none, the result is 0
  (which stands for never), whatever the other two counters have announced.\<close>

theorem pit_next_event:
  "(get_clock_event_time 0 p = 0 \<longrightarrow> get_next_event_time p = 0) \<and>
   (get_clock_event_time 0 p \<noteq> 0 \<longrightarrow>
      (\<exists>k\<le>2. get_next_event_time p = get_clock_event_time k p) \<and> get_next_event_time p \<noteq> 0 \<and>
      (\<forall>k\<le>2. get_clock_event_time k p = 0 \<or> get_next_event_time p \<le> get_clock_event_time k p))"
proof -
  have k: "(\<forall>k\<le>2. P k) \<longleftrightarrow> P 0 \<and> P 1 \<and> P (2 :: nat)" "(\<exists>k\<le>2. P k) \<longleftrightarrow> P 0 \<or> P 1 \<or> P (2 :: nat)" for P
    by (auto simp: le_Suc_eq numeral_2_eq_2)
  show ?thesis unfolding k by (auto simp: get_next_event_time_def Let_def)
qed

theorem pit_latched_count_witness:
  "(let c = counter_init blank_counter; p = \<lparr>counter = (\<lambda>_. c\<lparr>read_state := LSByte_multiple, ct_count := 0x1234\<rparr>), controlword = 0\<rparr>
    in fst (pit_chip_read 1 (clock_all 77 (pit_chip_write 3 (latch_command 1) p))) = 0x34)"
  using pit_latched_count [where k = 1 and m = 77 and n = 0 and
      p = "\<lparr>counter = (\<lambda>_. (counter_init blank_counter)\<lparr>read_state := LSByte_multiple, ct_count := 0x1234\<rparr>), controlword = 0\<rparr>"]
  by (simp add: Let_def split_beta counter_init_def blank_counter_def)

theorem pit_next_event_witness:
  "get_next_event_time (set_GATE 1 True \<lparr>counter = (\<lambda>k. if k = 0 then blank_counter else blank_counter\<lparr>next_change_time := 7\<rparr>),
     controlword = 0\<rparr>) = 0"
  by (rule pit_next_event [THEN conjunct1, THEN mp]) (simp add: get_clock_event_time_def set_GATE_def upd_counter_def MAX_COUNTER_def blank_counter_def)

end
