(* ===== verification/Pit.thy ===== *)
theory Pit
  imports Pit_Clock "HOL-Library.Sublist"
begin

text \<open>
  The interval timer device of iodev/pit.cc and pit.h around the 82C54 chip: the conversion of passed
  virtual time into clocks, the I/O ports 0x40 .. 0x43 and 0x61, the interrupt line of counter 0 and
  the speaker of counter 2.  The virtual time (\<open>bx_virt_timer.time_usec\<close>) is an argument; the calls to
  the virtual timer, the interrupt controller and the speaker are recorded in \<open>effects\<close> in their
  order.  The frequency of a beep, a \<open>float\<close>, is represented by the divisor it is computed from.
  The handlers of the OUT pins run when the chip calls them; the model runs them on the calls the
  chip recorded, counter 0 before counter 2, which is the order of \<open>clock_all\<close>.
\<close>

section \<open>State\<close>

definition USEC_PER_SECOND :: nat where "USEC_PER_SECOND = 1000000"
definition TICKS_PER_SECOND :: nat where "TICKS_PER_SECOND = 1193181"
definition BX_NULL_TIMER_HANDLE :: nat where "BX_NULL_TIMER_HANDLE = 10000"

datatype pit_effect =
    Pic_raise nat | Pic_lower nat
  | Speaker_line bool | Beep_on u32 | Beep_off
  | Register_timer | Deactivate_timer nat | Activate_timer nat u32

record bx_pit =
  chip :: pit_82C54
  speaker_data_on :: bool
  speaker_active :: bool
  speaker_level :: bool
  last_usec :: u64
  last_next_event_time :: u32
  total_ticks :: u64
  total_usec :: u64
  timer_handle :: nat
  irq_enabled :: bool
  effects :: "pit_effect list"
  pit_panics :: "string list"

definition emit :: "pit_effect \<Rightarrow> bx_pit \<Rightarrow> bx_pit" where
  "emit e s = s\<lparr>effects := effects s @ [e]\<rparr>"

text \<open>\<open>TICKS_TO_USEC\<close> multiplies 32-bit integers, \<open>USEC_TO_TICKS\<close> is used on 64-bit ones.\<close>

definition TICKS_TO_USEC :: "u32 \<Rightarrow> u32" where
  "TICKS_TO_USEC a = (a * of_nat USEC_PER_SECOND) div of_nat TICKS_PER_SECOND"

definition USEC_TO_TICKS :: "u64 \<Rightarrow> u64" where
  "USEC_TO_TICKS a = (a * of_nat TICKS_PER_SECOND) div of_nat USEC_PER_SECOND"

section \<open>The handlers of the OUT pins\<close>

definition irq_handler :: "bool \<Rightarrow> bx_pit \<Rightarrow> bx_pit" where
  "irq_handler value s =
     (if irq_enabled s then if value then emit (Pic_raise 0) s else emit (Pic_lower 0) s else s)"

definition speaker_handler :: "bool \<Rightarrow> bx_pit \<Rightarrow> bx_pit" where
  "speaker_handler value s =
     (if get_mode 2 (chip s) \<noteq> 3 then emit (Speaker_line (value \<and> speaker_data_on s)) s else s)"

text \<open>An operation on the chip with the calls it makes.\<close>

definition new_calls :: "nat \<Rightarrow> pit_82C54 \<Rightarrow> pit_82C54 \<Rightarrow> bool list" where
  "new_calls k p q = drop (length (out_calls (counter p k))) (out_calls (counter q k))"

definition on_chip :: "(pit_82C54 \<Rightarrow> pit_82C54) \<Rightarrow> bx_pit \<Rightarrow> bx_pit" where
  "on_chip f s =
     (let p = chip s; q = f p; s = s\<lparr>chip := q\<rparr>
      in fold speaker_handler (new_calls 2 p q) (fold irq_handler (new_calls 0 p q) s))"

definition get_timer :: "nat \<Rightarrow> bx_pit \<Rightarrow> u16" where "get_timer k s = get_inlatch k (chip s)"
definition new_timer_count :: "nat \<Rightarrow> bx_pit \<Rightarrow> bool" where "new_timer_count k s = new_count_ready k (chip s)"
definition enable_irq :: "bool \<Rightarrow> bx_pit \<Rightarrow> bx_pit" where "enable_irq en s = s\<lparr>irq_enabled := en\<rparr>"

definition beep_on :: "bx_pit \<Rightarrow> bx_pit" where
  "beep_on s =
     (let value32 = ucast (get_timer 2 s) :: u32
      in emit (Beep_on (if value32 = 0 then 0x10000 else value32)) s)"

section \<open>The passing of time\<close>

text \<open>The two loops of \<open>periodic\<close>: whole seconds are taken off the accumulated time, and the chip is
  clocked from event to event.\<close>

function take_seconds :: "u64 \<Rightarrow> u64 \<Rightarrow> u64 \<times> u64" where
  "take_seconds ticks usec =
     (if of_nat TICKS_PER_SECOND \<le> ticks \<and> of_nat USEC_PER_SECOND \<le> usec
      then take_seconds (ticks - of_nat TICKS_PER_SECOND) (usec - of_nat USEC_PER_SECOND)
      else (ticks, usec))"
  by pat_completeness auto

lemma seconds_decrease:
  assumes "of_nat TICKS_PER_SECOND \<le> (t :: u64)"
  shows "unat (t - of_nat TICKS_PER_SECOND) = unat t - TICKS_PER_SECOND" "TICKS_PER_SECOND \<le> unat t"
    "unat (t - of_nat TICKS_PER_SECOND) < unat t"
proof -
  have "unat (of_nat TICKS_PER_SECOND :: u64) = TICKS_PER_SECOND" by (simp add: TICKS_PER_SECOND_def)
  then show 1: "unat (t - of_nat TICKS_PER_SECOND) = unat t - TICKS_PER_SECOND" and 2: "TICKS_PER_SECOND \<le> unat t"
    using assms by (simp_all add: unat_sub word_le_nat_alt)
  show "unat (t - of_nat TICKS_PER_SECOND) < unat t" unfolding 1 using 2 by (simp add: TICKS_PER_SECOND_def)
qed

termination take_seconds
  by (relation "measure (\<lambda>(t, u). unat t)") (simp_all add: seconds_decrease(3))

declare take_seconds.simps [simp del]

function run_clocks :: "u32 \<Rightarrow> bx_pit \<Rightarrow> bx_pit" where
  "run_clocks ticks_delta s =
     (if ticks_delta = 0 then s
      else let maxchange = get_next_event_time (chip s);
               timedelta = (if maxchange = 0 \<or> maxchange > ticks_delta then ticks_delta else maxchange)
           in run_clocks (ticks_delta - timedelta) (on_chip (clock_all timedelta) s))"
  by pat_completeness auto

termination run_clocks
  by (relation "measure (\<lambda>(n, s). unat n)") (auto simp: unat_gt_0 intro!: event_decrease)

declare run_clocks.simps [simp del]

definition periodic :: "u32 \<Rightarrow> bx_pit \<Rightarrow> bx_pit" where
  "periodic usec_delta s =
     (let s = s\<lparr>total_usec := total_usec s + ucast usec_delta\<rparr>;
          ticks_delta = ucast (USEC_TO_TICKS (total_usec s) - total_ticks s) :: u32;
          (t, u) = take_seconds (total_ticks s + ucast ticks_delta) (total_usec s)
      in run_clocks ticks_delta (s\<lparr>total_ticks := t, total_usec := u\<rparr>))"

text \<open>The last part of \<open>handle_timer\<close> and \<open>write\<close>: arming the virtual timer for the next event.\<close>

definition arm_timer :: "bx_pit \<Rightarrow> bx_pit" where
  "arm_timer s =
     (let s = emit (Deactivate_timer (timer_handle s)) s;
          s = (if get_next_event_time (chip s) \<noteq> 0
               then emit (Activate_timer (timer_handle s) (max 1 (TICKS_TO_USEC (get_next_event_time (chip s))))) s
               else s)
      in s\<lparr>last_next_event_time := get_next_event_time (chip s)\<rparr>)"

definition rearm :: "u64 \<Rightarrow> bx_pit \<Rightarrow> bx_pit" where
  "rearm time_passed s =
     (if time_passed \<noteq> 0 \<or> last_next_event_time s \<noteq> get_next_event_time (chip s) then arm_timer s else s)"

definition pass_time :: "u64 \<Rightarrow> bx_pit \<Rightarrow> u64 \<times> bx_pit" where
  "pass_time my_time_usec s =
     (let time_passed = my_time_usec - last_usec s;
          time_passed32 = ucast time_passed :: u32;
          s = (if time_passed32 \<noteq> 0 then periodic time_passed32 s else s)
      in (time_passed, s\<lparr>last_usec := last_usec s + time_passed\<rparr>))"

definition handle_timer :: "u64 \<Rightarrow> bx_pit \<Rightarrow> bx_pit" where
  "handle_timer my_time_usec s = (let (time_passed, s) = pass_time my_time_usec s in rearm time_passed s)"

section \<open>Initialisation and ports\<close>

text \<open>\<open>handle\<close> is the handle \<open>register_timer\<close> returns.\<close>

definition pit_init :: "nat \<Rightarrow> u64 \<Rightarrow> bx_pit \<Rightarrow> bx_pit" where
  "pit_init handle my_time_usec s =
     (let s = s\<lparr>irq_enabled := True, speaker_data_on := False, speaker_active := False, speaker_level := False\<rparr>;
          s = s\<lparr>chip := set_OUT_handler 2 True (set_OUT_handler 0 True (pit_chip_init (chip s)))\<rparr>;
          s = (if timer_handle s = BX_NULL_TIMER_HANDLE then (emit Register_timer s)\<lparr>timer_handle := handle\<rparr> else s);
          s = arm_timer s
      in s\<lparr>last_usec := my_time_usec, total_ticks := 0, total_usec := 0\<rparr>)"

definition pit_reset :: "bx_pit \<Rightarrow> bx_pit" where
  "pit_reset s = s\<lparr>chip := pit_chip_reset (chip s)\<rparr>"

definition after_restore_state :: "bx_pit \<Rightarrow> bx_pit" where
  "after_restore_state s = (if speaker_active s \<and> get_mode 2 (chip s) = 3 then beep_on s else s)"

text \<open>\<open>refresh_usec\<close> is the virtual time at the refresh bit of port 0x61.\<close>

definition pit_read :: "u64 \<Rightarrow> u64 \<Rightarrow> u32 \<Rightarrow> bx_pit \<Rightarrow> u8 \<times> bx_pit" where
  "pit_read my_time_usec refresh_usec address s =
     (let s = handle_timer my_time_usec s
      in if address \<in> {0x40, 0x41, 0x42, 0x43}
         then let (v, p) = pit_chip_read (unat (address - 0x40)) (chip s) in (v, s\<lparr>chip := p\<rparr>)
         else if address = 0x61
         then (((push_bit 5 (of_bool (read_OUT 2 (chip s))) OR push_bit 4 (ucast ((refresh_usec div 15) AND 1))) OR
                push_bit 1 (of_bool (speaker_data_on s))) OR of_bool (read_GATE 2 (chip s)), s)
         else (0, s\<lparr>pit_panics := pit_panics s @ [''unsupported io read'']\<rparr>))"

definition write_speaker :: "u8 \<Rightarrow> bx_pit \<Rightarrow> bx_pit" where
  "write_speaker value s =
     (let s = on_chip (set_GATE 2 (value AND 0x01 \<noteq> 0)) s;
          s = s\<lparr>speaker_data_on := (drop_bit 1 value AND 0x01 \<noteq> 0)\<rparr>;
          new_speaker_active = (value AND 3 = 3)
      in if get_mode 2 (chip s) = 3
         then if speaker_active s \<noteq> new_speaker_active
              then let s = (if new_speaker_active then beep_on s else emit Beep_off s)
                   in s\<lparr>speaker_active := new_speaker_active\<rparr>
              else s
         else let new_speaker_level = (speaker_data_on s \<and> read_OUT 2 (chip s))
              in if speaker_level s \<noteq> new_speaker_level
                 then (emit (Speaker_line new_speaker_level) s)\<lparr>speaker_level := new_speaker_level\<rparr>
                 else s)"

definition pit_write :: "u64 \<Rightarrow> u32 \<Rightarrow> u32 \<Rightarrow> bx_pit \<Rightarrow> bx_pit" where
  "pit_write my_time_usec address dvalue s =
     (let (time_passed, s) = pass_time my_time_usec s;
          value = ucast dvalue :: u8;
          s = (if address = 0x40 \<or> address = 0x41 \<or> address = 0x43
               then on_chip (pit_chip_write (unat (address - 0x40)) value) s
               else if address = 0x42
               then let s = on_chip (pit_chip_write 2 value) s
                    in if speaker_active s \<and> get_mode 2 (chip s) = 3 \<and> new_timer_count 2 s then beep_on s else s
               else if address = 0x61 then write_speaker value s
               else s\<lparr>pit_panics := pit_panics s @ [''unsupported io write'']\<rparr>)
      in rearm time_passed s)"

section \<open>The chip under the device\<close>

lemma emit_simps [simp]:
  "chip (emit e s) = chip s" "total_ticks (emit e s) = total_ticks s" "total_usec (emit e s) = total_usec s"
  "irq_enabled (emit e s) = irq_enabled s" "speaker_data_on (emit e s) = speaker_data_on s"
  "effects (emit e s) = effects s @ [e]"
  by (simp_all add: emit_def)

lemma handlers_frame [simp]:
  "chip (irq_handler v s) = chip s" "total_ticks (irq_handler v s) = total_ticks s" "total_usec (irq_handler v s) = total_usec s"
  "chip (speaker_handler v s) = chip s" "total_ticks (speaker_handler v s) = total_ticks s"
  "total_usec (speaker_handler v s) = total_usec s"
  by (simp_all add: irq_handler_def speaker_handler_def)

lemma fold_handlers_frame [simp]:
  "chip (fold irq_handler vs s) = chip s" "total_ticks (fold irq_handler vs s) = total_ticks s"
  "total_usec (fold irq_handler vs s) = total_usec s" "chip (fold speaker_handler vs s) = chip s"
  "total_ticks (fold speaker_handler vs s) = total_ticks s" "total_usec (fold speaker_handler vs s) = total_usec s"
  by (induction vs arbitrary: s) simp_all

lemma on_chip_frame [simp]:
  "chip (on_chip f s) = f (chip s)" "total_ticks (on_chip f s) = total_ticks s" "total_usec (on_chip f s) = total_usec s"
  by (simp_all add: on_chip_def Let_def)

definition chip_sync :: "pit_82C54 \<Rightarrow> bool" where
  "chip_sync p \<longleftrightarrow> (\<forall>k\<le>2. pit_sync (counter p k))"

lemma chip_sync_clocks: "chip_sync p \<Longrightarrow> chip_sync ((clock_each ^^ n) p)"
  by (simp add: chip_sync_def clock_each_counters pit_clock.sync_steps)

lemma clock_all_steps:
  assumes "chip_sync p"
  shows "clock_all n p = (clock_each ^^ unat n) p"
proof -
  have "counter (clock_all n p) = counter ((clock_each ^^ unat n) p)"
    using assms unfolding clock_all_counters clock_each_counters chip_sync_def
    by (auto simp: pit_clock_multiple_counter fun_eq_iff)
  then show ?thesis by (simp add: clock_all_counters clock_each_counters)
qed

lemma run_clocks_steps:
  "chip_sync (chip s) \<Longrightarrow> chip (run_clocks n s) = (clock_each ^^ unat n) (chip s) \<and>
     total_ticks (run_clocks n s) = total_ticks s \<and> total_usec (run_clocks n s) = total_usec s"
proof (induction n s rule: run_clocks.induct)
  case (1 n s)
  show ?case
  proof (cases "n = 0")
    case False
    define m where "m = get_next_event_time (chip s)"
    define d where "d = (if m = 0 \<or> m > n then n else m)"
    have d: "d \<le> n" by (auto simp: d_def)
    have e: "chip (on_chip (clock_all d) s) = (clock_each ^^ unat d) (chip s)"
      by (simp add: clock_all_steps [OF "1.prems"])
    have "unat (n - d) + unat d = unat n" using d by (simp add: unat_sub word_le_nat_alt)
    moreover have "run_clocks n s = run_clocks (n - d) (on_chip (clock_all d) s)"
      using False by (simp add: run_clocks.simps [of n s] Let_def m_def [symmetric] d_def [symmetric])
    moreover have "chip (run_clocks (n - d) (on_chip (clock_all d) s)) =
        (clock_each ^^ unat (n - d)) (chip (on_chip (clock_all d) s)) \<and>
        total_ticks (run_clocks (n - d) (on_chip (clock_all d) s)) = total_ticks (on_chip (clock_all d) s) \<and>
        total_usec (run_clocks (n - d) (on_chip (clock_all d) s)) = total_usec (on_chip (clock_all d) s)"
      by (rule "1.IH" [OF False m_def d_def]) (simp only: e chip_sync_clocks [OF "1.prems"])
    ultimately show ?thesis unfolding e by (simp add: funpow_add [symmetric, THEN fun_cong, unfolded comp_def])
  qed (simp add: run_clocks.simps)
qed

section \<open>Clocks of a time\<close>

definition clocks_of :: "nat \<Rightarrow> nat" where
  "clocks_of u = u * TICKS_PER_SECOND div USEC_PER_SECOND"

definition time_ok :: "bx_pit \<Rightarrow> bool" where
  "time_ok s \<longleftrightarrow> unat (total_usec s) < USEC_PER_SECOND \<and> unat (total_ticks s) = clocks_of (unat (total_usec s))"

lemma clocks_of_second: "clocks_of (u + USEC_PER_SECOND) = clocks_of u + TICKS_PER_SECOND"
  by (simp add: clocks_of_def USEC_PER_SECOND_def TICKS_PER_SECOND_def)

lemma clocks_of_mono: "u \<le> v \<Longrightarrow> clocks_of u \<le> clocks_of v"
  by (simp add: clocks_of_def div_le_mono)

lemma take_seconds_result:
  "unat t = clocks_of (unat u) \<Longrightarrow> take_seconds t u = (t', u') \<Longrightarrow>
     unat u' = unat u mod USEC_PER_SECOND \<and> unat t' = clocks_of (unat u')"
proof (induction t u rule: take_seconds.induct)
  case (1 t u)
  have usec: "unat (of_nat USEC_PER_SECOND :: u64) = USEC_PER_SECOND" by (simp add: USEC_PER_SECOND_def)
  show ?case
  proof (cases "unat u < USEC_PER_SECOND")
    case True
    then have "\<not> of_nat USEC_PER_SECOND \<le> u" by (simp add: word_le_nat_alt usec)
    then show ?thesis using "1.prems" True by (simp add: take_seconds.simps [of t u])
  next
    case False
    then have u: "of_nat USEC_PER_SECOND \<le> u" "unat (u - of_nat USEC_PER_SECOND) = unat u - USEC_PER_SECOND"
      by (simp_all add: word_le_nat_alt usec unat_sub)
    have split: "unat u = (unat u - USEC_PER_SECOND) + USEC_PER_SECOND" using False by simp
    then have c: "clocks_of (unat u) = clocks_of (unat u - USEC_PER_SECOND) + TICKS_PER_SECOND"
      using clocks_of_second by metis
    then have t: "of_nat TICKS_PER_SECOND \<le> t"
      using "1.prems"(1) by (simp add: word_le_nat_alt TICKS_PER_SECOND_def)
    from seconds_decrease(1) [OF t] have "unat (t - of_nat TICKS_PER_SECOND) = clocks_of (unat (u - of_nat USEC_PER_SECOND))"
      using c "1.prems"(1) u(2) by simp
    moreover have "take_seconds (t - of_nat TICKS_PER_SECOND) (u - of_nat USEC_PER_SECOND) = (t', u')"
      using "1.prems"(2) t u(1) by (simp add: take_seconds.simps [of t u])
    ultimately have "unat u' = (unat u - USEC_PER_SECOND) mod USEC_PER_SECOND \<and> unat t' = clocks_of (unat u')"
      using "1.IH" [of] t u by simp
    then show ?thesis using split by (metis mod_add_self2)
  qed
qed

lemma clocks_of_shift:
  "u mod USEC_PER_SECOND = v mod USEC_PER_SECOND \<Longrightarrow> clocks_of (u + d) - clocks_of u = clocks_of (v + d) - clocks_of v"
proof -
  have k: "clocks_of (w + k * USEC_PER_SECOND) = clocks_of w + k * TICKS_PER_SECOND" for w k
  proof (induction k)
    case (Suc k)
    show ?case using Suc clocks_of_second [of "w + k * USEC_PER_SECOND"] by (simp add: ac_simps)
  qed simp
  have "clocks_of (w + d) - clocks_of w = clocks_of (w mod USEC_PER_SECOND + d) - clocks_of (w mod USEC_PER_SECOND)" for w
  proof -
    let ?k = "w div USEC_PER_SECOND" and ?m = "w mod USEC_PER_SECOND"
    have "w = ?m + ?k * USEC_PER_SECOND" "w + d = (?m + d) + ?k * USEC_PER_SECOND" by simp_all
    then have "clocks_of w = clocks_of ?m + ?k * TICKS_PER_SECOND" "clocks_of (w + d) = clocks_of (?m + d) + ?k * TICKS_PER_SECOND"
      using k by metis+
    then show ?thesis by simp
  qed
  then show "u mod USEC_PER_SECOND = v mod USEC_PER_SECOND \<Longrightarrow> ?thesis" by metis
qed

lemma periodic_steps:
  assumes "chip_sync (chip s)" "time_ok s" "unat d \<le> 3500000000"
  defines "u \<equiv> unat (total_usec s)"
  shows "chip (periodic d s) = (clock_each ^^ (clocks_of (u + unat d) - clocks_of u)) (chip s) \<and>
     time_ok (periodic d s) \<and> unat (total_usec (periodic d s)) = (u + unat d) mod USEC_PER_SECOND"
proof -
  define w where "w = total_usec s + ucast d"
  have u: "u < USEC_PER_SECOND" "unat (total_ticks s) = clocks_of u" using assms(2) by (simp_all add: time_ok_def u_def)
  then have ub: "u < 1000000" by (simp add: USEC_PER_SECOND_def)
  have "unat (ucast d :: u64) = unat d" using unsigned_less [of d, where 'a = nat]
    by (simp add: unsigned_ucast_eq take_bit_nat_eq_self)
  then have w: "unat w = u + unat d" using ub assms(3) by (simp add: w_def u_def unat_word_ariths)
  have ticks: "unat (USEC_TO_TICKS w) = clocks_of (u + unat d)"
    using ub assms(3) by (simp add: USEC_TO_TICKS_def clocks_of_def unat_div_distrib unat_word_ariths w
        TICKS_PER_SECOND_def USEC_PER_SECOND_def)
  define n where "n = clocks_of (u + unat d) - clocks_of u"
  have mono: "clocks_of u \<le> clocks_of (u + unat d)" by (simp add: clocks_of_mono)
  have nb: "n < 2 ^ 32"
  proof -
    have "(u + unat d) * 1193181 \<le> (u + 3500000000) * 1193181" using assms(3) by simp
    then have "clocks_of (u + unat d) \<le> (u + 3500000000) * 1193181 div 1000000"
      unfolding clocks_of_def TICKS_PER_SECOND_def USEC_PER_SECOND_def by (rule div_le_mono)
    also have "\<dots> < 2 ^ 32" using ub by (simp add: div_less_iff_less_mult)
    finally show ?thesis by (simp add: n_def)
  qed
  have diff: "unat (USEC_TO_TICKS w - total_ticks s) = n"
    using mono ticks u(2) by (simp add: unat_sub word_le_nat_alt n_def)
  have delta: "unat (ucast (USEC_TO_TICKS w - total_ticks s) :: u32) = n"
    using nb diff by (simp add: unsigned_ucast_eq take_bit_nat_eq_self)
  define v where "v = (ucast (USEC_TO_TICKS w - total_ticks s) :: u32)"
  have v: "unat v = n" using delta by (simp add: v_def)
  have "unat (ucast v :: u64) = n" using v nb by (simp add: unsigned_ucast_eq take_bit_nat_eq_self)
  moreover have "clocks_of (u + unat d) < 2 ^ 64" using ticks unsigned_less [of "USEC_TO_TICKS w", where 'a = nat] by simp
  ultimately have t: "unat (total_ticks s + ucast v) = clocks_of (unat w)"
    using u(2) mono by (simp add: unat_word_ariths w n_def)
  obtain t' u' where tu: "take_seconds (total_ticks s + ucast v) w = (t', u')" by fastforce
  from take_seconds_result [OF t tu] have r: "unat u' = (u + unat d) mod USEC_PER_SECOND" "unat t' = clocks_of (unat u')"
    by (simp_all add: w)
  have p: "periodic d s = run_clocks v (s\<lparr>total_ticks := t', total_usec := u'\<rparr>)"
    by (simp add: periodic_def Let_def w_def [symmetric] v_def [symmetric] tu)
  have "chip_sync (chip (s\<lparr>total_ticks := t', total_usec := u'\<rparr>))" using assms(1) by simp
  from run_clocks_steps [OF this, of v] show ?thesis
    unfolding p v by (simp add: n_def time_ok_def r) (simp add: USEC_PER_SECOND_def)
qed

section \<open>The calls of an output only grow\<close>

definition calls_grow :: "counter_type \<Rightarrow> counter_type \<Rightarrow> bool" where
  "calls_grow c x \<longleftrightarrow> prefix (out_calls c) (out_calls x)"

lemma calls_grow_helpers:
  "calls_grow c (x\<lparr>next_change_time := t\<rparr>) = calls_grow c x" "calls_grow c (x\<lparr>triggerGATE := b\<rparr>) = calls_grow c x"
  "calls_grow c (x\<lparr>null_count := b\<rparr>) = calls_grow c x" "calls_grow c (x\<lparr>first_pass := b\<rparr>) = calls_grow c x"
  "calls_grow c (x\<lparr>state_bit_1 := b\<rparr>) = calls_grow c x" "calls_grow c (x\<lparr>state_bit_2 := b\<rparr>) = calls_grow c x"
  "calls_grow c (set_count v x) = calls_grow c x" "calls_grow c (decrement x) = calls_grow c x"
  by (simp_all add: calls_grow_def set_count_def set_binary_to_count_def)

lemma calls_grow_OUT: "calls_grow c x \<Longrightarrow> calls_grow c (set_OUT b x)"
  by (auto simp: calls_grow_def set_OUT_def Let_def intro: prefix_order.order_trans)

lemma calls_grow_refl: "calls_grow c c"
  by (simp add: calls_grow_def)

lemma calls_grow_if: "calls_grow c x \<Longrightarrow> calls_grow c y \<Longrightarrow> calls_grow c (if P then x else y)"
  by simp

lemmas calls_grow_intros = calls_grow_refl calls_grow_OUT calls_grow_if

lemma calls_grow_clock: "calls_grow c (clock_counter c)"
proof -
  have "calls_grow c (clock0 c)" unfolding clock0_def Let_def calls_grow_helpers
    by (intro calls_grow_intros calls_grow_helpers [THEN iffD2])
  moreover have "calls_grow c (clock1 c)" unfolding clock1_def Let_def calls_grow_helpers
    by (intro calls_grow_intros calls_grow_helpers [THEN iffD2])
  moreover have "calls_grow c (clock2 c)" unfolding clock2_def Let_def calls_grow_helpers
    by (intro calls_grow_intros calls_grow_helpers [THEN iffD2])
  moreover have "calls_grow c (clock3 c)" unfolding clock3_def toggle_OUT_def half_end_def Let_def calls_grow_helpers
    by (intro calls_grow_intros calls_grow_helpers [THEN iffD2])
  moreover have "calls_grow c (clock4 c)" unfolding clock4_def Let_def calls_grow_helpers
    by (intro calls_grow_intros calls_grow_helpers [THEN iffD2])
  moreover have "calls_grow c (clock5 c)" unfolding clock5_def Let_def calls_grow_helpers
    by (intro calls_grow_intros calls_grow_helpers [THEN iffD2])
  moreover have "calls_grow c (c\<lparr>next_change_time := 0, triggerGATE := False\<rparr>)"
    unfolding calls_grow_helpers by (rule calls_grow_refl)
  ultimately show ?thesis by (simp add: clock_counter_def)
qed

lemma calls_grow_clocks: "prefix (out_calls c) (out_calls ((clock_counter ^^ n) c))"
proof (induction n)
  case (Suc n)
  then show ?case using calls_grow_clock [of "(clock_counter ^^ n) c"]
    by (auto simp: calls_grow_def intro: prefix_order.order_trans)
qed simp

lemma calls_grow_each: "prefix (out_calls (counter p k)) (out_calls (counter ((clock_each ^^ n) p) k))"
  by (simp add: clock_each_counters calls_grow_clocks)

lemma new_calls_append:
  assumes "prefix (out_calls (counter p k)) (out_calls (counter q k))" "prefix (out_calls (counter q k)) (out_calls (counter r k))"
  shows "new_calls k p q @ new_calls k q r = new_calls k p r"
  using assms by (auto simp: new_calls_def prefix_def)

section \<open>The calls to the interrupt controller\<close>

fun pic_effect :: "pit_effect \<Rightarrow> bool" where
  "pic_effect (Pic_raise k) = True"
| "pic_effect (Pic_lower k) = True"
| "pic_effect e = False"

definition irq_calls :: "bool list \<Rightarrow> pit_effect list" where
  "irq_calls vs = map (\<lambda>v. if v then Pic_raise 0 else Pic_lower 0) vs"

lemma irq_enabled_handlers [simp]:
  "irq_enabled (irq_handler v s) = irq_enabled s" "irq_enabled (speaker_handler v s) = irq_enabled s"
  by (simp_all add: irq_handler_def speaker_handler_def)

lemma irq_enabled_folds [simp]:
  "irq_enabled (fold irq_handler vs s) = irq_enabled s" "irq_enabled (fold speaker_handler vs s) = irq_enabled s"
  by (induction vs arbitrary: s) simp_all

lemma irq_enabled_on_chip [simp]: "irq_enabled (on_chip f s) = irq_enabled s"
  by (simp add: on_chip_def Let_def)

lemma fold_irq_effects: "irq_enabled s \<Longrightarrow> effects (fold irq_handler vs s) = effects s @ irq_calls vs"
proof (induction vs arbitrary: s)
  case (Cons v vs)
  have "effects (irq_handler v s) = effects s @ irq_calls [v]" using Cons.prems by (simp add: irq_handler_def irq_calls_def)
  then show ?case using Cons.IH [of "irq_handler v s"] Cons.prems by (simp add: irq_calls_def)
qed (simp add: irq_calls_def)

lemma fold_speaker_effects: "filter pic_effect (effects (fold speaker_handler vs s)) = filter pic_effect (effects s)"
  by (induction vs arbitrary: s) (simp_all add: speaker_handler_def)

lemma irq_calls_pic: "filter pic_effect (irq_calls vs) = irq_calls vs"
  by (induction vs) (simp_all add: irq_calls_def)

lemma on_chip_pic_effects:
  assumes "irq_enabled s"
  shows "filter pic_effect (effects (on_chip f s)) =
    filter pic_effect (effects s) @ irq_calls (new_calls 0 (chip s) (f (chip s)))"
  using assms by (simp add: on_chip_def Let_def fold_speaker_effects fold_irq_effects irq_calls_pic)

lemma run_clocks_pic_effects:
  "chip_sync (chip s) \<Longrightarrow> irq_enabled s \<Longrightarrow> filter pic_effect (effects (run_clocks n s)) =
     filter pic_effect (effects s) @ irq_calls (new_calls 0 (chip s) ((clock_each ^^ unat n) (chip s)))"
proof (induction n s rule: run_clocks.induct)
  case (1 n s)
  show ?case
  proof (cases "n = 0")
    case True
    then show ?thesis by (simp add: run_clocks.simps new_calls_def irq_calls_def)
  next
    case False
    define m where "m = get_next_event_time (chip s)"
    define d where "d = (if m = 0 \<or> m > n then n else m)"
    define q where "q = (clock_each ^^ unat d) (chip s)"
    define s1 where "s1 = on_chip (clock_all d) s"
    have d: "d \<le> n" by (auto simp: d_def)
    then have nd: "unat n = unat (n - d) + unat d" by (simp add: unat_sub word_le_nat_alt)
    have r: "run_clocks n s = run_clocks (n - d) s1"
      using False by (simp add: run_clocks.simps [of n s] Let_def m_def [symmetric] d_def [symmetric] s1_def)
    have c: "chip s1 = q" by (simp add: s1_def q_def clock_all_steps [OF "1.prems"(1)])
    have fin: "(clock_each ^^ unat n) (chip s) = (clock_each ^^ unat (n - d)) q"
      by (simp only: nd funpow_add comp_def q_def)
    have "filter pic_effect (effects (run_clocks (n - d) s1)) =
      filter pic_effect (effects s1) @ irq_calls (new_calls 0 (chip s1) ((clock_each ^^ unat (n - d)) (chip s1)))"
      unfolding s1_def
      by (rule "1.IH" [OF False m_def d_def]) (use "1.prems" chip_sync_clocks in \<open>simp_all add: clock_all_steps\<close>)
    also have "filter pic_effect (effects s1) = filter pic_effect (effects s) @ irq_calls (new_calls 0 (chip s) q)"
      using "1.prems" by (simp add: s1_def q_def on_chip_pic_effects clock_all_steps)
    finally show ?thesis
      unfolding r c fin using new_calls_append [of "chip s" 0 q "(clock_each ^^ unat (n - d)) q"] calls_grow_each
      by (simp add: q_def irq_calls_def flip: map_append)
  qed
qed

lemma periodic_pic_effects:
  assumes "chip_sync (chip s)" "irq_enabled s"
  shows "filter pic_effect (effects (periodic d s)) =
    filter pic_effect (effects s) @ irq_calls (new_calls 0 (chip s) (chip (periodic d s)))"
proof -
  define w where "w = total_usec s + ucast d"
  define v where "v = (ucast (USEC_TO_TICKS w - total_ticks s) :: u32)"
  obtain t' u' where tu: "take_seconds (total_ticks s + ucast v) w = (t', u')" by fastforce
  define s1 where "s1 = s\<lparr>total_ticks := t', total_usec := u'\<rparr>"
  have p: "periodic d s = run_clocks v s1"
    by (simp add: periodic_def Let_def w_def [symmetric] v_def [symmetric] tu s1_def)
  have s1: "chip_sync (chip s1)" "irq_enabled s1" "chip s1 = chip s" "effects s1 = effects s" using assms by (simp_all add: s1_def)
  show ?thesis unfolding p
    using run_clocks_pic_effects [OF s1(1,2), of v] run_clocks_steps [OF s1(1), of v] s1 by simp
qed

definition new_pit :: "pit_82C54 \<Rightarrow> bx_pit" where
  "new_pit p = \<lparr>chip = p, speaker_data_on = False, speaker_active = False, speaker_level = False, last_usec = 0,
     last_next_event_time = 0, total_ticks = 0, total_usec = 0, timer_handle = 0, irq_enabled = True, effects = [],
     pit_panics = []\<rparr>"

lemma programmed_chip_sync: "rate lsb msb \<noteq> 1 \<Longrightarrow> chip_sync (program_rate lsb msb fresh_pit)"
proof -
  assume r: "rate lsb msb \<noteq> 1"
  have "pit_sync (counter (program_rate lsb msb fresh_pit) k)" if "k \<le> 2" for k
  proof (cases "k = 0")
    case True
    show ?thesis unfolding True
      by (rule programmed_sync [OF _ _ _ r]) (simp_all add: fresh_pit_counter counter_init_def)
  qed (use that fresh_pit_sync in \<open>simp add: program_rate_other\<close>)
  then show ?thesis by (simp add: chip_sync_def)
qed

section \<open>Properties\<close>

text \<open>C39: The interval timer does not drift.  While the counters are synchronised, any sequence of calls of
  \<open>periodic\<close> (each for at most 3500 seconds) clocks every counter exactly as often as the total time
  demands: the number of single clocks is the difference of the products of the accumulated
  microseconds with 1193181 Hz, rounded down once and not once per call.\<close>

theorem pit_periodic_no_drift:
  assumes "chip_sync (chip s)" "time_ok s" "\<And>d. d \<in> set ds \<Longrightarrow> unat d \<le> 3500000000"
  defines "u \<equiv> unat (total_usec s)"
  shows "chip (fold periodic ds s) =
    (clock_each ^^ (clocks_of (u + sum_list (map unat ds)) - clocks_of u)) (chip s)"
proof -
  have "chip (fold periodic ds s) = (clock_each ^^ (clocks_of (u + sum_list (map unat ds)) - clocks_of u)) (chip s) \<and>
    time_ok (fold periodic ds s) \<and> unat (total_usec (fold periodic ds s)) = (u + sum_list (map unat ds)) mod USEC_PER_SECOND"
    using assms(1-3) unfolding u_def
  proof (induction ds rule: rev_induct)
    case Nil
    then show ?case by (simp add: time_ok_def)
  next
    case (snoc d ds)
    define v where "v = unat (total_usec s)"
    define m where "m = v + sum_list (map unat ds)"
    define r where "r = fold periodic ds s"
    have IH: "chip r = (clock_each ^^ (clocks_of m - clocks_of v)) (chip s)" "time_ok r"
      "unat (total_usec r) = m mod USEC_PER_SECOND"
      using snoc.IH snoc.prems by (simp_all add: r_def m_def v_def)
    have "chip_sync (chip r)" unfolding IH(1) by (rule chip_sync_clocks [OF snoc.prems(1)])
    from periodic_steps [OF this IH(2), of d] have p:
      "chip (periodic d r) = (clock_each ^^ (clocks_of (m mod USEC_PER_SECOND + unat d) - clocks_of (m mod USEC_PER_SECOND))) (chip r)"
      "time_ok (periodic d r)" "unat (total_usec (periodic d r)) = (m mod USEC_PER_SECOND + unat d) mod USEC_PER_SECOND"
      using snoc.prems(3) by (simp_all add: IH(3))
    have "clocks_of (m mod USEC_PER_SECOND + unat d) - clocks_of (m mod USEC_PER_SECOND) = clocks_of (m + unat d) - clocks_of m"
      by (rule clocks_of_shift) simp
    then have "chip (periodic d r) = (clock_each ^^ ((clocks_of (m + unat d) - clocks_of m) + (clocks_of m - clocks_of v))) (chip s)"
      by (simp only: p(1) IH(1) funpow_add comp_def)
    moreover have "clocks_of v \<le> clocks_of m" "clocks_of m \<le> clocks_of (m + unat d)" by (simp_all add: clocks_of_mono m_def)
    ultimately show ?case using p(2,3)
      by (simp add: r_def [symmetric] v_def [symmetric] m_def [symmetric] add.assoc [symmetric] mod_add_left_eq)
  qed
  then show ?thesis by simp
qed

theorem pit_periodic_no_drift_witness:
  "chip (fold periodic [500, 1, 1, 1000000, 54925] (new_pit (program_rate 0 0 fresh_pit))) =
    (clock_each ^^ 1259315) (program_rate 0 0 fresh_pit)"
proof -
  have "clocks_of 1055427 = 1259315" by (simp add: clocks_of_def TICKS_PER_SECOND_def USEC_PER_SECOND_def)
  moreover have "clocks_of 0 = 0" by (simp add: clocks_of_def)
  moreover have "chip_sync (chip (new_pit (program_rate 0 0 fresh_pit)))"
    using programmed_chip_sync [of 0 0] by (simp add: new_pit_def rate_def)
  moreover have "time_ok (new_pit (program_rate 0 0 fresh_pit))"
    by (simp add: time_ok_def new_pit_def clocks_of_def USEC_PER_SECOND_def)
  moreover have "unat d \<le> 3500000000" if "d \<in> set [500, 1, 1, 1000000, 54925 :: u32]" for d using that by auto
  ultimately have "chip (fold periodic [500, 1, 1, 1000000, 54925] (new_pit (program_rate 0 0 fresh_pit))) =
    (clock_each ^^ (clocks_of (unat (total_usec (new_pit (program_rate 0 0 fresh_pit))) + 1055427) -
      clocks_of (unat (total_usec (new_pit (program_rate 0 0 fresh_pit)))))) (chip (new_pit (program_rate 0 0 fresh_pit)))"
    using pit_periodic_no_drift [of "new_pit (program_rate 0 0 fresh_pit)" "[500, 1, 1, 1000000, 54925]"]
    by (simp del: fold.simps)
  then show ?thesis using \<open>clocks_of 1055427 = 1259315\<close> \<open>clocks_of 0 = 0\<close> by (simp add: new_pit_def del: fold.simps)
qed

text \<open>Arming the virtual timer.  The delay computed for an event \<open>t\<close> clocks ahead is never later than
  the event (in whole microseconds), and it is the exact one for up to 4294 clocks; beyond that the
  32-bit product wraps, so the device is woken early and has to arm the timer again.\<close>

theorem pit_arming_delay:
  "unat (TICKS_TO_USEC t) \<le> unat t * 1000000 div 1193181 \<and>
   (unat t \<le> 4294 \<longrightarrow> unat (TICKS_TO_USEC t) = unat t * 1000000 div 1193181) \<and>
   unat (TICKS_TO_USEC 0xFFFF) = 930"
proof -
  have e: "unat (TICKS_TO_USEC t) = unat t * 1000000 mod 2 ^ 32 div 1193181" for t
    by (simp add: TICKS_TO_USEC_def USEC_PER_SECOND_def TICKS_PER_SECOND_def unat_div_distrib unat_word_ariths)
  have "unat t * 1000000 mod 2 ^ 32 \<le> unat t * 1000000" by (rule mod_less_eq_dividend)
  then show ?thesis unfolding e by (simp add: div_le_mono)
qed

theorem pit_arming_delay_witness: "unat (TICKS_TO_USEC 4294) = 3598"
  using pit_arming_delay [of 4294] by simp

end
