(* ===== verification/Crc.thy ===== *)
theory Crc
  imports Bochs_Prelude
begin

text \<open>
  The CRC-32 of src/crc.cc, which the debugger uses on guest memory: the table built on first use, the
  byte-at-a-time loop, and its equality with the bit-serial shift register of the CRC-32 definition.
\<close>

abbreviation (input) "CRC32_POLY \<equiv> 0x04c11db7 :: u32"

section \<open>The code\<close>

fun crc32_shift :: "nat \<Rightarrow> u32 \<Rightarrow> u32" where
  "crc32_shift 0 c = c"
| "crc32_shift (Suc j) c =
     crc32_shift j (if c AND 0x80000000 \<noteq> 0 then push_bit 1 c XOR CRC32_POLY else push_bit 1 c)"

definition crc32_table :: "u32 list" where
  "crc32_table = map (\<lambda>i. crc32_shift 8 (push_bit 24 (of_nat i))) [0..<256]"

fun crc32_loop :: "u32 \<Rightarrow> u8 list \<Rightarrow> u32" where
  "crc32_loop crc [] = crc"
| "crc32_loop crc (p # ps) =
     crc32_loop (push_bit 8 crc XOR crc32_table ! unat (drop_bit 24 crc XOR ucast p)) ps"

definition crc32 :: "u8 list \<Rightarrow> u32" where
  "crc32 buf = NOT (crc32_loop 0xffffffff buf)"

section \<open>The bit-serial definition\<close>

text \<open>The register takes in one message bit, most significant bit of each byte first.\<close>

definition serial_step :: "u32 \<Rightarrow> bool \<Rightarrow> u32" where
  "serial_step c b = (if bit c 31 \<noteq> b then push_bit 1 c XOR CRC32_POLY else push_bit 1 c)"

definition msb_bits :: "u8 \<Rightarrow> bool list" where
  "msb_bits p = map (\<lambda>k. bit p (7 - k)) [0..<8]"

definition serial_crc :: "u8 list \<Rightarrow> u32" where
  "serial_crc buf = NOT (fold (\<lambda>b c. serial_step c b) (concat (map msb_bits buf)) 0xffffffff)"

lemma crc_top_bit: "(c :: u32) AND 0x80000000 \<noteq> 0 \<longleftrightarrow> bit c 31"
proof -
  have "(0x80000000 :: u32) = shl1 31" by (simp add: shl1_def)
  then show ?thesis using tst_shl1 [of c 31] by (simp add: tst_def)
qed

lemma crc32_shift_xor: "crc32_shift n (a XOR b) = crc32_shift n a XOR crc32_shift n b"
proof (induction n arbitrary: a b)
  case 0 show ?case by simp
next
  case (Suc n)
  show ?case
    unfolding crc32_shift.simps crc_top_bit
    by (simp add: bit_xor_iff push_bit_xor Suc ac_simps xor.assoc xor.left_commute)
qed


lemma push_bit_1_bits: "bit (push_bit 1 (c :: u32)) k \<longleftrightarrow> k < 32 \<and> k \<noteq> 0 \<and> bit c (k - 1)"
  using bit_imp_le_length [of c "k - 1"]
  unfolding bit_push_bit_iff by (cases "k = 0") auto

lemma crc32_shift_push: "(\<And>k. 32 - n \<le> k \<Longrightarrow> \<not> bit c k) \<Longrightarrow> crc32_shift n c = push_bit n c"
proof (induction n arbitrary: c)
  case 0 show ?case by simp
next
  case (Suc n)
  have "\<not> bit c 31" using Suc.prems [of 31] by simp
  then have "crc32_shift (Suc n) c = crc32_shift n (push_bit 1 c)"
    unfolding crc32_shift.simps crc_top_bit by simp
  also have "\<dots> = push_bit n (push_bit 1 c)"
    using Suc.prems by (intro Suc.IH) (auto simp only: push_bit_1_bits)
  finally show ?case by (simp only: push_bit_push_bit Suc_eq_plus1 add.commute)
qed

text \<open>A block of message bits seen as the top of the register, first bit at bit 31.\<close>

fun reg_of :: "bool list \<Rightarrow> u32" where
  "reg_of [] = 0"
| "reg_of (b # bs) = (if b then shl1 31 else 0) XOR drop_bit 1 (reg_of bs)"

lemma bit_reg_of: "bit (reg_of bs) k \<longleftrightarrow> k < 32 \<and> 31 - k < length bs \<and> bs ! (31 - k)"
proof (induction bs arbitrary: k)
  case Nil show ?case by simp
next
  case (Cons b bs)
  show ?case
  proof (cases "k < 31")
    case True
    then have "31 - k = Suc (31 - Suc k)" by simp
    then show ?thesis using True by (simp add: bit_xor_iff bit_drop_bit_eq Cons.IH)
  next
    case False
    then show ?thesis
      by (cases "k = 31") (auto simp: bit_xor_iff bit_drop_bit_eq dest: bit_imp_le_length)
  qed
qed

lemma serial_step_shift: "serial_step c b = crc32_shift 1 (c XOR (if b then shl1 31 else 0))"
proof -
  have "push_bit 1 (shl1 31 :: u32) = 0" by (simp add: shl1_def)
  then have "push_bit 1 (c XOR (if b then shl1 31 else 0)) = push_bit 1 c" by (simp add: push_bit_xor)
  then show ?thesis
    unfolding serial_step_def One_nat_def crc32_shift.simps crc_top_bit by (simp add: bit_xor_iff)
qed

lemma crc32_shift_Suc: "crc32_shift (Suc n) c = crc32_shift n (crc32_shift 1 c)"
  by simp

lemma fold_serial_step:
  "length bs \<le> 32 \<Longrightarrow> fold (\<lambda>b c. serial_step c b) bs c = crc32_shift (length bs) (c XOR reg_of bs)"
proof (induction bs arbitrary: c)
  case Nil show ?case by simp
next
  case (Cons b bs)
  have "crc32_shift 1 (drop_bit 1 (reg_of bs)) = push_bit 1 (drop_bit 1 (reg_of bs))"
    by (rule crc32_shift_push) (auto simp: bit_drop_bit_eq dest: bit_imp_le_length)
  also have "\<dots> = reg_of bs"
    using Cons.prems
    by (intro bit_eqI) (auto simp only: push_bit_1_bits bit_drop_bit_eq comp_def bit_reg_of length_Cons
          Suc_pred' [symmetric] add.commute [of 1] Suc_eq_plus1 [symmetric] neq0_conv Suc_pred dest: gr0I)
  finally have top: "crc32_shift 1 (drop_bit 1 (reg_of bs)) = reg_of bs" .
  have "fold (\<lambda>b c. serial_step c b) (b # bs) c
      = crc32_shift (length bs) (crc32_shift 1 (c XOR (if b then shl1 31 else 0)) XOR reg_of bs)"
    using Cons by (simp add: serial_step_shift)
  also have "crc32_shift 1 (c XOR (if b then shl1 31 else 0)) XOR reg_of bs
      = crc32_shift 1 (c XOR reg_of (b # bs))"
    unfolding reg_of.simps by (simp only: crc32_shift_xor top xor.assoc)
  finally show ?case by (simp only: length_Cons crc32_shift_Suc)
qed

lemma reg_of_byte: "reg_of (msb_bits p) = push_bit 24 (ucast p)"
proof (rule bit_word_eqI)
  fix k assume "k < LENGTH(32)"
  then have "k < 32" by simp
  have "7 - (31 - k) = k - 24" if "24 \<le> k" using that \<open>k < 32\<close> by simp
  then show "bit (reg_of (msb_bits p)) k = bit (push_bit 24 (ucast p) :: u32) k"
    using \<open>k < 32\<close>
    by (auto simp: bit_reg_of msb_bits_def bit_push_bit_iff bit_ucast_iff simp del: push_bit_numeral dest: bit_imp_le_length)
qed

lemma crc32_table_lookup: "crc32_table ! unat (drop_bit 24 c XOR ucast (p :: u8)) = crc32_shift 8 (push_bit 24 (drop_bit 24 c XOR ucast p))"
proof -
  have "drop_bit 24 c XOR ucast p = take_bit 8 (drop_bit 24 c XOR (ucast p :: u32))"
    by (rule bit_eqI) (auto simp: bit_take_bit_iff bit_xor_iff bit_drop_bit_eq bit_ucast_iff dest: bit_imp_le_length)
  then have "unat (drop_bit 24 c XOR (ucast p :: u32)) = take_bit 8 (unat (drop_bit 24 c XOR (ucast p :: u32)))"
    by (metis unsigned_take_bit_eq)
  then have "unat (drop_bit 24 c XOR (ucast p :: u32)) < 256"
    using take_bit_nat_less_exp [of 8 "unat (drop_bit 24 c XOR (ucast p :: u32))"] by simp
  then show ?thesis by (simp add: crc32_table_def)
qed

lemma crc32_byte:
  "push_bit 8 c XOR crc32_table ! unat (drop_bit 24 c XOR ucast p) = fold (\<lambda>b c. serial_step c b) (msb_bits p) c"
proof -
  have low: "crc32_shift 8 (take_bit 24 c) = push_bit 8 c"
  proof -
    have "crc32_shift 8 (take_bit 24 c) = push_bit 8 (take_bit 24 c)"
      by (rule crc32_shift_push) (auto simp: bit_take_bit_iff)
    also have "\<dots> = push_bit 8 c"
      by (rule bit_eqI) (auto simp: bit_push_bit_iff bit_take_bit_iff simp del: push_bit_numeral)
    finally show ?thesis .
  qed
  have "c = take_bit 24 c XOR push_bit 24 (drop_bit 24 c)"
    by (rule bit_eqI) (auto simp: bit_push_bit_iff bit_take_bit_iff bit_drop_bit_eq bit_xor_iff simp del: push_bit_numeral)
  then have "crc32_shift 8 (c XOR push_bit 24 (ucast p))
      = crc32_shift 8 (take_bit 24 c XOR (push_bit 24 (drop_bit 24 c) XOR push_bit 24 (ucast p)))"
    by (metis xor.assoc)
  also have "\<dots> = push_bit 8 c XOR crc32_shift 8 (push_bit 24 (drop_bit 24 c XOR ucast p))"
    by (simp only: crc32_shift_xor [of 8 "take_bit 24 c"] low push_bit_xor)
  moreover have "fold (\<lambda>b c. serial_step c b) (msb_bits p) c = crc32_shift 8 (c XOR push_bit 24 (ucast p))"
    using fold_serial_step [of "msb_bits p" c] by (simp only: reg_of_byte) (simp add: msb_bits_def)
  ultimately show ?thesis by (simp only: crc32_table_lookup)
qed

text \<open>C23: The table-driven CRC of every buffer is the bit-serial CRC-32 of its bits, most significant bit first.\<close>

theorem crc32_table_driven: "crc32 buf = serial_crc buf"
proof -
  have "crc32_loop c buf = fold (\<lambda>b c. serial_step c b) (concat (map msb_bits buf)) c" for c
    by (induction buf arbitrary: c) (simp_all add: crc32_byte del: push_bit_numeral)
  then show ?thesis by (simp only: crc32_def serial_crc_def)
qed

end
