(* ===== verification/Phys_Mem.thy ===== *)
theory Phys_Mem
  imports Crc
begin

text \<open>
  Guest physical memory: src/memory/memory.cc, misc_mem.cc, memory_stub.cc and the monitor of
  cpu/mwait.cc. RAM is the byte function \<open>vector\<close> (the block allocator behind \<open>get_vector\<close> is in
  theory \<open>Ram_Blocks\<close>); the ROM array, the flash state machine, the SMRAM and shadow RAM switches, the chains of memory handlers
  and the monitored cache line are the fields of the two classes. The devices behind the memory handlers
  are a state \<open>'d\<close>; a handler is a function on it with the result of the C++ handler (handled or not).
  A \<open>cpu\<close> argument is \<open>None\<close> for the null pointer (a device access) or \<open>Some smm\<close> for a processor that is
  or is not in system management mode. The instruction cache's page write stamps are not part of the model.
\<close>

section \<open>State\<close>

record 'd memory_handler =
  h_param :: nat
  h_begin :: u64
  h_end :: u64
  h_bitmap :: u16
  read_handler :: "u64 \<Rightarrow> nat \<Rightarrow> 'd \<Rightarrow> u8 list option \<times> 'd"
  write_handler :: "(u64 \<Rightarrow> u8 list \<Rightarrow> 'd \<Rightarrow> bool \<times> 'd) option"
  da_handler :: "(u64 \<Rightarrow> nat \<Rightarrow> 'd \<Rightarrow> nat option \<times> 'd) option"

record 'd bx_mem =
  mem_len :: u64
  vector :: "u64 \<Rightarrow> u8"
  rom :: "u32 \<Rightarrow> u8"
  bogus :: "u32 \<Rightarrow> u8"
  memory_handlers :: "u64 \<Rightarrow> 'd memory_handler list"
  pci_enabled :: bool
  bios_write_enabled :: bool
  smram_available :: bool
  smram_enable :: bool
  smram_restricted :: bool
  rom_present :: "nat \<Rightarrow> bool"
  memory_type :: "nat \<Rightarrow> bool \<Rightarrow> bool"
  bios_rom_addr :: u32
  bios_rom_access :: u8
  flash_type :: u8
  flash_status :: u8
  flash_wsm_state :: u8
  flash_modified :: bool
  mem_a20_mask :: u64
  monitor_armed :: bool
  monitor_addr :: u64
  cpu_in_mwait :: bool
  mwaitx_armed :: bool
  mem_devices :: 'd
  dev_peek :: "nat \<Rightarrow> 'd \<Rightarrow> u8"
  dev_poke :: "nat \<Rightarrow> u8 \<Rightarrow> 'd \<Rightarrow> 'd"
  mem_panics :: "string list"

abbreviation (input) "FLASH_READ_ARRAY \<equiv> 0xff :: u8"
abbreviation (input) "FLASH_INT_ID \<equiv> 0x90 :: u8"
abbreviation (input) "FLASH_READ_STATUS \<equiv> 0x70 :: u8"
abbreviation (input) "FLASH_CLR_STATUS \<equiv> 0x50 :: u8"
abbreviation (input) "FLASH_ERASE_SETUP \<equiv> 0x20 :: u8"
abbreviation (input) "FLASH_ERASE_SUSP \<equiv> 0xb0 :: u8"
abbreviation (input) "FLASH_PROG_SETUP \<equiv> 0x40 :: u8"
abbreviation (input) "FLASH_ERASE \<equiv> 0xd0 :: u8"

definition BIOSROMSZ :: u32 where "BIOSROMSZ = 0x400000"
definition EXROMSIZE :: u32 where "EXROMSIZE = 0x20000"
definition BIOS_MASK :: u32 where "BIOS_MASK = BIOSROMSZ - 1"
definition EXROM_MASK :: u32 where "EXROM_MASK = EXROMSIZE - 1"
definition BIOS_MAP_LAST128K :: "u64 \<Rightarrow> u32" where
  "BIOS_MAP_LAST128K addr = ucast ((addr OR 0xfff00000) AND ucast BIOS_MASK)"
definition EXROM_INDEX :: "u64 \<Rightarrow> u32" where
  "EXROM_INDEX addr = ucast ((addr AND ucast EXROM_MASK) + ucast BIOSROMSZ)"
abbreviation (input) "BX_MEM_AREA_E0000 \<equiv> 8 :: nat"
abbreviation (input) "BX_MEM_AREA_F0000 \<equiv> 12 :: nat"

definition mem_panic :: "string \<Rightarrow> 'd bx_mem \<Rightarrow> 'd bx_mem" where
  "mem_panic msg m = m\<lparr>mem_panics := mem_panics m @ [msg]\<rparr>"

definition A20ADDR :: "u64 \<Rightarrow> 'd bx_mem \<Rightarrow> u64" where
  "A20ADDR x m = x AND mem_a20_mask m"

text \<open>A pointer into host memory: what \<open>getHostMemAddr\<close> returns when it is not null.\<close>

datatype host_ptr = Host_vector u64 | Host_rom u32 | Host_bogus u32 | Host_device nat

section \<open>Setup: initialisation, SMRAM, shadow RAM, BIOS writes\<close>

text \<open>
  Initialisation of the two classes. The contents \<open>v\<close> of fresh RAM are whatever the host allocates; the
  address mask \<open>a20\<close> and the devices belong to the rest of the machine.
\<close>

definition init_memory ::
  "u64 \<Rightarrow> bool \<Rightarrow> (u64 \<Rightarrow> u8) \<Rightarrow> u64 \<Rightarrow> 'd \<Rightarrow> (nat \<Rightarrow> 'd \<Rightarrow> u8) \<Rightarrow> (nat \<Rightarrow> u8 \<Rightarrow> 'd \<Rightarrow> 'd) \<Rightarrow> 'd bx_mem" where
  "init_memory guest pci v a20 d peek poke =
     \<lparr>mem_len = guest, vector = v, rom = (\<lambda>_. 0xff), bogus = (\<lambda>_. 0xff), memory_handlers = (\<lambda>_. []),
      pci_enabled = pci, bios_write_enabled = False,
      smram_available = False, smram_enable = False, smram_restricted = False,
      rom_present = (\<lambda>_. False), memory_type = (\<lambda>_ _. False), bios_rom_addr = 0xffff0000, bios_rom_access = 0,
      flash_type = 0, flash_status = 0x80, flash_wsm_state = FLASH_READ_ARRAY, flash_modified = False,
      mem_a20_mask = a20, monitor_armed = False, monitor_addr = 0xffffffff, cpu_in_mwait = False, mwaitx_armed = False,
      mem_devices = d, dev_peek = peek, dev_poke = poke,
      mem_panics = (if guest AND 0xfffff \<noteq> 0 then [''assertion failed: guest''] else [])\<rparr>"

definition enable_smram :: "bool \<Rightarrow> bool \<Rightarrow> 'd bx_mem \<Rightarrow> 'd bx_mem" where
  "enable_smram en restricted m = m\<lparr>smram_available := True, smram_enable := en, smram_restricted := restricted\<rparr>"

definition disable_smram :: "'d bx_mem \<Rightarrow> 'd bx_mem" where
  "disable_smram m = m\<lparr>smram_available := False, smram_enable := False, smram_restricted := False\<rparr>"

definition is_smram_accessible :: "'d bx_mem \<Rightarrow> bool" where
  "is_smram_accessible m \<longleftrightarrow> smram_available m \<and> (smram_enable m \<or> \<not> smram_restricted m)"

definition set_memory_type :: "nat \<Rightarrow> bool \<Rightarrow> bool \<Rightarrow> 'd bx_mem \<Rightarrow> 'd bx_mem" where
  "set_memory_type area rw dram m =
     (if area \<le> BX_MEM_AREA_F0000
      then m\<lparr>memory_type := (memory_type m)(area := (memory_type m area)(rw := dram))\<rparr> else m)"

definition set_bios_write :: "bool \<Rightarrow> 'd bx_mem \<Rightarrow> 'd bx_mem" where
  "set_bios_write enabled m = m\<lparr>bios_write_enabled := enabled\<rparr>"

definition set_bios_rom_access :: "u8 \<Rightarrow> bool \<Rightarrow> 'd bx_mem \<Rightarrow> 'd bx_mem" where
  "set_bios_rom_access region enabled m =
     (if enabled then m\<lparr>bios_rom_access := bios_rom_access m OR region\<rparr>
      else m\<lparr>bios_rom_access := bios_rom_access m AND NOT region\<rparr>)"

section \<open>The monitored cache line\<close>

definition CACHE_LINE_SIZE :: u64 where "CACHE_LINE_SIZE = 64"

definition arm_monitor :: "u64 \<Rightarrow> 'd bx_mem \<Rightarrow> 'd bx_mem" where
  "arm_monitor addr m = m\<lparr>monitor_addr := addr AND NOT (CACHE_LINE_SIZE - 1), monitor_armed := True\<rparr>"

definition is_monitor :: "u64 \<Rightarrow> u64 \<Rightarrow> 'd bx_mem \<Rightarrow> bool" where
  "is_monitor begin_addr len m =
     (if \<not> monitor_armed m then False
      else let monitor_begin = monitor_addr m;
               monitor_end = monitor_begin + CACHE_LINE_SIZE - 1;
               end_addr = begin_addr + len
           in \<not> (begin_addr \<ge> monitor_end \<or> end_addr \<le> monitor_begin))"

definition wakeup_monitor :: "'d bx_mem \<Rightarrow> 'd bx_mem" where
  "wakeup_monitor m = m\<lparr>cpu_in_mwait := False, monitor_armed := False, mwaitx_armed := False\<rparr>"

definition check_monitor :: "u64 \<Rightarrow> u64 \<Rightarrow> 'd bx_mem \<Rightarrow> 'd bx_mem" where
  "check_monitor begin_addr len m = (if is_monitor begin_addr len m then wakeup_monitor m else m)"

section \<open>Flash ROM\<close>

definition flash_read :: "u32 \<Rightarrow> 'd bx_mem \<Rightarrow> u8 \<times> 'd bx_mem" where
  "flash_read addr m =
     (if flash_wsm_state m = FLASH_INT_ID
      then (if addr AND 1 \<noteq> 0 then (if flash_type m = 2 then 0x7c else 0x94) else 0x89, m)
      else if flash_wsm_state m = FLASH_READ_ARRAY then (rom m addr, m)
      else (flash_status m,
            if flash_wsm_state m = FLASH_ERASE then m\<lparr>flash_status := flash_status m OR 0x80\<rparr> else m))"

text \<open>The loops \<open>rom[addr + i] = 0xff\<close>.\<close>

definition rom_fill_ff :: "u32 \<Rightarrow> nat \<Rightarrow> 'd bx_mem \<Rightarrow> 'd bx_mem" where
  "rom_fill_ff addr n m = m\<lparr>rom := (\<lambda>a. if unat (a - addr) < n then 0xff else rom m a)\<rparr>"

definition flash_write :: "u32 \<Rightarrow> u8 \<Rightarrow> 'd bx_mem \<Rightarrow> 'd bx_mem" where
  "flash_write addr data m =
     (let flash_addr = (if flash_type m = 2 then addr AND 0x3ffff else addr AND 0x1ffff)
      in if flash_wsm_state m = FLASH_PROG_SETUP
         then m\<lparr>rom := (rom m)(addr := rom m addr AND data), flash_wsm_state := FLASH_READ_STATUS, flash_modified := True\<rparr>
         else if data \<in> {FLASH_INT_ID, FLASH_READ_ARRAY, FLASH_ERASE_SETUP, FLASH_ERASE_SUSP, FLASH_PROG_SETUP}
         then m\<lparr>flash_wsm_state := data\<rparr>
         else if data = FLASH_READ_STATUS
         then (if flash_wsm_state m \<noteq> FLASH_ERASE then m\<lparr>flash_wsm_state := data\<rparr> else m)
         else if data = FLASH_CLR_STATUS
         then m\<lparr>flash_status := flash_status m AND NOT 0x38, flash_wsm_state := FLASH_READ_ARRAY\<rparr>
         else if data = FLASH_ERASE
         then (if flash_wsm_state m = FLASH_ERASE_SETUP
               then let m = m\<lparr>flash_status := flash_status m AND NOT 0xc0, flash_wsm_state := FLASH_ERASE\<rparr>
                    in if flash_type m = 1 \<and> (flash_addr = 0x1c000 \<or> flash_addr = 0x1d000)
                       then (rom_fill_ff addr 0x1000 m)\<lparr>flash_modified := True\<rparr>
                       else if flash_type m = 2 \<and> (flash_addr = 0x38000 \<or> flash_addr = 0x3a000)
                       then (rom_fill_ff addr 0x2000 m)\<lparr>flash_modified := True\<rparr>
                       else m
               else if flash_wsm_state m = FLASH_ERASE_SUSP
               then m\<lparr>flash_status := flash_status m AND NOT 0x40, flash_wsm_state := FLASH_ERASE\<rparr>
               else m)
         else m)"

section \<open>RAM accesses (BX_MEMORY_STUB_C)\<close>

definition cross_page :: "u64 \<Rightarrow> nat \<Rightarrow> bool" where
  "cross_page addr len \<longleftrightarrow> drop_bit 12 addr \<noteq> drop_bit 12 (addr + of_nat len - 1)"

definition vector_read :: "u64 \<Rightarrow> nat \<Rightarrow> 'd bx_mem \<Rightarrow> u8 list" where
  "vector_read a n m = map (\<lambda>i. vector m (a + of_nat i)) [0..<n]"

fun vector_write :: "u64 \<Rightarrow> u8 list \<Rightarrow> 'd bx_mem \<Rightarrow> 'd bx_mem" where
  "vector_write a [] m = m"
| "vector_write a (b # bs) m = vector_write (a + 1) bs (m\<lparr>vector := (vector m)(a := b)\<rparr>)"

text \<open>
  The general loop: eight bytes at a time while the length is a multiple of eight, else one byte.
  The length is positive (a length of 0 would wrap in the code; no caller passes it).
\<close>

function stub_read_loop :: "u64 \<Rightarrow> nat \<Rightarrow> 'd bx_mem \<Rightarrow> u8 list" where
  "stub_read_loop a len m =
     (if len = 0 then []
      else if len mod 8 = 0 then vector_read a 8 m @ stub_read_loop (a + 8) (len - 8) m
      else vector m a # stub_read_loop (a + 1) (len - 1) m)"
  by pat_completeness auto
termination by (relation "measure (\<lambda>(a, len, m). len)") auto

function stub_write_loop :: "u64 \<Rightarrow> u8 list \<Rightarrow> 'd bx_mem \<Rightarrow> 'd bx_mem" where
  "stub_write_loop a data m =
     (if data = [] then m
      else if length data mod 8 = 0 then stub_write_loop (a + 8) (drop 8 data) (vector_write a (take 8 data) m)
      else stub_write_loop (a + 1) (tl data) (m\<lparr>vector := (vector m)(a := hd data)\<rparr>))"
  by pat_completeness auto
termination by (relation "measure (\<lambda>(a, data, m). length data)") (auto simp: Suc_le_eq)

declare stub_read_loop.simps [simp del] stub_write_loop.simps [simp del]

definition stub_readPhysicalPage :: "u64 \<Rightarrow> nat \<Rightarrow> 'd bx_mem \<Rightarrow> u8 list \<times> 'd bx_mem" where
  "stub_readPhysicalPage addr len m =
     (let a20addr = A20ADDR addr m;
          m = (if cross_page addr len then mem_panic ''readPhysicalPage: cross page access'' m else m)
      in if a20addr < mem_len m
         then (if len \<in> {8, 4, 2, 1} then (vector_read a20addr len m, m)
               else (stub_read_loop a20addr len m, m))
         else (replicate len 0xff, m))"

definition stub_writePhysicalPage :: "u64 \<Rightarrow> u8 list \<Rightarrow> 'd bx_mem \<Rightarrow> 'd bx_mem" where
  "stub_writePhysicalPage addr data m =
     (let a20addr = A20ADDR addr m;
          m = (if cross_page addr (length data) then mem_panic ''writePhysicalPage: cross page access'' m else m);
          m = check_monitor a20addr (of_nat (length data)) m
      in if a20addr < mem_len m
         then (if length data \<in> {8, 4, 2, 1} then vector_write a20addr data m
               else stub_write_loop a20addr data m)
         else m)"

section \<open>Physical accesses (BX_MEM_C)\<close>

definition bios_addr :: "u64 \<Rightarrow> 'd bx_mem \<Rightarrow> bool" where
  "bios_addr a20addr m = (if a20addr > 0xffffffff then False else a20addr \<ge> ucast (bios_rom_addr m))"

definition smram_window :: "bool option \<Rightarrow> u64 \<Rightarrow> 'd bx_mem \<Rightarrow> bool" where
  "smram_window cpu a20addr m \<longleftrightarrow>
     (case cpu of None \<Rightarrow> False
      | Some smm_mode \<Rightarrow> a20addr \<ge> 0x000a0000 \<and> a20addr < 0x000c0000 \<and> smram_available m
          \<and> (smram_enable m \<or> smm_mode \<and> \<not> smram_restricted m))"

definition memory_area :: "u64 \<Rightarrow> nat" where
  "memory_area a20addr =
     (let area = unat (drop_bit 14 (ucast a20addr :: u32) AND 0x0f)
      in if area > BX_MEM_AREA_F0000 then BX_MEM_AREA_F0000 else area)"

fun handlers_read :: "'d memory_handler list \<Rightarrow> u64 \<Rightarrow> nat \<Rightarrow> 'd \<Rightarrow> u8 list option \<times> 'd" where
  "handlers_read [] a len d = (None, d)"
| "handlers_read (h # hs) a len d =
     (if h_begin h \<le> a \<and> h_end h \<ge> a
      then case read_handler h a len d of (Some data, d') \<Rightarrow> (Some data, d') | (None, d') \<Rightarrow> handlers_read hs a len d'
      else handlers_read hs a len d)"

fun handlers_write :: "'d memory_handler list \<Rightarrow> u64 \<Rightarrow> u8 list \<Rightarrow> 'd \<Rightarrow> bool \<times> 'd" where
  "handlers_write [] a data d = (False, d)"
| "handlers_write (h # hs) a data d =
     (case write_handler h of
        None \<Rightarrow> handlers_write hs a data d
      | Some wr \<Rightarrow>
          (if h_begin h \<le> a \<and> h_end h \<ge> a
           then case wr a data d of (True, d') \<Rightarrow> (True, d') | (False, d') \<Rightarrow> handlers_write hs a data d'
           else handlers_write hs a data d))"

text \<open>One byte of a read in 000A0000 .. 000FFFFF; \<open>b\<close> is the byte of the caller's buffer.\<close>

definition low_read_byte :: "bool option \<Rightarrow> u64 \<Rightarrow> u8 \<Rightarrow> 'd bx_mem \<Rightarrow> u8 \<times> 'd bx_mem" where
  "low_read_byte cpu a20addr b m =
     (if a20addr < 0x000c0000 then (if cpu \<noteq> None then vector m a20addr else b, m)
      else if pci_enabled m \<and> a20addr AND 0xfffc0000 = 0x000c0000
      then (if \<not> memory_type m (memory_area a20addr) False
            then (if a20addr AND 0xfffe0000 = 0x000e0000
                  then (if flash_type m > 0 then flash_read (BIOS_MAP_LAST128K a20addr) m
                        else (rom m (BIOS_MAP_LAST128K a20addr), m))
                  else (rom m (EXROM_INDEX a20addr), m))
            else (vector m a20addr, m))
      else if a20addr AND 0xfffc0000 \<noteq> 0x000c0000 then (vector m a20addr, m)
      else if a20addr AND 0xfffe0000 = 0x000e0000 then (rom m (BIOS_MAP_LAST128K a20addr), m)
      else (rom m (EXROM_INDEX a20addr), m))"

fun low_read_loop :: "bool option \<Rightarrow> u64 \<Rightarrow> u8 list \<Rightarrow> 'd bx_mem \<Rightarrow> u8 list \<times> 'd bx_mem" where
  "low_read_loop cpu a [] m = ([], m)"
| "low_read_loop cpu a (b # bs) m =
     (let (x, m) = low_read_byte cpu a b m; (xs, m) = low_read_loop cpu (a + 1) bs m in (x # xs, m))"

fun bios_read_loop :: "u64 \<Rightarrow> nat \<Rightarrow> 'd bx_mem \<Rightarrow> u8 list \<times> 'd bx_mem" where
  "bios_read_loop a 0 m = ([], m)"
| "bios_read_loop a (Suc n) m =
     (let addr = ucast (a AND ucast BIOS_MASK);
          (x, m) = (if flash_type m > 0 then flash_read addr m else (rom m addr, m));
          (xs, m) = bios_read_loop (a + 1) n m
      in (x # xs, m))"

definition mem_read_ram :: "bool option \<Rightarrow> u64 \<Rightarrow> u8 list \<Rightarrow> 'd bx_mem \<Rightarrow> u8 list \<times> 'd bx_mem" where
  "mem_read_ram cpu addr data m =
     (let a20addr = A20ADDR addr m; is_bios = bios_addr a20addr m; len = length data
      in if a20addr < mem_len m \<and> \<not> is_bios
         then (if a20addr < 0x000a0000 \<or> a20addr \<ge> 0x00100000 then stub_readPhysicalPage addr len m
               else low_read_loop cpu a20addr data m)
         else if a20addr > 0xffffffff then (replicate len 0xff, m)
         else if is_bios then bios_read_loop a20addr len m
         else (replicate len 0xff, m))"

definition readPhysicalPage :: "bool option \<Rightarrow> u64 \<Rightarrow> u8 list \<Rightarrow> 'd bx_mem \<Rightarrow> u8 list \<times> 'd bx_mem" where
  "readPhysicalPage cpu addr data m =
     (let a20addr = A20ADDR addr m; len = length data;
          m = (if cross_page addr len then mem_panic ''readPhysicalPage: cross page access'' m else m)
      in if smram_window cpu a20addr m then mem_read_ram cpu addr data m
         else case handlers_read (memory_handlers m (drop_bit 20 a20addr)) a20addr len (mem_devices m) of
                (Some data', d) \<Rightarrow> (data', m\<lparr>mem_devices := d\<rparr>)
              | (None, d) \<Rightarrow> mem_read_ram cpu addr data (m\<lparr>mem_devices := d\<rparr>))"

definition low_write_byte :: "bool option \<Rightarrow> u64 \<Rightarrow> u8 \<Rightarrow> 'd bx_mem \<Rightarrow> 'd bx_mem" where
  "low_write_byte cpu a20addr b m =
     (if a20addr < 0x000c0000
      then (if cpu \<noteq> None then m\<lparr>vector := (vector m)(a20addr := b)\<rparr> else m)
      else if pci_enabled m \<and> a20addr AND 0xfffc0000 = 0x000c0000
      then (let area = memory_area a20addr
            in if memory_type m area True then m\<lparr>vector := (vector m)(a20addr := b)\<rparr>
               else if area \<ge> BX_MEM_AREA_E0000 \<and> bios_write_enabled m
               then (if flash_type m > 0 then flash_write (BIOS_MAP_LAST128K a20addr) b m
                     else m\<lparr>rom := (rom m)(BIOS_MAP_LAST128K a20addr := b)\<rparr>)
               else m)
      else m)"

fun low_write_loop :: "bool option \<Rightarrow> u64 \<Rightarrow> u8 list \<Rightarrow> 'd bx_mem \<Rightarrow> 'd bx_mem" where
  "low_write_loop cpu a [] m = m"
| "low_write_loop cpu a (b # bs) m = low_write_loop cpu (a + 1) bs (low_write_byte cpu a b m)"

fun bios_write_loop :: "u64 \<Rightarrow> u8 list \<Rightarrow> 'd bx_mem \<Rightarrow> 'd bx_mem" where
  "bios_write_loop a [] m = m"
| "bios_write_loop a (b # bs) m =
     (let addr = ucast (a AND ucast BIOS_MASK)
      in bios_write_loop (a + 1) bs
           (if flash_type m > 0 then flash_write addr b m else m\<lparr>rom := (rom m)(addr := b)\<rparr>))"

definition mem_write_ram :: "bool option \<Rightarrow> u64 \<Rightarrow> u8 list \<Rightarrow> 'd bx_mem \<Rightarrow> 'd bx_mem" where
  "mem_write_ram cpu addr data m =
     (let a20addr = A20ADDR addr m; is_bios = bios_addr a20addr m
      in if a20addr < mem_len m \<and> \<not> is_bios
         then (if a20addr < 0x000a0000 \<or> a20addr \<ge> 0x00100000 then stub_writePhysicalPage addr data m
               else low_write_loop cpu a20addr data m)
         else if bios_write_enabled m \<and> is_bios then bios_write_loop a20addr data m
         else m)"

definition writePhysicalPage :: "bool option \<Rightarrow> u64 \<Rightarrow> u8 list \<Rightarrow> 'd bx_mem \<Rightarrow> 'd bx_mem" where
  "writePhysicalPage cpu addr data m =
     (let a20addr = A20ADDR addr m;
          m = (if cross_page addr (length data) then mem_panic ''writePhysicalPage: cross page access'' m else m);
          m = check_monitor a20addr (of_nat (length data)) m
      in if smram_window cpu a20addr m then mem_write_ram cpu addr data m
         else case handlers_write (memory_handlers m (drop_bit 20 a20addr)) a20addr data (mem_devices m) of
                (True, d) \<Rightarrow> m\<lparr>mem_devices := d\<rparr>
              | (False, d) \<Rightarrow> mem_write_ram cpu addr data (m\<lparr>mem_devices := d\<rparr>))"


section \<open>Direct access\<close>

abbreviation (input) "BX_READ \<equiv> 0 :: nat"
abbreviation (input) "BX_WRITE \<equiv> 1 :: nat"
abbreviation (input) "BX_EXECUTE \<equiv> 2 :: nat"
abbreviation (input) "BX_RW \<equiv> 3 :: nat"

fun find_handler :: "'d memory_handler list \<Rightarrow> u64 \<Rightarrow> 'd memory_handler option" where
  "find_handler [] a = None"
| "find_handler (h # hs) a = (if h_begin h \<le> a \<and> h_end h \<ge> a then Some h else find_handler hs a)"

definition host_read_addr :: "u64 \<Rightarrow> 'd bx_mem \<Rightarrow> host_ptr option" where
  "host_read_addr a20addr m =
     (let is_bios = bios_addr a20addr m
      in if a20addr \<ge> 0x000a0000 \<and> a20addr < 0x000c0000 then None
         else if pci_enabled m \<and> a20addr \<ge> 0x000c0000 \<and> a20addr < 0x00100000
         then (if \<not> memory_type m (memory_area a20addr) False
               then (if a20addr AND 0xfffe0000 = 0x000e0000 then Some (Host_rom (BIOS_MAP_LAST128K a20addr))
                     else Some (Host_rom (EXROM_INDEX a20addr)))
               else Some (Host_vector a20addr))
         else if a20addr < mem_len m \<and> \<not> is_bios
         then (if a20addr < 0x000c0000 \<or> a20addr \<ge> 0x00100000 then Some (Host_vector a20addr)
               else if a20addr AND 0xfffe0000 = 0x000e0000 then Some (Host_rom (BIOS_MAP_LAST128K a20addr))
               else Some (Host_rom (EXROM_INDEX a20addr)))
         else if a20addr > 0xffffffff then Some (Host_bogus (ucast (a20addr AND 0xfff)))
         else if is_bios then Some (Host_rom (ucast (a20addr AND ucast BIOS_MASK)))
         else Some (Host_bogus (ucast (a20addr AND 0xfff))))"

definition host_write_addr :: "u64 \<Rightarrow> 'd bx_mem \<Rightarrow> host_ptr option" where
  "host_write_addr a20addr m =
     (if a20addr \<ge> mem_len m \<or> bios_addr a20addr m then None
      else if a20addr \<ge> 0x000a0000 \<and> a20addr < 0x000c0000 then None
      else if pci_enabled m \<and> a20addr \<ge> 0x000c0000 \<and> a20addr < 0x00100000 then None
      else if a20addr < 0x000c0000 \<or> a20addr \<ge> 0x00100000 then Some (Host_vector a20addr)
      else None)"

definition getHostMemAddr :: "bool option \<Rightarrow> u64 \<Rightarrow> nat \<Rightarrow> 'd bx_mem \<Rightarrow> host_ptr option \<times> 'd bx_mem" where
  "getHostMemAddr cpu addr rw m =
     (let a20addr = A20ADDR addr m; wr = odd rw
      in if rw = BX_EXECUTE \<and> a20addr \<ge> 0x000a0000 \<and> a20addr < 0x000c0000 \<and> smram_available m
            \<and> (case cpu of None \<Rightarrow> False | Some smm_mode \<Rightarrow> smram_enable m \<or> smm_mode)
         then (Some (Host_vector a20addr), m)
         else if wr \<and> is_monitor (a20addr AND NOT 0xfff) 0xfff m then (None, m)
         else case find_handler (memory_handlers m (drop_bit 20 a20addr)) a20addr of
                Some h \<Rightarrow>
                  (case da_handler h of
                     None \<Rightarrow> (None, m)
                   | Some da \<Rightarrow> let (ptr, d) = da a20addr rw (mem_devices m)
                                in (map_option Host_device ptr, m\<lparr>mem_devices := d\<rparr>))
              | None \<Rightarrow> (if \<not> wr then host_read_addr a20addr m else host_write_addr a20addr m, m))"

text \<open>Copies through a host pointer.\<close>

definition host_byte :: "host_ptr \<Rightarrow> nat \<Rightarrow> 'd bx_mem \<Rightarrow> u8" where
  "host_byte p i m =
     (case p of Host_vector a \<Rightarrow> vector m (a + of_nat i)
      | Host_rom a \<Rightarrow> rom m (a + of_nat i)
      | Host_bogus a \<Rightarrow> bogus m (a + of_nat i)
      | Host_device n \<Rightarrow> dev_peek m (n + i) (mem_devices m))"

definition host_memcpy_from :: "host_ptr \<Rightarrow> nat \<Rightarrow> 'd bx_mem \<Rightarrow> u8 list" where
  "host_memcpy_from p len m = map (\<lambda>i. host_byte p i m) [0..<len]"

fun host_memcpy_to :: "host_ptr \<Rightarrow> u8 list \<Rightarrow> 'd bx_mem \<Rightarrow> 'd bx_mem" where
  "host_memcpy_to p [] m = m"
| "host_memcpy_to (Host_vector a) (b # bs) m =
     host_memcpy_to (Host_vector (a + 1)) bs (m\<lparr>vector := (vector m)(a := b)\<rparr>)"
| "host_memcpy_to (Host_rom a) (b # bs) m =
     host_memcpy_to (Host_rom (a + 1)) bs (m\<lparr>rom := (rom m)(a := b)\<rparr>)"
| "host_memcpy_to (Host_bogus a) (b # bs) m =
     host_memcpy_to (Host_bogus (a + 1)) bs (m\<lparr>bogus := (bogus m)(a := b)\<rparr>)"
| "host_memcpy_to (Host_device n) (b # bs) m =
     host_memcpy_to (Host_device (n + 1)) bs (m\<lparr>mem_devices := dev_poke m n b (mem_devices m)\<rparr>)"

fun dma_read_loop :: "u64 \<Rightarrow> u8 list \<Rightarrow> 'd bx_mem \<Rightarrow> u8 list \<times> 'd bx_mem" where
  "dma_read_loop addr [] m = ([], m)"
| "dma_read_loop addr (b # bs) m =
     (let (x, m) = readPhysicalPage None addr [b] m; (xs, m) = dma_read_loop (addr + 1) bs m in (x @ xs, m))"

definition dmaReadPhysicalPage :: "u64 \<Rightarrow> u8 list \<Rightarrow> 'd bx_mem \<Rightarrow> u8 list \<times> 'd bx_mem" where
  "dmaReadPhysicalPage addr data m =
     (let len = length data;
          m = (if cross_page addr len then mem_panic ''dmaReadPhysicalPage: cross page access'' m else m)
      in case getHostMemAddr None addr BX_READ m of
           (Some memptr, m) \<Rightarrow> (host_memcpy_from memptr len m, m)
         | (None, m) \<Rightarrow> dma_read_loop addr data m)"

fun dma_write_loop :: "u64 \<Rightarrow> u8 list \<Rightarrow> 'd bx_mem \<Rightarrow> 'd bx_mem" where
  "dma_write_loop addr [] m = m"
| "dma_write_loop addr (b # bs) m = dma_write_loop (addr + 1) bs (writePhysicalPage None addr [b] m)"

definition dmaWritePhysicalPage :: "u64 \<Rightarrow> u8 list \<Rightarrow> 'd bx_mem \<Rightarrow> 'd bx_mem" where
  "dmaWritePhysicalPage addr data m =
     (let m = (if cross_page addr (length data) then mem_panic ''dmaWritePhysicalPage: cross page access'' m else m)
      in case getHostMemAddr None addr BX_WRITE m of
           (Some memptr, m) \<Rightarrow> host_memcpy_to memptr data m
         | (None, m) \<Rightarrow> dma_write_loop addr data m)"

section \<open>The debugger's accesses\<close>

definition dbg_handler :: "bool \<Rightarrow> u64 \<Rightarrow> 'd bx_mem \<Rightarrow> 'd memory_handler option" where
  "dbg_handler smm_mode a20addr m =
     (if smram_window (Some smm_mode) a20addr m then None
      else find_handler (memory_handlers m (drop_bit 20 a20addr)) a20addr)"

text \<open>The byte, the state, and whether the address exists. \<open>is_bios\<close> is that of the first address.\<close>

definition dbg_fetch_byte ::
  "'d memory_handler option \<Rightarrow> bool \<Rightarrow> u64 \<Rightarrow> u8 \<Rightarrow> 'd bx_mem \<Rightarrow> u8 \<times> bool \<times> 'd bx_mem" where
  "dbg_fetch_byte handler is_bios a20addr b m =
     (case handler of
        Some h \<Rightarrow>
          (let (r, d) = read_handler h a20addr 1 (mem_devices m)
           in (case r of Some [x] \<Rightarrow> x | _ \<Rightarrow> b, True, m\<lparr>mem_devices := d\<rparr>))
      | None \<Rightarrow>
          (if pci_enabled m \<and> a20addr \<ge> 0x000c0000 \<and> a20addr < 0x00100000
           then (if \<not> memory_type m (memory_area a20addr) False
                 then (if a20addr AND 0xfffe0000 = 0x000e0000
                       then (if flash_type m > 0
                             then let (x, m) = flash_read (BIOS_MAP_LAST128K a20addr) m in (x, True, m)
                             else (rom m (BIOS_MAP_LAST128K a20addr), True, m))
                       else (rom m (EXROM_INDEX a20addr), True, m))
                 else (vector m a20addr, True, m))
           else if a20addr < mem_len m \<and> \<not> is_bios
           then (if a20addr < 0x000c0000 \<or> a20addr \<ge> 0x00100000 then (vector m a20addr, True, m)
                 else if a20addr AND 0xfffe0000 = 0x000e0000 then (rom m (BIOS_MAP_LAST128K a20addr), True, m)
                 else (rom m (EXROM_INDEX a20addr), True, m))
           else if a20addr > 0xffffffff then (0xff, False, m)
           else if is_bios
           then (if flash_type m > 0 then let (x, m) = flash_read (ucast (a20addr AND ucast BIOS_MASK)) m in (x, True, m)
                 else (rom m (ucast (a20addr AND ucast BIOS_MASK)), True, m))
           else (0xff, False, m)))"

fun dbg_fetch_loop ::
  "'d memory_handler option \<Rightarrow> bool \<Rightarrow> u64 \<Rightarrow> u8 list \<Rightarrow> bool \<Rightarrow> 'd bx_mem \<Rightarrow> bool \<times> u8 list \<times> 'd bx_mem" where
  "dbg_fetch_loop h is_bios a [] ret m = (ret, [], m)"
| "dbg_fetch_loop h is_bios a (b # bs) ret m =
     (let (x, ok, m) = dbg_fetch_byte h is_bios a b m;
          (ret, xs, m) = dbg_fetch_loop h is_bios (a + 1) bs (ret \<and> ok) m
      in (ret, x # xs, m))"

definition dbg_fetch_mem :: "bool \<Rightarrow> u64 \<Rightarrow> u8 list \<Rightarrow> 'd bx_mem \<Rightarrow> bool \<times> u8 list \<times> 'd bx_mem" where
  "dbg_fetch_mem smm_mode addr buf m =
     (let a20addr = A20ADDR addr m
      in dbg_fetch_loop (dbg_handler smm_mode a20addr m) (bios_addr a20addr m) a20addr buf True m)"

definition dbg_set_byte :: "'d memory_handler option \<Rightarrow> bool \<Rightarrow> u64 \<Rightarrow> u8 \<Rightarrow> 'd bx_mem \<Rightarrow> 'd bx_mem" where
  "dbg_set_byte handler is_bios a20addr b m =
     (case handler of
        Some h \<Rightarrow>
          (case write_handler h of None \<Rightarrow> mem_panic ''null write handler called'' m
           | Some wr \<Rightarrow> m\<lparr>mem_devices := snd (wr a20addr [b] (mem_devices m))\<rparr>)
      | None \<Rightarrow>
          (if pci_enabled m \<and> a20addr \<ge> 0x000c0000 \<and> a20addr < 0x00100000
           then (if memory_type m (memory_area a20addr) True then m\<lparr>vector := (vector m)(a20addr := b)\<rparr> else m)
           else if (a20addr < 0x000c0000 \<or> a20addr \<ge> 0x00100000) \<and> \<not> is_bios
           then m\<lparr>vector := (vector m)(a20addr := b)\<rparr>
           else m))"

fun dbg_set_loop :: "'d memory_handler option \<Rightarrow> bool \<Rightarrow> u64 \<Rightarrow> u8 list \<Rightarrow> 'd bx_mem \<Rightarrow> 'd bx_mem" where
  "dbg_set_loop h is_bios a [] m = m"
| "dbg_set_loop h is_bios a (b # bs) m = dbg_set_loop h is_bios (a + 1) bs (dbg_set_byte h is_bios a b m)"

definition dbg_set_mem :: "bool \<Rightarrow> u64 \<Rightarrow> u8 list \<Rightarrow> 'd bx_mem \<Rightarrow> bool \<times> 'd bx_mem" where
  "dbg_set_mem smm_mode addr buf m =
     (let a20addr = A20ADDR addr m
      in if a20addr + of_nat (length buf) - 1 > mem_len m then (False, m)
         else (True, dbg_set_loop (dbg_handler smm_mode a20addr m) (bios_addr a20addr m) a20addr buf m))"

text \<open>The loop \<open>while(1)\<close> of \<open>dbg_crc32\<close>; \<open>None\<close> is a call that does not return.\<close>

partial_function (option) dbg_crc32_loop :: "'d bx_mem \<Rightarrow> u64 \<Rightarrow> u32 \<Rightarrow> u32 \<Rightarrow> (bool \<times> u32) option" where
  "dbg_crc32_loop m addr1 len crc =
     (let remainsInPage = ucast (0x1000 - (addr1 AND 0xfff)) :: u32;
          access_length = (if len < remainsInPage then len else remainsInPage)
      in dbg_crc32_loop m (addr1 + ucast access_length) (len - access_length)
           (crc32 (vector_read addr1 (unat access_length) m)))"

definition dbg_crc32 :: "u64 \<Rightarrow> u64 \<Rightarrow> 'd bx_mem \<Rightarrow> (bool \<times> u32) option" where
  "dbg_crc32 addr1 addr2 m =
     (if addr1 > addr2 then Some (False, 0)
      else if addr2 \<ge> mem_len m then Some (False, 0)
      else dbg_crc32_loop m addr1 (ucast (1 + addr2 - addr1)) 0)"

end
