(* ===== verification/Mem_Access.thy ===== *)
theory Mem_Access
  imports Phys_Mem
begin

text \<open>
  What the accesses of theory \<open>Phys_Mem\<close> do: the RAM loops are plain copies, a RAM write is read back
  and changes nothing else, the DMA shortcut through a host pointer is the byte-by-byte access, the closed SMRAM window
  is not reached, and the debugger's accesses.
\<close>

section \<open>RAM as a byte function\<close>

definition overlay :: "u64 \<Rightarrow> u8 list \<Rightarrow> (u64 \<Rightarrow> u8) \<Rightarrow> u64 \<Rightarrow> u8" where
  "overlay a bs v x = (if unat (x - a) < length bs then bs ! unat (x - a) else v x)"

lemma overlay_Nil [simp]: "overlay a [] v = v"
  by (simp add: overlay_def fun_eq_iff)

lemma unat_diff_Suc:
  "(x :: u64) \<noteq> a \<Longrightarrow> unat (x - a) = Suc (unat (x - (a + 1)))"
proof -
  assume "x \<noteq> a"
  then have "x - a \<noteq> 0" by simp
  then have "unat (1 + (x - a - 1)) = Suc (unat (x - a - 1))" by (intro unatSuc) simp
  then show ?thesis by (simp add: diff_diff_add)
qed

lemma overlay_Cons:
  assumes "length bs < 2 ^ 64"
  shows "overlay a (b # bs) v = overlay (a + 1) bs (v(a := b))"
proof
  fix x
  show "overlay a (b # bs) v x = overlay (a + 1) bs (v(a := b)) x"
  proof (cases "x = a")
    case True
    then have "x - (a + 1) = - 1" by simp
    then have "unat (x - (a + 1)) = 2 ^ 64 - 1" by (simp add: unsigned_minus_1_eq_mask mask_eq_exp_minus_1)
    then show ?thesis using True assms by (simp add: overlay_def)
  next
    case False
    then show ?thesis by (simp add: overlay_def unat_diff_Suc)
  qed
qed

lemma vector_write_overlay:
  "length bs \<le> 2 ^ 64 \<Longrightarrow> vector_write a bs m = m\<lparr>vector := overlay a bs (vector m)\<rparr>"
proof (induction a bs m rule: vector_write.induct)
  case (2 a b bs m)
  then show ?case by (simp add: overlay_Cons fun_upd_def)
qed simp

lemma vector_write_append:
  "vector_write a (xs @ ys) m = vector_write (a + of_nat (length xs)) ys (vector_write a xs m)"
  by (induction a xs m rule: vector_write.induct) (simp_all add: algebra_simps)

lemma vector_read_Suc: "vector_read a (Suc n) m = vector m a # vector_read (a + 1) n m"
  by (simp add: vector_read_def upt_conv_Cons map_Suc_upt [symmetric] comp_def algebra_simps del: upt_Suc)

lemma vector_read_append:
  "vector_read a (n + k) m = vector_read a n m @ vector_read (a + of_nat n) k m"
  by (induction n arbitrary: a) (simp_all add: vector_read_Suc algebra_simps, simp add: vector_read_def)

lemma stub_read_loop_eq: "stub_read_loop a len m = vector_read a len m"
proof (induction a len m rule: stub_read_loop.induct)
  case (1 a len m)
  consider "len = 0" | "len \<noteq> 0" "len mod 8 = 0" | "len \<noteq> 0" "len mod 8 \<noteq> 0" by blast
  then show ?case
  proof cases
    case 1 then show ?thesis by (subst stub_read_loop.simps) (simp add: vector_read_def)
  next
    case 2
    then have "len = 8 + (len - 8)" by auto
    then show ?thesis
      using 2 1(1) vector_read_append [of a 8 "len - 8" m] by (simp add: stub_read_loop.simps [of a len])
  next
    case 3
    then have "len = 1 + (len - 1)" by auto
    moreover have "vector_read a 1 m = [vector m a]" by (simp add: vector_read_def)
    ultimately show ?thesis
      using 3 1(2) vector_read_append [of a 1 "len - 1" m] by (simp add: stub_read_loop.simps [of a len])
  qed
qed

lemma stub_write_loop_eq: "stub_write_loop a data m = vector_write a data m"
proof (induction a data m rule: stub_write_loop.induct)
  case (1 a data m)
  consider "data = []" | "data \<noteq> []" "length data mod 8 = 0" | "data \<noteq> []" "length data mod 8 \<noteq> 0" by blast
  then show ?case
  proof cases
    case 1 then show ?thesis by (subst stub_write_loop.simps) simp
  next
    case 2
    then have "8 \<le> length data" by (metis dvd_imp_le length_greater_0_conv mod_0_imp_dvd)
    then have "vector_write a (take 8 data @ drop 8 data) m
        = vector_write (a + 8) (drop 8 data) (vector_write a (take 8 data) m)"
      by (subst vector_write_append) simp
    then show ?thesis using 2 1(1) by (simp add: stub_write_loop.simps [of a data])
  next
    case 3
    then obtain b bs where "data = b # bs" by (cases data) auto
    then show ?thesis using 3 1(2) by (simp add: stub_write_loop.simps [of a "b # bs"])
  qed
qed

text \<open>The special cases of the stub for 8, 4, 2 and 1 bytes are the general loop.\<close>

lemma stub_read_eq:
  "\<not> cross_page addr len \<Longrightarrow>
    stub_readPhysicalPage addr len m
    = (if A20ADDR addr m < mem_len m then vector_read (A20ADDR addr m) len m else replicate len 0xff, m)"
  by (simp add: stub_readPhysicalPage_def stub_read_loop_eq Let_def)

lemma stub_write_eq:
  "\<not> cross_page addr (length data) \<Longrightarrow>
    stub_writePhysicalPage addr data m
    = (let m = check_monitor (A20ADDR addr m) (of_nat (length data)) m
       in if A20ADDR addr m < mem_len m then vector_write (A20ADDR addr m) data m else m)"
  by (auto simp: stub_writePhysicalPage_def stub_write_loop_eq Let_def check_monitor_def wakeup_monitor_def A20ADDR_def)

section \<open>Plain RAM\<close>

text \<open>An address at which the CPU and the devices find RAM: no handler, no ROM, below the memory's length.\<close>

definition plain_ram :: "u64 \<Rightarrow> 'd bx_mem \<Rightarrow> bool" where
  "plain_ram a m \<longleftrightarrow>
     A20ADDR a m = a \<and> a < mem_len m \<and> \<not> bios_addr a m \<and> (a < 0x000a0000 \<or> a \<ge> 0x00100000)
     \<and> find_handler (memory_handlers m (drop_bit 20 a)) a = None"

lemma handlers_none:
  "find_handler hs a = None \<Longrightarrow> handlers_read hs a len d = (None, d)"
  "find_handler hs a = None \<Longrightarrow> handlers_write hs a data d = (False, d)"
  by (induction hs a rule: find_handler.induct) (auto split: option.splits if_splits)

lemma check_monitor_simps [simp]:
  "mem_len (check_monitor x y m) = mem_len m" "A20ADDR a (check_monitor x y m) = A20ADDR a m"
  "bios_addr a (check_monitor x y m) = bios_addr a m" "memory_handlers (check_monitor x y m) = memory_handlers m"
  "mem_devices (check_monitor x y m) = mem_devices m" "smram_window c a (check_monitor x y m) = smram_window c a m"
  "vector (check_monitor x y m) = vector m" "rom (check_monitor x y m) = rom m"
  "check_monitor x y (check_monitor x y m) = check_monitor x y m"
  by (auto simp: check_monitor_def wakeup_monitor_def A20ADDR_def bios_addr_def smram_window_def is_monitor_def
        split: option.split)

lemma check_monitor_devices [simp]:
  "(check_monitor x y m)\<lparr>mem_devices := mem_devices m\<rparr> = check_monitor x y m"
  by (simp add: check_monitor_def wakeup_monitor_def)

lemma plain_ram_check_monitor [simp]: "plain_ram a (check_monitor x y m) = plain_ram a m"
  by (simp add: plain_ram_def)

lemma plain_ram_vector [simp]: "plain_ram a (m\<lparr>vector := v\<rparr>) = plain_ram a m"
  by (simp add: plain_ram_def A20ADDR_def bios_addr_def)

lemma plain_ram_read:
  assumes "plain_ram a m" "\<not> cross_page a (length data)"
  shows "readPhysicalPage cpu a data m = (vector_read a (length data) m, m)"
proof -
  have "mem_read_ram cpu a data m = (vector_read a (length data) m, m)"
    using assms by (auto simp: mem_read_ram_def plain_ram_def stub_read_eq Let_def)
  then show ?thesis
    using assms by (simp add: readPhysicalPage_def plain_ram_def handlers_none Let_def)
qed

lemma plain_ram_write:
  assumes "plain_ram a m" "\<not> cross_page a (length data)"
  shows "writePhysicalPage cpu a data m = vector_write a data (check_monitor a (of_nat (length data)) m)"
proof -
  let ?m = "check_monitor a (of_nat (length data)) m"
  have "plain_ram a ?m" "A20ADDR a m = a" using assms by (auto simp: plain_ram_def)
  then have "mem_write_ram cpu a data ?m = vector_write a data ?m"
    using assms by (auto simp: mem_write_ram_def plain_ram_def stub_write_eq Let_def)
  then show ?thesis
    using assms by (simp add: writePhysicalPage_def plain_ram_def handlers_none Let_def)
qed


text \<open>C16: A CPU or device write to plain RAM is read back: a later read of any length at any plain address
  returns the written bytes where the two overlap and the earlier contents elsewhere, whatever the two access
  lengths, and no other part of the memory system changes except a monitor that the write triggers.\<close>

theorem ram_read_after_write:
  assumes "plain_ram a m" "\<not> cross_page a (length data)" "length data \<le> 4096"
    and "plain_ram b m" "\<not> cross_page b (length buf)"
  shows "readPhysicalPage cpu' b buf (writePhysicalPage cpu a data m)
    = (map (\<lambda>i. overlay a data (vector m) (b + of_nat i)) [0..<length buf],
       (check_monitor a (of_nat (length data)) m)\<lparr>vector := overlay a data (vector m)\<rparr>)"
  using assms by (simp add: plain_ram_write plain_ram_read vector_write_overlay) (simp add: vector_read_def)

section \<open>The DMA shortcut\<close>


lemma unat_drop_bit_12: "unat (drop_bit 12 (a :: u64)) = unat a div 4096"
  by (simp add: drop_bit_eq_div unat_div)

lemma in_page:
  fixes a :: u64
  assumes "\<not> cross_page a n" "i < n" "n \<le> 4096"
  shows in_page_unat: "unat (a + of_nat i) = unat a + i"
    and in_page_div: "(unat a + i) div 4096 = unat a div 4096"
proof -
  let ?A = "unat a"
  have A: "?A < 2 ^ 64" using unsigned_less [of a] by simp
  have e: "a + of_nat n - 1 = a + of_nat (n - 1)" using assms by (simp add: of_nat_diff)
  have u: "unat (a + of_nat k) = (?A + k) mod 2 ^ 64" for k
    by (simp add: unat_word_ariths unat_of_nat mod_simps)
  have "unat a div 4096 = unat (a + of_nat (n - 1)) div 4096"
    using assms(1) unfolding cross_page_def e
    by (simp only: unat_drop_bit_12 [symmetric] not_not)
  then have d: "?A div 4096 = ((?A + (n - 1)) mod 2 ^ 64) div 4096" by (simp add: u)
  have lt: "?A + (n - 1) < 2 ^ 64"
  proof (rule ccontr)
    assume "\<not> ?A + (n - 1) < 2 ^ 64"
    then have "(?A + (n - 1)) mod 2 ^ 64 = ?A + (n - 1) - 2 ^ 64"
      using A assms by (intro mod_nat_eqI) auto
    then show False using d \<open>\<not> ?A + (n - 1) < 2 ^ 64\<close> assms A by auto
  qed
  then show "unat (a + of_nat i) = ?A + i" using assms by (simp add: u)
  have "?A div 4096 = (?A + (n - 1)) div 4096" using d lt by simp
  moreover have "(?A + i) div 4096 \<le> (?A + (n - 1)) div 4096" using assms by (intro div_le_mono) simp
  moreover have "?A div 4096 \<le> (?A + i) div 4096" by (intro div_le_mono) simp
  ultimately show "(?A + i) div 4096 = ?A div 4096" by simp
qed

lemma in_page_drop_bit:
  assumes "\<not> cross_page a n" "i < n" "n \<le> 4096"
  shows "drop_bit 12 (a + of_nat i) = drop_bit 12 a"
  using in_page_unat [OF assms] in_page_div [OF assms]
  by (simp add: word_eq_iff_unsigned [where 'a = nat] unat_drop_bit_12)

lemma aligned_less:
  fixes a c :: u64
  assumes "\<not> cross_page a n" "i < n" "n \<le> 4096" "4096 dvd unat c"
  shows "a + of_nat i < c \<longleftrightarrow> a < c" "c \<le> a + of_nat i \<longleftrightarrow> c \<le> a"
proof -
  obtain k where "unat c = 4096 * k" using assms by (auto elim: dvdE)
  then have iff: "x < unat c \<longleftrightarrow> x div 4096 < k" for x
    by (simp add: div_less_iff_less_mult mult.commute)
  show "a + of_nat i < c \<longleftrightarrow> a < c"
    by (simp only: word_less_nat_alt iff in_page_unat [OF assms(1-3)] in_page_div [OF assms(1-3)])
  then show "c \<le> a + of_nat i \<longleftrightarrow> c \<le> a" by (simp add: linorder_not_less [symmetric])
qed

text \<open>Masks that keep the low twelve bits commute with the offset.\<close>

lemma page_or:
  fixes h :: "'a::len word"
  assumes "l < 4096" "12 \<le> LENGTH('a)"
  shows "push_bit 12 h + of_nat l = push_bit 12 h OR of_nat l"
proof (rule disjunctive_add)
  fix k
  have "of_nat l = take_bit 12 (of_nat l :: 'a word)"
    using assms by (simp add: take_bit_of_nat take_bit_nat_eq_self)
  then have "bit (of_nat l :: 'a word) k \<Longrightarrow> k < 12" by (metis bit_take_bit_iff)
  then show "\<not> bit (push_bit 12 h) k \<or> \<not> bit (of_nat l :: 'a word) k"
    unfolding bit_push_bit_iff by auto
qed

lemma in_page_low:
  assumes "\<not> cross_page a n" "i < n" "n \<le> 4096"
  shows "unat a mod 4096 + i < 4096"
proof -
  have "unat a + i = unat a mod 4096 + i + (unat a div 4096) * 4096" by simp
  then have "(unat a + i) div 4096 = unat a div 4096 + (unat a mod 4096 + i) div 4096"
    by (simp only:)
  then show ?thesis using in_page_div [OF assms] by simp
qed

lemma page_split: "push_bit 12 (drop_bit 12 a) + of_nat (unat a mod 4096) = (a :: u64)"
proof -
  have "unat (take_bit 12 a) = unat a mod 4096" by (simp add: take_bit_eq_mod unat_mod)
  then have "of_nat (unat a mod 4096) = take_bit 12 a" by (metis of_nat_unat ucast_id)
  then show ?thesis by (simp only: bits_ident)
qed

lemma in_page_mask:
  fixes a K :: u64
  assumes "\<not> cross_page a n" "i < n" "n \<le> 4096" "\<And>k. k < 12 \<Longrightarrow> bit K k"
  shows "(a + of_nat i) AND K = (a AND K) + of_nat i"
proof -
  let ?h = "drop_bit 12 a" and ?l = "unat a mod 4096"
  have mask: "(push_bit 12 ?h + of_nat l) AND K = push_bit 12 (?h AND drop_bit 12 K) + of_nat l" if "l < 4096" for l
  proof -
    have "of_nat l = take_bit 12 (of_nat l :: u64)"
      using that by (simp add: take_bit_of_nat take_bit_nat_eq_self)
    then have "bit (of_nat l :: u64) k \<Longrightarrow> k < 12" for k by (metis bit_take_bit_iff)
    moreover have "push_bit 12 x + of_nat l = push_bit 12 x OR of_nat l" for x :: u64
      by (rule page_or) (use that in simp_all)
    ultimately show ?thesis
      using assms(4) by (simp only:, intro bit_eqI)
        (auto simp: bit_simps simp del: push_bit_numeral)
  qed
  have "a + of_nat i = push_bit 12 ?h + of_nat (?l + i)"
    by (simp only: of_nat_add add.assoc [symmetric] page_split)
  then have "(a + of_nat i) AND K = push_bit 12 (?h AND drop_bit 12 K) + of_nat (?l + i)"
    using mask [OF in_page_low [OF assms(1-3)]] by (simp only:)
  also have "\<dots> = push_bit 12 (?h AND drop_bit 12 K) + of_nat ?l + of_nat i"
    by (simp only: of_nat_add add.assoc)
  also have "push_bit 12 (?h AND drop_bit 12 K) + of_nat ?l = a AND K"
    using mask [of ?l] by (simp only: page_split)
  finally show ?thesis .
qed

lemma page_masks:
  "(0xfff :: u64) = mask 12" "(0x1ffff :: u64) = mask 17" "(0xfffff :: u64) = mask 20" "(0x3fffff :: u64) = mask 22"
  "(0xfff00000 :: u64) = push_bit 20 (mask 12)" "(0x300000 :: u64) = push_bit 20 (mask 2)"
  "(0xfffe0000 :: u64) = push_bit 17 (mask 15)" "(0xfffc0000 :: u64) = push_bit 18 (mask 14)" "(0xf :: u32) = mask 4"
  by (simp_all add: mask_eq_exp_minus_1)

lemma ucast_rom_masks: "ucast BIOS_MASK = (0x3fffff :: u64)" "ucast EXROM_MASK = (0x1ffff :: u64)" "ucast BIOSROMSZ = (0x400000 :: u64)"
  by (simp_all add: BIOS_MASK_def EXROM_MASK_def BIOSROMSZ_def EXROMSIZE_def)

lemma in_page_bit:
  assumes "\<not> cross_page a n" "i < n" "n \<le> 4096" "12 \<le> k"
  shows "bit (a + of_nat i) k = bit a k"
proof -
  have "bit x k = bit (drop_bit 12 x) (k - 12)" for x :: u64
    using assms(4) by (simp only: bit_drop_bit_eq comp_def le_add_diff_inverse)
  then show ?thesis by (simp only: in_page_drop_bit [OF assms(1-3)])
qed

lemma ucast_plus_32: "ucast (x + of_nat i :: u64) = (ucast x + of_nat i :: u32)"
proof -
  have "ucast (of_nat i :: u64) = (of_nat i :: u32)"
    by (simp add: unsigned_of_nat word_of_nat_eq_iff take_bit_take_bit)
  then show ?thesis by (simp add: ucast_down)
qed

lemma bios_map_low: "(x OR 0xfff00000) AND 0x3fffff = (x AND 0xfffff) + (0x300000 :: u64)"
  proof -
    have "(x AND 0xfffff) + 0x300000 = (x AND 0xfffff) OR (0x300000 :: u64)"
      unfolding page_masks
      by (rule disjunctive_add) (auto simp: bit_simps bit_mask_iff simp del: push_bit_numeral)
    also have "\<dots> = (x OR 0xfff00000) AND 0x3fffff"
      unfolding page_masks by (rule bit_eqI) (auto simp: bit_simps bit_mask_iff simp del: push_bit_numeral)
    finally show ?thesis ..
  qed

lemma in_page_takes:
  assumes "\<not> cross_page a n" "i < n" "n \<le> 4096"
  shows "ucast ((a + of_nat i) AND ucast BIOS_MASK) = (ucast (a AND ucast BIOS_MASK) + of_nat i :: u32)"
    and "EXROM_INDEX (a + of_nat i) = EXROM_INDEX a + of_nat i"
    and "BIOS_MAP_LAST128K (a + of_nat i) = BIOS_MAP_LAST128K a + of_nat i"
    and "memory_area (a + of_nat i) = memory_area a"
    and "(a + of_nat i) AND 0xfffe0000 = a AND 0xfffe0000"
    and "(a + of_nat i) AND 0xfffc0000 = a AND 0xfffc0000"
    and "drop_bit 20 (a + of_nat i) = drop_bit 20 a"
proof -
  note bits = in_page_bit [OF assms] and masked = in_page_mask [OF assms]
  have m: "(a + of_nat i) AND mask k = (a AND mask k) + of_nat i" if "12 \<le> k" "k \<le> 64" for k
    using that by (intro masked) (simp add: bit_mask_iff)
  show "ucast ((a + of_nat i) AND ucast BIOS_MASK) = (ucast (a AND ucast BIOS_MASK) + of_nat i :: u32)"
    by (simp only: ucast_rom_masks page_masks m) (simp only: ucast_plus_32)
  show "EXROM_INDEX (a + of_nat i) = EXROM_INDEX a + of_nat i"
    unfolding EXROM_INDEX_def ucast_rom_masks page_masks
    by (simp only: m le_refl) (simp only: add.assoc add.commute [of "of_nat i" "0x400000"], simp only: add.assoc [symmetric] ucast_plus_32)
  show "BIOS_MAP_LAST128K (a + of_nat i) = BIOS_MAP_LAST128K a + of_nat i"
    unfolding BIOS_MAP_LAST128K_def ucast_rom_masks bios_map_low
    by (simp only: page_masks(3) m) (simp only: add.assoc add.commute [of "of_nat i" "0x300000"], simp only: add.assoc [symmetric] ucast_plus_32)
  show "(a + of_nat i) AND 0xfffe0000 = a AND 0xfffe0000" "(a + of_nat i) AND 0xfffc0000 = a AND 0xfffc0000"
    unfolding page_masks by (rule bit_eqI, auto simp: bit_simps bits bit_mask_iff simp del: push_bit_numeral)+
  show "drop_bit 20 (a + of_nat i) = drop_bit 20 a"
    by (rule bit_eqI) (simp add: bit_drop_bit_eq bits)
  have "drop_bit 14 (ucast (a + of_nat i) :: u32) AND 0xf = drop_bit 14 (ucast a) AND 0xf"
    unfolding page_masks by (rule bit_eqI) (auto simp: bit_simps bits bit_mask_iff)
  then show "memory_area (a + of_nat i) = memory_area a" by (simp only: memory_area_def)
qed

text \<open>
  The standing facts of an initialised memory: RAM of at least one megabyte in whole pages, a BIOS at the top
  of the address space, the page for missing memory all ones, an address mask that keeps page offsets.
\<close>

definition mem_ok :: "'d bx_mem \<Rightarrow> bool" where
  "mem_ok m \<longleftrightarrow>
     4096 dvd unat (mem_len m) \<and> 0x100000 \<le> mem_len m
     \<and> 4096 dvd unat (bios_rom_addr m) \<and> 0x100000 \<le> bios_rom_addr m
     \<and> (\<forall>a. bogus m a = 0xff) \<and> mem_a20_mask m \<in> {0xffffffffffffffff, 0xffffffffffefffff}"

definition flash_idle :: "'d bx_mem \<Rightarrow> bool" where
  "flash_idle m \<longleftrightarrow> flash_type m = 0 \<or> flash_wsm_state m = FLASH_READ_ARRAY"

lemma flash_read_idle:
  "flash_idle m \<Longrightarrow> flash_type m > 0 \<Longrightarrow> flash_read a m = (rom m a, m)"
  unfolding flash_idle_def flash_read_def by (elim disjE) simp_all

fun host_add :: "nat \<Rightarrow> host_ptr \<Rightarrow> host_ptr" where
  "host_add i (Host_vector a) = Host_vector (a + of_nat i)"
| "host_add i (Host_rom a) = Host_rom (a + of_nat i)"
| "host_add i (Host_bogus a) = Host_bogus (a + of_nat i)"
| "host_add i (Host_device n) = Host_device (n + i)"

lemma host_byte_add: "host_byte (host_add i p) 0 m = host_byte p i m"
  by (cases p) (simp_all add: host_byte_def)

lemma unat_ucast_32 [simp]: "unat (ucast (x :: u32) :: u64) = unat x"
proof -
  have "unat x < 2 ^ 64" by (rule less_trans [OF unsigned_less]) simp
  then show ?thesis by (simp add: unsigned_ucast_eq take_bit_nat_eq_self)
qed

lemma low_area:
  assumes "0xc0000 \<le> a" "a < (0x100000 :: u64)"
  shows "a AND 0xfffc0000 = 0xc0000"
proof -
  have "unat a div 2 ^ 18 = 3"
    using assms by (simp add: word_le_nat_alt word_less_nat_alt div_nat_eqI)
  then have "drop_bit 18 a = 3"
    by (simp add: word_eq_iff_unsigned [where 'a = nat] drop_bit_eq_div unat_div)
  moreover have "a AND 0xfffc0000 = push_bit 18 (drop_bit 18 a AND mask 14)"
    unfolding page_masks by (rule bit_eqI) (auto simp: bit_simps bit_mask_iff simp del: push_bit_numeral)
  moreover have "(3 :: u64) AND mask 14 = 3" by (simp add: mask_eq_exp_minus_1)
  ultimately show ?thesis by simp
qed

lemma above_4G: "(a :: u64) > 0xffffffff \<longleftrightarrow> 0x100000000 \<le> a"
  by unat_arith

lemma mem_ok_bios: "mem_ok m \<Longrightarrow> bios_addr a m \<Longrightarrow> 0x100000 \<le> a"
  by (auto simp: mem_ok_def bios_addr_def word_le_nat_alt split: if_splits)

lemma slow_byte:
  assumes "mem_ok m" "flash_idle m" "find_handler (memory_handlers m (drop_bit 20 (A20ADDR x m))) (A20ADDR x m) = None"
    and "host_read_addr (A20ADDR x m) m = Some p"
  shows "readPhysicalPage None x [b] m = ([host_byte p 0 m], m)"
proof -
  let ?a = "A20ADDR x m"
  have np: "\<not> cross_page x 1" by (simp add: cross_page_def)
  then have "readPhysicalPage None x [b] m = mem_read_ram None x [b] m"
    using assms(3) by (simp add: readPhysicalPage_def smram_window_def handlers_none)
  also have "\<dots> = ([host_byte p 0 m], m)"
  proof -
    have len: "a < 0x100000 \<Longrightarrow> a < mem_len m" for a using assms(1) by (auto simp: mem_ok_def)
    have area: "0xc0000 \<le> a \<Longrightarrow> a < 0x100000 \<Longrightarrow> a AND 0xfffc0000 = 0xc0000" for a :: u64 by (rule low_area)
    have stub: "stub_readPhysicalPage x 1 m = ([vector m ?a], m)" if "?a < mem_len m"
      unfolding stub_read_eq [OF np] using that by (simp add: vector_read_def)
    consider "?a < 0xa0000" | "0xa0000 \<le> ?a" "?a < 0xc0000" | "0xc0000 \<le> ?a" "?a < 0x100000" | "0x100000 \<le> ?a"
      by fastforce
    then show ?thesis
    proof cases
      case 1
      then have "?a < 0x100000" by unat_arith
      then have "?a < mem_len m" "\<not> bios_addr ?a m"
        using len [of ?a] mem_ok_bios [OF assms(1), of ?a] \<open>?a < 0x100000\<close> by (auto simp: not_le [symmetric])
      moreover have "\<not> 0xa0000 \<le> ?a" "\<not> 0xc0000 \<le> ?a" "?a < 0xc0000" using 1 by unat_arith+
      ultimately have "p = Host_vector ?a" using assms(4) by (simp add: host_read_addr_def)
      then show ?thesis
        using 1 stub \<open>?a < mem_len m\<close> \<open>\<not> bios_addr ?a m\<close> by (simp add: mem_read_ram_def host_byte_def)
    next
      case 2 then show ?thesis using assms(4) by (simp add: host_read_addr_def)
    next
      case 3
      then have "\<not> ?a < 0xa0000" "\<not> 0x100000 \<le> ?a" by unat_arith+
      from 3 have "?a < mem_len m" "\<not> bios_addr ?a m" "?a AND 0xfffc0000 = 0xc0000"
        using len [of ?a] mem_ok_bios [OF assms(1), of ?a] area by (auto simp: not_le)
      then have "mem_read_ram None x [b] m = (let (y, m) = low_read_byte None ?a b m in ([y], m))"
        using \<open>\<not> ?a < 0xa0000\<close> \<open>\<not> 0x100000 \<le> ?a\<close> by (simp add: mem_read_ram_def Let_def)
      also have "low_read_byte None ?a b m = (host_byte p 0 m, m)"
        using 3 \<open>?a AND 0xfffc0000 = 0xc0000\<close> \<open>?a < mem_len m\<close> \<open>\<not> bios_addr ?a m\<close> assms(4) flash_read_idle [OF assms(2)]
        by (auto simp: low_read_byte_def host_read_addr_def host_byte_def not_less not_le word_gt_0 split: if_splits)
      finally show ?thesis by simp
    next
      case 4
      then have not_low: "(?a < 0xa0000) = False" "(?a < 0xc0000) = False" "(?a < 0x100000) = False" by unat_arith+
      have bogus: "bogus m c = 0xff" for c using assms(1) by (simp add: mem_ok_def)
      have host: "host_read_addr ?a m =
          (if ?a < mem_len m \<and> \<not> bios_addr ?a m then Some (Host_vector ?a)
           else if ?a > 0xffffffff then Some (Host_bogus (ucast (?a AND 0xfff)))
           else if bios_addr ?a m then Some (Host_rom (ucast (?a AND ucast BIOS_MASK)))
           else Some (Host_bogus (ucast (?a AND 0xfff))))"
        unfolding host_read_addr_def Let_def by (simp only: not_low 4 simp_thms if_True if_False)
      have fr: "(if flash_type m > 0 then flash_read c m else (rom m c, m)) = (rom m c, m)" for c
        using flash_read_idle [OF assms(2)] by (simp only: split: if_split) simp
      have "mem_read_ram None x [b] m =
          (if ?a < mem_len m \<and> \<not> bios_addr ?a m then ([vector m ?a], m)
           else if ?a > 0xffffffff then ([0xff], m)
           else if bios_addr ?a m then ([rom m (ucast (?a AND ucast BIOS_MASK))], m) else ([0xff], m))"
        unfolding mem_read_ram_def Let_def
        by (simp only: not_low 4 simp_thms if_True if_False list.size add_0 cong: if_cong)
          (simp only: stub [unfolded One_nat_def] bios_read_loop.simps fr Let_def split_beta fst_conv snd_conv replicate.simps cong: if_cong conj_cong)
      moreover have "host_byte p 0 m = (case p of Host_vector a \<Rightarrow> vector m a | Host_rom a \<Rightarrow> rom m a | Host_bogus a \<Rightarrow> 0xff | Host_device n \<Rightarrow> dev_peek m n (mem_devices m))"
        by (simp add: host_byte_def bogus split: host_ptr.split)
      ultimately show ?thesis
        using assms(4) unfolding host by (simp only: split: if_splits) auto
    qed
  qed
  finally show ?thesis .
qed

lemma host_read_addr_add:
  assumes "mem_ok m" "\<not> cross_page a n" "i < n" "n \<le> 4096"
  shows "host_read_addr (a + of_nat i) m = map_option (host_add i) (host_read_addr a m)"
proof -
  have cmp: "a + of_nat i < c \<longleftrightarrow> a < c" "c \<le> a + of_nat i \<longleftrightarrow> c \<le> a" if "4096 dvd unat c" for c :: u64
    using aligned_less [OF assms(2-4) that] by blast+
  have big: "a + of_nat i > 0xffffffff \<longleftrightarrow> a > 0xffffffff"
    unfolding above_4G by (rule cmp) simp
  have bios: "bios_addr (a + of_nat i) m = bios_addr a m"
    using cmp(2) [of "ucast (bios_rom_addr m)"] assms(1) unfolding unat_ucast_32 by (simp add: bios_addr_def big mem_ok_def)
  have low: "ucast ((a + of_nat i) AND 0xfff) = (ucast (a AND 0xfff) + of_nat i :: u32)"
    by (subst in_page_mask [OF assms(2-4)]) (auto simp: page_masks(1) bit_mask_iff ucast_plus_32)
  have len: "a + of_nat i < mem_len m \<longleftrightarrow> a < mem_len m" using assms(1) by (intro cmp) (simp add: mem_ok_def)
  have low_bounds: "(a + of_nat i \<ge> 0xa0000) = (a \<ge> 0xa0000)" "(a + of_nat i < 0xc0000) = (a < 0xc0000)"
    "(a + of_nat i \<ge> 0xc0000) = (a \<ge> 0xc0000)" "(a + of_nat i < 0x100000) = (a < 0x100000)"
    "(a + of_nat i \<ge> 0x100000) = (a \<ge> 0x100000)"
    by (intro cmp, simp)+
  show ?thesis
    unfolding host_read_addr_def Let_def bios big low len low_bounds in_page_takes [OF assms(2-4)]
    by (simp only: if_distrib [of "map_option (host_add i)"] option.map host_add.simps cong: if_cong)
qed

lemma mem_ok_a20: "mem_ok m \<Longrightarrow> k < 12 \<Longrightarrow> bit (mem_a20_mask m) k"
proof -
  assume "mem_ok m" "k < 12"
  have "bit (0xffffffffffffffff :: u64) k" "bit (0xffffffffffefffff :: u64) k"
  proof -
    have "(0xffffffffffffffff :: u64) = mask 64" "(0xffffffffffefffff :: u64) = NOT (shl1 20)"
      by (simp_all add: mask_eq_exp_minus_1 shl1_def)
    then show "bit (0xffffffffffffffff :: u64) k" "bit (0xffffffffffefffff :: u64) k"
      using \<open>k < 12\<close> by (simp_all only: bit_mask_iff bit_not_iff bit_shl1) simp_all
  qed
  then show ?thesis using \<open>mem_ok m\<close> by (auto simp only: mem_ok_def insert_iff empty_iff)
qed

lemma A20_in_page:
  assumes "mem_ok m" "\<not> cross_page a n" "i < n" "n \<le> 4096"
  shows "A20ADDR (a + of_nat i) m = A20ADDR a m + of_nat i"
  unfolding A20ADDR_def using mem_ok_a20 [OF assms(1)] by (intro in_page_mask [OF assms(2-4)])

lemma A20_cross_page:
  assumes "mem_ok m" "\<not> cross_page a n" "0 < n" "n \<le> 4096"
  shows "\<not> cross_page (A20ADDR a m) n"
proof -
  have i: "n - 1 < n" "of_nat n = (of_nat (n - 1) + 1 :: u64)" using assms(3) by (simp_all add: of_nat_diff)
  have "drop_bit 12 (A20ADDR (a + of_nat (n - 1)) m) = drop_bit 12 (A20ADDR a m)"
    using in_page_drop_bit [OF assms(2) i(1) assms(4)] by (simp only: A20ADDR_def drop_bit_and)
  then show ?thesis
    unfolding cross_page_def A20_in_page [OF assms(1,2) i(1) assms(4)] by (simp add: i(2))
qed

lemma dma_read_loop_bytes:
  "(\<And>j b. j < length bs \<Longrightarrow> readPhysicalPage None (x + of_nat j) [b] m = ([f j], m))
    \<Longrightarrow> dma_read_loop x bs m = (map f [0..<length bs], m)"
proof (induction bs arbitrary: x f)
  case (Cons b bs)
  have "dma_read_loop (x + 1) bs m = (map (\<lambda>j. f (Suc j)) [0..<length bs], m)"
    using Cons.prems [of "Suc _"] by (intro Cons.IH) (simp add: algebra_simps)
  moreover have "readPhysicalPage None x [b] m = ([f 0], m)" using Cons.prems [of 0] by simp
  ultimately show ?case by (simp add: upt_conv_Cons map_Suc_upt [symmetric] comp_def del: upt_Suc)
qed simp

text \<open>C17: A DMA read through a host pointer returns what the byte-by-byte access of the same page range returns,
  with the same final state, over RAM, shadow RAM, ROM, BIOS and missing memory, as long as no device
  handler lies in the range and the flash chip is in its read-array state.\<close>

theorem dma_read_equivalence:
  assumes "mem_ok m" "flash_idle m" "\<not> cross_page addr (length data)" "0 < length data" "length data \<le> 4096"
    and "\<And>i. i < length data \<Longrightarrow>
      find_handler (memory_handlers m (drop_bit 20 (A20ADDR addr m))) (A20ADDR (addr + of_nat i) m) = None"
  shows "dmaReadPhysicalPage addr data m = dma_read_loop addr data m"
proof -
  let ?a = "A20ADDR addr m"
  have none: "find_handler (memory_handlers m (drop_bit 20 ?a)) ?a = None" using assms(4,6) by fastforce
  have dma: "dmaReadPhysicalPage addr data m
      = (case host_read_addr ?a m of Some p \<Rightarrow> (host_memcpy_from p (length data) m, m) | None \<Rightarrow> dma_read_loop addr data m)"
    using assms(3) none by (simp add: dmaReadPhysicalPage_def getHostMemAddr_def Let_def split: option.split)
  show ?thesis
  proof (cases "host_read_addr ?a m")
    case (Some p)
    have "readPhysicalPage None (addr + of_nat i) [b] m = ([host_byte p i m], m)" if "i < length data" for i b
    proof -
      note page = A20_in_page [OF assms(1,3) that assms(5)]
      have np: "\<not> cross_page ?a (length data)" by (rule A20_cross_page [OF assms(1,3-5)])
      have "host_read_addr (A20ADDR (addr + of_nat i) m) m = Some (host_add i p)"
        using Some by (simp add: page host_read_addr_add [OF assms(1) np that assms(5)])
      moreover have "drop_bit 20 (A20ADDR (addr + of_nat i) m) = drop_bit 20 ?a"
        by (simp only: page in_page_takes(7) [OF np that assms(5)])
      ultimately show ?thesis
        using slow_byte [OF assms(1,2), of "addr + of_nat i" "host_add i p" b] assms(6) [OF that]
        by (simp add: host_byte_add)
    qed
    then show ?thesis using Some by (simp add: dma host_memcpy_from_def dma_read_loop_bytes)
  qed (simp add: dma)
qed

lemma init_memory_ok:
  "0x100000 \<le> guest \<Longrightarrow> 4096 dvd unat guest \<Longrightarrow> a20 \<in> {0xffffffffffffffff, 0xffffffffffefffff} \<Longrightarrow>
    mem_ok (init_memory guest pci v a20 d peek poke)"
  by (simp add: mem_ok_def init_memory_def)

text \<open>A concrete memory: two megabytes of RAM filled with 7.\<close>

definition demo_mem :: "unit bx_mem" where
  "demo_mem = init_memory 0x200000 True (\<lambda>_. 7) 0xffffffffffffffff () (\<lambda>_ _. 0) (\<lambda>_ _ d. d)"

lemma dma_read_equivalence_witness:
  "dmaReadPhysicalPage 0xffff0 [0, 0] demo_mem
   = dma_read_loop 0xffff0 [0, 0] demo_mem"
  by (rule dma_read_equivalence)
    (simp_all add: demo_mem_def init_memory_ok, simp_all add: init_memory_def flash_idle_def cross_page_def)

lemma ram_read_after_write_witness:
  "fst (readPhysicalPage (Some False) 0x1001 [0, 0]
     (writePhysicalPage None 0x1000 [1, 2] demo_mem))
   = [2, 7]"
  by (subst ram_read_after_write)
    (simp_all add: plain_ram_def demo_mem_def init_memory_def A20ADDR_def bios_addr_def cross_page_def overlay_def upt_rec)

section \<open>DMA writes and the monitor\<close>

lemma unat_and_not_mask: "unat (a AND NOT (mask n) :: u64) = 2 ^ n * (unat a div 2 ^ n)"
proof -
  have "a AND NOT (mask n) = push_bit n (drop_bit n a)"
    by (rule bit_eqI) (auto simp: bit_simps bit_mask_iff simp del: push_bit_numeral)
  also have "\<dots> = a - take_bit n a" by (metis bits_ident add_diff_cancel_right')
  finally have "unat (a AND NOT (mask n)) = unat (a - take_bit n a)" by (simp only:)
  moreover have "unat (take_bit n a) = unat a mod 2 ^ n"
    using unsigned_take_bit_eq [of n a, where 'a = nat] unfolding take_bit_eq_mod [of n "unat a"] .
  ultimately show ?thesis by (simp add: unat_sub_if' minus_mod_eq_mult_div)
qed

lemma unat_page_base: "unat (a AND NOT 0xfff :: u64) = 4096 * (unat a div 4096)"
  using unat_and_not_mask [of a 12] unfolding page_masks by simp

text \<open>The monitored line is aligned (\<open>arm_monitor\<close>).\<close>

definition monitor_aligned :: "'d bx_mem \<Rightarrow> bool" where
  "monitor_aligned m \<longleftrightarrow> 64 dvd unat (monitor_addr m)"

lemma arm_monitor_aligned: "monitor_aligned (arm_monitor a m)"
proof -
  have "CACHE_LINE_SIZE - 1 = mask 6" by (simp add: CACHE_LINE_SIZE_def mask_eq_exp_minus_1)
  then show ?thesis
    using unat_and_not_mask [of a 6] by (simp add: monitor_aligned_def arm_monitor_def)
qed

lemma monitor_page_veto:
  assumes "monitor_armed m \<Longrightarrow> monitor_aligned m" "\<not> is_monitor (a AND NOT 0xfff) 0xfff m"
    and "unat x div 4096 = unat a div 4096"
  shows "\<not> is_monitor x 1 m"
proof
  assume mon: "is_monitor x 1 m"
  define B where "B = unat (monitor_addr m)"
  have armed: "monitor_armed m" using mon by (auto simp: is_monitor_def split: if_splits)
  then obtain k where k: "B = 64 * k" using assms(1) by (auto simp: monitor_aligned_def B_def elim: dvdE)
  have lt: "B < 2 ^ 64" unfolding B_def by (rule unsigned_less [THEN order_less_le_trans]) simp
  have last: "unat (monitor_addr m + CACHE_LINE_SIZE - 1) = B + 63"
    using lt k by (simp add: CACHE_LINE_SIZE_def add_diff_eq [symmetric] unat_word_ariths B_def [symmetric])
  have "x < monitor_addr m + CACHE_LINE_SIZE - 1" "monitor_addr m < x + 1"
    using mon armed by (auto simp: is_monitor_def Let_def)
  moreover have "monitor_addr m \<le> x" if "monitor_addr m < x + 1"
    using that inc_le [of x "monitor_addr m"] by (meson linorder_not_le)
  ultimately have x: "unat x < B + 63" "B \<le> unat x"
    by (simp_all only: word_less_nat_alt word_le_nat_alt last B_def)
  let ?P = "4096 * (unat a div 4096)"
  have x_div: "unat x = ?P + unat x mod 4096" unfolding assms(3) [symmetric] by simp
  then have P: "?P \<le> unat x" "unat x \<le> ?P + 4095" using mod_less_divisor [of 4096 "unat x"] by linarith+
  have "?P + 4095 < 2 ^ 64"
  proof -
    have "unat a div 4096 < 2 ^ 52" using unsigned_less [of a] by (intro less_mult_imp_div_less) simp
    then show ?thesis by simp
  qed
  then have top: "unat ((a AND NOT 0xfff) + 0xfff) = ?P + 4095"
    by (simp only: unat_word_ariths unat_page_base) simp
  have "B < ?P + 4095"
  proof -
    have "64 * k \<noteq> 4095 + 64 * q" for q
    proof
      assume "64 * k = 4095 + 64 * q"
      then have "(64 * k) mod 64 = (4095 + 64 * q) mod 64" by (rule arg_cong)
      then show False by (simp only: mod_mult_self2 mod_mult_self1_is_0) simp
    qed
    from this [of "64 * (unat a div 4096)"] show ?thesis using x(2) P(2) k by simp
  qed
  then have "monitor_addr m < (a AND NOT 0xfff) + 0xfff"
    unfolding word_less_nat_alt B_def [symmetric] top .
  moreover have "(a AND NOT 0xfff) < monitor_addr m + CACHE_LINE_SIZE - 1"
    unfolding word_less_nat_alt last unat_page_base using x(1) P(1) by linarith
  ultimately have "is_monitor (a AND NOT 0xfff) 0xfff m"
    unfolding is_monitor_def Let_def using armed by (simp only: not_le simp_thms if_False de_Morgan_disj)
  then show False using assms(2) by contradiction
qed

lemma is_monitor_vector: "is_monitor x n (m\<lparr>vector := v\<rparr>) = is_monitor x n m"
  by (simp add: is_monitor_def)

lemma plain_ram_host_write:
  assumes "plain_ram a m"
  shows "host_write_addr a m = Some (Host_vector a)" "find_handler (memory_handlers m (drop_bit 20 a)) a = None"
proof -
  have "\<not> (0xa0000 \<le> a \<and> a < 0xc0000)" "\<not> (0xc0000 \<le> a \<and> a < 0x100000)" "a < 0xc0000 \<or> 0x100000 \<le> a"
    using assms unfolding plain_ram_def by unat_arith+
  then show "host_write_addr a m = Some (Host_vector a)"
    using assms by (simp add: host_write_addr_def plain_ram_def linorder_not_le [symmetric] del: linorder_not_le)
  show "find_handler (memory_handlers m (drop_bit 20 a)) a = None" using assms by (simp add: plain_ram_def)
qed

lemma host_memcpy_vector: "host_memcpy_to (Host_vector a) data m = vector_write a data m"
  by (induction a data m rule: vector_write.induct) simp_all

lemma dma_write_loop_vector:
  "(\<And>i. i < length data \<Longrightarrow> plain_ram (x + of_nat i) m \<and> \<not> is_monitor (x + of_nat i) 1 m)
    \<Longrightarrow> dma_write_loop x data m = vector_write x data m"
proof (induction data arbitrary: x m)
  case (Cons b bs)
  have "\<not> cross_page x 1" by (simp add: cross_page_def)
  then have "writePhysicalPage None x [b] m = m\<lparr>vector := (vector m)(x := b)\<rparr>"
    using Cons.prems [of 0] by (simp add: plain_ram_write check_monitor_def)
  moreover have "dma_write_loop (x + 1) bs (m\<lparr>vector := v\<rparr>) = vector_write (x + 1) bs (m\<lparr>vector := v\<rparr>)" for v
  proof (rule Cons.IH)
    fix i assume "i < length bs"
    then show "plain_ram (x + 1 + of_nat i) (m\<lparr>vector := v\<rparr>) \<and> \<not> is_monitor (x + 1 + of_nat i) 1 (m\<lparr>vector := v\<rparr>)"
      using Cons.prems [of "Suc i"] by (simp only: is_monitor_vector plain_ram_vector) (simp add: add.assoc)
  qed
  ultimately show ?case by simp
qed simp

text \<open>C18: A DMA write through a host pointer has the effect of the byte-by-byte write of the same page range: a page with
  a monitored line is never written directly, so that no wake-up of a waiting CPU is lost.\<close>

theorem dma_write_equivalence:
  assumes "\<not> cross_page addr (length data)" "0 < length data" "length data \<le> 4096"
    and "\<And>i. i < length data \<Longrightarrow> plain_ram (addr + of_nat i) m"
    and "monitor_armed m \<Longrightarrow> monitor_aligned m"
  shows "dmaWritePhysicalPage addr data m = dma_write_loop addr data m"
proof -
  have ram: "plain_ram addr m" using assms(2,4) by fastforce
  then have a20: "A20ADDR addr m = addr" by (simp add: plain_ram_def)
  show ?thesis
  proof (cases "is_monitor (addr AND NOT 0xfff) 0xfff m")
    case True
    then show ?thesis
      using assms(1) ram a20 by (simp add: dmaWritePhysicalPage_def getHostMemAddr_def Let_def)
  next
    case False
    have quiet: "\<not> is_monitor (addr + of_nat i) 1 m" if "i < length data" for i
      using monitor_page_veto [OF assms(5) False] in_page_unat [OF assms(1) that assms(3)]
        in_page_div [OF assms(1) that assms(3)] by simp
    have "dmaWritePhysicalPage addr data m = host_memcpy_to (Host_vector addr) data m"
      using assms(1) ram a20 False
      by (simp add: dmaWritePhysicalPage_def getHostMemAddr_def Let_def plain_ram_host_write)
    also have "\<dots> = vector_write addr data m" by (rule host_memcpy_vector)
    also have "\<dots> = dma_write_loop addr data m"
      using assms(4) quiet by (intro dma_write_loop_vector [symmetric]) auto
    finally show ?thesis .
  qed
qed

lemma dma_write_equivalence_witness:
  "dmaWritePhysicalPage 0x1000 [1, 2] (arm_monitor 0x1f10 demo_mem) = dma_write_loop 0x1000 [1, 2] (arm_monitor 0x1f10 demo_mem)"
  by (rule dma_write_equivalence)
    (simp_all add: less_Suc_eq numeral_2_eq_2 arm_monitor_aligned,
     auto simp: cross_page_def plain_ram_def arm_monitor_def demo_mem_def init_memory_def A20ADDR_def bios_addr_def)

text \<open>The end of the monitored line is exclusive in the comparison and inclusive in its computation: a write of the last byte of the
  line is not seen.\<close>

lemma monitor_misses_last_byte:
  "\<not> is_monitor (monitor_addr m + 63) 1 (m\<lparr>monitor_armed := True\<rparr>)"
  by (simp add: is_monitor_def CACHE_LINE_SIZE_def Let_def add.commute)

section \<open>SMRAM\<close>

text \<open>While the window is closed to an access and a device handler takes the video memory range, SMRAM is neither read nor written.\<close>

lemma smram_closed:
  assumes "\<not> smram_window cpu (A20ADDR addr m) m" "\<not> cross_page addr (length data)"
    and "handlers_write (memory_handlers m (drop_bit 20 (A20ADDR addr m))) (A20ADDR addr m) data (mem_devices m) = (True, d)"
  shows "vector (writePhysicalPage cpu addr data m) = vector m"
    and "mem_devices (writePhysicalPage cpu addr data m) = d"
  using assms by (simp_all add: writePhysicalPage_def)

section \<open>The debugger\<close>



lemma dbg_set_mem_beyond_end:
  assumes "A20ADDR (mem_len m) m = mem_len m" "\<not> bios_addr (mem_len m) m" "0x100000 \<le> mem_len m"
    and "find_handler (memory_handlers m (drop_bit 20 (mem_len m))) (mem_len m) = None"
  shows "dbg_set_mem False (mem_len m) [b] m = (True, m\<lparr>vector := (vector m)(mem_len m := b)\<rparr>)"
proof -
  have "\<not> mem_len m < 0x100000" "0xc0000 \<le> mem_len m" "\<not> mem_len m < 0xc0000" using assms(3) by unat_arith+
  moreover have "dbg_handler False (mem_len m) m = None"
    using assms(4) by (simp add: dbg_handler_def)
  ultimately show ?thesis
    using assms by (simp add: dbg_set_mem_def dbg_set_byte_def)
qed

end
