(* ===== verification/Mem_Handlers.thy ===== *)
theory Mem_Handlers
  imports Mem_Access
begin

text \<open>
  Registration of memory handlers (src/memory/misc_mem.cc): the chains of handlers per megabyte, the
  bitmaps of 64 KByte blocks that detect overlapping ranges, removal, and the dispatch of an access to the
  handler of its address.
\<close>

section \<open>The code\<close>

text \<open>The blocks of the range inside one megabyte. \<open>page_idx << 20\<close> is a 32-bit shift.\<close>

definition page_bitmap :: "u64 \<Rightarrow> u64 \<Rightarrow> nat \<Rightarrow> u16" where
  "page_bitmap begin_addr end_addr page_idx =
     (let bitmap = 0xffff;
          bitmap = (if begin_addr > ucast (push_bit 20 (of_nat page_idx) :: u32)
                    then bitmap AND ucast (push_bit (unat (drop_bit 16 begin_addr AND 0xf)) (0xffff :: u32)) else bitmap);
          bitmap = (if end_addr < ucast (push_bit 20 (of_nat page_idx + 1) :: u32)
                    then bitmap AND ucast (drop_bit (0x0f - unat (drop_bit 16 end_addr AND 0xf)) (0xffff :: u32)) else bitmap)
      in bitmap)"

definition handler_pages :: "u64 \<Rightarrow> u64 \<Rightarrow> nat list" where
  "handler_pages begin_addr end_addr =
     [unat (ucast (drop_bit 20 begin_addr) :: u32) ..< Suc (unat (ucast (drop_bit 20 end_addr) :: u32))]"

definition add_handler :: "nat \<Rightarrow> 'd memory_handler \<Rightarrow> 'd bx_mem \<Rightarrow> 'd bx_mem" where
  "add_handler page_idx h m =
     m\<lparr>memory_handlers := (memory_handlers m)(of_nat page_idx := h # memory_handlers m (of_nat page_idx))\<rparr>"

fun register_pages :: "'d memory_handler \<Rightarrow> nat list \<Rightarrow> 'd bx_mem \<Rightarrow> bool \<times> 'd bx_mem" where
  "register_pages h [] m = (True, m)"
| "register_pages h (page_idx # pages) m =
     (let bitmap = page_bitmap (h_begin h) (h_end h) page_idx
      in case memory_handlers m (of_nat page_idx) of
           [] \<Rightarrow> register_pages h pages (add_handler page_idx (h\<lparr>h_bitmap := bitmap\<rparr>) m)
         | h0 # hs \<Rightarrow>
             (if bitmap AND h_bitmap h0 \<noteq> 0 then (False, m)
              else register_pages h pages (add_handler page_idx (h\<lparr>h_bitmap := bitmap OR h_bitmap h0\<rparr>) m)))"

definition registerMemoryHandlers ::
  "nat \<Rightarrow> (u64 \<Rightarrow> nat \<Rightarrow> 'd \<Rightarrow> u8 list option \<times> 'd) option \<Rightarrow> (u64 \<Rightarrow> u8 list \<Rightarrow> 'd \<Rightarrow> bool \<times> 'd) option
    \<Rightarrow> (u64 \<Rightarrow> nat \<Rightarrow> 'd \<Rightarrow> nat option \<times> 'd) option \<Rightarrow> u64 \<Rightarrow> u64 \<Rightarrow> 'd bx_mem \<Rightarrow> bool \<times> 'd bx_mem" where
  "registerMemoryHandlers param rd wr da begin_addr end_addr m =
     (if end_addr < begin_addr then (False, m)
      else case rd of
             None \<Rightarrow> (False, m)
           | Some rd \<Rightarrow>
               register_pages
                 \<lparr>h_param = param, h_begin = begin_addr, h_end = end_addr, h_bitmap = 0,
                  read_handler = rd, write_handler = wr, da_handler = da\<rparr>
                 (handler_pages begin_addr end_addr) m)"

text \<open>The search walks on while all three fields differ, and clears the range from the bitmaps on its way.\<close>

fun unregister_chain :: "nat \<Rightarrow> u64 \<Rightarrow> u64 \<Rightarrow> u16 \<Rightarrow> 'd memory_handler list \<Rightarrow> bool \<times> 'd memory_handler list" where
  "unregister_chain param b e bitmap [] = (False, [])"
| "unregister_chain param b e bitmap (h # hs) =
     (if h_param h \<noteq> param \<and> h_begin h \<noteq> b \<and> h_end h \<noteq> e
      then let (found, hs) = unregister_chain param b e bitmap hs
           in (found, h\<lparr>h_bitmap := h_bitmap h AND NOT bitmap\<rparr> # hs)
      else (True, hs))"

fun unregister_pages :: "nat \<Rightarrow> u64 \<Rightarrow> u64 \<Rightarrow> nat list \<Rightarrow> bool \<Rightarrow> 'd bx_mem \<Rightarrow> bool \<times> 'd bx_mem" where
  "unregister_pages param b e [] ret m = (ret, m)"
| "unregister_pages param b e (page_idx # pages) ret m =
     (let (found, hs) = unregister_chain param b e (page_bitmap b e page_idx) (memory_handlers m (of_nat page_idx))
      in unregister_pages param b e pages (ret \<and> found)
           (m\<lparr>memory_handlers := (memory_handlers m)(of_nat page_idx := hs)\<rparr>))"

definition unregisterMemoryHandlers :: "nat \<Rightarrow> u64 \<Rightarrow> u64 \<Rightarrow> 'd bx_mem \<Rightarrow> bool \<times> 'd bx_mem" where
  "unregisterMemoryHandlers param begin_addr end_addr m =
     unregister_pages param begin_addr end_addr (handler_pages begin_addr end_addr) True m"

section \<open>The chains after a registration\<close>

definition chain_bitmap :: "'d memory_handler list \<Rightarrow> u16" where
  "chain_bitmap hs = (case hs of [] \<Rightarrow> 0 | h # _ \<Rightarrow> h_bitmap h)"

definition page_entry :: "nat \<Rightarrow> 'd memory_handler \<Rightarrow> 'd memory_handler list \<Rightarrow> 'd memory_handler" where
  "page_entry p h hs = h\<lparr>h_bitmap := page_bitmap (h_begin h) (h_end h) p OR chain_bitmap hs\<rparr>"

lemma register_pages_Cons:
  "register_pages h (p # ps) m =
     (let hs = memory_handlers m (of_nat p)
      in if page_bitmap (h_begin h) (h_end h) p AND chain_bitmap hs \<noteq> 0 then (False, m)
         else register_pages h ps (m\<lparr>memory_handlers := (memory_handlers m)(of_nat p := page_entry p h hs # hs)\<rparr>))"
  by (simp add: Let_def chain_bitmap_def page_entry_def add_handler_def split: list.split)

declare register_pages.simps(2) [simp del]

text \<open>A page that the loop has left alone, or has put the new handler on top of.\<close>

lemma register_pages_result:
  assumes "register_pages h ps m = (True, m')" "distinct ps" "\<forall>p \<in> set ps. p < 2 ^ 32"
  shows "m' = m\<lparr>memory_handlers := (\<lambda>a. if \<exists>p \<in> set ps. a = of_nat p
             then page_entry (unat a) h (memory_handlers m a) # memory_handlers m a else memory_handlers m a)\<rparr>"
  using assms
proof (induction ps arbitrary: m)
  case Nil then show ?case by simp
next
  case (Cons p ps)
  let ?hs = "memory_handlers m (of_nat p)"
  let ?m = "m\<lparr>memory_handlers := (memory_handlers m)(of_nat p := page_entry p h ?hs # ?hs)\<rparr>"
  have "register_pages h ps ?m = (True, m')"
    using Cons.prems(1) by (simp add: register_pages_Cons Let_def split: if_splits)
  then have IH: "m' = ?m\<lparr>memory_handlers := (\<lambda>a. if \<exists>p \<in> set ps. a = of_nat p
             then page_entry (unat a) h (memory_handlers ?m a) # memory_handlers ?m a else memory_handlers ?m a)\<rparr>"
    using Cons by simp
  have inj: "of_nat q \<noteq> (of_nat p :: u64)" if "q \<in> set ps" for q
  proof
    assume "of_nat q = (of_nat p :: u64)"
    then have "unat (of_nat q :: u64) = unat (of_nat p :: u64)" by (rule arg_cong)
    moreover have "q < 2 ^ 64" "p < 2 ^ 64" "q \<noteq> p" using Cons.prems(2,3) that by fastforce+
    ultimately show False by (simp add: unsigned_of_nat take_bit_nat_eq_self)
  qed
  have "unat (of_nat p :: u64) = p"
    using Cons.prems(3) by (simp add: unsigned_of_nat take_bit_nat_eq_self)
  then show ?case
    unfolding IH using inj by (auto intro!: arg_cong2 [where f = memory_handlers_update] simp: fun_eq_iff) (metis inj)+
qed

lemma handler_pages_set: "distinct (handler_pages b e)" "\<forall>p \<in> set (handler_pages b e). p < 2 ^ 32"
proof -
  have "unat (ucast (drop_bit 20 e) :: u32) < 2 ^ 32" using unsigned_less [of "ucast (drop_bit 20 e) :: u32", where 'a = nat] by simp
  then show "distinct (handler_pages b e)" "\<forall>p \<in> set (handler_pages b e). p < 2 ^ 32"
    unfolding handler_pages_def by auto
qed

lemma register_result:
  assumes "registerMemoryHandlers param rd wr da b e m = (True, m')"
  obtains rd' h where "rd = Some rd'" "b \<le> e"
    "h = \<lparr>h_param = param, h_begin = b, h_end = e, h_bitmap = 0, read_handler = rd', write_handler = wr, da_handler = da\<rparr>"
    "register_pages h (handler_pages b e) m = (True, m')"
    "m' = m\<lparr>memory_handlers := (\<lambda>a. if \<exists>p \<in> set (handler_pages b e). a = of_nat p
             then page_entry (unat a) h (memory_handlers m a) # memory_handlers m a else memory_handlers m a)\<rparr>"
proof -
  from assms obtain rd' where rd: "rd = Some rd'" "b \<le> e"
    by (auto simp: registerMemoryHandlers_def not_less split: if_splits option.splits)
  define h where "h = \<lparr>h_param = param, h_begin = b, h_end = e, h_bitmap = 0, read_handler = rd', write_handler = wr, da_handler = da\<rparr>"
  have reg: "register_pages h (handler_pages b e) m = (True, m')"
    using assms rd by (simp add: registerMemoryHandlers_def h_def split: if_splits)
  have "distinct (handler_pages b e)" "\<forall>p \<in> set (handler_pages b e). p < 2 ^ 32"
    by (rule handler_pages_set)+
  from that [OF rd h_def reg register_pages_result [OF reg this]] show ?thesis .
qed

lemma page_index_eq:
  assumes "p < 2 ^ 32" "q < 2 ^ 32"
  shows "of_nat p = (of_nat q :: u64) \<longleftrightarrow> p = q" "unat (of_nat p :: u64) = p"
proof -
  show u: "unat (of_nat p :: u64) = p" using assms(1) by (simp add: unsigned_of_nat take_bit_nat_eq_self)
  have "unat (of_nat q :: u64) = q" using assms(2) by (simp add: unsigned_of_nat take_bit_nat_eq_self)
  then show "of_nat p = (of_nat q :: u64) \<longleftrightarrow> p = q" using u by metis
qed

text \<open>When the loop succeeds.\<close>

lemma register_pages_success:
  assumes "distinct ps" "\<forall>p \<in> set ps. p < 2 ^ 32"
  shows "fst (register_pages h ps m)
    \<longleftrightarrow> (\<forall>p \<in> set ps. page_bitmap (h_begin h) (h_end h) p AND chain_bitmap (memory_handlers m (of_nat p)) = 0)"
  using assms
proof (induction ps arbitrary: m)
  case (Cons p ps)
  let ?hs = "memory_handlers m (of_nat p)"
  let ?m = "m\<lparr>memory_handlers := (memory_handlers m)(of_nat p := page_entry p h ?hs # ?hs)\<rparr>"
  have "memory_handlers ?m (of_nat q) = memory_handlers m (of_nat q)" if "q \<in> set ps" for q
    using that Cons.prems page_index_eq(1) [of q p] by auto
  then show ?case using Cons.IH [of ?m] Cons.prems by (simp add: register_pages_Cons Let_def)
qed simp

section \<open>Removal forgets a registration\<close>

lemma unregister_pages_result:
  assumes "distinct ps" "\<forall>p \<in> set ps. p < 2 ^ 32"
    and "\<And>p. p \<in> set ps \<Longrightarrow> unregister_chain param b e (page_bitmap b e p) (memory_handlers m (of_nat p)) = (True, hs p)"
  shows "unregister_pages param b e ps ret m
    = (ret, m\<lparr>memory_handlers := (\<lambda>a. if \<exists>p \<in> set ps. a = of_nat p then hs (unat a) else memory_handlers m a)\<rparr>)"
  using assms
proof (induction ps arbitrary: m)
  case Nil then show ?case by simp
next
  case (Cons p ps)
  have inj: "of_nat q \<noteq> (of_nat p :: u64)" if "q \<in> set ps" for q
    using that Cons.prems(1,2) page_index_eq(1) [of q p] by auto
  have p: "unat (of_nat p :: u64) = p" using Cons.prems(2) page_index_eq(2) [of p p] by simp
  have h: "unregister_chain param b e (page_bitmap b e p) (memory_handlers m (of_nat p)) = (True, hs p)"
    using Cons.prems(3) by simp
  let ?m = "m\<lparr>memory_handlers := (memory_handlers m)(of_nat p := hs p)\<rparr>"
  have "unregister_pages param b e ps ret ?m
      = (ret, ?m\<lparr>memory_handlers := (\<lambda>a. if \<exists>p \<in> set ps. a = of_nat p then hs (unat a) else memory_handlers ?m a)\<rparr>)"
    using Cons.prems inj by (intro Cons.IH) auto
  then show ?case
    using h p inj by (auto intro!: arg_cong2 [where f = memory_handlers_update] simp: fun_eq_iff)
qed

text \<open>
  \<open>forgets\<close>: the memory \<open>n\<close> is \<open>m\<close> without the range \<open>b\<close> to \<open>e\<close> of \<open>param\<close>. In every page of the range the removal would find its handler
  and leave the chain of \<open>n\<close>, whose bitmap lacks the blocks of the range; the other pages agree.
\<close>

definition forgets :: "nat \<Rightarrow> u64 \<Rightarrow> u64 \<Rightarrow> 'd bx_mem \<Rightarrow> 'd bx_mem \<Rightarrow> bool" where
  "forgets param b e m n \<longleftrightarrow> n = m\<lparr>memory_handlers := memory_handlers n\<rparr>
     \<and> (\<forall>p < 2 ^ 32. let hs = memory_handlers m (of_nat p); ks = memory_handlers n (of_nat p); bits = page_bitmap b e p
          in if p \<in> set (handler_pages b e)
             then unregister_chain param b e bits hs = (True, ks) \<and> bits AND chain_bitmap hs = bits
                  \<and> chain_bitmap ks = chain_bitmap hs AND NOT bits
             else ks = hs)
     \<and> (\<forall>a. (\<nexists>p. p < 2 ^ 32 \<and> a = of_nat p) \<longrightarrow> memory_handlers n a = memory_handlers m a)"

lemma forgets_unregister:
  assumes "forgets param b e m n"
  shows "unregisterMemoryHandlers param b e m = (True, n)"
proof -
  note pages = handler_pages_set [of b e]
  have "unregister_pages param b e (handler_pages b e) True m
      = (True, m\<lparr>memory_handlers := (\<lambda>a. if \<exists>p \<in> set (handler_pages b e). a = of_nat p
          then memory_handlers n (of_nat (unat a)) else memory_handlers m a)\<rparr>)"
    by (rule unregister_pages_result [OF pages]) (use assms pages(2) in \<open>auto simp: forgets_def Let_def\<close>)
  moreover have "(if \<exists>p \<in> set (handler_pages b e). a = of_nat p then memory_handlers n (of_nat (unat a)) else memory_handlers m a)
      = memory_handlers n a" for a
    using assms by (cases "\<exists>p. p < 2 ^ 32 \<and> a = of_nat p") (auto simp: forgets_def Let_def)
  moreover have "m\<lparr>memory_handlers := memory_handlers n\<rparr> = n" using assms by (simp add: forgets_def)
  ultimately show ?thesis by (simp add: unregisterMemoryHandlers_def)
qed

lemma and_not_or: "x AND c = (0 :: u16) \<Longrightarrow> (x OR c) AND NOT x = c"
  unfolding and_eq_0_iff_bits by (intro bit_word_eqI) (auto simp: bit_or_iff bit_and_iff bit_not_iff)

lemma forgets_new:
  assumes "registerMemoryHandlers param rd wr da b e m = (True, m')"
  shows "forgets param b e m' m"
proof -
  obtain rd' h where h: "h_param h = param" "h_begin h = b" "h_end h = e" and reg: "register_pages h (handler_pages b e) m = (True, m')" and
    m': "m' = m\<lparr>memory_handlers := (\<lambda>a. if \<exists>p \<in> set (handler_pages b e). a = of_nat p
             then page_entry (unat a) h (memory_handlers m a) # memory_handlers m a else memory_handlers m a)\<rparr>"
    by (rule register_result [OF assms]) (rule that [rotated 3], assumption+, simp_all)
  note pages = handler_pages_set [of b e]
  have free: "page_bitmap b e p AND chain_bitmap (memory_handlers m (of_nat p)) = 0" if "p \<in> set (handler_pages b e)" for p
    using register_pages_success [OF pages, of h m] reg that h by simp
  have "(\<exists>q \<in> set (handler_pages b e). (of_nat p :: u64) = of_nat q) \<longleftrightarrow> p \<in> set (handler_pages b e)" if "p < 2 ^ 32" for p
    using that pages(2) page_index_eq(1) [of p] by auto
  then show ?thesis
    using free pages(2) page_index_eq(2)
    by (auto simp: forgets_def Let_def m' page_entry_def h chain_bitmap_def [of "_ # _"] and_not_or
        bit.conj_disj_distrib)
qed

lemma removed_bits:
  assumes "own AND c = (0 :: u16)" "x AND c = x"
  shows "(own OR c) AND NOT x = own OR (c AND NOT x)" "x AND (own OR c) = x" "own AND (c AND NOT x) = 0"
proof -
  have own: "\<not> (bit own k \<and> bit c k)" for k
    using assms(1) [unfolded and_eq_0_iff_bits] by (simp add: bit_and_iff)
  have x: "bit x k \<Longrightarrow> bit c k" for k
    using arg_cong [OF assms(2), of "\<lambda>w. bit w k"] by (simp add: bit_and_iff)
  show "(own OR c) AND NOT x = own OR (c AND NOT x)" "x AND (own OR c) = x" "own AND (c AND NOT x) = 0"
    by (intro bit_word_eqI; use own x in \<open>auto simp: bit_or_iff bit_and_iff bit_not_iff\<close>)+
qed

text \<open>A later registration, of a handler that the search for the first passes by, commutes with the removal.\<close>

lemma forgets_register:
  assumes f: "forgets param b e m n" and r: "registerMemoryHandlers q rd wr da c f m = (True, m')"
    and other: "q \<noteq> param \<and> c \<noteq> b \<and> f \<noteq> e \<or> set (handler_pages c f) \<inter> set (handler_pages b e) = {}"
  shows "\<exists>n'. registerMemoryHandlers q rd wr da c f n = (True, n') \<and> forgets param b e m' n'"
proof -
  obtain rd' h where rd: "rd = Some rd'" "c \<le> f"
    and hd: "h = \<lparr>h_param = q, h_begin = c, h_end = f, h_bitmap = 0, read_handler = rd', write_handler = wr, da_handler = da\<rparr>"
    and reg: "register_pages h (handler_pages c f) m = (True, m')" and
    m': "m' = m\<lparr>memory_handlers := (\<lambda>a. if \<exists>p \<in> set (handler_pages c f). a = of_nat p
             then page_entry (unat a) h (memory_handlers m a) # memory_handlers m a else memory_handlers m a)\<rparr>"
    by (rule register_result [OF r])
  have h: "h_param h = q" "h_begin h = c" "h_end h = f" by (simp_all add: hd)
  note pages = handler_pages_set [of c f]
  let ?own = "page_bitmap c f" and ?bits = "page_bitmap b e"
  have free: "?own p AND chain_bitmap (memory_handlers m (of_nat p)) = 0" if "p \<in> set (handler_pages c f)" for p
    using register_pages_success [OF pages, of h m] reg that h by simp
  have inv: "if p \<in> set (handler_pages b e)
      then unregister_chain param b e (?bits p) (memory_handlers m (of_nat p)) = (True, memory_handlers n (of_nat p))
        \<and> ?bits p AND chain_bitmap (memory_handlers m (of_nat p)) = ?bits p
        \<and> chain_bitmap (memory_handlers n (of_nat p)) = chain_bitmap (memory_handlers m (of_nat p)) AND NOT (?bits p)
      else memory_handlers n (of_nat p) = memory_handlers m (of_nat p)" if "p < 2 ^ 32" for p
    using f that by (simp add: forgets_def Let_def)
  have "?own p AND chain_bitmap (memory_handlers n (of_nat p)) = 0" if "p \<in> set (handler_pages c f)" for p
    using inv [of p] free [OF that] pages(2) that removed_bits(3) [OF free [OF that], of "?bits p"] by (auto split: if_splits)
  then have ok: "fst (register_pages h (handler_pages c f) n)" using register_pages_success [OF pages, of h n] h by simp
  then obtain n' where reg': "register_pages h (handler_pages c f) n = (True, n')" by (cases "register_pages h (handler_pages c f) n") auto
  note n' = register_pages_result [OF reg' pages]
  have "registerMemoryHandlers q rd wr da c f n = (True, n')"
    using reg' rd by (simp add: registerMemoryHandlers_def hd linorder_not_less)
  moreover have "forgets param b e m' n'"
  proof -
    have mem: "(\<exists>q \<in> set (handler_pages c f). (of_nat p :: u64) = of_nat q) \<longleftrightarrow> p \<in> set (handler_pages c f)" if "p < 2 ^ 32" for p
      using that pages(2) page_index_eq(1) [of p] by auto
    have chain: "memory_handlers m' (of_nat p) = (if p \<in> set (handler_pages c f)
          then page_entry p h (memory_handlers m (of_nat p)) # memory_handlers m (of_nat p) else memory_handlers m (of_nat p))"
      "memory_handlers n' (of_nat p) = (if p \<in> set (handler_pages c f)
          then page_entry p h (memory_handlers n (of_nat p)) # memory_handlers n (of_nat p) else memory_handlers n (of_nat p))" if "p < 2 ^ 32" for p
      using mem [OF that] page_index_eq(2) [OF that that] by (simp_all add: m' n')
    have top: "chain_bitmap (page_entry p h hs # hs) = ?own p OR chain_bitmap hs" for p hs
      by (simp add: page_entry_def h chain_bitmap_def [of "_ # _"])
    have both: "unregister_chain param b e (?bits p) (page_entry p h hs # hs) = (True, page_entry p h ks # ks)"
      if "p \<in> set (handler_pages b e)" "p \<in> set (handler_pages c f)" "unregister_chain param b e (?bits p) hs = (True, ks)"
        "?own p AND chain_bitmap hs = 0" "?bits p AND chain_bitmap hs = ?bits p" "chain_bitmap ks = chain_bitmap hs AND NOT (?bits p)" for p hs ks
    proof -
      have "q \<noteq> param \<and> c \<noteq> b \<and> f \<noteq> e" using other that(1,2) by auto
      then show ?thesis using that(3) removed_bits(1) [OF that(4,5)] by (simp add: page_entry_def h that(6))
    qed
    have "let hs = memory_handlers m' (of_nat p); ks = memory_handlers n' (of_nat p)
          in if p \<in> set (handler_pages b e)
             then unregister_chain param b e (?bits p) hs = (True, ks) \<and> ?bits p AND chain_bitmap hs = ?bits p
                  \<and> chain_bitmap ks = chain_bitmap hs AND NOT (?bits p)
             else ks = hs" if p: "p < 2 ^ 32" for p
    proof (cases "p \<in> set (handler_pages c f)")
      case True
      show ?thesis
      proof (cases "p \<in> set (handler_pages b e)")
        case A: True
        note i = inv [OF p, unfolded if_P [OF A]]
        show ?thesis using A True i both [OF A True _ free [OF True], of "memory_handlers n (of_nat p)"]
            removed_bits [OF free [OF True], of "?bits p"] by (simp add: chain [OF p] top)
      qed (use inv [OF p] in \<open>simp add: chain [OF p] True\<close>)
    qed (use inv [OF p] in \<open>simp add: chain [OF p]\<close>)
    moreover have "n' = m'\<lparr>memory_handlers := memory_handlers n'\<rparr>"
    proof -
      have "n = m\<lparr>memory_handlers := memory_handlers n\<rparr>" using f by (simp add: forgets_def)
      then have "n\<lparr>memory_handlers := k\<rparr> = m\<lparr>memory_handlers := memory_handlers n\<rparr>\<lparr>memory_handlers := k\<rparr>" for k
        by (rule arg_cong)
      then show ?thesis by (simp add: n' m')
    qed
    moreover have "memory_handlers n' a = memory_handlers m' a" if "\<nexists>p. p < 2 ^ 32 \<and> a = of_nat p" for a
    proof -
      have "\<not> (\<exists>p \<in> set (handler_pages c f). a = of_nat p)" using that pages(2) by blast
      then show ?thesis using f that by (simp add: n' m' forgets_def)
    qed
    ultimately show ?thesis unfolding forgets_def Let_def by (intro conjI allI impI)
  qed
  ultimately show ?thesis by blast
qed

text \<open>A sequence of registrations, each of which has to succeed.\<close>

record 'd registration =
  r_param :: nat
  r_read :: "(u64 \<Rightarrow> nat \<Rightarrow> 'd \<Rightarrow> u8 list option \<times> 'd) option"
  r_write :: "(u64 \<Rightarrow> u8 list \<Rightarrow> 'd \<Rightarrow> bool \<times> 'd) option"
  r_direct :: "(u64 \<Rightarrow> nat \<Rightarrow> 'd \<Rightarrow> nat option \<times> 'd) option"
  r_begin :: u64
  r_end :: u64

fun register_all :: "'d registration list \<Rightarrow> 'd bx_mem \<Rightarrow> bool \<times> 'd bx_mem" where
  "register_all [] m = (True, m)"
| "register_all (r # rs) m =
     (case registerMemoryHandlers (r_param r) (r_read r) (r_write r) (r_direct r) (r_begin r) (r_end r) m of
        (True, m) \<Rightarrow> register_all rs m
      | (False, m) \<Rightarrow> (False, m))"

text \<open>The handler of \<open>r\<close> does not end the search for \<open>param\<close>, \<open>b\<close>, \<open>e\<close>: it differs in all three, or is in other pages.\<close>

definition passed_by :: "nat \<Rightarrow> u64 \<Rightarrow> u64 \<Rightarrow> 'd registration \<Rightarrow> bool" where
  "passed_by param b e r \<longleftrightarrow> r_param r \<noteq> param \<and> r_begin r \<noteq> b \<and> r_end r \<noteq> e
     \<or> set (handler_pages (r_begin r) (r_end r)) \<inter> set (handler_pages b e) = {}"

lemma forgets_register_all:
  "forgets param b e m n \<Longrightarrow> register_all rs m = (True, m') \<Longrightarrow> \<forall>r \<in> set rs. passed_by param b e r
    \<Longrightarrow> \<exists>n'. register_all rs n = (True, n') \<and> forgets param b e m' n'"
proof (induction rs arbitrary: m n)
  case (Cons r rs)
  obtain m1 where m1: "registerMemoryHandlers (r_param r) (r_read r) (r_write r) (r_direct r) (r_begin r) (r_end r) m = (True, m1)"
    "register_all rs m1 = (True, m')"
    using Cons.prems(2) by (auto split: prod.splits bool.splits)
  have "passed_by param b e r" using Cons.prems(3) by simp
  from forgets_register [OF Cons.prems(1) m1(1) this [unfolded passed_by_def]]
  obtain n1 where "registerMemoryHandlers (r_param r) (r_read r) (r_write r) (r_direct r) (r_begin r) (r_end r) n = (True, n1)"
    "forgets param b e m1 n1" by blast
  then show ?case using Cons.IH [OF _ m1(2)] Cons.prems(3) by simp
qed simp

text \<open>C19: Removing a range forgets it. After a range has been registered and any number of others after it, the removal of the first, wherever
  its handler now lies in the chains, succeeds and leaves exactly the memory system in which only the others have been
  registered: chains, bitmaps of used blocks, everything. The search of the removal compares parameter, start and end and stops
  at the first handler that agrees in any one, so each later range differs from the removed one in all three or lies in other megabytes.\<close>

theorem register_unregister:
  assumes "registerMemoryHandlers param rd wr da b e m = (True, m1)" and "register_all rs m1 = (True, m2)"
    and "\<forall>r \<in> set rs. passed_by param b e r"
  shows "\<exists>m3. unregisterMemoryHandlers param b e m2 = (True, m3) \<and> register_all rs m = (True, m3)"
  using forgets_register_all [OF forgets_new [OF assms(1)] assms(2,3)] forgets_unregister by blast

text \<open>When another range of the same device (or with the same start or end) is more recent, the removal takes that one.\<close>

lemma unregister_takes_another:
  assumes "h_param h1 = param" "h_begin h1 = b1" "h_end h1 = e1" "h_param h2 = param" "(b1, e1) \<noteq> (h_begin h2, h_end h2)"
  shows "unregister_chain param b1 e1 bitmap [h2, h1] = (True, [h1])"
  using assms by simp

section \<open>Exclusive ranges\<close>

fun chain_ok :: "nat \<Rightarrow> 'd memory_handler list \<Rightarrow> bool" where
  "chain_ok p [] = True"
| "chain_ok p (h # hs) \<longleftrightarrow>
     chain_ok p hs \<and> page_bitmap (h_begin h) (h_end h) p AND chain_bitmap hs = 0
     \<and> h_bitmap h = page_bitmap (h_begin h) (h_end h) p OR chain_bitmap hs"

definition handlers_ok :: "'d bx_mem \<Rightarrow> bool" where
  "handlers_ok m \<longleftrightarrow> (\<forall>p < 4096. chain_ok p (memory_handlers m (of_nat p)))"

definition covers :: "u64 \<Rightarrow> 'd memory_handler \<Rightarrow> bool" where
  "covers a h \<longleftrightarrow> h_begin h \<le> a \<and> a \<le> h_end h"

definition block_of :: "u64 \<Rightarrow> nat" where
  "block_of a = unat (drop_bit 16 a AND 0xf)"

lemma chain_bitmap_bits:
  "chain_ok p hs \<Longrightarrow> bit (chain_bitmap hs) k \<longleftrightarrow> (\<exists>h \<in> set hs. bit (page_bitmap (h_begin h) (h_end h) p) k)"
  by (induction hs) (auto simp: chain_bitmap_def bit_or_iff)

lemma block_of_nat: "block_of a = (unat a div 2 ^ 16) mod 16"
proof -
  have "(0xf :: u64) = mask 4" by (simp add: mask_eq_exp_minus_1)
  then have "drop_bit 16 a AND 0xf = take_bit 4 (drop_bit 16 a)" by (simp only: take_bit_eq_mask)
  then show ?thesis by (simp add: block_of_def take_bit_eq_mod drop_bit_eq_div unat_mod unat_div)
qed

lemma block_of_mono:
  assumes "b \<le> a" "unat a div 2 ^ 20 = unat b div 2 ^ 20"
  shows "block_of b \<le> block_of a"
proof -
  have split: "n div 2 ^ 16 = 16 * (n div 2 ^ 20) + (n div 2 ^ 16) mod 16" for n :: nat
    using div_mult2_eq [of n "2 ^ 16" 16] by (simp add: mult.commute [of 16])
  have "unat b div 2 ^ 16 \<le> unat a div 2 ^ 16" using assms(1) by (intro div_le_mono) (simp add: word_le_nat_alt)
  then show ?thesis
    using split [of "unat a"] split [of "unat b"] assms(2) unfolding block_of_nat by linarith
qed

lemma page_start:
  assumes "p \<le> 4096"
  shows "unat (ucast (push_bit 20 (of_nat p :: u32)) :: u64) = p mod 4096 * 2 ^ 20"
proof -
  have "push_bit 20 (of_nat p :: u32) = of_nat (p * 2 ^ 20)" by (simp add: push_bit_eq_mult)
  then have "unat (push_bit 20 (of_nat p :: u32)) = (p * 2 ^ 20) mod 2 ^ 32"
    by (simp only: unat_of_nat) simp
  also have "\<dots> = p mod 4096 * 2 ^ 20" by (subst mult_mod_left) simp
  finally have u: "unat (push_bit 20 (of_nat p :: u32)) = p mod 4096 * 2 ^ 20" .
  have "unat (ucast x :: u64) = unat x" for x :: u32
  proof -
    have "unat x < 2 ^ 64" by (rule less_trans [OF unsigned_less]) simp
    then show ?thesis by (simp add: unsigned_ucast_eq take_bit_nat_eq_self)
  qed
  then show ?thesis by (simp only: u)
qed

lemma page_bitmap_covers:
  assumes "b \<le> a" "a \<le> e" "a \<le> 0xffffffff"
  shows "bit (page_bitmap b e (unat (drop_bit 20 a))) (block_of a)"
proof -
  let ?p = "unat (drop_bit 20 a)"
  have p: "?p = unat a div 2 ^ 20" by (simp add: drop_bit_eq_div unat_div)
  have "unat a \<le> 0xffffffff" using assms(3) by (simp add: word_le_nat_alt)
  then have "?p < 4096" unfolding p by (intro div_less_iff_less_mult [THEN iffD2]) simp_all
  have k: "block_of a < 16" by (simp add: block_of_nat)
  have ff: "(0xffff :: u32) = mask 16" "(0xffff :: u16) = mask 16" by (simp_all add: mask_eq_exp_minus_1)
  have lower: "block_of b \<le> block_of a" if "b > ucast (push_bit 20 (of_nat ?p) :: u32)"
  proof (rule block_of_mono [OF assms(1)])
    have "?p * 2 ^ 20 < unat b" using that \<open>?p < 4096\<close> unfolding word_less_nat_alt page_start [OF less_imp_le [OF \<open>?p < 4096\<close>]] by simp
    moreover have "unat b \<le> unat a" using assms(1) by (simp add: word_le_nat_alt)
    ultimately show "unat a div 2 ^ 20 = unat b div 2 ^ 20" unfolding p
      by (metis div_le_mono le_antisym less_imp_le_nat nonzero_mult_div_cancel_right power_not_zero zero_neq_numeral)
  qed
  have upper: "block_of a \<le> block_of e" if "e < ucast (push_bit 20 (of_nat ?p + 1) :: u32)"
  proof (rule block_of_mono [OF assms(2)])
    have "unat e < (?p + 1) mod 4096 * 2 ^ 20"
      using that \<open>?p < 4096\<close> page_start [of "?p + 1"] unfolding word_less_nat_alt of_nat_add of_nat_1 by simp
    then have "unat e < (?p + 1) * 2 ^ 20"
      by (meson less_le_trans mod_less_eq_dividend mult_le_mono1)
    then have "unat e div 2 ^ 20 < ?p + 1" by (rule less_mult_imp_div_less)
    moreover have "unat a \<le> unat e" using assms(2) by (simp add: word_le_nat_alt)
    then have "?p \<le> unat e div 2 ^ 20" unfolding p by (rule div_le_mono)
    ultimately show "unat e div 2 ^ 20 = unat a div 2 ^ 20" unfolding p by linarith
  qed
  show ?thesis
    unfolding page_bitmap_def Let_def block_of_def [symmetric] ff
    using k lower upper by (auto simp: bit_simps bit_mask_iff simp del: push_bit_numeral)
qed

lemma chain_exclusive:
  assumes "chain_ok (unat (drop_bit 20 a)) hs" "a \<le> 0xffffffff" "i < j" "j < length hs"
  shows "\<not> (covers a (hs ! i) \<and> covers a (hs ! j))"
  using assms
proof (induction hs arbitrary: i j)
  case (Cons h hs)
  let ?p = "unat (drop_bit 20 a)"
  show ?case
  proof (cases i)
    case 0
    obtain j' where j: "j = Suc j'" "j' < length hs" using Cons.prems(3,4) by (cases j) auto
    show ?thesis
    proof
      assume cov: "covers a ((h # hs) ! i) \<and> covers a ((h # hs) ! j)"
      let ?g = "hs ! j'"
      have "bit (page_bitmap (h_begin h) (h_end h) ?p) (block_of a)" "bit (page_bitmap (h_begin ?g) (h_end ?g) ?p) (block_of a)"
        using cov 0 j Cons.prems(2) by (auto simp: covers_def intro: page_bitmap_covers)
      moreover have "?g \<in> set hs" using j by simp
      ultimately have "bit (chain_bitmap hs) (block_of a)"
        using Cons.prems(1) chain_bitmap_bits [of ?p hs "block_of a"] by auto
      then have "bit (page_bitmap (h_begin h) (h_end h) ?p AND chain_bitmap hs) (block_of a)"
        using \<open>bit (page_bitmap (h_begin h) (h_end h) ?p) (block_of a)\<close> by (simp add: bit_and_iff)
      then show False using Cons.prems(1) by simp
    qed
  next
    case (Suc i')
    then obtain j' where "j = Suc j'" using Cons.prems(3) by (cases j) auto
    then show ?thesis using Suc Cons.prems Cons.IH [of i' j'] by simp
  qed
qed simp

lemma handlers_ok_exclusive:
  assumes "handlers_ok m" "a \<le> 0xffffffff" "i < j" "j < length (memory_handlers m (drop_bit 20 a))"
  shows "\<not> (covers a (memory_handlers m (drop_bit 20 a) ! i) \<and> covers a (memory_handlers m (drop_bit 20 a) ! j))"
proof (rule chain_exclusive [OF _ assms(2-4)])
  have "unat a \<le> 0xffffffff" using assms(2) by (simp add: word_le_nat_alt)
  then have "unat (drop_bit 20 a) < 4096" by (simp add: drop_bit_eq_div unat_div div_less_iff_less_mult)
  then show "chain_ok (unat (drop_bit 20 a)) (memory_handlers m (drop_bit 20 a))"
    using assms(1) unfolding handlers_ok_def by (metis of_nat_unat ucast_id)
qed

lemma handlers_ok_page:
  assumes "handlers_ok m" "p < 2 ^ 32" "page_bitmap (h_begin h) (h_end h) p AND chain_bitmap (memory_handlers m (of_nat p)) = 0"
  shows "handlers_ok (m\<lparr>memory_handlers := (memory_handlers m)(of_nat p := page_entry p h (memory_handlers m (of_nat p)) # memory_handlers m (of_nat p))\<rparr>)"
  unfolding handlers_ok_def
proof (intro allI impI)
  fix q :: nat
  assume "q < 4096"
  then have ok: "chain_ok q (memory_handlers m (of_nat q))" using assms(1) by (simp add: handlers_ok_def)
  have "q = p" if "of_nat q = (of_nat p :: u64)"
  proof -
    have "unat (of_nat q :: u64) = unat (of_nat p :: u64)" using that by (rule arg_cong)
    then show ?thesis using \<open>q < 4096\<close> assms(2) by (simp add: unsigned_of_nat take_bit_nat_eq_self)
  qed
  then show "chain_ok q (memory_handlers
      (m\<lparr>memory_handlers := (memory_handlers m)(of_nat p := page_entry p h (memory_handlers m (of_nat p)) # memory_handlers m (of_nat p))\<rparr>) (of_nat q))"
    using ok assms(3) by (auto simp: page_entry_def)
qed

lemma register_pages_ok:
  "handlers_ok m \<Longrightarrow> \<forall>p \<in> set ps. p < 2 ^ 32 \<Longrightarrow> handlers_ok (snd (register_pages h ps m))"
proof (induction ps arbitrary: m)
  case (Cons p ps)
  then show ?case by (simp add: register_pages_Cons Let_def handlers_ok_page)
qed simp

text \<open>Registration keeps the handlers of the 4 GByte space exclusive, whether it succeeds or fails: the bitmap of
  every chain stays the set of 64 KByte blocks in use, so that at most one handler of the chain that an access searches contains its address.\<close>

theorem register_exclusive:
  assumes "handlers_ok m" "a \<le> 0xffffffff"
  shows "let m' = snd (registerMemoryHandlers param rd wr da b e m); hs = memory_handlers m' (drop_bit 20 a)
         in handlers_ok m' \<and> (\<forall>i j. i < j \<and> j < length hs \<longrightarrow> \<not> (covers a (hs ! i) \<and> covers a (hs ! j)))"
proof -
  have "handlers_ok (snd (registerMemoryHandlers param rd wr da b e m))"
    using assms(1) handler_pages_set(2)
    by (auto simp: registerMemoryHandlers_def split: option.split intro: register_pages_ok)
  then show ?thesis using handlers_ok_exclusive [OF _ assms(2)] unfolding Let_def by blast
qed

lemma register_exclusive_witness:
  "let m' = snd (registerMemoryHandlers 1 (Some (\<lambda>_ _ d. (None, d))) None None 0xfec00000 0xfec00fff
       (init_memory 0x200000 True (\<lambda>_. 0) 0xffffffffffffffff () (\<lambda>_ _. 0) (\<lambda>_ _ d. d)));
       hs = memory_handlers m' (drop_bit 20 0xfec00010)
   in handlers_ok m' \<and> (\<forall>i j. i < j \<and> j < length hs \<longrightarrow> \<not> (covers 0xfec00010 (hs ! i) \<and> covers 0xfec00010 (hs ! j)))"
  by (rule register_exclusive) (simp_all add: handlers_ok_def init_memory_def)

section \<open>Dispatch\<close>

lemma in_handler_pages:
  assumes "b \<le> a" "a \<le> e" "e < 0x10000000000"
  shows "\<exists>p \<in> set (handler_pages b e). drop_bit 20 a = of_nat p"
proof -
  have u: "unat (ucast (drop_bit 20 x) :: u32) = unat x div 2 ^ 20" if "x < 0x10000000000" for x :: u64
  proof -
    have "unat x < 2 ^ 40" using that by (simp add: word_less_nat_alt)
    then have "unat x div 2 ^ 20 < 2 ^ 32" by (simp add: div_less_iff_less_mult)
    then show ?thesis by (simp add: unsigned_ucast_eq drop_bit_eq_div unat_div take_bit_nat_eq_self)
  qed
  have le: "unat b div 2 ^ 20 \<le> unat a div 2 ^ 20" "unat a div 2 ^ 20 \<le> unat e div 2 ^ 20"
    using assms by (auto intro!: div_le_mono simp: word_le_nat_alt)
  have "a < 0x10000000000" "b < 0x10000000000" using assms by auto
  then have "unat a div 2 ^ 20 \<in> set (handler_pages b e)"
    unfolding handler_pages_def u [OF assms(3)] u [OF \<open>b < 0x10000000000\<close>] using le
    by (simp only: set_upt atLeastLessThan_iff less_Suc_eq_le)
  moreover have "drop_bit 20 a = of_nat (unat a div 2 ^ 20)"
  proof -
    have "unat (drop_bit 20 a) = unat a div 2 ^ 20" by (simp add: drop_bit_eq_div unat_div)
    then show ?thesis by (metis of_nat_unat ucast_id)
  qed
  ultimately show ?thesis by blast
qed

text \<open>C20: After a successful registration a CPU or DMA access inside the range goes to the new handler: a read returns its data, a write
  reaches it, and RAM, ROM and the other handlers are not touched; outside the range every access finds the handler it found before.\<close>

theorem register_dispatch:
  assumes "registerMemoryHandlers param (Some rd) (Some wr) da b e m = (True, m')"
    and "e < 0x10000000000" "\<not> smram_window cpu (A20ADDR addr m) m" "\<not> cross_page addr (length data)"
  defines "a \<equiv> A20ADDR addr m"
  shows "if b \<le> a \<and> a \<le> e
    then (\<forall>x d. rd a (length data) (mem_devices m) = (Some x, d) \<longrightarrow>
            readPhysicalPage cpu addr data m' = (x, m'\<lparr>mem_devices := d\<rparr>))
       \<and> (\<forall>d. wr a data (mem_devices m) = (True, d) \<longrightarrow>
            writePhysicalPage cpu addr data m' = (check_monitor a (of_nat (length data)) m')\<lparr>mem_devices := d\<rparr>)
    else find_handler (memory_handlers m' (drop_bit 20 a)) a = find_handler (memory_handlers m (drop_bit 20 a)) a"
proof -
  obtain h where h: "h_begin h = b" "h_end h = e" "read_handler h = rd" "write_handler h = Some wr" and
    m': "m' = m\<lparr>memory_handlers := (\<lambda>a. if \<exists>p \<in> set (handler_pages b e). a = of_nat p
             then page_entry (unat a) h (memory_handlers m a) # memory_handlers m a else memory_handlers m a)\<rparr>"
    by (rule register_result [OF assms(1)]) (rule that [rotated 4], assumption, simp_all)
  have same: "A20ADDR addr m' = a" "smram_window cpu a m' = smram_window cpu a m" "mem_devices m' = mem_devices m"
    by (simp_all add: m' a_def A20ADDR_def smram_window_def split: option.split)
  show ?thesis
  proof (cases "b \<le> a \<and> a \<le> e")
    case True
    then have "\<exists>hs. memory_handlers m' (drop_bit 20 a) = page_entry (unat (drop_bit 20 a)) h hs # hs"
      using in_handler_pages [of b a e] assms(2) by (simp add: m')
    then obtain hs where hs: "memory_handlers m' (drop_bit 20 a) = page_entry (unat (drop_bit 20 a)) h hs # hs" ..
    have rd: "handlers_read (memory_handlers m' (drop_bit 20 a)) a (length data) (mem_devices m') = (Some x, d)"
      if "rd a (length data) (mem_devices m) = (Some x, d)" for x d
      using that True unfolding hs same by (simp add: page_entry_def h)
    have wr: "handlers_write (memory_handlers m' (drop_bit 20 a)) a data (mem_devices m') = (True, d)"
      if "wr a data (mem_devices m) = (True, d)" for d
      using that True unfolding hs same by (simp add: page_entry_def h)
    show ?thesis
      using True assms(3,4) rd wr
      by (simp add: readPhysicalPage_def writePhysicalPage_def same a_def [symmetric] Let_def)
  next
    case False
    then show ?thesis by (auto simp: m' page_entry_def h)
  qed
qed

text \<open>A concrete device: an I/O APIC page whose registers read as 5.\<close>

definition demo_rd :: "u64 \<Rightarrow> nat \<Rightarrow> unit \<Rightarrow> u8 list option \<times> unit" where
  "demo_rd a n d = (Some (replicate n 5), d)"

definition demo_wr :: "u64 \<Rightarrow> u8 list \<Rightarrow> unit \<Rightarrow> bool \<times> unit" where
  "demo_wr a data d = (True, d)"

lemma demo_register:
  "registerMemoryHandlers 1 (Some demo_rd) (Some demo_wr) None 0xfec00000 0xfec00fff demo_mem
   = (True, snd (registerMemoryHandlers 1 (Some demo_rd) (Some demo_wr) None 0xfec00000 0xfec00fff demo_mem))"
  by (simp add: registerMemoryHandlers_def handler_pages_def register_pages_Cons chain_bitmap_def demo_mem_def init_memory_def)

definition demo_registration :: "unit registration" where
  "demo_registration = \<lparr>r_param = 2, r_read = Some demo_rd, r_write = None, r_direct = None, r_begin = 0xfec10000, r_end = 0xfec1ffff\<rparr>"

lemma demo_register_all:
  "register_all [demo_registration] (snd (registerMemoryHandlers 1 (Some demo_rd) (Some demo_wr) None 0xfec00000 0xfec00fff demo_mem))
   = (True, snd (register_all [demo_registration]
       (snd (registerMemoryHandlers 1 (Some demo_rd) (Some demo_wr) None 0xfec00000 0xfec00fff demo_mem))))"
  by (simp add: demo_registration_def registerMemoryHandlers_def handler_pages_def register_pages_Cons chain_bitmap_def
      page_entry_def page_bitmap_def demo_mem_def init_memory_def mask_eq_exp_minus_1)

lemma register_unregister_witness:
  "\<exists>m3. unregisterMemoryHandlers 1 0xfec00000 0xfec00fff (snd (register_all [demo_registration]
       (snd (registerMemoryHandlers 1 (Some demo_rd) (Some demo_wr) None 0xfec00000 0xfec00fff demo_mem)))) = (True, m3)
     \<and> register_all [demo_registration] demo_mem = (True, m3)"
  by (rule register_unregister [OF demo_register demo_register_all])
    (simp add: passed_by_def demo_registration_def)

lemma register_dispatch_witness:
  "fst (readPhysicalPage (Some False) 0xfec00010 [0]
     (snd (registerMemoryHandlers 1 (Some demo_rd) (Some demo_wr) None 0xfec00000 0xfec00fff demo_mem))) = [5]"
proof -
  have a: "A20ADDR 0xfec00010 demo_mem = 0xfec00010" by (simp add: A20ADDR_def demo_mem_def init_memory_def)
  show ?thesis
    using register_dispatch [OF demo_register, where cpu = "Some False" and addr = "0xfec00010" and data = "[0]"]
    by (simp add: a demo_rd_def smram_window_def cross_page_def)
qed

end
