(* ===== verification/Mem_Rom.thy ===== *)
theory Mem_Rom
  imports Mem_Access
begin

text \<open>
  ROM: the placement of ROM images by \<open>load_ROM\<close> (src/memory/misc_mem.cc) and where the BIOS is seen
  afterwards, and the flash chip's command sequences. An image is the list of its bytes; files that are not
  given, cannot be opened, or hold the saved flash data are arguments.
\<close>

section \<open>load_ROM\<close>

datatype rom_file = No_path | No_file | Image "u8 list"

definition mem_error :: "string \<Rightarrow> 'd bx_mem \<Rightarrow> 'd bx_mem" where
  "mem_error msg m = m"

text \<open>The loop over the 2 KByte slots of the ROM area; it stops at one in use.\<close>

fun rom_slots :: "nat list \<Rightarrow> 'd bx_mem \<Rightarrow> bool \<times> 'd bx_mem" where
  "rom_slots [] m = (True, m)"
| "rom_slots (i # is) m =
     (if rom_present m i then (False, mem_panic ''ROM: address space already in use'' m)
      else rom_slots is (m\<lparr>rom_present := (rom_present m)(i := True)\<rparr>))"

definition rom_store :: "u32 \<Rightarrow> u8 list \<Rightarrow> 'd bx_mem \<Rightarrow> 'd bx_mem" where
  "rom_store offset img m =
     m\<lparr>rom := (\<lambda>a. if unat (a - offset) < length img then img ! unat (a - offset) else rom m a)\<rparr>"

definition rom_checksum :: "u32 \<Rightarrow> nat \<Rightarrow> 'd bx_mem \<Rightarrow> u8" where
  "rom_checksum offset n m = sum_list (map (\<lambda>i. rom m (offset + of_nat i)) [0..<n])"

text \<open>\<open>flash_data\<close>: the option is not set, its file cannot be opened, or its contents.\<close>

definition load_flash :: "u8 list option option \<Rightarrow> 'd bx_mem \<Rightarrow> 'd bx_mem" where
  "load_flash flash_data m =
     (case flash_data of
        None \<Rightarrow> m
      | Some (Some bytes) \<Rightarrow>
          (if flash_type m = 2 then rom_store (BIOSROMSZ - 0x8000) (take 0x4000 bytes) m
           else if flash_type m = 1 then rom_store (BIOSROMSZ - 0x4000) (take 0x2000 bytes) m else m)
      | Some None \<Rightarrow>
          (let (foffset, fsize) = (if flash_type m = 2 then (0x8000, 0x4000)
                                   else if flash_type m = 1 then (0x4000, 0x2000) else (0, 0))
           in if fsize > 0 then (rom_fill_ff (BIOSROMSZ - foffset) fsize m)\<lparr>flash_modified := True\<rparr> else m))"

definition load_image :: "u8 list \<Rightarrow> bool \<Rightarrow> u8 list option option \<Rightarrow> u64 \<Rightarrow> nat \<Rightarrow> u32 \<Rightarrow> 'd bx_mem \<Rightarrow> 'd bx_mem" where
  "load_image img is_bochs_bios flash_data romaddress typ offset m =
     (let m = rom_store offset img m; n = length img;
          m = (if is_bochs_bios \<or> rom m offset = 0x55 \<and> rom m (offset + 1) = 0xaa
               then let (offset', n') = (if typ = 0 \<and> romaddress AND 0xfffff = 0xe0000 then (offset + 0x10000, 0x10000) else (offset, n));
                        checksum = rom_checksum offset' n' m
                    in if checksum \<noteq> 0 \<and> typ = 1 then mem_panic ''ROM: checksum error in VGABIOS image'' m else m
               else m)
      in if typ = 0 \<and> \<not> is_bochs_bios \<and> flash_type m > 0 then load_flash flash_data m else m)"

definition load_ROM :: "rom_file \<Rightarrow> bool \<Rightarrow> u8 list option option \<Rightarrow> u64 \<Rightarrow> nat \<Rightarrow> 'd bx_mem \<Rightarrow> 'd bx_mem" where
  "load_ROM file bochs_name flash_data romaddress typ m =
     (case file of
        No_path \<Rightarrow> mem_panic ''ROM: image undefined'' m
      | No_file \<Rightarrow> (if typ < 2 then mem_panic ''ROM: couldn't open ROM image file'' m
                    else mem_error ''ROM: couldn't open ROM image file'' m)
      | Image img \<Rightarrow>
          (let n = length img; max_size = (if typ > 0 then 0x20000 else unat BIOSROMSZ); size = of_nat n :: u64
           in if n > max_size then mem_panic ''ROM: ROM image too large'' m
              else if typ = 0
              then (if romaddress > 0 \<and> romaddress + size \<noteq> 0x100000 \<and> romaddress + size \<noteq> 0
                    then mem_panic ''ROM: System BIOS must end at 0xfffff'' m
                    else let romaddress = (if romaddress > 0 then romaddress else NOT (size - 1));
                             offset = ucast romaddress AND BIOS_MASK;
                             m = (if romaddress AND 0xf0000 < 0xf0000
                                  then m\<lparr>rom_present := (rom_present m)(64 := True)\<rparr> else m);
                             m = m\<lparr>bios_rom_addr := ucast romaddress\<rparr>;
                             m = (if n = 0x40000 then m\<lparr>flash_type := 2\<rparr>
                                  else if n = 0x20000 then m\<lparr>flash_type := 1\<rparr> else m)
                         in load_image img bochs_name flash_data romaddress typ offset m)
              else if n mod 512 \<noteq> 0 then mem_panic ''ROM: ROM image size must be multiple of 512'' m
              else if romaddress mod 2048 \<noteq> 0 then mem_panic ''ROM: ROM image must start at a 2k boundary'' m
              else if romaddress < 0xc0000 \<or> romaddress + size - 1 > 0xdffff \<and> romaddress < 0xe0000
              then mem_panic ''ROM: ROM address space out of range'' m
              else let (offset, start_idx, end_idx) =
                         (if romaddress < 0xe0000
                          then (EXROM_INDEX romaddress, unat (drop_bit 11 (ucast romaddress - 0xc0000 :: u32)),
                                unat (drop_bit 11 (ucast romaddress - 0xc0000 :: u32)) + n div 2048 + of_bool (n mod 2048 > 0))
                          else (ucast romaddress AND BIOS_MASK, 64, 64));
                       (ok, m) = rom_slots [start_idx..<end_idx] m
                   in if ok then load_image img False None romaddress typ offset m else m))"

section \<open>Where the BIOS is seen\<close>

lemma load_image_rom:
  assumes "bochs_name \<or> flash_data = None"
  shows "load_image img bochs_name flash_data romaddress 0 offset m = rom_store offset img m"
proof -
  have panic: "(let (offset', n') = q; checksum = rom_checksum offset' n' x in if checksum \<noteq> 0 \<and> (0 :: nat) = 1 then y else x) = x"
    for q x and y :: "'a bx_mem" by (simp add: split_beta)
  have flash: "(if \<not> bochs_name \<and> c then load_flash flash_data x else x) = x" for c and x :: "'a bx_mem"
    using assms by (auto simp: load_flash_def)
  show ?thesis unfolding load_image_def panic if_cancel by (simp only: Let_def simp_thms flash)
qed

lemma rom_index_top:
  assumes "0 < j" "j \<le> 0x400000"
  shows "ucast ((0x100000000 - of_nat j :: u64) AND ucast BIOS_MASK) = (of_nat (0x400000 - j) :: u32)"
    and "unat (0x100000000 - of_nat j :: u64) = 0x100000000 - j"
proof -
  have "(0x100000000 - of_nat j :: u64) = of_nat (0x100000000 - j)" using assms by (simp add: of_nat_diff)
  then show u: "unat (0x100000000 - of_nat j :: u64) = 0x100000000 - j"
    by (simp only: unat_of_nat) (simp add: assms)
  have "(0x100000000 - j) mod 0x400000 = 0x400000 - j" using assms by (intro mod_nat_eqI) auto
  then have "unat (take_bit 22 (0x100000000 - of_nat j :: u64)) = 0x400000 - j"
    by (simp add: take_bit_eq_mod unat_mod u)
  moreover have "ucast w = (of_nat (unat w) :: u32)" for w :: u64 by simp
  ultimately show "ucast ((0x100000000 - of_nat j :: u64) AND ucast BIOS_MASK) = (of_nat (0x400000 - j) :: u32)"
    unfolding ucast_rom_masks page_masks by (simp only: take_bit_eq_mask [symmetric])
qed

lemma minus_of_nat_32:
  assumes "0 < n" "n \<le> 0x400000"
  shows "ucast (NOT (of_nat n - 1 :: u64)) = (of_nat (0x100000000 - n) :: u32)"
    and "ucast (NOT (of_nat n - 1 :: u64)) AND BIOS_MASK = (of_nat (0x400000 - n) :: u32)"
proof -
  have "NOT (of_nat n - 1 :: u64) = - of_nat n" by (simp add: not_eq_complement)
  then have "ucast (NOT (of_nat n - 1 :: u64)) = - (of_nat n :: u32)"
    using ucast_plus_32 [of 0 n] by (simp add: ucast_down)
  moreover have "- (of_nat n :: u32) = of_nat (0x100000000 - n)"
    using assms by (simp add: of_nat_diff)
  ultimately show u: "ucast (NOT (of_nat n - 1 :: u64)) = (of_nat (0x100000000 - n) :: u32)" by simp
  have bios: "BIOS_MASK = mask 22" by (simp add: BIOS_MASK_def BIOSROMSZ_def mask_eq_exp_minus_1)
  have "unat (of_nat (0x100000000 - n) :: u32) = 0x100000000 - n"
    using assms by (simp only: unat_of_nat) simp
  then have "unat (of_nat (0x100000000 - n) AND BIOS_MASK :: u32) = (0x100000000 - n) mod 0x400000"
    unfolding bios take_bit_eq_mask [symmetric] by (simp only: take_bit_eq_mod unat_mod) simp
  also have "\<dots> = 0x400000 - n" using assms by (intro mod_nat_eqI) auto
  finally show "ucast (NOT (of_nat n - 1 :: u64)) AND BIOS_MASK = (of_nat (0x400000 - n) :: u32)"
    unfolding u by (metis of_nat_unat ucast_id)
qed

lemma load_ROM_default:
  assumes "0 < length img" "length img \<le> 0x400000" "bochs_name \<or> flash_data = None"
  obtains rp ft where "load_ROM (Image img) bochs_name flash_data 0 0 m
    = rom_store (of_nat (0x400000 - length img)) img
        (m\<lparr>rom_present := rp, bios_rom_addr := of_nat (0x100000000 - length img), flash_type := ft\<rparr>)"
proof -
  define r where "r = NOT (of_nat (length img) - 1 :: u64)"
  have r: "ucast r = (of_nat (0x100000000 - length img) :: u32)" "ucast r AND BIOS_MASK = (of_nat (0x400000 - length img) :: u32)"
    unfolding r_def by (rule minus_of_nat_32 [OF assms(1,2)])+
  have size: "\<not> length img > unat BIOSROMSZ" using assms(2) by (simp add: BIOSROMSZ_def)
  define rp where "rp = (if r AND 0xf0000 < 0xf0000 then (rom_present m)(64 := True) else rom_present m)"
  define ft where "ft = (if length img = 0x40000 then 2 else if length img = 0x20000 then 1 else flash_type m)"
  let ?M = "m\<lparr>rom_present := rp, bios_rom_addr := of_nat (0x100000000 - length img), flash_type := ft\<rparr>"
  have "(let m = (if r AND 0xf0000 < 0xf0000 then m\<lparr>rom_present := (rom_present m)(64 := True)\<rparr> else m);
             m = m\<lparr>bios_rom_addr := ucast r\<rparr>
         in if length img = 0x40000 then m\<lparr>flash_type := 2\<rparr> else if length img = 0x20000 then m\<lparr>flash_type := 1\<rparr> else m) = ?M"
    unfolding r rp_def ft_def Let_def by simp
  then have "load_ROM (Image img) bochs_name flash_data 0 0 m = load_image img bochs_name flash_data r 0 (of_nat (0x400000 - length img)) ?M"
    unfolding load_ROM_def rom_file.case r(2) [symmetric]
    by (simp only: Let_def r_def [symmetric] size less_irrefl simp_thms if_False if_True)
  then show ?thesis using that by (simp only: load_image_rom [OF assms(3)])
qed

lemma bios_area:
  assumes "0xe0000 \<le> a" "a < (0x100000 :: u64)"
  shows "a AND 0xfffe0000 = 0xe0000"
proof -
  have "unat a div 2 ^ 17 = 7"
    using assms by (simp add: word_le_nat_alt word_less_nat_alt div_nat_eqI)
  then have "drop_bit 17 a = 7"
    by (simp add: word_eq_iff_unsigned [where 'a = nat] drop_bit_eq_div unat_div)
  moreover have "a AND 0xfffe0000 = push_bit 17 (drop_bit 17 a AND mask 15)"
    unfolding page_masks by (rule bit_eqI) (auto simp: bit_simps bit_mask_iff simp del: push_bit_numeral)
  moreover have "(7 :: u64) AND mask 15 = 7" by (simp add: mask_eq_exp_minus_1)
  ultimately show ?thesis by simp
qed

text \<open>C21: After the system BIOS is loaded at its default place, the bytes of its image are seen below 4 GByte, the last of them at the top (so that
  the reset vector fetches from the image), and its last 128 KByte also below 1 MByte while that area is not shadowed.\<close>

theorem bios_visible:
  assumes "0 < j" "j \<le> length img" "length img \<le> 0x400000" "bochs_name \<or> flash_data = None"
    and "mem_a20_mask m = 0xffffffffffffffff" "flash_wsm_state m = FLASH_READ_ARRAY" "0x100000 \<le> mem_len m"
    and "find_handler (memory_handlers m (drop_bit 20 a)) a = None"
    and "a = 0x100000000 - of_nat j \<or> a = 0x100000 - of_nat j \<and> j \<le> 0x20000 \<and> \<not> memory_type m (memory_area a) False"
  shows "fst (readPhysicalPage cpu a [b] (load_ROM (Image img) bochs_name flash_data 0 0 m)) = [img ! (length img - j)]"
proof -
  have n: "0 < length img" using assms(1,2) by linarith
  obtain rp ft where M: "load_ROM (Image img) bochs_name flash_data 0 0 m
      = rom_store (of_nat (0x400000 - length img)) img
          (m\<lparr>rom_present := rp, bios_rom_addr := of_nat (0x100000000 - length img), flash_type := ft\<rparr>)" (is "_ = ?M")
    by (rule load_ROM_default [OF n assms(3,4)])
  have stored: "rom ?M (of_nat (0x400000 - j)) = img ! (length img - j)"
  proof -
    have "0x400000 - j = (0x400000 - length img) + (length img - j)" using assms(2,3) by simp
    then have "(of_nat (0x400000 - j) :: u32) = of_nat (0x400000 - length img) + of_nat (length img - j)"
      by (metis of_nat_add)
    moreover have "unat (of_nat (length img - j) :: u32) = length img - j"
      using assms(3) by (simp only: unat_of_nat) simp
    moreover have "length img - j < length img" using assms(1,2) by linarith
    ultimately show ?thesis by (simp add: rom_store_def del: of_nat_diff)
  qed
  have base: "unat (bios_rom_addr ?M) = 0x100000000 - length img"
    using assms(3) n by (simp add: rom_store_def unat_of_nat del: of_nat_diff)
  have ones: "a AND 0xffffffffffffffff = a"
  proof -
    have "(0xffffffffffffffff :: u64) = - 1" by simp
    then show ?thesis by (simp only: and.right_neutral)
  qed
  have fields: "A20ADDR a ?M = a" "mem_len ?M = mem_len m" "memory_handlers ?M = memory_handlers m" "flash_idle ?M"
    "memory_type ?M = memory_type m" "mem_devices ?M = mem_devices m"
    "?M\<lparr>mem_devices := mem_devices m\<rparr> = ?M"
    using assms(5,6) by (simp_all add: rom_store_def A20ADDR_def flash_idle_def ones)
  have via_flash: "(if 0 < flash_type ?M then flash_read c ?M else (rom ?M c, ?M)) = (rom ?M c, ?M)" for c
    using flash_read_idle [OF fields(4)] by simp
  have np: "\<not> cross_page a (Suc 0)" by (simp add: cross_page_def)
  have window: "\<not> smram_window cpu a ?M" if "0xc0000 \<le> a"
    using that by (auto simp: smram_window_def linorder_not_le [symmetric] split: option.split)
  have ram: "readPhysicalPage cpu a [b] ?M = mem_read_ram cpu a [b] ?M" if "0xc0000 \<le> a"
    using np window [OF that] handlers_none(1) [OF assms(8)]
    by (simp add: readPhysicalPage_def fields Let_def)
  from assms(9) show ?thesis
  proof
    assume a: "a = 0x100000000 - of_nat j"
    then have u: "unat a = 0x100000000 - j" using rom_index_top(2) [of j] assms(1-3) by simp
    then have bios: "bios_addr a ?M" "\<not> a > 0xffffffff" "0xc0000 \<le> a"
      using assms(1-3) base by (simp_all add: bios_addr_def word_less_nat_alt word_le_nat_alt) linarith
    then have "mem_read_ram cpu a [b] ?M = bios_read_loop a (Suc 0) ?M"
      by (simp add: mem_read_ram_def fields Let_def)
    also have "\<dots> = ([rom ?M (ucast (a AND ucast BIOS_MASK))], ?M)"
      by (simp only: bios_read_loop.simps Let_def via_flash split_beta fst_conv snd_conv)
    also have "ucast (a AND ucast BIOS_MASK) = (of_nat (0x400000 - j) :: u32)"
      unfolding a using assms(1-3) by (intro rom_index_top) simp_all
    finally show ?thesis unfolding M ram [OF bios(3)] stored by simp
  next
    assume a: "a = 0x100000 - of_nat j \<and> j \<le> 0x20000 \<and> \<not> memory_type m (memory_area a) False"
    have "0x100000 - of_nat j = (of_nat (0x100000 - j) :: u64)" using a by (simp add: of_nat_diff)
    then have u: "unat a = 0x100000 - j" using a by (simp only: unat_of_nat) simp
    then have range: "0xe0000 \<le> a" "0xc0000 \<le> a" "a < 0x100000"
    proof -
      have "j \<le> 0x20000" using a by blast
      then have "0xe0000 \<le> unat a" "0xc0000 \<le> unat a" "unat a < 0x100000" unfolding u using assms(1) by linarith+
      then show "0xe0000 \<le> a" "0xc0000 \<le> a" "a < 0x100000" by (simp_all add: word_le_nat_alt word_less_nat_alt)
    qed
    have "unat a < 0x100000" unfolding u using assms(1) a by linarith
    then have "\<not> 0x100000000 - length img \<le> unat a" using assms(3) by linarith
    then have "\<not> bios_addr a ?M" unfolding bios_addr_def word_le_nat_alt unat_ucast_32 base by simp
    moreover have "a < mem_len ?M" unfolding fields using range(3) assms(7) by (rule order_less_le_trans)
    moreover have "\<not> a < 0xa0000" "\<not> 0x100000 \<le> a" "\<not> a < 0xc0000" using range by unat_arith+
    ultimately have bios: "\<not> bios_addr a ?M" "a < mem_len ?M" "\<not> a < 0xa0000" "\<not> 0x100000 \<le> a" "\<not> a < 0xc0000"
      by blast+
    have map: "BIOS_MAP_LAST128K a = of_nat (0x400000 - j)"
    proof -
      have "unat (a AND mask 20) = unat a"
        unfolding take_bit_eq_mask [symmetric] using range(3) by (simp add: take_bit_eq_mod unat_mod word_less_nat_alt)
      then have "a AND 0xfffff = a" unfolding page_masks by (metis of_nat_unat ucast_id)
      moreover have "a + 0x300000 = of_nat (0x400000 - j)"
      proof -
        have "0x400000 - j = (0x100000 - j) + 0x300000" using a by linarith
        then have "(of_nat (0x400000 - j) :: u64) = of_nat (0x100000 - j) + 0x300000" by (metis of_nat_add of_nat_numeral)
        then show ?thesis unfolding \<open>0x100000 - of_nat j = of_nat (0x100000 - j)\<close> [symmetric] using a by (metis (no_types))
      qed
      ultimately show ?thesis
        using ucast_plus_32 [of 0 "0x400000 - j"]
        unfolding BIOS_MAP_LAST128K_def ucast_rom_masks bios_map_low by (simp del: of_nat_diff)
    qed
    have "mem_read_ram cpu a [b] ?M = (let (y, x) = low_read_byte cpu a b ?M in ([y], x))"
      using bios by (simp add: mem_read_ram_def fields Let_def)
    also have "low_read_byte cpu a b ?M = (rom ?M (of_nat (0x400000 - j)), ?M)"
    proof -
      have "\<not> memory_type m (memory_area a) False" using a by blast
      then show ?thesis
        unfolding low_read_byte_def fields low_area [OF range(2,3)] bios_area [OF range(1,3)]
        using bios(5) by (simp only: via_flash map simp_thms if_True if_False if_cancel)
    qed
    finally show ?thesis unfolding M ram [OF range(2)] stored by simp
  qed
qed

text \<open>The configuration file documents address 0xfff80000 for an image of 512 KByte: the sum of the two is not 0 in 64 bits, and the image is refused.\<close>

lemma load_ROM_top_refused:
  assumes "length img = 0x80000"
  shows "load_ROM (Image img) bochs_name flash_data 0xfff80000 0 m = mem_panic ''ROM: System BIOS must end at 0xfffff'' m"
  using assms by (simp add: load_ROM_def BIOSROMSZ_def)

text \<open>An image at 0xf0000 makes every address above it BIOS: RAM above 1 MByte is gone.\<close>

lemma load_ROM_low_hides_ram:
  assumes "length img = 0x10000" "0xf0000 \<le> a" "a \<le> 0xffffffff"
  shows "\<not> plain_ram a (load_ROM (Image img) True None 0xf0000 0 m)"
proof -
  have "bios_rom_addr (load_ROM (Image img) True None 0xf0000 0 m) = 0xf0000"
    using assms(1) by (simp add: load_ROM_def BIOSROMSZ_def load_image_rom rom_store_def Let_def)
  then show ?thesis using assms(2,3) by (simp add: plain_ram_def bios_addr_def linorder_not_le [symmetric])
qed

section \<open>The flash chip\<close>

lemma and_ff: "v AND 0xff = (v :: u8)"
proof -
  have "(0xff :: u8) = - 1" by simp
  then show ?thesis by (simp only: and.right_neutral)
qed

text \<open>The command sequences of a driver: a byte is programmed, a block is erased, and the chip is set to read its array again.\<close>

definition program_byte :: "u32 \<Rightarrow> u8 \<Rightarrow> 'd bx_mem \<Rightarrow> 'd bx_mem" where
  "program_byte x v m = flash_write x FLASH_READ_ARRAY (flash_write x v (flash_write x FLASH_PROG_SETUP m))"

definition erase_block :: "u32 \<Rightarrow> 'd bx_mem \<Rightarrow> 'd bx_mem" where
  "erase_block blk m = flash_write blk FLASH_READ_ARRAY (flash_write blk FLASH_ERASE (flash_write blk FLASH_ERASE_SETUP m))"

lemma program_byte_result:
  assumes "flash_wsm_state m \<noteq> FLASH_PROG_SETUP"
  shows "program_byte x v m = m\<lparr>rom := (rom m)(x := rom m x AND v), flash_wsm_state := FLASH_READ_ARRAY, flash_modified := True\<rparr>"
proof -
  have "flash_write x FLASH_PROG_SETUP m = m\<lparr>flash_wsm_state := FLASH_PROG_SETUP\<rparr>"
    using assms by (simp add: flash_write_def)
  moreover have "flash_write x v (m\<lparr>flash_wsm_state := FLASH_PROG_SETUP\<rparr>)
      = m\<lparr>rom := (rom m)(x := rom m x AND v), flash_wsm_state := FLASH_READ_STATUS, flash_modified := True\<rparr>"
    by (simp add: flash_write_def)
  ultimately show ?thesis unfolding program_byte_def by (simp add: flash_write_def)
qed

lemma erase_block_result:
  assumes "flash_wsm_state m \<noteq> FLASH_PROG_SETUP"
    and "flash_type m = 1 \<and> blk AND 0x1ffff \<in> {0x1c000, 0x1d000} \<and> sz = 0x1000
      \<or> flash_type m = 2 \<and> blk AND 0x3ffff \<in> {0x38000, 0x3a000} \<and> sz = 0x2000"
  shows "rom (erase_block blk m) = (\<lambda>y. if unat (y - blk) < sz then 0xff else rom m y)"
    and "flash_wsm_state (erase_block blk m) = FLASH_READ_ARRAY" and "flash_modified (erase_block blk m)"
proof -
  have ready: "flash_write blk FLASH_ERASE_SETUP m = m\<lparr>flash_wsm_state := FLASH_ERASE_SETUP\<rparr>"
    using assms(1) by (simp add: flash_write_def)
  let ?e = "flash_write blk FLASH_ERASE (m\<lparr>flash_wsm_state := FLASH_ERASE_SETUP\<rparr>)"
  have e: "flash_wsm_state ?e = FLASH_ERASE" "rom ?e = (\<lambda>y. if unat (y - blk) < sz then 0xff else rom m y)" "flash_modified ?e"
    using assms(2) by (auto simp: flash_write_def Let_def rom_fill_ff_def)
  have "erase_block blk m = ?e\<lparr>flash_wsm_state := FLASH_READ_ARRAY\<rparr>"
    unfolding erase_block_def ready by (subst flash_write_def) (simp add: e(1))
  then show "rom (erase_block blk m) = (\<lambda>y. if unat (y - blk) < sz then 0xff else rom m y)"
    "flash_wsm_state (erase_block blk m) = FLASH_READ_ARRAY" "flash_modified (erase_block blk m)"
    using e by simp_all
qed

lemma flash_read_array: "flash_wsm_state m = FLASH_READ_ARRAY \<Longrightarrow> flash_read y m = (rom m y, m)"
  by (simp add: flash_read_def)

text \<open>C22: The flash chip, whatever it holds. Programming a byte can only clear bits: the byte becomes the conjunction of its old value
  and the value programmed, no other byte changes, and it is read back. Erasing a parameter block sets all its bytes to ff and
  changes no byte outside of it, for both chips. So after an erasure the first value programmed is stored, a second one is combined with it, and only the next
  erasure sets bits again. The chip may be in any state but the one between the two writes of a programming.\<close>

theorem flash_erase_program:
  fixes v w :: u8 and m :: "'d bx_mem"
  assumes "flash_wsm_state m \<noteq> FLASH_PROG_SETUP"
    and "flash_type m = 1 \<and> blk AND 0x1ffff \<in> {0x1c000, 0x1d000} \<and> sz = 0x1000
      \<or> flash_type m = 2 \<and> blk AND 0x3ffff \<in> {0x38000, 0x3a000} \<and> sz = 0x2000"
  shows "rom (program_byte x v m) = (rom m)(x := rom m x AND v)
    \<and> flash_read x (program_byte x v m) = (rom m x AND v, program_byte x v m)
    \<and> rom (erase_block blk m) = (\<lambda>y. if unat (y - blk) < sz then 0xff else rom m y)
    \<and> flash_read x (erase_block blk m) = (if unat (x - blk) < sz then 0xff else rom m x, erase_block blk m)
    \<and> (unat (x - blk) < sz \<longrightarrow>
        fst (flash_read x (program_byte x v (erase_block blk m))) = v
        \<and> fst (flash_read x (program_byte x w (program_byte x v (erase_block blk m)))) = v AND w
        \<and> fst (flash_read x (erase_block blk (program_byte x v m))) = 0xff)"
proof -
  note p = program_byte_result and e = erase_block_result [OF assms]
  have er: "flash_wsm_state (erase_block blk m) \<noteq> FLASH_PROG_SETUP" by (simp add: e)
  have pr: "flash_wsm_state (program_byte x v m') \<noteq> FLASH_PROG_SETUP" "flash_type (program_byte x v m') = flash_type m'"
    if "flash_wsm_state m' \<noteq> FLASH_PROG_SETUP" for m' :: "'d bx_mem"
    by (simp_all add: p [OF that])
  have e2: "fst (flash_read x (erase_block blk (program_byte x v m))) = 0xff" if "unat (x - blk) < sz"
    using that assms(2) by (subst flash_read_array) (simp_all add: erase_block_result [OF pr(1) [OF assms(1)]] pr(2) [OF assms(1)])
  have twice: "fst (flash_read x (program_byte x w (program_byte x v (erase_block blk m)))) = v AND w" if "unat (x - blk) < sz"
    unfolding p [OF pr(1) [OF er]] using that and_ff [of v]
    by (subst flash_read_array) (simp_all add: p [OF er] e(1) and.commute [of "0xff"])
  have once: "fst (flash_read x (program_byte x v (erase_block blk m))) = v" if "unat (x - blk) < sz"
    using that and_ff [of v] by (subst flash_read_array) (simp_all add: p [OF er] e(1) and.commute [of "0xff"])
  show ?thesis
    using e2 twice once by (simp add: flash_read_array p [OF assms(1)] e)
qed

lemma bios_visible_witness:
  "fst (readPhysicalPage (Some False) 0xfffffffe [0]
     (load_ROM (Image [10, 20, 30]) True None 0 0 demo_mem)) = [20]"
  using bios_visible [where j = 2 and img = "[10, 20, 30]" and bochs_name = True and a = "0xfffffffe" and cpu = "Some False" and b = 0
      and m = demo_mem and flash_data = None]
  by (simp add: demo_mem_def init_memory_def)

lemma flash_erase_program_witness:
  "let m = (erase_block 0x3fc000 (demo_mem\<lparr>flash_type := 1\<rparr>))
   in flash_read 0x3fc004 (program_byte 0x3fc004 0x0f (program_byte 0x3fc004 0x5a m))
     = (0x0a, program_byte 0x3fc004 0x0f (program_byte 0x3fc004 0x5a m))"
proof -
  let ?m = "demo_mem\<lparr>flash_type := 1\<rparr>"
  have m: "flash_wsm_state ?m \<noteq> FLASH_PROG_SETUP" by (simp add: demo_mem_def init_memory_def)
  have "fst (flash_read 0x3fc004 (program_byte 0x3fc004 0x0f (program_byte 0x3fc004 0x5a (erase_block 0x3fc000 ?m)))) = 0x0a"
    using flash_erase_program [OF m, of "0x3fc000" "0x1000" "0x3fc004" "0x5a" "0x0f"] by simp
  then show ?thesis unfolding Let_def
    by (subst (asm) flash_read_array) (simp_all add: program_byte_result erase_block_result [OF m] flash_read_array)
qed

end
