(* ===== verification/Ram_Blocks.thy ===== *)
theory Ram_Blocks
  imports Bochs_Prelude
begin

text \<open>
  The block allocator behind \<open>get_vector\<close> (src/memory/memory\_stub.cc): guest RAM is cut into blocks, the host holds fewer
  blocks than the guest has, and a block that is not resident lies in the overflow file. The host buffer is a byte
  function on offsets, the file the list of its bytes (a write beyond its end fills the gap with zeros, a read at
  its end is short). Whether some TLB holds a pointer into a buffer is the argument \<open>busy\<close>. The
  theory shows that swapping is invisible: RAM behaves as an array of bytes.
\<close>

section \<open>The code\<close>

text \<open>An element of \<open>blocks\<close>: the null pointer, \<open>swapped_out\<close>, or a pointer into \<open>vector\<close>.\<close>

datatype block_ptr = Null_block | Swapped_out | Block_at u64

record ram_alloc =
  guest_len :: u64
  allocated :: u64
  block_size :: u32
  host_vector :: "u64 \<Rightarrow> u8"
  blocks :: "u32 \<Rightarrow> block_ptr"
  used_blocks :: u32
  next_swapout_idx :: u32
  overflow_file :: "u8 list option"
  alloc_panics :: "string list"

definition is_power_of_2 :: "u64 \<Rightarrow> bool" where
  "is_power_of_2 x \<longleftrightarrow> x AND (x - 1) = 0"

definition alloc_panic :: "bool \<Rightarrow> string \<Rightarrow> ram_alloc \<Rightarrow> ram_alloc" where
  "alloc_panic c msg s = (if c then s\<lparr>alloc_panics := alloc_panics s @ [msg]\<rparr> else s)"

definition blocks_init :: "u64 \<Rightarrow> u64 \<Rightarrow> u32 \<Rightarrow> (u64 \<Rightarrow> u8) \<Rightarrow> ram_alloc" where
  "blocks_init guest host bsize v =
     (let s = \<lparr>guest_len = guest, allocated = host, block_size = bsize, host_vector = v, blocks = (\<lambda>_. Null_block),
               used_blocks = 0, next_swapout_idx = 0, overflow_file = None, alloc_panics = []\<rparr>;
          s = alloc_panic (host AND 0xfffff \<noteq> 0) ''assertion failed: host'' s;
          s = alloc_panic (guest AND 0xfffff \<noteq> 0) ''assertion failed: guest'' s;
          s = alloc_panic (\<not> is_power_of_2 (ucast bsize)) ''Block size is not power of two !'' s
      in alloc_panic (guest div ucast bsize > 0xffffffff) ''assertion failed: blocks'' s)"

text \<open>The file: \<open>fseeko64\<close> with \<open>fwrite\<close> or \<open>fread\<close>.\<close>

definition file_write :: "nat \<Rightarrow> u8 list \<Rightarrow> u8 list \<Rightarrow> u8 list" where
  "file_write off bs f = take off (f @ replicate (off - length f) 0) @ bs @ drop (off + length bs) f"

definition host_fill :: "u64 \<Rightarrow> u8 list \<Rightarrow> (u64 \<Rightarrow> u8) \<Rightarrow> u64 \<Rightarrow> u8" where
  "host_fill p bs v a = (if unat (a - p) < length bs then bs ! unat (a - p) else v a)"

definition host_bytes :: "u64 \<Rightarrow> nat \<Rightarrow> (u64 \<Rightarrow> u8) \<Rightarrow> u8 list" where
  "host_bytes p n v = map (\<lambda>i. v (p + of_nat i)) [0..<n]"

definition read_block :: "u32 \<Rightarrow> ram_alloc \<Rightarrow> ram_alloc" where
  "read_block block s =
     (let block_address = ucast block * ucast (block_size s) :: u64
      in case (blocks s block, overflow_file s) of
           (Block_at p, Some f) \<Rightarrow>
             s\<lparr>host_vector := host_fill p (take (unat (block_size s)) (drop (unat block_address) f)) (host_vector s)\<rparr>
         | _ \<Rightarrow> s)"

text \<open>
  The search for a block to replace, from the one after the last victim round the table. A panic lets the loop go on; \<open>None\<close>
  is a search that does not end.
\<close>

partial_function (option) find_victim :: "(u64 \<Rightarrow> u64 \<Rightarrow> bool) \<Rightarrow> u32 \<Rightarrow> ram_alloc \<Rightarrow> ram_alloc option" where
  "find_victim busy original s =
     (let idx = next_swapout_idx s + 1;
          idx = (if ucast idx = guest_len s div ucast (block_size s) then 0 else idx);
          s = s\<lparr>next_swapout_idx := idx\<rparr>;
          s = alloc_panic (idx = original) ''Insufficient working RAM, all blocks are currently used for TLB entries!'' s
      in case blocks s idx of
           Block_at buffer \<Rightarrow> if busy buffer (buffer + ucast (block_size s)) then find_victim busy original s else Some s
         | _ \<Rightarrow> find_victim busy original s)"

definition swap_out :: "u32 \<Rightarrow> ram_alloc \<Rightarrow> ram_alloc" where
  "swap_out block s =
     (let idx = next_swapout_idx s; address = ucast idx * ucast (block_size s) :: u64;
          f = (case overflow_file s of None \<Rightarrow> [] | Some f \<Rightarrow> f)
      in case blocks s idx of
           Block_at buffer \<Rightarrow>
             s\<lparr>overflow_file := Some (file_write (unat address) (host_bytes buffer (unat (block_size s)) (host_vector s)) f),
               blocks := (blocks s)(idx := Swapped_out, block := Block_at buffer)\<rparr>
         | _ \<Rightarrow> s)"

definition allocate_block :: "(u64 \<Rightarrow> u64 \<Rightarrow> bool) \<Rightarrow> u32 \<Rightarrow> ram_alloc \<Rightarrow> ram_alloc option" where
  "allocate_block busy block s =
     (let max_blocks = ucast (allocated s div ucast (block_size s)) :: u32
      in if used_blocks s \<ge> max_blocks
         then case find_victim busy (next_swapout_idx s) s of
                None \<Rightarrow> None
              | Some s \<Rightarrow> Some (read_block block (swap_out block s))
         else Some (s\<lparr>blocks := (blocks s)(block := Block_at (ucast (used_blocks s * block_size s))),
                      used_blocks := used_blocks s + 1\<rparr>))"

definition block_index :: "u64 \<Rightarrow> ram_alloc \<Rightarrow> u32" where
  "block_index addr s = ucast (addr div ucast (block_size s))"

definition block_offset :: "u64 \<Rightarrow> ram_alloc \<Rightarrow> u32" where
  "block_offset addr s = ucast (addr AND ucast (block_size s - 1))"

definition block_pointer :: "u64 \<Rightarrow> ram_alloc \<Rightarrow> u64" where
  "block_pointer addr s =
     (case blocks s (block_index addr s) of Block_at p \<Rightarrow> p + ucast (block_offset addr s) | _ \<Rightarrow> ucast (block_offset addr s))"

definition ram_get_vector :: "(u64 \<Rightarrow> u64 \<Rightarrow> bool) \<Rightarrow> u64 \<Rightarrow> ram_alloc \<Rightarrow> (u64 \<times> ram_alloc) option" where
  "ram_get_vector busy addr s =
     (let block = block_index addr s
      in case (if blocks s block = Null_block \<or> blocks s block = Swapped_out then allocate_block busy block s else Some s) of
           None \<Rightarrow> None
         | Some s \<Rightarrow> Some (block_pointer addr s, s))"

text \<open>The accesses: \<open>*(get_vector(addr))\<close> read or written, with the TLBs of the moment.\<close>

datatype ram_op = Ram_read "u64 \<Rightarrow> u64 \<Rightarrow> bool" u64 | Ram_write "u64 \<Rightarrow> u64 \<Rightarrow> bool" u64 u8

fun ram_run :: "ram_op list \<Rightarrow> ram_alloc \<Rightarrow> (u8 list \<times> ram_alloc) option" where
  "ram_run [] s = Some ([], s)"
| "ram_run (Ram_read busy a # ops) s =
     (case ram_get_vector busy a s of
        None \<Rightarrow> None
      | Some (p, s) \<Rightarrow> (case ram_run ops s of None \<Rightarrow> None | Some (out, s') \<Rightarrow> Some (host_vector s p # out, s')))"
| "ram_run (Ram_write busy a v # ops) s =
     (case ram_get_vector busy a s of
        None \<Rightarrow> None
      | Some (p, s) \<Rightarrow> ram_run ops (s\<lparr>host_vector := (host_vector s)(p := v)\<rparr>))"

section \<open>The abstract RAM\<close>

text \<open>An array of bytes; \<open>None\<close> is a byte whose first contents the host decides.\<close>

fun array_run :: "ram_op list \<Rightarrow> (u64 \<Rightarrow> u8 option) \<Rightarrow> u8 option list" where
  "array_run [] m = []"
| "array_run (Ram_read busy a # ops) m = m a # array_run ops m"
| "array_run (Ram_write busy a v # ops) m = array_run ops (m(a \<mapsto> v))"

definition guest_byte :: "ram_alloc \<Rightarrow> u64 \<Rightarrow> u8 option" where
  "guest_byte s a =
     (case blocks s (block_index a s) of
        Null_block \<Rightarrow> None
      | Swapped_out \<Rightarrow> (case overflow_file s of None \<Rightarrow> None | Some f \<Rightarrow> Some (f ! unat a))
      | Block_at p \<Rightarrow> Some (host_vector s (p + ucast (block_offset a s))))"

definition num_blocks :: "ram_alloc \<Rightarrow> nat" where "num_blocks s = unat (guest_len s) div unat (block_size s)"
definition num_slots :: "ram_alloc \<Rightarrow> nat" where "num_slots s = unat (allocated s) div unat (block_size s)"
definition slot :: "ram_alloc \<Rightarrow> nat \<Rightarrow> u64" where "slot s j = of_nat (j * unat (block_size s))"

definition alloc_dims :: "ram_alloc \<Rightarrow> bool" where
  "alloc_dims s \<longleftrightarrow> (\<exists>k < 32. block_size s = 2 ^ k) \<and> unat (allocated s) < 2 ^ 32 \<and> 0 < num_slots s
     \<and> num_blocks s < 2 ^ 32 \<and> 0 < num_blocks s"

definition alloc_ok :: "ram_alloc \<Rightarrow> bool" where
  "alloc_ok s \<longleftrightarrow> alloc_dims s \<and> unat (next_swapout_idx s) < num_blocks s \<and> unat (used_blocks s) \<le> num_slots s
     \<and> (\<forall>b p. blocks s b = Block_at p \<longrightarrow> unat b < num_blocks s \<and> (\<exists>j < unat (used_blocks s). p = slot s j))
     \<and> (\<forall>j < unat (used_blocks s). \<exists>b. blocks s b = Block_at (slot s j))
     \<and> (\<forall>b c p. blocks s b = Block_at p \<longrightarrow> blocks s c = Block_at p \<longrightarrow> b = c)
     \<and> (\<forall>b. blocks s b = Swapped_out \<longrightarrow> unat b < num_blocks s
          \<and> (\<exists>f. overflow_file s = Some f \<and> Suc (unat b) * unat (block_size s) \<le> length f))"


section \<open>Arithmetic of blocks\<close>

abbreviation bsize :: "ram_alloc \<Rightarrow> nat" where "bsize s \<equiv> unat (block_size s)"

lemma unat_up: "unat (ucast (x :: u32) :: u64) = unat x"
proof -
  have "unat x < 2 ^ 64" using unsigned_less [of x, where 'a = nat] by simp
  then show ?thesis by (simp add: unsigned_ucast_eq take_bit_nat_eq_self)
qed

lemma unat_ucast_less: "unat (x :: u64) < 2 ^ 32 \<Longrightarrow> unat (ucast x :: u32) = unat x"
  by (simp add: unsigned_ucast_eq take_bit_nat_eq_self)

lemma unat_p2: "k < 32 \<Longrightarrow> unat (2 ^ k :: u32) = 2 ^ k"
proof -
  assume "k < 32"
  then have "(2 :: nat) ^ k < 2 ^ 32" by (intro power_strict_increasing) simp_all
  then have "unat (of_nat (2 ^ k) :: u32) = 2 ^ k" by (simp only: unat_of_nat) simp
  then show ?thesis by simp
qed

lemma bsize_range:
  assumes "alloc_dims s"
  shows "0 < bsize s" "bsize s < 2 ^ 32" "num_slots s * bsize s < 2 ^ 32"
proof -
  obtain k where k: "k < 32" "block_size s = 2 ^ k" using assms by (auto simp: alloc_dims_def)
  then have "bsize s = 2 ^ k" by (simp add: unat_p2)
  then show "0 < bsize s" by simp
  show "bsize s < 2 ^ 32" using unsigned_less [of "block_size s", where 'a = nat] by simp
  have "num_slots s * bsize s \<le> unat (allocated s)" by (simp add: num_slots_def)
  then show "num_slots s * bsize s < 2 ^ 32" using assms by (simp add: alloc_dims_def)
qed

lemma unat_div_bsize: "unat (a div ucast (block_size s) :: u64) = unat a div bsize s"
  by (simp add: unat_div unat_up)

lemma block_index_nat:
  assumes "alloc_dims s" "unat a < num_blocks s * bsize s"
  shows "unat (block_index a s) = unat a div bsize s" "unat (block_index a s) < num_blocks s"
proof -
  have "unat a div bsize s < num_blocks s" using assms(2) by (simp add: less_mult_imp_div_less)
  moreover have "num_blocks s < 2 ^ 32" using assms(1) by (simp add: alloc_dims_def)
  ultimately show "unat (block_index a s) = unat a div bsize s" "unat (block_index a s) < num_blocks s"
    by (simp_all add: block_index_def unat_div_bsize unat_ucast_less)
qed

lemma block_offset_nat:
  assumes "alloc_dims s"
  shows "unat (block_offset a s) = unat a mod bsize s"
proof -
  obtain k where k: "k < 32" "block_size s = 2 ^ k" using assms by (auto simp: alloc_dims_def)
  have "ucast (block_size s - 1) = (mask k :: u64)"
    using k by (intro bit_word_eqI) (auto simp: bit_simps mask_eq_exp_minus_1 [symmetric])
  then have "a AND ucast (block_size s - 1) = take_bit k a" by (simp add: take_bit_eq_mask)
  moreover have "unat (take_bit k a) = unat a mod 2 ^ k" by (simp only: unsigned_take_bit_eq) (simp add: take_bit_eq_mod)
  moreover have "unat a mod 2 ^ k < 2 ^ 32"
    using k(1) by (meson less_trans mod_less_divisor power_strict_increasing one_less_numeral_iff semiring_norm(76) zero_less_numeral zero_less_power)
  ultimately show ?thesis using k by (simp add: block_offset_def unat_ucast_less unat_p2)
qed

lemma unat_slot: "alloc_dims s \<Longrightarrow> j < num_slots s \<Longrightarrow> unat (slot s j) = j * bsize s"
proof -
  assume d: "alloc_dims s" and "j < num_slots s"
  then have "j * bsize s \<le> num_slots s * bsize s" by simp
  also have "\<dots> < 2 ^ 32" by (rule bsize_range(3) [OF d])
  finally show ?thesis unfolding slot_def by (simp only: unat_of_nat) simp
qed

lemma slot_inj: "alloc_dims s \<Longrightarrow> i < num_slots s \<Longrightarrow> j < num_slots s \<Longrightarrow> slot s i = slot s j \<longleftrightarrow> i = j"
  by (metis unat_slot bsize_range(1) mult_cancel2 less_not_refl)

text \<open>Bytes of different slots, and of one slot.\<close>

lemma slot_disjoint:
  assumes "alloc_dims s" "i < num_slots s" "j < num_slots s" "i \<noteq> j" "off < bsize s"
  shows "bsize s \<le> unat (slot s j + of_nat off - slot s i)"
proof -
  note u = unat_slot [OF assms(1,2)] unat_slot [OF assms(1,3)] and b = bsize_range [OF assms(1)]
  have le: "Suc j * bsize s \<le> num_slots s * bsize s" using assms(3) by (intro mult_le_mono1) simp
  have "unat (slot s j + of_nat off) = j * bsize s + off"
    using u(2) le assms(5) b(3) by (simp add: unat_word_ariths unat_of_nat)
  note v = this
  show ?thesis
  proof (cases "i < j")
    case True
    then have "i * bsize s + bsize s \<le> j * bsize s" by (metis Suc_leI add.commute mult_Suc mult_le_mono1)
    then show ?thesis using u v by (subst unat_sub) (auto simp: word_le_nat_alt)
  next
    case False
    then have "Suc j \<le> i" using assms(4) by simp
    then have "Suc j * bsize s \<le> i * bsize s" by (rule mult_le_mono1)
    then have lt: "j * bsize s + off < i * bsize s" using assms(5) by simp
    have "i * bsize s \<le> num_slots s * bsize s" using assms(2) by simp
    then have "i * bsize s < 2 ^ 32" using b(3) by linarith
    then have "unat (slot s j + of_nat off - slot s i) = 2 ^ 64 + (j * bsize s + off) - i * bsize s"
      using u v lt by (simp add: unat_sub_if' word_le_nat_alt)
    then show ?thesis using \<open>i * bsize s < 2 ^ 32\<close> b(2) by simp
  qed
qed

lemma host_fill_other:
  assumes "alloc_dims s" "i < num_slots s" "j < num_slots s" "i \<noteq> j" "off < bsize s" "length bs \<le> bsize s"
  shows "host_fill (slot s i) bs v (slot s j + of_nat off) = v (slot s j + of_nat off)"
  using slot_disjoint [OF assms(1-5)] assms(6) by (simp add: host_fill_def)

lemma host_fill_same: "off < length bs \<Longrightarrow> length bs < 2 ^ 64 \<Longrightarrow> host_fill p bs v (p + of_nat off) = bs ! off"
  by (simp add: host_fill_def unat_of_nat)

section \<open>The file\<close>

lemma length_file_write: "length (file_write off bs f) = max (length f) (off + length bs)"
  by (auto simp: file_write_def)

lemma file_write_inside: "i < length bs \<Longrightarrow> file_write off bs f ! (off + i) = bs ! i"
proof -
  assume i: "i < length bs"
  have "length (take off (f @ replicate (off - length f) 0)) = off" by simp
  then show ?thesis using i unfolding file_write_def by (simp only: nth_append) simp
qed

lemma file_write_outside:
  "i < length f \<Longrightarrow> i < off \<or> off + length bs \<le> i \<Longrightarrow> file_write off bs f ! i = f ! i"
  by (auto simp: file_write_def nth_append)


section \<open>The search ends\<close>

lemma alloc_panic_frame:
  "alloc_panic c msg s = s\<lparr>alloc_panics := alloc_panics s @ (if c then [msg] else [])\<rparr>"
  by (simp add: alloc_panic_def)

lemma dims_frame [simp]:
  "alloc_dims (s\<lparr>next_swapout_idx := i\<rparr>) = alloc_dims s" "alloc_dims (s\<lparr>alloc_panics := ps\<rparr>) = alloc_dims s"
  "num_blocks (s\<lparr>next_swapout_idx := i\<rparr>) = num_blocks s" "num_blocks (s\<lparr>alloc_panics := ps\<rparr>) = num_blocks s"
  by (simp_all add: alloc_dims_def num_blocks_def num_slots_def)

text \<open>The table index after \<open>i\<close>.\<close>

definition round_idx :: "ram_alloc \<Rightarrow> u32 \<Rightarrow> u32" where
  "round_idx s i = (if ucast (i + 1) = guest_len s div ucast (block_size s) then 0 else i + 1)"

lemma unat_round_idx:
  assumes "alloc_dims s" "unat i < num_blocks s"
  shows "unat (round_idx s i) = Suc (unat i) mod num_blocks s"
proof -
  have n: "num_blocks s < 2 ^ 32" using assms(1) by (simp add: alloc_dims_def)
  have i: "unat (i + 1) = Suc (unat i)" using assms(2) n by (simp add: unat_word_ariths)
  have "ucast (i + 1) = guest_len s div ucast (block_size s) \<longleftrightarrow> Suc (unat i) = num_blocks s"
    by (simp only: word_unat_eq_iff unat_up unat_div_bsize i num_blocks_def)
  then show ?thesis using i assms(2) by (auto simp: round_idx_def)
qed

definition probe :: "u32 \<Rightarrow> ram_alloc \<Rightarrow> ram_alloc" where
  "probe orig s =
     (let i = round_idx s (next_swapout_idx s)
      in s\<lparr>next_swapout_idx := i, alloc_panics := alloc_panics s @ (if i = orig then
           [''Insufficient working RAM, all blocks are currently used for TLB entries!''] else [])\<rparr>)"

lemma probe_shape: "\<exists>ps. probe orig s = s\<lparr>next_swapout_idx := round_idx s (next_swapout_idx s), alloc_panics := ps\<rparr>"
  unfolding probe_def Let_def by (rule exI) (rule refl)

lemma find_victim_step:
  "find_victim busy orig s =
     (case blocks s (round_idx s (next_swapout_idx s)) of
        Block_at p \<Rightarrow> if busy p (p + ucast (block_size s)) then find_victim busy orig (probe orig s) else Some (probe orig s)
      | _ \<Rightarrow> find_victim busy orig (probe orig s))"
proof -
  have frame: "blocks (alloc_panic c msg s) = blocks s" "block_size (alloc_panic c msg s) = block_size s" for c msg s
    by (simp_all add: alloc_panic_def)
  have frame': "blocks (s\<lparr>next_swapout_idx := i\<rparr>) = blocks s" "block_size (s\<lparr>next_swapout_idx := i\<rparr>) = block_size s"
    "guest_len (s\<lparr>next_swapout_idx := i\<rparr>) = guest_len s" for i by simp_all
  have "alloc_panic (round_idx s (next_swapout_idx s) = orig)
      ''Insufficient working RAM, all blocks are currently used for TLB entries!'' (s\<lparr>next_swapout_idx := round_idx s (next_swapout_idx s)\<rparr>) = probe orig s"
    by (simp add: alloc_panic_def probe_def Let_def)
  then show ?thesis
    by (subst find_victim.simps) (simp only: Let_def round_idx_def [symmetric] frame frame')
qed

definition victim :: "(u64 \<Rightarrow> u64 \<Rightarrow> bool) \<Rightarrow> ram_alloc \<Rightarrow> u32 \<Rightarrow> bool" where
  "victim busy s i \<longleftrightarrow> (\<exists>p. blocks s i = Block_at p \<and> \<not> busy p (p + ucast (block_size s)))"

lemma find_victim_returns:
  assumes "alloc_dims s" "unat (next_swapout_idx s) < num_blocks s" "victim busy s v"
    "(unat (next_swapout_idx s) + Suc d) mod num_blocks s = unat v"
  shows "\<exists>i ps. find_victim busy orig s = Some (s\<lparr>next_swapout_idx := i, alloc_panics := ps\<rparr>)
           \<and> unat i < num_blocks s \<and> victim busy s i"
  using assms
proof (induction d arbitrary: s)
  let ?i = "\<lambda>s. round_idx s (next_swapout_idx s)"
  have found: "\<exists>i ps. find_victim busy orig s = Some (s\<lparr>next_swapout_idx := i, alloc_panics := ps\<rparr>)
      \<and> unat i < num_blocks s \<and> victim busy s i" if "victim busy s (?i s)" "unat (?i s) < num_blocks s" for s
  proof -
    have "find_victim busy orig s = Some (probe orig s)"
      using that(1) by (subst find_victim_step) (auto simp: victim_def)
    then show ?thesis using probe_shape [of orig s] that by metis
  qed
  have less: "unat (?i s) < num_blocks s" if "alloc_dims s" "unat (next_swapout_idx s) < num_blocks s" for s
    using that by (simp add: unat_round_idx mod_less_divisor)
  { case (0 s)
    have "?i s = v" using unat_round_idx [OF "0.prems"(1,2)] "0.prems"(4) by (simp add: word_unat_eq_iff)
    then show ?case using found less "0.prems"(1-3) by blast }
  { case (Suc d s)
    show ?case
    proof (cases "victim busy s (?i s)")
      case True
      then show ?thesis using found less Suc.prems(1,2) by blast
    next
      case False
      then have step: "find_victim busy orig s = find_victim busy orig (probe orig s)"
        by (subst find_victim_step) (auto simp: victim_def split: block_ptr.split)
      obtain ps where p: "probe orig s = s\<lparr>next_swapout_idx := ?i s, alloc_panics := ps\<rparr>" using probe_shape by blast
      have "(unat (?i s) + Suc d) mod num_blocks s = unat v"
        using Suc.prems(4) by (simp only: unat_round_idx [OF Suc.prems(1,2)] mod_add_left_eq) simp
      then have "\<exists>i ps. find_victim busy orig (probe orig s) = Some ((probe orig s)\<lparr>next_swapout_idx := i, alloc_panics := ps\<rparr>)
           \<and> unat i < num_blocks (probe orig s) \<and> victim busy (probe orig s) i"
        using less [OF Suc.prems(1,2)] Suc.prems(1,3) by (intro Suc.IH) (simp_all add: p victim_def)
      then show ?thesis by (auto simp: step p victim_def)
    qed }
qed

lemma find_victim_ends:
  assumes "alloc_dims s" "unat (next_swapout_idx s) < num_blocks s" "victim busy s v" "unat v < num_blocks s"
  obtains i ps where "find_victim busy orig s = Some (s\<lparr>next_swapout_idx := i, alloc_panics := ps\<rparr>)"
    "unat i < num_blocks s" "victim busy s i"
proof -
  let ?d = "num_blocks s + unat v - unat (next_swapout_idx s) - 1"
  have "(unat (next_swapout_idx s) + Suc ?d) mod num_blocks s = unat v" using assms(2,4) by simp
  from find_victim_returns [OF assms(1-3) this] show ?thesis using that by blast
qed

text \<open>The search raises no panic when it meets a victim before it is back where it started.\<close>

lemma find_victim_quiet:
  assumes "alloc_dims s" "unat (next_swapout_idx s) < num_blocks s" "victim busy s v"
    "(unat (next_swapout_idx s) + Suc d) mod num_blocks s = unat v"
    "\<And>k. k \<le> d \<Longrightarrow> (unat (next_swapout_idx s) + Suc k) mod num_blocks s \<noteq> unat orig"
  shows "\<exists>i. find_victim busy orig s = Some (s\<lparr>next_swapout_idx := i\<rparr>) \<and> unat i < num_blocks s \<and> victim busy s i"
  using assms
proof (induction d arbitrary: s)
  let ?i = "\<lambda>s. round_idx s (next_swapout_idx s)"
  have quiet: "probe orig s = s\<lparr>next_swapout_idx := ?i s\<rparr>"
    if "alloc_dims s" "unat (next_swapout_idx s) < num_blocks s" "(unat (next_swapout_idx s) + Suc 0) mod num_blocks s \<noteq> unat orig" for s
    using that unat_round_idx [OF that(1,2)] by (auto simp: probe_def Let_def)
  have found: "find_victim busy orig s = Some (probe orig s)" if "victim busy s (?i s)" for s
    using that by (subst find_victim_step) (auto simp: victim_def)
  have less: "unat (?i s) < num_blocks s" if "alloc_dims s" "unat (next_swapout_idx s) < num_blocks s" for s
    using that by (simp add: unat_round_idx mod_less_divisor)
  { case (0 s)
    have "?i s = v" using unat_round_idx [OF "0.prems"(1,2)] "0.prems"(4) by (simp add: word_unat_eq_iff)
    then show ?case
      using found [of s] less [OF "0.prems"(1,2)] "0.prems"(3) quiet [OF "0.prems"(1,2) "0.prems"(5) [OF order_refl]] by auto }
  { case (Suc d s)
    note q = quiet [OF Suc.prems(1,2) Suc.prems(5) [OF le0]]
    show ?case
    proof (cases "victim busy s (?i s)")
      case True
      then show ?thesis using found [OF True] q less [OF Suc.prems(1,2)] by auto
    next
      case False
      then have step: "find_victim busy orig s = find_victim busy orig (probe orig s)"
        by (subst find_victim_step) (auto simp: victim_def split: block_ptr.split)
      have next_idx: "(unat (?i s) + k) mod num_blocks s = (unat (next_swapout_idx s) + Suc k) mod num_blocks s" for k
        by (simp only: unat_round_idx [OF Suc.prems(1,2)] mod_add_left_eq) simp
      have "\<exists>i. find_victim busy orig (probe orig s) = Some ((probe orig s)\<lparr>next_swapout_idx := i\<rparr>)
           \<and> unat i < num_blocks (probe orig s) \<and> victim busy (probe orig s) i"
      proof (rule Suc.IH)
        show "(unat (next_swapout_idx (probe orig s)) + Suc k) mod num_blocks (probe orig s) \<noteq> unat orig" if "k \<le> d" for k
          using Suc.prems(5) [of "Suc k"] that next_idx [of "Suc k"] by (simp add: q)
        show "(unat (next_swapout_idx (probe orig s)) + Suc d) mod num_blocks (probe orig s) = unat v"
          using Suc.prems(4) next_idx [of "Suc d"] by (simp add: q)
      qed (use less [OF Suc.prems(1,2)] Suc.prems(1,3) in \<open>simp_all add: q victim_def\<close>)
      then show ?thesis by (auto simp: step q victim_def)
    qed }
qed

lemma find_victim_silent:
  assumes "alloc_dims s" "unat (next_swapout_idx s) < num_blocks s" "victim busy s v" "unat v < num_blocks s" "v \<noteq> next_swapout_idx s"
  obtains i where "find_victim busy (next_swapout_idx s) s = Some (s\<lparr>next_swapout_idx := i\<rparr>)"
    "unat i < num_blocks s" "victim busy s i"
proof -
  let ?n = "num_blocks s" and ?o = "unat (next_swapout_idx s)"
  define d where "d = (if ?o < unat v then unat v - ?o else ?n + unat v - ?o) - 1"
  have neq: "unat v \<noteq> ?o" using assms(5) by (simp add: word_unat_eq_iff)
  then have d: "Suc d < ?n" "?o + Suc d = (if ?o < unat v then unat v else ?n + unat v)"
    using assms(2,4) by (auto simp: d_def)
  have v: "(?o + Suc d) mod ?n = unat v" unfolding d(2) using assms(4) by simp
  have "(?o + Suc k) mod ?n \<noteq> ?o" if "k \<le> d" for k
  proof
    assume e: "(?o + Suc k) mod ?n = ?o"
    have "Suc k < ?n" using d(1) that by simp
    show False
    proof (cases "?o + Suc k < ?n")
      case True
      then show False using e by simp
    next
      case False
      then have "(?o + Suc k) mod ?n = ?o + Suc k - ?n" using assms(2) \<open>Suc k < ?n\<close> by (subst le_mod_geq) simp_all
      then show False using e \<open>Suc k < ?n\<close> False by linarith
    qed
  qed
  from find_victim_quiet [OF assms(1-3) v this] show ?thesis using that by blast
qed

section \<open>One swap\<close>

definition file_of :: "ram_alloc \<Rightarrow> u8 list" where
  "file_of s = (case overflow_file s of None \<Rightarrow> [] | Some f \<Rightarrow> f)"

lemma unat_block_address:
  assumes "alloc_dims s" "unat b < num_blocks s"
  shows "unat (ucast (b :: u32) * ucast (block_size s) :: u64) = unat b * bsize s"
proof -
  have "unat b * bsize s \<le> num_blocks s * bsize s" using assms(2) by simp
  also have "\<dots> \<le> unat (guest_len s)" by (simp add: num_blocks_def)
  also have "\<dots> < 2 ^ 64" using unsigned_less [of "guest_len s", where 'a = nat] by simp
  finally show ?thesis by (simp add: unat_word_ariths unat_up)
qed

lemma swap_result:
  assumes "alloc_dims s" "unat b < num_blocks s" "unat (next_swapout_idx s) < num_blocks s"
    "blocks s (next_swapout_idx s) = Block_at p"
  defines "f \<equiv> file_write (unat (next_swapout_idx s) * bsize s) (host_bytes p (bsize s) (host_vector s)) (file_of s)"
  shows "read_block b (swap_out b s) =
    s\<lparr>overflow_file := Some f, blocks := (blocks s)(next_swapout_idx s := Swapped_out, b := Block_at p),
      host_vector := host_fill p (take (bsize s) (drop (unat b * bsize s) f)) (host_vector s)\<rparr>"
  using assms(4) unat_block_address [OF assms(1,2)] unat_block_address [OF assms(1,3)]
  by (simp add: swap_out_def read_block_def file_of_def f_def Let_def)


lemma alloc_okD:
  assumes "alloc_ok s"
  shows "alloc_dims s" "unat (next_swapout_idx s) < num_blocks s" "unat (used_blocks s) \<le> num_slots s"
    "blocks s b = Block_at p \<Longrightarrow> unat b < num_blocks s"
    "blocks s b = Block_at p \<Longrightarrow> \<exists>j < unat (used_blocks s). p = slot s j"
    "j < unat (used_blocks s) \<Longrightarrow> \<exists>b. blocks s b = Block_at (slot s j)"
    "blocks s b = Block_at p \<Longrightarrow> blocks s c = Block_at p \<Longrightarrow> b = c"
    "blocks s b = Swapped_out \<Longrightarrow> unat b < num_blocks s"
    "blocks s b = Swapped_out \<Longrightarrow> Suc (unat b) * bsize s \<le> length (file_of s)"
    "blocks s b = Swapped_out \<Longrightarrow> overflow_file s = Some (file_of s)"
  using assms unfolding alloc_ok_def file_of_def by (force)+

text \<open>The invariant and the contents after a swap.\<close>

lemma swap_ok:
  assumes ok: "alloc_ok s" and b: "unat b < num_blocks s" "blocks s b = Null_block \<or> blocks s b = Swapped_out"
    and p: "blocks s (next_swapout_idx s) = Block_at p"
  shows "alloc_ok (read_block b (swap_out b s))"
proof -
  let ?i = "next_swapout_idx s" and ?B = "bsize s"
  have d: "alloc_dims s" and i: "unat ?i < num_blocks s" using ok by (simp_all add: alloc_ok_def)
  have neq: "b \<noteq> ?i" using b(2) p by auto
  define f where "f = file_write (unat ?i * ?B) (host_bytes p ?B (host_vector s)) (file_of s)"
  define s' where "s' = s\<lparr>overflow_file := Some f, blocks := (blocks s)(?i := Swapped_out, b := Block_at p),
      host_vector := host_fill p (take ?B (drop (unat b * ?B) f)) (host_vector s)\<rparr>"
  have eq: "read_block b (swap_out b s) = s'" by (simp only: s'_def f_def swap_result [OF d b(1) i p])
  have frame: "block_size s' = block_size s" "num_blocks s' = num_blocks s" "num_slots s' = num_slots s" "slot s' = slot s"
      "alloc_dims s' = alloc_dims s" "used_blocks s' = used_blocks s" "next_swapout_idx s' = ?i" "overflow_file s' = Some f"
      "blocks s' = (blocks s)(?i := Swapped_out, b := Block_at p)"
    by (simp_all add: s'_def num_blocks_def num_slots_def slot_def alloc_dims_def fun_eq_iff)
  have len: "length (file_of s) \<le> length f" "Suc (unat ?i) * ?B \<le> length f"
    by (simp_all add: f_def length_file_write host_bytes_def)
  have old: "Suc (unat c) * ?B \<le> length f" if "blocks s c = Swapped_out" for c
    using alloc_okD(9) [OF ok that] len(1) by simp
  have slots: "\<exists>c. blocks s' c = Block_at (slot s j)" if j: "j < unat (used_blocks s)" for j
  proof -
    obtain c where "blocks s c = Block_at (slot s j)" using alloc_okD(6) [OF ok j] by blast
    note c = this
    show ?thesis
    proof (cases "c = ?i")
      case True
      then have "blocks s' b = Block_at (slot s j)" using c p by (simp add: frame)
      then show ?thesis by blast
    next
      case False
      then have "blocks s' c = Block_at (slot s j)" using c b(2) by (auto simp: frame)
      then show ?thesis by blast
    qed
  qed
  note inj = alloc_okD(7) [OF ok]
  have inj': "blocks s' c = Block_at q \<Longrightarrow> blocks s' c' = Block_at q \<Longrightarrow> c = c'" for c c' q
  proof -
    have src: "c \<noteq> ?i \<and> blocks s c = Block_at q \<or> c = b \<and> q = p" if "blocks s' c = Block_at q" for c q
      using that by (simp add: frame split: if_splits)
    show "blocks s' c = Block_at q \<Longrightarrow> blocks s' c' = Block_at q \<Longrightarrow> c = c'"
      using src [of c q] src [of c' q] inj p by blast
  qed
  have range: "unat c < num_blocks s \<and> (\<exists>j < unat (used_blocks s). q = slot s j)" if "blocks s' c = Block_at q" for c q
  proof -
    have "blocks s c = Block_at q \<or> c = b \<and> blocks s ?i = Block_at q" using that p by (auto simp: frame split: if_splits)
    then show ?thesis using alloc_okD(4,5) [OF ok] b(1) by blast
  qed
  have sw: "unat c < num_blocks s \<and> Suc (unat c) * ?B \<le> length f" if "blocks s' c = Swapped_out" for c
  proof (cases "c = ?i")
    case True
    then show ?thesis using len i by simp
  next
    case False
    then have "blocks s c = Swapped_out" using that by (simp add: frame split: if_splits)
    then show ?thesis using old alloc_okD(8) [OF ok] by blast
  qed
  have u: "unat (used_blocks s) \<le> num_slots s" using ok by (simp add: alloc_ok_def)
  have "\<forall>c q. blocks s' c = Block_at q \<longrightarrow> unat c < num_blocks s \<and> (\<exists>j < unat (used_blocks s). q = slot s j)"
    using range by blast
  moreover have "\<forall>j < unat (used_blocks s). \<exists>c. blocks s' c = Block_at (slot s j)" using slots by blast
  moreover have "\<forall>c c' q. blocks s' c = Block_at q \<longrightarrow> blocks s' c' = Block_at q \<longrightarrow> c = c'" using inj' by blast
  moreover have "\<forall>c. blocks s' c = Swapped_out \<longrightarrow> unat c < num_blocks s
      \<and> (\<exists>g. Some f = Some g \<and> Suc (unat c) * ?B \<le> length g)" using sw by simp
  ultimately show ?thesis unfolding eq alloc_ok_def frame(1-8) using d i u by (intro conjI)
qed


lemma file_blocks_apart:
  assumes "c \<noteq> i" "off < n"
  shows "c * n + off < i * n \<or> i * n + n \<le> c * (n :: nat) + off"
proof (cases "c < i")
  case True
  then have "Suc c * n \<le> i * n" by (intro mult_le_mono1) simp
  then show ?thesis using assms(2) by simp
next
  case False
  then have "Suc i * n \<le> c * n" using assms(1) by (intro mult_le_mono1) simp
  then show ?thesis by simp
qed

lemma swap_bytes:
  assumes ok: "alloc_ok s" and b: "unat b < num_blocks s" "blocks s b = Null_block \<or> blocks s b = Swapped_out"
    and p: "blocks s (next_swapout_idx s) = Block_at p"
    and a: "unat a < num_blocks s * bsize s" "guest_byte s a = Some v"
  shows "guest_byte (read_block b (swap_out b s)) a = Some v"
proof -
  let ?i = "next_swapout_idx s" and ?B = "bsize s" and ?c = "block_index a s" and ?off = "unat a mod bsize s"
  have d: "alloc_dims s" and i: "unat ?i < num_blocks s" and u: "unat (used_blocks s) \<le> num_slots s"
    using ok by (simp_all add: alloc_ok_def)
  have neq: "b \<noteq> ?i" using b(2) p by auto
  define f where "f = file_write (unat ?i * ?B) (host_bytes p ?B (host_vector s)) (file_of s)"
  define s' where "s' = s\<lparr>overflow_file := Some f, blocks := (blocks s)(?i := Swapped_out, b := Block_at p),
      host_vector := host_fill p (take ?B (drop (unat b * ?B) f)) (host_vector s)\<rparr>"
  have eq: "read_block b (swap_out b s) = s'" by (simp only: s'_def f_def swap_result [OF d b(1) i p])
  have frame: "block_index a s' = ?c" "block_offset a s' = block_offset a s" "overflow_file s' = Some f"
      "blocks s' = (blocks s)(?i := Swapped_out, b := Block_at p)"
      "host_vector s' = host_fill p (take ?B (drop (unat b * ?B) f)) (host_vector s)"
    by (simp_all add: s'_def block_index_def block_offset_def)
  have B: "0 < ?B" "?B < 2 ^ 32" and off: "?off < ?B" using bsize_range [OF d] by simp_all
  have off': "ucast (block_offset a s) = (of_nat ?off :: u64)"
    using block_offset_nat [OF d, of a] by (metis of_nat_unat)
  have aa: "unat a = unat ?c * ?B + ?off" by (simp add: block_index_nat(1) [OF d a(1)])
  have in_file: "f ! unat a = x" if "blocks s ?c = Swapped_out" "file_of s ! unat a = x" for x
  proof -
    have "?c \<noteq> ?i" using that(1) p by auto
    then have "unat ?c \<noteq> unat ?i" by (simp add: word_unat_eq_iff)
    then have "unat ?c * ?B + ?off < unat ?i * ?B \<or> unat ?i * ?B + ?B \<le> unat ?c * ?B + ?off"
      by (rule file_blocks_apart) (rule off)
    then have "unat a < unat ?i * ?B \<or> unat ?i * ?B + ?B \<le> unat a" by (simp only: aa [symmetric])
    moreover have "Suc (unat ?c) * ?B \<le> length (file_of s)"
      by (rule alloc_okD(9) [OF ok that(1)])
    then have "unat a < length (file_of s)" using aa off by simp
    ultimately show ?thesis using that(2) by (simp add: f_def file_write_outside host_bytes_def)
  qed
  consider (victim) "?c = ?i" | (block) "?c = b" | (other) "?c \<noteq> ?i" "?c \<noteq> b" by blast
  then show ?thesis
  proof cases
    case victim
    then have "v = host_vector s (p + of_nat ?off)" using a(2) p by (simp add: guest_byte_def off')
    moreover have "f ! (unat ?i * ?B + ?off) = host_bytes p ?B (host_vector s) ! ?off"
      unfolding f_def using off by (intro file_write_inside) (simp add: host_bytes_def)
    ultimately show ?thesis using victim neq aa off by (simp add: eq guest_byte_def frame host_bytes_def)
  next
    case block
    then have sw: "blocks s ?c = Swapped_out" using a(2) b(2) by (auto simp: guest_byte_def)
    then have v: "v = file_of s ! unat a" using a(2) by (simp add: guest_byte_def file_of_def split: option.splits)
    have "Suc (unat b) * ?B \<le> length f"
      using alloc_okD(9) [OF ok sw] block by (simp add: f_def length_file_write)
    then have "length (take ?B (drop (unat b * ?B) f)) = ?B" by simp
    then have "host_fill p (take ?B (drop (unat b * ?B) f)) (host_vector s) (p + of_nat ?off)
        = take ?B (drop (unat b * ?B) f) ! ?off"
      using off B by (intro host_fill_same) simp_all
    also have "\<dots> = f ! unat a" using off \<open>Suc (unat b) * ?B \<le> length f\<close> aa block by simp
    also have "\<dots> = v" using in_file [OF sw] v by simp
    finally show ?thesis using block by (simp add: eq guest_byte_def frame off')
  next
    case other
    show ?thesis
    proof (cases "blocks s ?c")
      case Null_block
      then show ?thesis using a(2) by (simp add: guest_byte_def)
    next
      case Swapped_out
      then have "file_of s ! unat a = v" using a(2) by (simp add: guest_byte_def file_of_def split: option.splits)
      then show ?thesis using other Swapped_out in_file [OF Swapped_out] by (simp add: eq guest_byte_def frame)
    next
      case (Block_at q)
      obtain j where j: "q = slot s j" "j < num_slots s" using alloc_okD(5) [OF ok Block_at] u by auto
      obtain k where k: "p = slot s k" "k < num_slots s" using alloc_okD(5) [OF ok p] u by auto
      have "q \<noteq> p"
      proof
        assume "q = p"
        then have "?i = ?c" using alloc_okD(7) [OF ok p, of ?c] Block_at by simp
        then show False using other(1) by simp
      qed
      then have kj: "k \<noteq> j" using j(1) k(1) by blast
      have "host_fill p (take ?B (drop (unat b * ?B) f)) (host_vector s) (q + of_nat ?off) = host_vector s (q + of_nat ?off)"
        unfolding j(1) k(1) by (rule host_fill_other [OF d k(2) j(2) kj off]) simp
      then show ?thesis using a(2) Block_at other by (simp add: eq guest_byte_def frame off')
    qed
  qed
qed


section \<open>A fresh block\<close>

lemma slots_le:
  "alloc_dims s \<Longrightarrow> unat (ucast (allocated s div ucast (block_size s)) :: u32) = num_slots s"
proof -
  assume d: "alloc_dims s"
  have "unat (allocated s) < 2 ^ 32" using d by (simp add: alloc_dims_def)
  then have "unat (allocated s div ucast (block_size s)) < 2 ^ 32"
    unfolding unat_div_bsize by (rule le_less_trans [OF div_le_dividend])
  then show ?thesis by (simp add: unat_ucast_less unat_div_bsize num_slots_def)
qed

lemma next_slot:
  assumes "alloc_dims s" "unat (used_blocks s) < num_slots s"
  shows "ucast (used_blocks s * block_size s) = slot s (unat (used_blocks s))"
proof -
  have "unat (used_blocks s) * bsize s \<le> num_slots s * bsize s" using assms(2) by simp
  then have "unat (used_blocks s) * bsize s < 2 ^ 32" using bsize_range(3) [OF assms(1)] by linarith
  then have "unat (used_blocks s * block_size s) = unat (used_blocks s) * bsize s" by (simp add: unat_word_ariths)
  then show ?thesis unfolding slot_def by (metis of_nat_unat)
qed

lemma fresh_ok:
  assumes ok: "alloc_ok s" and b: "unat b < num_blocks s" "blocks s b = Null_block \<or> blocks s b = Swapped_out"
    and u: "unat (used_blocks s) < num_slots s"
  defines "s' \<equiv> s\<lparr>blocks := (blocks s)(b := Block_at (ucast (used_blocks s * block_size s))), used_blocks := used_blocks s + 1\<rparr>"
  shows "alloc_ok s'"
proof -
  have d: "alloc_dims s" by (rule alloc_okD(1) [OF ok])
  have "num_slots s < 2 ^ 32" using bsize_range [OF d] by (metis nat_0_less_mult_iff less_le_trans mult_le_mono2 mult.right_neutral Suc_leI One_nat_def not_less)
  then have used: "unat (used_blocks s + 1) = Suc (unat (used_blocks s))" using u by (simp add: unat_word_ariths)
  have frame: "block_size s' = block_size s" "num_blocks s' = num_blocks s" "num_slots s' = num_slots s" "slot s' = slot s"
      "alloc_dims s' = alloc_dims s" "next_swapout_idx s' = next_swapout_idx s" "overflow_file s' = overflow_file s"
      "unat (used_blocks s') = Suc (unat (used_blocks s))"
      "blocks s' = (blocks s)(b := Block_at (slot s (unat (used_blocks s))))"
    using used next_slot [OF d u] by (simp_all add: s'_def num_blocks_def num_slots_def slot_def alloc_dims_def fun_eq_iff)
  have apart: "slot s j \<noteq> slot s (unat (used_blocks s))" if "j < unat (used_blocks s)" for j
    using slot_inj [OF d, of j "unat (used_blocks s)"] that u by simp
  have src: "c = b \<and> q = slot s (unat (used_blocks s)) \<or> c \<noteq> b \<and> blocks s c = Block_at q" if "blocks s' c = Block_at q" for c q
    using that by (simp add: frame split: if_splits)
  have "\<forall>c q. blocks s' c = Block_at q \<longrightarrow> unat c < num_blocks s \<and> (\<exists>j < Suc (unat (used_blocks s)). q = slot s j)"
    using src alloc_okD(4,5) [OF ok] b(1) less_Suc_eq by metis
  moreover have "\<forall>j < Suc (unat (used_blocks s)). \<exists>c. blocks s' c = Block_at (slot s j)"
  proof (intro allI impI)
    fix j assume "j < Suc (unat (used_blocks s))"
    then consider "j = unat (used_blocks s)" | "j < unat (used_blocks s)" by linarith
    then show "\<exists>c. blocks s' c = Block_at (slot s j)"
    proof cases
      case 1
      then have "blocks s' b = Block_at (slot s j)" by (simp add: frame)
      then show ?thesis by blast
    next
      case 2
      then obtain c where c: "blocks s c = Block_at (slot s j)" using alloc_okD(6) [OF ok] by blast
      then have "blocks s' c = Block_at (slot s j)" using b(2) by (auto simp: frame)
      then show ?thesis by blast
    qed
  qed
  moreover have "\<forall>c c' q. blocks s' c = Block_at q \<longrightarrow> blocks s' c' = Block_at q \<longrightarrow> c = c'"
    using src alloc_okD(5,7) [OF ok] apart by metis
  moreover have "\<forall>c. blocks s' c = Swapped_out \<longrightarrow> unat c < num_blocks s
      \<and> (\<exists>g. overflow_file s = Some g \<and> Suc (unat c) * bsize s \<le> length g)"
    using alloc_okD(8-10) [OF ok] by (simp add: frame)
  ultimately show ?thesis
    unfolding alloc_ok_def frame(1-8) using d alloc_okD(2) [OF ok] u by (intro conjI) simp_all
qed

lemma fresh_bytes:
  assumes "blocks s b = Null_block" "guest_byte s a = Some v"
  shows "guest_byte (s\<lparr>blocks := (blocks s)(b := q), used_blocks := n\<rparr>) a = Some v"
  using assms by (cases "block_index a s = b") (simp_all add: guest_byte_def block_index_def block_offset_def split: block_ptr.splits)

section \<open>get\_vector\<close>

text \<open>
  The invariant adds that a block is swapped out only when all slots are in use (a slot never becomes free again), so that a
  block allocated in an unused slot is one that was never used.
\<close>

definition alloc_inv :: "ram_alloc \<Rightarrow> bool" where
  "alloc_inv s \<longleftrightarrow> alloc_ok s \<and> ((\<exists>b. blocks s b = Swapped_out) \<longrightarrow> unat (used_blocks s) = num_slots s)"

text \<open>Two slots hold no page that a TLB points to. One of them is not the block at which the search starts (and gives up).\<close>

definition slot_free :: "(u64 \<Rightarrow> u64 \<Rightarrow> bool) \<Rightarrow> ram_alloc \<Rightarrow> nat \<Rightarrow> bool" where
  "slot_free busy s j \<longleftrightarrow> j < num_slots s \<and> \<not> busy (slot s j) (slot s j + ucast (block_size s))"

definition slots_free :: "(u64 \<Rightarrow> u64 \<Rightarrow> bool) \<Rightarrow> ram_alloc \<Rightarrow> bool" where
  "slots_free busy s \<longleftrightarrow> (\<exists>j < num_slots s. \<exists>k < num_slots s. j \<noteq> k \<and> slot_free busy s j \<and> slot_free busy s k)"

definition same_dims :: "ram_alloc \<Rightarrow> ram_alloc \<Rightarrow> bool" where
  "same_dims s t \<longleftrightarrow> guest_len t = guest_len s \<and> allocated t = allocated s \<and> block_size t = block_size s"

lemma same_dims_simps:
  assumes "same_dims s t"
  shows "num_blocks t = num_blocks s" "bsize t = bsize s" "slots_free busy t = slots_free busy s"
    "block_index a t = block_index a s" "block_offset a t = block_offset a s"
  using assms by (simp_all add: same_dims_def num_blocks_def num_slots_def slot_free_def slots_free_def slot_def block_index_def block_offset_def)

lemma alloc_frame:
  assumes "alloc_ok s" "unat i < num_blocks s"
  shows "alloc_ok (s\<lparr>next_swapout_idx := i\<rparr>)"
    and "guest_byte (s\<lparr>next_swapout_idx := i\<rparr>) a = guest_byte s a"
  using assms by (simp_all add: alloc_ok_def alloc_dims_def num_blocks_def num_slots_def slot_def guest_byte_def
      block_index_def block_offset_def split: block_ptr.split)

lemma allocate_block_correct:
  assumes inv: "alloc_inv s" and b: "unat b < num_blocks s" "blocks s b = Null_block \<or> blocks s b = Swapped_out"
    and free: "slots_free busy s"
  shows "\<exists>s'. allocate_block busy b s = Some s' \<and> alloc_inv s' \<and> same_dims s s' \<and> alloc_panics s' = alloc_panics s \<and> (\<exists>p. blocks s' b = Block_at p)
    \<and> (\<forall>a v. unat a < num_blocks s * bsize s \<longrightarrow> guest_byte s a = Some v \<longrightarrow> guest_byte s' a = Some v)"
proof (cases "unat (used_blocks s) < num_slots s")
  case True
  have ok: "alloc_ok s" using inv by (simp add: alloc_inv_def)
  let ?s' = "s\<lparr>blocks := (blocks s)(b := Block_at (ucast (used_blocks s * block_size s))), used_blocks := used_blocks s + 1\<rparr>"
  have none: "blocks s c \<noteq> Swapped_out" for c using inv True by (auto simp: alloc_inv_def)
  then have "blocks s b = Null_block" using b(2) by auto
  then have "guest_byte s a = Some v \<Longrightarrow> guest_byte ?s' a = Some v" for a v by (rule fresh_bytes)
  moreover have "alloc_inv ?s'" using fresh_ok [OF ok b True] none by (auto simp: alloc_inv_def)
  moreover have "allocate_block busy b s = Some ?s'"
    using True slots_le [OF alloc_okD(1) [OF ok]] by (simp add: allocate_block_def word_le_nat_alt)
  ultimately show ?thesis by (intro exI [of _ ?s']) (simp add: same_dims_def)
next
  case False
  have ok: "alloc_ok s" using inv by (simp add: alloc_inv_def)
  note d = alloc_okD(1) [OF ok]
  have full: "unat (used_blocks s) = num_slots s" using False alloc_okD(3) [OF ok] by simp
  obtain j k where jk: "slot_free busy s j" "slot_free busy s k" "j \<noteq> k" using free by (auto simp: slots_free_def)
  have resident: "\<exists>w. blocks s w = Block_at (slot s j) \<and> victim busy s w \<and> unat w < num_blocks s" if "slot_free busy s j" for j
  proof -
    have j: "j < num_slots s" "\<not> busy (slot s j) (slot s j + ucast (block_size s))" using that by (simp_all add: slot_free_def)
    then obtain w where w: "blocks s w = Block_at (slot s j)" using alloc_okD(6) [OF ok] full by metis
    then show ?thesis using j(2) alloc_okD(4) [OF ok w] by (auto simp: victim_def)
  qed
  obtain w w' where w: "blocks s w = Block_at (slot s j)" "victim busy s w" "unat w < num_blocks s"
    and w': "blocks s w' = Block_at (slot s k)" "victim busy s w'" "unat w' < num_blocks s"
    using resident [OF jk(1)] resident [OF jk(2)] by blast
  have "slot s j \<noteq> slot s k" using slot_inj [OF d, of j k] jk by (auto simp: slot_free_def)
  then have "w \<noteq> w'" using w(1) w'(1) by auto
  then obtain x where x: "victim busy s x" "unat x < num_blocks s" "x \<noteq> next_swapout_idx s" using w w' by metis
  obtain i where fv: "find_victim busy (next_swapout_idx s) s = Some (s\<lparr>next_swapout_idx := i\<rparr>)"
    and i: "unat i < num_blocks s" "victim busy s i"
    by (rule find_victim_silent [OF d alloc_okD(2) [OF ok] x])
  let ?t = "s\<lparr>next_swapout_idx := i\<rparr>"
  obtain p where p: "blocks s i = Block_at p" using i(2) by (auto simp: victim_def)
  note t = alloc_frame [OF ok i(1)]
  let ?s' = "read_block b (swap_out b ?t)"
  have "alloc_ok ?s'" using t(1) b p by (intro swap_ok) (simp_all add: num_blocks_def)
  moreover have "guest_byte ?s' a = Some v" if "unat a < num_blocks s * bsize s" "guest_byte s a = Some v" for a v
    using t b p that by (intro swap_bytes) (simp_all add: num_blocks_def)
  moreover have s': "used_blocks ?s' = used_blocks s" "same_dims s ?s'" "blocks ?s' b = Block_at p" "alloc_panics ?s' = alloc_panics s"
    using swap_result [of ?t b p] d b(1) i(1) p by (simp_all add: same_dims_def num_blocks_def)
  moreover have "num_slots ?s' = num_slots s" using s'(2) by (simp add: same_dims_def num_slots_def)
  moreover have "allocate_block busy b s = Some ?s'"
    using False slots_le [OF d] fv by (simp add: allocate_block_def word_le_nat_alt)
  ultimately show ?thesis using full by (intro exI [of _ ?s']) (auto simp: alloc_inv_def)
qed


lemma ram_get_vector_correct:
  assumes inv: "alloc_inv s" and a: "unat a < num_blocks s * bsize s" and free: "slots_free busy s"
  shows "\<exists>s'. ram_get_vector busy a s = Some (block_pointer a s', s') \<and> alloc_inv s' \<and> same_dims s s' \<and> alloc_panics s' = alloc_panics s
    \<and> (\<exists>p. blocks s' (block_index a s') = Block_at p)
    \<and> (\<forall>x v. unat x < num_blocks s * bsize s \<longrightarrow> guest_byte s x = Some v \<longrightarrow> guest_byte s' x = Some v)"
proof (cases "blocks s (block_index a s) = Null_block \<or> blocks s (block_index a s) = Swapped_out")
  case True
  have "alloc_dims s" using inv by (simp add: alloc_inv_def alloc_ok_def)
  from allocate_block_correct [OF inv block_index_nat(2) [OF this a] True free]
  obtain s' where s': "allocate_block busy (block_index a s) s = Some s'" "alloc_inv s'" "same_dims s s'" "alloc_panics s' = alloc_panics s"
    "\<exists>p. blocks s' (block_index a s) = Block_at p"
    "\<forall>x v. unat x < num_blocks s * bsize s \<longrightarrow> guest_byte s x = Some v \<longrightarrow> guest_byte s' x = Some v" by blast
  then show ?thesis using True same_dims_simps(4) [OF s'(3), of a] by (simp add: ram_get_vector_def)
next
  case False
  then obtain p where "blocks s (block_index a s) = Block_at p" by (cases "blocks s (block_index a s)") auto
  then show ?thesis using inv by (simp add: ram_get_vector_def same_dims_def)
qed

section \<open>Writes through the pointer\<close>

lemma resident_byte:
  assumes "blocks s (block_index a s) = Block_at p"
  shows "guest_byte s a = Some (host_vector s (block_pointer a s))"
  using assms by (simp add: guest_byte_def block_pointer_def)

lemma store_inv: "alloc_inv (s\<lparr>host_vector := v\<rparr>) = alloc_inv s"
  by (simp add: alloc_inv_def alloc_ok_def alloc_dims_def num_blocks_def num_slots_def slot_def)

lemma store_other:
  assumes ok: "alloc_ok s" and p: "blocks s (block_index a s) = Block_at p" and q: "blocks s (block_index x s) = Block_at q"
    and a: "unat a < num_blocks s * bsize s" and x: "unat x < num_blocks s * bsize s" and neq: "x \<noteq> a"
  shows "block_pointer x s \<noteq> block_pointer a s"
proof -
  note d = alloc_okD(1) [OF ok]
  have off: "ucast (block_offset y s) = (of_nat (unat y mod bsize s) :: u64)" for y
    using block_offset_nat [OF d, of y] by (metis of_nat_unat)
  have small: "unat (of_nat (unat y mod bsize s) :: u64) = unat y mod bsize s" for y :: u64
  proof -
    have "unat y mod bsize s < bsize s" using bsize_range(1) [OF d] by simp
    then have "unat y mod bsize s < 2 ^ 32" using bsize_range(2) [OF d] by (rule less_trans)
    then have "unat y mod bsize s < 2 ^ 64" by simp
    then show ?thesis by (simp only: unat_of_nat) simp
  qed
  have ptr: "block_pointer a s = p + of_nat (unat a mod bsize s)" "block_pointer x s = q + of_nat (unat x mod bsize s)"
    using p q by (simp_all add: block_pointer_def off)
  have aa: "unat y = unat (block_index y s) * bsize s + unat y mod bsize s" if "unat y < num_blocks s * bsize s" for y
    by (simp add: block_index_nat(1) [OF d that])
  show ?thesis
  proof (cases "q = p")
    case True
    then have "block_index x s = block_index a s" using alloc_okD(7) [OF ok q, of "block_index a s"] p by simp
    then have "unat x mod bsize s \<noteq> unat a mod bsize s" using aa [OF a] aa [OF x] neq by (metis word_unat_eq_iff)
    then show ?thesis unfolding ptr using True small by (metis add_left_cancel)
  next
    case False
    obtain j where j: "q = slot s j" "j < num_slots s" using alloc_okD(5) [OF ok q] alloc_okD(3) [OF ok] by auto
    obtain k where k: "p = slot s k" "k < num_slots s" using alloc_okD(5) [OF ok p] alloc_okD(3) [OF ok] by auto
    have "bsize s \<le> unat (block_pointer x s - p)"
      unfolding ptr j(1) k(1) using False j k bsize_range(1) [OF d] by (intro slot_disjoint [OF d]) auto
    moreover have "unat (block_pointer a s - p) < bsize s" using small [of a] bsize_range(1) [OF d] by (simp add: ptr)
    ultimately show ?thesis by auto
  qed
qed

lemma store_bytes:
  assumes ok: "alloc_ok s" and p: "blocks s (block_index a s) = Block_at p"
    and a: "unat a < num_blocks s * bsize s" and x: "unat x < num_blocks s * bsize s"
  shows "guest_byte (s\<lparr>host_vector := (host_vector s)(block_pointer a s := v)\<rparr>) x
    = (if x = a then Some v else guest_byte s x)"
proof -
  let ?s = "s\<lparr>host_vector := (host_vector s)(block_pointer a s := v)\<rparr>"
  have frame: "block_index y ?s = block_index y s" "block_pointer y ?s = block_pointer y s" "blocks ?s = blocks s" for y
    by (simp_all add: block_index_def block_pointer_def block_offset_def split: block_ptr.split)
  show ?thesis
  proof (cases "\<exists>q. blocks s (block_index x s) = Block_at q")
    case True
    then obtain q where q: "blocks s (block_index x s) = Block_at q" by blast
    then have "guest_byte ?s x = Some (host_vector ?s (block_pointer x ?s))" by (intro resident_byte) (simp add: frame)
    moreover have "x \<noteq> a \<Longrightarrow> block_pointer x s \<noteq> block_pointer a s" by (rule store_other [OF ok p q a x])
    ultimately show ?thesis using resident_byte [OF q] by (simp add: frame(2))
  next
    case False
    then have "x \<noteq> a" using p by auto
    then show ?thesis using False
      by (cases "blocks s (block_index x s)") (simp_all add: guest_byte_def frame split: option.split)
  qed
qed

section \<open>RAM is an array of bytes\<close>

fun op_ok :: "ram_alloc \<Rightarrow> ram_op \<Rightarrow> bool" where
  "op_ok s (Ram_read busy a) \<longleftrightarrow> unat a < num_blocks s * bsize s \<and> slots_free busy s"
| "op_ok s (Ram_write busy a v) \<longleftrightarrow> unat a < num_blocks s * bsize s \<and> slots_free busy s"

definition holds :: "ram_alloc \<Rightarrow> (u64 \<Rightarrow> u8 option) \<Rightarrow> bool" where
  "holds s m \<longleftrightarrow> (\<forall>a v. unat a < num_blocks s * bsize s \<longrightarrow> m a = Some v \<longrightarrow> guest_byte s a = Some v)"

definition agrees :: "u8 option list \<Rightarrow> u8 list \<Rightarrow> bool" where
  "agrees = list_all2 (\<lambda>x y. x = None \<or> x = Some y)"

lemma op_ok_dims: "same_dims s t \<Longrightarrow> op_ok t x = op_ok s x"
  by (cases x) (simp_all add: same_dims_simps)

lemma ram_run_refines:
  assumes "alloc_inv s" "holds s m" "\<forall>x \<in> set ops. op_ok s x"
  shows "\<exists>out s'. ram_run ops s = Some (out, s') \<and> agrees (array_run ops m) out \<and> alloc_panics s' = alloc_panics s"
  using assms
proof (induction ops arbitrary: s m)
  case Nil
  then show ?case by (simp add: agrees_def)
next
  case (Cons x ops)
  obtain busy a where x: "x = Ram_read busy a \<or> (\<exists>v. x = Ram_write busy a v)" by (cases x) auto
  then have a: "unat a < num_blocks s * bsize s" "slots_free busy s" using Cons.prems(3) by auto
  obtain s1 p where s1: "ram_get_vector busy a s = Some (block_pointer a s1, s1)" "alloc_inv s1" "same_dims s s1"
    "alloc_panics s1 = alloc_panics s" "blocks s1 (block_index a s1) = Block_at p"
    "\<And>x v. unat x < num_blocks s * bsize s \<Longrightarrow> guest_byte s x = Some v \<Longrightarrow> guest_byte s1 x = Some v"
    using ram_get_vector_correct [OF Cons.prems(1) a] by blast
  note dims = same_dims_simps [OF s1(3)]
  have h1: "holds s1 m" using Cons.prems(2) s1(6) by (simp add: holds_def dims)
  have ops: "\<forall>x \<in> set ops. op_ok s1 x" using Cons.prems(3) op_ok_dims [OF s1(3)] by simp
  show ?case
  proof (cases x)
    case (Ram_read busy' a')
    then have x: "x = Ram_read busy a" using x by auto
    have "m a = None \<or> m a = Some (host_vector s1 (block_pointer a s1))"
      using h1 a(1) resident_byte [OF s1(5)] by (cases "m a") (auto simp: holds_def dims)
    then show ?thesis using Cons.IH [OF s1(2) h1 ops] s1(1,4) by (auto simp: x agrees_def)
  next
    case (Ram_write busy' a' v)
    then have x: "x = Ram_write busy a v" using x by auto
    let ?s2 = "s1\<lparr>host_vector := (host_vector s1)(block_pointer a s1 := v)\<rparr>"
    have ok: "alloc_ok s1" using s1(2) by (simp add: alloc_inv_def)
    have d2: "same_dims s1 ?s2" by (simp add: same_dims_def)
    have "guest_byte ?s2 y = (if y = a then Some v else guest_byte s1 y)" if "unat y < num_blocks s * bsize s" for y
      using a(1) that by (intro store_bytes [OF ok s1(5)]) (simp_all add: dims)
    then have "holds ?s2 (m(a \<mapsto> v))" using h1 by (simp add: holds_def dims same_dims_simps [OF d2])
    moreover have "\<forall>x \<in> set ops. op_ok ?s2 x" using ops op_ok_dims [OF d2] by simp
    moreover have "alloc_inv ?s2" using s1(2) by (simp add: store_inv)
    ultimately show ?thesis using Cons.IH [of ?s2] s1(1,4) by (auto simp: x)
  qed
qed

lemma blocks_init_inv:
  assumes "bs = 2 ^ k" "k < 32" "unat host < 2 ^ 32" "2 ^ k \<le> unat host" "2 ^ k \<le> unat guest" "unat guest div 2 ^ k < 2 ^ 32"
  shows "alloc_inv (blocks_init guest host bs v)"
proof -
  have bs: "unat bs = 2 ^ k" using assms(1,2) by (simp add: unat_p2)
  have "0 < unat guest div 2 ^ k" "0 < unat host div 2 ^ k" using assms(4,5) by (simp_all add: div_greater_zero_iff)
  then show ?thesis using assms bs
    by (auto simp: alloc_inv_def alloc_ok_def alloc_dims_def num_blocks_def num_slots_def blocks_init_def alloc_panic_frame Let_def)
qed

text \<open>C25: Guest RAM is an array of bytes, whatever the size of the host buffer: from initialisation, every sequence of reads and writes ends without a panic,
  and each read gives the byte that the last write to its address stored, although blocks are swapped to the overflow file and back in between.
  Each access has its own set of buffers that TLBs point to, which leaves two buffers free. With a single free buffer the search can come back to
  the block where it started and raise the fatal panic (\<open>replacement_panic\<close> below).\<close>

theorem ram_swapping_invisible:
  assumes "bs = 2 ^ k" "k < 32" "unat host < 2 ^ 32" "2 ^ k \<le> unat host" "2 ^ k \<le> unat guest" "unat guest div 2 ^ k < 2 ^ 32"
    and "\<forall>x \<in> set ops. op_ok (blocks_init guest host bs v) x"
  shows "\<exists>out s. ram_run ops (blocks_init guest host bs v) = Some (out, s) \<and> agrees (array_run ops Map.empty) out
    \<and> alloc_panics s = alloc_panics (blocks_init guest host bs v)"
  by (rule ram_run_refines [OF blocks_init_inv [OF assms(1-6)] _ assms(7)]) (simp add: holds_def)


text \<open>Three blocks in two buffers: the third write swaps a block out, and the read swaps block 0 in again.\<close>

theorem ram_swapping_invisible_witness:
  "let ops = [Ram_write (\<lambda>_ _. False) 0 5, Ram_write (\<lambda>_ _. False) 0x100000 7, Ram_write (\<lambda>_ _. False) 0x200000 9, Ram_read (\<lambda>_ _. False) 0]
   in \<exists>out s. ram_run ops (blocks_init 0x300000 0x200000 0x100000 (\<lambda>_. 0)) = Some (out, s)
        \<and> agrees (array_run ops Map.empty) out \<and> alloc_panics s = []"
proof -
  let ?s = "blocks_init 0x300000 0x200000 0x100000 (\<lambda>_. 0)"
  have f: "slot_free (\<lambda>_ _. False) ?s 0" "slot_free (\<lambda>_ _. False) ?s 1" "num_slots ?s = 2"
    by (simp_all add: slot_free_def num_slots_def blocks_init_def alloc_panic_frame)
  have free: "slots_free (\<lambda>_ _. False) ?s"
    unfolding slots_free_def using f by (intro exI [of _ 0] exI [of _ 1] conjI) simp_all
  have p: "alloc_panics ?s = []" by (simp add: blocks_init_def alloc_panic_frame is_power_of_2_def)
  have n: "num_blocks ?s * bsize ?s = 0x300000" by (simp add: num_blocks_def blocks_init_def alloc_panic_frame)
  show ?thesis unfolding Let_def p [symmetric]
    by (rule ram_swapping_invisible [of _ 20]) (simp_all add: n free)
qed

text \<open>
  The search gives up (the panic is fatal by default) when it comes back to the block it started from, before it looks at that block: with
  a single host buffer, which no TLB points to, the second block that is touched raises the panic although it then gets the buffer.
\<close>

lemma replacement_panic:
  "map_option (\<lambda>(p, s). (p, blocks s 0, blocks s 1, alloc_panics s))
     (ram_get_vector (\<lambda>_ _. False) 0x100000 (snd (the (ram_get_vector (\<lambda>_ _. False) 0 (blocks_init 0x200000 0x100000 0x100000 (\<lambda>_. 0))))))
   = Some (0, Swapped_out, Block_at 0, [''Insufficient working RAM, all blocks are currently used for TLB entries!''])"
proof -
  let ?B = "\<lambda>_ :: u64. \<lambda>_ :: u64. False"
  define s where "s = snd (the (ram_get_vector ?B 0 (blocks_init 0x200000 0x100000 0x100000 (\<lambda>_. 0))))"
  have s: "guest_len s = 0x200000" "allocated s = 0x100000" "block_size s = 0x100000" "used_blocks s = 1" "next_swapout_idx s = 0"
    "blocks s = (\<lambda>_. Null_block)(0 := Block_at 0)" "alloc_panics s = []"
    by (simp_all add: s_def ram_get_vector_def blocks_init_def alloc_panic_frame block_index_def allocate_block_def Let_def is_power_of_2_def)
  have r: "round_idx s 0 = 1" by (simp add: round_idx_def s)
  have p: "probe 0 s = s\<lparr>next_swapout_idx := 1\<rparr>" by (simp add: probe_def r s Let_def)
  have "find_victim ?B 0 s = Some (probe 0 (probe 0 s))"
    by (subst find_victim_step, subst find_victim_step) (simp add: r s p round_idx_def)
  moreover have "probe 0 (probe 0 s) = s\<lparr>next_swapout_idx := 0,
      alloc_panics := [''Insufficient working RAM, all blocks are currently used for TLB entries!'']\<rparr>"
    by (simp add: p) (simp add: probe_def round_idx_def s Let_def)
  ultimately show ?thesis unfolding s_def [symmetric]
    by (simp add: ram_get_vector_def allocate_block_def block_index_def block_pointer_def block_offset_def swap_out_def read_block_def s Let_def)
qed

end
