(* ===== verification/Paging.thy ===== *)
theory Paging
  imports Phys_Mem
begin

text \<open>
  Paging: src/cpu/paging.cc and tlb.h. The configuration has long mode, shadow stacks (CET), no
  protection keys and no memory types. The CPU is outside VMX and SVM guests, so that no nested walk
  takes place and a page fault is not intercepted. Physical memory is a state \<open>'m\<close> behind the record
  \<open>phys_mem\<close> (\<open>read_physical_qword\<close> and its relatives, \<open>getHostMemAddr\<close>); theory \<open>Cpu_Bus\<close> provides the
  code's. A page fault ends an operation; it is the left side of a sum with its error code, and the
  faulting address is in CR2. A TLB entry is named by its slot: an instruction fetch uses the ITLB,
  every other access the DTLB, as the callers of \<open>translate_linear\<close> do. Outside this state are the notices that a
  flush gives to the prefetch queue, the stack cache, the address monitor and the instruction cache, the statistics, and the
  memory type in bits 9 to 11 of the combined access, which only \<open>BX_SUPPORT_MEMTYPE\<close> reads.
\<close>

section \<open>State\<close>

record 'm phys_mem =
  read_physical_qword :: "u64 \<Rightarrow> 'm \<Rightarrow> u64 \<times> 'm"
  write_physical_qword :: "u64 \<Rightarrow> u64 \<Rightarrow> 'm \<Rightarrow> 'm"
  read_physical_dword :: "u64 \<Rightarrow> 'm \<Rightarrow> u32 \<times> 'm"
  write_physical_dword :: "u64 \<Rightarrow> u32 \<Rightarrow> 'm \<Rightarrow> 'm"
  cpu_getHostMemAddr :: "u64 \<Rightarrow> nat \<Rightarrow> 'm \<Rightarrow> host_ptr option \<times> 'm"

record bx_TLB_entry =
  lpf :: u64
  ppf :: u64
  hostPageAddr :: "host_ptr option"
  accessBits :: u32
  lpf_mask :: u32

record bx_TLB =
  tlb_entry :: "nat \<Rightarrow> bx_TLB_entry"
  split_large :: bool

text \<open>What paging reads of the control and debug registers, EFLAGS.AC and the CPU model, the PDPTR cache and the two TLBs.\<close>

record 'm pg_cpu =
  cr0_PG :: bool
  cr0_WP :: bool
  cr2 :: u64
  cr3 :: u64
  cr4_PSE :: bool
  cr4_PAE :: bool
  cr4_PGE :: bool
  cr4_LA57 :: bool
  cr4_SMEP :: bool
  cr4_SMAP :: bool
  cr4_LASS :: bool
  efer_NXE :: bool
  efer_LMA :: bool
  long64_mode :: bool
  eflags_AC :: bool
  linaddr_width :: nat
  isa_1g_pages :: bool
  isa_cet :: bool
  PDPTR_CACHE :: "nat \<Rightarrow> u64"
  dbg_regs :: "nat \<Rightarrow> u64"
  dr7_R_W :: "nat \<Rightarrow> nat"
  DTLB :: bx_TLB
  ITLB :: bx_TLB
  pg_a20_mask :: u64
  pg_mem :: 'm
  pg_panics :: "string list"

abbreviation (input) "BX_SHADOW_STACK_READ \<equiv> 4 :: nat"
abbreviation (input) "BX_SHADOW_STACK_WRITE \<equiv> 5 :: nat"
abbreviation (input) "BX_SHADOW_STACK_RW \<equiv> 7 :: nat"

text \<open>The bits of an access kind: \<open>rw & 1\<close> and \<open>rw & 4\<close>.\<close>

definition is_write :: "nat \<Rightarrow> bool" where "is_write rw = bit rw 0"
definition is_shadow_stack :: "nat \<Rightarrow> bool" where "is_shadow_stack rw = bit rw 2"

abbreviation (input) "ERROR_NOT_PRESENT \<equiv> 0x00 :: u32"
abbreviation (input) "ERROR_PROTECTION \<equiv> 0x01 :: u32"
abbreviation (input) "ERROR_RESERVED \<equiv> 0x08 :: u32"
abbreviation (input) "ERROR_CODE_ACCESS \<equiv> 0x10 :: u32"
abbreviation (input) "ERROR_SHADOW_STACK \<equiv> 0x40 :: u32"

abbreviation (input) "BX_COMBINED_ACCESS_WRITE \<equiv> 0x2 :: u32"
abbreviation (input) "BX_COMBINED_ACCESS_USER \<equiv> 0x4 :: u32"
abbreviation (input) "BX_COMBINED_ACCESS_GLOBAL_PAGE \<equiv> 0x100 :: u32"

abbreviation (input) "TLB_SysReadOK \<equiv> 0x01 :: u32"
abbreviation (input) "TLB_UserReadOK \<equiv> 0x02 :: u32"
abbreviation (input) "TLB_SysWriteOK \<equiv> 0x04 :: u32"
abbreviation (input) "TLB_UserWriteOK \<equiv> 0x08 :: u32"
abbreviation (input) "TLB_SysReadShadowStackOK \<equiv> 0x10 :: u32"
abbreviation (input) "TLB_UserReadShadowStackOK \<equiv> 0x20 :: u32"
abbreviation (input) "TLB_SysWriteShadowStackOK \<equiv> 0x40 :: u32"
abbreviation (input) "TLB_UserWriteShadowStackOK \<equiv> 0x80 :: u32"
abbreviation (input) "TLB_SysExecuteOK \<equiv> 0x01 :: u32"
abbreviation (input) "TLB_UserExecuteOK \<equiv> 0x02 :: u32"

definition TLB_GlobalPage :: u32 where "TLB_GlobalPage = 0x80000000"
definition TLB_NoHostPtr :: u64 where "TLB_NoHostPtr = 0x800"
definition BX_INVALID_TLB_ENTRY :: u64 where "BX_INVALID_TLB_ENTRY = 0xffffffffffffffff"
definition LPF_MASK :: u64 where "LPF_MASK = 0xfffffffffffff000"
definition PPF_MASK :: u64 where "PPF_MASK = 0xfffffffffffff000"
definition BX_CR3_PAGING_MASK :: u64 where "BX_CR3_PAGING_MASK = 0x000ffffffffff000"
definition PAGE_DIRECTORY_NX_BIT :: u64 where "PAGE_DIRECTORY_NX_BIT = 0x8000000000000000"
definition BX_PHY_ADDRESS_RESERVED_BITS :: u64 where "BX_PHY_ADDRESS_RESERVED_BITS = NOT (push_bit 40 1 - 1)"
definition BX_PAGING_PHY_ADDRESS_RESERVED_BITS :: u64 where
  "BX_PAGING_PHY_ADDRESS_RESERVED_BITS = BX_PHY_ADDRESS_RESERVED_BITS AND 0xfffffffffffff"
definition PAGING_LEGACY_PAE_RESERVED_BITS :: u64 where
  "PAGING_LEGACY_PAE_RESERVED_BITS = BX_PAGING_PHY_ADDRESS_RESERVED_BITS OR 0x7ff0000000000000"
definition PAGING_PAE_PDE2M_RESERVED_BITS :: u64 where
  "PAGING_PAE_PDE2M_RESERVED_BITS = BX_PAGING_PHY_ADDRESS_RESERVED_BITS OR 0x001FE000"
definition PAGING_PAE_PDPTE_RESERVED_BITS :: u64 where
  "PAGING_PAE_PDPTE_RESERVED_BITS = BX_PAGING_PHY_ADDRESS_RESERVED_BITS OR 0xFFF00000000001E6"
definition PAGING_PDE4M_RESERVED_BITS :: u32 where
  "PAGING_PDE4M_RESERVED_BITS = push_bit (13 + 40 - 32) (push_bit (41 - 40) 1 - 1)"

definition BX_DTLB_SIZE :: nat where "BX_DTLB_SIZE = 2048"
definition BX_ITLB_SIZE :: nat where "BX_ITLB_SIZE = 1024"

definition PAGE_OFFSET :: "u64 \<Rightarrow> u64" where "PAGE_OFFSET laddr = ucast (ucast laddr AND 0xfff :: u32)"
definition LPFOf :: "u64 \<Rightarrow> u64" where "LPFOf laddr = laddr AND LPF_MASK"
definition PPFOf :: "u64 \<Rightarrow> u64" where "PPFOf paddr = paddr AND PPF_MASK"
definition AlignedAccessLPFOf :: "u64 \<Rightarrow> u32 \<Rightarrow> u64" where
  "AlignedAccessLPFOf laddr alignment_mask = laddr AND (LPF_MASK OR ucast alignment_mask)"
definition TLB_LPFOf :: "u64 \<Rightarrow> u64" where "TLB_LPFOf laddr = AlignedAccessLPFOf laddr 0x7ff"

definition pg_panic :: "string \<Rightarrow> 'm pg_cpu \<Rightarrow> 'm pg_cpu" where
  "pg_panic msg s = s\<lparr>pg_panics := pg_panics s @ [msg]\<rparr>"

section \<open>The TLBs\<close>

definition invalidate :: "bx_TLB_entry \<Rightarrow> bx_TLB_entry" where
  "invalidate e = e\<lparr>lpf := BX_INVALID_TLB_ENTRY, accessBits := 0\<rparr>"

definition tlb_valid :: "bx_TLB_entry \<Rightarrow> bool" where
  "tlb_valid e \<longleftrightarrow> lpf e \<noteq> BX_INVALID_TLB_ENTRY"

definition get_index_of :: "nat \<Rightarrow> u64 \<Rightarrow> u32 \<Rightarrow> nat" where
  "get_index_of sz l len = unat (drop_bit 12 ((ucast l + len) AND push_bit 12 (of_nat sz - 1)))"

definition tlb_flush :: "nat \<Rightarrow> bx_TLB \<Rightarrow> bx_TLB" where
  "tlb_flush sz t = t\<lparr>tlb_entry := (\<lambda>n. if n < sz then invalidate (tlb_entry t n) else tlb_entry t n), split_large := False\<rparr>"

definition flushNonGlobal :: "nat \<Rightarrow> bx_TLB \<Rightarrow> bx_TLB" where
  "flushNonGlobal sz t =
     (let keep = (\<lambda>e. accessBits e AND TLB_GlobalPage \<noteq> 0);
          mask' = fold (\<lambda>n m. let e = tlb_entry t n in if tlb_valid e \<and> keep e then m OR lpf_mask e else m) [0..<sz] 0
      in t\<lparr>tlb_entry := (\<lambda>n. let e = tlb_entry t n in if n < sz \<and> tlb_valid e \<and> \<not> keep e then invalidate e else e),
           split_large := (mask' > 0xfff)\<rparr>)"

definition tlb_invlpg :: "nat \<Rightarrow> u64 \<Rightarrow> bx_TLB \<Rightarrow> bx_TLB" where
  "tlb_invlpg sz laddr t =
     (if split_large t
      then let hit = (\<lambda>e. laddr AND NOT (ucast (lpf_mask e)) = lpf e AND NOT (ucast (lpf_mask e)));
               mask' = fold (\<lambda>n m. let e = tlb_entry t n in if tlb_valid e \<and> \<not> hit e then m OR lpf_mask e else m) [0..<sz] 0
           in t\<lparr>tlb_entry := (\<lambda>n. let e = tlb_entry t n in if n < sz \<and> tlb_valid e \<and> hit e then invalidate e else e),
                split_large := (mask' > 0xfff)\<rparr>
      else let n = get_index_of sz laddr 0; e = tlb_entry t n
           in if LPFOf (lpf e) = LPFOf laddr then t\<lparr>tlb_entry := (tlb_entry t)(n := invalidate e)\<rparr> else t)"

definition TLB_flush :: "'m pg_cpu \<Rightarrow> 'm pg_cpu" where
  "TLB_flush s = s\<lparr>DTLB := tlb_flush BX_DTLB_SIZE (DTLB s), ITLB := tlb_flush BX_ITLB_SIZE (ITLB s)\<rparr>"

definition TLB_flushNonGlobal :: "'m pg_cpu \<Rightarrow> 'm pg_cpu" where
  "TLB_flushNonGlobal s = s\<lparr>DTLB := flushNonGlobal BX_DTLB_SIZE (DTLB s), ITLB := flushNonGlobal BX_ITLB_SIZE (ITLB s)\<rparr>"

definition TLB_invlpg :: "u64 \<Rightarrow> 'm pg_cpu \<Rightarrow> 'm pg_cpu" where
  "TLB_invlpg laddr s = s\<lparr>DTLB := tlb_invlpg BX_DTLB_SIZE laddr (DTLB s), ITLB := tlb_invlpg BX_ITLB_SIZE laddr (ITLB s)\<rparr>"

section \<open>Faults and permissions\<close>

text \<open>The error code of a page fault, and the state the exception handler finds.\<close>

definition page_fault :: "u32 \<Rightarrow> u64 \<Rightarrow> bool \<Rightarrow> nat \<Rightarrow> 'm pg_cpu \<Rightarrow> u32 \<times> 'm pg_cpu" where
  "page_fault fault laddr user rw s =
     (let error_code = fault OR push_bit 2 (of_bool user) OR push_bit 1 (of_bool (is_write rw));
          error_code = (if rw = BX_EXECUTE
            then let error_code = (if cr4_SMEP s then error_code OR ERROR_CODE_ACCESS else error_code)
                 in if cr4_PAE s \<and> efer_NXE s then error_code OR ERROR_CODE_ACCESS else error_code
            else error_code);
          error_code = (if is_shadow_stack rw then error_code OR ERROR_SHADOW_STACK else error_code)
      in (error_code, s\<lparr>cr2 := laddr\<rparr>))"

definition priv_check :: "nat list" where
  "priv_check = [1, 1, 1, 1, 1, 1, 1, 1, 0, 0, 0, 0, 1, 0, 1, 1,
                 1, 0, 1, 1, 1, 0, 1, 1, 0, 0, 0, 0, 1, 0, 1, 1]"

text \<open>The fault of one entry (\<open>None\<close> is the result -1), and whether it marks the page as not executable.\<close>

definition check_entry_PAE :: "bool \<Rightarrow> nat \<Rightarrow> u64 \<Rightarrow> u64 \<Rightarrow> u32 option" where
  "check_entry_PAE pages_1g leaf entry reserved =
     (if entry AND 0x1 = 0 then Some ERROR_NOT_PRESENT
      else if entry AND reserved \<noteq> 0 then Some (ERROR_RESERVED OR ERROR_PROTECTION)
      else if entry AND 0x80 \<noteq> 0 \<and> leaf > 1 + of_bool pages_1g then Some (ERROR_RESERVED OR ERROR_PROTECTION)
      else None)"

definition entry_NX :: "u64 \<Rightarrow> bool" where
  "entry_NX entry \<longleftrightarrow> entry AND PAGE_DIRECTORY_NX_BIT \<noteq> 0"

definition check_leaf_entry_faults :: "u64 \<Rightarrow> u32 \<Rightarrow> bool \<Rightarrow> nat \<Rightarrow> bool \<Rightarrow> 'm pg_cpu \<Rightarrow> u32 + u32" where
  "check_leaf_entry_faults leaf_entry combined_access user rw nx_page s =
     (let ca = combined_access AND ucast leaf_entry;
          allowed =
            (if is_shadow_stack rw
             then (combined_access AND BX_COMBINED_ACCESS_WRITE \<noteq> 0 \<and> leaf_entry AND 0x40 \<noteq> 0 \<and> leaf_entry AND 0x02 = 0)
                  \<and> (ca AND BX_COMBINED_ACCESS_USER) XOR push_bit 2 (of_bool user) = 0
             else let priv_index = push_bit 4 (of_bool (cr0_WP s)) OR push_bit 3 (of_bool user)
                        OR (ca AND (BX_COMBINED_ACCESS_WRITE OR BX_COMBINED_ACCESS_USER)) OR of_bool (is_write rw)
                  in \<not> (priv_check ! unat (priv_index :: u32) = 0 \<or> nx_page \<and> rw = BX_EXECUTE))
      in if \<not> allowed then Inl ERROR_PROTECTION
         else if cr4_SMEP s \<and> rw = BX_EXECUTE \<and> \<not> user \<and> ca AND BX_COMBINED_ACCESS_USER \<noteq> 0 then Inl ERROR_PROTECTION
         else if cr4_SMAP s \<and> \<not> eflags_AC s \<and> rw \<noteq> BX_EXECUTE \<and> \<not> user \<and> ca AND BX_COMBINED_ACCESS_USER \<noteq> 0
         then Inl ERROR_PROTECTION
         else Inr ca)"

section \<open>Page walks\<close>

text \<open>
  The outcome of the loop over the levels: the entries read, from the root to the leaf, with their
  addresses; the page frame, the size mask, the U/S and R/W bits of the entries above the leaf, and whether an entry forbids execution.
\<close>

record 'e pg_walk =
  w_path :: "(u64 \<times> 'e) list"
  w_ppf :: u64
  w_mask :: u32
  w_combined :: u32
  w_nx :: bool

fun long_mode_walk ::
  "'m phys_mem \<Rightarrow> bool \<Rightarrow> u64 \<Rightarrow> u64 \<Rightarrow> nat \<Rightarrow> u64 \<Rightarrow> u64 \<Rightarrow> u32 \<Rightarrow> bool \<Rightarrow> (u64 \<times> u64) list \<Rightarrow> 'm
    \<Rightarrow> (u32 + u64 pg_walk) \<times> 'm" where
  "long_mode_walk P pages_1g laddr reserved leaf frame offset_mask combined_access nx_page path m =
     (let entry_addr = frame + (drop_bit (9 + 9 * leaf) laddr AND 0xff8);
          (curr_entry, m) = read_physical_qword P entry_addr m;
          offset_mask = drop_bit 9 offset_mask;
          path = path @ [(entry_addr, curr_entry)]
      in case check_entry_PAE pages_1g leaf curr_entry reserved of
           Some fault \<Rightarrow> (Inl fault, m)
         | None \<Rightarrow>
             (let nx_page = (nx_page \<or> entry_NX curr_entry);
                  frame = curr_entry AND 0x000ffffffffff000
              in case leaf of
                   0 \<Rightarrow> (Inr \<lparr>w_path = path, w_ppf = frame, w_mask = 0xfff, w_combined = combined_access, w_nx = nx_page\<rparr>, m)
                 | Suc leaf' \<Rightarrow>
                     (if curr_entry AND 0x80 \<noteq> 0
                      then let frame = frame AND 0x000fffffffffe000
                           in if frame AND offset_mask \<noteq> 0 then (Inl (ERROR_RESERVED OR ERROR_PROTECTION), m)
                              else (Inr \<lparr>w_path = path, w_ppf = frame, w_mask = ucast offset_mask,
                                         w_combined = combined_access, w_nx = nx_page\<rparr>, m)
                      else long_mode_walk P pages_1g laddr reserved leaf' frame offset_mask
                             (combined_access AND ucast curr_entry) nx_page path m)))"

declare long_mode_walk.simps [simp del]

fun PAE_walk ::
  "'m phys_mem \<Rightarrow> bool \<Rightarrow> u64 \<Rightarrow> u64 \<Rightarrow> nat \<Rightarrow> u64 \<Rightarrow> u32 \<Rightarrow> bool \<Rightarrow> (u64 \<times> u64) list \<Rightarrow> 'm \<Rightarrow> (u32 + u64 pg_walk) \<times> 'm" where
  "PAE_walk P pages_1g laddr reserved leaf frame combined_access nx_page path m =
     (let entry_addr = frame + (drop_bit (9 + 9 * leaf) laddr AND 0xff8);
          (curr_entry, m) = read_physical_qword P entry_addr m;
          path = path @ [(entry_addr, curr_entry)]
      in case check_entry_PAE pages_1g leaf curr_entry reserved of
           Some fault \<Rightarrow> (Inl fault, m)
         | None \<Rightarrow>
             (let nx_page = (nx_page \<or> entry_NX curr_entry);
                  frame = curr_entry AND 0x000ffffffffff000
              in case leaf of
                   0 \<Rightarrow> (Inr \<lparr>w_path = path, w_ppf = frame, w_mask = 0xfff, w_combined = combined_access, w_nx = nx_page\<rparr>, m)
                 | Suc leaf' \<Rightarrow>
                     (if curr_entry AND 0x80 \<noteq> 0
                      then (if curr_entry AND PAGING_PAE_PDE2M_RESERVED_BITS \<noteq> 0
                            then (Inl (ERROR_RESERVED OR ERROR_PROTECTION), m)
                            else (Inr \<lparr>w_path = path, w_ppf = curr_entry AND 0x000fffffffe00000, w_mask = 0x1fffff,
                                       w_combined = combined_access, w_nx = nx_page\<rparr>, m))
                      else PAE_walk P pages_1g laddr reserved leaf' frame (combined_access AND ucast curr_entry) nx_page path m)))"

declare PAE_walk.simps [simp del]

fun legacy_walk ::
  "'m phys_mem \<Rightarrow> bool \<Rightarrow> u64 \<Rightarrow> nat \<Rightarrow> u64 \<Rightarrow> u32 \<Rightarrow> (u64 \<times> u32) list \<Rightarrow> 'm \<Rightarrow> (u32 + u32 pg_walk) \<times> 'm" where
  "legacy_walk P pse laddr leaf frame combined_access path m =
     (let entry_addr = frame + (drop_bit (10 + 10 * leaf) laddr AND 0xffc);
          (curr_entry, m) = read_physical_dword P entry_addr m;
          path = path @ [(entry_addr, curr_entry)]
      in if curr_entry AND 0x1 = 0 then (Inl ERROR_NOT_PRESENT, m)
         else let frame = ucast (curr_entry AND 0xfffff000)
              in case leaf of
                   0 \<Rightarrow> (Inr \<lparr>w_path = path, w_ppf = frame, w_mask = 0xfff, w_combined = combined_access, w_nx = False\<rparr>, m)
                 | Suc leaf' \<Rightarrow>
                     (if curr_entry AND 0x80 \<noteq> 0 \<and> pse
                      then (if curr_entry AND PAGING_PDE4M_RESERVED_BITS \<noteq> 0
                            then (Inl (ERROR_RESERVED OR ERROR_PROTECTION), m)
                            else (Inr \<lparr>w_path = path,
                                       w_ppf = ucast (curr_entry AND 0xffc00000) OR push_bit 19 (ucast (curr_entry AND 0x003fe000)),
                                       w_mask = 0x3fffff, w_combined = combined_access, w_nx = False\<rparr>, m))
                      else legacy_walk P pse laddr leaf' frame (combined_access AND curr_entry) path m))"

declare legacy_walk.simps [simp del]

text \<open>The accessed and dirty bits, for entries of either width.\<close>

definition set_accessed :: "(u64 \<Rightarrow> 'e::len word \<Rightarrow> 'm \<Rightarrow> 'm) \<Rightarrow> u64 \<times> 'e word \<Rightarrow> 'm \<Rightarrow> 'm" where
  "set_accessed wr = (\<lambda>(a, e) m. if e AND 0x20 = 0 then wr a (e OR 0x20) m else m)"

definition update_leaf :: "(u64 \<Rightarrow> 'e::len word \<Rightarrow> 'm \<Rightarrow> 'm) \<Rightarrow> u64 \<times> 'e word \<Rightarrow> bool \<Rightarrow> 'm \<Rightarrow> 'm" where
  "update_leaf wr = (\<lambda>(a, e) isWrite m.
     let set_dirty = (isWrite \<and> e AND 0x40 = 0)
     in if e AND 0x20 = 0 \<or> set_dirty then wr a (e OR 0x20 OR (if set_dirty then 0x40 else 0)) m else m)"

definition dirty_panic :: "(u64 \<times> 'e::len word) \<Rightarrow> bool \<Rightarrow> string \<Rightarrow> 'm pg_cpu \<Rightarrow> 'm pg_cpu" where
  "dirty_panic = (\<lambda>(a, e) isWrite msg s.
     if isa_cet s \<and> isWrite \<and> e AND 0x40 = 0 \<and> e AND 0x02 = 0 then pg_panic msg s else s)"

definition update_access_dirty_PAE :: "'m phys_mem \<Rightarrow> (u64 \<times> u64) list \<Rightarrow> bool \<Rightarrow> 'm pg_cpu \<Rightarrow> 'm pg_cpu" where
  "update_access_dirty_PAE P path isWrite s =
     (let wr = write_physical_qword P;
          s = s\<lparr>pg_mem := fold (set_accessed wr) (butlast path) (pg_mem s)\<rparr>;
          s = dirty_panic (last path) isWrite ''PAE: asked to set dirty on paging leaf entry with R/W bit clear'' s
      in s\<lparr>pg_mem := update_leaf wr (last path) isWrite (pg_mem s)\<rparr>)"

definition update_access_dirty :: "'m phys_mem \<Rightarrow> (u64 \<times> u32) list \<Rightarrow> bool \<Rightarrow> 'm pg_cpu \<Rightarrow> 'm pg_cpu" where
  "update_access_dirty P path isWrite s =
     (let wr = write_physical_dword P;
          s = s\<lparr>pg_mem := fold (set_accessed wr) (butlast path) (pg_mem s)\<rparr>;
          s = dirty_panic (last path) isWrite ''Legacy Paging: asked to set dirty on paging leaf entry with R/W bit clear'' s
      in s\<lparr>pg_mem := update_leaf wr (last path) isWrite (pg_mem s)\<rparr>)"

section \<open>Translation in the three paging modes\<close>

text \<open>Faults of the walk or of the leaf on the left; the physical address with the access bits in its low part, and the size mask, on the right.\<close>

definition finish_walk :: "('e::len word \<Rightarrow> u64) \<Rightarrow> 'e word pg_walk \<Rightarrow> bool \<Rightarrow> nat \<Rightarrow> 'm pg_cpu \<Rightarrow> u32 + u32" where
  "finish_walk wide w user rw s =
     (let leaf_entry = snd (last (w_path w))
      in case check_leaf_entry_faults (wide leaf_entry) (w_combined w) user rw (w_nx w) s of
           Inl fault \<Rightarrow> Inl fault
         | Inr combined_access \<Rightarrow>
             Inr ((if cr4_PGE s then combined_access OR (ucast (wide leaf_entry) AND BX_COMBINED_ACCESS_GLOBAL_PAGE)
                   else combined_access) OR of_bool (w_nx w)))"

definition translate_linear_long_mode ::
  "'m phys_mem \<Rightarrow> u64 \<Rightarrow> bool \<Rightarrow> nat \<Rightarrow> 'm pg_cpu \<Rightarrow> (u32 + u64 \<times> u32) \<times> 'm pg_cpu" where
  "translate_linear_long_mode P laddr user rw s =
     (let reserved = BX_PAGING_PHY_ADDRESS_RESERVED_BITS OR (if efer_NXE s then 0 else PAGE_DIRECTORY_NX_BIT);
          offset_mask = push_bit (linaddr_width s) 1 - 1;
          start_leaf = (if cr4_LA57 s then 4 else 3);
          (r, m) = long_mode_walk P (isa_1g_pages s) laddr reserved start_leaf (cr3 s AND BX_CR3_PAGING_MASK) offset_mask
                     (BX_COMBINED_ACCESS_WRITE OR BX_COMBINED_ACCESS_USER) False [] (pg_mem s);
          s = s\<lparr>pg_mem := m\<rparr>
      in case r of
           Inl fault \<Rightarrow> (Inl fault, s)
         | Inr w \<Rightarrow>
             (case finish_walk id w user rw s of
                Inl fault \<Rightarrow> (Inl fault, s)
              | Inr combined_access \<Rightarrow>
                  (Inr (w_ppf w OR ucast combined_access, w_mask w), update_access_dirty_PAE P (w_path w) (is_write rw) s)))"

text \<open>The page-directory pointers of PAE paging are loaded with CR3.\<close>

fun load_pdptrs :: "'m phys_mem \<Rightarrow> u64 \<Rightarrow> nat list \<Rightarrow> (nat \<Rightarrow> u64) \<Rightarrow> 'm \<Rightarrow> (nat \<Rightarrow> u64) option \<times> 'm" where
  "load_pdptrs P cr3_val [] pdptr m = (Some pdptr, m)"
| "load_pdptrs P cr3_val (n # ns) pdptr m =
     (let (e, m) = read_physical_qword P (cr3_val OR push_bit 3 (of_nat n)) m
      in if e AND 0x1 \<noteq> 0 \<and> e AND PAGING_PAE_PDPTE_RESERVED_BITS \<noteq> 0 then (None, m)
         else load_pdptrs P cr3_val ns (pdptr(n := e)) m)"

definition CheckPDPTR :: "'m phys_mem \<Rightarrow> u64 \<Rightarrow> 'm pg_cpu \<Rightarrow> bool \<times> 'm pg_cpu" where
  "CheckPDPTR P cr3_val s =
     (let cr3_val = cr3_val AND 0xffffffe0
      in case load_pdptrs P cr3_val [0, 1, 2, 3] (PDPTR_CACHE s) (pg_mem s) of
           (None, m) \<Rightarrow> (False, s\<lparr>pg_mem := m\<rparr>)
         | (Some pdptr, m) \<Rightarrow> (True, s\<lparr>pg_mem := m, PDPTR_CACHE := pdptr\<rparr>))"

definition translate_linear_load_PDPTR :: "u64 \<Rightarrow> 'm pg_cpu \<Rightarrow> u32 + u64" where
  "translate_linear_load_PDPTR laddr s =
     (let index = unat (drop_bit 30 laddr AND 0x3); pdptr = PDPTR_CACHE s index
      in if pdptr AND 0x1 = 0 then Inl ERROR_NOT_PRESENT else Inr pdptr)"

definition translate_linear_PAE ::
  "'m phys_mem \<Rightarrow> u64 \<Rightarrow> bool \<Rightarrow> nat \<Rightarrow> 'm pg_cpu \<Rightarrow> (u32 + u64 \<times> u32) \<times> 'm pg_cpu" where
  "translate_linear_PAE P laddr user rw s =
     (let reserved = PAGING_LEGACY_PAE_RESERVED_BITS OR (if efer_NXE s then 0 else PAGE_DIRECTORY_NX_BIT)
      in case translate_linear_load_PDPTR laddr s of
           Inl fault \<Rightarrow> (Inl fault, s)
         | Inr pdpte \<Rightarrow>
             (let (r, m) = PAE_walk P (isa_1g_pages s) laddr reserved 1 (pdpte AND 0x000ffffffffff000)
                     (BX_COMBINED_ACCESS_WRITE OR BX_COMBINED_ACCESS_USER) False [] (pg_mem s);
                  s = s\<lparr>pg_mem := m\<rparr>
              in case r of
                   Inl fault \<Rightarrow> (Inl fault, s)
                 | Inr w \<Rightarrow>
                     (case finish_walk id w user rw s of
                        Inl fault \<Rightarrow> (Inl fault, s)
                      | Inr combined_access \<Rightarrow>
                          (Inr (w_ppf w OR ucast combined_access, w_mask w), update_access_dirty_PAE P (w_path w) (is_write rw) s))))"

definition translate_linear_legacy ::
  "'m phys_mem \<Rightarrow> u64 \<Rightarrow> bool \<Rightarrow> nat \<Rightarrow> 'm pg_cpu \<Rightarrow> (u32 + u64 \<times> u32) \<times> 'm pg_cpu" where
  "translate_linear_legacy P laddr user rw s =
     (let (r, m) = legacy_walk P (cr4_PSE s) laddr 1 (ucast (ucast (cr3 s) :: u32) AND BX_CR3_PAGING_MASK)
                     (BX_COMBINED_ACCESS_WRITE OR BX_COMBINED_ACCESS_USER) [] (pg_mem s);
          s = s\<lparr>pg_mem := m\<rparr>
      in case r of
           Inl fault \<Rightarrow> (Inl fault, s)
         | Inr w \<Rightarrow>
             (case finish_walk ucast w user rw s of
                Inl fault \<Rightarrow> (Inl fault, s)
              | Inr combined_access \<Rightarrow>
                  (Inr (w_ppf w OR ucast combined_access, w_mask w), update_access_dirty P (w_path w) (is_write rw) s)))"

section \<open>translate\_linear\<close>

definition hwbreakpoint_check :: "u64 \<Rightarrow> nat \<Rightarrow> nat \<Rightarrow> 'm pg_cpu \<Rightarrow> bool" where
  "hwbreakpoint_check laddr opa opb s =
     list_ex (\<lambda>n. (dr7_R_W s n = opa \<or> dr7_R_W s n = opb) \<and> LPFOf laddr = LPFOf (dbg_regs s n)) [0, 1, 2, 3]"

definition get_entry :: "nat \<Rightarrow> nat \<Rightarrow> 'm pg_cpu \<Rightarrow> bx_TLB_entry" where
  "get_entry rw n s = tlb_entry (if rw = BX_EXECUTE then ITLB s else DTLB s) n"

definition set_entry :: "nat \<Rightarrow> nat \<Rightarrow> bx_TLB_entry \<Rightarrow> 'm pg_cpu \<Rightarrow> 'm pg_cpu" where
  "set_entry rw n e s =
     (if rw = BX_EXECUTE then s\<lparr>ITLB := (ITLB s)\<lparr>tlb_entry := (tlb_entry (ITLB s))(n := e)\<rparr>\<rparr>
      else s\<lparr>DTLB := (DTLB s)\<lparr>tlb_entry := (tlb_entry (DTLB s))(n := e)\<rparr>\<rparr>)"

definition set_split_large :: "nat \<Rightarrow> 'm pg_cpu \<Rightarrow> 'm pg_cpu" where
  "set_split_large rw s =
     (if rw = BX_EXECUTE then s\<lparr>ITLB := (ITLB s)\<lparr>split_large := True\<rparr>\<rparr>
      else s\<lparr>DTLB := (DTLB s)\<lparr>split_large := True\<rparr>\<rparr>)"

text \<open>\<open>1 << (isShadowStack | (isWrite << 1) | user)\<close>.\<close>

definition access_bit :: "bool \<Rightarrow> nat \<Rightarrow> u32" where
  "access_bit user rw = push_bit (4 * of_bool (is_shadow_stack rw) + 2 * of_bool (is_write rw) + of_bool user) 1"

text \<open>The rights that a new entry caches, in the order of the code.\<close>

definition user_rights :: u32 where
  "user_rights = TLB_UserReadOK OR TLB_UserWriteOK OR TLB_UserReadShadowStackOK OR TLB_UserWriteShadowStackOK"

definition fill_access_bits :: "u32 \<Rightarrow> u64 \<Rightarrow> bool \<Rightarrow> nat \<Rightarrow> 'm pg_cpu \<Rightarrow> u32" where
  "fill_access_bits combined_access lpf' user rw s =
     (let isWrite = is_write rw; isExecute = (rw = BX_EXECUTE); isShadowStack = is_shadow_stack rw;
          bits = (if isExecute then TLB_SysExecuteOK
                  else if isShadowStack
                  then TLB_SysReadOK OR TLB_SysReadShadowStackOK OR (if isWrite then TLB_SysWriteShadowStackOK else 0)
                  else TLB_SysReadOK OR (if isWrite then TLB_SysWriteOK else 0));
          bits =
            (if \<not> cr0_PG s
             then bits OR (if isExecute then TLB_UserExecuteOK else TLB_UserReadOK OR TLB_UserWriteOK)
             else
               let bits =
                     (if combined_access AND BX_COMBINED_ACCESS_USER \<noteq> 0
                      then
                        let bits = (if user
                              then (if isExecute then bits OR TLB_UserExecuteOK
                                    else if isShadowStack
                                    then bits OR TLB_UserReadOK OR TLB_UserReadShadowStackOK
                                         OR (if isWrite then TLB_UserWriteShadowStackOK else 0)
                                    else bits OR TLB_UserReadOK OR (if isWrite then TLB_UserWriteOK else 0))
                              else bits);
                            bits = (if isExecute
                              then (if cr4_SMEP s then bits AND NOT TLB_SysExecuteOK else bits)
                              else (if cr4_SMAP s then bits AND NOT (TLB_SysReadOK OR TLB_SysWriteOK) else bits))
                        in bits AND NOT (TLB_SysReadShadowStackOK OR TLB_SysWriteShadowStackOK)
                      else bits)
               in if long64_mode s \<and> cr4_LASS s
                  then (if drop_bit 63 lpf' \<noteq> 0
                        then bits AND NOT (user_rights OR TLB_UserExecuteOK)
                        else let bits = bits AND NOT TLB_SysExecuteOK
                             in if cr4_SMAP s
                                then bits AND NOT (TLB_SysReadOK OR TLB_SysWriteOK OR TLB_SysReadShadowStackOK OR TLB_SysWriteShadowStackOK)
                                else bits)
                  else bits)
      in if combined_access AND BX_COMBINED_ACCESS_GLOBAL_PAGE \<noteq> 0 then bits OR TLB_GlobalPage else bits)"

text \<open>The walk of the current mode: physical address, size mask and access bits.\<close>

definition page_walk :: "'m phys_mem \<Rightarrow> u64 \<Rightarrow> bool \<Rightarrow> nat \<Rightarrow> 'm pg_cpu \<Rightarrow> (u32 + u64 \<times> u32) \<times> 'm pg_cpu" where
  "page_walk P laddr user rw s =
     (if efer_LMA s then translate_linear_long_mode P laddr user rw s
      else if cr4_PAE s then translate_linear_PAE P laddr user rw s
      else translate_linear_legacy P laddr user rw s)"

definition tlb_fill ::
  "'m phys_mem \<Rightarrow> nat \<Rightarrow> u64 \<Rightarrow> bool \<Rightarrow> nat \<Rightarrow> u64 \<Rightarrow> u32 \<Rightarrow> u32 \<Rightarrow> 'm pg_cpu \<Rightarrow> u64 \<times> 'm pg_cpu" where
  "tlb_fill P n laddr user rw paddress mask' combined_access s =
     (let paddress = paddress AND pg_a20_mask s;
          ppf' = PPFOf paddress;
          bits = fill_access_bits combined_access (LPFOf laddr) user rw s;
          (host, m) = cpu_getHostMemAddr P ppf' rw (pg_mem s);
          s = s\<lparr>pg_mem := m\<rparr>;
          lpf' = (if host \<noteq> None \<and> \<not> hwbreakpoint_check laddr 1 3 s then LPFOf laddr else LPFOf laddr OR TLB_NoHostPtr)
      in (paddress, set_entry rw n \<lparr>lpf = lpf', ppf = ppf', hostPageAddr = host, accessBits = bits, lpf_mask = mask'\<rparr> s))"

definition translate_linear ::
  "'m phys_mem \<Rightarrow> nat \<Rightarrow> u64 \<Rightarrow> bool \<Rightarrow> nat \<Rightarrow> 'm pg_cpu \<Rightarrow> (u32 + u64) \<times> 'm pg_cpu" where
  "translate_linear P n laddr user rw s =
     (let laddr = (if efer_LMA s then laddr else laddr AND 0xffffffff);
          poffset = PAGE_OFFSET laddr;
          tlbEntry = get_entry rw n s;
          same = (rw \<noteq> BX_EXECUTE \<and> TLB_LPFOf (lpf tlbEntry) = LPFOf laddr)
      in if same \<and> accessBits tlbEntry AND access_bit user rw \<noteq> 0 then (Inr (ppf tlbEntry OR poffset), s)
         else let s = (if same then set_entry rw n (invalidate tlbEntry) s else s)
              in if cr0_PG s
                 then case page_walk P laddr user rw s of
                        (Inl fault, s) \<Rightarrow> (let (error_code, s) = page_fault fault laddr user rw s in (Inl error_code, s))
                      | (Inr (paddress, mask'), s) \<Rightarrow>
                          (let combined_access = ucast (paddress AND ucast mask');
                               paddress = (paddress AND NOT (ucast mask')) OR (laddr AND ucast mask');
                               s = (if mask' > 0xfff then set_split_large rw s else s);
                               (paddress, s) = tlb_fill P n laddr user rw paddress mask' combined_access s
                           in (Inr paddress, s))
                 else let (paddress, s) = tlb_fill P n laddr user rw laddr 0xfff
                            (BX_COMBINED_ACCESS_WRITE OR BX_COMBINED_ACCESS_USER) s
                      in (Inr paddress, s))"

text \<open>The fetch of an instruction page (\<open>prefetch\<close> of cpu.cc): the ITLB first.\<close>

definition fetch_page :: "'m phys_mem \<Rightarrow> u64 \<Rightarrow> bool \<Rightarrow> 'm pg_cpu \<Rightarrow> (u32 + u64) \<times> 'm pg_cpu" where
  "fetch_page P laddr user s =
     (let n = get_index_of BX_ITLB_SIZE laddr 0; e = tlb_entry (ITLB s) n
      in if lpf e = LPFOf laddr \<and> accessBits e AND push_bit (of_bool user) 1 \<noteq> 0 then (Inr (ppf e), s)
         else case translate_linear P n laddr user BX_EXECUTE s of
                (Inl code, s) \<Rightarrow> (Inl code, s)
              | (Inr pAddr, s) \<Rightarrow> (Inr (PPFOf pAddr), s))"

end
