(* ===== verification/Tlb.thy ===== *)
theory Tlb
  imports Paging
begin

text \<open>
  The two TLBs: the shape that every operation keeps (an entry sits in the slot of its page, its size
  mask is a block of low bits, and \<open>split_large\<close> is set while an entry of a large page may be present), and
  what the invalidations leave: after INVLPG no entry of a page that contains the address is left, in either TLB,
  whatever the page sizes.
\<close>

section \<open>Shape\<close>

definition size_mask :: "u32 \<Rightarrow> bool" where
  "size_mask w \<longleftrightarrow> w \<in> {0xfff, 0x1fffff, 0x3fffff, 0x3fffffff}"

definition entry_shape :: "nat \<Rightarrow> bool \<Rightarrow> nat \<Rightarrow> bx_TLB_entry \<Rightarrow> bool" where
  "entry_shape sz split n e \<longleftrightarrow>
     tlb_valid e \<longrightarrow> get_index_of sz (lpf e) 0 = n \<and> size_mask (lpf_mask e) \<and> (lpf_mask e > 0xfff \<longrightarrow> split)
       \<and> lpf e AND NOT LPF_MASK \<in> {0, TLB_NoHostPtr}"

definition tlb_shape :: "nat \<Rightarrow> bx_TLB \<Rightarrow> bool" where
  "tlb_shape sz t \<longleftrightarrow> (\<forall>n < sz. entry_shape sz (split_large t) n (tlb_entry t n))"

definition tlbs_shape :: "'m pg_cpu \<Rightarrow> bool" where
  "tlbs_shape s \<longleftrightarrow> tlb_shape BX_DTLB_SIZE (DTLB s) \<and> tlb_shape BX_ITLB_SIZE (ITLB s)"

text \<open>The entry's page contains the address.\<close>

definition entry_contains :: "bx_TLB_entry \<Rightarrow> u64 \<Rightarrow> bool" where
  "entry_contains e laddr \<longleftrightarrow> tlb_valid e \<and> laddr AND NOT (ucast (lpf_mask e)) = lpf e AND NOT (ucast (lpf_mask e))"

lemma not_valid_invalidate [simp]: "\<not> tlb_valid (invalidate e)"
  by (simp add: tlb_valid_def invalidate_def)

lemma entry_shape_invalid [simp]: "entry_shape sz b n (invalidate e)"
  by (simp add: entry_shape_def)

lemma flush_shape [simp]: "tlb_shape sz (tlb_flush sz t)"
  by (simp add: tlb_shape_def tlb_flush_def)

text \<open>The masks collected over the entries that stay.\<close>

definition collect_masks :: "nat \<Rightarrow> (bx_TLB_entry \<Rightarrow> bool) \<Rightarrow> bx_TLB \<Rightarrow> u32" where
  "collect_masks sz keep t =
     fold (\<lambda>n m. let e = tlb_entry t n in if tlb_valid e \<and> keep e then m OR lpf_mask e else m) [0..<sz] 0"

lemma fold_or_ge:
  fixes g :: "'a \<Rightarrow> u32"
  shows "m \<le> fold (\<lambda>n m. if p n then m OR g n else m) ns m"
    and "n \<in> set ns \<Longrightarrow> p n \<Longrightarrow> g n \<le> fold (\<lambda>n m. if p n then m OR g n else m) ns m"
proof (induction ns arbitrary: m)
  case (Cons k ns)
  { case 1
    show ?case using Cons.IH(1) [of "m OR g k"] Cons.IH(1) [of m] le_word_or2 [of m "g k"]
      by simp (meson order.trans) }
  { case 2
    show ?case
    proof (cases "n = k")
      case True
      then show ?thesis using 2 Cons.IH(1) [of "m OR g k"] le_word_or1 [of "g k" m] by simp
    next
      case False
      then show ?thesis using 2 Cons.IH(2) by simp
    qed }
qed simp_all

lemma collect_masks_ge:
  "n < sz \<Longrightarrow> tlb_valid (tlb_entry t n) \<Longrightarrow> keep (tlb_entry t n) \<Longrightarrow> lpf_mask (tlb_entry t n) \<le> collect_masks sz keep t"
  unfolding collect_masks_def Let_def by (rule fold_or_ge(2)) simp_all

lemma flushNonGlobal_eq:
  "flushNonGlobal sz t =
     (let keep = (\<lambda>e. accessBits e AND TLB_GlobalPage \<noteq> 0)
      in t\<lparr>tlb_entry := (\<lambda>n. let e = tlb_entry t n in if n < sz \<and> tlb_valid e \<and> \<not> keep e then invalidate e else e),
           split_large := collect_masks sz keep t > 0xfff\<rparr>)"
  by (simp add: flushNonGlobal_def collect_masks_def Let_def)

lemma flushNonGlobal_shape:
  assumes "tlb_shape sz t"
  shows "tlb_shape sz (flushNonGlobal sz t)"
proof -
  let ?keep = "\<lambda>e. accessBits e AND TLB_GlobalPage \<noteq> 0"
  have "lpf_mask (tlb_entry t n) > 0xfff \<Longrightarrow> collect_masks sz ?keep t > 0xfff"
    if "n < sz" "tlb_valid (tlb_entry t n)" "?keep (tlb_entry t n)" for n
    using collect_masks_ge [OF that(1,2), of ?keep] that(3) by (meson order_less_le_trans)
  then show ?thesis using assms by (auto simp: tlb_shape_def entry_shape_def flushNonGlobal_eq Let_def)
qed

section \<open>INVLPG\<close>

definition hit_page :: "u64 \<Rightarrow> bx_TLB_entry \<Rightarrow> bool" where
  "hit_page laddr e \<longleftrightarrow> laddr AND NOT (ucast (lpf_mask e)) = lpf e AND NOT (ucast (lpf_mask e))"

lemma tlb_invlpg_split:
  "split_large t \<Longrightarrow> tlb_invlpg sz laddr t =
     t\<lparr>tlb_entry := (\<lambda>n. let e = tlb_entry t n in if n < sz \<and> tlb_valid e \<and> hit_page laddr e then invalidate e else e),
       split_large := collect_masks sz (\<lambda>e. \<not> hit_page laddr e) t > 0xfff\<rparr>"
  by (simp add: tlb_invlpg_def collect_masks_def hit_page_def Let_def)

lemma invlpg_shape:
  assumes "tlb_shape sz t"
  shows "tlb_shape sz (tlb_invlpg sz laddr t)"
proof (cases "split_large t")
  case True
  let ?keep = "\<lambda>e. \<not> hit_page laddr e"
  have "lpf_mask (tlb_entry t n) > 0xfff \<Longrightarrow> collect_masks sz ?keep t > 0xfff"
    if "n < sz" "tlb_valid (tlb_entry t n)" "?keep (tlb_entry t n)" for n
    using collect_masks_ge [OF that(1,2), of ?keep] that(3) by (meson order_less_le_trans)
  then show ?thesis using assms by (auto simp: tlb_shape_def entry_shape_def tlb_invlpg_split [OF True] Let_def)
next
  case False
  then show ?thesis using assms by (simp add: tlb_shape_def tlb_invlpg_def Let_def)
qed

lemma bit_LPFOf: "bit (LPFOf x) k \<longleftrightarrow> 12 \<le> k \<and> bit x k"
proof -
  have mask: "LPF_MASK = NOT (mask 12)" by (simp add: LPF_MASK_def mask_eq_exp_minus_1)
  show ?thesis unfolding LPFOf_def mask by (auto simp: bit_simps bit_mask_iff dest: bit_imp_le_length)
qed

text \<open>A small page in the slot of another address does not contain it.\<close>

lemma small_page_index:
  assumes "LPFOf laddr = LPFOf x"
  shows "get_index_of sz laddr 0 = get_index_of sz x 0"
proof -
  have "bit laddr k = bit x k" if "12 \<le> k" for k
    using that assms bit_LPFOf [of laddr k] bit_LPFOf [of x k] by simp
  then have "ucast laddr AND push_bit 12 (of_nat sz - 1 :: u32) = ucast x AND push_bit 12 (of_nat sz - 1)"
    by (intro bit_eqI) (auto simp: bit_simps simp del: push_bit_numeral)
  then show ?thesis by (simp add: get_index_of_def)
qed

lemma invlpg_removes:
  assumes "tlb_shape sz t" "n < sz"
  shows "\<not> entry_contains (tlb_entry (tlb_invlpg sz laddr t) n) laddr"
proof (cases "split_large t")
  case True
  then show ?thesis using assms(2) by (auto simp: tlb_invlpg_split entry_contains_def hit_page_def Let_def)
next
  case False
  let ?e = "tlb_entry t n" and ?k = "get_index_of sz laddr 0"
  have small: "tlb_valid ?e \<Longrightarrow> lpf_mask ?e = 0xfff \<and> get_index_of sz (lpf ?e) 0 = n"
    using assms False by (auto simp: tlb_shape_def entry_shape_def size_mask_def)
  have contains: "LPFOf laddr = LPFOf (lpf ?e)" if "entry_contains ?e laddr"
  proof -
    have "tlb_valid ?e" using that by (simp add: entry_contains_def)
    moreover have "NOT (0xfff :: u64) = LPF_MASK" by (simp add: LPF_MASK_def)
    ultimately show ?thesis using that small by (simp add: entry_contains_def LPFOf_def)
  qed
  show ?thesis
  proof
    assume "entry_contains (tlb_entry (tlb_invlpg sz laddr t) n) laddr"
    then have e: "entry_contains ?e laddr" "n = ?k \<longrightarrow> LPFOf (lpf ?e) \<noteq> LPFOf laddr"
      using False by (auto simp: tlb_invlpg_def Let_def entry_contains_def split: if_splits)
    then have "tlb_valid ?e" by (simp add: entry_contains_def)
    then have "n = ?k" using small small_page_index [OF contains [OF e(1)], of sz] by simp
    then show False using e(2) contains [OF e(1)] by simp
  qed
qed

lemma shape_invlpg: "tlbs_shape s \<Longrightarrow> tlbs_shape (TLB_invlpg laddr s)"
  by (simp add: tlbs_shape_def TLB_invlpg_def invlpg_shape)

lemma shape_flush: "tlbs_shape (TLB_flush s)"
  by (simp add: tlbs_shape_def TLB_flush_def)

lemma shape_flushNonGlobal: "tlbs_shape s \<Longrightarrow> tlbs_shape (TLB_flushNonGlobal s)"
  by (simp add: tlbs_shape_def TLB_flushNonGlobal_def flushNonGlobal_shape)

lemma invlpg_clears:
  assumes "tlbs_shape s"
  shows "n < BX_DTLB_SIZE \<Longrightarrow> \<not> entry_contains (tlb_entry (DTLB (TLB_invlpg laddr s)) n) laddr"
    and "n < BX_ITLB_SIZE \<Longrightarrow> \<not> entry_contains (tlb_entry (ITLB (TLB_invlpg laddr s)) n) laddr"
  using assms by (simp_all add: invlpg_removes tlbs_shape_def TLB_invlpg_def)

text \<open>A CPU in 64-bit mode with paging on, and memory that reads as zero everywhere, for examples.\<close>

definition demo_cpu_on :: "'m \<Rightarrow> 'm pg_cpu" where
  "demo_cpu_on m =
     (let e = \<lparr>lpf = BX_INVALID_TLB_ENTRY, ppf = 0, hostPageAddr = None, accessBits = 0, lpf_mask = 0\<rparr>;
          t = \<lparr>tlb_entry = \<lambda>_. e, split_large = False\<rparr>
      in \<lparr>cr0_PG = True, cr0_WP = True, cr2 = 0, cr3 = 0x1000, cr4_PSE = False, cr4_PAE = True, cr4_PGE = True, cr4_LA57 = False,
          cr4_SMEP = True, cr4_SMAP = True, cr4_LASS = False, efer_NXE = True, efer_LMA = True, long64_mode = True, eflags_AC = False,
          linaddr_width = 48, isa_1g_pages = True, isa_cet = True, PDPTR_CACHE = (\<lambda>_. 0), dbg_regs = (\<lambda>_. 0), dr7_R_W = (\<lambda>_. 0),
          DTLB = t, ITLB = t, pg_a20_mask = 0xffffffffffffffff, pg_mem = m, pg_panics = []\<rparr>)"

abbreviation "demo_cpu \<equiv> demo_cpu_on ()"

definition demo_phys :: "unit phys_mem" where
  "demo_phys = \<lparr>read_physical_qword = (\<lambda>_ m. (0, m)), write_physical_qword = (\<lambda>_ _ m. m), read_physical_dword = (\<lambda>_ m. (0, m)),
     write_physical_dword = (\<lambda>_ _ m. m), cpu_getHostMemAddr = (\<lambda>_ _ m. (None, m))\<rparr>"

end
