(* ===== verification/Tlb_Inv.thy ===== *)
theory Tlb_Inv
  imports Tlb
begin

text \<open>
  The shape of the TLBs in every reachable state: translations by any of the three paging modes, flushes,
  INVLPG, and any change of the rest of the CPU or of memory. With it INVLPG is complete in every reachable state.
\<close>

section \<open>Walks give page sizes\<close>

lemma drop_mask: "n + 9 \<le> 64 \<Longrightarrow> drop_bit 9 (mask (n + 9) :: u64) = mask n"
  by (intro bit_word_eqI) (auto simp: bit_simps dest: bit_imp_le_length)

lemma long_mode_walk_mask:
  "fst (long_mode_walk P p1 laddr reserved leaf frame (mask (21 + 9 * leaf)) ca nx path m) = Inr w \<Longrightarrow> leaf \<le> 4
    \<Longrightarrow> size_mask (w_mask w)"
proof (induction leaf arbitrary: frame ca nx path m)
  case 0
  then show ?case
    by (subst (asm) long_mode_walk.simps) (auto simp: Let_def size_mask_def split: option.splits prod.splits)
next
  case (Suc leaf)
  have mask: "drop_bit 9 (mask (30 + 9 * leaf) :: u64) = mask (21 + 9 * leaf)"
    using drop_mask [of "21 + 9 * leaf"] Suc.prems(2) by (simp add: algebra_simps)
  have large: "size_mask (ucast (mask (21 + 9 * leaf) :: u64))" if "leaf \<le> of_bool p1"
  proof -
    have "leaf = 0 \<or> leaf = 1" using that by (cases p1) auto
    then show ?thesis by (auto simp: size_mask_def mask_eq_exp_minus_1)
  qed
  show ?case using Suc.prems Suc.IH large
    by (subst (asm) long_mode_walk.simps)
      (auto simp: Let_def mask check_entry_PAE_def not_less split: option.splits prod.splits if_splits)
qed

lemma PAE_walk_mask:
  "fst (PAE_walk P p1 laddr reserved leaf frame ca nx path m) = Inr w \<Longrightarrow> leaf \<le> 1 \<Longrightarrow> size_mask (w_mask w)"
proof (induction leaf arbitrary: frame ca nx path m)
  case 0
  then show ?case by (subst (asm) PAE_walk.simps) (auto simp: Let_def size_mask_def split: option.splits prod.splits)
next
  case (Suc leaf)
  then show ?case
    by (subst (asm) PAE_walk.simps) (auto simp: Let_def size_mask_def split: option.splits prod.splits if_splits)
qed


lemma legacy_walk_mask:
  "fst (legacy_walk P pse laddr leaf frame ca path m) = Inr w \<Longrightarrow> leaf \<le> 1 \<Longrightarrow> size_mask (w_mask w)"
proof (induction leaf arbitrary: frame ca path m)
  case 0
  then show ?case by (subst (asm) legacy_walk.simps) (auto simp: Let_def size_mask_def split: if_splits prod.splits)
next
  case (Suc leaf)
  then show ?case
    by (subst (asm) legacy_walk.simps) (auto simp: Let_def size_mask_def split: prod.splits if_splits)
qed

text \<open>What a walk leaves alone.\<close>

definition same_tlb :: "'m pg_cpu \<Rightarrow> 'm pg_cpu \<Rightarrow> bool" where
  "same_tlb s t \<longleftrightarrow> DTLB t = DTLB s \<and> ITLB t = ITLB s \<and> linaddr_width t = linaddr_width s \<and> cr4_LA57 t = cr4_LA57 s"

definition width_ok :: "'m pg_cpu \<Rightarrow> bool" where
  "width_ok s \<longleftrightarrow> linaddr_width s = (if cr4_LA57 s then 57 else 48)"

lemma update_access_dirty_same [simp]:
  "same_tlb s (update_access_dirty_PAE P path wr t) = same_tlb s t"
  "same_tlb s (update_access_dirty P path' wr t) = same_tlb s t"
  by (simp_all add: same_tlb_def update_access_dirty_PAE_def update_access_dirty_def dirty_panic_def pg_panic_def Let_def split_beta)

lemma same_tlb_mem [simp]: "same_tlb s (s\<lparr>pg_mem := m\<rparr>)" "same_tlb s s"
  by (simp_all add: same_tlb_def)

lemma width_mask: "width_ok s \<Longrightarrow> 2 ^ linaddr_width s - 1 = (mask (21 + 9 * (if cr4_LA57 s then 4 else 3)) :: u64)"
  by (simp add: width_ok_def mask_eq_exp_minus_1)

lemma walks_same_tlb:
  "same_tlb s (snd (translate_linear_long_mode P laddr user rw s))"
  "same_tlb s (snd (translate_linear_PAE P laddr user rw s))"
  "same_tlb s (snd (translate_linear_legacy P laddr user rw s))"
  by (simp_all add: translate_linear_long_mode_def translate_linear_PAE_def translate_linear_legacy_def Let_def split_beta
      split: sum.split)

lemma finish_cases:
  "fst (case r of Inl f \<Rightarrow> (Inl f, s) | Inr w \<Rightarrow> (case g w of Inl f \<Rightarrow> (Inl f, s) | Inr c \<Rightarrow> (Inr (h w c, w_mask w), u w))) = Inr (pa, k)
    \<Longrightarrow> \<exists>w. r = Inr w \<and> k = w_mask w"
  by (auto split: sum.splits)

lemma walks_size:
  "width_ok s \<Longrightarrow> fst (translate_linear_long_mode P laddr user rw s) = Inr (pa, k) \<Longrightarrow> size_mask k"
  "fst (translate_linear_PAE P laddr user rw s) = Inr (pa, k) \<Longrightarrow> size_mask k"
  "fst (translate_linear_legacy P laddr user rw s) = Inr (pa, k) \<Longrightarrow> size_mask k"
  subgoal
    unfolding translate_linear_long_mode_def Let_def split_beta
    by (drule finish_cases) (auto simp: width_mask intro: long_mode_walk_mask)
  subgoal
    unfolding translate_linear_PAE_def Let_def split_beta
    by (cases "translate_linear_load_PDPTR laddr s") (auto dest!: finish_cases intro: PAE_walk_mask [where leaf = 1])
  subgoal
    unfolding translate_linear_legacy_def Let_def split_beta
    by (drule finish_cases) (auto intro: legacy_walk_mask [where leaf = 1])
  done

lemma page_walk_shape:
  "same_tlb s (snd (page_walk P laddr user rw s))"
  "width_ok s \<Longrightarrow> fst (page_walk P laddr user rw s) = Inr (pa, k) \<Longrightarrow> size_mask k"
  by (auto simp: page_walk_def walks_same_tlb intro: walks_size split: if_splits)


section \<open>Filling an entry\<close>

lemma LPFOf_or: "x AND LPF_MASK = 0 \<Longrightarrow> LPFOf (LPFOf l OR x) = LPFOf l"
  by (simp add: LPFOf_def bit.conj_disj_distrib2 and.assoc)

lemma low_part: "(LPFOf l OR x) AND NOT LPF_MASK = x AND NOT LPF_MASK"
  by (intro bit_word_eqI) (auto simp: LPFOf_def bit_simps)

lemma filled_entry_shape:
  assumes "size_mask mk" "mk > 0xfff \<longrightarrow> split" "x = 0 \<or> x = TLB_NoHostPtr"
  shows "entry_shape sz split (get_index_of sz l 0) \<lparr>lpf = LPFOf l OR x, ppf = pp, hostPageAddr = h, accessBits = b, lpf_mask = mk\<rparr>"
proof -
  have "x AND LPF_MASK = 0" "x AND NOT LPF_MASK = x" using assms(3) by (auto simp: TLB_NoHostPtr_def LPF_MASK_def)
  then have "get_index_of sz (LPFOf l OR x) 0 = get_index_of sz l 0" "(LPFOf l OR x) AND NOT LPF_MASK = x"
    by (simp_all only: low_part small_page_index [OF LPFOf_or])
  then show ?thesis using assms by (auto simp: entry_shape_def)
qed

lemma get_index_less: "0 < sz \<Longrightarrow> sz \<le> 2 ^ 20 \<Longrightarrow> get_index_of sz l 0 < sz"
proof -
  assume sz: "0 < sz" "sz \<le> 2 ^ 20"
  have u: "unat (of_nat sz - 1 :: u32) = sz - 1" using sz by (subst unat_sub) (auto simp: unat_of_nat word_le_nat_alt)
  have le: "drop_bit 12 (ucast l AND push_bit 12 w) \<le> (w :: u32)" for w
  proof -
    have "drop_bit 12 (ucast l AND push_bit 12 w) = (drop_bit 12 (ucast l) AND mask 20) AND (w :: u32)"
      by (intro bit_word_eqI) (auto simp: bit_simps simp del: push_bit_numeral)
    also have "\<dots> \<le> w" by (rule word_and_le1)
    finally show ?thesis .
  qed
  have "unat (drop_bit 12 (ucast l AND push_bit 12 (of_nat sz - 1)) :: u32) \<le> sz - 1"
    using le [of "of_nat sz - 1"] unfolding word_le_nat_alt u .
  then show ?thesis using sz(1) unfolding get_index_of_def by (simp only: add_0_right)
qed

lemma set_entry_shape:
  assumes "tlbs_shape s" "entry_shape (if rw = BX_EXECUTE then BX_ITLB_SIZE else BX_DTLB_SIZE)
      (split_large (if rw = BX_EXECUTE then ITLB s else DTLB s)) n e"
  shows "tlbs_shape (set_entry rw n e s)"
  using assms by (auto simp: tlbs_shape_def tlb_shape_def set_entry_def)

lemma set_split_shape: "tlbs_shape s \<Longrightarrow> tlbs_shape (set_split_large rw s)"
  by (auto simp: tlbs_shape_def tlb_shape_def set_split_large_def entry_shape_def)

definition slot_of :: "nat \<Rightarrow> u64 \<Rightarrow> nat" where
  "slot_of rw laddr = get_index_of (if rw = BX_EXECUTE then BX_ITLB_SIZE else BX_DTLB_SIZE) laddr 0"

lemma tlb_fill_shape:
  assumes "tlbs_shape s" "size_mask mk" "mk > 0xfff \<longrightarrow> split_large (if rw = BX_EXECUTE then ITLB s else DTLB s)"
  shows "tlbs_shape (snd (tlb_fill P (slot_of rw laddr) laddr user rw pa mk ca s))"
proof -
  obtain host m where h: "cpu_getHostMemAddr P (PPFOf (pa AND pg_a20_mask s)) rw (pg_mem s) = (host, m)" by fastforce
  let ?s = "s\<lparr>pg_mem := m\<rparr>"
  have s: "tlbs_shape ?s" using assms(1) by (simp add: tlbs_shape_def)
  have "tlbs_shape (set_entry rw (slot_of rw laddr)
      \<lparr>lpf = LPFOf laddr OR x, ppf = PPFOf (pa AND pg_a20_mask s), hostPageAddr = host,
       accessBits = fill_access_bits ca (LPFOf laddr) user rw s, lpf_mask = mk\<rparr> ?s)" if "x = 0 \<or> x = TLB_NoHostPtr" for x
    using assms(2,3) that by (intro set_entry_shape [OF s]) (auto simp: slot_of_def intro: filled_entry_shape)
  from this [of 0] this [of TLB_NoHostPtr] show ?thesis by (simp add: tlb_fill_def Let_def h)
qed


lemma set_entry_frame [simp]:
  "width_ok (set_entry rw n e s) = width_ok s" "width_ok (set_split_large rw s) = width_ok s"
  "width_ok (s\<lparr>pg_mem := m\<rparr>) = width_ok s" "tlbs_shape (s\<lparr>pg_mem := m\<rparr>) = tlbs_shape s" "tlbs_shape (s\<lparr>cr2 := a\<rparr>) = tlbs_shape s"
  "width_ok (s\<lparr>cr2 := a\<rparr>) = width_ok s"
  by (simp_all add: width_ok_def set_entry_def set_split_large_def tlbs_shape_def)

lemma tlb_fill_width: "width_ok (snd (tlb_fill P n laddr user rw pa mk ca s)) = width_ok s"
  by (simp add: tlb_fill_def Let_def split_beta)

lemma page_fault_frame:
  "tlbs_shape (snd (page_fault f a user rw s)) = tlbs_shape s" "width_ok (snd (page_fault f a user rw s)) = width_ok s"
  by (simp_all add: page_fault_def Let_def)

lemma same_tlb_shape:
  "same_tlb s t \<Longrightarrow> tlbs_shape t = tlbs_shape s" "same_tlb s t \<Longrightarrow> width_ok t = width_ok s"
  by (simp_all add: same_tlb_def tlbs_shape_def width_ok_def)

definition pg_shape :: "'m pg_cpu \<Rightarrow> bool" where
  "pg_shape s \<longleftrightarrow> tlbs_shape s \<and> width_ok s"

lemma slot_masked: "slot_of rw (laddr AND 0xffffffff) = slot_of rw laddr"
proof -
  have m: "(0xffffffff :: u64) = mask 32" by (simp add: mask_eq_exp_minus_1)
  have "(ucast (laddr AND 0xffffffff) :: u32) = ucast laddr"
    unfolding m by (intro bit_word_eqI) (auto simp: bit_simps)
  then show ?thesis by (simp add: slot_of_def get_index_of_def)
qed

lemma filled_shape:
  assumes "pg_shape s" "size_mask mk"
  shows "pg_shape (snd (tlb_fill P (slot_of rw laddr) laddr user rw pa mk ca (if mk > 0xfff then set_split_large rw s else s)))"
proof -
  let ?s = "if mk > 0xfff then set_split_large rw s else s"
  have "tlbs_shape ?s" using assms(1) by (simp add: pg_shape_def set_split_shape)
  moreover have "mk > 0xfff \<longrightarrow> split_large (if rw = BX_EXECUTE then ITLB ?s else DTLB ?s)" by (simp add: set_split_large_def)
  ultimately have "tlbs_shape (snd (tlb_fill P (slot_of rw laddr) laddr user rw pa mk ca ?s))"
    using assms(2) by (intro tlb_fill_shape) auto
  then show ?thesis using assms(1) by (simp add: pg_shape_def tlb_fill_width)
qed

lemma invalidated_shape: "pg_shape s \<Longrightarrow> pg_shape (set_entry rw n (invalidate e) s)"
  by (simp add: pg_shape_def set_entry_shape)

text \<open>The walk and the fill, after the lookup.\<close>

lemma walk_shape:
  assumes "pg_shape s"
  shows "pg_shape (snd (case page_walk P laddr user rw s of
      (Inl fault, s) \<Rightarrow> (let (error_code, s) = page_fault fault laddr user rw s in (Inl error_code, s))
    | (Inr (paddress, mk), s) \<Rightarrow>
        (let combined_access = ucast (paddress AND ucast mk);
             paddress = (paddress AND NOT (ucast mk)) OR (laddr AND ucast mk);
             s = (if mk > 0xfff then set_split_large rw s else s);
             (paddress, s) = tlb_fill P (slot_of rw laddr) laddr user rw paddress mk combined_access s
         in (Inr paddress, s))))"
proof -
  obtain r s1 where w: "page_walk P laddr user rw s = (r, s1)" by fastforce
  note ps = page_walk_shape [where P = P and laddr = laddr and user = user and rw = rw and s = s, unfolded w fst_conv snd_conv]
  have s1: "pg_shape s1" using assms same_tlb_shape [OF ps(1)] by (simp add: pg_shape_def)
  show ?thesis
  proof (cases r)
    case (Inl f)
    then show ?thesis using s1 by (simp add: w split_beta pg_shape_def page_fault_frame)
  next
    case (Inr p)
    obtain pa mk where p: "p = (pa, mk)" by (cases p)
    have "size_mask mk" using ps(2) assms by (simp add: pg_shape_def Inr p)
    from filled_shape [OF s1 this] show ?thesis by (simp add: w Inr p split_beta Let_def)
  qed
qed

lemma translate_linear_shape:
  assumes "pg_shape s"
  shows "pg_shape (snd (translate_linear P (slot_of rw laddr) laddr user rw s))"
proof -
  define l where "l = (if efer_LMA s then laddr else laddr AND 0xffffffff)"
  have slot: "slot_of rw laddr = slot_of rw l" by (simp add: l_def slot_masked)
  let ?n = "slot_of rw l"
  define s1 where "s1 = (if rw \<noteq> BX_EXECUTE \<and> TLB_LPFOf (lpf (get_entry rw ?n s)) = LPFOf l
    then set_entry rw ?n (invalidate (get_entry rw ?n s)) s else s)"
  have s1: "pg_shape s1" using assms by (simp add: s1_def invalidated_shape)
  have "size_mask 0xfff" by (simp add: size_mask_def)
  from filled_shape [OF s1 this] have real: "pg_shape (snd (tlb_fill P ?n l user rw l 0xfff ca s1))" for ca by simp
  show ?thesis
    using assms walk_shape [OF s1, where P = P and laddr = l and user = user and rw = rw] real
    unfolding slot translate_linear_def l_def [symmetric] Let_def s1_def [symmetric] split_beta
    by (simp split: if_split)
qed


lemma fetch_page_shape:
  assumes "pg_shape s"
  shows "pg_shape (snd (fetch_page P laddr user s))"
proof -
  have slot: "get_index_of BX_ITLB_SIZE laddr 0 = slot_of BX_EXECUTE laddr" by (simp add: slot_of_def)
  obtain r t where r: "translate_linear P (slot_of BX_EXECUTE laddr) laddr user BX_EXECUTE s = (r, t)" by fastforce
  have "pg_shape t" using translate_linear_shape [OF assms, of P BX_EXECUTE laddr user] by (simp only: r snd_conv)
  then show ?thesis using assms by (cases r) (simp_all only: fetch_page_def slot Let_def r prod.case sum.case, simp_all)
qed

section \<open>Reachable states\<close>

text \<open>
  The operations on the TLBs, from any flushed state; the rest of the CPU and memory change freely in between (\<open>linaddr_width\<close>
  follows CR4.LA57).
\<close>

inductive pg_step :: "'m phys_mem \<Rightarrow> 'm pg_cpu \<Rightarrow> 'm pg_cpu \<Rightarrow> bool" for P where
  access: "pg_step P s (snd (translate_linear P (slot_of rw laddr) laddr user rw s))"
| fetch: "pg_step P s (snd (fetch_page P laddr user s))"
| flush: "pg_step P s (TLB_flush s)"
| flush_non_global: "pg_step P s (TLB_flushNonGlobal s)"
| invlpg: "pg_step P s (TLB_invlpg laddr s)"
| other: "DTLB t = DTLB s \<Longrightarrow> ITLB t = ITLB s \<Longrightarrow> width_ok t \<Longrightarrow> pg_step P s t"

definition pg_start :: "'m pg_cpu \<Rightarrow> bool" where
  "pg_start s \<longleftrightarrow> (\<exists>t. width_ok t \<and> s = TLB_flush t)"

lemma flushes_width:
  "width_ok (TLB_flush s) = width_ok s" "width_ok (TLB_flushNonGlobal s) = width_ok s" "width_ok (TLB_invlpg a s) = width_ok s"
  by (simp_all add: width_ok_def TLB_flush_def TLB_flushNonGlobal_def TLB_invlpg_def)

lemma pg_step_shape:
  assumes "pg_shape s" "pg_step P s t"
  shows "pg_shape t"
  using assms(2)
proof cases
  case (access rw laddr user)
  then show ?thesis using translate_linear_shape [OF assms(1)] by simp
next
  case (fetch laddr user)
  then show ?thesis using fetch_page_shape [OF assms(1)] by simp
next
  case other
  then show ?thesis using assms(1) by (simp add: pg_shape_def tlbs_shape_def)
qed (use assms(1) in \<open>simp_all add: pg_shape_def flushes_width shape_flush shape_flushNonGlobal shape_invlpg\<close>)

lemma pg_start_shape: "pg_start s \<Longrightarrow> pg_shape s"
  by (auto simp: pg_start_def pg_shape_def flushes_width shape_flush)

interpretation tlb: device pg_start "pg_step P" pg_shape for P
  by unfold_locales (rule pg_start_shape, assumption, rule pg_step_shape)

text \<open>C29: Every reachable TLB entry is well formed: it lies in the slot of its page, its size mask is that of a 4 KByte, 2 MByte,
  4 MByte or 1 GByte page, no large page is present without the flag that makes INVLPG search the whole TLB, and its tag
  has no bits below the page but the mark for pages without a host pointer. This holds for all three paging
  modes, whatever the page tables contain.\<close>

theorem tlb_well_formed:
  assumes "pg_start s" "(pg_step P)\<^sup>*\<^sup>* s t"
  shows "tlbs_shape t"
  using tlb.reachable_inv [OF assms] by (simp add: pg_shape_def)

text \<open>C30: INVLPG is complete: in every reachable state, after it neither TLB holds an entry whose page, small or large, contains the
  address.\<close>

theorem invlpg_complete:
  assumes "pg_start s" "(pg_step P)\<^sup>*\<^sup>* s t"
  shows "(\<forall>n < BX_DTLB_SIZE. \<not> entry_contains (tlb_entry (DTLB (TLB_invlpg laddr t)) n) laddr)
    \<and> (\<forall>n < BX_ITLB_SIZE. \<not> entry_contains (tlb_entry (ITLB (TLB_invlpg laddr t)) n) laddr)"
  using invlpg_clears [of t] tlb.reachable_inv [OF assms] by (simp add: pg_shape_def)

lemma demo_start: "pg_start (TLB_flush demo_cpu)"
  unfolding pg_start_def by (rule exI [of _ demo_cpu]) (simp add: width_ok_def demo_cpu_on_def Let_def)

text \<open>A user write through a PML4 entry at 0x1000 and a 1-GByte page, which fills slot 5 of the data TLB.\<close>

definition demo_tables :: "unit phys_mem" where
  "demo_tables = demo_phys\<lparr>read_physical_qword := (\<lambda>a m. (if a = 0x1000 then 0x2067 else 0xe7, m))\<rparr>"

definition demo_access :: "unit pg_cpu" where
  "demo_access = snd (translate_linear demo_tables 5 0x5123 True BX_WRITE (TLB_flush demo_cpu))"

lemma demo_access_step: "(pg_step demo_tables)\<^sup>*\<^sup>* (TLB_flush demo_cpu) demo_access"
proof -
  have "slot_of BX_WRITE 0x5123 = 5" by (simp add: slot_of_def get_index_of_def BX_DTLB_SIZE_def)
  then have "pg_step demo_tables (TLB_flush demo_cpu) demo_access"
    unfolding demo_access_def by (metis pg_step.access)
  then show ?thesis ..
qed

lemma demo_access_fills:
  "entry_contains (tlb_entry (DTLB demo_access) 5) 0x5123" "entry_contains (tlb_entry (DTLB demo_access) 5) 0x7890123"
  "lpf_mask (tlb_entry (DTLB demo_access) 5) = 0x3fffffff"
  by code_simp+

theorem tlb_well_formed_witness:
  "lpf_mask (tlb_entry (DTLB demo_access) 5) = 0x3fffffff \<and> tlbs_shape demo_access"
  using tlb_well_formed [OF demo_start demo_access_step] by (simp add: demo_access_fills)

text \<open>INVLPG with another address of the large page, whose own slot is empty.\<close>

theorem invlpg_complete_witness:
  "entry_contains (tlb_entry (DTLB demo_access) 5) 0x7890123
   \<and> \<not> entry_contains (tlb_entry (DTLB (TLB_invlpg 0x7890123 demo_access)) 5) 0x7890123"
  using invlpg_complete [OF demo_start demo_access_step, where laddr = "0x7890123"]
  by (simp add: demo_access_fills BX_DTLB_SIZE_def)

end
