(* ===== verification/Cpu_Bus.thy ===== *)
theory Cpu_Bus
  imports Mem_Access Lapic Paging
begin

text \<open>
  Physical memory as the CPU sees it (src/cpu/paging.cc, \<open>access_read_physical\<close> and its relatives): an address in the window of
  the local APIC goes to the APIC, any other to \<open>BX_MEM_C\<close>. This gives paging its \<open>phys_mem\<close>. The pages of a VMX virtual APIC and the
  notification of the debugger are left out.
\<close>

section \<open>The code\<close>

text \<open>
  The local APICs with the number of this processor, physical memory, system management mode, the time, and what the
  local variable \<open>data\<close> holds before a read fills it.
\<close>

record 'd cpu_bus =
  cb_cfg :: apic_cfg
  cb_now :: u64
  cb_this :: nat
  cb_apics :: "lapic list"
  cb_smm :: bool
  cb_mem :: "'d bx_mem"
  cb_data :: "u8 list"

fun word_of_bytes :: "u8 list \<Rightarrow> 'a::len word" where
  "word_of_bytes [] = 0"
| "word_of_bytes (b # bs) = ucast b OR push_bit 8 (word_of_bytes bs)"

definition bytes_of_word :: "nat \<Rightarrow> 'a::len word \<Rightarrow> u8 list" where
  "bytes_of_word n w = map (\<lambda>i. ucast (drop_bit (8 * i) w)) [0..<n]"

definition apic_selected :: "u64 \<Rightarrow> 'd cpu_bus \<Rightarrow> bool" where
  "apic_selected paddr s \<longleftrightarrow> is_selected paddr (cb_apics s ! cb_this s)"

definition access_read_physical :: "u64 \<Rightarrow> u8 list \<Rightarrow> 'd cpu_bus \<Rightarrow> u8 list \<times> 'd cpu_bus" where
  "access_read_physical paddr data s =
     (if apic_selected paddr s
      then let (r, a) = lapic_read (cb_cfg s) (cb_now s) paddr (length data) (cb_apics s ! cb_this s)
           in (case r of Some v \<Rightarrow> bytes_of_word (length data) v | None \<Rightarrow> data, s\<lparr>cb_apics := (cb_apics s)[cb_this s := a]\<rparr>)
      else let (data, m) = readPhysicalPage (Some (cb_smm s)) paddr data (cb_mem s) in (data, s\<lparr>cb_mem := m\<rparr>))"

definition access_write_physical :: "u64 \<Rightarrow> u8 list \<Rightarrow> 'd cpu_bus \<Rightarrow> 'd cpu_bus" where
  "access_write_physical paddr data s =
     (if apic_selected paddr s
      then s\<lparr>cb_apics := lapic_write (cb_cfg s) (cb_now s) (cb_this s) paddr (word_of_bytes data) (length data) (cb_apics s)\<rparr>
      else s\<lparr>cb_mem := writePhysicalPage (Some (cb_smm s)) paddr data (cb_mem s)\<rparr>)"

text \<open>Reads and writes of \<open>n\<close> bytes: \<open>read_physical_byte\<close> to \<open>read_physical_qword\<close> and the writes.\<close>

definition read_physical :: "nat \<Rightarrow> u64 \<Rightarrow> 'd cpu_bus \<Rightarrow> 'a::len word \<times> 'd cpu_bus" where
  "read_physical n paddr s = (let (data, s) = access_read_physical paddr (take n (cb_data s)) s in (word_of_bytes data, s))"

definition write_physical :: "nat \<Rightarrow> u64 \<Rightarrow> 'a::len word \<Rightarrow> 'd cpu_bus \<Rightarrow> 'd cpu_bus" where
  "write_physical n paddr v s = access_write_physical paddr (bytes_of_word n v) s"

definition bus_getHostMemAddr :: "u64 \<Rightarrow> nat \<Rightarrow> 'd cpu_bus \<Rightarrow> host_ptr option \<times> 'd cpu_bus" where
  "bus_getHostMemAddr paddr rw s =
     (if apic_selected paddr s then (None, s)
      else let (p, m) = getHostMemAddr (Some (cb_smm s)) paddr rw (cb_mem s) in (p, s\<lparr>cb_mem := m\<rparr>))"

definition bus_phys :: "('d cpu_bus) phys_mem" where
  "bus_phys = \<lparr>read_physical_qword = read_physical 8, write_physical_qword = write_physical 8,
     read_physical_dword = read_physical 4, write_physical_dword = write_physical 4, cpu_getHostMemAddr = bus_getHostMemAddr\<rparr>"

section \<open>Bytes of words\<close>

lemma bit_word_of_bytes:
  "bit (word_of_bytes bs :: 'a::len word) n \<longleftrightarrow> n < LENGTH('a) \<and> n div 8 < length bs \<and> bit (bs ! (n div 8)) (n mod 8)"
proof (induction bs arbitrary: n)
  case (Cons b bs)
  show ?case
  proof (cases "n < 8")
    case True
    then show ?thesis by (auto simp: bit_or_iff bit_push_bit_iff bit_ucast_iff simp del: push_bit_numeral)
  next
    case False
    then obtain k where n: "n = 8 + k" by (metis le_add_diff_inverse not_less)
    have "\<not> bit b n" using False bit_imp_le_length [of b n] by auto
    moreover have [simp]: "(8 + k) div 8 = Suc (k div 8)" "(8 + k) mod 8 = k mod 8" by simp_all
    ultimately show ?thesis using Cons.IH [of k]
      by (auto simp: n bit_or_iff bit_push_bit_iff bit_ucast_iff simp del: push_bit_numeral)
  qed
qed simp

lemma word_of_bytes_of_word:
  assumes "LENGTH('a) \<le> 8 * n"
  shows "word_of_bytes (bytes_of_word n w) = (w :: 'a::len word)"
proof (rule bit_word_eqI)
  fix k assume "k < LENGTH('a)"
  then have "k div 8 < n" using assms by (simp add: less_mult_imp_div_less mult.commute)
  then show "bit (word_of_bytes (bytes_of_word n w) :: 'a word) k = bit w k"
    using \<open>k < LENGTH('a)\<close> by (simp add: bit_word_of_bytes bytes_of_word_def bit_ucast_iff bit_drop_bit_eq)
qed

lemma length_bytes_of_word [simp]: "length (bytes_of_word n w) = n"
  by (simp add: bytes_of_word_def)


section \<open>Entries in RAM\<close>

text \<open>An aligned item of \<open>n\<close> bytes in plain RAM, outside the window of the local APIC.\<close>

definition item_ok :: "nat \<Rightarrow> u64 \<Rightarrow> 'd cpu_bus \<Rightarrow> bool" where
  "item_ok n a s \<longleftrightarrow> plain_ram a (cb_mem s) \<and> n dvd unat a \<and> \<not> apic_selected a s \<and> 8 \<le> length (cb_data s)"

lemma aligned_in_page:
  assumes "n = 4 \<or> n = 8" "n dvd unat a"
  shows "\<not> cross_page a n"
proof -
  define k where "k = (if n = 4 then 2 else 3 :: nat)"
  have n: "n = 2 ^ k" "k = 2 \<or> k = 3" using assms(1) by (auto simp: k_def)
  have "2 ^ k dvd unat a" using assms(2) n(1) by simp
  then have z: "take_bit k a = 0" by (simp add: take_bit_eq_mod word_unat_eq_iff unat_mod n mod_eq_0_iff_dvd split: if_splits) (use n(2) in auto)
  have "a + of_nat n - 1 = a OR mask k"
  proof -
    have "a AND mask k = 0" using z by (simp add: take_bit_eq_mask)
    then have "a + mask k = a OR mask k" by (simp add: disjunctive_add_eq_or)
    then show ?thesis using n by (auto simp: mask_eq_exp_minus_1 algebra_simps)
  qed
  moreover have "drop_bit 12 (a OR mask k) = drop_bit 12 a"
    using n(2) by (intro bit_word_eqI) (auto simp: bit_simps)
  ultimately show ?thesis by (simp add: cross_page_def)
qed

lemma ram_read:
  assumes "n = 4 \<or> n = 8" "item_ok n a s"
  shows "read_physical n a s = (word_of_bytes (vector_read a n (cb_mem s)), s)"
proof -
  have "length (take n (cb_data s)) = n" using assms by (auto simp: item_ok_def)
  then show ?thesis using assms plain_ram_read [of a "cb_mem s" "take n (cb_data s)"] aligned_in_page [OF assms(1), of a]
    by (simp add: read_physical_def access_read_physical_def item_ok_def)
qed

lemma ram_write:
  assumes "n = 4 \<or> n = 8" "item_ok n a s"
  shows "write_physical n a v s = s\<lparr>cb_mem := (check_monitor a (of_nat n) (cb_mem s))
      \<lparr>vector := overlay a (bytes_of_word n v) (vector (cb_mem s))\<rparr>\<rparr>"
proof -
  have "length (bytes_of_word n v) \<le> 2 ^ 64" using assms(1) by auto
  then show ?thesis using assms plain_ram_write [of a "cb_mem s" "bytes_of_word n v"] aligned_in_page [OF assms(1), of a]
    by (simp add: write_physical_def access_write_physical_def item_ok_def vector_write_overlay)
qed

lemma overlay_aligned:
  assumes "n = 4 \<or> n = 8" "n dvd unat a" "n dvd unat b" "i < n" "length bs = n"
  shows "overlay a bs v (b + of_nat i) = (if b = a then bs ! i else v (b + of_nat i))"
proof (cases "b = a")
  case True
  have "unat (of_nat i :: u64) = i" using assms(1,4) by (auto simp: unat_of_nat)
  then show ?thesis using True assms by (simp add: overlay_def)
next
  case False
  have d: "n dvd unat (b - a)"
  proof (cases "a \<le> b")
    case True
    then show ?thesis using assms(2,3) by (simp add: unat_sub)
  next
    case False
    then have "unat (b - a) = 2 ^ 64 + unat b - unat a" by (simp add: unat_sub_if' word_le_nat_alt)
    moreover have "n dvd 2 ^ 64" using assms(1) by auto
    ultimately show ?thesis using assms(2,3) by (simp add: dvd_diff_nat)
  qed
  moreover have "unat (b - a) \<noteq> 0" using False by (simp add: unat_eq_0)
  ultimately have n: "n \<le> unat (b - a)" by (simp add: dvd_imp_le)
  have "unat (b - a) + i < 2 ^ 64"
  proof -
    obtain q where q: "unat (b - a) = n * q" using d by (rule dvdE)
    then have "n * q < 2 ^ 64" using unsigned_less [of "b - a", where 'a = nat] by simp
    then show ?thesis using assms(1,4) q by auto
  qed
  moreover have "b + of_nat i - a = (b - a) + of_nat i" by simp
  moreover have "unat (of_nat i :: u64) = i" using assms(1,4) by (auto simp: unat_of_nat)
  ultimately have "unat (b + of_nat i - a) = unat (b - a) + i" by (simp only: unat_word_ariths) simp
  then show ?thesis using False n assms(5) by (simp add: overlay_def)
qed

end
