(* ===== verification/Tlb_Rights.thy ===== *)
theory Tlb_Rights
  imports Tlb
begin

text \<open>
  Permissions. The check of a leaf entry, which looks up a table of 32 privilege combinations, against the rules of the
  architecture (user and supervisor pages, write protection, execute-disable, SMEP, SMAP and shadow stacks), and
  the rights cached in a TLB entry against the same rules: a hit never allows what a walk would refuse.
\<close>

section \<open>The architectural rule\<close>

text \<open>
  The effective R/W and U/S bits are the conjunction along the walk. A shadow-stack access needs a shadow-stack page (writable above
  the leaf; the leaf read-only and dirty) of its own privilege. Any other user access needs a user page; a write needs a writable page, or supervisor mode
  without CR0.WP; a fetch needs a page that no entry marks as not executable. Supervisor mode fetches from no user page under SMEP, and
  accesses no data of a user page under SMAP unless EFLAGS.AC is set.
\<close>

definition access_allowed :: "u64 \<Rightarrow> u32 \<Rightarrow> bool \<Rightarrow> nat \<Rightarrow> bool \<Rightarrow> bool \<Rightarrow> bool \<Rightarrow> bool \<Rightarrow> bool \<Rightarrow> bool" where
  "access_allowed leaf combined user rw nx wp smep smap ac \<longleftrightarrow>
     (let writable = bit combined 1 \<and> bit leaf 1; user_page = bit combined 2 \<and> bit leaf 2
      in (if is_shadow_stack rw
          then bit combined 1 \<and> \<not> bit leaf 1 \<and> bit leaf 6 \<and> user_page = user
          else (user \<longrightarrow> user_page) \<and> (is_write rw \<longrightarrow> writable \<or> \<not> user \<and> \<not> wp) \<and> \<not> (rw = BX_EXECUTE \<and> nx))
         \<and> (\<not> user \<and> user_page \<longrightarrow> (if rw = BX_EXECUTE then \<not> smep else \<not> smap \<or> ac)))"

lemma and_bit_test:
  fixes w :: "'a::len word"
  assumes "m = push_bit k 1" "k < LENGTH('a)"
  shows "w AND m \<noteq> 0 \<longleftrightarrow> bit w k" "w AND m = 0 \<longleftrightarrow> \<not> bit w k"
proof -
  have "m = shl1 k" using assms(1) by (simp add: shl1_def)
  then show "w AND m \<noteq> 0 \<longleftrightarrow> bit w k" using tst_shl1 [of w k] by (simp add: tst_def)
  then show "w AND m = 0 \<longleftrightarrow> \<not> bit w k" by blast
qed

lemma bit_tests:
  "(x :: u32) AND 0x2 \<noteq> 0 \<longleftrightarrow> bit x 1" "x AND 0x2 = 0 \<longleftrightarrow> \<not> bit x 1"
  "x AND 0x4 \<noteq> 0 \<longleftrightarrow> bit x 2" "x AND 0x4 = 0 \<longleftrightarrow> \<not> bit x 2"
  "(y :: u64) AND 0x2 \<noteq> 0 \<longleftrightarrow> bit y 1" "y AND 0x2 = 0 \<longleftrightarrow> \<not> bit y 1"
  "y AND 0x40 \<noteq> 0 \<longleftrightarrow> bit y 6" "y AND 0x40 = 0 \<longleftrightarrow> \<not> bit y 6"
  by (rule and_bit_test; simp)+

lemma and_shl1: "(w :: 'a::len word) AND shl1 k = (if bit w k then shl1 k else 0)"
  by (intro bit_word_eqI) (auto simp: bit_and_iff)

lemma and_6_cases:
  "(x :: u32) AND (BX_COMBINED_ACCESS_WRITE OR BX_COMBINED_ACCESS_USER)
    = (if bit x 1 then 2 else 0) OR (if bit x 2 then 4 else 0)"
proof -
  have "(2 :: u32) = shl1 1" "(4 :: u32) = shl1 2" by (simp_all add: shl1_def)
  then have "x AND 2 = (if bit x 1 then 2 else 0)" "x AND 4 = (if bit x 2 then 4 else 0)" by (simp_all only: and_shl1)
  then show ?thesis by (simp only: bit.conj_disj_distrib)
qed

text \<open>The table gives the rule for the 32 combinations.\<close>

lemma priv_table:
  "priv_check ! unat (push_bit 4 (of_bool wp) OR push_bit 3 (of_bool user)
      OR ((if w then 2 else 0) OR (if u then 4 else 0)) OR of_bool wr :: u32) = 0
    \<longleftrightarrow> \<not> ((user \<longrightarrow> u) \<and> (wr \<longrightarrow> w \<or> \<not> user \<and> \<not> wp))"
  by (cases wp; cases user; cases w; cases u; cases wr) (simp_all add: priv_check_def)

lemma leaf_check_rule:
  "check_leaf_entry_faults leaf combined user rw nx s =
     (if access_allowed leaf combined user rw nx (cr0_WP s) (cr4_SMEP s) (cr4_SMAP s) (eflags_AC s)
      then Inr (combined AND ucast leaf) else Inl ERROR_PROTECTION)"
proof -
  let ?ca = "combined AND ucast leaf"
  let ?W = "bit combined 1 \<and> bit leaf 1" and ?U = "bit combined 2 \<and> bit leaf 2"
  have w: "bit ?ca 1 = ?W" "bit ?ca 2 = ?U" by (simp_all add: bit_and_iff bit_ucast_iff)
  have u: "(?ca AND BX_COMBINED_ACCESS_USER) XOR push_bit 2 (of_bool user) = 0 \<longleftrightarrow> ?U = user"
    by (cases user; cases ?U) (simp_all add: bit_tests w and_shl1 [of ?ca 2, unfolded shl1_def, simplified])
  have sh: "is_shadow_stack rw \<Longrightarrow> rw \<noteq> BX_EXECUTE" by (auto simp: is_shadow_stack_def)
  show ?thesis
    unfolding check_leaf_entry_faults_def Let_def and_6_cases priv_table u bit_tests w access_allowed_def
    using sh by auto
qed


section \<open>Cached rights\<close>

lemma bit_numerals:
  "bit (0x01 :: u32) k \<longleftrightarrow> k = 0" "bit (0x02 :: u32) k \<longleftrightarrow> k = 1" "bit (0x04 :: u32) k \<longleftrightarrow> k = 2" "bit (0x08 :: u32) k \<longleftrightarrow> k = 3"
  "bit (0x10 :: u32) k \<longleftrightarrow> k = 4" "bit (0x20 :: u32) k \<longleftrightarrow> k = 5" "bit (0x40 :: u32) k \<longleftrightarrow> k = 6" "bit (0x80 :: u32) k \<longleftrightarrow> k = 7"
  "bit TLB_GlobalPage k \<longleftrightarrow> k = 31"
proof -
  have s: "bit (shl1 n :: u32) k \<longleftrightarrow> k = n" if "n < 32" for n using that by auto
  show "bit (0x01 :: u32) k \<longleftrightarrow> k = 0" "bit (0x02 :: u32) k \<longleftrightarrow> k = 1" "bit (0x04 :: u32) k \<longleftrightarrow> k = 2"
    "bit (0x08 :: u32) k \<longleftrightarrow> k = 3" "bit (0x10 :: u32) k \<longleftrightarrow> k = 4" "bit (0x20 :: u32) k \<longleftrightarrow> k = 5"
    "bit (0x40 :: u32) k \<longleftrightarrow> k = 6" "bit (0x80 :: u32) k \<longleftrightarrow> k = 7" "bit TLB_GlobalPage k \<longleftrightarrow> k = 31"
    using s [of 0] s [of 1] s [of 2] s [of 3] s [of 4] s [of 5] s [of 6] s [of 7] s [of 31]
    by (simp_all add: shl1_def TLB_GlobalPage_def)
qed

text \<open>What each cached right says about the access that filled the entry.\<close>

lemma data_rights:
  fixes c :: u32 and l :: u64 and user :: bool and s :: "'m pg_cpu"
  assumes "cr0_PG s" "rw \<noteq> BX_EXECUTE"
  defines "bits \<equiv> fill_access_bits c l user rw s"
  shows "bit bits 0 \<Longrightarrow> \<not> (bit c 2 \<and> cr4_SMAP s)"
    and "bit bits 1 \<Longrightarrow> bit c 2 \<and> user"
    and "bit bits 2 \<Longrightarrow> is_write rw \<and> \<not> is_shadow_stack rw \<and> \<not> (bit c 2 \<and> cr4_SMAP s)"
    and "bit bits 3 \<Longrightarrow> bit c 2 \<and> user \<and> is_write rw \<and> \<not> is_shadow_stack rw"
    and "bit bits 4 \<Longrightarrow> is_shadow_stack rw \<and> \<not> bit c 2"
    and "bit bits 5 \<Longrightarrow> bit c 2 \<and> user \<and> is_shadow_stack rw"
    and "bit bits 6 \<Longrightarrow> is_shadow_stack rw \<and> is_write rw \<and> \<not> bit c 2"
    and "bit bits 7 \<Longrightarrow> bit c 2 \<and> user \<and> is_shadow_stack rw \<and> is_write rw"
  using assms(1,2)
  by (auto simp: bits_def fill_access_bits_def Let_def bit_tests user_rights_def bit_or_iff bit_and_iff bit_not_iff bit_numerals
      split: if_splits)


lemma fetch_rights:
  assumes "cr0_PG s"
  shows "bit (fill_access_bits c l user BX_EXECUTE s) 0 \<Longrightarrow> \<not> (bit c 2 \<and> cr4_SMEP s)"
    and "bit (fill_access_bits c l user BX_EXECUTE s) 1 \<Longrightarrow> bit c 2 \<and> user"
  using assms
  by (auto simp: fill_access_bits_def Let_def bit_tests user_rights_def bit_or_iff bit_and_iff bit_not_iff bit_numerals
      split: if_splits)

text \<open>The bit that a hit tests.\<close>

lemma access_bit_test:
  "x AND access_bit user rw \<noteq> 0 \<longleftrightarrow> bit x (4 * of_bool (is_shadow_stack rw) + 2 * of_bool (is_write rw) + of_bool user)"
  unfolding access_bit_def by (rule and_bit_test(1)) simp_all

text \<open>What the check of the leaf leaves of the combined rights, with the global bit and the execute-disable bit added.\<close>

lemma finish_walk_rule:
  "finish_walk wide w user rw s = Inr c \<longleftrightarrow>
     access_allowed (wide (snd (last (w_path w)))) (w_combined w) user rw (w_nx w) (cr0_WP s) (cr4_SMEP s) (cr4_SMAP s) (eflags_AC s)
     \<and> c = (if cr4_PGE s then w_combined w AND ucast (wide (snd (last (w_path w))))
                OR (ucast (wide (snd (last (w_path w)))) AND BX_COMBINED_ACCESS_GLOBAL_PAGE)
              else w_combined w AND ucast (wide (snd (last (w_path w))))) OR of_bool (w_nx w)"
  by (auto simp: finish_walk_def leaf_check_rule Let_def)

lemma combined_user_bit:
  assumes "finish_walk wide w user rw s = Inr c"
  shows "bit c 2 \<longleftrightarrow> bit (w_combined w) 2 \<and> bit (wide (snd (last (w_path w)))) 2"
proof -
  have "(0x100 :: u32) = shl1 8" by (simp add: shl1_def)
  then have "\<not> bit (0x100 :: u32) 2" by simp
  moreover have "\<not> bit (of_bool b :: u32) 2" for b by (cases b) (simp_all add: bit_1_iff)
  ultimately show ?thesis using assms by (auto simp: finish_walk_rule bit_or_iff bit_and_iff bit_ucast_iff)
qed

lemma allowed_data:
  "rw \<noteq> BX_EXECUTE \<Longrightarrow> access_allowed leaf combined user rw nx wp smep smap ac \<longleftrightarrow>
     (is_shadow_stack rw \<longrightarrow> bit combined 1 \<and> \<not> bit leaf 1 \<and> bit leaf 6 \<and> (bit combined 2 \<and> bit leaf 2) = user)
     \<and> (\<not> is_shadow_stack rw \<longrightarrow> (user \<longrightarrow> bit combined 2 \<and> bit leaf 2)
          \<and> (is_write rw \<longrightarrow> bit combined 1 \<and> bit leaf 1 \<or> \<not> user \<and> \<not> wp))
     \<and> (\<not> user \<and> bit combined 2 \<and> bit leaf 2 \<longrightarrow> \<not> smap \<or> ac)"
  by (simp add: access_allowed_def Let_def)

lemma rights_sound_data:
  assumes "cr0_PG s" "rw \<noteq> BX_EXECUTE" "rw' \<noteq> BX_EXECUTE" and walk: "finish_walk wide w user rw s = Inr c"
    and same: "cr0_WP s' = cr0_WP s" "cr4_SMEP s' = cr4_SMEP s" "cr4_SMAP s' = cr4_SMAP s" "cr4_PGE s' = cr4_PGE s"
    and hit: "fill_access_bits c l user rw s AND access_bit user' rw' \<noteq> 0"
  shows "finish_walk wide w user' rw' s' = Inr c"
proof -
  let ?leaf = "wide (snd (last (w_path w)))"
  note data = data_rights [OF assms(1,2), of c l user, unfolded combined_user_bit [OF walk]]
  have allowed: "access_allowed ?leaf (w_combined w) user rw (w_nx w) (cr0_WP s) (cr4_SMEP s) (cr4_SMAP s) (eflags_AC s)"
    using walk by (simp add: finish_walk_rule)
  note a = allowed [unfolded allowed_data [OF assms(2)]]
  have k: "bit (fill_access_bits c l user rw s) (4 * of_bool (is_shadow_stack rw') + 2 * of_bool (is_write rw') + of_bool user')"
    using hit by (simp only: access_bit_test)
  have "access_allowed ?leaf (w_combined w) user' rw' (w_nx w) (cr0_WP s) (cr4_SMEP s) (cr4_SMAP s) (eflags_AC s')"
  proof (cases "is_shadow_stack rw'")
    case sh: True
    consider (1) "\<not> is_write rw'" "\<not> user'" | (2) "\<not> is_write rw'" "user'" | (3) "is_write rw'" "\<not> user'" | (4) "is_write rw'" "user'" by blast
    then show ?thesis
    proof cases
      case 1 then show ?thesis using data(5) k sh a by (auto simp: allowed_data [OF assms(3)])
    next
      case 2 then show ?thesis using data(6) k sh a by (auto simp: allowed_data [OF assms(3)])
    next
      case 3 then show ?thesis using data(7) k sh a by (auto simp: allowed_data [OF assms(3)])
    next
      case 4 then show ?thesis using data(8) k sh a by (auto simp: allowed_data [OF assms(3)])
    qed
  next
    case sh: False
    consider (1) "\<not> is_write rw'" "\<not> user'" | (2) "\<not> is_write rw'" "user'" | (3) "is_write rw'" "\<not> user'" | (4) "is_write rw'" "user'" by blast
    then show ?thesis
    proof cases
      case 1 then show ?thesis using data(1) k sh a by (auto simp: allowed_data [OF assms(3)])
    next
      case 2 then show ?thesis using data(2) k sh a by (auto simp: allowed_data [OF assms(3)])
    next
      case 3
      then have "bit (fill_access_bits c l user rw s) 2" using k sh by (simp add: numeral_2_eq_2)
      then show ?thesis using data(3) 3 sh a by (auto simp: allowed_data [OF assms(3)])
    next
      case 4
      then have "bit (fill_access_bits c l user rw s) 3" using k sh by (simp add: numeral_3_eq_3)
      then show ?thesis using data(4) 4 sh a by (auto simp: allowed_data [OF assms(3)])
    qed
  qed
  then show ?thesis using walk by (simp add: finish_walk_rule same)
qed


lemma rights_sound_fetch:
  assumes "cr0_PG s" and walk: "finish_walk wide w user BX_EXECUTE s = Inr c"
    and same: "cr0_WP s' = cr0_WP s" "cr4_SMEP s' = cr4_SMEP s" "cr4_SMAP s' = cr4_SMAP s" "cr4_PGE s' = cr4_PGE s"
    and hit: "fill_access_bits c l user BX_EXECUTE s AND push_bit (of_bool user') 1 \<noteq> 0"
  shows "finish_walk wide w user' BX_EXECUTE s' = Inr c"
proof -
  note data = fetch_rights [OF assms(1), of c l user, unfolded combined_user_bit [OF walk]]
  have e: "\<not> is_shadow_stack BX_EXECUTE" "\<not> is_write BX_EXECUTE" by (simp_all add: is_shadow_stack_def is_write_def bit_numeral_rec)
  have k: "bit (fill_access_bits c l user BX_EXECUTE s) (of_bool user')"
    using hit by (subst (asm) and_bit_test(1)) simp_all
  show ?thesis
  proof (cases user')
    case True
    then show ?thesis using data(2) k walk e by (auto simp: finish_walk_rule access_allowed_def Let_def same)
  next
    case False
    then show ?thesis using data(1) k walk e by (auto simp: finish_walk_rule access_allowed_def Let_def same)
  qed
qed

text \<open>C26: The permission check of a page walk, which looks the privilege combination up in a table, allows exactly the accesses that the architecture allows: the U/S
  and R/W bits of the leaf and of the entries above it, CR0.WP, execute-disable, SMEP, SMAP with EFLAGS.AC, and shadow-stack pages. Otherwise it
  reports a protection fault.\<close>

theorem page_permissions:
  "check_leaf_entry_faults leaf combined user rw nx s =
     (if access_allowed leaf combined user rw nx (cr0_WP s) (cr4_SMEP s) (cr4_SMAP s) (eflags_AC s)
      then Inr (combined AND ucast leaf) else Inl ERROR_PROTECTION)"
  by (rule leaf_check_rule)

text \<open>C27: The rights cached in a TLB entry are sound. If an access that the walk allowed filled the entry, then every access that hits the
  entry later, of either privilege and any kind, is one that the walk of the same tables would allow, with the same combined
  rights: the cache never skips a fault. CR0.WP, SMEP, SMAP and PGE are those of the filling access (changing them flushes the TLB);
  EFLAGS.AC, which programs change freely, may differ.\<close>

theorem tlb_rights_sound:
  assumes "cr0_PG s" and "finish_walk wide w user rw s = Inr c"
    and "cr0_WP s' = cr0_WP s" "cr4_SMEP s' = cr4_SMEP s" "cr4_SMAP s' = cr4_SMAP s" "cr4_PGE s' = cr4_PGE s"
    and "if rw = BX_EXECUTE then rw' = BX_EXECUTE \<and> fill_access_bits c l user rw s AND push_bit (of_bool user') 1 \<noteq> 0
         else rw' \<noteq> BX_EXECUTE \<and> fill_access_bits c l user rw s AND access_bit user' rw' \<noteq> 0"
  shows "finish_walk wide w user' rw' s' = Inr c"
  using rights_sound_data [OF assms(1) _ _ assms(2-6)] rights_sound_fetch [OF assms(1) _ assms(3-6)] assms(2,7)
  by (cases "rw = BX_EXECUTE") auto

text \<open>A user read of a writable user page leaves a right that a supervisor read with EFLAGS.AC uses only without SMAP.\<close>

theorem tlb_rights_sound_witness:
  "finish_walk id \<lparr>w_path = [(0x1000, 0x67)], w_ppf = 0x5000, w_mask = 0xfff, w_combined = 0x6, w_nx = False\<rparr> False BX_READ
      (demo_cpu\<lparr>cr4_SMAP := False, eflags_AC := True\<rparr>) = Inr 0x6"
proof -
  have e: "\<not> is_shadow_stack BX_READ" "\<not> is_write BX_READ" by (simp_all add: is_shadow_stack_def is_write_def)
  show ?thesis
    by (rule tlb_rights_sound [where user = True and rw = BX_READ and s = "demo_cpu\<lparr>cr4_SMAP := False\<rparr>" and l = "0x5000"])
      (simp_all add: demo_cpu_on_def Let_def finish_walk_rule access_allowed_def fill_access_bits_def access_bit_def e bit_numeral_rec)
qed

end
