(* ===== verification/Paging_Walk.thy ===== *)
theory Paging_Walk
  imports Tlb_Rights
begin

text \<open>
  The page walk seen from outside. The locale \<open>entry_memory\<close> states what the walker needs of physical
  memory where the tables lie: a read has no effect, and a write is seen by later reads of its own address only.
  Under these laws the updates of a walk set exactly the accessed bits of its path and the dirty bit of its leaf, and the
  locale \<open>table_memory\<close> adds the walkers of 64-bit entries: they read nothing but entries, their outcome does not depend on
  accessed and dirty bits, and a translation can be repeated with the same result and no further write.
\<close>

section \<open>Accessed and dirty bits of an entry\<close>

abbreviation (input) "AD \<equiv> 0x60 :: 'e::len word"

lemma flag_bits: "(0x20 :: 'e::len word) = shl1 5" "(0x40 :: 'e word) = shl1 6" "(0x60 :: 'e word) = shl1 5 OR shl1 6"
proof -
  show 20: "(0x20 :: 'e::len word) = shl1 5" "(0x40 :: 'e word) = shl1 6" by (simp_all add: shl1_def)
  have "(0x20 :: 'e word) OR 0x40 = 0x60" by simp
  then show "(0x60 :: 'e word) = shl1 5 OR shl1 6" by (simp only: 20)
qed

lemma flag_set: "(e :: 'e::len word) AND 0x20 \<noteq> 0 \<Longrightarrow> e OR 0x20 = e" "e AND 0x40 \<noteq> 0 \<Longrightarrow> e OR 0x40 = e"
  unfolding flag_bits and_shl1 by (auto intro!: bit_word_eqI simp: bit_or_iff split: if_splits)

definition flags_for :: "bool \<Rightarrow> bool \<Rightarrow> 'e::len word" where
  "flags_for accessed dirty = (if accessed then 0x20 else 0) OR (if dirty then 0x40 else 0)"

lemma flags_for_AD: "flags_for a d AND NOT AD = (0 :: 'e::len word)"
  unfolding flags_for_def flag_bits by (auto intro!: bit_word_eqI simp: bit_and_iff bit_or_iff bit_not_iff)

section \<open>Memory that holds table entries\<close>

locale entry_memory =
  fixes rd :: "u64 \<Rightarrow> 'm \<Rightarrow> 'e::len word \<times> 'm"
    and wr :: "u64 \<Rightarrow> 'e word \<Rightarrow> 'm \<Rightarrow> 'm"
    and ok :: "u64 \<Rightarrow> 'm \<Rightarrow> bool"
  assumes rd_pure: "ok a m \<Longrightarrow> snd (rd a m) = m"
    and rd_wr: "ok a m \<Longrightarrow> ok b m \<Longrightarrow> fst (rd b (wr a v m)) = (if b = a then v else fst (rd b m))"
    and ok_wr: "ok a m \<Longrightarrow> ok b (wr a v m) = ok b m"
begin

text \<open>The entry at an address.\<close>

definition entry :: "u64 \<Rightarrow> 'm \<Rightarrow> 'e word" where
  "entry a m = fst (rd a m)"

lemma rd_entry: "ok a m \<Longrightarrow> rd a m = (entry a m, m)"
  using rd_pure [of a m] by (simp add: entry_def prod_eq_iff)

lemma entry_wr: "ok a m \<Longrightarrow> ok b m \<Longrightarrow> entry b (wr a v m) = (if b = a then v else entry b m)"
  by (simp add: entry_def rd_wr)

text \<open>The path of a walk in memory.\<close>

definition on_path :: "(u64 \<times> 'e word) list \<Rightarrow> 'm \<Rightarrow> bool" where
  "on_path path m \<longleftrightarrow> (\<forall>(a, e) \<in> set path. ok a m \<and> e = entry a m)"

text \<open>Memory \<open>m\<close> is \<open>m0\<close> with the accessed bits of the entries in \<open>S\<close> and the dirty bits of those in \<open>D\<close> set.\<close>

definition flagged :: "u64 set \<Rightarrow> u64 set \<Rightarrow> 'm \<Rightarrow> 'm \<Rightarrow> bool" where
  "flagged S D m0 m \<longleftrightarrow> (\<forall>b. ok b m = ok b m0)
     \<and> (\<forall>b. ok b m0 \<longrightarrow> entry b m = entry b m0 OR flags_for (b \<in> S) (b \<in> D))"

lemma flagged_entry: "flagged S D m0 m \<Longrightarrow> ok b m0 \<Longrightarrow> entry b m = entry b m0 OR flags_for (b \<in> S) (b \<in> D)"
  by (simp add: flagged_def)

lemma flagged_refl: "flagged {} {} m m"
  by (simp add: flagged_def flags_for_def)

lemma flagged_wr:
  assumes "flagged S D m0 m" "ok a m0" "v OR flags_for (a \<in> S) (a \<in> D) = entry a m0 OR flags_for (a \<in> S') (a \<in> D')"
    "v OR flags_for (a \<in> S) (a \<in> D) = v" "\<forall>b. b \<noteq> a \<longrightarrow> (b \<in> S' \<longleftrightarrow> b \<in> S) \<and> (b \<in> D' \<longleftrightarrow> b \<in> D)"
  shows "flagged S' D' m0 (wr a v m)"
  using assms ok_wr [of a m] by (auto simp: flagged_def entry_wr)

lemma set_accessed_flagged:
  assumes "flagged S {} m0 m" "ok a m0"
  shows "flagged (insert a S) {} m0 (set_accessed wr (a, entry a m0) m)"
proof (cases "entry a m0 AND 0x20 = 0")
  case True
  then have "set_accessed wr (a, entry a m0) m = wr a (entry a m0 OR 0x20) m" by (simp add: set_accessed_def)
  then show ?thesis using assms by (auto simp: flags_for_def or.assoc intro: flagged_wr)
next
  case False
  then have "set_accessed wr (a, entry a m0) m = m" by (simp add: set_accessed_def)
  then show ?thesis using assms(1) flag_set(1) [OF False] by (auto simp: flagged_def flags_for_def)
qed

lemma fold_set_accessed:
  assumes "on_path ps m0" "flagged S {} m0 m"
  shows "flagged (S \<union> fst ` set ps) {} m0 (fold (set_accessed wr) ps m)"
  using assms
proof (induction ps arbitrary: m S)
  case (Cons p ps)
  obtain a where p: "p = (a, entry a m0)" "ok a m0" using Cons.prems(1) by (cases p) (auto simp: on_path_def)
  have "on_path ps m0" using Cons.prems(1) by (simp add: on_path_def)
  from Cons.IH [OF this set_accessed_flagged [OF Cons.prems(2) p(2)]] show ?case by (simp add: p(1) Un_commute)
qed simp

lemma update_leaf_flagged:
  assumes "flagged S {} m0 m" "ok a m0"
  shows "flagged (insert a S) (if isWrite then {a} else {}) m0 (update_leaf wr (a, entry a m0) isWrite m)"
proof -
  let ?e = "entry a m0"
  let ?d = "isWrite \<and> ?e AND 0x40 = 0"
  show ?thesis
  proof (cases "?e AND 0x20 = 0 \<or> ?d")
    case True
    then have u: "update_leaf wr (a, ?e) isWrite m = wr a (?e OR 0x20 OR (if ?d then 0x40 else 0)) m"
      by (simp add: update_leaf_def Let_def)
    have d: "?e OR (if ?d then 0x40 else 0) = ?e OR (if isWrite then 0x40 else 0)"
      using flag_set(2) [of ?e] by auto
    then have v: "?e OR 0x20 OR (if ?d then 0x40 else 0) = ?e OR 0x20 OR (if isWrite then 0x40 else 0)"
      by (simp only: or.left_commute [of _ "0x20"] d)
    have absorb: "(x OR 0x20 OR y) OR flags_for b False = x OR 0x20 OR y" for x y :: "'e word" and b
      by (cases b) (auto simp: flags_for_def bit_or_iff intro!: bit_word_eqI)
    show ?thesis unfolding u v
    proof (rule flagged_wr [OF assms])
      show "(?e OR 0x20 OR (if isWrite then 0x40 else 0)) OR flags_for (a \<in> S) (a \<in> {})
          = ?e OR flags_for (a \<in> insert a S) (a \<in> (if isWrite then {a} else {}))"
        unfolding empty_iff absorb by (simp add: flags_for_def or.assoc)
    qed (simp_all add: absorb)
  next
    case False
    then have "update_leaf wr (a, ?e) isWrite m = m" by (auto simp: update_leaf_def Let_def)
    moreover have "?e OR 0x20 = ?e" using False flag_set(1) by blast
    moreover have "isWrite \<Longrightarrow> ?e OR 0x40 = ?e" using False flag_set(2) by blast
    ultimately show ?thesis using assms(1) by (auto simp: flagged_def flags_for_def or.assoc [symmetric])
  qed
qed

text \<open>The whole update after a walk.\<close>

lemma path_flagged:
  assumes "on_path path m" "path \<noteq> []"
  shows "flagged (fst ` set path) (if isWrite then {fst (last path)} else {}) m
    (update_leaf wr (last path) isWrite (fold (set_accessed wr) (butlast path) m))"
proof -
  have "on_path (butlast path) m" using assms(1) by (auto simp: on_path_def dest: in_set_butlastD)
  from fold_set_accessed [OF this flagged_refl]
  have f: "flagged (fst ` set (butlast path)) {} m (fold (set_accessed wr) (butlast path) m)" by simp
  have "last path \<in> set path" using assms(2) by simp
  from bspec [OF assms(1) [unfolded on_path_def] this]
  obtain a where a: "last path = (a, entry a m)" "ok a m" by (cases "last path") auto
  have "set path = insert (last path) (set (butlast path))" using assms(2)
    by (cases path rule: rev_cases) auto
  then have "fst ` set path = insert a (fst ` set (butlast path))" by (simp add: a(1))
  then show ?thesis using update_leaf_flagged [OF f a(2), of isWrite] by (simp only: a(1) fst_conv)
qed

text \<open>Where the bits are set already nothing is written.\<close>

lemma update_idle:
  assumes "\<forall>(a, e) \<in> set path. e AND 0x20 \<noteq> 0" "path \<noteq> []" "isWrite \<longrightarrow> snd (last path) AND 0x40 \<noteq> 0"
  shows "update_leaf wr (last path) isWrite (fold (set_accessed wr) (butlast path) m) = m"
proof -
  have "fold (set_accessed wr) ps m = m" if "set ps \<subseteq> set path" for ps
    using that assms(1) by (induction ps) (auto simp: set_accessed_def)
  then have "fold (set_accessed wr) (butlast path) m = m" by (meson in_set_butlastD subsetI)
  moreover have "snd (last path) AND 0x20 \<noteq> 0" using assms(1,2) last_in_set [of path] by (auto simp: split_beta)
  ultimately show ?thesis using assms(3) by (auto simp: update_leaf_def Let_def split_beta)
qed

end


section \<open>The walkers of 64-bit entries\<close>

lemma keeps_mask:
  fixes e e' k d :: "'a::len word"
  assumes "e' AND NOT d = e AND NOT d" "k AND d = 0"
  shows "e' AND k = e AND k"
proof -
  have "NOT d AND k = k" using assms(2) [unfolded and_eq_0_iff_bits]
    by (intro bit_word_eqI) (auto simp: bit_and_iff bit_not_iff)
  then show ?thesis using assms(1) by (metis and.assoc)
qed

definition no_AD :: "u64 \<Rightarrow> bool" where
  "no_AD reserved \<longleftrightarrow> reserved AND AD = 0"

lemma check_entry_cong:
  assumes "e' AND NOT AD = e AND NOT AD" "no_AD reserved"
  shows "check_entry_PAE p1 leaf e' reserved = check_entry_PAE p1 leaf e reserved" "entry_NX e' = entry_NX e"
    "e' AND 0x000ffffffffff000 = e AND 0x000ffffffffff000" "e' AND 0x80 = e AND 0x80"
  using keeps_mask [OF assms(1), of 1] keeps_mask [OF assms(1), of reserved] keeps_mask [OF assms(1), of "0x80"]
    keeps_mask [OF assms(1), of PAGE_DIRECTORY_NX_BIT] keeps_mask [OF assms(1), of "0x000ffffffffff000"] assms(2)
  by (simp_all add: check_entry_PAE_def entry_NX_def no_AD_def PAGE_DIRECTORY_NX_BIT_def)

lemma PDE2M_cong:
  assumes "e' AND NOT AD = e AND NOT AD"
  shows "e' AND PAGING_PAE_PDE2M_RESERVED_BITS = e AND PAGING_PAE_PDE2M_RESERVED_BITS"
    "e' AND 0x000fffffffe00000 = e AND 0x000fffffffe00000"
proof -
  have "PAGING_PAE_PDE2M_RESERVED_BITS AND AD = 0" by code_simp
  from keeps_mask [OF assms this]
  show "e' AND PAGING_PAE_PDE2M_RESERVED_BITS = e AND PAGING_PAE_PDE2M_RESERVED_BITS" .
  show "e' AND 0x000fffffffe00000 = e AND 0x000fffffffe00000" by (rule keeps_mask [OF assms]) simp
qed

text \<open>The combined rights are two bits.\<close>

definition two_bits :: "u32 \<Rightarrow> bool" where
  "two_bits ca \<longleftrightarrow> ca AND 0x6 = ca"

lemma combined_cong:
  fixes e e' :: u64
  assumes "e' AND NOT AD = e AND NOT AD" "two_bits ca"
  shows "ca AND ucast e' = ca AND ucast e" "two_bits (ca AND x)"
proof -
  have "ucast (e' AND 0x6) = (ucast (e AND 0x6) :: u32)" by (simp add: keeps_mask [OF assms(1)])
  then have "0x6 AND ucast e' = (0x6 AND ucast e :: u32)" by (simp add: and.commute unsigned_and_eq)
  then show "ca AND ucast e' = ca AND ucast e" using assms(2) unfolding two_bits_def by (metis and.assoc)
  show "two_bits (ca AND x)" using assms(2) unfolding two_bits_def by (metis and.assoc and.commute)
qed


text \<open>One level of a walk, once its entry is read.\<close>

definition entry_addr :: "nat \<Rightarrow> u64 \<Rightarrow> u64 \<Rightarrow> u64" where
  "entry_addr leaf laddr fr = fr + (drop_bit (9 + 9 * leaf) laddr AND 0xff8)"

definition walk_end :: "(u64 \<times> u64) list \<Rightarrow> u64 \<Rightarrow> u32 \<Rightarrow> u32 \<Rightarrow> bool \<Rightarrow> u64 pg_walk" where
  "walk_end path frame mk ca nx = \<lparr>w_path = path, w_ppf = frame, w_mask = mk, w_combined = ca, w_nx = nx\<rparr>"

lemma walk_end_simps [simp]:
  "w_path (walk_end path frame mk ca nx) = path" "w_ppf (walk_end path frame mk ca nx) = frame"
  "w_mask (walk_end path frame mk ca nx) = mk" "w_combined (walk_end path frame mk ca nx) = ca" "w_nx (walk_end path frame mk ca nx) = nx"
  by (simp_all add: walk_end_def)

lemma long_walk_step:
  assumes "read_physical_qword P (entry_addr leaf laddr fr) m = (e, m1)"
  shows "long_mode_walk P p1 laddr res leaf fr om ca nx path m =
    (let path' = path @ [(entry_addr leaf laddr fr, e)]; om' = drop_bit 9 om; nx' = (nx \<or> entry_NX e); frame = e AND 0x000ffffffffff000
     in case check_entry_PAE p1 leaf e res of
          Some fault \<Rightarrow> (Inl fault, m1)
        | None \<Rightarrow>
            (case leaf of
               0 \<Rightarrow> (Inr (walk_end path' frame 0xfff ca nx'), m1)
             | Suc leaf' \<Rightarrow>
                 (if e AND 0x80 \<noteq> 0
                  then let frame = frame AND 0x000fffffffffe000
                       in if frame AND om' \<noteq> 0 then (Inl (ERROR_RESERVED OR ERROR_PROTECTION), m1)
                          else (Inr (walk_end path' frame (ucast om') ca nx'), m1)
                  else long_mode_walk P p1 laddr res leaf' frame om' (ca AND ucast e) nx' path' m1)))"
  using assms unfolding entry_addr_def
  by (subst long_mode_walk.simps) (simp only: Let_def walk_end_def prod.case)

lemma PAE_walk_step:
  assumes "read_physical_qword P (entry_addr leaf laddr fr) m = (e, m1)"
  shows "PAE_walk P p1 laddr res leaf fr ca nx path m =
    (let path' = path @ [(entry_addr leaf laddr fr, e)]; nx' = (nx \<or> entry_NX e); frame = e AND 0x000ffffffffff000
     in case check_entry_PAE p1 leaf e res of
          Some fault \<Rightarrow> (Inl fault, m1)
        | None \<Rightarrow>
            (case leaf of
               0 \<Rightarrow> (Inr (walk_end path' frame 0xfff ca nx'), m1)
             | Suc leaf' \<Rightarrow>
                 (if e AND 0x80 \<noteq> 0
                  then (if e AND PAGING_PAE_PDE2M_RESERVED_BITS \<noteq> 0 then (Inl (ERROR_RESERVED OR ERROR_PROTECTION), m1)
                        else (Inr (walk_end path' (e AND 0x000fffffffe00000) 0x1fffff ca nx'), m1))
                  else PAE_walk P p1 laddr res leaf' frame (ca AND ucast e) nx' path' m1)))"
  using assms unfolding entry_addr_def
  by (subst PAE_walk.simps) (simp only: Let_def walk_end_def prod.case)

lemma long_walk_prefix:
  "fst (long_mode_walk P p1 laddr res leaf fr om ca nx path m) = Inr w \<Longrightarrow>
     \<exists>e rest. w_path w = path @ (entry_addr leaf laddr fr, e) # rest"
proof (induction leaf arbitrary: fr om ca nx path m)
  case (0 fr om ca nx path m)
  obtain e m1 where r: "read_physical_qword P (entry_addr 0 laddr fr) m = (e, m1)" by fastforce
  show ?case using 0 by (auto simp: long_walk_step [OF r] Let_def split: option.splits)
next
  case (Suc leaf fr om ca nx path m)
  obtain e m1 where r: "read_physical_qword P (entry_addr (Suc leaf) laddr fr) m = (e, m1)" by fastforce
  show ?case using Suc.prems Suc.IH
    by (fastforce simp: long_walk_step [OF r] Let_def split: option.splits if_splits)
qed

lemma PAE_walk_prefix:
  "fst (PAE_walk P p1 laddr res leaf fr ca nx path m) = Inr w \<Longrightarrow>
     \<exists>e rest. w_path w = path @ (entry_addr leaf laddr fr, e) # rest"
proof (induction leaf arbitrary: fr ca nx path m)
  case (0 fr ca nx path m)
  obtain e m1 where r: "read_physical_qword P (entry_addr 0 laddr fr) m = (e, m1)" by fastforce
  show ?case using 0 by (auto simp: PAE_walk_step [OF r] Let_def split: option.splits)
next
  case (Suc leaf fr ca nx path m)
  obtain e m1 where r: "read_physical_qword P (entry_addr (Suc leaf) laddr fr) m = (e, m1)" by fastforce
  show ?case using Suc.prems Suc.IH
    by (fastforce simp: PAE_walk_step [OF r] Let_def split: option.splits if_splits)
qed

definition same_walk :: "u64 pg_walk \<Rightarrow> u64 pg_walk \<Rightarrow> bool" where
  "same_walk w w2 \<longleftrightarrow> w_ppf w2 = w_ppf w \<and> w_mask w2 = w_mask w \<and> w_combined w2 = w_combined w \<and> w_nx w2 = w_nx w"

locale table_memory = entry_memory "read_physical_qword P" "write_physical_qword P" ok
  for P :: "'m phys_mem" and ok :: "u64 \<Rightarrow> 'm \<Rightarrow> bool"
begin

text \<open>A walk reads the entries of its path, and two memories that differ in accessed and dirty bits only give the same walk.\<close>

definition like :: "'m \<Rightarrow> 'm \<Rightarrow> bool" where
  "like m m2 \<longleftrightarrow> (\<forall>b. ok b m2 = ok b m) \<and> (\<forall>b. ok b m \<longrightarrow> entry b m2 AND NOT AD = entry b m AND NOT AD)"

lemma like_read:
  assumes "like m m2" "ok a m"
  obtains e e2 where "read_physical_qword P a m = (e, m)" "read_physical_qword P a m2 = (e2, m2)"
    "e2 AND NOT AD = e AND NOT AD" "e = entry a m" "e2 = entry a m2"
  using assms rd_entry [of a m] rd_entry [of a m2] by (auto simp: like_def)

lemma long_walk_like:
  assumes "long_mode_walk P p1 laddr res leaf fr om ca nx path m = (Inr w, m')" "\<forall>(a, e) \<in> set (w_path w). ok a m"
    and "like m m2" "no_AD res" "two_bits ca"
  shows "m' = m \<and> two_bits (w_combined w) \<and> (\<exists>rest w2. w_path w = path @ rest \<and> rest \<noteq> [] \<and> on_path rest m
    \<and> long_mode_walk P p1 laddr res leaf fr om ca nx path2 m2 = (Inr w2, m2)
    \<and> w_path w2 = path2 @ map (\<lambda>(a, e). (a, entry a m2)) rest \<and> same_walk w w2)"
  using assms
proof (induction leaf arbitrary: fr om ca nx path path2)
  case (0 fr om ca nx path path2)
  obtain x rest where "w_path w = path @ (entry_addr 0 laddr fr, x) # rest" using long_walk_prefix "0.prems"(1) by (metis fst_conv)
  then have a: "ok (entry_addr 0 laddr fr) m" using "0.prems"(2) by auto
  then obtain e e2 where r: "read_physical_qword P (entry_addr 0 laddr fr) m = (e, m)"
    "read_physical_qword P (entry_addr 0 laddr fr) m2 = (e2, m2)" "e2 AND NOT AD = e AND NOT AD"
    "e = entry (entry_addr 0 laddr fr) m" "e2 = entry (entry_addr 0 laddr fr) m2" by (rule like_read [OF "0.prems"(3)])
  note c = check_entry_cong [OF r(3) "0.prems"(4)]
  note step = long_walk_step [OF r(1), of p1 res om ca nx path] long_walk_step [OF r(2), of p1 res om ca nx path2]
  have none: "check_entry_PAE p1 0 e res = None"
    using "0.prems"(1) by (simp add: step(1) Let_def split: option.splits)
  have w: "w = walk_end (path @ [(entry_addr 0 laddr fr, e)]) (e AND 0x000ffffffffff000) 0xfff ca (nx \<or> entry_NX e)" "m' = m"
    using "0.prems"(1) by (simp_all add: step(1) Let_def none)
  have w2: "long_mode_walk P p1 laddr res 0 fr om ca nx path2 m2 =
      (Inr (walk_end (path2 @ [(entry_addr 0 laddr fr, e2)]) (e AND 0x000ffffffffff000) 0xfff ca (nx \<or> entry_NX e)), m2)"
    by (simp add: step(2) Let_def none c)
  have "on_path [(entry_addr 0 laddr fr, e)] m" using a r(4) by (simp add: on_path_def)
  then show ?case using "0.prems"(5) r(5) by (auto simp: w w2 same_walk_def)
next
  case (Suc leaf fr om ca nx path path2)
  let ?a = "entry_addr (Suc leaf) laddr fr"
  obtain x rest where "w_path w = path @ (?a, x) # rest" using long_walk_prefix Suc.prems(1) by (metis fst_conv)
  then have a: "ok ?a m" using Suc.prems(2) by auto
  then obtain e e2 where r: "read_physical_qword P ?a m = (e, m)" "read_physical_qword P ?a m2 = (e2, m2)"
    "e2 AND NOT AD = e AND NOT AD" "e = entry ?a m" "e2 = entry ?a m2" by (rule like_read [OF Suc.prems(3)])
  note c = check_entry_cong [OF r(3) Suc.prems(4)] combined_cong [OF r(3) Suc.prems(5)]
  note step = long_walk_step [OF r(1), of p1 res om ca nx path] long_walk_step [OF r(2), of p1 res om ca nx path2]
  have none: "check_entry_PAE p1 (Suc leaf) e res = None"
    using Suc.prems(1) by (simp add: step(1) Let_def split: option.splits)
  show ?case
  proof (cases "e AND 0x80 = 0")
    case False
    let ?f = "e AND 0x000fffffffffe000"
    have ff: "(e AND 0x000ffffffffff000) AND 0x000fffffffffe000 = ?f" by (simp add: and.assoc)
    have f: "?f AND drop_bit 9 om = 0" using Suc.prems(1) False
      by (simp add: step(1) Let_def none ff split: if_splits)
    have w: "w = walk_end (path @ [(?a, e)]) ?f (ucast (drop_bit 9 om)) ca (nx \<or> entry_NX e)" "m' = m"
      using Suc.prems(1) False by (simp_all add: step(1) Let_def none ff split: if_splits)
    have w2: "long_mode_walk P p1 laddr res (Suc leaf) fr om ca nx path2 m2 =
        (Inr (walk_end (path2 @ [(?a, e2)]) ?f (ucast (drop_bit 9 om)) ca (nx \<or> entry_NX e)), m2)"
      using False f by (simp add: step(2) Let_def none c ff)
    have "on_path [(?a, e)] m" using a r(4) by (simp add: on_path_def)
    then show ?thesis using Suc.prems(5) r(5) by (auto simp: w w2 same_walk_def)
  next
    case True
    let ?walk = "long_mode_walk P p1 laddr res leaf (e AND 0x000ffffffffff000) (drop_bit 9 om) (ca AND ucast e) (nx \<or> entry_NX e)"
    have w: "?walk (path @ [(?a, e)]) m = (Inr w, m')" using Suc.prems(1) True by (simp add: step(1) Let_def none)
    have w2: "long_mode_walk P p1 laddr res (Suc leaf) fr om ca nx path2 m2 = ?walk (path2 @ [(?a, e2)]) m2"
      using True by (simp add: step(2) Let_def c none)
    have "on_path [(?a, e)] m" using a r(4) by (simp add: on_path_def)
    then show ?thesis unfolding w2
      using Suc.IH [OF w Suc.prems(2-4) c(6), of "path2 @ [(?a, e2)]"] r(5)
      by (fastforce simp: on_path_def)
  qed
qed

lemma PAE_walk_like:
  assumes "PAE_walk P p1 laddr res leaf fr ca nx path m = (Inr w, m')" "\<forall>(a, e) \<in> set (w_path w). ok a m"
    and "like m m2" "no_AD res" "two_bits ca"
  shows "m' = m \<and> two_bits (w_combined w) \<and> (\<exists>rest w2. w_path w = path @ rest \<and> rest \<noteq> [] \<and> on_path rest m
    \<and> PAE_walk P p1 laddr res leaf fr ca nx path2 m2 = (Inr w2, m2)
    \<and> w_path w2 = path2 @ map (\<lambda>(a, e). (a, entry a m2)) rest \<and> same_walk w w2)"
  using assms
proof (induction leaf arbitrary: fr ca nx path path2)
  case (0 fr ca nx path path2)
  obtain x rest where "w_path w = path @ (entry_addr 0 laddr fr, x) # rest" using PAE_walk_prefix "0.prems"(1) by (metis fst_conv)
  then have a: "ok (entry_addr 0 laddr fr) m" using "0.prems"(2) by auto
  then obtain e e2 where r: "read_physical_qword P (entry_addr 0 laddr fr) m = (e, m)"
    "read_physical_qword P (entry_addr 0 laddr fr) m2 = (e2, m2)" "e2 AND NOT AD = e AND NOT AD"
    "e = entry (entry_addr 0 laddr fr) m" "e2 = entry (entry_addr 0 laddr fr) m2" by (rule like_read [OF "0.prems"(3)])
  note c = check_entry_cong [OF r(3) "0.prems"(4)]
  note step = PAE_walk_step [OF r(1), of p1 res ca nx path] PAE_walk_step [OF r(2), of p1 res ca nx path2]
  have none: "check_entry_PAE p1 0 e res = None"
    using "0.prems"(1) by (simp add: step(1) Let_def split: option.splits)
  have w: "w = walk_end (path @ [(entry_addr 0 laddr fr, e)]) (e AND 0x000ffffffffff000) 0xfff ca (nx \<or> entry_NX e)" "m' = m"
    using "0.prems"(1) by (simp_all add: step(1) Let_def none)
  have w2: "PAE_walk P p1 laddr res 0 fr ca nx path2 m2 =
      (Inr (walk_end (path2 @ [(entry_addr 0 laddr fr, e2)]) (e AND 0x000ffffffffff000) 0xfff ca (nx \<or> entry_NX e)), m2)"
    by (simp add: step(2) Let_def none c)
  have "on_path [(entry_addr 0 laddr fr, e)] m" using a r(4) by (simp add: on_path_def)
  then show ?case using "0.prems"(5) r(5) by (auto simp: w w2 same_walk_def)
next
  case (Suc leaf fr ca nx path path2)
  let ?a = "entry_addr (Suc leaf) laddr fr"
  obtain x rest where "w_path w = path @ (?a, x) # rest" using PAE_walk_prefix Suc.prems(1) by (metis fst_conv)
  then have a: "ok ?a m" using Suc.prems(2) by auto
  then obtain e e2 where r: "read_physical_qword P ?a m = (e, m)" "read_physical_qword P ?a m2 = (e2, m2)"
    "e2 AND NOT AD = e AND NOT AD" "e = entry ?a m" "e2 = entry ?a m2" by (rule like_read [OF Suc.prems(3)])
  note c = check_entry_cong [OF r(3) Suc.prems(4)] combined_cong [OF r(3) Suc.prems(5)] PDE2M_cong [OF r(3)]
  note step = PAE_walk_step [OF r(1), of p1 res ca nx path] PAE_walk_step [OF r(2), of p1 res ca nx path2]
  have none: "check_entry_PAE p1 (Suc leaf) e res = None"
    using Suc.prems(1) by (simp add: step(1) Let_def split: option.splits)
  have on: "on_path [(?a, e)] m" using a r(4) by (simp add: on_path_def)
  show ?case
  proof (cases "e AND 0x80 = 0")
    case False
    let ?f = "e AND 0x000fffffffe00000"
    have f: "e AND PAGING_PAE_PDE2M_RESERVED_BITS = 0" using Suc.prems(1) False
      by (simp add: step(1) Let_def none split: if_splits)
    have w: "w = walk_end (path @ [(?a, e)]) ?f 0x1fffff ca (nx \<or> entry_NX e)" "m' = m"
      using Suc.prems(1) False by (simp_all add: step(1) Let_def none f)
    have w2: "PAE_walk P p1 laddr res (Suc leaf) fr ca nx path2 m2 =
        (Inr (walk_end (path2 @ [(?a, e2)]) ?f 0x1fffff ca (nx \<or> entry_NX e)), m2)"
      using False f by (simp add: step(2) Let_def none c)
    show ?thesis using on Suc.prems(5) r(5) by (auto simp: w w2 same_walk_def)
  next
    case True
    let ?walk = "PAE_walk P p1 laddr res leaf (e AND 0x000ffffffffff000) (ca AND ucast e) (nx \<or> entry_NX e)"
    have w: "?walk (path @ [(?a, e)]) m = (Inr w, m')" using Suc.prems(1) True by (simp add: step(1) Let_def none)
    have w2: "PAE_walk P p1 laddr res (Suc leaf) fr ca nx path2 m2 = ?walk (path2 @ [(?a, e2)]) m2"
      using True by (simp add: step(2) Let_def c none)
    show ?thesis unfolding w2
      using on Suc.IH [OF w Suc.prems(2-4) c(6), of "path2 @ [(?a, e2)]"] r(5)
      by (fastforce simp: on_path_def)
  qed
qed

end

end
