(* ===== verification/Walk_Bus.thy ===== *)
theory Walk_Bus
  imports Cpu_Bus Paging_Walk Apic_Priority
begin

text \<open>
  A successful translation through tables of 64-bit entries, as a whole: which memory it changes, and that repeating it
  changes nothing more. The laws of \<open>table_memory\<close> hold for the physical memory of the CPU where the entries are
  aligned quadwords of plain RAM outside the window of the local APIC.
\<close>

section \<open>The walk of the current mode\<close>

text \<open>The walk that \<open>page_walk\<close> makes in long mode and with CR4.PAE, and the addresses of its entries.\<close>

definition entry_walk :: "'m phys_mem \<Rightarrow> u64 \<Rightarrow> 'm pg_cpu \<Rightarrow> (u32 + u64 pg_walk) \<times> 'm" where
  "entry_walk P laddr s =
     (if efer_LMA s
      then long_mode_walk P (isa_1g_pages s) laddr (BX_PAGING_PHY_ADDRESS_RESERVED_BITS OR (if efer_NXE s then 0 else PAGE_DIRECTORY_NX_BIT))
             (if cr4_LA57 s then 4 else 3) (cr3 s AND BX_CR3_PAGING_MASK) (push_bit (linaddr_width s) 1 - 1) 0x6 False [] (pg_mem s)
      else case translate_linear_load_PDPTR laddr s of
             Inl fault \<Rightarrow> (Inl fault, pg_mem s)
           | Inr pdpte \<Rightarrow>
               PAE_walk P (isa_1g_pages s) laddr (PAGING_LEGACY_PAE_RESERVED_BITS OR (if efer_NXE s then 0 else PAGE_DIRECTORY_NX_BIT))
                 1 (pdpte AND 0x000ffffffffff000) 0x6 False [] (pg_mem s))"

definition walk_addrs :: "'m phys_mem \<Rightarrow> u64 \<Rightarrow> 'm pg_cpu \<Rightarrow> u64 list" where
  "walk_addrs P laddr s = (case fst (entry_walk P laddr s) of Inl _ \<Rightarrow> [] | Inr w \<Rightarrow> map fst (w_path w))"

text \<open>States that differ at most in the memory, the TLBs, CR2 and the panics.\<close>

definition same_regs :: "'m pg_cpu \<Rightarrow> 'm pg_cpu \<Rightarrow> bool" where
  "same_regs s t \<longleftrightarrow>
     t = s\<lparr>pg_mem := pg_mem t, pg_panics := pg_panics t, DTLB := DTLB t, ITLB := ITLB t, cr2 := cr2 t\<rparr>"

lemma same_regs_fields:
  assumes "same_regs s t"
  shows "efer_LMA t = efer_LMA s" "isa_1g_pages t = isa_1g_pages s" "efer_NXE t = efer_NXE s" "cr4_LA57 t = cr4_LA57 s"
    "cr3 t = cr3 s" "linaddr_width t = linaddr_width s" "PDPTR_CACHE t = PDPTR_CACHE s"
    "cr0_PG t = cr0_PG s" "cr4_PAE t = cr4_PAE s" "cr0_WP t = cr0_WP s" "cr4_SMEP t = cr4_SMEP s" "cr4_SMAP t = cr4_SMAP s"
    "cr4_PGE t = cr4_PGE s" "eflags_AC t = eflags_AC s" "pg_a20_mask t = pg_a20_mask s"
  by (subst assms [unfolded same_regs_def], simp)+

lemma same_regs_load:
  "same_regs s t \<Longrightarrow> translate_linear_load_PDPTR laddr t = translate_linear_load_PDPTR laddr s"
  by (simp add: translate_linear_load_PDPTR_def same_regs_fields)

lemma page_walk_entries:
  assumes "efer_LMA s \<or> cr4_PAE s"
  shows "page_walk P laddr user rw s =
    (let (r, m) = entry_walk P laddr s; s = s\<lparr>pg_mem := m\<rparr>
     in case r of
          Inl fault \<Rightarrow> (Inl fault, s)
        | Inr w \<Rightarrow>
            (case finish_walk id w user rw s of
               Inl fault \<Rightarrow> (Inl fault, s)
             | Inr combined_access \<Rightarrow>
                 (Inr (w_ppf w OR ucast combined_access, w_mask w), update_access_dirty_PAE P (w_path w) (is_write rw) s)))"
proof (cases "efer_LMA s")
  case True
  then show ?thesis
    by (simp add: page_walk_def entry_walk_def translate_linear_long_mode_def split_beta Let_def)
next
  case False
  then show ?thesis using assms
    by (cases "translate_linear_load_PDPTR laddr s")
      (simp_all add: page_walk_def entry_walk_def translate_linear_PAE_def split_beta Let_def)
qed

lemma reserved_no_AD: "no_AD (r OR (if nxe then 0 else PAGE_DIRECTORY_NX_BIT))"
  if "r = BX_PAGING_PHY_ADDRESS_RESERVED_BITS \<or> r = PAGING_LEGACY_PAE_RESERVED_BITS"
proof -
  have "no_AD BX_PAGING_PHY_ADDRESS_RESERVED_BITS" "no_AD PAGING_LEGACY_PAE_RESERVED_BITS"
    "no_AD (BX_PAGING_PHY_ADDRESS_RESERVED_BITS OR PAGE_DIRECTORY_NX_BIT)" "no_AD (PAGING_LEGACY_PAE_RESERVED_BITS OR PAGE_DIRECTORY_NX_BIT)"
    by code_simp+
  then show ?thesis using that by auto
qed

lemma finish_walk_again:
  assumes "finish_walk id w user rw s = Inr c" "same_walk w w2" "two_bits (w_combined w)"
    and "snd (last (w_path w2)) AND NOT AD = snd (last (w_path w)) AND NOT AD"
    and "snd (last (w_path w)) AND 0x40 \<noteq> 0 \<longrightarrow> snd (last (w_path w2)) AND 0x40 \<noteq> 0"
    and "cr0_WP t = cr0_WP s" "cr4_SMEP t = cr4_SMEP s" "cr4_SMAP t = cr4_SMAP s" "cr4_PGE t = cr4_PGE s" "eflags_AC t = eflags_AC s"
  shows "finish_walk id w2 user rw t = Inr c"
proof -
  let ?e = "snd (last (w_path w))" and ?e2 = "snd (last (w_path w2))"
  have c: "w_combined w AND ucast ?e2 = w_combined w AND ucast ?e" by (rule combined_cong [OF assms(4,3)])
  have b: "bit ?e2 k = bit ?e k" if "k \<noteq> 5" "k \<noteq> 6" for k
  proof -
    have "bit (NOT AD :: u64) k \<or> 64 \<le> k" using that unfolding flag_bits by (auto simp: bit_not_iff bit_or_iff)
    moreover have "bit (?e2 AND NOT AD) k = bit (?e AND NOT AD) k" by (simp only: assms(4))
    ultimately show ?thesis using bit_imp_le_length [of ?e k] bit_imp_le_length [of ?e2 k] by (auto simp: bit_and_iff)
  qed
  have d: "bit ?e 6 \<Longrightarrow> bit ?e2 6" using assms(5) unfolding flag_bits(2) by (simp add: tst_shl1 [unfolded tst_def])
  have g: "ucast ?e2 AND (0x100 :: u32) = ucast ?e AND 0x100"
  proof -
    have "(0x100 :: u32) = shl1 8" by (simp add: shl1_def)
    show ?thesis unfolding \<open>0x100 = shl1 8\<close> using b [of 8] by (intro bit_word_eqI) (auto simp: bit_and_iff bit_ucast_iff)
  qed
  show ?thesis using assms(1) d unfolding finish_walk_rule id_apply access_allowed_def Let_def
    by (auto simp: assms(2) [unfolded same_walk_def] assms(6-10) c b g simp del: One_nat_def split: if_splits)
qed

lemma and_42: "(e :: u64) AND 0x42 = 0 \<longleftrightarrow> e AND 0x40 = 0 \<and> e AND 0x02 = 0"
proof -
  have "(0x42 :: u64) = 0x40 OR 0x02" by simp
  then show ?thesis by (simp only: bit.conj_disj_distrib or_eq_0_iff)
qed

context table_memory
begin

lemma entry_walk_like:
  assumes "entry_walk P laddr s = (Inr w, m')" "\<forall>a \<in> set (walk_addrs P laddr s). ok a (pg_mem s)" "like (pg_mem s) (pg_mem t)"
    and "same_regs s t"
  shows "m' = pg_mem s \<and> two_bits (w_combined w) \<and> w_path w \<noteq> [] \<and> on_path (w_path w) (pg_mem s)
    \<and> (\<exists>w2. entry_walk P laddr t = (Inr w2, pg_mem t) \<and> w_path w2 = map (\<lambda>(a, e). (a, entry a (pg_mem t))) (w_path w) \<and> same_walk w w2)"
proof -
  note f = same_regs_fields [OF assms(4)] same_regs_load [OF assms(4)]
  have ok: "\<forall>(a, e) \<in> set (w_path w). ok a (pg_mem s)" using assms(1,2) by (auto simp: walk_addrs_def)
  have ca: "two_bits 0x6" by (simp add: two_bits_def)
  show ?thesis
  proof (cases "efer_LMA s")
    case True
    from long_walk_like [OF assms(1) [unfolded entry_walk_def if_P [OF True]] ok assms(3) reserved_no_AD ca, where ?path2.0 = "[]"]
    show ?thesis using True by (simp add: entry_walk_def f)
  next
    case False
    then obtain pdpte where p: "translate_linear_load_PDPTR laddr s = Inr pdpte"
      using assms(1) by (auto simp: entry_walk_def split: sum.splits)
    from PAE_walk_like [OF assms(1) [unfolded entry_walk_def if_not_P [OF False] p sum.case] ok assms(3) reserved_no_AD ca, where ?path2.0 = "[]"]
    show ?thesis using False by (simp add: entry_walk_def f p)
  qed
qed

lemma flagged_like: "flagged S D m m2 \<Longrightarrow> like m m2"
proof -
  have "(e OR flags_for a d) AND NOT AD = e AND NOT AD" for e :: u64 and a d
    by (simp only: bit.conj_disj_distrib2 flags_for_AD or.right_neutral)
  then show "flagged S D m m2 \<Longrightarrow> like m m2" unfolding flagged_def like_def by metis
qed

lemma flagged_set:
  assumes "flagged S D m m2" "ok a m"
  shows "a \<in> S \<Longrightarrow> entry a m2 AND 0x20 \<noteq> 0" "a \<in> D \<Longrightarrow> entry a m2 AND 0x40 \<noteq> 0" "entry a m AND 0x40 \<noteq> 0 \<Longrightarrow> entry a m2 AND 0x40 \<noteq> 0"
proof -
  have e: "entry a m2 = entry a m OR flags_for (a \<in> S) (a \<in> D)" using assms by (simp add: flagged_def)
  note b = tst_shl1 [unfolded tst_def, where 'a = 64]
  show "a \<in> S \<Longrightarrow> entry a m2 AND 0x20 \<noteq> 0" "a \<in> D \<Longrightarrow> entry a m2 AND 0x40 \<noteq> 0" "entry a m AND 0x40 \<noteq> 0 \<Longrightarrow> entry a m2 AND 0x40 \<noteq> 0"
    unfolding e flags_for_def flag_bits(1,2) by (auto simp: b bit_or_iff)
qed

lemma page_walk_effect:
  assumes "page_walk P laddr user rw s = (Inr r, s')" "efer_LMA s \<or> cr4_PAE s" "\<forall>a \<in> set (walk_addrs P laddr s). ok a (pg_mem s)"
  shows "flagged (set (walk_addrs P laddr s)) (if is_write rw then {last (walk_addrs P laddr s)} else {}) (pg_mem s) (pg_mem s')"
    and "same_regs s s'"
    and "page_walk P laddr user rw s' = (Inr r, s')"
    and "pg_panics s' = pg_panics s @ (if isa_cet s \<and> is_write rw \<and> entry (last (walk_addrs P laddr s)) (pg_mem s) AND 0x42 = 0
      then [''PAE: asked to set dirty on paging leaf entry with R/W bit clear''] else [])"
proof -
  obtain q m where q: "entry_walk P laddr s = (q, m)" by fastforce
  obtain w where "q = Inr w" using assms(1) unfolding page_walk_entries [OF assms(2)] q by (cases q) simp_all
  note q = q [unfolded this]
  from entry_walk_like [OF q assms(3), of s]
  have m: "m = pg_mem s" "two_bits (w_combined w)" "w_path w \<noteq> []" "on_path (w_path w) (pg_mem s)"
    by (simp_all add: like_def same_regs_def)
  have addrs: "walk_addrs P laddr s = map fst (w_path w)" by (simp add: walk_addrs_def q)
  obtain c where c: "finish_walk id w user rw (s\<lparr>pg_mem := m\<rparr>) = Inr c"
    and r: "r = (w_ppf w OR ucast c, w_mask w)" and s': "s' = update_access_dirty_PAE P (w_path w) (is_write rw) (s\<lparr>pg_mem := m\<rparr>)"
    using assms(1) unfolding page_walk_entries [OF assms(2)] q by (auto simp: Let_def split: sum.splits)
  have mem: "pg_mem s' = update_leaf (write_physical_qword P) (last (w_path w)) (is_write rw)
      (fold (set_accessed (write_physical_qword P)) (butlast (w_path w)) (pg_mem s))"
    by (simp add: s' m update_access_dirty_PAE_def dirty_panic_def pg_panic_def Let_def split_beta)
  from path_flagged [OF m(4,3), of "is_write rw"]
  show fl: "flagged (set (walk_addrs P laddr s)) (if is_write rw then {last (walk_addrs P laddr s)} else {}) (pg_mem s) (pg_mem s')"
    unfolding mem addrs set_map last_map [OF m(3)] .
  show upd: "same_regs s s'"
    by (simp add: same_regs_def s' m update_access_dirty_PAE_def dirty_panic_def pg_panic_def Let_def split_beta)
  from entry_walk_like [OF q assms(3) flagged_like [OF fl] upd] obtain w2 where
    w2: "entry_walk P laddr s' = (Inr w2, pg_mem s')" "w_path w2 = map (\<lambda>(a, e). (a, entry a (pg_mem s'))) (w_path w)" "same_walk w w2"
    by blast
  have leaf: "last (w_path w2) = (fst (last (w_path w)), entry (fst (last (w_path w))) (pg_mem s'))"
    using m(3) by (simp add: w2(2) last_map split_beta)
  have last: "ok (fst (last (w_path w))) (pg_mem s)" "snd (last (w_path w)) = entry (fst (last (w_path w))) (pg_mem s)"
    using m(3,4) by (auto simp: on_path_def split_beta)
  have last_addr: "last (walk_addrs P laddr s) = fst (last (w_path w))" using m(3) by (simp add: addrs last_map)
  show "pg_panics s' = pg_panics s @ (if isa_cet s \<and> is_write rw \<and> entry (last (walk_addrs P laddr s)) (pg_mem s) AND 0x42 = 0
      then [''PAE: asked to set dirty on paging leaf entry with R/W bit clear''] else [])"
    unfolding last_addr and_42 last(2) [symmetric]
    by (simp add: s' update_access_dirty_PAE_def dirty_panic_def pg_panic_def Let_def split_beta)
  have "finish_walk id w2 user rw s' = Inr c"
  proof (rule finish_walk_again [OF c w2(3) m(2)])
    show "snd (last (w_path w2)) AND NOT AD = snd (last (w_path w)) AND NOT AD"
      unfolding leaf last(2) snd_conv using flagged_like [OF fl] last(1) unfolding like_def by blast
    show "snd (last (w_path w)) AND 0x40 \<noteq> 0 \<longrightarrow> snd (last (w_path w2)) AND 0x40 \<noteq> 0"
      unfolding leaf last(2) snd_conv using flagged_set(3) [OF fl last(1)] by blast
  qed (simp_all add: same_regs_fields [OF upd])
  moreover have "update_access_dirty_PAE P (w_path w2) (is_write rw) s' = s'"
  proof -
    have d: "is_write rw \<Longrightarrow> snd (last (w_path w2)) AND 0x40 \<noteq> 0"
      using flagged_set(2) [OF fl last(1)] m(3) by (simp add: leaf addrs last_map)
    have "\<forall>(a, e) \<in> set (w_path w2). e AND 0x20 \<noteq> 0"
      using flagged_set(1) [OF fl] m(4) by (force simp: w2(2) addrs on_path_def)
    from update_idle [OF this] show ?thesis using m(3) d
      by (cases "is_write rw") (auto simp: update_access_dirty_PAE_def dirty_panic_def Let_def split_beta w2(2))
  qed
  moreover have mode: "efer_LMA s' \<or> cr4_PAE s'"
    using assms(2) by (simp add: same_regs_fields [OF upd])
  ultimately show "page_walk P laddr user rw s' = (Inr r, s')"
    using w2(3) by (simp add: page_walk_entries [OF mode] w2(1) r same_walk_def)
qed

end

section \<open>Tables of 32-bit entries\<close>

lemma legacy_walk_step:
  assumes "read_physical_dword P (fr + (drop_bit (10 + 10 * leaf) laddr AND 0xffc)) m = (e, m1)"
  shows "legacy_walk P pse laddr leaf fr ca path m =
    (let path = path @ [(fr + (drop_bit (10 + 10 * leaf) laddr AND 0xffc), e)]; frame = ucast (e AND 0xfffff000)
     in if e AND 0x1 = 0 then (Inl ERROR_NOT_PRESENT, m1)
        else case leaf of
               0 \<Rightarrow> (Inr \<lparr>w_path = path, w_ppf = frame, w_mask = 0xfff, w_combined = ca, w_nx = False\<rparr>, m1)
             | Suc leaf' \<Rightarrow>
                 (if e AND 0x80 \<noteq> 0 \<and> pse
                  then (if e AND PAGING_PDE4M_RESERVED_BITS \<noteq> 0 then (Inl (ERROR_RESERVED OR ERROR_PROTECTION), m1)
                        else (Inr \<lparr>w_path = path, w_ppf = ucast (e AND 0xffc00000) OR push_bit 19 (ucast (e AND 0x003fe000)),
                                   w_mask = 0x3fffff, w_combined = ca, w_nx = False\<rparr>, m1))
                  else legacy_walk P pse laddr leaf' frame (ca AND e) path m1))"
  using assms by (subst legacy_walk.simps) (simp only: Let_def prod.case)

lemma legacy_walk_prefix:
  "fst (legacy_walk P pse laddr leaf fr ca path m) = Inr w \<Longrightarrow>
     \<exists>e rest. w_path w = path @ (fr + (drop_bit (10 + 10 * leaf) laddr AND 0xffc), e) # rest"
proof (induction leaf arbitrary: fr ca path m)
  case (0 fr ca path m)
  obtain e m1 where r: "read_physical_dword P (fr + (drop_bit (10 + 10 * 0) laddr AND 0xffc)) m = (e, m1)" by fastforce
  show ?case using 0 unfolding legacy_walk_step [OF r] by (auto simp: Let_def split: if_splits)
next
  case (Suc leaf fr ca path m)
  obtain e m1 where r: "read_physical_dword P (fr + (drop_bit (10 + 10 * Suc leaf) laddr AND 0xffc)) m = (e, m1)" by fastforce
  show ?case using Suc.prems Suc.IH unfolding legacy_walk_step [OF r] by (fastforce simp: Let_def split: if_splits)
qed

definition legacy_addrs :: "'m phys_mem \<Rightarrow> u64 \<Rightarrow> 'm pg_cpu \<Rightarrow> u64 list" where
  "legacy_addrs P laddr s =
     (case fst (legacy_walk P (cr4_PSE s) laddr 1 (ucast (ucast (cr3 s) :: u32) AND BX_CR3_PAGING_MASK) 0x6 [] (pg_mem s)) of
        Inl _ \<Rightarrow> [] | Inr w \<Rightarrow> map fst (w_path w))"

lemma or_combined: "BX_COMBINED_ACCESS_WRITE OR BX_COMBINED_ACCESS_USER = (0x6 :: u32)"
  by simp

locale legacy_memory = entry_memory "read_physical_dword P" "write_physical_dword P" ok
  for P :: "'m phys_mem" and ok :: "u64 \<Rightarrow> 'm \<Rightarrow> bool"
begin

lemma legacy_walk_path:
  assumes "legacy_walk P pse laddr leaf fr ca path m = (Inr w, m')" "\<forall>(a, e) \<in> set (w_path w). ok a m"
  shows "m' = m \<and> (\<exists>rest. w_path w = path @ rest \<and> rest \<noteq> [] \<and> on_path rest m)"
  using assms
proof (induction leaf arbitrary: fr ca path)
  case (0 fr ca path)
  let ?a = "fr + (drop_bit (10 + 10 * 0) laddr AND 0xffc)"
  obtain x rest where "w_path w = path @ (?a, x) # rest" using legacy_walk_prefix "0.prems"(1) by (metis fst_conv)
  then have a: "ok ?a m" using "0.prems"(2) by auto
  have "on_path [(?a, entry ?a m)] m" using a by (simp add: on_path_def)
  then show ?case using "0.prems"(1) unfolding legacy_walk_step [OF rd_entry [OF a]]
    by (auto simp: Let_def split: if_splits)
next
  case (Suc leaf fr ca path)
  let ?a = "fr + (drop_bit (10 + 10 * Suc leaf) laddr AND 0xffc)"
  obtain x rest where "w_path w = path @ (?a, x) # rest" using legacy_walk_prefix Suc.prems(1) by (metis fst_conv)
  then have a: "ok ?a m" using Suc.prems(2) by auto
  have p: "on_path ((?a, entry ?a m) # r) m = on_path r m" for r using a by (simp add: on_path_def)
  have nil: "on_path [] m" by (simp add: on_path_def)
  show ?case using Suc.prems(1) Suc.IH [OF _ Suc.prems(2), where path = "path @ [(?a, entry ?a m)]"] p nil
    unfolding legacy_walk_step [OF rd_entry [OF a]]
    by (fastforce simp: Let_def split: if_splits)
qed

lemma legacy_walk_effect:
  assumes "translate_linear_legacy P laddr user rw s = (Inr r, s')" "\<forall>a \<in> set (legacy_addrs P laddr s). ok a (pg_mem s)"
  shows "flagged (set (legacy_addrs P laddr s)) (if is_write rw then {last (legacy_addrs P laddr s)} else {}) (pg_mem s) (pg_mem s')"
proof -
  obtain q m where q: "legacy_walk P (cr4_PSE s) laddr 1 (ucast (ucast (cr3 s) :: u32) AND BX_CR3_PAGING_MASK) 0x6 [] (pg_mem s) = (q, m)"
    by fastforce
  obtain w where "q = Inr w" using assms(1) unfolding translate_linear_legacy_def q or_combined by (cases q) (simp_all add: Let_def)
  note q = q [unfolded this]
  have addrs: "legacy_addrs P laddr s = map fst (w_path w)" unfolding legacy_addrs_def q by simp
  have m: "m = pg_mem s" "w_path w \<noteq> []" "on_path (w_path w) (pg_mem s)"
    using legacy_walk_path [OF q] assms(2) by (auto simp: addrs split_beta)
  have mem: "pg_mem s' = update_leaf (write_physical_dword P) (last (w_path w)) (is_write rw)
      (fold (set_accessed (write_physical_dword P)) (butlast (w_path w)) (pg_mem s))"
    using assms(1) unfolding translate_linear_legacy_def or_combined q m(1)
    by (auto simp: Let_def update_access_dirty_def dirty_panic_def pg_panic_def split_beta split: sum.splits)
  show ?thesis
    using path_flagged [OF m(3,2), of "is_write rw"] unfolding mem addrs set_map last_map [OF m(2)] .
qed

end

section \<open>The memory of the CPU\<close>

lemma item_ok_write:
  assumes "n = 4 \<or> n = 8" "item_ok n a s"
  shows "item_ok n b (write_physical n a v s) = item_ok n b s"
  using assms by (simp add: ram_write item_ok_def apic_selected_def)

lemma item_read_write:
  fixes v :: "'a::len word"
  assumes "n = 4 \<or> n = 8" "LENGTH('a) \<le> 8 * n" "item_ok n a s" "item_ok n b s"
  shows "fst (read_physical n b (write_physical n a v s)) = (if b = a then v else fst (read_physical n b s))"
proof -
  let ?s = "write_physical n a v s"
  have ok: "item_ok n b ?s" using assms by (simp add: item_ok_write)
  have mem: "vector (cb_mem ?s) = overlay a (bytes_of_word n v) (vector (cb_mem s))" using assms(1,3) by (simp add: ram_write)
  have dvd: "n dvd unat a" "n dvd unat b" using assms(3,4) by (simp_all add: item_ok_def)
  have "vector_read b n (cb_mem ?s) = (if b = a then bytes_of_word n v else vector_read b n (cb_mem s))"
    unfolding vector_read_def mem
    using overlay_aligned [OF assms(1) dvd, where bs = "bytes_of_word n v" and v = "vector (cb_mem s)"]
    by (auto intro!: nth_equalityI)
  then show ?thesis using assms(1,2) ok assms(4) by (simp add: ram_read word_of_bytes_of_word)
qed

lemma member_if: "b \<in> (if c then {x} else {}) \<longleftrightarrow> c \<and> b = x"
  by simp

lemma bus_fields: "read_physical_qword bus_phys = read_physical 8" "read_physical_dword bus_phys = read_physical 4"
  by (simp_all add: bus_phys_def)

lemma item_read_pure: "n = 4 \<or> n = 8 \<Longrightarrow> item_ok n a s \<Longrightarrow> snd (read_physical n a s) = s"
  by (simp add: ram_read)

interpretation bus_legacy: legacy_memory bus_phys "item_ok 4"
  by unfold_locales (simp_all add: bus_phys_def item_read_pure item_ok_write item_read_write)

interpretation bus_tables: table_memory bus_phys "item_ok 8"
  by unfold_locales (simp_all add: bus_phys_def item_read_pure item_ok_write item_read_write)

text \<open>C28: A successful translation through tables of 64-bit entries in RAM (long mode, or CR4.PAE) sets the accessed bit of every entry of its
  walk and, for a write, the dirty bit of the leaf, and changes no other bit of any aligned quadword of RAM; made a second time it
  returns the same address, size and rights and leaves the whole state as it is: the flags just set never alter what a walk decides. No panic is raised. Left
  out is one case, in which the code panics: a processor with CET never sets the dirty bit of an entry whose R/W bit is clear, but a
  supervisor write with CR0.WP clear may reach such a leaf. So on a processor with CET the leaf of a write is writable or dirty already.\<close>

theorem walk_sets_flags:
  assumes "page_walk bus_phys laddr user rw s = (Inr r, s')" and "efer_LMA s \<or> cr4_PAE s"
    and "\<forall>a \<in> set (walk_addrs bus_phys laddr s). item_ok 8 a (pg_mem s)"
    and "isa_cet s \<and> is_write rw \<longrightarrow> (fst (read_physical 8 (last (walk_addrs bus_phys laddr s)) (pg_mem s)) :: u64) AND 0x42 \<noteq> 0"
  shows "page_walk bus_phys laddr user rw s' = (Inr r, s')
    \<and> (\<forall>b. item_ok 8 b (pg_mem s) \<longrightarrow>
        (fst (read_physical 8 b (pg_mem s')) :: u64) = fst (read_physical 8 b (pg_mem s))
          OR (if b \<in> set (walk_addrs bus_phys laddr s) then 0x20 else 0)
          OR (if is_write rw \<and> b = last (walk_addrs bus_phys laddr s) then 0x40 else 0))
    \<and> pg_panics s' = pg_panics s"
proof (intro conjI allI impI)
  show "page_walk bus_phys laddr user rw s' = (Inr r, s')" by (rule bus_tables.page_walk_effect(3) [OF assms(1-3)])
  show "pg_panics s' = pg_panics s"
    using bus_tables.page_walk_effect(4) [OF assms(1-3), unfolded bus_tables.entry_def, unfolded bus_fields] assms(4) by auto
  fix b assume "item_ok 8 b (pg_mem s)"
  from bus_tables.flagged_entry [OF bus_tables.page_walk_effect(1) [OF assms(1-3)] this]
  show "(fst (read_physical 8 b (pg_mem s')) :: u64) = fst (read_physical 8 b (pg_mem s))
      OR (if b \<in> set (walk_addrs bus_phys laddr s) then 0x20 else 0)
      OR (if is_write rw \<and> b = last (walk_addrs bus_phys laddr s) then 0x40 else 0)"
    unfolding bus_tables.entry_def unfolding bus_fields flags_for_def member_if .
qed

text \<open>The case left out: the code panics and, when the user continues, has set the dirty bit of a read-only page.\<close>

theorem dirty_readonly_panics:
  assumes "page_walk bus_phys laddr user rw s = (Inr r, s')" and "efer_LMA s \<or> cr4_PAE s"
    and "\<forall>a \<in> set (walk_addrs bus_phys laddr s). item_ok 8 a (pg_mem s)" and "walk_addrs bus_phys laddr s \<noteq> []"
    and "isa_cet s" "is_write rw" "(fst (read_physical 8 (last (walk_addrs bus_phys laddr s)) (pg_mem s)) :: u64) AND 0x42 = 0"
  shows "pg_panics s' = pg_panics s @ [''PAE: asked to set dirty on paging leaf entry with R/W bit clear'']
    \<and> (fst (read_physical 8 (last (walk_addrs bus_phys laddr s)) (pg_mem s')) :: u64) AND 0x40 \<noteq> 0"
proof
  let ?a = "last (walk_addrs bus_phys laddr s)"
  show "pg_panics s' = pg_panics s @ [''PAE: asked to set dirty on paging leaf entry with R/W bit clear'']"
    using bus_tables.page_walk_effect(4) [OF assms(1-3), unfolded bus_tables.entry_def, unfolded bus_fields] assms(5-7) by simp
  have "item_ok 8 ?a (pg_mem s)" using assms(3,4) last_in_set by blast
  from bus_tables.flagged_set(2) [OF bus_tables.page_walk_effect(1) [OF assms(1-3)] this] assms(6)
  show "(fst (read_physical 8 ?a (pg_mem s')) :: u64) AND 0x40 \<noteq> 0"
    unfolding bus_tables.entry_def unfolding bus_fields by simp
qed

text \<open>The bits with 32-bit entries (a write that runs into the panic described above sets the dirty bit as well).\<close>

theorem legacy_walk_sets_flags:
  assumes "translate_linear_legacy bus_phys laddr user rw s = (Inr r, s')"
    and "\<forall>a \<in> set (legacy_addrs bus_phys laddr s). item_ok 4 a (pg_mem s)" and "item_ok 4 b (pg_mem s)"
  shows "(fst (read_physical 4 b (pg_mem s')) :: u32) = fst (read_physical 4 b (pg_mem s))
    OR (if b \<in> set (legacy_addrs bus_phys laddr s) then 0x20 else 0)
    OR (if is_write rw \<and> b = last (legacy_addrs bus_phys laddr s) then 0x40 else 0)"
  using bus_legacy.flagged_entry [OF bus_legacy.legacy_walk_effect [OF assms(1,2)] assms(3)]
  unfolding bus_legacy.entry_def unfolding bus_fields flags_for_def member_if .

text \<open>A user write through a PML4 entry at 0x1000 and a 1-GByte page at 0x2000.\<close>

definition demo_bus :: "unit cpu_bus" where
  "demo_bus = \<lparr>cb_cfg = \<lparr>apic_id_mask = 0xff, isa_xapic_ext = False, isa_tsc_deadline = True\<rparr>, cb_now = 0, cb_this = 0,
     cb_apics = [new_lapic], cb_smm = False,
     cb_mem = demo_mem\<lparr>vector := (\<lambda>_. 0)(0x1000 := 0x07, 0x1001 := 0x20, 0x2000 := 0x87)\<rparr>, cb_data = replicate 8 0\<rparr>"

lemma new_lapic_base: "lapic_base_addr new_lapic = 0xfee00000"
  by (simp add: new_lapic_def lapic_init_def lapic_reset_def BX_LAPIC_BASE_ADDR_def Let_def)

lemma demo_items: "item_ok 8 0x1000 demo_bus" "item_ok 8 0x2000 demo_bus"
  by (simp_all add: item_ok_def demo_bus_def plain_ram_def demo_mem_def init_memory_def A20ADDR_def bios_addr_def
      apic_selected_def is_selected_def new_lapic_fields new_lapic_base)

lemma demo_entries:
  "read_physical 8 0x1000 demo_bus = (0x2007 :: u64, demo_bus)" "read_physical 8 0x2000 demo_bus = (0x87 :: u64, demo_bus)"
  by (simp_all add: ram_read demo_items) (simp_all add: demo_bus_def vector_read_def upt_rec)

lemma demo_walk: "entry_walk bus_phys 0x1234 (demo_cpu_on demo_bus)
  = (Inr (walk_end [(0x1000, 0x2007), (0x2000, 0x87)] 0 0x3fffffff 0x6 False), demo_bus)"
proof -
  have a: "entry_addr 3 0x1234 0x1000 = 0x1000" "entry_addr 2 0x1234 0x2000 = 0x2000" by (simp_all add: entry_addr_def)
  have r: "read_physical_qword bus_phys (entry_addr 3 0x1234 0x1000) demo_bus = (0x2007, demo_bus)"
    "read_physical_qword bus_phys (entry_addr 2 0x1234 0x2000) demo_bus = (0x87, demo_bus)"
    by (simp_all add: a bus_phys_def demo_entries)
  have c: "check_entry_PAE True 3 0x2007 BX_PAGING_PHY_ADDRESS_RESERVED_BITS = None"
    "check_entry_PAE True 2 0x87 BX_PAGING_PHY_ADDRESS_RESERVED_BITS = None" "\<not> entry_NX 0x2007" "\<not> entry_NX 0x87"
    by code_simp+
  have n: "nat.pred 3 = 2" by (simp add: eval_nat_numeral)
  show ?thesis unfolding entry_walk_def
    by (simp add: n demo_cpu_on_def Let_def BX_CR3_PAGING_MASK_def long_walk_step [OF r(1)] long_walk_step [OF r(2)] c a nat.case_eq_if)
qed

theorem walk_sets_flags_witness:
  "fst (read_physical 8 0x2000 (pg_mem (snd (page_walk bus_phys 0x1234 True BX_WRITE (demo_cpu_on demo_bus))))) = (0xe7 :: u64)"
proof -
  let ?s = "demo_cpu_on demo_bus"
  have m: "pg_mem ?s = demo_bus" "efer_LMA ?s" by (simp_all add: demo_cpu_on_def Let_def)
  have w: "is_write BX_WRITE" "\<not> is_shadow_stack BX_WRITE" by (simp_all add: is_write_def is_shadow_stack_def bit_0)
  have a: "walk_addrs bus_phys 0x1234 ?s = [0x1000, 0x2000]" by (simp add: walk_addrs_def demo_walk)
  have f: "finish_walk id (walk_end [(0x1000, 0x2007), (0x2000, 0x87)] 0 0x3fffffff 0x6 False) True BX_WRITE (?s\<lparr>pg_mem := demo_bus\<rparr>) = Inr 0x6"
    using w by (simp add: finish_walk_rule access_allowed_def Let_def demo_cpu_on_def bit_numeral_rec)
  have "page_walk bus_phys 0x1234 True BX_WRITE ?s = (Inr (0x6, 0x3fffffff), snd (page_walk bus_phys 0x1234 True BX_WRITE ?s))"
    using f by (simp add: page_walk_entries m demo_walk Let_def del: One_nat_def)
  from walk_sets_flags [OF this] show ?thesis
    using w by (simp add: m a demo_items demo_entries)
qed

end
