(* ===== verification/Spec2Isabelle.thy ===== *)
theory Spec2Isabelle
  imports Bcd Shift Bits Pc_Timers Dma Apic_System Pit Mem_Handlers Mem_Rom Ram_Blocks Tlb_Inv Walk_Bus
begin

text \<open>
  The integer core of the Bochs CPU with its paging, the physical memory of the machine, and the interrupt, timer and DMA
  devices of its PC chipset.

  The configuration is the one of src/config.h: 64-bit mode is compiled in, one processor, the local
  and the I/O APIC present, physical addresses of 64 bits, BX\_TIMER\_DEBUG 0.

  Parts of the program and how they interact. An instruction handler of src/cpu reads and writes the
  general registers, computes, and records its result in the lazy flags entry; the six condition
  codes are computed from the entry only when somebody reads them. The devices of src/iodev are
  programmed through I/O ports or a memory window, are driven by the timers of src/pc\_system.cc, and
  raise interrupt lines at the 8259A pair and the I/O APIC, or hold requests for the 8237 pair. Physical memory
  (src/memory) routes every access of the CPU and of DMA to RAM, ROM, the flash chip, SMRAM or the handlers that
  devices register for address ranges. Paging translates linear addresses by tables it reads and marks there, and
  caches the result in two TLBs.

  Theories, in the order of the imports:

  \<^item> \<open>Bochs_Prelude\<close>: the integer types Bit8u .. Bit64s as words, masks and conditions of C, bits of
    sums, and the locale \<open>device\<close> (a transition system with an inductive invariant).
  \<^item> \<open>Lazy_Flags\<close> (src/cpu/lazy\_flags.h): the record \<open>bx_lazyflags_entry\<close>, its getters, setters and the
    recording macros; \<open>lf_abs\<close> reads the six architectural flags from an entry, the locale
    \<open>flag_cell\<close> is the contract of one getter and setter, and the macros are proved to record the flags
    the instruction set manual defines for sums, differences and logical results.
  \<^item> \<open>Cpu_State\<close> (src/cpu/cpu.h, flag\_ctrl.cc, flag\_ctrl\_pro.cc): general registers with the access macros
    (locale \<open>reg_view\<close>: what a partial write changes), EFLAGS and the flag instructions.
  \<^item> \<open>Arith\<close> (src/cpu/arith8.cc .. arith64.cc): the register and immediate forms; the specification is the
    operation on the accumulator with its flags, the handlers refine it at four widths.
  \<^item> \<open>Logic\<close> (src/cpu/logical8.cc .. logical64.cc): AND, OR, XOR, TEST, NOT in the same way.
  \<^item> \<open>Conditions\<close> (src/cpu/bit.cc, data\_xfer8.cc .. data\_xfer64.cc): SETcc, CMOVcc, MOV, MOVZX, MOVSX and
    XCHG; the sixteen conditions are read after CMP as comparisons of numbers, signed and unsigned.
  \<^item> \<open>Shift\<close> (src/cpu/shift8.cc .. shift64.cc, scalar\_arith.h): rotates, shifts and double shifts against
    the reference that repeats a step of a single bit (\<open>step_ROL\<close> .. \<open>step_SHRD\<close>) as often as the count says.
  \<^item> \<open>Bits\<close> (src/cpu/bit16.cc .. bit64.cc, bit.cc, scalar\_arith.h, src/misc/bswap.h): bit scans, counts, bit
    tests and BSWAP against positions and cardinalities of the set of bits.
  \<^item> \<open>Wide_Int\<close> (src/cpu/wide\_int.cc): 128-bit products and the restoring division against \<open>int\<close>.
  \<^item> \<open>Mult\<close> (src/cpu/mult8.cc .. mult64.cc): multiplication and division, the divide error as a value.
  \<^item> \<open>Bcd\<close> (src/cpu/bcd.cc): decimal adjustment, composed with the additions of \<open>Arith\<close>.
  \<^item> \<open>Pic\<close> (src/iodev/pic.cc, pic.h): the two 8259A controllers; priority resolution against its
    specification, the invariant of all reachable states, delivery through the cascade.
  \<^item> \<open>Pc_Timers\<close> (src/pc\_system.cc, pc\_system.h): the timer slots and the countdown; every timer fires at the
    ticks of its schedule, and the loop of \<open>tickn\<close> ends.
  \<^item> \<open>Dma\<close> (src/iodev/dma.cc, dma.h): the two 8237 controllers, the byte-wise programming of 16-bit
    registers, and a transfer up to its terminal count, with its accesses on the bus against a reference
    (\<open>transfer_log\<close>).
  \<^item> \<open>Ioapic\<close> (src/iodev/ioapic.cc, ioapic.h): the redirection table, masking and delivery.

  \<^item> \<open>Lapic\<close> (src/cpu/apic.cc, apic.h): the local APICs, their registers in xAPIC and x2APIC mode, timers,
    interprocessor interrupts and the bus, for any number of processors.
  \<^item> \<open>Apic_Priority\<close>: its lemmas. Vector registers are sets of vectors and the priority search is their
    maximum; the reachable states satisfy an invariant under which no interrupt is held back;
    acknowledge, end of interrupt, lowest-priority arbitration and the count of the timer.
  \<^item> \<open>Apic_System\<close> (src/cpu/event.cc): the I/O APIC on that bus beside the 8259A pair, and the way of an
    interrupt from a pin to the processor and back.
  \<^item> \<open>Pit82c54\<close> (src/iodev/pit82c54.cc, pit82c54.h): the interval timer chip, three counters with their six
    modes, single clocks and jumps over clocks without an event, the port protocol with its latches.
  \<^item> \<open>Pit_Clock\<close>: its lemmas. The locale \<open>event_clock\<close> states when a jump over n clocks equals n single
    clocks, each mode is an instance, and \<open>clock_multiple\<close> is shown equal to iterated clocking for every count it
    handles, with the counts it does not handle as counterexamples; the rate generator and the latched count follow.
  \<^item> \<open>Pit\<close> (src/iodev/pit.cc, pit.h): the device, which turns virtual microseconds into clocks; no clock is
    lost or counted twice over any sequence of calls. Its calls to the interrupt controller are values.
  \<^item> \<open>Crc\<close> (src/crc.cc): the table-driven checksum against the bit-serial one.
  \<^item> \<open>Phys_Mem\<close> (src/memory/memory.cc, misc\_mem.cc, memory\_stub.cc, the monitor of src/cpu/mwait.cc): reads and
    writes of physical pages, direct host pointers, DMA, the debugger's accesses, flash, SMRAM, shadow RAM.
  \<^item> \<open>Mem_Access\<close>: its lemmas. RAM is read after write, and the DMA shortcut through a host pointer is the
    byte-by-byte access.
  \<^item> \<open>Mem_Handlers\<close> (misc\_mem.cc): registration of memory handlers. Ranges stay exclusive, the removal of a range
    forgets it wherever later registrations have put it in the chains, accesses reach the handler of their range.
  \<^item> \<open>Mem_Rom\<close> (misc\_mem.cc): loading of ROM images and where they are seen, the command sequences of the flash chip.
  \<^item> \<open>Ram_Blocks\<close> (memory\_stub.cc): the allocator behind \<open>get_vector\<close>, which swaps blocks to a file; it
    refines an array of bytes, so that \<open>Phys_Mem\<close> has RAM as a function.
  \<^item> \<open>Paging\<close> (src/cpu/paging.cc, tlb.h): the walks of legacy, PAE and long mode, their faults, the accessed and dirty
    bits, and the TLBs of data and instructions with their flushes.
  \<^item> \<open>Tlb\<close> and \<open>Tlb_Inv\<close>: the shape of a TLB, kept by every operation; INVLPG misses no entry, small or large.
  \<^item> \<open>Tlb_Rights\<close>: the permission check against the rules of the architecture, and the rights cached in an entry
    against a walk.
  \<^item> \<open>Cpu_Bus\<close> (paging.cc): the physical accesses of the CPU, which the local APIC and \<open>Phys_Mem\<close> serve.
  \<^item> \<open>Paging_Walk\<close> and \<open>Walk_Bus\<close>: the locales \<open>entry_memory\<close> and \<open>table_memory\<close> state what a walk needs of memory, and the
    physical memory of the CPU provides it; a translation marks exactly its path and can be repeated.
  \<^item> this theory: those values applied to the interrupt controllers of \<open>Pic\<close>, so that a timer period
    reaches the CPU as an interrupt with its vector.

  Conventions. A C++ object is a record and a method takes and returns it. Integers keep their
  width as words, and C's promotions are written out with \<open>ucast\<close> and \<open>scast\<close>. A raised CPU exception is
  the left side of a sum. \<open>BX_PANIC\<close> does not stop the emulator (the user may continue), so the model
  records it and goes on as the code does. Code the model does not contain is an argument: the
  callbacks of timers (as the list of calls they make back), the DMA devices, the bus that \<open>Ioapic\<close> is
  proved for (\<open>Apic_System\<close> puts the local APICs there), the conversion between microseconds and ticks through \<open>double\<close>.

  Bounds and fuel. The priority loops of the 8259A run over eight lines and get fuel 8. The loops of
  the restoring division count at most 128 shifts. \<open>tickn\<close> is a \<open>partial_function\<close>, its termination is
  proved, as is that of the loop of BSR. The loops of TZCNT and LZCNT end because the mask leaves the
  word, those of the interval timer (\<open>take_seconds\<close>, \<open>run_clocks\<close>, \<open>decrement_multiple\<close>,
  \<open>clock_multiple_counter\<close>) because the remaining clocks or microseconds get fewer.
  The walks recurse on the level of the table, from 4 or 3 (long mode) or 1 down to 0.
  The search for a block to swap out (\<open>find_victim\<close>) is a \<open>partial_function\<close> that is proved to end while some buffer is
  in no TLB, and to end without its fatal panic while two are; the loop of \<open>dbg_crc32\<close> is one that is proved not to end.
  Statements about the timers assume that the clock stays below 2 to the power 63 ticks.

  Not modelled: segmentation and the delivery of exceptions, and with them the memory forms of the
  instructions; nested paging and extended page tables (the CPU is outside of a guest), and memory types; the stamps of pages with decoded instructions, and the I/O debug hook of memory accesses; the floating point and vector units, whose arithmetic is third-party code;
  virtualisation; disks, display, network and sound; the user interface, the debugger and the BIOS,
  which is guest code. Saving and restoring of the state, the registration of configuration
  parameters and log output are left out of every modelled class.
\<close>

section \<open>The timer interrupt\<close>

primrec on_pic :: "pit_effect \<Rightarrow> pic_dev \<Rightarrow> pic_dev" where
  "on_pic (Pic_raise k) d = raise_irq k d"
| "on_pic (Pic_lower k) d = lower_irq k d"
| "on_pic (Speaker_line b) d = d"
| "on_pic (Beep_on v) d = d"
| "on_pic Beep_off d = d"
| "on_pic Register_timer d = d"
| "on_pic (Deactivate_timer h) d = d"
| "on_pic (Activate_timer h v) d = d"

lemma on_pic_filter: "fold on_pic es d = fold on_pic (filter pic_effect es) d"
proof (induction es arbitrary: d)
  case (Cons e es)
  then show ?case by (cases e) simp_all
qed simp

text \<open>Lowering a line that is low changes nothing but the log of the I/O APIC calls.\<close>

lemma lower_low_line:
  assumes "pic_inv d" "ready 0 (master_pic d)"
  shows "pic_inv (lower_irq 0 d)" "master_pic (lower_irq 0 d) = master_pic d"
  using assms by (simp_all add: lower_irq_inv) (simp add: lower_irq_def Let_def ready_def)

lemma rate_first_period:
  assumes "GATE (counter p 0)" "\<not> triggerGATE (counter p 0)" "out_handler (counter p 0)"
    and "rate lsb msb \<noteq> 1" "rate lsb msb < n" "n < 2 * rate lsb msb" "n < 2 ^ 32"
  defines "q \<equiv> program_rate lsb msb p"
  shows "new_calls 0 q ((clock_each ^^ n) q) = [False, True]"
proof -
  define N where "N = rate lsb msb"
  have N: "2 \<le> N" using rate_range(1) [OF assms(4)] by (simp add: N_def)
  define w where "w = (of_nat n :: u32)"
  have w: "unat w = n" using assms(7) by (simp add: w_def unat_of_nat)
  have "N < n" "n < 2 * N" using assms(5,6) by (simp_all add: N_def)
  then have t: "(n - 1) div N = 1" "(n - 1) mod N \<noteq> N - 1"
    using N by (auto simp: div_nat_eqI mod_if)
  have "0 < w" using \<open>N < n\<close> w by (simp add: word_less_nat_alt)
  from rate_generator [OF assms(1-4) this] w t
  have "out_calls (counter (clock_multiple 0 w q) 0) = out_calls (counter q 0) @ [False, True]"
    by (simp add: q_def Let_def N_def)
  moreover have "pit_sync (counter q 0)" unfolding q_def by (rule programmed_sync [OF assms(1-4)])
  then have "counter (clock_multiple 0 w q) 0 = counter ((clock_each ^^ n) q) 0"
    by (simp add: clock_multiple_def MAX_COUNTER_def upd_counter_def clock_each_counters pit_clock_multiple_counter w)
  ultimately show ?thesis by (simp add: new_calls_def)
qed

section \<open>Properties that span components\<close>

text \<open>C40: The timer interrupt reaches the CPU.  Counter 0 of the interval timer has been programmed as a
  rate generator and one period, but not two, of virtual time passes in one call of \<open>periodic\<close>; the
  calls it makes are applied to an interrupt controller that is ready for line 0.  Then the INTR line
  is up, the acknowledge cycle returns the vector of line 0, and line 0 is in service.\<close>

theorem timer_tick_interrupt:
  assumes "GATE (counter p 0)" "\<not> triggerGATE (counter p 0)" "out_handler (counter p 0)" "rate lsb msb \<noteq> 1"
    and "chip s = program_rate lsb msb p" "chip_sync (chip s)" "time_ok s" "irq_enabled s" "effects s = []"
    and "unat d \<le> 3500000000" "rate lsb msb < clocks_of (unat (total_usec s) + unat d) - clocks_of (unat (total_usec s))"
    and "clocks_of (unat (total_usec s) + unat d) - clocks_of (unat (total_usec s)) < 2 * rate lsb msb"
    and "pic_inv c" "ready 0 (master_pic c)"
  shows "(let e = fold on_pic (effects (periodic d s)) c; (vector, e') = IAC e
          in intr e \<and> vector = interrupt_offset (master_pic c) \<and> isr (master_pic e') = 1 \<and> \<not> intr e')"
proof -
  define n where "n = clocks_of (unat (total_usec s) + unat d) - clocks_of (unat (total_usec s))"
  have n: "rate lsb msb < n" "n < 2 * rate lsb msb" using assms(11,12) by (simp_all add: n_def)
  then have "n < 2 ^ 32" using rate_range(2) [of lsb msb] by simp
  from rate_first_period [OF assms(1-4) n this] have calls: "new_calls 0 (chip s) ((clock_each ^^ n) (chip s)) = [False, True]"
    by (simp add: assms(5))
  have "chip (periodic d s) = (clock_each ^^ n) (chip s)" using periodic_steps [OF assms(6,7,10)] by (simp add: n_def)
  then have "filter pic_effect (effects (periodic d s)) = [Pic_lower 0, Pic_raise 0]"
    using periodic_pic_effects [OF assms(6,8), of d] calls assms(9) by (simp add: irq_calls_def)
  then have e: "fold on_pic (effects (periodic d s)) c = raise_irq 0 (lower_irq 0 c)"
    by (subst on_pic_filter) simp
  note low = lower_low_line [OF assms(13,14)]
  have "ready 0 (master_pic (lower_irq 0 c))" using assms(14) low(2) by simp
  from deliver_master [OF low(1) this] show ?thesis
    unfolding e Let_def by (simp add: low(2) split_beta shl1_def)
qed

theorem timer_tick_interrupt_witness:
  "fst (IAC (fold on_pic (effects (periodic 60000 (new_pit (program_rate 0 0 fresh_pit)))) (pic_write 0x21 0x00 (init_pics True))))
     = interrupt_offset (master_pic (pic_write 0x21 0x00 (init_pics True)))"
proof -
  have c: "clocks_of 60000 = 71590" "clocks_of 0 = 0" by (simp_all add: clocks_of_def TICKS_PER_SECOND_def USEC_PER_SECOND_def)
  have r: "rate 0 0 = 65536" by (simp add: rate_def)
  let ?s = "new_pit (program_rate 0 0 fresh_pit)"
  have s: "chip ?s = program_rate 0 0 fresh_pit" "irq_enabled ?s" "effects ?s = []" "total_usec ?s = 0" by (simp_all add: new_pit_def)
  have t: "time_ok ?s" by (simp add: time_ok_def new_pit_def c USEC_PER_SECOND_def)
  have y: "chip_sync (chip ?s)" using programmed_chip_sync [of 0 0] by (simp add: s r)
  have f: "GATE (counter fresh_pit 0)" "\<not> triggerGATE (counter fresh_pit 0)" "out_handler (counter fresh_pit 0)"
    by (simp_all add: fresh_pit_counter counter_init_def)
  have "rate 0 0 \<noteq> 1" "unat (60000 :: u32) \<le> 3500000000" "rate 0 0 < clocks_of (unat (total_usec ?s) + unat (60000 :: u32)) - clocks_of (unat (total_usec ?s))"
    "clocks_of (unat (total_usec ?s) + unat (60000 :: u32)) - clocks_of (unat (total_usec ?s)) < 2 * rate 0 0"
    by (simp_all add: s r c)
  from timer_tick_interrupt [OF f this(1) s(1) y t s(2,3) this(2-4) pic_write_inv [OF init_pics_inv]
      ready_after_unmask [of 0, THEN iffD2]]
  show ?thesis by (simp add: Let_def split_beta)
qed

end
